(* ===== verification/Prelude.thy ===== *)
theory Prelude
  imports Main "HOL-Library.Word"
begin

section \<open>Prelude: shared types, collections and lemmas\<close>

text \<open>
  The errno values the modelled code returns, the result type of a C function that
  returns a negative errno, and the generic list and map lemmas that the component
  theories share.  An \<open>int\<close> result \<open>r\<close> of the C code is modelled as
  \<open>Inl e\<close> when \<open>r = -e\<close> and as \<open>Inr x\<close> when \<open>r \<ge> 0\<close>, with
  \<open>x\<close> whatever the function hands back on success.
\<close>

datatype errno =
    EEXIST | EAGAIN | ENOEXEC | EINVAL | EBADR | EPERM | EALREADY | ENOENT
  | ENOMEM | ERANGE | ECANCELED | EIO | E2BIG | ESRCH | EBUSY | EOPNOTSUPP
  | EBADMSG | ENODEV | EBADF | ELOOP | EACCES | EAFNOSUPPORT | EPIPE | ENOTDIR | EBADFD

type_synonym 'a result = "errno + 'a"

definition errno_number :: "errno \<Rightarrow> int" where
  "errno_number err =
     (case err of
        EPERM \<Rightarrow> 1 | ENOENT \<Rightarrow> 2 | ESRCH \<Rightarrow> 3 | EIO \<Rightarrow> 5 | E2BIG \<Rightarrow> 7 | ENOEXEC \<Rightarrow> 8 | EBADF \<Rightarrow> 9
      | EAGAIN \<Rightarrow> 11 | ENOMEM \<Rightarrow> 12 | EACCES \<Rightarrow> 13 | EBUSY \<Rightarrow> 16 | EEXIST \<Rightarrow> 17 | ENODEV \<Rightarrow> 19
      | ENOTDIR \<Rightarrow> 20 | EINVAL \<Rightarrow> 22 | EPIPE \<Rightarrow> 32 | ERANGE \<Rightarrow> 34 | ELOOP \<Rightarrow> 40 | EBADR \<Rightarrow> 53
      | EBADMSG \<Rightarrow> 74 | EBADFD \<Rightarrow> 77 | EOPNOTSUPP \<Rightarrow> 95 | EAFNOSUPPORT \<Rightarrow> 97 | EALREADY \<Rightarrow> 114
      | ECANCELED \<Rightarrow> 125)"

text \<open>
  \<^item> \<open>omap_laws\<close>: how the insertion-ordered map operations look up and list their keys;
  \<^item> \<open>job_defs\<close>: the definitions of the job type tables, unfolded to case splits;
  \<^item> \<open>heap_simps\<close>: reading a job or a dependency after an update of another field.
\<close>

named_theorems omap_laws
named_theorems job_defs
named_theorems heap_simps

subsection \<open>Lists\<close>

lemma length_filter_less:
  "x \<in> set xs \<Longrightarrow> \<not> P x \<Longrightarrow> length (filter P xs) < length xs"
  by (induction xs) (auto simp: le_imp_less_Suc)

lemma map_of_SomeD_mem: "map_of xs k = Some v \<Longrightarrow> (k, v) \<in> set xs"
  by (rule map_of_SomeD)

lemma map_of_filter_key [simp]:
  "map_of (filter (\<lambda>p. fst p \<noteq> k) xs) k' = (if k' = k then None else map_of xs k')"
  by (induction xs) auto

lemma length_filter_key_less:
  "map_of xs k = Some v \<Longrightarrow> length (filter (\<lambda>p. fst p \<noteq> k) xs) < length xs"
  by (rule length_filter_less [of "(k, v)"]) (auto dest: map_of_SomeD)

lemma distinct_map_filter_fst:
  "distinct (map fst xs) \<Longrightarrow> distinct (map fst (filter P xs))"
  by (induction xs) auto

lemma set_remove1_distinct [simp]:
  "distinct xs \<Longrightarrow> set (remove1 x xs) = set xs - {x}"
  by (rule set_remove1_eq)

lemma filter_neq_idem: "l \<notin> set ls \<Longrightarrow> filter (\<lambda>x. x \<noteq> l) ls = ls"
  by (induction ls) auto

lemma hd_drop_tl: "xs \<noteq> [] \<Longrightarrow> hd xs # tl xs = xs"
  by simp

end
