(* ===== verification/Ordered_Map.thy ===== *)
theory Ordered_Map
  imports Prelude
begin

section \<open>Insertion-ordered maps: the contract of Hashmap\<close>

text \<open>
  A \<open>Hashmap\<close> of systemd promises more than a finite map: \<open>HASHMAP_FOREACH\<close>
  visits the entries in the order in which their keys were first put, and the transaction
  code of \<open>manager.c\<close> iterates, deletes and restarts under that order.  The
  abstract value of a hashmap is therefore an association list with distinct keys, and
  the operations below are its specification.  The manager model uses these operations
  directly; the theory \<open>Hashmap\<close> proves that the bucket table of
  \<open>hashmap.c\<close> implements them.
\<close>

type_synonym ('k, 'v) omap = "('k \<times> 'v) list"

abbreviation omap_keys :: "('k, 'v) omap \<Rightarrow> 'k list" where
  "omap_keys xs \<equiv> map fst xs"

definition omap_get :: "('k, 'v) omap \<Rightarrow> 'k \<Rightarrow> 'v option" where
  "omap_get xs k = map_of xs k"

definition omap_put :: "'k \<Rightarrow> 'v \<Rightarrow> ('k, 'v) omap \<Rightarrow> nat result \<times> ('k, 'v) omap" where
  "omap_put k v xs =
     (case map_of xs k of
        Some w \<Rightarrow> (if w = v then Inr 0 else Inl EEXIST, xs)
      | None \<Rightarrow> (Inr 1, xs @ [(k, v)]))"

definition omap_replace :: "'k \<Rightarrow> 'v \<Rightarrow> ('k, 'v) omap \<Rightarrow> ('k, 'v) omap" where
  "omap_replace k v xs =
     (if k \<in> set (omap_keys xs)
      then map (\<lambda>p. if fst p = k then (k, v) else p) xs
      else xs @ [(k, v)])"

definition omap_remove :: "'k \<Rightarrow> ('k, 'v) omap \<Rightarrow> ('k, 'v) omap" where
  "omap_remove k xs = filter (\<lambda>p. fst p \<noteq> k) xs"

definition omap_remove_value :: "'k \<Rightarrow> 'v \<Rightarrow> ('k, 'v) omap \<Rightarrow> ('k, 'v) omap" where
  "omap_remove_value k v xs = (if map_of xs k = Some v then omap_remove k xs else xs)"

subsection \<open>Laws\<close>

lemma map_of_map_upd:
  "map_of (map (\<lambda>p. if fst p = k then (k, v) else p) xs) k' =
     (if k' = k \<and> k \<in> set (omap_keys xs) then Some v else map_of xs k')"
  by (induction xs) (auto simp: rev_image_eqI)

lemma omap_get_None_iff [omap_laws]: "omap_get xs k = None \<longleftrightarrow> k \<notin> set (omap_keys xs)"
  by (simp add: omap_get_def map_of_eq_None_iff)

lemma omap_get_replace [omap_laws, simp]:
  "omap_get (omap_replace k v xs) k' = (if k' = k then Some v else omap_get xs k')"
  by (auto simp: omap_get_def omap_replace_def map_of_map_upd map_add_def
      dest: map_of_SomeD intro: rev_image_eqI split: option.splits)

lemma omap_get_remove [omap_laws, simp]:
  "omap_get (omap_remove k xs) k' = (if k' = k then None else omap_get xs k')"
  by (simp add: omap_get_def omap_remove_def)

lemma omap_get_remove_value [omap_laws, simp]:
  "omap_get (omap_remove_value k v xs) k' =
     (if k' = k \<and> omap_get xs k = Some v then None else omap_get xs k')"
  by (auto simp: omap_remove_value_def omap_get_def omap_remove_def)

lemma omap_keys_replace [omap_laws]:
  "omap_keys (omap_replace k v xs) =
     (if k \<in> set (omap_keys xs) then omap_keys xs else omap_keys xs @ [k])"
  by (induction xs) (auto simp: omap_replace_def)

lemma omap_keys_remove [omap_laws]:
  "omap_keys (omap_remove k xs) = filter (\<lambda>k'. k' \<noteq> k) (omap_keys xs)"
  by (induction xs) (auto simp: omap_remove_def)

lemma set_omap_keys_remove [omap_laws]:
  "set (omap_keys (omap_remove k xs)) = set (omap_keys xs) - {k}"
  unfolding omap_keys_remove by auto

lemma distinct_omap_replace [omap_laws, intro]:
  "distinct (omap_keys xs) \<Longrightarrow> distinct (omap_keys (omap_replace k v xs))"
  by (auto simp: omap_keys_replace)

lemma distinct_omap_remove [omap_laws, intro]:
  "distinct (omap_keys xs) \<Longrightarrow> distinct (omap_keys (omap_remove k xs))"
  by (auto simp: omap_keys_remove)

lemma distinct_omap_remove_value [omap_laws, intro]:
  "distinct (omap_keys xs) \<Longrightarrow> distinct (omap_keys (omap_remove_value k v xs))"
  by (auto simp: omap_remove_value_def intro: distinct_omap_remove)

lemma omap_get_mem: "distinct (omap_keys xs) \<Longrightarrow> omap_get xs k = Some v \<longleftrightarrow> (k, v) \<in> set xs"
  by (simp add: omap_get_def)

lemma omap_get_SomeD: "omap_get xs k = Some v \<Longrightarrow> (k, v) \<in> set xs"
  by (simp add: omap_get_def map_of_SomeD)

lemma length_omap_remove_less:
  "omap_get xs k = Some v \<Longrightarrow> length (omap_remove k xs) < length xs"
  unfolding omap_remove_def omap_get_def by (rule length_filter_key_less)

subsection \<open>The interface\<close>

text \<open>
  What a client of \<open>Hashmap\<close> may rely on.  \<open>tiles\<close> are the addresses the
  memory allocator hands out next (an empty list is a failing allocation); \<open>fresh\<close>
  says that none of them is in use in the map.
\<close>

locale ordered_map =
  fixes entries :: "'h \<Rightarrow> ('k, 'v) omap"
    and invar :: "'h \<Rightarrow> bool"
    and fresh :: "'t list \<Rightarrow> 'h \<Rightarrow> bool"
    and get :: "'h \<Rightarrow> 'k \<Rightarrow> 'v option"
    and put :: "'t list \<Rightarrow> 'k \<Rightarrow> 'v \<Rightarrow> 'h \<Rightarrow> nat result \<times> 'h \<times> 't list"
    and remove :: "'k \<Rightarrow> 'h \<Rightarrow> 'v option \<times> 'h"
    and size_of :: "'h \<Rightarrow> nat"
  assumes entries_distinct: "invar h \<Longrightarrow> distinct (omap_keys (entries h))"
    and get_entries: "invar h \<Longrightarrow> get h k = omap_get (entries h) k"
    and put_entries:
      "\<lbrakk> invar h; fresh (t # ts) h; put (t # ts) k v h = (r, h', ts') \<rbrakk>
         \<Longrightarrow> (r, entries h') = omap_put k v (entries h)"
    and put_invar:
      "\<lbrakk> invar h; fresh ts h; put ts k v h = (r, h', ts') \<rbrakk> \<Longrightarrow> invar h' \<and> fresh ts' h'"
    and remove_entries:
      "\<lbrakk> invar h; remove k h = (d, h') \<rbrakk>
         \<Longrightarrow> d = omap_get (entries h) k \<and> entries h' = omap_remove k (entries h)"
    and remove_invar: "\<lbrakk> invar h; remove k h = (d, h') \<rbrakk> \<Longrightarrow> invar h'"
    and size_entries: "invar h \<Longrightarrow> size_of h = length (entries h)"
begin

lemma get_after_put:
  assumes "invar h" and "fresh (t # ts) h" and "get h k = None"
    and "put (t # ts) k v h = (r, h', ts')"
  shows "r = Inr 1 \<and> get h' k' = (if k' = k then Some v else get h k')"
proof -
  have "invar h'" using put_invar assms by blast
  moreover have "(r, entries h') = omap_put k v (entries h)" using put_entries assms by blast
  moreover have "map_of (entries h) k = None"
    using assms(1,3) by (simp add: get_entries omap_get_def)
  ultimately show ?thesis
    using assms(1) by (simp add: get_entries omap_put_def omap_get_def map_add_def split: option.splits)
qed

lemma get_after_remove:
  assumes "invar h" and "remove k h = (d, h')"
  shows "d = get h k \<and> get h' k' = (if k' = k then None else get h k')"
  using remove_entries [OF assms] remove_invar [OF assms] assms(1)
  by (simp add: get_entries)

lemma size_after_put:
  assumes "invar h" and "fresh (t # ts) h" and "put (t # ts) k v h = (r, h', ts')"
  shows "size_of h' = size_of h + (case r of Inr n \<Rightarrow> n | Inl _ \<Rightarrow> 0)"
proof -
  have "invar h'" using put_invar assms by blast
  moreover have "(r, entries h') = omap_put k v (entries h)" using put_entries assms by blast
  ultimately show ?thesis
    using assms(1) by (auto simp: size_entries omap_put_def split: option.splits if_splits)
qed

text \<open>A key that was put and not removed keeps its place in the iteration order.\<close>

lemma put_keeps_order:
  assumes "invar h" and "fresh (t # ts) h" and "put (t # ts) k v h = (r, h', ts')"
  shows "\<exists>new. entries h' = entries h @ new"
proof -
  have "(r, entries h') = omap_put k v (entries h)" using put_entries assms by blast
  then show ?thesis by (auto simp: omap_put_def split: option.splits)
qed

end

end
