(* ===== verification/Hashmap.thy ===== *)
theory Hashmap
  imports Ordered_Map
begin

section \<open>The hash table (src/src/hashmap.c, set.c)\<close>

text \<open>
  A \<open>Hashmap\<close> is a table of \<open>NBUCKETS\<close> chains and one list through all
  entries in insertion order.  Both lists link the same \<open>hashmap_entry\<close> objects, so
  entries are modelled as addresses (\<open>eref\<close>) into an entry store: writing
  \<open>e->value\<close> is seen by both lists.  A doubly linked list is the list of its items;
  linking at its head or tail and unlinking are \<open>(#)\<close>, \<open>@ [e]\<close> and
  \<open>remove1\<close>.  A \<open>NULL\<close> hashmap is \<open>None\<close>.  Allocation takes the next
  address of a supply \<open>tiles\<close>; an empty supply is a \<open>NULL\<close> from the allocator.
\<close>

type_synonym eref = nat

definition NBUCKETS :: nat where
  "NBUCKETS = 127"

record ('k, 'v) hashmap =
  hash_func :: "'k \<Rightarrow> 32 word"
  compare_func :: "'k \<Rightarrow> 'k \<Rightarrow> int"
  by_hash :: "nat \<Rightarrow> eref list"
  iterate_list :: "eref list"
  n_entries :: nat
  entry :: "eref \<Rightarrow> ('k \<times> 'v) option"

text \<open>DJB's hash over the bytes of the string, each read as a \<open>signed char\<close>.\<close>

fun string_hash_loop :: "32 word \<Rightarrow> string \<Rightarrow> 32 word" where
  "string_hash_loop hash [] = hash"
| "string_hash_loop hash (c # cs) =
     string_hash_loop (push_bit 5 hash + hash + signed_take_bit 7 (of_char c)) cs"

definition string_hash_func :: "string \<Rightarrow> 32 word" where
  "string_hash_func p = string_hash_loop 5381 p"

text \<open>\<open>strcmp\<close> compares as unsigned bytes; only the sign of its result is specified.\<close>

fun string_compare_func :: "string \<Rightarrow> string \<Rightarrow> int" where
  "string_compare_func [] [] = 0"
| "string_compare_func [] (b # bs) = -1"
| "string_compare_func (a # as) [] = 1"
| "string_compare_func (a # as) (b # bs) =
     (if (of_char a :: nat) = of_char b then string_compare_func as bs
      else if (of_char a :: nat) < of_char b then -1 else 1)"

text \<open>Keys that are pointers or integers cast to pointers (64 bit).\<close>

definition trivial_hash_func :: "64 word \<Rightarrow> 32 word" where
  "trivial_hash_func p = ucast p"

definition trivial_compare_func :: "64 word \<Rightarrow> 64 word \<Rightarrow> int" where
  "trivial_compare_func a b = (if a < b then -1 else if a > b then 1 else 0)"

definition hashmap_new ::
    "('k \<Rightarrow> 32 word) \<Rightarrow> ('k \<Rightarrow> 'k \<Rightarrow> int) \<Rightarrow> ('k, 'v) hashmap" where
  "hashmap_new hf cf =
     \<lparr>hash_func = hf, compare_func = cf, by_hash = (\<lambda>_. []), iterate_list = [],
      n_entries = 0, entry = Map.empty\<rparr>"

definition bucket_of :: "('k, 'v) hashmap \<Rightarrow> 'k \<Rightarrow> nat" where
  "bucket_of h key = unat (hash_func h key) mod NBUCKETS"

abbreviation e_key :: "('k, 'v) hashmap \<Rightarrow> eref \<Rightarrow> 'k" where
  "e_key h e \<equiv> fst (the (entry h e))"

abbreviation e_value :: "('k, 'v) hashmap \<Rightarrow> eref \<Rightarrow> 'v" where
  "e_value h e \<equiv> snd (the (entry h e))"

definition link_entry :: "('k, 'v) hashmap \<Rightarrow> eref \<Rightarrow> nat \<Rightarrow> ('k, 'v) hashmap" where
  "link_entry h e hash =
     h\<lparr>by_hash := (by_hash h)(hash := e # by_hash h hash),
       iterate_list := iterate_list h @ [e],
       n_entries := n_entries h + 1\<rparr>"

definition unlink_entry :: "('k, 'v) hashmap \<Rightarrow> eref \<Rightarrow> nat \<Rightarrow> ('k, 'v) hashmap" where
  "unlink_entry h e hash =
     h\<lparr>iterate_list := remove1 e (iterate_list h),
       by_hash := (by_hash h)(hash := remove1 e (by_hash h hash)),
       n_entries := n_entries h - 1\<rparr>"

definition remove_entry :: "('k, 'v) hashmap \<Rightarrow> eref \<Rightarrow> ('k, 'v) hashmap" where
  "remove_entry h e =
     (let h' = unlink_entry h e (bucket_of h (e_key h e))
      in h'\<lparr>entry := (entry h')(e := None)\<rparr>)"

definition hash_scan :: "('k, 'v) hashmap \<Rightarrow> nat \<Rightarrow> 'k \<Rightarrow> eref option" where
  "hash_scan h hash key = List.find (\<lambda>e. compare_func h (e_key h e) key = 0) (by_hash h hash)"

function hashmap_clear :: "('k, 'v) hashmap \<Rightarrow> ('k, 'v) hashmap" where
  "hashmap_clear h =
     (case iterate_list h of [] \<Rightarrow> h | e # _ \<Rightarrow> hashmap_clear (remove_entry h e))"
  by pat_completeness auto
termination
  by (relation "measure (\<lambda>h. length (iterate_list h))")
     (auto simp: remove_entry_def unlink_entry_def Let_def)

declare hashmap_clear.simps [simp del]

definition hashmap_put ::
    "eref list \<Rightarrow> 'k \<Rightarrow> 'v \<Rightarrow> ('k, 'v) hashmap \<Rightarrow> nat result \<times> ('k, 'v) hashmap \<times> eref list" where
  "hashmap_put tiles key value h =
     (let hash = bucket_of h key in
      case hash_scan h hash key of
        Some e \<Rightarrow> (if e_value h e = value then Inr 0 else Inl EEXIST, h, tiles)
      | None \<Rightarrow>
          (case tiles of
             [] \<Rightarrow> (Inl ENOMEM, h, tiles)
           | e # tiles' \<Rightarrow>
               (Inr 1, link_entry (h\<lparr>entry := (entry h)(e \<mapsto> (key, value))\<rparr>) e hash, tiles')))"

definition hashmap_replace ::
    "eref list \<Rightarrow> 'k \<Rightarrow> 'v \<Rightarrow> ('k, 'v) hashmap \<Rightarrow> nat result \<times> ('k, 'v) hashmap \<times> eref list" where
  "hashmap_replace tiles key value h =
     (case hash_scan h (bucket_of h key) key of
        Some e \<Rightarrow> (Inr 0, h\<lparr>entry := (entry h)(e \<mapsto> (key, value))\<rparr>, tiles)
      | None \<Rightarrow> hashmap_put tiles key value h)"

fun hashmap_get :: "('k, 'v) hashmap option \<Rightarrow> 'k \<Rightarrow> 'v option" where
  "hashmap_get None key = None"
| "hashmap_get (Some h) key = map_option (e_value h) (hash_scan h (bucket_of h key) key)"

fun hashmap_remove ::
    "('k, 'v) hashmap option \<Rightarrow> 'k \<Rightarrow> 'v option \<times> ('k, 'v) hashmap option" where
  "hashmap_remove None key = (None, None)"
| "hashmap_remove (Some h) key =
     (case hash_scan h (bucket_of h key) key of
        None \<Rightarrow> (None, Some h)
      | Some e \<Rightarrow> (Some (e_value h e), Some (remove_entry h e)))"

fun hashmap_remove_and_put ::
    "('k, 'v) hashmap option \<Rightarrow> 'k \<Rightarrow> 'k \<Rightarrow> 'v \<Rightarrow> nat result \<times> ('k, 'v) hashmap option" where
  "hashmap_remove_and_put None old_key new_key value = (Inl ENOENT, None)"
| "hashmap_remove_and_put (Some h) old_key new_key value =
     (let old_hash = bucket_of h old_key in
      case hash_scan h old_hash old_key of
        None \<Rightarrow> (Inl ENOENT, Some h)
      | Some e \<Rightarrow>
          (let new_hash = bucket_of h new_key in
           case hash_scan h new_hash new_key of
             Some _ \<Rightarrow> (Inl EEXIST, Some h)
           | None \<Rightarrow>
               (let h1 = unlink_entry h e old_hash;
                    h2 = h1\<lparr>entry := (entry h1)(e \<mapsto> (new_key, value))\<rparr>
                in (Inr 0, Some (link_entry h2 e new_hash)))))"

fun hashmap_remove_and_replace ::
    "('k, 'v) hashmap option \<Rightarrow> 'k \<Rightarrow> 'k \<Rightarrow> 'v \<Rightarrow> nat result \<times> ('k, 'v) hashmap option" where
  "hashmap_remove_and_replace None old_key new_key value = (Inl ENOENT, None)"
| "hashmap_remove_and_replace (Some h) old_key new_key value =
     (let old_hash = bucket_of h old_key in
      case hash_scan h old_hash old_key of
        None \<Rightarrow> (Inl ENOENT, Some h)
      | Some e \<Rightarrow>
          (let new_hash = bucket_of h new_key;
               h0 = (case hash_scan h new_hash new_key of
                       Some k \<Rightarrow> if e \<noteq> k then remove_entry h k else h
                     | None \<Rightarrow> h);
               h1 = unlink_entry h0 e old_hash;
               h2 = h1\<lparr>entry := (entry h1)(e \<mapsto> (new_key, value))\<rparr>
           in (Inr 0, Some (link_entry h2 e new_hash))))"

fun hashmap_remove_value ::
    "('k, 'v) hashmap option \<Rightarrow> 'k \<Rightarrow> 'v \<Rightarrow> 'v option \<times> ('k, 'v) hashmap option" where
  "hashmap_remove_value None key value = (None, None)"
| "hashmap_remove_value (Some h) key value =
     (case hash_scan h (bucket_of h key) key of
        None \<Rightarrow> (None, Some h)
      | Some e \<Rightarrow>
          if e_value h e \<noteq> value then (None, Some h)
          else (Some value, Some (remove_entry h e)))"

text \<open>
  Iterators: \<open>ITERATOR_FIRST\<close>, \<open>ITERATOR_LAST\<close> or the address of the entry to
  visit next.  \<open>iterate_next\<close> of an entry is its successor in the iteration list.
\<close>

datatype iterator = ITERATOR_FIRST | ITERATOR_LAST | Iterator_At eref

fun list_next :: "'a list \<Rightarrow> 'a \<Rightarrow> 'a option" where
  "list_next [] e = None"
| "list_next (x # xs) e =
     (if x = e then (case xs of [] \<Rightarrow> None | y # _ \<Rightarrow> Some y) else list_next xs e)"

fun iterate_from ::
    "eref list \<Rightarrow> ('k, 'v) hashmap \<Rightarrow> iterator \<Rightarrow> iterator \<Rightarrow> iterator \<Rightarrow> ('k \<times> 'v) option \<times> iterator" where
  "iterate_from order h start stop i =
     (if i = stop then (None, stop)
      else if i = start \<and> order = [] then (None, stop)
      else (let e = (case i of Iterator_At e \<Rightarrow> e | _ \<Rightarrow> hd order)
            in (entry h e,
                case list_next order e of Some e' \<Rightarrow> Iterator_At e' | None \<Rightarrow> stop)))"

fun hashmap_iterate ::
    "('k, 'v) hashmap option \<Rightarrow> iterator \<Rightarrow> ('k \<times> 'v) option \<times> iterator" where
  "hashmap_iterate None i = (None, ITERATOR_LAST)"
| "hashmap_iterate (Some h) i = iterate_from (iterate_list h) h ITERATOR_FIRST ITERATOR_LAST i"

fun hashmap_iterate_backwards ::
    "('k, 'v) hashmap option \<Rightarrow> iterator \<Rightarrow> ('k \<times> 'v) option \<times> iterator" where
  "hashmap_iterate_backwards None i = (None, ITERATOR_FIRST)"
| "hashmap_iterate_backwards (Some h) i =
     iterate_from (rev (iterate_list h)) h ITERATOR_LAST ITERATOR_FIRST i"

fun hashmap_iterate_skip ::
    "('k, 'v) hashmap option \<Rightarrow> 'k \<Rightarrow> iterator \<Rightarrow> 'v option \<times> iterator" where
  "hashmap_iterate_skip None key i = (None, i)"
| "hashmap_iterate_skip (Some h) key i =
     (case hash_scan h (bucket_of h key) key of
        None \<Rightarrow> (None, i)
      | Some e \<Rightarrow> (Some (e_value h e), Iterator_At e))"

fun hashmap_first :: "('k, 'v) hashmap option \<Rightarrow> 'v option" where
  "hashmap_first None = None"
| "hashmap_first (Some h) = (case iterate_list h of [] \<Rightarrow> None | e # _ \<Rightarrow> Some (e_value h e))"

fun hashmap_last :: "('k, 'v) hashmap option \<Rightarrow> 'v option" where
  "hashmap_last None = None"
| "hashmap_last (Some h) =
     (if iterate_list h = [] then None else Some (e_value h (last (iterate_list h))))"

fun hashmap_steal_first ::
    "('k, 'v) hashmap option \<Rightarrow> 'v option \<times> ('k, 'v) hashmap option" where
  "hashmap_steal_first None = (None, None)"
| "hashmap_steal_first (Some h) =
     (case iterate_list h of
        [] \<Rightarrow> (None, Some h)
      | e # _ \<Rightarrow> (Some (e_value h e), Some (remove_entry h e)))"

fun hashmap_steal_first_key ::
    "('k, 'v) hashmap option \<Rightarrow> 'k option \<times> ('k, 'v) hashmap option" where
  "hashmap_steal_first_key None = (None, None)"
| "hashmap_steal_first_key (Some h) =
     (case iterate_list h of
        [] \<Rightarrow> (None, Some h)
      | e # _ \<Rightarrow> (Some (e_key h e), Some (remove_entry h e)))"

fun hashmap_size :: "('k, 'v) hashmap option \<Rightarrow> nat" where
  "hashmap_size None = 0"
| "hashmap_size (Some h) = n_entries h"

fun hashmap_isempty :: "('k, 'v) hashmap option \<Rightarrow> bool" where
  "hashmap_isempty None = True"
| "hashmap_isempty (Some h) = (n_entries h = 0)"

text \<open>\<open>hashmap_merge\<close> walks the entries of \<open>other\<close>, here given as key-value pairs.\<close>

fun merge_loop ::
    "eref list \<Rightarrow> ('k, 'v) hashmap \<Rightarrow> ('k \<times> 'v) list \<Rightarrow> nat result \<times> ('k, 'v) hashmap \<times> eref list" where
  "merge_loop tiles h [] = (Inr 0, h, tiles)"
| "merge_loop tiles h ((k, v) # es) =
     (case hashmap_put tiles k v h of
        (Inl r, h', tiles') \<Rightarrow>
          if r \<noteq> EEXIST then (Inl r, h', tiles') else merge_loop tiles' h' es
      | (Inr _, h', tiles') \<Rightarrow> merge_loop tiles' h' es)"

definition entries :: "('k, 'v) hashmap \<Rightarrow> ('k, 'v) omap" where
  "entries h = map (\<lambda>e. the (entry h e)) (iterate_list h)"

fun hashmap_merge ::
    "eref list \<Rightarrow> ('k, 'v) hashmap \<Rightarrow> ('k, 'v) hashmap option \<Rightarrow>
     nat result \<times> ('k, 'v) hashmap \<times> eref list" where
  "hashmap_merge tiles h None = (Inr 0, h, tiles)"
| "hashmap_merge tiles h (Some other) = merge_loop tiles h (entries other)"

text \<open>An entry object moves from \<open>other\<close> to \<open>h\<close> with its address.\<close>

definition move_entry ::
    "('k, 'v) hashmap \<Rightarrow> ('k, 'v) hashmap \<Rightarrow> eref \<Rightarrow> ('k, 'v) hashmap \<times> ('k, 'v) hashmap" where
  "move_entry h other e =
     (let k = e_key other e;
          h' = link_entry (h\<lparr>entry := (entry h)(e := entry other e)\<rparr>) e (bucket_of h k);
          other' = unlink_entry other e (bucket_of other k)
      in (h', other'\<lparr>entry := (entry other')(e := None)\<rparr>))"

fun move_loop ::
    "('k, 'v) hashmap \<Rightarrow> ('k, 'v) hashmap \<Rightarrow> eref list \<Rightarrow> ('k, 'v) hashmap \<times> ('k, 'v) hashmap" where
  "move_loop h other [] = (h, other)"
| "move_loop h other (e # es) =
     (let k = e_key other e in
      case hash_scan h (bucket_of h k) k of
        Some _ \<Rightarrow> move_loop h other es
      | None \<Rightarrow> (case move_entry h other e of (h', other') \<Rightarrow> move_loop h' other' es))"

fun hashmap_move ::
    "('k, 'v) hashmap \<Rightarrow> ('k, 'v) hashmap option \<Rightarrow>
     ('k, 'v) hashmap \<times> ('k, 'v) hashmap option" where
  "hashmap_move h None = (h, None)"
| "hashmap_move h (Some other) =
     (case move_loop h other (iterate_list other) of (h', other') \<Rightarrow> (h', Some other'))"

fun hashmap_move_one ::
    "('k, 'v) hashmap \<Rightarrow> ('k, 'v) hashmap option \<Rightarrow> 'k \<Rightarrow>
     nat result \<times> ('k, 'v) hashmap \<times> ('k, 'v) hashmap option" where
  "hashmap_move_one h None key = (Inr 0, h, None)"
| "hashmap_move_one h (Some other) key =
     (case hash_scan h (bucket_of h key) key of
        Some _ \<Rightarrow> (Inl EEXIST, h, Some other)
      | None \<Rightarrow>
          (case hash_scan other (bucket_of other key) key of
             None \<Rightarrow> (Inl ENOENT, h, Some other)
           | Some e \<Rightarrow> (case move_entry h other e of (h', other') \<Rightarrow> (Inr 0, h', Some other'))))"

definition hashmap_copy ::
    "eref list \<Rightarrow> ('k, 'v) hashmap \<Rightarrow> ('k, 'v) hashmap option \<times> eref list" where
  "hashmap_copy tiles h =
     (case hashmap_merge tiles (hashmap_new (hash_func h) (compare_func h)) (Some h) of
        (Inl _, copy, tiles') \<Rightarrow> (None, tiles')
      | (Inr _, copy, tiles') \<Rightarrow> (Some copy, tiles'))"

definition hashmap_get_strv :: "('k, 'v) hashmap \<Rightarrow> 'v list" where
  "hashmap_get_strv h = map snd (entries h)"

text \<open>
  \<open>HASHMAP_FOREACH\<close>: the values a loop with an unchanged hashmap visits.  One unit of
  fuel is one call of \<open>hashmap_iterate\<close>; \<open>None\<close> means that the fuel ran out.
\<close>

fun hashmap_foreach :: "nat \<Rightarrow> ('k, 'v) hashmap option \<Rightarrow> iterator \<Rightarrow> ('k \<times> 'v) list option" where
  "hashmap_foreach 0 h i = None"
| "hashmap_foreach (Suc n) h i =
     (case hashmap_iterate h i of
        (None, i') \<Rightarrow> Some []
      | (Some kv, i') \<Rightarrow> map_option ((#) kv) (hashmap_foreach n h i'))"

subsection \<open>Sets (src/src/set.c)\<close>

text \<open>A set is a hashmap in which every value is its own key.\<close>

type_synonym 'a hset = "('a, 'a) hashmap"

definition set_put :: "eref list \<Rightarrow> 'a hset \<Rightarrow> 'a \<Rightarrow> nat result \<times> 'a hset \<times> eref list" where
  "set_put tiles s value = hashmap_put tiles value value s"

definition set_replace :: "eref list \<Rightarrow> 'a hset \<Rightarrow> 'a \<Rightarrow> nat result \<times> 'a hset \<times> eref list" where
  "set_replace tiles s value = hashmap_replace tiles value value s"

definition set_get :: "'a hset option \<Rightarrow> 'a \<Rightarrow> 'a option" where
  "set_get s value = hashmap_get s value"

definition set_remove :: "'a hset option \<Rightarrow> 'a \<Rightarrow> 'a option \<times> 'a hset option" where
  "set_remove s value = hashmap_remove s value"

definition set_remove_and_put :: "'a hset option \<Rightarrow> 'a \<Rightarrow> 'a \<Rightarrow> nat result \<times> 'a hset option" where
  "set_remove_and_put s old_value new_value = hashmap_remove_and_put s old_value new_value new_value"

definition set_size :: "'a hset option \<Rightarrow> nat" where
  "set_size s = hashmap_size s"

definition set_isempty :: "'a hset option \<Rightarrow> bool" where
  "set_isempty s = hashmap_isempty s"

definition set_merge :: "eref list \<Rightarrow> 'a hset \<Rightarrow> 'a hset option \<Rightarrow> nat result \<times> 'a hset \<times> eref list" where
  "set_merge tiles s other = hashmap_merge tiles s other"

definition set_move :: "'a hset \<Rightarrow> 'a hset option \<Rightarrow> 'a hset \<times> 'a hset option" where
  "set_move s other = hashmap_move s other"

subsection \<open>The representation invariant\<close>

definition hm_invar :: "('k, 'v) hashmap \<Rightarrow> bool" where
  "hm_invar h \<longleftrightarrow>
     (\<forall>a b. compare_func h a b = 0 \<longleftrightarrow> a = b) \<and>
     distinct (iterate_list h) \<and>
     dom (entry h) = set (iterate_list h) \<and>
     distinct (omap_keys (entries h)) \<and>
     (\<forall>i. distinct (by_hash h i)) \<and>
     (\<forall>i. set (by_hash h i) = {e \<in> set (iterate_list h). bucket_of h (e_key h e) = i}) \<and>
     n_entries h = length (iterate_list h)"

definition hm_fresh :: "eref list \<Rightarrow> ('k, 'v) hashmap \<Rightarrow> bool" where
  "hm_fresh tiles h \<longleftrightarrow> distinct tiles \<and> set tiles \<inter> dom (entry h) = {}"

lemma hm_invarD:
  assumes "hm_invar h"
  shows "compare_func h a b = 0 \<longleftrightarrow> a = b"
    and "distinct (iterate_list h)"
    and "dom (entry h) = set (iterate_list h)"
    and "distinct (omap_keys (entries h))"
    and "distinct (by_hash h i)"
    and "set (by_hash h i) = {e \<in> set (iterate_list h). bucket_of h (e_key h e) = i}"
    and "n_entries h = length (iterate_list h)"
  using assms unfolding hm_invar_def by blast+

lemma entries_fst: "omap_keys (entries h) = map (e_key h) (iterate_list h)"
  by (simp add: entries_def)

lemma hm_key_inj:
  assumes "hm_invar h" "e \<in> set (iterate_list h)" "f \<in> set (iterate_list h)" "e_key h e = e_key h f"
  shows "e = f"
proof -
  have "inj_on (e_key h) (set (iterate_list h))"
    using hm_invarD(4) [OF assms(1)] by (simp add: entries_fst distinct_map)
  then show ?thesis using assms(2-4) by (auto dest: inj_onD)
qed

subsection \<open>Scanning a bucket finds the entry of a key\<close>

lemma hash_scan_Some_iff:
  assumes "hm_invar h"
  shows "hash_scan h (bucket_of h k) k = Some e \<longleftrightarrow> e \<in> set (iterate_list h) \<and> e_key h e = k"
proof
  assume "hash_scan h (bucket_of h k) k = Some e"
  then have "e \<in> set (by_hash h (bucket_of h k)) \<and> compare_func h (e_key h e) k = 0"
    unfolding hash_scan_def find_Some_iff by auto
  then show "e \<in> set (iterate_list h) \<and> e_key h e = k"
    by (simp add: hm_invarD(1) [OF assms] hm_invarD(6) [OF assms])
next
  assume e: "e \<in> set (iterate_list h) \<and> e_key h e = k"
  then have b: "e \<in> set (by_hash h (bucket_of h k))"
    by (simp add: hm_invarD(6) [OF assms])
  show "hash_scan h (bucket_of h k) k = Some e"
  proof (cases "hash_scan h (bucket_of h k) k")
    case None
    then show ?thesis using b e
      by (auto simp: hash_scan_def find_None_iff hm_invarD(1) [OF assms])
  next
    case (Some f)
    then have "f \<in> set (by_hash h (bucket_of h k)) \<and> compare_func h (e_key h f) k = 0"
      unfolding hash_scan_def find_Some_iff by auto
    then have "f \<in> set (iterate_list h)" "e_key h f = k"
      by (simp_all add: hm_invarD(1) [OF assms] hm_invarD(6) [OF assms])
    then have "f = e" using e hm_key_inj [OF assms, of f e] by simp
    with Some show ?thesis by simp
  qed
qed

lemma hash_scan_None_iff:
  assumes "hm_invar h"
  shows "hash_scan h (bucket_of h k) k = None \<longleftrightarrow> k \<notin> set (omap_keys (entries h))"
proof -
  have "hash_scan h (bucket_of h k) k = None \<longleftrightarrow> (\<nexists>e. hash_scan h (bucket_of h k) k = Some e)"
    by simp
  also have "\<dots> \<longleftrightarrow> k \<notin> set (omap_keys (entries h))"
    unfolding hash_scan_Some_iff [OF assms] entries_fst by auto
  finally show ?thesis .
qed

lemma omap_get_entries:
  assumes "hm_invar h" "e \<in> set (iterate_list h)"
  shows "omap_get (entries h) (e_key h e) = Some (e_value h e)"
proof -
  have "(e_key h e, e_value h e) \<in> set (entries h)"
    using assms(2) by (force simp: entries_def)
  then show ?thesis using hm_invarD(4) [OF assms(1)] by (simp add: omap_get_mem)
qed

lemma hashmap_get_entries:
  assumes "hm_invar h"
  shows "hashmap_get (Some h) k = omap_get (entries h) k"
proof (cases "hash_scan h (bucket_of h k) k")
  case None
  then show ?thesis
    using hash_scan_None_iff [OF assms] by (simp add: omap_get_None_iff [THEN iffD2])
next
  case (Some e)
  then show ?thesis
    using hash_scan_Some_iff [OF assms] omap_get_entries [OF assms, of e] by auto
qed

subsection \<open>Linking, unlinking and overwriting an entry\<close>

lemma bucket_of_upd [simp]:
  "bucket_of (h\<lparr>entry := x\<rparr>) = bucket_of h"
  "bucket_of (h\<lparr>by_hash := y\<rparr>) = bucket_of h"
  "bucket_of (h\<lparr>iterate_list := z\<rparr>) = bucket_of h"
  "bucket_of (h\<lparr>n_entries := n\<rparr>) = bucket_of h"
  by (simp_all add: bucket_of_def fun_eq_iff)

lemma entries_link:
  assumes "e \<notin> set (iterate_list h)"
  shows "entries (link_entry (h\<lparr>entry := (entry h)(e \<mapsto> (k, v))\<rparr>) e i) = entries h @ [(k, v)]"
  using assms by (auto simp: entries_def link_entry_def)

lemma hm_invar_link:
  assumes inv: "hm_invar h" and e: "e \<notin> dom (entry h)" and k: "k \<notin> set (omap_keys (entries h))"
  shows "hm_invar (link_entry (h\<lparr>entry := (entry h)(e \<mapsto> (k, v))\<rparr>) e (bucket_of h k))" (is "hm_invar ?h")
proof -
  have e': "e \<notin> set (iterate_list h)" using e hm_invarD(3) [OF inv] by simp
  have s: "set (by_hash ?h i) = {f \<in> set (iterate_list ?h). bucket_of ?h (e_key ?h f) = i}" for i
    using e' hm_invarD(6) [OF inv] by (auto simp: link_entry_def)
  have d: "distinct (by_hash ?h i)" for i
    using e' hm_invarD(5,6) [OF inv] by (auto simp: link_entry_def)
  show ?thesis
    unfolding hm_invar_def
  proof (intro conjI allI)
    show "distinct (omap_keys (entries ?h))"
      using k e' hm_invarD(4) [OF inv] by (simp add: entries_link)
    show "dom (entry ?h) = set (iterate_list ?h)"
      using hm_invarD(3) [OF inv] by (auto simp: link_entry_def)
  qed (use s d e' inv in \<open>auto simp: hm_invarD link_entry_def\<close>)
qed

lemma entries_remove:
  assumes inv: "hm_invar h" and e: "e \<in> set (iterate_list h)"
  shows "entries (remove_entry h e) = omap_remove (e_key h e) (entries h)"
proof -
  have "omap_remove (e_key h e) (entries h) =
      map (\<lambda>f. the (entry h f)) (filter (\<lambda>f. e_key h f \<noteq> e_key h e) (iterate_list h))"
    by (simp add: omap_remove_def entries_def filter_map o_def)
  also have "filter (\<lambda>f. e_key h f \<noteq> e_key h e) (iterate_list h) = remove1 e (iterate_list h)"
    unfolding distinct_remove1_removeAll [OF hm_invarD(2) [OF inv]] removeAll_filter_not_eq
    using hm_key_inj [OF inv _ e] by (auto intro: filter_cong)
  also have "map (\<lambda>f. the (entry h f)) (remove1 e (iterate_list h)) = entries (remove_entry h e)"
    using hm_invarD(2) [OF inv] by (auto simp: entries_def remove_entry_def unlink_entry_def Let_def)
  finally show ?thesis by simp
qed

lemma hm_invar_remove:
  assumes inv: "hm_invar h" and e: "e \<in> set (iterate_list h)"
  shows "hm_invar (remove_entry h e)" (is "hm_invar ?h")
proof -
  note defs = remove_entry_def unlink_entry_def Let_def
  have s: "set (by_hash ?h i) = {f \<in> set (iterate_list ?h). bucket_of ?h (e_key ?h f) = i}" for i
    using hm_invarD(2,5,6) [OF inv] by (auto simp: defs)
  have d: "distinct (by_hash ?h i)" for i
    using hm_invarD(5) [OF inv] by (auto simp: defs)
  show ?thesis
    unfolding hm_invar_def
  proof (intro conjI allI)
    show "distinct (omap_keys (entries ?h))"
      using hm_invarD(4) [OF inv] by (simp add: entries_remove [OF inv e] distinct_omap_remove)
    show "n_entries ?h = length (iterate_list ?h)"
      using e hm_invarD(7) [OF inv] by (simp add: defs length_remove1)
    show "dom (entry ?h) = set (iterate_list ?h)"
      using hm_invarD(2,3) [OF inv] by (auto simp: defs)
  qed (use s d inv in \<open>auto simp: hm_invarD defs\<close>)
qed

lemma entries_overwrite:
  assumes inv: "hm_invar h" and e: "e \<in> set (iterate_list h)" "e_key h e = k"
  shows "entries (h\<lparr>entry := (entry h)(e \<mapsto> (k, v))\<rparr>) = omap_replace k v (entries h)"
proof -
  have "k \<in> set (omap_keys (entries h))" using e by (auto simp: entries_fst)
  then have "omap_replace k v (entries h) =
      map (\<lambda>f. if e_key h f = k then (k, v) else the (entry h f)) (iterate_list h)"
    by (simp add: omap_replace_def entries_def)
  also have "\<dots> = map (\<lambda>f. if f = e then (k, v) else the (entry h f)) (iterate_list h)"
    by (rule map_cong [OF refl]) (use hm_key_inj [OF inv _ e(1)] e(2) in metis)
  also have "\<dots> = entries (h\<lparr>entry := (entry h)(e \<mapsto> (k, v))\<rparr>)"
    by (auto simp: entries_def)
  finally show ?thesis by simp
qed

lemma hm_invar_overwrite:
  assumes inv: "hm_invar h" and e: "e \<in> set (iterate_list h)" "e_key h e = k"
  shows "hm_invar (h\<lparr>entry := (entry h)(e \<mapsto> (k, v))\<rparr>)" (is "hm_invar ?h")
proof -
  have k: "e_key ?h f = e_key h f" for f using e(2) by simp
  show ?thesis
    unfolding hm_invar_def
  proof (intro conjI allI)
    show "distinct (omap_keys (entries ?h))"
      unfolding entries_overwrite [OF inv e] using hm_invarD(4) [OF inv] by (rule distinct_omap_replace)
    show "dom (entry ?h) = set (iterate_list ?h)"
      using hm_invarD(3) [OF inv] e by auto
    show "set (by_hash ?h i) = {f \<in> set (iterate_list ?h). bucket_of ?h (e_key ?h f) = i}" for i
      unfolding k using hm_invarD(6) [OF inv] by simp
  qed (use inv in \<open>auto simp: hm_invarD\<close>)
qed

subsection \<open>The operations refine the ordered map\<close>

lemma hm_invar_new:
  assumes "\<And>a b. cf a b = 0 \<longleftrightarrow> a = b"
  shows "hm_invar (hashmap_new hf cf)" "entries (hashmap_new hf cf) = []"
  using assms by (auto simp: hm_invar_def hashmap_new_def entries_def)

lemma hm_fresh_Cons: "hm_fresh (t # ts) h \<Longrightarrow> t \<notin> dom (entry h) \<and> hm_fresh ts h"
  by (auto simp: hm_fresh_def)

lemma hashmap_put_cases:
  assumes inv: "hm_invar h"
  obtains (present) e where "e \<in> set (iterate_list h)" "e_key h e = k"
      "hashmap_put ts k v h = (if e_value h e = v then Inr 0 else Inl EEXIST, h, ts)"
  | (oom) "k \<notin> set (omap_keys (entries h))" "ts = []" "hashmap_put ts k v h = (Inl ENOMEM, h, ts)"
  | (new) t ts' where "k \<notin> set (omap_keys (entries h))" "ts = t # ts'"
      "hashmap_put ts k v h =
         (Inr 1, link_entry (h\<lparr>entry := (entry h)(t \<mapsto> (k, v))\<rparr>) t (bucket_of h k), ts')"
proof (cases "hash_scan h (bucket_of h k) k")
  case (Some e)
  then show ?thesis
    using present [of e] hash_scan_Some_iff [OF inv, of k e] by (simp add: hashmap_put_def)
next
  case None
  then show ?thesis
    using oom new hash_scan_None_iff [OF inv, of k] by (cases ts) (simp_all add: hashmap_put_def)
qed

lemma hashmap_put_refines:
  assumes inv: "hm_invar h" and fr: "hm_fresh (t # ts) h"
    and put: "hashmap_put (t # ts) k v h = (r, h', ts')"
  shows "(r, entries h') = omap_put k v (entries h)"
  using inv
proof (cases rule: hashmap_put_cases [where k = k and v = v and ts = "t # ts"])
  case (present e)
  then show ?thesis
    using put omap_get_entries [OF inv, of e] by (auto simp: omap_put_def omap_get_def)
next
  case (new t' ts'')
  have "t' \<notin> set (iterate_list h)"
    using hm_fresh_Cons [OF fr] new(2) hm_invarD(3) [OF inv] by auto
  moreover have "map_of (entries h) k = None"
    using new(1) by (simp add: map_of_eq_None_iff)
  ultimately show ?thesis
    using put new by (auto simp: omap_put_def entries_link)
qed simp

lemma hashmap_put_invar:
  assumes inv: "hm_invar h" and fr: "hm_fresh ts h" and put: "hashmap_put ts k v h = (r, h', ts')"
  shows "hm_invar h' \<and> hm_fresh ts' h'"
  using inv
proof (cases rule: hashmap_put_cases [where k = k and v = v and ts = ts])
  case (new t ts'')
  have t: "t \<notin> dom (entry h)" and fr': "hm_fresh ts'' h"
    using hm_fresh_Cons [of t ts'' h] fr new(2) by auto
  have eq: "h' = link_entry (h\<lparr>entry := (entry h)(t \<mapsto> (k, v))\<rparr>) t (bucket_of h k)" "ts' = ts''"
    using put new(3) by simp_all
  have "hm_invar h'" unfolding eq(1) by (rule hm_invar_link [OF inv t new(1)])
  moreover have "hm_fresh ts' h'"
    using fr new(2) fr' by (auto simp: eq hm_fresh_def link_entry_def)
  ultimately show ?thesis by blast
qed (use put inv fr in auto)

lemma hashmap_remove_refines:
  assumes inv: "hm_invar h"
  obtains h' where "hashmap_remove (Some h) k = (omap_get (entries h) k, Some h')"
    "hm_invar h'" "entries h' = omap_remove k (entries h)"
proof (cases "hash_scan h (bucket_of h k) k")
  case None
  then have "k \<notin> set (omap_keys (entries h))" using hash_scan_None_iff [OF inv] by simp
  then have "omap_remove k (entries h) = entries h" "omap_get (entries h) k = None"
    by (auto simp: omap_remove_def omap_get_None_iff intro!: filter_True)
  with None inv show ?thesis by (intro that [of h]) simp_all
next
  case (Some e)
  then have e: "e \<in> set (iterate_list h)" "e_key h e = k"
    using hash_scan_Some_iff [OF inv] by auto
  with Some show ?thesis
    using omap_get_entries [OF inv e(1)] entries_remove [OF inv e(1)] hm_invar_remove [OF inv e(1)]
    by (intro that [of "remove_entry h e"]) simp_all
qed

definition hashmap_remove_total :: "'k \<Rightarrow> ('k, 'v) hashmap \<Rightarrow> 'v option \<times> ('k, 'v) hashmap" where
  "hashmap_remove_total k h = (case hashmap_remove (Some h) k of (d, h') \<Rightarrow> (d, the h'))"

interpretation hm: ordered_map entries hm_invar hm_fresh "\<lambda>h. hashmap_get (Some h)" hashmap_put
  hashmap_remove_total "\<lambda>h. hashmap_size (Some h)"
proof unfold_locales
  fix h h' :: "('k, 'v) hashmap" and k d
  assume inv: "hm_invar h" and rm: "hashmap_remove_total k h = (d, h')"
  from inv obtain h'' where h'': "hashmap_remove (Some h) k = (omap_get (entries h) k, Some h'')"
      "hm_invar h''" "entries h'' = omap_remove k (entries h)"
    by (rule hashmap_remove_refines)
  then have eq: "d = omap_get (entries h) k" "h' = h''"
    using rm by (simp_all add: hashmap_remove_total_def)
  show "d = omap_get (entries h) k \<and> entries h' = omap_remove k (entries h)" "hm_invar h'"
    using eq h'' by simp_all
next
  fix h h' :: "('k, 'v) hashmap" and t ts k v r ts'
  assume "hm_invar h" "hm_fresh (t # ts) h" "hashmap_put (t # ts) k v h = (r, h', ts')"
  then show "(r, entries h') = omap_put k v (entries h)" by (rule hashmap_put_refines)
next
  fix h h' :: "('k, 'v) hashmap" and ts k v r ts'
  assume "hm_invar h" "hm_fresh ts h" "hashmap_put ts k v h = (r, h', ts')"
  then show "hm_invar h' \<and> hm_fresh ts' h'" by (rule hashmap_put_invar)
qed (rule hm_invarD(4) hashmap_get_entries | simp add: hm_invarD(7) entries_def)+

lemma hashmap_replace_refines:
  assumes inv: "hm_invar h" and fr: "hm_fresh (t # ts) h"
    and rep: "hashmap_replace (t # ts) k v h = (r, h', ts')"
  shows "entries h' = omap_replace k v (entries h) \<and> hm_invar h' \<and> \<not> isl r"
proof (cases "hash_scan h (bucket_of h k) k")
  case (Some e)
  then have e: "e \<in> set (iterate_list h)" "e_key h e = k" using hash_scan_Some_iff [OF inv] by auto
  from Some rep have "h' = h\<lparr>entry := (entry h)(e \<mapsto> (k, v))\<rparr>" "\<not> isl r"
    by (auto simp: hashmap_replace_def)
  then show ?thesis using entries_overwrite [OF inv e] hm_invar_overwrite [OF inv e] by simp
next
  case None
  then have put: "hashmap_put (t # ts) k v h = (r, h', ts')"
    using rep by (simp add: hashmap_replace_def)
  have k: "k \<notin> set (omap_keys (entries h))" using None hash_scan_None_iff [OF inv] by simp
  then have "map_of (entries h) k = None" by (simp add: map_of_eq_None_iff)
  then show ?thesis
    using hashmap_put_refines [OF inv fr put] hashmap_put_invar [OF inv fr put] k
    by (simp add: omap_put_def omap_replace_def)
qed

lemma relink_eq:
  "link_entry ((unlink_entry h e i)\<lparr>entry := (entry (unlink_entry h e i))(e \<mapsto> kv)\<rparr>) e j =
   link_entry (h'\<lparr>entry := (entry h')(e \<mapsto> kv)\<rparr>) e j"
  if "h' = remove_entry h e" "i = bucket_of h (e_key h e)"
  using that by (simp add: remove_entry_def unlink_entry_def link_entry_def Let_def)

lemma relink_refines:
  fixes h :: "('k, 'v) hashmap" and v :: 'v
  assumes inv: "hm_invar h" and e: "e \<in> set (iterate_list h)"
    and k': "k' \<notin> set (omap_keys (omap_remove (e_key h e) (entries h)))"
  defines "h' \<equiv> link_entry ((unlink_entry h e (bucket_of h (e_key h e)))
        \<lparr>entry := (entry (unlink_entry h e (bucket_of h (e_key h e))))(e \<mapsto> (k', v))\<rparr>) e (bucket_of h k')"
  shows "hm_invar h' \<and> entries h' = omap_remove (e_key h e) (entries h) @ [(k', v)]"
proof -
  let ?r = "remove_entry h e"
  have h': "h' = link_entry (?r\<lparr>entry := (entry ?r)(e \<mapsto> (k', v))\<rparr>) e (bucket_of ?r k')"
    unfolding h'_def by (subst relink_eq [OF refl refl])
      (simp add: remove_entry_def unlink_entry_def Let_def)
  have inv': "hm_invar ?r" by (rule hm_invar_remove [OF inv e])
  have e': "e \<notin> dom (entry ?r)" by (simp add: remove_entry_def Let_def)
  then have e'': "e \<notin> set (iterate_list ?r)" using hm_invarD(3) [OF inv'] by simp
  have "k' \<notin> set (omap_keys (entries ?r))" using k' by (simp add: entries_remove [OF inv e])
  from hm_invar_link [OF inv' e' this] show ?thesis
    unfolding h' by (simp add: entries_link [OF e''] entries_remove [OF inv e])
qed

lemma hashmap_remove_and_put_refines:
  assumes inv: "hm_invar h" and "omap_get (entries h) old = Some w" and "omap_get (entries h) new = None"
  obtains h' where "hashmap_remove_and_put (Some h) old new v = (Inr 0, Some h')"
    "hm_invar h'" "entries h' = omap_remove old (entries h) @ [(new, v)]"
proof -
  from assms(2) obtain e where e: "hash_scan h (bucket_of h old) old = Some e"
    using hash_scan_None_iff [OF inv, of old] omap_get_None_iff [of "entries h" old] by force
  then have e': "e \<in> set (iterate_list h)" "e_key h e = old" using hash_scan_Some_iff [OF inv] by auto
  have n: "hash_scan h (bucket_of h new) new = None"
    using assms(3) hash_scan_None_iff [OF inv] by (simp add: omap_get_None_iff)
  have "new \<notin> set (omap_keys (omap_remove (e_key h e) (entries h)))"
    using assms(3) by (auto simp: omap_get_None_iff omap_remove_def)
  from relink_refines [OF inv e'(1) this, of v] e'(2) show ?thesis
    by (intro that) (auto simp: e n Let_def)
qed

lemma hashmap_clear_empty:
  "hm_invar h \<Longrightarrow> hm_invar (hashmap_clear h) \<and> entries (hashmap_clear h) = []"
proof (induction h rule: hashmap_clear.induct)
  case (1 h)
  show ?case
  proof (cases "iterate_list h")
    case Nil
    with "1.prems" show ?thesis by (simp add: hashmap_clear.simps [of h] entries_def)
  next
    case (Cons e es)
    with "1.IH" "1.prems" hm_invar_remove [of h e] show ?thesis
      by (simp add: hashmap_clear.simps [of h])
  qed
qed

subsection \<open>Iteration visits every entry once, in insertion order\<close>

lemma list_next_append:
  "distinct (pre @ e # post) \<Longrightarrow>
     list_next (pre @ e # post) e = (case post of [] \<Rightarrow> None | y # _ \<Rightarrow> Some y)"
  by (induction pre) auto

lemma hashmap_foreach_at:
  assumes "distinct (iterate_list h)" "dom (entry h) = set (iterate_list h)"
    and "iterate_list h = pre @ e # post" "length post + 1 < n"
  shows "hashmap_foreach n (Some h) (Iterator_At e) = Some (map (\<lambda>e. the (entry h e)) (e # post))"
  using assms(3,4)
proof (induction post arbitrary: pre e n)
  case Nil
  then obtain n' where n: "n = Suc (Suc n')" by (auto simp: less_iff_Suc_add)
  have "e \<in> dom (entry h)" unfolding assms(2) using Nil.prems(1) by simp
  then show ?case
    using Nil.prems(1) assms(1) list_next_append [of pre e "[]"] by (auto simp: n Let_def)
next
  case (Cons f post)
  then obtain n' where n: "n = Suc n'" "length post + 1 < n'" by (cases n) auto
  have "e \<in> dom (entry h)" unfolding assms(2) using Cons.prems(1) by simp
  moreover have "iterate_list h = (pre @ [e]) @ f # post" using Cons.prems(1) by simp
  note Cons.IH [OF this n(2)]
  ultimately show ?case
    using Cons.prems(1) assms(1) list_next_append [of pre e "f # post"] by (auto simp: n Let_def)
qed

lemma hashmap_foreach_entries:
  assumes "hm_invar h" "length (iterate_list h) + 1 < n"
  shows "hashmap_foreach n (Some h) ITERATOR_FIRST = Some (entries h)"
proof (cases "iterate_list h")
  case Nil
  then show ?thesis using assms(2) by (cases n) (auto simp: entries_def)
next
  case (Cons e post)
  then have it: "iterate_list h = [] @ e # post" by simp
  obtain n' where n: "n = Suc n'" using assms(2) by (cases n) auto
  have "hashmap_foreach n (Some h) ITERATOR_FIRST = hashmap_foreach n (Some h) (Iterator_At e)"
    using Cons by (simp add: n)
  also have "\<dots> = Some (entries h)"
    using hashmap_foreach_at [OF hm_invarD(2,3) [OF assms(1)] it] assms(2) Cons
    by (simp add: entries_def del: hashmap_foreach.simps)
  finally show ?thesis .
qed

subsection \<open>Merging and moving\<close>

definition omap_new :: "('k, 'v) omap \<Rightarrow> ('k, 'v) omap \<Rightarrow> ('k, 'v) omap" where
  "omap_new xs ys = filter (\<lambda>p. fst p \<notin> set (omap_keys xs)) ys"

lemma omap_new_snoc:
  assumes "k \<notin> set (omap_keys ys)"
  shows "omap_new (xs @ [(k, v)]) ys = omap_new xs ys"
  using assms by (force simp: omap_new_def intro!: filter_cong)

lemma merge_loop_refines:
  assumes "hm_invar h" "hm_fresh ts h" "distinct (omap_keys es)" "length es \<le> length ts"
    and "merge_loop ts h es = (r, h', ts')"
  shows "r = Inr 0 \<and> hm_invar h' \<and> entries h' = entries h @ omap_new (entries h) es"
  using assms
proof (induction es arbitrary: h ts)
  case Nil
  then show ?case by (simp add: omap_new_def)
next
  case (Cons kv es)
  obtain k v where kv: "kv = (k, v)" by (cases kv)
  obtain t ts0 where ts: "ts = t # ts0" using Cons.prems(4) by (cases ts) auto
  obtain r1 h1 ts1 where put: "hashmap_put ts k v h = (r1, h1, ts1)" by (metis prod_cases3)
  have ref: "(r1, entries h1) = omap_put k v (entries h)"
    by (rule hashmap_put_refines [OF Cons.prems(1) Cons.prems(2) [unfolded ts] put [unfolded ts]])
  have inv1: "hm_invar h1 \<and> hm_fresh ts1 h1"
    using hashmap_put_invar [OF Cons.prems(1,2) put] .
  have d: "k \<notin> set (omap_keys es)" "distinct (omap_keys es)"
    using Cons.prems(3) by (simp_all add: kv)
  have len: "length es \<le> length ts1"
    using put Cons.prems(4) by (auto simp: ts hashmap_put_def Let_def split: option.splits)
  have r1: "r1 = Inl EEXIST \<or> \<not> isl r1"
    using ref by (auto simp: omap_put_def split: option.splits if_splits)
  then have rec: "merge_loop ts1 h1 es = (r, h', ts')"
    using Cons.prems(5) by (auto simp: kv put split: sum.splits)
  from Cons.IH [OF conjunct1 [OF inv1] conjunct2 [OF inv1] d(2) len rec]
  have IH: "r = Inr 0 \<and> hm_invar h' \<and> entries h' = entries h1 @ omap_new (entries h1) es" .
  show ?case
  proof (cases "map_of (entries h) k")
    case None
    then have "entries h1 = entries h @ [(k, v)]" using ref by (simp add: omap_put_def)
    moreover have "k \<notin> set (omap_keys (entries h))" using None by (simp add: map_of_eq_None_iff)
    ultimately show ?thesis
      using IH d(1) by (simp add: kv omap_new_snoc) (simp add: omap_new_def)
  next
    case (Some w)
    then have "entries h1 = entries h" using ref by (simp add: omap_put_def)
    moreover have "k \<in> set (omap_keys (entries h))"
      using map_of_SomeD [OF Some] by force
    ultimately show ?thesis using IH by (simp add: kv omap_new_def)
  qed
qed

lemma hashmap_copy_refines:
  assumes "hm_invar h" "distinct tiles" "length (entries h) \<le> length tiles"
  obtains c ts' where "hashmap_copy tiles h = (Some c, ts')" "hm_invar c" "entries c = entries h"
proof -
  let ?n = "hashmap_new (hash_func h) (compare_func h)"
  have new: "hm_invar ?n" "entries ?n = []" using hm_invar_new hm_invarD(1) [OF assms(1)] by blast+
  have fr: "hm_fresh tiles ?n" using assms(2) by (simp add: hm_fresh_def hashmap_new_def)
  obtain r c ts' where m: "merge_loop tiles ?n (entries h) = (r, c, ts')" by (metis prod_cases3)
  from merge_loop_refines [OF new(1) fr hm_invarD(4) [OF assms(1)] assms(3) m]
  show ?thesis
    using m by (intro that [of c ts']) (simp_all add: hashmap_copy_def new(2) omap_new_def)
qed

lemma move_entry_eq:
  "move_entry h other e =
     (link_entry (h\<lparr>entry := (entry h)(e := entry other e)\<rparr>) e (bucket_of h (e_key other e)),
      remove_entry other e)"
  by (simp add: move_entry_def remove_entry_def Let_def)

lemma move_entry_refines:
  assumes inv: "hm_invar h" "hm_invar other" and disj: "dom (entry h) \<inter> dom (entry other) = {}"
    and e: "e \<in> set (iterate_list other)" and new: "e_key other e \<notin> set (omap_keys (entries h))"
    and mv: "move_entry h other e = (h', other')"
  shows "hm_invar h' \<and> hm_invar other' \<and> dom (entry h') \<inter> dom (entry other') = {} \<and>
         entries h' = entries h @ [the (entry other e)] \<and>
         entries other' = omap_remove (e_key other e) (entries other)"
proof -
  obtain k v where kv: "entry other e = Some (k, v)"
    using e hm_invarD(3) [OF inv(2)] by (metis domD old.prod.exhaust)
  have eh: "e \<notin> dom (entry h)" using disj e hm_invarD(3) [OF inv(2)] by auto
  then have eh': "e \<notin> set (iterate_list h)" using hm_invarD(3) [OF inv(1)] by simp
  have eq: "h' = link_entry (h\<lparr>entry := (entry h)(e \<mapsto> (k, v))\<rparr>) e (bucket_of h k)"
      "other' = remove_entry other e"
    using mv by (simp_all add: move_entry_eq kv)
  have "hm_invar h'" unfolding eq(1) by (rule hm_invar_link [OF inv(1) eh]) (use new kv in simp)
  moreover have "hm_invar other'" unfolding eq(2) by (rule hm_invar_remove [OF inv(2) e])
  moreover have "entries h' = entries h @ [(k, v)]" unfolding eq(1) by (rule entries_link [OF eh'])
  moreover have "dom (entry h') \<inter> dom (entry other') = {}"
    using disj by (auto simp: eq link_entry_def remove_entry_def unlink_entry_def Let_def)
  ultimately show ?thesis using entries_remove [OF inv(2) e] by (simp add: kv eq(2))
qed

lemma filter_not_mem_Cons:
  "filter (\<lambda>p. fst p \<notin> A) (omap_remove k xs) = filter (\<lambda>p. fst p \<notin> insert k A) xs"
  by (simp add: omap_remove_def conj_commute)

lemma move_loop_refines:
  assumes "hm_invar h" "hm_invar other" "dom (entry h) \<inter> dom (entry other) = {}"
    and "set es \<subseteq> set (iterate_list other)" "distinct es" "move_loop h other es = (h', other')"
  shows "hm_invar h' \<and> hm_invar other' \<and>
     entries h' = entries h @ omap_new (entries h) (map (\<lambda>e. the (entry other e)) es) \<and>
     entries other' =
       filter (\<lambda>p. fst p \<notin> set (omap_keys (omap_new (entries h) (map (\<lambda>e. the (entry other e)) es))))
         (entries other)"
  using assms
proof (induction es arbitrary: h other)
  case Nil
  then show ?case by (auto simp: omap_new_def)
next
  case (Cons e es)
  let ?es = "map (\<lambda>e. the (entry other e)) es"
  let ?k = "e_key other e"
  show ?case
  proof (cases "hash_scan h (bucket_of h ?k) ?k")
    case (Some f)
    then have k: "?k \<in> set (omap_keys (entries h))"
      using hash_scan_None_iff [OF Cons.prems(1), of ?k] by simp
    have "move_loop h other es = (h', other')" using Cons.prems(6) Some by simp
    from Cons.IH [OF Cons.prems(1-3) _ _ this] Cons.prems(4,5) k show ?thesis
      by (simp add: omap_new_def)
  next
    case None
    then have k: "?k \<notin> set (omap_keys (entries h))"
      using hash_scan_None_iff [OF Cons.prems(1), of ?k] by simp
    obtain h1 o1 where mv: "move_entry h other e = (h1, o1)" by (cases "move_entry h other e")
    have e: "e \<in> set (iterate_list other)" using Cons.prems(4) by simp
    note m = move_entry_refines [OF Cons.prems(1-3) e k mv]
    have rec: "move_loop h1 o1 es = (h', other')" using Cons.prems(6) None mv by simp
    have o1: "o1 = remove_entry other e" using mv by (simp add: move_entry_eq)
    have it: "set es \<subseteq> set (iterate_list o1)"
      using Cons.prems(4,5) hm_invarD(2) [OF Cons.prems(2)]
      by (auto simp: o1 remove_entry_def unlink_entry_def Let_def)
    have ent: "map (\<lambda>e. the (entry o1 e)) es = ?es"
      using Cons.prems(5) by (auto simp: o1 remove_entry_def unlink_entry_def Let_def)
    have fresh: "?k \<notin> set (omap_keys ?es)"
    proof
      assume "?k \<in> set (omap_keys ?es)"
      then obtain f where f: "f \<in> set es" "e_key other f = ?k" by auto
      then have "f = e" using hm_key_inj [OF Cons.prems(2) _ e] Cons.prems(4) by auto
      then show False using f(1) Cons.prems(5) by simp
    qed
    have new: "omap_new (entries h @ [the (entry other e)]) ?es = omap_new (entries h) ?es"
      using omap_new_snoc [OF fresh, of "entries h" "e_value other e"] by simp
    have cons: "omap_new (entries h) (the (entry other e) # ?es) = the (entry other e) # omap_new (entries h) ?es"
      using k by (simp add: omap_new_def)
    from Cons.IH [of h1 o1] m it Cons.prems(5) rec show ?thesis
      by (simp add: ent new cons filter_not_mem_Cons)
  qed
qed

subsection \<open>The comparison functions decide equality of keys\<close>

lemma string_compare_func_eq: "string_compare_func a b = 0 \<longleftrightarrow> a = b"
  by (induction a b rule: string_compare_func.induct) auto

lemma trivial_compare_func_eq: "trivial_compare_func a b = 0 \<longleftrightarrow> a = b"
  by (auto simp: trivial_compare_func_def)

lemma set_put_refines:
  assumes "hm_invar s" "hm_fresh (t # ts) s" "\<forall>p \<in> set (entries s). fst p = snd p"
    and "set_put (t # ts) s x = (r, s', ts')"
  shows "r = Inr (if x \<in> set (omap_keys (entries s)) then 0 else 1) \<and>
         set (omap_keys (entries s')) = insert x (set (omap_keys (entries s))) \<and>
         (\<forall>p \<in> set (entries s'). fst p = snd p)"
proof -
  have put: "(r, entries s') = omap_put x x (entries s)"
    using hashmap_put_refines [OF assms(1,2)] assms(4) by (simp add: set_put_def)
  have same: "w = x" if "map_of (entries s) x = Some w" for w
    using assms(3) map_of_SomeD [OF that] by auto
  show ?thesis
  proof (cases "map_of (entries s) x")
    case None
    moreover have "x \<notin> fst ` set (entries s)" using None by (simp add: map_of_eq_None_iff)
    ultimately show ?thesis
      using assms(3) put by (auto simp: omap_put_def)
  next
    case (Some w)
    moreover have "x \<in> fst ` set (entries s)" using map_of_SomeD [OF Some] by force
    ultimately show ?thesis
      using assms(3) put
        same [OF Some]
      by (simp add: omap_put_def insert_absorb)
  qed
qed

end
