(* ===== verification/Hashmap_Properties.thy ===== *)
theory Hashmap_Properties
  imports Hashmap
begin

section \<open>Properties of the hash table\<close>

text \<open>
  The theorems on \<open>hashmap.c\<close> and \<open>set.c\<close>, stated on the bucket table itself and
  instantiated on a small table with string keys.
\<close>

definition sample_map :: "(string, nat) hashmap" where
  "sample_map = (let h = hashmap_new string_hash_func string_compare_func;
                     (r, h1, ts1) = hashmap_put [10, 11] ''a'' 1 h;
                     (r, h2, ts2) = hashmap_put [11] ''b'' 2 h1
                 in h2)"

lemma sample_map_ok:
  "hm_invar sample_map" "entries sample_map = [(''a'', 1), (''b'', 2)]" "dom (entry sample_map) \<subseteq> {10, 11}"
proof -
  let ?h = "hashmap_new string_hash_func string_compare_func :: (string, nat) hashmap"
  have new: "hm_invar ?h" "entries ?h = []" using hm_invar_new [OF string_compare_func_eq] by blast+
  have fr: "hm_fresh [10, 11] ?h" by (simp add: hm_fresh_def hashmap_new_def)
  obtain r1 h1 ts1 where p1: "hashmap_put [10, 11] ''a'' 1 ?h = (r1, h1, ts1)" by (metis prod_cases3)
  have i1: "hm_invar h1" "(r1, entries h1) = omap_put ''a'' 1 []"
    using hashmap_put_invar [OF new(1) fr p1] hashmap_put_refines [OF new(1) fr p1] new(2) by auto
  have h1: "dom (entry h1) = {10}"
    using p1 by (auto simp: hashmap_put_def hash_scan_def hashmap_new_def link_entry_def Let_def split: if_splits)
  have fr1: "hm_fresh [11] h1" by (simp add: hm_fresh_def h1)
  obtain r2 h2 ts2 where p2: "hashmap_put [11] ''b'' 2 h1 = (r2, h2, ts2)" by (metis prod_cases3)
  have i2: "hm_invar h2" "(r2, entries h2) = omap_put ''b'' 2 (entries h1)"
    using hashmap_put_invar [OF i1(1) fr1 p2] hashmap_put_refines [OF i1(1) fr1 p2] by auto
  have h2: "dom (entry h2) \<subseteq> {10, 11}"
    using p2 h1 by (auto simp: hashmap_put_def link_entry_def Let_def split: option.splits if_splits)
  have "sample_map = h2" using p1 p2 by (simp add: sample_map_def)
  then show "hm_invar sample_map" "entries sample_map = [(''a'', 1), (''b'', 2)]" "dom (entry sample_map) \<subseteq> {10, 11}"
    using i1(2) i2 h2 by (simp_all add: omap_put_def)
qed

lemma sample_map_fresh: "hm_fresh [20, 21] sample_map"
  using sample_map_ok(3) by (auto simp: hm_fresh_def)

text \<open>
  C32: \<open>hashmap_put\<close> keeps the representation invariant of the bucket table and refines the
  insertion-ordered map: a new key goes to the end of the iteration order, an old one is refused
  with \<open>-EEXIST\<close> (or 0 if the value is the same), and every later lookup answers accordingly.
\<close>

theorem hashmap_put_refinement:
  assumes "hm_invar h" and "hm_fresh (t # ts) h" and "hashmap_put (t # ts) k v h = (r, h', ts')"
  shows "hm_invar h' \<and> hm_fresh ts' h' \<and> (r, entries h') = omap_put k v (entries h) \<and>
     (\<forall>k'. hashmap_get (Some h') k' = omap_get (entries h') k') \<and>
     (hashmap_get (Some h) k = None \<longrightarrow>
        r = Inr 1 \<and> (\<forall>k'. hashmap_get (Some h') k' = (if k' = k then Some v else hashmap_get (Some h) k')))"
proof (intro conjI allI impI)
  show inv: "hm_invar h'" "hm_fresh ts' h'" using hashmap_put_invar [OF assms] by simp_all
  show "(r, entries h') = omap_put k v (entries h)" using hm.put_entries [OF assms] .
  show "hashmap_get (Some h') k' = omap_get (entries h') k'" for k' using hm.get_entries [OF inv(1)] .
  assume "hashmap_get (Some h) k = None"
  note put = hm.get_after_put [OF assms(1,2) this assms(3)]
  show "r = Inr 1" "hashmap_get (Some h') k' = (if k' = k then Some v else hashmap_get (Some h) k')" for k'
    using put by (blast, blast)
qed

theorem hashmap_put_refinement_witness:
  "\<exists>r h' ts'. hm_invar sample_map \<and> hm_fresh [20, 21] sample_map \<and>
     hashmap_put [20, 21] ''c'' 3 sample_map = (r, h', ts') \<and> hashmap_get (Some h') ''c'' = Some 3 \<and>
     hashmap_get (Some h') ''a'' = Some 1"
proof -
  obtain r h' ts' where p: "hashmap_put [20, 21] ''c'' 3 sample_map = (r, h', ts')" by (metis prod_cases3)
  have "(r, entries h') = omap_put ''c'' 3 (entries sample_map)"
    "\<forall>k'. hashmap_get (Some h') k' = omap_get (entries h') k'"
    using hashmap_put_refinement [OF sample_map_ok(1) sample_map_fresh p] by blast+
  then show ?thesis
    using p sample_map_ok(1) sample_map_fresh by (auto simp: sample_map_ok(2) omap_put_def omap_get_def simp del: hashmap_get.simps)
qed

text \<open>
  C33: \<open>hashmap_remove\<close> returns what was stored, keeps the invariant, takes exactly that key
  out and keeps the iteration order of the others; \<open>hashmap_size\<close> counts the entries.
\<close>

theorem hashmap_remove_refinement:
  assumes "hm_invar h"
  shows "\<exists>h'. hashmap_remove (Some h) k = (hashmap_get (Some h) k, Some h') \<and> hm_invar h' \<and>
     entries h' = filter (\<lambda>p. fst p \<noteq> k) (entries h) \<and> hashmap_size (Some h') = length (entries h')"
proof -
  obtain h' where h': "hashmap_remove (Some h) k = (omap_get (entries h) k, Some h')"
    "hm_invar h'" "entries h' = omap_remove k (entries h)"
    using hashmap_remove_refines [OF assms] by blast
  then show ?thesis
    using hm.get_entries [OF assms] hm.size_entries [OF h'(2)] by (auto simp: omap_remove_def)
qed

theorem hashmap_remove_refinement_witness:
  "hm_invar sample_map \<and> (\<exists>h'. hashmap_remove (Some sample_map) ''a'' = (Some 1, Some h') \<and> entries h' = [(''b'', 2)])"
  using hashmap_remove_refinement [OF sample_map_ok(1), of "''a''"] sample_map_ok
    hm.get_entries [OF sample_map_ok(1)] by (auto simp: omap_get_def)

text \<open>
  C34: \<open>HASHMAP_FOREACH\<close> over an unchanged hashmap ends after one call of
  \<open>hashmap_iterate\<close> more than there are entries, and visits every entry exactly once, in the
  order in which the keys were put.
\<close>

theorem hashmap_foreach_visits:
  assumes "hm_invar h" and "length (entries h) + 1 < n"
  shows "hashmap_foreach n (Some h) ITERATOR_FIRST = Some (entries h) \<and> distinct (omap_keys (entries h))"
  using hashmap_foreach_entries [OF assms(1)] assms hm_invarD(4) [OF assms(1)] by (simp add: entries_def)

theorem hashmap_foreach_visits_witness:
  "hm_invar sample_map \<and>
   hashmap_foreach 4 (Some sample_map) ITERATOR_FIRST = Some [(''a'', 1), (''b'', 2)]"
  using hashmap_foreach_visits [OF sample_map_ok(1), of 4] sample_map_ok by simp

text \<open>
  \<open>hashmap_move\<close> moves every entry whose key is not taken, leaves the others where they
  are, loses none, and keeps the invariant of both tables.
\<close>

theorem hashmap_move_spec:
  assumes "hm_invar h" and "hm_invar other" and "dom (entry h) \<inter> dom (entry other) = {}"
  shows "\<exists>h' other'. hashmap_move h (Some other) = (h', Some other') \<and> hm_invar h' \<and> hm_invar other' \<and>
     entries h' = entries h @ filter (\<lambda>p. fst p \<notin> set (omap_keys (entries h))) (entries other) \<and>
     entries other' = filter (\<lambda>p. fst p \<in> set (omap_keys (entries h))) (entries other)"
proof -
  obtain h' other' where mv: "move_loop h other (iterate_list other) = (h', other')" by (metis prod.exhaust)
  have es: "map (\<lambda>e. the (entry other e)) (iterate_list other) = entries other" by (simp add: entries_def)
  note M = move_loop_refines [OF assms subset_refl hm_invarD(2) [OF assms(2)] mv, unfolded es]
  have "filter (\<lambda>p. fst p \<notin> set (omap_keys (omap_new (entries h) (entries other)))) (entries other) =
      filter (\<lambda>p. fst p \<in> set (omap_keys (entries h))) (entries other)"
  proof (rule filter_cong [OF refl])
    fix p assume "p \<in> set (entries other)"
    then show "(fst p \<notin> set (omap_keys (omap_new (entries h) (entries other)))) = (fst p \<in> set (omap_keys (entries h)))"
      by (auto simp: omap_new_def image_iff) (metis prod.collapse)
  qed
  then show ?thesis using M mv by (simp add: omap_new_def)
qed

theorem hashmap_move_spec_witness:
  "\<exists>h' other'. hashmap_move (hashmap_new string_hash_func string_compare_func) (Some sample_map) = (h', Some other') \<and>
     entries h' = [(''a'', 1), (''b'', 2)] \<and> entries other' = []"
proof -
  have new: "hm_invar (hashmap_new string_hash_func string_compare_func :: (string, nat) hashmap)"
      "entries (hashmap_new string_hash_func string_compare_func :: (string, nat) hashmap) = []"
    using hm_invar_new [OF string_compare_func_eq] by blast+
  have "dom (entry (hashmap_new string_hash_func string_compare_func :: (string, nat) hashmap)) \<inter> dom (entry sample_map) = {}"
    by (simp add: hashmap_new_def)
  from hashmap_move_spec [OF new(1) sample_map_ok(1) this] show ?thesis by (auto simp: new(2) sample_map_ok(2) simp del: hashmap_move.simps)
qed

text \<open>
  without memory for a new entry \<open>hashmap_put\<close> fails with \<open>-ENOMEM\<close> and changes nothing,
  but a key that is already there is still answered with 0 or \<open>-EEXIST\<close>.
\<close>

theorem hashmap_put_oom:
  assumes "hm_invar h"
  shows "hashmap_put [] k v h =
     (case omap_get (entries h) k of
        None \<Rightarrow> (Inl ENOMEM, h, [])
      | Some w \<Rightarrow> (if w = v then Inr 0 else Inl EEXIST, h, []))"
  using assms
proof (cases rule: hashmap_put_cases [where k = k and v = v and ts = "[]"])
  case (present e)
  then show ?thesis using omap_get_entries [OF assms, of e] by auto
next
  case oom
  then have "omap_get (entries h) k = None" unfolding omap_get_None_iff by simp
  then show ?thesis using oom by simp
qed simp

theorem hashmap_put_oom_witness:
  "hm_invar sample_map \<and> hashmap_put [] ''c'' 3 sample_map = (Inl ENOMEM, sample_map, [])"
  using sample_map_ok hashmap_put_oom [OF sample_map_ok(1), of "''c''" 3] by (simp add: omap_get_def)

end
