(* ===== verification/Manager_State.thy ===== *)
theory Manager_State
  imports Job_Type Ordered_Map "HOL-Library.Monad_Syntax"
begin

section \<open>The manager's objects: units, jobs, job dependencies (manager.h, job.h, unit.h)\<close>

text \<open>
  \<open>Unit\<close>, \<open>Job\<close> and \<open>JobDependency\<close> objects are addressed by references into
  stores that are part of the manager record.  Intrusive linked lists (\<open>LIST_PREPEND\<close>,
  \<open>LIST_REMOVE\<close>) are lists of references; the \<open>transaction_next\<close>/\<open>prev\<close> chain of a
  unit's prospective jobs is the list stored for the unit in \<open>m_transaction_jobs\<close>, whose
  head is the pointer the C hashmap holds.  Hashmaps are the insertion-ordered maps of
  \<open>Ordered_Map\<close>, which \<open>Hashmap\<close> implements.

  Operations live in the option monad: \<open>None\<close> is a C execution that has no result,
  because it follows a pointer to a freed object, fails an \<open>assert\<close>, or does not end.  A
  theorem of the form \<open>op m = Some m'\<close> is therefore a proof of memory safety and of
  termination.  Allocation is assumed to succeed (the \<open>-ENOMEM\<close> branches of the
  transaction code are not modelled), and D-Bus signals and log lines are left out.
\<close>

type_synonym uid = nat
type_synonym jref = nat
type_synonym dref = nat

datatype unit_dependency =
    UNIT_REQUIRES | UNIT_REQUIRES_OVERRIDABLE | UNIT_REQUISITE | UNIT_REQUISITE_OVERRIDABLE
  | UNIT_WANTS | UNIT_BIND_TO
  | UNIT_REQUIRED_BY | UNIT_REQUIRED_BY_OVERRIDABLE | UNIT_WANTED_BY | UNIT_BOUND_BY
  | UNIT_CONFLICTS | UNIT_CONFLICTED_BY
  | UNIT_BEFORE | UNIT_AFTER
  | UNIT_ON_FAILURE
  | UNIT_REFERENCES | UNIT_REFERENCED_BY

text \<open>
  The fields of \<open>struct Meta\<close> that the job engine reads.  What a unit type's vtable
  answers is a field: \<open>u_active_state\<close> is the value of \<open>active_state()\<close>,
  \<open>u_vt_start\<close> whether the vtable has a \<open>start\<close> method, \<open>u_vt_can_reload\<close> the
  value of \<open>can_reload()\<close> if there is such a method, \<open>u_following_set\<close> the set that
  \<open>following_set()\<close> returns, \<open>u_following\<close> the unit that \<open>following()\<close> returns, and
  \<open>u_condition\<close> what \<open>condition_test_list()\<close> finds.  For a unit that was merged into another
  one \<open>u_active_state\<close> is the state of the unit at the end of the \<open>merged_into\<close> chain, where
  \<open>unit_active_state\<close> looks it up; no dependency and no job names such a unit.  A unit whose type
  is still \<open>_UNIT_TYPE_INVALID\<close> has \<open>u_type = None\<close>.
\<close>

record umeta =
  u_id :: string
  u_load_state :: unit_load_state
  u_dependencies :: "unit_dependency \<Rightarrow> uid list"
  u_job :: "jref option"
  u_job_timeout :: nat
  u_active_state :: unit_active_state
  u_vt_start :: bool
  u_vt_reload :: bool
  u_vt_can_reload :: "bool option"
  u_following_set :: "uid list"
  u_allow_isolate :: bool
  u_ignore_on_isolate :: bool
  u_on_failure_isolate :: bool
  u_vt_no_gc :: bool
  u_no_gc :: bool
  u_vt_check_gc :: bool
  u_in_gc_queue :: bool
  u_in_cleanup_queue :: bool
  u_type :: "unit_type option"
  u_names :: "string list"
  u_instance :: "string option"
  u_merged_into :: "uid option"
  u_stop_when_unneeded :: bool
  u_vt_stop :: bool
  u_following :: "uid option"
  u_condition :: bool
  u_in_dbus_queue :: bool
  u_sent_dbus_new_signal :: bool
  u_in_load_queue :: bool
  u_default_dependencies :: bool
  u_load_error :: "errno option"
  u_gc_marker :: "32 word"

record jdep =
  d_subject :: "jref option"
  d_object :: jref
  d_matters :: bool
  d_conflicts :: bool

record job =
  j_unit :: uid
  j_subject_list :: "dref list"
  j_object_list :: "dref list"
  j_marker :: "jref option"
  j_generation :: nat
  j_id :: "32 word"
  j_type :: job_type
  j_state :: job_state
  j_timer :: bool
  j_result :: job_result
  j_installed :: bool
  j_in_run_queue :: bool
  j_matters_to_anchor :: bool
  j_override :: bool
  j_in_dbus_queue :: bool
  j_ignore_order :: bool

record manager =
  m_units :: "(string, uid) omap"
  m_jobs :: "(32 word, jref) omap"
  m_run_queue :: "jref list"
  m_dbus_job_queue :: "jref list"
  m_gc_queue :: "uid list"
  m_n_in_gc_queue :: nat
  m_transaction_jobs :: "(uid, jref list) omap"
  m_transaction_anchor :: "dref list"
  m_current_job_id :: "32 word"
  m_n_installed_jobs :: nat
  m_n_failed_jobs :: nat
  m_unit :: "uid \<Rightarrow> umeta"
  m_job :: "jref \<Rightarrow> job option"
  m_dep :: "(dref, jdep) omap"
  m_next_job :: jref
  m_next_dep :: dref
  m_dbus_unit_queue :: "uid list"
  m_cleanup_queue :: "uid list"
  m_has_subscriber :: bool
  m_n_reloading :: nat
  m_dispatching_run_queue :: bool
  m_load_queue :: "uid list"
  m_dispatching_load_queue :: bool
  m_gc_marker :: "32 word"
  m_next_unit :: uid

abbreviation u_deps :: "manager \<Rightarrow> uid \<Rightarrow> unit_dependency \<Rightarrow> uid list" where
  "u_deps m u d \<equiv> u_dependencies (m_unit m u) d"

definition upd_unit :: "uid \<Rightarrow> (umeta \<Rightarrow> umeta) \<Rightarrow> manager \<Rightarrow> manager" where
  "upd_unit u f m = m\<lparr>m_unit := (m_unit m)(u := f (m_unit m u))\<rparr>"

definition upd_job :: "jref \<Rightarrow> (job \<Rightarrow> job) \<Rightarrow> manager \<Rightarrow> manager option" where
  "upd_job j f m = do { jb \<leftarrow> m_job m j; Some (m\<lparr>m_job := (m_job m)(j \<mapsto> f jb)\<rparr>) }"

subsection \<open>Units\<close>

definition unit_active_state :: "manager \<Rightarrow> uid \<Rightarrow> unit_active_state" where
  "unit_active_state m u = u_active_state (m_unit m u)"

definition unit_can_start :: "manager \<Rightarrow> uid \<Rightarrow> bool" where
  "unit_can_start m u = u_vt_start (m_unit m u)"

definition unit_can_reload :: "manager \<Rightarrow> uid \<Rightarrow> bool" where
  "unit_can_reload m u =
     (if \<not> u_vt_reload (m_unit m u) then False
      else case u_vt_can_reload (m_unit m u) of None \<Rightarrow> True | Some b \<Rightarrow> b)"

definition unit_job_is_applicable :: "manager \<Rightarrow> uid \<Rightarrow> job_type \<Rightarrow> bool" where
  "unit_job_is_applicable m u j =
     (case j of
        JOB_VERIFY_ACTIVE \<Rightarrow> True
      | JOB_START \<Rightarrow> True
      | JOB_STOP \<Rightarrow> True
      | JOB_RESTART \<Rightarrow> unit_can_start m u
      | JOB_TRY_RESTART \<Rightarrow> unit_can_start m u
      | JOB_RELOAD \<Rightarrow> unit_can_reload m u
      | JOB_RELOAD_OR_START \<Rightarrow> unit_can_reload m u \<and> unit_can_start m u)"

definition unit_check_gc :: "manager \<Rightarrow> uid \<Rightarrow> bool" where
  "unit_check_gc m u =
     (let x = m_unit m u in
      if u_load_state x = UNIT_STUB then True
      else if u_vt_no_gc x then True
      else if u_no_gc x then True
      else if u_job x \<noteq> None then True
      else if unit_active_state m u \<noteq> UNIT_INACTIVE then True
      else u_vt_check_gc x)"

definition unit_add_to_gc_queue :: "uid \<Rightarrow> manager \<Rightarrow> manager" where
  "unit_add_to_gc_queue u m =
     (let x = m_unit m u in
      if u_in_gc_queue x \<or> u_in_cleanup_queue x then m
      else if unit_check_gc m u then m
      else (upd_unit u (\<lambda>x. x\<lparr>u_in_gc_queue := True\<rparr>) m)
             \<lparr>m_gc_queue := u # m_gc_queue m, m_n_in_gc_queue := m_n_in_gc_queue m + 1\<rparr>)"

definition unit_pending_inactive :: "manager \<Rightarrow> uid \<Rightarrow> bool option" where
  "unit_pending_inactive m u =
     (if UNIT_IS_INACTIVE_OR_DEACTIVATING (unit_active_state m u) then Some True
      else case u_job (m_unit m u) of
             None \<Rightarrow> Some False
           | Some j \<Rightarrow> do { jb \<leftarrow> m_job m j; Some (j_type jb = JOB_STOP) })"

definition unit_pending_active :: "manager \<Rightarrow> uid \<Rightarrow> bool option" where
  "unit_pending_active m u =
     (if UNIT_IS_ACTIVE_OR_ACTIVATING (unit_active_state m u) then Some True
      else case u_job (m_unit m u) of
             None \<Rightarrow> Some False
           | Some j \<Rightarrow> do {
               jb \<leftarrow> m_job m j;
               Some (j_type jb = JOB_START \<or> j_type jb = JOB_RELOAD_OR_START \<or>
                     j_type jb = JOB_RESTART) })"

subsection \<open>Jobs and job dependencies\<close>

definition job_new :: "job_type \<Rightarrow> uid \<Rightarrow> manager \<Rightarrow> jref \<times> manager" where
  "job_new type u m =
     (let j = m_next_job m;
          jb = \<lparr>j_unit = u, j_subject_list = [], j_object_list = [], j_marker = None,
                j_generation = 0, j_id = m_current_job_id m, j_type = type,
                j_state = JOB_WAITING, j_timer = False, j_result = JOB_DONE,
                j_installed = False, j_in_run_queue = False, j_matters_to_anchor = False,
                j_override = False, j_in_dbus_queue = False, j_ignore_order = False\<rparr>
      in (j, m\<lparr>m_current_job_id := m_current_job_id m + 1,
               m_next_job := m_next_job m + 1,
               m_job := (m_job m)(j \<mapsto> jb)\<rparr>))"

definition job_dependency_new ::
    "jref option \<Rightarrow> jref \<Rightarrow> bool \<Rightarrow> bool \<Rightarrow> manager \<Rightarrow> manager option" where
  "job_dependency_new subject object matters conflicts m =
     (let l = m_next_dep m;
          m1 = m\<lparr>m_next_dep := l + 1,
                 m_dep := (l, \<lparr>d_subject = subject, d_object = object,
                               d_matters = matters, d_conflicts = conflicts\<rparr>) # m_dep m\<rparr>
      in do {
        m2 \<leftarrow> (case subject of
                 Some s \<Rightarrow> upd_job s (\<lambda>jb. jb\<lparr>j_subject_list := l # j_subject_list jb\<rparr>) m1
               | None \<Rightarrow> Some (m1\<lparr>m_transaction_anchor := l # m_transaction_anchor m1\<rparr>));
        upd_job object (\<lambda>jb. jb\<lparr>j_object_list := l # j_object_list jb\<rparr>) m2 })"

definition job_dependency_free :: "dref \<Rightarrow> manager \<Rightarrow> manager option" where
  "job_dependency_free l m =
     do {
       d \<leftarrow> omap_get (m_dep m) l;
       m1 \<leftarrow> (case d_subject d of
                Some s \<Rightarrow> upd_job s (\<lambda>jb. jb\<lparr>j_subject_list := remove1 l (j_subject_list jb)\<rparr>) m
              | None \<Rightarrow> Some (m\<lparr>m_transaction_anchor := remove1 l (m_transaction_anchor m)\<rparr>));
       m2 \<leftarrow> upd_job (d_object d) (\<lambda>jb. jb\<lparr>j_object_list := remove1 l (j_object_list jb)\<rparr>) m1;
       Some (m2\<lparr>m_dep := omap_remove l (m_dep m2)\<rparr>)
     }"

text \<open>Whether one of the dependencies in a job's \<open>object_list\<close> satisfies a test.\<close>

fun any_dep :: "manager \<Rightarrow> (jdep \<Rightarrow> bool) \<Rightarrow> dref list \<Rightarrow> bool option" where
  "any_dep m P [] = Some False"
| "any_dep m P (l # ls) =
     do { d \<leftarrow> omap_get (m_dep m) l; if P d then Some True else any_dep m P ls }"

definition job_is_anchor :: "manager \<Rightarrow> jref \<Rightarrow> bool option" where
  "job_is_anchor m j =
     do { jb \<leftarrow> m_job m j; any_dep m (\<lambda>d. d_subject d = None) (j_object_list jb) }"

definition job_is_conflicted_by :: "manager \<Rightarrow> jref \<Rightarrow> bool option" where
  "job_is_conflicted_by m j =
     do { jb \<leftarrow> m_job m j; any_dep m d_conflicts (j_object_list jb) }"

definition job_add_to_run_queue :: "jref \<Rightarrow> manager \<Rightarrow> manager option" where
  "job_add_to_run_queue j m =
     do {
       jb \<leftarrow> m_job m j;
       if \<not> j_installed jb then None
       else if j_in_run_queue jb then Some m
       else upd_job j (\<lambda>jb. jb\<lparr>j_in_run_queue := True\<rparr>)
              (m\<lparr>m_run_queue := j # m_run_queue m\<rparr>) }"

definition job_add_to_dbus_queue :: "jref \<Rightarrow> manager \<Rightarrow> manager option" where
  "job_add_to_dbus_queue j m =
     do {
       jb \<leftarrow> m_job m j;
       if \<not> j_installed jb then None
       else if j_in_dbus_queue jb then Some m
       else upd_job j (\<lambda>jb. jb\<lparr>j_in_dbus_queue := True\<rparr>)
              (m\<lparr>m_dbus_job_queue := j # m_dbus_job_queue m\<rparr>) }"

text \<open>
  \<open>job_start_timer\<close> arms a \<open>timerfd\<close> for the unit's job timeout; the system calls are
  taken to succeed, and the armed watch is a flag.
\<close>

definition job_start_timer :: "jref \<Rightarrow> manager \<Rightarrow> manager option" where
  "job_start_timer j m =
     do {
       jb \<leftarrow> m_job m j;
       if u_job_timeout (m_unit m (j_unit jb)) = 0 \<or> j_timer jb then Some m
       else upd_job j (\<lambda>jb. jb\<lparr>j_timer := True\<rparr>) m }"

definition manager_get_job :: "manager \<Rightarrow> 32 word \<Rightarrow> jref option" where
  "manager_get_job m i = omap_get (m_jobs m) i"

definition manager_get_unit :: "manager \<Rightarrow> string \<Rightarrow> uid option" where
  "manager_get_unit m name = omap_get (m_units m) name"

end
