(* ===== verification/Transaction.thy ===== *)
theory Transaction
  imports Manager_State
begin

section \<open>Building and pruning a transaction (src/src/manager.c)\<close>

text \<open>
  The definitions of the transaction engine in the order of \<open>manager.c\<close>: deleting jobs,
  finding the jobs that matter to the anchor, minimizing the impact, dropping redundant jobs
  and collecting garbage.
\<close>

subsection \<open>Unlinking and deleting jobs\<close>

text \<open>The prospective jobs of a unit, newest first.\<close>

definition tlist :: "manager \<Rightarrow> uid \<Rightarrow> jref list" where
  "tlist m u = (case omap_get (m_transaction_jobs m) u of None \<Rightarrow> [] | Some ls \<Rightarrow> ls)"

text \<open>
  Taking a job out of its unit's chain: in the middle of the chain the neighbours are joined,
  at its head the hashmap entry is replaced by the next job, and the entry of a chain that
  becomes empty is removed.  A job that is in no chain changes nothing, since
  \<open>hashmap_remove_value\<close> then finds another value or no entry.
\<close>

definition unlink_transaction :: "jref \<Rightarrow> manager \<Rightarrow> manager option" where
  "unlink_transaction j m =
     do {
       jb \<leftarrow> m_job m j;
       let u = j_unit jb; ls = tlist m u in
       Some (if j \<in> set ls
             then m\<lparr>m_transaction_jobs :=
                      (case remove1 j ls of
                         [] \<Rightarrow> omap_remove u (m_transaction_jobs m)
                       | ls' \<Rightarrow> omap_replace u ls' (m_transaction_jobs m))\<rparr>
             else m) }"

partial_function (option) free_subject_list :: "jref \<Rightarrow> manager \<Rightarrow> manager option" where
  "free_subject_list j m =
     do {
       jb \<leftarrow> m_job m j;
       case j_subject_list jb of
         [] \<Rightarrow> Some m
       | l # _ \<Rightarrow> do { m' \<leftarrow> job_dependency_free l m; free_subject_list j m' } }"

partial_function (option) free_object_list :: "jref \<Rightarrow> manager \<Rightarrow> manager option" where
  "free_object_list j m =
     do {
       jb \<leftarrow> m_job m j;
       case j_object_list jb of
         [] \<Rightarrow> Some m
       | l # _ \<Rightarrow> do { m' \<leftarrow> job_dependency_free l m; free_object_list j m' } }"

text \<open>What \<open>job_free\<close> does after it has unlinked the job from the transaction.\<close>

definition job_release :: "jref \<Rightarrow> manager \<Rightarrow> manager option" where
  "job_release j m =
     do {
       jb \<leftarrow> m_job m j;
       Some (m\<lparr>m_run_queue := (if j_in_run_queue jb then remove1 j (m_run_queue m) else m_run_queue m),
               m_dbus_job_queue :=
                 (if j_in_dbus_queue jb then remove1 j (m_dbus_job_queue m) else m_dbus_job_queue m),
               m_job := (m_job m)(j := None)\<rparr>) }"

text \<open>
  The loop over \<open>object_list\<close> in \<open>manager_transaction_unlink_job\<close>.  The recursive call
  deletes a job that requires \<open>j\<close>; \<open>transaction_delete_job\<close> and the call of
  \<open>job_free\<close> for a job that is not installed are written out in it, as the lemma
  \<open>unlink_objects_unfold\<close> below states.
\<close>

partial_function (option) unlink_objects :: "bool \<Rightarrow> jref \<Rightarrow> manager \<Rightarrow> manager option" where
  "unlink_objects dd j m =
     do {
       jb \<leftarrow> m_job m j;
       case j_object_list jb of
         [] \<Rightarrow> Some m
       | l # _ \<Rightarrow> do {
           d \<leftarrow> omap_get (m_dep m) l;
           m1 \<leftarrow> job_dependency_free l m;
           m2 \<leftarrow> (case (if d_matters d then d_subject d else None) of
                    None \<Rightarrow> Some m1
                  | Some other \<Rightarrow>
                      if \<not> dd then Some m1
                      else do {
                        m3 \<leftarrow> unlink_transaction other m1;
                        m4 \<leftarrow> free_subject_list other m3;
                        m5 \<leftarrow> unlink_objects dd other m4;
                        ob \<leftarrow> m_job m5 other;
                        if j_installed ob then Some m5
                        else do {
                          m6 \<leftarrow> unlink_transaction other m5;
                          m7 \<leftarrow> free_subject_list other m6;
                          m8 \<leftarrow> unlink_objects True other m7;
                          job_release other m8 } });
           unlink_objects dd j m2 } }"

definition manager_transaction_unlink_job :: "jref \<Rightarrow> bool \<Rightarrow> manager \<Rightarrow> manager option" where
  "manager_transaction_unlink_job j delete_dependencies m =
     do {
       m1 \<leftarrow> unlink_transaction j m;
       m2 \<leftarrow> free_subject_list j m1;
       unlink_objects delete_dependencies j m2 }"

definition job_free :: "jref \<Rightarrow> manager \<Rightarrow> manager option" where
  "job_free j m =
     do {
       jb \<leftarrow> m_job m j;
       m1 \<leftarrow> (if j_installed jb
              then upd_job j (\<lambda>jb. jb\<lparr>j_installed := False\<rparr>)
                ((if u_job (m_unit m (j_unit jb)) = Some j
                  then unit_add_to_gc_queue (j_unit jb)
                         (upd_unit (j_unit jb) (\<lambda>x. x\<lparr>u_job := None\<rparr>) m)
                  else m)
                 \<lparr>m_jobs := omap_remove (j_id jb) (m_jobs m)\<rparr>)
              else Some m);
       m2 \<leftarrow> manager_transaction_unlink_job j True m1;
       job_release j m2 }"

definition transaction_delete_job :: "jref \<Rightarrow> bool \<Rightarrow> manager \<Rightarrow> manager option" where
  "transaction_delete_job j delete_dependencies m =
     do {
       m1 \<leftarrow> manager_transaction_unlink_job j delete_dependencies m;
       jb \<leftarrow> m_job m1 j;
       if j_installed jb then Some m1 else job_free j m1 }"

lemma unlink_objects_unfold:
  "unlink_objects dd j m =
     do {
       jb \<leftarrow> m_job m j;
       case j_object_list jb of
         [] \<Rightarrow> Some m
       | l # _ \<Rightarrow> do {
           d \<leftarrow> omap_get (m_dep m) l;
           m1 \<leftarrow> job_dependency_free l m;
           m2 \<leftarrow> (case (if d_matters d then d_subject d else None) of
                    None \<Rightarrow> Some m1
                  | Some other \<Rightarrow> if dd then transaction_delete_job other dd m1 else Some m1);
           unlink_objects dd j m2 } }"
proof -
  have free: "job_free other m5 = do {
        m6 \<leftarrow> unlink_transaction other m5;
        m7 \<leftarrow> free_subject_list other m6;
        m8 \<leftarrow> unlink_objects True other m7;
        job_release other m8 }" if "m_job m5 other = Some ob" "\<not> j_installed ob" for other m5 ob
    using that by (simp add: job_free_def manager_transaction_unlink_job_def)
  have "do { ob \<leftarrow> m_job m5 other; if j_installed ob then Some m5 else job_free other m5 } =
        do { ob \<leftarrow> m_job m5 other;
             if j_installed ob then Some m5
             else do {
               m6 \<leftarrow> unlink_transaction other m5;
               m7 \<leftarrow> free_subject_list other m6;
               m8 \<leftarrow> unlink_objects True other m7;
               job_release other m8 } }" for other m5
    by (cases "m_job m5 other") (simp_all add: free)
  then show ?thesis
    by (subst unlink_objects.simps, cases dd; cases "m_job m j")
      (simp_all add: transaction_delete_job_def manager_transaction_unlink_job_def
        cong: option.case_cong if_cong list.case_cong)
qed

partial_function (option) transaction_delete_unit :: "uid \<Rightarrow> manager \<Rightarrow> manager option" where
  "transaction_delete_unit u m =
     (case tlist m u of
        [] \<Rightarrow> Some m
      | j # _ \<Rightarrow> do { m' \<leftarrow> transaction_delete_job j True m; transaction_delete_unit u m' })"

fun clean_jobs :: "jref list \<Rightarrow> manager \<Rightarrow> manager option" where
  "clean_jobs [] m = Some m"
| "clean_jobs (j # js) m =
     do { m1 \<leftarrow> free_subject_list j m; m2 \<leftarrow> free_object_list j m1; clean_jobs js m2 }"

definition transaction_clean_dependencies :: "manager \<Rightarrow> manager option" where
  "transaction_clean_dependencies m =
     do {
       m' \<leftarrow> clean_jobs (map snd (m_jobs m)) m;
       if m_transaction_anchor m' = [] then Some m' else None }"

partial_function (option) abort_jobs :: "manager \<Rightarrow> manager option" where
  "abort_jobs m =
     (case m_transaction_jobs m of
        [] \<Rightarrow> Some m
      | (u, ls) # _ \<Rightarrow> do {
          jb \<leftarrow> m_job m (hd ls);
          m' \<leftarrow> (if j_installed jb then transaction_delete_job (hd ls) True m else job_free (hd ls) m);
          abort_jobs m' })"

definition transaction_abort :: "manager \<Rightarrow> manager option" where
  "transaction_abort m = do { m' \<leftarrow> abort_jobs m; transaction_clean_dependencies m' }"

subsection \<open>Jobs that matter to the anchor\<close>

text \<open>
  The recursive sweep over the links of a subject list: the first argument of a call is what is
  left of the list that the enclosing \<open>LIST_FOREACH\<close> walks.
\<close>

partial_function (option) find_matters :: "nat \<Rightarrow> dref list \<Rightarrow> manager \<Rightarrow> manager option" where
  "find_matters generation links m =
     (case links of
        [] \<Rightarrow> Some m
      | l # ls \<Rightarrow> do {
          d \<leftarrow> omap_get (m_dep m) l;
          if \<not> d_matters d then find_matters generation ls m
          else do {
            ob \<leftarrow> m_job m (d_object d);
            if j_generation ob = generation then find_matters generation ls m
            else do {
              m1 \<leftarrow> upd_job (d_object d)
                     (\<lambda>jb. jb\<lparr>j_matters_to_anchor := True, j_generation := generation\<rparr>) m;
              m2 \<leftarrow> find_matters generation (j_subject_list ob) m1;
              find_matters generation ls m2 } } })"

definition transaction_find_jobs_that_matter_to_anchor ::
    "jref option \<Rightarrow> nat \<Rightarrow> manager \<Rightarrow> manager option" where
  "transaction_find_jobs_that_matter_to_anchor j generation m =
     (case j of
        Some j' \<Rightarrow> do { jb \<leftarrow> m_job m j'; find_matters generation (j_subject_list jb) m }
      | None \<Rightarrow> find_matters generation (m_transaction_anchor m) m)"

subsection \<open>Pruning loops\<close>

text \<open>
  \<open>transaction_drop_redundant\<close>, \<open>transaction_collect_garbage\<close> and
  \<open>transaction_minimize_impact\<close> share one loop: sweep through the transaction, delete the
  first job that a test selects, and start over until a sweep selects none.
\<close>

fun find_first :: "('a \<Rightarrow> bool option) \<Rightarrow> 'a list \<Rightarrow> 'a option option" where
  "find_first P [] = Some None"
| "find_first P (x # xs) = do { b \<leftarrow> P x; if b then Some (Some x) else find_first P xs }"

fun all_opt :: "('a \<Rightarrow> bool option) \<Rightarrow> 'a list \<Rightarrow> bool option" where
  "all_opt P [] = Some True"
| "all_opt P (x # xs) = do { b \<leftarrow> P x; if b then all_opt P xs else Some False }"

fun any_opt :: "('a \<Rightarrow> bool option) \<Rightarrow> 'a list \<Rightarrow> bool option" where
  "any_opt P [] = Some False"
| "any_opt P (x # xs) = do { b \<leftarrow> P x; if b then Some True else any_opt P xs }"

partial_function (option) prune ::
    "(manager \<Rightarrow> jref option option) \<Rightarrow> bool \<Rightarrow> manager \<Rightarrow> manager option" where
  "prune select delete_dependencies m =
     do {
       r \<leftarrow> select m;
       case r of
         None \<Rightarrow> Some m
       | Some j \<Rightarrow> do {
           m' \<leftarrow> transaction_delete_job j delete_dependencies m;
           prune select delete_dependencies m' } }"

definition tx_heads :: "manager \<Rightarrow> jref list" where
  "tx_heads m = map (hd \<circ> snd) (m_transaction_jobs m)"

definition tx_all :: "manager \<Rightarrow> jref list" where
  "tx_all m = concat (map snd (m_transaction_jobs m))"

text \<open>The job of the unit is looked at only when there is one.\<close>

definition unit_job_test :: "manager \<Rightarrow> uid \<Rightarrow> (job \<Rightarrow> bool) \<Rightarrow> bool option" where
  "unit_job_test m u P =
     (case u_job (m_unit m u) of None \<Rightarrow> Some False | Some i \<Rightarrow> do { ib \<leftarrow> m_job m i; Some (P ib) })"

definition redundant_job :: "manager \<Rightarrow> jref \<Rightarrow> bool option" where
  "redundant_job m k =
     do {
       kb \<leftarrow> m_job m k;
       anchor \<leftarrow> job_is_anchor m k;
       if anchor then Some False
       else if \<not> (j_installed kb \<or>
                  job_type_is_redundant (j_type kb) (unit_active_state m (j_unit kb))) then Some False
       else do {
         c \<leftarrow> unit_job_test m (j_unit kb) (\<lambda>ib. job_type_is_conflicting (j_type kb) (j_type ib));
         Some (\<not> c) } }"

text \<open>The sweep runs over the units; the job it deletes is the first of a unit's chain.\<close>

definition find_redundant :: "manager \<Rightarrow> jref option option" where
  "find_redundant m =
     do {
       r \<leftarrow> find_first (\<lambda>(u, js). all_opt (redundant_job m) js) (m_transaction_jobs m);
       Some (map_option (hd \<circ> snd) r) }"

definition transaction_drop_redundant :: "manager \<Rightarrow> manager option" where
  "transaction_drop_redundant = prune find_redundant False"

definition find_garbage :: "manager \<Rightarrow> jref option option" where
  "find_garbage m =
     find_first (\<lambda>j. do { jb \<leftarrow> m_job m j; Some (j_object_list jb = []) }) (tx_heads m)"

definition transaction_collect_garbage :: "manager \<Rightarrow> manager option" where
  "transaction_collect_garbage = prune find_garbage True"

definition impact_job :: "manager \<Rightarrow> jref \<Rightarrow> bool option" where
  "impact_job m j =
     do {
       jb \<leftarrow> m_job m j;
       if j_matters_to_anchor jb then Some False
       else do {
         changes_existing_job \<leftarrow>
           unit_job_test m (j_unit jb) (\<lambda>ib. job_type_is_conflicting (j_type jb) (j_type ib));
         let stops_running_service =
           j_type jb = JOB_STOP \<and> UNIT_IS_ACTIVE_OR_ACTIVATING (unit_active_state m (j_unit jb)) in
         Some (stops_running_service \<or> changes_existing_job) } }"

definition find_impact :: "manager \<Rightarrow> jref option option" where
  "find_impact m = find_first (impact_job m) (tx_all m)"

definition transaction_minimize_impact :: "manager \<Rightarrow> manager option" where
  "transaction_minimize_impact = prune find_impact True"

subsection \<open>Ordering cycles\<close>

text \<open>
  An operation that returns an \<open>int\<close> and changes the manager: the result and the new state,
  or \<open>None\<close>.
\<close>

type_synonym 'a st = "('a result \<times> manager) option"

text \<open>The chain of prospective jobs from \<open>j\<close> on; an installed job outside the transaction is alone.\<close>

definition tx_chain :: "manager \<Rightarrow> uid \<Rightarrow> jref \<Rightarrow> jref list" where
  "tx_chain m u j = (if j \<in> set (tlist m u) then dropWhile (\<lambda>k. k \<noteq> j) (tlist m u) else [j])"

text \<open>\<open>!j->transaction_prev\<close>\<close>

definition no_prev :: "manager \<Rightarrow> uid \<Rightarrow> jref \<Rightarrow> bool" where
  "no_prev m u j \<longleftrightarrow> j \<notin> set (tl (tlist m u))"

definition unit_matters_to_anchor :: "manager \<Rightarrow> uid \<Rightarrow> jref \<Rightarrow> bool option" where
  "unit_matters_to_anchor m u j =
     (if no_prev m u j
      then any_opt (\<lambda>k. do { kb \<leftarrow> m_job m k; Some (j_matters_to_anchor kb) }) (tx_chain m u j)
      else None)"

text \<open>The walk back along the markers, from \<open>k\<close> to the begin \<open>j\<close> of the cycle.\<close>

partial_function (option) walk_cycle ::
    "nat \<Rightarrow> jref \<Rightarrow> jref option \<Rightarrow> jref option \<Rightarrow> manager \<Rightarrow> jref option option" where
  "walk_cycle generation j k delete m =
     (case k of
        None \<Rightarrow> Some delete
      | Some k' \<Rightarrow> do {
          kb \<leftarrow> m_job m k';
          delete' \<leftarrow> (if delete \<noteq> None \<or> j_installed kb then Some delete
                      else do {
                        b \<leftarrow> unit_matters_to_anchor m (j_unit kb) k';
                        Some (if b then None else Some k') });
          if k' = j then Some delete'
          else walk_cycle generation j
                 (if j_generation kb = generation \<and> j_marker kb \<noteq> Some k' then j_marker kb else None)
                 delete' m })"

text \<open>
  \<open>Visit j from\<close> is a call of \<open>transaction_verify_order_one\<close>; \<open>Before j us\<close> is what is
  left of its loop over \<open>dependencies[UNIT_BEFORE]\<close>.
\<close>

datatype order_call = Visit jref "jref option" | Before jref "uid list"

definition order_target :: "manager \<Rightarrow> uid \<Rightarrow> jref option" where
  "order_target m u = (case tlist m u of j # _ \<Rightarrow> Some j | [] \<Rightarrow> u_job (m_unit m u))"

partial_function (option) verify_order_call :: "nat \<Rightarrow> order_call \<Rightarrow> manager \<Rightarrow> unit st" where
  "verify_order_call generation c m =
     (case c of
        Visit j from \<Rightarrow> do {
          jb \<leftarrow> m_job m j;
          if \<not> no_prev m (j_unit jb) j then None
          else if j_generation jb = generation then
            (if j_marker jb = None then Some (Inr (), m)
             else do {
               delete \<leftarrow> walk_cycle generation j from None m;
               case delete of
                 Some k \<Rightarrow> do {
                   kb \<leftarrow> m_job m k;
                   m' \<leftarrow> transaction_delete_unit (j_unit kb) m;
                   Some (Inl EAGAIN, m') }
               | None \<Rightarrow> Some (Inl ENOEXEC, m) })
          else do {
            m1 \<leftarrow> upd_job j (\<lambda>jb. jb\<lparr>j_marker := Some (case from of Some f \<Rightarrow> f | None \<Rightarrow> j),
                                    j_generation := generation\<rparr>) m;
            (r, m2) \<leftarrow> verify_order_call generation (Before j (u_deps m (j_unit jb) UNIT_BEFORE)) m1;
            case r of
              Inl e \<Rightarrow> Some (Inl e, m2)
            | Inr _ \<Rightarrow> do {
                m3 \<leftarrow> upd_job j (\<lambda>jb. jb\<lparr>j_marker := None\<rparr>) m2;
                Some (Inr (), m3) } } }
      | Before j us \<Rightarrow>
          (case us of
             [] \<Rightarrow> Some (Inr (), m)
           | u # us' \<Rightarrow>
               (case order_target m u of
                  None \<Rightarrow> verify_order_call generation (Before j us') m
                | Some ob \<Rightarrow> do {
                    (r, m1) \<leftarrow> verify_order_call generation (Visit ob (Some j)) m;
                    case r of
                      Inl e \<Rightarrow> Some (Inl e, m1)
                    | Inr _ \<Rightarrow> verify_order_call generation (Before j us') m1 })))"

definition transaction_verify_order_one :: "jref \<Rightarrow> jref option \<Rightarrow> nat \<Rightarrow> manager \<Rightarrow> unit st" where
  "transaction_verify_order_one j from generation = verify_order_call generation (Visit j from)"

fun verify_order_heads :: "nat \<Rightarrow> jref list \<Rightarrow> manager \<Rightarrow> unit st" where
  "verify_order_heads g [] m = Some (Inr (), m)"
| "verify_order_heads g (j # js) m =
     do {
       (r, m1) \<leftarrow> transaction_verify_order_one j None g m;
       case r of Inl e \<Rightarrow> Some (Inl e, m1) | Inr _ \<Rightarrow> verify_order_heads g js m1 }"

text \<open>The caller increments the generation after every sweep.\<close>

definition transaction_verify_order :: "nat \<Rightarrow> manager \<Rightarrow> unit st" where
  "transaction_verify_order g m = verify_order_heads g (tx_heads m) m"

end
