(* ===== verification/Transaction_Delete.thy ===== *)
theory Transaction_Delete
  imports Transaction
begin

section \<open>What deleting a job from the transaction does\<close>

text \<open>
  The pointer-chasing deletion of \<open>Transaction\<close> in closed form.  \<open>eff D T X m\<close> is the
  manager \<open>m\<close> without the dependencies \<open>D\<close>, with the jobs \<open>T\<close> taken out of the
  transaction and the jobs \<open>X\<close> freed.  Under the well-formedness \<open>wf_core\<close> of the
  dependency lists, the transaction's chains and the queues, deleting a job terminates, touches
  no freed object, and its effect is \<open>eff\<close> on the set of jobs that require it, directly or
  through others (\<open>transaction_delete_job_eff\<close>).
\<close>

definition drop_jobs :: "jref set \<Rightarrow> (uid, jref list) omap \<Rightarrow> (uid, jref list) omap" where
  "drop_jobs T xs = filter (\<lambda>p. snd p \<noteq> []) (map (\<lambda>(u, ls). (u, filter (\<lambda>j. j \<notin> T) ls)) xs)"

definition drop_deps :: "dref set \<Rightarrow> job \<Rightarrow> job" where
  "drop_deps D jb = jb\<lparr>j_subject_list := filter (\<lambda>l. l \<notin> D) (j_subject_list jb),
                       j_object_list := filter (\<lambda>l. l \<notin> D) (j_object_list jb)\<rparr>"

definition eff :: "dref set \<Rightarrow> jref set \<Rightarrow> jref set \<Rightarrow> manager \<Rightarrow> manager" where
  "eff D T X m =
     m\<lparr>m_dep := filter (\<lambda>p. fst p \<notin> D) (m_dep m),
       m_transaction_anchor := filter (\<lambda>l. l \<notin> D) (m_transaction_anchor m),
       m_transaction_jobs := drop_jobs T (m_transaction_jobs m),
       m_job := (\<lambda>j. if j \<in> X then None else map_option (drop_deps D) (m_job m j))\<rparr>"

definition wf_deps :: "manager \<Rightarrow> bool" where
  "wf_deps m \<longleftrightarrow>
     distinct (omap_keys (m_dep m)) \<and>
     (\<forall>l d. omap_get (m_dep m) l = Some d \<longrightarrow>
        (\<exists>jb. m_job m (d_object d) = Some jb \<and> l \<in> set (j_object_list jb))) \<and>
     (\<forall>l d. omap_get (m_dep m) l = Some d \<longrightarrow>
        (case d_subject d of
           None \<Rightarrow> l \<in> set (m_transaction_anchor m)
         | Some s \<Rightarrow> \<exists>jb. m_job m s = Some jb \<and> l \<in> set (j_subject_list jb))) \<and>
     (\<forall>j jb. m_job m j = Some jb \<longrightarrow>
        distinct (j_subject_list jb) \<and> distinct (j_object_list jb) \<and>
        (\<forall>l \<in> set (j_subject_list jb). \<exists>d. omap_get (m_dep m) l = Some d \<and> d_subject d = Some j) \<and>
        (\<forall>l \<in> set (j_object_list jb). \<exists>d. omap_get (m_dep m) l = Some d \<and> d_object d = j)) \<and>
     distinct (m_transaction_anchor m) \<and>
     (\<forall>l \<in> set (m_transaction_anchor m). \<exists>d. omap_get (m_dep m) l = Some d \<and> d_subject d = None)"

definition wf_list :: "manager \<Rightarrow> bool" where
  "wf_list m \<longleftrightarrow>
     distinct (omap_keys (m_transaction_jobs m)) \<and>
     (\<forall>(u, ls) \<in> set (m_transaction_jobs m).
        ls \<noteq> [] \<and> distinct ls \<and> (\<forall>j \<in> set ls. \<exists>jb. m_job m j = Some jb \<and> j_unit jb = u))"

definition wf_q :: "manager \<Rightarrow> bool" where
  "wf_q m \<longleftrightarrow> (\<forall>j jb. m_job m j = Some jb \<and> \<not> j_installed jb \<longrightarrow>
                    \<not> j_in_run_queue jb \<and> \<not> j_in_dbus_queue jb)"

definition wf_core :: "manager \<Rightarrow> bool" where
  "wf_core m \<longleftrightarrow> wf_deps m \<and> wf_list m \<and> wf_q m"

lemma drop_deps_simps [simp]:
  "j_unit (drop_deps D jb) = j_unit jb" "j_marker (drop_deps D jb) = j_marker jb"
  "j_generation (drop_deps D jb) = j_generation jb" "j_id (drop_deps D jb) = j_id jb"
  "j_type (drop_deps D jb) = j_type jb" "j_state (drop_deps D jb) = j_state jb"
  "j_installed (drop_deps D jb) = j_installed jb" "j_in_run_queue (drop_deps D jb) = j_in_run_queue jb"
  "j_in_dbus_queue (drop_deps D jb) = j_in_dbus_queue jb"
  "j_matters_to_anchor (drop_deps D jb) = j_matters_to_anchor jb"
  "j_override (drop_deps D jb) = j_override jb" "j_ignore_order (drop_deps D jb) = j_ignore_order jb"
  "j_timer (drop_deps D jb) = j_timer jb" "j_result (drop_deps D jb) = j_result jb"
  "j_subject_list (drop_deps D jb) = filter (\<lambda>l. l \<notin> D) (j_subject_list jb)"
  "j_object_list (drop_deps D jb) = filter (\<lambda>l. l \<notin> D) (j_object_list jb)"
  by (simp_all add: drop_deps_def)

lemma drop_deps_id: "set (j_subject_list jb) \<inter> D = {} \<Longrightarrow> set (j_object_list jb) \<inter> D = {} \<Longrightarrow> drop_deps D jb = jb"
  by (cases jb) (auto simp: drop_deps_def filter_id_conv)

lemma drop_deps_empty [simp]: "drop_deps {} jb = jb"
  by (simp add: drop_deps_id)

lemma map_option_drop_deps_empty [simp]: "map_option (drop_deps {}) x = x"
  by (cases x) simp_all

lemma drop_deps_drop_deps [simp]: "drop_deps D (drop_deps D' jb) = drop_deps (D \<union> D') jb"
  by (cases jb) (auto simp: drop_deps_def intro!: filter_cong)

lemma drop_jobs_drop_jobs [simp]: "drop_jobs T (drop_jobs T' xs) = drop_jobs (T \<union> T') xs"
  by (induction xs) (auto simp: drop_jobs_def filter_empty_conv conj_commute)

lemma eff_eff: "eff D T X (eff D' T' X' m) = eff (D \<union> D') (T \<union> T') (X \<union> X') m"
proof -
  have "filter (\<lambda>p. fst p \<notin> D) (filter (\<lambda>p. fst p \<notin> D') (m_dep m)) = filter (\<lambda>p. fst p \<notin> D \<union> D') (m_dep m)"
    by (auto intro!: filter_cong)
  moreover have "filter (\<lambda>l. l \<notin> D) (filter (\<lambda>l. l \<notin> D') (m_transaction_anchor m)) = filter (\<lambda>l. l \<notin> D \<union> D') (m_transaction_anchor m)"
    by (auto intro!: filter_cong)
  ultimately show ?thesis
    by (auto simp: eff_def fun_eq_iff option.map_comp o_def)
qed

lemma map_of_filter_keys: "map_of (filter (\<lambda>p. fst p \<notin> D) xs) l = (if l \<in> D then None else map_of xs l)"
  by (induction xs) auto

lemma eff_sel [simp]:
  "m_units (eff D T X m) = m_units m" "m_jobs (eff D T X m) = m_jobs m"
  "m_run_queue (eff D T X m) = m_run_queue m" "m_dbus_job_queue (eff D T X m) = m_dbus_job_queue m"
  "m_unit (eff D T X m) = m_unit m" "m_next_job (eff D T X m) = m_next_job m"
  "m_next_dep (eff D T X m) = m_next_dep m" "m_current_job_id (eff D T X m) = m_current_job_id m"
  "m_job (eff D T X m) j = (if j \<in> X then None else map_option (drop_deps D) (m_job m j))"
  "m_transaction_jobs (eff D T X m) = drop_jobs T (m_transaction_jobs m)"
  "m_transaction_anchor (eff D T X m) = filter (\<lambda>l. l \<notin> D) (m_transaction_anchor m)"
  "omap_get (m_dep (eff D T X m)) l = (if l \<in> D then None else omap_get (m_dep m) l)"
  by (simp_all add: eff_def omap_get_def map_of_filter_keys)

lemma drop_jobs_empty: "\<forall>p \<in> set xs. snd p \<noteq> [] \<Longrightarrow> drop_jobs {} xs = xs"
  by (induction xs) (auto simp: drop_jobs_def)

lemma wf_list_drop_empty: "wf_list m \<Longrightarrow> drop_jobs {} (m_transaction_jobs m) = m_transaction_jobs m"
  by (rule drop_jobs_empty) (auto simp: wf_list_def)

lemma wf_depsD:
  assumes "wf_deps m"
  shows "distinct (omap_keys (m_dep m))"
    and "omap_get (m_dep m) l = Some d \<Longrightarrow> \<exists>jb. m_job m (d_object d) = Some jb \<and> l \<in> set (j_object_list jb)"
    and "omap_get (m_dep m) l = Some d \<Longrightarrow> d_subject d = Some s \<Longrightarrow> \<exists>jb. m_job m s = Some jb \<and> l \<in> set (j_subject_list jb)"
    and "omap_get (m_dep m) l = Some d \<Longrightarrow> d_subject d = None \<Longrightarrow> l \<in> set (m_transaction_anchor m)"
    and "m_job m j = Some jb \<Longrightarrow> distinct (j_subject_list jb)"
    and "m_job m j = Some jb \<Longrightarrow> distinct (j_object_list jb)"
    and "m_job m j = Some jb \<Longrightarrow> l \<in> set (j_subject_list jb) \<Longrightarrow> \<exists>d. omap_get (m_dep m) l = Some d \<and> d_subject d = Some j"
    and "m_job m j = Some jb \<Longrightarrow> l \<in> set (j_object_list jb) \<Longrightarrow> \<exists>d. omap_get (m_dep m) l = Some d \<and> d_object d = j"
    and "distinct (m_transaction_anchor m)"
    and "l \<in> set (m_transaction_anchor m) \<Longrightarrow> \<exists>d. omap_get (m_dep m) l = Some d \<and> d_subject d = None"
  using assms unfolding wf_deps_def by (fastforce split: option.splits)+

lemma filter_neq_remove1: "distinct xs \<Longrightarrow> filter (\<lambda>x. x \<notin> {l}) xs = remove1 l xs"
  by (auto simp: distinct_remove1_removeAll removeAll_filter_not_eq intro: filter_cong)

lemma drop_deps_single:
  "distinct (j_subject_list jb) \<Longrightarrow> distinct (j_object_list jb) \<Longrightarrow>
     drop_deps {l} jb = jb\<lparr>j_subject_list := remove1 l (j_subject_list jb), j_object_list := remove1 l (j_object_list jb)\<rparr>"
  unfolding drop_deps_def by (simp only: filter_neq_remove1)

lemma job_dependency_free_eff:
  assumes wf: "wf_deps m" "wf_list m" and d: "omap_get (m_dep m) l = Some d"
  shows "job_dependency_free l m = Some (eff {l} {} {} m)"
proof -
  have no_sub: "l \<notin> set (j_subject_list jb)" if "m_job m x = Some jb" "d_subject d \<noteq> Some x" for x jb
    using wf_depsD(7) [OF wf(1) that(1), of l] d that(2) by auto
  have no_obj: "l \<notin> set (j_object_list jb)" if "m_job m x = Some jb" "d_object d \<noteq> x" for x jb
    using wf_depsD(8) [OF wf(1) that(1), of l] d that(2) by auto
  have no_anc: "l \<notin> set (m_transaction_anchor m)" if "d_subject d \<noteq> None"
    using wf_depsD(10) [OF wf(1), of l] d that by auto
  obtain ob where ob: "m_job m (d_object d) = Some ob" using wf_depsD(2) [OF wf(1) d] by auto
  note drop = drop_deps_single [OF wf_depsD(5) [OF wf(1)] wf_depsD(6) [OF wf(1)]]
  note anc = filter_neq_remove1 [OF wf_depsD(9) [OF wf(1)], of l]
  have dep: "omap_remove l (m_dep m) = filter (\<lambda>p. fst p \<notin> {l}) (m_dep m)"
    by (simp add: omap_remove_def)
  show ?thesis
  proof (cases "d_subject d")
    case None
    have "(m_job m)(d_object d \<mapsto> ob\<lparr>j_object_list := remove1 l (j_object_list ob)\<rparr>) =
          (\<lambda>j. map_option (drop_deps {l}) (m_job m j))"
    proof
      fix x
      show "((m_job m)(d_object d \<mapsto> ob\<lparr>j_object_list := remove1 l (j_object_list ob)\<rparr>)) x =
          map_option (drop_deps {l}) (m_job m x)"
        using no_sub [of x] no_obj [of x] None ob
        by (cases "m_job m x") (auto simp: drop remove1_idem)
    qed
    then show ?thesis
      using d None ob anc wf_list_drop_empty [OF wf(2)]
      by (simp add: job_dependency_free_def upd_job_def eff_def dep)
  next
    case (Some s)
    obtain sb where sb: "m_job m s = Some sb" using wf_depsD(3) [OF wf(1) d Some] by auto
    define f where "f = (m_job m)(s \<mapsto> sb\<lparr>j_subject_list := remove1 l (j_subject_list sb)\<rparr>)"
    obtain ob' where ob': "f (d_object d) = Some ob'"
      and ob'': "ob' = (if d_object d = s then sb\<lparr>j_subject_list := remove1 l (j_subject_list sb)\<rparr> else ob)"
      using ob by (auto simp: f_def)
    have "f(d_object d \<mapsto> ob'\<lparr>j_object_list := remove1 l (j_object_list ob')\<rparr>) =
          (\<lambda>j. map_option (drop_deps {l}) (m_job m j))"
    proof
      fix x
      show "(f(d_object d \<mapsto> ob'\<lparr>j_object_list := remove1 l (j_object_list ob')\<rparr>)) x =
          map_option (drop_deps {l}) (m_job m x)"
        using no_sub [of x] no_obj [of x] Some ob sb ob''
        by (cases "m_job m x") (auto simp: f_def drop remove1_idem)
    qed
    moreover have "filter (\<lambda>x. x \<notin> {l}) (m_transaction_anchor m) = m_transaction_anchor m"
      using no_anc Some by (auto simp: filter_id_conv)
    ultimately show ?thesis
      using d Some sb ob' wf_list_drop_empty [OF wf(2)]
      by (simp add: job_dependency_free_def upd_job_def eff_def dep f_def)
  qed
qed

lemma wf_listD:
  assumes "wf_list m"
  shows "distinct (omap_keys (m_transaction_jobs m))"
    and "(u, ls) \<in> set (m_transaction_jobs m) \<Longrightarrow> ls \<noteq> []"
    and "(u, ls) \<in> set (m_transaction_jobs m) \<Longrightarrow> distinct ls"
    and "(u, ls) \<in> set (m_transaction_jobs m) \<Longrightarrow> j \<in> set ls \<Longrightarrow> \<exists>jb. m_job m j = Some jb \<and> j_unit jb = u"
  using assms unfolding wf_list_def by fast+

lemma wf_list_tlist:
  assumes "wf_list m"
  shows "distinct (tlist m u)" "j \<in> set (tlist m u) \<Longrightarrow> \<exists>jb. m_job m j = Some jb \<and> j_unit jb = u"
proof -
  have "tlist m u = [] \<or> (u, tlist m u) \<in> set (m_transaction_jobs m)"
    by (cases "omap_get (m_transaction_jobs m) u") (simp_all add: tlist_def omap_get_SomeD)
  then show "distinct (tlist m u)" "j \<in> set (tlist m u) \<Longrightarrow> \<exists>jb. m_job m j = Some jb \<and> j_unit jb = u"
    using wf_listD(3,4) [OF assms, of u "tlist m u"] by auto
qed

lemma drop_jobs_Cons:
  "drop_jobs T ((u, ls) # xs) =
     (if filter (\<lambda>j. j \<notin> T) ls = [] then drop_jobs T xs else (u, filter (\<lambda>j. j \<notin> T) ls) # drop_jobs T xs)"
  by (simp add: drop_jobs_def)

lemma drop_jobs_id:
  assumes "\<And>u ls. (u, ls) \<in> set xs \<Longrightarrow> ls \<noteq> [] \<and> set ls \<inter> T = {}"
  shows "drop_jobs T xs = xs"
proof -
  have "filter (\<lambda>j. j \<notin> T) ls = ls" if "(u, ls) \<in> set xs" for u ls
    using assms [OF that] by (auto simp: filter_id_conv)
  then have "map (\<lambda>(u, ls). (u, filter (\<lambda>j. j \<notin> T) ls)) xs = xs"
    by (intro map_idI) auto
  moreover have "\<forall>p \<in> set xs. snd p \<noteq> []" using assms by force
  ultimately show ?thesis by (simp add: drop_jobs_def filter_id_conv)
qed

lemma drop_jobs_append: "drop_jobs T (xs @ ys) = drop_jobs T xs @ drop_jobs T ys"
  by (simp add: drop_jobs_def)

lemma unlink_transaction_eff:
  assumes wf: "wf_deps m" "wf_list m" and j: "m_job m j = Some jb"
  shows "unlink_transaction j m = Some (eff {} {j} {} m)"
proof -
  let ?u = "j_unit jb" and ?t = "m_transaction_jobs m"
  have other: "j \<notin> set ls" if "(u, ls) \<in> set ?t" "u \<noteq> ?u" for u ls
    using wf_listD(4) [OF wf(2) that(1), of j] that(2) j by auto
  have eq: "drop_jobs {j} ?t =
      (if j \<in> set (tlist m ?u)
       then (case remove1 j (tlist m ?u) of [] \<Rightarrow> omap_remove ?u ?t | ls' \<Rightarrow> omap_replace ?u ls' ?t) else ?t)"
  proof (cases "omap_get ?t ?u")
    case None
    then have "tlist m ?u = []" by (simp add: tlist_def)
    moreover have "drop_jobs {j} ?t = ?t"
    proof (rule drop_jobs_id)
      fix u ls assume "(u, ls) \<in> set ?t"
      moreover from this None have "u \<noteq> ?u" by (auto simp: omap_get_None_iff rev_image_eqI)
      ultimately show "ls \<noteq> [] \<and> set ls \<inter> {j} = {}" using other wf_listD(2) [OF wf(2)] by blast
    qed
    ultimately show ?thesis by simp
  next
    case (Some ls)
    then have tl: "tlist m ?u = ls" by (simp add: tlist_def)
    obtain pre post where t: "?t = pre @ (?u, ls) # post"
      using omap_get_SomeD [OF Some] by (meson split_list)
    have d: "?u \<notin> fst ` set pre" "?u \<notin> fst ` set post" using wf_listD(1) [OF wf(2)] t by auto
    have keep: "ls' \<noteq> [] \<and> set ls' \<inter> {j} = {}" if "(u, ls') \<in> set pre \<union> set post" for u ls'
    proof -
      have "(u, ls') \<in> set ?t" "u \<noteq> ?u" using that d by (auto simp: t rev_image_eqI)
      then show ?thesis using other wf_listD(2) [OF wf(2)] by blast
    qed
    have "drop_jobs {j} pre = pre" "drop_jobs {j} post = post"
      using keep by (auto intro!: drop_jobs_id)
    then have drop: "drop_jobs {j} ?t = pre @ (if remove1 j ls = [] then post else (?u, remove1 j ls) # post)"
      using wf_listD(3) [OF wf(2) omap_get_SomeD [OF Some]]
      by (simp add: t drop_jobs_append drop_jobs_Cons filter_neq_remove1 [simplified])
    have upd: "omap_remove ?u ?t = pre @ post" "omap_replace ?u ls' ?t = pre @ (?u, ls') # post" for ls'
    proof -
      have "filter (\<lambda>p. fst p \<noteq> ?u) xs = xs" "map (\<lambda>p. if fst p = ?u then (?u, ls') else p) xs = xs"
        if "?u \<notin> fst ` set xs" for xs :: "(uid, jref list) omap"
        using that by (auto simp: filter_id_conv rev_image_eqI intro!: map_idI)
      then show "omap_remove ?u ?t = pre @ post" "omap_replace ?u ls' ?t = pre @ (?u, ls') # post"
        using d by (simp_all add: t omap_remove_def omap_replace_def)
    qed
    show ?thesis
      using drop upd wf_listD(2) [OF wf(2) omap_get_SomeD [OF Some]]
      by (auto simp: tl remove1_idem t split: list.splits)
  qed
  show ?thesis
    using j by (auto simp: unlink_transaction_def eq eff_def Let_def)
qed

lemma mem_drop_jobs:
  "(u, ls) \<in> set (drop_jobs T xs) \<longleftrightarrow>
     (\<exists>ls'. (u, ls') \<in> set xs \<and> ls = filter (\<lambda>j. j \<notin> T) ls' \<and> ls \<noteq> [])"
  by (force simp: drop_jobs_def)

lemma omap_keys_drop_jobs: "distinct (omap_keys xs) \<Longrightarrow> distinct (omap_keys (drop_jobs T xs))"
  by (auto simp: drop_jobs_def comp_def case_prod_unfold intro!: distinct_map_filter_fst)

text \<open>Dependencies with an end in a set of jobs.\<close>

definition inc :: "manager \<Rightarrow> jref set \<Rightarrow> dref set" where
  "inc m K = {l. \<exists>d. omap_get (m_dep m) l = Some d \<and> (d_object d \<in> K \<or> (\<exists>s \<in> K. d_subject d = Some s))}"

lemma wf_deps_eff:
  assumes wf: "wf_deps m" and X: "inc m X \<subseteq> D"
  shows "wf_deps (eff D T X m)"
proof -
  have obj: "\<exists>jb. m_job (eff D T X m) (d_object d) = Some jb \<and> l \<in> set (j_object_list jb)"
    if "omap_get (m_dep (eff D T X m)) l = Some d" for l d
    using that X wf_depsD(2) [OF wf, of l d] by (auto simp: inc_def split: if_splits)
  have sub: "case d_subject d of None \<Rightarrow> l \<in> set (m_transaction_anchor (eff D T X m))
      | Some s \<Rightarrow> \<exists>jb. m_job (eff D T X m) s = Some jb \<and> l \<in> set (j_subject_list jb)"
    if "omap_get (m_dep (eff D T X m)) l = Some d" for l d
    using that X wf_depsD(3,4) [OF wf, of l d] by (auto simp: inc_def split: if_splits option.splits)
  have job: "distinct (j_subject_list jb) \<and> distinct (j_object_list jb) \<and>
        (\<forall>l \<in> set (j_subject_list jb). \<exists>d. omap_get (m_dep (eff D T X m)) l = Some d \<and> d_subject d = Some j) \<and>
        (\<forall>l \<in> set (j_object_list jb). \<exists>d. omap_get (m_dep (eff D T X m)) l = Some d \<and> d_object d = j)"
    if j: "m_job (eff D T X m) j = Some jb" for j jb
  proof -
    obtain jb' where jb': "m_job m j = Some jb'" "jb = drop_deps D jb'"
      using j by (auto split: if_splits)
    show ?thesis
      using wf_depsD(5-8) [OF wf jb'(1)] by (auto simp: jb'(2))
  qed
  have anc: "\<forall>l \<in> set (m_transaction_anchor (eff D T X m)). \<exists>d. omap_get (m_dep (eff D T X m)) l = Some d \<and> d_subject d = None"
    using wf_depsD(10) [OF wf] by auto
  have dist: "distinct (omap_keys (m_dep (eff D T X m)))" "distinct (m_transaction_anchor (eff D T X m))"
    using wf_depsD(1,9) [OF wf] by (auto simp: eff_def intro: distinct_map_filter_fst)
  show ?thesis
    unfolding wf_deps_def using obj sub job anc dist by blast
qed

lemma wf_list_eff:
  assumes wf: "wf_list m" and X: "\<And>u ls j. (u, ls) \<in> set (m_transaction_jobs m) \<Longrightarrow> j \<in> set ls \<Longrightarrow> j \<in> X \<Longrightarrow> j \<in> T"
  shows "wf_list (eff D T X m)"
  unfolding wf_list_def
proof (intro conjI ballI, goal_cases)
  case 1
  then show ?case using wf_listD(1) [OF wf] by (simp add: omap_keys_drop_jobs)
next
  case (2 p)
  obtain u ls where p: "p = (u, ls)" by (cases p)
  with 2 have "(u, ls) \<in> set (drop_jobs T (m_transaction_jobs m))" by simp
  then obtain ls' where ls': "(u, ls') \<in> set (m_transaction_jobs m)"
      "ls = filter (\<lambda>j. j \<notin> T) ls'" "ls \<noteq> []"
    unfolding mem_drop_jobs by blast
  have "\<exists>jb. m_job (eff D T X m) j = Some jb \<and> j_unit jb = u" if "j \<in> set ls" for j
    using that ls'(2) wf_listD(4) [OF wf ls'(1), of j] X [OF ls'(1), of j] by auto
  then show ?case using wf_listD(3) [OF wf ls'(1)] ls'(2,3) by (simp add: p)
qed

lemma wf_q_eff: "wf_q m \<Longrightarrow> wf_q (eff D T X m)"
  by (auto simp: wf_q_def split: if_splits)

lemma wf_core_eff:
  assumes "wf_core m" "inc m X \<subseteq> D" "X \<subseteq> T"
  shows "wf_core (eff D T X m)"
  unfolding wf_core_def
proof (intro conjI)
  show "wf_deps (eff D T X m)" using assms wf_deps_eff by (simp add: wf_core_def)
  show "wf_list (eff D T X m)" by (rule wf_list_eff) (use assms in \<open>auto simp: wf_core_def\<close>)
  show "wf_q (eff D T X m)" using assms wf_q_eff by (simp add: wf_core_def)
qed

lemma eff_cong:
  assumes "\<And>l. omap_get (m_dep m) l \<noteq> None \<Longrightarrow> l \<in> D \<longleftrightarrow> l \<in> D'" "wf_deps m"
  shows "eff D T X m = eff D' T X m"
proof -
  have dep: "filter (\<lambda>p. fst p \<notin> D) (m_dep m) = filter (\<lambda>p. fst p \<notin> D') (m_dep m)"
  proof (rule filter_cong [OF refl])
    fix p assume "p \<in> set (m_dep m)"
    then have "omap_get (m_dep m) (fst p) = Some (snd p)"
      using wf_depsD(1) [OF assms(2)] by (simp add: omap_get_mem)
    then show "fst p \<notin> D \<longleftrightarrow> fst p \<notin> D'" using assms(1) by simp
  qed
  have anc: "filter (\<lambda>l. l \<notin> D) (m_transaction_anchor m) = filter (\<lambda>l. l \<notin> D') (m_transaction_anchor m)"
    using assms(1) wf_depsD(10) [OF assms(2)] by (fastforce intro!: filter_cong)
  have "drop_deps D jb = drop_deps D' jb" if "m_job m j = Some jb" for j jb
  proof -
    have "filter (\<lambda>l. l \<notin> D) (j_subject_list jb) = filter (\<lambda>l. l \<notin> D') (j_subject_list jb)"
      using assms(1) wf_depsD(7) [OF assms(2) that] by (fastforce intro!: filter_cong)
    moreover have "filter (\<lambda>l. l \<notin> D) (j_object_list jb) = filter (\<lambda>l. l \<notin> D') (j_object_list jb)"
      using assms(1) wf_depsD(8) [OF assms(2) that] by (fastforce intro!: filter_cong)
    ultimately show ?thesis by (simp add: drop_deps_def)
  qed
  then have "(\<lambda>j. if j \<in> X then None else map_option (drop_deps D) (m_job m j)) =
             (\<lambda>j. if j \<in> X then None else map_option (drop_deps D') (m_job m j))"
    by (auto simp: fun_eq_iff intro!: option.map_cong)
  with dep anc show ?thesis by (simp add: eff_def)
qed

lemma eff_empty [simp]: "wf_list m \<Longrightarrow> eff {} {} {} m = m"
  by (simp add: eff_def wf_list_drop_empty)

lemma wf_coreD: "wf_core m \<Longrightarrow> wf_deps m" "wf_core m \<Longrightarrow> wf_list m" "wf_core m \<Longrightarrow> wf_q m"
  by (simp_all add: wf_core_def)

lemma wf_core_eff_deps: "wf_core m \<Longrightarrow> wf_core (eff D T {} m)"
  by (rule wf_core_eff) (auto simp: inc_def)

lemma free_subject_list_eff:
  assumes "wf_core m" "m_job m j = Some jb"
  shows "free_subject_list j m = Some (eff (set (j_subject_list jb)) {} {} m)"
  using assms
proof (induction "j_subject_list jb" arbitrary: m jb)
  case Nil
  then show ?case by (simp add: free_subject_list.simps [of j m] wf_coreD flip: Nil.hyps)
next
  case (Cons l ls)
  have d: "distinct (l # ls)" using wf_depsD(5) [OF wf_coreD(1)] Cons.prems Cons.hyps(2) by metis
  obtain d where "omap_get (m_dep m) l = Some d"
    using wf_depsD(7) [OF wf_coreD(1) Cons.prems(2), of l] Cons.prems(1) Cons.hyps(2)
    by (metis list.set_intros(1))
  then have free: "job_dependency_free l m = Some (eff {l} {} {} m)"
    using job_dependency_free_eff wf_coreD Cons.prems(1) by blast
  have "ls = j_subject_list (drop_deps {l} jb)"
    using d by (simp add: filter_neq_idem flip: Cons.hyps(2))
  from Cons.hyps(1) [OF this wf_core_eff_deps [OF Cons.prems(1)]] Cons.prems(2)
  have "free_subject_list j (eff {l} {} {} m) = Some (eff (set ls \<union> {l}) {} {} m)"
    using d by (simp add: eff_eff filter_neq_idem flip: Cons.hyps(2) set_filter)
  then show ?case
    using Cons.prems(2) free
    by (simp add: free_subject_list.simps [of j m] flip: Cons.hyps(2))
qed

lemma free_object_list_eff:
  assumes "wf_core m" "m_job m j = Some jb"
  shows "free_object_list j m = Some (eff (set (j_object_list jb)) {} {} m)"
  using assms
proof (induction "j_object_list jb" arbitrary: m jb)
  case Nil
  then show ?case by (simp add: free_object_list.simps [of j m] wf_coreD flip: Nil.hyps)
next
  case (Cons l ls)
  have d: "distinct (l # ls)" using wf_depsD(6) [OF wf_coreD(1)] Cons.prems Cons.hyps(2) by metis
  obtain d where "omap_get (m_dep m) l = Some d"
    using wf_depsD(8) [OF wf_coreD(1) Cons.prems(2), of l] Cons.prems(1) Cons.hyps(2)
    by (metis list.set_intros(1))
  then have free: "job_dependency_free l m = Some (eff {l} {} {} m)"
    using job_dependency_free_eff wf_coreD Cons.prems(1) by blast
  have "ls = j_object_list (drop_deps {l} jb)"
    using d by (simp add: filter_neq_idem flip: Cons.hyps(2))
  from Cons.hyps(1) [OF this wf_core_eff_deps [OF Cons.prems(1)]] Cons.prems(2)
  have "free_object_list j (eff {l} {} {} m) = Some (eff (set ls \<union> {l}) {} {} m)"
    using d by (simp add: eff_eff filter_neq_idem flip: Cons.hyps(2) set_filter)
  then show ?case
    using Cons.prems(2) free
    by (simp add: free_object_list.simps [of j m] flip: Cons.hyps(2))
qed

definition req_rel :: "manager \<Rightarrow> (jref \<times> jref) set" where
  "req_rel m = {(s, t). \<exists>l d. omap_get (m_dep m) l = Some d \<and> d_matters d \<and> d_subject d = Some s \<and> d_object d = t}"

definition requirers :: "manager \<Rightarrow> jref \<Rightarrow> jref set" where
  "requirers m j = {k. (k, j) \<in> (req_rel m)\<^sup>*}"

definition noninst :: "manager \<Rightarrow> jref set" where
  "noninst m = {k. \<exists>jb. m_job m k = Some jb \<and> \<not> j_installed jb}"

lemma rtrancl_into_self:
  "{k. (k, x) \<in> E\<^sup>*} = insert x {k. (k, x) \<in> {(a, b) \<in> E. a \<noteq> x}\<^sup>+}" (is "?L = ?R")
proof
  show "?L \<subseteq> ?R"
  proof
    fix k assume "k \<in> ?L"
    then have "(k, x) \<in> E\<^sup>*" by simp
    then show "k \<in> ?R"
      by (induction rule: converse_rtrancl_induct) (auto intro: trancl_into_trancl2)
  qed
  have "{(a, b) \<in> E. a \<noteq> x}\<^sup>+ \<subseteq> E\<^sup>+" by (rule trancl_mono_subset) auto
  then show "?R \<subseteq> ?L" by (auto dest: trancl_into_rtrancl)
qed

lemma trancl_drop_closed:
  assumes E: "E = insert (s, j) E1" and sink: "\<And>y. (j, y) \<notin> E"
    and R: "R = {k. (k, s) \<in> E1\<^sup>*}" and E2: "E2 = {(a, b) \<in> E1. a \<notin> R \<and> b \<notin> R}"
  shows "{k. (k, j) \<in> E\<^sup>+} = R \<union> {k. (k, j) \<in> E2\<^sup>+}" and "j \<notin> R"
proof -
  have "s \<noteq> j" using E sink by blast
  moreover have "(j, y) \<notin> E1" for y using E sink by blast
  ultimately show jR: "j \<notin> R" unfolding R by (auto elim: converse_rtranclE)
  have src: "a \<notin> R" if "(a, b) \<in> E2\<^sup>+" for a b using that by (induction rule: converse_trancl_induct) (auto simp: E2)
  show "{k. (k, j) \<in> E\<^sup>+} = R \<union> {k. (k, j) \<in> E2\<^sup>+}"
  proof (intro equalityI subsetI)
    fix k assume "k \<in> {k. (k, j) \<in> E\<^sup>+}"
    then have "(k, j) \<in> E\<^sup>+" by simp
    then show "k \<in> R \<union> {k. (k, j) \<in> E2\<^sup>+}"
    proof (induction rule: converse_trancl_induct)
      case (base k)
      then show ?case using jR by (auto simp: E E2 R)
    next
      case (step k y)
      show ?case
      proof (cases "y \<in> R")
        case True
        then have "(k, y) \<in> E1" using step.hyps(1) jR by (auto simp: E)
        then show ?thesis using True by (auto simp: R intro: converse_rtrancl_into_rtrancl)
      next
        case False
        then have y: "(y, j) \<in> E2\<^sup>+" using step.IH by simp
        have "s \<in> R" by (simp add: R)
        then have "k \<in> R \<or> (k, y) \<in> E2" using step.hyps(1) False by (auto simp: E E2)
        then show ?thesis using y by (auto intro: trancl_into_trancl2)
      qed
    qed
  next
    fix k assume k: "k \<in> R \<union> {k. (k, j) \<in> E2\<^sup>+}"
    have "E1\<^sup>* \<subseteq> E\<^sup>*" by (rule rtrancl_mono) (auto simp: E)
    moreover have "E2\<^sup>+ \<subseteq> E\<^sup>+" by (rule trancl_mono_subset) (auto simp: E E2)
    ultimately show "k \<in> {k. (k, j) \<in> E\<^sup>+}"
      using k by (auto simp: E R intro: rtrancl_into_trancl1)
  qed
qed

text \<open>The two lists of a job hold the dependencies it is the subject or the object of.\<close>

lemma set_subject_list:
  assumes "wf_deps m" "m_job m j = Some jb"
  shows "set (j_subject_list jb) = {l. \<exists>d. omap_get (m_dep m) l = Some d \<and> d_subject d = Some j}"
  using wf_depsD(3) [OF assms(1)] wf_depsD(7) [OF assms] assms(2) by fastforce

lemma set_object_list:
  assumes "wf_deps m" "m_job m j = Some jb"
  shows "set (j_object_list jb) = {l. \<exists>d. omap_get (m_dep m) l = Some d \<and> d_object d = j}"
  using wf_depsD(2) [OF assms(1)] wf_depsD(8) [OF assms] assms(2) by fastforce

lemma req_rel_eff:
  "req_rel (eff D T X m) =
     {(s, t). \<exists>l d. l \<notin> D \<and> omap_get (m_dep m) l = Some d \<and> d_matters d \<and> d_subject d = Some s \<and> d_object d = t}"
  by (auto simp: req_rel_def)

lemma req_rel_eff_keep:
  assumes "\<And>l d. l \<in> D \<Longrightarrow> omap_get (m_dep m) l = Some d \<Longrightarrow> \<not> d_matters d \<or> d_subject d = None"
  shows "req_rel (eff D T X m) = req_rel m"
proof -
  have "l \<notin> D" if "omap_get (m_dep m) l = Some d" "d_matters d" "d_subject d = Some s" for l d s
    using assms [of l d] that by auto
  then show ?thesis unfolding req_rel_eff by (auto simp: req_rel_def)
qed

lemma inc_eff: "inc (eff D T X m) K = inc m K - D"
  by (auto simp: inc_def)

lemma noninst_eff: "noninst (eff D T X m) = noninst m - X"
  by (auto simp: noninst_def)

lemma wf_deps_alive:
  assumes "wf_deps m" "(s, t) \<in> req_rel m"
  shows "\<exists>sb. m_job m s = Some sb" "\<exists>tb. m_job m t = Some tb"
  using assms wf_depsD(2,3) [OF assms(1)] unfolding req_rel_def by fast+

lemma length_eff_deps:
  assumes "omap_get (m_dep m) l = Some d" "l \<in> D"
  shows "length (m_dep (eff D T X m)) < length (m_dep m)"
proof -
  have "(l, d) \<in> set (m_dep m)" using assms(1) by (rule omap_get_SomeD)
  then show ?thesis
    using assms(2) by (auto simp: eff_def intro!: length_filter_less)
qed

lemma job_release_eff:
  assumes "wf_core m" "m_job m j = Some jb" "\<not> j_installed jb"
  shows "job_release j m = Some (eff {} {} {j} m)"
proof -
  have "\<not> j_in_run_queue jb" "\<not> j_in_dbus_queue jb"
    using assms by (auto simp: wf_core_def wf_q_def)
  then show ?thesis
    using assms(2) wf_list_drop_empty [OF wf_coreD(2) [OF assms(1)]]
    by (simp add: job_release_def eff_def fun_upd_def cong: if_cong)
qed

lemma unlink_job_done:
  assumes wf: "wf_core m" and j: "m_job m j = Some jb"
    and none: "j_subject_list jb = []" "j_object_list jb = []"
  shows "manager_transaction_unlink_job j dd m = Some (eff {} {j} {} m)"
proof -
  note wf' = wf_core_eff_deps [OF wf, of "{}" "{j}"]
  have "m_job (eff {} {j} {} m) j = Some jb" using j by simp
  note sub = free_subject_list_eff [OF wf' this]
  have "wf_list (eff {} {j} {} m)" using wf_coreD(2) [OF wf'] .
  then have "free_subject_list j (eff {} {j} {} m) = Some (eff {} {j} {} m)"
    using sub none by simp
  then show ?thesis
    using unlink_transaction_eff [OF wf_coreD(1) [OF wf] wf_coreD(2) [OF wf] j] j none
    by (simp add: manager_transaction_unlink_job_def unlink_objects.simps)
qed

text \<open>The dependencies of \<open>j\<close> are gone: what is left of deleting it.\<close>

lemma transaction_delete_job_rest:
  assumes wf: "wf_core m" and j: "m_job m j = Some jb"
    and none: "j_subject_list jb = []" "j_object_list jb = []"
  shows "(if j_installed jb then Some m else job_free j m) =
         Some (if j_installed jb then m else eff {} {j} {j} m)"
proof (cases "j_installed jb")
  case False
  have "m_job (eff {} {j} {} m) j = Some jb" using j by simp
  from job_release_eff [OF wf_core_eff_deps [OF wf] this False]
  show ?thesis
    using False j unlink_job_done [OF wf j none]
    by (simp add: job_free_def eff_eff)
qed simp

lemma unlink_objects_Nil:
  assumes wf: "wf_core m" and j: "m_job m j = Some jb" and none: "j_object_list jb = []"
  shows "{k. (k, j) \<in> (req_rel m)\<^sup>+} = {}" "inc m {} = {}"
proof -
  have "(k, j) \<notin> req_rel m" for k
    using set_object_list [OF wf_coreD(1) [OF wf] j] none by (auto simp: req_rel_def)
  then show "{k. (k, j) \<in> (req_rel m)\<^sup>+} = {}" by (auto elim: tranclE)
qed (simp add: inc_def)

text \<open>
  The effect of the loop over \<open>object_list\<close> once the \<open>subject_list\<close> is empty, and from it the
  effect of deleting a job.
\<close>

definition unlinks :: "jref \<Rightarrow> manager \<Rightarrow> bool" where
  "unlinks j m \<longleftrightarrow> (\<forall>jb. m_job m j = Some jb \<longrightarrow>
     unlink_objects True j m =
       Some (eff (inc m {k. (k, j) \<in> (req_rel m)\<^sup>+} \<union> set (j_object_list jb))
                 {k. (k, j) \<in> (req_rel m)\<^sup>+} ({k. (k, j) \<in> (req_rel m)\<^sup>+} \<inter> noninst m) m))"

lemma requirers_split:
  assumes "wf_deps m" "m_job m s = Some sb"
  shows "requirers m s =
           insert s {k. (k, s) \<in> (req_rel (eff (set (j_subject_list sb)) T {} m))\<^sup>+}"
    and "(s, s) \<notin> (req_rel (eff (set (j_subject_list sb)) T {} m))\<^sup>+"
proof -
  have rel: "req_rel (eff (set (j_subject_list sb)) T {} m) = {(a, b) \<in> req_rel m. a \<noteq> s}"
    unfolding req_rel_eff set_subject_list [OF assms] by (auto simp: req_rel_def) (metis option.inject)
  show "requirers m s = insert s {k. (k, s) \<in> (req_rel (eff (set (j_subject_list sb)) T {} m))\<^sup>+}"
    unfolding requirers_def rel by (rule rtrancl_into_self)
  have "a \<noteq> s" if "(a, b) \<in> {(a, b) \<in> req_rel m. a \<noteq> s}\<^sup>+" for a b
    using that by (auto elim: converse_tranclE)
  then show "(s, s) \<notin> (req_rel (eff (set (j_subject_list sb)) T {} m))\<^sup>+"
    unfolding rel by blast
qed

lemma unlink_job_eff:
  assumes wf: "wf_core m" and s: "m_job m s = Some sb"
    and unl: "unlinks s (eff (set (j_subject_list sb)) {s} {} m)"
  shows "manager_transaction_unlink_job s True m =
           Some (eff (inc m (requirers m s)) (requirers m s) (requirers m s \<inter> noninst m - {s}) m)"
proof -
  let ?D = "set (j_subject_list sb)"
  let ?m2 = "eff ?D {s} {} m"
  let ?K = "{k. (k, s) \<in> (req_rel ?m2)\<^sup>+}" and ?R = "requirers m s"
  note wfd = wf_coreD(1) [OF wf]
  have R: "?R = insert s ?K" and sK: "s \<notin> ?K"
    using requirers_split [OF wfd s] by auto
  let ?D3 = "inc ?m2 ?K \<union> set (j_object_list (drop_deps ?D sb))"
  let ?m3 = "eff ?D3 ?K (?K \<inter> noninst ?m2) ?m2"
  have "free_subject_list s (eff {} {s} {} m) = Some ?m2"
    using free_subject_list_eff [OF wf_core_eff_deps [OF wf], of "{}" "{s}" s sb] s
    by (simp add: eff_eff)
  then have "manager_transaction_unlink_job s True m = Some ?m3"
    using unlink_transaction_eff [OF wfd wf_coreD(2) [OF wf] s] unl s
    by (simp add: manager_transaction_unlink_job_def unlinks_def)
  also have "?m3 = eff (?D3 \<union> ?D) ?R (?R \<inter> noninst m - {s}) m"
  proof -
    have "?K \<inter> noninst ?m2 = ?R \<inter> noninst m - {s}" using sK by (auto simp: R noninst_eff)
    moreover have "?K \<union> {s} = ?R" by (simp add: R)
    ultimately show ?thesis unfolding eff_eff by (simp only: Un_empty_right)
  qed
  also have "\<dots> = eff (inc m ?R) ?R (?R \<inter> noninst m - {s}) m"
    by (rule eff_cong [OF _ wfd])
      (auto simp: inc_eff R set_subject_list [OF wfd s] set_object_list [OF wfd s], auto simp: inc_def)
  finally show ?thesis .
qed

lemma unlinked_lists_empty:
  assumes "wf_deps m" "m_job m s = Some sb" "s \<in> R"
  shows "j_subject_list (drop_deps (inc m R) sb) = []" "j_object_list (drop_deps (inc m R) sb) = []"
  using set_subject_list [OF assms(1,2)] set_object_list [OF assms(1,2)] assms(3)
  by (auto simp: filter_empty_conv inc_def)

lemma requirers_self [simp]: "s \<in> requirers m s"
  by (simp add: requirers_def)

lemma delete_from_unlink:
  assumes wf: "wf_core m" and s: "m_job m s = Some sb"
    and unl: "unlinks s (eff (set (j_subject_list sb)) {s} {} m)"
  shows "transaction_delete_job s True m =
           Some (eff (inc m (requirers m s)) (requirers m s) (requirers m s \<inter> noninst m) m)"
proof -
  let ?R = "requirers m s"
  let ?m3 = "eff (inc m ?R) ?R (?R \<inter> noninst m - {s}) m" and ?sb = "drop_deps (inc m ?R) sb"
  have wf3: "wf_core ?m3" by (rule wf_core_eff [OF wf]) (auto simp: inc_def)
  have s3: "m_job ?m3 s = Some ?sb" using s by simp
  note none = unlinked_lists_empty [OF wf_coreD(1) [OF wf] s requirers_self]
  have "transaction_delete_job s True m = Some (if j_installed sb then ?m3 else eff {} {s} {s} ?m3)"
    using transaction_delete_job_rest [OF wf3 s3 none] s3 unlink_job_eff [OF wf s unl]
    by (simp add: transaction_delete_job_def del: eff_sel)
  also have "\<dots> = Some (eff (inc m ?R) ?R (?R \<inter> noninst m) m)"
  proof (cases "j_installed sb")
    case True
    then have "?R \<inter> noninst m - {s} = ?R \<inter> noninst m" using s by (auto simp: noninst_def)
    then show ?thesis using True by simp
  next
    case False
    then have X: "insert s (?R \<inter> noninst m - {s}) = ?R \<inter> noninst m" "insert s ?R = ?R"
      using s by (auto simp: noninst_def)
    then show ?thesis using False by (simp add: eff_eff)
  qed
  finally show ?thesis .
qed

lemma unlinks_drop_dep:
  assumes wf: "wf_core m" and j: "m_job m j = Some jb" and l: "l \<in> set (j_object_list jb)"
    and d: "omap_get (m_dep m) l = Some d" "(if d_matters d then d_subject d else None) = None"
    and jb: "j_object_list jb = l # ls"
    and unl: "unlinks j (eff {l} {} {} m)"
  shows "unlinks j m"
proof -
  let ?m1 = "eff {l} {} {} m" and ?K = "{k. (k, j) \<in> (req_rel m)\<^sup>+}"
  note wfd = wf_coreD(1) [OF wf]
  have rel: "req_rel ?m1 = req_rel m"
    using d by (intro req_rel_eff_keep) (auto split: if_splits)
  have "unlink_objects True j ?m1 =
      Some (eff (inc ?m1 ?K \<union> set (j_object_list (drop_deps {l} jb))) ?K (?K \<inter> noninst ?m1) ?m1)"
    using unl j unfolding unlinks_def rel by simp
  moreover have "eff (inc ?m1 ?K \<union> set (j_object_list (drop_deps {l} jb))) ?K (?K \<inter> noninst ?m1) ?m1 =
      eff (inc m ?K \<union> set (j_object_list jb)) ?K (?K \<inter> noninst m) m"
    unfolding eff_eff inc_eff noninst_eff
    by (simp, rule eff_cong [OF _ wfd]) (use jb in auto)
  ultimately show ?thesis
    using j jb d job_dependency_free_eff [OF wfd wf_coreD(2) [OF wf] d(1)]
    by (simp add: unlinks_def unlink_objects_unfold [of True j m])
qed

lemma unlinks_drop_requirer:
  assumes wf: "wf_core m" and j: "m_job m j = Some jb" and sub0: "j_subject_list jb = []"
    and jb: "j_object_list jb = l # ls"
    and d: "omap_get (m_dep m) l = Some d" "d_matters d" "d_subject d = Some s"
    and R: "R = requirers (eff {l} {} {} m) s"
    and del: "transaction_delete_job s True (eff {l} {} {} m) =
                Some (eff (inc m R \<union> {l}) R (R \<inter> noninst m) m)"
    and unl: "unlinks j (eff (inc m R \<union> {l}) R (R \<inter> noninst m) m)"
  shows "unlinks j m"
proof -
  let ?m1 = "eff {l} {} {} m" and ?K = "{k. (k, j) \<in> (req_rel m)\<^sup>+}"
  let ?D = "inc m R \<union> {l}"
  let ?m2 = "eff ?D R (R \<inter> noninst m) m"
  let ?K2 = "{k. (k, j) \<in> (req_rel ?m2)\<^sup>+}"
  note wfd = wf_coreD(1) [OF wf]
  have obj: "d_object d = j"
    using wf_depsD(8) [OF wfd j, of l] jb d(1) by auto
  have E: "req_rel m = insert (s, j) (req_rel ?m1)"
    using d obj by (auto simp: req_rel_eff) (auto simp: req_rel_def, (metis option.inject)+)
  have sink: "(j, y) \<notin> req_rel m" for y
    using set_subject_list [OF wfd j] sub0 by (auto simp: req_rel_def)
  have E2: "req_rel ?m2 = {(a, b) \<in> req_rel ?m1. a \<notin> R \<and> b \<notin> R}"
    by (auto simp: req_rel_eff inc_def)
  have K: "?K = R \<union> ?K2" and jR: "j \<notin> R"
    using trancl_drop_closed [OF E sink R [unfolded requirers_def] E2] by auto
  have "unlink_objects True j ?m2 =
      Some (eff (inc ?m2 ?K2 \<union> set (j_object_list (drop_deps ?D jb))) ?K2 (?K2 \<inter> noninst ?m2) ?m2)"
    using unl j jR unfolding unlinks_def by simp
  moreover have "eff (inc ?m2 ?K2 \<union> set (j_object_list (drop_deps ?D jb))) ?K2 (?K2 \<inter> noninst ?m2) ?m2 =
      eff (inc m ?K \<union> set (j_object_list jb)) ?K (?K \<inter> noninst m) m"
  proof -
    have X: "?K2 \<inter> noninst ?m2 \<union> R \<inter> noninst m = ?K \<inter> noninst m"
      unfolding K noninst_eff by auto
    have "?K2 \<union> R = ?K" using K by auto
    then show ?thesis
      unfolding eff_eff X by (simp only:, intro eff_cong [OF _ wfd])
        (use jb K in \<open>auto simp: inc_eff\<close>, (auto simp: inc_def)?)
  qed
  ultimately show ?thesis
    using j jb d del job_dependency_free_eff [OF wfd wf_coreD(2) [OF wf] d(1)]
    by (simp add: unlinks_def unlink_objects_unfold [of True j m])
qed

lemma unlinks_wf:
  assumes "wf_core m" "m_job m j = Some jb" "j_subject_list jb = []"
  shows "unlinks j m"
  using assms
proof (induction "length (m_dep m)" arbitrary: m j jb rule: less_induct)
  case less
  note wf = less.prems(1) and j = less.prems(2) and sub0 = less.prems(3)
  note wfd = wf_coreD(1) [OF wf] and wfl = wf_coreD(2) [OF wf]
  show ?case
  proof (cases "j_object_list jb")
    case Nil
    then show ?thesis
      using unlink_objects_Nil [OF wf j Nil] j wfl
      by (simp add: unlink_objects.simps [of True j m] unlinks_def)
  next
    case (Cons l ls)
    obtain d where d: "omap_get (m_dep m) l = Some d" "d_object d = j"
      using wf_depsD(8) [OF wfd j, of l] Cons by auto
    let ?m1 = "eff {l} {} {} m"
    have wf1: "wf_core ?m1" using wf_core_eff_deps [OF wf] .
    have short: "length (m_dep (eff D T X m)) < length (m_dep m)" if "l \<in> D" for D T X
      using length_eff_deps [OF d(1) that] .
    show ?thesis
    proof (cases "if d_matters d then d_subject d else None")
      case None
      have "unlinks j ?m1"
        by (rule less.hyps [OF short wf1, of _ "drop_deps {l} jb"]) (use j sub0 in auto)
      then show ?thesis
        using unlinks_drop_dep [OF wf j _ d(1) None Cons] Cons by simp
    next
      case (Some s)
      then have mat: "d_matters d" "d_subject d = Some s" by (auto split: if_splits)
      obtain sb where sb: "m_job m s = Some sb" using wf_depsD(3) [OF wfd d(1) mat(2)] by auto
      have sj: "s \<noteq> j" using set_subject_list [OF wfd j] sub0 d mat by auto
      let ?sb = "drop_deps {l} sb"
      have s1: "m_job ?m1 s = Some ?sb" using sb by simp
      let ?R = "requirers ?m1 s" and ?D = "set (j_subject_list ?sb)"
      let ?m2 = "eff (inc m ?R \<union> {l}) ?R (?R \<inter> noninst m) m"
      have "unlinks s (eff ?D {s} {} ?m1)"
        by (rule less.hyps) (use short [of "?D \<union> {l}"] sb wf_core_eff_deps [OF wf1] in \<open>auto simp: eff_eff\<close>)
      from delete_from_unlink [OF wf1 s1 this]
      have del: "transaction_delete_job s True ?m1 = Some ?m2"
        by (simp add: eff_eff inc_eff noninst_eff Un_commute)
      have jR: "j \<notin> ?R"
      proof -
        have "(j, y) \<notin> req_rel ?m1" for y
          using set_subject_list [OF wfd j] sub0 by (auto simp: req_rel_eff)
        then show ?thesis using sj by (auto simp: requirers_def elim: converse_rtranclE)
      qed
      have "unlinks j ?m2"
        by (rule less.hyps [OF short wf_core_eff [OF wf], where jb = "drop_deps (inc m ?R \<union> {l}) jb"])
          (use j sub0 jR in \<open>auto simp: inc_def\<close>)
      then show ?thesis
        using unlinks_drop_requirer [OF wf j sub0 Cons d(1) mat refl del] by simp
    qed
  qed
qed

lemma unlinks_after_subjects:
  assumes wf: "wf_core m" and j: "m_job m j = Some jb"
  shows "unlinks j (eff (set (j_subject_list jb)) {j} {} m)"
  by (rule unlinks_wf [OF wf_core_eff_deps [OF wf]]) (use j in \<open>auto simp: filter_empty_conv\<close>)

lemmas manager_transaction_unlink_job_eff = unlink_job_eff [OF _ _ unlinks_after_subjects]

lemmas transaction_delete_job_eff = delete_from_unlink [OF _ _ unlinks_after_subjects]

lemma requirers_closed:
  assumes "wf_deps m" "m_job m j \<noteq> None" "k \<in> requirers m j"
  shows "m_job m k \<noteq> None"
proof -
  have "(k, j) \<in> (req_rel m)\<^sup>*" using assms(3) by (simp add: requirers_def)
  then show ?thesis
    by (cases rule: converse_rtranclE) (use assms wf_deps_alive(1) in auto)
qed

lemma wf_core_delete:
  assumes "wf_core m"
  shows "wf_core (eff (inc m K) K (K \<inter> Y) m)"
  by (rule wf_core_eff [OF assms]) (auto simp: inc_def)

end
