(* ===== verification/Transaction_Inv.thy ===== *)
theory Transaction_Inv
  imports Transaction_Delete
begin

section \<open>The invariant of a transaction, and aborting one\<close>

text \<open>
  \<open>cut_jobs K m\<close> is \<open>m\<close> without the jobs \<open>K\<close>; every deletion is such a cut
  (\<open>transaction_delete_job_cut\<close>), cuts compose, and each keeps the invariant \<open>wf_tx\<close>:
  the dependency lists, chains, queues, the table of installed jobs and the back pointers of the
  units agree, and nothing is allocated beyond the counters.  \<open>transaction_abort\<close> is the cut
  of the whole transaction (\<open>transaction_abort_eq\<close>).
\<close>

subsection \<open>Deleting one job without its requirers\<close>

lemma unlink_objects_False_eff:
  assumes "wf_core m" "m_job m j = Some jb"
  shows "unlink_objects False j m = Some (eff (set (j_object_list jb)) {} {} m)"
  using assms
proof (induction "j_object_list jb" arbitrary: m jb)
  case Nil
  then show ?case by (simp add: unlink_objects.simps [of False j m] wf_coreD flip: Nil.hyps)
next
  case (Cons l ls)
  have d: "distinct (l # ls)" using wf_depsD(6) [OF wf_coreD(1)] Cons.prems Cons.hyps(2) by metis
  obtain d where dep: "omap_get (m_dep m) l = Some d"
    using wf_depsD(8) [OF wf_coreD(1) Cons.prems(2), of l] Cons.prems(1) Cons.hyps(2)
    by (metis list.set_intros(1))
  then have free: "job_dependency_free l m = Some (eff {l} {} {} m)"
    using job_dependency_free_eff wf_coreD Cons.prems(1) by blast
  have "ls = j_object_list (drop_deps {l} jb)"
    using d by (simp add: filter_neq_idem flip: Cons.hyps(2))
  from Cons.hyps(1) [OF this wf_core_eff_deps [OF Cons.prems(1)]] Cons.prems(2)
  have "unlink_objects False j (eff {l} {} {} m) = Some (eff (set ls \<union> {l}) {} {} m)"
    using d by (simp add: eff_eff filter_neq_idem flip: Cons.hyps(2) set_filter)
  then show ?case
    using Cons.prems(2) free dep
    by (simp add: unlink_objects_unfold [of False j m] split: option.split flip: Cons.hyps(2))
qed

lemma inc_single:
  assumes "wf_deps m" "m_job m j = Some jb"
  shows "set (j_subject_list jb) \<union> set (j_object_list jb) = inc m {j}"
  unfolding set_subject_list [OF assms] set_object_list [OF assms] by (auto simp: inc_def)

lemma transaction_delete_job_False_eff:
  assumes wf: "wf_core m" and j: "m_job m j = Some jb"
  shows "transaction_delete_job j False m = Some (eff (inc m {j}) {j} ({j} \<inter> noninst m) m)"
proof -
  note wfd = wf_coreD(1) [OF wf]
  let ?D = "set (j_subject_list jb)" and ?I = "inc m {j}"
  let ?m2 = "eff ?I {j} {} m"
  have "free_subject_list j (eff {} {j} {} m) = Some (eff ?D {j} {} m)"
    using free_subject_list_eff [OF wf_core_eff_deps [OF wf], of "{}" "{j}" j jb] j
    by (simp add: eff_eff)
  moreover have "unlink_objects False j (eff ?D {j} {} m) = Some ?m2"
    using unlink_objects_False_eff [OF wf_core_eff_deps [OF wf], of ?D "{j}" j "drop_deps ?D jb"] j
    by (simp add: eff_eff flip: inc_single [OF wfd j])
      (rule arg_cong [where f = "\<lambda>D. eff D {j} {} m"], auto)
  ultimately have unl: "manager_transaction_unlink_job j False m = Some ?m2"
    using unlink_transaction_eff [OF wfd wf_coreD(2) [OF wf] j]
    by (simp add: manager_transaction_unlink_job_def)
  let ?jb = "drop_deps ?I jb"
  have "m_job ?m2 j = Some ?jb" using j by simp
  moreover have "j_subject_list ?jb = []" "j_object_list ?jb = []"
    using inc_single [OF wfd j] by (auto simp: filter_empty_conv)
  ultimately have "transaction_delete_job j False m = Some (if j_installed jb then ?m2 else eff {} {j} {j} ?m2)"
    using transaction_delete_job_rest [OF wf_core_eff_deps [OF wf], of ?I "{j}" j ?jb]
    by (simp add: transaction_delete_job_def unl del: eff_sel)
  also have "\<dots> = Some (eff ?I {j} ({j} \<inter> noninst m) m)"
    using j by (simp add: eff_eff noninst_def)
  finally show ?thesis .
qed

text \<open>Deleting a job removes a set \<open>K\<close> of jobs with all their dependencies.\<close>

definition cut_jobs :: "jref set \<Rightarrow> manager \<Rightarrow> manager" where
  "cut_jobs K m = eff (inc m K) K (K \<inter> noninst m) m"

definition del_set :: "bool \<Rightarrow> manager \<Rightarrow> jref \<Rightarrow> jref set" where
  "del_set dd m j = (if dd then requirers m j else {j})"

lemma del_set_self [simp]: "j \<in> del_set dd m j"
  by (simp add: del_set_def requirers_def)

lemma transaction_delete_job_cut:
  assumes "wf_core m" "m_job m j \<noteq> None"
  shows "transaction_delete_job j dd m = Some (cut_jobs (del_set dd m j) m)"
  using assms transaction_delete_job_eff transaction_delete_job_False_eff
  by (cases dd) (auto simp: cut_jobs_def del_set_def)

lemma wf_core_cut: "wf_core m \<Longrightarrow> wf_core (cut_jobs K m)"
  unfolding cut_jobs_def by (rule wf_core_delete)

lemma job_free_noninst_cut:
  assumes wf: "wf_core m" and j: "m_job m j = Some jb" "\<not> j_installed jb"
  shows "job_free j m = Some (cut_jobs (requirers m j) m)"
proof -
  let ?R = "requirers m j"
  let ?m3 = "eff (inc m ?R) ?R (?R \<inter> noninst m - {j}) m"
  have wf3: "wf_core ?m3" by (rule wf_core_eff [OF wf]) (auto simp: inc_def)
  have "m_job ?m3 j = Some (drop_deps (inc m ?R) jb)" using j by simp
  then have "job_release j ?m3 = Some (eff {} {} {j} ?m3)"
    using job_release_eff [OF wf3] j by simp
  moreover have "eff {} {} {j} ?m3 = cut_jobs ?R m"
  proof -
    have "insert j (?R \<inter> noninst m - {j}) = ?R \<inter> noninst m" using j by (auto simp: noninst_def)
    then show ?thesis by (simp add: cut_jobs_def eff_eff)
  qed
  ultimately show ?thesis
    using j manager_transaction_unlink_job_eff [OF wf j(1) wf j(1)]
    by (simp add: job_free_def)
qed

subsection \<open>The invariant of the manager between two steps of a transaction\<close>

definition tjobs :: "manager \<Rightarrow> jref set" where
  "tjobs m = (\<Union>(u, ls) \<in> set (m_transaction_jobs m). set ls)"

text \<open>
  Dependencies join jobs of the transaction only, and every job that is not installed is in the
  transaction (nothing leaks).
\<close>

definition wf_scope :: "manager \<Rightarrow> bool" where
  "wf_scope m \<longleftrightarrow>
     (\<forall>l d. omap_get (m_dep m) l = Some d \<longrightarrow>
        d_object d \<in> tjobs m \<and> (\<forall>s. d_subject d = Some s \<longrightarrow> s \<in> tjobs m)) \<and>
     noninst m \<subseteq> tjobs m"

text \<open>The installed jobs are the jobs of \<open>m_jobs\<close>, and the job of their unit.\<close>

definition wf_inst :: "manager \<Rightarrow> bool" where
  "wf_inst m \<longleftrightarrow>
     distinct (omap_keys (m_jobs m)) \<and>
     (\<forall>i j. omap_get (m_jobs m) i = Some j \<longrightarrow>
        (\<exists>jb. m_job m j = Some jb \<and> j_installed jb \<and> j_id jb = i)) \<and>
     (\<forall>u j. u_job (m_unit m u) = Some j \<longrightarrow>
        (\<exists>jb. m_job m j = Some jb \<and> j_installed jb \<and> j_unit jb = u)) \<and>
     (\<forall>j jb. m_job m j = Some jb \<and> j_installed jb \<longrightarrow>
        omap_get (m_jobs m) (j_id jb) = Some j \<and> u_job (m_unit m (j_unit jb)) = Some j)"

definition wf_queues :: "manager \<Rightarrow> bool" where
  "wf_queues m \<longleftrightarrow>
     distinct (m_run_queue m) \<and> distinct (m_dbus_job_queue m) \<and>
     (\<forall>j. j \<in> set (m_run_queue m) \<longleftrightarrow> (\<exists>jb. m_job m j = Some jb \<and> j_in_run_queue jb)) \<and>
     (\<forall>j. j \<in> set (m_dbus_job_queue m) \<longleftrightarrow> (\<exists>jb. m_job m j = Some jb \<and> j_in_dbus_queue jb))"

definition wf_next :: "manager \<Rightarrow> bool" where
  "wf_next m \<longleftrightarrow> (\<forall>j \<ge> m_next_job m. m_job m j = None) \<and>
                 (\<forall>l \<ge> m_next_dep m. omap_get (m_dep m) l = None)"

definition wf_tx :: "manager \<Rightarrow> bool" where
  "wf_tx m \<longleftrightarrow> wf_core m \<and> wf_scope m \<and> wf_inst m \<and> wf_queues m \<and> wf_next m"

lemma wf_txD:
  assumes "wf_tx m"
  shows "wf_core m" "wf_scope m" "wf_inst m" "wf_queues m" "wf_next m" "wf_deps m" "wf_list m" "wf_q m"
  using assms by (simp_all add: wf_tx_def wf_core_def)

lemma tjobs_iff: "j \<in> tjobs m \<longleftrightarrow> (\<exists>u ls. (u, ls) \<in> set (m_transaction_jobs m) \<and> j \<in> set ls)"
  by (auto simp: tjobs_def)

lemma tjobs_alive: "wf_list m \<Longrightarrow> j \<in> tjobs m \<Longrightarrow> m_job m j \<noteq> None"
  using wf_listD(4) by (fastforce simp: tjobs_iff)

lemma tlist_tjobs: "j \<in> set (tlist m u) \<Longrightarrow> j \<in> tjobs m"
  unfolding tlist_def tjobs_iff
  by (cases "omap_get (m_transaction_jobs m) u") (auto dest: omap_get_SomeD)

lemma finite_tjobs [simp]: "finite (tjobs m)"
  by (auto simp: tjobs_def)

lemma tjobs_empty: "wf_list m \<Longrightarrow> tjobs m = {} \<longleftrightarrow> m_transaction_jobs m = []"
  using wf_listD(2) [of m] by (cases "m_transaction_jobs m") (auto simp: tjobs_def)

lemma tjobs_eff: "tjobs (eff D T X m) = tjobs m - T"
proof -
  have "\<exists>u ls. (u, ls) \<in> set (drop_jobs T (m_transaction_jobs m)) \<and> x \<in> set ls"
    if "x \<notin> T" "(u, ls) \<in> set (m_transaction_jobs m)" "x \<in> set ls" for x u ls
  proof -
    have "x \<in> set (filter (\<lambda>j. j \<notin> T) ls)" using that by simp
    then show ?thesis using that(2) by (metis mem_drop_jobs empty_iff empty_set)
  qed
  moreover have "x \<in> tjobs m \<and> x \<notin> T"
    if "(u, ls) \<in> set (drop_jobs T (m_transaction_jobs m))" "x \<in> set ls" for x u ls
    using that unfolding mem_drop_jobs tjobs_iff by (clarsimp, blast)
  ultimately show ?thesis by (auto simp: tjobs_iff)
qed

lemma tjobs_cut [simp]: "tjobs (cut_jobs K m) = tjobs m - K"
  by (simp add: cut_jobs_def tjobs_eff)

lemma m_job_cut: "m_job (cut_jobs K m) j = (if j \<in> K \<inter> noninst m then None else map_option (drop_deps (inc m K)) (m_job m j))"
  by (simp add: cut_jobs_def)

lemma inst_not_noninst: "m_job m j = Some jb \<Longrightarrow> j_installed jb \<Longrightarrow> j \<notin> noninst m"
  by (simp add: noninst_def)

lemma m_job_cut_inst [simp]:
  "m_job m j = Some jb \<Longrightarrow> j_installed jb \<Longrightarrow> m_job (cut_jobs K m) j = Some (drop_deps (inc m K) jb)"
  by (simp add: m_job_cut noninst_def)

lemma m_job_cutD:
  assumes "m_job (cut_jobs K m) j = Some jb"
  shows "\<exists>jb'. m_job m j = Some jb' \<and> jb = drop_deps (inc m K) jb' \<and> j \<notin> K \<inter> noninst m"
  using assms by (auto simp: m_job_cut split: if_splits)

lemma cut_sel [simp]:
  "m_units (cut_jobs K m) = m_units m" "m_jobs (cut_jobs K m) = m_jobs m"
  "m_run_queue (cut_jobs K m) = m_run_queue m" "m_dbus_job_queue (cut_jobs K m) = m_dbus_job_queue m"
  "m_unit (cut_jobs K m) = m_unit m" "m_next_job (cut_jobs K m) = m_next_job m"
  "m_next_dep (cut_jobs K m) = m_next_dep m" "m_current_job_id (cut_jobs K m) = m_current_job_id m"
  "omap_get (m_dep (cut_jobs K m)) l = (if l \<in> inc m K then None else omap_get (m_dep m) l)"
  by (simp_all add: cut_jobs_def)

lemma noninst_cut: "noninst (cut_jobs K m) = noninst m - K"
  by (auto simp: cut_jobs_def noninst_eff)

lemma wf_tx_cut:
  assumes wf: "wf_tx m"
  shows "wf_tx (cut_jobs K m)"
  unfolding wf_tx_def
proof (intro conjI)
  show "wf_core (cut_jobs K m)" using wf_core_cut wf_txD(1) [OF wf] .
  show "wf_scope (cut_jobs K m)"
    using wf_txD(2) [OF wf] unfolding wf_scope_def noninst_cut
    by (fastforce simp: inc_def split: if_splits)
  show "wf_inst (cut_jobs K m)"
  proof -
    note inst = wf_txD(3) [OF wf, unfolded wf_inst_def]
    have "\<exists>jb. m_job (cut_jobs K m) j = Some jb \<and> j_installed jb \<and> j_id jb = i"
      if "omap_get (m_jobs (cut_jobs K m)) i = Some j" for i j
      using inst that by fastforce
    moreover have "\<exists>jb. m_job (cut_jobs K m) j = Some jb \<and> j_installed jb \<and> j_unit jb = u"
      if "u_job (m_unit (cut_jobs K m) u) = Some j" for u j
      using inst that by fastforce
    moreover have "omap_get (m_jobs (cut_jobs K m)) (j_id jb) = Some j \<and> u_job (m_unit (cut_jobs K m) (j_unit jb)) = Some j"
      if "m_job (cut_jobs K m) j = Some jb \<and> j_installed jb" for j jb
      using inst m_job_cutD [of K m j jb] that by fastforce
    ultimately show ?thesis using inst unfolding wf_inst_def by auto
  qed
  show "wf_queues (cut_jobs K m)"
  proof -
    have "(\<exists>jb. m_job (cut_jobs K m) j = Some jb \<and> F jb) \<longleftrightarrow> (\<exists>jb. m_job m j = Some jb \<and> F jb)"
      if F: "\<And>jb D. F (drop_deps D jb) = F jb" "\<And>jb. m_job m j = Some jb \<Longrightarrow> F jb \<Longrightarrow> j_installed jb" for j F
      using F by (auto simp: m_job_cut noninst_def)
    from this [of j_in_run_queue, OF drop_deps_simps(8)] this [of j_in_dbus_queue, OF drop_deps_simps(9)]
    have "(\<exists>jb. m_job (cut_jobs K m) j = Some jb \<and> j_in_run_queue jb) \<longleftrightarrow> (\<exists>jb. m_job m j = Some jb \<and> j_in_run_queue jb)"
      "(\<exists>jb. m_job (cut_jobs K m) j = Some jb \<and> j_in_dbus_queue jb) \<longleftrightarrow> (\<exists>jb. m_job m j = Some jb \<and> j_in_dbus_queue jb)" for j
      using wf_txD(8) [OF wf] unfolding wf_q_def by blast+
    then show ?thesis using wf_txD(4) [OF wf] unfolding wf_queues_def by simp
  qed
  show "wf_next (cut_jobs K m)"
    using wf_txD(5) [OF wf] unfolding wf_next_def by (auto simp: m_job_cut)
qed

lemma transaction_delete_job_wf:
  assumes "wf_tx m" "m_job m j \<noteq> None"
  shows "\<exists>m'. transaction_delete_job j dd m = Some m' \<and> wf_tx m' \<and> tjobs m' = tjobs m - del_set dd m j"
  using transaction_delete_job_cut [OF wf_txD(1) [OF assms(1)] assms(2)] wf_tx_cut [OF assms(1)] by simp

lemma job_free_noninst_wf:
  assumes "wf_tx m" "m_job m j = Some jb" "\<not> j_installed jb"
  shows "job_free j m = Some (cut_jobs (del_set True m j) m)"
  using job_free_noninst_cut [OF wf_txD(1) [OF assms(1)] assms(2,3)] by (simp add: del_set_def)

subsection \<open>Aborting\<close>

lemma cut_jobs_cut_jobs: "cut_jobs K (cut_jobs K' m) = cut_jobs (K \<union> K') m"
proof -
  have "inc (cut_jobs K' m) K \<union> inc m K' = inc m (K \<union> K')"
    by (auto simp: cut_jobs_def inc_eff) (auto simp: inc_def)
  moreover have "K \<inter> noninst (cut_jobs K' m) \<union> K' \<inter> noninst m = (K \<union> K') \<inter> noninst m"
    by (auto simp: noninst_cut)
  ultimately show ?thesis
    unfolding cut_jobs_def [of K "cut_jobs K' m"] cut_jobs_def [of "K \<union> K'"]
    by (simp add: cut_jobs_def [of K'] eff_eff)
qed

lemma cut_jobs_empty [simp]: "wf_list m \<Longrightarrow> cut_jobs {} m = m"
  by (simp add: cut_jobs_def inc_def)

lemma abort_jobs_cut:
  assumes "wf_tx m"
  shows "\<exists>K. abort_jobs m = Some (cut_jobs K m) \<and> tjobs m \<subseteq> K"
  using assms
proof (induction "card (tjobs m)" arbitrary: m rule: less_induct)
  case less
  note wf = less.prems and wfl = wf_txD(7) [OF less.prems]
  show ?case
  proof (cases "m_transaction_jobs m")
    case Nil
    then have "abort_jobs m = Some (cut_jobs {} m)" using wfl by (simp add: abort_jobs.simps)
    moreover have "tjobs m = {}" using Nil by (simp add: tjobs_def)
    ultimately show ?thesis by blast
  next
    case (Cons p ps)
    obtain u ls where p: "p = (u, ls)" by (cases p)
    with Cons have mem: "(u, ls) \<in> set (m_transaction_jobs m)" by simp
    have ls: "hd ls \<in> set ls" using wf_listD(2) [OF wfl mem] by simp
    obtain jb where jb: "m_job m (hd ls) = Some jb" using wf_listD(4) [OF wfl mem ls] by auto
    let ?K = "del_set True m (hd ls)"
    have step: "(if j_installed jb then transaction_delete_job (hd ls) True m else job_free (hd ls) m) =
        Some (cut_jobs ?K m)"
      using transaction_delete_job_cut [OF wf_txD(1) [OF wf]] job_free_noninst_wf [OF wf jb] jb by auto
    have "hd ls \<in> tjobs m" using mem ls by (auto simp: tjobs_iff)
    then have "card (tjobs (cut_jobs ?K m)) < card (tjobs m)"
      using del_set_self [of "hd ls" True m] by (intro psubset_card_mono) (simp, unfold tjobs_cut, blast)
    from less.hyps [OF this wf_tx_cut [OF wf]] obtain K where
      K: "abort_jobs (cut_jobs ?K m) = Some (cut_jobs K (cut_jobs ?K m))" "tjobs m - ?K \<subseteq> K"
      by auto
    then have "abort_jobs m = Some (cut_jobs (K \<union> ?K) m)"
      using Cons p jb step by (simp add: abort_jobs.simps [of m] cut_jobs_cut_jobs)
    then show ?thesis using K(2) by blast
  qed
qed

text \<open>The manager as it is when no transaction is being built.\<close>

definition no_tx :: "manager \<Rightarrow> manager" where
  "no_tx m = m\<lparr>m_dep := [], m_transaction_anchor := [], m_transaction_jobs := [],
               m_job := (\<lambda>j. case m_job m j of
                   None \<Rightarrow> None
                 | Some jb \<Rightarrow> if j_installed jb
                              then Some (jb\<lparr>j_subject_list := [], j_object_list := []\<rparr>) else None)\<rparr>"

lemma cut_jobs_all:
  assumes wf: "wf_tx m" and K: "tjobs m \<subseteq> K"
  shows "cut_jobs K m = no_tx m"
proof -
  note wfd = wf_txD(6) [OF wf] and sc = wf_txD(2) [OF wf, unfolded wf_scope_def]
  have all: "l \<in> inc m K" if "omap_get (m_dep m) l = Some d" for l d
    using that sc K by (fastforce simp: inc_def)
  have dep: "filter (\<lambda>p. fst p \<notin> inc m K) (m_dep m) = []"
    using all wf_depsD(1) [OF wfd] by (auto simp: filter_empty_conv omap_get_mem)
  have anc: "filter (\<lambda>l. l \<notin> inc m K) (m_transaction_anchor m) = []"
    using all wf_depsD(10) [OF wfd] by (fastforce simp: filter_empty_conv)
  have tx: "drop_jobs K (m_transaction_jobs m) = []"
    using K by (fastforce simp: drop_jobs_def filter_empty_conv tjobs_iff)
  have "drop_deps (inc m K) jb = jb\<lparr>j_subject_list := [], j_object_list := []\<rparr>" if "m_job m j = Some jb" for j jb
  proof -
    have "filter (\<lambda>l. l \<notin> inc m K) (j_subject_list jb) = []" "filter (\<lambda>l. l \<notin> inc m K) (j_object_list jb) = []"
      using all wf_depsD(7,8) [OF wfd that] by (fastforce simp: filter_empty_conv)+
    then show ?thesis by (simp add: drop_deps_def)
  qed
  then have "(if j \<in> K \<inter> noninst m then None else map_option (drop_deps (inc m K)) (m_job m j)) =
      m_job (no_tx m) j" for j
    using sc K by (cases "m_job m j") (auto simp: no_tx_def noninst_def)
  with dep anc tx show ?thesis by (simp add: cut_jobs_def eff_def no_tx_def fun_eq_iff)
qed

lemma clean_jobs_none:
  assumes "\<And>j. j \<in> set js \<Longrightarrow> \<exists>jb. m_job m j = Some jb \<and> j_subject_list jb = [] \<and> j_object_list jb = []"
  shows "clean_jobs js m = Some m"
  using assms
proof (induction js)
  case (Cons j js)
  then obtain jb where "m_job m j = Some jb" "j_subject_list jb = []" "j_object_list jb = []" by auto
  then show ?case using Cons by (simp add: free_subject_list.simps free_object_list.simps)
qed simp

lemma m_jobs_installed:
  assumes "wf_inst m" "j \<in> snd ` set (m_jobs m)"
  shows "\<exists>jb. m_job m j = Some jb \<and> j_installed jb"
proof -
  obtain i where "(i, j) \<in> set (m_jobs m)" using assms(2) by auto
  then have "omap_get (m_jobs m) i = Some j"
    using assms(1) unfolding wf_inst_def by (simp add: omap_get_mem)
  then show ?thesis using assms(1) unfolding wf_inst_def by blast
qed

lemma transaction_abort_eq:
  assumes wf: "wf_tx m"
  shows "transaction_abort m = Some (no_tx m)"
proof -
  obtain K where K: "abort_jobs m = Some (cut_jobs K m)" "tjobs m \<subseteq> K"
    using abort_jobs_cut [OF wf] by blast
  have "clean_jobs (map snd (m_jobs (no_tx m))) (no_tx m) = Some (no_tx m)"
  proof (rule clean_jobs_none)
    fix j assume "j \<in> set (map snd (m_jobs (no_tx m)))"
    then have "\<exists>jb. m_job m j = Some jb \<and> j_installed jb"
      using m_jobs_installed [OF wf_txD(3) [OF wf]] by (simp add: no_tx_def)
    then show "\<exists>jb. m_job (no_tx m) j = Some jb \<and> j_subject_list jb = [] \<and> j_object_list jb = []"
      by (auto simp: no_tx_def)
  qed
  moreover have "m_transaction_anchor (no_tx m) = []" by (simp add: no_tx_def)
  ultimately show ?thesis
    using K by (simp add: transaction_abort_def transaction_clean_dependencies_def cut_jobs_all [OF wf K(2)])
qed

lemma wf_tx_no_tx:
  assumes "wf_tx m"
  shows "wf_tx (no_tx m)"
  using wf_tx_cut [OF assms, of "tjobs m"] cut_jobs_all [OF assms, of "tjobs m"] by simp

end
