(* ===== verification/Transaction_Prune.thy ===== *)
theory Transaction_Prune
  imports Transaction_Inv
begin

section \<open>Which jobs the pruning steps drop and keep\<close>

text \<open>
  The sweep that marks the jobs that matter to the anchor computes reachability
  (\<open>find_jobs_that_matter_eq\<close>), and the three pruning loops of the transaction are instances
  of one locale: a total selection of a job of the transaction makes the loop end in a state where
  nothing is selected any more, with an invariant of the dropped set for each loop.
\<close>

subsection \<open>Updates that keep the links\<close>

definition same_links :: "job \<Rightarrow> job \<Rightarrow> bool" where
  "same_links a b \<longleftrightarrow>
     j_unit b = j_unit a \<and> j_subject_list b = j_subject_list a \<and> j_object_list b = j_object_list a \<and>
     j_id b = j_id a \<and> j_installed b = j_installed a \<and>
     j_in_run_queue b = j_in_run_queue a \<and> j_in_dbus_queue b = j_in_dbus_queue a"

definition relabel :: "(job \<Rightarrow> job \<Rightarrow> bool) \<Rightarrow> manager \<Rightarrow> manager \<Rightarrow> bool" where
  "relabel R m m' \<longleftrightarrow> m' = m\<lparr>m_job := m_job m'\<rparr> \<and> (\<forall>j. rel_option R (m_job m j) (m_job m' j))"

lemma relabelD:
  assumes "relabel R m m'"
  shows "m_units m' = m_units m" "m_jobs m' = m_jobs m" "m_run_queue m' = m_run_queue m"
    "m_dbus_job_queue m' = m_dbus_job_queue m" "m_transaction_jobs m' = m_transaction_jobs m"
    "m_transaction_anchor m' = m_transaction_anchor m" "m_unit m' = m_unit m" "m_dep m' = m_dep m"
    "m_next_job m' = m_next_job m" "m_next_dep m' = m_next_dep m"
    "m_job m j = Some jb \<Longrightarrow> \<exists>jb'. m_job m' j = Some jb' \<and> R jb jb'"
    "m_job m' j = Some jb' \<Longrightarrow> \<exists>jb. m_job m j = Some jb \<and> R jb jb'"
proof -
  have m': "m' = m\<lparr>m_job := m_job m'\<rparr>" and r: "\<And>j. rel_option R (m_job m j) (m_job m' j)"
    using assms by (simp_all add: relabel_def)
  show "m_units m' = m_units m" "m_jobs m' = m_jobs m" "m_run_queue m' = m_run_queue m"
    "m_dbus_job_queue m' = m_dbus_job_queue m" "m_transaction_jobs m' = m_transaction_jobs m"
    "m_transaction_anchor m' = m_transaction_anchor m" "m_unit m' = m_unit m" "m_dep m' = m_dep m"
    "m_next_job m' = m_next_job m" "m_next_dep m' = m_next_dep m"
    by (subst m', simp)+
  show "m_job m j = Some jb \<Longrightarrow> \<exists>jb'. m_job m' j = Some jb' \<and> R jb jb'"
    "m_job m' j = Some jb' \<Longrightarrow> \<exists>jb. m_job m j = Some jb \<and> R jb jb'"
    using r [of j] by (auto simp: option_rel_Some1 option_rel_Some2)
qed

lemma relabel_refl: "(\<And>jb. R jb jb) \<Longrightarrow> relabel R m m"
  by (simp add: relabel_def option.rel_refl)

lemma relabel_trans:
  assumes "relabel R m m'" "relabel R m' m''" "\<And>a b c. R a b \<Longrightarrow> R b c \<Longrightarrow> R a c"
  shows "relabel R m m''"
proof -
  have "m'' = m\<lparr>m_job := m_job m''\<rparr>"
    using assms(1,2) unfolding relabel_def
    by (metis (no_types, lifting) manager.update_convs(13) manager.surjective)
  moreover have "rel_option R (m_job m j) (m_job m'' j)" for j
    using assms unfolding relabel_def by (metis (full_types) option.rel_transp transpE transpI)
  ultimately show ?thesis by (simp add: relabel_def)
qed

lemma relabel_mono: "relabel R m m' \<Longrightarrow> (\<And>a b. R a b \<Longrightarrow> Q a b) \<Longrightarrow> relabel Q m m'"
  unfolding relabel_def by (meson option.rel_mono_strong)

lemma upd_job_relabel:
  assumes "m_job m j = Some jb" "R jb (f jb)" "\<And>jb. R jb jb"
  shows "\<exists>m'. upd_job j f m = Some m' \<and> relabel R m m' \<and> m_job m' = (m_job m)(j \<mapsto> f jb)"
  using assms by (simp add: upd_job_def relabel_def option.rel_refl)

lemma same_links_refl [simp]: "same_links a a"
  by (simp add: same_links_def)

lemma same_links_trans: "same_links a b \<Longrightarrow> same_links b c \<Longrightarrow> same_links a c"
  by (simp add: same_links_def)

lemma relabel_sets:
  assumes "relabel R m m'"
  shows "req_rel m' = req_rel m" "tjobs m' = tjobs m" "inc m' = inc m" "requirers m' = requirers m"
  using relabelD(5,8) [OF assms] by (simp_all add: req_rel_def tjobs_def inc_def requirers_def fun_eq_iff)

lemma noninst_relabel: "relabel same_links m m' \<Longrightarrow> noninst m' = noninst m"
  using relabelD(11,12) [of same_links m m'] unfolding noninst_def same_links_def by fast

lemma wf_tx_relabel:
  assumes r: "relabel same_links m m'" and wf: "wf_tx m"
  shows "wf_tx m'"
proof -
  note eqs = relabelD(1-10) [OF r] relabel_sets [OF r] noninst_relabel [OF r]
  have rel: "rel_option same_links (m_job m j) (m_job m' j)" for j using r by (simp add: relabel_def)
  have ex: "(\<exists>jb. m_job m' j = Some jb \<and> P jb) \<longleftrightarrow> (\<exists>jb. m_job m j = Some jb \<and> P jb)"
    if "\<And>a b. same_links a b \<Longrightarrow> P b = P a" for j P
    using rel [of j] that by (cases "m_job m j"; cases "m_job m' j") auto
  have all: "(\<forall>j jb. m_job m' j = Some jb \<longrightarrow> P j jb) \<longleftrightarrow> (\<forall>j jb. m_job m j = Some jb \<longrightarrow> P j jb)"
    if P: "\<And>a b j. same_links a b \<Longrightarrow> P j b = P j a" for P
  proof -
    have "(\<forall>jb. m_job m' j = Some jb \<longrightarrow> P j jb) \<longleftrightarrow> (\<forall>jb. m_job m j = Some jb \<longrightarrow> P j jb)" for j
      using rel [of j] P by (cases "m_job m j"; cases "m_job m' j") auto
    then show ?thesis by simp
  qed
  have all': "(\<forall>j jb. m_job m' j = Some jb \<and> Q jb \<longrightarrow> P j jb) \<longleftrightarrow> (\<forall>j jb. m_job m j = Some jb \<and> Q jb \<longrightarrow> P j jb)"
    if "\<And>a b j. same_links a b \<Longrightarrow> P j b = P j a" "\<And>a b. same_links a b \<Longrightarrow> Q b = Q a" for P Q
    using all [of "\<lambda>j jb. Q jb \<longrightarrow> P j jb"] that by (simp add: imp_conjL)
  have exs:
    "(\<exists>jb. m_job m' j = Some jb \<and> l \<in> set (j_object_list jb)) \<longleftrightarrow> (\<exists>jb. m_job m j = Some jb \<and> l \<in> set (j_object_list jb))"
    "(\<exists>jb. m_job m' j = Some jb \<and> l \<in> set (j_subject_list jb)) \<longleftrightarrow> (\<exists>jb. m_job m j = Some jb \<and> l \<in> set (j_subject_list jb))"
    "(\<exists>jb. m_job m' j = Some jb \<and> j_unit jb = u) \<longleftrightarrow> (\<exists>jb. m_job m j = Some jb \<and> j_unit jb = u)"
    "(\<exists>jb. m_job m' j = Some jb \<and> j_in_run_queue jb) \<longleftrightarrow> (\<exists>jb. m_job m j = Some jb \<and> j_in_run_queue jb)"
    "(\<exists>jb. m_job m' j = Some jb \<and> j_in_dbus_queue jb) \<longleftrightarrow> (\<exists>jb. m_job m j = Some jb \<and> j_in_dbus_queue jb)"
    "(\<exists>jb. m_job m' j = Some jb \<and> j_installed jb \<and> j_id jb = i) \<longleftrightarrow> (\<exists>jb. m_job m j = Some jb \<and> j_installed jb \<and> j_id jb = i)"
    "(\<exists>jb. m_job m' j = Some jb \<and> j_installed jb \<and> j_unit jb = u) \<longleftrightarrow> (\<exists>jb. m_job m j = Some jb \<and> j_installed jb \<and> j_unit jb = u)"
    for j l u i
    by (rule ex; simp add: same_links_def)+
  have "wf_deps m'"
    using wf_txD(6) [OF wf] unfolding wf_deps_def eqs exs
    by (subst all) (simp_all add: same_links_def)
  moreover have "wf_list m'"
    using wf_txD(7) [OF wf] unfolding wf_list_def eqs exs .
  moreover have "wf_q m'"
    using wf_txD(8) [OF wf] unfolding wf_q_def by (subst all') (simp_all add: same_links_def)
  moreover have "wf_scope m'"
    using wf_txD(2) [OF wf] unfolding wf_scope_def eqs .
  moreover have "wf_inst m'"
    using wf_txD(3) [OF wf] unfolding wf_inst_def eqs exs
    by (subst all') (simp_all add: same_links_def)
  moreover have "wf_queues m'"
    using wf_txD(4) [OF wf] unfolding wf_queues_def eqs exs .
  moreover have "wf_next m'"
  proof -
    have "m_job m' j = None \<longleftrightarrow> m_job m j = None" for j
      using rel [of j] by (cases "m_job m j"; cases "m_job m' j") auto
    then show ?thesis using wf_txD(5) [OF wf] by (simp add: wf_next_def eqs)
  qed
  ultimately show ?thesis by (simp add: wf_tx_def wf_core_def)
qed

text \<open>What the invariant reads of a job besides its links.\<close>

definition same_id :: "job \<Rightarrow> job \<Rightarrow> bool" where
  "same_id a b \<longleftrightarrow> j_unit b = j_unit a \<and> j_id b = j_id a \<and> j_installed b = j_installed a \<and>
     j_in_run_queue b = j_in_run_queue a \<and> j_in_dbus_queue b = j_in_dbus_queue a"

text \<open>
  What the engine keeps of an installed job while a transaction is built or dropped: everything but
  the fields that belong to the transaction (the links, the marker, the generation,
  \<open>matters_to_anchor\<close>, \<open>override\<close> and \<open>ignore_order\<close>, which is never cleared).
\<close>

definition same_core :: "job \<Rightarrow> job \<Rightarrow> bool" where
  "same_core a b \<longleftrightarrow> same_id a b \<and> j_type b = j_type a \<and> j_state b = j_state a \<and>
     j_timer b = j_timer a \<and> j_result b = j_result a \<and> (j_ignore_order a \<longrightarrow> j_ignore_order b)"

definition inst :: "manager \<Rightarrow> jref \<Rightarrow> job option" where
  "inst m x = (case m_job m x of None \<Rightarrow> None | Some xb \<Rightarrow> if j_installed xb then Some xb else None)"

lemma same_core_refl [simp]: "same_core a a"
  by (simp add: same_core_def same_id_def)

lemma same_core_trans: "same_core a b \<Longrightarrow> same_core b c \<Longrightarrow> same_core a c"
  by (simp add: same_core_def same_id_def)

lemma same_core_same_id: "same_core a b \<Longrightarrow> same_id a b"
  by (simp add: same_core_def)

lemma same_core_drop [simp]: "same_core a (drop_deps D a)"
  by (simp add: same_core_def same_id_def)

lemma rel_inst_trans:
  "rel_option same_core a b \<Longrightarrow> rel_option same_core b c \<Longrightarrow> rel_option same_core a c"
  by (cases a; cases b; cases c) (auto intro: same_core_trans)

lemma rel_inst_job:
  "rel_option same_core (m_job m x) (m_job m' x) \<Longrightarrow> rel_option same_core (inst m x) (inst m' x)"
  by (cases "m_job m x"; cases "m_job m' x") (auto simp: inst_def same_core_def same_id_def)

text \<open>
  The steps between the building and the installing of a transaction only take jobs out of it: the
  jobs that are left keep their identity, and the rest of the manager stays.
\<close>

definition shrinks :: "manager \<Rightarrow> manager \<Rightarrow> bool" where
  "shrinks m m' \<longleftrightarrow>
     (\<forall>x xb'. m_job m' x = Some xb' \<longrightarrow> (\<exists>xb. m_job m x = Some xb \<and> same_id xb xb')) \<and>
     tjobs m' \<subseteq> tjobs m \<and> m_unit m' = m_unit m \<and> m_units m' = m_units m \<and> m_jobs m' = m_jobs m \<and>
     m_run_queue m' = m_run_queue m \<and> m_dbus_job_queue m' = m_dbus_job_queue m \<and>
     m_next_job m' = m_next_job m \<and> m_current_job_id m' = m_current_job_id m \<and>
     (\<forall>x. rel_option same_core (inst m x) (inst m' x))"

lemma shrinks_refl: "shrinks m m"
  by (auto simp: shrinks_def same_id_def intro!: option.rel_refl)

lemma shrinks_trans: "shrinks m m1 \<Longrightarrow> shrinks m1 m2 \<Longrightarrow> shrinks m m2"
proof -
  assume s1: "shrinks m m1" and s2: "shrinks m1 m2"
  have "\<exists>xb. m_job m x = Some xb \<and> same_id xb xb2" if x: "m_job m2 x = Some xb2" for x xb2
  proof -
    obtain xb1 where x1: "m_job m1 x = Some xb1" "same_id xb1 xb2" using s2 x unfolding shrinks_def by blast
    then obtain xb where "m_job m x = Some xb" "same_id xb xb1" using s1 unfolding shrinks_def by blast
    then show ?thesis using x1(2) by (auto simp: same_id_def)
  qed
  moreover have "rel_option same_core (inst m x) (inst m2 x)" for x
    using s1 s2 rel_inst_trans unfolding shrinks_def by blast
  ultimately show ?thesis using s1 s2 by (auto simp: shrinks_def)
qed

lemma shrinks_relabel:
  assumes r: "relabel R m m'" and R: "\<And>a b. R a b \<Longrightarrow> same_core a b"
  shows "shrinks m m'"
proof -
  have "m' = m\<lparr>m_job := m_job m'\<rparr>" using r by (simp add: relabel_def)
  then have "m_current_job_id m' = m_current_job_id m" by (metis manager.select_convs(9) manager.surjective manager.update_convs(13))
  moreover have "\<exists>xb. m_job m x = Some xb \<and> same_id xb xb'" if "m_job m' x = Some xb'" for x xb'
    using relabelD(12) [OF r that] R same_core_same_id by blast
  moreover have "rel_option same_core (inst m x) (inst m' x)" for x
    using r R by (intro rel_inst_job) (auto simp: relabel_def intro: option.rel_mono_strong)
  ultimately show ?thesis
    using relabelD(1,2,3,4,7,9) [OF r] relabel_sets(2) [OF r] by (simp add: shrinks_def)
qed

lemma shrinks_cut: "shrinks m (cut_jobs K m)"
proof -
  have "m_current_job_id (cut_jobs K m) = m_current_job_id m" by (simp add: cut_jobs_def eff_def)
  moreover have "\<exists>xb. m_job m x = Some xb \<and> same_id xb xb'" if "m_job (cut_jobs K m) x = Some xb'" for x xb'
    using m_job_cutD [OF that] by (auto simp: same_id_def)
  moreover have "rel_option same_core (inst m x) (inst (cut_jobs K m) x)" for x
    by (cases "m_job m x") (auto simp: inst_def m_job_cut noninst_def)
  ultimately show ?thesis by (auto simp: shrinks_def)
qed

subsection \<open>The sweep from the anchor\<close>

definition marked :: "nat \<Rightarrow> manager \<Rightarrow> jref set" where
  "marked g m = {j. \<exists>jb. m_job m j = Some jb \<and> j_generation jb = g}"

definition targets :: "manager \<Rightarrow> dref set \<Rightarrow> jref set" where
  "targets m L = {t. \<exists>l d. l \<in> L \<and> omap_get (m_dep m) l = Some d \<and> d_matters d \<and> d_object d = t}"

definition unmarked :: "nat \<Rightarrow> manager \<Rightarrow> jref set" where
  "unmarked g m = {j. \<exists>jb. m_job m j = Some jb \<and> j_generation jb \<noteq> g}"

definition mark_step :: "nat \<Rightarrow> job \<Rightarrow> job \<Rightarrow> bool" where
  "mark_step g a b \<longleftrightarrow> b = a \<or> j_generation a \<noteq> g \<and> b = a\<lparr>j_matters_to_anchor := True, j_generation := g\<rparr>"

definition sweeps :: "nat \<Rightarrow> dref set \<Rightarrow> manager \<Rightarrow> manager \<Rightarrow> bool" where
  "sweeps g L m m' \<longleftrightarrow>
     relabel (mark_step g) m m' \<and>
     targets m L \<subseteq> marked g m' \<and>
     req_rel m `` (marked g m' - marked g m) \<subseteq> marked g m' \<and>
     marked g m' - marked g m \<subseteq> (req_rel m)\<^sup>* `` targets m L"

lemma mark_step_refl [simp]: "mark_step g a a"
  by (simp add: mark_step_def)

lemma mark_step_trans: "mark_step g a b \<Longrightarrow> mark_step g b c \<Longrightarrow> mark_step g a c"
  by (auto simp: mark_step_def)

lemma mark_step_same_links: "mark_step g a b \<Longrightarrow> same_links a b"
  by (auto simp: mark_step_def same_links_def)

lemma mark_step_core: "mark_step g a b \<Longrightarrow> same_core a b"
  by (auto simp: mark_step_def same_core_def same_id_def)

lemma marked_mono: "relabel (mark_step g) m m' \<Longrightarrow> marked g m \<subseteq> marked g m'"
  unfolding marked_def using relabelD(11) [of "mark_step g" m m'] by (fastforce simp: mark_step_def)

lemma targets_relabel: "relabel R m m' \<Longrightarrow> targets m' = targets m"
  by (simp add: targets_def relabelD(8) fun_eq_iff)

lemma finite_unmarked: "wf_next m \<Longrightarrow> finite (unmarked g m)"
  by (rule finite_subset [of _ "{..< m_next_job m}"]) (auto simp: unmarked_def wf_next_def not_less [symmetric] intro: ccontr)

lemma unmarked_relabel:
  assumes "relabel (mark_step g) m m'"
  shows "unmarked g m' = unmarked g m - marked g m'"
  using relabelD(11,12) [OF assms] unfolding unmarked_def marked_def
  by (fastforce simp: mark_step_def)

lemma sweeps_trans:
  assumes "sweeps g L m m'" "sweeps g L' m' m''"
  shows "sweeps g (L \<union> L') m m''"
proof -
  have r: "relabel (mark_step g) m m'" "relabel (mark_step g) m' m''"
    using assms by (simp_all add: sweeps_def)
  have "targets m (L \<union> L') = targets m L \<union> targets m L'" by (auto simp: targets_def)
  then show ?thesis
    using assms marked_mono [OF r(1)] marked_mono [OF r(2)] relabel_trans [OF r mark_step_trans]
    unfolding sweeps_def targets_relabel [OF r(1)] relabel_sets(1) [OF r(1)]
    by (auto; blast)
qed

text \<open>Marking the object of a link, and sweeping from it, is a sweep of the link.\<close>

lemma sweeps_visit:
  assumes d: "omap_get (m_dep m) l = Some d" "d_matters d"
    and ob: "m_job m (d_object d) = Some ob" "j_generation ob \<noteq> g"
    and m1: "relabel (mark_step g) m m1"
      "m_job m1 = (m_job m)(d_object d \<mapsto> ob\<lparr>j_matters_to_anchor := True, j_generation := g\<rparr>)"
    and sub: "targets m (set (j_subject_list ob)) = req_rel m `` {d_object d}"
    and sw: "sweeps g (set (j_subject_list ob)) m1 m2"
  shows "sweeps g {l} m m2"
proof -
  let ?t = "d_object d"
  have m2: "relabel (mark_step g) m1 m2" using sw by (simp add: sweeps_def)
  have mk1: "marked g m1 = insert ?t (marked g m)"
    using ob m1(2) by (auto simp: marked_def)
  have t: "targets m {l} = {?t}" using d by (auto simp: targets_def)
  have sw': "req_rel m `` {?t} \<subseteq> marked g m2" "req_rel m `` (marked g m2 - marked g m1) \<subseteq> marked g m2"
    "marked g m2 - marked g m1 \<subseteq> (req_rel m)\<^sup>* `` (req_rel m `` {?t})"
    using sw unfolding sweeps_def targets_relabel [OF m1(1)] relabel_sets(1) [OF m1(1)] sub by simp_all
  have "(req_rel m)\<^sup>* `` (req_rel m `` {?t}) \<subseteq> (req_rel m)\<^sup>* `` {?t}"
    by (auto intro: converse_rtrancl_into_rtrancl)
  then show ?thesis
    unfolding sweeps_def t
    using sw' mk1 marked_mono [OF m2] relabel_trans [OF m1(1) m2 mark_step_trans]
    by (auto; blast)
qed

lemma sweeps_skip:
  assumes "omap_get (m_dep m) l = Some d" "d_matters d \<Longrightarrow> d_object d \<in> marked g m"
  shows "sweeps g {l} m m"
  using assms by (auto simp: sweeps_def targets_def relabel_refl)

lemma find_matters_sweeps:
  assumes "wf_tx m" "\<forall>l \<in> set links. omap_get (m_dep m) l \<noteq> None"
  shows "\<exists>m'. find_matters g links m = Some m' \<and> sweeps g (set links) m m'"
  using assms
proof (induction "(card (unmarked g m), length links)" arbitrary: m links
    rule: wf_induct_rule [OF wf_lex_prod [OF wf_less_than wf_less_than]])
  case 1
  show ?case
  proof (cases links)
    case Nil
    then show ?thesis
      by (simp add: find_matters.simps [of g "[]" m] sweeps_def relabel_refl targets_def)
  next
    case (Cons l ls)
    obtain d where d: "omap_get (m_dep m) l = Some d" using 1(3) Cons by auto
    obtain ob where ob: "m_job m (d_object d) = Some ob"
      using wf_depsD(2) [OF wf_txD(6) [OF 1(2)] d] by auto
    have rest: "\<exists>m'. find_matters g ls m2 = Some m' \<and> sweeps g (set links) m m'"
      if "sweeps g {l} m m2" for m2
    proof -
      have r: "relabel (mark_step g) m m2" using that by (simp add: sweeps_def)
      have "card (unmarked g m2) \<le> card (unmarked g m)"
        unfolding unmarked_relabel [OF r]
        by (rule card_mono [OF finite_unmarked [OF wf_txD(5) [OF 1(2)]]]) auto
      moreover have "wf_tx m2"
        using wf_tx_relabel [OF relabel_mono [OF r mark_step_same_links] 1(2)] .
      ultimately have "\<exists>m'. find_matters g ls m2 = Some m' \<and> sweeps g (set ls) m2 m'"
        using 1(1) [of m2 ls] 1(3) Cons relabelD(8) [OF r] by (auto simp: le_less)
      then obtain m' where m': "find_matters g ls m2 = Some m'" "sweeps g (set ls) m2 m'" by blast
      from sweeps_trans [OF that m'(2)] show ?thesis using m'(1) Cons by simp
    qed
    show ?thesis
    proof (cases "d_matters d \<and> j_generation ob \<noteq> g")
      case False
      then have "find_matters g links m = find_matters g ls m"
        using Cons d ob by (subst find_matters.simps) auto
      moreover have "sweeps g {l} m m"
        using False d ob by (intro sweeps_skip) (auto simp: marked_def)
      ultimately show ?thesis using rest by simp
    next
      case True
      obtain m1 where m1: "upd_job (d_object d) (\<lambda>jb. jb\<lparr>j_matters_to_anchor := True, j_generation := g\<rparr>) m = Some m1"
        "relabel (mark_step g) m m1"
        "m_job m1 = (m_job m)(d_object d \<mapsto> ob\<lparr>j_matters_to_anchor := True, j_generation := g\<rparr>)"
        using upd_job_relabel [OF ob, of "mark_step g"] True by (force simp: mark_step_def)
      have wf1: "wf_tx m1"
        using wf_tx_relabel [OF relabel_mono [OF m1(2) mark_step_same_links] 1(2)] .
      have "d_object d \<in> unmarked g m" "d_object d \<in> marked g m1"
        using True ob m1(3) by (auto simp: unmarked_def marked_def)
      then have "card (unmarked g m1) < card (unmarked g m)"
        unfolding unmarked_relabel [OF m1(2)]
        by (intro psubset_card_mono finite_unmarked [OF wf_txD(5) [OF 1(2)]]) auto
      moreover have "\<forall>l \<in> set (j_subject_list ob). omap_get (m_dep m1) l \<noteq> None"
        using wf_depsD(7) [OF wf_txD(6) [OF 1(2)] ob] relabelD(8) [OF m1(2)] by fastforce
      ultimately have "\<exists>m2. find_matters g (j_subject_list ob) m1 = Some m2 \<and> sweeps g (set (j_subject_list ob)) m1 m2"
        using 1(1) [of m1 "j_subject_list ob"] wf1 by simp
      then obtain m2 where m2: "find_matters g (j_subject_list ob) m1 = Some m2"
        "sweeps g (set (j_subject_list ob)) m1 m2" by blast
      have "targets m (set (j_subject_list ob)) = req_rel m `` {d_object d}"
        unfolding set_subject_list [OF wf_txD(6) [OF 1(2)] ob] by (auto simp: targets_def req_rel_def) blast
      then have "sweeps g {l} m m2"
        using sweeps_visit [OF d _ ob _ m1(2,3) _ m2(2)] True by simp
      then show ?thesis
        using rest Cons d ob True m1(1) m2(1) by (subst find_matters.simps) auto
    qed
  qed
qed

text \<open>The jobs that the anchor reaches over links that matter.\<close>

definition anchor_needs :: "manager \<Rightarrow> jref set" where
  "anchor_needs m = (req_rel m)\<^sup>* `` targets m (set (m_transaction_anchor m))"

lemma find_jobs_that_matter_eq:
  assumes wf: "wf_tx m" and fresh: "\<And>j jb. m_job m j = Some jb \<Longrightarrow> j_generation jb \<noteq> g"
  shows "\<exists>m'. transaction_find_jobs_that_matter_to_anchor None g m = Some m' \<and>
     relabel (mark_step g) m m' \<and> marked g m' = anchor_needs m"
proof -
  have "\<forall>l \<in> set (m_transaction_anchor m). omap_get (m_dep m) l \<noteq> None"
    using wf_depsD(10) [OF wf_txD(6) [OF wf]] by fastforce
  then obtain m' where m': "find_matters g (m_transaction_anchor m) m = Some m'"
      "sweeps g (set (m_transaction_anchor m)) m m'"
    using find_matters_sweeps [OF wf] by blast
  have "marked g m = {}" using fresh by (auto simp: marked_def)
  then have cl: "targets m (set (m_transaction_anchor m)) \<subseteq> marked g m'"
    "req_rel m `` marked g m' \<subseteq> marked g m'" "marked g m' \<subseteq> anchor_needs m"
    using m'(2) by (auto simp: sweeps_def anchor_needs_def)
  have "anchor_needs m \<subseteq> (req_rel m)\<^sup>* `` marked g m'"
    unfolding anchor_needs_def using cl(1) by (rule Image_mono [OF subset_refl])
  also have "\<dots> = marked g m'" using cl(2) by (rule Image_closed_trancl)
  finally have "marked g m' = anchor_needs m" using cl(3) by simp
  then show ?thesis
    using m' by (auto simp: transaction_find_jobs_that_matter_to_anchor_def sweeps_def)
qed

subsection \<open>Pruning loops\<close>

locale pruning =
  fixes select :: "manager \<Rightarrow> jref option option" and dd :: bool
  assumes select_total: "wf_tx m \<Longrightarrow> \<exists>r. select m = Some r"
    and select_tx: "wf_tx m \<Longrightarrow> select m = Some (Some j) \<Longrightarrow> j \<in> tjobs m"
begin

lemma prune_from:
  assumes wf: "wf_tx m" and I: "I K"
    and step: "\<And>K j. I K \<Longrightarrow> select (cut_jobs K m) = Some (Some j) \<Longrightarrow> j \<in> tjobs m - K \<Longrightarrow>
                 I (del_set dd (cut_jobs K m) j \<union> K)"
  shows "\<exists>K'. prune select dd (cut_jobs K m) = Some (cut_jobs K' m) \<and> I K' \<and>
              select (cut_jobs K' m) = Some None"
  using I
proof (induction "card (tjobs m - K)" arbitrary: K rule: less_induct)
  case less
  let ?m = "cut_jobs K m"
  have wf': "wf_tx ?m" using wf_tx_cut [OF wf] .
  obtain r where r: "select ?m = Some r" using select_total [OF wf'] by auto
  show ?case
  proof (cases r)
    case None
    then show ?thesis using r less.prems by (auto simp: prune.simps [of select dd ?m])
  next
    case (Some j)
    let ?K = "del_set dd ?m j \<union> K"
    have j: "j \<in> tjobs m - K" using select_tx [OF wf'] r Some by simp
    have alive: "m_job ?m j \<noteq> None" using tjobs_alive [OF wf_txD(7) [OF wf'], of j] j by simp
    have del: "transaction_delete_job j dd ?m = Some (cut_jobs ?K m)"
      using transaction_delete_job_cut [OF wf_txD(1) [OF wf'] alive] by (simp add: cut_jobs_cut_jobs)
    have "card (tjobs m - ?K) < card (tjobs m - K)"
      using j del_set_self [of j dd ?m] by (intro psubset_card_mono) (simp, blast)
    from less.hyps [OF this step [OF less.prems _ j]] r Some
    show ?thesis using del by (auto simp: prune.simps [of select dd ?m])
  qed
qed

lemma prune_cut:
  assumes wf: "wf_tx m" and I: "I {}"
    and step: "\<And>K j. I K \<Longrightarrow> select (cut_jobs K m) = Some (Some j) \<Longrightarrow> j \<in> tjobs m - K \<Longrightarrow>
                 I (del_set dd (cut_jobs K m) j \<union> K)"
  shows "\<exists>K. prune select dd m = Some (cut_jobs K m) \<and> I K \<and> select (cut_jobs K m) = Some None"
  using prune_from [where I = I, OF wf I step] cut_jobs_empty [OF wf_txD(7) [OF wf]] by simp

lemma prune_ok:
  assumes wf: "wf_tx m"
  shows "\<exists>m'. prune select dd m = Some m' \<and> wf_tx m' \<and> select m' = Some None \<and> shrinks m m'"
  using prune_cut [where I = "\<lambda>_. True", OF wf] wf_tx_cut [OF wf] shrinks_cut by fastforce

end

subsection \<open>The sweeps over the transaction\<close>

lemma find_first_total:
  "(\<And>x. x \<in> set xs \<Longrightarrow> P x \<noteq> None) \<Longrightarrow> \<exists>r. find_first P xs = Some r"
  by (induction xs) (fastforce)+

lemma find_first_Some:
  "find_first P xs = Some (Some x) \<Longrightarrow> x \<in> set xs \<and> P x = Some True"
  by (induction xs) (auto simp: bind_eq_Some_conv split: if_splits)

lemma find_first_None:
  "find_first P xs = Some None \<longleftrightarrow> (\<forall>x \<in> set xs. P x = Some False)"
  by (induction xs) (auto simp: bind_eq_Some_conv split: if_splits)

lemma all_opt_total: "(\<And>x. x \<in> set xs \<Longrightarrow> P x \<noteq> None) \<Longrightarrow> all_opt P xs \<noteq> None"
  by (induction xs) (fastforce)+

lemma any_opt_total: "(\<And>x. x \<in> set xs \<Longrightarrow> P x \<noteq> None) \<Longrightarrow> any_opt P xs \<noteq> None"
  by (induction xs) (fastforce)+

lemma all_opt_True: "all_opt P xs = Some True \<longleftrightarrow> (\<forall>x \<in> set xs. P x = Some True)"
  by (induction xs) (auto simp: bind_eq_Some_conv split: if_splits)

lemma all_opt_False: "all_opt P xs = Some False \<Longrightarrow> \<exists>x \<in> set xs. P x = Some False"
  by (induction xs) (auto simp: bind_eq_Some_conv split: if_splits)

lemma set_tx_all: "set (tx_all m) = tjobs m"
  by (auto simp: tx_all_def tjobs_def)

lemma set_tx_heads: "wf_list m \<Longrightarrow> set (tx_heads m) \<subseteq> tjobs m"
  using wf_listD(2) by (fastforce simp: tx_heads_def tjobs_iff)

lemma unit_job_test_total: "wf_inst m \<Longrightarrow> unit_job_test m u P \<noteq> None"
  unfolding wf_inst_def unit_job_test_def by (fastforce split: option.split)

lemma any_dep_ok:
  assumes "\<And>l. l \<in> set ls \<Longrightarrow> omap_get (m_dep m) l \<noteq> None"
  shows "any_dep m P ls = Some (\<exists>l \<in> set ls. \<exists>d. omap_get (m_dep m) l = Some d \<and> P d)"
  using assms by (induction ls) fastforce+

lemma job_is_anchor_eq:
  assumes "wf_deps m" "m_job m j = Some jb"
  shows "job_is_anchor m j =
     Some (\<exists>l d. omap_get (m_dep m) l = Some d \<and> d_object d = j \<and> d_subject d = None)"
proof -
  have "any_dep m (\<lambda>d. d_subject d = None) (j_object_list jb) =
      Some (\<exists>l \<in> set (j_object_list jb). \<exists>d. omap_get (m_dep m) l = Some d \<and> d_subject d = None)"
    using wf_depsD(8) [OF assms] by (intro any_dep_ok) fastforce
  then show ?thesis
    using assms(2) set_object_list [OF assms] by (auto simp: job_is_anchor_def) blast
qed

lemma job_is_conflicted_by_eq:
  assumes "wf_deps m" "m_job m j = Some jb"
  shows "job_is_conflicted_by m j =
     Some (\<exists>l d. omap_get (m_dep m) l = Some d \<and> d_object d = j \<and> d_conflicts d)"
proof -
  have "any_dep m d_conflicts (j_object_list jb) =
      Some (\<exists>l \<in> set (j_object_list jb). \<exists>d. omap_get (m_dep m) l = Some d \<and> d_conflicts d)"
    using wf_depsD(8) [OF assms] by (intro any_dep_ok) fastforce
  then show ?thesis
    using assms(2) set_object_list [OF assms] by (auto simp: job_is_conflicted_by_def) blast
qed

lemma impact_job_eq:
  assumes "wf_tx m" "m_job m j = Some jb"
  shows "impact_job m j =
     Some (\<not> j_matters_to_anchor jb \<and>
       (j_type jb = JOB_STOP \<and> UNIT_IS_ACTIVE_OR_ACTIVATING (unit_active_state m (j_unit jb)) \<or>
        unit_job_test m (j_unit jb) (\<lambda>ib. job_type_is_conflicting (j_type jb) (j_type ib)) = Some True))"
proof -
  obtain c where "unit_job_test m (j_unit jb) (\<lambda>ib. job_type_is_conflicting (j_type jb) (j_type ib)) = Some c"
    using unit_job_test_total [OF wf_txD(3) [OF assms(1)]] by blast
  then show ?thesis using assms(2) by (simp add: impact_job_def Let_def)
qed

lemma redundant_job_eq:
  assumes "wf_tx m" "m_job m j = Some jb"
  shows "redundant_job m j =
     Some ((\<nexists>l d. omap_get (m_dep m) l = Some d \<and> d_object d = j \<and> d_subject d = None) \<and>
       (j_installed jb \<or> job_type_is_redundant (j_type jb) (unit_active_state m (j_unit jb))) \<and>
       unit_job_test m (j_unit jb) (\<lambda>ib. job_type_is_conflicting (j_type jb) (j_type ib)) = Some False)"
proof -
  obtain c where "unit_job_test m (j_unit jb) (\<lambda>ib. job_type_is_conflicting (j_type jb) (j_type ib)) = Some c"
    using unit_job_test_total [OF wf_txD(3) [OF assms(1)]] by blast
  then show ?thesis
    using assms(2) job_is_anchor_eq [OF wf_txD(6) [OF assms(1)] assms(2)]
    by (simp add: redundant_job_def) blast
qed

lemma impact_job_total: "wf_tx m \<Longrightarrow> m_job m j \<noteq> None \<Longrightarrow> impact_job m j \<noteq> None"
  using impact_job_eq by auto

lemma redundant_job_total: "wf_tx m \<Longrightarrow> m_job m j \<noteq> None \<Longrightarrow> redundant_job m j \<noteq> None"
  using redundant_job_eq by auto

interpretation impact: pruning find_impact True
proof
  fix m assume wf: "wf_tx m"
  show "\<exists>r. find_impact m = Some r"
    unfolding find_impact_def
    by (rule find_first_total) (use wf impact_job_total tjobs_alive wf_txD(7) set_tx_all in blast)
next
  fix m j assume "find_impact m = Some (Some j)"
  then show "j \<in> tjobs m" using find_first_Some set_tx_all by (fastforce simp: find_impact_def)
qed

interpretation garbage: pruning find_garbage True
proof
  fix m assume wf: "wf_tx m"
  show "\<exists>r. find_garbage m = Some r"
    unfolding find_garbage_def
    by (rule find_first_total) (use tjobs_alive [OF wf_txD(7) [OF wf]] set_tx_heads [OF wf_txD(7) [OF wf]] in fastforce)
next
  fix m j assume "wf_tx m" "find_garbage m = Some (Some j)"
  then show "j \<in> tjobs m"
    using find_first_Some set_tx_heads [OF wf_txD(7)] by (fastforce simp: find_garbage_def)
qed

interpretation redundant: pruning find_redundant False
proof
  fix m assume wf: "wf_tx m"
  have "all_opt (redundant_job m) js \<noteq> None" if "(u, js) \<in> set (m_transaction_jobs m)" for u js
    by (rule all_opt_total) (use that wf redundant_job_total tjobs_alive wf_txD(7) tjobs_iff in blast)
  then have "\<exists>r. find_first (\<lambda>(u, js). all_opt (redundant_job m) js) (m_transaction_jobs m) = Some r"
    by (intro find_first_total) auto
  then show "\<exists>r. find_redundant m = Some r" by (auto simp: find_redundant_def)
next
  fix m j assume wf: "wf_tx m" and "find_redundant m = Some (Some j)"
  then obtain u js where "(u, js) \<in> set (m_transaction_jobs m)" "j = hd js"
    by (auto simp: find_redundant_def bind_eq_Some_conv dest: find_first_Some)
  then show "j \<in> tjobs m" using wf_listD(2) [OF wf_txD(7) [OF wf]] hd_in_set by (fastforce simp: tjobs_iff)
qed

subsection \<open>What each loop deletes and keeps\<close>

definition matters_set :: "manager \<Rightarrow> jref set" where
  "matters_set m = {j. \<exists>jb. m_job m j = Some jb \<and> j_matters_to_anchor jb}"

lemma requirers_cut: "requirers (cut_jobs K m) j \<subseteq> requirers m j"
proof -
  have "req_rel (cut_jobs K m) \<subseteq> req_rel m"
    unfolding cut_jobs_def req_rel_eff by (auto simp: req_rel_def)
  then show ?thesis unfolding requirers_def using rtrancl_mono by blast
qed

lemma matters_cut:
  assumes "m_job (cut_jobs K m) j = Some jb"
  shows "j_matters_to_anchor jb \<longleftrightarrow> j \<in> matters_set m"
  using m_job_cutD [OF assms] by (auto simp: matters_set_def)

lemma requirers_matter:
  assumes "req_rel m `` matters_set m \<subseteq> matters_set m" "k \<in> requirers m j" "k \<in> matters_set m"
  shows "j \<in> matters_set m"
proof -
  have "(k, j) \<in> (req_rel m)\<^sup>*" using assms(2) by (simp add: requirers_def)
  then show ?thesis using assms(3)
    by (induction rule: converse_rtrancl_induct) (use assms(1) in auto)
qed

lemma minimize_impact_cut:
  assumes wf: "wf_tx m" and cl: "req_rel m `` matters_set m \<subseteq> matters_set m"
  shows "\<exists>K. transaction_minimize_impact m = Some (cut_jobs K m) \<and> K \<inter> matters_set m = {} \<and>
             find_impact (cut_jobs K m) = Some None"
  unfolding transaction_minimize_impact_def
proof (rule impact.prune_cut [OF wf])
  fix K j assume K: "K \<inter> matters_set m = {}" and sel: "find_impact (cut_jobs K m) = Some (Some j)"
    and j: "j \<in> tjobs m - K"
  have "impact_job (cut_jobs K m) j = Some True"
    using sel find_first_Some by (fastforce simp: find_impact_def)
  then obtain jb where "m_job (cut_jobs K m) j = Some jb" "\<not> j_matters_to_anchor jb"
    by (auto simp: impact_job_def bind_eq_Some_conv split: if_splits)
  then have "j \<notin> matters_set m" using matters_cut by blast
  then have "requirers (cut_jobs K m) j \<inter> matters_set m = {}"
    using requirers_cut [of K m j] requirers_matter [OF cl] by blast
  then show "(del_set True (cut_jobs K m) j \<union> K) \<inter> matters_set m = {}"
    using K by (auto simp: del_set_def)
qed simp

lemma redundant_job_cut:
  assumes wf: "wf_tx m" and j: "j \<in> tjobs m - K"
  shows "redundant_job (cut_jobs K m) j = redundant_job m j"
proof -
  obtain jb where jb: "m_job m j = Some jb" using tjobs_alive [OF wf_txD(7) [OF wf], of j] j by auto
  let ?jb = "drop_deps (inc m K) jb"
  have jb': "m_job (cut_jobs K m) j = Some ?jb" using jb j by (simp add: m_job_cut)
  have "(\<exists>l d. omap_get (m_dep (cut_jobs K m)) l = Some d \<and> d_object d = j \<and> d_subject d = None) \<longleftrightarrow>
        (\<exists>l d. omap_get (m_dep m) l = Some d \<and> d_object d = j \<and> d_subject d = None)"
  proof -
    have "l \<notin> inc m K" if "omap_get (m_dep m) l = Some d" "d_object d = j" "d_subject d = None" for l d
      using that j by (auto simp: inc_def)
    then show ?thesis by (auto split: if_splits)
  qed
  moreover have "unit_job_test (cut_jobs K m) u (\<lambda>ib. P (j_type ib)) = unit_job_test m u (\<lambda>ib. P (j_type ib))" for u P
  proof (cases "u_job (m_unit m u)")
    case (Some i)
    obtain ib where "m_job m i = Some ib" "j_installed ib"
      using wf_txD(3) [OF wf] Some unfolding wf_inst_def by blast
    then show ?thesis using Some by (simp add: unit_job_test_def)
  qed (simp add: unit_job_test_def)
  ultimately show ?thesis
    unfolding redundant_job_eq [OF wf jb] redundant_job_eq [OF wf_tx_cut [OF wf] jb']
    by (simp add: unit_active_state_def)
qed

lemma drop_redundant_cut:
  assumes wf: "wf_tx m"
  shows "\<exists>K. transaction_drop_redundant m = Some (cut_jobs K m) \<and> (\<forall>j \<in> K. redundant_job m j = Some True) \<and>
             find_redundant (cut_jobs K m) = Some None"
  unfolding transaction_drop_redundant_def
proof (rule redundant.prune_cut [OF wf])
  fix K j assume K: "\<forall>j \<in> K. redundant_job m j = Some True"
    and sel: "find_redundant (cut_jobs K m) = Some (Some j)" and j: "j \<in> tjobs m - K"
  obtain u js where js: "(u, js) \<in> set (m_transaction_jobs (cut_jobs K m))" "j = hd js"
      "all_opt (redundant_job (cut_jobs K m)) js = Some True"
    using sel by (auto simp: find_redundant_def bind_eq_Some_conv dest!: find_first_Some)
  have "js \<noteq> []" using wf_listD(2) [OF wf_txD(7) [OF wf_tx_cut [OF wf]] js(1)] .
  then have "redundant_job (cut_jobs K m) j = Some True" using js(2,3) by (simp add: all_opt_True)
  then show "\<forall>j \<in> del_set False (cut_jobs K m) j \<union> K. redundant_job m j = Some True"
    using K redundant_job_cut [OF wf j] by (auto simp: del_set_def)
qed simp

text \<open>Reachable from the anchor over links of any kind.\<close>

definition dep_rel :: "manager \<Rightarrow> (jref \<times> jref) set" where
  "dep_rel m = {(s, t). \<exists>l d. omap_get (m_dep m) l = Some d \<and> d_subject d = Some s \<and> d_object d = t}"

definition anchor_reach :: "manager \<Rightarrow> jref set" where
  "anchor_reach m =
     (dep_rel m)\<^sup>* `` {t. \<exists>l d. omap_get (m_dep m) l = Some d \<and> d_subject d = None \<and> d_object d = t}"

lemma anchor_reach_link:
  assumes "j \<in> anchor_reach m"
  shows "\<exists>l d. omap_get (m_dep m) l = Some d \<and> d_object d = j \<and>
     (\<forall>s. d_subject d = Some s \<longrightarrow> s \<in> anchor_reach m)"
proof -
  obtain r where r: "(r, j) \<in> (dep_rel m)\<^sup>*"
      "\<exists>l d. omap_get (m_dep m) l = Some d \<and> d_subject d = None \<and> d_object d = r"
    using assms by (auto simp: anchor_reach_def)
  show ?thesis
  proof (cases "r = j")
    case False
    then obtain s where s: "(r, s) \<in> (dep_rel m)\<^sup>*" "(s, j) \<in> dep_rel m"
      using r(1) by (metis rtranclE)
    then have "s \<in> anchor_reach m" using r(2) unfolding anchor_reach_def by blast
    then show ?thesis using s(2) by (fastforce simp: dep_rel_def)
  qed (use r(2) in force)
qed

lemma collect_garbage_cut:
  assumes wf: "wf_tx m"
  shows "\<exists>K. transaction_collect_garbage m = Some (cut_jobs K m) \<and> K \<inter> anchor_reach m = {} \<and>
             find_garbage (cut_jobs K m) = Some None"
  unfolding transaction_collect_garbage_def
proof (rule garbage.prune_cut [OF wf])
  fix K j assume K: "K \<inter> anchor_reach m = {}" and sel: "find_garbage (cut_jobs K m) = Some (Some j)"
    and j: "j \<in> tjobs m - K"
  note wfd = wf_txD(6) [OF wf_tx_cut [OF wf]]
  obtain jb where jb: "m_job (cut_jobs K m) j = Some jb" "j_object_list jb = []"
    using sel by (auto simp: find_garbage_def bind_eq_Some_conv dest!: find_first_Some)
  have none: "d_object d \<noteq> j" if "omap_get (m_dep (cut_jobs K m)) l = Some d" for l d
    using set_object_list [OF wfd jb(1)] jb(2) that by auto
  have "(k, j) \<notin> req_rel (cut_jobs K m)" for k using none unfolding req_rel_def by blast
  then have "requirers (cut_jobs K m) j = {j}"
    by (auto simp: requirers_def elim: rtranclE)
  moreover have "j \<notin> anchor_reach m"
  proof
    assume "j \<in> anchor_reach m"
    then obtain l d where l: "omap_get (m_dep m) l = Some d" "d_object d = j"
        "\<forall>s. d_subject d = Some s \<longrightarrow> s \<in> anchor_reach m"
      using anchor_reach_link by blast
    then have "l \<notin> inc m K" using K j by (auto simp: inc_def)
    then show False using none [of l d] l by simp
  qed
  ultimately show "(del_set True (cut_jobs K m) j \<union> K) \<inter> anchor_reach m = {}"
    using K by (auto simp: del_set_def)
qed simp

subsection \<open>The requested job stays\<close>

text \<open>
  A job for the unit \<open>u\<close> that covers the type \<open>t\<close> is in the transaction and hangs on the
  anchor (\<open>anchored\<close>), and matters to it (\<open>served\<close>).
\<close>

definition matters_closed :: "manager \<Rightarrow> bool" where
  "matters_closed m \<longleftrightarrow> req_rel m `` matters_set m \<subseteq> matters_set m"

definition anchor_job :: "manager \<Rightarrow> uid \<Rightarrow> job_type \<Rightarrow> jref \<Rightarrow> bool" where
  "anchor_job m u t j \<longleftrightarrow>
     j \<in> set (tlist m u) \<and>
     (\<exists>jb. m_job m j = Some jb \<and> job_type_is_superset (j_type jb) t) \<and>
     (\<exists>l d. omap_get (m_dep m) l = Some d \<and> d_object d = j \<and> d_subject d = None)"

definition served :: "manager \<Rightarrow> uid \<Rightarrow> job_type \<Rightarrow> bool" where
  "served m u t \<longleftrightarrow> matters_closed m \<and> (\<exists>j \<in> matters_set m. anchor_job m u t j)"

lemma matters_set_cut: "matters_set (cut_jobs K m) = matters_set m - K \<inter> noninst m"
  by (auto simp: matters_set_def m_job_cut split: if_splits)

lemma matters_closed_cut: "matters_closed m \<Longrightarrow> matters_closed (cut_jobs K m)"
proof -
  assume cl: "matters_closed m"
  have "t \<in> matters_set (cut_jobs K m)"
    if e: "(s, t) \<in> req_rel (cut_jobs K m)" and sm: "s \<in> matters_set (cut_jobs K m)" for s t
  proof -
    obtain l d where l: "l \<notin> inc m K" "omap_get (m_dep m) l = Some d" "d_matters d" "d_subject d = Some s" "d_object d = t"
      using e unfolding cut_jobs_def req_rel_eff by blast
    then have "(s, t) \<in> req_rel m" "t \<notin> K" by (auto simp: req_rel_def inc_def)
    then show ?thesis using sm cl unfolding matters_set_cut matters_closed_def by blast
  qed
  then show ?thesis by (auto simp: matters_closed_def)
qed

lemma omap_get_drop_jobs:
  assumes "distinct (omap_keys xs)"
  shows "omap_get (drop_jobs T xs) u =
     (case omap_get xs u of
        None \<Rightarrow> None
      | Some ls \<Rightarrow> if filter (\<lambda>j. j \<notin> T) ls = [] then None else Some (filter (\<lambda>j. j \<notin> T) ls))"
  using assms
proof (induction xs)
  case (Cons p xs)
  obtain v ls where p: "p = (v, ls)" by (cases p)
  have "v \<notin> fst ` set (drop_jobs T xs)"
    using Cons.prems by (force simp: p mem_drop_jobs)
  then have "map_of (drop_jobs T xs) v = None" by (simp add: map_of_eq_None_iff)
  then show ?case
    using Cons by (auto simp: p drop_jobs_Cons omap_get_def split: option.splits if_splits)
qed (simp add: drop_jobs_def omap_get_def)

lemma tlist_cut: "wf_list m \<Longrightarrow> tlist (cut_jobs K m) u = filter (\<lambda>j. j \<notin> K) (tlist m u)"
  by (auto simp: tlist_def cut_jobs_def omap_get_drop_jobs wf_listD(1) split: option.splits)

lemma anchor_job_cut:
  assumes "wf_list m" "anchor_job m u t j" "j \<notin> K"
  shows "anchor_job (cut_jobs K m) u t j"
proof -
  obtain l d where l: "omap_get (m_dep m) l = Some d" "d_object d = j" "d_subject d = None"
    using assms(2) unfolding anchor_job_def by blast
  then have "l \<notin> inc m K" using assms(3) by (auto simp: inc_def)
  then have "\<exists>l d. omap_get (m_dep (cut_jobs K m)) l = Some d \<and> d_object d = j \<and> d_subject d = None"
    using l by auto
  moreover obtain jb where "m_job m j = Some jb" "job_type_is_superset (j_type jb) t"
    using assms(2) unfolding anchor_job_def by blast
  ultimately show ?thesis
    using assms(2,3) unfolding anchor_job_def tlist_cut [OF assms(1)] by (simp add: m_job_cut)
qed

lemma served_cut:
  assumes "wf_list m" "served m u t" "\<And>j. j \<in> matters_set m \<Longrightarrow> anchor_job m u t j \<Longrightarrow> j \<notin> K"
  shows "served (cut_jobs K m) u t"
  using assms anchor_job_cut matters_closed_cut unfolding served_def matters_set_cut by blast

lemma anchor_job_reach: "anchor_job m u t j \<Longrightarrow> j \<in> anchor_reach m"
  unfolding anchor_job_def anchor_reach_def by blast

lemma anchor_job_kept:
  assumes "wf_tx m" "anchor_job m u t j"
  shows "redundant_job m j \<noteq> Some True"
proof -
  obtain jb where "m_job m j = Some jb" using assms(2) unfolding anchor_job_def by blast
  from redundant_job_eq [OF assms(1) this] show ?thesis
    using assms(2) unfolding anchor_job_def by auto
qed

lemma minimize_impact_ok:
  assumes wf: "wf_tx m"
  shows "\<exists>m'. transaction_minimize_impact m = Some m' \<and> wf_tx m' \<and> shrinks m m' \<and>
     (\<forall>u t. served m u t \<longrightarrow> served m' u t)"
proof (cases "matters_closed m")
  case True
  obtain K where K: "transaction_minimize_impact m = Some (cut_jobs K m)" "K \<inter> matters_set m = {}"
    using minimize_impact_cut [OF wf] True unfolding matters_closed_def by blast
  then have "served (cut_jobs K m) u t" if "served m u t" for u t
    by (intro served_cut [OF wf_txD(7) [OF wf] that]) auto
  then show ?thesis using K(1) wf_tx_cut [OF wf] shrinks_cut by blast
next
  case False
  then show ?thesis
    using impact.prune_ok [OF wf] by (auto simp: transaction_minimize_impact_def served_def)
qed

lemma drop_redundant_ok:
  assumes wf: "wf_tx m"
  shows "\<exists>m'. transaction_drop_redundant m = Some m' \<and> wf_tx m' \<and> shrinks m m' \<and>
     (\<forall>u t. served m u t \<longrightarrow> served m' u t) \<and>
     (\<forall>u t j. anchor_job m u t j \<longrightarrow> anchor_job m' u t j) \<and> (\<exists>K. m' = cut_jobs K m)"
proof -
  obtain K where K: "transaction_drop_redundant m = Some (cut_jobs K m)" "\<forall>j \<in> K. redundant_job m j = Some True"
    using drop_redundant_cut [OF wf] by blast
  have kept: "j \<notin> K" if "anchor_job m u t j" for u t j using K(2) anchor_job_kept [OF wf that] by blast
  then have "served (cut_jobs K m) u t" if "served m u t" for u t
    by (intro served_cut [OF wf_txD(7) [OF wf] that]) auto
  moreover have "anchor_job (cut_jobs K m) u t j" if "anchor_job m u t j" for u t j
    using anchor_job_cut [OF wf_txD(7) [OF wf] that kept [OF that]] .
  ultimately show ?thesis using K(1) wf_tx_cut [OF wf] shrinks_cut by blast
qed

lemma collect_garbage_ok:
  assumes wf: "wf_tx m"
  shows "\<exists>m'. transaction_collect_garbage m = Some m' \<and> wf_tx m' \<and> shrinks m m' \<and>
     (\<forall>u t. served m u t \<longrightarrow> served m' u t)"
proof -
  obtain K where K: "transaction_collect_garbage m = Some (cut_jobs K m)" "K \<inter> anchor_reach m = {}"
    using collect_garbage_cut [OF wf] by blast
  then have "served (cut_jobs K m) u t" if "served m u t" for u t
    using anchor_job_reach by (intro served_cut [OF wf_txD(7) [OF wf] that]) blast
  then show ?thesis using K(1) wf_tx_cut [OF wf] shrinks_cut by blast
qed

end
