(* ===== verification/Transaction_Build.thy ===== *)
theory Transaction_Build
  imports Transaction
begin

section \<open>Merging, applying and building a transaction (src/src/manager.c)\<close>

text \<open>
  The second half of the transaction engine: merging the prospective jobs of every unit,
  checking for destructiveness, installing the jobs, and \<open>manager_add_job\<close>, which builds a
  transaction from a request and activates it.
\<close>

subsection \<open>Merging\<close>

definition set_dep :: "(jdep \<Rightarrow> jdep) \<Rightarrow> dref list \<Rightarrow> manager \<Rightarrow> manager" where
  "set_dep f ls m = m\<lparr>m_dep := map (\<lambda>(l, d). (l, if l \<in> set ls then f d else d)) (m_dep m)\<rparr>"

text \<open>The assertions in the loops that patch the links.\<close>

definition owned :: "manager \<Rightarrow> (jdep \<Rightarrow> bool) \<Rightarrow> dref list \<Rightarrow> bool option" where
  "owned m P ls = all_opt (\<lambda>l. do { d \<leftarrow> omap_get (m_dep m) l; Some (P d) }) ls"

definition transaction_merge_and_delete_job ::
    "jref \<Rightarrow> jref \<Rightarrow> job_type \<Rightarrow> manager \<Rightarrow> manager option" where
  "transaction_merge_and_delete_job j other t m =
     do {
       jb \<leftarrow> m_job m j;
       ob \<leftarrow> m_job m other;
       if j_unit jb \<noteq> j_unit ob \<or> j_installed jb then None
       else do {
         s_ok \<leftarrow> owned m (\<lambda>d. d_subject d = Some other) (j_subject_list ob);
         o_ok \<leftarrow> owned m (\<lambda>d. d_object d = other) (j_object_list ob);
         if \<not> s_ok \<or> \<not> o_ok then None
         else do {
           let m1 = set_dep (\<lambda>d. d\<lparr>d_subject := Some j\<rparr>) (j_subject_list ob) m;
               m2 = set_dep (\<lambda>d. d\<lparr>d_object := j\<rparr>) (j_object_list ob) m1 in
           do {
             m3 \<leftarrow> upd_job j (\<lambda>jb. jb\<lparr>
                 j_type := t, j_state := JOB_WAITING,
                 j_override := j_override jb \<or> j_override ob,
                 j_matters_to_anchor := j_matters_to_anchor jb \<or> j_matters_to_anchor ob,
                 j_subject_list := j_subject_list ob @ j_subject_list jb,
                 j_object_list := j_object_list ob @ j_object_list jb\<rparr>) m2;
             m4 \<leftarrow> upd_job other (\<lambda>jb. jb\<lparr>j_subject_list := [], j_object_list := []\<rparr>) m3;
             transaction_delete_job other True m4 } } } }"

fun first_unmergeable_with :: "manager \<Rightarrow> job_type \<Rightarrow> jref list \<Rightarrow> jref option option" where
  "first_unmergeable_with m t [] = Some None"
| "first_unmergeable_with m t (k # ks) =
     do {
       kb \<leftarrow> m_job m k;
       if job_type_is_mergeable t (j_type kb) then first_unmergeable_with m t ks
       else Some (Some k) }"

fun first_unmergeable_pair :: "manager \<Rightarrow> jref list \<Rightarrow> (jref \<times> jref) option option" where
  "first_unmergeable_pair m [] = Some None"
| "first_unmergeable_pair m (j # js) =
     do {
       jb \<leftarrow> m_job m j;
       r \<leftarrow> first_unmergeable_with m (j_type jb) js;
       case r of
         Some k \<Rightarrow> Some (Some (j, k))
       | None \<Rightarrow> first_unmergeable_pair m js }"

text \<open>Which job of an unmergeable pair goes; \<open>None\<close> inside when both matter.\<close>

definition unmergeable_victim :: "manager \<Rightarrow> jref \<Rightarrow> jref \<Rightarrow> jref option option" where
  "unmergeable_victim m j k =
     do {
       jb \<leftarrow> m_job m j;
       kb \<leftarrow> m_job m k;
       if \<not> j_matters_to_anchor jb \<and> \<not> j_matters_to_anchor kb then
         (if j_type jb = JOB_STOP then
            do { c \<leftarrow> job_is_conflicted_by m j; Some (Some (if c then k else j)) }
          else if j_type kb = JOB_STOP then
            do { c \<leftarrow> job_is_conflicted_by m k; Some (Some (if c then j else k)) }
          else Some (Some j))
       else if \<not> j_matters_to_anchor jb then Some (Some j)
       else if \<not> j_matters_to_anchor kb then Some (Some k)
       else Some None }"

definition delete_one_unmergeable_job :: "jref list \<Rightarrow> manager \<Rightarrow> unit st" where
  "delete_one_unmergeable_job chain m =
     do {
       r \<leftarrow> first_unmergeable_pair m chain;
       case r of
         None \<Rightarrow> Some (Inl EINVAL, m)
       | Some (j, k) \<Rightarrow> do {
           v \<leftarrow> unmergeable_victim m j k;
           case v of
             None \<Rightarrow> Some (Inl ENOEXEC, m)
           | Some d \<Rightarrow> do { m' \<leftarrow> transaction_delete_job d True m; Some (Inr (), m') } } }"

fun job_types :: "manager \<Rightarrow> jref list \<Rightarrow> job_type list option" where
  "job_types m [] = Some []"
| "job_types m (j # js) = do { jb \<leftarrow> m_job m j; ts \<leftarrow> job_types m js; Some (j_type jb # ts) }"

definition chain_type :: "manager \<Rightarrow> jref list \<Rightarrow> job_type result option" where
  "chain_type m js = do { ts \<leftarrow> job_types m js; Some (job_type_merge_list (hd ts) (tl ts)) }"

text \<open>The first step of \<open>transaction_merge_jobs\<close>: the check of every unit's chain.\<close>

fun merge_check :: "(uid, jref list) omap \<Rightarrow> manager \<Rightarrow> unit st" where
  "merge_check [] m = Some (Inr (), m)"
| "merge_check ((u, js) # rest) m =
     do {
       t \<leftarrow> chain_type m js;
       case t of
         Inr _ \<Rightarrow> merge_check rest m
       | Inl _ \<Rightarrow> do {
           (r, m') \<leftarrow> delete_one_unmergeable_job js m;
           case r of Inr _ \<Rightarrow> Some (Inl EAGAIN, m') | Inl e \<Rightarrow> Some (Inl e, m') } }"

text \<open>
  The second step for one unit: \<open>while ((k = j->transaction_next))\<close>, where \<open>j\<close> stays the
  head of the chain.
\<close>

partial_function (option) merge_chain :: "job_type \<Rightarrow> uid \<Rightarrow> manager \<Rightarrow> manager option" where
  "merge_chain t u m =
     (case tlist m u of
        j # k # _ \<Rightarrow> do {
          jb \<leftarrow> m_job m j;
          m' \<leftarrow> (if j_installed jb then transaction_merge_and_delete_job k j t m
                 else transaction_merge_and_delete_job j k t m);
          merge_chain t u m' }
      | _ \<Rightarrow> Some m)"

definition merge_unit :: "uid \<Rightarrow> manager \<Rightarrow> manager option" where
  "merge_unit u m =
     do {
       t \<leftarrow> chain_type m (tlist m u);
       case t of
         Inl _ \<Rightarrow> None
       | Inr t0 \<Rightarrow> do {
           t1 \<leftarrow> (case u_job (m_unit m u) of
                    None \<Rightarrow> Some t0
                  | Some i \<Rightarrow> do {
                      ib \<leftarrow> m_job m i;
                      Some (case job_type_merge t0 (j_type ib) of Inr t' \<Rightarrow> t' | Inl _ \<Rightarrow> t0) });
           m1 \<leftarrow> merge_chain t1 u m;
           jb \<leftarrow> m_job m1 (hd (tlist m1 u));
           m2 \<leftarrow> (case u_job (m_unit m1 u) of
                    Some i \<Rightarrow> if j_installed jb then Some m1
                              else transaction_merge_and_delete_job (hd (tlist m1 u)) i t1 m1
                  | None \<Rightarrow> Some m1);
           if tl (tlist m2 u) = [] then Some m2 else None } }"

fun merge_units :: "uid list \<Rightarrow> manager \<Rightarrow> manager option" where
  "merge_units [] m = Some m"
| "merge_units (u # us) m = do { m1 \<leftarrow> merge_unit u m; merge_units us m1 }"

definition transaction_merge_jobs :: "manager \<Rightarrow> unit st" where
  "transaction_merge_jobs m =
     do {
       (r, m1) \<leftarrow> merge_check (m_transaction_jobs m) m;
       case r of
         Inl e \<Rightarrow> Some (Inl e, m1)
       | Inr _ \<Rightarrow> do {
           m2 \<leftarrow> merge_units (omap_keys (m_transaction_jobs m1)) m1;
           Some (Inr (), m2) } }"

subsection \<open>Checking and applying\<close>

definition destroys_job :: "manager \<Rightarrow> jref \<Rightarrow> bool option" where
  "destroys_job m j =
     do {
       jb \<leftarrow> m_job m j;
       case u_job (m_unit m (j_unit jb)) of
         None \<Rightarrow> Some False
       | Some i \<Rightarrow>
           if i = j then Some False
           else do { ib \<leftarrow> m_job m i; Some (\<not> job_type_is_superset (j_type jb) (j_type ib)) } }"

fun destructive_chains :: "manager \<Rightarrow> (uid, jref list) omap \<Rightarrow> unit result option" where
  "destructive_chains m [] = Some (Inr ())"
| "destructive_chains m ((u, js) # rest) =
     (if tl js \<noteq> [] then None
      else do {
        b \<leftarrow> destroys_job m (hd js);
        if b then Some (Inl EEXIST) else destructive_chains m rest })"

definition transaction_is_destructive :: "manager \<Rightarrow> unit result option" where
  "transaction_is_destructive m = destructive_chains m (m_transaction_jobs m)"

text \<open>
  The iterator of \<open>HASHMAP_FOREACH\<close> holds the entry after the one being visited; an iterator
  left on an entry that the body has removed is dangling, which is \<open>None\<close> here.
\<close>

fun omap_next :: "('k, 'v) omap \<Rightarrow> 'k \<Rightarrow> 'k option" where
  "omap_next [] k = None"
| "omap_next ((k', v) # xs) k =
     (if k' = k then (case xs of [] \<Rightarrow> None | (k'', _) # _ \<Rightarrow> Some k'') else omap_next xs k)"

text \<open>
  \<open>fin j\<close> is the call \<open>job_finish_and_invalidate(j, JOB_CANCELED)\<close>; \<open>Job_Engine\<close> defines
  that operation, which itself calls \<open>manager_add_job\<close> for units with \<open>OnFailure=\<close>.
\<close>

partial_function (option) cancel_others ::
    "(jref \<Rightarrow> manager \<Rightarrow> manager option) \<Rightarrow> 32 word option \<Rightarrow> manager \<Rightarrow> manager option" where
  "cancel_others fin it m =
     (case it of
        None \<Rightarrow> Some m
      | Some k \<Rightarrow> do {
          j \<leftarrow> omap_get (m_jobs m) k;
          jb \<leftarrow> m_job m j;
          if \<not> j_installed jb then None
          else do {
            m' \<leftarrow> (if tlist m (j_unit jb) \<noteq> [] then Some m else fin j m);
            cancel_others fin (omap_next (m_jobs m) k) m' } })"

fun put_jobs :: "(uid, jref list) omap \<Rightarrow> manager \<Rightarrow> unit st" where
  "put_jobs [] m = Some (Inr (), m)"
| "put_jobs ((u, js) # rest) m =
     (if tl js \<noteq> [] then None
      else do {
        jb \<leftarrow> m_job m (hd js);
        if j_installed jb then put_jobs rest m
        else case omap_put (j_id jb) (hd js) (m_jobs m) of
               (Inl e, _) \<Rightarrow> Some (Inl e, m)
             | (Inr _, jobs') \<Rightarrow> put_jobs rest (m\<lparr>m_jobs := jobs'\<rparr>) })"

fun unput_jobs :: "(uid, jref list) omap \<Rightarrow> manager \<Rightarrow> manager option" where
  "unput_jobs [] m = Some m"
| "unput_jobs ((u, js) # rest) m =
     do {
       jb \<leftarrow> m_job m (hd js);
       unput_jobs rest (if j_installed jb then m
                        else m\<lparr>m_jobs := omap_remove (j_id jb) (m_jobs m)\<rparr>) }"

definition install_job :: "uid \<Rightarrow> jref \<Rightarrow> manager \<Rightarrow> manager option" where
  "install_job u j m =
     do {
       m1 \<leftarrow> (case u_job (m_unit m u) of Some i \<Rightarrow> job_free i m | None \<Rightarrow> Some m);
       m2 \<leftarrow> upd_job j (\<lambda>jb. jb\<lparr>j_installed := True\<rparr>)
              ((upd_unit u (\<lambda>x. x\<lparr>u_job := Some j\<rparr>) m1)
                 \<lparr>m_n_installed_jobs := m_n_installed_jobs m1 + 1\<rparr>);
       m3 \<leftarrow> job_add_to_run_queue j m2;
       m4 \<leftarrow> job_add_to_dbus_queue j m3;
       job_start_timer j m4 }"

partial_function (option) install_jobs :: "manager \<Rightarrow> manager option" where
  "install_jobs m =
     (case m_transaction_jobs m of
        [] \<Rightarrow> Some m
      | (u, js) # rest \<Rightarrow> do {
          let m1 = m\<lparr>m_transaction_jobs := rest\<rparr> in
          do {
            jb \<leftarrow> m_job m1 (hd js);
            m2 \<leftarrow> (if j_installed jb then Some m1
                   else if tl js \<noteq> [] then None
                   else install_job (j_unit jb) (hd js) m1);
            install_jobs m2 } })"

definition transaction_apply ::
    "(jref \<Rightarrow> manager \<Rightarrow> manager option) \<Rightarrow> job_mode \<Rightarrow> manager \<Rightarrow> unit st" where
  "transaction_apply fin mode m =
     do {
       m1 \<leftarrow> (if mode = JOB_ISOLATE
              then cancel_others fin
                     (case m_jobs m of [] \<Rightarrow> None | (k, _) # _ \<Rightarrow> Some k) m
              else Some m);
       (r, m2) \<leftarrow> put_jobs (m_transaction_jobs m1) m1;
       case r of
         Inl e \<Rightarrow> do { m3 \<leftarrow> unput_jobs (m_transaction_jobs m2) m2; Some (Inl e, m3) }
       | Inr _ \<Rightarrow> do {
           m3 \<leftarrow> install_jobs m2;
           m4 \<leftarrow> transaction_clean_dependencies m3;
           Some (Inr (), m4) } }"

subsection \<open>Activating\<close>

partial_function (option) order_loop :: "job_mode \<Rightarrow> nat \<Rightarrow> manager \<Rightarrow> unit st" where
  "order_loop mode generation m =
     do {
       m1 \<leftarrow> (if mode \<noteq> JOB_ISOLATE then transaction_collect_garbage m else Some m);
       (r, m2) \<leftarrow> transaction_verify_order generation m1;
       case r of
         Inr _ \<Rightarrow> Some (Inr (), m2)
       | Inl e \<Rightarrow> if e = EAGAIN then order_loop mode (generation + 1) m2 else Some (Inl e, m2) }"

partial_function (option) merge_loop :: "job_mode \<Rightarrow> manager \<Rightarrow> unit st" where
  "merge_loop mode m =
     do {
       (r, m1) \<leftarrow> transaction_merge_jobs m;
       case r of
         Inr _ \<Rightarrow> Some (Inr (), m1)
       | Inl e \<Rightarrow>
           if e = EAGAIN then do {
             m2 \<leftarrow> (if mode \<noteq> JOB_ISOLATE then transaction_collect_garbage m1 else Some m1);
             merge_loop mode m2 }
           else Some (Inl e, m1) }"

text \<open>\<open>goto rollback\<close>\<close>

definition abort_with :: "errno \<Rightarrow> manager \<Rightarrow> 'a st" where
  "abort_with e m = do { m' \<leftarrow> transaction_abort m; Some (Inl e, m') }"

definition transaction_activate ::
    "(jref \<Rightarrow> manager \<Rightarrow> manager option) \<Rightarrow> job_mode \<Rightarrow> manager \<Rightarrow> unit st" where
  "transaction_activate fin mode m =
     do {
       m1 \<leftarrow> transaction_find_jobs_that_matter_to_anchor None 1 m;
       m2 \<leftarrow> (if mode = JOB_FAIL then transaction_minimize_impact m1 else Some m1);
       m3 \<leftarrow> transaction_drop_redundant m2;
       (r4, m4) \<leftarrow> order_loop mode 2 m3;
       case r4 of
         Inl e \<Rightarrow> abort_with e m4
       | Inr _ \<Rightarrow> do {
       (r5, m5) \<leftarrow> merge_loop mode m4;
       case r5 of
         Inl e \<Rightarrow> abort_with e m5
       | Inr _ \<Rightarrow> do {
       m6 \<leftarrow> transaction_drop_redundant m5;
       r7 \<leftarrow> (if mode = JOB_FAIL then transaction_is_destructive m6 else Some (Inr ()));
       case r7 of
         Inl e \<Rightarrow> abort_with e m6
       | Inr _ \<Rightarrow> do {
       (r8, m8) \<leftarrow> transaction_apply fin mode m6;
       case r8 of
         Inl e \<Rightarrow> abort_with e m8
       | Inr _ \<Rightarrow>
           if m_transaction_jobs m8 = [] \<and> m_transaction_anchor m8 = []
           then Some (Inr (), m8) else None } } } }"

subsection \<open>Adding jobs\<close>

fun find_type :: "manager \<Rightarrow> uid \<Rightarrow> job_type \<Rightarrow> jref list \<Rightarrow> jref option option" where
  "find_type m u type [] = Some None"
| "find_type m u type (j # js) =
     do {
       jb \<leftarrow> m_job m j;
       if j_unit jb \<noteq> u then None
       else if j_type jb = type then Some (Some j)
       else find_type m u type js }"

text \<open>Returns whether the job is new to the transaction, and the job.\<close>

definition transaction_add_one_job ::
    "job_type \<Rightarrow> uid \<Rightarrow> bool \<Rightarrow> manager \<Rightarrow> (bool \<times> jref \<times> manager) option" where
  "transaction_add_one_job type u override m =
     do {
       r \<leftarrow> find_type m u type (tlist m u);
       case r of
         Some j \<Rightarrow> Some (False, j, m)
       | None \<Rightarrow> do {
           (j, m1) \<leftarrow> (case u_job (m_unit m u) of
                        Some i \<Rightarrow> do {
                          ib \<leftarrow> m_job m i;
                          Some (if j_type ib = type then (i, m) else job_new type u m) }
                      | None \<Rightarrow> Some (job_new type u m));
           m2 \<leftarrow> upd_job j (\<lambda>jb. jb\<lparr>j_generation := 0, j_marker := None,
                                   j_matters_to_anchor := False, j_override := override\<rparr>) m1;
           Some (True, j, m2\<lparr>m_transaction_jobs :=
                               omap_replace u (j # tlist m u) (m_transaction_jobs m2)\<rparr>) } }"

text \<open>
  One pull-in of \<open>transaction_add_job_and_dependencies\<close>: \<open>r_strict\<close> tells whether an error
  other than \<open>-EBADR\<close> fails the caller, or every error is logged and ignored.
\<close>

record pull =
  p_strict :: bool
  p_type :: job_type
  p_unit :: uid
  p_matters :: bool
  p_override :: bool
  p_conflicts :: bool

definition pulls ::
    "manager \<Rightarrow> uid \<Rightarrow> unit_dependency \<Rightarrow> bool \<Rightarrow> job_type \<Rightarrow> bool \<Rightarrow> bool \<Rightarrow> bool \<Rightarrow> pull list" where
  "pulls m u d strict type matters override conflicts =
     map (\<lambda>dep. \<lparr>p_strict = strict, p_type = type, p_unit = dep, p_matters = matters,
                 p_override = override, p_conflicts = conflicts\<rparr>) (u_deps m u d)"

definition following_pulls :: "manager \<Rightarrow> uid \<Rightarrow> job_type \<Rightarrow> bool \<Rightarrow> pull list" where
  "following_pulls m u type override =
     map (\<lambda>dep. \<lparr>p_strict = False, p_type = type, p_unit = dep, p_matters = False,
                 p_override = override, p_conflicts = False\<rparr>) (u_following_set (m_unit m u))"

definition dependency_pulls :: "manager \<Rightarrow> uid \<Rightarrow> job_type \<Rightarrow> bool \<Rightarrow> pull list" where
  "dependency_pulls m u type override =
     (if type = JOB_START \<or> type = JOB_RELOAD_OR_START then
        pulls m u UNIT_REQUIRES True JOB_START True override False @
        pulls m u UNIT_BIND_TO True JOB_START True override False @
        pulls m u UNIT_REQUIRES_OVERRIDABLE False JOB_START (\<not> override) override False @
        pulls m u UNIT_WANTS False JOB_START False False False @
        pulls m u UNIT_REQUISITE True JOB_VERIFY_ACTIVE True override False @
        pulls m u UNIT_REQUISITE_OVERRIDABLE False JOB_VERIFY_ACTIVE (\<not> override) override False @
        pulls m u UNIT_CONFLICTS True JOB_STOP True override True @
        pulls m u UNIT_CONFLICTED_BY False JOB_STOP False override False
      else if type = JOB_STOP \<or> type = JOB_RESTART \<or> type = JOB_TRY_RESTART then
        pulls m u UNIT_REQUIRED_BY True type True override False @
        pulls m u UNIT_BOUND_BY True type True override False
      else [])"

text \<open>
  \<open>Add \<dots>\<close> is a call of \<open>transaction_add_job_and_dependencies\<close>; \<open>Pull \<dots>\<close> is what is left
  of the loops of such a call over the units it pulls in.
\<close>

datatype add_call =
    Add job_type uid "jref option" bool bool bool bool bool
  | Pull jref bool "pull list"

definition add_job_check :: "manager \<Rightarrow> job_type \<Rightarrow> uid \<Rightarrow> errno option" where
  "add_job_check m type u =
     (let ls = u_load_state (m_unit m u) in
      if ls \<noteq> UNIT_LOADED \<and> ls \<noteq> UNIT_ERROR \<and> ls \<noteq> UNIT_MASKED then Some EINVAL
      else if type \<noteq> JOB_STOP \<and> ls = UNIT_ERROR then Some EINVAL
      else if type \<noteq> JOB_STOP \<and> ls = UNIT_MASKED then Some EINVAL
      else if \<not> unit_job_is_applicable m u type then Some EBADR
      else None)"

partial_function (option) add_job_call :: "add_call \<Rightarrow> manager \<Rightarrow> jref st" where
  "add_job_call c m =
     (case c of
        Add type u by_job matters override conflicts ignore_requirements ignore_order \<Rightarrow>
          (case add_job_check m type u of
             Some e \<Rightarrow> Some (Inl e, m)
           | None \<Rightarrow> do {
               (is_new, ret, m1) \<leftarrow> transaction_add_one_job type u override m;
               m2 \<leftarrow> upd_job ret (\<lambda>jb. jb\<lparr>j_ignore_order := j_ignore_order jb \<or> ignore_order\<rparr>) m1;
               m3 \<leftarrow> job_dependency_new by_job ret matters conflicts m2;
               if is_new \<and> \<not> ignore_requirements
               then add_job_call
                      (Pull ret ignore_order
                        (following_pulls m3 u type override @ dependency_pulls m3 u type override)) m3
               else Some (Inr ret, m3) })
      | Pull ret ignore_order ps \<Rightarrow>
          (case ps of
             [] \<Rightarrow> Some (Inr ret, m)
           | p # ps' \<Rightarrow> do {
               (r, m1) \<leftarrow> add_job_call
                  (Add (p_type p) (p_unit p) (Some ret) (p_matters p) (p_override p) (p_conflicts p)
                       False ignore_order) m;
               case r of
                 Inr _ \<Rightarrow> add_job_call (Pull ret ignore_order ps') m1
               | Inl e \<Rightarrow>
                   if p_strict p \<and> e \<noteq> EBADR then Some (Inl e, m1)
                   else add_job_call (Pull ret ignore_order ps') m1 }))"

definition transaction_add_job_and_dependencies ::
    "job_type \<Rightarrow> uid \<Rightarrow> jref option \<Rightarrow> bool \<Rightarrow> bool \<Rightarrow> bool \<Rightarrow> bool \<Rightarrow> bool \<Rightarrow> manager \<Rightarrow> jref st" where
  "transaction_add_job_and_dependencies type u by_job matters override conflicts
       ignore_requirements ignore_order =
     add_job_call (Add type u by_job matters override conflicts ignore_requirements ignore_order)"

fun add_isolate_jobs :: "(string, uid) omap \<Rightarrow> manager \<Rightarrow> manager option" where
  "add_isolate_jobs [] m = Some m"
| "add_isolate_jobs ((k, u) # us) m =
     (if u_id (m_unit m u) \<noteq> k then add_isolate_jobs us m
      else if u_ignore_on_isolate (m_unit m u) then add_isolate_jobs us m
      else if UNIT_IS_INACTIVE_OR_FAILED (unit_active_state m u) \<and> u_job (m_unit m u) = None
           then add_isolate_jobs us m
      else if tlist m u \<noteq> [] then add_isolate_jobs us m
      else do {
        (r, m1) \<leftarrow> transaction_add_job_and_dependencies JOB_STOP u None True False False False False m;
        add_isolate_jobs us m1 })"

definition transaction_add_isolate_jobs :: "manager \<Rightarrow> manager option" where
  "transaction_add_isolate_jobs m = add_isolate_jobs (m_units m) m"

definition manager_add_job ::
    "(jref \<Rightarrow> manager \<Rightarrow> manager option) \<Rightarrow> job_type \<Rightarrow> uid \<Rightarrow> job_mode \<Rightarrow> bool \<Rightarrow> manager \<Rightarrow> jref st" where
  "manager_add_job fin type u mode override m =
     (if mode = JOB_ISOLATE \<and> type \<noteq> JOB_START then Some (Inl EINVAL, m)
      else if mode = JOB_ISOLATE \<and> \<not> u_allow_isolate (m_unit m u) then Some (Inl EPERM, m)
      else do {
        (r, m1) \<leftarrow> transaction_add_job_and_dependencies type u None True override False
             (mode = JOB_IGNORE_DEPENDENCIES \<or> mode = JOB_IGNORE_REQUIREMENTS)
             (mode = JOB_IGNORE_DEPENDENCIES) m;
        case r of
          Inl e \<Rightarrow> abort_with e m1
        | Inr ret \<Rightarrow> do {
            m2 \<leftarrow> (if mode = JOB_ISOLATE then transaction_add_isolate_jobs m1 else Some m1);
            (r3, m3) \<leftarrow> transaction_activate fin mode m2;
            case r3 of Inl e \<Rightarrow> Some (Inl e, m3) | Inr _ \<Rightarrow> Some (Inr ret, m3) } })"

end
