(* ===== verification/Transaction_Order.thy ===== *)
theory Transaction_Order
  imports Transaction_Prune Transaction_Build
begin

section \<open>The search for ordering cycles\<close>

text \<open>
  \<open>transaction_verify_order\<close> is a depth-first search that keeps its path in the markers of the
  jobs.  It always ends without touching a freed job (\<open>transaction_verify_order_ok\<close>).  If no job
  carries the generation of the search beforehand, success means that no ordering cycle is
  reachable from the transaction, \<open>-EAGAIN\<close> that a droppable job of a real cycle was deleted,
  and \<open>-ENOEXEC\<close> that there is a cycle without a droppable job.  Every \<open>-EAGAIN\<close> shrinks the
  transaction, so the loop around the search ends (\<open>order_loop_ok\<close>).
\<close>

lemma relabel_ex:
  assumes "relabel R m m'" "\<And>a b. R a b \<Longrightarrow> P b = P a"
  shows "(\<exists>jb. m_job m' j = Some jb \<and> P jb) \<longleftrightarrow> (\<exists>jb. m_job m j = Some jb \<and> P jb)"
proof -
  have "rel_option R (m_job m j) (m_job m' j)" using assms(1) by (simp add: relabel_def)
  then show ?thesis using assms(2) by (cases "m_job m j"; cases "m_job m' j") auto
qed

definition order_rel :: "manager \<Rightarrow> (jref \<times> jref) set" where
  "order_rel m = {(j, ob). \<exists>jb u. m_job m j = Some jb \<and> u \<in> set (u_deps m (j_unit jb) UNIT_BEFORE) \<and>
                           order_target m u = Some ob}"

text \<open>The relabellings of the search change markers and generations only.\<close>

definition visit_step :: "job \<Rightarrow> job \<Rightarrow> bool" where
  "visit_step a b \<longleftrightarrow> b = a\<lparr>j_marker := j_marker b, j_generation := j_generation b\<rparr>"

lemma visit_step_refl [simp]: "visit_step a a"
  by (simp add: visit_step_def)

lemma visit_step_upd [simp]:
  "visit_step a (a\<lparr>j_marker := mk, j_generation := g\<rparr>)" "visit_step a (a\<lparr>j_marker := mk\<rparr>)"
  by (simp_all add: visit_step_def)

lemma visit_step_trans: "visit_step a b \<Longrightarrow> visit_step b c \<Longrightarrow> visit_step a c"
  by (cases a; cases b; cases c) (simp add: visit_step_def)

lemma visit_step_sel:
  assumes "visit_step a b"
  shows "j_unit b = j_unit a" "j_matters_to_anchor b = j_matters_to_anchor a" "j_installed b = j_installed a"
    "same_links a b" "j_type b = j_type a"
  using assms by (cases a; cases b; simp add: visit_step_def same_links_def)+

lemma visit_step_core: "visit_step a b \<Longrightarrow> same_core a b"
  by (cases a; cases b; simp add: visit_step_def same_core_def same_id_def)

lemma tlist_relabel: "relabel R m m' \<Longrightarrow> tlist m' = tlist m"
  by (simp add: tlist_def relabelD(5) fun_eq_iff)

lemma order_rel_relabel:
  assumes r: "relabel visit_step m m'"
  shows "order_rel m' = order_rel m"
proof -
  have t: "order_target m' = order_target m"
    unfolding order_target_def tlist_relabel [OF r] relabelD(7) [OF r] ..
  have "(\<exists>jb. m_job m' j = Some jb \<and> (\<exists>u. u \<in> set (u_deps m (j_unit jb) UNIT_BEFORE) \<and> order_target m u = Some ob)) \<longleftrightarrow>
        (\<exists>jb. m_job m j = Some jb \<and> (\<exists>u. u \<in> set (u_deps m (j_unit jb) UNIT_BEFORE) \<and> order_target m u = Some ob))" for j ob
    by (rule relabel_ex [OF r]) (simp add: visit_step_sel(1))
  then show ?thesis
    unfolding order_rel_def t relabelD(7) [OF r] by simp
qed

lemma no_prev_relabel: "relabel R m m' \<Longrightarrow> no_prev m' = no_prev m"
  by (simp add: no_prev_def tlist_relabel fun_eq_iff)

lemma tlist_mem: "wf_list m \<Longrightarrow> (u, ls) \<in> set (m_transaction_jobs m) \<Longrightarrow> tlist m u = ls"
  by (simp add: tlist_def omap_get_mem [OF wf_listD(1), THEN iffD2])

lemma order_target_ok:
  assumes wf: "wf_tx m" and t: "order_target m u = Some j"
  shows "\<exists>jb. m_job m j = Some jb \<and> j_unit jb = u \<and> no_prev m u j"
proof (cases "tlist m u")
  case Nil
  then have "u_job (m_unit m u) = Some j" using t by (simp add: order_target_def)
  then show ?thesis using wf_txD(3) [OF wf] Nil unfolding wf_inst_def no_prev_def by fastforce
next
  case (Cons k ks)
  then have "k = j" using t by (simp add: order_target_def)
  then show ?thesis
    using wf_list_tlist [OF wf_txD(7) [OF wf]] Cons by (auto simp: no_prev_def)
      (metis distinct.simps(2) list.set_intros(1))
qed

lemma head_ok:
  assumes wf: "wf_tx m" and j: "j \<in> set (tx_heads m)"
  shows "\<exists>jb. m_job m j = Some jb \<and> no_prev m (j_unit jb) j"
proof -
  obtain u ls where ls: "(u, ls) \<in> set (m_transaction_jobs m)" "j = hd ls"
    using j by (auto simp: tx_heads_def)
  note wfl = wf_txD(7) [OF wf]
  have ne: "ls \<noteq> []" "distinct ls" using wf_listD(2,3) [OF wfl ls(1)] by auto
  obtain jb where jb: "m_job m j = Some jb" "j_unit jb = u"
    using wf_listD(4) [OF wfl ls(1), of j] ls(2) ne by auto
  have "tlist m u = ls" using tlist_mem [OF wfl ls(1)] .
  then show ?thesis using jb ne ls(2) by (cases ls) (auto simp: no_prev_def)
qed

lemma unit_matters_total:
  assumes wf: "wf_tx m" and k: "m_job m k = Some kb" "no_prev m u k"
  shows "unit_matters_to_anchor m u k \<noteq> None"
proof -
  have "m_job m x \<noteq> None" if "x \<in> set (tx_chain m u k)" for x
  proof (cases "k \<in> set (tlist m u)")
    case True
    then have "x \<in> set (tlist m u)" using that set_dropWhileD by (fastforce simp: tx_chain_def)
    then show ?thesis using wf_list_tlist(2) [OF wf_txD(7) [OF wf]] by fastforce
  qed (use that k in \<open>simp add: tx_chain_def\<close>)
  then have "any_opt (\<lambda>k. do { kb \<leftarrow> m_job m k; Some (j_matters_to_anchor kb) }) (tx_chain m u k) \<noteq> None"
    by (intro any_opt_total) fastforce
  then show ?thesis using k(2) by (simp add: unit_matters_to_anchor_def)
qed

lemma transaction_delete_unit_cut:
  assumes "wf_tx m"
  shows "\<exists>K. transaction_delete_unit u m = Some (cut_jobs K m) \<and> set (tlist m u) \<subseteq> K \<and>
     K \<subseteq> (\<Union>j \<in> set (tlist m u). requirers m j)"
  using assms
proof (induction "card (tjobs m)" arbitrary: m rule: less_induct)
  case less
  note wfl = wf_txD(7) [OF less.prems]
  show ?case
  proof (cases "tlist m u")
    case Nil
    then have "transaction_delete_unit u m = Some (cut_jobs {} m)"
      using wfl by (simp add: transaction_delete_unit.simps)
    then show ?thesis using Nil by auto
  next
    case (Cons j js)
    let ?K = "del_set True m j"
    have j: "j \<in> tjobs m" using Cons tlist_tjobs by (metis list.set_intros(1))
    have del: "transaction_delete_job j True m = Some (cut_jobs ?K m)"
      using transaction_delete_job_cut [OF wf_txD(1) [OF less.prems] tjobs_alive [OF wfl j]] .
    have "card (tjobs (cut_jobs ?K m)) < card (tjobs m)"
      using j del_set_self [of j True m] by (intro psubset_card_mono) (simp, unfold tjobs_cut, blast)
    from less.hyps [OF this wf_tx_cut [OF less.prems]] obtain K where
      K: "transaction_delete_unit u (cut_jobs ?K m) = Some (cut_jobs (K \<union> ?K) m)"
        "set (tlist (cut_jobs ?K m) u) \<subseteq> K"
        "K \<subseteq> (\<Union>j \<in> set (tlist (cut_jobs ?K m) u). requirers (cut_jobs ?K m) j)"
      by (auto simp: cut_jobs_cut_jobs)
    have tl: "set (tlist m u) - ?K \<subseteq> set (tlist (cut_jobs ?K m) u)"
    proof
      fix x assume x: "x \<in> set (tlist m u) - ?K"
      then obtain xb where xb: "m_job m x = Some xb" "j_unit xb = u"
        using wf_list_tlist(2) [OF wfl] by blast
      have "x \<in> tjobs (cut_jobs ?K m)" using x tlist_tjobs by auto
      then obtain u' ls where ls: "(u', ls) \<in> set (m_transaction_jobs (cut_jobs ?K m))" "x \<in> set ls"
        unfolding tjobs_iff by blast
      note wfl' = wf_txD(7) [OF wf_tx_cut [OF less.prems, of ?K]]
      have "u' = u" using wf_listD(4) [OF wfl' ls] xb x by (auto simp: m_job_cut)
      then show "x \<in> set (tlist (cut_jobs ?K m) u)"
        using ls tlist_mem [OF wfl' ls(1)] by simp
    qed
    then have "transaction_delete_unit u m = Some (cut_jobs (K \<union> ?K) m)" "set (tlist m u) \<subseteq> K \<union> ?K"
      using K(1,2) Cons del by (auto simp: transaction_delete_unit.simps [of u m])
    moreover have "K \<union> ?K \<subseteq> (\<Union>j \<in> set (tlist m u). requirers m j)"
      using K(3) requirers_cut [of ?K m] Cons unfolding tlist_cut [OF wfl] del_set_def by fastforce
    ultimately show ?thesis by blast
  qed
qed

definition on_path :: "nat \<Rightarrow> manager \<Rightarrow> jref set" where
  "on_path g m = {j. \<exists>jb. m_job m j = Some jb \<and> j_generation jb = g \<and> j_marker jb \<noteq> None}"

definition loop_free :: "nat \<Rightarrow> manager \<Rightarrow> jref set" where
  "loop_free g m = {j. \<exists>jb. m_job m j = Some jb \<and> j_generation jb = g \<and> j_marker jb = None}"

fun path_chain :: "nat \<Rightarrow> manager \<Rightarrow> jref list \<Rightarrow> bool" where
  "path_chain g m [] \<longleftrightarrow> True"
| "path_chain g m (x # P) \<longleftrightarrow>
     (\<exists>xb. m_job m x = Some xb \<and> j_generation xb = g \<and> no_prev m (j_unit xb) x \<and>
           j_marker xb = Some (case P of [] \<Rightarrow> x | y # _ \<Rightarrow> y)) \<and>
     (case P of [] \<Rightarrow> True | y # _ \<Rightarrow> (y, x) \<in> order_rel m) \<and>
     path_chain g m P"

text \<open>
  \<open>S\<close> holds the jobs that carry the generation of the search from before it: none, unless an
  installed job still has the generation of an earlier transaction.
\<close>

definition search_inv :: "nat \<Rightarrow> jref set \<Rightarrow> jref list \<Rightarrow> manager \<Rightarrow> bool" where
  "search_inv g S P m \<longleftrightarrow>
     wf_tx m \<and> distinct P \<and> path_chain g m P \<and> set P \<inter> S = {} \<and> on_path g m \<subseteq> set P \<union> S \<and>
     S \<subseteq> marked g m \<and>
     (S = {} \<longrightarrow> order_rel m `` loop_free g m \<subseteq> loop_free g m \<and>
                 (\<forall>d \<in> loop_free g m. (d, d) \<notin> (order_rel m)\<^sup>+))"

definition order_cycle :: "manager \<Rightarrow> jref list \<Rightarrow> bool" where
  "order_cycle m c \<longleftrightarrow>
     c \<noteq> [] \<and> successively (\<lambda>a b. (a, b) \<in> order_rel m) c \<and> (last c, hd c) \<in> order_rel m"

definition droppable :: "manager \<Rightarrow> jref \<Rightarrow> bool" where
  "droppable m k \<longleftrightarrow>
     (\<exists>kb. m_job m k = Some kb \<and> \<not> j_installed kb \<and> unit_matters_to_anchor m (j_unit kb) k = Some False)"

definition breaks :: "jref set \<Rightarrow> manager \<Rightarrow> errno \<Rightarrow> manager \<Rightarrow> bool" where
  "breaks S m e m' \<longleftrightarrow>
     e = EAGAIN \<and> (\<exists>m1 K k. relabel visit_step m m1 \<and> m' = cut_jobs K m1 \<and> k \<in> K \<and> droppable m k \<and>
                     (matters_closed m \<longrightarrow> K \<inter> matters_set m = {}) \<and>
                     (S = {} \<longrightarrow> (\<exists>c. order_cycle m c \<and> k \<in> set c))) \<or>
     e = ENOEXEC \<and> relabel visit_step m m' \<and>
                     (S = {} \<longrightarrow> (\<exists>c. order_cycle m c \<and> (\<forall>k \<in> set c. \<not> droppable m k)))"

abbreviation upto :: "jref \<Rightarrow> jref list \<Rightarrow> jref list" where
  "upto j P \<equiv> takeWhile (\<lambda>k. k \<noteq> j) P @ [j]"

lemma unit_matters_relabel:
  assumes r: "relabel visit_step m m'"
  shows "unit_matters_to_anchor m' = unit_matters_to_anchor m"
proof -
  have "do { kb \<leftarrow> m_job m' k; Some (j_matters_to_anchor kb) } = do { kb \<leftarrow> m_job m k; Some (j_matters_to_anchor kb) }" for k
  proof -
    have "rel_option visit_step (m_job m k) (m_job m' k)" using r by (simp add: relabel_def)
    then show ?thesis by (cases "m_job m k"; cases "m_job m' k") (auto simp: visit_step_sel)
  qed
  then show ?thesis
    by (simp add: unit_matters_to_anchor_def tx_chain_def no_prev_relabel [OF r] tlist_relabel [OF r] fun_eq_iff)
qed

lemma droppable_relabel:
  assumes r: "relabel visit_step m m'"
  shows "droppable m' k \<longleftrightarrow> droppable m k"
  unfolding droppable_def unit_matters_relabel [OF r]
  by (rule relabel_ex [OF r]) (simp add: visit_step_sel)

lemma matters_visit:
  assumes r: "relabel visit_step m m'"
  shows "matters_set m' = matters_set m" "matters_closed m' = matters_closed m"
proof -
  show ms: "matters_set m' = matters_set m"
    unfolding matters_set_def using relabel_ex [OF r, of j_matters_to_anchor] visit_step_sel(2) by blast
  show "matters_closed m' = matters_closed m"
    by (simp add: matters_closed_def ms relabel_sets(1) [OF r])
qed

lemma served_visit:
  assumes r: "relabel visit_step m m'" and s: "served m u t"
  shows "served m' u t"
proof -
  have "(\<exists>jb. m_job m' j = Some jb \<and> job_type_is_superset (j_type jb) t) \<longleftrightarrow>
        (\<exists>jb. m_job m j = Some jb \<and> job_type_is_superset (j_type jb) t)" for j
    by (rule relabel_ex [OF r]) (simp add: visit_step_sel(5))
  then have "anchor_job m' u t j \<longleftrightarrow> anchor_job m u t j" for j
    by (simp add: anchor_job_def tlist_relabel [OF r] relabelD(8) [OF r])
  then show ?thesis using s by (simp add: served_def matters_visit [OF r])
qed

lemma breaks_relabel:
  assumes r: "relabel visit_step m m1" and b: "breaks S m1 e m'"
  shows "breaks S m e m'"
proof -
  have cyc: "order_cycle m1 c = order_cycle m c" for c
    by (simp add: order_cycle_def order_rel_relabel [OF r])
  have tr: "relabel visit_step m m2" if "relabel visit_step m1 m2" for m2
    using relabel_trans [OF r that] visit_step_trans by blast
  from b consider
      (again) m2 K k where "e = EAGAIN" "relabel visit_step m1 m2" "m' = cut_jobs K m2" "k \<in> K" "droppable m k"
        "matters_closed m \<longrightarrow> K \<inter> matters_set m = {}"
        "S = {} \<longrightarrow> (\<exists>c. order_cycle m c \<and> k \<in> set c)"
    | (fail) "e = ENOEXEC" "relabel visit_step m1 m'"
        "S = {} \<longrightarrow> (\<exists>c. order_cycle m c \<and> (\<forall>k \<in> set c. \<not> droppable m k))"
    unfolding breaks_def cyc droppable_relabel [OF r] matters_visit [OF r] by blast
  then show ?thesis
  proof cases
    case again
    then show ?thesis using tr [OF again(2)] unfolding breaks_def by blast
  next
    case fail
    then show ?thesis using tr [OF fail(2)] unfolding breaks_def by blast
  qed
qed

lemma path_chain_cong:
  assumes "path_chain g m P" "\<And>x. x \<in> set P \<Longrightarrow> m_job m' x = m_job m x"
    and "no_prev m' = no_prev m" "order_rel m' = order_rel m"
  shows "path_chain g m' P"
  using assms(1,2) by (induction P) (auto simp: assms(3,4) split: list.splits)

lemma path_chain_succ:
  "path_chain g m P \<Longrightarrow> successively (\<lambda>x y. (y, x) \<in> order_rel m) P"
  by (induction P rule: induct_list012) auto

lemma path_cycle:
  assumes P: "path_chain g m P" "j \<in> set P" and e: "(hd P, j) \<in> order_rel m"
  shows "order_cycle m (rev (upto j P))"
proof -
  obtain ys zs where P': "P = ys @ j # zs" "j \<notin> set ys" using P(2) by (meson split_list_first)
  then have up: "upto j P = ys @ [j]" by (auto simp: takeWhile_tail)
  have "successively (\<lambda>x y. (y, x) \<in> order_rel m) (ys @ [j])"
    using path_chain_succ [OF P(1)] P' by (simp add: successively_append_iff)
  moreover have "last (rev (ys @ [j])) = hd P" using P' by (cases ys) auto
  ultimately show ?thesis
    unfolding order_cycle_def up successively_rev using e by simp
qed

lemma walk_cycle_path:
  assumes "wf_tx m" "path_chain g m P" "distinct P"
  shows "\<exists>r. walk_cycle g j (if P = [] then None else Some (hd P)) del m = Some r \<and>
     (case del of
        Some d \<Rightarrow> r = Some d
      | None \<Rightarrow> (case r of Some k \<Rightarrow> k \<in> set P \<and> (j \<in> set P \<longrightarrow> k \<in> set (upto j P)) \<and> droppable m k
                         | None \<Rightarrow> j \<in> set P \<longrightarrow> (\<forall>k \<in> set (upto j P). \<not> droppable m k)))"
  using assms(2-)
proof (induction P arbitrary: del)
  case Nil
  then show ?case by (auto simp: walk_cycle.simps split: option.splits)
next
  case (Cons x P)
  obtain xb where x: "m_job m x = Some xb" "j_generation xb = g" "no_prev m (j_unit xb) x"
      "j_marker xb = Some (case P of [] \<Rightarrow> x | y # _ \<Rightarrow> y)"
    using Cons.prems(1) by auto
  obtain b where b: "unit_matters_to_anchor m (j_unit xb) x = Some b"
    using unit_matters_total [OF assms(1) x(1,3)] by blast
  define del' where "del' = (if del \<noteq> None \<or> j_installed xb \<or> b then del else Some x)"
  have dr: "droppable m x \<longleftrightarrow> \<not> j_installed xb \<and> \<not> b" using x b by (simp add: droppable_def)
  have next_job: "(if j_marker xb \<noteq> Some x then j_marker xb else None) = (if P = [] then None else Some (hd P))"
    using x(4) Cons.prems(2) by (cases P) auto
  have walk: "walk_cycle g j (Some x) del m =
      (if x = j then Some del' else walk_cycle g j (if P = [] then None else Some (hd P)) del' m)"
    unfolding next_job [symmetric] using x b by (subst walk_cycle.simps) (auto simp: del'_def)
  show ?case
  proof (cases "x = j")
    case True
    then show ?thesis using walk dr by (auto simp: del'_def split: option.splits)
  next
    case False
    obtain r where r: "walk_cycle g j (if P = [] then None else Some (hd P)) del' m = Some r"
      "case del' of
        Some d \<Rightarrow> r = Some d
      | None \<Rightarrow> (case r of Some k \<Rightarrow> k \<in> set P \<and> (j \<in> set P \<longrightarrow> k \<in> set (upto j P)) \<and> droppable m k
                         | None \<Rightarrow> j \<in> set P \<longrightarrow> (\<forall>k \<in> set (upto j P). \<not> droppable m k))"
      using Cons.IH [of del'] Cons.prems by auto
    show ?thesis
      using walk False dr r by (auto simp: del'_def split: option.splits if_splits)
  qed
qed

text \<open>What a call of the search guarantees.\<close>

definition visit_ok :: "nat \<Rightarrow> jref set \<Rightarrow> jref list \<Rightarrow> jref \<Rightarrow> manager \<Rightarrow> unit result \<times> manager \<Rightarrow> bool" where
  "visit_ok g S P j m rm \<longleftrightarrow>
     (case rm of
        (Inl e, m') \<Rightarrow> breaks S m e m'
      | (Inr _, m') \<Rightarrow> relabel visit_step m m' \<and> search_inv g S P m' \<and>
                       marked g m \<subseteq> marked g m' \<and> loop_free g m \<subseteq> loop_free g m' \<and> j \<in> loop_free g m')"

definition before_ok :: "nat \<Rightarrow> jref set \<Rightarrow> jref list \<Rightarrow> uid list \<Rightarrow> manager \<Rightarrow> unit result \<times> manager \<Rightarrow> bool" where
  "before_ok g S P us m rm \<longleftrightarrow>
     (case rm of
        (Inl e, m') \<Rightarrow> breaks S m e m'
      | (Inr _, m') \<Rightarrow> relabel visit_step m m' \<and> search_inv g S P m' \<and>
                       marked g m \<subseteq> marked g m' \<and> loop_free g m \<subseteq> loop_free g m' \<and>
                       (\<forall>u \<in> set us. \<forall>ob. order_target m u = Some ob \<longrightarrow> ob \<in> loop_free g m'))"

lemma order_target_relabel: "relabel R m m' \<Longrightarrow> order_target m' = order_target m"
  by (simp add: order_target_def tlist_relabel relabelD(7) fun_eq_iff split: list.split)

lemma wf_tx_visit: "relabel visit_step m m' \<Longrightarrow> wf_tx m \<Longrightarrow> wf_tx m'"
  using wf_tx_relabel [OF relabel_mono [OF _ visit_step_sel(4)]] by blast

lemma search_invD:
  assumes "search_inv g S P m"
  shows "wf_tx m" "distinct P" "path_chain g m P" "set P \<inter> S = {}" "on_path g m \<subseteq> set P \<union> S" "S \<subseteq> marked g m"
    "S = {} \<Longrightarrow> order_rel m `` loop_free g m \<subseteq> loop_free g m"
    "S = {} \<Longrightarrow> d \<in> loop_free g m \<Longrightarrow> (d, d) \<notin> (order_rel m)\<^sup>+"
  using assms by (auto simp: search_inv_def)

lemma path_on_path:
  assumes "path_chain g m P"
  shows "set P \<subseteq> on_path g m"
  using assms by (induction P) (auto simp: on_path_def)

text \<open>A job on the path is met again: the cycle is broken, or cannot be.\<close>

lemma any_opt_False: "any_opt P xs = Some False \<Longrightarrow> \<forall>x \<in> set xs. P x = Some False"
  by (induction xs) (auto simp: bind_eq_Some_conv split: if_splits)

lemma unit_unmattered:
  assumes um: "unit_matters_to_anchor m u k = Some False" and k: "k \<in> set (tlist m u)" and j: "j \<in> set (tlist m u)"
  shows "j \<notin> matters_set m"
proof -
  have np: "no_prev m u k" using um by (auto simp: unit_matters_to_anchor_def split: if_splits)
  then obtain ks where "tlist m u = k # ks" using k by (cases "tlist m u") (auto simp: no_prev_def)
  then have "tx_chain m u k = tlist m u" by (simp add: tx_chain_def)
  then have "do { jb \<leftarrow> m_job m j; Some (j_matters_to_anchor jb) } = Some False"
    using um np j any_opt_False by (fastforce simp: unit_matters_to_anchor_def)
  then show ?thesis by (auto simp: matters_set_def)
qed

lemma delete_droppable:
  assumes wf: "wf_tx m" and k: "droppable m k"
  shows "\<exists>kb K. m_job m k = Some kb \<and> transaction_delete_unit (j_unit kb) m = Some (cut_jobs K m) \<and> k \<in> K \<and>
     (matters_closed m \<longrightarrow> K \<inter> matters_set m = {})"
proof -
  obtain kb where kb: "m_job m k = Some kb" "\<not> j_installed kb"
      "unit_matters_to_anchor m (j_unit kb) k = Some False" using k by (auto simp: droppable_def)
  obtain K where K: "transaction_delete_unit (j_unit kb) m = Some (cut_jobs K m)"
      "set (tlist m (j_unit kb)) \<subseteq> K" "K \<subseteq> (\<Union>j \<in> set (tlist m (j_unit kb)). requirers m j)"
    using transaction_delete_unit_cut [OF wf] by blast
  have "k \<in> tjobs m" using kb wf_txD(2) [OF wf] by (auto simp: wf_scope_def noninst_def)
  then obtain u ls where ls: "(u, ls) \<in> set (m_transaction_jobs m)" "k \<in> set ls"
    unfolding tjobs_iff by blast
  then have "j_unit kb = u" using wf_listD(4) [OF wf_txD(7) [OF wf] ls] kb(1) by simp
  then have tl: "k \<in> set (tlist m (j_unit kb))" using tlist_mem [OF wf_txD(7) [OF wf] ls(1)] ls(2) by simp
  have "K \<inter> matters_set m = {}" if cl: "matters_closed m"
  proof -
    have "j \<notin> matters_set m" if "j \<in> set (tlist m (j_unit kb))" for j
      using unit_unmattered [OF kb(3) tl that] .
    then show ?thesis using K(3) requirers_matter [OF cl [unfolded matters_closed_def]] by blast
  qed
  then show ?thesis using kb(1) K(1,2) tl by blast
qed

lemma visit_cycle:
  assumes inv: "search_inv g S P m" and j: "m_job m j = Some jb" "no_prev m (j_unit jb) j"
    and seen: "j_generation jb = g" "j_marker jb \<noteq> None"
    and edge: "P \<noteq> [] \<Longrightarrow> (hd P, j) \<in> order_rel m"
  shows "\<exists>rm. verify_order_call g (Visit j (if P = [] then None else Some (hd P))) m = Some rm \<and>
              visit_ok g S P j m rm"
proof -
  note I = search_invD [OF inv]
  let ?fr = "if P = [] then None else Some (hd P)"
  have jP: "j \<in> set P" if "S = {}" using j(1) seen I(5) that by (auto simp: on_path_def)
  obtain r where r: "walk_cycle g j ?fr None m = Some r"
      "case r of Some k \<Rightarrow> k \<in> set P \<and> (j \<in> set P \<longrightarrow> k \<in> set (upto j P)) \<and> droppable m k
       | None \<Rightarrow> j \<in> set P \<longrightarrow> (\<forall>k \<in> set (upto j P). \<not> droppable m k)"
    using walk_cycle_path [OF I(1,3,2), of j None] by auto
  have cyc: "order_cycle m (rev (upto j P))" if "S = {}"
    using path_cycle [OF I(3) jP [OF that] edge] jP [OF that] by fastforce
  have refl: "relabel visit_step m m" by (simp add: relabel_refl)
  show ?thesis
  proof (cases r)
    case None
    then have "\<forall>k \<in> set (rev (upto j P)). \<not> droppable m k" if "S = {}"
      using r(2) jP [OF that] by simp
    then have "breaks S m ENOEXEC m"
      using cyc refl unfolding breaks_def by blast
    moreover have "verify_order_call g (Visit j ?fr) m = Some (Inl ENOEXEC, m)"
      using j seen r(1) None by (subst verify_order_call.simps) simp
    ultimately show ?thesis by (auto simp: visit_ok_def)
  next
    case (Some k)
    then have k: "j \<in> set P \<longrightarrow> k \<in> set (upto j P)" "droppable m k" using r(2) by auto
    obtain kb K where K: "m_job m k = Some kb" "transaction_delete_unit (j_unit kb) m = Some (cut_jobs K m)" "k \<in> K"
        "matters_closed m \<longrightarrow> K \<inter> matters_set m = {}"
      using delete_droppable [OF I(1) k(2)] by blast
    have "k \<in> set (rev (upto j P))" if "S = {}" using k(1) jP [OF that] by simp
    then have "breaks S m EAGAIN (cut_jobs K m)"
      using k(2) K(3,4) refl cyc unfolding breaks_def by blast
    moreover have "verify_order_call g (Visit j ?fr) m = Some (Inl EAGAIN, cut_jobs K m)"
      using j seen r(1) Some K by (subst verify_order_call.simps) simp
    ultimately show ?thesis by (auto simp: visit_ok_def)
  qed
qed

text \<open>A job is met for the first time: it goes on the path.\<close>

lemma search_inv_push:
  assumes inv: "search_inv g S P m" and j: "m_job m j = Some jb" "no_prev m (j_unit jb) j"
    and new: "j_generation jb \<noteq> g" and edge: "P \<noteq> [] \<Longrightarrow> (hd P, j) \<in> order_rel m"
    and m1: "relabel visit_step m m1"
      "m_job m1 = (m_job m)(j \<mapsto> jb\<lparr>j_marker := Some (if P = [] then j else hd P), j_generation := g\<rparr>)"
  shows "search_inv g S (j # P) m1" "loop_free g m1 = loop_free g m" "marked g m1 = insert j (marked g m)"
proof -
  note I = search_invD [OF inv]
  have jP: "j \<notin> set P" using path_on_path [OF I(3)] j(1) new by (auto simp: on_path_def)
  have jS: "j \<notin> S" using I(6) j(1) new by (auto simp: marked_def)
  show lf: "loop_free g m1 = loop_free g m" using m1(2) j(1) new by (auto simp: loop_free_def)
  show mk: "marked g m1 = insert j (marked g m)" using m1(2) j(1) new by (auto simp: marked_def)
  have on: "on_path g m1 = insert j (on_path g m)" using m1(2) j(1) new by (auto simp: on_path_def)
  have "path_chain g m1 P"
    by (rule path_chain_cong [OF I(3)])
      (use jP m1(2) no_prev_relabel [OF m1(1)] order_rel_relabel [OF m1(1)] in auto)
  then have "path_chain g m1 (j # P)"
    using j m1(2) edge no_prev_relabel [OF m1(1)] order_rel_relabel [OF m1(1)]
    by (cases P) auto
  then show "search_inv g S (j # P) m1"
    using I jP jS on lf mk wf_tx_visit [OF m1(1) I(1)]
    unfolding search_inv_def order_rel_relabel [OF m1(1)] by auto
qed

text \<open>All successors are loop-free: the job leaves the path.\<close>

lemma search_inv_pop:
  assumes inv: "search_inv g S (j # P) m" and j: "m_job m j = Some jb"
    and succ: "S = {} \<Longrightarrow> order_rel m `` {j} \<subseteq> loop_free g m"
    and m1: "relabel visit_step m m1" "m_job m1 = (m_job m)(j \<mapsto> jb\<lparr>j_marker := None\<rparr>)"
  shows "search_inv g S P m1" "loop_free g m1 = insert j (loop_free g m)" "marked g m1 = marked g m"
proof -
  note I = search_invD [OF inv]
  have jb: "j_generation jb = g" "j_marker jb \<noteq> None" using I(3) j by auto
  show lf: "loop_free g m1 = insert j (loop_free g m)" using m1(2) j jb by (auto simp: loop_free_def)
  show mk: "marked g m1 = marked g m" using m1(2) j jb by (auto simp: marked_def)
  have on: "on_path g m1 = on_path g m - {j}" using m1(2) j jb by (auto simp: on_path_def)
  have rel: "order_rel m1 = order_rel m" using order_rel_relabel [OF m1(1)] .
  have path: "path_chain g m1 P"
    by (rule path_chain_cong) (use I(2,3) m1(2) no_prev_relabel [OF m1(1)] rel in auto)
  have "order_rel m `` insert j (loop_free g m) \<subseteq> insert j (loop_free g m) \<and>
      (\<forall>d \<in> insert j (loop_free g m). (d, d) \<notin> (order_rel m)\<^sup>+)" if S: "S = {}"
  proof -
    have "(order_rel m)\<^sup>+ `` {j} = (order_rel m)\<^sup>* `` (order_rel m `` {j})"
      by (auto dest: tranclD intro: rtrancl_into_trancl2)
    also have "\<dots> \<subseteq> (order_rel m)\<^sup>* `` loop_free g m" using succ [OF S] by (rule Image_mono [OF subset_refl])
    also have "\<dots> = loop_free g m" using I(7) [OF S] by (rule Image_closed_trancl)
    finally have "(order_rel m)\<^sup>+ `` {j} \<subseteq> loop_free g m" .
    moreover have "j \<notin> loop_free g m" using j jb by (auto simp: loop_free_def)
    ultimately have "(j, j) \<notin> (order_rel m)\<^sup>+" by auto
    then show ?thesis using I(7,8) [OF S] succ [OF S] by auto
  qed
  then show "search_inv g S P m1"
    using I(1-6) path on lf mk rel wf_tx_visit [OF m1(1) I(1)]
    unfolding search_inv_def by auto
qed

lemma before_spec_Nil:
  "search_inv g S P m \<Longrightarrow> \<exists>rm. verify_order_call g (Before j []) m = Some rm \<and> before_ok g S P [] m rm"
  by (subst verify_order_call.simps) (simp add: before_ok_def relabel_refl)

lemma visit_new:
  assumes inv: "search_inv g S P m" and j: "m_job m j = Some jb" "no_prev m (j_unit jb) j"
    and new: "j_generation jb \<noteq> g" and edge: "P \<noteq> [] \<Longrightarrow> (hd P, j) \<in> order_rel m"
    and m1: "upd_job j (\<lambda>jb. jb\<lparr>j_marker := Some (if P = [] then j else hd P), j_generation := g\<rparr>) m = Some m1"
      "relabel visit_step m m1"
      "m_job m1 = (m_job m)(j \<mapsto> jb\<lparr>j_marker := Some (if P = [] then j else hd P), j_generation := g\<rparr>)"
    and call: "verify_order_call g (Before j (u_deps m (j_unit jb) UNIT_BEFORE)) m1 = Some rm"
      "before_ok g S (j # P) (u_deps m (j_unit jb) UNIT_BEFORE) m1 rm"
  shows "\<exists>rm. verify_order_call g (Visit j (if P = [] then None else Some (hd P))) m = Some rm \<and>
              visit_ok g S P j m rm"
proof -
  obtain r m2 where rm: "rm = (r, m2)" by (cases rm)
  let ?f = "\<lambda>jb. jb\<lparr>j_marker := Some (case if P = [] then None else Some (hd P) of Some f \<Rightarrow> f | None \<Rightarrow> j), j_generation := g\<rparr>"
  have f: "upd_job j ?f m = Some m1" using m1(1) by (simp cong: if_cong split: if_splits)
  have unf: "verify_order_call g (Visit j (if P = [] then None else Some (hd P))) m =
      (case r of Inl e \<Rightarrow> Some (Inl e, m2)
       | Inr _ \<Rightarrow> do { m3 \<leftarrow> upd_job j (\<lambda>jb. jb\<lparr>j_marker := None\<rparr>) m2; Some (Inr (), m3) })"
    using j new f call(1) rm by (subst verify_order_call.simps) simp
  note push = search_inv_push [OF inv j new edge m1(2,3)]
  show ?thesis
  proof (cases r)
    case (Inl e)
    then show ?thesis
      using unf call(2) rm breaks_relabel [OF m1(2)] by (simp add: visit_ok_def before_ok_def)
  next
    case (Inr x)
    then have m2: "relabel visit_step m1 m2" "search_inv g S (j # P) m2" "marked g m1 \<subseteq> marked g m2 \<and> loop_free g m1 \<subseteq> loop_free g m2"
        "\<And>u ob. u \<in> set (u_deps m (j_unit jb) UNIT_BEFORE) \<Longrightarrow> order_target m1 u = Some ob \<Longrightarrow> ob \<in> loop_free g m2"
      using call(2) rm by (auto simp: before_ok_def)
    have r2: "relabel visit_step m m2" using relabel_trans [OF m1(2) m2(1)] visit_step_trans by blast
    obtain jb2 where jb2: "m_job m2 j = Some jb2" "j_unit jb2 = j_unit jb"
      using relabelD(11) [OF r2 j(1)] visit_step_sel(1) by blast
    obtain m3 where m3: "upd_job j (\<lambda>jb. jb\<lparr>j_marker := None\<rparr>) m2 = Some m3" "relabel visit_step m2 m3"
        "m_job m3 = (m_job m2)(j \<mapsto> jb2\<lparr>j_marker := None\<rparr>)"
      using upd_job_relabel [OF jb2(1), of visit_step "\<lambda>jb. jb\<lparr>j_marker := None\<rparr>"] by auto
    have "order_rel m2 `` {j} \<subseteq> loop_free g m2"
      using m2(4) j(1) unfolding order_rel_relabel [OF r2] order_target_relabel [OF m1(2)]
      by (auto simp: order_rel_def)
    note pop = search_inv_pop [OF m2(2) jb2(1) this m3(2,3)]
    have "relabel visit_step m m3" using relabel_trans [OF r2 m3(2)] visit_step_trans by blast
    then have "visit_ok g S P j m (Inr (), m3)"
      using pop push(2,3) m2(3) by (auto simp: visit_ok_def)
    then show ?thesis using unf Inr m3(1) by simp
  qed
qed

lemma before_step:
  assumes inv: "search_inv g S (j # P) m"
    and tg: "order_target m u = Some ob"
    and call1: "verify_order_call g (Visit ob (Some j)) m = Some rm1" "visit_ok g S (j # P) ob m rm1"
    and call2: "\<And>m1. relabel visit_step m m1 \<Longrightarrow> search_inv g S (j # P) m1 \<Longrightarrow>
      marked g m \<subseteq> marked g m1 \<and> loop_free g m \<subseteq> loop_free g m1 \<Longrightarrow>
      \<exists>rm. verify_order_call g (Before j us) m1 = Some rm \<and> before_ok g S (j # P) us m1 rm"
  shows "\<exists>rm. verify_order_call g (Before j (u # us)) m = Some rm \<and> before_ok g S (j # P) (u # us) m rm"
proof -
  obtain r m1 where rm1: "rm1 = (r, m1)" by (cases rm1)
  have unf: "verify_order_call g (Before j (u # us)) m =
      (case r of Inl e \<Rightarrow> Some (Inl e, m1) | Inr _ \<Rightarrow> verify_order_call g (Before j us) m1)"
    using tg call1(1) rm1 by (subst verify_order_call.simps) simp
  show ?thesis
  proof (cases r)
    case (Inl e)
    then show ?thesis using unf call1(2) rm1 by (simp add: visit_ok_def before_ok_def)
  next
    case (Inr x)
    then have m1: "relabel visit_step m m1" "search_inv g S (j # P) m1" "marked g m \<subseteq> marked g m1 \<and> loop_free g m \<subseteq> loop_free g m1" "ob \<in> loop_free g m1"
      using call1(2) rm1 by (auto simp: visit_ok_def)
    obtain r2 m2 where m2: "verify_order_call g (Before j us) m1 = Some (r2, m2)" "before_ok g S (j # P) us m1 (r2, m2)"
      using call2 [OF m1(1-3)] by auto
    have "before_ok g S (j # P) (u # us) m (r2, m2)"
    proof (cases r2)
      case (Inl e)
      then show ?thesis using m2(2) breaks_relabel [OF m1(1)] by (simp add: before_ok_def)
    next
      case (Inr y)
      then have "relabel visit_step m m2"
        using m2(2) relabel_trans [OF m1(1), of m2] visit_step_trans by (auto simp: before_ok_def)
      then show ?thesis
        using Inr m2(2) m1(3,4) tg order_target_relabel [OF m1(1)] by (auto simp: before_ok_def)
    qed
    then show ?thesis using unf Inr m2(1) by simp
  qed
qed


fun call_size :: "order_call \<Rightarrow> nat" where
  "call_size (Visit j from) = 0"
| "call_size (Before j us) = Suc (length us)"

definition call_ok :: "nat \<Rightarrow> jref set \<Rightarrow> order_call \<Rightarrow> manager \<Rightarrow> bool" where
  "call_ok g S c m \<longleftrightarrow>
     (case c of
        Visit j from \<Rightarrow>
          (\<forall>P jb. search_inv g S P m \<and> from = (if P = [] then None else Some (hd P)) \<and>
             m_job m j = Some jb \<and> no_prev m (j_unit jb) j \<and> (P \<noteq> [] \<longrightarrow> (hd P, j) \<in> order_rel m) \<longrightarrow>
             (\<exists>rm. verify_order_call g c m = Some rm \<and> visit_ok g S P j m rm))
      | Before j us \<Rightarrow>
          (\<forall>P. search_inv g S (j # P) m \<and>
             (\<forall>u \<in> set us. \<forall>ob. order_target m u = Some ob \<longrightarrow> (j, ob) \<in> order_rel m) \<longrightarrow>
             (\<exists>rm. verify_order_call g c m = Some rm \<and> before_ok g S (j # P) us m rm)))"

lemma finite_unmarked_wf: "wf_tx m \<Longrightarrow> finite (unmarked g m)"
  by (rule finite_unmarked [OF wf_txD(5)])

lemma unmarked_visit:
  assumes "relabel visit_step m m'" "marked g m \<subseteq> marked g m'"
  shows "unmarked g m' \<subseteq> unmarked g m"
proof
  fix j assume "j \<in> unmarked g m'"
  then obtain jb' where jb': "m_job m' j = Some jb'" "j_generation jb' \<noteq> g" by (auto simp: unmarked_def)
  then obtain jb where jb: "m_job m j = Some jb" using relabelD(12) [OF assms(1)] by blast
  have "j \<notin> marked g m'" using jb' by (simp add: marked_def)
  then show "j \<in> unmarked g m" using jb assms(2) by (auto simp: unmarked_def marked_def)
qed

lemma verify_order_call_ok: "call_ok g S c m"
proof (induction "(card (unmarked g m), call_size c)" arbitrary: m c
    rule: wf_induct_rule [OF wf_lex_prod [OF wf_less_than wf_less_than]])
  case 1
  show ?case
  proof (cases c)
    case (Visit j fr)
    show ?thesis
      unfolding call_ok_def Visit order_call.case
    proof (intro allI impI, elim conjE)
      fix P jb
      assume inv: "search_inv g S P m" and fr: "fr = (if P = [] then None else Some (hd P))"
        and j: "m_job m j = Some jb" "no_prev m (j_unit jb) j" and e: "P \<noteq> [] \<longrightarrow> (hd P, j) \<in> order_rel m"
      show "\<exists>rm. verify_order_call g (Visit j fr) m = Some rm \<and> visit_ok g S P j m rm"
      proof (cases "j_generation jb = g")
        case True
        show ?thesis
        proof (cases "j_marker jb")
          case None
          then have "verify_order_call g (Visit j fr) m = Some (Inr (), m)"
            using j True by (subst verify_order_call.simps) simp
          moreover have "j \<in> loop_free g m" using j True None by (simp add: loop_free_def)
          ultimately show ?thesis using inv by (simp add: visit_ok_def relabel_refl)
        next
          case (Some k)
          then show ?thesis using visit_cycle [OF inv j True _ e [rule_format]] fr by simp
        qed
      next
        case False
        let ?f = "\<lambda>jb. jb\<lparr>j_marker := Some (if P = [] then j else hd P), j_generation := g\<rparr>"
        obtain m1 where m1: "upd_job j ?f m = Some m1" "relabel visit_step m m1" "m_job m1 = (m_job m)(j \<mapsto> ?f jb)"
          using upd_job_relabel [OF j(1), of visit_step ?f] by auto
        note push = search_inv_push [OF inv j False e [rule_format] m1(2,3)]
        have "unmarked g m1 = unmarked g m - {j}" using m1(3) by (auto simp: unmarked_def)
        moreover have "j \<in> unmarked g m" using j False by (simp add: unmarked_def)
        ultimately have "card (unmarked g m1) < card (unmarked g m)"
          using finite_unmarked_wf [OF search_invD(1) [OF inv]] by (intro psubset_card_mono) auto
        then have "call_ok g S (Before j (u_deps m (j_unit jb) UNIT_BEFORE)) m1"
          by (intro 1) simp
        moreover have "(j, ob) \<in> order_rel m1" if "u \<in> set (u_deps m (j_unit jb) UNIT_BEFORE)" "order_target m1 u = Some ob" for u ob
          using that j(1) unfolding order_rel_relabel [OF m1(2)] order_target_relabel [OF m1(2)] by (auto simp: order_rel_def)
        ultimately obtain rm where "verify_order_call g (Before j (u_deps m (j_unit jb) UNIT_BEFORE)) m1 = Some rm"
            "before_ok g S (j # P) (u_deps m (j_unit jb) UNIT_BEFORE) m1 rm"
          using push(1) unfolding call_ok_def order_call.case by blast
        from visit_new [OF inv j False e [rule_format] m1 this] show ?thesis using fr by simp
      qed
    qed
  next
    case (Before j us)
    show ?thesis
      unfolding call_ok_def Before order_call.case
    proof (intro allI impI, elim conjE)
      fix P
      assume inv: "search_inv g S (j # P) m"
        and tg: "\<forall>u \<in> set us. \<forall>ob. order_target m u = Some ob \<longrightarrow> (j, ob) \<in> order_rel m"
      show "\<exists>rm. verify_order_call g (Before j us) m = Some rm \<and> before_ok g S (j # P) us m rm"
      proof (cases us)
        case Nil
        then show ?thesis using before_spec_Nil [OF inv] by simp
      next
        case (Cons u us')
        have rest: "\<exists>rm. verify_order_call g (Before j us') m1 = Some rm \<and> before_ok g S (j # P) us' m1 rm"
          if m1: "relabel visit_step m m1" "search_inv g S (j # P) m1" "marked g m \<subseteq> marked g m1 \<and> loop_free g m \<subseteq> loop_free g m1" for m1
        proof -
          have "card (unmarked g m1) \<le> card (unmarked g m)"
            by (rule card_mono [OF finite_unmarked_wf [OF search_invD(1) [OF inv]] unmarked_visit [OF m1(1)]])
              (use m1(3) in simp)
          then have "call_ok g S (Before j us') m1" using Cons Before by (intro 1) auto
          moreover have "\<forall>u \<in> set us'. \<forall>ob. order_target m1 u = Some ob \<longrightarrow> (j, ob) \<in> order_rel m1"
            using tg Cons unfolding order_rel_relabel [OF m1(1)] order_target_relabel [OF m1(1)] by simp
          ultimately show ?thesis using m1(2) unfolding call_ok_def order_call.case by blast
        qed
        show ?thesis
        proof (cases "order_target m u")
          case None
          then have "verify_order_call g (Before j us) m = verify_order_call g (Before j us') m"
            using Cons by (subst verify_order_call.simps) simp
          moreover obtain rm where "verify_order_call g (Before j us') m = Some rm" "before_ok g S (j # P) us' m rm"
            using rest [of m] inv by (auto simp: relabel_refl)
          ultimately show ?thesis using Cons None by (auto simp: before_ok_def split: prod.splits sum.splits)
        next
          case (Some ob)
          obtain obb where obb: "m_job m ob = Some obb" "no_prev m (j_unit obb) ob"
            using order_target_ok [OF search_invD(1) [OF inv] Some] by auto
          have "call_ok g S (Visit ob (Some j)) m" using Before by (intro 1) simp
          moreover have "(j, ob) \<in> order_rel m" using tg Cons Some by simp
          ultimately obtain rm1 where c1: "verify_order_call g (Visit ob (Some j)) m = Some rm1" "visit_ok g S (j # P) ob m rm1"
            using inv obb unfolding call_ok_def order_call.case by (metis list.distinct(1) list.sel(1))
          show ?thesis unfolding Cons by (rule before_step [OF inv Some c1 rest])
        qed
      qed
    qed
  qed
qed

lemma verify_order_heads_ok:
  assumes "search_inv g S [] m" "\<forall>j \<in> set js. \<exists>jb. m_job m j = Some jb \<and> no_prev m (j_unit jb) j"
  shows "\<exists>r m'. verify_order_heads g js m = Some (r, m') \<and>
     (case r of
        Inl e \<Rightarrow> breaks S m e m'
      | Inr _ \<Rightarrow> relabel visit_step m m' \<and> search_inv g S [] m' \<and> loop_free g m \<subseteq> loop_free g m' \<and>
                 set js \<subseteq> loop_free g m')"
  using assms
proof (induction js arbitrary: m)
  case Nil
  then show ?case by (simp add: relabel_refl)
next
  case (Cons j js)
  obtain jb where jb: "m_job m j = Some jb" "no_prev m (j_unit jb) j" using Cons.prems(2) by auto
  obtain rm where rm: "transaction_verify_order_one j None g m = Some rm" "visit_ok g S [] j m rm"
    using verify_order_call_ok [of g S "Visit j None" m] Cons.prems(1) jb
    unfolding call_ok_def order_call.case transaction_verify_order_one_def by metis
  obtain r m1 where rm': "rm = (r, m1)" by (cases rm)
  show ?case
  proof (cases r)
    case (Inl e)
    then show ?thesis using rm rm' by (simp add: visit_ok_def)
  next
    case (Inr x)
    then have m1: "relabel visit_step m m1" "search_inv g S [] m1" "loop_free g m \<subseteq> loop_free g m1" "j \<in> loop_free g m1"
      using rm rm' by (auto simp: visit_ok_def)
    have "\<forall>j \<in> set js. \<exists>jb. m_job m1 j = Some jb \<and> no_prev m1 (j_unit jb) j"
      using Cons.prems(2) relabel_ex [OF m1(1), of "\<lambda>jb. no_prev m (j_unit jb) k" k for k]
      unfolding no_prev_relabel [OF m1(1)] by (simp add: visit_step_sel)
    from Cons.IH [OF m1(2) this] obtain r2 m2 where m2: "verify_order_heads g js m1 = Some (r2, m2)"
        "case r2 of
          Inl e \<Rightarrow> breaks S m1 e m2
        | Inr _ \<Rightarrow> relabel visit_step m1 m2 \<and> search_inv g S [] m2 \<and> loop_free g m1 \<subseteq> loop_free g m2 \<and>
                   set js \<subseteq> loop_free g m2" by blast
    have "relabel visit_step m m2" if "relabel visit_step m1 m2"
      using relabel_trans [OF m1(1) that] visit_step_trans by blast
    then show ?thesis
      using rm rm' Inr m2 m1(3,4) breaks_relabel [OF m1(1)]
      by (auto split: sum.splits)
  qed
qed

lemma search_inv_start:
  assumes "wf_tx m"
  shows "search_inv g (marked g m) [] m"
proof -
  have "on_path g m \<subseteq> marked g m" "loop_free g m \<subseteq> marked g m"
    by (auto simp: on_path_def loop_free_def marked_def)
  then show ?thesis using assms by (auto simp: search_inv_def)
qed

text \<open>
  The result of a search.  Success without a stale generation means that no job that is reachable
  from the transaction is on an ordering cycle.
\<close>

definition order_result :: "nat \<Rightarrow> manager \<Rightarrow> unit result \<Rightarrow> manager \<Rightarrow> bool" where
  "order_result g m r m' \<longleftrightarrow>
     (case r of
        Inl e \<Rightarrow> breaks (marked g m) m e m'
      | Inr _ \<Rightarrow> relabel visit_step m m' \<and>
          (marked g m = {} \<longrightarrow> (\<forall>j \<in> (order_rel m)\<^sup>* `` set (tx_heads m). (j, j) \<notin> (order_rel m)\<^sup>+)))"

lemma transaction_verify_order_ok:
  assumes wf: "wf_tx m"
  shows "\<exists>r m'. transaction_verify_order g m = Some (r, m') \<and> order_result g m r m'"
proof -
  let ?S = "marked g m"
  obtain r m' where r: "verify_order_heads g (tx_heads m) m = Some (r, m')"
     "case r of
        Inl e \<Rightarrow> breaks ?S m e m'
      | Inr _ \<Rightarrow> relabel visit_step m m' \<and> search_inv g ?S [] m' \<and> loop_free g m \<subseteq> loop_free g m' \<and>
                 set (tx_heads m) \<subseteq> loop_free g m'"
    using verify_order_heads_ok [OF search_inv_start [OF wf]] head_ok [OF wf] by blast
  have "\<forall>j \<in> (order_rel m)\<^sup>* `` set (tx_heads m). (j, j) \<notin> (order_rel m)\<^sup>+"
    if Inr: "r = Inr x" and S: "?S = {}" for x
  proof -
    have inv: "search_inv g ?S [] m'" and rl: "relabel visit_step m m'" and hd: "set (tx_heads m) \<subseteq> loop_free g m'"
      using r(2) Inr by simp_all
    note rel = order_rel_relabel [OF rl]
    have "(order_rel m)\<^sup>* `` set (tx_heads m) \<subseteq> (order_rel m)\<^sup>* `` loop_free g m'"
      using hd by (rule Image_mono [OF subset_refl])
    also have "\<dots> = loop_free g m'" using search_invD(7) [OF inv S] rel by (simp add: Image_closed_trancl)
    finally show ?thesis using search_invD(8) [OF inv S] rel by auto
  qed
  then have "order_result g m r m'" using r(2) by (auto simp: order_result_def split: sum.splits)
  then show ?thesis using r(1) by (simp add: transaction_verify_order_def)
qed

lemma breaks_shrinks:
  assumes wf: "wf_tx m" and b: "breaks S m EAGAIN m'"
  shows "wf_tx m'" "tjobs m' \<subset> tjobs m"
proof -
  obtain m1 K k where r: "relabel visit_step m m1" "m' = cut_jobs K m1" "k \<in> K" "droppable m k"
    using b by (auto simp: breaks_def)
  show "wf_tx m'" using r(2) wf_tx_cut [OF wf_tx_visit [OF r(1) wf]] by simp
  have "k \<in> tjobs m"
    using r(4) wf_txD(2) [OF wf] by (auto simp: droppable_def wf_scope_def noninst_def)
  then show "tjobs m' \<subset> tjobs m"
    using r(2,3) relabel_sets(2) [OF r(1)] by auto
qed

lemma breaks_wf:
  assumes wf: "wf_tx m" and b: "breaks S m e m'"
  shows "wf_tx m'" "shrinks m m'" "e = EAGAIN \<or> e = ENOEXEC"
proof -
  show e: "e = EAGAIN \<or> e = ENOEXEC" using b by (auto simp: breaks_def)
  obtain m1 where r: "relabel visit_step m m1" and m': "m' = m1 \<or> (\<exists>K. m' = cut_jobs K m1)"
    using b unfolding breaks_def by blast
  have wf1: "wf_tx m1" and s1: "shrinks m m1"
    using wf_tx_visit [OF r wf] shrinks_relabel [OF r visit_step_core] by auto
  show "wf_tx m'" using m' wf1 wf_tx_cut by auto
  show "shrinks m m'" using m' s1 shrinks_trans [OF s1 shrinks_cut] by auto
qed

lemma breaks_served:
  assumes wf: "wf_tx m" and b: "breaks S m e m'" and s: "served m u t"
  shows "served m' u t"
proof -
  from b consider
      (again) m1 K where "relabel visit_step m m1" "m' = cut_jobs K m1" "matters_closed m \<longrightarrow> K \<inter> matters_set m = {}"
    | (fail) "relabel visit_step m m'"
    unfolding breaks_def by blast
  then show ?thesis
  proof cases
    case again
    note s1 = served_visit [OF again(1) s]
    have "K \<inter> matters_set m1 = {}"
      using again(3) s unfolding served_def matters_visit [OF again(1)] by blast
    then show ?thesis
      unfolding again(2) by (intro served_cut [OF wf_txD(7) [OF wf_tx_visit [OF again(1) wf]] s1]) auto
  next
    case fail
    then show ?thesis using served_visit [OF _ s] by blast
  qed
qed

lemma order_loop_ok:
  assumes "wf_tx m"
  shows "\<exists>r m'. order_loop mode g m = Some (r, m') \<and> wf_tx m' \<and> shrinks m m' \<and> (\<forall>u t. served m u t \<longrightarrow> served m' u t) \<and>
     (r = Inr () \<or> r = Inl ENOEXEC)"
  using assms
proof (induction "card (tjobs m)" arbitrary: m g rule: less_induct)
  case less
  obtain m1 where m1: "(if mode \<noteq> JOB_ISOLATE then transaction_collect_garbage m else Some m) = Some m1"
      "wf_tx m1" "shrinks m m1" "\<And>u t. served m u t \<Longrightarrow> served m1 u t"
    using collect_garbage_ok [OF less.prems] less.prems shrinks_refl by (cases "mode = JOB_ISOLATE") auto
  obtain r m2 where m2: "transaction_verify_order g m1 = Some (r, m2)" "order_result g m1 r m2"
    using transaction_verify_order_ok [OF m1(2)] by blast
  have unf: "order_loop mode g m = (case r of
         Inr _ \<Rightarrow> Some (Inr (), m2)
       | Inl e \<Rightarrow> if e = EAGAIN then order_loop mode (g + 1) m2 else Some (Inl e, m2))"
    using m1(1) m2(1) by (subst order_loop.simps) simp
  show ?case
  proof (cases r)
    case (Inr x)
    then have r: "relabel visit_step m1 m2" using m2(2) by (simp add: order_result_def)
    have "wf_tx m2" "shrinks m m2"
      using wf_tx_visit [OF r m1(2)] shrinks_trans [OF m1(3) shrinks_relabel [OF r visit_step_core]] by auto
    then show ?thesis using unf Inr m1(4) served_visit [OF r] by simp
  next
    case (Inl e)
    then have b: "breaks (marked g m1) m1 e m2" using m2(2) by (simp add: order_result_def)
    note B = breaks_wf [OF m1(2) b]
    show ?thesis
    proof (cases "e = EAGAIN")
      case True
      then have sub: "tjobs m2 \<subset> tjobs m"
        using breaks_shrinks(2) [OF m1(2)] b m1(3) unfolding shrinks_def by blast
      from less.hyps [OF psubset_card_mono [OF finite_tjobs sub] B(1)]
      obtain r' m' where "order_loop mode (g + 1) m2 = Some (r', m')" "wf_tx m'" "shrinks m2 m'" "\<And>u t. served m2 u t \<Longrightarrow> served m' u t"
          "r' = Inr () \<or> r' = Inl ENOEXEC" by blast
      moreover from this have "shrinks m m'" using shrinks_trans m1(3) B(2) by blast
      ultimately show ?thesis using unf Inl True m1(4) breaks_served [OF m1(2) b] by auto
    next
      case False
      then show ?thesis using unf Inl B shrinks_trans [OF m1(3)] m1(4) breaks_served [OF m1(2) b] by auto
    qed
  qed
qed

end
