(* ===== verification/Transaction_Merge.thy ===== *)
theory Transaction_Merge
  imports Transaction_Order
begin

section \<open>Merging the jobs of a transaction\<close>

text \<open>
  \<open>transaction_merge_and_delete_job\<close> hands the links of a job over to another one
  (\<open>hand_over\<close>) and deletes it; the invariant survives, and no link is lost.  Merging a
  transaction ends with one job per unit whose type covers the types of all jobs it replaces
  (\<open>merged_units\<close>), or with a job dropped that does not matter to the anchor, or fails because
  two jobs that both matter cannot be merged (\<open>unmerged\<close>).
\<close>

subsection \<open>Handing the links of a job over\<close>

definition ren :: "jref \<Rightarrow> jref \<Rightarrow> jref \<Rightarrow> jref" where
  "ren other j x = (if x = other then j else x)"

definition ren_dep :: "jref \<Rightarrow> jref \<Rightarrow> jdep \<Rightarrow> jdep" where
  "ren_dep other j d = d\<lparr>d_subject := map_option (ren other j) (d_subject d), d_object := ren other j (d_object d)\<rparr>"

text \<open>The manager after \<open>j\<close> has taken over the links of \<open>other\<close>.\<close>

definition hand_over :: "jref \<Rightarrow> jref \<Rightarrow> job_type \<Rightarrow> job \<Rightarrow> job \<Rightarrow> manager \<Rightarrow> manager" where
  "hand_over j other t jb ob m =
     m\<lparr>m_dep := map (\<lambda>(l, d). (l, ren_dep other j d)) (m_dep m),
       m_job := (m_job m)(
         j \<mapsto> jb\<lparr>j_type := t, j_state := JOB_WAITING,
                 j_override := j_override jb \<or> j_override ob,
                 j_matters_to_anchor := j_matters_to_anchor jb \<or> j_matters_to_anchor ob,
                 j_subject_list := j_subject_list ob @ j_subject_list jb,
                 j_object_list := j_object_list ob @ j_object_list jb\<rparr>,
         other \<mapsto> ob\<lparr>j_subject_list := [], j_object_list := []\<rparr>)\<rparr>"

lemma owned_ok:
  assumes "\<And>l. l \<in> set ls \<Longrightarrow> \<exists>d. omap_get (m_dep m) l = Some d \<and> P d"
  shows "owned m P ls = Some True"
  unfolding owned_def all_opt_True using assms by fastforce

lemma map_of_map_snd: "map_of (map (\<lambda>(l, d). (l, f d)) xs) l = map_option f (map_of xs l)"
  by (induction xs) auto

lemma set_dep_both:
  assumes wfd: "wf_deps m" and other: "m_job m other = Some ob"
  shows "set_dep (\<lambda>d. d\<lparr>d_object := j\<rparr>) (j_object_list ob)
           (set_dep (\<lambda>d. d\<lparr>d_subject := Some j\<rparr>) (j_subject_list ob) m) =
         m\<lparr>m_dep := map (\<lambda>(l, d). (l, ren_dep other j d)) (m_dep m)\<rparr>"
proof -
  have "(if l \<in> set (j_object_list ob) then (if l \<in> set (j_subject_list ob) then d\<lparr>d_subject := Some j\<rparr> else d)\<lparr>d_object := j\<rparr>
         else if l \<in> set (j_subject_list ob) then d\<lparr>d_subject := Some j\<rparr> else d) = ren_dep other j d"
    if "(l, d) \<in> set (m_dep m)" for l d
  proof -
    have get: "omap_get (m_dep m) l = Some d" using that wf_depsD(1) [OF wfd] by (simp add: omap_get_mem)
    have "l \<in> set (j_subject_list ob) \<longleftrightarrow> d_subject d = Some other" "l \<in> set (j_object_list ob) \<longleftrightarrow> d_object d = other"
      using get set_subject_list [OF wfd other] set_object_list [OF wfd other] by auto
    then show ?thesis
      by (cases d; cases "d_subject d") (auto simp: ren_dep_def ren_def)
  qed
  then have "map (\<lambda>(l, d). (l, if l \<in> set (j_object_list ob) then d\<lparr>d_object := j\<rparr> else d))
      (map (\<lambda>(l, d). (l, if l \<in> set (j_subject_list ob) then d\<lparr>d_subject := Some j\<rparr> else d)) (m_dep m)) =
      map (\<lambda>(l, d). (l, ren_dep other j d)) (m_dep m)"
    by auto
  then show ?thesis by (simp add: set_dep_def)
qed

lemma merge_hand_over:
  assumes wfd: "wf_deps m" and j: "m_job m j = Some jb" "\<not> j_installed jb"
    and other: "m_job m other = Some ob" "j_unit ob = j_unit jb" "other \<noteq> j"
  shows "transaction_merge_and_delete_job j other t m =
           transaction_delete_job other True (hand_over j other t jb ob m)"
proof -
  have "owned m (\<lambda>d. d_subject d = Some other) (j_subject_list ob) = Some True"
    "owned m (\<lambda>d. d_object d = other) (j_object_list ob) = Some True"
    using wf_depsD(7,8) [OF wfd other(1)] by (auto intro!: owned_ok)
  then show ?thesis
    using j other set_dep_both [OF wfd other(1), of j]
    by (simp add: transaction_merge_and_delete_job_def upd_job_def hand_over_def Let_def)
qed

lemma hand_over_sel [simp]:
  "m_units (hand_over j other t jb ob m) = m_units m" "m_jobs (hand_over j other t jb ob m) = m_jobs m"
  "m_run_queue (hand_over j other t jb ob m) = m_run_queue m"
  "m_dbus_job_queue (hand_over j other t jb ob m) = m_dbus_job_queue m"
  "m_unit (hand_over j other t jb ob m) = m_unit m"
  "m_next_job (hand_over j other t jb ob m) = m_next_job m"
  "m_next_dep (hand_over j other t jb ob m) = m_next_dep m"
  "m_transaction_jobs (hand_over j other t jb ob m) = m_transaction_jobs m"
  "m_transaction_anchor (hand_over j other t jb ob m) = m_transaction_anchor m"
  "m_current_job_id (hand_over j other t jb ob m) = m_current_job_id m"
  "omap_get (m_dep (hand_over j other t jb ob m)) l = map_option (ren_dep other j) (omap_get (m_dep m) l)"
  "omap_keys (m_dep (hand_over j other t jb ob m)) = omap_keys (m_dep m)"
  by (simp_all add: hand_over_def omap_get_def map_of_map_snd) (simp add: case_prod_unfold comp_def)

lemma ren_dep_sel [simp]:
  "d_subject (ren_dep other j d) = map_option (ren other j) (d_subject d)"
  "d_object (ren_dep other j d) = ren other j (d_object d)"
  by (simp_all add: ren_dep_def)

lemma m_job_hand_over:
  "other \<noteq> j \<Longrightarrow> m_job (hand_over j other t jb ob m) x =
     (if x = j then Some (jb\<lparr>j_type := t, j_state := JOB_WAITING,
                 j_override := j_override jb \<or> j_override ob,
                 j_matters_to_anchor := j_matters_to_anchor jb \<or> j_matters_to_anchor ob,
                 j_subject_list := j_subject_list ob @ j_subject_list jb,
                 j_object_list := j_object_list ob @ j_object_list jb\<rparr>)
      else if x = other then Some (ob\<lparr>j_subject_list := [], j_object_list := []\<rparr>)
      else m_job m x)"
  by (simp add: hand_over_def)

lemma wf_deps_hand_over:
  assumes wfd: "wf_deps m" and j: "m_job m j = Some jb"
    and other: "m_job m other = Some ob" "other \<noteq> j"
  shows "wf_deps (hand_over j other t jb ob m)" (is "wf_deps ?m")
proof -
  note dj = set_subject_list [OF wfd j] set_object_list [OF wfd j]
    and dob = set_subject_list [OF wfd other(1)] set_object_list [OF wfd other(1)]
  have obj: "\<exists>xb. m_job ?m (d_object d) = Some xb \<and> l \<in> set (j_object_list xb)"
    if get: "omap_get (m_dep ?m) l = Some d" for l d
  proof -
    obtain d0 where d0: "omap_get (m_dep m) l = Some d0" "d = ren_dep other j d0" using get by auto
    obtain xb where "m_job m (d_object d0) = Some xb" "l \<in> set (j_object_list xb)"
      using wf_depsD(2) [OF wfd d0(1)] by auto
    then show ?thesis using d0 j other by (auto simp: m_job_hand_over ren_def)
  qed
  have sub: "case d_subject d of None \<Rightarrow> l \<in> set (m_transaction_anchor ?m)
      | Some s \<Rightarrow> \<exists>xb. m_job ?m s = Some xb \<and> l \<in> set (j_subject_list xb)"
    if get: "omap_get (m_dep ?m) l = Some d" for l d
  proof -
    obtain d0 where d0: "omap_get (m_dep m) l = Some d0" "d = ren_dep other j d0" using get by auto
    show ?thesis
    proof (cases "d_subject d0")
      case None
      then show ?thesis using d0 wf_depsD(4) [OF wfd d0(1)] by simp
    next
      case (Some s)
      then obtain xb where "m_job m s = Some xb" "l \<in> set (j_subject_list xb)"
        using wf_depsD(3) [OF wfd d0(1)] by auto
      then show ?thesis using Some d0 j other by (auto simp: m_job_hand_over ren_def)
    qed
  qed
  have jobs: "distinct (j_subject_list xb) \<and> distinct (j_object_list xb) \<and>
      (\<forall>l \<in> set (j_subject_list xb). \<exists>d. omap_get (m_dep ?m) l = Some d \<and> d_subject d = Some x) \<and>
      (\<forall>l \<in> set (j_object_list xb). \<exists>d. omap_get (m_dep ?m) l = Some d \<and> d_object d = x)"
    if x: "m_job ?m x = Some xb" for x xb
  proof -
    consider (j) "x = j" | (other) "x = other" "x \<noteq> j" | (rest) "x \<noteq> j" "x \<noteq> other" by blast
    then show ?thesis
    proof cases
      case j
      have "set (j_subject_list ob) \<inter> set (j_subject_list jb) = {}" "set (j_object_list ob) \<inter> set (j_object_list jb) = {}"
        using dj dob other(2) by auto
      moreover have xb: "j_subject_list xb = j_subject_list ob @ j_subject_list jb"
          "j_object_list xb = j_object_list ob @ j_object_list jb"
        using x j other(2) by (auto simp: m_job_hand_over)
      moreover have "\<exists>d. omap_get (m_dep ?m) l = Some d \<and> d_subject d = Some x"
        if "l \<in> set (j_subject_list ob) \<union> set (j_subject_list jb)" for l
        using that dj(1) dob(1) j by (auto simp: ren_def)
      moreover have "\<exists>d. omap_get (m_dep ?m) l = Some d \<and> d_object d = x"
        if "l \<in> set (j_object_list ob) \<union> set (j_object_list jb)" for l
        using that dj(2) dob(2) j by (auto simp: ren_def)
      ultimately show ?thesis
        using wf_depsD(5,6) [OF wfd assms(2)] wf_depsD(5,6) [OF wfd other(1)] by auto
    next
      case other
      then show ?thesis using x assms(4) by (auto simp: m_job_hand_over)
    next
      case rest
      then have "m_job m x = Some xb" using x other(2) by (simp add: m_job_hand_over)
      then show ?thesis using wf_depsD(5-8) [OF wfd] rest by (fastforce simp: ren_def)
    qed
  qed
  have "\<exists>d. omap_get (m_dep ?m) l = Some d \<and> d_subject d = None" if "l \<in> set (m_transaction_anchor ?m)" for l
    using wf_depsD(10) [OF wfd, of l] that by auto
  then show ?thesis
    unfolding wf_deps_def using obj sub jobs wf_depsD(1,9) [OF wfd] by auto
qed

lemma rel_option_ex:
  assumes "rel_option R a b" "\<And>x y. R x y \<Longrightarrow> P y = P x"
  shows "(\<exists>x. b = Some x \<and> P x) \<longleftrightarrow> (\<exists>x. a = Some x \<and> P x)"
  using assms by (cases a; cases b) auto

lemma wf_tx_same_id:
  assumes rel: "\<And>x. rel_option same_id (m_job m x) (m_job m' x)" and wfd: "wf_deps m'" and wf: "wf_tx m"
    and eqs: "m_transaction_jobs m' = m_transaction_jobs m" "m_jobs m' = m_jobs m" "m_unit m' = m_unit m"
      "m_run_queue m' = m_run_queue m" "m_dbus_job_queue m' = m_dbus_job_queue m"
      "m_next_job m' = m_next_job m"
    and scope: "\<And>l d. omap_get (m_dep m') l = Some d \<Longrightarrow>
        d_object d \<in> tjobs m \<and> (\<forall>s. d_subject d = Some s \<longrightarrow> s \<in> tjobs m) \<and> l < m_next_dep m'"
  shows "wf_tx m'"
proof -
  note ex = rel_option_ex [OF rel]
  have exs:
    "(\<exists>jb. m_job m' j = Some jb \<and> j_unit jb = u) \<longleftrightarrow> (\<exists>jb. m_job m j = Some jb \<and> j_unit jb = u)"
    "(\<exists>jb. m_job m' j = Some jb \<and> j_in_run_queue jb) \<longleftrightarrow> (\<exists>jb. m_job m j = Some jb \<and> j_in_run_queue jb)"
    "(\<exists>jb. m_job m' j = Some jb \<and> j_in_dbus_queue jb) \<longleftrightarrow> (\<exists>jb. m_job m j = Some jb \<and> j_in_dbus_queue jb)"
    "(\<exists>jb. m_job m' j = Some jb \<and> j_installed jb \<and> j_id jb = i) \<longleftrightarrow> (\<exists>jb. m_job m j = Some jb \<and> j_installed jb \<and> j_id jb = i)"
    "(\<exists>jb. m_job m' j = Some jb \<and> j_installed jb \<and> j_unit jb = u) \<longleftrightarrow> (\<exists>jb. m_job m j = Some jb \<and> j_installed jb \<and> j_unit jb = u)"
    "(\<exists>jb. m_job m' j = Some jb \<and> \<not> j_installed jb) \<longleftrightarrow> (\<exists>jb. m_job m j = Some jb \<and> \<not> j_installed jb)"
    for j u i
    by (rule ex; simp add: same_id_def)+
  have tj: "tjobs m' = tjobs m" by (simp add: tjobs_def eqs)
  have bwd: "\<exists>jb. m_job m j = Some jb \<and> same_id jb jb'" if "m_job m' j = Some jb'" for j jb'
    using rel [of j] that by (cases "m_job m j") auto
  have "wf_list m'" using wf_txD(7) [OF wf] unfolding wf_list_def eqs exs .
  moreover have "wf_q m'"
    using wf_txD(8) [OF wf] bwd unfolding wf_q_def same_id_def by metis
  moreover have "wf_scope m'"
    using wf_txD(2) [OF wf] scope unfolding wf_scope_def tj noninst_def exs by blast
  moreover have "wf_inst m'"
  proof -
    have "omap_get (m_jobs m) (j_id jb) = Some j \<and> u_job (m_unit m (j_unit jb)) = Some j"
      if "m_job m' j = Some jb \<and> j_installed jb" for j jb
      using bwd [of j jb] that wf_txD(3) [OF wf] unfolding wf_inst_def same_id_def by metis
    then show ?thesis using wf_txD(3) [OF wf] unfolding wf_inst_def eqs exs by blast
  qed
  moreover have "wf_queues m'" using wf_txD(4) [OF wf] unfolding wf_queues_def eqs exs .
  moreover have "wf_next m'"
  proof -
    have "m_job m' j = None \<longleftrightarrow> m_job m j = None" for j
      using rel [of j] by (cases "m_job m j"; cases "m_job m' j") auto
    then show ?thesis using wf_txD(5) [OF wf] scope by (fastforce simp: wf_next_def eqs)
  qed
  ultimately show ?thesis using wfd by (simp add: wf_tx_def wf_core_def)
qed

lemma hand_over_same_id:
  assumes "m_job m j = Some jb" "m_job m other = Some ob" "other \<noteq> j"
  shows "rel_option same_id (m_job m x) (m_job (hand_over j other t jb ob m) x)"
  unfolding m_job_hand_over [OF assms(3)] using assms(1,2)
  by (cases "m_job m x") (auto simp: same_id_def)

lemma wf_tx_hand_over:
  assumes wf: "wf_tx m" and j: "m_job m j = Some jb" "\<not> j_installed jb"
    and other: "m_job m other = Some ob" "other \<noteq> j"
  shows "wf_tx (hand_over j other t jb ob m)"
proof (rule wf_tx_same_id [OF hand_over_same_id [OF j(1) other] wf_deps_hand_over [OF wf_txD(6) [OF wf] j(1) other] wf])
  fix l d assume "omap_get (m_dep (hand_over j other t jb ob m)) l = Some d"
  then obtain d0 where d0: "omap_get (m_dep m) l = Some d0" "d = ren_dep other j d0" by auto
  have "j \<in> tjobs m" using j wf_txD(2) [OF wf] by (auto simp: wf_scope_def noninst_def)
  moreover have "l < m_next_dep m" using wf_txD(5) [OF wf] d0(1) by (force simp: wf_next_def intro: ccontr)
  ultimately show "d_object d \<in> tjobs m \<and> (\<forall>s. d_subject d = Some s \<longrightarrow> s \<in> tjobs m) \<and>
      l < m_next_dep (hand_over j other t jb ob m)"
    using wf_txD(2) [OF wf] d0 by (auto simp: wf_scope_def ren_def)
qed simp_all

text \<open>The deletion that follows takes \<open>other\<close> alone, since no link leads to it any more.\<close>

lemma merge_and_delete_cut:
  assumes wf: "wf_tx m" and j: "m_job m j = Some jb" "\<not> j_installed jb"
    and other: "m_job m other = Some ob" "j_unit ob = j_unit jb" "other \<noteq> j"
  shows "transaction_merge_and_delete_job j other t m = Some (cut_jobs {other} (hand_over j other t jb ob m))"
proof -
  let ?m = "hand_over j other t jb ob m"
  have wf': "wf_tx ?m" using wf_tx_hand_over [OF wf j other(1,3)] .
  have "d_object (ren_dep other j d) \<noteq> other" for d using other(3) by (simp add: ren_def)
  then have "(k, other) \<notin> req_rel ?m" for k unfolding req_rel_def hand_over_sel map_option_eq_Some mem_Collect_eq prod.case by blast
  then have "requirers ?m other = {other}" by (auto simp: requirers_def elim: rtranclE)
  moreover have "m_job ?m other \<noteq> None" using other by (simp add: m_job_hand_over)
  ultimately show ?thesis
    using transaction_delete_job_cut [OF wf_txD(1) [OF wf'], of other True]
      merge_hand_over [OF wf_txD(6) [OF wf] j other]
    by (simp add: del_set_def)
qed

subsection \<open>Merging the jobs of a unit\<close>

lemma job_type_merge_superset:
  assumes "job_type_merge a b = Inr c"
  shows "job_type_is_superset c a" "job_type_is_superset c b"
  using assms by (cases a; cases b; simp add: job_defs split: if_splits)+

lemma job_type_merge_list_superset:
  "job_type_merge_list t ts = Inr r \<Longrightarrow> \<forall>x \<in> set (t # ts). job_type_is_superset r x"
proof (induction ts arbitrary: t)
  case (Cons k ks)
  then obtain t' where t': "job_type_merge t k = Inr t'" "job_type_merge_list t' ks = Inr r"
    by (auto split: sum.splits)
  then have "\<forall>x \<in> set (t' # ks). job_type_is_superset r x" using Cons.IH by blast
  then show ?case
    using job_type_merge_superset [OF t'(1)] job_type_is_superset_trans
    by (metis list.set_intros(1) list.set_intros(2) set_ConsD)
qed simp

text \<open>
  No link is lost: every link of \<open>m\<close> is in \<open>m'\<close>, leads to a job for the same unit, and hangs on
  the anchor exactly if it did.
\<close>

definition links_kept :: "manager \<Rightarrow> manager \<Rightarrow> bool" where
  "links_kept m m' \<longleftrightarrow>
     (\<forall>l d. omap_get (m_dep m) l = Some d \<longrightarrow>
        (\<exists>d'. omap_get (m_dep m') l = Some d' \<and> (d_subject d' = None \<longleftrightarrow> d_subject d = None) \<and>
           (\<forall>b. m_job m (d_object d) = Some b \<longrightarrow>
              (\<exists>b'. m_job m' (d_object d') = Some b' \<and> j_unit b' = j_unit b))))"

lemma links_keptE:
  assumes "links_kept m m'" "omap_get (m_dep m) l = Some d"
  obtains d' where "omap_get (m_dep m') l = Some d'" "d_subject d' = None \<longleftrightarrow> d_subject d = None"
    "\<forall>b. m_job m (d_object d) = Some b \<longrightarrow> (\<exists>b'. m_job m' (d_object d') = Some b' \<and> j_unit b' = j_unit b)"
  using assms(1) [unfolded links_kept_def, THEN spec, THEN spec, THEN mp, OF assms(2)] that
  by (elim exE conjE) simp

lemma links_kept_refl: "links_kept m m"
  by (auto simp: links_kept_def)

lemma links_kept_trans:
  assumes "links_kept m m1" "links_kept m1 m2"
  shows "links_kept m m2"
  unfolding links_kept_def
proof (intro allI impI)
  fix l d assume "omap_get (m_dep m) l = Some d"
  from links_keptE [OF assms(1) this]
  obtain d1 where d1: "omap_get (m_dep m1) l = Some d1" "d_subject d1 = None \<longleftrightarrow> d_subject d = None"
      "\<forall>b. m_job m (d_object d) = Some b \<longrightarrow> (\<exists>b'. m_job m1 (d_object d1) = Some b' \<and> j_unit b' = j_unit b)" .
  from links_keptE [OF assms(2) d1(1)]
  obtain d2 where d2: "omap_get (m_dep m2) l = Some d2" "d_subject d2 = None \<longleftrightarrow> d_subject d1 = None"
      "\<forall>b. m_job m1 (d_object d1) = Some b \<longrightarrow> (\<exists>b'. m_job m2 (d_object d2) = Some b' \<and> j_unit b' = j_unit b)" .
  have "\<exists>b'. m_job m2 (d_object d2) = Some b' \<and> j_unit b' = j_unit b" if b: "m_job m (d_object d) = Some b" for b
  proof -
    obtain b1 where b1: "m_job m1 (d_object d1) = Some b1" "j_unit b1 = j_unit b" using d1(3) b by blast
    then obtain b2 where "m_job m2 (d_object d2) = Some b2" "j_unit b2 = j_unit b1" using d2(3) by blast
    then show ?thesis using b1 by simp
  qed
  then show "\<exists>d'. omap_get (m_dep m2) l = Some d' \<and> (d_subject d' = None \<longleftrightarrow> d_subject d = None) \<and>
      (\<forall>b. m_job m (d_object d) = Some b \<longrightarrow> (\<exists>b'. m_job m2 (d_object d') = Some b' \<and> j_unit b' = j_unit b))"
    using d1(2) d2(1,2) by simp
qed

text \<open>What merging keeps of the jobs outside \<open>X\<close>.\<close>

definition merge_frame :: "jref set \<Rightarrow> manager \<Rightarrow> manager \<Rightarrow> bool" where
  "merge_frame X m m' \<longleftrightarrow>
     m_unit m' = m_unit m \<and> m_units m' = m_units m \<and> m_jobs m' = m_jobs m \<and>
     m_run_queue m' = m_run_queue m \<and> m_dbus_job_queue m' = m_dbus_job_queue m \<and>
     m_next_job m' = m_next_job m \<and> m_current_job_id m' = m_current_job_id m \<and>
     omap_keys (m_dep m') = omap_keys (m_dep m) \<and> links_kept m m' \<and>
     (\<forall>x. x \<notin> X \<longrightarrow> rel_option same_core (m_job m x) (m_job m' x)) \<and>
     (\<forall>x xb'. m_job m' x = Some xb' \<longrightarrow> (\<exists>xb. m_job m x = Some xb \<and> same_id xb xb'))"

lemma merge_frame_refl: "merge_frame X m m"
  by (auto simp: merge_frame_def links_kept_refl same_id_def intro!: option.rel_refl)

lemma merge_frame_trans:
  assumes "merge_frame X m m1" "merge_frame X m1 m2"
  shows "merge_frame X m m2"
proof -
  have "rel_option same_core (m_job m x) (m_job m2 x)" if "x \<notin> X" for x
  proof -
    have "rel_option same_core (m_job m x) (m_job m1 x)"
      "rel_option same_core (m_job m1 x) (m_job m2 x)"
      using assms that by (simp_all add: merge_frame_def)
    then show ?thesis
      by (rule rel_inst_trans)
  qed
  moreover have "\<exists>xb. m_job m x = Some xb \<and> same_id xb xb'" if m2: "m_job m2 x = Some xb'" for x xb'
  proof -
    obtain xb1 where x1: "m_job m1 x = Some xb1" "same_id xb1 xb'" using assms(2) m2 unfolding merge_frame_def by blast
    then obtain xb where "m_job m x = Some xb" "same_id xb xb1" using assms(1) unfolding merge_frame_def by blast
    then show ?thesis using x1(2) by (auto simp: same_id_def)
  qed
  moreover have "links_kept m m2" using assms links_kept_trans unfolding merge_frame_def by blast
  ultimately show ?thesis using assms by (auto simp: merge_frame_def)
qed

lemma merge_frame_mono: "merge_frame X m m' \<Longrightarrow> X \<subseteq> Y \<Longrightarrow> merge_frame Y m m'"
  by (auto simp: merge_frame_def)

lemma omap_keys_cut_none:
  assumes "wf_deps m" "inc m K = {}"
  shows "omap_keys (m_dep (cut_jobs K m)) = omap_keys (m_dep m)"
  by (simp add: cut_jobs_def eff_def assms(2))

lemma merge_and_delete_ok:
  assumes wf: "wf_tx m" and j: "m_job m j = Some jb" "\<not> j_installed jb"
    and other: "m_job m other = Some ob" "j_unit ob = j_unit jb" "other \<noteq> j"
  shows "\<exists>m'. transaction_merge_and_delete_job j other t m = Some m' \<and> wf_tx m' \<and>
     (\<forall>v. tlist m' v = filter (\<lambda>x. x \<noteq> other) (tlist m v)) \<and>
     (\<exists>jb'. m_job m' j = Some jb' \<and> j_type jb' = t \<and> same_id jb jb') \<and>
     merge_frame ({j} \<union> ({other} \<inter> noninst m)) m m'"
proof -
  let ?m = "hand_over j other t jb ob m" and ?m' = "cut_jobs {other} (hand_over j other t jb ob m)"
  have wf': "wf_tx ?m" using wf_tx_hand_over [OF wf j other(1,3)] .
  have tl: "tlist ?m = tlist m" by (simp add: tlist_def fun_eq_iff)
  have nodep: "inc ?m {other} = {}"
  proof -
    have "d_object (ren_dep other j d) \<noteq> other" "d_subject (ren_dep other j d) \<noteq> Some other" for d
      using other(3) by (auto simp: ren_def)
    then show ?thesis unfolding inc_def hand_over_sel map_option_eq_Some by blast
  qed
  have job: "m_job ?m' x = (if x = other \<and> \<not> j_installed ob then None else m_job ?m x)" for x
  proof -
    have "other \<in> noninst ?m \<longleftrightarrow> \<not> j_installed ob" using other by (simp add: noninst_def m_job_hand_over)
    then show ?thesis by (auto simp: m_job_cut nodep)
  qed
  have "rel_option same_core (m_job m x) (m_job ?m' x)"
    if "x \<notin> {j} \<union> ({other} \<inter> noninst m)" for x
    using that other unfolding job m_job_hand_over [OF other(3)]
    by (cases "m_job m x") (auto simp: noninst_def same_id_def same_core_def)
  moreover have "\<exists>xb. m_job m x = Some xb \<and> same_id xb xb'" if "m_job ?m' x = Some xb'" for x xb'
    using that j(1) other unfolding job m_job_hand_over [OF other(3)]
    by (auto simp: same_id_def split: if_splits)
  moreover have "links_kept m ?m'"
    unfolding links_kept_def
  proof (intro allI impI)
    fix l d assume l: "omap_get (m_dep m) l = Some d"
    have "\<exists>b'. m_job ?m' (ren other j (d_object d)) = Some b' \<and> j_unit b' = j_unit b"
      if "m_job m (d_object d) = Some b" for b
      using that j(1) other unfolding job m_job_hand_over [OF other(3)] by (auto simp: ren_def)
    then show "\<exists>d'. omap_get (m_dep ?m') l = Some d' \<and> (d_subject d' = None \<longleftrightarrow> d_subject d = None) \<and>
        (\<forall>b. m_job m (d_object d) = Some b \<longrightarrow> (\<exists>b'. m_job ?m' (d_object d') = Some b' \<and> j_unit b' = j_unit b))"
      using l by (simp add: nodep)
  qed
  ultimately have "merge_frame ({j} \<union> ({other} \<inter> noninst m)) m ?m'"
    using omap_keys_cut_none [OF wf_txD(6) [OF wf'] nodep] unfolding merge_frame_def by simp
  moreover have "\<exists>jb'. m_job ?m' j = Some jb' \<and> j_type jb' = t \<and> same_id jb jb'"
    using other(3) unfolding job m_job_hand_over [OF other(3)] by (simp add: same_id_def)
  ultimately show ?thesis
    using merge_and_delete_cut [OF wf j other] wf_tx_cut [OF wf'] tlist_cut [OF wf_txD(7) [OF wf']] tl by simp
qed

lemma inst_unique:
  assumes "wf_inst m" "m_job m j = Some jb" "j_installed jb" "m_job m k = Some kb" "j_installed kb" "j_unit jb = j_unit kb"
  shows "j = k"
  using assms unfolding wf_inst_def by (metis option.inject)

lemma merge_chain_ok:
  assumes "wf_tx m" "tlist m u \<noteq> []"
  shows "\<exists>m' j jb. merge_chain t u m = Some m' \<and> wf_tx m' \<and> tlist m' u = [j] \<and> j \<in> set (tlist m u) \<and>
     m_job m' j = Some jb \<and>
     (if tl (tlist m u) = [] then m' = m else j_type jb = t \<and> \<not> j_installed jb) \<and>
     (\<forall>v. v \<noteq> u \<longrightarrow> tlist m' v = tlist m v) \<and>
     merge_frame (set (tlist m u) \<inter> noninst m) m m'"
  using assms
proof (induction "length (tlist m u)" arbitrary: m rule: less_induct)
  case less
  note wf = less.prems(1) and wfl = wf_txD(7) [OF less.prems(1)]
  show ?case
  proof (cases "tl (tlist m u)")
    case Nil
    then obtain j where tl: "tlist m u = [j]" using less.prems(2) by (cases "tlist m u") auto
    then obtain jb where "m_job m j = Some jb" using wf_list_tlist(2) [OF wfl, of j u] by auto
    moreover have "merge_chain t u m = Some m" using tl by (subst merge_chain.simps) simp
    ultimately show ?thesis using wf tl by (auto simp: merge_frame_refl)
  next
    case (Cons k ks)
    then obtain j where tl: "tlist m u = j # k # ks" using less.prems(2) by (cases "tlist m u") auto
    obtain jb kb where jb: "m_job m j = Some jb" "j_unit jb = u" and kb: "m_job m k = Some kb" "j_unit kb = u"
      using wf_list_tlist(2) [OF wfl, of j u] wf_list_tlist(2) [OF wfl, of k u] tl by auto
    have dist: "distinct (j # k # ks)" using wf_list_tlist(1) [OF wfl, of u] tl by simp
    define a b where "a = (if j_installed jb then k else j)" and "b = (if j_installed jb then j else k)"
    have noninst: "\<not> (j_installed jb \<and> j_installed kb)"
      using jb kb dist inst_unique [OF wf_txD(3) [OF wf] jb(1) _ kb(1)] by auto
    define ab bb where "ab = (if j_installed jb then kb else jb)" and "bb = (if j_installed jb then jb else kb)"
    have ab: "m_job m a = Some ab" "\<not> j_installed ab" "j_unit ab = u"
        and bb: "m_job m b = Some bb" "j_unit bb = u" and neq: "b \<noteq> a"
      using jb kb dist noninst by (auto simp: a_def b_def ab_def bb_def)
    have "j_unit bb = j_unit ab" using ab bb by simp
    from merge_and_delete_ok [OF wf ab(1,2) bb(1) this neq]
    obtain m1 ab' where m1: "transaction_merge_and_delete_job a b t m = Some m1" "wf_tx m1"
        "\<And>v. tlist m1 v = filter (\<lambda>x. x \<noteq> b) (tlist m v)"
        "m_job m1 a = Some ab'" "j_type ab' = t" "same_id ab ab'"
        "merge_frame ({a} \<union> ({b} \<inter> noninst m)) m m1" by blast
    have tl1: "tlist m1 u = a # ks"
      using dist tl m1(3) [of u] by (auto simp: a_def b_def filter_neq_idem)
    have other: "tlist m1 v = tlist m v" if "v \<noteq> u" for v
    proof -
      have "b \<notin> set (tlist m v)" using wf_list_tlist(2) [OF wfl, of b v] bb that by auto
      then show ?thesis by (simp add: m1(3) filter_neq_idem)
    qed
    have X: "{a} \<union> ({b} \<inter> noninst m) \<subseteq> set (tlist m u) \<inter> noninst m"
      using tl ab by (auto simp: a_def b_def noninst_def)
    have unf: "merge_chain t u m = merge_chain t u m1"
      using tl jb m1(1) by (subst merge_chain.simps) (auto simp: a_def b_def)
    obtain m' j' jb' where m': "merge_chain t u m1 = Some m'" "wf_tx m'" "tlist m' u = [j']" "j' \<in> set (tlist m1 u)"
        "m_job m' j' = Some jb'" "if tl (tlist m1 u) = [] then m' = m1 else j_type jb' = t \<and> \<not> j_installed jb'"
        "\<And>v. v \<noteq> u \<Longrightarrow> tlist m' v = tlist m1 v" "merge_frame (set (tlist m1 u) \<inter> noninst m1) m1 m'"
      using less.hyps [of m1] m1(2) tl1 tl by auto
    have "j_type jb' = t \<and> \<not> j_installed jb'"
    proof (cases "ks = []")
      case True
      then have "m' = m1" "j' = a" using m'(4,6) tl1 by auto
      then show ?thesis using m'(5) m1(4-6) ab(2) by (auto simp: same_id_def)
    qed (use m'(6) tl1 in auto)
    moreover have "set (tlist m1 u) \<inter> noninst m1 \<subseteq> set (tlist m u) \<inter> noninst m"
    proof -
      have "x \<in> noninst m" if x: "x \<in> noninst m1" for x
      proof -
        obtain xb' where "m_job m1 x = Some xb'" "\<not> j_installed xb'" using x by (auto simp: noninst_def)
        then show ?thesis using m1(7) unfolding merge_frame_def noninst_def same_id_def by blast
      qed
      moreover have "set (tlist m1 u) \<subseteq> set (tlist m u)" using m1(3) [of u] by auto
      ultimately show ?thesis by blast
    qed
    then have "merge_frame (set (tlist m u) \<inter> noninst m) m m'"
      using merge_frame_trans [OF merge_frame_mono [OF m1(7) X] merge_frame_mono [OF m'(8)]] by blast
    moreover have "j' \<in> set (tlist m u)" using m'(4) m1(3) [of u] by auto
    ultimately show ?thesis
      using m' other tl unf by auto
  qed
qed

lemma job_types_ok:
  "(\<And>j. j \<in> set js \<Longrightarrow> m_job m j \<noteq> None) \<Longrightarrow> job_types m js = Some (map (\<lambda>j. j_type (the (m_job m j))) js)"
proof (induction js)
  case (Cons a js)
  then obtain ab where "m_job m a = Some ab" by (meson list.set_intros(1) not_Some_eq)
  then show ?case using Cons by simp
qed simp

lemma chain_type_ok:
  assumes "wf_list m" "tlist m u = js"
  shows "chain_type m js = Some (job_type_merge_list (j_type (the (m_job m (hd js)))) (map (\<lambda>j. j_type (the (m_job m j))) (tl js)))
     \<or> js = []"
proof (cases js)
  case (Cons k ks)
  have "job_types m js = Some (map (\<lambda>j. j_type (the (m_job m j))) js)"
    using wf_list_tlist(2) [OF assms(1)] assms(2) by (intro job_types_ok) fastforce
  then show ?thesis using Cons by (simp add: chain_type_def)
qed simp

lemma chain_type_superset:
  assumes "wf_list m" "chain_type m (tlist m u) = Some (Inr t)" "k \<in> set (tlist m u)" "m_job m k = Some kb"
  shows "job_type_is_superset t (j_type kb)"
proof -
  have "job_type_merge_list (j_type (the (m_job m (hd (tlist m u))))) (map (\<lambda>j. j_type (the (m_job m j))) (tl (tlist m u))) = Inr t"
    using chain_type_ok [OF assms(1) refl, of u] assms(2,3) by auto
  from job_type_merge_list_superset [OF this] show ?thesis
    using assms(3,4) by (cases "tlist m u") auto
qed

lemma chain_type_frame:
  assumes fr: "merge_frame X m m'" and js: "set js \<inter> X = {}"
  shows "chain_type m' js = chain_type m js"
proof -
  have "job_types m' js = job_types m js"
    using js
  proof (induction js)
    case (Cons k ks)
    have "rel_option same_core (m_job m k) (m_job m' k)"
      using fr Cons.prems by (simp add: merge_frame_def)
    then show ?case using Cons by (cases "m_job m k"; cases "m_job m' k") (auto simp: same_core_def)
  qed simp
  then show ?thesis by (simp add: chain_type_def)
qed

definition merged_unit :: "uid \<Rightarrow> job_type \<Rightarrow> manager \<Rightarrow> manager \<Rightarrow> bool" where
  "merged_unit u t m m' \<longleftrightarrow>
     wf_tx m' \<and> (\<exists>j jb. tlist m' u = [j] \<and> j \<in> set (tlist m u) \<and> m_job m' j = Some jb \<and> job_type_is_superset (j_type jb) t) \<and>
     (\<forall>v. v \<noteq> u \<longrightarrow> tlist m' v = tlist m v) \<and> merge_frame (set (tlist m u) \<inter> noninst m) m m'"

lemma merge_installed_ok:
  assumes wf: "wf_tx m" and i: "u_job (m_unit m u) = Some i" and tl: "tlist m u = [j]"
    and j: "m_job m j = Some jb" "\<not> j_installed jb"
  shows "\<exists>m'. transaction_merge_and_delete_job j i t m = Some m' \<and> merged_unit u t m m'"
proof -
  obtain ib where ib: "m_job m i = Some ib" "j_installed ib" "j_unit ib = u"
    using wf_txD(3) [OF wf] i unfolding wf_inst_def by blast
  have ju: "j_unit jb = u" using wf_list_tlist(2) [OF wf_txD(7) [OF wf], of j u] tl j by auto
  have neq: "i \<noteq> j" using ib j by auto
  from merge_and_delete_ok [OF wf j ib(1) _ neq, of t] ib ju
  obtain m' jb' where m': "transaction_merge_and_delete_job j i t m = Some m'" "wf_tx m'"
      "\<And>v. tlist m' v = filter (\<lambda>x. x \<noteq> i) (tlist m v)" "m_job m' j = Some jb'" "j_type jb' = t"
      "merge_frame ({j} \<union> ({i} \<inter> noninst m)) m m'" by auto
  have "i \<notin> set (tlist m v)" for v
    using wf_list_tlist(2) [OF wf_txD(7) [OF wf], of i v] ib tl neq by (cases "v = u") auto
  then have "tlist m' v = tlist m v" for v by (simp add: m'(3) filter_neq_idem)
  moreover have "{j} \<union> ({i} \<inter> noninst m) \<subseteq> set (tlist m u) \<inter> noninst m"
    using tl j ib by (auto simp: noninst_def)
  ultimately have "merged_unit u t m m'"
    using m' tl merge_frame_mono unfolding merged_unit_def by fastforce
  then show ?thesis using m'(1) by blast
qed

lemma merge_unit_ok:
  assumes wf: "wf_tx m" and ne: "tlist m u \<noteq> []" and t0: "chain_type m (tlist m u) = Some (Inr t0)"
  shows "\<exists>m'. merge_unit u m = Some m' \<and> merged_unit u t0 m m'"
proof -
  note inst = wf_txD(3) [OF wf, unfolded wf_inst_def]
  define t1 where "t1 = (case u_job (m_unit m u) of None \<Rightarrow> t0
      | Some i \<Rightarrow> (case job_type_merge t0 (j_type (the (m_job m i))) of Inr t' \<Rightarrow> t' | Inl _ \<Rightarrow> t0))"
  have t1: "(case u_job (m_unit m u) of None \<Rightarrow> Some t0
      | Some i \<Rightarrow> do { ib \<leftarrow> m_job m i; Some (case job_type_merge t0 (j_type ib) of Inr t' \<Rightarrow> t' | Inl _ \<Rightarrow> t0) }) = Some t1"
    using inst by (fastforce simp: t1_def split: option.split)
  have sup: "job_type_is_superset t1 t0"
    using job_type_merge_superset(1) by (auto simp: t1_def split: option.split sum.split simp del: job_type_is_superset.simps)
  obtain m1 j jb where m1: "merge_chain t1 u m = Some m1" "wf_tx m1" "tlist m1 u = [j]" "m_job m1 j = Some jb"
     "if tl (tlist m u) = [] then m1 = m else j_type jb = t1 \<and> \<not> j_installed jb"
     "\<And>v. v \<noteq> u \<Longrightarrow> tlist m1 v = tlist m v" "merge_frame (set (tlist m u) \<inter> noninst m) m m1" "j \<in> set (tlist m u)"
    using merge_chain_ok [OF wf ne, of t1] by blast
  have type: "j_type jb = t0 \<or> j_type jb = t1"
  proof (cases "tl (tlist m u) = []")
    case True
    then have "m1 = m" using m1(5) by simp
    then have "job_types m (tlist m u) = Some [j_type jb]" using m1(3,4) by simp
    then show ?thesis using t0 by (simp add: chain_type_def)
  qed (use m1(5) in simp)
  have mu: "m_unit m1 = m_unit m" using m1(7) by (simp add: merge_frame_def)
  have unf: "merge_unit u m = do {
      m2 \<leftarrow> (case u_job (m_unit m u) of
               Some i \<Rightarrow> if j_installed jb then Some m1 else transaction_merge_and_delete_job j i t1 m1
             | None \<Rightarrow> Some m1);
      if tl (tlist m2 u) = [] then Some m2 else None }"
    using t0 t1 m1(1,3,4) mu by (simp add: merge_unit_def cong: option.case_cong if_cong)
  have done1: "merged_unit u t0 m m1"
    using m1 type sup unfolding merged_unit_def by auto
  show ?thesis
  proof (cases "u_job (m_unit m u) = None \<or> j_installed jb")
    case True
    then show ?thesis using unf done1 m1(3) by (auto split: option.split)
  next
    case False
    then obtain i where i: "u_job (m_unit m u) = Some i" "\<not> j_installed jb" by auto
    obtain m2 where m2: "transaction_merge_and_delete_job j i t1 m1 = Some m2" "merged_unit u t1 m1 m2"
      using merge_installed_ok [OF m1(2) _ m1(3,4) i(2)] i(1) mu by metis
    obtain j2 jb2 where j2: "tlist m2 u = [j2]" "m_job m2 j2 = Some jb2" "job_type_is_superset (j_type jb2) t1"
        "j2 \<in> set (tlist m1 u)"
      using m2(2) unfolding merged_unit_def by blast
    have "set (tlist m1 u) \<inter> noninst m1 \<subseteq> set (tlist m u) \<inter> noninst m"
    proof -
      obtain jb0 where "m_job m j = Some jb0" "same_id jb0 jb" using m1(4,7) unfolding merge_frame_def by blast
      then show ?thesis using m1(3,8) i(2) by (auto simp: noninst_def same_id_def)
    qed
    then have "merge_frame (set (tlist m u) \<inter> noninst m) m m2"
      using m2(2) merge_frame_trans [OF m1(7)] merge_frame_mono unfolding merged_unit_def by blast
    moreover have "job_type_is_superset (j_type jb2) t0"
      using job_type_is_superset_trans [OF j2(3) sup] .
    ultimately have "merged_unit u t0 m m2"
      using m2(2) m1(3,6,8) j2 unfolding merged_unit_def by auto
    then show ?thesis using unf i m2(1) j2(1) by simp
  qed
qed

text \<open>
  The jobs of each of the units are merged into one whose type covers all of them, and nothing
  else changes.
\<close>

definition merged_units :: "uid list \<Rightarrow> manager \<Rightarrow> manager \<Rightarrow> bool" where
  "merged_units us m m' \<longleftrightarrow>
     wf_tx m' \<and>
     (\<forall>u \<in> set us. \<exists>j jb. tlist m' u = [j] \<and> j \<in> set (tlist m u) \<and> m_job m' j = Some jb \<and>
        (\<forall>k \<in> set (tlist m u). \<forall>kb. m_job m k = Some kb \<longrightarrow> job_type_is_superset (j_type jb) (j_type kb))) \<and>
     (\<forall>v. v \<notin> set us \<longrightarrow> tlist m' v = tlist m v) \<and>
     merge_frame ((\<Union>u \<in> set us. set (tlist m u)) \<inter> noninst m) m m'"

lemma merge_units_ok:
  assumes "wf_tx m" "distinct us" "\<And>u. u \<in> set us \<Longrightarrow> tlist m u \<noteq> [] \<and> (\<exists>t. chain_type m (tlist m u) = Some (Inr t))"
  shows "\<exists>m'. merge_units us m = Some m' \<and> merged_units us m m'"
  using assms
proof (induction us arbitrary: m)
  case Nil
  then show ?case by (simp add: merged_units_def merge_frame_refl)
next
  case (Cons u us)
  note wf = Cons.prems(1) and wfl = wf_txD(7) [OF Cons.prems(1)]
  obtain t where t: "chain_type m (tlist m u) = Some (Inr t)" using Cons.prems(3) by auto
  obtain m1 where m1: "merge_unit u m = Some m1" "merged_unit u t m m1"
    using merge_unit_ok [OF wf _ t] Cons.prems(3) by auto
  obtain j jb where M: "wf_tx m1" "tlist m1 u = [j]" "m_job m1 j = Some jb" "job_type_is_superset (j_type jb) t"
      "\<And>v. v \<noteq> u \<Longrightarrow> tlist m1 v = tlist m v" "merge_frame (set (tlist m u) \<inter> noninst m) m m1"
      "j \<in> set (tlist m u)"
    using m1(2) unfolding merged_unit_def by blast
  have disj: "set (tlist m v) \<inter> set (tlist m u) = {}" if "v \<noteq> u" for v
  proof -
    have "False" if "x \<in> set (tlist m v)" "x \<in> set (tlist m u)" for x
      using wf_list_tlist(2) [OF wfl that(1)] wf_list_tlist(2) [OF wfl that(2)] \<open>v \<noteq> u\<close> by auto
    then show ?thesis by blast
  qed
  have pre: "tlist m1 v \<noteq> [] \<and> (\<exists>t. chain_type m1 (tlist m1 v) = Some (Inr t))" if "v \<in> set us" for v
  proof -
    have v: "v \<noteq> u" using that Cons.prems(2) by auto
    then have "chain_type m1 (tlist m v) = chain_type m (tlist m v)"
      using chain_type_frame [OF M(6)] disj by blast
    then show ?thesis using Cons.prems(3) [of v] that v M(5) by simp
  qed
  obtain m2 where m2: "merge_units us m1 = Some m2" "merged_units us m1 m2"
    using Cons.IH [OF M(1) _ pre] Cons.prems(2) by auto
  have u: "u \<notin> set us" using Cons.prems(2) by simp
  have fr2: "merge_frame ((\<Union>v \<in> set us. set (tlist m1 v)) \<inter> noninst m1) m1 m2" and tl2: "tlist m2 u = [j]"
    using m2(2) u M(2) unfolding merged_units_def by auto
  have jnot: "j \<notin> (\<Union>v \<in> set us. set (tlist m1 v))"
    using wf_list_tlist(2) [OF wf_txD(7) [OF M(1)]] M(2) u by (metis UN_E list.set_intros(1) option.inject)
  obtain jb2 where jb2: "m_job m2 j = Some jb2" "j_type jb2 = j_type jb"
  proof -
    have "rel_option same_core (m_job m1 j) (m_job m2 j)"
      using fr2 jnot by (simp add: merge_frame_def)
    then show ?thesis using M(3) that by (cases "m_job m2 j") (auto simp: same_core_def)
  qed
  have head: "\<forall>k \<in> set (tlist m u). \<forall>kb. m_job m k = Some kb \<longrightarrow> job_type_is_superset (j_type jb2) (j_type kb)"
    using chain_type_superset [OF wfl t] job_type_is_superset_trans [OF M(4)] jb2(2) by (metis)
  have rest: "\<exists>j' jb'. tlist m2 v = [j'] \<and> j' \<in> set (tlist m v) \<and> m_job m2 j' = Some jb' \<and>
      (\<forall>k \<in> set (tlist m v). \<forall>kb. m_job m k = Some kb \<longrightarrow> job_type_is_superset (j_type jb') (j_type kb))"
    if v: "v \<in> set us" for v
  proof -
    have vu: "v \<noteq> u" using v u by auto
    obtain j' jb' where j': "tlist m2 v = [j']" "m_job m2 j' = Some jb'" "j' \<in> set (tlist m v)"
        "\<And>k kb. k \<in> set (tlist m v) \<Longrightarrow> m_job m1 k = Some kb \<Longrightarrow> job_type_is_superset (j_type jb') (j_type kb)"
      using m2(2) v M(5) [OF vu] unfolding merged_units_def by metis
    have "job_type_is_superset (j_type jb') (j_type kb)" if k: "k \<in> set (tlist m v)" "m_job m k = Some kb" for k kb
    proof -
      have "rel_option same_core (m_job m k) (m_job m1 k)"
        using M(6) disj [OF vu] k(1) by (auto simp: merge_frame_def)
      then obtain kb1 where "m_job m1 k = Some kb1" "j_type kb1 = j_type kb" using k(2) by (cases "m_job m1 k") (auto simp: same_core_def)
      then show ?thesis using j'(4) [OF k(1)] by metis
    qed
    then show ?thesis using j' by blast
  qed
  have X: "(\<Union>v \<in> set us. set (tlist m1 v)) \<inter> noninst m1 \<subseteq> (\<Union>v \<in> set (u # us). set (tlist m v)) \<inter> noninst m"
  proof -
    have "x \<in> noninst m" if "x \<in> noninst m1" for x
      using that M(6) unfolding merge_frame_def noninst_def same_id_def by blast
    moreover have "(\<Union>v \<in> set us. set (tlist m1 v)) = (\<Union>v \<in> set us. set (tlist m v))"
      by (intro SUP_cong refl arg_cong [where f = set] M(5)) (use u in auto)
    ultimately show ?thesis by auto
  qed
  have "merge_frame ((\<Union>v \<in> set (u # us). set (tlist m v)) \<inter> noninst m) m m2"
    using merge_frame_trans [OF merge_frame_mono [OF M(6)] merge_frame_mono [OF fr2 X]] by auto
  then have "merged_units (u # us) m m2"
    using m2(2) head rest jb2(1) tl2 M(5,7) unfolding merged_units_def by auto
  then show ?case using m1(1) m2(1) by simp
qed

subsection \<open>Dropping an unmergeable job\<close>

lemma first_unmergeable_with_ok:
  assumes "\<And>k. k \<in> set ks \<Longrightarrow> m_job m k \<noteq> None"
  shows "\<exists>r. first_unmergeable_with m t ks = Some r \<and>
     (case r of
        None \<Rightarrow> \<forall>k \<in> set ks. job_type_is_mergeable t (j_type (the (m_job m k)))
      | Some k \<Rightarrow> k \<in> set ks \<and> \<not> job_type_is_mergeable t (j_type (the (m_job m k))))"
  using assms
proof (induction ks)
  case (Cons k ks)
  then obtain kb where "m_job m k = Some kb" by (meson list.set_intros(1) not_Some_eq)
  moreover have "\<And>x. x \<in> set ks \<Longrightarrow> m_job m x \<noteq> None" using Cons.prems by auto
  ultimately show ?case using Cons.IH by (auto split: option.splits)
qed simp

lemma first_unmergeable_pair_ok:
  assumes "\<And>k. k \<in> set js \<Longrightarrow> m_job m k \<noteq> None"
  shows "\<exists>r. first_unmergeable_pair m js = Some r \<and>
     (case r of
        None \<Rightarrow> \<forall>a \<in> set js. \<forall>b \<in> set js. job_type_is_mergeable (j_type (the (m_job m a))) (j_type (the (m_job m b)))
      | Some (a, b) \<Rightarrow> a \<in> set js \<and> b \<in> set js \<and>
          \<not> job_type_is_mergeable (j_type (the (m_job m a))) (j_type (the (m_job m b))))"
  using assms
proof (induction js)
  case (Cons j js)
  then obtain jb where jb: "m_job m j = Some jb" by (meson list.set_intros(1) not_Some_eq)
  obtain r where r: "first_unmergeable_with m (j_type jb) js = Some r"
     "case r of
        None \<Rightarrow> \<forall>k \<in> set js. job_type_is_mergeable (j_type jb) (j_type (the (m_job m k)))
      | Some k \<Rightarrow> k \<in> set js \<and> \<not> job_type_is_mergeable (j_type jb) (j_type (the (m_job m k)))"
    using first_unmergeable_with_ok [of js m "j_type jb"] Cons.prems by auto
  obtain r' where r': "first_unmergeable_pair m js = Some r'"
     "case r' of
        None \<Rightarrow> \<forall>a \<in> set js. \<forall>b \<in> set js. job_type_is_mergeable (j_type (the (m_job m a))) (j_type (the (m_job m b)))
      | Some (a, b) \<Rightarrow> a \<in> set js \<and> b \<in> set js \<and>
          \<not> job_type_is_mergeable (j_type (the (m_job m a))) (j_type (the (m_job m b)))"
    using Cons by auto
  have sym: "job_type_is_mergeable a b = job_type_is_mergeable b a" for a b
    by (simp add: job_type_is_mergeable_def job_type_merge_commute)
  have refl: "job_type_is_mergeable a a" for a by (simp add: job_type_is_mergeable_def)
  show ?case
  proof (cases r)
    case None
    then show ?thesis using r r' jb sym refl by (cases r') auto
  next
    case (Some k)
    then show ?thesis using r jb by auto
  qed
qed simp

text \<open>
  If all pairs of a list of types can be merged, the list can be merged: the assumption of
  \<open>delete_one_unmergeable_job\<close> on the job types.
\<close>

lemma merge_keeps_stop: "job_type_merge a b = Inr c \<Longrightarrow> c = JOB_STOP \<longleftrightarrow> a = JOB_STOP"
  by (cases a; cases b; simp add: job_defs split: if_splits)

lemma job_type_merge_list_ok:
  assumes "\<forall>x \<in> set ts. job_type_is_mergeable t x"
  shows "\<exists>r. job_type_merge_list t ts = Inr r"
  using assms
proof (induction ts arbitrary: t)
  case (Cons k ks)
  obtain t' where t': "job_type_merge t k = Inr t'"
    using Cons.prems by (auto simp: job_type_is_mergeable_def isl_def split: sum.splits)
      (metis isl_def sum.exhaust)
  have "\<forall>x \<in> set ks. job_type_is_mergeable t' x"
    using Cons.prems merge_keeps_stop [OF t']
    by (auto simp: job_type_mergeable_iff job_type_is_conflicting_def)
  then show ?case using Cons.IH t' by auto
qed simp

lemma unmergeable_victim_ok:
  assumes wfd: "wf_deps m" and j: "m_job m j = Some jb" and k: "m_job m k = Some kb"
  shows "\<exists>v. unmergeable_victim m j k = Some v \<and>
     (case v of
        None \<Rightarrow> j_matters_to_anchor jb \<and> j_matters_to_anchor kb
      | Some d \<Rightarrow> d = j \<and> \<not> j_matters_to_anchor jb \<or> d = k \<and> \<not> j_matters_to_anchor kb)"
  using j k job_is_conflicted_by_eq [OF wfd j] job_is_conflicted_by_eq [OF wfd k]
  by (simp add: unmergeable_victim_def)

text \<open>
  The outcome of the step: a job that does not matter is gone, or two jobs that both matter cannot
  be merged.
\<close>

definition unmerged :: "manager \<Rightarrow> errno \<Rightarrow> manager \<Rightarrow> bool" where
  "unmerged m e m' \<longleftrightarrow>
     e = EAGAIN \<and> (\<exists>d db. d \<in> tjobs m \<and> m_job m d = Some db \<and> \<not> j_matters_to_anchor db \<and>
                       m' = cut_jobs (requirers m d) m) \<or>
     e = ENOEXEC \<and> m' = m \<and>
       (\<exists>u. \<exists>a \<in> set (tlist m u). \<exists>b \<in> set (tlist m u). \<exists>ab bb. m_job m a = Some ab \<and> m_job m b = Some bb \<and>
          j_matters_to_anchor ab \<and> j_matters_to_anchor bb \<and> \<not> job_type_is_mergeable (j_type ab) (j_type bb))"

lemma delete_one_unmergeable_ok:
  assumes wf: "wf_tx m" and ct: "chain_type m (tlist m u) = Some (Inl e0)" and ne: "tlist m u \<noteq> []"
  shows "\<exists>r m'. delete_one_unmergeable_job (tlist m u) m = Some (r, m') \<and>
     unmerged m (case r of Inl e \<Rightarrow> e | Inr _ \<Rightarrow> EAGAIN) m'"
proof -
  let ?js = "tlist m u"
  note wfl = wf_txD(7) [OF wf]
  have alive: "m_job m k \<noteq> None" if "k \<in> set ?js" for k using wf_list_tlist(2) [OF wfl that] by auto
  obtain r where r: "first_unmergeable_pair m ?js = Some r"
     "case r of
        None \<Rightarrow> \<forall>a \<in> set ?js. \<forall>b \<in> set ?js. job_type_is_mergeable (j_type (the (m_job m a))) (j_type (the (m_job m b)))
      | Some (a, b) \<Rightarrow> a \<in> set ?js \<and> b \<in> set ?js \<and>
          \<not> job_type_is_mergeable (j_type (the (m_job m a))) (j_type (the (m_job m b)))"
    using first_unmergeable_pair_ok [of ?js m] alive by blast
  obtain a b where ab: "r = Some (a, b)" "a \<in> set ?js" "b \<in> set ?js"
      "\<not> job_type_is_mergeable (j_type (the (m_job m a))) (j_type (the (m_job m b)))"
  proof (cases r)
    case None
    then have "\<forall>x \<in> set (map (\<lambda>j. j_type (the (m_job m j))) (tl ?js)). job_type_is_mergeable (j_type (the (m_job m (hd ?js)))) x"
      using r(2) ne by (cases ?js) auto
    from job_type_merge_list_ok [OF this] chain_type_ok [OF wfl refl, of u] ct ne
    show ?thesis by auto
  qed (use r(2) in auto)
  obtain ja jb where jab: "m_job m a = Some ja" "m_job m b = Some jb" using alive ab(2,3) by blast
  obtain v where v: "unmergeable_victim m a b = Some v"
     "case v of
        None \<Rightarrow> j_matters_to_anchor ja \<and> j_matters_to_anchor jb
      | Some d \<Rightarrow> d = a \<and> \<not> j_matters_to_anchor ja \<or> d = b \<and> \<not> j_matters_to_anchor jb"
    using unmergeable_victim_ok [OF wf_txD(6) [OF wf] jab] by blast
  show ?thesis
  proof (cases v)
    case None
    then have "unmerged m ENOEXEC m"
      using v(2) ab jab unfolding unmerged_def by fastforce
    then show ?thesis using None v(1) r(1) ab(1) by (simp add: delete_one_unmergeable_job_def)
  next
    case (Some d)
    then have d: "d \<in> set ?js" "\<exists>db. m_job m d = Some db \<and> \<not> j_matters_to_anchor db"
      using v(2) ab jab by auto
    then have "transaction_delete_job d True m = Some (cut_jobs (requirers m d) m)"
      using transaction_delete_job_cut [OF wf_txD(1) [OF wf], of d True] by (auto simp: del_set_def)
    moreover have "unmerged m EAGAIN (cut_jobs (requirers m d) m)"
      using d tlist_tjobs unfolding unmerged_def by blast
    ultimately show ?thesis using Some v(1) r(1) ab(1) by (simp add: delete_one_unmergeable_job_def)
  qed
qed

lemma merge_check_ok:
  assumes wf: "wf_tx m" and xs: "set xs \<subseteq> set (m_transaction_jobs m)"
  shows "\<exists>r m'. merge_check xs m = Some (r, m') \<and>
     (case r of
        Inr _ \<Rightarrow> m' = m \<and> (\<forall>(u, js) \<in> set xs. \<exists>t. chain_type m (tlist m u) = Some (Inr t))
      | Inl e \<Rightarrow> unmerged m e m')"
  using xs
proof (induction xs)
  case (Cons p xs)
  obtain u js where p: "p = (u, js)" by (cases p)
  note wfl = wf_txD(7) [OF wf]
  have tl: "tlist m u = js" using tlist_mem [OF wfl] Cons.prems p by auto
  have ne: "js \<noteq> []" using wf_listD(2) [OF wfl] Cons.prems p by auto
  obtain t where t: "chain_type m js = Some t" using chain_type_ok [OF wfl tl] ne by auto
  show ?case
  proof (cases t)
    case (Inr t')
    then show ?thesis using Cons p t tl by (auto split: sum.splits)
  next
    case (Inl e0)
    obtain r m' where "delete_one_unmergeable_job js m = Some (r, m')"
        "unmerged m (case r of Inl e \<Rightarrow> e | Inr _ \<Rightarrow> EAGAIN) m'"
      using delete_one_unmergeable_ok [OF wf, of u e0] t Inl tl ne by auto
    then show ?thesis using Inl t p by (cases r) auto
  qed
qed simp

lemma transaction_merge_jobs_ok:
  assumes wf: "wf_tx m"
  shows "\<exists>r m'. transaction_merge_jobs m = Some (r, m') \<and>
     (case r of Inr _ \<Rightarrow> merged_units (omap_keys (m_transaction_jobs m)) m m' | Inl e \<Rightarrow> unmerged m e m')"
proof -
  note wfl = wf_txD(7) [OF wf]
  obtain r m1 where r: "merge_check (m_transaction_jobs m) m = Some (r, m1)"
     "case r of
        Inr _ \<Rightarrow> m1 = m \<and> (\<forall>(u, js) \<in> set (m_transaction_jobs m). \<exists>t. chain_type m (tlist m u) = Some (Inr t))
      | Inl e \<Rightarrow> unmerged m e m1"
    using merge_check_ok [OF wf subset_refl] by blast
  show ?thesis
  proof (cases r)
    case (Inl e)
    then show ?thesis using r by (simp add: transaction_merge_jobs_def)
  next
    case (Inr x)
    have "tlist m u \<noteq> [] \<and> (\<exists>t. chain_type m (tlist m u) = Some (Inr t))"
      if u: "u \<in> set (omap_keys (m_transaction_jobs m))" for u
    proof -
      obtain js where js: "(u, js) \<in> set (m_transaction_jobs m)" using u by auto
      then show ?thesis using r(2) Inr tlist_mem [OF wfl js] wf_listD(2) [OF wfl js] by auto
    qed
    from merge_units_ok [OF wf wf_listD(1) [OF wfl] this]
    show ?thesis using r Inr by (auto simp: transaction_merge_jobs_def)
  qed
qed

lemma unmerged_wf:
  assumes wf: "wf_tx m" and u: "unmerged m e m'"
  shows "wf_tx m'" "shrinks m m'" "e = EAGAIN \<Longrightarrow> tjobs m' \<subset> tjobs m" "e = EAGAIN \<or> e = ENOEXEC"
proof -
  show "e = EAGAIN \<or> e = ENOEXEC" using u by (auto simp: unmerged_def)
  show "wf_tx m'" using u wf wf_tx_cut by (auto simp: unmerged_def)
  show "shrinks m m'" using u shrinks_cut shrinks_refl by (auto simp: unmerged_def)
  show "tjobs m' \<subset> tjobs m" if e: "e = EAGAIN"
  proof -
    obtain d where d: "d \<in> tjobs m" "m' = cut_jobs (requirers m d) m"
      using u e by (auto simp: unmerged_def)
    then have "d \<notin> tjobs m'" "tjobs m' \<subseteq> tjobs m" by auto
    then show ?thesis using d(1) by blast
  qed
qed

text \<open>Every unit of the transaction has one job.\<close>

definition all_merged :: "manager \<Rightarrow> bool" where
  "all_merged m \<longleftrightarrow> (\<forall>(u, js) \<in> set (m_transaction_jobs m). tl js = [])"

lemma tjobs_tlist:
  assumes "wf_list m"
  shows "tjobs m = (\<Union>u. set (tlist m u))"
proof
  show "tjobs m \<subseteq> (\<Union>u. set (tlist m u))" using tlist_mem [OF assms] by (fastforce simp: tjobs_iff)
  show "(\<Union>u. set (tlist m u)) \<subseteq> tjobs m" using tlist_tjobs by blast
qed

lemma tlist_Nil_iff: "wf_list m \<Longrightarrow> tlist m u = [] \<longleftrightarrow> u \<notin> set (omap_keys (m_transaction_jobs m))"
proof -
  assume wfl: "wf_list m"
  show ?thesis
  proof
    assume "u \<notin> set (omap_keys (m_transaction_jobs m))"
    then show "tlist m u = []" by (simp add: tlist_def omap_get_def map_of_eq_None_iff [THEN iffD2])
  next
    assume "tlist m u = []"
    then show "u \<notin> set (omap_keys (m_transaction_jobs m))"
      using tlist_mem [OF wfl] wf_listD(2) [OF wfl] by fastforce
  qed
qed

lemma merged_units_all:
  assumes wf: "wf_tx m" and M: "merged_units (omap_keys (m_transaction_jobs m)) m m'"
  shows "all_merged m'"
  unfolding all_merged_def
proof (clarify)
  fix u js assume js: "(u, js) \<in> set (m_transaction_jobs m')"
  have wfl': "wf_list m'" using M wf_txD(7) by (simp add: merged_units_def)
  have tl: "tlist m' u = js" "js \<noteq> []" using tlist_mem [OF wfl' js] wf_listD(2) [OF wfl' js] by auto
  have "u \<in> set (omap_keys (m_transaction_jobs m))"
  proof (rule ccontr)
    assume "u \<notin> set (omap_keys (m_transaction_jobs m))"
    then show False
      using M tl tlist_Nil_iff [OF wf_txD(7) [OF wf], of u] unfolding merged_units_def by auto
  qed
  then obtain j where "tlist m' u = [j]" using M unfolding merged_units_def by blast
  then show "tl js = []" using tl by simp
qed

lemma merged_units_shrinks:
  assumes wf: "wf_tx m" and M: "merged_units (omap_keys (m_transaction_jobs m)) m m'"
  shows "shrinks m m'"
proof -
  have wfl: "wf_list m'" using M wf_txD(7) by (auto simp: merged_units_def)
  have "set (tlist m' u) \<subseteq> tjobs m" for u
  proof -
    have "set (tlist m' u) \<subseteq> set (tlist m u)"
      using M unfolding merged_units_def by (cases "u \<in> set (omap_keys (m_transaction_jobs m))") auto
    then show ?thesis using tlist_tjobs by blast
  qed
  then have tj: "tjobs m' \<subseteq> tjobs m" using tjobs_tlist [OF wfl] by blast
  obtain X where X: "X \<subseteq> noninst m" and fr: "merge_frame X m m'"
    using M unfolding merged_units_def by blast
  have "rel_option same_core (inst m x) (inst m' x)" for x
  proof (cases "x \<in> X")
    case True
    then obtain xb where xb: "m_job m x = Some xb" "\<not> j_installed xb" using X by (auto simp: noninst_def)
    have "\<not> j_installed xb'" if "m_job m' x = Some xb'" for xb'
      using fr that xb unfolding merge_frame_def same_id_def by fastforce
    then show ?thesis using xb by (auto simp: inst_def split: option.split)
  next
    case False
    then show ?thesis using fr by (intro rel_inst_job) (simp add: merge_frame_def)
  qed
  then show ?thesis using M tj by (auto simp: shrinks_def merged_units_def merge_frame_def)
qed

text \<open>The requested job is merged into a job of its unit that covers its type.\<close>

lemma merged_units_anchor:
  assumes wf: "wf_tx m" and M: "merged_units (omap_keys (m_transaction_jobs m)) m m'" and j: "anchor_job m u t j"
  shows "\<exists>j'. anchor_job m' u t j'"
proof -
  have wf': "wf_tx m'" and lk: "links_kept m m'" using M by (auto simp: merged_units_def merge_frame_def)
  obtain jb l d where jb: "j \<in> set (tlist m u)" "m_job m j = Some jb" "job_type_is_superset (j_type jb) t"
      "omap_get (m_dep m) l = Some d" "d_object d = j" "d_subject d = None"
    using j unfolding anchor_job_def by blast
  have "tlist m u \<noteq> []" using jb(1) by auto
  then have "u \<in> set (omap_keys (m_transaction_jobs m))" using tlist_Nil_iff [OF wf_txD(7) [OF wf]] by blast
  then obtain j' jb' where j': "tlist m' u = [j']" "m_job m' j' = Some jb'" "job_type_is_superset (j_type jb') (j_type jb)"
    using M jb(1,2) unfolding merged_units_def by metis
  obtain d' b' where d': "omap_get (m_dep m') l = Some d'" "d_subject d' = None"
      "m_job m' (d_object d') = Some b'" "j_unit b' = j_unit jb"
    using jb(2,4,5,6) by (auto elim!: links_keptE [OF lk])
  have unit: "j_unit jb = u" using wf_list_tlist(2) [OF wf_txD(7) [OF wf] jb(1)] jb(2) by auto
  have "d_object d' \<in> tjobs m'" using wf_txD(2) [OF wf'] d'(1) by (auto simp: wf_scope_def)
  then obtain v where v: "d_object d' \<in> set (tlist m' v)" using tjobs_tlist [OF wf_txD(7) [OF wf']] by blast
  then have "v = u" using wf_list_tlist(2) [OF wf_txD(7) [OF wf'] v] d'(3,4) unit by auto
  then have "d_object d' = j'" using v j'(1) by simp
  then have "anchor_job m' u t j'"
    using j' d' job_type_is_superset_trans [OF j'(3) jb(3)] unfolding anchor_job_def by auto
  then show ?thesis ..
qed

lemma requirers_unmattered:
  assumes "matters_closed m" "d \<notin> matters_set m"
  shows "requirers m d \<inter> matters_set m = {}"
proof -
  have "d \<in> matters_set m" if "(k, d) \<in> (req_rel m)\<^sup>*" "k \<in> matters_set m" for k
    using that by induction (use assms(1) in \<open>auto simp: matters_closed_def\<close>)
  then show ?thesis using assms(2) by (auto simp: requirers_def)
qed

lemma unmerged_served:
  assumes wf: "wf_tx m" and un: "unmerged m e m'" and s: "served m u t"
  shows "served m' u t"
  using un unfolding unmerged_def
proof (elim disjE conjE exE)
  fix d db assume d: "m_job m d = Some db" "\<not> j_matters_to_anchor db" and m': "m' = cut_jobs (requirers m d) m"
  have "requirers m d \<inter> matters_set m = {}"
    using d s by (intro requirers_unmattered) (auto simp: served_def matters_set_def)
  then show ?thesis unfolding m' by (intro served_cut [OF wf_txD(7) [OF wf] s]) auto
qed (use s in auto)

lemma merge_loop_ok:
  assumes "wf_tx m"
  shows "\<exists>r m'. merge_loop mode m = Some (r, m') \<and> wf_tx m' \<and> shrinks m m' \<and>
     (r = Inr () \<and> all_merged m' \<and> (\<forall>u t. served m u t \<longrightarrow> (\<exists>j. anchor_job m' u t j)) \<or> r = Inl ENOEXEC)"
  using assms
proof (induction "card (tjobs m)" arbitrary: m rule: less_induct)
  case less
  obtain r m1 where m1: "transaction_merge_jobs m = Some (r, m1)"
     "case r of Inr _ \<Rightarrow> merged_units (omap_keys (m_transaction_jobs m)) m m1 | Inl e \<Rightarrow> unmerged m e m1"
    using transaction_merge_jobs_ok [OF less.prems] by blast
  show ?case
  proof (cases r)
    case (Inr x)
    then have M: "merged_units (omap_keys (m_transaction_jobs m)) m m1" using m1(2) by simp
    have "merge_loop mode m = Some (Inr (), m1)" using m1(1) Inr by (subst merge_loop.simps) simp
    moreover have "\<exists>j. anchor_job m1 u t j" if "served m u t" for u t
      using that merged_units_anchor [OF less.prems M] unfolding served_def by blast
    ultimately show ?thesis
      using M merged_units_all [OF less.prems M] merged_units_shrinks [OF less.prems M]
      by (simp add: merged_units_def)
  next
    case (Inl e)
    then have u: "unmerged m e m1" using m1(2) by simp
    note U = unmerged_wf [OF less.prems u]
    show ?thesis
    proof (cases "e = EAGAIN")
      case True
      obtain m2 where m2: "(if mode \<noteq> JOB_ISOLATE then transaction_collect_garbage m1 else Some m1) = Some m2"
          "wf_tx m2" "shrinks m1 m2" "\<And>u t. served m1 u t \<Longrightarrow> served m2 u t"
        using collect_garbage_ok [OF U(1)] U(1) shrinks_refl by (cases "mode = JOB_ISOLATE") auto
      have "card (tjobs m2) < card (tjobs m)"
        using U(3) [OF True] m2(3) by (intro psubset_card_mono) (auto simp: shrinks_def)
      from less.hyps [OF this m2(2)] obtain r' m' where "merge_loop mode m2 = Some (r', m')" "wf_tx m'" "shrinks m2 m'"
          "r' = Inr () \<and> all_merged m' \<and> (\<forall>u t. served m2 u t \<longrightarrow> (\<exists>j. anchor_job m' u t j)) \<or> r' = Inl ENOEXEC" by blast
      moreover have "served m2 u t" if "served m u t" for u t
        using m2(4) unmerged_served [OF less.prems u that] by blast
      moreover from calculation have "shrinks m m'" using shrinks_trans U(2) m2(3) by blast
      ultimately show ?thesis using m1(1) Inl True m2(1) by (subst merge_loop.simps) auto
    next
      case False
      then have "merge_loop mode m = Some (Inl e, m1)" using m1(1) Inl by (subst merge_loop.simps) simp
      then show ?thesis using False U by auto
    qed
  qed
qed

end
