(* ===== verification/Transaction_Apply.thy ===== *)
theory Transaction_Apply
  imports Transaction_Merge
begin

section \<open>Installing a merged transaction\<close>

text \<open>
  \<open>transaction_apply\<close> on a merged transaction whose job ids are distinct: every job gets into
  the table, becomes the job of its unit and replaces the one that was there, and is queued; then
  the links go (\<open>transaction_apply_ok\<close>).  \<open>inst_inv\<close> is the invariant of the loop in between,
  when some jobs of the transaction are installed and some are not.
\<close>

subsection \<open>Entering the jobs into the table\<close>

definition ids_inj :: "manager \<Rightarrow> bool" where
  "ids_inj m \<longleftrightarrow> (\<forall>j k jb kb. m_job m j = Some jb \<and> m_job m k = Some kb \<and> j_id jb = j_id kb \<longrightarrow> j = k)"

definition jid :: "manager \<Rightarrow> jref \<Rightarrow> 32 word" where
  "jid m j = j_id (the (m_job m j))"

definition pending :: "manager \<Rightarrow> (uid, jref list) omap \<Rightarrow> jref list" where
  "pending m xs = filter (\<lambda>j. j \<in> noninst m) (map (hd \<circ> snd) xs)"

lemma omap_put_new: "k \<notin> set (omap_keys xs) \<Longrightarrow> omap_put k v xs = (Inr 1, xs @ [(k, v)])"
  by (simp add: omap_put_def map_of_eq_None_iff [THEN iffD2])

lemma put_jobs_ok:
  assumes "\<forall>(u, js) \<in> set xs. tl js = [] \<and> m_job m (hd js) \<noteq> None"
    and "distinct (map (jid m) (pending m xs))"
    and "jid m ` set (pending m xs) \<inter> set (omap_keys (m_jobs m)) = {}"
  shows "put_jobs xs m = Some (Inr (), m\<lparr>m_jobs := m_jobs m @ map (\<lambda>j. (jid m j, j)) (pending m xs)\<rparr>)"
  using assms
proof (induction xs arbitrary: m)
  case Nil
  then show ?case by (simp add: pending_def)
next
  case (Cons p xs)
  obtain u js where p: "p = (u, js)" by (cases p)
  obtain jb where jb: "m_job m (hd js) = Some jb" "tl js = []" using Cons.prems(1) p by auto
  show ?case
  proof (cases "j_installed jb")
    case True
    then have "pending m (p # xs) = pending m xs" using jb by (simp add: pending_def p noninst_def)
    then show ?thesis using Cons True jb p by simp
  next
    case False
    let ?j = "hd js"
    let ?m = "m\<lparr>m_jobs := m_jobs m @ [(j_id jb, ?j)]\<rparr>"
    have pend: "pending m (p # xs) = ?j # pending m xs" using jb False by (simp add: pending_def p noninst_def)
    have same: "pending ?m xs = pending m xs" "jid ?m = jid m"
      by (simp_all add: pending_def noninst_def jid_def fun_eq_iff)
    have id: "jid m ?j = j_id jb" using jb by (simp add: jid_def)
    have "put_jobs xs ?m = Some (Inr (), ?m\<lparr>m_jobs := m_jobs ?m @ map (\<lambda>j. (jid ?m j, j)) (pending ?m xs)\<rparr>)"
      by (rule Cons.IH) (use Cons.prems pend same id in auto)
    moreover have "omap_put (j_id jb) ?j (m_jobs m) = (Inr 1, m_jobs m @ [(j_id jb, ?j)])"
      using Cons.prems(3) pend id by (intro omap_put_new) auto
    ultimately show ?thesis
      unfolding pend using jb False by (simp add: p same id)
  qed
qed

subsection \<open>Installing\<close>

text \<open>The invariant of the loop that installs the jobs of a merged transaction.\<close>

definition wf_table :: "manager \<Rightarrow> bool" where
  "wf_table m \<longleftrightarrow>
     distinct (omap_keys (m_jobs m)) \<and>
     (\<forall>i j. omap_get (m_jobs m) i = Some j \<longrightarrow> (\<exists>jb. m_job m j = Some jb \<and> j_id jb = i)) \<and>
     (\<forall>j jb. m_job m j = Some jb \<longrightarrow> omap_get (m_jobs m) (j_id jb) = Some j)"

definition wf_units :: "manager \<Rightarrow> bool" where
  "wf_units m \<longleftrightarrow>
     (\<forall>u j. u_job (m_unit m u) = Some j \<longrightarrow> (\<exists>jb. m_job m j = Some jb \<and> j_installed jb \<and> j_unit jb = u)) \<and>
     (\<forall>j jb. m_job m j = Some jb \<and> j_installed jb \<longrightarrow> u_job (m_unit m (j_unit jb)) = Some j)"

definition wf_replaced :: "manager \<Rightarrow> bool" where
  "wf_replaced m \<longleftrightarrow>
     (\<forall>(u, js) \<in> set (m_transaction_jobs m). \<forall>i ib.
        hd js \<in> noninst m \<and> u_job (m_unit m u) = Some i \<and> m_job m i = Some ib \<longrightarrow>
        j_subject_list ib = [] \<and> j_object_list ib = [])"

definition inst_inv :: "manager \<Rightarrow> bool" where
  "inst_inv m \<longleftrightarrow>
     wf_deps m \<and> wf_list m \<and> wf_q m \<and> wf_queues m \<and> wf_next m \<and> all_merged m \<and>
     noninst m \<subseteq> tjobs m \<and> wf_table m \<and> wf_units m \<and> wf_replaced m"

lemma inst_invD:
  assumes "inst_inv m"
  shows "wf_deps m" "wf_list m" "wf_q m" "wf_queues m" "wf_next m" "all_merged m"
    "noninst m \<subseteq> tjobs m" "wf_table m" "wf_units m" "wf_replaced m"
  using assms by (simp_all add: inst_inv_def)

lemma unlink_unlinked:
  assumes "m_job m i = Some ib" "j_subject_list ib = []" "j_object_list ib = []" "i \<notin> set (tlist m (j_unit ib))"
  shows "manager_transaction_unlink_job i dd m = Some m"
  using assms
  by (simp add: manager_transaction_unlink_job_def unlink_transaction_def free_subject_list.simps unlink_objects.simps)

text \<open>The state after \<open>job_free\<close> of the job that a new one replaces.\<close>

definition gc_unit :: "uid \<Rightarrow> manager \<Rightarrow> manager" where
  "gc_unit u m = unit_add_to_gc_queue u (upd_unit u (\<lambda>x. x\<lparr>u_job := None\<rparr>) m)"

lemma gc_unit_sel [simp]:
  "m_job (gc_unit u m) = m_job m" "m_jobs (gc_unit u m) = m_jobs m" "m_dep (gc_unit u m) = m_dep m"
  "m_run_queue (gc_unit u m) = m_run_queue m" "m_dbus_job_queue (gc_unit u m) = m_dbus_job_queue m"
  "m_transaction_jobs (gc_unit u m) = m_transaction_jobs m" "m_transaction_anchor (gc_unit u m) = m_transaction_anchor m"
  "m_next_job (gc_unit u m) = m_next_job m" "m_next_dep (gc_unit u m) = m_next_dep m"
  "m_units (gc_unit u m) = m_units m" "m_current_job_id (gc_unit u m) = m_current_job_id m"
  "u_job (m_unit (gc_unit u m) v) = (if v = u then None else u_job (m_unit m v))"
  by (simp_all add: gc_unit_def unit_add_to_gc_queue_def upd_unit_def Let_def)

lemma job_free_installed:
  assumes i: "m_job m i = Some ib" "j_installed ib" "u_job (m_unit m (j_unit ib)) = Some i"
    and none: "j_subject_list ib = []" "j_object_list ib = []" "i \<notin> set (tlist m (j_unit ib))"
  shows "job_free i m = Some ((gc_unit (j_unit ib) m)
     \<lparr>m_jobs := omap_remove (j_id ib) (m_jobs m),
      m_run_queue := (if j_in_run_queue ib then remove1 i (m_run_queue m) else m_run_queue m),
      m_dbus_job_queue := (if j_in_dbus_queue ib then remove1 i (m_dbus_job_queue m) else m_dbus_job_queue m),
      m_job := (m_job m)(i := None)\<rparr>)"
proof -
  let ?m1 = "(gc_unit (j_unit ib) m)\<lparr>m_jobs := omap_remove (j_id ib) (m_jobs m),
      m_job := (m_job m)(i \<mapsto> ib\<lparr>j_installed := False\<rparr>)\<rparr>"
  have "tlist ?m1 = tlist m" by (simp add: tlist_def fun_eq_iff)
  then have "manager_transaction_unlink_job i True ?m1 = Some ?m1"
    by (intro unlink_unlinked [of _ _ "ib\<lparr>j_installed := False\<rparr>"]) (use none in auto)
  then show ?thesis
    using i by (simp add: job_free_def upd_job_def gc_unit_def [symmetric] job_release_def)
qed

lemma all_merged_head:
  assumes "inst_inv m" "m_transaction_jobs m = (u, js) # rest"
  shows "\<exists>j jb. js = [j] \<and> m_job m j = Some jb \<and> j_unit jb = u \<and> u \<notin> set (omap_keys rest)"
proof -
  have mem: "(u, js) \<in> set (m_transaction_jobs m)" using assms(2) by simp
  have "tl js = []" using inst_invD(6) [OF assms(1)] mem by (auto simp: all_merged_def)
  moreover have "js \<noteq> []" using wf_listD(2) [OF inst_invD(2) [OF assms(1)] mem] .
  ultimately obtain j where js: "js = [j]" by (cases js) auto
  then obtain jb where "m_job m j = Some jb" "j_unit jb = u"
    using wf_listD(4) [OF inst_invD(2) [OF assms(1)] mem, of j] by auto
  moreover have "u \<notin> set (omap_keys rest)"
    using wf_listD(1) [OF inst_invD(2) [OF assms(1)]] assms(2) by simp
  ultimately show ?thesis using js by blast
qed

lemma wf_list_rest:
  assumes "wf_list m" "m_transaction_jobs m = (u, js) # rest"
  shows "wf_list (m\<lparr>m_transaction_jobs := rest\<rparr>)"
  using assms by (auto simp: wf_list_def)

text \<open>An installed job at the head of the transaction is skipped.\<close>

lemma inst_skip:
  assumes inv: "inst_inv m" and tx: "m_transaction_jobs m = (u, js) # rest" and inst: "hd js \<notin> noninst m"
  shows "inst_inv (m\<lparr>m_transaction_jobs := rest\<rparr>)"
proof -
  let ?m = "m\<lparr>m_transaction_jobs := rest\<rparr>"
  note I = inst_invD [OF inv]
  obtain j where js: "js = [j]" using all_merged_head [OF inv tx] by blast
  have "noninst ?m \<subseteq> tjobs ?m"
    using I(7) inst tx js by (auto simp: noninst_def tjobs_def)
  moreover have "wf_deps ?m" using I(1) by (simp add: wf_deps_def cong: option.case_cong)
  moreover have "wf_q ?m" "wf_queues ?m" "wf_next ?m" "wf_table ?m" "wf_units ?m"
    using I by (simp_all add: wf_q_def wf_queues_def wf_next_def wf_table_def wf_units_def)
  moreover have "all_merged ?m" using I(6) tx by (simp add: all_merged_def)
  moreover have "wf_replaced ?m" using I(10) tx by (simp add: wf_replaced_def noninst_def)
  ultimately show ?thesis using wf_list_rest [OF I(2) tx] by (simp add: inst_inv_def)
qed

text \<open>Freeing the replaced job.\<close>

definition freed :: "jref \<Rightarrow> job \<Rightarrow> manager \<Rightarrow> manager" where
  "freed i ib m = (gc_unit (j_unit ib) m)
     \<lparr>m_jobs := omap_remove (j_id ib) (m_jobs m),
      m_run_queue := (if j_in_run_queue ib then remove1 i (m_run_queue m) else m_run_queue m),
      m_dbus_job_queue := (if j_in_dbus_queue ib then remove1 i (m_dbus_job_queue m) else m_dbus_job_queue m),
      m_job := (m_job m)(i := None)\<rparr>"

lemma freed_sel [simp]:
  "m_job (freed i ib m) = (m_job m)(i := None)" "m_jobs (freed i ib m) = omap_remove (j_id ib) (m_jobs m)"
  "m_dep (freed i ib m) = m_dep m"
  "m_transaction_jobs (freed i ib m) = m_transaction_jobs m" "m_transaction_anchor (freed i ib m) = m_transaction_anchor m"
  "m_next_job (freed i ib m) = m_next_job m" "m_next_dep (freed i ib m) = m_next_dep m"
  "m_units (freed i ib m) = m_units m"
  "m_run_queue (freed i ib m) = (if j_in_run_queue ib then remove1 i (m_run_queue m) else m_run_queue m)"
  "m_dbus_job_queue (freed i ib m) = (if j_in_dbus_queue ib then remove1 i (m_dbus_job_queue m) else m_dbus_job_queue m)"
  "u_job (m_unit (freed i ib m) v) = (if v = j_unit ib then None else u_job (m_unit m v))"
  by (simp_all add: freed_def)

lemma inst_inv_freed:
  assumes inv: "inst_inv m" and i: "m_job m i = Some ib" "j_installed ib"
    and none: "j_subject_list ib = []" "j_object_list ib = []" "i \<notin> tjobs m"
  shows "inst_inv (freed i ib m)" (is "inst_inv ?m")
proof -
  note I = inst_invD [OF inv]
  have uj: "u_job (m_unit m (j_unit ib)) = Some i" using I(9) i unfolding wf_units_def by blast
  have unused: "d_object d \<noteq> i" "d_subject d \<noteq> Some i" if "omap_get (m_dep m) l = Some d" for l d
    using that none set_subject_list [OF I(1) i(1)] set_object_list [OF I(1) i(1)] by auto
  have "wf_deps ?m"
    unfolding wf_deps_def freed_sel
    using wf_depsD(1,5-10) [OF I(1)] wf_depsD(2-4) [OF I(1)] unused
    by (intro conjI allI impI ballI) (auto split: option.splits if_splits)
  moreover have "wf_list ?m"
  proof -
    have "j \<noteq> i" if "(u, ls) \<in> set (m_transaction_jobs m)" "j \<in> set ls" for u ls j
      using none(3) that by (auto simp: tjobs_iff)
    then show ?thesis using I(2) unfolding wf_list_def freed_sel by fastforce
  qed
  moreover have "wf_q ?m" using I(3) by (auto simp: wf_q_def)
  moreover have "wf_queues ?m"
    using I(4) i(1) unfolding wf_queues_def freed_sel by (auto split: if_splits)
  moreover have "wf_next ?m" using I(5) by (simp add: wf_next_def)
  moreover have "all_merged ?m" using I(6) by (simp add: all_merged_def)
  moreover have "noninst ?m \<subseteq> tjobs ?m" using I(7) by (auto simp: noninst_def tjobs_def)
  moreover have "wf_table ?m"
  proof -
    note T = I(8) [unfolded wf_table_def]
    have get: "omap_get (omap_remove k xs) k' = (if k' = k then None else omap_get xs k')"
      for k k' and xs :: "(32 word, jref) omap"
      by (simp add: omap_get_def omap_remove_def)
    have "j_id jb \<noteq> j_id ib" if "m_job m j = Some jb" "j \<noteq> i" for j jb
      using T that i(1) by (metis option.inject)
    moreover have "j \<noteq> i" if "omap_get (m_jobs m) k = Some j" "k \<noteq> j_id ib" for k j
      using T that i(1) by fastforce
    moreover have "distinct (omap_keys (omap_remove (j_id ib) (m_jobs m)))"
      using T by (auto simp: omap_remove_def intro: distinct_map_filter_fst)
    ultimately show ?thesis using T unfolding wf_table_def freed_sel get by auto
  qed
  moreover have "wf_units ?m"
  proof -
    note U = I(9) [unfolded wf_units_def]
    have "j \<noteq> i" if "u_job (m_unit m u) = Some j" "u \<noteq> j_unit ib" for u j
      using U that i(1) by fastforce
    moreover have "j_unit jb \<noteq> j_unit ib" if "m_job m j = Some jb" "j_installed jb" "j \<noteq> i" for j jb
      using U that uj by force
    ultimately show ?thesis using U unfolding wf_units_def freed_sel by auto
  qed
  moreover have "wf_replaced ?m"
    using I(10) unfolding wf_replaced_def freed_sel by (fastforce simp: noninst_def split: if_splits)
  ultimately show ?thesis by (simp add: inst_inv_def)
qed

text \<open>Installing the job whose unit has no job.\<close>

definition enter :: "uid \<Rightarrow> jref \<Rightarrow> job \<Rightarrow> manager \<Rightarrow> manager" where
  "enter u j jb m =
     (upd_unit u (\<lambda>x. x\<lparr>u_job := Some j\<rparr>) m)
       \<lparr>m_n_installed_jobs := m_n_installed_jobs m + 1,
        m_run_queue := j # m_run_queue m, m_dbus_job_queue := j # m_dbus_job_queue m,
        m_job := (m_job m)(j \<mapsto> jb\<lparr>j_installed := True, j_in_run_queue := True, j_in_dbus_queue := True,
                                   j_timer := j_timer jb \<or> u_job_timeout (m_unit m u) \<noteq> 0\<rparr>)\<rparr>"

lemma install_job_enter:
  assumes none: "u_job (m_unit m u) = None" and j: "m_job m j = Some jb" "j_unit jb = u"
    and q: "\<not> j_in_run_queue jb" "\<not> j_in_dbus_queue jb"
  shows "install_job u j m = Some (enter u j jb m)"
  using assms
  by (cases jb) (auto simp: install_job_def upd_job_def job_add_to_run_queue_def job_add_to_dbus_queue_def
      job_start_timer_def enter_def upd_unit_def)


lemma enter_sel [simp]:
  "m_job (enter u j jb m) = (m_job m)(j \<mapsto> jb\<lparr>j_installed := True, j_in_run_queue := True, j_in_dbus_queue := True,
                                   j_timer := j_timer jb \<or> u_job_timeout (m_unit m u) \<noteq> 0\<rparr>)"
  "m_jobs (enter u j jb m) = m_jobs m" "m_dep (enter u j jb m) = m_dep m"
  "m_transaction_jobs (enter u j jb m) = m_transaction_jobs m"
  "m_transaction_anchor (enter u j jb m) = m_transaction_anchor m"
  "m_next_job (enter u j jb m) = m_next_job m" "m_next_dep (enter u j jb m) = m_next_dep m"
  "m_units (enter u j jb m) = m_units m"
  "m_run_queue (enter u j jb m) = j # m_run_queue m" "m_dbus_job_queue (enter u j jb m) = j # m_dbus_job_queue m"
  "u_job (m_unit (enter u j jb m) v) = (if v = u then Some j else u_job (m_unit m v))"
  by (simp_all add: enter_def upd_unit_def)

lemma inst_inv_enter:
  assumes inv: "inst_inv m" and tx: "m_transaction_jobs m = (u, [j]) # rest"
    and j: "m_job m j = Some jb" "\<not> j_installed jb" and none: "u_job (m_unit m u) = None"
  shows "inst_inv (enter u j jb (m\<lparr>m_transaction_jobs := rest\<rparr>))" (is "inst_inv ?m")
proof -
  note I = inst_invD [OF inv]
  have mem: "(u, [j]) \<in> set (m_transaction_jobs m)" using tx by simp
  have ju: "j_unit jb = u" using wf_listD(4) [OF I(2) mem, of j] j by auto
  have u: "u \<notin> set (omap_keys rest)" using wf_listD(1) [OF I(2)] tx by simp
  have jrest: "j \<notin> set ls" if "(v, ls) \<in> set rest" for v ls
  proof
    assume jl: "j \<in> set ls"
    have "(v, ls) \<in> set (m_transaction_jobs m)" using that tx by simp
    then have "v = u" using wf_listD(4) [OF I(2) _ jl] ju j(1) by fastforce
    then show False using that u by force
  qed
  let ?jb = "jb\<lparr>j_installed := True, j_in_run_queue := True, j_in_dbus_queue := True,
                j_timer := j_timer jb \<or> u_job_timeout (m_unit m u) \<noteq> 0\<rparr>"
  have job: "m_job ?m = (m_job m)(j \<mapsto> ?jb)" by simp
  have "wf_deps ?m"
  proof -
    have "(\<exists>xb. m_job ?m x = Some xb \<and> l \<in> set (j_object_list xb)) \<longleftrightarrow> (\<exists>xb. m_job m x = Some xb \<and> l \<in> set (j_object_list xb))"
      "(\<exists>xb. m_job ?m x = Some xb \<and> l \<in> set (j_subject_list xb)) \<longleftrightarrow> (\<exists>xb. m_job m x = Some xb \<and> l \<in> set (j_subject_list xb))"
      for x l using j(1) unfolding job by auto
    moreover have "distinct (j_subject_list xb) \<and> distinct (j_object_list xb) \<and>
        (\<forall>l \<in> set (j_subject_list xb). \<exists>d. omap_get (m_dep m) l = Some d \<and> d_subject d = Some x) \<and>
        (\<forall>l \<in> set (j_object_list xb). \<exists>d. omap_get (m_dep m) l = Some d \<and> d_object d = x)"
      if "m_job ?m x = Some xb" for x xb
      using wf_depsD(5-8) [OF I(1)] j(1) that unfolding job by (auto split: if_splits)
    ultimately show ?thesis
      using I(1) unfolding wf_deps_def by (simp cong: option.case_cong)
  qed
  moreover have "wf_list ?m"
    using wf_list_rest [OF I(2) tx] j(1) unfolding wf_list_def by fastforce
  moreover have "wf_q ?m" using I(3) unfolding wf_q_def job by auto
  moreover have "wf_queues ?m"
  proof -
    have "j \<notin> set (m_run_queue m)" "j \<notin> set (m_dbus_job_queue m)"
      using I(3,4) j unfolding wf_queues_def wf_q_def by auto
    then show ?thesis using I(4) unfolding wf_queues_def job by auto
  qed
  moreover have "wf_next ?m" using I(5) j(1) unfolding wf_next_def job by fastforce
  moreover have "all_merged ?m" using I(6) tx by (simp add: all_merged_def)
  moreover have "noninst ?m \<subseteq> tjobs ?m"
    using I(7) tx unfolding noninst_def job by (auto simp: tjobs_def)
  moreover have "wf_table ?m"
  proof -
    note T = I(8) [unfolded wf_table_def]
    have "\<exists>xb. m_job ?m x = Some xb \<and> j_id xb = i" if "omap_get (m_jobs m) i = Some x" for i x
    proof -
      have "\<exists>xb. m_job m x = Some xb \<and> j_id xb = i" using T that by blast
      then show ?thesis using j(1) unfolding job by (cases "x = j") auto
    qed
    moreover have "omap_get (m_jobs m) (j_id xb) = Some x" if "m_job ?m x = Some xb" for x xb
      using T that j(1) unfolding job by (cases "x = j") auto
    ultimately show ?thesis using T unfolding wf_table_def by simp
  qed
  moreover have "wf_units ?m"
  proof -
    note U = I(9) [unfolded wf_units_def]
    have "j_unit xb \<noteq> u" if "m_job m x = Some xb" "j_installed xb" for x xb
      using U that none by force
    moreover have "x \<noteq> j" if "u_job (m_unit m v) = Some x" for v x
      using U that j by force
    ultimately show ?thesis using U ju unfolding wf_units_def job by auto
  qed
  moreover have "wf_replaced ?m"
  proof -
    have "j_subject_list ib = [] \<and> j_object_list ib = []"
      if r: "(v, js) \<in> set rest" "hd js \<in> noninst ?m" "u_job (m_unit ?m v) = Some i" "m_job ?m i = Some ib" for v js i ib
    proof -
      have v: "v \<noteq> u" using r(1) u by force
      then have uj: "u_job (m_unit m v) = Some i" using r(3) by simp
      then have ij: "i \<noteq> j" using I(9) j unfolding wf_units_def by force
      have "hd js \<in> noninst m" using r(2) unfolding noninst_def job by (auto split: if_splits)
      moreover have "(v, js) \<in> set (m_transaction_jobs m)" using r(1) tx by simp
      ultimately show ?thesis using I(10) uj r(4) ij unfolding wf_replaced_def job by fastforce
    qed
    moreover have "m_transaction_jobs ?m = rest" by simp
    ultimately show ?thesis unfolding wf_replaced_def by (clarify, metis)
  qed
  ultimately show ?thesis by (simp add: inst_inv_def)
qed

lemma gc_unit_tx: "gc_unit u (m\<lparr>m_transaction_jobs := r\<rparr>) = (gc_unit u m)\<lparr>m_transaction_jobs := r\<rparr>"
  by (simp add: gc_unit_def unit_add_to_gc_queue_def upd_unit_def unit_check_gc_def unit_active_state_def Let_def)

lemma freed_tx: "freed i ib (m\<lparr>m_transaction_jobs := r\<rparr>) = (freed i ib m)\<lparr>m_transaction_jobs := r\<rparr>"
  by (simp add: freed_def gc_unit_tx)

text \<open>What installing keeps of a job: everything but the flags that it sets.\<close>

definition kept :: "job \<Rightarrow> job \<Rightarrow> bool" where
  "kept a b \<longleftrightarrow> j_unit b = j_unit a \<and> j_type b = j_type a \<and> j_id b = j_id a \<and> j_state b = j_state a"

definition live_target :: "manager \<Rightarrow> jref \<Rightarrow> bool" where
  "live_target m x \<longleftrightarrow> (\<exists>xb. m_job m x = Some xb \<and> order_target m (j_unit xb) = Some x)"

definition installs :: "manager \<Rightarrow> manager \<Rightarrow> bool" where
  "installs m m' \<longleftrightarrow>
     (\<forall>v. u_job (m_unit m' v) = order_target m v) \<and>
     (\<forall>j jb. m_job m j = Some jb \<and> live_target m j \<longrightarrow>
        (\<exists>jb'. m_job m' j = Some jb' \<and> kept jb jb' \<and> j_installed jb')) \<and>
     (\<forall>j. live_target m j \<and> (j \<in> noninst m \<or> j \<in> set (m_run_queue m)) \<longrightarrow> j \<in> set (m_run_queue m')) \<and>
     (\<forall>j. live_target m j \<and> (j \<in> noninst m \<or> j \<in> set (m_dbus_job_queue m)) \<longrightarrow> j \<in> set (m_dbus_job_queue m')) \<and>
     m_next_job m' = m_next_job m"

lemma order_target_Cons:
  assumes "m_transaction_jobs m = (u, [j]) # rest" "u \<notin> set (omap_keys rest)"
  shows "order_target m v = (if v = u then Some j else
     case omap_get rest v of Some (k # _) \<Rightarrow> Some k | _ \<Rightarrow> u_job (m_unit m v))"
  using assms by (auto simp: order_target_def tlist_def omap_get_def split: option.split list.split)

lemma order_target_tx:
  "order_target m v = (case omap_get (m_transaction_jobs m) v of Some (k # _) \<Rightarrow> Some k | _ \<Rightarrow> u_job (m_unit m v))"
  by (auto simp: order_target_def tlist_def split: option.split list.split)

lemma installs_none:
  assumes "inst_inv m" "m_transaction_jobs m = []"
  shows "installs m m"
proof -
  have "noninst m = {}" using inst_invD(7) [OF assms(1)] assms(2) by (simp add: tjobs_def)
  then have "j_installed jb" if "m_job m j = Some jb" for j jb using that by (auto simp: noninst_def)
  then show ?thesis
    using \<open>noninst m = {}\<close> assms(2) by (auto simp: installs_def order_target_tx omap_get_def kept_def)
qed

lemma installs_skip:
  assumes inv: "inst_inv m" and tx: "m_transaction_jobs m = (u, [j]) # rest" and j: "m_job m j = Some jb" "j_installed jb"
    and rest: "installs (m\<lparr>m_transaction_jobs := rest\<rparr>) m'"
  shows "installs m m'"
proof -
  have u: "u \<notin> set (omap_keys rest)" using all_merged_head [OF inv tx] by auto
  have "j_unit jb = u" using wf_listD(4) [OF inst_invD(2) [OF inv], of u "[j]" j] tx j by auto
  then have uj: "u_job (m_unit m u) = Some j" using inst_invD(9) [OF inv] j unfolding wf_units_def by blast
  let ?m = "m\<lparr>m_transaction_jobs := rest\<rparr>"
  have tg: "order_target ?m v = order_target m v" for v
    using u uj by (auto simp: order_target_tx tx omap_get_def map_of_eq_None_iff [THEN iffD2] split: option.split list.split)
  then have live: "live_target ?m = live_target m" "noninst ?m = noninst m"
    by (simp_all add: live_target_def noninst_def fun_eq_iff)
  show ?thesis using rest unfolding installs_def live tg by simp
qed

lemma installs_enter:
  assumes u: "u \<notin> set (omap_keys rest)" and tx: "m_transaction_jobs m = (u, [j]) # rest"
    and j: "m_job m j = Some jb" "j_unit jb = u"
    and uj: "\<And>v. v \<noteq> u \<Longrightarrow> u_job (m_unit m0 v) = u_job (m_unit m v)"
    and job: "\<And>x xb. m_job m x = Some xb \<Longrightarrow> live_target m x \<Longrightarrow> m_job m0 x = Some xb"
    and q: "\<And>x. live_target m x \<Longrightarrow> x \<in> set (m_run_queue m) \<Longrightarrow> x \<in> set (m_run_queue m0)"
      "\<And>x. live_target m x \<Longrightarrow> x \<in> set (m_dbus_job_queue m) \<Longrightarrow> x \<in> set (m_dbus_job_queue m0)"
    and nj: "m_next_job m0 = m_next_job m"
    and rest: "installs (enter u j jb (m0\<lparr>m_transaction_jobs := rest\<rparr>)) m'"
  shows "installs m m'"
proof -
  let ?m1 = "enter u j jb (m0\<lparr>m_transaction_jobs := rest\<rparr>)"
  have tg: "order_target ?m1 v = order_target m v" for v
    using u uj by (auto simp: order_target_tx tx omap_get_def map_of_eq_None_iff [THEN iffD2] split: option.split list.split)
  have alive: "\<exists>xb1. m_job ?m1 x = Some xb1 \<and> kept xb xb1 \<and> (x \<noteq> j \<longrightarrow> xb1 = xb)"
    if "m_job m x = Some xb" "live_target m x" for x xb
    using job [OF that] that j by (auto simp: kept_def)
  have live: "live_target ?m1 x" if "live_target m x" for x
    using that alive unfolding live_target_def tg kept_def by fastforce
  have kt: "kept a c" if "kept a b" "kept b c" for a b c using that by (simp add: kept_def)
  have ni: "x = j \<or> x \<in> noninst ?m1" if lx: "live_target m x" "x \<in> noninst m" for x
  proof -
    obtain xb where xb: "m_job m x = Some xb" "\<not> j_installed xb" using lx(2) by (auto simp: noninst_def)
    show ?thesis
    proof (cases "x = j")
      case False
      then have "m_job ?m1 x = Some xb" using alive [OF xb(1) lx(1)] by blast
      then show ?thesis using xb(2) by (simp add: noninst_def)
    qed simp
  qed
  have jq: "j \<in> set (m_run_queue ?m1)" "j \<in> set (m_dbus_job_queue ?m1)" by simp_all
  have "\<exists>jb'. m_job m' x = Some jb' \<and> kept xb jb' \<and> j_installed jb'"
    if "m_job m x = Some xb" "live_target m x" for x xb
    using alive [OF that] live [OF that(2)] rest kt unfolding installs_def by metis
  moreover have "x \<in> set (m_run_queue m')" if "live_target m x" "x \<in> noninst m \<or> x \<in> set (m_run_queue m)" for x
    using live [OF that(1)] ni [OF that(1)] q(1) [OF that(1)] that(2) rest jq(1) unfolding installs_def by fastforce
  moreover have "x \<in> set (m_dbus_job_queue m')" if "live_target m x" "x \<in> noninst m \<or> x \<in> set (m_dbus_job_queue m)" for x
    using live [OF that(1)] ni [OF that(1)] q(2) [OF that(1)] that(2) rest jq(2) unfolding installs_def by fastforce
  moreover have "u_job (m_unit m' v) = order_target m v" for v using rest tg unfolding installs_def by simp
  moreover have "m_next_job m' = m_next_job m" using rest nj unfolding installs_def by simp
  ultimately show ?thesis unfolding installs_def by blast
qed

lemma install_step:
  assumes inv: "inst_inv m" and tx: "m_transaction_jobs m = (u, [j]) # rest" and j: "m_job m j = Some jb" "\<not> j_installed jb"
  shows "\<exists>m1. install_job u j (m\<lparr>m_transaction_jobs := rest\<rparr>) = Some m1 \<and> inst_inv m1 \<and>
     m_transaction_jobs m1 = rest \<and> (\<forall>m'. installs m1 m' \<longrightarrow> installs m m')"
proof -
  note I = inst_invD [OF inv]
  have mem: "(u, [j]) \<in> set (m_transaction_jobs m)" using tx by simp
  have ju: "j_unit jb = u" using wf_listD(4) [OF I(2) mem, of j] j by auto
  have u: "u \<notin> set (omap_keys rest)" using wf_listD(1) [OF I(2)] tx by simp
  have q: "\<not> j_in_run_queue jb" "\<not> j_in_dbus_queue jb" using I(3) j unfolding wf_q_def by auto
  have tgu: "order_target m u = Some j" by (simp add: order_target_tx tx omap_get_def)
  show ?thesis
  proof (cases "u_job (m_unit m u)")
    case None
    let ?m1 = "enter u j jb (m\<lparr>m_transaction_jobs := rest\<rparr>)"
    have "install_job u j (m\<lparr>m_transaction_jobs := rest\<rparr>) = Some ?m1"
      using None j ju q by (intro install_job_enter) simp_all
    moreover have "inst_inv ?m1" using inst_inv_enter [OF inv tx j None] .
    moreover have "installs m m'" if "installs ?m1 m'" for m'
      by (rule installs_enter [OF u tx j(1) ju _ _ _ _ _ that]) simp_all
    ultimately show ?thesis by auto
  next
    case (Some i)
    obtain ib where ib: "m_job m i = Some ib" "j_installed ib" "j_unit ib = u"
      using I(9) Some unfolding wf_units_def by blast
    have ij: "i \<noteq> j" using ib j by auto
    have lists: "j_subject_list ib = []" "j_object_list ib = []"
      using I(10) mem j Some ib(1) unfolding wf_replaced_def noninst_def by fastforce+
    have itx: "i \<notin> tjobs m"
    proof
      assume "i \<in> tjobs m"
      then obtain v ls where ls: "(v, ls) \<in> set (m_transaction_jobs m)" "i \<in> set ls" unfolding tjobs_iff by blast
      then have "v = u" using wf_listD(4) [OF I(2) ls] ib by auto
      then have "ls = [j]" using ls(1) mem wf_listD(1) [OF I(2)] by (metis (no_types) eq_key_imp_eq_value)
      then show False using ls(2) ij by simp
    qed
    let ?m = "m\<lparr>m_transaction_jobs := rest\<rparr>" and ?mf = "freed i ib m"
    have "omap_get rest u = None" using u by (simp add: omap_get_None_iff)
    moreover have "m_transaction_jobs ?m = rest" by simp
    ultimately have "tlist ?m u = []" unfolding tlist_def by (metis option.case(1))
    then have "i \<notin> set (tlist ?m (j_unit ib))" using ib(3) by simp
    then have "job_free i ?m = Some (freed i ib ?m)"
      unfolding freed_def by (intro job_free_installed) (use ib Some lists in simp_all)
    then have free: "job_free i ?m = Some (?mf\<lparr>m_transaction_jobs := rest\<rparr>)" by (simp add: freed_tx)
    let ?m1 = "enter u j jb (?mf\<lparr>m_transaction_jobs := rest\<rparr>)"
    have inv0: "inst_inv ?mf" using inst_inv_freed [OF inv ib(1,2) lists itx] .
    have "install_job u j (?mf\<lparr>m_transaction_jobs := rest\<rparr>) = Some ?m1"
      using j ju q ib(3) ij by (intro install_job_enter) simp_all
    moreover have "install_job u j ?m = install_job u j (?mf\<lparr>m_transaction_jobs := rest\<rparr>)"
      using free Some ib(3) by (simp add: install_job_def)
    ultimately have "install_job u j ?m = Some ?m1" by simp
    moreover have "inst_inv ?m1"
      using inst_inv_enter [OF inv0 _ _ j(2), of u j rest] tx j(1) ij ib(3) by simp
    moreover have "installs m m'" if "installs ?m1 m'" for m'
    proof (rule installs_enter [OF u tx j(1) ju _ _ _ _ _ that])
      have "x \<noteq> i" if "live_target m x" for x using that ib ij tgu by (auto simp: live_target_def)
      then show "m_job ?mf x = Some xb" if "m_job m x = Some xb" "live_target m x" for x xb using that by auto
      show "x \<in> set (m_run_queue ?mf)" if "live_target m x" "x \<in> set (m_run_queue m)" for x
        using that \<open>\<And>x. live_target m x \<Longrightarrow> x \<noteq> i\<close> by (auto simp: in_set_remove1)
      show "x \<in> set (m_dbus_job_queue ?mf)" if "live_target m x" "x \<in> set (m_dbus_job_queue m)" for x
        using that \<open>\<And>x. live_target m x \<Longrightarrow> x \<noteq> i\<close> by (auto simp: in_set_remove1)
    qed (use ib(3) in simp_all)
    ultimately show ?thesis by auto
  qed
qed

lemma install_jobs_ok:
  assumes "inst_inv m"
  shows "\<exists>m'. install_jobs m = Some m' \<and> inst_inv m' \<and> m_transaction_jobs m' = [] \<and> installs m m'"
  using assms
proof (induction "length (m_transaction_jobs m)" arbitrary: m rule: less_induct)
  case less
  show ?case
  proof (cases "m_transaction_jobs m")
    case Nil
    then have "install_jobs m = Some m" by (subst install_jobs.simps) simp
    then show ?thesis using less.prems Nil installs_none by blast
  next
    case (Cons p rest)
    obtain u js where p: "p = (u, js)" by (cases p)
    obtain j jb where j: "js = [j]" "m_job m j = Some jb" "j_unit jb = u"
      using all_merged_head [OF less.prems] Cons p by blast
    have tx: "m_transaction_jobs m = (u, [j]) # rest" using Cons p j by simp
    let ?m = "m\<lparr>m_transaction_jobs := rest\<rparr>"
    show ?thesis
    proof (cases "j_installed jb")
      case True
      then have inv: "inst_inv ?m" using inst_skip [OF less.prems tx] j by (simp add: noninst_def)
      obtain m' where "install_jobs ?m = Some m'" "inst_inv m'" "m_transaction_jobs m' = []" "installs ?m m'"
        using less.hyps [OF _ inv] tx by auto
      moreover have "install_jobs m = install_jobs ?m" using tx j True by (subst install_jobs.simps) simp
      ultimately show ?thesis using installs_skip [OF less.prems tx j(2) True] by auto
    next
      case False
      obtain m1 where m1: "install_job u j ?m = Some m1" "inst_inv m1" "m_transaction_jobs m1 = rest"
          "\<And>m'. installs m1 m' \<Longrightarrow> installs m m'"
        using install_step [OF less.prems tx j(2) False] by blast
      obtain m' where "install_jobs m1 = Some m'" "inst_inv m'" "m_transaction_jobs m' = []" "installs m1 m'"
        using less.hyps [OF _ m1(2)] m1(3) tx by auto
      moreover have "install_jobs m = install_jobs m1" using tx j False m1(1) by (subst install_jobs.simps) simp
      ultimately show ?thesis using m1(4) by auto
    qed
  qed
qed

subsection \<open>Applying\<close>

lemma free_lists_eff:
  assumes wf: "wf_core m" and j: "m_job m j = Some jb"
  shows "do { m1 \<leftarrow> free_subject_list j m; free_object_list j m1 } = Some (eff (inc m {j}) {} {} m)"
proof -
  let ?D = "set (j_subject_list jb)"
  have "free_object_list j (eff ?D {} {} m) = Some (eff (set (j_object_list (drop_deps ?D jb))) {} {} (eff ?D {} {} m))"
    using free_object_list_eff [OF wf_core_eff_deps [OF wf, of ?D "{}"], of j] j by simp
  moreover have "set (j_object_list (drop_deps ?D jb)) \<union> ?D = inc m {j}"
    using inc_single [OF wf_coreD(1) [OF wf] j] by auto
  ultimately show ?thesis using free_subject_list_eff [OF wf j] by (simp add: eff_eff)
qed

lemma clean_jobs_eff:
  assumes "wf_core m" "\<forall>j \<in> set js. m_job m j \<noteq> None"
  shows "clean_jobs js m = Some (eff (inc m (set js)) {} {} m)"
  using assms
proof (induction js arbitrary: m)
  case Nil
  then show ?case by (simp add: inc_def wf_coreD)
next
  case (Cons j js)
  obtain jb where jb: "m_job m j = Some jb" using Cons.prems by auto
  let ?m = "eff (inc m {j}) {} {} m"
  have "clean_jobs (j # js) m = clean_jobs js ?m"
    using free_lists_eff [OF Cons.prems(1) jb] by (cases "free_subject_list j m") auto
  moreover have "clean_jobs js ?m = Some (eff (inc ?m (set js)) {} {} ?m)"
    by (rule Cons.IH) (use Cons.prems wf_core_eff_deps in auto)
  moreover have "inc ?m (set js) \<union> inc m {j} = inc m (set (j # js))"
    by (auto simp: inc_eff) (auto simp: inc_def)
  ultimately show ?case by (simp add: eff_eff)
qed

lemma inst_inv_start:
  assumes wf: "wf_tx m" and merged: "all_merged m" and ids: "ids_inj m"
  shows "put_jobs (m_transaction_jobs m) m =
           Some (Inr (), m\<lparr>m_jobs := m_jobs m @ map (\<lambda>j. (jid m j, j)) (pending m (m_transaction_jobs m))\<rparr>)"
    and "inst_inv (m\<lparr>m_jobs := m_jobs m @ map (\<lambda>j. (jid m j, j)) (pending m (m_transaction_jobs m))\<rparr>)" (is "inst_inv ?m")
proof -
  note wfl = wf_txD(7) [OF wf] and inst = wf_txD(3) [OF wf, unfolded wf_inst_def]
  let ?p = "pending m (m_transaction_jobs m)"
  have single: "\<exists>j jb. js = [j] \<and> m_job m j = Some jb \<and> j_unit jb = u"
    if "(u, js) \<in> set (m_transaction_jobs m)" for u js
  proof -
    have "tl js = []" "js \<noteq> []" using merged that wf_listD(2) [OF wfl that] by (auto simp: all_merged_def)
    then obtain j where "js = [j]" by (cases js) auto
    then show ?thesis using wf_listD(4) [OF wfl that, of j] by auto
  qed
  have setp: "set ?p = noninst m"
  proof -
    have "set ?p \<subseteq> noninst m" by (auto simp: pending_def)
    moreover have "x \<in> set ?p" if x: "x \<in> noninst m" for x
    proof -
      have "x \<in> tjobs m" using x wf_txD(2) [OF wf] by (auto simp: wf_scope_def)
      then obtain u js where "(u, js) \<in> set (m_transaction_jobs m)" "x \<in> set js" unfolding tjobs_iff by blast
      then show ?thesis using single x by (force simp: pending_def)
    qed
    ultimately show ?thesis by blast
  qed
  have distp: "distinct ?p"
  proof -
    have "distinct (map (hd \<circ> snd) xs)" if "set xs \<subseteq> set (m_transaction_jobs m)" "distinct (omap_keys xs)" for xs
      using that
    proof (induction xs)
      case (Cons p xs)
      obtain u js where p: "p = (u, js)" by (cases p)
      have "hd js \<noteq> hd ks" if k: "(v, ks) \<in> set xs" for v ks
      proof -
        have "v \<noteq> u" using k Cons.prems(2) p by force
        moreover have "(u, js) \<in> set (m_transaction_jobs m)" "(v, ks) \<in> set (m_transaction_jobs m)"
          using Cons.prems(1) p k by auto
        ultimately show ?thesis using single [of u js] single [of v ks] by auto
      qed
      then show ?case using Cons p by force
    qed simp
    then show ?thesis using wf_listD(1) [OF wfl] by (simp add: pending_def)
  qed
  have alive: "\<exists>jb. m_job m j = Some jb \<and> \<not> j_installed jb \<and> jid m j = j_id jb" if "j \<in> noninst m" for j
    using that by (auto simp: noninst_def jid_def)
  have inj: "inj_on (jid m) (noninst m)"
  proof (rule inj_onI)
    fix x y assume "x \<in> noninst m" "y \<in> noninst m" "jid m x = jid m y"
    then show "x = y" using alive ids unfolding ids_inj_def by metis
  qed
  have fresh: "jid m j \<notin> set (omap_keys (m_jobs m))" if "j \<in> noninst m" for j
  proof
    assume "jid m j \<in> set (omap_keys (m_jobs m))"
    then obtain k where "omap_get (m_jobs m) (jid m j) = Some k"
      by (metis map_of_eq_None_iff not_Some_eq omap_get_def list.set_map)
    then obtain kb where "m_job m k = Some kb" "j_installed kb" "j_id kb = jid m j" using inst by blast
    then show False using alive [OF that] ids unfolding ids_inj_def by (metis option.inject)
  qed
  show "put_jobs (m_transaction_jobs m) m = Some (Inr (), ?m)"
    by (rule put_jobs_ok) (use single setp distp inj fresh in \<open>fastforce simp: distinct_map\<close>)+
  have keys: "distinct (omap_keys (m_jobs ?m))"
  proof -
    have "distinct (map (jid m) ?p)" using inj setp distp by (simp add: distinct_map)
    moreover have "set (map (jid m) ?p) \<inter> set (omap_keys (m_jobs m)) = {}" using fresh setp by auto
    ultimately show ?thesis using inst by (auto simp: comp_def)
  qed
  have get: "omap_get (m_jobs ?m) i = Some j \<longleftrightarrow>
      omap_get (m_jobs m) i = Some j \<or> j \<in> noninst m \<and> i = jid m j" for i j
    using omap_get_mem [OF keys] omap_get_mem [of "m_jobs m"] inst setp by auto
  have "wf_table ?m"
  proof -
    have "\<exists>jb. m_job m j = Some jb \<and> j_id jb = i" if "omap_get (m_jobs ?m) i = Some j" for i j
      using that inst alive unfolding get by metis
    moreover have "omap_get (m_jobs ?m) (j_id jb) = Some j" if "m_job m j = Some jb" for j jb
      using that inst unfolding get by (cases "j_installed jb") (auto simp: noninst_def jid_def)
    ultimately show ?thesis using keys by (simp add: wf_table_def)
  qed
  moreover have "wf_deps ?m" using wf_txD(6) [OF wf] by (simp add: wf_deps_def cong: option.case_cong)
  moreover have "wf_list ?m" "wf_q ?m" "wf_queues ?m" "wf_next ?m" "all_merged ?m" "noninst ?m \<subseteq> tjobs ?m"
    using wfl wf_txD(2,4,5,8) [OF wf] merged
    by (simp_all add: wf_list_def wf_q_def wf_queues_def wf_next_def all_merged_def wf_scope_def noninst_def tjobs_def)
  moreover have "wf_units ?m" using inst by (simp add: wf_units_def)
  moreover have "wf_replaced ?m"
  proof -
    have "j_subject_list ib = [] \<and> j_object_list ib = []"
      if r: "(u, js) \<in> set (m_transaction_jobs m)" "hd js \<in> noninst m" "u_job (m_unit m u) = Some i" "m_job m i = Some ib" for u js i ib
    proof -
      have "\<exists>jb. m_job m i = Some jb \<and> j_installed jb \<and> j_unit jb = u"
        using wf_txD(3) [OF wf] r(3) unfolding wf_inst_def by blast
      then have ib: "j_installed ib" "j_unit ib = u" using r(4) by auto
      have "i \<notin> tjobs m"
      proof
        assume "i \<in> tjobs m"
        then obtain v ls where ls: "(v, ls) \<in> set (m_transaction_jobs m)" "i \<in> set ls" unfolding tjobs_iff by blast
        then have "v = u" using wf_listD(4) [OF wfl ls] r(4) ib by auto
        then have "ls = js" using ls(1) r(1) wf_listD(1) [OF wfl] by (metis eq_key_imp_eq_value)
        then show False using single [OF r(1)] ls(2) r(2,4) ib(1) by (auto simp: noninst_def)
      qed
      then have "\<nexists>l d. omap_get (m_dep m) l = Some d \<and> (d_object d = i \<or> d_subject d = Some i)"
        using wf_txD(2) [OF wf] unfolding wf_scope_def by blast
      then have "set (j_subject_list ib) = {}" "set (j_object_list ib) = {}"
        unfolding set_subject_list [OF wf_txD(6) [OF wf] r(4)] set_object_list [OF wf_txD(6) [OF wf] r(4)] by blast+
      then show ?thesis by simp
    qed
    then show ?thesis by (auto simp: wf_replaced_def noninst_def)
  qed
  ultimately show "inst_inv ?m" by (simp add: inst_inv_def)
qed

text \<open>All jobs are installed: dropping the remaining links ends the transaction.\<close>

lemma clean_installed:
  assumes inv: "inst_inv m" and tx: "m_transaction_jobs m = []"
  shows "\<exists>m'. transaction_clean_dependencies m = Some m' \<and> wf_tx m' \<and> m' = eff (inc m UNIV) {} {} m \<and>
     m_transaction_jobs m' = [] \<and> m_transaction_anchor m' = []"
proof -
  note I = inst_invD [OF inv] and T = inst_invD(8) [OF inv, unfolded wf_table_def]
  have ni: "noninst m = {}" using I(7) tx by (simp add: tjobs_def)
  have inst: "j_installed jb" if "m_job m j = Some jb" for j jb using ni that by (auto simp: noninst_def)
  have wf: "wf_core m" using I by (simp add: wf_core_def)
  let ?js = "map snd (m_jobs m)" and ?m = "eff (inc m UNIV) {} {} m"
  have alive: "j \<in> set ?js \<longleftrightarrow> m_job m j \<noteq> None" for j
  proof
    assume "j \<in> set ?js"
    then obtain i where "(i, j) \<in> set (m_jobs m)" by auto
    then have "omap_get (m_jobs m) i = Some j" using omap_get_mem [OF T [THEN conjunct1]] by simp
    then show "m_job m j \<noteq> None" using T [THEN conjunct2, THEN conjunct1, rule_format, of i j] by auto
  next
    assume "m_job m j \<noteq> None"
    then obtain jb where "m_job m j = Some jb" by blast
    then have "omap_get (m_jobs m) (j_id jb) = Some j" using T by simp
    then show "j \<in> set ?js" using omap_get_SomeD by force
  qed
  have "d_object d \<in> set ?js" if "omap_get (m_dep m) l = Some d" for l d
    using wf_depsD(2) [OF I(1) that] alive by (metis option.distinct(1))
  then have "inc m (set ?js) = inc m UNIV" unfolding inc_def by blast
  then have clean: "clean_jobs ?js m = Some ?m"
    using clean_jobs_eff [OF wf, of ?js] alive by (metis (no_types))
  have none: "omap_get (m_dep ?m) l = None" for l by (auto simp: inc_def)
  have wf': "wf_core ?m" using wf_core_eff_deps [OF wf] .
  have anc: "m_transaction_anchor ?m = []"
    using wf_depsD(10) [OF wf_coreD(1) [OF wf']] none by (metis last_in_set not_Some_eq)
  have tx': "m_transaction_jobs ?m = []" by (simp add: tx drop_jobs_def)
  have "wf_inst ?m"
  proof -
    note U = I(9) [unfolded wf_units_def]
    have "\<exists>jb. m_job ?m j = Some jb \<and> j_installed jb \<and> j_id jb = i" if "omap_get (m_jobs m) i = Some j" for i j
    proof -
      obtain jb where "m_job m j = Some jb" "j_id jb = i"
        using T [THEN conjunct2, THEN conjunct1, rule_format, of i j] \<open>omap_get (m_jobs m) i = Some j\<close> by blast
      then show ?thesis using inst by simp
    qed
    moreover have "\<exists>jb. m_job ?m j = Some jb \<and> j_installed jb \<and> j_unit jb = u" if uj: "u_job (m_unit m u) = Some j" for u j
    proof -
      obtain jb where "m_job m j = Some jb" "j_unit jb = u" using U uj by blast
      then show ?thesis using inst by simp
    qed
    moreover have "omap_get (m_jobs m) (j_id jb) = Some j \<and> u_job (m_unit m (j_unit jb)) = Some j"
      if j: "m_job ?m j = Some jb" for j jb
    proof -
      obtain jb0 where "m_job m j = Some jb0" "jb = drop_deps (inc m UNIV) jb0" using j by auto
      then show ?thesis using T U inst by auto
    qed
    ultimately show ?thesis using T unfolding wf_inst_def by simp
  qed
  moreover have "wf_queues ?m" using I(4) by (auto simp: wf_queues_def)
  moreover have "wf_next ?m" using I(5) by (simp add: wf_next_def)
  moreover have "wf_scope ?m" using none ni unfolding wf_scope_def by (auto simp: noninst_eff)
  ultimately have "wf_tx ?m" using wf' by (simp add: wf_tx_def)
  then show ?thesis
    using clean anc tx' by (simp add: transaction_clean_dependencies_def del: eff_sel)
qed

lemma installs_clean:
  assumes "installs m m1" "m' = eff D {} {} m1"
  shows "installs m m'"
  using assms unfolding installs_def kept_def by fastforce

lemma transaction_apply_ok:
  assumes wf: "wf_tx m" and merged: "all_merged m" and ids: "ids_inj m" and mode: "mode \<noteq> JOB_ISOLATE"
  shows "\<exists>m'. transaction_apply fin mode m = Some (Inr (), m') \<and> wf_tx m' \<and> m_transaction_jobs m' = [] \<and>
     m_transaction_anchor m' = [] \<and> installs m m'"
proof -
  let ?m = "m\<lparr>m_jobs := m_jobs m @ map (\<lambda>j. (jid m j, j)) (pending m (m_transaction_jobs m))\<rparr>"
  note start = inst_inv_start [OF wf merged ids]
  obtain m1 where m1: "install_jobs ?m = Some m1" "inst_inv m1" "m_transaction_jobs m1 = []" "installs ?m m1"
    using install_jobs_ok [OF start(2)] by blast
  obtain m' where m': "transaction_clean_dependencies m1 = Some m'" "wf_tx m'" "m' = eff (inc m1 UNIV) {} {} m1"
      "m_transaction_jobs m' = []" "m_transaction_anchor m' = []"
    using clean_installed [OF m1(2,3)] by blast
  have "installs m m1"
  proof -
    have "order_target ?m = order_target m" by (simp add: order_target_tx fun_eq_iff split: option.split list.split)
    then have "live_target ?m = live_target m" "noninst ?m = noninst m" "order_target ?m = order_target m"
      by (simp_all add: live_target_def noninst_def fun_eq_iff)
    then show ?thesis using m1(4) unfolding installs_def by simp
  qed
  then have "installs m m'" using installs_clean m'(3) by blast
  then show ?thesis using m' m1(1) start(1) mode by (simp add: transaction_apply_def)
qed

end
