(* ===== verification/Transaction_Add.thy ===== *)
theory Transaction_Add
  imports Transaction_Apply
begin

section \<open>Adding jobs to a transaction\<close>

text \<open>
  \<open>transaction_add_one_job\<close> and the recursion of
  \<open>transaction_add_job_and_dependencies\<close> over the requirements of a unit: the recursion ends
  (it creates at most one job per unit and job type), keeps the invariant of the transaction, and
  only adds to it (\<open>adds\<close>).
\<close>

subsection \<open>Adding one job\<close>

definition push_tx :: "uid \<Rightarrow> jref \<Rightarrow> manager \<Rightarrow> manager" where
  "push_tx u j m = m\<lparr>m_transaction_jobs := omap_replace u (j # tlist m u) (m_transaction_jobs m)\<rparr>"

lemma push_tx_sel [simp]:
  "m_job (push_tx u j m) = m_job m" "m_jobs (push_tx u j m) = m_jobs m" "m_dep (push_tx u j m) = m_dep m"
  "m_transaction_anchor (push_tx u j m) = m_transaction_anchor m" "m_unit (push_tx u j m) = m_unit m"
  "m_units (push_tx u j m) = m_units m" "m_run_queue (push_tx u j m) = m_run_queue m"
  "m_dbus_job_queue (push_tx u j m) = m_dbus_job_queue m" "m_next_job (push_tx u j m) = m_next_job m"
  "m_next_dep (push_tx u j m) = m_next_dep m" "m_current_job_id (push_tx u j m) = m_current_job_id m"
  "noninst (push_tx u j m) = noninst m"
  by (simp_all add: push_tx_def noninst_def)

lemma tlist_push: "tlist (push_tx u j m) v = (if v = u then j # tlist m u else tlist m v)"
  by (simp add: tlist_def push_tx_def)

lemma wf_list_push:
  assumes wfl: "wf_list m" and j: "m_job m j = Some jb" "j_unit jb = u" "j \<notin> set (tlist m u)"
  shows "wf_list (push_tx u j m)"
proof -
  have keys: "distinct (omap_keys (omap_replace u (j # tlist m u) (m_transaction_jobs m)))"
    using wf_listD(1) [OF wfl] by (rule distinct_omap_replace)
  have "ls \<noteq> [] \<and> distinct ls \<and> (\<forall>x \<in> set ls. \<exists>xb. m_job m x = Some xb \<and> j_unit xb = v)"
    if v: "(v, ls) \<in> set (omap_replace u (j # tlist m u) (m_transaction_jobs m))" for v ls
  proof -
    have "omap_get (omap_replace u (j # tlist m u) (m_transaction_jobs m)) v = Some ls"
      using v omap_get_mem [OF keys] by simp
    then consider "v = u" "ls = j # tlist m u" | "v \<noteq> u" "omap_get (m_transaction_jobs m) v = Some ls"
      by (auto split: if_splits)
    then show ?thesis
    proof cases
      case 1
      then show ?thesis using j wf_list_tlist [OF wfl] by auto
    next
      case 2
      then have "(v, ls) \<in> set (m_transaction_jobs m)" by (simp add: omap_get_SomeD)
      then show ?thesis using wf_listD(2-4) [OF wfl] by blast
    qed
  qed
  then show ?thesis using keys by (auto simp: wf_list_def push_tx_def)
qed

lemma tjobs_push:
  assumes wfl: "wf_list m" "wf_list (push_tx u j m)"
  shows "tjobs (push_tx u j m) = insert j (tjobs m)"
  unfolding tjobs_tlist [OF wfl(1)] tjobs_tlist [OF wfl(2)] tlist_push by (auto split: if_splits)

definition scoped :: "manager \<Rightarrow> bool" where
  "scoped m \<longleftrightarrow>
     (\<forall>l d. omap_get (m_dep m) l = Some d \<longrightarrow>
        d_object d \<in> tjobs m \<and> (\<forall>s. d_subject d = Some s \<longrightarrow> s \<in> tjobs m))"

lemma wf_tx_push:
  assumes "wf_core m" "wf_inst m" "wf_queues m" "wf_next m" "scoped m" "noninst m \<subseteq> insert j (tjobs m)"
    and j: "m_job m j = Some jb" "j_unit jb = u" "j \<notin> set (tlist m u)"
  shows "wf_tx (push_tx u j m)" "tjobs (push_tx u j m) = insert j (tjobs m)"
proof -
  note wfl = wf_list_push [OF wf_coreD(2) [OF assms(1)] j]
  note tj = tjobs_push [OF wf_coreD(2) [OF assms(1)] wfl]
  show "tjobs (push_tx u j m) = insert j (tjobs m)" using tj .
  have "wf_deps (push_tx u j m)"
    using wf_coreD(1) [OF assms(1)] by (simp add: wf_deps_def cong: option.case_cong)
  moreover have "wf_q (push_tx u j m)" using wf_coreD(3) [OF assms(1)] by (simp add: wf_q_def)
  moreover have "wf_scope (push_tx u j m)" using assms(5,6) unfolding wf_scope_def scoped_def tj by auto
  moreover have "wf_inst (push_tx u j m)" "wf_queues (push_tx u j m)" "wf_next (push_tx u j m)"
    using assms(2-4) by (simp_all add: wf_inst_def wf_queues_def wf_next_def)
  ultimately show "wf_tx (push_tx u j m)" using wfl by (simp add: wf_tx_def wf_core_def)
qed

text \<open>Job ids are given out in the order in which the jobs are created.\<close>

definition wf_ids :: "manager \<Rightarrow> bool" where
  "wf_ids m \<longleftrightarrow>
     (\<exists>c. m_current_job_id m = of_nat (m_next_job m) + c \<and>
          (\<forall>j jb. m_job m j = Some jb \<longrightarrow> j_id jb = of_nat j + c))"

lemma wf_ids_inj:
  assumes ids: "wf_ids m" and nx: "wf_next m" and small: "m_next_job m \<le> 2 ^ 32"
  shows "ids_inj m"
  unfolding ids_inj_def
proof (intro allI impI, elim conjE)
  fix j k jb kb assume j: "m_job m j = Some jb" and k: "m_job m k = Some kb" and eq: "j_id jb = j_id kb"
  have lt: "j < 2 ^ 32" "k < 2 ^ 32"
    using nx j k small unfolding wf_next_def by (metis leI order_less_le_trans option.distinct(1))+
  have "(of_nat j :: 32 word) = of_nat k" using ids j k eq unfolding wf_ids_def by auto
  then have "unat (of_nat j :: 32 word) = unat (of_nat k :: 32 word)" by simp
  then show "j = k" using lt by (simp add: unat_of_nat take_bit_nat_eq_self)
qed

definition fresh_job :: "job_type \<Rightarrow> uid \<Rightarrow> 32 word \<Rightarrow> job" where
  "fresh_job type u i = \<lparr>j_unit = u, j_subject_list = [], j_object_list = [], j_marker = None,
                j_generation = 0, j_id = i, j_type = type,
                j_state = JOB_WAITING, j_timer = False, j_result = JOB_DONE,
                j_installed = False, j_in_run_queue = False, j_matters_to_anchor = False,
                j_override = False, j_in_dbus_queue = False, j_ignore_order = False\<rparr>"

lemma fresh_job_sel [simp]:
  "j_unit (fresh_job type u i) = u" "j_subject_list (fresh_job type u i) = []" "j_object_list (fresh_job type u i) = []"
  "j_id (fresh_job type u i) = i" "j_type (fresh_job type u i) = type" "\<not> j_installed (fresh_job type u i)"
  "\<not> j_in_run_queue (fresh_job type u i)" "\<not> j_in_dbus_queue (fresh_job type u i)"
  by (simp_all add: fresh_job_def)

lemma job_new_eq:
  "job_new type u m =
     (m_next_job m, m\<lparr>m_current_job_id := m_current_job_id m + 1, m_next_job := m_next_job m + 1,
                       m_job := (m_job m)(m_next_job m \<mapsto> fresh_job type u (m_current_job_id m))\<rparr>)"
  by (simp add: job_new_def fresh_job_def Let_def)

lemma job_new_ok:
  assumes wf: "wf_tx m" and new: "job_new type u m = (j, m')"
  shows "wf_core m'" "wf_inst m'" "wf_queues m'" "wf_next m'" "scoped m'" "noninst m' = insert j (noninst m)"
    "tjobs m' = tjobs m" "tlist m' = tlist m" "m_job m' j = Some (fresh_job type u (m_current_job_id m))"
    "j \<notin> tjobs m" "wf_ids m \<Longrightarrow> wf_ids m'" "m_job m j = None"
proof -
  have j: "j = m_next_job m" and m': "m' = m\<lparr>m_current_job_id := m_current_job_id m + 1, m_next_job := m_next_job m + 1,
                       m_job := (m_job m)(m_next_job m \<mapsto> fresh_job type u (m_current_job_id m))\<rparr>"
    using new by (auto simp: job_new_eq)
  show dead: "m_job m j = None" using wf_txD(5) [OF wf] j by (simp add: wf_next_def)
  note wfd = wf_txD(6) [OF wf]
  have old: "m_job m' x = (if x = j then Some (fresh_job type u (m_current_job_id m)) else m_job m x)" for x
    by (simp add: m' j)
  show "m_job m' j = Some (fresh_job type u (m_current_job_id m))" by (simp add: old)
  show tj: "tjobs m' = tjobs m" "tlist m' = tlist m" by (simp_all add: m' tjobs_def tlist_def fun_eq_iff)
  show jtx: "j \<notin> tjobs m" using tjobs_alive [OF wf_txD(7) [OF wf]] dead by blast
  show "noninst m' = insert j (noninst m)" using dead unfolding noninst_def old by auto
  have "wf_deps m'"
  proof -
    have "\<exists>xb. m_job m' x = Some xb \<and> P xb" if "\<exists>xb. m_job m x = Some xb \<and> P xb" for x P
      using that dead unfolding old by auto
    note up = this
    show ?thesis
      unfolding wf_deps_def
    proof (intro conjI allI impI)
      fix l d assume "omap_get (m_dep m') l = Some d"
      then have get: "omap_get (m_dep m) l = Some d" by (simp add: m')
      show "\<exists>jb. m_job m' (d_object d) = Some jb \<and> l \<in> set (j_object_list jb)"
        by (rule up [OF wf_depsD(2) [OF wfd get]])
      show "case d_subject d of None \<Rightarrow> l \<in> set (m_transaction_anchor m')
          | Some s \<Rightarrow> \<exists>jb. m_job m' s = Some jb \<and> l \<in> set (j_subject_list jb)"
      proof (cases "d_subject d")
        case None
        then show ?thesis using wf_depsD(4) [OF wfd get] by (simp add: m')
      next
        case (Some s)
        then show ?thesis using up [OF wf_depsD(3) [OF wfd get Some]] by simp
      qed
    next
      fix x xb assume x: "m_job m' x = Some xb"
      show "distinct (j_subject_list xb)" "distinct (j_object_list xb)"
        "\<forall>l \<in> set (j_subject_list xb). \<exists>d. omap_get (m_dep m') l = Some d \<and> d_subject d = Some x"
        "\<forall>l \<in> set (j_object_list xb). \<exists>d. omap_get (m_dep m') l = Some d \<and> d_object d = x"
        using x wf_depsD(5-8) [OF wfd] unfolding old by (auto simp: m' split: if_splits)
    qed (use wf_depsD(1,9,10) [OF wfd] in \<open>auto simp: m'\<close>)
  qed
  moreover have "wf_list m'"
  proof -
    have "\<exists>xb. m_job m' x = Some xb \<and> j_unit xb = v" if "(v, ls) \<in> set (m_transaction_jobs m)" "x \<in> set ls" for v ls x
      using wf_listD(4) [OF wf_txD(7) [OF wf] that] dead unfolding old by auto
    then show ?thesis using wf_txD(7) [OF wf] unfolding wf_list_def by (fastforce simp: m')
  qed
  moreover have "wf_q m'" using wf_txD(8) [OF wf] unfolding wf_q_def old by auto
  ultimately show "wf_core m'" by (simp add: wf_core_def)
  show "wf_inst m'"
  proof -
    note inst = wf_txD(3) [OF wf, unfolded wf_inst_def]
    have eqs: "m_jobs m' = m_jobs m" "m_unit m' = m_unit m" by (simp_all add: m')
    have up: "\<exists>xb. m_job m' x = Some xb \<and> P xb" if "\<exists>xb. m_job m x = Some xb \<and> P xb" for x P
      using that dead unfolding old by auto
    have down: "m_job m x = Some xb" if "m_job m' x = Some xb" "j_installed xb" for x xb
      using that unfolding old by (auto split: if_splits)
    show ?thesis
      unfolding wf_inst_def eqs
    proof (intro conjI allI impI)
      show "distinct (omap_keys (m_jobs m))" using inst by simp
      show "\<exists>jb. m_job m' k = Some jb \<and> j_installed jb \<and> j_id jb = i" if "omap_get (m_jobs m) i = Some k" for i k
        using inst that by (intro up) simp
      show "\<exists>jb. m_job m' k = Some jb \<and> j_installed jb \<and> j_unit jb = v" if "u_job (m_unit m v) = Some k" for v k
        using inst that by (intro up) simp
      show "omap_get (m_jobs m) (j_id jb) = Some k" "u_job (m_unit m (j_unit jb)) = Some k"
        if "m_job m' k = Some jb \<and> j_installed jb" for k jb
        using inst down that by simp_all
    qed
  qed
  show "wf_queues m'"
  proof -
    have "(\<exists>xb. m_job m' x = Some xb \<and> j_in_run_queue xb) \<longleftrightarrow> (\<exists>xb. m_job m x = Some xb \<and> j_in_run_queue xb)"
      "(\<exists>xb. m_job m' x = Some xb \<and> j_in_dbus_queue xb) \<longleftrightarrow> (\<exists>xb. m_job m x = Some xb \<and> j_in_dbus_queue xb)" for x
      using dead unfolding old by auto
    then show ?thesis using wf_txD(4) [OF wf] unfolding wf_queues_def by (simp add: m')
  qed
  show "wf_next m'" using wf_txD(5) [OF wf] by (simp add: wf_next_def m')
  show "scoped m'" using wf_txD(2) [OF wf] unfolding scoped_def wf_scope_def tj by (simp add: m')
  show "wf_ids m'" if ids: "wf_ids m"
  proof -
    obtain c where "m_current_job_id m = of_nat (m_next_job m) + c"
        "\<And>x xb. m_job m x = Some xb \<Longrightarrow> j_id xb = of_nat x + c" using ids unfolding wf_ids_def by blast
    then show ?thesis unfolding wf_ids_def old by (intro exI [of _ c]) (auto simp: m' j algebra_simps)
  qed
qed

text \<open>What adding to a transaction keeps.\<close>

definition clean_job :: "job \<Rightarrow> bool" where
  "clean_job jb \<longleftrightarrow> j_generation jb = 0 \<and> \<not> j_matters_to_anchor jb"

definition clean_tx :: "manager \<Rightarrow> bool" where
  "clean_tx m \<longleftrightarrow> (\<forall>j \<in> tjobs m. \<forall>jb. m_job m j = Some jb \<longrightarrow> clean_job jb)"

definition adds :: "manager \<Rightarrow> manager \<Rightarrow> bool" where
  "adds m m' \<longleftrightarrow>
     m_unit m' = m_unit m \<and> m_units m' = m_units m \<and> m_jobs m' = m_jobs m \<and>
     m_run_queue m' = m_run_queue m \<and> m_dbus_job_queue m' = m_dbus_job_queue m \<and>
     m_next_job m \<le> m_next_job m' \<and>
     (\<forall>x xb. m_job m x = Some xb \<longrightarrow> (\<exists>xb'. m_job m' x = Some xb' \<and> same_core xb xb')) \<and>
     (\<forall>x. rel_option same_core (inst m x) (inst m' x)) \<and>
     (\<forall>u. set (tlist m u) \<subseteq> set (tlist m' u)) \<and>
     (\<forall>l d. omap_get (m_dep m) l = Some d \<longrightarrow> omap_get (m_dep m') l = Some d) \<and>
     (clean_tx m \<longrightarrow> clean_tx m') \<and>
     (wf_ids m \<longrightarrow> wf_ids m')"

lemma adds_refl: "adds m m"
proof -
  have "rel_option same_core (inst m x) (inst m x)" for x by (simp add: option.rel_refl)
  then show ?thesis by (simp add: adds_def)
qed

lemma adds_trans:
  assumes "adds m m1" "adds m1 m2"
  shows "adds m m2"
proof -
  have "\<exists>xb2. m_job m2 x = Some xb2 \<and> same_core xb xb2" if x: "m_job m x = Some xb" for x xb
  proof -
    obtain xb1 where x1: "m_job m1 x = Some xb1" "same_core xb xb1" using assms(1) x unfolding adds_def by blast
    then obtain xb2 where "m_job m2 x = Some xb2" "same_core xb1 xb2" using assms(2) unfolding adds_def by blast
    then show ?thesis using x1(2) same_core_trans by blast
  qed
  moreover have "rel_option same_core (inst m x) (inst m2 x)" for x
    using assms rel_inst_trans unfolding adds_def by blast
  moreover have "set (tlist m u) \<subseteq> set (tlist m2 u)" for u
    using assms unfolding adds_def by blast
  ultimately show ?thesis using assms unfolding adds_def by simp
qed

lemma wf_ids_same:
  assumes "\<And>x xb'. m_job m' x = Some xb' \<Longrightarrow> \<exists>xb. m_job m x = Some xb \<and> same_id xb xb'"
    "m_next_job m' = m_next_job m" "m_current_job_id m' = m_current_job_id m" "wf_ids m"
  shows "wf_ids m'"
proof -
  obtain c where c: "m_current_job_id m = of_nat (m_next_job m) + c"
      "\<And>x xb. m_job m x = Some xb \<Longrightarrow> j_id xb = of_nat x + c"
    using assms(4) unfolding wf_ids_def by blast
  have "j_id xb' = of_nat x + c" if "m_job m' x = Some xb'" for x xb'
    using assms(1) [OF that] c(2) by (auto simp: same_id_def)
  then show ?thesis using c(1) assms(2,3) unfolding wf_ids_def by auto
qed

lemma adds_same_core:
  assumes rel: "\<And>x. rel_option same_core (m_job m x) (m_job m' x)"
    and "m_unit m' = m_unit m" "m_units m' = m_units m" "m_jobs m' = m_jobs m"
      "m_run_queue m' = m_run_queue m" "m_dbus_job_queue m' = m_dbus_job_queue m"
      "m_next_job m' = m_next_job m" "m_current_job_id m' = m_current_job_id m"
    and tl: "\<And>u. set (tlist m u) \<subseteq> set (tlist m' u)"
    and dep: "\<And>l d. omap_get (m_dep m) l = Some d \<Longrightarrow> omap_get (m_dep m') l = Some d"
    and cl: "clean_tx m \<Longrightarrow> clean_tx m'"
  shows "adds m m'"
proof -
  have bwd: "\<exists>xb. m_job m x = Some xb \<and> same_id xb xb'" if "m_job m' x = Some xb'" for x xb'
    using rel [of x] that same_core_same_id by (cases "m_job m x") auto
  have "\<exists>xb'. m_job m' x = Some xb' \<and> same_core xb xb'" if "m_job m x = Some xb" for x xb
    using rel [of x] that by (cases "m_job m' x") auto
  moreover have "wf_ids m'" if "wf_ids m" using wf_ids_same [OF bwd assms(7,8) that] .
  ultimately show ?thesis
    using rel_inst_job [OF rel] assms(2-7) tl dep cl unfolding adds_def by simp
qed

definition add_step :: "job \<Rightarrow> job \<Rightarrow> bool" where
  "add_step a b \<longleftrightarrow> same_links a b \<and> same_core a b \<and> (clean_job a \<longrightarrow> clean_job b)"

lemma add_step_refl [simp]: "add_step a a"
  by (simp add: add_step_def)

lemma adds_relabel:
  assumes ra: "relabel add_step m m'"
  shows "adds m m'"
proof (rule adds_same_core)
  have r: "relabel same_core m m'" using relabel_mono [OF ra] by (simp add: add_step_def)
  show "clean_tx m'" if c: "clean_tx m"
    unfolding clean_tx_def
  proof (intro ballI allI impI)
    fix j jb' assume j: "j \<in> tjobs m'" "m_job m' j = Some jb'"
    then obtain jb where "m_job m j = Some jb" "add_step jb jb'" using relabelD(12) [OF ra] by blast
    then show "clean_job jb'" using c j(1) relabel_sets(2) [OF ra] unfolding clean_tx_def add_step_def by blast
  qed
  have "m' = m\<lparr>m_job := m_job m'\<rparr>" using ra by (simp add: relabel_def)
  then show "m_current_job_id m' = m_current_job_id m"
    by (metis manager.select_convs(9) manager.surjective manager.update_convs(13))
  show "rel_option same_core (m_job m x) (m_job m' x)" for x using r by (simp add: relabel_def)
qed (use relabelD [OF ra] tlist_relabel [OF ra] in simp_all)

lemma adds_push:
  assumes "tjobs (push_tx u j m) = insert j (tjobs m)" "\<And>jb. m_job m j = Some jb \<Longrightarrow> clean_job jb"
  shows "adds m (push_tx u j m)"
  by (rule adds_same_core) (use assms in \<open>auto simp: option.rel_refl tlist_push clean_tx_def\<close>)

lemma adds_new:
  assumes wf: "wf_tx m" and new: "job_new type u m = (j, m')"
  shows "adds m m'"
proof -
  note N = job_new_ok [OF wf new]
  have old: "m_job m' x = (if x = j then Some (fresh_job type u (m_current_job_id m)) else m_job m x)" for x
    using new by (auto simp: job_new_eq)
  have "rel_option same_core (inst m x) (inst m' x)" for x
    using N(12) unfolding inst_def old by (auto simp: option.rel_refl split: option.split)
  moreover have "m_unit m' = m_unit m" "m_units m' = m_units m" "m_jobs m' = m_jobs m"
    "m_run_queue m' = m_run_queue m" "m_dbus_job_queue m' = m_dbus_job_queue m" "m_next_job m \<le> m_next_job m'"
    using new by (auto simp: job_new_eq)
  moreover have "m_dep m' = m_dep m" using new by (auto simp: job_new_eq)
  moreover have "clean_tx m'" if "clean_tx m"
    using that N(7,10) unfolding clean_tx_def old by auto
  ultimately show ?thesis using N(8,11,12) unfolding adds_def old by auto
qed

text \<open>The job that \<open>transaction_add_one_job\<close> finds or adds.\<close>

lemma find_type_ok:
  assumes "\<And>j. j \<in> set js \<Longrightarrow> \<exists>jb. m_job m j = Some jb \<and> j_unit jb = u"
  shows "\<exists>r. find_type m u type js = Some r \<and>
     (case r of
        Some j \<Rightarrow> j \<in> set js \<and> (\<exists>jb. m_job m j = Some jb \<and> j_type jb = type)
      | None \<Rightarrow> \<forall>j \<in> set js. \<forall>jb. m_job m j = Some jb \<longrightarrow> j_type jb \<noteq> type)"
  using assms
proof (induction js)
  case (Cons j js)
  then obtain jb where jb: "m_job m j = Some jb" "j_unit jb = u" by (meson list.set_intros(1))
  obtain r where r: "find_type m u type js = Some r"
     "case r of
        Some j \<Rightarrow> j \<in> set js \<and> (\<exists>jb. m_job m j = Some jb \<and> j_type jb = type)
      | None \<Rightarrow> \<forall>j \<in> set js. \<forall>jb. m_job m j = Some jb \<longrightarrow> j_type jb \<noteq> type"
    using Cons by auto
  show ?case
  proof (cases "j_type jb = type")
    case False
    then show ?thesis using jb r by (auto split: option.splits)
  qed (use jb in auto)
qed simp

definition added :: "job_type \<Rightarrow> uid \<Rightarrow> manager \<Rightarrow> jref \<Rightarrow> manager \<Rightarrow> bool" where
  "added type u m j m' \<longleftrightarrow>
     wf_tx m' \<and> adds m m' \<and> m_next_job m' \<le> Suc (m_next_job m) \<and> j \<in> set (tlist m' u) \<and> (\<exists>jb. m_job m' j = Some jb \<and> j_type jb = type)"

lemma transaction_add_one_job_ok:
  assumes wf: "wf_tx m"
  shows "\<exists>is_new j m'. transaction_add_one_job type u ov m = Some (is_new, j, m') \<and> added type u m j m' \<and>
     (is_new \<longrightarrow> (\<forall>k \<in> set (tlist m u). \<forall>kb. m_job m k = Some kb \<longrightarrow> j_type kb \<noteq> type)) \<and>
     (\<not> is_new \<longrightarrow> m' = m)"
proof -
  note wfl = wf_txD(7) [OF wf]
  obtain r where r: "find_type m u type (tlist m u) = Some r"
     "case r of
        Some j \<Rightarrow> j \<in> set (tlist m u) \<and> (\<exists>jb. m_job m j = Some jb \<and> j_type jb = type)
      | None \<Rightarrow> \<forall>j \<in> set (tlist m u). \<forall>jb. m_job m j = Some jb \<longrightarrow> j_type jb \<noteq> type"
    using find_type_ok wf_list_tlist(2) [OF wfl] by blast
  show ?thesis
  proof (cases r)
    case (Some j)
    then show ?thesis using r wf adds_refl by (auto simp: transaction_add_one_job_def added_def)
  next
    case None
    let ?f = "\<lambda>jb. jb\<lparr>j_generation := 0, j_marker := None, j_matters_to_anchor := False, j_override := ov\<rparr>"
    have step: "add_step a (?f a)" for a
      by (simp add: add_step_def same_links_def same_core_def same_id_def clean_job_def)
    have none: "\<forall>j \<in> set (tlist m u). \<forall>jb. m_job m j = Some jb \<longrightarrow> j_type jb \<noteq> type" using r(2) None by simp
    have finish: "\<exists>m'. do { m2 \<leftarrow> upd_job j ?f m1;
              Some (True, j, m2\<lparr>m_transaction_jobs := omap_replace u (j # tlist m u) (m_transaction_jobs m2)\<rparr>) } =
              Some (True, j, m') \<and> added type u m j m'"
      if m1: "wf_core m1" "wf_inst m1" "wf_queues m1" "wf_next m1" "scoped m1" "noninst m1 \<subseteq> insert j (tjobs m1)"
        "adds m m1" "tlist m1 = tlist m" "m_next_job m1 \<le> Suc (m_next_job m)"
        and j: "m_job m1 j = Some jb" "j_unit jb = u" "j_type jb = type" "j \<notin> set (tlist m u)" for m1 j jb
    proof -
      have "wf_tx (push_tx u j m1)" using wf_tx_push(1) [OF m1(1-6) j(1,2)] j(4) m1(8) by simp
      moreover obtain m2 where m2: "upd_job j ?f m1 = Some m2" "relabel add_step m1 m2" "m_job m2 = (m_job m1)(j \<mapsto> ?f jb)"
        using upd_job_relabel [OF j(1), of add_step ?f] step by (auto simp: add_step_def)
      have m2': "m2 = m1\<lparr>m_job := (m_job m1)(j \<mapsto> ?f jb)\<rparr>" using m2(1) j(1) by (simp add: upd_job_def)
      have tl2: "tlist m2 = tlist m" using tlist_relabel [OF m2(2)] m1(8) by simp
      have rl: "relabel add_step (push_tx u j m1) (push_tx u j m2)"
        using j(1) step by (simp add: relabel_def push_tx_def m2' tlist_def option.rel_refl)
      then have wf2: "wf_tx (push_tx u j m2)"
        using wf_tx_relabel [OF relabel_mono [OF rl]] \<open>wf_tx (push_tx u j m1)\<close> by (simp add: add_step_def)
      have wfl2: "wf_list m2" using m1(1) unfolding wf_core_def wf_list_def by (fastforce simp: m2' j(1,2))
      have "adds m (push_tx u j m2)"
      proof (rule adds_trans [OF adds_trans [OF m1(7) adds_relabel [OF m2(2)]] adds_push])
        show "tjobs (push_tx u j m2) = insert j (tjobs m2)" using tjobs_push [OF wfl2 wf_txD(7) [OF wf2]] .
        show "clean_job jb'" if "m_job m2 j = Some jb'" for jb' using that m2(3) by (auto simp: clean_job_def)
      qed
      then have "added type u m j (push_tx u j m2)"
        using wf2 m2(3) j(1,3) m1(9) by (simp add: added_def tlist_push m2')
      then show ?thesis using m2(1) tl2 by (auto simp: push_tx_def)
    qed
    have main: "\<exists>j m'. transaction_add_one_job type u ov m = Some (True, j, m') \<and> added type u m j m'"
      if "(case u_job (m_unit m u) of
            Some i \<Rightarrow> do { ib \<leftarrow> m_job m i; Some (if j_type ib = type then (i, m) else job_new type u m) }
          | None \<Rightarrow> Some (job_new type u m)) = Some (j, m1)"
        "wf_core m1" "wf_inst m1" "wf_queues m1" "wf_next m1" "scoped m1" "noninst m1 \<subseteq> insert j (tjobs m1)"
        "adds m m1" "tlist m1 = tlist m" "m_next_job m1 \<le> Suc (m_next_job m)"
        "m_job m1 j = Some jb" "j_unit jb = u" "j_type jb = type"
        "j \<notin> set (tlist m u)" for j m1 jb
      using finish [OF that(2-)] that(1) r(1) None by (auto simp: transaction_add_one_job_def)
    have new: "\<exists>j m'. transaction_add_one_job type u ov m = Some (True, j, m') \<and> added type u m j m'"
      if "(case u_job (m_unit m u) of
            Some i \<Rightarrow> do { ib \<leftarrow> m_job m i; Some (if j_type ib = type then (i, m) else job_new type u m) }
          | None \<Rightarrow> Some (job_new type u m)) = Some (job_new type u m)"
    proof -
      obtain j m1 where n: "job_new type u m = (j, m1)" by (cases "job_new type u m")
      note N = job_new_ok [OF wf n]
      have "noninst m1 \<subseteq> insert j (tjobs m1)" using N(6,7) wf_txD(2) [OF wf] by (auto simp: wf_scope_def)
      moreover have "j \<notin> set (tlist m u)" using N(10) tlist_tjobs by blast
      ultimately show ?thesis
        using main [OF trans [OF that arg_cong [OF n, where f = Some]] N(1-5) _ adds_new [OF wf n] N(8) _ N(9)] n
        by (auto simp: job_new_eq)
    qed
    have "\<exists>j m'. transaction_add_one_job type u ov m = Some (True, j, m') \<and> added type u m j m'"
    proof (cases "u_job (m_unit m u)")
      case None
      then show ?thesis using new by simp
    next
      case (Some i)
      obtain ib where ib: "m_job m i = Some ib" "j_unit ib = u"
        using wf_txD(3) [OF wf] Some unfolding wf_inst_def by blast
      show ?thesis
      proof (cases "j_type ib = type")
        case True
        have "scoped m" "noninst m \<subseteq> insert i (tjobs m)" using wf_txD(2) [OF wf] by (auto simp: wf_scope_def scoped_def)
        then show ?thesis
          using main [of i m ib] Some ib True wf_txD(1,3,4,5) [OF wf] adds_refl none by auto
      next
        case False
        then show ?thesis using new Some ib by simp
      qed
    qed
    then show ?thesis using none by blast
  qed
qed

subsection \<open>Adding a link\<close>

definition link_job :: "dref \<Rightarrow> jref option \<Rightarrow> jref \<Rightarrow> jref \<Rightarrow> job \<Rightarrow> job" where
  "link_job l subject object x jb =
     jb\<lparr>j_subject_list := (if subject = Some x then l # j_subject_list jb else j_subject_list jb),
        j_object_list := (if object = x then l # j_object_list jb else j_object_list jb)\<rparr>"

lemma link_job_sel [simp]:
  "j_subject_list (link_job l s ob x jb) = (if s = Some x then l # j_subject_list jb else j_subject_list jb)"
  "j_object_list (link_job l s ob x jb) = (if ob = x then l # j_object_list jb else j_object_list jb)"
  "same_core jb (link_job l s ob x jb)" "clean_job (link_job l s ob x jb) = clean_job jb" "same_id jb (link_job l s ob x jb)"
  by (simp_all add: link_job_def same_core_def same_id_def clean_job_def)

lemma link_job_none: "s \<noteq> Some x \<Longrightarrow> ob \<noteq> x \<Longrightarrow> link_job l s ob x jb = jb"
  by (simp add: link_job_def)

definition linked :: "jref option \<Rightarrow> jref \<Rightarrow> bool \<Rightarrow> bool \<Rightarrow> manager \<Rightarrow> manager" where
  "linked subject object matters conflicts m =
     m\<lparr>m_next_dep := m_next_dep m + 1,
       m_dep := (m_next_dep m, \<lparr>d_subject = subject, d_object = object,
                               d_matters = matters, d_conflicts = conflicts\<rparr>) # m_dep m,
       m_transaction_anchor :=
         (if subject = None then m_next_dep m # m_transaction_anchor m else m_transaction_anchor m),
       m_job := (\<lambda>x. map_option (link_job (m_next_dep m) subject object x) (m_job m x))\<rparr>"

lemma job_dependency_new_linked:
  assumes "m_job m object \<noteq> None" "\<And>s. subject = Some s \<Longrightarrow> m_job m s \<noteq> None"
  shows "job_dependency_new subject object matters conflicts m = Some (linked subject object matters conflicts m)"
proof -
  obtain ob where ob: "m_job m object = Some ob" using assms(1) by blast
  show ?thesis
  proof (cases subject)
    case None
    have "(m_job m)(object \<mapsto> ob\<lparr>j_object_list := m_next_dep m # j_object_list ob\<rparr>) =
        (\<lambda>x. map_option (link_job (m_next_dep m) subject object x) (m_job m x))"
    proof
      fix x
      show "((m_job m)(object \<mapsto> ob\<lparr>j_object_list := m_next_dep m # j_object_list ob\<rparr>)) x =
          map_option (link_job (m_next_dep m) subject object x) (m_job m x)"
        using None ob by (cases "m_job m x"; cases "x = object") (auto simp: link_job_def)
    qed
    then show ?thesis using None ob by (simp add: job_dependency_new_def linked_def upd_job_def Let_def)
  next
    case (Some s)
    obtain sb where sb: "m_job m s = Some sb" using assms(2) Some by blast
    define f where "f = (m_job m)(s \<mapsto> sb\<lparr>j_subject_list := m_next_dep m # j_subject_list sb\<rparr>)"
    obtain ob' where ob': "f object = Some ob'"
      "ob' = (if object = s then sb\<lparr>j_subject_list := m_next_dep m # j_subject_list sb\<rparr> else ob)"
      using ob by (auto simp: f_def)
    have "f(object \<mapsto> ob'\<lparr>j_object_list := m_next_dep m # j_object_list ob'\<rparr>) =
        (\<lambda>x. map_option (link_job (m_next_dep m) subject object x) (m_job m x))"
    proof
      fix x
      show "(f(object \<mapsto> ob'\<lparr>j_object_list := m_next_dep m # j_object_list ob'\<rparr>)) x =
          map_option (link_job (m_next_dep m) subject object x) (m_job m x)"
        using Some ob ob' sb by (cases "m_job m x"; cases "x = object"; cases "x = s") (auto simp: f_def link_job_def)
    qed
    then have fin: "m\<lparr>m_next_dep := l, m_dep := ds, m_job := f(object \<mapsto> ob'\<lparr>j_object_list := m_next_dep m # j_object_list ob'\<rparr>)\<rparr> =
        m\<lparr>m_next_dep := l, m_dep := ds,
          m_job := (\<lambda>x. map_option (link_job (m_next_dep m) subject object x) (m_job m x))\<rparr>" for l ds
      by simp
    define m1 where "m1 = m\<lparr>m_next_dep := m_next_dep m + 1,
       m_dep := (m_next_dep m, \<lparr>d_subject = subject, d_object = object,
                               d_matters = matters, d_conflicts = conflicts\<rparr>) # m_dep m\<rparr>"
    have s1: "upd_job s (\<lambda>jb. jb\<lparr>j_subject_list := m_next_dep m # j_subject_list jb\<rparr>) m1 = Some (m1\<lparr>m_job := f\<rparr>)"
      using sb by (simp add: upd_job_def m1_def f_def)
    have s2: "upd_job object (\<lambda>jb. jb\<lparr>j_object_list := m_next_dep m # j_object_list jb\<rparr>) (m1\<lparr>m_job := f\<rparr>) =
        Some (m1\<lparr>m_job := f(object \<mapsto> ob'\<lparr>j_object_list := m_next_dep m # j_object_list ob'\<rparr>)\<rparr>)"
      using ob'(1) by (simp add: upd_job_def)
    have "job_dependency_new subject object matters conflicts m =
        Some (m1\<lparr>m_job := f(object \<mapsto> ob'\<lparr>j_object_list := m_next_dep m # j_object_list ob'\<rparr>)\<rparr>)"
      unfolding job_dependency_new_def Let_def m1_def [symmetric] Some option.case
      using s1 s2 by (simp add: m1_def Some)
    then show ?thesis using fin Some by (simp add: m1_def linked_def)
  qed
qed

lemma linked_sel [simp]:
  "m_job (linked s ob mt cf m) x = map_option (link_job (m_next_dep m) s ob x) (m_job m x)"
  "m_jobs (linked s ob mt cf m) = m_jobs m" "m_unit (linked s ob mt cf m) = m_unit m"
  "m_units (linked s ob mt cf m) = m_units m" "m_run_queue (linked s ob mt cf m) = m_run_queue m"
  "m_dbus_job_queue (linked s ob mt cf m) = m_dbus_job_queue m"
  "m_transaction_jobs (linked s ob mt cf m) = m_transaction_jobs m"
  "m_next_job (linked s ob mt cf m) = m_next_job m" "m_next_dep (linked s ob mt cf m) = m_next_dep m + 1"
  "m_current_job_id (linked s ob mt cf m) = m_current_job_id m"
  "tlist (linked s ob mt cf m) u = tlist m u"
  "omap_get (m_dep (linked s ob mt cf m)) l =
     (if l = m_next_dep m then Some \<lparr>d_subject = s, d_object = ob, d_matters = mt, d_conflicts = cf\<rparr>
      else omap_get (m_dep m) l)"
  "m_transaction_anchor (linked s ob mt cf m) =
     (if s = None then m_next_dep m # m_transaction_anchor m else m_transaction_anchor m)"
  by (simp_all add: linked_def tlist_def omap_get_def)

lemma linked_ok:
  assumes wf: "wf_tx m" and ob: "ob \<in> tjobs m" and s: "\<And>x. s = Some x \<Longrightarrow> x \<in> tjobs m"
  shows "wf_tx (linked s ob mt cf m)" "adds m (linked s ob mt cf m)"
proof -
  let ?m = "linked s ob mt cf m" and ?l = "m_next_dep m"
  note wfd = wf_txD(6) [OF wf]
  have alive: "m_job m x \<noteq> None" if "x \<in> tjobs m" for x using tjobs_alive [OF wf_txD(7) [OF wf] that] .
  have new: "omap_get (m_dep m) ?l = None" using wf_txD(5) [OF wf] by (simp add: wf_next_def)
  have unused: "?l \<notin> set (j_subject_list xb)" "?l \<notin> set (j_object_list xb)" if "m_job m x = Some xb" for x xb
    using wf_depsD(7,8) [OF wfd that, of ?l] new by auto
  have anew: "?l \<notin> set (m_transaction_anchor m)" using wf_depsD(10) [OF wfd, of ?l] new by auto
  have "wf_deps ?m"
    unfolding wf_deps_def
  proof (intro conjI allI impI)
    have "?l \<notin> set (omap_keys (m_dep m))" using new unfolding omap_get_None_iff .
    then show "distinct (omap_keys (m_dep ?m))" using wf_depsD(1) [OF wfd] by (simp add: linked_def)
  next
    fix l d assume get: "omap_get (m_dep ?m) l = Some d"
    show "\<exists>xb. m_job ?m (d_object d) = Some xb \<and> l \<in> set (j_object_list xb)"
    proof (cases "l = ?l")
      case True
      then have "d_object d = ob" using get by auto
      then show ?thesis using alive [OF ob] True by auto
    next
      case False
      then obtain xb where "m_job m (d_object d) = Some xb" "l \<in> set (j_object_list xb)"
        using wf_depsD(2) [OF wfd, of l d] get by auto
      then show ?thesis by simp
    qed
    show "case d_subject d of None \<Rightarrow> l \<in> set (m_transaction_anchor ?m)
        | Some x \<Rightarrow> \<exists>xb. m_job ?m x = Some xb \<and> l \<in> set (j_subject_list xb)"
    proof (cases "l = ?l")
      case True
      then have ds: "d_subject d = s" using get by auto
      show ?thesis
      proof (cases s)
        case (Some x)
        then show ?thesis using alive [OF s [OF Some]] True ds by auto
      qed (use True ds in simp)
    next
      case False
      then have get': "omap_get (m_dep m) l = Some d" using get by simp
      show ?thesis
      proof (cases "d_subject d")
        case None
        then show ?thesis using wf_depsD(4) [OF wfd get'] by simp
      next
        case (Some x)
        obtain xb where "m_job m x = Some xb" "l \<in> set (j_subject_list xb)" using wf_depsD(3) [OF wfd get' Some] by auto
        then show ?thesis using Some by simp
      qed
    qed
  next
    fix x xb assume "m_job ?m x = Some xb"
    then obtain xb0 where x: "m_job m x = Some xb0" "xb = link_job ?l s ob x xb0" by auto
    note J = wf_depsD(5-8) [OF wfd x(1)]
    show "distinct (j_subject_list xb)" "distinct (j_object_list xb)"
      using J(1,2) unused [OF x(1)] x(2) by simp_all
    show "\<forall>l \<in> set (j_subject_list xb). \<exists>d. omap_get (m_dep ?m) l = Some d \<and> d_subject d = Some x"
      using J(3) unused [OF x(1)] x(2) by (auto split: if_splits)
    show "\<forall>l \<in> set (j_object_list xb). \<exists>d. omap_get (m_dep ?m) l = Some d \<and> d_object d = x"
      using J(4) unused [OF x(1)] x(2) by (auto split: if_splits)
  next
    show "distinct (m_transaction_anchor ?m)" using wf_depsD(9) [OF wfd] anew by simp
    show "\<forall>l \<in> set (m_transaction_anchor ?m). \<exists>d. omap_get (m_dep ?m) l = Some d \<and> d_subject d = None"
      using wf_depsD(10) [OF wfd] anew by auto
  qed
  moreover have core: "rel_option same_core (m_job m x) (m_job ?m x)" for x
    by (cases "m_job m x") simp_all
  moreover have id: "rel_option same_id (m_job m x) (m_job ?m x)" for x
    by (cases "m_job m x") simp_all
  moreover have "d_object d \<in> tjobs m \<and> (\<forall>x. d_subject d = Some x \<longrightarrow> x \<in> tjobs m) \<and> l < m_next_dep ?m"
    if "omap_get (m_dep ?m) l = Some d" for l d
  proof (cases "l = ?l")
    case True
    then show ?thesis using that ob s by auto
  next
    case False
    then have get: "omap_get (m_dep m) l = Some d" using that by simp
    then have "l < m_next_dep m" using wf_txD(5) [OF wf] unfolding wf_next_def by (metis leI option.distinct(1))
    then show ?thesis using wf_txD(2) [OF wf] get unfolding wf_scope_def by auto
  qed
  ultimately show "wf_tx ?m" by (intro wf_tx_same_id [OF id _ wf]) simp_all
  have "clean_tx ?m" if "clean_tx m"
    using that unfolding clean_tx_def by (auto simp: tjobs_def)
  then show "adds m ?m" using new by (intro adds_same_core [OF core]) auto
qed

subsection \<open>The recursion over the requirements\<close>

text \<open>The units that the manager knows are closed under the dependencies that are followed.\<close>

definition known :: "manager \<Rightarrow> uid set" where
  "known m = snd ` set (m_units m)"

definition closed_units :: "manager \<Rightarrow> bool" where
  "closed_units m \<longleftrightarrow>
     (\<forall>u \<in> known m. (\<forall>d. set (u_deps m u d) \<subseteq> known m) \<and> set (u_following_set (m_unit m u)) \<subseteq> known m)"

definition missing :: "manager \<Rightarrow> (uid \<times> job_type) set" where
  "missing m = {(u, t). u \<in> known m \<and> (\<forall>j \<in> set (tlist m u). \<forall>jb. m_job m j = Some jb \<longrightarrow> j_type jb \<noteq> t)}"

lemma finite_job_types: "finite (UNIV :: job_type set)"
proof -
  have "UNIV = {JOB_START, JOB_VERIFY_ACTIVE, JOB_STOP, JOB_RELOAD, JOB_RELOAD_OR_START, JOB_RESTART, JOB_TRY_RESTART}"
    using job_type.exhaust by blast
  then show ?thesis by (metis finite.emptyI finite.insertI)
qed

lemma finite_missing [simp]: "finite (missing m)"
proof -
  have "missing m \<subseteq> known m \<times> UNIV" by (auto simp: missing_def)
  moreover have "finite (known m)" by (simp add: known_def)
  ultimately show ?thesis using finite_job_types by (meson finite_SigmaI finite_subset)
qed

lemma adds_known: "adds m m' \<Longrightarrow> known m' = known m" "adds m m' \<Longrightarrow> closed_units m' = closed_units m"
  by (simp_all add: adds_def known_def closed_units_def)

lemma missing_adds:
  assumes wf: "wf_tx m" and a: "adds m m'"
  shows "missing m' \<subseteq> missing m"
proof
  fix p assume p: "p \<in> missing m'"
  obtain u t where ut: "p = (u, t)" by (cases p)
  have "j_type jb \<noteq> t" if j: "j \<in> set (tlist m u)" "m_job m j = Some jb" for j jb
  proof -
    obtain jb' where "m_job m' j = Some jb'" "same_core jb jb'" using a j(2) unfolding adds_def by blast
    moreover have "j \<in> set (tlist m' u)" using a j(1) unfolding adds_def by blast
    ultimately show ?thesis using p ut by (auto simp: missing_def same_core_def)
  qed
  then show "p \<in> missing m" using p ut adds_known(1) [OF a] by (auto simp: missing_def)
qed

lemma card_missing: "card (missing m) \<le> 7 * length (m_units m)"
proof -
  have "UNIV = {JOB_START, JOB_VERIFY_ACTIVE, JOB_STOP, JOB_RELOAD, JOB_RELOAD_OR_START, JOB_RESTART, JOB_TRY_RESTART}"
    using job_type.exhaust by blast
  moreover have "card {JOB_START, JOB_VERIFY_ACTIVE, JOB_STOP, JOB_RELOAD, JOB_RELOAD_OR_START, JOB_RESTART, JOB_TRY_RESTART} = 7"
    by simp
  ultimately have "card (UNIV :: job_type set) = 7" by argo
  moreover have "finite (known m)" "card (known m) \<le> length (m_units m)"
    unfolding known_def using card_image_le [of "set (m_units m)" snd] card_length [of "m_units m"] by simp_all
  moreover have "card (missing m) \<le> card (known m \<times> (UNIV :: job_type set))"
    using finite_job_types by (intro card_mono) (auto simp: missing_def known_def)
  ultimately show ?thesis by (simp add: card_cartesian_product)
qed

text \<open>The number of jobs that are created is bounded by the number of job types and units.\<close>

definition bounded :: "manager \<Rightarrow> manager \<Rightarrow> bool" where
  "bounded m m' \<longleftrightarrow> m_next_job m' + card (missing m') \<le> m_next_job m + card (missing m)"

lemma bounded_adds: "wf_tx m \<Longrightarrow> adds m m' \<Longrightarrow> m_next_job m' \<le> m_next_job m \<Longrightarrow> bounded m m'"
  unfolding bounded_def using missing_adds [of m m'] by (simp add: add_mono card_mono)

fun add_size :: "add_call \<Rightarrow> nat" where
  "add_size (Add type u b mt ov cf ir io) = 0"
| "add_size (Pull ret io ps) = Suc (length ps)"

text \<open>
  A call ends, keeps the invariant and only adds; what it returns is a job of the transaction with
  the type and the unit asked for.
\<close>

definition add_ok :: "add_call \<Rightarrow> manager \<Rightarrow> bool" where
  "add_ok c m \<longleftrightarrow>
     (\<exists>r m'. add_job_call c m = Some (r, m') \<and> wf_tx m' \<and> adds m m' \<and> bounded m m' \<and>
        (case c of
           Add type u b mt ov cf ir io \<Rightarrow>
             (case r of
                Inl e \<Rightarrow> e = EINVAL \<or> e = EBADR
              | Inr ret \<Rightarrow> ret \<in> set (tlist m' u) \<and> (\<exists>jb. m_job m' ret = Some jb \<and> j_type jb = type) \<and>
                  (\<exists>l d. omap_get (m_dep m') l = Some d \<and> d_subject d = b \<and> d_object d = ret \<and> d_matters d = mt))
         | Pull ret io ps \<Rightarrow> (case r of Inl e \<Rightarrow> e = EINVAL | Inr ret' \<Rightarrow> ret' = ret)))"

fun call_pre :: "add_call \<Rightarrow> manager \<Rightarrow> bool" where
  "call_pre (Add type u b mt ov cf ir io) m \<longleftrightarrow> u \<in> known m \<and> (\<forall>x. b = Some x \<longrightarrow> x \<in> tjobs m)"
| "call_pre (Pull ret io ps) m \<longleftrightarrow> ret \<in> tjobs m \<and> (\<forall>p \<in> set ps. p_unit p \<in> known m)"

lemma adds_tjobs: "wf_tx m \<Longrightarrow> wf_tx m' \<Longrightarrow> adds m m' \<Longrightarrow> tjobs m \<subseteq> tjobs m'"
  unfolding adds_def by (simp add: tjobs_tlist wf_txD(7)) blast

lemma add_ok_Pull_Cons:
  assumes wf: "wf_tx m"
    and ok1: "add_ok (Add (p_type p) (p_unit p) (Some ret) (p_matters p) (p_override p) (p_conflicts p) False io) m"
    and ok2: "\<And>m1. wf_tx m1 \<Longrightarrow> adds m m1 \<Longrightarrow> add_ok (Pull ret io ps) m1"
  shows "add_ok (Pull ret io (p # ps)) m"
proof -
  obtain r m1 where m1: "add_job_call (Add (p_type p) (p_unit p) (Some ret) (p_matters p) (p_override p) (p_conflicts p) False io) m = Some (r, m1)"
      "wf_tx m1" "adds m m1" and b1: "bounded m m1"
      and err: "\<And>e. r = Inl e \<Longrightarrow> e = EINVAL \<or> e = EBADR"
    using ok1 unfolding add_ok_def add_call.case by (elim exE conjE) (force split: sum.splits)
  obtain r2 m2 where m2: "add_job_call (Pull ret io ps) m1 = Some (r2, m2)" "wf_tx m2" "adds m1 m2"
      "case r2 of Inl e \<Rightarrow> e = EINVAL | Inr ret' \<Rightarrow> ret' = ret" "bounded m1 m2"
    using ok2 [OF m1(2,3)] by (auto simp: add_ok_def)
  have a2: "adds m m2" "bounded m m2" using adds_trans [OF m1(3) m2(3)] b1 m2(5) by (auto simp: bounded_def)
  show ?thesis
  proof (cases r)
    case (Inr x)
    then have "add_job_call (Pull ret io (p # ps)) m = Some (r2, m2)"
      using m1(1) m2(1) by (subst add_job_call.simps) simp
    then show ?thesis using m2 a2 by (simp add: add_ok_def)
  next
    case (Inl e)
    show ?thesis
    proof (cases "p_strict p \<and> e \<noteq> EBADR")
      case True
      then have "add_job_call (Pull ret io (p # ps)) m = Some (Inl e, m1)"
        using m1(1) Inl by (subst add_job_call.simps) simp
      then show ?thesis using m1 b1 err [OF Inl] True by (auto simp: add_ok_def)
    next
      case False
      then have "add_job_call (Pull ret io (p # ps)) m = Some (r2, m2)"
        using m1(1) Inl m2(1) by (subst add_job_call.simps) auto
      then show ?thesis using m2 a2 by (simp add: add_ok_def)
    qed
  qed
qed

lemma pulls_known:
  assumes "closed_units m" "u \<in> known m" "p \<in> set (following_pulls m u type ov @ dependency_pulls m u type ov)"
  shows "p_unit p \<in> known m"
proof -
  have "p_unit q \<in> known m" if "q \<in> set (pulls m u d st ty mt ov' cf)" for q d st ty mt ov' cf
    using that assms(1,2) unfolding pulls_def closed_units_def by fastforce
  moreover have "p_unit q \<in> known m" if "q \<in> set (following_pulls m u type ov)" for q
    using that assms(1,2) unfolding following_pulls_def closed_units_def by fastforce
  ultimately show ?thesis using assms(3) by (auto simp: dependency_pulls_def split: if_splits)
qed

lemma add_job_check_errs: "add_job_check m type u = Some e \<Longrightarrow> e = EINVAL \<or> e = EBADR"
  by (auto simp: add_job_check_def Let_def split: if_splits)

lemma add_job_call_ok:
  assumes "wf_tx m" "closed_units m" "call_pre c m"
  shows "add_ok c m"
  using assms
proof (induction "(card (missing m), add_size c)" arbitrary: m c
    rule: wf_induct_rule [OF wf_lex_prod [OF wf_less_than wf_less_than]])
  case 1
  note wf = 1(2) and cl = 1(3) and pre = 1(4)
  show ?case
  proof (cases c)
    case (Add type u b mt ov cf ir io)
    have u: "u \<in> known m" and b: "\<And>x. b = Some x \<Longrightarrow> x \<in> tjobs m" using pre Add by auto
    show ?thesis
    proof (cases "add_job_check m type u")
      case (Some e)
      then have "add_job_call c m = Some (Inl e, m)" using Add by (subst add_job_call.simps) simp
      then show ?thesis using Add wf adds_refl add_job_check_errs [OF Some] by (simp add: add_ok_def bounded_def)
    next
      case None
      obtain is_new ret m1 where m1: "transaction_add_one_job type u ov m = Some (is_new, ret, m1)" "added type u m ret m1"
          "is_new \<Longrightarrow> (\<forall>k \<in> set (tlist m u). \<forall>kb. m_job m k = Some kb \<longrightarrow> j_type kb \<noteq> type)"
          "\<not> is_new \<Longrightarrow> m1 = m"
        using transaction_add_one_job_ok [OF wf, of type u ov] by auto
      obtain rb where rb: "m_job m1 ret = Some rb" "j_type rb = type" and wf1: "wf_tx m1" and a1: "adds m m1"
          and rtl: "ret \<in> set (tlist m1 u)"
          and nx1: "m_next_job m1 \<le> Suc (m_next_job m)"
        using m1(2) by (auto simp: added_def)
      let ?f = "\<lambda>jb. jb\<lparr>j_ignore_order := j_ignore_order jb \<or> io\<rparr>"
      obtain m2 where m2: "upd_job ret ?f m1 = Some m2" "relabel add_step m1 m2" "m_job m2 = (m_job m1)(ret \<mapsto> ?f rb)"
        using upd_job_relabel [OF rb(1), of add_step ?f] by (auto simp: add_step_def same_links_def same_core_def same_id_def clean_job_def)
      have wf2: "wf_tx m2" using wf_tx_relabel [OF relabel_mono [OF m2(2)] wf1] by (simp add: add_step_def)
      have a2: "adds m1 m2" using adds_relabel [OF m2(2)] .
      have tj2: "tjobs m2 = tjobs m1" using relabel_sets(2) [OF m2(2)] .
      have rtx: "ret \<in> tjobs m2" using tlist_tjobs [OF rtl] tj2 by simp
      have btx: "x \<in> tjobs m2" if "b = Some x" for x using b [OF that] adds_tjobs [OF wf wf1 a1] tj2 by auto
      let ?m3 = "linked b ret mt cf m2"
      note L = linked_ok [OF wf2 rtx btx, where mt = mt and cf = cf]
      have dep: "job_dependency_new b ret mt cf m2 = Some ?m3"
        using tjobs_alive [OF wf_txD(7) [OF wf2]] rtx btx by (intro job_dependency_new_linked) auto
      have a3: "adds m ?m3" using adds_trans [OF adds_trans [OF a1 a2] L(2)] .
      have ret3: "ret \<in> set (tlist ?m3 u)" "\<exists>jb. m_job ?m3 ret = Some jb \<and> j_type jb = type"
        using rtl tlist_relabel [OF m2(2)] m2(3) rb(2) by (simp_all add: link_job_def)
      have link3: "\<exists>l d. omap_get (m_dep ?m3) l = Some d \<and> d_subject d = b \<and> d_object d = ret \<and> d_matters d = mt"
        by (intro exI [of _ "m_next_dep m2"]) simp
      have nx3: "m_next_job ?m3 = m_next_job m1" using relabelD(9) [OF m2(2)] by simp
      have b3: "bounded m ?m3" and lt: "is_new \<Longrightarrow> card (missing ?m3) < card (missing m)"
      proof -
        have "missing ?m3 \<subset> missing m" if is_new
        proof -
          have "(u, type) \<in> missing m" using u m1(3) that by (simp add: missing_def)
          moreover have "(u, type) \<notin> missing ?m3" using ret3 unfolding missing_def by blast
          ultimately show ?thesis using missing_adds [OF wf a3] by blast
        qed
        then show lt: "is_new \<Longrightarrow> card (missing ?m3) < card (missing m)" by (simp add: psubset_card_mono)
        show "bounded m ?m3"
        proof (cases is_new)
          case True
          then show ?thesis using lt nx1 unfolding bounded_def nx3 by simp
        next
          case False
          then show ?thesis using m1(4) nx3 by (intro bounded_adds [OF wf a3]) simp
        qed
      qed
      show ?thesis
      proof (cases "is_new \<and> \<not> ir")
        case False
        then have "add_job_call c m = Some (Inr ret, ?m3)"
          using Add None m1(1) m2(1) dep by (subst add_job_call.simps) auto
        then show ?thesis using Add L(1) a3 b3 ret3 link3 by (simp add: add_ok_def)
      next
        case True
        let ?ps = "following_pulls ?m3 u type ov @ dependency_pulls ?m3 u type ov"
        have unf: "add_job_call c m = add_job_call (Pull ret io ?ps) ?m3"
          using Add None m1(1) m2(1) dep True by (subst add_job_call.simps) simp
        have cl3: "closed_units ?m3" using cl adds_known(2) [OF a3] by simp
        have "add_ok (Pull ret io ?ps) ?m3"
        proof (rule 1(1) [OF _ L(1) cl3])
          show "((card (missing ?m3), add_size (Pull ret io ?ps)), card (missing m), add_size c)
              \<in> less_than <*lex*> less_than" using lt True by simp
          have "u \<in> known ?m3" using u adds_known(1) [OF a3] by simp
          then show "call_pre (Pull ret io ?ps) ?m3"
            using pulls_known [OF cl3] tlist_tjobs [OF ret3(1)] by simp
        qed
        then obtain r m' where m': "add_job_call (Pull ret io ?ps) ?m3 = Some (r, m')" "wf_tx m'" "adds ?m3 m'"
            "case r of Inl e \<Rightarrow> e = EINVAL | Inr ret' \<Rightarrow> ret' = ret" "bounded ?m3 m'"
          by (auto simp: add_ok_def)
        have b': "bounded m m'" using b3 m'(5) by (simp add: bounded_def)
        have ret': "ret \<in> set (tlist m' u)" "\<exists>jb. m_job m' ret = Some jb \<and> j_type jb = type"
          using m'(3) ret3 unfolding adds_def same_core_def by (blast, metis)
        have "\<exists>l d. omap_get (m_dep m') l = Some d \<and> d_subject d = b \<and> d_object d = ret \<and> d_matters d = mt"
          using m'(3) link3 unfolding adds_def by blast
        then show ?thesis
          using unf m' adds_trans [OF a3 m'(3)] b' ret' Add by (auto simp: add_ok_def split: sum.splits)
      qed
    qed
  next
    case (Pull ret io ps)
    show ?thesis
    proof (cases ps)
      case Nil
      then have "add_job_call c m = Some (Inr ret, m)" using Pull by (subst add_job_call.simps) simp
      then show ?thesis using Pull wf adds_refl by (simp add: add_ok_def bounded_def)
    next
      case (Cons p ps')
      have "add_ok (Add (p_type p) (p_unit p) (Some ret) (p_matters p) (p_override p) (p_conflicts p) False io) m"
        by (rule 1(1) [OF _ wf cl]) (use Pull Cons pre in auto)
      moreover have "add_ok (Pull ret io ps') m1" if m1: "wf_tx m1" "adds m m1" for m1
      proof (rule 1(1) [OF _ m1(1)])
        have "card (missing m1) \<le> card (missing m)" using missing_adds [OF wf m1(2)] by (simp add: card_mono)
        then show "((card (missing m1), add_size (Pull ret io ps')), card (missing m), add_size c) \<in> less_than <*lex*> less_than"
          using Pull Cons by (auto simp: le_less)
        show "closed_units m1" using cl adds_known(2) [OF m1(2)] by simp
        show "call_pre (Pull ret io ps') m1"
          using Pull Cons pre adds_tjobs [OF wf m1] adds_known(1) [OF m1(2)] by auto
      qed
      ultimately show ?thesis using add_ok_Pull_Cons [OF wf] Pull Cons by simp
    qed
  qed
qed

end
