(* ===== verification/Transaction_Activate.thy ===== *)
theory Transaction_Activate
  imports Transaction_Add
begin

section \<open>Activating a transaction, and manager\_add\_job\<close>

text \<open>
  The stages of \<open>transaction_activate\<close> put together.  Marking makes the requested job matter
  to the anchor (\<open>served\<close>), no stage drops a job that matters, merging replaces it by a job
  of the same unit that covers its type, and applying installs that job.  A request therefore
  either schedules the job it asked for, or fails and leaves the manager as it was.
\<close>

subsection \<open>Marking serves the anchor\<close>

text \<open>A job covering \<open>t\<close> for the unit \<open>u\<close> hangs on the anchor by a link that matters.\<close>

definition requested :: "manager \<Rightarrow> uid \<Rightarrow> job_type \<Rightarrow> bool" where
  "requested m u t \<longleftrightarrow>
     (\<exists>j jb l d. j \<in> set (tlist m u) \<and> m_job m j = Some jb \<and> job_type_is_superset (j_type jb) t \<and>
        omap_get (m_dep m) l = Some d \<and> d_object d = j \<and> d_subject d = None \<and> d_matters d)"

lemma clean_marked:
  assumes "clean_tx m" "relabel (mark_step 1) m m'" "j \<in> tjobs m"
  shows "j \<notin> marked 1 m" "j \<in> matters_set m' \<longleftrightarrow> j \<in> marked 1 m'"
proof -
  have cl: "clean_job jb" if "m_job m j = Some jb" for jb using assms(1,3) that by (auto simp: clean_tx_def)
  show "j \<notin> marked 1 m" using cl by (auto simp: marked_def clean_job_def)
  show "j \<in> matters_set m' \<longleftrightarrow> j \<in> marked 1 m'"
  proof (cases "m_job m' j")
    case (Some jb')
    then obtain jb where "m_job m j = Some jb" "mark_step 1 jb jb'" using relabelD(12) [OF assms(2)] by blast
    then show ?thesis using cl Some by (auto simp: matters_set_def marked_def mark_step_def clean_job_def)
  qed (simp add: matters_set_def marked_def)
qed

lemma find_matters_served:
  assumes wf: "wf_tx m"
  shows "\<exists>m'. transaction_find_jobs_that_matter_to_anchor None 1 m = Some m' \<and> wf_tx m' \<and> shrinks m m' \<and>
     (\<forall>u t. clean_tx m \<and> requested m u t \<longrightarrow> served m' u t)"
proof -
  have "\<forall>l \<in> set (m_transaction_anchor m). omap_get (m_dep m) l \<noteq> None"
    using wf_depsD(10) [OF wf_txD(6) [OF wf]] by fastforce
  then obtain m' where m': "find_matters 1 (m_transaction_anchor m) m = Some m'"
      "sweeps 1 (set (m_transaction_anchor m)) m m'"
    using find_matters_sweeps [OF wf] by blast
  note S = m'(2) [unfolded sweeps_def]
  have rl: "relabel (mark_step 1) m m'" using S by simp
  have wf': "wf_tx m'" using wf_tx_relabel [OF relabel_mono [OF rl mark_step_same_links] wf] .
  have sh: "shrinks m m'" using shrinks_relabel [OF relabel_mono [OF rl mark_step_core]] .
  have "served m' u t" if cl: "clean_tx m" and rq: "requested m u t" for u t
  proof -
    note C = clean_marked [OF cl rl]
    have scope: "s \<in> tjobs m" "t \<in> tjobs m" if "(s, t) \<in> req_rel m" for s t
      using wf_txD(2) [OF wf] that unfolding wf_scope_def req_rel_def by blast+
    have "matters_closed m'"
      unfolding matters_closed_def relabel_sets(1) [OF rl]
    proof
      fix t assume "t \<in> req_rel m `` matters_set m'"
      then obtain s where s: "s \<in> matters_set m'" "(s, t) \<in> req_rel m" by blast
      then have "s \<in> marked 1 m' - marked 1 m" using C scope by blast
      then have "t \<in> marked 1 m'" using S s(2) by blast
      then show "t \<in> matters_set m'" using C scope [OF s(2)] by blast
    qed
    moreover obtain j jb l d where j: "j \<in> set (tlist m u)" "m_job m j = Some jb" "job_type_is_superset (j_type jb) t"
        "omap_get (m_dep m) l = Some d" "d_object d = j" "d_subject d = None" "d_matters d"
      using rq unfolding requested_def by blast
    have "l \<in> set (m_transaction_anchor m)" using wf_depsD(4) [OF wf_txD(6) [OF wf] j(4,6)] .
    then have "j \<in> targets m (set (m_transaction_anchor m))" using j unfolding targets_def by blast
    then have "j \<in> matters_set m'" using S C(2) tlist_tjobs [OF j(1)] by blast
    moreover have "anchor_job m' u t j"
    proof -
      obtain jb' where "m_job m' j = Some jb'" "j_type jb' = j_type jb"
        using relabelD(11) [OF rl j(2)] mark_step_core by (auto simp: same_core_def)
      then show ?thesis
        using j tlist_relabel [OF rl] relabelD(8) [OF rl] unfolding anchor_job_def by auto
    qed
    ultimately show ?thesis unfolding served_def by blast
  qed
  then show ?thesis
    using m'(1) wf' sh by (auto simp: transaction_find_jobs_that_matter_to_anchor_def)
qed

subsection \<open>Destructive transactions\<close>

definition destroys :: "manager \<Rightarrow> bool" where
  "destroys m \<longleftrightarrow>
     (\<exists>u j jb i ib. j \<in> set (tlist m u) \<and> m_job m j = Some jb \<and> u_job (m_unit m u) = Some i \<and> i \<noteq> j \<and>
        m_job m i = Some ib \<and> \<not> job_type_is_superset (j_type jb) (j_type ib))"

lemma destroys_job_ok:
  assumes wf: "wf_tx m" and j: "j \<in> set (tlist m u)"
  shows "destroys_job m j = Some (\<exists>jb i ib. m_job m j = Some jb \<and> u_job (m_unit m u) = Some i \<and> i \<noteq> j \<and>
        m_job m i = Some ib \<and> \<not> job_type_is_superset (j_type jb) (j_type ib))"
proof -
  obtain jb where jb: "m_job m j = Some jb" "j_unit jb = u" using wf_list_tlist(2) [OF wf_txD(7) [OF wf] j] by auto
  show ?thesis
  proof (cases "u_job (m_unit m u)")
    case (Some i)
    then obtain ib where "m_job m i = Some ib" using wf_txD(3) [OF wf] unfolding wf_inst_def by blast
    then show ?thesis using jb Some by (simp add: destroys_job_def)
  qed (use jb in \<open>simp add: destroys_job_def\<close>)
qed

lemma transaction_is_destructive_ok:
  assumes wf: "wf_tx m" and merged: "all_merged m"
  shows "transaction_is_destructive m = Some (if destroys m then Inl EEXIST else Inr ())"
proof -
  let ?P = "\<lambda>u j. \<exists>jb i ib. m_job m j = Some jb \<and> u_job (m_unit m u) = Some i \<and> i \<noteq> j \<and>
        m_job m i = Some ib \<and> \<not> job_type_is_superset (j_type jb) (j_type ib)"
  note wfl = wf_txD(7) [OF wf]
  have "destructive_chains m xs = Some (if \<exists>(u, js) \<in> set xs. ?P u (hd js) then Inl EEXIST else Inr ())"
    if "set xs \<subseteq> set (m_transaction_jobs m)" for xs
    using that
  proof (induction xs)
    case (Cons p xs)
    obtain u js where p: "p = (u, js)" by (cases p)
    then have mem: "(u, js) \<in> set (m_transaction_jobs m)" using Cons.prems by auto
    then have "hd js \<in> set (tlist m u)" "tl js = []"
      using tlist_mem [OF wfl mem] wf_listD(2) [OF wfl mem] merged by (auto simp: all_merged_def)
    then show ?case using Cons p destroys_job_ok [OF wf, of "hd js" u] by auto
  qed simp
  then have eq: "transaction_is_destructive m =
      Some (if \<exists>(u, js) \<in> set (m_transaction_jobs m). ?P u (hd js) then Inl EEXIST else Inr ())"
    by (simp add: transaction_is_destructive_def)
  have "(\<exists>(u, js) \<in> set (m_transaction_jobs m). ?P u (hd js)) \<longleftrightarrow> destroys m"
  proof
    assume "\<exists>(u, js) \<in> set (m_transaction_jobs m). ?P u (hd js)"
    then obtain u js where mem: "(u, js) \<in> set (m_transaction_jobs m)" and P: "?P u (hd js)" by blast
    then have "hd js \<in> set (tlist m u)" using tlist_mem [OF wfl mem] wf_listD(2) [OF wfl mem] by simp
    then show "destroys m" using P unfolding destroys_def by blast
  next
    assume "destroys m"
    then obtain u j where j: "j \<in> set (tlist m u)" and P: "?P u j" unfolding destroys_def by blast
    then have "tlist m u \<noteq> []" by auto
    then obtain js where mem: "(u, js) \<in> set (m_transaction_jobs m)" using tlist_Nil_iff [OF wfl] by auto
    then have "js = [j]" using j tlist_mem [OF wfl mem] merged by (cases js) (auto simp: all_merged_def)
    then show "\<exists>(u, js) \<in> set (m_transaction_jobs m). ?P u (hd js)" using P mem by force
  qed
  then show ?thesis using eq by simp
qed

subsection \<open>Activating a transaction\<close>

text \<open>A job that covers \<open>t\<close> is installed for the unit \<open>u\<close>.\<close>

definition scheduled :: "manager \<Rightarrow> uid \<Rightarrow> job_type \<Rightarrow> bool" where
  "scheduled m u t \<longleftrightarrow>
     (\<exists>j jb. u_job (m_unit m u) = Some j \<and> m_job m j = Some jb \<and> j_installed jb \<and> j_unit jb = u \<and>
        job_type_is_superset (j_type jb) t)"

definition aborted :: "manager \<Rightarrow> manager \<Rightarrow> bool" where
  "aborted m m' \<longleftrightarrow> (\<exists>m1. wf_tx m1 \<and> shrinks m m1 \<and> m' = no_tx m1)"

lemma abort_with_ok: "wf_tx m1 \<Longrightarrow> shrinks m m1 \<Longrightarrow> \<exists>m'. abort_with e m1 = Some (Inl e, m') \<and> aborted m m'"
  by (auto simp: abort_with_def aborted_def transaction_abort_eq)

lemma all_merged_cut:
  assumes wf: "wf_tx m" and am: "all_merged m"
  shows "all_merged (cut_jobs K m)"
  unfolding all_merged_def
proof (clarify)
  fix u js assume js: "(u, js) \<in> set (m_transaction_jobs (cut_jobs K m))"
  note wfl = wf_txD(7) [OF wf] and wfl' = wf_txD(7) [OF wf_tx_cut [OF wf]]
  have "js = filter (\<lambda>j. j \<notin> K) (tlist m u)" using tlist_mem [OF wfl' js] tlist_cut [OF wfl] by simp
  moreover have "tl (tlist m u) = []"
  proof (cases "tlist m u = []")
    case False
    then obtain ls where ls: "(u, ls) \<in> set (m_transaction_jobs m)" using tlist_Nil_iff [OF wfl] by auto
    then show ?thesis using am tlist_mem [OF wfl ls] by (auto simp: all_merged_def)
  qed simp
  ultimately show "tl js = []" by (cases "tlist m u") auto
qed

lemma shrinks_ids:
  assumes "shrinks m m'" "wf_ids m" "wf_tx m'" "m_next_job m \<le> 2 ^ 32"
  shows "ids_inj m'"
proof -
  have "wf_ids m'" using assms(1,2) unfolding shrinks_def by (intro wf_ids_same [of m' m]) auto
  then show ?thesis using wf_ids_inj wf_txD(5) [OF assms(3)] assms(1,4) by (simp add: shrinks_def)
qed

lemma installs_scheduled:
  assumes wf: "wf_tx m" and i: "installs m m'" and j: "order_target m u = Some j" "m_job m j = Some jb" "j_unit jb = u"
     "job_type_is_superset (j_type jb) t"
  shows "scheduled m' u t"
proof -
  have "live_target m j" using j by (auto simp: live_target_def)
  then obtain jb' where "m_job m' j = Some jb'" "kept jb jb'" "j_installed jb'"
    using i j(2) unfolding installs_def by blast
  moreover have "u_job (m_unit m' u) = Some j" using i j(1) by (simp add: installs_def)
  ultimately show ?thesis using j by (auto simp: scheduled_def kept_def)
qed

lemma anchor_scheduled:
  assumes wf: "wf_tx m" and am: "all_merged m" and i: "installs m m'" and j: "anchor_job m u t j"
  shows "scheduled m' u t"
proof -
  obtain jb where jb: "j \<in> set (tlist m u)" "m_job m j = Some jb" "job_type_is_superset (j_type jb) t"
    using j unfolding anchor_job_def by blast
  note wfl = wf_txD(7) [OF wf]
  have "tlist m u \<noteq> []" using jb(1) by auto
  then obtain ls where ls: "(u, ls) \<in> set (m_transaction_jobs m)" using tlist_Nil_iff [OF wfl] by auto
  then have "tl (tlist m u) = []" using am tlist_mem [OF wfl ls] by (auto simp: all_merged_def)
  then have "tlist m u = [j]" using jb(1) by (cases "tlist m u") auto
  then have "order_target m u = Some j" by (simp add: order_target_def)
  moreover have "j_unit jb = u" using wf_list_tlist(2) [OF wfl jb(1)] jb(2) by auto
  ultimately show ?thesis using installs_scheduled [OF wf i] jb(2,3) by blast
qed

lemma nondestructive_scheduled:
  assumes wf: "wf_tx m" and i: "installs m m'" and nd: "\<not> destroys m"
    and u: "u_job (m_unit m u) = Some k" "m_job m k = Some kb" "job_type_is_superset (j_type kb) t"
  shows "scheduled m' u t"
proof (cases "tlist m u")
  case Nil
  have "j_unit kb = u" using wf_txD(3) [OF wf] u(1,2) unfolding wf_inst_def by fastforce
  then show ?thesis using installs_scheduled [OF wf i _ u(2)] Nil u by (simp add: order_target_def)
next
  case (Cons j js)
  then obtain jb where jb: "m_job m j = Some jb" "j_unit jb = u" using wf_list_tlist(2) [OF wf_txD(7) [OF wf], of j u] by auto
  have "job_type_is_superset (j_type jb) (j_type kb)"
  proof (cases "j = k")
    case True
    then show ?thesis using jb u job_type_is_superset_refl by simp
  next
    case False
    then show ?thesis using nd jb u Cons unfolding destroys_def by (metis list.set_intros(1))
  qed
  then have "job_type_is_superset (j_type jb) t" using job_type_is_superset_trans u(3) by blast
  then show ?thesis using installs_scheduled [OF wf i _ jb] Cons by (simp add: order_target_def)
qed

definition activated :: "job_mode \<Rightarrow> manager \<Rightarrow> manager \<Rightarrow> bool" where
  "activated mode m m' \<longleftrightarrow>
     wf_tx m' \<and> m_transaction_jobs m' = [] \<and> m_transaction_anchor m' = [] \<and>
     (\<forall>u t. clean_tx m \<and> requested m u t \<longrightarrow> scheduled m' u t) \<and>
     (mode = JOB_FAIL \<longrightarrow> (\<forall>u t. scheduled m u t \<longrightarrow> scheduled m' u t))"

lemma shrinks_scheduled:
  assumes "shrinks m m'" "scheduled m u t"
  shows "\<exists>k kb. u_job (m_unit m' u) = Some k \<and> m_job m' k = Some kb \<and> job_type_is_superset (j_type kb) t"
proof -
  obtain k kb where k: "u_job (m_unit m u) = Some k" "m_job m k = Some kb" "j_installed kb" "job_type_is_superset (j_type kb) t"
    using assms(2) unfolding scheduled_def by blast
  have "rel_option same_core (inst m k) (inst m' k)" using assms(1) by (simp add: shrinks_def)
  then obtain kb' where "inst m' k = Some kb'" "same_core kb kb'" using k by (cases "inst m' k") (auto simp: inst_def)
  then have "m_job m' k = Some kb'" "j_type kb' = j_type kb"
    by (auto simp: inst_def same_core_def split: option.splits if_splits)
  then show ?thesis using k assms(1) by (auto simp: shrinks_def)
qed

lemma transaction_activate_ok:
  assumes wf: "wf_tx m" and mode: "mode \<noteq> JOB_ISOLATE" and ids: "wf_ids m" "m_next_job m \<le> 2 ^ 32"
  shows "\<exists>r m'. transaction_activate fin mode m = Some (r, m') \<and>
     (case r of
        Inl e \<Rightarrow> (e = ENOEXEC \<or> e = EEXIST \<and> mode = JOB_FAIL) \<and> aborted m m'
      | Inr _ \<Rightarrow> activated mode m m')"
proof -
  obtain m1 where m1: "transaction_find_jobs_that_matter_to_anchor None 1 m = Some m1" "wf_tx m1" "shrinks m m1"
      "\<forall>u t. clean_tx m \<and> requested m u t \<longrightarrow> served m1 u t"
    using find_matters_served [OF wf] by blast
  obtain m2 where m2: "(if mode = JOB_FAIL then transaction_minimize_impact m1 else Some m1) = Some m2"
      "wf_tx m2" "shrinks m1 m2" "\<forall>u t. served m1 u t \<longrightarrow> served m2 u t"
    using minimize_impact_ok [OF m1(2)] m1(2) shrinks_refl by (cases "mode = JOB_FAIL") auto
  obtain m3 where m3: "transaction_drop_redundant m2 = Some m3" "wf_tx m3" "shrinks m2 m3"
      "\<forall>u t. served m2 u t \<longrightarrow> served m3 u t"
    using drop_redundant_ok [OF m2(2)] by blast
  obtain r4 m4 where m4: "order_loop mode 2 m3 = Some (r4, m4)" "wf_tx m4" "shrinks m3 m4"
      "\<forall>u t. served m3 u t \<longrightarrow> served m4 u t" "r4 = Inr () \<or> r4 = Inl ENOEXEC"
    using order_loop_ok [OF m3(2)] by blast
  obtain r5 m5 where m5: "merge_loop mode m4 = Some (r5, m5)" "wf_tx m5" "shrinks m4 m5"
      "r5 = Inr () \<and> all_merged m5 \<and> (\<forall>u t. served m4 u t \<longrightarrow> (\<exists>j. anchor_job m5 u t j)) \<or> r5 = Inl ENOEXEC"
    using merge_loop_ok [OF m4(2)] by blast
  obtain m6 K where m6: "transaction_drop_redundant m5 = Some m6" "wf_tx m6" "shrinks m5 m6"
      "\<forall>u t j. anchor_job m5 u t j \<longrightarrow> anchor_job m6 u t j" "m6 = cut_jobs K m5"
    using drop_redundant_ok [OF m5(2)] by blast
  have s4: "shrinks m m4" using m1(3) m2(3) m3(3) m4(3) shrinks_trans by blast
  then have s5: "shrinks m m5" using m5(3) shrinks_trans by blast
  then have s6: "shrinks m m6" using m6(3) shrinks_trans by blast
  show ?thesis
  proof (cases "r4 = Inr () \<and> r5 = Inr ()")
    case False
    then consider "r4 = Inl ENOEXEC" | "r4 = Inr ()" "r5 = Inl ENOEXEC" using m4(5) m5(4) by auto
    then show ?thesis
      using abort_with_ok [OF m4(2) s4, of ENOEXEC, where 'a = unit] abort_with_ok [OF m5(2) s5, of ENOEXEC, where 'a = unit] m1(1) m2(1) m3(1) m4(1) m5(1)
      by cases (auto simp: transaction_activate_def)
  next
    case True
    then have am: "all_merged m5" and anc: "\<forall>u t. served m4 u t \<longrightarrow> (\<exists>j. anchor_job m5 u t j)" using m5(4) by auto
    have am6: "all_merged m6" using all_merged_cut [OF m5(2) am] m6(5) by simp
    note des = transaction_is_destructive_ok [OF m6(2) am6]
    have unf: "transaction_activate fin mode m = do {
        r7 \<leftarrow> (if mode = JOB_FAIL then transaction_is_destructive m6 else Some (Inr ()));
        case r7 of
          Inl e \<Rightarrow> abort_with e m6
        | Inr _ \<Rightarrow> do {
        (r8, m8) \<leftarrow> transaction_apply fin mode m6;
        case r8 of
          Inl e \<Rightarrow> abort_with e m8
        | Inr _ \<Rightarrow>
            if m_transaction_jobs m8 = [] \<and> m_transaction_anchor m8 = []
            then Some (Inr (), m8) else None } }"
      using True m1(1) m2(1) m3(1) m4(1) m5(1) m6(1) by (simp add: transaction_activate_def)
    show ?thesis
    proof (cases "mode = JOB_FAIL \<and> destroys m6")
      case True
      then show ?thesis using abort_with_ok [OF m6(2) s6, of EEXIST, where 'a = unit] unf des by auto
    next
      case False
      obtain m' where m': "transaction_apply fin mode m6 = Some (Inr (), m')" "wf_tx m'" "m_transaction_jobs m' = []"
          "m_transaction_anchor m' = []" "installs m6 m'"
        using transaction_apply_ok [OF m6(2) am6 shrinks_ids [OF s6 ids(1) m6(2) ids(2)] mode] by blast
      have "transaction_activate fin mode m = Some (Inr (), m')"
        using unf False des m'(1,3,4) by auto
      moreover have "scheduled m' u t" if "clean_tx m \<and> requested m u t" for u t
        using that m1(4) m2(4) m3(4) m4(4) anc m6(4) anchor_scheduled [OF m6(2) am6 m'(5)] by blast
      moreover have "scheduled m' u t" if "mode = JOB_FAIL" "scheduled m u t" for u t
        using shrinks_scheduled [OF s6 that(2)] nondestructive_scheduled [OF m6(2) m'(5)] that(1) False by blast
      ultimately show ?thesis using m' by (simp add: activated_def)
    qed
  qed
qed

subsection \<open>Adding a job\<close>

text \<open>
  The state of the manager between two requests: the invariant holds, no transaction is under
  way, and job ids do not wrap around during the next request.
\<close>

definition idle :: "manager \<Rightarrow> bool" where
  "idle m \<longleftrightarrow> wf_tx m \<and> m_transaction_jobs m = []"

definition ids_left :: "manager \<Rightarrow> bool" where
  "ids_left m \<longleftrightarrow> wf_ids m \<and> m_next_job m + 7 * length (m_units m) \<le> 2 ^ 32"

text \<open>
  What a failed request leaves of an installed job: everything but the marks of the search, the
  \<open>override\<close> flag, which \<open>transaction_add_one_job\<close> overwrites in a job it reuses, and the
  \<open>ignore_order\<close> flag, which may have been set.
\<close>

definition reflagged :: "job \<Rightarrow> job \<Rightarrow> bool" where
  "reflagged a b \<longleftrightarrow>
     b = a\<lparr>j_generation := j_generation b, j_marker := j_marker b,
           j_matters_to_anchor := j_matters_to_anchor b, j_override := j_override b,
           j_ignore_order := j_ignore_order b\<rparr> \<and>
     (j_ignore_order a \<longrightarrow> j_ignore_order b)"

definition untouched :: "manager \<Rightarrow> manager \<Rightarrow> bool" where
  "untouched m m' \<longleftrightarrow>
     m_unit m' = m_unit m \<and> m_units m' = m_units m \<and> m_jobs m' = m_jobs m \<and>
     m_run_queue m' = m_run_queue m \<and> m_dbus_job_queue m' = m_dbus_job_queue m \<and>
     m_dep m' = [] \<and> m_transaction_anchor m' = [] \<and>
     (\<forall>j. rel_option reflagged (m_job m j) (m_job m' j))"

lemma same_core_reflagged:
  assumes "same_core a b" "j_subject_list b = j_subject_list a" "j_object_list b = j_object_list a"
  shows "reflagged a b"
  using assms by (simp add: reflagged_def same_core_def same_id_def)

lemma idle_empty:
  assumes "idle m"
  shows "m_dep m = []" "m_transaction_anchor m = []" "noninst m = {}" "inst m = m_job m" "clean_tx m"
proof -
  have wf: "wf_tx m" and tj: "tjobs m = {}" using assms by (auto simp: idle_def tjobs_def)
  have none: "omap_get (m_dep m) l = None" for l
    using wf_txD(2) [OF wf] tj unfolding wf_scope_def by (cases "omap_get (m_dep m) l") auto
  then have "\<forall>l. l \<notin> set (omap_keys (m_dep m))" unfolding omap_get_None_iff by simp
  then have "omap_keys (m_dep m) = []" by (metis last_in_set)
  then show "m_dep m = []" by simp
  show "m_transaction_anchor m = []"
    using wf_depsD(10) [OF wf_txD(6) [OF wf]] none by (metis last_in_set not_Some_eq)
  show ni: "noninst m = {}" using wf_txD(2) [OF wf] tj by (auto simp: wf_scope_def)
  then show "inst m = m_job m" by (auto simp: inst_def noninst_def fun_eq_iff split: option.split)
  show "clean_tx m" using tj by (simp add: clean_tx_def)
qed

definition links_empty :: "manager \<Rightarrow> bool" where
  "links_empty m \<longleftrightarrow> (\<forall>j jb. m_job m j = Some jb \<longrightarrow> j_subject_list jb = [] \<and> j_object_list jb = [])"

lemma idle_links:
  assumes "idle m"
  shows "links_empty m"
proof -
  have wfd: "wf_deps m" using assms wf_txD(6) by (simp add: idle_def)
  have none: "omap_get (m_dep m) l = None" for l using idle_empty(1) [OF assms] by (simp add: omap_get_def)
  have "j_subject_list jb = [] \<and> j_object_list jb = []" if j: "m_job m j = Some jb" for j jb
    using wf_depsD(7) [OF wfd j] wf_depsD(8) [OF wfd j] none by (metis last_in_set option.distinct(1))
  then show ?thesis by (simp add: links_empty_def)
qed

lemma links_empty_reflagged:
  assumes "rel_option same_core (m_job m j) (m_job m' j)" "links_empty m" "links_empty m'"
  shows "rel_option reflagged (m_job m j) (m_job m' j)"
  using assms(1)
proof (cases rule: option.rel_cases)
  case (Some a b)
  then have "j_subject_list b = j_subject_list a" "j_object_list b = j_object_list a"
    using assms(2,3) by (simp_all add: links_empty_def)
  then show ?thesis using Some same_core_reflagged by simp
qed simp

lemma untouched_refl: "idle m \<Longrightarrow> untouched m m"
  using idle_empty by (simp add: untouched_def reflagged_def option.rel_refl)

lemma aborted_untouched:
  assumes id: "idle m" and a: "adds m m1" and ab: "aborted m1 m'"
  shows "untouched m m'" "idle m'"
proof -
  obtain m2 where m2: "wf_tx m2" "shrinks m1 m2" "m' = no_tx m2" using ab by (auto simp: aborted_def)
  show "idle m'" using wf_tx_no_tx [OF m2(1)] m2(3) by (simp add: idle_def no_tx_def)
  have "rel_option same_core (inst m j) (inst m2 j)" for j
    using a m2(2) rel_inst_trans unfolding adds_def shrinks_def by blast
  moreover have "rel_option same_core (inst m2 j) (m_job m' j)" for j
    by (auto simp: m2(3) no_tx_def inst_def same_core_def same_id_def split: option.split)
  ultimately have "rel_option same_core (m_job m j) (m_job m' j)" for j
    using rel_inst_trans idle_empty(4) [OF id] by metis
  moreover have "links_empty m" "links_empty m'"
    using idle_links [OF id] idle_links [OF \<open>idle m'\<close>] by simp_all
  ultimately have "rel_option reflagged (m_job m j) (m_job m' j)" for j
    using links_empty_reflagged by blast
  then show "untouched m m'"
    using a m2(2,3) by (simp add: untouched_def adds_def shrinks_def no_tx_def)
qed

lemma adds_scheduled:
  assumes "adds m m'" "scheduled m u t"
  shows "scheduled m' u t"
proof -
  obtain k kb where k: "u_job (m_unit m u) = Some k" "m_job m k = Some kb" "j_installed kb" "j_unit kb = u"
     "job_type_is_superset (j_type kb) t" using assms(2) unfolding scheduled_def by blast
  obtain kb' where "m_job m' k = Some kb'" "same_core kb kb'" using assms(1) k(2) unfolding adds_def by blast
  then show ?thesis using k assms(1) by (auto simp: scheduled_def same_core_def same_id_def adds_def)
qed

lemma aborted_refl: "wf_tx m \<Longrightarrow> aborted m (no_tx m)"
  using shrinks_refl by (auto simp: aborted_def)

lemma manager_add_job_correct:
  assumes id: "idle m" and u: "closed_units m" "u \<in> known m" and ids: "ids_left m" and mode: "mode \<noteq> JOB_ISOLATE"
  shows "\<exists>r m'. manager_add_job fin type u mode ov m = Some (r, m') \<and> idle m' \<and>
     (case r of
        Inl e \<Rightarrow> e \<in> {EINVAL, EBADR, ENOEXEC, EEXIST} \<and> (e = EEXIST \<longrightarrow> mode = JOB_FAIL) \<and> untouched m m'
      | Inr _ \<Rightarrow> scheduled m' u type \<and>
                  (mode = JOB_FAIL \<longrightarrow> (\<forall>v t. scheduled m v t \<longrightarrow> scheduled m' v t)))"
proof -
  have wf: "wf_tx m" using id by (simp add: idle_def)
  let ?c = "Add type u None True ov False (mode = JOB_IGNORE_DEPENDENCIES \<or> mode = JOB_IGNORE_REQUIREMENTS) (mode = JOB_IGNORE_DEPENDENCIES)"
  have "add_ok ?c m" using add_job_call_ok [OF wf u(1)] u(2) by simp
  then obtain r1 m1 where m1: "add_job_call ?c m = Some (r1, m1)" "wf_tx m1" "adds m m1" "bounded m m1"
      "case r1 of Inl e \<Rightarrow> e = EINVAL \<or> e = EBADR
       | Inr ret \<Rightarrow> ret \<in> set (tlist m1 u) \<and> (\<exists>jb. m_job m1 ret = Some jb \<and> j_type jb = type) \<and>
          (\<exists>l d. omap_get (m_dep m1) l = Some d \<and> d_subject d = None \<and> d_object d = ret \<and> d_matters d = True)"
    unfolding add_ok_def add_call.case by blast
  have unf: "manager_add_job fin type u mode ov m =
     (case r1 of
        Inl e \<Rightarrow> abort_with e m1
      | Inr ret \<Rightarrow> do {
          (r3, m3) \<leftarrow> transaction_activate fin mode m1;
          case r3 of Inl e \<Rightarrow> Some (Inl e, m3) | Inr _ \<Rightarrow> Some (Inr ret, m3) })"
    using mode m1(1) by (simp add: manager_add_job_def transaction_add_job_and_dependencies_def cong: sum.case_cong)
  show ?thesis
  proof (cases r1)
    case (Inl e)
    then show ?thesis
      using unf m1(5) aborted_untouched [OF id m1(3) aborted_refl [OF m1(2)]] transaction_abort_eq [OF m1(2)]
      by (auto simp: abort_with_def)
  next
    case (Inr ret)
    have req: "requested m1 u type"
    proof -
      obtain jb l d where "ret \<in> set (tlist m1 u)" "m_job m1 ret = Some jb" "j_type jb = type"
          "omap_get (m_dep m1) l = Some d" "d_subject d = None" "d_object d = ret" "d_matters d"
        using m1(5) Inr by auto
      then show ?thesis unfolding requested_def by (metis job_type_is_superset_refl)
    qed
    have cl: "clean_tx m1" "wf_ids m1" using m1(3) ids idle_empty(5) [OF id] by (auto simp: adds_def ids_left_def)
    have next1: "m_next_job m1 \<le> 2 ^ 32"
      using m1(4) ids card_missing [of m] unfolding bounded_def ids_left_def by linarith
    obtain r2 m2 where m2: "transaction_activate fin mode m1 = Some (r2, m2)"
        "case r2 of Inl e \<Rightarrow> (e = ENOEXEC \<or> e = EEXIST \<and> mode = JOB_FAIL) \<and> aborted m1 m2 | Inr _ \<Rightarrow> activated mode m1 m2"
      using transaction_activate_ok [OF m1(2) mode cl(2) next1] by blast
    show ?thesis
    proof (cases r2)
      case (Inl e)
      then show ?thesis using unf Inr m2 aborted_untouched [OF id m1(3)] by auto
    next
      case Inr2: (Inr x)
      then have "activated mode m1 m2" using m2(2) by simp
      then have "idle m2 \<and> scheduled m2 u type \<and> (mode = JOB_FAIL \<longrightarrow> (\<forall>v t. scheduled m v t \<longrightarrow> scheduled m2 v t))"
        using cl(1) req adds_scheduled [OF m1(3)] unfolding activated_def idle_def by blast
      then show ?thesis using unf Inr Inr2 m2(1) by simp
    qed
  qed
qed

end
