(* ===== verification/Sample_Manager.thy ===== *)
theory Sample_Manager
  imports Transaction_Activate
begin

section \<open>A sample manager\<close>

text \<open>
  Small concrete managers on which the theorems of the development are instantiated.  The model is
  executable: with the congruence rules below the simplifier evaluates a whole request, one bind
  at a time.
\<close>

lemma bind_cong_weak: "x = y \<Longrightarrow> Option.bind x f = Option.bind y f"
  by simp

lemmas run_cong = bind_cong_weak option.case_cong_weak sum.case_cong_weak list.case_cong_weak
  prod.case_cong_weak add_call.case_cong_weak order_call.case_cong_weak if_weak_cong

lemmas run_defs = omap_get_def omap_put_def omap_remove_def omap_remove_value_def omap_replace_def
  job_defs
  upd_unit_def upd_job_def unit_active_state_def unit_can_start_def unit_can_reload_def
  unit_job_is_applicable_def unit_check_gc_def unit_add_to_gc_queue_def
  unit_pending_inactive_def unit_pending_active_def job_new_def job_dependency_new_def
  job_dependency_free_def any_dep.simps job_is_anchor_def job_is_conflicted_by_def
  job_add_to_run_queue_def job_add_to_dbus_queue_def job_start_timer_def manager_get_job_def
  manager_get_unit_def tlist_def unlink_transaction_def free_subject_list.simps
  free_object_list.simps job_release_def unlink_objects.simps manager_transaction_unlink_job_def
  job_free_def transaction_delete_job_def transaction_delete_unit.simps clean_jobs.simps
  transaction_clean_dependencies_def abort_jobs.simps transaction_abort_def find_matters.simps
  transaction_find_jobs_that_matter_to_anchor_def find_first.simps all_opt.simps any_opt.simps
  prune.simps tx_heads_def tx_all_def unit_job_test_def redundant_job_def find_redundant_def
  transaction_drop_redundant_def find_garbage_def transaction_collect_garbage_def impact_job_def
  find_impact_def transaction_minimize_impact_def tx_chain_def no_prev_def
  unit_matters_to_anchor_def walk_cycle.simps order_target_def verify_order_call.simps
  transaction_verify_order_one_def verify_order_heads.simps transaction_verify_order_def
  set_dep_def owned_def transaction_merge_and_delete_job_def first_unmergeable_with.simps
  first_unmergeable_pair.simps unmergeable_victim_def delete_one_unmergeable_job_def
  job_types.simps chain_type_def merge_check.simps merge_chain.simps merge_unit_def
  merge_units.simps transaction_merge_jobs_def destroys_job_def destructive_chains.simps
  transaction_is_destructive_def omap_next.simps cancel_others.simps put_jobs.simps
  unput_jobs.simps install_job_def install_jobs.simps transaction_apply_def order_loop.simps
  merge_loop.simps abort_with_def transaction_activate_def find_type.simps
  transaction_add_one_job_def pulls_def following_pulls_def dependency_pulls_def
  add_job_check_def add_job_call.simps transaction_add_job_and_dependencies_def
  add_isolate_jobs.simps transaction_add_isolate_jobs_def manager_add_job_def

definition sample_unit :: "string \<Rightarrow> (unit_dependency \<Rightarrow> uid list) \<Rightarrow> umeta" where
  "sample_unit name deps =
     \<lparr>u_id = name, u_load_state = UNIT_LOADED, u_dependencies = deps, u_job = None, u_job_timeout = 0,
      u_active_state = UNIT_INACTIVE, u_vt_start = True, u_vt_reload = True, u_vt_can_reload = None,
      u_following_set = [], u_allow_isolate = True, u_ignore_on_isolate = False,
      u_on_failure_isolate = False, u_vt_no_gc = False, u_no_gc = False, u_vt_check_gc = False,
      u_in_gc_queue = False, u_in_cleanup_queue = False,
      u_type = Some UNIT_TARGET, u_names = [name], u_instance = None, u_merged_into = None,
      u_stop_when_unneeded = False, u_vt_stop = True, u_following = None, u_condition = True,
      u_in_dbus_queue = False, u_sent_dbus_new_signal = False, u_in_load_queue = False,
      u_default_dependencies = True, u_load_error = None, u_gc_marker = 0\<rparr>"

definition no_deps :: "unit_dependency \<Rightarrow> uid list" where
  "no_deps d = []"

definition fresh_manager :: "(string, uid) omap \<Rightarrow> (uid \<Rightarrow> umeta) \<Rightarrow> manager" where
  "fresh_manager us f =
     \<lparr>m_units = us, m_jobs = [], m_run_queue = [], m_dbus_job_queue = [], m_gc_queue = [],
      m_n_in_gc_queue = 0, m_transaction_jobs = [], m_transaction_anchor = [], m_current_job_id = 1,
      m_n_installed_jobs = 0, m_n_failed_jobs = 0, m_unit = f,
      m_job = (\<lambda>_. None), m_dep = [], m_next_job = 0, m_next_dep = 0,
      m_dbus_unit_queue = [], m_cleanup_queue = [], m_has_subscriber = False, m_n_reloading = 0,
      m_dispatching_run_queue = False, m_load_queue = [], m_dispatching_load_queue = False,
      m_gc_marker = 0, m_next_unit = length us\<rparr>"

lemma fresh_manager_idle:
  assumes "\<And>u. u_job (f u) = None" "length us \<le> 2 ^ 29"
  shows "idle (fresh_manager us f)" "ids_left (fresh_manager us f)"
  using assms
  by (auto simp: idle_def wf_tx_def wf_core_def wf_deps_def wf_list_def wf_q_def wf_scope_def wf_inst_def
      wf_queues_def wf_next_def fresh_manager_def omap_get_def noninst_def ids_left_def wf_ids_def)

text \<open>\<open>a.target\<close> requires \<open>b.target\<close> and is ordered after it.\<close>

definition sample_manager :: manager where
  "sample_manager = fresh_manager [(''a.target'', 0), (''b.target'', 1)]
     (\<lambda>u. if u = 0 then sample_unit ''a.target'' (no_deps(UNIT_REQUIRES := [1], UNIT_AFTER := [1]))
          else sample_unit ''b.target'' (no_deps(UNIT_REQUIRED_BY := [0], UNIT_BEFORE := [0])))"

lemmas sample_defs = sample_manager_def fresh_manager_def sample_unit_def no_deps_def

lemma sample_ok: "idle sample_manager" "ids_left sample_manager" "closed_units sample_manager"
    "0 \<in> known sample_manager" "1 \<in> known sample_manager"
proof -
  show "idle sample_manager" "ids_left sample_manager"
    unfolding sample_manager_def by (rule fresh_manager_idle; simp add: sample_unit_def)+
qed (auto simp: sample_manager_def sample_unit_def no_deps_def closed_units_def known_def fresh_manager_def)

text \<open>The transaction that a start request for \<open>a.target\<close> builds, and the manager after it.\<close>

definition sample_tx :: manager where
  "sample_tx = snd (the (add_job_call (Add JOB_START 0 None True False False False False) sample_manager))"

definition sample_run :: manager where
  "sample_run = snd (the (manager_add_job (\<lambda>_. Some) JOB_START 0 JOB_REPLACE False sample_manager))"

lemma wf_tx_sample: "wf_tx sample_tx"
proof -
  have "add_ok (Add JOB_START 0 None True False False False False) sample_manager"
    using add_job_call_ok sample_ok by (simp add: idle_def)
  then show ?thesis by (auto simp: add_ok_def sample_tx_def)
qed

lemma sample_tx_eq:
  "m_transaction_jobs sample_tx = [(0, [0]), (1, [1])]"
  "m_transaction_anchor sample_tx = [0]"
  "m_dep sample_tx =
     [(1, \<lparr>d_subject = Some 0, d_object = 1, d_matters = True, d_conflicts = False\<rparr>),
      (0, \<lparr>d_subject = None, d_object = 0, d_matters = True, d_conflicts = False\<rparr>)]"
  by (simp_all add: sample_tx_def sample_defs run_defs cong: run_cong split del: if_split)

lemma sample_run_eq:
  "m_jobs sample_run = [(1, 0), (2, 1)]" "m_run_queue sample_run = [1, 0]"
  "u_job (m_unit sample_run 0) = Some 0" "u_job (m_unit sample_run 1) = Some 1"
  by (simp_all add: sample_run_def sample_defs run_defs cong: run_cong split del: if_split)

text \<open>\<open>a.target\<close> requires \<open>b.target\<close>, which has \<open>a.target\<close> as a requisite.\<close>

definition sample_loop :: manager where
  "sample_loop = fresh_manager [(''a.target'', 0), (''b.target'', 1)]
     (\<lambda>u. if u = 0 then sample_unit ''a.target'' (no_deps(UNIT_REQUIRES := [1]))
          else sample_unit ''b.target'' (no_deps(UNIT_REQUISITE := [0])))"

text \<open>
  \<open>a.target\<close> requires \<open>b.target\<close>, which is active; \<open>c.target\<close>, active too, conflicts with \<open>a.target\<close>.
\<close>

definition sample_conflict :: manager where
  "sample_conflict = fresh_manager [(''a.target'', 0), (''b.target'', 1), (''c.target'', 2)]
     (\<lambda>u. if u = 0 then sample_unit ''a.target'' (no_deps(UNIT_REQUIRES := [1], UNIT_CONFLICTED_BY := [2]))
          else if u = 1 then (sample_unit ''b.target'' (no_deps(UNIT_REQUIRED_BY := [0])))\<lparr>u_active_state := UNIT_ACTIVE\<rparr>
          else (sample_unit ''c.target'' (no_deps(UNIT_CONFLICTS := [0])))\<lparr>u_active_state := UNIT_ACTIVE\<rparr>)"

lemma sample_conflict_ok: "idle sample_conflict" "ids_left sample_conflict" "closed_units sample_conflict"
    "0 \<in> known sample_conflict"
proof -
  show "idle sample_conflict" "ids_left sample_conflict"
    unfolding sample_conflict_def by (rule fresh_manager_idle; simp add: sample_unit_def)+
qed (auto simp: sample_conflict_def sample_unit_def no_deps_def closed_units_def known_def fresh_manager_def)

text \<open>
  The transaction that a start request for \<open>a.target\<close> builds, with the jobs marked that matter: a
  start job for \<open>a\<close> and one for \<open>b\<close>, and a stop job for \<open>c\<close> that does not matter.
\<close>

definition conflict_tx :: manager where
  "conflict_tx =
     the (transaction_find_jobs_that_matter_to_anchor None 1
       (snd (the (add_job_call (Add JOB_START 0 None True False False False False) sample_conflict))))"

lemma conflict_tx_eq:
  "m_transaction_jobs conflict_tx = [(0, [0]), (1, [1]), (2, [2])]"
  "m_unit conflict_tx = m_unit sample_conflict"
  "m_dep conflict_tx =
     [(2, \<lparr>d_subject = Some 0, d_object = 2, d_matters = False, d_conflicts = False\<rparr>),
      (1, \<lparr>d_subject = Some 0, d_object = 1, d_matters = True, d_conflicts = False\<rparr>),
      (0, \<lparr>d_subject = None, d_object = 0, d_matters = True, d_conflicts = False\<rparr>)]"
  by (simp_all add: conflict_tx_def sample_conflict_def fresh_manager_def sample_unit_def no_deps_def run_defs cong: run_cong split del: if_split)

lemma conflict_tx_jobs:
  "map_option (\<lambda>jb. (j_unit jb, j_type jb, j_matters_to_anchor jb, j_installed jb)) (m_job conflict_tx 0) = Some (0, JOB_START, True, False)"
  "map_option (\<lambda>jb. (j_unit jb, j_type jb, j_matters_to_anchor jb, j_installed jb)) (m_job conflict_tx 1) = Some (1, JOB_START, True, False)"
  "map_option (\<lambda>jb. (j_unit jb, j_type jb, j_matters_to_anchor jb, j_installed jb)) (m_job conflict_tx 2) = Some (2, JOB_STOP, False, False)"
  by (simp_all add: conflict_tx_def sample_conflict_def fresh_manager_def sample_unit_def no_deps_def run_defs cong: run_cong split del: if_split)

lemma adds_unmarked:
  assumes "idle m" "m_jobs m = []" "adds m m'" "wf_tx m'" "m_job m' j = Some jb"
  shows "j_generation jb = 0 \<and> \<not> j_matters_to_anchor jb"
proof -
  have cl: "clean_tx m'" using idle_empty(5) [OF assms(1)] assms(3) by (simp add: adds_def)
  have "m_jobs m' = []" using assms(2,3) by (simp add: adds_def)
  then have "\<not> j_installed jb" using wf_txD(3) [OF assms(4)] assms(5) by (auto simp: wf_inst_def omap_get_def)
  then have "j \<in> tjobs m'" using wf_txD(2) [OF assms(4)] assms(5) by (auto simp: wf_scope_def noninst_def)
  then show ?thesis using cl assms(5) by (auto simp: clean_tx_def clean_job_def)
qed

lemma wf_conflict_tx: "wf_tx conflict_tx"
proof -
  let ?m = "snd (the (add_job_call (Add JOB_START 0 None True False False False False) sample_conflict))"
  have "add_ok (Add JOB_START 0 None True False False False False) sample_conflict"
    using add_job_call_ok sample_conflict_ok by (simp add: idle_def)
  then have wf: "wf_tx ?m" and a: "adds sample_conflict ?m" by (auto simp: add_ok_def)
  have "m_jobs sample_conflict = []" by (simp add: sample_conflict_def fresh_manager_def)
  then have "\<And>j jb. m_job ?m j = Some jb \<Longrightarrow> j_generation jb \<noteq> 1"
    using adds_unmarked [OF sample_conflict_ok(1) _ a wf] by fastforce
  then obtain m' where "transaction_find_jobs_that_matter_to_anchor None 1 ?m = Some m'" "relabel (mark_step 1) ?m m'"
    using find_jobs_that_matter_eq [OF wf] by blast
  then show ?thesis
    using wf_tx_relabel [OF relabel_mono [OF _ mark_step_same_links] wf] by (simp add: conflict_tx_def)
qed

end
