(* ===== verification/Transaction_Pruned.thy ===== *)
theory Transaction_Pruned
  imports Transaction_Merge
begin

section \<open>Exactly the jobs that the pruning steps drop\<close>

text \<open>
  The sets of jobs that \<open>transaction_minimize_impact\<close> and \<open>transaction_drop_redundant\<close> are to
  take out of a transaction, stated on the manager they start from, and the proofs that the two
  loops, which test and delete one job at a time in a transaction that shrinks under them, take out
  these sets.
\<close>

text \<open>
  What the pruning steps are for, without the tests of the code.  A job is unwanted if nothing that
  the request needs depends on it and it would stop a unit that runs or comes up, or turn round the
  job that the unit already has (a stop job against one that is none).  A job does nothing if no
  request asks for it, the unit has it already or is where the job would bring it, and it does not
  turn round the unit's job.
\<close>

definition turns_round :: "manager \<Rightarrow> job \<Rightarrow> bool" where
  "turns_round m jb \<longleftrightarrow>
     (\<exists>i ib. u_job (m_unit m (j_unit jb)) = Some i \<and> m_job m i = Some ib \<and>
        (j_type jb = JOB_STOP) \<noteq> (j_type ib = JOB_STOP))"

definition unwanted :: "manager \<Rightarrow> jref \<Rightarrow> bool" where
  "unwanted m j \<longleftrightarrow>
     (\<exists>jb. m_job m j = Some jb \<and> \<not> j_matters_to_anchor jb \<and>
        (j_type jb = JOB_STOP \<and>
           u_active_state (m_unit m (j_unit jb)) \<in> {UNIT_ACTIVE, UNIT_ACTIVATING, UNIT_RELOADING} \<or>
         turns_round m jb))"

fun done_in :: "job_type \<Rightarrow> unit_active_state set" where
  "done_in JOB_START = {UNIT_ACTIVE, UNIT_RELOADING}"
| "done_in JOB_VERIFY_ACTIVE = {UNIT_ACTIVE, UNIT_RELOADING}"
| "done_in JOB_STOP = {UNIT_INACTIVE, UNIT_FAILED}"
| "done_in JOB_RELOAD = {UNIT_RELOADING}"
| "done_in JOB_RELOAD_OR_START = {UNIT_ACTIVATING, UNIT_RELOADING}"
| "done_in JOB_RESTART = {UNIT_ACTIVATING}"
| "done_in JOB_TRY_RESTART = {UNIT_ACTIVATING}"

definition does_nothing :: "manager \<Rightarrow> jref \<Rightarrow> bool" where
  "does_nothing m j \<longleftrightarrow>
     (\<exists>jb. m_job m j = Some jb \<and>
        (\<nexists>l d. omap_get (m_dep m) l = Some d \<and> d_object d = j \<and> d_subject d = None) \<and>
        (j_installed jb \<or> u_active_state (m_unit m (j_unit jb)) \<in> done_in (j_type jb)) \<and>
        \<not> turns_round m jb)"

lemma unit_job_test_conflict:
  assumes "wf_tx m"
  shows "unit_job_test m (j_unit jb) (\<lambda>ib. job_type_is_conflicting (j_type jb) (j_type ib)) =
     Some (turns_round m jb)"
proof (cases "u_job (m_unit m (j_unit jb))")
  case (Some i)
  then obtain ib where "m_job m i = Some ib" using wf_txD(3) [OF assms] unfolding wf_inst_def by blast
  then show ?thesis using Some by (simp add: unit_job_test_def turns_round_def job_type_is_conflicting_def)
qed (simp add: unit_job_test_def turns_round_def)

lemma impact_job_unwanted:
  assumes "wf_tx m" "m_job m j \<noteq> None"
  shows "impact_job m j = Some (unwanted m j)"
proof -
  obtain jb where jb: "m_job m j = Some jb" using assms(2) by blast
  show ?thesis
    unfolding impact_job_eq [OF assms(1) jb] unit_job_test_conflict [OF assms(1)]
    by (simp add: unwanted_def jb unit_active_state_def UNIT_IS_ACTIVE_OR_ACTIVATING_def)
qed

lemma done_in_redundant: "job_type_is_redundant t s \<longleftrightarrow> s \<in> done_in t"
  by (cases t) auto

lemma redundant_job_nothing:
  assumes "wf_tx m" "m_job m j \<noteq> None"
  shows "redundant_job m j = Some (does_nothing m j)"
proof -
  obtain jb where jb: "m_job m j = Some jb" using assms(2) by blast
  show ?thesis
    unfolding redundant_job_eq [OF assms(1) jb] unit_job_test_conflict [OF assms(1)]
    by (simp add: does_nothing_def jb unit_active_state_def done_in_redundant)
qed

lemma turns_round_cut:
  assumes wf: "wf_tx m"
  shows "turns_round (cut_jobs K m) (drop_deps D jb) = turns_round m jb"
proof -
  have "m_job (cut_jobs K m) i = map_option (drop_deps (inc m K)) (m_job m i)"
    if i: "u_job (m_unit m u) = Some i" for u i
  proof -
    obtain ib where "m_job m i = Some ib" "j_installed ib"
      using wf_txD(3) [OF wf] i unfolding wf_inst_def by blast
    then show ?thesis by simp
  qed
  then show ?thesis unfolding turns_round_def by auto
qed

lemma unwanted_cut:
  assumes wf: "wf_tx m" and j: "j \<in> tjobs m - K"
  shows "unwanted (cut_jobs K m) j = unwanted m j"
proof -
  obtain jb where "m_job m j = Some jb" using tjobs_alive [OF wf_txD(7) [OF wf], of j] j by auto
  then show ?thesis using j by (simp add: unwanted_def m_job_cut turns_round_cut [OF wf])
qed

lemma req_rel_cut:
  assumes "(k, x) \<in> req_rel m" "k \<notin> K" "x \<notin> K"
  shows "(k, x) \<in> req_rel (cut_jobs K m)"
proof -
  obtain l d where l: "omap_get (m_dep m) l = Some d" "d_matters d" "d_subject d = Some k" "d_object d = x"
    using assms(1) by (auto simp: req_rel_def)
  then have "l \<notin> inc m K" using assms(2,3) by (auto simp: inc_def)
  then show ?thesis using l unfolding cut_jobs_def req_rel_eff by blast
qed

text \<open>The jobs that the first pruning step is to drop.\<close>

definition impact_set :: "manager \<Rightarrow> jref set" where
  "impact_set m = {k. \<exists>j \<in> tjobs m. unwanted m j \<and> (k, j) \<in> (req_rel m)\<^sup>*}"

definition requirers_in :: "manager \<Rightarrow> jref set \<Rightarrow> bool" where
  "requirers_in m K \<longleftrightarrow> (\<forall>x \<in> K. \<forall>k. (k, x) \<in> req_rel m \<longrightarrow> k \<in> K)"

lemma requirers_in_closed:
  assumes "requirers_in m K" "j \<in> K" "(k, j) \<in> (req_rel m)\<^sup>*"
  shows "k \<in> K"
  using assms(3,2) by (induction rule: converse_rtrancl_induct) (use assms(1) in \<open>auto simp: requirers_in_def\<close>)

lemma requirers_in_del:
  assumes K: "requirers_in m K"
  shows "requirers_in m (requirers (cut_jobs K m) j \<union> K)"
proof -
  have "k \<in> requirers (cut_jobs K m) j \<union> K"
    if x: "x \<in> requirers (cut_jobs K m) j" and e: "(k, x) \<in> req_rel m" for x k
  proof (cases "k \<in> K \<or> x \<in> K")
    case True
    then show ?thesis using K e by (auto simp: requirers_in_def)
  next
    case False
    then have "(k, x) \<in> req_rel (cut_jobs K m)" using req_rel_cut [OF e] by blast
    then show ?thesis using x by (auto simp: requirers_def intro: converse_rtrancl_into_rtrancl)
  qed
  then show ?thesis using K by (auto simp: requirers_in_def)
qed

lemma minimize_impact_exact:
  assumes wf: "wf_tx m"
  shows "transaction_minimize_impact m = Some (cut_jobs (impact_set m) m)"
proof -
  have sel: "impact_job (cut_jobs K m) j = Some (unwanted m j)" if j: "j \<in> tjobs m - K" for K j
  proof -
    have "m_job (cut_jobs K m) j \<noteq> None"
      using tjobs_alive [OF wf_txD(7) [OF wf_tx_cut [OF wf]], of j K] j by simp
    then show ?thesis using impact_job_unwanted [OF wf_tx_cut [OF wf]] unwanted_cut [OF wf j] by simp
  qed
  have "\<exists>K. transaction_minimize_impact m = Some (cut_jobs K m) \<and> (requirers_in m K \<and> K \<subseteq> impact_set m) \<and>
          find_impact (cut_jobs K m) = Some None"
    unfolding transaction_minimize_impact_def
  proof (rule impact.prune_cut [OF wf])
    fix K j assume K: "requirers_in m K \<and> K \<subseteq> impact_set m"
      and f: "find_impact (cut_jobs K m) = Some (Some j)" and j: "j \<in> tjobs m - K"
    have "unwanted m j" using f find_first_Some sel [OF j] by (fastforce simp: find_impact_def)
    then have "requirers (cut_jobs K m) j \<subseteq> impact_set m"
      using requirers_cut [of K m j] j by (auto simp: impact_set_def requirers_def)
    then show "requirers_in m (del_set True (cut_jobs K m) j \<union> K) \<and> del_set True (cut_jobs K m) j \<union> K \<subseteq> impact_set m"
      using K requirers_in_del by (simp add: del_set_def)
  qed (simp add: requirers_in_def)
  then obtain K where K: "transaction_minimize_impact m = Some (cut_jobs K m)" "requirers_in m K" "K \<subseteq> impact_set m"
      "find_impact (cut_jobs K m) = Some None" by blast
  have "j \<in> K" if "j \<in> tjobs m" "unwanted m j" for j
  proof (rule ccontr)
    assume "j \<notin> K"
    then have "j \<in> tjobs (cut_jobs K m)" "impact_job (cut_jobs K m) j = Some True" using that sel by auto
    then show False using K(4) unfolding find_impact_def find_first_None set_tx_all by auto
  qed
  then have "impact_set m \<subseteq> K" using requirers_in_closed [OF K(2)] by (auto simp: impact_set_def)
  then show ?thesis using K(1,3) by (simp add: subset_antisym)
qed

lemma impact_set_matters:
  assumes "req_rel m `` matters_set m \<subseteq> matters_set m"
  shows "impact_set m \<inter> matters_set m = {}"
proof -
  have "j \<notin> matters_set m" if "unwanted m j" for j using that by (auto simp: unwanted_def matters_set_def)
  then show ?thesis using requirers_matter [OF assms] by (auto simp: impact_set_def requirers_def)
qed

text \<open>The jobs that the second one is to drop.\<close>

definition nothing_set :: "manager \<Rightarrow> jref set" where
  "nothing_set m = {j. \<exists>u. j \<in> set (tlist m u) \<and> (\<forall>k \<in> set (tlist m u). does_nothing m k)}"

lemma drop_redundant_exact:
  assumes wf: "wf_tx m"
  shows "transaction_drop_redundant m = Some (cut_jobs (nothing_set m) m)"
proof -
  note wfl = wf_txD(7) [OF wf]
  have red: "redundant_job (cut_jobs K m) k = Some (does_nothing m k)" if "k \<in> set (tlist m u)" "k \<notin> K" for K k u
  proof -
    have "k \<in> tjobs m" using tlist_tjobs [OF that(1)] .
    then show ?thesis
      using redundant_job_cut [OF wf] that(2) redundant_job_nothing [OF wf] tjobs_alive [OF wfl] by (metis DiffI)
  qed
  have "\<exists>K. transaction_drop_redundant m = Some (cut_jobs K m) \<and> K \<subseteq> nothing_set m \<and>
          find_redundant (cut_jobs K m) = Some None"
    unfolding transaction_drop_redundant_def
  proof (rule redundant.prune_cut [OF wf])
    fix K j assume K: "K \<subseteq> nothing_set m" and f: "find_redundant (cut_jobs K m) = Some (Some j)"
      and j: "j \<in> tjobs m - K"
    obtain u js where js: "(u, js) \<in> set (m_transaction_jobs (cut_jobs K m))" "j = hd js"
        "all_opt (redundant_job (cut_jobs K m)) js = Some True"
      using f by (auto simp: find_redundant_def bind_eq_Some_conv dest!: find_first_Some)
    have js': "js = filter (\<lambda>j. j \<notin> K) (tlist m u)"
      using tlist_mem [OF wf_txD(7) [OF wf_tx_cut [OF wf]] js(1)] tlist_cut [OF wfl] by simp
    have "js \<noteq> []" using wf_listD(2) [OF wf_txD(7) [OF wf_tx_cut [OF wf]] js(1)] .
    then have "j \<in> set (tlist m u)" using js(2) js' hd_in_set [of js] by auto
    moreover have "does_nothing m k" if k: "k \<in> set (tlist m u)" for k
    proof (cases "k \<in> K")
      case True
      then show ?thesis using K by (auto simp: nothing_set_def)
    next
      case False
      then have "redundant_job (cut_jobs K m) k = Some True" using js(3) js' k by (simp add: all_opt_True)
      then show ?thesis using red [OF k False] by simp
    qed
    ultimately show "del_set False (cut_jobs K m) j \<union> K \<subseteq> nothing_set m"
      using K by (auto simp: nothing_set_def del_set_def)
  qed simp
  then obtain K where K: "transaction_drop_redundant m = Some (cut_jobs K m)" "K \<subseteq> nothing_set m"
      "find_redundant (cut_jobs K m) = Some None" by blast
  have "j \<in> K" if j: "j \<in> set (tlist m u)" "\<forall>k \<in> set (tlist m u). does_nothing m k" for j u
  proof (rule ccontr)
    assume "j \<notin> K"
    let ?js = "filter (\<lambda>j. j \<notin> K) (tlist m u)"
    have t: "tlist (cut_jobs K m) u = ?js" using tlist_cut [OF wfl] .
    moreover have "?js \<noteq> []" using j(1) \<open>j \<notin> K\<close> by (auto simp: filter_empty_conv)
    ultimately have "(u, ?js) \<in> set (m_transaction_jobs (cut_jobs K m))"
      by (auto simp: tlist_def split: option.splits dest: omap_get_SomeD)
    then have "all_opt (redundant_job (cut_jobs K m)) ?js = Some False"
      using K(3) unfolding find_redundant_def by (auto simp: bind_eq_Some_conv find_first_None)
    then obtain k where "k \<in> set ?js" "redundant_job (cut_jobs K m) k = Some False" using all_opt_False by blast
    then show False using red j(2) by auto
  qed
  then have "nothing_set m \<subseteq> K" by (auto simp: nothing_set_def)
  then show ?thesis using K(1,2) by (simp add: subset_antisym)
qed

end
