(* ===== verification/Transaction_Properties.thy ===== *)
theory Transaction_Properties
  imports Sample_Manager Transaction_Pruned
begin

section \<open>Properties of the transaction engine\<close>

text \<open>
  The main theorems on \<open>manager.c\<close>, stated on the operations themselves and instantiated
  on the sample manager.
\<close>

text \<open>The jobs \<open>K\<close> are out of the transaction, with their links, and those not installed are freed.\<close>

definition dropped :: "jref set \<Rightarrow> manager \<Rightarrow> manager \<Rightarrow> bool" where
  "dropped K m m' \<longleftrightarrow>
     wf_tx m' \<and> (\<forall>u. tlist m' u = filter (\<lambda>j. j \<notin> K) (tlist m u)) \<and>
     (\<forall>j. m_job m' j = None \<longleftrightarrow> m_job m j = None \<or> j \<in> K \<and> j \<in> noninst m) \<and>
     (\<forall>l. omap_get (m_dep m') l =
        (case omap_get (m_dep m) l of
           None \<Rightarrow> None
         | Some d \<Rightarrow> if d_object d \<in> K \<or> (\<exists>s \<in> K. d_subject d = Some s) then None else Some d)) \<and>
     m_unit m' = m_unit m \<and> m_jobs m' = m_jobs m \<and> m_run_queue m' = m_run_queue m"

lemma dropped_cut:
  assumes "wf_tx m"
  shows "dropped K m (cut_jobs K m)"
proof -
  have "m_job (cut_jobs K m) j = None \<longleftrightarrow> m_job m j = None \<or> j \<in> K \<and> j \<in> noninst m" for j
    by (auto simp: m_job_cut)
  moreover have "omap_get (m_dep (cut_jobs K m)) l =
      (case omap_get (m_dep m) l of
         None \<Rightarrow> None
       | Some d \<Rightarrow> if d_object d \<in> K \<or> (\<exists>s \<in> K. d_subject d = Some s) then None else Some d)" for l
    by (auto simp: inc_def split: option.split)
  ultimately show ?thesis
    using wf_tx_cut [OF assms] tlist_cut [OF wf_txD(7) [OF assms]] by (simp add: dropped_def)
qed

subsection \<open>Deleting and aborting\<close>

text \<open>
  C2: \<open>transaction_delete_job\<close> ends, never follows a pointer to a freed job or dependency,
  and takes out of the transaction exactly the job and, with \<open>delete_dependencies\<close>, the jobs
  that require it directly or indirectly, whatever cycles the requirements form.
\<close>

theorem transaction_delete_job_exact:
  assumes "wf_tx m" and "m_job m j \<noteq> None"
  shows "\<exists>m'. transaction_delete_job j delete_dependencies m = Some m' \<and>
     dropped (if delete_dependencies then {k. (k, j) \<in> (req_rel m)\<^sup>*} else {j}) m m'"
  using transaction_delete_job_cut [OF wf_txD(1) [OF assms(1)] assms(2)] dropped_cut [OF assms(1)]
  by (simp add: del_set_def requirers_def)

theorem transaction_delete_job_exact_witness:
  "wf_tx sample_tx \<and> m_job sample_tx 1 \<noteq> None \<and>
   (\<exists>m'. transaction_delete_job 1 True sample_tx = Some m' \<and>
         dropped {k. (k, 1) \<in> (req_rel sample_tx)\<^sup>*} sample_tx m')"
proof -
  have j: "m_job sample_tx 1 \<noteq> None"
    using tjobs_alive [OF wf_txD(7) [OF wf_tx_sample], of 1] by (simp add: tjobs_def sample_tx_eq)
  then show ?thesis using wf_tx_sample transaction_delete_job_exact [OF wf_tx_sample j, of True] by simp
qed

text \<open>
  \<open>transaction_abort\<close> ends and undoes the transaction completely: every job that is not
  installed is freed, every dependency is freed, the installed jobs stay and lose only their links.
\<close>

theorem transaction_abort_clears:
  assumes "wf_tx m"
  shows "transaction_abort m = Some (no_tx m) \<and> wf_tx (no_tx m)"
  using transaction_abort_eq [OF assms] wf_tx_no_tx [OF assms] by simp

theorem transaction_abort_clears_witness:
  "wf_tx sample_tx \<and> transaction_abort sample_tx = Some (no_tx sample_tx) \<and> wf_tx (no_tx sample_tx)"
  using wf_tx_sample transaction_abort_clears [OF wf_tx_sample] by simp

subsection \<open>Pruning\<close>

text \<open>
  \<open>transaction_find_jobs_that_matter_to_anchor\<close>, called with a generation that no job
  carries, marks exactly the jobs that the anchor reaches over links that matter.
\<close>

theorem find_jobs_that_matter_exact:
  assumes wf: "wf_tx m" and fresh: "\<forall>j jb. m_job m j = Some jb \<longrightarrow> j_generation jb \<noteq> g"
  shows "\<exists>m'. transaction_find_jobs_that_matter_to_anchor None g m = Some m' \<and>
     m' = m\<lparr>m_job := \<lambda>j. map_option
       (\<lambda>jb. if j \<in> anchor_needs m then jb\<lparr>j_matters_to_anchor := True, j_generation := g\<rparr> else jb)
       (m_job m j)\<rparr>"
proof -
  obtain m' where m': "transaction_find_jobs_that_matter_to_anchor None g m = Some m'"
      "relabel (mark_step g) m m'" "marked g m' = anchor_needs m"
    using find_jobs_that_matter_eq [OF wf] fresh by blast
  have job: "m_job m' j = map_option
       (\<lambda>jb. if j \<in> anchor_needs m then jb\<lparr>j_matters_to_anchor := True, j_generation := g\<rparr> else jb) (m_job m j)" for j
  proof (cases "m_job m j")
    case None
    then show ?thesis using relabelD(12) [OF m'(2), of j] by (cases "m_job m' j") auto
  next
    case (Some jb)
    then obtain jb' where jb': "m_job m' j = Some jb'" "mark_step g jb jb'" using relabelD(11) [OF m'(2)] by blast
    have "j \<in> anchor_needs m \<longleftrightarrow> j_generation jb' = g" unfolding m'(3) [symmetric] using jb'(1) by (auto simp: marked_def)
    then show ?thesis using Some jb' fresh by (auto simp: mark_step_def)
  qed
  have "m' = m\<lparr>m_job := m_job m'\<rparr>" using m'(2) by (simp add: relabel_def)
  also have "m_job m' = (\<lambda>j. map_option
       (\<lambda>jb. if j \<in> anchor_needs m then jb\<lparr>j_matters_to_anchor := True, j_generation := g\<rparr> else jb) (m_job m j))"
    using job by (rule ext)
  finally show ?thesis using m'(1) by blast
qed

lemma sample_tx_jobs:
  "m_job sample_tx j = Some jb \<Longrightarrow> j_generation jb = 0 \<and> \<not> j_matters_to_anchor jb"
proof -
  have "add_ok (Add JOB_START 0 None True False False False False) sample_manager"
    using add_job_call_ok sample_ok by (simp add: idle_def)
  then have "adds sample_manager sample_tx" by (auto simp: add_ok_def sample_tx_def)
  moreover have "m_jobs sample_manager = []" by (simp add: sample_defs)
  ultimately show "m_job sample_tx j = Some jb \<Longrightarrow> j_generation jb = 0 \<and> \<not> j_matters_to_anchor jb"
    using adds_unmarked [OF sample_ok(1) _ _ wf_tx_sample] by blast
qed

theorem find_jobs_that_matter_exact_witness:
  "wf_tx sample_tx \<and>
   (\<exists>m' jb. transaction_find_jobs_that_matter_to_anchor None 1 sample_tx = Some m' \<and>
      m_job m' 1 = Some jb \<and> j_matters_to_anchor jb)"
proof -
  have fr: "\<forall>j jb. m_job sample_tx j = Some jb \<longrightarrow> j_generation jb \<noteq> 1" using sample_tx_jobs by fastforce
  have "omap_get (m_dep sample_tx) 1 = Some \<lparr>d_subject = Some 0, d_object = 1, d_matters = True, d_conflicts = False\<rparr>"
    by (simp add: sample_tx_eq omap_get_def)
  then have "(0, 1) \<in> req_rel sample_tx" unfolding req_rel_def by force
  moreover have "omap_get (m_dep sample_tx) 0 = Some \<lparr>d_subject = None, d_object = 0, d_matters = True, d_conflicts = False\<rparr>"
    by (simp add: sample_tx_eq omap_get_def)
  then have "0 \<in> targets sample_tx (set (m_transaction_anchor sample_tx))"
    unfolding targets_def sample_tx_eq(2) by force
  ultimately have "1 \<in> anchor_needs sample_tx" unfolding anchor_needs_def by blast
  moreover obtain jb where "m_job sample_tx 1 = Some jb"
    using tjobs_alive [OF wf_txD(7) [OF wf_tx_sample], of 1] by (auto simp: tjobs_def sample_tx_eq)
  ultimately show ?thesis using wf_tx_sample find_jobs_that_matter_exact [OF wf_tx_sample fr] by auto
qed

text \<open>
  C3: \<open>transaction_minimize_impact\<close> ends and takes out of the transaction exactly the unwanted jobs
  (those that do not matter to the anchor and would stop a unit that is active, activating or
  reloading, or would turn a unit's existing job round: a stop job against one that is none) and the
  jobs that require one of them directly or indirectly.  Where whatever a job that matters requires
  matters too, as after the sweep from the anchor, no job that matters is among them.
\<close>

theorem minimize_impact_spec:
  assumes "wf_tx m"
  shows "\<exists>K m'. transaction_minimize_impact m = Some m' \<and> dropped K m m' \<and>
     K = {k. \<exists>j \<in> tjobs m. unwanted m j \<and> (k, j) \<in> (req_rel m)\<^sup>*} \<and>
     (req_rel m `` matters_set m \<subseteq> matters_set m \<longrightarrow> K \<inter> matters_set m = {})"
  using minimize_impact_exact [OF assms] dropped_cut [OF assms] impact_set_matters [of m]
  by (intro exI [of _ "impact_set m"] exI [of _ "cut_jobs (impact_set m) m"] conjI) (simp_all add: impact_set_def)

theorem minimize_impact_spec_witness:
  "wf_tx conflict_tx \<and> tjobs conflict_tx = {0, 1, 2} \<and>
   (\<exists>m'. transaction_minimize_impact conflict_tx = Some m' \<and> wf_tx m' \<and> m_job m' 2 = None \<and>
      tlist m' 0 = [0] \<and> tlist m' 1 = [1] \<and> tlist m' 2 = [])"
proof -
  have tj: "tjobs conflict_tx = {0, 1, 2}" by (auto simp: tjobs_def conflict_tx_eq)
  have req: "req_rel conflict_tx = {(0, 1)}"
    by (auto simp: req_rel_def conflict_tx_eq omap_get_def split: if_splits)
  obtain a b c where j: "m_job conflict_tx 0 = Some a" "m_job conflict_tx 1 = Some b" "m_job conflict_tx 2 = Some c"
    using conflict_tx_jobs by (auto simp: map_option_eq_Some)
  note jt = conflict_tx_jobs [unfolded j, simplified]
  have "turns_round conflict_tx c = False"
    by (simp add: turns_round_def conflict_tx_eq sample_conflict_def fresh_manager_def sample_unit_def)
  then have un: "unwanted conflict_tx 0 = False" "unwanted conflict_tx 1 = False" "unwanted conflict_tx 2 = True"
    using j jt by (simp_all add: unwanted_def conflict_tx_eq sample_conflict_def fresh_manager_def sample_unit_def)
  have K: "{k. \<exists>j \<in> tjobs conflict_tx. unwanted conflict_tx j \<and> (k, j) \<in> (req_rel conflict_tx)\<^sup>*} = {2}"
    unfolding tj req using un by (auto elim: rtranclE)
  then obtain m' where m': "transaction_minimize_impact conflict_tx = Some m'" "dropped {2} conflict_tx m'"
    using minimize_impact_spec [OF wf_conflict_tx] by auto
  then have "wf_tx m'" "m_job m' 2 = None" "tlist m' 0 = [0]" "tlist m' 1 = [1]" "tlist m' 2 = []"
    using j jt by (simp_all add: dropped_def noninst_def tlist_def conflict_tx_eq omap_get_def)
  then show ?thesis using wf_conflict_tx tj m'(1) by blast
qed

text \<open>
  C4: \<open>transaction_drop_redundant\<close> ends and takes out exactly the jobs of the units all of whose
  jobs in the transaction do nothing: no request asked for the job itself, the job is installed
  already or the unit is in a state where the job's type has nothing to do, and the job does not turn
  round the job that the unit has.
\<close>

theorem drop_redundant_spec:
  assumes "wf_tx m"
  shows "\<exists>m'. transaction_drop_redundant m = Some m' \<and>
     dropped {j. \<exists>u. j \<in> set (tlist m u) \<and> (\<forall>k \<in> set (tlist m u). does_nothing m k)} m m'"
  using drop_redundant_exact [OF assms] dropped_cut [OF assms] unfolding nothing_set_def by blast

theorem drop_redundant_spec_witness:
  "wf_tx conflict_tx \<and> tjobs conflict_tx = {0, 1, 2} \<and>
   (\<exists>m'. transaction_drop_redundant conflict_tx = Some m' \<and> wf_tx m' \<and> m_job m' 1 = None \<and>
      tlist m' 0 = [0] \<and> tlist m' 1 = [] \<and> tlist m' 2 = [2])"
proof -
  have tj: "tjobs conflict_tx = {0, 1, 2}" by (auto simp: tjobs_def conflict_tx_eq)
  have tl: "tlist conflict_tx u = (if u < 3 then [u] else [])" for u
    by (auto simp: tlist_def conflict_tx_eq omap_get_def)
  obtain a b c where j: "m_job conflict_tx 0 = Some a" "m_job conflict_tx 1 = Some b" "m_job conflict_tx 2 = Some c"
    using conflict_tx_jobs by (auto simp: map_option_eq_Some)
  note jt = conflict_tx_jobs [unfolded j, simplified]
  have "turns_round conflict_tx x = False" for x
    by (simp add: turns_round_def conflict_tx_eq sample_conflict_def fresh_manager_def sample_unit_def)
  then have nothing: "does_nothing conflict_tx 0 = False" "does_nothing conflict_tx 1 = True" "does_nothing conflict_tx 2 = False"
    using j jt by (simp_all add: does_nothing_def conflict_tx_eq sample_conflict_def fresh_manager_def sample_unit_def omap_get_def)
  then have "{j. \<exists>u. j \<in> set (tlist conflict_tx u) \<and> (\<forall>k \<in> set (tlist conflict_tx u). does_nothing conflict_tx k)} = {1}"
    unfolding tl by (auto simp: less_Suc_eq numeral_3_eq_3 numeral_2_eq_2)
  then obtain m' where m': "transaction_drop_redundant conflict_tx = Some m'" "dropped {1} conflict_tx m'"
    using drop_redundant_spec [OF wf_conflict_tx] by auto
  then have "wf_tx m'" "m_job m' 1 = None" "tlist m' 0 = [0]" "tlist m' 1 = []" "tlist m' 2 = [2]"
    using j jt by (simp_all add: dropped_def noninst_def tlist_def conflict_tx_eq omap_get_def)
  then show ?thesis using wf_conflict_tx tj m'(1) by blast
qed

text \<open>
  C5: \<open>transaction_collect_garbage\<close> ends, keeps every job that the anchor reaches over any
  links, and leaves every unit's first job with somebody who pulled it in.
\<close>

theorem collect_garbage_spec:
  assumes "wf_tx m"
  shows "\<exists>K m'. transaction_collect_garbage m = Some m' \<and> dropped K m m' \<and> K \<inter> anchor_reach m = {} \<and>
     (\<forall>j \<in> set (tx_heads m'). \<exists>l d. omap_get (m_dep m') l = Some d \<and> d_object d = j)"
proof -
  obtain K where K: "transaction_collect_garbage m = Some (cut_jobs K m)" "K \<inter> anchor_reach m = {}"
      "find_garbage (cut_jobs K m) = Some None"
    using collect_garbage_cut [OF assms] by blast
  let ?m = "cut_jobs K m"
  note wfd = wf_txD(6) [OF wf_tx_cut [OF assms, of K]]
  have "\<exists>l d. omap_get (m_dep ?m) l = Some d \<and> d_object d = j" if j: "j \<in> set (tx_heads ?m)" for j
  proof -
    have "do { jb \<leftarrow> m_job ?m j; Some (j_object_list jb = []) } = Some False"
      using K(3) j unfolding find_garbage_def find_first_None by blast
    then obtain jb where jb: "m_job ?m j = Some jb" "j_object_list jb \<noteq> []" by (auto simp: bind_eq_Some_conv)
    then show ?thesis using wf_depsD(8) [OF wfd jb(1), of "hd (j_object_list jb)"] by (metis list.set_sel(1))
  qed
  then show ?thesis using K(1,2) dropped_cut [OF assms] by blast
qed

theorem collect_garbage_spec_witness:
  "wf_tx sample_tx \<and> transaction_collect_garbage sample_tx = Some sample_tx \<and>
   (\<exists>l d. omap_get (m_dep sample_tx) l = Some d \<and> d_object d = 1)"
proof -
  have "transaction_collect_garbage sample_tx = Some sample_tx"
    by (simp add: sample_tx_def sample_defs run_defs cong: run_cong split del: if_split)
  moreover have "1 \<in> set (tx_heads sample_tx)" by (simp add: tx_heads_def sample_tx_eq)
  ultimately show ?thesis using wf_tx_sample collect_garbage_spec [OF wf_tx_sample] by auto
qed

subsection \<open>Ordering and merging\<close>

text \<open>
  C6: \<open>transaction_verify_order\<close>, called with a generation that no job carries, ends.  On success no job that the transaction's jobs are
  ordered before, directly or indirectly, lies on an ordering cycle; an error is reported only for
  a real cycle, and then either a job of the cycle that may be dropped is gone
  (\<open>-EAGAIN\<close>), or no job of the cycle may be dropped (\<open>-ENOEXEC\<close>).  The condition is real:
  \<open>transaction_activate\<close> counts its generations from 1 in every request, and an installed job keeps
  the generation of the request that last visited it, so that a later sweep may take it for visited
  and miss a cycle through it.
\<close>

theorem transaction_verify_order_spec:
  assumes wf: "wf_tx m" and fresh: "\<forall>j jb. m_job m j = Some jb \<longrightarrow> j_generation jb \<noteq> g"
  shows "\<exists>r m'. transaction_verify_order g m = Some (r, m') \<and>
     (case r of
        Inr _ \<Rightarrow> \<forall>j \<in> (order_rel m)\<^sup>* `` set (tx_heads m). (j, j) \<notin> (order_rel m)\<^sup>+
      | Inl e \<Rightarrow>
          (\<exists>c. order_cycle m c \<and>
             (e = EAGAIN \<and> (\<exists>k \<in> set c. droppable m k \<and> k \<notin> tjobs m') \<or>
              e = ENOEXEC \<and> (\<forall>k \<in> set c. \<not> droppable m k))))"
proof -
  have S: "marked g m = {}" using fresh by (auto simp: marked_def)
  obtain r m' where r: "transaction_verify_order g m = Some (r, m')" "order_result g m r m'"
    using transaction_verify_order_ok [OF wf] by blast
  show ?thesis
  proof (cases r)
    case (Inr x)
    then show ?thesis using r S by (auto simp: order_result_def)
  next
    case (Inl e)
    then have "breaks {} m e m'" using r(2) S by (simp add: order_result_def)
    then consider
        (drop) m1 K k c where "e = EAGAIN" "m' = cut_jobs K m1" "k \<in> K" "droppable m k" "order_cycle m c" "k \<in> set c"
      | (fail) c where "e = ENOEXEC" "order_cycle m c" "\<forall>k \<in> set c. \<not> droppable m k"
      unfolding breaks_def by blast
    then show ?thesis
    proof cases
      case drop
      then have "k \<notin> tjobs m'" by simp
      then show ?thesis using drop r(1) Inl by (intro exI [of _ r] exI [of _ m']) auto
    next
      case fail
      then show ?thesis using r(1) Inl by (intro exI [of _ r] exI [of _ m']) auto
    qed
  qed
qed

theorem transaction_verify_order_spec_witness:
  "wf_tx sample_tx \<and> map_option fst (transaction_verify_order 2 sample_tx) = Some (Inr ()) \<and>
   (0, 0) \<notin> (order_rel sample_tx)\<^sup>+"
proof -
  have fr: "\<forall>j jb. m_job sample_tx j = Some jb \<longrightarrow> j_generation jb \<noteq> 2" using sample_tx_jobs by fastforce
  have "map_option fst (transaction_verify_order 2 sample_tx) = Some (Inr ())"
    by (simp add: sample_tx_def sample_defs run_defs cong: run_cong split del: if_split)
  moreover have "0 \<in> set (tx_heads sample_tx)" by (simp add: tx_heads_def sample_tx_eq)
  then have "0 \<in> (order_rel sample_tx)\<^sup>* `` set (tx_heads sample_tx)" by blast
  ultimately show ?thesis
    using wf_tx_sample transaction_verify_order_spec [OF wf_tx_sample fr] by (elim exE conjE) simp
qed

text \<open>
  C7: \<open>transaction_merge_jobs\<close> ends.  On success every unit of the transaction has exactly one
  job, one of those it had, whose type covers the types of all of them, and no link between jobs
  is lost.  It reports \<open>-EAGAIN\<close> after it has dropped a job that does not matter, and
  \<open>-ENOEXEC\<close> only if two jobs of a unit conflict and both matter to the anchor; the
  \<open>-EINVAL\<close> at the end of \<open>delete_one_unmergeable_job\<close> is never returned.
\<close>

theorem transaction_merge_jobs_spec:
  assumes wf: "wf_tx m"
  shows "\<exists>r m'. transaction_merge_jobs m = Some (r, m') \<and> wf_tx m' \<and>
     (case r of
        Inr _ \<Rightarrow>
          links_kept m m' \<and>
          (\<forall>u. tlist m u \<noteq> [] \<longrightarrow>
             (\<exists>j jb. tlist m' u = [j] \<and> j \<in> set (tlist m u) \<and> m_job m' j = Some jb \<and>
                (\<forall>k \<in> set (tlist m u). \<forall>kb. m_job m k = Some kb \<longrightarrow>
                   job_type_is_superset (j_type jb) (j_type kb))))
      | Inl e \<Rightarrow> unmerged m e m')"
proof -
  obtain r m' where r: "transaction_merge_jobs m = Some (r, m')"
     "case r of Inr _ \<Rightarrow> merged_units (omap_keys (m_transaction_jobs m)) m m' | Inl e \<Rightarrow> unmerged m e m'"
    using transaction_merge_jobs_ok [OF wf] by blast
  show ?thesis
  proof (cases r)
    case (Inl e)
    then show ?thesis using r unmerged_wf(1) [OF wf] by auto
  next
    case (Inr x)
    then have M: "merged_units (omap_keys (m_transaction_jobs m)) m m'" using r(2) by simp
    have "\<exists>j jb. tlist m' u = [j] \<and> j \<in> set (tlist m u) \<and> m_job m' j = Some jb \<and>
        (\<forall>k \<in> set (tlist m u). \<forall>kb. m_job m k = Some kb \<longrightarrow> job_type_is_superset (j_type jb) (j_type kb))"
      if u: "tlist m u \<noteq> []" for u
    proof -
      have "u \<in> set (omap_keys (m_transaction_jobs m))" using u tlist_Nil_iff [OF wf_txD(7) [OF wf]] by blast
      then show ?thesis using M unfolding merged_units_def by blast
    qed
    moreover have "wf_tx m'" "links_kept m m'" using M by (simp_all add: merged_units_def merge_frame_def)
    ultimately show ?thesis using r(1) Inr by auto
  qed
qed

theorem transaction_merge_jobs_spec_witness:
  "wf_tx sample_tx \<and> (\<exists>r m'. transaction_merge_jobs sample_tx = Some (r, m') \<and> wf_tx m')"
  using wf_tx_sample transaction_merge_jobs_spec [OF wf_tx_sample] by blast

subsection \<open>Checking, applying, adding\<close>

text \<open>
  C8: on a merged transaction \<open>transaction_is_destructive\<close> fails with \<open>-EEXIST\<close> exactly if
  some unit has an installed job that the unit's job in the transaction neither is nor covers.
\<close>

theorem transaction_is_destructive_exact:
  assumes "wf_tx m" and "all_merged m"
  shows "transaction_is_destructive m =
     Some (if \<exists>u j jb i ib. j \<in> set (tlist m u) \<and> m_job m j = Some jb \<and> u_job (m_unit m u) = Some i \<and> i \<noteq> j \<and>
                m_job m i = Some ib \<and> \<not> job_type_is_superset (j_type jb) (j_type ib)
           then Inl EEXIST else Inr ())"
  using transaction_is_destructive_ok [OF assms] by (simp add: destroys_def)

theorem transaction_is_destructive_exact_witness:
  "wf_tx sample_tx \<and> all_merged sample_tx \<and> transaction_is_destructive sample_tx = Some (Inr ())"
proof -
  have am: "all_merged sample_tx" by (simp add: all_merged_def sample_tx_eq)
  have "u_job (m_unit sample_tx u) = None" for u
    by (simp add: sample_tx_def sample_defs run_defs cong: run_cong)
  then show ?thesis using wf_tx_sample am transaction_is_destructive_exact [OF wf_tx_sample am] by simp
qed

text \<open>
  C9: outside isolate mode, applying a merged transaction whose job ids are unique ends without
  an error and without touching freed memory.  Afterwards the job of every unit is the job the
  transaction had for it, or else the one that was installed before; the new jobs are installed and
  queued to run, the replaced ones are gone, and the transaction is empty.
\<close>

theorem transaction_apply_spec:
  assumes "wf_tx m" and "all_merged m" and "ids_inj m" and "mode \<noteq> JOB_ISOLATE"
  shows "\<exists>m'. transaction_apply fin mode m = Some (Inr (), m') \<and> idle m' \<and> installs m m'"
  using transaction_apply_ok [OF assms] by (auto simp: idle_def)

theorem transaction_apply_spec_witness:
  "wf_tx sample_tx \<and> all_merged sample_tx \<and> ids_inj sample_tx \<and>
   (\<exists>m'. transaction_apply (\<lambda>_. Some) JOB_REPLACE sample_tx = Some (Inr (), m') \<and> idle m' \<and> installs sample_tx m')"
proof -
  have am: "all_merged sample_tx" by (simp add: all_merged_def sample_tx_eq)
  have "add_ok (Add JOB_START 0 None True False False False False) sample_manager"
    using add_job_call_ok sample_ok by (simp add: idle_def)
  then have "adds sample_manager sample_tx" by (auto simp: add_ok_def sample_tx_def)
  then have "wf_ids sample_tx" using sample_ok(2) by (simp add: adds_def ids_left_def)
  moreover have "m_next_job sample_tx \<le> 2 ^ 32" by (simp add: sample_tx_def sample_defs run_defs cong: run_cong)
  ultimately have ids: "ids_inj sample_tx" using wf_ids_inj wf_txD(5) [OF wf_tx_sample] by blast
  show ?thesis using wf_tx_sample am ids transaction_apply_spec [OF wf_tx_sample am ids, of JOB_REPLACE] by simp
qed

text \<open>
  C10: \<open>transaction_add_job_and_dependencies\<close> ends on any graph of units, cycles included: it
  creates at most one job per unit and job type, keeps the invariant, leaves installed jobs and
  units alone, and hands back a job of the transaction for the unit and type asked for; its only
  errors are \<open>-EINVAL\<close> and \<open>-EBADR\<close>.
\<close>

theorem transaction_add_job_and_dependencies_spec:
  assumes wf: "wf_tx m" and cl: "closed_units m" and u: "u \<in> known m"
    and by_job: "\<forall>x. by_job = Some x \<longrightarrow> x \<in> tjobs m"
  shows "\<exists>r m'. transaction_add_job_and_dependencies type u by_job matters override conflicts
                  ignore_requirements ignore_order m = Some (r, m') \<and>
     wf_tx m' \<and> adds m m' \<and> m_next_job m' \<le> m_next_job m + 7 * length (m_units m) \<and>
     (case r of
        Inl e \<Rightarrow> e = EINVAL \<or> e = EBADR
      | Inr ret \<Rightarrow> ret \<in> set (tlist m' u) \<and> (\<exists>jb. m_job m' ret = Some jb \<and> j_type jb = type))"
proof -
  have "add_ok (Add type u by_job matters override conflicts ignore_requirements ignore_order) m"
    using add_job_call_ok [OF wf cl] u by_job by simp
  then obtain r m' where r: "add_job_call (Add type u by_job matters override conflicts ignore_requirements ignore_order) m = Some (r, m')"
     "wf_tx m'" "adds m m'" "bounded m m'"
     "case r of
        Inl e \<Rightarrow> e = EINVAL \<or> e = EBADR
      | Inr ret \<Rightarrow> ret \<in> set (tlist m' u) \<and> (\<exists>jb. m_job m' ret = Some jb \<and> j_type jb = type) \<and>
          (\<exists>l d. omap_get (m_dep m') l = Some d \<and> d_subject d = by_job \<and> d_object d = ret \<and> d_matters d = matters)"
    unfolding add_ok_def add_call.case by blast
  have "m_next_job m' \<le> m_next_job m + 7 * length (m_units m)"
    using r(4) card_missing [of m] by (simp add: bounded_def)
  then show ?thesis using r by (auto simp: transaction_add_job_and_dependencies_def split: sum.splits)
qed

theorem transaction_add_job_and_dependencies_spec_witness:
  "wf_tx sample_manager \<and> closed_units sample_manager \<and> 0 \<in> known sample_manager \<and>
   (\<exists>r m'. transaction_add_job_and_dependencies JOB_START 0 None True False False False False sample_manager = Some (r, m') \<and>
      wf_tx m')"
proof -
  have wf: "wf_tx sample_manager" using sample_ok(1) by (simp add: idle_def)
  show ?thesis
    using wf sample_ok(3,4)
      transaction_add_job_and_dependencies_spec [OF wf sample_ok(3,4), of None JOB_START True False False False False]
    by auto
qed

subsection \<open>A whole request\<close>

text \<open>
  C1: outside isolate mode, on a manager without a transaction under way and with enough job ids left
  before the 32-bit counter wraps (seven per unit name), \<open>manager_add_job\<close> always ends and leaves no
  transaction behind.  If it succeeds, the unit has an installed job whose type covers the requested
  one, and in mode \<open>fail\<close> every job type that was scheduled for some unit is still covered.  If it
  fails, the error is one of \<open>-EINVAL\<close>, \<open>-EBADR\<close>, \<open>-ENOEXEC\<close> and \<open>-EEXIST\<close> (the last one only in mode
  \<open>fail\<close>); units, job table and queues are as they were and so are the installed jobs, apart from
  their fields \<open>generation\<close>, \<open>marker\<close>, \<open>matters_to_anchor\<close>, \<open>override\<close> and \<open>ignore_order\<close>.  The
  exception for the last two, which later decisions read, is real: an installed job that a failed
  request took into its transaction keeps what the request wrote there, except that
  \<open>ignore_order\<close> is never cleared.
\<close>

theorem manager_add_job_spec:
  assumes "idle m" and "closed_units m" and "u \<in> known m" and "ids_left m" and "mode \<noteq> JOB_ISOLATE"
  shows "\<exists>r m'. manager_add_job fin type u mode override m = Some (r, m') \<and> idle m' \<and>
     (case r of
        Inl e \<Rightarrow> e \<in> {EINVAL, EBADR, ENOEXEC, EEXIST} \<and> (e = EEXIST \<longrightarrow> mode = JOB_FAIL) \<and> untouched m m'
      | Inr _ \<Rightarrow> scheduled m' u type \<and>
                  (mode = JOB_FAIL \<longrightarrow> (\<forall>v t. scheduled m v t \<longrightarrow> scheduled m' v t)))"
  using manager_add_job_correct [OF assms] .

theorem manager_add_job_spec_witness:
  "idle sample_manager \<and> closed_units sample_manager \<and> 0 \<in> known sample_manager \<and> ids_left sample_manager \<and>
   (\<exists>r m'. manager_add_job (\<lambda>_. Some) JOB_START 0 JOB_REPLACE False sample_manager = Some (r, m') \<and> idle m' \<and>
      scheduled m' 0 JOB_START)"
proof -
  obtain r m' where r: "manager_add_job (\<lambda>_. Some) JOB_START 0 JOB_REPLACE False sample_manager = Some (r, m')" "idle m'"
     "case r of
        Inl e \<Rightarrow> e \<in> {EINVAL, EBADR, ENOEXEC, EEXIST} \<and> (e = EEXIST \<longrightarrow> JOB_REPLACE = JOB_FAIL) \<and> untouched sample_manager m'
      | Inr _ \<Rightarrow> scheduled m' 0 JOB_START \<and>
                  (JOB_REPLACE = JOB_FAIL \<longrightarrow> (\<forall>v t. scheduled sample_manager v t \<longrightarrow> scheduled m' v t))"
    using manager_add_job_spec [OF sample_ok(1,3,4,2), of JOB_REPLACE] by blast
  moreover have "m' = sample_run" using r(1) by (simp add: sample_run_def)
  moreover have "\<not> untouched sample_manager sample_run"
    using sample_run_eq(1) by (simp add: untouched_def) (simp add: sample_defs)
  ultimately show ?thesis using sample_ok by (cases r) auto
qed

text \<open>
  An example: the job pointer that a successful \<open>manager_add_job\<close> hands back may be dangling.  If
  \<open>a.target\<close> requires \<open>b.target\<close> and \<open>b.target\<close> has \<open>a.target\<close> as a requisite, the
  requested start job is merged into the verify-active job that stands before it in the chain, and
  is freed: the number returned is no live job.
\<close>

theorem manager_add_job_dangling:
  "\<exists>m'. manager_add_job fin JOB_START 0 JOB_REPLACE False sample_loop = Some (Inr 0, m') \<and> m_job m' 0 = None"
  by (simp add: sample_loop_def fresh_manager_def sample_unit_def no_deps_def run_defs cong: run_cong split del: if_split)

end
