(* ===== verification/Job_Engine.thy ===== *)
theory Job_Engine
  imports Transaction_Build
begin

section \<open>Running and finishing jobs (src/src/job.c, unit.c, target.c)\<close>

text \<open>
  The job engine: which job may run, what running it does, how a finished job fails the jobs that
  depend on it, and how a state change of a unit (\<open>unit_notify\<close>) finishes jobs and enqueues
  new ones.  A unit type's vtable is a record of functions (\<open>unit_ops\<close>); \<open>target_ops\<close> is the
  vtable of \<open>target.c\<close>.

  \<open>job_finish_and_invalidate\<close> calls itself for dependent jobs and, through
  \<open>OnFailure=\<close> and isolate requests, \<open>manager_add_job\<close> and again itself.  Its first
  argument bounds the nesting of these calls; \<open>None\<close> is a recursion deeper than the bound (or a
  failed assertion or a dangling pointer, as everywhere in the model).  Left out are audit, Plymouth
  and log messages, timestamps, the trimming of control groups, the reconnection to D-Bus and
  syslog, and \<open>manager_check_finished\<close>, which only reports that startup is done.
\<close>

subsection \<open>May a job run?\<close>

definition job_is_runnable :: "manager \<Rightarrow> jref \<Rightarrow> bool option" where
  "job_is_runnable m j =
     do {
       jb \<leftarrow> m_job m j;
       if \<not> j_installed jb then None
       else if j_ignore_order jb then Some True
       else if (j_type jb = JOB_START \<or> j_type jb = JOB_VERIFY_ACTIVE \<or> j_type jb = JOB_RELOAD \<or>
                j_type jb = JOB_RELOAD_OR_START) \<and>
               (\<exists>other \<in> set (u_deps m (j_unit jb) UNIT_AFTER). u_job (m_unit m other) \<noteq> None)
            then Some False
       else do {
         b \<leftarrow> any_opt (\<lambda>other. unit_job_test m other (\<lambda>ob. j_type ob = JOB_STOP \<or> j_type ob = JOB_RESTART \<or>
                                                        j_type ob = JOB_TRY_RESTART))
                      (u_deps m (j_unit jb) UNIT_BEFORE);
         Some (\<not> b) } }"

subsection \<open>Finishing a job\<close>

text \<open>The parameter \<open>fin k\<close> is the nested call \<open>job_finish_and_invalidate(k, \<dots>)\<close>.\<close>

definition start_like :: "job_type \<Rightarrow> bool" where
  "start_like t \<longleftrightarrow> t = JOB_START \<or> t = JOB_VERIFY_ACTIVE \<or> t = JOB_RELOAD_OR_START"

fun finish_dependents ::
    "(jref \<Rightarrow> job_result \<Rightarrow> manager \<Rightarrow> manager option) \<Rightarrow> bool \<Rightarrow> uid list \<Rightarrow> manager \<Rightarrow> manager option" where
  "finish_dependents fin overridable [] m = Some m"
| "finish_dependents fin overridable (other # us) m =
     do {
       m' \<leftarrow> (case u_job (m_unit m other) of
                None \<Rightarrow> Some m
              | Some k \<Rightarrow> do {
                  kb \<leftarrow> m_job m k;
                  if (overridable \<and> j_override kb) \<or> \<not> start_like (j_type kb) then Some m
                  else fin k JOB_DEPENDENCY m });
       finish_dependents fin overridable us m' }"

fun add_failure_jobs ::
    "(jref \<Rightarrow> job_result \<Rightarrow> manager \<Rightarrow> manager option) \<Rightarrow> uid \<Rightarrow> uid list \<Rightarrow> manager \<Rightarrow> manager option" where
  "add_failure_jobs fin u [] m = Some m"
| "add_failure_jobs fin u (other # us) m =
     do {
       (r, m') \<leftarrow> manager_add_job (\<lambda>k. fin k JOB_CANCELED) JOB_START other
                    (if u_on_failure_isolate (m_unit m u) then JOB_ISOLATE else JOB_REPLACE) True m;
       add_failure_jobs fin u us m' }"

definition unit_trigger_on_failure ::
    "(jref \<Rightarrow> job_result \<Rightarrow> manager \<Rightarrow> manager option) \<Rightarrow> uid \<Rightarrow> manager \<Rightarrow> manager option" where
  "unit_trigger_on_failure fin u m = add_failure_jobs fin u (u_deps m u UNIT_ON_FAILURE) m"

fun queue_jobs_of :: "uid list \<Rightarrow> manager \<Rightarrow> manager option" where
  "queue_jobs_of [] m = Some m"
| "queue_jobs_of (other # us) m =
     do {
       m' \<leftarrow> (case u_job (m_unit m other) of None \<Rightarrow> Some m | Some k \<Rightarrow> job_add_to_run_queue k m);
       queue_jobs_of us m' }"

definition fail_dependents ::
    "(jref \<Rightarrow> job_result \<Rightarrow> manager \<Rightarrow> manager option) \<Rightarrow> uid \<Rightarrow> job_type \<Rightarrow> manager \<Rightarrow> manager option" where
  "fail_dependents fin u t m =
     (if start_like t then
        do {
          m1 \<leftarrow> finish_dependents fin False (u_deps m u UNIT_REQUIRED_BY) m;
          m2 \<leftarrow> finish_dependents fin False (u_deps m1 u UNIT_BOUND_BY) m1;
          finish_dependents fin True (u_deps m2 u UNIT_REQUIRED_BY_OVERRIDABLE) m2 }
      else if t = JOB_STOP then finish_dependents fin False (u_deps m u UNIT_CONFLICTED_BY) m
      else Some m)"

definition finish_step ::
    "(jref \<Rightarrow> job_result \<Rightarrow> manager \<Rightarrow> manager option) \<Rightarrow> jref \<Rightarrow> job_result \<Rightarrow> manager \<Rightarrow> manager option" where
  "finish_step fin j result m =
     do {
       m1 \<leftarrow> job_add_to_dbus_queue j m;
       jb \<leftarrow> m_job m1 j;
       let u = j_unit jb; t = j_type jb in
       do {
         m2 \<leftarrow> (if result = JOB_DONE \<and> (t = JOB_RESTART \<or> t = JOB_TRY_RESTART)
                then do {
                  m1' \<leftarrow> upd_job j (\<lambda>jb. jb\<lparr>j_state := JOB_WAITING, j_type := JOB_START\<rparr>) m1;
                  job_add_to_run_queue j m1' }
                else do {
                  ma \<leftarrow> upd_job j (\<lambda>jb. jb\<lparr>j_result := result\<rparr>) m1;
                  mb \<leftarrow> job_free j (if result = JOB_FAILED
                                    then ma\<lparr>m_n_failed_jobs := m_n_failed_jobs ma + 1\<rparr> else ma);
                  mc \<leftarrow> (if result \<noteq> JOB_DONE then fail_dependents fin u t mb else Some mb);
                  if result = JOB_TIMEOUT \<or> result = JOB_DEPENDENCY
                  then unit_trigger_on_failure fin u mc else Some mc });
         m3 \<leftarrow> queue_jobs_of (u_deps m2 u UNIT_AFTER) m2;
         queue_jobs_of (u_deps m3 u UNIT_BEFORE) m3 } }"

primrec job_finish_and_invalidate :: "nat \<Rightarrow> jref \<Rightarrow> job_result \<Rightarrow> manager \<Rightarrow> manager option" where
  "job_finish_and_invalidate 0 = (\<lambda>j result m. None)"
| "job_finish_and_invalidate (Suc n) = finish_step (job_finish_and_invalidate n)"

text \<open>\<open>manager_add_job\<close> with the real \<open>job_finish_and_invalidate\<close> in isolate mode.\<close>

definition add_job :: "nat \<Rightarrow> job_type \<Rightarrow> uid \<Rightarrow> job_mode \<Rightarrow> bool \<Rightarrow> manager \<Rightarrow> jref st" where
  "add_job n = manager_add_job (\<lambda>k. job_finish_and_invalidate n k JOB_CANCELED)"

definition job_timer_event :: "nat \<Rightarrow> jref \<Rightarrow> manager \<Rightarrow> manager option" where
  "job_timer_event n j m = job_finish_and_invalidate n j JOB_TIMEOUT m"

partial_function (option) clear_installed :: "nat \<Rightarrow> manager \<Rightarrow> manager option" where
  "clear_installed n m =
     (case m_jobs m of
        [] \<Rightarrow> Some m
      | (_, j) # _ \<Rightarrow> do { m' \<leftarrow> job_finish_and_invalidate n j JOB_CANCELED m; clear_installed n m' })"

definition manager_clear_jobs :: "nat \<Rightarrow> manager \<Rightarrow> manager option" where
  "manager_clear_jobs n m = do { m' \<leftarrow> transaction_abort m; clear_installed n m' }"

subsection \<open>Starting, stopping and reloading a unit\<close>

record unit_ops =
  op_start :: "uid \<Rightarrow> manager \<Rightarrow> unit st"
  op_stop :: "uid \<Rightarrow> manager \<Rightarrow> unit st"
  op_reload :: "uid \<Rightarrow> manager \<Rightarrow> unit st"

definition unit_add_to_dbus_queue :: "uid \<Rightarrow> manager \<Rightarrow> manager" where
  "unit_add_to_dbus_queue u m =
     (if u_load_state (m_unit m u) = UNIT_STUB \<or> u_in_dbus_queue (m_unit m u) then m
      else if \<not> m_has_subscriber m then upd_unit u (\<lambda>x. x\<lparr>u_sent_dbus_new_signal := True\<rparr>) m
      else (upd_unit u (\<lambda>x. x\<lparr>u_in_dbus_queue := True\<rparr>) m)
             \<lparr>m_dbus_unit_queue := u # m_dbus_unit_queue m\<rparr>)"

partial_function (option) unit_start :: "unit_ops \<Rightarrow> uid \<Rightarrow> manager \<Rightarrow> unit st" where
  "unit_start ops u m =
     (let x = m_unit m u; state = unit_active_state m u in
      if u_load_state x \<noteq> UNIT_LOADED then Some (Inl EINVAL, m)
      else if UNIT_IS_ACTIVE_OR_RELOADING state then Some (Inl EALREADY, m)
      else if state \<noteq> UNIT_ACTIVATING \<and> \<not> u_condition x then Some (Inl EALREADY, m)
      else case u_following x of
             Some f \<Rightarrow> unit_start ops f m
           | None \<Rightarrow>
               if \<not> u_vt_start x then Some (Inl EBADR, m)
               else op_start ops u (unit_add_to_dbus_queue u m))"

partial_function (option) unit_stop :: "unit_ops \<Rightarrow> uid \<Rightarrow> manager \<Rightarrow> unit st" where
  "unit_stop ops u m =
     (let x = m_unit m u in
      if UNIT_IS_INACTIVE_OR_FAILED (unit_active_state m u) then Some (Inl EALREADY, m)
      else case u_following x of
             Some f \<Rightarrow> unit_stop ops f m
           | None \<Rightarrow>
               if \<not> u_vt_stop x then Some (Inl EBADR, m)
               else op_stop ops u (unit_add_to_dbus_queue u m))"

partial_function (option) unit_reload :: "unit_ops \<Rightarrow> uid \<Rightarrow> manager \<Rightarrow> unit st" where
  "unit_reload ops u m =
     (let x = m_unit m u; state = unit_active_state m u in
      if u_load_state x \<noteq> UNIT_LOADED then Some (Inl EINVAL, m)
      else if \<not> unit_can_reload m u then Some (Inl EBADR, m)
      else if state = UNIT_RELOADING then Some (Inl EALREADY, m)
      else if state \<noteq> UNIT_ACTIVE then Some (Inl ENOEXEC, m)
      else case u_following x of
             Some f \<Rightarrow> unit_reload ops f m
           | None \<Rightarrow> op_reload ops u (unit_add_to_dbus_queue u m))"

subsection \<open>Running a job\<close>

text \<open>\<open>if (r == -EBADR) r = 0;\<close>\<close>

definition badr_ok :: "(unit result \<times> manager) option \<Rightarrow> (unit result \<times> manager) option" where
  "badr_ok x = map_option (\<lambda>(r, m). (if r = Inl EBADR then Inr () else r, m)) x"

text \<open>The switch over the job type in \<open>job_run_and_invalidate\<close>.\<close>

definition perform_job :: "unit_ops \<Rightarrow> jref \<Rightarrow> manager \<Rightarrow> unit st" where
  "perform_job ops j m =
     do {
       jb \<leftarrow> m_job m j;
       let u = j_unit jb; t = unit_active_state m (j_unit jb) in
       case j_type jb of
         JOB_START \<Rightarrow> badr_ok (unit_start ops u m)
       | JOB_VERIFY_ACTIVE \<Rightarrow>
           Some (Inl (if UNIT_IS_ACTIVE_OR_RELOADING t then EALREADY
                      else if t = UNIT_ACTIVATING then EAGAIN else ENOEXEC), m)
       | JOB_STOP \<Rightarrow> badr_ok (unit_stop ops u m)
       | JOB_RELOAD \<Rightarrow> unit_reload ops u m
       | JOB_RELOAD_OR_START \<Rightarrow>
           if t = UNIT_ACTIVE
           then do { m' \<leftarrow> upd_job j (\<lambda>jb. jb\<lparr>j_type := JOB_RELOAD\<rparr>) m; unit_reload ops u m' }
           else do { m' \<leftarrow> upd_job j (\<lambda>jb. jb\<lparr>j_type := JOB_START\<rparr>) m; badr_ok (unit_start ops u m') }
       | JOB_RESTART \<Rightarrow>
           if t = UNIT_INACTIVE \<or> t = UNIT_FAILED \<or> t = UNIT_ACTIVATING
           then do { m' \<leftarrow> upd_job j (\<lambda>jb. jb\<lparr>j_type := JOB_START\<rparr>) m; unit_start ops u m' }
           else unit_stop ops u m
       | JOB_TRY_RESTART \<Rightarrow>
           if t = UNIT_INACTIVE \<or> t = UNIT_FAILED \<or> t = UNIT_DEACTIVATING then Some (Inl ENOEXEC, m)
           else if t = UNIT_ACTIVATING
           then do { m' \<leftarrow> upd_job j (\<lambda>jb. jb\<lparr>j_type := JOB_START\<rparr>) m; unit_start ops u m' }
           else do { m' \<leftarrow> upd_job j (\<lambda>jb. jb\<lparr>j_type := JOB_RESTART\<rparr>) m; unit_stop ops u m' } }"

definition finish_with :: "nat \<Rightarrow> jref \<Rightarrow> job_result \<Rightarrow> manager \<Rightarrow> unit st" where
  "finish_with n j result m = do { m' \<leftarrow> job_finish_and_invalidate n j result m; Some (Inr (), m') }"

definition job_run_and_invalidate :: "nat \<Rightarrow> unit_ops \<Rightarrow> jref \<Rightarrow> manager \<Rightarrow> unit st" where
  "job_run_and_invalidate n ops j m =
     do {
       jb \<leftarrow> m_job m j;
       if \<not> j_installed jb then None
       else do {
         m1 \<leftarrow> (if j_in_run_queue jb
                then upd_job j (\<lambda>jb. jb\<lparr>j_in_run_queue := False\<rparr>)
                       (m\<lparr>m_run_queue := remove1 j (m_run_queue m)\<rparr>)
                else Some m);
         if j_state jb \<noteq> JOB_WAITING then Some (Inr (), m1)
         else do {
           runnable \<leftarrow> job_is_runnable m1 j;
           if \<not> runnable then Some (Inl EAGAIN, m1)
           else do {
             m2 \<leftarrow> upd_job j (\<lambda>jb. jb\<lparr>j_state := JOB_RUNNING\<rparr>) m1;
             m3 \<leftarrow> job_add_to_dbus_queue j m2;
             (r, m4) \<leftarrow> perform_job ops j m3;
             case manager_get_job m4 (j_id jb) of
               None \<Rightarrow> Some (r, m4)
             | Some j' \<Rightarrow>
                 (case r of
                    Inr _ \<Rightarrow> Some (r, m4)
                  | Inl e \<Rightarrow>
                      if e = EALREADY then finish_with n j' JOB_DONE m4
                      else if e = ENOEXEC then finish_with n j' JOB_SKIPPED m4
                      else if e = EAGAIN
                      then do { m5 \<leftarrow> upd_job j' (\<lambda>jb. jb\<lparr>j_state := JOB_WAITING\<rparr>) m4; Some (r, m5) }
                      else finish_with n j' JOB_FAILED m4) } } } }"

partial_function (option) run_queue_loop :: "nat \<Rightarrow> unit_ops \<Rightarrow> nat \<Rightarrow> manager \<Rightarrow> (nat \<times> manager) option" where
  "run_queue_loop f ops n m =
     (case m_run_queue m of
        [] \<Rightarrow> Some (n, m)
      | j # _ \<Rightarrow> do {
          jb \<leftarrow> m_job m j;
          if \<not> j_installed jb \<or> \<not> j_in_run_queue jb then None
          else do {
            (r, m') \<leftarrow> job_run_and_invalidate f ops j m;
            run_queue_loop f ops (n + 1) m' } })"

definition manager_dispatch_run_queue :: "nat \<Rightarrow> unit_ops \<Rightarrow> manager \<Rightarrow> (nat \<times> manager) option" where
  "manager_dispatch_run_queue f ops m =
     (if m_dispatching_run_queue m then Some (0, m)
      else do {
        (n, m') \<leftarrow> run_queue_loop f ops 0 (m\<lparr>m_dispatching_run_queue := True\<rparr>);
        Some (n, m'\<lparr>m_dispatching_run_queue := False\<rparr>) })"

subsection \<open>State changes of a unit\<close>

fun add_jobs_for ::
    "nat \<Rightarrow> (manager \<Rightarrow> uid \<Rightarrow> bool) \<Rightarrow> job_type \<Rightarrow> job_mode \<Rightarrow> bool \<Rightarrow> uid list \<Rightarrow> manager \<Rightarrow> manager option" where
  "add_jobs_for n P type mode override [] m = Some m"
| "add_jobs_for n P type mode override (other # us) m =
     (if P m other
      then do { (r, m') \<leftarrow> add_job n type other mode override m; add_jobs_for n P type mode override us m' }
      else add_jobs_for n P type mode override us m)"

definition needs_start :: "uid \<Rightarrow> manager \<Rightarrow> uid \<Rightarrow> bool" where
  "needs_start u m other \<longleftrightarrow>
     other \<notin> set (u_deps m u UNIT_AFTER) \<and> \<not> UNIT_IS_ACTIVE_OR_ACTIVATING (unit_active_state m other)"

definition needs_stop :: "manager \<Rightarrow> uid \<Rightarrow> bool" where
  "needs_stop m other \<longleftrightarrow> \<not> UNIT_IS_INACTIVE_OR_DEACTIVATING (unit_active_state m other)"

definition retroactively_start_dependencies :: "nat \<Rightarrow> uid \<Rightarrow> manager \<Rightarrow> manager option" where
  "retroactively_start_dependencies n u m =
     (if \<not> UNIT_IS_ACTIVE_OR_ACTIVATING (unit_active_state m u) then None
      else do {
        m1 \<leftarrow> add_jobs_for n (needs_start u) JOB_START JOB_REPLACE True (u_deps m u UNIT_REQUIRES) m;
        m2 \<leftarrow> add_jobs_for n (needs_start u) JOB_START JOB_REPLACE True (u_deps m1 u UNIT_BIND_TO) m1;
        m3 \<leftarrow> add_jobs_for n (needs_start u) JOB_START JOB_FAIL False (u_deps m2 u UNIT_REQUIRES_OVERRIDABLE) m2;
        m4 \<leftarrow> add_jobs_for n (needs_start u) JOB_START JOB_REPLACE True (u_deps m3 u UNIT_REQUISITE) m3;
        m5 \<leftarrow> add_jobs_for n (needs_start u) JOB_START JOB_FAIL False (u_deps m4 u UNIT_WANTS) m4;
        m6 \<leftarrow> add_jobs_for n needs_stop JOB_STOP JOB_REPLACE True (u_deps m5 u UNIT_CONFLICTS) m5;
        add_jobs_for n needs_stop JOB_STOP JOB_REPLACE True (u_deps m6 u UNIT_CONFLICTED_BY) m6 })"

definition unit_check_unneeded :: "nat \<Rightarrow> uid \<Rightarrow> manager \<Rightarrow> manager option" where
  "unit_check_unneeded n u m =
     (let needed = (\<lambda>d. \<exists>other \<in> set (u_deps m u d). needs_stop m other) in
      if \<not> u_stop_when_unneeded (m_unit m u) then Some m
      else if \<not> UNIT_IS_ACTIVE_OR_ACTIVATING (unit_active_state m u) then Some m
      else if needed UNIT_REQUIRED_BY \<or> needed UNIT_REQUIRED_BY_OVERRIDABLE \<or> needed UNIT_WANTED_BY \<or>
              needed UNIT_BOUND_BY then Some m
      else do { (r, m') \<leftarrow> add_job n JOB_STOP u JOB_FAIL True m; Some m' })"

fun check_unneeded_all :: "nat \<Rightarrow> uid list \<Rightarrow> manager \<Rightarrow> manager option" where
  "check_unneeded_all n [] m = Some m"
| "check_unneeded_all n (other # us) m =
     (if needs_stop m other
      then do { m' \<leftarrow> unit_check_unneeded n other m; check_unneeded_all n us m' }
      else check_unneeded_all n us m)"

definition retroactively_stop_dependencies :: "nat \<Rightarrow> uid \<Rightarrow> manager \<Rightarrow> manager option" where
  "retroactively_stop_dependencies n u m =
     (if \<not> UNIT_IS_INACTIVE_OR_DEACTIVATING (unit_active_state m u) then None
      else do {
        m1 \<leftarrow> add_jobs_for n needs_stop JOB_STOP JOB_REPLACE True (u_deps m u UNIT_BOUND_BY) m;
        m2 \<leftarrow> check_unneeded_all n (u_deps m1 u UNIT_REQUIRES) m1;
        m3 \<leftarrow> check_unneeded_all n (u_deps m2 u UNIT_REQUIRES_OVERRIDABLE) m2;
        m4 \<leftarrow> check_unneeded_all n (u_deps m3 u UNIT_WANTS) m3;
        m5 \<leftarrow> check_unneeded_all n (u_deps m4 u UNIT_REQUISITE) m4;
        m6 \<leftarrow> check_unneeded_all n (u_deps m5 u UNIT_REQUISITE_OVERRIDABLE) m5;
        check_unneeded_all n (u_deps m6 u UNIT_BIND_TO) m6 })"

text \<open>
  What \<open>unit_notify\<close> does with the unit's job, per job type: whether the state change was
  unexpected, and with which result the job is finished, if at all.
\<close>

definition notify_start :: "job_state \<Rightarrow> unit_active_state \<Rightarrow> bool \<times> job_result option" where
  "notify_start state ns =
     (if UNIT_IS_ACTIVE_OR_RELOADING ns then (False, Some JOB_DONE)
      else if state = JOB_RUNNING \<and> ns \<noteq> UNIT_ACTIVATING then
        (True, if UNIT_IS_INACTIVE_OR_FAILED ns
               then Some (if ns = UNIT_FAILED then JOB_FAILED else JOB_DONE) else None)
      else (False, None))"

definition notify_reload :: "job_state \<Rightarrow> unit_active_state \<Rightarrow> bool \<Rightarrow> bool \<times> job_result option" where
  "notify_reload state ns reload_success =
     (if state = JOB_RUNNING then
        if ns = UNIT_ACTIVE then (False, Some (if reload_success then JOB_DONE else JOB_FAILED))
        else if ns \<noteq> UNIT_ACTIVATING \<and> ns \<noteq> UNIT_RELOADING then
          (True, if UNIT_IS_INACTIVE_OR_FAILED ns
                 then Some (if ns = UNIT_FAILED then JOB_FAILED else JOB_DONE) else None)
        else (False, None)
      else (False, None))"

definition notify_stop :: "job_state \<Rightarrow> unit_active_state \<Rightarrow> bool \<times> job_result option" where
  "notify_stop state ns =
     (if UNIT_IS_INACTIVE_OR_FAILED ns then (False, Some JOB_DONE)
      else if state = JOB_RUNNING \<and> ns \<noteq> UNIT_DEACTIVATING then (True, Some JOB_FAILED)
      else (False, None))"

definition notify_job ::
    "job_type \<Rightarrow> job_state \<Rightarrow> unit_active_state \<Rightarrow> bool \<Rightarrow> bool \<times> job_result option" where
  "notify_job t state ns reload_success =
     (case t of
        JOB_START \<Rightarrow> notify_start state ns
      | JOB_VERIFY_ACTIVE \<Rightarrow> notify_start state ns
      | JOB_RELOAD \<Rightarrow> notify_reload state ns reload_success
      | JOB_RELOAD_OR_START \<Rightarrow> notify_reload state ns reload_success
      | JOB_STOP \<Rightarrow> notify_stop state ns
      | JOB_RESTART \<Rightarrow> notify_stop state ns
      | JOB_TRY_RESTART \<Rightarrow> notify_stop state ns)"

text \<open>
  The parameter \<open>hook\<close> stands for \<open>timer_unit_notify\<close> and \<open>path_unit_notify\<close>, by which timer and
  path units watch the unit they trigger.
\<close>

definition unit_notify ::
    "nat \<Rightarrow> (uid \<Rightarrow> unit_active_state \<Rightarrow> manager \<Rightarrow> manager option) \<Rightarrow> uid \<Rightarrow> unit_active_state \<Rightarrow>
     unit_active_state \<Rightarrow> bool \<Rightarrow> manager \<Rightarrow> manager option" where
  "unit_notify n hook u os ns reload_success m =
     do {
       m0 \<leftarrow> (if m_n_reloading m = 0 then hook u ns m else Some m);
       (unexpected, m1) \<leftarrow>
         (case u_job (m_unit m0 u) of
            None \<Rightarrow> Some (True, m0)
          | Some j \<Rightarrow> do {
              jb \<leftarrow> m_job m0 j;
              ma \<leftarrow> (if j_state jb = JOB_WAITING then job_add_to_run_queue j m0 else Some m0);
              (case notify_job (j_type jb) (j_state jb) ns reload_success of
                 (unexpected, res) \<Rightarrow> do {
                   mb \<leftarrow> (case res of None \<Rightarrow> Some ma | Some r \<Rightarrow> job_finish_and_invalidate n j r ma);
                   Some (unexpected, mb) }) });
       m2 \<leftarrow> (if m_n_reloading m1 = 0 \<and> unexpected then
                if UNIT_IS_INACTIVE_OR_FAILED os \<and> UNIT_IS_ACTIVE_OR_ACTIVATING ns
                then retroactively_start_dependencies n u m1
                else if UNIT_IS_ACTIVE_OR_ACTIVATING os \<and> UNIT_IS_INACTIVE_OR_DEACTIVATING ns
                then retroactively_stop_dependencies n u m1
                else Some m1
              else Some m1);
       m3 \<leftarrow> (if m_n_reloading m2 = 0 \<and> ns \<noteq> os \<and> ns = UNIT_FAILED
              then unit_trigger_on_failure (job_finish_and_invalidate n) u m2 else Some m2);
       m4 \<leftarrow> unit_check_unneeded n u m3;
       Some (unit_add_to_gc_queue u (unit_add_to_dbus_queue u m4)) }"

subsection \<open>Target units (target.c)\<close>

datatype target_state = TARGET_DEAD | TARGET_ACTIVE

definition target_translation :: "target_state \<Rightarrow> unit_active_state" where
  "target_translation s = (case s of TARGET_DEAD \<Rightarrow> UNIT_INACTIVE | TARGET_ACTIVE \<Rightarrow> UNIT_ACTIVE)"

text \<open>The state of a target is the one its active state translates; no other active state occurs.\<close>

definition target_state_of :: "manager \<Rightarrow> uid \<Rightarrow> target_state option" where
  "target_state_of m u =
     (if unit_active_state m u = UNIT_INACTIVE then Some TARGET_DEAD
      else if unit_active_state m u = UNIT_ACTIVE then Some TARGET_ACTIVE else None)"

definition target_set_state ::
    "nat \<Rightarrow> (uid \<Rightarrow> unit_active_state \<Rightarrow> manager \<Rightarrow> manager option) \<Rightarrow> uid \<Rightarrow> target_state \<Rightarrow> manager \<Rightarrow>
     manager option" where
  "target_set_state n hook u state m =
     do {
       old_state \<leftarrow> target_state_of m u;
       unit_notify n hook u (target_translation old_state) (target_translation state) True
         (upd_unit u (\<lambda>x. x\<lparr>u_active_state := target_translation state\<rparr>) m) }"

definition target_start ::
    "nat \<Rightarrow> (uid \<Rightarrow> unit_active_state \<Rightarrow> manager \<Rightarrow> manager option) \<Rightarrow> uid \<Rightarrow> manager \<Rightarrow> unit st" where
  "target_start n hook u m =
     (if target_state_of m u \<noteq> Some TARGET_DEAD then None
      else do { m' \<leftarrow> target_set_state n hook u TARGET_ACTIVE m; Some (Inr (), m') })"

definition target_stop ::
    "nat \<Rightarrow> (uid \<Rightarrow> unit_active_state \<Rightarrow> manager \<Rightarrow> manager option) \<Rightarrow> uid \<Rightarrow> manager \<Rightarrow> unit st" where
  "target_stop n hook u m =
     (if target_state_of m u \<noteq> Some TARGET_ACTIVE then None
      else do { m' \<leftarrow> target_set_state n hook u TARGET_DEAD m; Some (Inr (), m') })"

text \<open>Targets have no \<open>reload\<close> method, so \<open>unit_reload\<close> never gets to it.\<close>

definition target_ops ::
    "nat \<Rightarrow> (uid \<Rightarrow> unit_active_state \<Rightarrow> manager \<Rightarrow> manager option) \<Rightarrow> unit_ops" where
  "target_ops n hook =
     \<lparr>op_start = target_start n hook, op_stop = target_stop n hook, op_reload = (\<lambda>u m. None)\<rparr>"

end
