(* ===== verification/Job_Finish.thy ===== *)
theory Job_Finish
  imports Transaction_Activate Job_Engine
begin

section \<open>Finishing jobs: the jobs that fail with a failed one\<close>

text \<open>
  What \<open>job_finish_and_invalidate\<close> does to a manager between two requests, as long as no job
  that fails is one of a unit with \<open>OnFailure=\<close> dependencies: the recursion over dependent jobs ends, the invariant is
  kept, and the jobs that go away are the ones reachable over \<open>fails\<close>, the relation between a job
  and the jobs its failure takes along.  The nested calls are described once, by \<open>finishes\<close>, and
  the fuel is bounded by the number of jobs.
\<close>

subsection \<open>The manager between two requests\<close>

text \<open>Another form of \<open>idle\<close>, in terms of the fields the job engine changes.\<close>

definition quiet :: "manager \<Rightarrow> bool" where
  "quiet m \<longleftrightarrow>
     m_transaction_jobs m = [] \<and> m_transaction_anchor m = [] \<and> m_dep m = [] \<and>
     (\<forall>j jb. m_job m j = Some jb \<longrightarrow> j_installed jb \<and> j_subject_list jb = [] \<and> j_object_list jb = []) \<and>
     wf_inst m \<and> wf_queues m \<and> wf_next m"

lemma idle_quiet: "idle m \<longleftrightarrow> quiet m"
proof
  assume id: "idle m"
  then have wf: "wf_tx m" by (simp add: idle_def)
  note E = idle_empty [OF id]
  have "j_installed jb" if "m_job m j = Some jb" for j jb using E(3) that by (auto simp: noninst_def)
  moreover have "j_subject_list jb = [] \<and> j_object_list jb = []" if "m_job m j = Some jb" for j jb
    using set_subject_list [OF wf_txD(6) [OF wf] that] set_object_list [OF wf_txD(6) [OF wf] that]
    by (simp add: E(1) omap_get_def)
  ultimately show "quiet m" using id E wf_txD [OF wf] by (simp add: quiet_def idle_def)
next
  assume q: "quiet m"
  then have "wf_deps m" "wf_list m" "wf_q m" "wf_scope m"
    by (auto simp: quiet_def wf_deps_def wf_list_def wf_q_def wf_scope_def omap_get_def noninst_def)
  then show "idle m" using q by (simp add: quiet_def idle_def wf_tx_def wf_core_def)
qed

lemma quietD:
  assumes "quiet m"
  shows "m_transaction_jobs m = []" "m_transaction_anchor m = []" "m_dep m = []" "wf_inst m" "wf_queues m" "wf_next m"
    "m_job m j = Some jb \<Longrightarrow> j_installed jb" "m_job m j = Some jb \<Longrightarrow> j_subject_list jb = []"
    "m_job m j = Some jb \<Longrightarrow> j_object_list jb = []"
    "m_job m j = Some jb \<Longrightarrow> u_job (m_unit m (j_unit jb)) = Some j"
    "u_job (m_unit m u) = Some j \<Longrightarrow> \<exists>jb. m_job m j = Some jb \<and> j_unit jb = u"
proof -
  have "\<forall>u j. u_job (m_unit m u) = Some j \<longrightarrow> (\<exists>jb. m_job m j = Some jb \<and> j_installed jb \<and> j_unit jb = u)"
    using assms by (simp add: quiet_def wf_inst_def)
  then show "u_job (m_unit m u) = Some j \<Longrightarrow> \<exists>jb. m_job m j = Some jb \<and> j_unit jb = u" by blast
qed (use assms in \<open>auto simp: quiet_def wf_inst_def\<close>)

text \<open>The part of a job that says where it belongs; the invariant depends on nothing else.\<close>

definition job_view :: "job \<Rightarrow> bool \<times> 32 word \<times> uid \<times> dref list \<times> dref list" where
  "job_view jb = (j_installed jb, j_id jb, j_unit jb, j_subject_list jb, j_object_list jb)"

lemma view_Some: "map_option job_view x = map_option job_view y \<Longrightarrow> x = Some a \<Longrightarrow>
    \<exists>b. y = Some b \<and> j_installed b = j_installed a \<and> j_id b = j_id a \<and> j_unit b = j_unit a \<and>
      j_subject_list b = j_subject_list a \<and> j_object_list b = j_object_list a"
  by (cases y) (auto simp: job_view_def)

lemma wf_inst_view:
  assumes "\<And>j. map_option job_view (m_job m j) = map_option job_view (m_job m' j)" "m_jobs m' = m_jobs m"
    "\<And>u. u_job (m_unit m' u) = u_job (m_unit m u)" "wf_inst m"
  shows "wf_inst m'"
  unfolding wf_inst_def assms(2,3)
proof (intro conjI allI impI)
  show "distinct (omap_keys (m_jobs m))" using assms(4) by (simp add: wf_inst_def)
next
  fix i j assume "omap_get (m_jobs m) i = Some j"
  then obtain jb where "m_job m j = Some jb" "j_installed jb" "j_id jb = i"
    using assms(4) unfolding wf_inst_def by blast
  then show "\<exists>jb. m_job m' j = Some jb \<and> j_installed jb \<and> j_id jb = i" using view_Some [OF assms(1)] by metis
next
  fix u j assume "u_job (m_unit m u) = Some j"
  then obtain jb where "m_job m j = Some jb" "j_installed jb" "j_unit jb = u"
    using assms(4) unfolding wf_inst_def by blast
  then show "\<exists>jb. m_job m' j = Some jb \<and> j_installed jb \<and> j_unit jb = u" using view_Some [OF assms(1)] by metis
next
  fix j jb assume "m_job m' j = Some jb \<and> j_installed jb"
  then obtain kb where "m_job m j = Some kb" "j_installed kb" "j_id kb = j_id jb" "j_unit kb = j_unit jb"
    using view_Some [OF assms(1) [symmetric]] by metis
  then have "omap_get (m_jobs m) (j_id jb) = Some j \<and> u_job (m_unit m (j_unit jb)) = Some j"
    using assms(4) unfolding wf_inst_def by metis
  then show "omap_get (m_jobs m) (j_id jb) = Some j" "u_job (m_unit m (j_unit jb)) = Some j" by simp_all
qed

lemma quiet_upd:
  assumes q: "quiet m" and j: "m_job m j = Some jb" "job_view jb' = job_view jb" and
    m': "m_job m' = (m_job m)(j \<mapsto> jb')" "m_jobs m' = m_jobs m" "m_unit m' = m_unit m" "m_dep m' = m_dep m"
      "m_transaction_jobs m' = m_transaction_jobs m" "m_transaction_anchor m' = m_transaction_anchor m"
      "m_next_job m' = m_next_job m" "m_next_dep m' = m_next_dep m"
    and w: "wf_queues m'"
  shows "quiet m'"
proof -
  have view: "map_option job_view (m_job m k) = map_option job_view (m_job m' k)" for k
    using j by (simp add: m')
  have "wf_inst m'" by (rule wf_inst_view [OF view]) (use m' quietD(4) [OF q] in simp_all)
  moreover have "j_installed kb \<and> j_subject_list kb = [] \<and> j_object_list kb = []" if kb: "m_job m' k = Some kb" for k kb
    using view_Some [OF view [symmetric] kb] quietD(7-9) [OF q] by metis
  moreover have "wf_next m'" using quietD(6) [OF q] j(1) by (auto simp: wf_next_def m')
  ultimately show ?thesis using q w m' by (simp add: quiet_def)
qed

lemma quiet_inst_inv:
  assumes q: "quiet m"
  shows "inst_inv m"
proof -
  note Q = quietD [OF q] and W = quietD(4) [OF q, unfolded wf_inst_def]
  have "wf_deps m" "wf_list m" "wf_q m" "all_merged m" "noninst m = {}" "wf_replaced m"
    using q by (auto simp: quiet_def wf_deps_def wf_list_def wf_q_def all_merged_def noninst_def wf_replaced_def omap_get_def)
  moreover have "wf_table m" unfolding wf_table_def using W Q(7) by blast
  moreover have "wf_units m" unfolding wf_units_def using W by blast
  ultimately show ?thesis using Q(5,6) by (simp add: inst_inv_def)
qed

lemma quiet_freed:
  assumes q: "quiet m" and j: "m_job m j = Some jb"
  shows "job_free j m = Some (freed j jb m)" "quiet (freed j jb m)"
proof -
  note Q = quietD [OF q]
  have none: "j \<notin> tjobs m" "j \<notin> set (tlist m (j_unit jb))" using Q(1) by (simp_all add: tjobs_def tlist_def omap_get_def)
  show "job_free j m = Some (freed j jb m)"
    using job_free_installed [OF j Q(7,10) [OF j] Q(8,9) [OF j] none(2)] by (simp add: freed_def j)
  have inv: "inst_inv (freed j jb m)"
    using inst_inv_freed [OF quiet_inst_inv [OF q] j Q(7-9) [OF j] none(1)] .
  have all: "j_installed kb \<and> j_subject_list kb = [] \<and> j_object_list kb = []" if "m_job (freed j jb m) k = Some kb" for k kb
    using that Q(7-9) by (auto split: if_splits)
  have "wf_inst (freed j jb m)"
    unfolding wf_inst_def using inst_invD(8,9) [OF inv, unfolded wf_table_def wf_units_def] all by blast
  then show "quiet (freed j jb m)" using Q(1-3) all inst_invD(4,5) [OF inv] by (simp add: quiet_def)
qed


lemma freed_deps [simp]: "u_dependencies (m_unit (freed j jb m) v) = u_dependencies (m_unit m v)"
  by (simp add: freed_def gc_unit_def unit_add_to_gc_queue_def upd_unit_def Let_def)

lemma quiet_counter: "quiet (m\<lparr>m_n_failed_jobs := x\<rparr>) \<longleftrightarrow> quiet m"
  by (simp add: quiet_def wf_inst_def wf_queues_def wf_next_def)

subsection \<open>Jobs that only go away\<close>

text \<open>What a job keeps while it is in the manager.\<close>

definition job_key :: "job \<Rightarrow> uid \<times> job_type \<times> bool \<times> 32 word \<times> job_state" where
  "job_key jb = (j_unit jb, j_type jb, j_override jb, j_id jb, j_state jb)"

definition fewer :: "manager \<Rightarrow> manager \<Rightarrow> bool" where
  "fewer m m' \<longleftrightarrow>
     (\<forall>u. u_dependencies (m_unit m' u) = u_dependencies (m_unit m u)) \<and>
     (\<forall>k kb'. m_job m' k = Some kb' \<longrightarrow> (\<exists>kb. m_job m k = Some kb \<and> job_key kb' = job_key kb))"

definition gone :: "manager \<Rightarrow> manager \<Rightarrow> jref \<Rightarrow> bool" where
  "gone m m' x \<longleftrightarrow> m_job m x \<noteq> None \<and> m_job m' x = None"

lemma gone_refl [simp]: "\<not> gone m m x"
  by (cases "m_job m x") (simp_all add: gone_def)

lemma fewer_refl [simp]: "fewer m m"
  by (simp add: fewer_def)

lemma fewer_trans: "fewer a b \<Longrightarrow> fewer b c \<Longrightarrow> fewer a c"
  unfolding fewer_def by metis

lemma fewer_deps: "fewer m m' \<Longrightarrow> u_dependencies (m_unit m' u) = u_dependencies (m_unit m u)"
  by (simp add: fewer_def)

lemma fewerD: "fewer m m' \<Longrightarrow> m_job m' k = Some kb' \<Longrightarrow> \<exists>kb. m_job m k = Some kb \<and> job_key kb' = job_key kb"
  by (simp add: fewer_def)

lemma fewer_None: "fewer m m' \<Longrightarrow> m_job m k = None \<Longrightarrow> m_job m' k = None"
  by (cases "m_job m' k") (auto dest: fewerD)

lemma fewer_dom: "fewer m m' \<Longrightarrow> dom (m_job m') \<subseteq> dom (m_job m)"
  using fewerD by fastforce

lemma quiet_finite: "quiet m \<Longrightarrow> finite (dom (m_job m))"
proof -
  assume "quiet m"
  then have "dom (m_job m) \<subseteq> {..< m_next_job m}" using quietD(6) by (auto simp: wf_next_def not_le [symmetric])
  then show ?thesis by (rule finite_subset) simp
qed

lemma fewer_card: "fewer m m' \<Longrightarrow> quiet m \<Longrightarrow> card (dom (m_job m')) \<le> card (dom (m_job m))"
  using card_mono [OF quiet_finite fewer_dom] .

subsection \<open>The jobs a failed job takes along\<close>

definition fails :: "manager \<Rightarrow> (jref \<times> jref) set" where
  "fails m = {(x, y). \<exists>xb yb. m_job m x = Some xb \<and> m_job m y = Some yb \<and> start_like (j_type yb) \<and>
     (start_like (j_type xb) \<and>
        (j_unit yb \<in> set (u_deps m (j_unit xb) UNIT_REQUIRED_BY) \<or>
         j_unit yb \<in> set (u_deps m (j_unit xb) UNIT_BOUND_BY) \<or>
         j_unit yb \<in> set (u_deps m (j_unit xb) UNIT_REQUIRED_BY_OVERRIDABLE) \<and> \<not> j_override yb) \<or>
      j_type xb = JOB_STOP \<and> j_unit yb \<in> set (u_deps m (j_unit xb) UNIT_CONFLICTED_BY))}"

lemma key_eq: "job_key a = job_key b \<longleftrightarrow> j_unit a = j_unit b \<and> j_type a = j_type b \<and> j_override a = j_override b \<and>
    j_id a = j_id b \<and> j_state a = j_state b"
  by (auto simp: job_key_def)

lemma fails_fewer:
  assumes f: "fewer m m'"
  shows "(x, y) \<in> fails m' \<longleftrightarrow> (x, y) \<in> fails m \<and> m_job m' x \<noteq> None \<and> m_job m' y \<noteq> None"
proof (cases "m_job m' x = None \<or> m_job m' y = None")
  case False
  then obtain xb' yb' where b: "m_job m' x = Some xb'" "m_job m' y = Some yb'" by auto
  obtain xb yb where "m_job m x = Some xb" "m_job m y = Some yb" "job_key xb' = job_key xb" "job_key yb' = job_key yb"
    using fewerD [OF f b(1)] fewerD [OF f b(2)] by blast
  then show ?thesis using b fewer_deps [OF f] by (simp add: fails_def key_eq)
qed (auto simp: fails_def)

definition purge :: "manager \<Rightarrow> manager \<Rightarrow> bool" where
  "purge m m' \<longleftrightarrow> fewer m m' \<and> (\<forall>x y. (x, y) \<in> fails m \<and> gone m m' x \<longrightarrow> m_job m' y = None)"

lemma purge_refl [simp]: "purge m m"
  by (simp add: purge_def)

lemma purge_trans:
  assumes ab: "purge a b" and bc: "purge b c"
  shows "purge a c"
proof -
  have f: "fewer a b" "fewer b c" using assms by (simp_all add: purge_def)
  have "m_job c y = None" if e: "(x, y) \<in> fails a" "gone a c x" for x y
  proof (cases "m_job b x = None \<or> m_job b y = None")
    case True
    then have "m_job b y = None" using ab e unfolding purge_def gone_def by blast
    then show ?thesis using fewer_None [OF f(2)] by blast
  next
    case False
    then have "(x, y) \<in> fails b" "gone b c x" using e fails_fewer [OF f(1)] by (auto simp: gone_def)
    then show ?thesis using bc unfolding purge_def by blast
  qed
  then show ?thesis using fewer_trans [OF f] unfolding purge_def by blast
qed

lemma gone_trans: "fewer a b \<Longrightarrow> fewer b c \<Longrightarrow> gone a c x \<Longrightarrow> gone a b x \<or> gone b c x"
  by (auto simp: gone_def)

lemma fails_rtrancl: "fewer a b \<Longrightarrow> (x, y) \<in> (fails b)\<^sup>* \<Longrightarrow> (x, y) \<in> (fails a)\<^sup>*"
  using rtrancl_mono [of "fails b" "fails a"] fails_fewer by fast

text \<open>
  The failure of \<open>y\<close> pulls in no new jobs: neither the unit of \<open>y\<close> nor that of a job that fails
  with it has \<open>OnFailure=\<close> dependencies.
\<close>

definition on_failure_free :: "manager \<Rightarrow> jref \<Rightarrow> bool" where
  "on_failure_free m x \<longleftrightarrow> (\<forall>xb. m_job m x = Some xb \<longrightarrow> u_deps m (j_unit xb) UNIT_ON_FAILURE = [])"

definition calm :: "manager \<Rightarrow> jref \<Rightarrow> bool" where
  "calm m y \<longleftrightarrow> (\<forall>x. (y, x) \<in> (fails m)\<^sup>* \<longrightarrow> on_failure_free m x)"

lemma on_failure_free_fewer: "fewer m m' \<Longrightarrow> on_failure_free m x \<Longrightarrow> on_failure_free m' x"
  unfolding on_failure_free_def using fewerD [of m m' x] fewer_deps [of m m'] by (fastforce simp: key_eq)

lemma calm_fewer: "fewer m m' \<Longrightarrow> calm m y \<Longrightarrow> calm m' y"
  unfolding calm_def using fails_rtrancl [of m m' y] on_failure_free_fewer [of m m'] by blast

subsection \<open>Queueing\<close>

lemma add_to_run_queue_ok:
  assumes q: "quiet m" and j: "m_job m j = Some jb"
  shows "\<exists>m'. job_add_to_run_queue j m = Some m' \<and> quiet m' \<and> purge m m' \<and> (\<forall>x. \<not> gone m m' x)"
proof (cases "j_in_run_queue jb")
  case True
  then show ?thesis using assms quietD(7) [OF q j] by (simp add: job_add_to_run_queue_def)
next
  case False
  let ?m = "m\<lparr>m_run_queue := j # m_run_queue m, m_job := (m_job m)(j \<mapsto> jb\<lparr>j_in_run_queue := True\<rparr>)\<rparr>"
  have "wf_queues ?m" using quietD(5) [OF q] j False by (auto simp: wf_queues_def)
  then have "quiet ?m"
    by (intro quiet_upd [OF q j, of "jb\<lparr>j_in_run_queue := True\<rparr>"]) (simp_all add: job_view_def)
  moreover have "fewer m ?m" using j by (auto simp: fewer_def job_key_def)
  moreover have "\<not> gone m ?m x" for x by (cases "m_job m x") (simp_all add: gone_def)
  moreover have "job_add_to_run_queue j m = Some ?m"
    using False j quietD(7) [OF q j] by (simp add: job_add_to_run_queue_def upd_job_def)
  ultimately show ?thesis by (auto simp: purge_def)
qed

lemma queue_jobs_ok:
  "quiet m \<Longrightarrow> \<exists>m'. queue_jobs_of us m = Some m' \<and> quiet m' \<and> purge m m' \<and> (\<forall>x. \<not> gone m m' x)"
proof (induction us arbitrary: m)
  case Nil
  then show ?case by simp
next
  case (Cons other us)
  obtain m1 where m1: "(case u_job (m_unit m other) of None \<Rightarrow> Some m | Some k \<Rightarrow> job_add_to_run_queue k m) = Some m1"
      "quiet m1" "purge m m1" "\<forall>x. \<not> gone m m1 x"
  proof (cases "u_job (m_unit m other)")
    case None
    then show ?thesis using that Cons.prems by simp
  next
    case (Some k)
    then obtain kb where "m_job m k = Some kb" using quietD(11) [OF Cons.prems] by blast
    then show ?thesis using add_to_run_queue_ok [OF Cons.prems] that Some by auto
  qed
  obtain m2 where m2: "queue_jobs_of us m1 = Some m2" "quiet m2" "purge m1 m2" "\<forall>x. \<not> gone m1 m2 x"
    using Cons.IH [OF m1(2)] by blast
  have "\<not> gone m m2 x" for x using m1(3,4) m2(3,4) gone_trans unfolding purge_def by blast
  then show ?case using m1 m2 purge_trans by auto
qed

subsection \<open>Failing the dependent jobs\<close>

definition finishes :: "nat \<Rightarrow> (jref \<Rightarrow> job_result \<Rightarrow> manager \<Rightarrow> manager option) \<Rightarrow> bool" where
  "finishes n fin \<longleftrightarrow>
     (\<forall>m j jb. quiet m \<and> calm m j \<and> card (dom (m_job m)) \<le> n \<and> m_job m j = Some jb \<longrightarrow>
        (\<exists>m'. fin j JOB_DEPENDENCY m = Some m' \<and> quiet m' \<and> purge m m' \<and> m_job m' j = None \<and>
          (\<forall>x. gone m m' x \<longrightarrow> (j, x) \<in> (fails m)\<^sup>*)))"

definition hit :: "manager \<Rightarrow> bool \<Rightarrow> uid list \<Rightarrow> jref \<Rightarrow> bool" where
  "hit m ov us y \<longleftrightarrow> (\<exists>yb. m_job m y = Some yb \<and> j_unit yb \<in> set us \<and> start_like (j_type yb) \<and> \<not> (ov \<and> j_override yb))"

lemma hit_fewer: "fewer m m' \<Longrightarrow> hit m' ov us y \<Longrightarrow> hit m ov us y"
proof -
  assume f: "fewer m m'" and "hit m' ov us y"
  then obtain yb where y: "m_job m' y = Some yb" "j_unit yb \<in> set us" "start_like (j_type yb)" "\<not> (ov \<and> j_override yb)"
    by (auto simp: hit_def)
  obtain xb where "m_job m y = Some xb" "job_key yb = job_key xb" using fewerD [OF f y(1)] by blast
  then show ?thesis using y by (simp add: hit_def key_eq)
qed

lemma hit_Cons: "hit m ov (other # us) y \<longleftrightarrow> hit m ov [other] y \<or> hit m ov us y"
  by (auto simp: hit_def)

lemma finish_one_ok:
  assumes fin: "finishes n fin" and q: "quiet m" "\<And>y. hit m ov [other] y \<Longrightarrow> calm m y" "card (dom (m_job m)) \<le> n"
  shows "\<exists>m'. (case u_job (m_unit m other) of
                None \<Rightarrow> Some m
              | Some k \<Rightarrow> do {
                  kb \<leftarrow> m_job m k;
                  if (ov \<and> j_override kb) \<or> \<not> start_like (j_type kb) then Some m
                  else fin k JOB_DEPENDENCY m }) = Some m' \<and> quiet m' \<and> purge m m' \<and>
     (\<forall>y. \<not> hit m' ov [other] y) \<and> (\<forall>x. gone m m' x \<longrightarrow> (\<exists>y. hit m ov [other] y \<and> (y, x) \<in> (fails m)\<^sup>*))"
proof (cases "\<exists>k. hit m ov [other] k")
  case True
  then obtain k kb where k: "m_job m k = Some kb" "j_unit kb = other" "start_like (j_type kb)" "\<not> (ov \<and> j_override kb)"
    "hit m ov [other] k" by (auto simp: hit_def)
  then have uj: "u_job (m_unit m other) = Some k" using quietD(10) [OF q(1)] by blast
  obtain m' where m': "fin k JOB_DEPENDENCY m = Some m'" "quiet m'" "purge m m'" "m_job m' k = None"
      "\<forall>x. gone m m' x \<longrightarrow> (k, x) \<in> (fails m)\<^sup>*"
    using fin q(1,3) q(2) [OF k(5)] k(1) unfolding finishes_def by blast
  have "\<not> hit m' ov [other] y" for y
  proof
    assume y: "hit m' ov [other] y"
    then have "hit m ov [other] y" using hit_fewer m'(3) unfolding purge_def by blast
    then have "y = k" using quietD(10) [OF q(1)] uj by (fastforce simp: hit_def)
    then show False using y m'(4) by (simp add: hit_def)
  qed
  then show ?thesis using uj k m' by auto
next
  case False
  then have none: "(case u_job (m_unit m other) of
                None \<Rightarrow> Some m
              | Some k \<Rightarrow> do {
                  kb \<leftarrow> m_job m k;
                  if (ov \<and> j_override kb) \<or> \<not> start_like (j_type kb) then Some m
                  else fin k JOB_DEPENDENCY m }) = Some m"
    using quietD(11) [OF q(1), of other] by (fastforce simp: hit_def split: option.splits)
  show ?thesis using none q(1) False by auto
qed

lemma finish_dependents_ok:
  assumes fin: "finishes n fin" and q: "quiet m" "\<And>y. hit m ov us y \<Longrightarrow> calm m y" "card (dom (m_job m)) \<le> n"
  shows "\<exists>m'. finish_dependents fin ov us m = Some m' \<and> quiet m' \<and> purge m m' \<and>
     (\<forall>y. \<not> hit m' ov us y) \<and> (\<forall>x. gone m m' x \<longrightarrow> (\<exists>y. hit m ov us y \<and> (y, x) \<in> (fails m)\<^sup>*))"
  using q
proof (induction us arbitrary: m)
  case Nil
  then show ?case by (simp add: hit_def)
next
  case (Cons other us)
  obtain m1 where m1: "(case u_job (m_unit m other) of
                None \<Rightarrow> Some m
              | Some k \<Rightarrow> do {
                  kb \<leftarrow> m_job m k;
                  if (ov \<and> j_override kb) \<or> \<not> start_like (j_type kb) then Some m
                  else fin k JOB_DEPENDENCY m }) = Some m1" "quiet m1" "purge m m1"
     "\<forall>y. \<not> hit m1 ov [other] y" "\<forall>x. gone m m1 x \<longrightarrow> (\<exists>y. hit m ov [other] y \<and> (y, x) \<in> (fails m)\<^sup>*)"
    using finish_one_ok [OF fin Cons.prems(1) Cons.prems(2) [OF hit_Cons [THEN iffD2, OF disjI1]] Cons.prems(3)] by blast
  have f1: "fewer m m1" using m1(3) by (simp add: purge_def)
  have calm1: "calm m1 y" if "hit m1 ov us y" for y
    using calm_fewer [OF f1 Cons.prems(2)] hit_fewer [OF f1 that] hit_Cons by blast
  obtain m2 where m2: "finish_dependents fin ov us m1 = Some m2" "quiet m2" "purge m1 m2" "\<forall>y. \<not> hit m2 ov us y"
      "\<forall>x. gone m1 m2 x \<longrightarrow> (\<exists>y. hit m1 ov us y \<and> (y, x) \<in> (fails m1)\<^sup>*)"
    using Cons.IH [OF m1(2) calm1] fewer_card [OF f1 Cons.prems(1)] Cons.prems(3) by (metis le_trans)
  have f2: "fewer m1 m2" using m2(3) by (simp add: purge_def)
  have "\<not> hit m2 ov (other # us) y" for y
    using m1(4) m2(4) hit_fewer [OF f2] hit_Cons by blast
  moreover have "\<exists>y. hit m ov (other # us) y \<and> (y, x) \<in> (fails m)\<^sup>*" if "gone m m2 x" for x
    using gone_trans [OF f1 f2 that] m1(5) m2(5) hit_fewer [OF f1] fails_rtrancl [OF f1] hit_Cons by metis
  ultimately show ?case using m1(1) m2(1,2) purge_trans [OF m1(3) m2(3)] by auto
qed

lemma fail_dependents_ok:
  assumes fin: "finishes n fin" and q: "quiet m" "card (dom (m_job m)) \<le> n"
    and calm: "\<And>y. start_like t \<and> (hit m False (u_deps m u UNIT_REQUIRED_BY) y \<or> hit m False (u_deps m u UNIT_BOUND_BY) y \<or>
              hit m True (u_deps m u UNIT_REQUIRED_BY_OVERRIDABLE) y) \<or>
            t = JOB_STOP \<and> hit m False (u_deps m u UNIT_CONFLICTED_BY) y \<Longrightarrow> calm m y"
  shows "\<exists>m'. fail_dependents fin u t m = Some m' \<and> quiet m' \<and> purge m m' \<and>
     (start_like t \<longrightarrow> (\<forall>y. \<not> hit m' False (u_deps m u UNIT_REQUIRED_BY) y \<and> \<not> hit m' False (u_deps m u UNIT_BOUND_BY) y \<and>
        \<not> hit m' True (u_deps m u UNIT_REQUIRED_BY_OVERRIDABLE) y)) \<and>
     (t = JOB_STOP \<longrightarrow> (\<forall>y. \<not> hit m' False (u_deps m u UNIT_CONFLICTED_BY) y)) \<and>
     (\<forall>x. gone m m' x \<longrightarrow>
        (\<exists>y. (y, x) \<in> (fails m)\<^sup>* \<and>
           (start_like t \<and> (hit m False (u_deps m u UNIT_REQUIRED_BY) y \<or> hit m False (u_deps m u UNIT_BOUND_BY) y \<or>
              hit m True (u_deps m u UNIT_REQUIRED_BY_OVERRIDABLE) y) \<or>
            t = JOB_STOP \<and> hit m False (u_deps m u UNIT_CONFLICTED_BY) y)))"
proof (cases "start_like t")
  case True
  obtain m1 where m1: "finish_dependents fin False (u_deps m u UNIT_REQUIRED_BY) m = Some m1" "quiet m1" "purge m m1"
      "\<forall>y. \<not> hit m1 False (u_deps m u UNIT_REQUIRED_BY) y"
      "\<forall>x. gone m m1 x \<longrightarrow> (\<exists>y. hit m False (u_deps m u UNIT_REQUIRED_BY) y \<and> (y, x) \<in> (fails m)\<^sup>*)"
    using finish_dependents_ok [OF fin q(1) calm q(2)] True by blast
  have f1: "fewer m m1" using m1(3) by (simp add: purge_def)
  note d1 = fewer_deps [OF f1, of u]
  have c1: "card (dom (m_job m1)) \<le> n" using fewer_card [OF f1 q(1)] q(2) by simp
  obtain m2 where m2: "finish_dependents fin False (u_deps m u UNIT_BOUND_BY) m1 = Some m2" "quiet m2" "purge m1 m2"
      "\<forall>y. \<not> hit m2 False (u_deps m u UNIT_BOUND_BY) y"
      "\<forall>x. gone m1 m2 x \<longrightarrow> (\<exists>y. hit m1 False (u_deps m u UNIT_BOUND_BY) y \<and> (y, x) \<in> (fails m1)\<^sup>*)"
    using finish_dependents_ok [OF fin m1(2) calm_fewer [OF f1 calm] c1] True hit_fewer [OF f1] by blast
  have f2: "fewer m1 m2" "fewer m m2" using m2(3) fewer_trans [OF f1] by (simp_all add: purge_def)
  note d2 = fewer_deps [OF f2(2), of u]
  have c2: "card (dom (m_job m2)) \<le> n" using fewer_card [OF f2(2) q(1)] q(2) by simp
  obtain m3 where m3: "finish_dependents fin True (u_deps m u UNIT_REQUIRED_BY_OVERRIDABLE) m2 = Some m3" "quiet m3" "purge m2 m3"
      "\<forall>y. \<not> hit m3 True (u_deps m u UNIT_REQUIRED_BY_OVERRIDABLE) y"
      "\<forall>x. gone m2 m3 x \<longrightarrow> (\<exists>y. hit m2 True (u_deps m u UNIT_REQUIRED_BY_OVERRIDABLE) y \<and> (y, x) \<in> (fails m2)\<^sup>*)"
    using finish_dependents_ok [OF fin m2(2) calm_fewer [OF f2(2) calm] c2] True hit_fewer [OF f2(2)] by blast
  have f3: "fewer m2 m3" "fewer m1 m3" using m3(3) fewer_trans [OF f2(1)] by (simp_all add: purge_def)
  have "fail_dependents fin u t m = Some m3" using True m1(1) m2(1) m3(1) d1 d2 by (simp add: fail_dependents_def)
  moreover have "purge m m3" using purge_trans [OF purge_trans [OF m1(3) m2(3)] m3(3)] .
  moreover have "\<not> hit m3 False (u_deps m u UNIT_REQUIRED_BY) y \<and> \<not> hit m3 False (u_deps m u UNIT_BOUND_BY) y \<and>
        \<not> hit m3 True (u_deps m u UNIT_REQUIRED_BY_OVERRIDABLE) y" for y
    using m1(4) m2(4) m3(4) hit_fewer [OF f3(1)] hit_fewer [OF f3(2)] by blast
  moreover have "\<exists>y. (y, x) \<in> (fails m)\<^sup>* \<and> (hit m False (u_deps m u UNIT_REQUIRED_BY) y \<or>
      hit m False (u_deps m u UNIT_BOUND_BY) y \<or> hit m True (u_deps m u UNIT_REQUIRED_BY_OVERRIDABLE) y)" if "gone m m3 x" for x
    using gone_trans [OF f1 f3(2) that] gone_trans [OF f2(1) f3(1)] m1(5) m2(5) m3(5)
      hit_fewer [OF f1] hit_fewer [OF f2(2)] fails_rtrancl [OF f1] fails_rtrancl [OF f2(2)] by meson
  moreover have "t \<noteq> JOB_STOP" using True by (auto simp: start_like_def)
  ultimately show ?thesis using m3(2) True by auto
next
  case False
  show ?thesis
  proof (cases "t = JOB_STOP")
    case True
    then show ?thesis
      using finish_dependents_ok [OF fin q(1) calm q(2), of False "u_deps m u UNIT_CONFLICTED_BY"] False
      by (auto simp: fail_dependents_def) metis
  next
    case stop: False
    then show ?thesis using False q by (simp add: fail_dependents_def)
  qed
qed

subsection \<open>Finishing a job\<close>

lemma add_to_dbus_queue_ok:
  assumes q: "quiet m" and j: "m_job m j = Some jb"
  shows "\<exists>m' jb'. job_add_to_dbus_queue j m = Some m' \<and> quiet m' \<and> m_job m' = (m_job m)(j \<mapsto> jb') \<and>
     job_key jb' = job_key jb \<and> m_unit m' = m_unit m"
proof (cases "j_in_dbus_queue jb")
  case True
  moreover have "(m_job m)(j \<mapsto> jb) = m_job m" using j by (simp add: fun_upd_idem)
  ultimately show ?thesis using assms quietD(7) [OF q j]
    by (intro exI [of _ m] exI [of _ jb]) (simp add: job_add_to_dbus_queue_def)
next
  case False
  let ?jb = "jb\<lparr>j_in_dbus_queue := True\<rparr>"
  let ?m = "m\<lparr>m_dbus_job_queue := j # m_dbus_job_queue m, m_job := (m_job m)(j \<mapsto> ?jb)\<rparr>"
  have "wf_queues ?m" using quietD(5) [OF q] j False by (auto simp: wf_queues_def)
  then have "quiet ?m" by (intro quiet_upd [OF q j, of ?jb]) (simp_all add: job_view_def)
  moreover have "job_add_to_dbus_queue j m = Some ?m"
    using False j quietD(7) [OF q j] by (simp add: job_add_to_dbus_queue_def upd_job_def)
  ultimately show ?thesis by (intro exI [of _ ?m] exI [of _ ?jb]) (simp add: job_key_def)
qed

text \<open>The part of \<open>job_finish_and_invalidate\<close> up to \<open>job_free\<close>.\<close>

definition release :: "jref \<Rightarrow> job_result \<Rightarrow> manager \<Rightarrow> manager option" where
  "release j result m1 =
     do {
       ma \<leftarrow> upd_job j (\<lambda>jb. jb\<lparr>j_result := result\<rparr>) m1;
       job_free j (if result = JOB_FAILED then ma\<lparr>m_n_failed_jobs := m_n_failed_jobs ma + 1\<rparr> else ma) }"

lemma release_ok:
  assumes q: "quiet m" and j: "m_job m j = Some jb"
  shows "\<exists>m'. release j result m = Some m' \<and> quiet m' \<and> m_job m' = (m_job m)(j := None) \<and>
     (\<forall>u. u_dependencies (m_unit m' u) = u_dependencies (m_unit m u))"
proof -
  let ?jb = "jb\<lparr>j_result := result\<rparr>"
  let ?ma = "m\<lparr>m_job := (m_job m)(j \<mapsto> ?jb)\<rparr>"
  let ?mb = "if result = JOB_FAILED then ?ma\<lparr>m_n_failed_jobs := m_n_failed_jobs ?ma + 1\<rparr> else ?ma"
  have "wf_queues ?ma" using quietD(5) [OF q] j by (auto simp: wf_queues_def)
  then have "quiet ?ma" by (intro quiet_upd [OF q j, of ?jb]) (simp_all add: job_view_def)
  then have "quiet ?mb" by (cases "result = JOB_FAILED") (simp_all add: quiet_counter)
  moreover have "m_job ?mb j = Some ?jb" by simp
  ultimately have "job_free j ?mb = Some (freed j ?jb ?mb)" "quiet (freed j ?jb ?mb)" by (rule quiet_freed)+
  then show ?thesis using j by (intro exI [of _ "freed j ?jb ?mb"]) (simp add: release_def upd_job_def)
qed

lemma finish_step_release:
  "\<not> (result = JOB_DONE \<and> (t = JOB_RESTART \<or> t = JOB_TRY_RESTART)) \<Longrightarrow> job_add_to_dbus_queue j m = Some m1 \<Longrightarrow>
   m_job m1 j = Some jb \<Longrightarrow> j_type jb = t \<Longrightarrow> j_unit jb = u \<Longrightarrow>
   finish_step fin j result m =
     do {
       mb \<leftarrow> release j result m1;
       mc \<leftarrow> (if result \<noteq> JOB_DONE then fail_dependents fin u t mb else Some mb);
       m2 \<leftarrow> (if result = JOB_TIMEOUT \<or> result = JOB_DEPENDENCY then unit_trigger_on_failure fin u mc else Some mc);
       m3 \<leftarrow> queue_jobs_of (u_deps m2 u UNIT_AFTER) m2;
       queue_jobs_of (u_deps m3 u UNIT_BEFORE) m3 }"
  by (auto simp: finish_step_def release_def Let_def)

lemma trigger_none: "u_deps m u UNIT_ON_FAILURE = [] \<Longrightarrow> unit_trigger_on_failure fin u m = Some m"
  by (simp add: unit_trigger_on_failure_def)

text \<open>
  Finishing \<open>j\<close> with this result pulls in no new jobs: a failure with result \<open>timeout\<close> or
  \<open>dependency\<close> runs the \<open>OnFailure=\<close> units of the job's unit, and the jobs that fail along always do
  with result \<open>dependency\<close>.
\<close>

definition pulls_nothing :: "manager \<Rightarrow> jref \<Rightarrow> job_result \<Rightarrow> bool" where
  "pulls_nothing m j result \<longleftrightarrow>
     result = JOB_DONE \<or>
     (\<forall>x. (j, x) \<in> (fails m)\<^sup>+ \<or> x = j \<and> (result = JOB_TIMEOUT \<or> result = JOB_DEPENDENCY) \<longrightarrow> on_failure_free m x)"

lemma calm_pulls_nothing: "calm m j \<Longrightarrow> pulls_nothing m j result"
  unfolding calm_def pulls_nothing_def by (meson rtrancl.rtrancl_refl trancl_into_rtrancl)

lemma pulls_nothing_calm: "pulls_nothing m j result \<Longrightarrow> result \<noteq> JOB_DONE \<Longrightarrow> (j, y) \<in> fails m \<Longrightarrow> calm m y"
  unfolding calm_def pulls_nothing_def by (meson rtrancl_into_trancl2)

lemma queue_both_ok:
  assumes "quiet m"
  shows "\<exists>m'. do { m3 \<leftarrow> queue_jobs_of (u_deps m u UNIT_AFTER) m; queue_jobs_of (u_deps m3 u UNIT_BEFORE) m3 } = Some m' \<and>
     quiet m' \<and> purge m m' \<and> (\<forall>x. \<not> gone m m' x)"
proof -
  obtain m1 where m1: "queue_jobs_of (u_deps m u UNIT_AFTER) m = Some m1" "quiet m1" "purge m m1" "\<forall>x. \<not> gone m m1 x"
    using queue_jobs_ok [OF assms] by blast
  obtain m2 where m2: "queue_jobs_of (u_deps m1 u UNIT_BEFORE) m1 = Some m2" "quiet m2" "purge m1 m2" "\<forall>x. \<not> gone m1 m2 x"
    using queue_jobs_ok [OF m1(2)] by blast
  have "\<not> gone m m2 x" for x using m1(3,4) m2(3,4) gone_trans unfolding purge_def by blast
  then show ?thesis using m1(1) m2(1,2) purge_trans [OF m1(3) m2(3)] by auto
qed

lemma no_gone_None: "\<forall>x. \<not> gone m m' x \<Longrightarrow> fewer m m' \<Longrightarrow> m_job m' x = None \<longleftrightarrow> m_job m x = None"
  using fewer_None by (auto simp: gone_def)

definition finished :: "jref \<Rightarrow> job_result \<Rightarrow> manager \<Rightarrow> manager \<Rightarrow> bool" where
  "finished j result m m' \<longleftrightarrow>
     quiet m' \<and> fewer m m' \<and>
     {x. gone m m' x} = (if result = JOB_DONE then {j} else {x. (j, x) \<in> (fails m)\<^sup>*})"

lemma purge_reach:
  assumes "purge m m'" "gone m m' j" "(j, x) \<in> (fails m)\<^sup>*"
  shows "gone m m' x"
  using assms(3)
proof (induction rule: rtrancl_induct)
  case (step y z)
  then have "m_job m z \<noteq> None" "m_job m' z = None"
    using assms(1) unfolding purge_def by (auto simp: fails_def)
  then show ?case by (simp add: gone_def)
qed (rule assms(2))

lemma finish_step_ok:
  assumes fin: "finishes n fin" and q: "quiet m" "pulls_nothing m j result" "card (dom (m_job m)) \<le> Suc n"
    and j: "m_job m j = Some jb"
    and r: "\<not> (result = JOB_DONE \<and> (j_type jb = JOB_RESTART \<or> j_type jb = JOB_TRY_RESTART))"
  shows "\<exists>m'. finish_step fin j result m = Some m' \<and> finished j result m m'"
proof -
  obtain m1 jb1 where m1: "job_add_to_dbus_queue j m = Some m1" "quiet m1" "m_job m1 = (m_job m)(j \<mapsto> jb1)"
      "job_key jb1 = job_key jb" "m_unit m1 = m_unit m"
    using add_to_dbus_queue_ok [OF q(1) j] by blast
  have j1: "m_job m1 j = Some jb1" "j_unit jb1 = j_unit jb" "j_type jb1 = j_type jb" using m1(3,4) by (simp_all add: key_eq)
  obtain m2 where m2: "release j result m1 = Some m2" "quiet m2" "m_job m2 = (m_job m)(j := None)"
      "\<And>u. u_dependencies (m_unit m2 u) = u_dependencies (m_unit m u)"
    using release_ok [OF m1(2) j1(1)] m1(3,5) by auto
  have f2: "fewer m m2" using m2(3,4) by (simp add: fewer_def)
  have g2: "gone m m2 x \<longleftrightarrow> x = j" for x using j by (auto simp: gone_def m2(3))
  have c2: "card (dom (m_job m2)) \<le> n"
    using q(3) j quiet_finite [OF q(1)] by (simp add: m2(3) card_Diff_singleton_if domI)
  let ?u = "j_unit jb" and ?t = "j_type jb"
  have step: "finish_step fin j result m =
     do {
       mc \<leftarrow> (if result \<noteq> JOB_DONE then fail_dependents fin ?u ?t m2 else Some m2);
       m2' \<leftarrow> (if result = JOB_TIMEOUT \<or> result = JOB_DEPENDENCY then unit_trigger_on_failure fin ?u mc else Some mc);
       m3 \<leftarrow> queue_jobs_of (u_deps m2' ?u UNIT_AFTER) m2';
       queue_jobs_of (u_deps m3 ?u UNIT_BEFORE) m3 }"
    unfolding finish_step_release [OF r m1(1) j1(1,3,2)] m2(1) by simp
  show ?thesis
  proof (cases "result = JOB_DONE")
    case True
    obtain m' where m': "do { m3 \<leftarrow> queue_jobs_of (u_deps m2 ?u UNIT_AFTER) m2; queue_jobs_of (u_deps m3 ?u UNIT_BEFORE) m3 } = Some m'"
        "quiet m'" "purge m2 m'" "\<forall>x. \<not> gone m2 m' x"
      using queue_both_ok [OF m2(2)] by blast
    have f': "fewer m2 m'" "fewer m m'" using m'(3) fewer_trans [OF f2] by (simp_all add: purge_def)
    have "gone m m' x \<longleftrightarrow> x = j" for x
      using g2 [of x] no_gone_None [OF m'(4) f'(1), of x] by (simp add: gone_def)
    then show ?thesis using step True m'(1,2) f'(2) by (auto simp: finished_def)
  next
    case False
    have edge: "(j, y) \<in> fails m \<longleftrightarrow> start_like ?t \<and> (hit m False (u_deps m ?u UNIT_REQUIRED_BY) y \<or>
        hit m False (u_deps m ?u UNIT_BOUND_BY) y \<or> hit m True (u_deps m ?u UNIT_REQUIRED_BY_OVERRIDABLE) y) \<or>
        ?t = JOB_STOP \<and> hit m False (u_deps m ?u UNIT_CONFLICTED_BY) y" for y
      using j by (auto simp: fails_def hit_def)
    have calm2: "calm m2 y" if "start_like ?t \<and> (hit m2 False (u_deps m2 ?u UNIT_REQUIRED_BY) y \<or>
        hit m2 False (u_deps m2 ?u UNIT_BOUND_BY) y \<or> hit m2 True (u_deps m2 ?u UNIT_REQUIRED_BY_OVERRIDABLE) y) \<or>
        ?t = JOB_STOP \<and> hit m2 False (u_deps m2 ?u UNIT_CONFLICTED_BY) y" for y
    proof -
      have "(j, y) \<in> fails m" using that hit_fewer [OF f2] unfolding edge m2(4) by blast
      then show ?thesis using calm_fewer [OF f2 pulls_nothing_calm [OF q(2) False]] by blast
    qed
    obtain m3 where m3: "fail_dependents fin ?u ?t m2 = Some m3" "quiet m3" "purge m2 m3"
      "start_like ?t \<longrightarrow> (\<forall>y. \<not> hit m3 False (u_deps m ?u UNIT_REQUIRED_BY) y \<and> \<not> hit m3 False (u_deps m ?u UNIT_BOUND_BY) y \<and>
        \<not> hit m3 True (u_deps m ?u UNIT_REQUIRED_BY_OVERRIDABLE) y)"
      "?t = JOB_STOP \<longrightarrow> (\<forall>y. \<not> hit m3 False (u_deps m ?u UNIT_CONFLICTED_BY) y)"
      "\<forall>x. gone m2 m3 x \<longrightarrow>
        (\<exists>y. (y, x) \<in> (fails m2)\<^sup>* \<and>
           (start_like ?t \<and> (hit m2 False (u_deps m ?u UNIT_REQUIRED_BY) y \<or> hit m2 False (u_deps m ?u UNIT_BOUND_BY) y \<or>
              hit m2 True (u_deps m ?u UNIT_REQUIRED_BY_OVERRIDABLE) y) \<or>
            ?t = JOB_STOP \<and> hit m2 False (u_deps m ?u UNIT_CONFLICTED_BY) y))"
      using fail_dependents_ok [where u = ?u and t = ?t, OF fin m2(2) c2 calm2] m2(4) by auto
    have f3: "fewer m2 m3" "fewer m m3" using m3(3) fewer_trans [OF f2] by (simp_all add: purge_def)
    have hit3: "hit m False us y \<Longrightarrow> m_job m3 y \<noteq> None \<Longrightarrow> hit m3 False us y"
      "hit m True us y \<Longrightarrow> m_job m3 y \<noteq> None \<Longrightarrow> hit m3 True us y" for us y
      using fewerD [OF f3(2), of y] by (fastforce simp: hit_def key_eq)+
    have "m_job m3 y = None" if e: "(x, y) \<in> fails m" "gone m m3 x" for x y
    proof (cases "x = j")
      case True
      then show ?thesis using e(1) edge [of y] m3(4,5) hit3 by blast
    next
      case xj: False
      then have "gone m2 m3 x" using e(2) by (simp add: gone_def m2(3))
      moreover have "(x, y) \<in> fails m2 \<or> y = j" using e xj fails_fewer [OF f2, of x y] by (auto simp: m2(3) fails_def)
      moreover have "m_job m3 j = None" using fewer_None [OF f3(1)] by (simp add: m2(3))
      ultimately show ?thesis using m3(3) unfolding purge_def by blast
    qed
    then have p3: "purge m m3" using f3(2) unfolding purge_def by blast
    have r3: "(j, x) \<in> (fails m)\<^sup>*" if "gone m m3 x" for x
    proof (cases "x = j")
      case xj: False
      then have "gone m2 m3 x" using that by (simp add: gone_def m2(3))
      then obtain y where y: "(y, x) \<in> (fails m2)\<^sup>*" "(j, y) \<in> fails m"
        using m3(6) edge hit_fewer [OF f2] by meson
      then show ?thesis using fails_rtrancl [OF f2] by (meson converse_rtrancl_into_rtrancl)
    qed simp
    have t3: "(if result = JOB_TIMEOUT \<or> result = JOB_DEPENDENCY then unit_trigger_on_failure fin ?u m3 else Some m3) = Some m3"
      using trigger_none [of m3 ?u fin] q(2) False j fewer_deps [OF f3(2), of ?u]
      by (auto simp: pulls_nothing_def on_failure_free_def)
    obtain m' where m': "do { ma \<leftarrow> queue_jobs_of (u_deps m3 ?u UNIT_AFTER) m3; queue_jobs_of (u_deps ma ?u UNIT_BEFORE) ma } = Some m'"
        "quiet m'" "purge m3 m'" "\<forall>x. \<not> gone m3 m' x"
      using queue_both_ok [OF m3(2)] by blast
    have f': "fewer m3 m'" "fewer m m'" using m'(3) fewer_trans [OF f3(2)] by (simp_all add: purge_def)
    have g': "gone m m' x \<longleftrightarrow> gone m m3 x" for x using no_gone_None [OF m'(4) f'(1), of x] by (simp add: gone_def)
    have "gone m m3 j" using j fewer_None [OF f3(1)] by (simp add: gone_def m2(3))
    then have "gone m m' x \<longleftrightarrow> (j, x) \<in> (fails m)\<^sup>*" for x using g' r3 purge_reach [OF p3] by blast
    then have "finished j result m m'" using False m'(2) f'(2) by (simp add: finished_def)
    moreover have "finish_step fin j result m = Some m'" using step False m3(1) t3 m'(1) by simp
    ultimately show ?thesis by blast
  qed
qed

lemma finished_purge:
  assumes "finished j result m m'" "result \<noteq> JOB_DONE"
  shows "purge m m'"
proof -
  have g: "gone m m' x \<longleftrightarrow> (j, x) \<in> (fails m)\<^sup>*" for x using assms unfolding finished_def by auto
  have "m_job m' y = None" if "(x, y) \<in> fails m" "gone m m' x" for x y
  proof -
    have "(j, y) \<in> (fails m)\<^sup>*" using g [of x] that by (meson rtrancl.rtrancl_into_rtrancl)
    then show ?thesis using g [of y] by (simp add: gone_def)
  qed
  then show ?thesis using assms(1) unfolding purge_def finished_def by blast
qed

lemma job_finish_finishes: "finishes n (job_finish_and_invalidate (Suc n))"
proof (induction n)
  case 0
  show ?case unfolding finishes_def
  proof (intro allI impI, elim conjE)
    fix m j jb assume "quiet m" "card (dom (m_job m)) \<le> 0" "m_job m j = Some jb"
    then show "\<exists>m'. job_finish_and_invalidate (Suc 0) j JOB_DEPENDENCY m = Some m' \<and> quiet m' \<and> purge m m' \<and> m_job m' j = None \<and>
          (\<forall>x. gone m m' x \<longrightarrow> (j, x) \<in> (fails m)\<^sup>*)"
      using quiet_finite [of m] by auto
  qed
next
  case (Suc n)
  show ?case unfolding finishes_def
  proof (intro allI impI, elim conjE)
    fix m j jb assume m: "quiet m" "calm m j" "card (dom (m_job m)) \<le> Suc n" "m_job m j = Some jb"
    obtain m' where m': "finish_step (job_finish_and_invalidate (Suc n)) j JOB_DEPENDENCY m = Some m'" "finished j JOB_DEPENDENCY m m'"
      using finish_step_ok [OF Suc m(1) calm_pulls_nothing [OF m(2)] m(3,4)] by auto
    have g: "gone m m' x \<longleftrightarrow> (j, x) \<in> (fails m)\<^sup>*" for x using m'(2) unfolding finished_def by auto
    have "m_job m' j = None" using g [of j] by (simp add: gone_def)
    moreover have "quiet m'" using m'(2) by (simp add: finished_def)
    moreover have "job_finish_and_invalidate (Suc (Suc n)) j JOB_DEPENDENCY m = Some m'"
      using m'(1) by (subst job_finish_and_invalidate.simps)
    ultimately show "\<exists>m'. job_finish_and_invalidate (Suc (Suc n)) j JOB_DEPENDENCY m = Some m' \<and> quiet m' \<and> purge m m' \<and>
          m_job m' j = None \<and> (\<forall>x. gone m m' x \<longrightarrow> (j, x) \<in> (fails m)\<^sup>*)"
      using g finished_purge [OF m'(2)] by (intro exI [of _ m']) blast
  qed
qed

lemma job_finish_ok:
  assumes q: "quiet m" "pulls_nothing m j result" "card (dom (m_job m)) < n" and j: "m_job m j = Some jb"
    and r: "\<not> (result = JOB_DONE \<and> (j_type jb = JOB_RESTART \<or> j_type jb = JOB_TRY_RESTART))"
  shows "\<exists>m'. job_finish_and_invalidate n j result m = Some m' \<and> finished j result m m'"
proof -
  have "0 < card (dom (m_job m))" using j quiet_finite [OF q(1)] by (auto simp: card_gt_0_iff)
  then obtain k where n: "n = Suc (Suc k)" using q(3) by (cases n; cases "n - 1") auto
  have "card (dom (m_job m)) \<le> Suc k" using q(3) n by simp
  then show ?thesis
    unfolding n job_finish_and_invalidate.simps(2) [of "Suc k"] by (rule finish_step_ok [OF job_finish_finishes q(1,2) _ j r])
qed

subsection \<open>Clearing the manager\<close>

lemma quiet_no_jobs:
  assumes q: "quiet m" and none: "m_jobs m = []"
  shows "dom (m_job m) = {}" "u_job (m_unit m u) = None" "m_run_queue m = []"
proof -
  have j: "m_job m j = None" for j
  proof (cases "m_job m j")
    case (Some jb)
    then have "omap_get (m_jobs m) (j_id jb) = Some j"
      using quietD(4,7) [OF q] unfolding wf_inst_def by blast
    then show ?thesis by (simp add: none omap_get_def)
  qed
  then show "dom (m_job m) = {}" by auto
  show "u_job (m_unit m u) = None" using quietD(11) [OF q, of u] j by (cases "u_job (m_unit m u)") auto
  show "m_run_queue m = []"
    using quietD(5) [OF q] j unfolding wf_queues_def by (cases "m_run_queue m") fastforce+
qed

text \<open>No job that the failure of another one takes along has \<open>OnFailure=\<close> dependencies.\<close>

definition cancel_pulls_nothing :: "manager \<Rightarrow> bool" where
  "cancel_pulls_nothing m \<longleftrightarrow> (\<forall>x y. (x, y) \<in> fails m \<longrightarrow> on_failure_free m y)"

lemma cancel_pulls_nothing_fewer: "fewer m m' \<Longrightarrow> cancel_pulls_nothing m \<Longrightarrow> cancel_pulls_nothing m'"
  unfolding cancel_pulls_nothing_def using fails_fewer [of m m'] on_failure_free_fewer [of m m'] by blast

lemma cancel_pulls_nothing_job: "cancel_pulls_nothing m \<Longrightarrow> pulls_nothing m j JOB_CANCELED"
  unfolding cancel_pulls_nothing_def pulls_nothing_def by (auto elim: tranclE)

lemma clear_installed_ok:
  "quiet m \<Longrightarrow> cancel_pulls_nothing m \<Longrightarrow> card (dom (m_job m)) < n \<Longrightarrow>
   \<exists>m'. clear_installed n m = Some m' \<and> quiet m' \<and> m_jobs m' = []"
proof (induction "card (dom (m_job m))" arbitrary: m rule: less_induct)
  case less
  note q = less.prems
  show ?case
  proof (cases "m_jobs m")
    case Nil
    then show ?thesis using q(1) by (simp add: clear_installed.simps)
  next
    case (Cons e es)
    then obtain i j where ej: "m_jobs m = (i, j) # es" by (cases e) simp
    have "omap_get (m_jobs m) i = Some j" by (simp add: ej omap_get_def)
    then obtain jb where j: "m_job m j = Some jb" using quietD(4) [OF q(1)] unfolding wf_inst_def by blast
    obtain m1 where m1: "job_finish_and_invalidate n j JOB_CANCELED m = Some m1" "finished j JOB_CANCELED m m1"
      using job_finish_ok [OF q(1) cancel_pulls_nothing_job [OF q(2)] q(3) j] by auto
    have f: "fewer m m1" "quiet m1" using m1(2) by (simp_all add: finished_def)
    have "{x. gone m m1 x} = {x. (j, x) \<in> (fails m)\<^sup>*}" using m1(2) unfolding finished_def by (simp only: job_result.distinct if_False)
    then have "gone m m1 j" by blast
    then have "m_job m1 j = None" by (simp add: gone_def)
    then have "dom (m_job m1) \<subset> dom (m_job m)" using fewer_dom [OF f(1)] j by auto
    then have lt: "card (dom (m_job m1)) < card (dom (m_job m))" using psubset_card_mono quiet_finite [OF q(1)] by blast
    then obtain m' where "clear_installed n m1 = Some m'" "quiet m'" "m_jobs m' = []"
      using less.hyps [OF lt f(2) cancel_pulls_nothing_fewer [OF f(1) q(2)]] q(3) by auto
    then show ?thesis using m1(1) by (subst clear_installed.simps) (simp add: ej)
  qed
qed

end
