(* ===== verification/Job_Properties.thy ===== *)
theory Job_Properties
  imports Sample_Manager Job_Finish
begin

section \<open>Properties of the job engine\<close>

text \<open>
  The main theorems on running and finishing jobs, with their instances on sample managers: the
  order in which jobs may run, progress, the jobs a finished job takes along, and the cycle that
  the ordering check misses.
\<close>

subsection \<open>Which job may run\<close>

definition stop_like :: "job_type \<Rightarrow> bool" where
  "stop_like t \<longleftrightarrow> t = JOB_STOP \<or> t = JOB_RESTART \<or> t = JOB_TRY_RESTART"

text \<open>The test for jobs of the units ordered after this one never follows a dangling pointer.\<close>

lemma stops_of_others:
  assumes q: "quiet m"
  shows "any_opt (\<lambda>other. unit_job_test m other (\<lambda>ob. j_type ob = JOB_STOP \<or> j_type ob = JOB_RESTART \<or> j_type ob = JOB_TRY_RESTART)) us =
     Some (\<exists>v \<in> set us. \<exists>k kb. u_job (m_unit m v) = Some k \<and> m_job m k = Some kb \<and> stop_like (j_type kb))"
proof (induction us)
  case (Cons v us)
  show ?case
  proof (cases "u_job (m_unit m v)")
    case (Some k)
    then obtain kb where "m_job m k = Some kb" using quietD(11) [OF q] by blast
    then show ?thesis using Cons Some by (auto simp: unit_job_test_def stop_like_def)
  qed (use Cons in \<open>auto simp: unit_job_test_def\<close>)
qed simp

lemma job_is_runnable_eq:
  assumes q: "quiet m" and j: "m_job m j = Some jb"
  shows "job_is_runnable m j = Some (j_ignore_order jb \<or>
     (stop_like (j_type jb) \<or> (\<forall>v \<in> set (u_deps m (j_unit jb) UNIT_AFTER). u_job (m_unit m v) = None)) \<and>
     (\<forall>v \<in> set (u_deps m (j_unit jb) UNIT_BEFORE). \<forall>k kb.
        u_job (m_unit m v) = Some k \<and> m_job m k = Some kb \<longrightarrow> \<not> stop_like (j_type kb)))"
proof -
  have "j_type jb = JOB_START \<or> j_type jb = JOB_VERIFY_ACTIVE \<or> j_type jb = JOB_RELOAD \<or> j_type jb = JOB_RELOAD_OR_START \<longleftrightarrow>
     \<not> stop_like (j_type jb)"
    by (cases "j_type jb") (simp_all add: stop_like_def)
  then show ?thesis
    using j quietD(7) [OF q j] unfolding job_is_runnable_def stops_of_others [OF q] by auto
qed

definition both_wait :: "manager \<Rightarrow> (uid \<times> uid) set" where
  "both_wait m = {(u, v). v \<in> set (u_deps m u UNIT_BEFORE) \<and> u_job (m_unit m u) \<noteq> None \<and> u_job (m_unit m v) \<noteq> None}"

lemma quiet_units:
  assumes q: "quiet m"
  shows "finite {u. u_job (m_unit m u) \<noteq> None}"
proof -
  have "{u. u_job (m_unit m u) \<noteq> None} \<subseteq> (\<lambda>j. j_unit (the (m_job m j))) ` dom (m_job m)"
  proof
    fix u assume "u \<in> {u. u_job (m_unit m u) \<noteq> None}"
    then obtain j where "u_job (m_unit m u) = Some j" by auto
    then obtain jb where "m_job m j = Some jb" "j_unit jb = u" using quietD(11) [OF q] by blast
    then show "u \<in> (\<lambda>j. j_unit (the (m_job m j))) ` dom (m_job m)" by force
  qed
  then show ?thesis using quiet_finite [OF q] finite_surj by blast
qed

lemma finite_both_wait:
  assumes "quiet m"
  shows "finite (both_wait m)"
proof -
  have "both_wait m \<subseteq> {u. u_job (m_unit m u) \<noteq> None} \<times> {u. u_job (m_unit m u) \<noteq> None}" by (auto simp: both_wait_def)
  then show ?thesis using quiet_units [OF assms] by (meson finite_SigmaI finite_subset)
qed

lemma some_runnable:
  assumes q: "quiet m" and ne: "m_jobs m \<noteq> []"
    and inv: "\<forall>u v. v \<in> set (u_deps m u UNIT_AFTER) \<longrightarrow> u \<in> set (u_deps m v UNIT_BEFORE)"
    and ac: "acyclic (both_wait m)"
  shows "\<exists>j jb. m_job m j = Some jb \<and> job_is_runnable m j = Some True"
proof (cases "\<exists>j jb. m_job m j = Some jb \<and> stop_like (j_type jb)")
  case True
  let ?S = "{u. \<exists>j jb. m_job m j = Some jb \<and> j_unit jb = u \<and> stop_like (j_type jb)}"
  obtain u where "u \<in> ?S" using True by blast
  moreover have "wf ((both_wait m)\<inverse>)" using finite_acyclic_wf_converse [OF finite_both_wait [OF q] ac] .
  ultimately obtain v where v: "v \<in> ?S" "\<And>w. (w, v) \<in> (both_wait m)\<inverse> \<Longrightarrow> w \<notin> ?S" using wfE_min [of "(both_wait m)\<inverse>" u ?S] by blast
  then obtain j jb where j: "m_job m j = Some jb" "j_unit jb = v" "stop_like (j_type jb)" by blast
  have "\<not> stop_like (j_type kb)" if w: "w \<in> set (u_deps m v UNIT_BEFORE)" "u_job (m_unit m w) = Some k" "m_job m k = Some kb" for w k kb
  proof -
    have "(v, w) \<in> both_wait m" using w quietD(10) [OF q j(1)] j(2) by (simp add: both_wait_def)
    moreover have "j_unit kb = w" using quietD(11) [OF q w(2)] w(3) by auto
    ultimately show ?thesis using v(2) [of w] w(3) by blast
  qed
  then have "job_is_runnable m j = Some True" unfolding job_is_runnable_eq [OF q j(1)] using j(2,3) by auto
  then show ?thesis using j(1) by blast
next
  case False
  let ?S = "{u. u_job (m_unit m u) \<noteq> None}"
  obtain i k where "(i, k) \<in> set (m_jobs m)" using ne by (cases "m_jobs m") auto
  then have "omap_get (m_jobs m) i = Some k" using quietD(4) [OF q] by (simp add: wf_inst_def omap_get_def)
  then obtain kb where "m_job m k = Some kb" using quietD(4) [OF q] unfolding wf_inst_def by blast
  then have "j_unit kb \<in> ?S" using quietD(10) [OF q] by simp
  moreover have "wf (both_wait m)" using finite_acyclic_wf [OF finite_both_wait [OF q] ac] .
  ultimately obtain v where v: "v \<in> ?S" "\<And>w. (w, v) \<in> both_wait m \<Longrightarrow> w \<notin> ?S" using wfE_min [of "both_wait m" "j_unit kb" ?S] by blast
  then obtain j where "u_job (m_unit m v) = Some j" by auto
  then obtain jb where j: "m_job m j = Some jb" "j_unit jb = v" using quietD(11) [OF q] by blast
  have "u_job (m_unit m w) = None" if "w \<in> set (u_deps m v UNIT_AFTER)" for w
  proof (rule ccontr)
    assume "u_job (m_unit m w) \<noteq> None"
    then show False using v(1) v(2) [of w] inv [rule_format, OF that] by (simp add: both_wait_def)
  qed
  then have "job_is_runnable m j = Some True" unfolding job_is_runnable_eq [OF q j(1)] using j(2) False by auto
  then show ?thesis using j(1) by blast
qed


text \<open>
  C11: As long as the \<open>Before=\<close> ordering of the units with jobs is acyclic and \<open>After=\<close> is its
  inverse, the job engine cannot get stuck: some installed job may run.
\<close>

theorem job_progress:
  assumes "idle m" "m_jobs m \<noteq> []"
    "\<forall>u v. v \<in> set (u_deps m u UNIT_AFTER) \<longrightarrow> u \<in> set (u_deps m v UNIT_BEFORE)"
    "acyclic (both_wait m)"
  shows "\<exists>j jb. m_job m j = Some jb \<and> job_is_runnable m j = Some True"
  using some_runnable [OF _ assms(2-4)] assms(1) by (simp add: idle_quiet)

lemma sample_run_idle: "idle sample_run"
proof -
  obtain r m' where "manager_add_job (\<lambda>_. Some) JOB_START 0 JOB_REPLACE False sample_manager = Some (r, m')" "idle m'"
    using manager_add_job_correct [OF sample_ok(1,3,4,2), of JOB_REPLACE "\<lambda>_. Some" JOB_START False] by auto
  then show ?thesis by (simp add: sample_run_def)
qed

lemma sample_run_deps:
  "u_deps sample_run u d = (if u = 0 \<and> (d = UNIT_REQUIRES \<or> d = UNIT_AFTER) then [1]
     else if u \<noteq> 0 \<and> (d = UNIT_REQUIRED_BY \<or> d = UNIT_BEFORE) then [0] else [])"
  by (simp add: sample_run_def sample_defs run_defs cong: run_cong split del: if_split)
    (simp add: sample_unit_def no_deps_def)

theorem job_progress_witness:
  "idle sample_run \<and> (\<exists>j jb. m_job sample_run j = Some jb \<and> job_is_runnable sample_run j = Some True)"
proof -
  have "both_wait sample_run \<subseteq> less_than\<inverse>" by (auto simp: both_wait_def sample_run_deps split: if_splits)
  moreover have "acyclic (less_than\<inverse>)" using wf_acyclic [OF wf_less_than] by (simp add: acyclic_converse)
  ultimately have "acyclic (both_wait sample_run)" by (rule acyclic_subset [rotated])
  then have "\<exists>j jb. m_job sample_run j = Some jb \<and> job_is_runnable sample_run j = Some True"
    by (intro job_progress [OF sample_run_idle]) (auto simp: sample_run_eq sample_run_deps split: if_splits)
  then show ?thesis using sample_run_idle by blast
qed

text \<open>
  C12: Of two jobs of units ordered one before the other, neither of which ignores the order
  (\<open>ignore_order\<close>), at most one may run: while the second
  unit has a job, the first unit's job may run only if that job does not stop the second unit, and
  the second unit's job only if it does, so units stop in the reverse order of their start.
\<close>

theorem job_order:
  assumes "idle m" "u_job (m_unit m u) = Some j" "m_job m j = Some jb" "u_job (m_unit m v) = Some k" "m_job m k = Some kb"
    "v \<in> set (u_deps m u UNIT_BEFORE)" "u \<in> set (u_deps m v UNIT_AFTER)" "\<not> j_ignore_order jb" "\<not> j_ignore_order kb"
  shows "(job_is_runnable m j = Some True \<longrightarrow> job_is_runnable m k = Some False \<and> \<not> stop_like (j_type kb)) \<and>
    (job_is_runnable m k = Some True \<longrightarrow> job_is_runnable m j = Some False \<and> stop_like (j_type kb))"
proof -
  have q: "quiet m" using assms(1) by (simp add: idle_quiet)
  have "j_unit jb = u" "j_unit kb = v" using quietD(11) [OF q assms(2)] quietD(11) [OF q assms(4)] assms(3,5) by auto
  then show ?thesis
    unfolding job_is_runnable_eq [OF q assms(3)] job_is_runnable_eq [OF q assms(5)] using assms by auto
qed


theorem job_order_witness:
  "\<exists>jb kb. idle sample_run \<and> m_job sample_run 1 = Some jb \<and> m_job sample_run 0 = Some kb \<and>
     job_is_runnable sample_run 1 = Some True \<and> job_is_runnable sample_run 0 = Some False \<and> \<not> stop_like (j_type kb)"
proof -
  have j: "\<exists>jb. m_job sample_run 1 = Some jb \<and> \<not> j_ignore_order jb" "\<exists>kb. m_job sample_run 0 = Some kb \<and> \<not> j_ignore_order kb"
    "job_is_runnable sample_run 1 = Some True"
    by (simp_all add: sample_run_def sample_defs run_defs job_is_runnable_def cong: run_cong split del: if_split)
  then obtain jb kb where b: "m_job sample_run 1 = Some jb" "m_job sample_run 0 = Some kb" "\<not> j_ignore_order jb" "\<not> j_ignore_order kb" by blast
  show ?thesis
    using job_order [OF sample_run_idle sample_run_eq(4) b(1) sample_run_eq(3) b(2) _ _ b(3,4)] j(3) b sample_run_idle
    by (simp add: sample_run_deps)
qed

text \<open>The order \<open>a Before b Before a\<close>, as two contradicting unit files configure it.\<close>

definition sample_cycle :: manager where
  "sample_cycle = fresh_manager [(''a.target'', 0), (''b.target'', 1)]
     (\<lambda>u. if u = 0 then sample_unit ''a.target'' (no_deps(UNIT_AFTER := [1], UNIT_BEFORE := [1]))
          else sample_unit ''b.target'' (no_deps(UNIT_AFTER := [0], UNIT_BEFORE := [0])))"

text \<open>
  An example: the ordering check does not see every cycle through installed jobs.  With two units
  each ordered before the other, a start request for the first and then one for the second both
  succeed, although the second closes an ordering cycle, and neither job may run afterwards: the
  search skips the first job, whose generation is the one of the earlier transaction.
\<close>

theorem stale_generation_deadlock:
  "\<exists>m1 m2 a b. manager_add_job fin JOB_START 0 JOB_REPLACE False sample_cycle = Some (Inr a, m1) \<and>
    manager_add_job fin JOB_START 1 JOB_REPLACE False m1 = Some (Inr b, m2) \<and> map snd (m_jobs m2) = [a, b] \<and>
    job_is_runnable m2 a = Some False \<and> job_is_runnable m2 b = Some False"
  by (simp add: sample_cycle_def fresh_manager_def sample_unit_def no_deps_def job_is_runnable_def run_defs
      cong: run_cong split del: if_split)

subsection \<open>Finishing jobs\<close>

text \<open>
  C13: Finishing a job ends, keeps the invariant of the manager, and removes exactly the jobs it
  has to: only the job itself if it is done, and otherwise also the jobs that, directly or through
  others, need it to succeed.  The other jobs keep their unit, type, state, id and \<open>override\<close> flag.  A
  depth of one more than the number of jobs is enough for the recursion.  Two cases are excluded.  A
  restart job that is done becomes a start job instead (\<open>job_finish_restart\<close>).  And none of the
  failures may trigger \<open>OnFailure=\<close> units, whose jobs would join or replace the ones there
  (\<open>pulls_nothing\<close>): the units whose jobs fail along, and the job's own unit if the result is
  \<open>timeout\<close> or \<open>dependency\<close>, have no \<open>OnFailure=\<close> dependencies.
\<close>

theorem job_finish_exact:
  assumes "idle m" "pulls_nothing m j result" "m_job m j = Some jb" "card (dom (m_job m)) < n"
    "\<not> (result = JOB_DONE \<and> (j_type jb = JOB_RESTART \<or> j_type jb = JOB_TRY_RESTART))"
  shows "\<exists>m'. job_finish_and_invalidate n j result m = Some m' \<and> idle m' \<and>
     {x \<in> dom (m_job m). m_job m' x = None} = (if result = JOB_DONE then {j} else {x. (j, x) \<in> (fails m)\<^sup>*}) \<and>
     fewer m m'"
proof -
  have q: "quiet m" using assms(1) by (simp add: idle_quiet)
  obtain m' where m': "job_finish_and_invalidate n j result m = Some m'" "finished j result m m'"
    using job_finish_ok [OF q assms(2,4,3,5)] by blast
  have "{x \<in> dom (m_job m). m_job m' x = None} = {x. gone m m' x}" by (auto simp: gone_def)
  then show ?thesis using m' by (auto simp: finished_def idle_quiet)
qed

lemma sample_run_jobs: "dom (m_job sample_run) = {0, 1}"
  by (simp add: sample_run_def sample_defs run_defs insert_commute cong: run_cong split del: if_split)

lemma sample_run_quiet: "on_failure_free sample_run x"
  by (simp add: on_failure_free_def sample_run_deps)

theorem job_finish_exact_witness:
  "\<exists>jb m'. m_job sample_run 1 = Some jb \<and> idle sample_run \<and>
     job_finish_and_invalidate 3 1 JOB_FAILED sample_run = Some m' \<and> idle m' \<and>
     {x \<in> dom (m_job sample_run). m_job m' x = None} = {x. (1, x) \<in> (fails sample_run)\<^sup>*} \<and> fewer sample_run m'"
proof -
  have "1 \<in> dom (m_job sample_run)" by (simp add: sample_run_jobs)
  then obtain jb where j: "m_job sample_run 1 = Some jb" by auto
  then show ?thesis
    using job_finish_exact [OF sample_run_idle _ j, of JOB_FAILED 3] sample_run_idle sample_run_quiet
    by (auto simp: sample_run_jobs pulls_nothing_def)
qed

lemma add_to_run_queue_mem:
  assumes q: "quiet m" and j: "m_job m j = Some jb" and r: "job_add_to_run_queue j m = Some m'"
  shows "j \<in> set (m_run_queue m')"
  using quietD(5,7) [OF q] j r by (auto simp: job_add_to_run_queue_def upd_job_def wf_queues_def split: if_splits)

lemma queue_jobs_mono: "queue_jobs_of us m = Some m' \<Longrightarrow> set (m_run_queue m) \<subseteq> set (m_run_queue m')"
proof (induction us arbitrary: m)
  case (Cons v us)
  then obtain m1 where m1: "(case u_job (m_unit m v) of None \<Rightarrow> Some m | Some k \<Rightarrow> job_add_to_run_queue k m) = Some m1"
      "queue_jobs_of us m1 = Some m'"
    by (auto split: option.splits simp: bind_eq_Some_conv)
  have "set (m_run_queue m) \<subseteq> set (m_run_queue m1)"
    using m1(1) by (auto simp: job_add_to_run_queue_def upd_job_def bind_eq_Some_conv split: option.splits if_splits)
  then show ?case using Cons.IH [OF m1(2)] by blast
qed simp

lemma queue_both_mono:
  "do { m3 \<leftarrow> queue_jobs_of us m; queue_jobs_of (f m3) m3 } = Some m' \<Longrightarrow> set (m_run_queue m) \<subseteq> set (m_run_queue m')"
  unfolding bind_eq_Some_conv using queue_jobs_mono by blast

text \<open>
  A finished restart job is not lost: it becomes a waiting start job of the same unit in the
  run queue, and no job goes away.
\<close>

theorem job_finish_restart:
  assumes id: "idle m" and j: "m_job m j = Some jb" and t: "j_type jb = JOB_RESTART \<or> j_type jb = JOB_TRY_RESTART"
  shows "\<exists>m' jb'. job_finish_and_invalidate (Suc n) j JOB_DONE m = Some m' \<and> idle m' \<and> dom (m_job m') = dom (m_job m) \<and>
     m_job m' j = Some jb' \<and> j_unit jb' = j_unit jb \<and> j_type jb' = JOB_START \<and> j_state jb' = JOB_WAITING \<and>
     j \<in> set (m_run_queue m')"
proof -
  have q: "quiet m" using id by (simp add: idle_quiet)
  obtain m1 jb1 where m1: "job_add_to_dbus_queue j m = Some m1" "quiet m1" "m_job m1 = (m_job m)(j \<mapsto> jb1)" "job_key jb1 = job_key jb"
    using add_to_dbus_queue_ok [OF q j] by blast
  let ?jb = "jb1\<lparr>j_state := JOB_WAITING, j_type := JOB_START\<rparr>"
  let ?m1 = "m1\<lparr>m_job := (m_job m1)(j \<mapsto> ?jb)\<rparr>"
  have j1: "m_job m1 j = Some jb1" "m_job ?m1 j = Some ?jb" "j_unit jb1 = j_unit jb" "j_type jb1 = j_type jb"
    using m1(3,4) by (simp_all add: key_eq)
  have "wf_queues ?m1" using quietD(5) [OF m1(2)] j1(1) by (auto simp: wf_queues_def)
  then have q1: "quiet ?m1" by (intro quiet_upd [OF m1(2) j1(1), of ?jb]) (simp_all add: job_view_def)
  obtain m2 where m2: "job_add_to_run_queue j ?m1 = Some m2" "quiet m2" "purge ?m1 m2" "\<forall>x. \<not> gone ?m1 m2 x"
    using add_to_run_queue_ok [OF q1 j1(2)] by blast
  obtain m' where m': "do { m3 \<leftarrow> queue_jobs_of (u_deps m2 (j_unit jb) UNIT_AFTER) m2; queue_jobs_of (u_deps m3 (j_unit jb) UNIT_BEFORE) m3 } = Some m'"
      "quiet m'" "purge m2 m'" "\<forall>x. \<not> gone m2 m' x"
    using queue_both_ok [OF m2(2)] by blast
  have f: "fewer ?m1 m2" "fewer m2 m'" "fewer ?m1 m'" using m2(3) m'(3) fewer_trans unfolding purge_def by blast+
  have none: "m_job m' x = None \<longleftrightarrow> m_job ?m1 x = None" for x
    using no_gone_None [OF m2(4) f(1), of x] no_gone_None [OF m'(4) f(2), of x] by simp
  then obtain jb' where jb': "m_job m' j = Some jb'" using j1(2) by (cases "m_job m' j") auto
  then have "job_key jb' = job_key ?jb" using fewerD [OF f(3) jb'] j1(2) by auto
  moreover have "m_job m' x = None \<longleftrightarrow> m_job m x = None" for x using none [of x] j by (simp add: m1(3))
  then have "dom (m_job m') = dom (m_job m)" unfolding dom_def by simp
  moreover have "j \<in> set (m_run_queue m')"
    using queue_both_mono [OF m'(1)] add_to_run_queue_mem [OF q1 j1(2) m2(1)] by blast
  moreover have "finish_step fin j JOB_DONE m = Some m'" for fin
    using m1(1) j1 t m2(1) m'(1) by (simp add: finish_step_def upd_job_def Let_def)
  ultimately show ?thesis using m'(2) jb' j1(3) by (simp add: idle_quiet key_eq)
qed

text \<open>
  C14: \<open>manager_clear_jobs\<close>, also in the middle of a transaction, ends and leaves no job: neither
  in the job table, nor in a unit, nor in the run queue, provided that no job that the failure of
  another one takes along is of a unit with \<open>OnFailure=\<close> dependencies.  Without this condition
  cancelling a job may queue new ones: with \<open>x\<close> and \<open>y\<close> that require each other and \<open>OnFailure=y\<close> in
  \<open>x\<close>, cancelling the job of \<open>y\<close> fails that of \<open>x\<close>, which requests both again, and the loop does not end.
\<close>

theorem manager_clear_jobs_clears:
  assumes wf: "wf_tx m" and "cancel_pulls_nothing m" "card (dom (m_job m)) < n"
  shows "\<exists>m'. manager_clear_jobs n m = Some m' \<and> idle m' \<and> m_jobs m' = [] \<and> dom (m_job m') = {} \<and>
     (\<forall>u. u_job (m_unit m' u) = None) \<and> m_run_queue m' = []"
proof -
  have q: "quiet (no_tx m)" using wf_tx_no_tx [OF wf] unfolding idle_quiet [symmetric] by (simp add: idle_def no_tx_def)
  have "dom (m_job m) \<subseteq> {..< m_next_job m}" using wf_txD(5) [OF wf] by (auto simp: wf_next_def not_le [symmetric])
  then have "finite (dom (m_job m))" by (rule finite_subset) simp
  moreover have "dom (m_job (no_tx m)) \<subseteq> dom (m_job m)" by (auto simp: no_tx_def split: option.splits)
  ultimately have "card (dom (m_job (no_tx m))) < n" using assms(3) card_mono le_less_trans by blast
  moreover have "fewer m (no_tx m)" by (auto simp: fewer_def no_tx_def job_key_def split: option.splits if_splits)
  then have "cancel_pulls_nothing (no_tx m)" using assms(2) by (rule cancel_pulls_nothing_fewer)
  ultimately obtain m' where "clear_installed n (no_tx m) = Some m'" "quiet m'" "m_jobs m' = []"
    using clear_installed_ok [OF q] by blast
  then show ?thesis using quiet_no_jobs [of m'] transaction_abort_eq [OF wf] by (simp add: manager_clear_jobs_def idle_quiet)
qed


theorem manager_clear_jobs_clears_witness:
  "\<exists>m'. wf_tx sample_run \<and> manager_clear_jobs 3 sample_run = Some m' \<and> idle m' \<and> m_jobs m' = [] \<and> dom (m_job m') = {}"
proof -
  have "wf_tx sample_run" using sample_run_idle by (simp add: idle_def)
  then show ?thesis using manager_clear_jobs_clears [of sample_run 3] sample_run_quiet
    by (auto simp: sample_run_jobs cancel_pulls_nothing_def)
qed

text \<open>The sample manager with \<open>b.target\<close> active and a restart of it requested.\<close>

definition sample_active :: manager where
  "sample_active = upd_unit 1 (\<lambda>x. x\<lparr>u_active_state := UNIT_ACTIVE\<rparr>) sample_manager"

definition sample_restart :: manager where
  "sample_restart = snd (the (manager_add_job (\<lambda>_. Some) JOB_RESTART 1 JOB_REPLACE False sample_active))"

lemma sample_restart_ok:
  "idle sample_restart" "map_option (\<lambda>jb. (j_type jb, j_unit jb)) (m_job sample_restart 0) = Some (JOB_RESTART, 1)"
proof -
  have ok: "idle sample_active" "ids_left sample_active" "closed_units sample_active" "1 \<in> known sample_active"
    by (auto simp: sample_active_def sample_manager_def sample_unit_def no_deps_def closed_units_def known_def
        fresh_manager_def upd_unit_def idle_def wf_tx_def wf_core_def wf_deps_def wf_list_def wf_q_def wf_scope_def
        wf_inst_def wf_queues_def wf_next_def omap_get_def noninst_def ids_left_def wf_ids_def)
  obtain r m' where "manager_add_job (\<lambda>_. Some) JOB_RESTART 1 JOB_REPLACE False sample_active = Some (r, m')" "idle m'"
    using manager_add_job_correct [OF ok(1,3,4,2), of JOB_REPLACE "\<lambda>_. Some" JOB_RESTART False] by auto
  then show "idle sample_restart" by (simp add: sample_restart_def)
  show "map_option (\<lambda>jb. (j_type jb, j_unit jb)) (m_job sample_restart 0) = Some (JOB_RESTART, 1)"
    by (simp add: sample_restart_def sample_active_def sample_defs run_defs cong: run_cong split del: if_split)
qed

theorem job_finish_restart_witness:
  "\<exists>m' jb'. idle sample_restart \<and> job_finish_and_invalidate 1 0 JOB_DONE sample_restart = Some m' \<and> idle m' \<and>
     m_job m' 0 = Some jb' \<and> j_unit jb' = 1 \<and> j_type jb' = JOB_START \<and> j_state jb' = JOB_WAITING \<and> 0 \<in> set (m_run_queue m')"
proof -
  obtain jb where jb: "m_job sample_restart 0 = Some jb" "j_type jb = JOB_RESTART" "j_unit jb = 1"
    using sample_restart_ok(2) by auto
  then show ?thesis using job_finish_restart [OF sample_restart_ok(1) jb(1), of 0] sample_restart_ok(1) by auto
qed


subsection \<open>Merging job types\<close>

text \<open>
  C31: Two job types merge exactly if they do not conflict, and then into the least type that covers
  both, so the order in which jobs of a unit are merged does not matter.
\<close>

theorem job_type_merge_lub:
  "job_type_merge a b = Inr c \<longleftrightarrow>
     \<not> job_type_is_conflicting a b \<and> job_type_is_superset c a \<and> job_type_is_superset c b \<and>
     (\<forall>d. job_type_is_superset d a \<and> job_type_is_superset d b \<longrightarrow> job_type_is_superset d c)"
proof -
  have all: "(\<forall>d. P d) \<longleftrightarrow> P JOB_START \<and> P JOB_VERIFY_ACTIVE \<and> P JOB_STOP \<and> P JOB_RELOAD \<and> P JOB_RELOAD_OR_START \<and>
      P JOB_RESTART \<and> P JOB_TRY_RESTART" for P :: "job_type \<Rightarrow> bool"
    by (metis job_type.exhaust)
  show ?thesis unfolding all by (cases a; cases b; cases c; simp add: job_defs)
qed

theorem job_type_merge_lub_witness:
  "job_type_merge JOB_START JOB_RELOAD = Inr JOB_RELOAD_OR_START \<and> job_type_is_superset JOB_RELOAD_OR_START JOB_START"
  using job_type_merge_lub [of JOB_START JOB_RELOAD JOB_RELOAD_OR_START] by (simp add: job_defs)

end
