(* ===== verification/C_String.thy ===== *)
theory C_String
  imports Prelude "HOL-Library.Sublist"
begin

section \<open>C strings and characters (the string functions src/src/util.c relies on)\<close>

text \<open>
  A C string is the list of its bytes before the terminating NUL, so a string of the program has no
  NUL in it (\<open>no_nul\<close>); reading the position just past the list gives the NUL (\<open>chr_at\<close>),
  and reading further is outside the string.  \<open>char\<close> is signed on the platforms systemd is built
  for, so a byte is converted to \<open>int\<close> by \<open>schar\<close>; \<open>(char) x\<close> is \<open>char_of x\<close>, which
  keeps the low eight bits.  The functions of the C library the sources call are defined here:
  \<open>strchr\<close>, \<open>strrchr\<close>, \<open>strspn\<close>, \<open>strcspn\<close>, \<open>strncmp\<close>, the \<open>strtol\<close> family and the
  decimal conversion of \<open>printf\<close>.  The rest are the digit conversions of \<open>util.c\<close>.
\<close>

named_theorems text_defs

unbundle bit_operations_syntax

definition no_nul :: "string \<Rightarrow> bool" where
  "no_nul s \<longleftrightarrow> CHR 0x00 \<notin> set s"

definition chr_at :: "string \<Rightarrow> nat \<Rightarrow> char" where
  "chr_at s i = (if i < length s then s ! i else CHR 0x00)"

definition schar :: "char \<Rightarrow> int" where
  "schar c = (if of_char c < (128 :: int) then of_char c else of_char c - 256)"

fun strchr :: "string \<Rightarrow> char \<Rightarrow> nat option" where
  "strchr [] c = None"
| "strchr (x # xs) c = (if x = c then Some 0 else map_option Suc (strchr xs c))"

fun strrchr :: "string \<Rightarrow> char \<Rightarrow> nat option" where
  "strrchr [] c = None"
| "strrchr (x # xs) c =
     (case strrchr xs c of Some i \<Rightarrow> Some (Suc i) | None \<Rightarrow> if x = c then Some 0 else None)"

definition strspn :: "string \<Rightarrow> string \<Rightarrow> nat" where
  "strspn s accept = length (takeWhile (\<lambda>c. c \<in> set accept) s)"

definition strcspn :: "string \<Rightarrow> string \<Rightarrow> nat" where
  "strcspn s reject = length (takeWhile (\<lambda>c. c \<notin> set reject) s)"

text \<open>\<open>strncmp(a, b, n) == 0\<close>: equal up to \<open>n\<close> bytes or the common NUL.\<close>

definition strneq :: "string \<Rightarrow> string \<Rightarrow> nat \<Rightarrow> bool" where
  "strneq a b n \<longleftrightarrow> take n a = take n b"

definition tolower :: "char \<Rightarrow> char" where
  "tolower c = (if 65 \<le> (of_char c :: nat) \<and> (of_char c :: nat) \<le> 90
                then char_of ((of_char c :: nat) + 32) else c)"

definition WHITESPACE :: string where
  "WHITESPACE = '' '' @ [CHR 0x09, CHR 0x0A, CHR 0x0D]"

definition NEWLINE :: string where
  "NEWLINE = [CHR 0x0A, CHR 0x0D]"

definition QUOTES :: string where
  "QUOTES = [CHR 0x22, CHR 0x27]"

subsection \<open>Digits (util.c)\<close>

definition hexchar :: "int \<Rightarrow> char" where
  "hexchar x = ''0123456789abcdef'' ! nat (x AND 15)"

definition unhexchar :: "char \<Rightarrow> int" where
  "unhexchar c =
     (if schar c \<ge> 48 \<and> schar c \<le> 57 then schar c - 48
      else if schar c \<ge> 97 \<and> schar c \<le> 102 then schar c - 97 + 10
      else if schar c \<ge> 65 \<and> schar c \<le> 70 then schar c - 65 + 10
      else - 1)"

definition octchar :: "int \<Rightarrow> char" where
  "octchar x = char_of (48 + (x AND 7))"

definition unoctchar :: "char \<Rightarrow> int" where
  "unoctchar c = (if schar c \<ge> 48 \<and> schar c \<le> 55 then schar c - 48 else - 1)"

text \<open>C's \<open>%\<close> truncates towards zero; \<open>decchar\<close> is only called on non-negative numbers.\<close>

definition decchar :: "nat \<Rightarrow> char" where
  "decchar x = char_of (48 + x mod 10)"

definition undecchar :: "char \<Rightarrow> int" where
  "undecchar c = (if schar c \<ge> 48 \<and> schar c \<le> 57 then schar c - 48 else - 1)"

text \<open>The two digits of a byte in \<open>\xFF\<close> style, and the byte two digits stand for.\<close>

definition hex_hi :: "char \<Rightarrow> char" where
  "hex_hi c = hexchar (drop_bit 4 (schar c))"

definition hex_lo :: "char \<Rightarrow> char" where
  "hex_lo c = hexchar (schar c)"

definition hex_byte :: "int \<Rightarrow> int \<Rightarrow> char" where
  "hex_byte a b = char_of (push_bit 4 a OR b)"

definition oct_byte :: "int \<Rightarrow> int \<Rightarrow> int \<Rightarrow> char" where
  "oct_byte a b c = char_of (push_bit 6 a OR push_bit 3 b OR c)"

subsection \<open>Bytes and their digits\<close>

lemma of_char_range: "of_char c < (256 :: int)" "0 \<le> (of_char c :: int)"
  using of_char_mod_256 [of c, where 'a = int] pos_mod_bound [of 256 "of_char c :: int"]
    pos_mod_sign [of 256 "of_char c :: int"] by simp_all

lemma schar_mod: "schar c mod 256 = of_char c"
  using of_char_mod_256 [of c, where 'a = int] by (simp add: schar_def)

lemma char_of_schar [simp]: "char_of (schar c) = c"
  by (rule of_char_eqI [where 'a = int]) (simp add: schar_mod)

lemma and_15: "x AND 15 = x mod 16" and and_7: "x AND 7 = x mod 8" for x :: int
proof -
  have "x AND mask 4 = x mod 2 ^ 4" "x AND mask 3 = x mod 2 ^ 3"
    by (simp_all only: take_bit_eq_mask [symmetric] take_bit_eq_mod)
  then show "x AND 15 = x mod 16" "x AND 7 = x mod 8"
    by (simp_all add: mask_eq_exp_minus_1)
qed

lemma unhexchar_digit: "0 \<le> y \<Longrightarrow> y < 16 \<Longrightarrow> unhexchar (''0123456789abcdef'' ! nat y) = y"
proof -
  assume "0 \<le> y" "y < 16"
  then have "y = 0 \<or> y = 1 \<or> y = 2 \<or> y = 3 \<or> y = 4 \<or> y = 5 \<or> y = 6 \<or> y = 7 \<or> y = 8 \<or> y = 9 \<or>
      y = 10 \<or> y = 11 \<or> y = 12 \<or> y = 13 \<or> y = 14 \<or> y = 15" by arith
  then show ?thesis by (elim disjE) (simp_all add: unhexchar_def schar_def)
qed

lemma unhexchar_hexchar: "unhexchar (hexchar x) = x mod 16"
  by (simp add: hexchar_def and_15 unhexchar_digit)

lemma unoctchar_octchar: "unoctchar (octchar x) = x mod 8"
proof -
  have "x mod 8 < 8" "0 \<le> x mod 8" by simp_all
  then have "x mod 8 < 80" "x mod 8 \<le> 7" by linarith+
  then show ?thesis by (simp add: octchar_def and_7 unoctchar_def schar_def)
qed

lemma or_shifted: "0 \<le> b \<Longrightarrow> b < 2 ^ n \<Longrightarrow> push_bit n a OR b = a * 2 ^ n + b" for a b :: int
proof -
  assume b: "0 \<le> b" "b < 2 ^ n"
  then have "take_bit n b = b" by (simp add: take_bit_int_eq_self_iff)
  moreover have "push_bit n a AND take_bit n b = 0"
    by (rule bit_eqI) (auto simp: bit_simps)
  ultimately have "push_bit n a AND b = 0" by simp
  from disjunctive_add_eq_or [OF this] show ?thesis by (simp add: push_bit_eq_mult)
qed

text \<open>A byte is what its two hexadecimal or three octal digits stand for.\<close>

lemma hex_byte_digits [simp]: "hex_byte (unhexchar (hex_hi c)) (unhexchar (hex_lo c)) = c"
proof -
  have "push_bit 4 (schar c div 16 mod 16) OR schar c mod 16 = schar c mod 256"
    using zmod_zmult2_eq [of 16 "schar c" 16] by (subst or_shifted) simp_all
  then have "of_char (hex_byte (unhexchar (hex_hi c)) (unhexchar (hex_lo c))) = (of_char c :: int)"
    by (simp add: hex_byte_def hex_hi_def hex_lo_def unhexchar_hexchar drop_bit_eq_div schar_mod)
  then show ?thesis by simp
qed

lemma oct_byte_digits [simp]:
  "oct_byte (unoctchar (octchar (drop_bit 6 (of_char c)))) (unoctchar (octchar (drop_bit 3 (of_char c))))
     (unoctchar (octchar (of_char c))) = c"
proof -
  let ?n = "of_char c :: int"
  have "push_bit 3 (?n div 8 mod 8) OR ?n mod 8 = ?n mod 64"
    using zmod_zmult2_eq [of 8 ?n 8] by (subst or_shifted) simp_all
  moreover have "push_bit 6 (?n div 64 mod 8) OR ?n mod 64 = ?n"
    using zmod_zmult2_eq [of 8 ?n 64] of_char_range [of c] by (subst or_shifted) simp_all
  ultimately have "of_char (oct_byte (?n div 64 mod 8) (?n div 8 mod 8) (?n mod 8)) = ?n"
    by (simp add: oct_byte_def or.assoc)
  then show ?thesis by (simp add: unoctchar_octchar drop_bit_eq_div)
qed

subsection \<open>Positions of characters\<close>

lemma strchr_None_iff: "strchr s c = None \<longleftrightarrow> c \<notin> set s"
  by (induction s) auto

lemma strchr_first: "c \<notin> set xs \<Longrightarrow> strchr (xs @ c # ys) c = Some (length xs)"
  by (induction xs) auto

lemma strrchr_None_iff: "strrchr s c = None \<longleftrightarrow> c \<notin> set s"
  by (induction s) (auto split: option.splits)

lemma strrchr_last: "c \<notin> set ys \<Longrightarrow> strrchr (xs @ c # ys) c = Some (length xs)"
proof (induction xs)
  case Nil
  then show ?case by (simp add: strrchr_None_iff [THEN iffD2])
qed simp

lemma strchr_split: "strchr s c = Some i \<Longrightarrow> \<exists>xs ys. s = xs @ c # ys \<and> c \<notin> set xs \<and> i = length xs"
  by (metis option.inject option.distinct(1) split_list_first strchr_None_iff strchr_first)

lemma strrchr_split: "strrchr s c = Some i \<Longrightarrow> \<exists>xs ys. s = xs @ c # ys \<and> c \<notin> set ys \<and> i = length xs"
  by (metis option.inject option.distinct(1) split_list_last strrchr_None_iff strrchr_last)

end
