(* ===== verification/Util_Escape.thy ===== *)
theory Util_Escape
  imports C_String
begin

section \<open>Escaping and unescaping (src/src/util.c)\<close>

text \<open>
  C-style escaping (\<open>cescape\<close>, \<open>cunescape\<close>, \<open>xescape\<close>) and the escaping of D-Bus object
  paths.  The output buffers are sized in advance by the code (four, respectively three bytes per input
  byte and one for the NUL); the lemmas here show that the sizes suffice and that escaping is
  reversible, as the comments in \<open>util.c\<close> promise.
\<close>

definition backslash :: char where
  "backslash = CHR 0x5C"

subsection \<open>cescape\<close>

definition cescape_char :: "char \<Rightarrow> string" where
  "cescape_char c =
     (if c = CHR 0x07 then [backslash, CHR ''a'']
      else if c = CHR 0x08 then [backslash, CHR ''b'']
      else if c = CHR 0x0C then [backslash, CHR ''f'']
      else if c = CHR 0x0A then [backslash, CHR ''n'']
      else if c = CHR 0x0D then [backslash, CHR ''r'']
      else if c = CHR 0x09 then [backslash, CHR ''t'']
      else if c = CHR 0x0B then [backslash, CHR ''v'']
      else if c = backslash then [backslash, backslash]
      else if c = CHR 0x22 then [backslash, CHR 0x22]
      else if c = CHR 0x27 then [backslash, CHR 0x27]
      else if schar c < 32 \<or> schar c \<ge> 127
           then [backslash, octchar (drop_bit 6 (of_char c)), octchar (drop_bit 3 (of_char c)),
                 octchar (of_char c)]
      else [c])"

primrec cescape :: "string \<Rightarrow> string" where
  "cescape [] = []"
| "cescape (c # s) = cescape_char c @ cescape s"

subsection \<open>cunescape\<close>

text \<open>The escapes of one letter.\<close>

definition simple_escape :: "char \<Rightarrow> char option" where
  "simple_escape c =
     (if c = CHR ''a'' then Some (CHR 0x07)
      else if c = CHR ''b'' then Some (CHR 0x08)
      else if c = CHR ''f'' then Some (CHR 0x0C)
      else if c = CHR ''n'' then Some (CHR 0x0A)
      else if c = CHR ''r'' then Some (CHR 0x0D)
      else if c = CHR ''t'' then Some (CHR 0x09)
      else if c = CHR ''v'' then Some (CHR 0x0B)
      else if c = backslash then Some backslash
      else if c = CHR 0x22 then Some (CHR 0x22)
      else if c = CHR 0x27 then Some (CHR 0x27)
      else if c = CHR ''s'' then Some (CHR '' '')
      else None)"

text \<open>
  The loop with \<open>n\<close> bytes of \<open>length\<close> left.  An escape may read and skip bytes past
  \<open>length\<close>, up to the NUL; \<open>None\<close> stands for reading past the NUL, when \<open>length\<close> is larger
  than the string.
\<close>

fun cunescape_loop :: "nat \<Rightarrow> string \<Rightarrow> string option" where
  "cunescape_loop 0 s = Some []"
| "cunescape_loop (Suc n) [] = None"
| "cunescape_loop (Suc n) (c # s) =
     (if c \<noteq> backslash then map_option (Cons c) (cunescape_loop n s)
      else case s of
        [] \<Rightarrow> Some [backslash]
      | d # t \<Rightarrow>
          (case simple_escape d of
             Some e \<Rightarrow> map_option (Cons e) (cunescape_loop (n - 1) t)
           | None \<Rightarrow>
               if d = CHR ''x'' then
                 let a = unhexchar (chr_at t 0); b = unhexchar (chr_at t 1) in
                 if a < 0 \<or> b < 0 then map_option ((@) [backslash, d]) (cunescape_loop (n - 1) t)
                 else map_option (Cons (hex_byte a b)) (cunescape_loop (n - 3) (drop 2 t))
               else if unoctchar d \<ge> 0 then
                 let a = unoctchar d; b = unoctchar (chr_at t 0); k = unoctchar (chr_at t 1) in
                 if b < 0 \<or> k < 0 then map_option ((@) [backslash, d]) (cunescape_loop (n - 1) t)
                 else map_option (Cons (oct_byte a b k)) (cunescape_loop (n - 3) (drop 2 t))
               else map_option ((@) [backslash, d]) (cunescape_loop (n - 1) t)))"

definition cunescape_length :: "string \<Rightarrow> nat \<Rightarrow> string option" where
  "cunescape_length s len = cunescape_loop len s"

definition cunescape :: "string \<Rightarrow> string option" where
  "cunescape s = cunescape_length s (length s)"

subsection \<open>xescape\<close>

definition xescape_char :: "string \<Rightarrow> char \<Rightarrow> string" where
  "xescape_char bad c =
     (if schar c < 32 \<or> schar c \<ge> 127 \<or> c = backslash \<or> c \<in> set bad
      then [backslash, CHR ''x'', hex_hi c, hex_lo c] else [c])"

primrec xescape :: "string \<Rightarrow> string \<Rightarrow> string" where
  "xescape [] bad = []"
| "xescape (c # s) bad = xescape_char bad c @ xescape s bad"

subsection \<open>D-Bus object paths\<close>

definition bus_path_char :: "char \<Rightarrow> bool" where
  "bus_path_char c \<longleftrightarrow> (schar c \<ge> 65 \<and> schar c \<le> 90) \<or> (schar c \<ge> 97 \<and> schar c \<le> 122) \<or>
     (schar c \<ge> 48 \<and> schar c \<le> 57)"

primrec bus_path_escape :: "string \<Rightarrow> string" where
  "bus_path_escape [] = []"
| "bus_path_escape (c # s) =
     (if \<not> bus_path_char c then [CHR ''_'', hex_hi c, hex_lo c] else [c]) @ bus_path_escape s"

fun bus_path_unescape :: "string \<Rightarrow> string" where
  "bus_path_unescape [] = []"
| "bus_path_unescape (c # s) =
     (if c = CHR ''_'' then
        let a = unhexchar (chr_at s 0); b = unhexchar (chr_at s 1) in
        if a < 0 \<or> b < 0 then CHR ''_'' # bus_path_unescape s
        else hex_byte a b # bus_path_unescape (drop 2 s)
      else c # bus_path_unescape s)"

subsection \<open>Round trips\<close>

lemma chr_at_Cons [simp]: "chr_at (c # s) 0 = c" "chr_at (c # s) (Suc i) = chr_at s i"
  by (simp_all add: chr_at_def)

lemma unhex_nonneg [simp]: "\<not> unhexchar (hex_hi c) < 0" "\<not> unhexchar (hex_lo c) < 0"
  by (simp_all add: hex_hi_def hex_lo_def unhexchar_hexchar not_less)

lemma cescape_char_length: "length (cescape_char c) \<le> 4"
  by (simp add: cescape_char_def)

lemma cescape_length: "length (cescape s) \<le> 4 * length s"
  by (induction s) (use cescape_char_length in \<open>auto intro: add_mono\<close>)

lemma xescape_length: "length (xescape s bad) \<le> 4 * length s"
  by (induction s) (auto simp: xescape_char_def)

lemma bus_path_escape_length: "length (bus_path_escape s) \<le> 3 * length s"
  by (induction s) auto

text \<open>An octal digit is none of the letters the switch handles before it.\<close>

lemma octchar_digit:
  "octchar x \<in> set ''01234567''"
proof -
  have "0 \<le> x mod 8" "x mod 8 < 8" by simp_all
  then have "x mod 8 = 0 \<or> x mod 8 = 1 \<or> x mod 8 = 2 \<or> x mod 8 = 3 \<or> x mod 8 = 4 \<or> x mod 8 = 5 \<or>
      x mod 8 = 6 \<or> x mod 8 = 7" by linarith
  then show ?thesis unfolding octchar_def and_7 by (elim disjE) (simp_all add: char_of_def)
qed

lemma octal_not_simple [simp]: "simple_escape (octchar x) = None" "octchar x \<noteq> CHR ''x''"
  using octchar_digit [of x] by (auto simp: simple_escape_def backslash_def)

lemma unoct_nonneg [simp]: "0 \<le> unoctchar (octchar x)" "\<not> unoctchar (octchar x) < 0"
  by (simp_all add: unoctchar_octchar not_less)

lemma cunescape_escaped:
  "cunescape_loop (length (cescape_char c) + n) (cescape_char c @ s) = map_option (Cons c) (cunescape_loop n s)"
proof (cases "c \<in> {CHR 0x07, CHR 0x08, CHR 0x0C, CHR 0x0A, CHR 0x0D, CHR 0x09, CHR 0x0B, backslash, CHR 0x22, CHR 0x27}")
  case True
  then show ?thesis
    by (elim insertE emptyE) (simp_all add: cescape_char_def simple_escape_def backslash_def)
next
  case False
  then have c: "c \<noteq> backslash" and
    "cescape_char c = (if schar c < 32 \<or> schar c \<ge> 127
       then [backslash, octchar (drop_bit 6 (of_char c)), octchar (drop_bit 3 (of_char c)), octchar (of_char c)]
       else [c])" by (simp_all add: cescape_char_def)
  then show ?thesis by (cases "schar c < 32 \<or> schar c \<ge> 127") (simp_all add: Let_def numeral_2_eq_2)
qed

lemma cunescape_cescape_loop: "cunescape_loop (length (cescape s)) (cescape s) = Some s"
  by (induction s) (simp_all add: cunescape_escaped)

lemma cunescape_xescaped:
  "cunescape_loop (length (xescape_char bad c) + n) (xescape_char bad c @ s) = map_option (Cons c) (cunescape_loop n s)"
  by (simp add: xescape_char_def simple_escape_def backslash_def Let_def numeral_2_eq_2)

lemma cunescape_xescape_loop: "cunescape_loop (length (xescape s bad)) (xescape s bad) = Some s"
  by (induction s) (simp_all add: cunescape_xescaped)

lemma bus_path_underscore: "\<not> bus_path_char (CHR ''_'')"
  by (simp add: bus_path_char_def schar_def)

lemma bus_path_roundtrip: "bus_path_unescape (bus_path_escape s) = s"
  by (induction s) (auto simp: Let_def numeral_2_eq_2 bus_path_underscore)

end
