(* ===== verification/Util_Text.thy ===== *)
theory Util_Text
  imports Util_Escape
begin

section \<open>Strings, words and quoting (src/src/util.c)\<close>

text \<open>
  The string helpers of \<open>util.c\<close>: prefixes and suffixes, stripping and joining, host names,
  and the word iterators \<open>FOREACH_WORD_SEPARATOR\<close> and \<open>FOREACH_WORD_QUOTED\<close> on top of
  \<open>split\<close> and \<open>split_quoted\<close>.  An iterator's state pointer is the suffix of the string it
  points to.
\<close>

subsection \<open>Comparisons\<close>

definition streq_ptr :: "string option \<Rightarrow> string option \<Rightarrow> bool" where
  "streq_ptr a b = (case (a, b) of (Some s, Some t) \<Rightarrow> s = t | (None, None) \<Rightarrow> True | _ \<Rightarrow> False)"

definition endswith :: "string \<Rightarrow> string \<Rightarrow> bool" where
  "endswith s postfix =
     (let sl = length s; pl = length postfix in
      if pl = 0 then True else if sl < pl then False
      else take pl (drop (sl - pl) s) = postfix)"

definition startswith :: "string \<Rightarrow> string \<Rightarrow> bool" where
  "startswith s pre =
     (let sl = length s; pl = length pre in
      if pl = 0 then True else if sl < pl then False else take pl s = pre)"

definition startswith_no_case :: "string \<Rightarrow> string \<Rightarrow> bool" where
  "startswith_no_case s pre =
     (let sl = length s; pl = length pre in
      if pl = 0 then True else if sl < pl then False
      else list_all (\<lambda>i. tolower (s ! i) = tolower (pre ! i)) [0..<pl])"

definition first_word :: "string \<Rightarrow> string \<Rightarrow> bool" where
  "first_word s word =
     (let sl = length s; wl = length word in
      if sl < wl then False else if wl = 0 then True else if take wl s \<noteq> word then False
      else sl = wl \<or> chr_at s wl \<in> set WHITESPACE)"

definition chars_intersect :: "string \<Rightarrow> string \<Rightarrow> bool" where
  "chars_intersect a b \<longleftrightarrow> list_ex (\<lambda>c. c \<in> set b) a"

definition in_charset :: "string \<Rightarrow> string \<Rightarrow> bool" where
  "in_charset s charset \<longleftrightarrow> list_all (\<lambda>c. c \<in> set charset) s"

definition ignore_file :: "string \<Rightarrow> bool" where
  "ignore_file f \<longleftrightarrow>
     chr_at f 0 = CHR ''.'' \<or> f = ''lost+found'' \<or> f = ''aquota.user'' \<or> f = ''aquota.group'' \<or>
     endswith f ''~'' \<or> endswith f ''.rpmnew'' \<or> endswith f ''.rpmsave'' \<or> endswith f ''.rpmorig'' \<or>
     endswith f ''.dpkg-old'' \<or> endswith f ''.dpkg-new'' \<or> endswith f ''.swp''"

definition fstype_is_network :: "string \<Rightarrow> bool" where
  "fstype_is_network t \<longleftrightarrow>
     t \<in> set [''cifs'', ''smbfs'', ''ncpfs'', ''nfs'', ''nfs4'', ''gfs'', ''gfs2'']"

subsection \<open>Building and trimming strings\<close>

definition truncate_nl :: "string \<Rightarrow> string" where
  "truncate_nl s = take (strcspn s NEWLINE) s"

text \<open>\<open>memcpy\<close> of \<open>b\<close> bytes of the suffix: the callers pass \<open>b \<le> strlen(suffix)\<close>.\<close>

definition strnappend :: "string option \<Rightarrow> string option \<Rightarrow> nat \<Rightarrow> string" where
  "strnappend s suf b =
     (case (s, suf) of
        (None, None) \<Rightarrow> []
      | (None, Some x) \<Rightarrow> take b x
      | (Some a, None) \<Rightarrow> a
      | (Some a, Some x) \<Rightarrow> a @ take b x)"

definition strappend :: "string option \<Rightarrow> string option \<Rightarrow> string" where
  "strappend s suf = strnappend s suf (case suf of Some x \<Rightarrow> length x | None \<Rightarrow> 0)"

text \<open>The variadic \<open>join\<close>: the strings up to the first \<open>NULL\<close>.\<close>

fun join :: "string option list \<Rightarrow> string" where
  "join [] = []"
| "join (None # xs) = []"
| "join (Some x # xs) = x @ join xs"

text \<open>\<open>strstrip\<close> walks back from the end while the byte before \<open>e\<close> is whitespace.\<close>

fun strip_end :: "string \<Rightarrow> nat \<Rightarrow> nat" where
  "strip_end s 0 = 0"
| "strip_end s (Suc e) = (if s ! e \<notin> set WHITESPACE then Suc e else strip_end s e)"

definition strstrip :: "string \<Rightarrow> string" where
  "strstrip s = (let t = drop (strspn s WHITESPACE) s in take (strip_end t (length t)) t)"

primrec delete_chars :: "string \<Rightarrow> string \<Rightarrow> string" where
  "delete_chars [] bad = []"
| "delete_chars (c # s) bad = (if c \<in> set bad then delete_chars s bad else c # delete_chars s bad)"

primrec ascii_strlower :: "string \<Rightarrow> string" where
  "ascii_strlower [] = []"
| "ascii_strlower (c # s) =
     (if schar c \<ge> 65 \<and> schar c \<le> 90 then char_of (schar c - 65 + 97) else c) # ascii_strlower s"

definition strshorten :: "string \<Rightarrow> nat \<Rightarrow> string" where
  "strshorten s l = (if l < length s then take l s else s)"

definition unquote :: "string \<Rightarrow> string \<Rightarrow> string" where
  "unquote s quotes =
     (let l = length s in
      if l < 2 then s
      else if s ! 0 \<in> set quotes \<and> s ! (l - 1) = s ! 0 then take (l - 2) (drop 1 s)
      else s)"

definition normalize_env_assignment :: "string \<Rightarrow> string" where
  "normalize_env_assignment s =
     (case strchr s (CHR ''='') of
        None \<Rightarrow> strstrip s
      | Some p \<Rightarrow> take p s @ ''='' @ unquote (strstrip (drop (p + 1) s)) QUOTES)"

text \<open>\<open>unsigned\<close> arithmetic on the 32-bit \<open>length\<close> and \<open>percent\<close>.\<close>

definition ellipsize :: "string \<Rightarrow> 32 word \<Rightarrow> 32 word \<Rightarrow> string option" where
  "ellipsize s len percent =
     (let l = length s; n = unat len in
      if percent > 100 \<or> len < 3 then None
      else if l \<le> 3 \<or> l \<le> n then Some s
      else let x0 = unat ((len * percent) div 100); x = (if x0 > n - 3 then n - 3 else x0) in
        Some (take x s @ ''...'' @ take (n - x - 3) (drop (l - (n - x - 3)) s)))"

subsection \<open>Host names\<close>

definition HOST_NAME_MAX :: nat where
  "HOST_NAME_MAX = 64"

definition hostname_valid_char :: "char \<Rightarrow> bool" where
  "hostname_valid_char c \<longleftrightarrow> (schar c \<ge> 97 \<and> schar c \<le> 122) \<or> (schar c \<ge> 65 \<and> schar c \<le> 90) \<or>
     (schar c \<ge> 48 \<and> schar c \<le> 57) \<or> c = CHR ''-'' \<or> c = CHR ''_'' \<or> c = CHR ''.''"

definition hostname_is_valid :: "string \<Rightarrow> bool" where
  "hostname_is_valid s \<longleftrightarrow> s \<noteq> [] \<and> list_all hostname_valid_char s \<and> \<not> length s > HOST_NAME_MAX"

definition hostname_cleanup :: "string \<Rightarrow> string" where
  "hostname_cleanup s = strshorten (filter hostname_valid_char s) HOST_NAME_MAX"

subsection \<open>Words\<close>

text \<open>One call of \<open>split\<close>: the word, and the new state.\<close>

definition split_c :: "string \<Rightarrow> string \<Rightarrow> (string \<times> string) option" where
  "split_c sep current =
     (if current = [] then None
      else let cur = drop (strspn current sep) current; l = strcspn cur sep in
        Some (take l cur, drop l cur))"

lemma split_c_shrinks: "split_c sep s = Some (w, t) \<Longrightarrow> length t < length s"
  by (cases s) (auto simp: split_c_def Let_def strspn_def strcspn_def split: if_splits)

function (sequential) foreach_word :: "string \<Rightarrow> string \<Rightarrow> string list" where
  "foreach_word sep s = (case split_c sep s of None \<Rightarrow> [] | Some (w, t) \<Rightarrow> w # foreach_word sep t)"
  by pat_completeness auto
termination
  by (relation "measure (length \<circ> snd)") (auto dest!: split_c_shrinks simp del: not_None_eq)

text \<open>The scan of \<open>split_quoted\<close> for the end of a word.\<close>

fun word_end :: "(char \<Rightarrow> bool) \<Rightarrow> bool \<Rightarrow> string \<Rightarrow> nat" where
  "word_end stop escaped [] = 0"
| "word_end stop escaped (c # s) =
     (if escaped then Suc (word_end stop False s)
      else if c = backslash then Suc (word_end stop True s)
      else if stop c then 0
      else Suc (word_end stop False s))"

text \<open>One call of \<open>split_quoted\<close>: the word and what follows it, its length, and the new state.\<close>

definition split_quoted :: "string \<Rightarrow> (string \<times> nat \<times> string) option" where
  "split_quoted current =
     (if current = [] then None
      else let cur = drop (strspn current WHITESPACE) current in
        if chr_at cur 0 = CHR 0x27 \<or> chr_at cur 0 = CHR 0x22 then
          let w = tl cur; e = word_end (\<lambda>c. c = chr_at cur 0) False w in
          Some (w, e, if e = length w then [] else drop (e + 1) w)
        else
          let e = word_end (\<lambda>c. c \<in> set WHITESPACE) False cur in Some (cur, e, drop e cur))"

lemma word_end_le: "word_end stop b s \<le> length s"
  by (induction stop b s rule: word_end.induct) auto

lemma split_quoted_shrinks: "split_quoted s = Some (w, l, t) \<Longrightarrow> length t < length s"
proof -
  assume s: "split_quoted s = Some (w, l, t)"
  let ?cur = "drop (strspn s WHITESPACE) s"
  have ne: "s \<noteq> []" using s by (auto simp: split_quoted_def)
  show ?thesis
  proof (cases ?cur)
    case Nil
    with s ne show ?thesis by (auto simp: split_quoted_def Let_def chr_at_def)
  next
    case (Cons c r)
    have "length (c # r) \<le> length s" unfolding Cons [symmetric] by simp
    moreover have "c \<notin> set WHITESPACE"
      using Cons by (simp add: strspn_def flip: dropWhile_eq_drop) (metis dropWhile_eq_Cons_conv)
    ultimately show ?thesis
      using s ne Cons by (auto simp: split_quoted_def Let_def split: if_splits)
  qed
qed

function (sequential) foreach_word_quoted :: "string \<Rightarrow> (string \<times> nat) list" where
  "foreach_word_quoted s =
     (case split_quoted s of None \<Rightarrow> [] | Some (w, l, t) \<Rightarrow> (w, l) # foreach_word_quoted t)"
  by pat_completeness auto
termination
  by (relation "measure length") (auto dest!: split_quoted_shrinks simp del: not_None_eq)

declare foreach_word.simps [simp del] foreach_word_quoted.simps [simp del]

subsection \<open>Nul-separated lists\<close>

text \<open>\<open>NULSTR_FOREACH\<close> visits the strings of the list up to the first empty one.\<close>

definition nulstr_contains :: "string list option \<Rightarrow> string \<Rightarrow> bool" where
  "nulstr_contains nulstr needle =
     (case nulstr of None \<Rightarrow> False | Some l \<Rightarrow> list_ex (\<lambda>i. i = needle) (takeWhile (\<lambda>i. i \<noteq> []) l))"

end
