(* ===== verification/Util_Path.thy ===== *)
theory Util_Path
  imports Util_Text
begin

section \<open>Paths (src/src/util.c)\<close>

text \<open>
  The lexical path functions of \<open>util.c\<close>.  The reference definition is \<open>components\<close>, the list
  of the non-empty components of a path: \<open>path_equal\<close>, \<open>path_startswith\<close> and
  \<open>path_kill_slashes\<close>, which walk over the bytes, are shown to compute with it.
\<close>

abbreviation slash :: char where
  "slash \<equiv> CHR 0x2F"

definition path_is_absolute :: "string \<Rightarrow> bool" where
  "path_is_absolute p \<longleftrightarrow> chr_at p 0 = slash"

definition is_path :: "string \<Rightarrow> bool" where
  "is_path p \<longleftrightarrow> strchr p slash \<noteq> None"

definition path_make_absolute :: "string \<Rightarrow> string option \<Rightarrow> string" where
  "path_make_absolute p pre =
     (case pre of
        None \<Rightarrow> p
      | Some x \<Rightarrow> if path_is_absolute p then p else join [Some x, Some ''/'', Some p, None])"

definition file_name_from_path :: "string \<Rightarrow> string" where
  "file_name_from_path p = (case strrchr p slash of Some r \<Rightarrow> drop (r + 1) p | None \<Rightarrow> p)"

definition file_in_same_dir :: "string \<Rightarrow> string \<Rightarrow> string" where
  "file_in_same_dir path filename =
     (if path_is_absolute filename then filename
      else case strrchr path slash of None \<Rightarrow> filename | Some e \<Rightarrow> take (e + 1) path @ filename)"

text \<open>The loop of \<open>parent_of_path\<close>: the last two positions where a run of slashes starts.\<close>

fun slash_runs :: "bool \<Rightarrow> nat \<Rightarrow> nat option \<Rightarrow> nat option \<Rightarrow> string \<Rightarrow> nat option \<times> nat option" where
  "slash_runs sl e a b [] = (a, b)"
| "slash_runs sl e a b (c # s) =
     (if \<not> sl \<and> c = slash then slash_runs True (e + 1) b (Some e) s
      else if sl \<and> c \<noteq> slash then slash_runs False (e + 1) a b s
      else slash_runs sl (e + 1) a b s)"

definition parent_of_path :: "string \<Rightarrow> string result" where
  "parent_of_path path =
     (if path = [] then Inl EINVAL
      else let (a, b) = slash_runs False 0 None None path;
               p = (if last path = slash then a else b) in
        case p of
          None \<Rightarrow> Inl EINVAL
        | Some i \<Rightarrow> Inr (if i = 0 then ''/'' else take i path))"

fun kill_slashes_loop :: "bool \<Rightarrow> string \<Rightarrow> string \<times> bool" where
  "kill_slashes_loop sl [] = ([], sl)"
| "kill_slashes_loop sl (c # s) =
     (if c = slash then kill_slashes_loop True s
      else let (r, sl') = kill_slashes_loop False s in ((if sl then [slash, c] else [c]) @ r, sl'))"

definition path_kill_slashes :: "string \<Rightarrow> string" where
  "path_kill_slashes path =
     (let (r, sl) = kill_slashes_loop False path in if r = [] \<and> sl then [slash] else r)"

definition skip_slashes :: "string \<Rightarrow> string" where
  "skip_slashes s = drop (strspn s ''/'') s"

lemma skip_slashes_le: "length (skip_slashes s) \<le> length s"
  by (simp add: skip_slashes_def)

lemma skip_slashes_dropWhile: "skip_slashes s = dropWhile (\<lambda>c. c = slash) s"
  by (simp add: skip_slashes_def strspn_def dropWhile_eq_drop)

lemma strcspn_skipped: "skip_slashes s \<noteq> [] \<Longrightarrow> 0 < strcspn (skip_slashes s) ''/''"
proof -
  assume "skip_slashes s \<noteq> []"
  then obtain c r where s: "skip_slashes s = c # r" by (cases "skip_slashes s") auto
  then have "c \<noteq> slash" by (simp add: skip_slashes_dropWhile dropWhile_eq_Cons_conv)
  then show ?thesis by (simp add: strcspn_def s)
qed

function path_startswith_loop :: "string \<Rightarrow> string \<Rightarrow> bool" where
  "path_startswith_loop path pre =
     (let p = skip_slashes path; q = skip_slashes pre in
      if q = [] then True
      else if p = [] then False
      else let a = strcspn p ''/''; b = strcspn q ''/'' in
        if a \<noteq> b then False
        else if take a p \<noteq> take a q then False
        else path_startswith_loop (drop a p) (drop b q))"
  by pat_completeness auto
termination
proof (relation "measure (length \<circ> fst)", goal_cases)
  case (2 path pre p q a b)
  then have "0 < a" "p \<noteq> []" "length p \<le> length path"
    using strcspn_skipped skip_slashes_le by auto
  then show ?case by (cases p) auto
qed simp

definition path_startswith :: "string \<Rightarrow> string \<Rightarrow> bool" where
  "path_startswith path pre =
     (if (chr_at path 0 = slash) \<noteq> (chr_at pre 0 = slash) then False else path_startswith_loop path pre)"

function path_equal_loop :: "string \<Rightarrow> string \<Rightarrow> bool" where
  "path_equal_loop a b =
     (let p = skip_slashes a; q = skip_slashes b in
      if p = [] \<and> q = [] then True
      else if p = [] \<or> q = [] then False
      else let j = strcspn p ''/''; k = strcspn q ''/'' in
        if j \<noteq> k then False
        else if take j p \<noteq> take j q then False
        else path_equal_loop (drop j p) (drop k q))"
  by pat_completeness auto
termination
proof (relation "measure (length \<circ> fst)", goal_cases)
  case (2 a b p q j k)
  then have "0 < j" "p \<noteq> []" "length p \<le> length a"
    using strcspn_skipped skip_slashes_le by auto
  then show ?case by (cases p) auto
qed simp

declare path_startswith_loop.simps [simp del] path_equal_loop.simps [simp del]

definition path_equal :: "string \<Rightarrow> string \<Rightarrow> bool" where
  "path_equal a b =
     (if (chr_at a 0 = slash) \<noteq> (chr_at b 0 = slash) then False else path_equal_loop a b)"

definition is_device_path :: "string \<Rightarrow> bool" where
  "is_device_path path \<longleftrightarrow> path_startswith path ''/dev/'' \<or> path_startswith path ''/sys/''"

definition in_search_path :: "string \<Rightarrow> string list \<Rightarrow> bool result" where
  "in_search_path path search =
     (case parent_of_path path of
        Inl e \<Rightarrow> Inl e
      | Inr parent \<Rightarrow> Inr (list_ex (path_equal parent) search))"

definition fstab_node_to_udev_node :: "string \<Rightarrow> string" where
  "fstab_node_to_udev_node p =
     (if startswith p ''LABEL='' then ''/dev/disk/by-label/'' @ xescape (unquote (drop 6 p) QUOTES) ''/ ''
      else if startswith p ''UUID='' then ''/dev/disk/by-uuid/'' @ xescape (unquote (drop 5 p) QUOTES) ''/ ''
      else p)"

subsection \<open>Components\<close>

function components :: "string \<Rightarrow> string list" where
  "components s =
     (let p = dropWhile (\<lambda>c. c = slash) s in
      if p = [] then [] else takeWhile (\<lambda>c. c \<noteq> slash) p # components (dropWhile (\<lambda>c. c \<noteq> slash) p))"
  by pat_completeness auto
termination
proof (relation "measure length", goal_cases)
  case (2 s p)
  have "length p \<le> length s" using 2(1) by (simp add: length_dropWhile_le)
  moreover obtain c r where p: "p = c # r" using 2(2) by (cases p) auto
  moreover have "c \<noteq> slash" using 2(1) p by (metis (full_types) dropWhile_eq_Cons_conv)
  ultimately show ?case using length_dropWhile_le [of "\<lambda>c. c \<noteq> slash" r] by auto
qed simp

declare components.simps [simp del]

fun join_path :: "string list \<Rightarrow> string" where
  "join_path [] = []"
| "join_path [c] = c"
| "join_path (c # cs) = c @ slash # join_path cs"

lemma components_Nil [simp]: "components [] = []"
  by (simp add: components.simps)

lemma components_slash [simp]: "components (slash # s) = components s"
  by (subst (1 2) components.simps) simp

lemma components_unfold:
  "p = dropWhile (\<lambda>c. c = slash) s \<Longrightarrow> p \<noteq> [] \<Longrightarrow>
     components s = takeWhile (\<lambda>c. c \<noteq> slash) p # components (dropWhile (\<lambda>c. c \<noteq> slash) p)"
  by (subst components.simps) (simp add: Let_def)

lemma component_step:
  "p = skip_slashes s \<Longrightarrow> p \<noteq> [] \<Longrightarrow> a = strcspn p ''/'' \<Longrightarrow>
     components s = take a p # components (drop a p)"
  unfolding skip_slashes_dropWhile strcspn_def
  by (subst components.simps) (simp add: Let_def flip: takeWhile_eq_take dropWhile_eq_drop)

lemma components_empty: "skip_slashes s = [] \<Longrightarrow> components s = []"
  by (subst components.simps) (simp add: skip_slashes_dropWhile)

lemma take_drop_eq: "j \<noteq> k \<Longrightarrow> j \<le> length p \<Longrightarrow> k \<le> length q \<Longrightarrow> take j p \<noteq> take k q"
  by (metis length_take min.absorb2)

lemma strcspn_le: "strcspn s x \<le> length s"
  by (simp add: strcspn_def length_takeWhile_le)

lemma path_equal_loop_components: "path_equal_loop a b \<longleftrightarrow> components a = components b"
proof (induction a b rule: path_equal_loop.induct)
  case (1 a b)
  define p q where d: "p = skip_slashes a" "q = skip_slashes b"
  define j k where jk: "j = strcspn p ''/''" "k = strcspn q ''/''"
  show ?case
  proof (cases "p = [] \<or> q = []")
    case True
    then show ?thesis
      using d component_step [OF d(1)] component_step [OF d(2)] components_empty [of a] components_empty [of b]
      by (subst path_equal_loop.simps) (auto simp: Let_def)
  next
    case False
    then have c: "components a = take j p # components (drop j p)" "components b = take k q # components (drop k q)"
      using component_step d jk by auto
    show ?thesis
    proof (cases "j = k \<and> take j p = take j q")
      case True
      then show ?thesis
        using False 1 d jk c by (subst path_equal_loop.simps) (auto simp: Let_def)
    next
      case neq: False
      then have "take j p \<noteq> take k q" using take_drop_eq [of j k p q] strcspn_le [of p] strcspn_le [of q] by (cases "j = k") (auto simp: jk)
      then show ?thesis
        using neq False d jk c by (subst path_equal_loop.simps) (auto simp: Let_def)
    qed
  qed
qed

lemma path_startswith_loop_components:
  "path_startswith_loop a b \<longleftrightarrow> prefix (components b) (components a)"
proof (induction a b rule: path_startswith_loop.induct)
  case (1 a b)
  define p q where d: "p = skip_slashes a" "q = skip_slashes b"
  define j k where jk: "j = strcspn p ''/''" "k = strcspn q ''/''"
  show ?case
  proof (cases "p = [] \<or> q = []")
    case True
    then show ?thesis
      using d component_step [OF d(1)] component_step [OF d(2)] components_empty [of a] components_empty [of b]
      by (subst path_startswith_loop.simps) (auto simp: Let_def)
  next
    case False
    then have c: "components a = take j p # components (drop j p)" "components b = take k q # components (drop k q)"
      using component_step d jk by auto
    show ?thesis
    proof (cases "j = k \<and> take j p = take j q")
      case True
      then show ?thesis
        using False 1 d jk c by (subst path_startswith_loop.simps) (auto simp: Let_def)
    next
      case neq: False
      then have "take j p \<noteq> take k q" using take_drop_eq [of j k p q] strcspn_le [of p] strcspn_le [of q] by (cases "j = k") (auto simp: jk)
      then show ?thesis
        using neq False d jk c by (subst path_startswith_loop.simps) (auto simp: Let_def)
    qed
  qed
qed

subsection \<open>Removing redundant slashes\<close>

lemma kill_slashes_skip:
  "kill_slashes_loop sl s =
     kill_slashes_loop (sl \<or> chr_at s 0 = slash) (dropWhile (\<lambda>c. c = slash) s)"
proof (induction s arbitrary: sl)
  case (Cons c s)
  then show ?case using Cons.IH [of True] by (cases "c = slash") (simp_all add: Let_def)
qed (simp add: chr_at_def)

lemma kill_slashes_word:
  "slash \<notin> set w \<Longrightarrow> w \<noteq> [] \<Longrightarrow>
     fst (kill_slashes_loop sl (w @ t)) = (if sl then [slash] else []) @ w @ fst (kill_slashes_loop False t)"
proof (induction w arbitrary: sl)
  case (Cons c w)
  then show ?case
    using Cons.IH [of False] by (cases "w = []") (auto simp: case_prod_beta Let_def)
qed simp

lemma join_path_Cons: "cs \<noteq> [] \<Longrightarrow> join_path (c # cs) = c @ slash # join_path cs"
  by (cases cs) auto

lemma fst_kill_slashes:
  "fst (kill_slashes_loop sl s) =
     (if components s = [] then []
      else (if sl \<or> chr_at s 0 = slash then [slash] else []) @ join_path (components s))"
proof (induction s arbitrary: sl rule: components.induct)
  case (1 s)
  define p where p: "p = dropWhile (\<lambda>c. c = slash) s"
  define w t where wt: "w = takeWhile (\<lambda>c. c \<noteq> slash) p" "t = dropWhile (\<lambda>c. c \<noteq> slash) p"
  show ?case
  proof (cases "p = []")
    case True
    then have "fst (kill_slashes_loop sl s) = []" by (subst kill_slashes_skip) (simp add: p [symmetric])
    then show ?thesis using True by (subst components.simps) (simp add: p)
  next
    case False
    then obtain c r where cr: "p = c # r" by (cases p) auto
    then have "c \<noteq> slash" using p by (metis (full_types) dropWhile_eq_Cons_conv)
    then have w: "w \<noteq> []" "slash \<notin> set w" "p = w @ t"
      by (auto simp: wt cr dest: set_takeWhileD)
    have t: "t = [] \<or> chr_at t 0 = slash"
    proof (cases t)
      case (Cons d u)
      have "d = slash" using wt(2) Cons by (metis (full_types) dropWhile_eq_Cons_conv)
      then show ?thesis by (simp add: Cons)
    qed simp
    have "fst (kill_slashes_loop sl s) =
        (if sl \<or> chr_at s 0 = slash then [slash] else []) @ w @ fst (kill_slashes_loop False t)"
      using kill_slashes_word [OF w(2,1)] w(3) by (subst kill_slashes_skip) (simp flip: p)
    moreover have c: "components s = w # components t"
      using components_unfold [OF p False] by (simp add: wt)
    moreover have "fst (kill_slashes_loop False t) =
        (if components t = [] then [] else slash # join_path (components t))"
      using 1 [OF p False, of False] t by (auto simp flip: wt)
    ultimately show ?thesis by (simp add: join_path_Cons)
  qed
qed

lemma snd_kill_slashes: "snd (kill_slashes_loop sl s) = (if s = [] then sl else last s = slash)"
  by (induction sl s rule: kill_slashes_loop.induct) (auto simp: Let_def split: prod.splits)

lemma components_nonempty: "c \<in> set (components p) \<Longrightarrow> c \<noteq> [] \<and> slash \<notin> set c"
proof (induction p rule: components.induct)
  case (1 s)
  define p where p: "p = dropWhile (\<lambda>d. d = slash) s"
  show ?case
  proof (cases p)
    case Nil
    then show ?thesis using 1(2) by (subst (asm) components.simps) (simp add: p [symmetric])
  next
    case (Cons d r)
    then have "d \<noteq> slash" using p by (metis (full_types) dropWhile_eq_Cons_conv)
    then have "takeWhile (\<lambda>c. c \<noteq> slash) p \<noteq> []" by (simp add: Cons)
    moreover have "slash \<notin> set (takeWhile (\<lambda>c. c \<noteq> slash) p)" by (auto dest: set_takeWhileD)
    moreover have "c = takeWhile (\<lambda>c. c \<noteq> slash) p \<or> c \<in> set (components (dropWhile (\<lambda>c. c \<noteq> slash) p))"
      using 1(2) components_unfold [OF p] Cons by simp
    moreover have "c \<in> set (components (dropWhile (\<lambda>c. c \<noteq> slash) p)) \<Longrightarrow> c \<noteq> [] \<and> slash \<notin> set c"
      using 1(1) [OF p] Cons by blast
    ultimately show ?thesis by fastforce
  qed
qed

lemma components_Nil_iff: "components s = [] \<longleftrightarrow> set s \<subseteq> {slash}"
  by (subst components.simps) (auto simp: Let_def)

lemma path_kill_slashes_components:
  "path_kill_slashes p = (if path_is_absolute p then [slash] else []) @ join_path (components p)"
proof (cases "components p = []")
  case True
  then have p: "set p \<subseteq> {slash}" by (simp add: components_Nil_iff)
  then have "snd (kill_slashes_loop False p) = path_is_absolute p"
    using last_in_set [of p] by (cases p) (auto simp: snd_kill_slashes path_is_absolute_def chr_at_def)
  then show ?thesis
    using fst_kill_slashes [of False p] True by (simp add: path_kill_slashes_def case_prod_beta)
next
  case False
  have "join_path (components p) \<noteq> []"
  proof (cases "components p")
    case (Cons c cs)
    then have "c \<noteq> []" using components_nonempty [of c p] by simp
    then show ?thesis using Cons by (cases cs) auto
  qed (use False in simp)
  then show ?thesis
    using fst_kill_slashes [of False p] False
    by (simp add: path_kill_slashes_def path_is_absolute_def case_prod_beta)
qed

end
