(* ===== verification/Unit_Name.thy ===== *)
theory Unit_Name
  imports Util_Path
begin

section \<open>Unit names (src/src/unit-name.c)\<close>

text \<open>
  Validation, building, taking apart, escaping and path mapping of unit names.  \<open>None\<close> is a
  failed assertion (or, in \<open>unit_name_replace_instance\<close>, arithmetic on a null pointer); running
  out of memory is left out.
\<close>

definition UNIT_NAME_MAX :: nat where
  "UNIT_NAME_MAX = 256"

definition VALID_CHARS :: string where
  "VALID_CHARS = ''0123456789'' @ ''abcdefghijklmnopqrstuvwxyz'' @ ''ABCDEFGHIJKLMNOPQRSTUVWXYZ'' @
     '':-_.'' @ [backslash]"

abbreviation at_sign :: char where
  "at_sign \<equiv> CHR 0x40"

abbreviation dot :: char where
  "dot \<equiv> CHR ''.''"

subsection \<open>Validation\<close>

definition unit_name_is_valid_no_type :: "string \<Rightarrow> bool \<Rightarrow> bool" where
  "unit_name_is_valid_no_type n template_ok =
     (if length n \<ge> UNIT_NAME_MAX then False
      else case strrchr n dot of
        None \<Rightarrow> False
      | Some e \<Rightarrow>
          if e = 0 then False
          else if \<not> list_all (\<lambda>c. c = at_sign \<or> c \<in> set VALID_CHARS) (take e n) then False
          else case strchr (take e n) at_sign of
            None \<Rightarrow> True
          | Some a \<Rightarrow> if a = 0 then False else if \<not> template_ok \<and> a + 1 = e then False else True)"

definition unit_instance_is_valid :: "string \<Rightarrow> bool" where
  "unit_instance_is_valid i \<longleftrightarrow> i \<noteq> [] \<and> list_all (\<lambda>c. c = at_sign \<or> c \<in> set VALID_CHARS) i"

definition unit_prefix_is_valid :: "string \<Rightarrow> bool" where
  "unit_prefix_is_valid p \<longleftrightarrow> p \<noteq> [] \<and> list_all (\<lambda>c. c \<in> set VALID_CHARS) p"

subsection \<open>Taking names apart\<close>

definition unit_name_to_instance :: "string \<Rightarrow> string option option" where
  "unit_name_to_instance n =
     (case strchr n at_sign of
        None \<Rightarrow> Some None
      | Some p \<Rightarrow>
          (case strrchr n dot of
             None \<Rightarrow> None
           | Some d \<Rightarrow> if p < d then Some (Some (take (d - p - 1) (drop (p + 1) n))) else None))"

definition unit_name_to_prefix_and_instance :: "string \<Rightarrow> string option" where
  "unit_name_to_prefix_and_instance n = map_option (\<lambda>d. take d n) (strrchr n dot)"

definition unit_name_to_prefix :: "string \<Rightarrow> string option" where
  "unit_name_to_prefix n =
     (case strchr n at_sign of Some p \<Rightarrow> Some (take p n) | None \<Rightarrow> unit_name_to_prefix_and_instance n)"

definition unit_name_change_suffix :: "string \<Rightarrow> string \<Rightarrow> string option" where
  "unit_name_change_suffix n suf =
     (if \<not> unit_name_is_valid_no_type n True then None
      else map_option (\<lambda>e. take e n @ suf) (strrchr n dot))"

definition unit_name_is_template :: "string \<Rightarrow> bool" where
  "unit_name_is_template n =
     (case strchr n at_sign of None \<Rightarrow> False | Some p \<Rightarrow> chr_at n (p + 1) = dot)"

text \<open>Without an \<open>@\<close> the code computes \<open>p - f\<close> with \<open>p == NULL\<close> and copies that many bytes.\<close>

definition unit_name_replace_instance :: "string \<Rightarrow> string \<Rightarrow> string option" where
  "unit_name_replace_instance f i =
     (case strrchr f dot of
        None \<Rightarrow> None
      | Some e \<Rightarrow>
          (case strchr f at_sign of None \<Rightarrow> None | Some p \<Rightarrow> Some (take (p + 1) f @ i @ drop e f)))"

definition unit_name_template :: "string \<Rightarrow> string option" where
  "unit_name_template f =
     (case strchr f at_sign of
        None \<Rightarrow> Some f
      | Some p \<Rightarrow> map_option (\<lambda>e. take (p + 1) f @ drop e f) (strrchr f dot))"

subsection \<open>Building and escaping names\<close>

definition unit_name_build :: "string \<Rightarrow> string option \<Rightarrow> string \<Rightarrow> string option" where
  "unit_name_build pre inst suf =
     (if \<not> unit_prefix_is_valid pre then None
      else case inst of
        None \<Rightarrow> Some (strappend (Some pre) (Some suf))
      | Some i \<Rightarrow>
          if \<not> unit_instance_is_valid i then None
          else Some (join [Some pre, Some [at_sign], Some i, Some suf, None]))"

primrec do_escape :: "string \<Rightarrow> string" where
  "do_escape [] = []"
| "do_escape (c # f) =
     (if c = slash then ''-''
      else if c = CHR ''-'' \<or> c = backslash \<or> c \<notin> set VALID_CHARS
           then [backslash, CHR ''x'', hex_hi c, hex_lo c]
      else [c]) @ do_escape f"

definition unit_name_build_escape :: "string \<Rightarrow> string option \<Rightarrow> string \<Rightarrow> string" where
  "unit_name_build_escape pre inst suf =
     (case inst of
        Some i \<Rightarrow> do_escape pre @ [at_sign] @ do_escape i @ suf
      | None \<Rightarrow> do_escape pre @ suf)"

definition unit_name_escape :: "string \<Rightarrow> string" where
  "unit_name_escape f = do_escape f"

fun unit_name_unescape :: "string \<Rightarrow> string" where
  "unit_name_unescape [] = []"
| "unit_name_unescape (c # f) =
     (if c = CHR ''-'' then slash # unit_name_unescape f
      else if c = backslash then
        (let a = unhexchar (chr_at f 1); b = unhexchar (chr_at f 2) in
         if chr_at f 0 \<noteq> CHR ''x'' \<or> a < 0 \<or> b < 0 then backslash # unit_name_unescape f
         else hex_byte a b # unit_name_unescape (drop 3 f))
      else c # unit_name_unescape f)"

subsection \<open>Names and paths\<close>

text \<open>\<open>p[0] == '/' ? p + 1 : p\<close>\<close>

definition strip_root :: "string \<Rightarrow> string" where
  "strip_root p = (if chr_at p 0 = slash then tl p else p)"

definition unit_name_from_path :: "string \<Rightarrow> string \<Rightarrow> string" where
  "unit_name_from_path path suf =
     (let p = strip_root (path_kill_slashes path) in
      if p = [] then strappend (Some ''-'') (Some suf) else unit_name_build_escape p None suf)"

definition unit_name_from_path_instance :: "string \<Rightarrow> string \<Rightarrow> string \<Rightarrow> string" where
  "unit_name_from_path_instance pre path suf =
     (let p = strip_root (path_kill_slashes path) in
      if p = [] then unit_name_build_escape pre (Some ''-'') suf
      else unit_name_build_escape pre (Some p) suf)"

text \<open>The tail of \<open>unit_name_to_path\<close> and \<open>unit_name_path_unescape\<close>.\<close>

definition root_path :: "string \<Rightarrow> string" where
  "root_path e = (if chr_at e 0 \<noteq> slash then strappend (Some ''/'') (Some e) else e)"

definition unit_name_path_unescape :: "string \<Rightarrow> string" where
  "unit_name_path_unescape f = root_path (unit_name_unescape f)"

definition unit_name_to_path :: "string \<Rightarrow> string option" where
  "unit_name_to_path name = map_option (\<lambda>w. root_path (unit_name_unescape w)) (unit_name_to_prefix name)"

subsection \<open>Escaping is reversible and gives valid names\<close>

lemma unescape_do_escape: "unit_name_unescape (do_escape f) = f"
  by (induction f) (auto simp: Let_def numeral_2_eq_2 numeral_3_eq_3 backslash_def)

lemma do_escape_length: "length (do_escape f) \<le> 4 * length f"
  by (induction f) auto

lemma hexchar_valid: "hexchar x \<in> set VALID_CHARS"
proof -
  have "nat (x AND 15) < length ''0123456789abcdef''" by (simp add: and_15)
  then have "hexchar x \<in> set ''0123456789abcdef''" unfolding hexchar_def by (rule nth_mem)
  then show ?thesis by (auto simp: VALID_CHARS_def)
qed

lemma hex_valid [simp]: "hex_hi c \<in> set VALID_CHARS" "hex_lo c \<in> set VALID_CHARS"
  by (simp_all add: hex_hi_def hex_lo_def hexchar_valid)

lemma escape_chars_valid [simp]:
  "backslash \<in> set VALID_CHARS" "CHR ''x'' \<in> set VALID_CHARS" "CHR ''-'' \<in> set VALID_CHARS"
  "at_sign \<notin> set VALID_CHARS" "slash \<notin> set VALID_CHARS" "CHR 0x00 \<notin> set VALID_CHARS"
  by (simp_all add: VALID_CHARS_def backslash_def)

lemma do_escape_valid: "set (do_escape f) \<subseteq> set VALID_CHARS"
  by (induction f) auto

lemma do_escape_Nil_iff [simp]: "do_escape f = [] \<longleftrightarrow> f = []"
  by (cases f) auto

subsection \<open>Escaped names taken apart\<close>

text \<open>A suffix such as \<open>.service\<close>: a dot, and after it neither a dot nor an \<open>@\<close>.\<close>

definition is_suffix :: "string \<Rightarrow> bool" where
  "is_suffix suf \<longleftrightarrow> suf \<noteq> [] \<and> hd suf = dot \<and> dot \<notin> set (tl suf) \<and> at_sign \<notin> set suf"

lemma is_suffix_cases: "is_suffix suf \<Longrightarrow> \<exists>s. suf = dot # s \<and> dot \<notin> set s \<and> at_sign \<notin> set s"
  by (cases suf) (auto simp: is_suffix_def)

lemma last_dot: "is_suffix suf \<Longrightarrow> strrchr (x @ suf) dot = Some (length x)"
  using is_suffix_cases strrchr_last by auto

lemma no_at: "at_sign \<notin> set x \<Longrightarrow> is_suffix suf \<Longrightarrow> strchr (x @ suf) at_sign = None"
  by (auto simp: strchr_None_iff is_suffix_def)

lemma valid_no_at: "set x \<subseteq> set VALID_CHARS \<Longrightarrow> at_sign \<notin> set x"
  using escape_chars_valid by blast

lemma first_at: "set x \<subseteq> set VALID_CHARS \<Longrightarrow> strchr (x @ at_sign # y) at_sign = Some (length x)"
  by (rule strchr_first) (rule valid_no_at)

lemma name_parts_plain:
  assumes "set x \<subseteq> set VALID_CHARS" "is_suffix suf"
  shows "unit_name_to_prefix (x @ suf) = Some x" "unit_name_to_instance (x @ suf) = Some None"
  using no_at [OF valid_no_at [OF assms(1)] assms(2)] last_dot [OF assms(2)]
  by (simp_all add: unit_name_to_prefix_def unit_name_to_instance_def unit_name_to_prefix_and_instance_def)

lemma name_parts_instance:
  assumes "set x \<subseteq> set VALID_CHARS" "is_suffix suf"
  shows "unit_name_to_prefix (x @ at_sign # i @ suf) = Some x"
    "unit_name_to_instance (x @ at_sign # i @ suf) = Some (Some i)"
  using first_at [OF assms(1)] last_dot [OF assms(2), of "x @ at_sign # i"]
  by (simp_all add: unit_name_to_prefix_def unit_name_to_instance_def)

lemma valid_name_plain:
  assumes "set x \<subseteq> set VALID_CHARS" "x \<noteq> []" "is_suffix suf" "length (x @ suf) < UNIT_NAME_MAX"
  shows "unit_name_is_valid_no_type (x @ suf) t"
  using assms last_dot [OF assms(3)] strchr_None_iff [THEN iffD2, OF valid_no_at [OF assms(1)]]
  by (auto simp: unit_name_is_valid_no_type_def list_all_iff)

lemma valid_name_instance:
  assumes "set x \<subseteq> set VALID_CHARS" "x \<noteq> []" "is_suffix suf" "length (x @ at_sign # i @ suf) < UNIT_NAME_MAX"
    and "list_all (\<lambda>c. c = at_sign \<or> c \<in> set VALID_CHARS) i" "t \<or> i \<noteq> []"
  shows "unit_name_is_valid_no_type (x @ at_sign # i @ suf) t"
  using assms last_dot [OF assms(3), of "x @ at_sign # i"] first_at [OF assms(1)]
  by (auto simp: unit_name_is_valid_no_type_def list_all_iff)

lemma strip_root_components:
  "strip_root (path_kill_slashes p) = join_path (components p)"
  "join_path (components p) = [] \<longleftrightarrow> components p = []"
  "chr_at (join_path (components p)) 0 \<noteq> slash"
proof -
  have hd: "join_path (components p) = [] \<and> components p = [] \<or>
      (\<exists>c r. join_path (components p) = c # r \<and> c \<noteq> slash \<and> components p \<noteq> [])"
  proof (cases "components p")
    case (Cons c cs)
    then have "c \<noteq> [] \<and> slash \<notin> set c" using components_nonempty [of c p] by simp
    then show ?thesis using Cons by (cases cs; cases c) auto
  qed simp
  then show "join_path (components p) = [] \<longleftrightarrow> components p = []" by auto
  from hd show n: "chr_at (join_path (components p)) 0 \<noteq> slash" by (auto simp: chr_at_def)
  show "strip_root (path_kill_slashes p) = join_path (components p)"
    using n by (simp add: path_kill_slashes_components strip_root_def)
qed

end
