(* ===== verification/Unit_GC.thy ===== *)
theory Unit_GC
  imports Manager_State
begin

section \<open>Garbage collection of units (src/src/manager.c)\<close>

text \<open>
  Units that nobody references and that are inactive are collected: \<open>unit_gc_sweep\<close> decides
  for a unit in the queue whether a unit that has to stay (\<open>unit_check_gc\<close>) references it,
  directly or through others, and \<open>manager_dispatch_gc_queue\<close> puts the others in the cleanup
  queue.  The marks are offsets to a number that grows with every run, as in the code.

  The first argument of \<open>unit_gc_sweep\<close> bounds the depth of the recursion; one more than the
  number of units is enough.  The time after which a run is due is a parameter.
\<close>

subsection \<open>The sweep\<close>

definition GC_OFFSET_IN_PATH :: "32 word" where "GC_OFFSET_IN_PATH = 0"
definition GC_OFFSET_UNSURE :: "32 word" where "GC_OFFSET_UNSURE = 1"
definition GC_OFFSET_GOOD :: "32 word" where "GC_OFFSET_GOOD = 2"
definition GC_OFFSET_BAD :: "32 word" where "GC_OFFSET_BAD = 3"

lemmas gc_offset_defs = GC_OFFSET_IN_PATH_def GC_OFFSET_UNSURE_def GC_OFFSET_GOOD_def GC_OFFSET_BAD_def

definition unit_add_to_cleanup_queue :: "uid \<Rightarrow> manager \<Rightarrow> manager" where
  "unit_add_to_cleanup_queue u m =
     (if u_in_cleanup_queue (m_unit m u) then m
      else (upd_unit u (\<lambda>x. x\<lparr>u_in_cleanup_queue := True\<rparr>) m)
             \<lparr>m_cleanup_queue := u # m_cleanup_queue m\<rparr>)"

definition set_gc_marker :: "uid \<Rightarrow> 32 word \<Rightarrow> manager \<Rightarrow> manager" where
  "set_gc_marker u g m = upd_unit u (\<lambda>x. x\<lparr>u_gc_marker := g\<rparr>) m"

abbreviation gc_mark :: "manager \<Rightarrow> uid \<Rightarrow> 32 word" where
  "gc_mark m u \<equiv> u_gc_marker (m_unit m u)"

text \<open>
  The loop over the units that reference this one: \<open>None\<close> if one of them has to stay, and
  otherwise whether all of them are bad.
\<close>

fun sweep_refs ::
    "(uid \<Rightarrow> manager \<Rightarrow> manager option) \<Rightarrow> 32 word \<Rightarrow> uid list \<Rightarrow> bool \<Rightarrow> manager \<Rightarrow> (bool option \<times> manager) option" where
  "sweep_refs sweep g [] is_bad m = Some (Some is_bad, m)"
| "sweep_refs sweep g (other # us) is_bad m =
     do {
       m' \<leftarrow> sweep other m;
       if gc_mark m' other = g + GC_OFFSET_GOOD then Some (None, m')
       else sweep_refs sweep g us (if gc_mark m' other \<noteq> g + GC_OFFSET_BAD then False else is_bad) m' }"

definition sweep_step :: "(uid \<Rightarrow> manager \<Rightarrow> manager option) \<Rightarrow> 32 word \<Rightarrow> uid \<Rightarrow> manager \<Rightarrow> manager option" where
  "sweep_step sweep g u m =
     (let bad = (\<lambda>m. unit_add_to_cleanup_queue u (set_gc_marker u (g + GC_OFFSET_BAD) m)) in
      if gc_mark m u = g + GC_OFFSET_GOOD \<or> gc_mark m u = g + GC_OFFSET_BAD \<or>
         gc_mark m u = g + GC_OFFSET_IN_PATH then Some m
      else if u_in_cleanup_queue (m_unit m u) then Some (bad m)
      else if unit_check_gc m u then Some (set_gc_marker u (g + GC_OFFSET_GOOD) m)
      else do {
        (r, m') \<leftarrow> sweep_refs sweep g (u_deps m u UNIT_REFERENCED_BY) True
                     (set_gc_marker u (g + GC_OFFSET_IN_PATH) m);
        Some (case r of
                None \<Rightarrow> set_gc_marker u (g + GC_OFFSET_GOOD) m'
              | Some is_bad \<Rightarrow>
                  if is_bad then bad m'
                  else unit_add_to_gc_queue u (set_gc_marker u (g + GC_OFFSET_UNSURE) m')) })"

primrec unit_gc_sweep :: "nat \<Rightarrow> 32 word \<Rightarrow> uid \<Rightarrow> manager \<Rightarrow> manager option" where
  "unit_gc_sweep 0 g = (\<lambda>u m. None)"
| "unit_gc_sweep (Suc n) g = sweep_step (unit_gc_sweep n g) g"

subsection \<open>The queue\<close>

partial_function (option) gc_queue_loop :: "nat \<Rightarrow> 32 word \<Rightarrow> nat \<Rightarrow> manager \<Rightarrow> (nat \<times> manager) option" where
  "gc_queue_loop f g n m =
     (case m_gc_queue m of
        [] \<Rightarrow> Some (n, m)
      | u # _ \<Rightarrow>
          if \<not> u_in_gc_queue (m_unit m u) then None
          else do {
            m1 \<leftarrow> unit_gc_sweep f g u m;
            let m2 = (upd_unit u (\<lambda>x. x\<lparr>u_in_gc_queue := False\<rparr>) m1)\<lparr>m_gc_queue := remove1 u (m_gc_queue m1)\<rparr>;
                m3 = (if gc_mark m2 u = g + GC_OFFSET_BAD \<or> gc_mark m2 u = g + GC_OFFSET_UNSURE
                      then unit_add_to_cleanup_queue u (set_gc_marker u (g + GC_OFFSET_BAD) m2) else m2)
            in gc_queue_loop f g (n + 1) m3 })"

text \<open>The number a run starts from; the field is an \<open>int\<close>, which is taken to wrap around.\<close>

definition next_gc_marker :: "32 word \<Rightarrow> 32 word" where
  "next_gc_marker g = (let g' = g + 4 in if sint (g' + 4) \<le> 4 then 1 else g')"

definition GC_QUEUE_ENTRIES_MAX :: nat where "GC_QUEUE_ENTRIES_MAX = 16"

definition manager_dispatch_gc_queue :: "nat \<Rightarrow> bool \<Rightarrow> manager \<Rightarrow> (nat \<times> manager) option" where
  "manager_dispatch_gc_queue f due m =
     (if m_n_in_gc_queue m < GC_QUEUE_ENTRIES_MAX \<and> \<not> due then Some (0, m)
      else do {
        let g = next_gc_marker (m_gc_marker m);
        (n, m') \<leftarrow> gc_queue_loop f g 0 (m\<lparr>m_gc_marker := g\<rparr>);
        Some (n, m'\<lparr>m_n_in_gc_queue := 0\<rparr>) })"


subsection \<open>What the sweep finds out\<close>

text \<open>The units that have to stay, and those that reach one of them over references.\<close>

inductive needed :: "manager \<Rightarrow> uid \<Rightarrow> bool" for m where
  stays: "\<not> u_in_cleanup_queue (m_unit m u) \<Longrightarrow> unit_check_gc m u \<Longrightarrow> needed m u"
| referenced: "\<not> u_in_cleanup_queue (m_unit m u) \<Longrightarrow> v \<in> set (u_deps m u UNIT_REFERENCED_BY) \<Longrightarrow> needed m v \<Longrightarrow> needed m u"

lemma needed_not_cleaned: "needed m u \<Longrightarrow> \<not> u_in_cleanup_queue (m_unit m u)"
  by (cases rule: needed.cases) auto

definition goods :: "32 word \<Rightarrow> manager \<Rightarrow> uid set" where
  "goods g m = {u. gc_mark m u = g + GC_OFFSET_GOOD}"

definition bads :: "32 word \<Rightarrow> manager \<Rightarrow> uid set" where
  "bads g m = {u. gc_mark m u = g + GC_OFFSET_BAD}"

definition path :: "32 word \<Rightarrow> manager \<Rightarrow> uid set" where
  "path g m = {u. gc_mark m u = g + GC_OFFSET_IN_PATH}"

definition gc_static :: "umeta \<Rightarrow> umeta" where
  "gc_static x = x\<lparr>u_gc_marker := 0, u_in_gc_queue := False, u_in_cleanup_queue := False\<rparr>"

text \<open>A run changes marks and queues and nothing else.\<close>

definition gc_frame :: "manager \<Rightarrow> manager \<Rightarrow> bool" where
  "gc_frame m0 m \<longleftrightarrow> (\<forall>u. gc_static (m_unit m u) = gc_static (m_unit m0 u)) \<and>
     m\<lparr>m_unit := m_unit m0, m_gc_queue := m_gc_queue m0, m_n_in_gc_queue := m_n_in_gc_queue m0,
       m_cleanup_queue := m_cleanup_queue m0\<rparr> = m0"

lemma gc_staticD:
  assumes "gc_static x = gc_static y"
  shows "u_dependencies x = u_dependencies y" "u_load_state x = u_load_state y" "u_vt_no_gc x = u_vt_no_gc y"
    "u_no_gc x = u_no_gc y" "u_job x = u_job y" "u_active_state x = u_active_state y" "u_vt_check_gc x = u_vt_check_gc y"
    "u_names x = u_names y" "u_in_load_queue x = u_in_load_queue y" "u_in_dbus_queue x = u_in_dbus_queue y"
  using assms by (cases x; cases y; simp add: gc_static_def)+

lemma gc_frame_deps: "gc_frame m0 m \<Longrightarrow> u_deps m u = u_deps m0 u"
  unfolding gc_frame_def using gc_staticD(1) by blast

lemma gc_frame_check: "gc_frame m0 m \<Longrightarrow> unit_check_gc m u = unit_check_gc m0 u"
  unfolding gc_frame_def unit_check_gc_def unit_active_state_def Let_def
  by (elim conjE allE [of _ u]) (simp add: gc_staticD(2-7) [of "m_unit m u" "m_unit m0 u"])

definition gc_inv :: "32 word \<Rightarrow> uid set \<Rightarrow> manager \<Rightarrow> manager \<Rightarrow> bool" where
  "gc_inv g U m0 m \<longleftrightarrow> gc_frame m0 m \<and> (\<forall>u \<in> goods g m. needed m0 u) \<and>
     (\<forall>u \<in> bads g m. u_in_cleanup_queue (m_unit m u)) \<and> (\<forall>u. u_in_cleanup_queue (m_unit m u) \<longrightarrow> \<not> needed m0 u) \<and>
     (\<forall>u. u_in_cleanup_queue (m_unit m0 u) \<longrightarrow> u_in_cleanup_queue (m_unit m u)) \<and>
     distinct (m_gc_queue m) \<and> set (m_gc_queue m) = {u. u_in_gc_queue (m_unit m u)} \<and> set (m_gc_queue m) \<subseteq> U \<and>
     distinct (m_cleanup_queue m) \<and> set (m_cleanup_queue m) = {u. u_in_cleanup_queue (m_unit m u)}"

definition grows :: "32 word \<Rightarrow> manager \<Rightarrow> manager \<Rightarrow> bool" where
  "grows g m m' \<longleftrightarrow> goods g m \<subseteq> goods g m' \<and> bads g m \<subseteq> bads g m' \<and> set (m_gc_queue m) \<subseteq> set (m_gc_queue m') \<and>
     path g m' = path g m"

lemma grows_refl [simp]: "grows g m m"
  by (simp add: grows_def)

lemma grows_trans: "grows g a b \<Longrightarrow> grows g b c \<Longrightarrow> grows g a c"
  by (auto simp: grows_def)

text \<open>A set of units whose references lead nowhere but back, to the path, or to bad units.\<close>

definition explored :: "32 word \<Rightarrow> manager \<Rightarrow> uid set \<Rightarrow> manager \<Rightarrow> uid set \<Rightarrow> bool" where
  "explored g m0 P m E \<longleftrightarrow> (\<forall>x \<in> E. \<not> u_in_cleanup_queue (m_unit m0 x) \<and> \<not> unit_check_gc m0 x \<and>
     set (u_deps m0 x UNIT_REFERENCED_BY) \<subseteq> E \<union> P \<union> bads g m)"

definition swept :: "32 word \<Rightarrow> uid set \<Rightarrow> manager \<Rightarrow> uid \<Rightarrow> manager \<Rightarrow> manager \<Rightarrow> bool" where
  "swept g U m0 u m m' \<longleftrightarrow> gc_inv g U m0 m' \<and> grows g m m' \<and>
     (u \<in> goods g m' \<or> (\<exists>E. explored g m0 (path g m) m' E \<and> u \<in> E \<union> path g m \<union> bads g m')) \<and>
     gc_mark m' u \<in> {g + GC_OFFSET_IN_PATH, g + GC_OFFSET_UNSURE, g + GC_OFFSET_GOOD, g + GC_OFFSET_BAD}"

definition sweeps :: "32 word \<Rightarrow> uid set \<Rightarrow> manager \<Rightarrow> nat \<Rightarrow> (uid \<Rightarrow> manager \<Rightarrow> manager option) \<Rightarrow> bool" where
  "sweeps g U m0 n f \<longleftrightarrow> (\<forall>m u. gc_inv g U m0 m \<and> u \<in> U \<and> card (U - path g m) \<le> n \<longrightarrow>
     (\<exists>m'. f u m = Some m' \<and> swept g U m0 u m m'))"

lemma explored_mono:
  assumes "explored g m0 P m E" "bads g m \<subseteq> bads g m'"
  shows "explored g m0 P m' E"
  using assms unfolding explored_def by blast

lemma explored_Un: "explored g m0 P m E \<Longrightarrow> explored g m0 P m E' \<Longrightarrow> explored g m0 P m (E \<union> E')"
  unfolding explored_def by blast

lemma explored_needed:
  assumes "explored g m0 {} m E" "\<forall>u \<in> bads g m. \<not> needed m0 u" "u \<in> E"
  shows "\<not> needed m0 u"
proof
  assume "needed m0 u"
  then show False using assms(3)
  proof (induction rule: needed.induct)
    case (stays u)
    then show ?case using assms(1) unfolding explored_def by blast
  next
    case (referenced u v)
    then have "v \<in> E \<union> bads g m" using assms(1) unfolding explored_def by blast
    then show ?case using referenced.IH referenced.hyps(3) assms(2) by blast
  qed
qed

text \<open>The loop, for a function that sweeps.\<close>

lemma sweep_refs_ok:
  assumes f: "sweeps g U m0 n f"
  shows "gc_inv g U m0 m \<Longrightarrow> set us \<subseteq> U \<Longrightarrow> card (U - path g m) \<le> n \<Longrightarrow>
    \<exists>r m'. sweep_refs f g us b m = Some (r, m') \<and> gc_inv g U m0 m' \<and> grows g m m' \<and>
      (case r of
         None \<Rightarrow> set us \<inter> goods g m' \<noteq> {}
       | Some b' \<Rightarrow> (b' \<longrightarrow> b \<and> set us \<subseteq> bads g m') \<and>
           (\<exists>E. explored g m0 (path g m) m' E \<and> set us \<subseteq> E \<union> path g m \<union> bads g m'))"
proof (induction us arbitrary: b m)
  case Nil
  then show ?case by (auto intro: exI [of _ "{}"] simp: explored_def)
next
  case (Cons v us)
  obtain m1 where m1: "f v m = Some m1" "gc_inv g U m0 m1" "grows g m m1"
      "v \<in> goods g m1 \<or> (\<exists>E. explored g m0 (path g m) m1 E \<and> v \<in> E \<union> path g m \<union> bads g m1)"
    using f Cons.prems unfolding sweeps_def swept_def by auto blast
  show ?case
  proof (cases "v \<in> goods g m1")
    case True
    then show ?thesis using m1 by (auto simp: goods_def)
  next
    case False
    then obtain E1 where E1: "explored g m0 (path g m) m1 E1" "v \<in> E1 \<union> path g m \<union> bads g m1" using m1(4) by blast
    have p1: "path g m1 = path g m" using m1(3) by (simp add: grows_def)
    let ?b = "if gc_mark m1 v \<noteq> g + GC_OFFSET_BAD then False else b"
    obtain r m2 where m2: "sweep_refs f g us ?b m1 = Some (r, m2)" "gc_inv g U m0 m2" "grows g m1 m2"
        "case r of
         None \<Rightarrow> set us \<inter> goods g m2 \<noteq> {}
       | Some b' \<Rightarrow> (b' \<longrightarrow> ?b \<and> set us \<subseteq> bads g m2) \<and>
           (\<exists>E. explored g m0 (path g m) m2 E \<and> set us \<subseteq> E \<union> path g m \<union> bads g m2)"
      using Cons.IH [OF m1(2), of ?b, unfolded p1] Cons.prems by auto
    have step: "sweep_refs f g (v # us) b m = Some (r, m2)" using m1(1) False m2(1) by (simp add: goods_def)
    have mono: "bads g m1 \<subseteq> bads g m2" using m2(3) by (simp add: grows_def)
    show ?thesis
    proof (cases r)
      case None
      then show ?thesis using step m2 grows_trans [OF m1(3) m2(3)] by auto
    next
      case (Some b')
      then obtain E2 where E2: "explored g m0 (path g m) m2 E2" "set us \<subseteq> E2 \<union> path g m \<union> bads g m2" using m2(4) by auto
      have "explored g m0 (path g m) m2 (E1 \<union> E2)" using explored_Un [OF explored_mono [OF E1(1) mono] E2(1)] .
      moreover have "set (v # us) \<subseteq> (E1 \<union> E2) \<union> path g m \<union> bads g m2" using E1(2) E2(2) mono by auto
      moreover have "b' \<longrightarrow> b \<and> set (v # us) \<subseteq> bads g m2" using m2(4) Some mono by (auto simp: bads_def split: if_splits)
      ultimately show ?thesis using step Some m2(2) grows_trans [OF m1(3) m2(3)] by auto
    qed
  qed
qed


lemma offsets [simp]:
  "GC_OFFSET_GOOD \<noteq> GC_OFFSET_BAD" "GC_OFFSET_BAD \<noteq> GC_OFFSET_GOOD"
  "GC_OFFSET_GOOD \<noteq> GC_OFFSET_IN_PATH" "GC_OFFSET_IN_PATH \<noteq> GC_OFFSET_GOOD"
  "GC_OFFSET_BAD \<noteq> GC_OFFSET_IN_PATH" "GC_OFFSET_IN_PATH \<noteq> GC_OFFSET_BAD"
  "GC_OFFSET_UNSURE \<noteq> GC_OFFSET_IN_PATH" "GC_OFFSET_IN_PATH \<noteq> GC_OFFSET_UNSURE"
  "GC_OFFSET_UNSURE \<noteq> GC_OFFSET_GOOD" "GC_OFFSET_GOOD \<noteq> GC_OFFSET_UNSURE"
  "GC_OFFSET_UNSURE \<noteq> GC_OFFSET_BAD" "GC_OFFSET_BAD \<noteq> GC_OFFSET_UNSURE"
  by (simp_all add: gc_offset_defs)

lemma mark_sel [simp]:
  "gc_mark (set_gc_marker u k m) v = (if v = u then k else gc_mark m v)"
  "u_in_cleanup_queue (m_unit (set_gc_marker u k m) v) = u_in_cleanup_queue (m_unit m v)"
  "u_in_gc_queue (m_unit (set_gc_marker u k m) v) = u_in_gc_queue (m_unit m v)"
  "m_gc_queue (set_gc_marker u k m) = m_gc_queue m" "m_cleanup_queue (set_gc_marker u k m) = m_cleanup_queue m" "gc_static (m_unit (set_gc_marker u k m) v) = gc_static (m_unit m v)"
  by (simp_all add: set_gc_marker_def upd_unit_def gc_static_def)

lemma cleanup_sel [simp]:
  "gc_mark (unit_add_to_cleanup_queue u m) v = gc_mark m v"
  "u_in_cleanup_queue (m_unit (unit_add_to_cleanup_queue u m) v) = (v = u \<or> u_in_cleanup_queue (m_unit m v))"
  "u_in_gc_queue (m_unit (unit_add_to_cleanup_queue u m) v) = u_in_gc_queue (m_unit m v)"
  "m_gc_queue (unit_add_to_cleanup_queue u m) = m_gc_queue m"
  "m_cleanup_queue (unit_add_to_cleanup_queue u m) =
     (if u_in_cleanup_queue (m_unit m u) then m_cleanup_queue m else u # m_cleanup_queue m)"
  "gc_static (m_unit (unit_add_to_cleanup_queue u m) v) = gc_static (m_unit m v)"
  by (simp_all add: unit_add_to_cleanup_queue_def upd_unit_def gc_static_def)

lemma gc_queue_sel [simp]:
  "gc_mark (unit_add_to_gc_queue u m) v = gc_mark m v"
  "u_in_cleanup_queue (m_unit (unit_add_to_gc_queue u m) v) = u_in_cleanup_queue (m_unit m v)"
  "m_cleanup_queue (unit_add_to_gc_queue u m) = m_cleanup_queue m"
  "gc_static (m_unit (unit_add_to_gc_queue u m) v) = gc_static (m_unit m v)"
  by (simp_all add: unit_add_to_gc_queue_def upd_unit_def gc_static_def Let_def)

lemma frame_mark [simp]: "gc_frame m0 (set_gc_marker u k m) = gc_frame m0 m"
  by (simp add: gc_frame_def) (simp add: set_gc_marker_def upd_unit_def)

lemma frame_cleanup [simp]: "gc_frame m0 (unit_add_to_cleanup_queue u m) = gc_frame m0 m"
  by (simp add: gc_frame_def) (simp add: unit_add_to_cleanup_queue_def upd_unit_def)

lemma frame_gc_queue [simp]: "gc_frame m0 (unit_add_to_gc_queue u m) = gc_frame m0 m"
  by (simp add: gc_frame_def) (simp add: unit_add_to_gc_queue_def upd_unit_def Let_def)

text \<open>The four ways a visit ends, each with what has to be known to keep the invariant.\<close>

lemma inv_mark_path: "gc_inv g U m0 m \<Longrightarrow> gc_inv g U m0 (set_gc_marker u (g + GC_OFFSET_IN_PATH) m)"
  by (auto simp: gc_inv_def goods_def bads_def split: if_splits)

lemma inv_mark_good: "gc_inv g U m0 m \<Longrightarrow> needed m0 u \<Longrightarrow> gc_inv g U m0 (set_gc_marker u (g + GC_OFFSET_GOOD) m)"
  by (auto simp: gc_inv_def goods_def bads_def split: if_splits)

lemma inv_mark_bad:
  "gc_inv g U m0 m \<Longrightarrow> \<not> needed m0 u \<Longrightarrow> gc_inv g U m0 (unit_add_to_cleanup_queue u (set_gc_marker u (g + GC_OFFSET_BAD) m))"
  by (auto simp: gc_inv_def goods_def bads_def split: if_splits)

lemma inv_mark_unsure:
  assumes "gc_inv g U m0 m" "u \<in> U"
  shows "gc_inv g U m0 (unit_add_to_gc_queue u (set_gc_marker u (g + GC_OFFSET_UNSURE) m))"
proof -
  let ?m = "set_gc_marker u (g + GC_OFFSET_UNSURE) m"
  have i: "gc_inv g U m0 ?m" using assms(1) by (auto simp: gc_inv_def goods_def bads_def split: if_splits)
  show ?thesis
  proof (cases "unit_add_to_gc_queue u ?m = ?m")
    case False
    then have "unit_add_to_gc_queue u ?m = (upd_unit u (\<lambda>x. x\<lparr>u_in_gc_queue := True\<rparr>) ?m)
        \<lparr>m_gc_queue := u # m_gc_queue ?m, m_n_in_gc_queue := m_n_in_gc_queue ?m + 1\<rparr>" "\<not> u_in_gc_queue (m_unit ?m u)"
      by (auto simp: unit_add_to_gc_queue_def Let_def split: if_splits)
    then have "m_gc_queue (unit_add_to_gc_queue u ?m) = u # m_gc_queue ?m" "u \<notin> set (m_gc_queue ?m)"
      "{v. u_in_gc_queue (m_unit (unit_add_to_gc_queue u ?m) v)} = insert u {v. u_in_gc_queue (m_unit ?m v)}"
      using i by (auto simp: upd_unit_def gc_inv_def)
    moreover have "set (m_gc_queue ?m) \<subseteq> U" using i unfolding gc_inv_def by blast
    ultimately show ?thesis using i assms(2) unfolding gc_inv_def by (simp add: goods_def bads_def)
  qed (use i in simp)
qed

lemma queue_grows: "set (m_gc_queue m) \<subseteq> set (m_gc_queue (unit_add_to_gc_queue u m))"
  by (auto simp: unit_add_to_gc_queue_def Let_def upd_unit_def)

lemma path_mark: "path g (set_gc_marker u (g + GC_OFFSET_IN_PATH) m) = insert u (path g m)"
  by (auto simp: path_def)


lemma sweep_step_ok:
  assumes f: "sweeps g U m0 n f" and U: "finite U" "\<forall>x \<in> U. set (u_deps m0 x UNIT_REFERENCED_BY) \<subseteq> U"
    and m: "gc_inv g U m0 m" "u \<in> U" "card (U - path g m) \<le> Suc n"
  shows "\<exists>m'. sweep_step f g u m = Some m' \<and> swept g U m0 u m m'"
proof -
  have fr: "gc_frame m0 m" using m(1) by (simp add: gc_inv_def)
  consider (decided) "u \<in> goods g m \<or> u \<in> bads g m \<or> u \<in> path g m"
    | (cleaned) "u \<notin> goods g m" "u \<notin> bads g m" "u \<notin> path g m" "u_in_cleanup_queue (m_unit m u)"
    | (check) "u \<notin> goods g m" "u \<notin> bads g m" "u \<notin> path g m" "\<not> u_in_cleanup_queue (m_unit m u)" "unit_check_gc m u"
    | (search) "u \<notin> goods g m" "u \<notin> bads g m" "u \<notin> path g m" "\<not> u_in_cleanup_queue (m_unit m u)" "\<not> unit_check_gc m u"
    by blast
  then show ?thesis
  proof cases
    case decided
    then have "sweep_step f g u m = Some m" by (auto simp: sweep_step_def Let_def goods_def bads_def path_def)
    moreover have "explored g m0 (path g m) m {}" by (simp add: explored_def)
    moreover have "gc_mark m u \<in> {g + GC_OFFSET_IN_PATH, g + GC_OFFSET_UNSURE, g + GC_OFFSET_GOOD, g + GC_OFFSET_BAD}"
      using decided by (auto simp: goods_def bads_def path_def)
    ultimately show ?thesis using decided m(1) unfolding swept_def by (intro exI [of _ m]) auto
  next
    case cleaned
    let ?m = "unit_add_to_cleanup_queue u (set_gc_marker u (g + GC_OFFSET_BAD) m)"
    have "\<not> needed m0 u" using m(1) cleaned(4) by (simp add: gc_inv_def)
    then have "gc_inv g U m0 ?m" using inv_mark_bad [OF m(1)] by blast
    moreover have "grows g m ?m" using cleaned by (auto simp: grows_def goods_def bads_def path_def)
    moreover have "sweep_step f g u m = Some ?m" using cleaned by (simp add: sweep_step_def Let_def goods_def bads_def path_def)
    moreover have "explored g m0 (path g m) ?m {}" by (simp add: explored_def)
    ultimately show ?thesis unfolding swept_def by (intro exI [of _ ?m]) (auto simp: bads_def)
  next
    case check
    let ?m = "set_gc_marker u (g + GC_OFFSET_GOOD) m"
    have "\<not> u_in_cleanup_queue (m_unit m0 u)" using m(1) check(4) unfolding gc_inv_def by blast
    then have "needed m0 u" using stays check(5) gc_frame_check [OF fr] by simp
    then have "gc_inv g U m0 ?m" using inv_mark_good [OF m(1)] by blast
    moreover have "grows g m ?m" using check by (auto simp: grows_def goods_def bads_def path_def)
    moreover have "sweep_step f g u m = Some ?m" using check by (simp add: sweep_step_def Let_def goods_def bads_def path_def)
    ultimately show ?thesis unfolding swept_def by (intro exI [of _ ?m]) (auto simp: goods_def)
  next
    case search
    let ?m1 = "set_gc_marker u (g + GC_OFFSET_IN_PATH) m"
    let ?us = "u_deps m u UNIT_REFERENCED_BY"
    have us: "set ?us \<subseteq> U" using U(2) m(2) gc_frame_deps [OF fr] by simp
    have "card (U - insert u (path g m)) < card (U - path g m)"
      using U(1) m(2) search(3) by (intro psubset_card_mono) auto
    then have c: "card (U - path g ?m1) \<le> n" using m(3) by (simp add: path_mark)
    obtain r m2 where m2: "sweep_refs f g ?us True ?m1 = Some (r, m2)" "gc_inv g U m0 m2" "grows g ?m1 m2"
      "case r of
         None \<Rightarrow> set ?us \<inter> goods g m2 \<noteq> {}
       | Some b' \<Rightarrow> (b' \<longrightarrow> True \<and> set ?us \<subseteq> bads g m2) \<and>
           (\<exists>E. explored g m0 (path g ?m1) m2 E \<and> set ?us \<subseteq> E \<union> path g ?m1 \<union> bads g m2)"
      using sweep_refs_ok [OF f inv_mark_path [OF m(1)] us c, of True] by blast
    have gr: "goods g m \<subseteq> goods g m2" "bads g m \<subseteq> bads g m2" "path g m2 = insert u (path g m)"
        "set (m_gc_queue m) \<subseteq> set (m_gc_queue m2)"
      using m2(3) search(1-3) by (auto simp: grows_def path_mark) (auto simp: goods_def bads_def)
    have "u \<in> path g m2" using gr(3) by simp
    then have notin: "u \<notin> goods g m2" "u \<notin> bads g m2" by (auto simp: path_def goods_def bads_def)
    have nc: "\<not> u_in_cleanup_queue (m_unit m0 u)" using m(1) search(4) unfolding gc_inv_def by blast
    have ck: "\<not> unit_check_gc m0 u" using search(5) gc_frame_check [OF fr] by simp
    have step: "sweep_step f g u m = Some (case r of
                None \<Rightarrow> set_gc_marker u (g + GC_OFFSET_GOOD) m2
              | Some is_bad \<Rightarrow>
                  if is_bad then unit_add_to_cleanup_queue u (set_gc_marker u (g + GC_OFFSET_BAD) m2)
                  else unit_add_to_gc_queue u (set_gc_marker u (g + GC_OFFSET_UNSURE) m2))"
      using search m2(1) by (simp add: sweep_step_def Let_def goods_def bads_def path_def)
    show ?thesis
    proof (cases r)
      case None
      let ?m = "set_gc_marker u (g + GC_OFFSET_GOOD) m2"
      obtain v where "v \<in> set ?us" "v \<in> goods g m2" using m2(4) None by auto
      then have "needed m0 u" using referenced [OF nc, of v] m2(2) gc_frame_deps [OF fr] by (simp add: gc_inv_def)
      then have "gc_inv g U m0 ?m" using inv_mark_good [OF m2(2)] by blast
      moreover have "grows g m ?m" using gr search(3) notin by (auto simp: grows_def goods_def bads_def path_def)
      ultimately show ?thesis using step None unfolding swept_def by (intro exI [of _ ?m]) (auto simp: goods_def)
    next
      case (Some b')
      then obtain E where E: "explored g m0 (insert u (path g m)) m2 E" "set ?us \<subseteq> E \<union> insert u (path g m) \<union> bads g m2"
        using m2(4) by (auto simp: path_mark)
      show ?thesis
      proof (cases b')
        case True
        let ?m = "unit_add_to_cleanup_queue u (set_gc_marker u (g + GC_OFFSET_BAD) m2)"
        have "\<not> needed m0 u"
        proof
          assume "needed m0 u"
          then show False
          proof (cases rule: needed.cases)
            case (referenced v)
            then have "v \<in> bads g m2" using m2(4) Some True gc_frame_deps [OF fr] by auto
            then show False using m2(2) referenced by (auto simp: gc_inv_def)
          qed (use ck in simp)
        qed
        then have "gc_inv g U m0 ?m" using inv_mark_bad [OF m2(2)] by blast
        moreover have "grows g m ?m" using gr search(3) notin by (auto simp: grows_def goods_def bads_def path_def)
        moreover have "explored g m0 (path g m) ?m {}" by (simp add: explored_def)
        ultimately show ?thesis using step Some True unfolding swept_def by (intro exI [of _ ?m]) (auto simp: bads_def)
      next
        case False
        let ?m' = "set_gc_marker u (g + GC_OFFSET_UNSURE) m2" and ?m = "unit_add_to_gc_queue u (set_gc_marker u (g + GC_OFFSET_UNSURE) m2)"
        have "bads g ?m = bads g m2" using notin by (auto simp: bads_def)
        then have "explored g m0 (path g m) ?m (insert u E)"
          using E nc ck gc_frame_deps [OF fr] unfolding explored_def by auto
        moreover have "gc_inv g U m0 ?m" using inv_mark_unsure [OF m2(2) m(2)] .
        moreover have "grows g m ?m" using gr search(3) notin queue_grows [of ?m' u]
          by (auto simp: grows_def goods_def bads_def path_def)
        ultimately show ?thesis using step Some False unfolding swept_def by (intro exI [of _ ?m]) auto
      qed
    qed
  qed
qed

lemma unit_gc_sweep_ok:
  assumes U: "finite U" "\<forall>x \<in> U. set (u_deps m0 x UNIT_REFERENCED_BY) \<subseteq> U"
  shows "sweeps g U m0 n (unit_gc_sweep (Suc n) g)"
proof (induction n)
  case 0
  show ?case unfolding sweeps_def
  proof (intro allI impI, elim conjE)
    fix m u assume m: "gc_inv g U m0 m" "u \<in> U" "card (U - path g m) \<le> 0"
    then have "u \<in> path g m" using U(1) by auto
    then have "unit_gc_sweep (Suc 0) g u m = Some m" by (simp add: sweep_step_def Let_def path_def)
    moreover have "explored g m0 (path g m) m {}" by (simp add: explored_def)
    ultimately show "\<exists>m'. unit_gc_sweep (Suc 0) g u m = Some m' \<and> swept g U m0 u m m'"
      using m(1) \<open>u \<in> path g m\<close> unfolding swept_def by (intro exI [of _ m]) (auto simp: path_def)
  qed
next
  case (Suc n)
  show ?case unfolding sweeps_def
  proof (intro allI impI, elim conjE)
    fix m u assume m: "gc_inv g U m0 m" "u \<in> U" "card (U - path g m) \<le> Suc n"
    show "\<exists>m'. unit_gc_sweep (Suc (Suc n)) g u m = Some m' \<and> swept g U m0 u m m'"
      unfolding unit_gc_sweep.simps(2) [of "Suc n"] using sweep_step_ok [OF Suc U m] .
  qed
qed


subsection \<open>The queue is worked off\<close>

text \<open>One round of the loop: the unit at the head is decided and leaves the queue.\<close>

definition gc_round :: "nat \<Rightarrow> 32 word \<Rightarrow> uid \<Rightarrow> manager \<Rightarrow> manager option" where
  "gc_round f g u m =
     do {
       m1 \<leftarrow> unit_gc_sweep f g u m;
       let m2 = (upd_unit u (\<lambda>x. x\<lparr>u_in_gc_queue := False\<rparr>) m1)\<lparr>m_gc_queue := remove1 u (m_gc_queue m1)\<rparr>;
       Some (if gc_mark m2 u = g + GC_OFFSET_BAD \<or> gc_mark m2 u = g + GC_OFFSET_UNSURE
             then unit_add_to_cleanup_queue u (set_gc_marker u (g + GC_OFFSET_BAD) m2) else m2) }"

lemma gc_queue_loop_round:
  "gc_queue_loop f g n m =
     (case m_gc_queue m of
        [] \<Rightarrow> Some (n, m)
      | u # _ \<Rightarrow> if \<not> u_in_gc_queue (m_unit m u) then None
                else do { m' \<leftarrow> gc_round f g u m; gc_queue_loop f g (n + 1) m' })"
  by (subst gc_queue_loop.simps) (simp add: gc_round_def Let_def cong: list.case_cong if_cong)

definition decided :: "32 word \<Rightarrow> manager \<Rightarrow> uid set" where
  "decided g m = goods g m \<union> bads g m"

lemma inv_dequeue:
  assumes "gc_inv g U m0 m"
  shows "gc_inv g U m0 ((upd_unit u (\<lambda>x. x\<lparr>u_in_gc_queue := False\<rparr>) m)\<lparr>m_gc_queue := remove1 u (m_gc_queue m)\<rparr>)"
    (is "gc_inv g U m0 ?m")
proof -
  have sel: "gc_mark ?m v = gc_mark m v" "u_in_cleanup_queue (m_unit ?m v) = u_in_cleanup_queue (m_unit m v)"
    "u_in_gc_queue (m_unit ?m v) = (v \<noteq> u \<and> u_in_gc_queue (m_unit m v))" "gc_static (m_unit ?m v) = gc_static (m_unit m v)"
    "m_cleanup_queue ?m = m_cleanup_queue m" for v
    by (simp_all add: upd_unit_def gc_static_def)
  have "gc_frame m0 ?m = gc_frame m0 m" unfolding gc_frame_def sel by (simp add: upd_unit_def)
  moreover have "set (m_gc_queue ?m) = {v. u_in_gc_queue (m_unit ?m v)}"
    using assms unfolding gc_inv_def sel by auto
  moreover have "set (m_gc_queue ?m) \<subseteq> U" "distinct (m_gc_queue ?m)"
    using assms unfolding gc_inv_def by (auto dest: set_remove1_subset [THEN subsetD])
  ultimately show ?thesis using assms unfolding gc_inv_def goods_def bads_def sel by blast
qed

lemma gc_round_ok:
  assumes U: "finite U" "\<forall>x \<in> U. set (u_deps m0 x UNIT_REFERENCED_BY) \<subseteq> U" "card U < f"
    and m: "gc_inv g U m0 m" "path g m = {}" "u \<in> set (m_gc_queue m)"
  shows "\<exists>m'. gc_round f g u m = Some m' \<and> gc_inv g U m0 m' \<and> path g m' = {} \<and> u \<in> decided g m' \<and>
     decided g m \<subseteq> decided g m' \<and> set (m_gc_queue m) - {u} \<subseteq> set (m_gc_queue m') \<and>
     (u \<in> decided g m \<longrightarrow> m_gc_queue m' = remove1 u (m_gc_queue m))"
proof -
  have uU: "u \<in> U" using m(1,3) unfolding gc_inv_def by blast
  obtain k where k: "f = Suc k" "card U \<le> k" using U(3) by (cases f) auto
  have "card (U - path g m) \<le> k" using k(2) by (simp add: m(2))
  then obtain m1 where sw: "unit_gc_sweep f g u m = Some m1" "swept g U m0 u m m1"
    using unit_gc_sweep_ok [OF U(1,2), of g k] m(1) uU unfolding sweeps_def k(1) by blast
  have m1: "unit_gc_sweep f g u m = Some m1" "gc_inv g U m0 m1" "grows g m m1"
      "u \<in> goods g m1 \<or> (\<exists>E. explored g m0 {} m1 E \<and> u \<in> E \<union> bads g m1)"
      "gc_mark m1 u \<in> {g + GC_OFFSET_IN_PATH, g + GC_OFFSET_UNSURE, g + GC_OFFSET_GOOD, g + GC_OFFSET_BAD}"
    using sw unfolding swept_def m(2) Un_empty_right by blast+
  let ?m2 = "(upd_unit u (\<lambda>x. x\<lparr>u_in_gc_queue := False\<rparr>) m1)\<lparr>m_gc_queue := remove1 u (m_gc_queue m1)\<rparr>"
  let ?m3 = "unit_add_to_cleanup_queue u (set_gc_marker u (g + GC_OFFSET_BAD) ?m2)"
  have mk: "gc_mark ?m2 v = gc_mark m1 v" for v by (simp add: upd_unit_def)
  have i2: "gc_inv g U m0 ?m2" using inv_dequeue [OF m1(2)] .
  have p1: "path g m1 = {}" using m1(3) m(2) by (simp add: grows_def)
  have dec: "decided g m \<subseteq> decided g m1" using m1(3) by (auto simp: grows_def decided_def)
  have "set (m_gc_queue m) \<subseteq> set (m_gc_queue m1)" using m1(3) by (simp add: grows_def)
  then have q: "set (m_gc_queue m) - {u} \<subseteq> set (remove1 u (m_gc_queue m1))" using in_set_remove1 by fast
  have same: "u \<in> decided g m \<Longrightarrow> m1 = m"
    using m1(1) k(1) by (auto simp: sweep_step_def Let_def decided_def goods_def bads_def)
  show ?thesis
  proof (cases "u \<in> goods g m1")
    case True
    then have r: "gc_round f g u m = Some ?m2" using m1(1) mk by (simp add: gc_round_def goods_def)
    have "path g ?m2 = {}" "decided g ?m2 = decided g m1" using p1 unfolding path_def decided_def goods_def bads_def mk by auto
    then show ?thesis using r i2 dec q same True by (intro exI [of _ ?m2]) (auto simp: decided_def)
  next
    case False
    then obtain E where E: "explored g m0 {} m1 E" "u \<in> E \<union> bads g m1" using m1(4) by blast
    have "\<forall>x \<in> bads g m1. \<not> needed m0 x" using m1(2) unfolding gc_inv_def by blast
    then have nn: "\<not> needed m0 u" using E explored_needed [OF E(1)] by blast
    have "gc_mark m1 u = g + GC_OFFSET_BAD \<or> gc_mark m1 u = g + GC_OFFSET_UNSURE"
      using m1(5) False p1 by (auto simp: goods_def path_def)
    then have r: "gc_round f g u m = Some ?m3" using m1(1) mk by (simp add: gc_round_def)
    have "path g ?m3 = {}" using p1 by (auto simp: path_def upd_unit_def split: if_splits)
    moreover have "decided g ?m3 = insert u (decided g m1)" using False by (auto simp: decided_def goods_def bads_def upd_unit_def)
    moreover have "m_gc_queue ?m3 = remove1 u (m_gc_queue m1)" by (simp add: upd_unit_def)
    ultimately show ?thesis using r inv_mark_bad [OF i2 nn] dec q same by (intro exI [of _ ?m3]) auto
  qed
qed

lemma gc_queue_loop_ok:
  assumes U: "finite U" "\<forall>x \<in> U. set (u_deps m0 x UNIT_REFERENCED_BY) \<subseteq> U" "card U < f"
  shows "gc_inv g U m0 m \<Longrightarrow> path g m = {} \<Longrightarrow>
    \<exists>n' m'. gc_queue_loop f g n m = Some (n', m') \<and> gc_inv g U m0 m' \<and> m_gc_queue m' = [] \<and>
      set (m_gc_queue m) \<union> decided g m \<subseteq> decided g m'"
proof (induction m arbitrary: n rule: wf_induct [OF wf_measures [of "[\<lambda>m. card (U - decided g m), \<lambda>m. length (m_gc_queue m)]"]])
  case (1 m)
  note m = "1.prems"
  show ?case
  proof (cases "m_gc_queue m")
    case Nil
    then show ?thesis using m(1) by (subst gc_queue_loop_round) simp
  next
    case (Cons u us)
    have uq: "u \<in> set (m_gc_queue m)" and uU: "u \<in> U" using m(1) Cons unfolding gc_inv_def by auto
    have inq: "u_in_gc_queue (m_unit m u)" using m(1) uq unfolding gc_inv_def by blast
    obtain m1 where m1: "gc_round f g u m = Some m1" "gc_inv g U m0 m1" "path g m1 = {}" "u \<in> decided g m1"
        "decided g m \<subseteq> decided g m1" "set (m_gc_queue m) - {u} \<subseteq> set (m_gc_queue m1)"
        "u \<in> decided g m \<longrightarrow> m_gc_queue m1 = remove1 u (m_gc_queue m)"
      using gc_round_ok [OF U m uq] by blast
    have "(m1, m) \<in> measures [\<lambda>m. card (U - decided g m), \<lambda>m. length (m_gc_queue m)]"
    proof (cases "u \<in> decided g m")
      case True
      then have "length (m_gc_queue m1) < length (m_gc_queue m)" using m1(7) Cons by simp
      moreover have "card (U - decided g m1) \<le> card (U - decided g m)" using m1(5) U(1) by (intro card_mono) auto
      ultimately show ?thesis by auto
    next
      case False
      then have "card (U - decided g m1) < card (U - decided g m)"
        using m1(4,5) uU U(1) by (intro psubset_card_mono) auto
      then show ?thesis by simp
    qed
    then obtain n' m' where "gc_queue_loop f g (n + 1) m1 = Some (n', m')" "gc_inv g U m0 m'" "m_gc_queue m' = []"
        "set (m_gc_queue m1) \<union> decided g m1 \<subseteq> decided g m'"
      using "1.IH" m1(2,3) by blast
    then show ?thesis using m1 inq by (subst gc_queue_loop_round) (auto simp: Cons)
  qed
qed


subsection \<open>A run of the collector\<close>

definition wf_gc :: "manager \<Rightarrow> bool" where
  "wf_gc m \<longleftrightarrow> distinct (m_gc_queue m) \<and> set (m_gc_queue m) = {u. u_in_gc_queue (m_unit m u)} \<and>
     distinct (m_cleanup_queue m) \<and> set (m_cleanup_queue m) = {u. u_in_cleanup_queue (m_unit m u)}"

definition fresh_marks :: "32 word \<Rightarrow> manager \<Rightarrow> bool" where
  "fresh_marks g m \<longleftrightarrow> (\<forall>u. gc_mark m u \<notin> {g + GC_OFFSET_IN_PATH, g + GC_OFFSET_GOOD, g + GC_OFFSET_BAD})"

lemma gc_inv_start:
  assumes "wf_gc m" "fresh_marks g m" "set (m_gc_queue m) \<subseteq> U"
  shows "gc_inv g U m m" "path g m = {}" "decided g m = {}"
  using assms needed_not_cleaned
  by (auto simp: gc_inv_def wf_gc_def fresh_marks_def goods_def bads_def path_def decided_def gc_frame_def)

lemma gc_frame_marker: "unit_check_gc (m\<lparr>m_gc_marker := g\<rparr>) u = unit_check_gc m u"
  by (simp add: unit_check_gc_def unit_active_state_def)

lemma needed_marker: "needed (m\<lparr>m_gc_marker := g\<rparr>) u \<longleftrightarrow> needed m u"
proof
  assume "needed (m\<lparr>m_gc_marker := g\<rparr>) u"
  then show "needed m u" by (induction rule: needed.induct) (auto simp: gc_frame_marker intro: needed.intros)
next
  assume "needed m u"
  then show "needed (m\<lparr>m_gc_marker := g\<rparr>) u" by (induction rule: needed.induct) (auto simp: gc_frame_marker intro: needed.intros)
qed

lemma gc_run:
  assumes U: "finite U" "\<forall>x \<in> U. set (u_deps m x UNIT_REFERENCED_BY) \<subseteq> U" "card U < f"
    and m: "wf_gc m" "set (m_gc_queue m) \<subseteq> U" "fresh_marks (next_gc_marker (m_gc_marker m)) m"
  shows "\<exists>n m'. manager_dispatch_gc_queue f True m = Some (n, m') \<and> m_gc_queue m' = [] \<and>
     (\<forall>u. gc_static (m_unit m' u) = gc_static (m_unit m u)) \<and>
     (\<forall>u \<in> set (m_gc_queue m). u_in_cleanup_queue (m_unit m' u) \<longleftrightarrow> \<not> needed m u) \<and>
     (\<forall>u. u_in_cleanup_queue (m_unit m' u) \<longrightarrow> \<not> needed m u) \<and> wf_gc m' \<and>
     m_units m' = m_units m \<and> m_load_queue m' = m_load_queue m \<and> m_dbus_unit_queue m' = m_dbus_unit_queue m"
proof -
  let ?g = "next_gc_marker (m_gc_marker m)"
  let ?m = "m\<lparr>m_gc_marker := ?g\<rparr>"
  have "wf_gc ?m" "fresh_marks ?g ?m" using m by (simp_all add: wf_gc_def fresh_marks_def)
  note s = gc_inv_start [OF this, of U]
  have "\<forall>x \<in> U. set (u_deps ?m x UNIT_REFERENCED_BY) \<subseteq> U" "set (m_gc_queue ?m) \<subseteq> U" using U(2) m(2) by simp_all
  note U' = U(1) this(1) U(3) and s' = s [OF this(2)]
  obtain n m' where m': "gc_queue_loop f ?g 0 ?m = Some (n, m')" "gc_inv ?g U ?m m'" "m_gc_queue m' = []"
      "set (m_gc_queue m) \<subseteq> decided ?g m'"
    using gc_queue_loop_ok [OF U' s'(1,2), of 0] by auto
  have st: "gc_static (m_unit m' u) = gc_static (m_unit m u)" for u using m'(2) by (simp add: gc_inv_def gc_frame_def)
  have nn: "u_in_cleanup_queue (m_unit m' u) \<longrightarrow> \<not> needed m u" for u
    using m'(2) unfolding gc_inv_def needed_marker by blast
  have "u_in_cleanup_queue (m_unit m' u) \<longleftrightarrow> \<not> needed m u" if "u \<in> set (m_gc_queue m)" for u
  proof -
    have "u \<in> goods ?g m' \<or> u \<in> bads ?g m'" using that m'(4) by (auto simp: decided_def)
    then show ?thesis using m'(2) nn unfolding gc_inv_def needed_marker by blast
  qed
  moreover have "wf_gc m'" using m'(2) by (simp add: gc_inv_def wf_gc_def)
  moreover have "m_units m' = m_units m \<and> m_load_queue m' = m_load_queue m \<and> m_dbus_unit_queue m' = m_dbus_unit_queue m"
    using m'(2) unfolding gc_inv_def gc_frame_def by (cases m; cases m') simp
  ultimately show ?thesis using m'(1,3) st nn by (simp add: manager_dispatch_gc_queue_def wf_gc_def)
qed

end
