(* ===== verification/Unit_Graph.thy ===== *)
theory Unit_Graph
  imports Job_Engine Unit_Name Unit_GC
begin

section \<open>Names, dependencies and merging of units (src/src/unit.c)\<close>

text \<open>
  The part of \<open>unit.c\<close> that builds the graph of units: giving a unit its names, adding
  dependencies with their inverses, merging two units that turn out to be the same, and freeing a
  unit.  A dependency set is the list of its elements in iteration order; a \<open>NULL\<close> set and an
  empty one are the same.  Type specific \<open>init\<close> and \<open>done\<close> methods, the list of units per
  type, control groups and the D-Bus signal for a removed unit are left out.
\<close>

subsection \<open>Sets of units\<close>

definition dep_put :: "uid \<Rightarrow> uid list \<Rightarrow> uid list" where
  "dep_put v s = (if v \<in> set s then s else s @ [v])"

definition dep_remove :: "uid \<Rightarrow> uid list \<Rightarrow> uid list" where
  "dep_remove v s = filter (\<lambda>x. x \<noteq> v) s"

text \<open>\<open>set_remove_and_put\<close>, and \<open>set_remove\<close> where it fails because the new element is there.\<close>

definition dep_swap :: "uid \<Rightarrow> uid \<Rightarrow> uid list \<Rightarrow> uid list" where
  "dep_swap old new s =
     (if old \<notin> set s then s
      else if new \<in> set s then dep_remove old s
      else dep_remove old s @ [new])"

text \<open>\<open>complete_move\<close>: the elements of the other set that are not there yet, in their order.\<close>

definition complete_move :: "'a list \<Rightarrow> 'a list \<Rightarrow> 'a list" where
  "complete_move s other = s @ filter (\<lambda>x. x \<notin> set s) other"

definition upd_deps :: "uid \<Rightarrow> unit_dependency \<Rightarrow> (uid list \<Rightarrow> uid list) \<Rightarrow> manager \<Rightarrow> manager" where
  "upd_deps u d f m = upd_unit u (\<lambda>x. x\<lparr>u_dependencies := (u_dependencies x)(d := f (u_dependencies x d))\<rparr>) m"

definition upd_all_deps :: "uid \<Rightarrow> (uid list \<Rightarrow> uid list) \<Rightarrow> manager \<Rightarrow> manager" where
  "upd_all_deps u f m = upd_unit u (\<lambda>x. x\<lparr>u_dependencies := (\<lambda>d. f (u_dependencies x d))\<rparr>) m"

definition all_dependencies :: "unit_dependency list" where
  "all_dependencies =
     [UNIT_REQUIRES, UNIT_REQUIRES_OVERRIDABLE, UNIT_REQUISITE, UNIT_REQUISITE_OVERRIDABLE, UNIT_WANTS, UNIT_BIND_TO,
      UNIT_REQUIRED_BY, UNIT_REQUIRED_BY_OVERRIDABLE, UNIT_WANTED_BY, UNIT_BOUND_BY, UNIT_CONFLICTS, UNIT_CONFLICTED_BY,
      UNIT_BEFORE, UNIT_AFTER, UNIT_ON_FAILURE, UNIT_REFERENCES, UNIT_REFERENCED_BY]"

subsection \<open>Dependencies\<close>

partial_function (option) unit_follow_merge :: "manager \<Rightarrow> uid \<Rightarrow> uid option" where
  "unit_follow_merge m u =
     (if u_load_state (m_unit m u) = UNIT_MERGED
      then (case u_merged_into (m_unit m u) of None \<Rightarrow> None | Some v \<Rightarrow> unit_follow_merge m v)
      else Some u)"

definition inverse_table :: "unit_dependency \<Rightarrow> unit_dependency option" where
  "inverse_table d =
     (case d of
        UNIT_REQUIRES \<Rightarrow> Some UNIT_REQUIRED_BY
      | UNIT_REQUIRES_OVERRIDABLE \<Rightarrow> Some UNIT_REQUIRED_BY_OVERRIDABLE
      | UNIT_WANTS \<Rightarrow> Some UNIT_WANTED_BY
      | UNIT_REQUISITE \<Rightarrow> Some UNIT_REQUIRED_BY
      | UNIT_REQUISITE_OVERRIDABLE \<Rightarrow> Some UNIT_REQUIRED_BY_OVERRIDABLE
      | UNIT_BIND_TO \<Rightarrow> Some UNIT_BOUND_BY
      | UNIT_REQUIRED_BY \<Rightarrow> None
      | UNIT_REQUIRED_BY_OVERRIDABLE \<Rightarrow> None
      | UNIT_WANTED_BY \<Rightarrow> None
      | UNIT_BOUND_BY \<Rightarrow> Some UNIT_BIND_TO
      | UNIT_CONFLICTS \<Rightarrow> Some UNIT_CONFLICTED_BY
      | UNIT_CONFLICTED_BY \<Rightarrow> Some UNIT_CONFLICTS
      | UNIT_BEFORE \<Rightarrow> Some UNIT_AFTER
      | UNIT_AFTER \<Rightarrow> Some UNIT_BEFORE
      | UNIT_ON_FAILURE \<Rightarrow> None
      | UNIT_REFERENCES \<Rightarrow> Some UNIT_REFERENCED_BY
      | UNIT_REFERENCED_BY \<Rightarrow> Some UNIT_REFERENCES)"

text \<open>\<open>set_put\<close> fails only for lack of memory, so the undoing of a half added dependency is left out.\<close>

definition unit_add_dependency :: "uid \<Rightarrow> unit_dependency \<Rightarrow> uid \<Rightarrow> bool \<Rightarrow> manager \<Rightarrow> unit st" where
  "unit_add_dependency u0 d other0 add_reference m =
     do {
       u \<leftarrow> unit_follow_merge m u0;
       other \<leftarrow> unit_follow_merge m other0;
       if u = other then Some (Inr (), m)
       else
         let m1 = upd_deps u d (dep_put other) m;
             m2 = (case inverse_table d of None \<Rightarrow> m1 | Some e \<Rightarrow> upd_deps other e (dep_put u) m1);
             m3 = (if add_reference
                   then upd_deps other UNIT_REFERENCED_BY (dep_put u) (upd_deps u UNIT_REFERENCES (dep_put other) m2)
                   else m2)
         in Some (Inr (), unit_add_to_dbus_queue u m3) }"

definition unit_add_two_dependencies ::
    "uid \<Rightarrow> unit_dependency \<Rightarrow> unit_dependency \<Rightarrow> uid \<Rightarrow> bool \<Rightarrow> manager \<Rightarrow> unit st" where
  "unit_add_two_dependencies u d e other add_reference m =
     do {
       (r, m1) \<leftarrow> unit_add_dependency u d other add_reference m;
       case r of Inl err \<Rightarrow> Some (Inl err, m1) | Inr _ \<Rightarrow> unit_add_dependency u e other add_reference m1 }"

definition unit_add_default_target_dependency :: "uid \<Rightarrow> uid \<Rightarrow> manager \<Rightarrow> unit st" where
  "unit_add_default_target_dependency u target m =
     (let x = m_unit m u; t = m_unit m target in
      if u_type t \<noteq> Some UNIT_TARGET then Some (Inr (), m)
      else if u_load_state x \<noteq> UNIT_LOADED \<or> u_load_state t \<noteq> UNIT_LOADED then Some (Inr (), m)
      else if \<not> u_default_dependencies x \<or> \<not> u_default_dependencies t then Some (Inr (), m)
      else if u \<in> set (u_dependencies t UNIT_BEFORE) then Some (Inr (), m)
      else unit_add_dependency target UNIT_AFTER u True m)"

fun add_default_targets :: "uid \<Rightarrow> uid list \<Rightarrow> manager \<Rightarrow> unit st" where
  "add_default_targets u [] m = Some (Inr (), m)"
| "add_default_targets u (target # us) m =
     do {
       (r, m1) \<leftarrow> unit_add_default_target_dependency u target m;
       case r of Inl err \<Rightarrow> Some (Inl err, m1) | Inr _ \<Rightarrow> add_default_targets u us m1 }"

text \<open>The four sets are not changed by the loop, so they are read at its start.\<close>

definition unit_add_default_dependencies :: "uid \<Rightarrow> manager \<Rightarrow> unit st" where
  "unit_add_default_dependencies u m =
     add_default_targets u
       (u_deps m u UNIT_REQUIRED_BY @ u_deps m u UNIT_REQUIRED_BY_OVERRIDABLE @ u_deps m u UNIT_WANTED_BY @
        u_deps m u UNIT_BOUND_BY) m"

subsection \<open>Names\<close>

definition unit_suffix :: "unit_type \<Rightarrow> string" where
  "unit_suffix t =
     (case t of
        UNIT_SERVICE \<Rightarrow> ''.service'' | UNIT_SOCKET \<Rightarrow> ''.socket'' | UNIT_TARGET \<Rightarrow> ''.target''
      | UNIT_DEVICE \<Rightarrow> ''.device'' | UNIT_MOUNT \<Rightarrow> ''.mount'' | UNIT_AUTOMOUNT \<Rightarrow> ''.automount''
      | UNIT_SNAPSHOT \<Rightarrow> ''.snapshot'' | UNIT_TIMER \<Rightarrow> ''.timer'' | UNIT_SWAP \<Rightarrow> ''.swap'' | UNIT_PATH \<Rightarrow> ''.path'')"

definition vt_no_alias :: "unit_type \<Rightarrow> bool" where
  "vt_no_alias t \<longleftrightarrow> t = UNIT_AUTOMOUNT \<or> t = UNIT_MOUNT \<or> t = UNIT_SNAPSHOT \<or> t = UNIT_SWAP"

definition vt_no_instances :: "unit_type \<Rightarrow> bool" where
  "vt_no_instances t \<longleftrightarrow>
     t = UNIT_AUTOMOUNT \<or> t = UNIT_DEVICE \<or> t = UNIT_MOUNT \<or> t = UNIT_SNAPSHOT \<or> t = UNIT_SWAP"

definition unit_types :: "unit_type list" where
  "unit_types = [UNIT_SERVICE, UNIT_SOCKET, UNIT_TARGET, UNIT_DEVICE, UNIT_MOUNT, UNIT_AUTOMOUNT, UNIT_SNAPSHOT,
                 UNIT_TIMER, UNIT_SWAP, UNIT_PATH]"

definition unit_name_to_type :: "string \<Rightarrow> unit_type option" where
  "unit_name_to_type n = List.find (\<lambda>t. endswith n (unit_suffix t)) unit_types"

definition unit_name_is_valid :: "string \<Rightarrow> bool \<Rightarrow> bool" where
  "unit_name_is_valid n template_ok =
     (if unit_name_to_type n = None then False else unit_name_is_valid_no_type n template_ok)"

definition unit_has_name :: "manager \<Rightarrow> uid \<Rightarrow> string \<Rightarrow> bool" where
  "unit_has_name m u name \<longleftrightarrow> name \<in> set (u_names (m_unit m u))"

definition MANAGER_MAX_NAMES :: nat where "MANAGER_MAX_NAMES = 131072"

text \<open>A template name stands for the name with the unit's instance filled in.\<close>

definition instance_name :: "umeta \<Rightarrow> string \<Rightarrow> string option" where
  "instance_name x name =
     (if unit_name_is_template name
      then (case u_instance x of None \<Rightarrow> None | Some i \<Rightarrow> unit_name_replace_instance name i)
      else Some name)"

definition unit_add_name :: "uid \<Rightarrow> string \<Rightarrow> manager \<Rightarrow> unit st" where
  "unit_add_name u name m =
     (let x = m_unit m u in
      case instance_name x name of
        None \<Rightarrow> Some (Inl EINVAL, m)
      | Some s \<Rightarrow>
          if \<not> unit_name_is_valid s False then Some (Inl EINVAL, m)
          else do {
            t \<leftarrow> unit_name_to_type s;
            if u_type x \<noteq> None \<and> u_type x \<noteq> Some t then Some (Inl EINVAL, m)
            else do {
              i \<leftarrow> unit_name_to_instance s;
              if i \<noteq> None \<and> vt_no_instances t then Some (Inl EINVAL, m)
              else if u_type x \<noteq> None \<and> (u_instance x = None) \<noteq> (i = None) then Some (Inl EINVAL, m)
              else if vt_no_alias t \<and> u_names x \<noteq> [] \<and> s \<notin> set (u_names x) then Some (Inl EEXIST, m)
              else if length (m_units m) \<ge> MANAGER_MAX_NAMES then Some (Inl E2BIG, m)
              else if s \<in> set (u_names x) then Some (Inr (), m)
              else case omap_put s u (m_units m) of
                     (Inl e, _) \<Rightarrow> Some (Inl e, m)
                   | (Inr _, us) \<Rightarrow>
                       let m1 = (upd_unit u (\<lambda>x. x\<lparr>u_names := u_names x @ [s]\<rparr>) m)\<lparr>m_units := us\<rparr>;
                           m2 = (if u_type x = None
                                 then upd_unit u (\<lambda>x. x\<lparr>u_type := Some t, u_id := s, u_instance := i\<rparr>) m1 else m1)
                       in Some (Inr (), unit_add_to_dbus_queue u m2) } })"

definition unit_choose_id :: "uid \<Rightarrow> string \<Rightarrow> manager \<Rightarrow> unit st" where
  "unit_choose_id u name m =
     (let x = m_unit m u in
      case instance_name x name of
        None \<Rightarrow> Some (Inl EINVAL, m)
      | Some s \<Rightarrow>
          if s \<notin> set (u_names x) then Some (Inl ENOENT, m)
          else do {
            i \<leftarrow> unit_name_to_instance s;
            Some (Inr (), unit_add_to_dbus_queue u (upd_unit u (\<lambda>x. x\<lparr>u_id := s, u_instance := i\<rparr>) m)) })"


subsection \<open>Merging\<close>

text \<open>\<open>assert_se(hashmap_replace(units, t, u) == 0)\<close> for every name: each has to be in the table.\<close>

fun replace_units :: "uid \<Rightarrow> string list \<Rightarrow> manager \<Rightarrow> manager option" where
  "replace_units u [] m = Some m"
| "replace_units u (t # ts) m =
     (if omap_get (m_units m) t = None then None
      else replace_units u ts (m\<lparr>m_units := omap_replace t u (m_units m)\<rparr>))"

text \<open>The id of the other unit becomes \<open>NULL\<close>, the empty string here.\<close>

definition merge_names :: "uid \<Rightarrow> uid \<Rightarrow> manager \<Rightarrow> manager option" where
  "merge_names u other m =
     (let names = complete_move (u_names (m_unit m u)) (u_names (m_unit m other));
          m1 = upd_unit other (\<lambda>x. x\<lparr>u_names := [], u_id := []\<rparr>) (upd_unit u (\<lambda>x. x\<lparr>u_names := names\<rparr>) m)
      in replace_units u names m1)"

text \<open>
  The loop over the backward pointers reads a set that it changes only if the other unit depends on
  itself; this case is left out of the model.
\<close>

fun fix_back :: "uid \<Rightarrow> uid \<Rightarrow> uid list \<Rightarrow> manager \<Rightarrow> manager option" where
  "fix_back u other [] m = Some m"
| "fix_back u other (back # bs) m =
     (if back = other then None else fix_back u other bs (upd_all_deps back (dep_swap other u) m))"

definition merge_dependencies :: "uid \<Rightarrow> uid \<Rightarrow> unit_dependency \<Rightarrow> manager \<Rightarrow> manager option" where
  "merge_dependencies u other d m =
     do {
       m1 \<leftarrow> fix_back u other (u_deps m other d) m;
       Some (upd_deps other d (\<lambda>s. []) (upd_deps u d (\<lambda>s. complete_move s (u_deps m1 other d)) m1)) }"

fun merge_all_dependencies :: "uid \<Rightarrow> uid \<Rightarrow> unit_dependency list \<Rightarrow> manager \<Rightarrow> manager option" where
  "merge_all_dependencies u other [] m = Some m"
| "merge_all_dependencies u other (d # ds) m =
     do { m1 \<leftarrow> merge_dependencies u other d m; merge_all_dependencies u other ds m1 }"

definition unit_merge :: "uid \<Rightarrow> uid \<Rightarrow> manager \<Rightarrow> unit st" where
  "unit_merge u other0 m =
     (if u_type (m_unit m u) = None then None
      else do {
        other \<leftarrow> unit_follow_merge m other0;
        let x = m_unit m u; y = m_unit m other in
        if other = u then Some (Inr (), m)
        else if u_type x \<noteq> u_type y then Some (Inl EINVAL, m)
        else if (u_instance x = None) \<noteq> (u_instance y = None) then Some (Inl EINVAL, m)
        else if u_load_state y \<noteq> UNIT_STUB \<and> u_load_state y \<noteq> UNIT_ERROR then Some (Inl EEXIST, m)
        else if u_job y \<noteq> None then Some (Inl EEXIST, m)
        else if \<not> UNIT_IS_INACTIVE_OR_FAILED (unit_active_state m other) then Some (Inl EEXIST, m)
        else do {
          m1 \<leftarrow> merge_names u other m;
          m2 \<leftarrow> merge_all_dependencies u other all_dependencies m1;
          let m3 = upd_unit other (\<lambda>x. x\<lparr>u_load_state := UNIT_MERGED, u_merged_into := Some u\<rparr>) m2;
          Some (Inr (), unit_add_to_cleanup_queue other (unit_add_to_dbus_queue u m3)) } })"

definition unit_merge_by_name :: "uid \<Rightarrow> string \<Rightarrow> manager \<Rightarrow> unit st" where
  "unit_merge_by_name u name m =
     (case instance_name (m_unit m u) name of
        None \<Rightarrow> Some (Inl EINVAL, m)
      | Some s \<Rightarrow>
          (case manager_get_unit m s of
             None \<Rightarrow> unit_add_name u s m
           | Some other \<Rightarrow> unit_merge u other m))"

subsection \<open>Freeing\<close>

fun bidi_set_free :: "uid \<Rightarrow> uid list \<Rightarrow> manager \<Rightarrow> manager" where
  "bidi_set_free u [] m = m"
| "bidi_set_free u (other # us) m = bidi_set_free u us (unit_add_to_gc_queue other (upd_all_deps other (dep_remove u) m))"

text \<open>
  The sets are freed one after the other.  If the unit is in one of its own sets, \<open>set_remove\<close>
  touches the sets freed before, which is modelled for sets that had elements.
\<close>

fun free_dependencies :: "uid \<Rightarrow> bool \<Rightarrow> unit_dependency list \<Rightarrow> manager \<Rightarrow> manager option" where
  "free_dependencies u freed [] m = Some m"
| "free_dependencies u freed (d # ds) m =
     (let s = u_deps m u d in
      if freed \<and> u \<in> set s then None
      else free_dependencies u (freed \<or> s \<noteq> []) ds (upd_deps u d (\<lambda>s. []) (bidi_set_free u s m)))"

definition unit_free :: "uid \<Rightarrow> manager \<Rightarrow> manager option" where
  "unit_free u m =
     (let m1 = m\<lparr>m_units := fold (\<lambda>t us. omap_remove_value t u us) (u_names (m_unit m u)) (m_units m)\<rparr> in
      do {
        m2 \<leftarrow> (case u_job (m_unit m1 u) of None \<Rightarrow> Some m1 | Some j \<Rightarrow> job_free j m1);
        m3 \<leftarrow> free_dependencies u False all_dependencies m2;
        let m4 = (if u_in_load_queue (m_unit m3 u) then m3\<lparr>m_load_queue := remove1 u (m_load_queue m3)\<rparr> else m3);
        let m5 = (if u_in_dbus_queue (m_unit m4 u) then m4\<lparr>m_dbus_unit_queue := remove1 u (m_dbus_unit_queue m4)\<rparr> else m4);
        let m6 = (if u_in_cleanup_queue (m_unit m5 u) then m5\<lparr>m_cleanup_queue := remove1 u (m_cleanup_queue m5)\<rparr> else m5);
        let m7 = (if u_in_gc_queue (m_unit m6 u)
                  then m6\<lparr>m_gc_queue := remove1 u (m_gc_queue m6), m_n_in_gc_queue := m_n_in_gc_queue m6 - 1\<rparr> else m6);
        Some m7 })"

partial_function (option) manager_dispatch_cleanup_queue :: "nat \<Rightarrow> manager \<Rightarrow> (nat \<times> manager) option" where
  "manager_dispatch_cleanup_queue n m =
     (case m_cleanup_queue m of
        [] \<Rightarrow> Some (n, m)
      | u # _ \<Rightarrow>
          if \<not> u_in_cleanup_queue (m_unit m u) then None
          else do { m' \<leftarrow> unit_free u m; manager_dispatch_cleanup_queue (n + 1) m' })"


subsection \<open>The dependency graph\<close>

text \<open>
  No unit depends on itself, every dependency with an inverse has it on the other side, and no unit is
  pointed to without pointing back somehow.
\<close>

definition dep_inv :: "manager \<Rightarrow> bool" where
  "dep_inv m \<longleftrightarrow>
     (\<forall>u d. u \<notin> set (u_deps m u d) \<and> distinct (u_deps m u d)) \<and>
     (\<forall>u v d e. v \<in> set (u_deps m u d) \<and> inverse_table d = Some e \<longrightarrow> u \<in> set (u_deps m v e)) \<and>
     (\<forall>u v d. v \<in> set (u_deps m u d) \<longrightarrow> (\<exists>e. u \<in> set (u_deps m v e)))"

lemma set_dep_put [simp]: "set (dep_put v s) = insert v (set s)"
  by (auto simp: dep_put_def)

lemma distinct_dep_put [simp]: "distinct (dep_put v s) = distinct s"
  by (simp add: dep_put_def)

lemma set_dep_remove [simp]: "set (dep_remove v s) = set s - {v}"
  by (auto simp: dep_remove_def)

lemma upd_deps_sel [simp]:
  "u_deps (upd_deps u d f m) v e = (if v = u \<and> e = d then f (u_deps m u d) else u_deps m v e)"
  by (simp add: upd_deps_def upd_unit_def)

lemma upd_all_deps_sel [simp]:
  "u_deps (upd_all_deps u f m) v e = (if v = u then f (u_deps m u e) else u_deps m v e)"
  by (simp add: upd_all_deps_def upd_unit_def)

lemma dbus_queue_deps [simp]: "u_deps (unit_add_to_dbus_queue u m) v d = u_deps m v d"
  by (simp add: unit_add_to_dbus_queue_def upd_unit_def)

lemma gc_queue_deps [simp]: "u_deps (unit_add_to_gc_queue u m) v d = u_deps m v d"
  by (simp add: unit_add_to_gc_queue_def upd_unit_def Let_def)

text \<open>The pairs that adding a dependency puts into the graph.\<close>

definition added :: "uid \<Rightarrow> unit_dependency \<Rightarrow> uid \<Rightarrow> bool \<Rightarrow> uid \<Rightarrow> unit_dependency \<Rightarrow> uid \<Rightarrow> bool" where
  "added u d other ref x k y \<longleftrightarrow>
     x = u \<and> y = other \<and> (k = d \<or> ref \<and> k = UNIT_REFERENCES) \<or>
     x = other \<and> y = u \<and> (inverse_table d = Some k \<or> ref \<and> k = UNIT_REFERENCED_BY)"

lemma inverse_twice: "inverse_table d = Some e \<Longrightarrow> inverse_table e = Some k \<Longrightarrow> k = d"
  by (cases d) (auto simp: inverse_table_def)

lemma unit_add_dependency_deps:
  assumes f: "unit_follow_merge m u0 = Some u" "unit_follow_merge m other0 = Some other" and ne: "u \<noteq> other"
  shows "\<exists>m'. unit_add_dependency u0 d other0 ref m = Some (Inr (), m') \<and>
     (\<forall>x k. set (u_deps m' x k) = set (u_deps m x k) \<union> {y. added u d other ref x k y}) \<and>
     (\<forall>x k. distinct (u_deps m x k) \<longrightarrow> distinct (u_deps m' x k))"
proof -
  let ?m1 = "upd_deps u d (dep_put other) m"
  let ?m2 = "case inverse_table d of None \<Rightarrow> ?m1 | Some e \<Rightarrow> upd_deps other e (dep_put u) ?m1"
  let ?m3 = "if ref then upd_deps other UNIT_REFERENCED_BY (dep_put u) (upd_deps u UNIT_REFERENCES (dep_put other) ?m2) else ?m2"
  have "unit_add_dependency u0 d other0 ref m = Some (Inr (), unit_add_to_dbus_queue u ?m3)"
    using f ne by (simp add: unit_add_dependency_def Let_def)
  moreover have "set (u_deps (unit_add_to_dbus_queue u ?m3) x k) = set (u_deps m x k) \<union> {y. added u d other ref x k y}" for x k
    using ne by (cases "inverse_table d") (auto simp: added_def)
  moreover have "distinct (u_deps m x k) \<Longrightarrow> distinct (u_deps (unit_add_to_dbus_queue u ?m3) x k)" for x k
    by (cases "inverse_table d") auto
  ultimately show ?thesis by blast
qed

lemma dep_inv_added:
  assumes i: "dep_inv m" and ne: "u \<noteq> other" and bk: "inverse_table d \<noteq> None \<or> ref"
    and s: "\<And>x k. set (u_deps m' x k) = set (u_deps m x k) \<union> {y. added u d other ref x k y}"
    and dist: "\<And>x k. distinct (u_deps m x k) \<longrightarrow> distinct (u_deps m' x k)"
  shows "dep_inv m'"
proof -
  have a: "x \<notin> set (u_deps m' x k) \<and> distinct (u_deps m' x k)" for x k
    using i ne s [of x k] dist by (auto simp: dep_inv_def added_def)
  have b: "x \<in> set (u_deps m' y e)" if "y \<in> set (u_deps m' x k)" "inverse_table k = Some e" for x y k e
  proof (cases "y \<in> set (u_deps m x k)")
    case True
    then have "x \<in> set (u_deps m y e)" using i that(2) unfolding dep_inv_def by blast
    then show ?thesis by (simp add: s)
  next
    case False
    then have "added u d other ref x k y" using that(1) by (simp add: s)
    then have "added u d other ref y e x" using that(2) inverse_twice [of d k e] by (auto simp: added_def inverse_table_def)
    then show ?thesis by (simp add: s)
  qed
  have "\<exists>e. x \<in> set (u_deps m' y e)" if "y \<in> set (u_deps m' x k)" for x y k
  proof (cases "y \<in> set (u_deps m x k)")
    case True
    then show ?thesis using i unfolding dep_inv_def s by blast
  next
    case False
    then have "added u d other ref x k y" using that by (simp add: s)
    then have "\<exists>e. added u d other ref y e x" using bk by (auto simp: added_def)
    then show ?thesis by (auto simp: s)
  qed
  then show ?thesis using a b unfolding dep_inv_def by blast
qed

lemma unit_add_dependency_inv:
  assumes "dep_inv m" "unit_follow_merge m u0 = Some u" "unit_follow_merge m other0 = Some other" "inverse_table d \<noteq> None \<or> ref"
  shows "\<exists>m'. unit_add_dependency u0 d other0 ref m = Some (Inr (), m') \<and> dep_inv m' \<and>
     (\<forall>x k. set (u_deps m' x k) = set (u_deps m x k) \<union> {y. u \<noteq> other \<and> added u d other ref x k y})"
proof (cases "u = other")
  case True
  then show ?thesis using assms by (simp add: unit_add_dependency_def)
next
  case False
  then obtain m' where m': "unit_add_dependency u0 d other0 ref m = Some (Inr (), m')"
     "\<And>x k. set (u_deps m' x k) = set (u_deps m x k) \<union> {y. added u d other ref x k y}"
     "\<And>x k. distinct (u_deps m x k) \<longrightarrow> distinct (u_deps m' x k)"
    using unit_add_dependency_deps [OF assms(2,3)] by blast
  then show ?thesis using dep_inv_added [OF assms(1) False assms(4) m'(2,3)] False by auto
qed


subsection \<open>Freeing a unit leaves no pointer to it\<close>

text \<open>What freeing a unit keeps of a manager.\<close>

definition free_frame :: "manager \<Rightarrow> manager \<Rightarrow> bool" where
  "free_frame m m' \<longleftrightarrow> m_cleanup_queue m' = m_cleanup_queue m \<and> m_job m' = m_job m \<and> m_units m' = m_units m \<and>
     m_load_queue m' = m_load_queue m \<and> m_dbus_unit_queue m' = m_dbus_unit_queue m \<and>
     (\<forall>v \<in> set (m_gc_queue m'). v \<in> set (m_gc_queue m) \<or> \<not> u_in_cleanup_queue (m_unit m' v)) \<and>
     (\<forall>v. u_names (m_unit m' v) = u_names (m_unit m v) \<and> u_in_load_queue (m_unit m' v) = u_in_load_queue (m_unit m v) \<and>
          u_in_dbus_queue (m_unit m' v) = u_in_dbus_queue (m_unit m v)) \<and>
     (\<forall>v. u_job (m_unit m' v) = u_job (m_unit m v) \<and> u_in_cleanup_queue (m_unit m' v) = u_in_cleanup_queue (m_unit m v) \<and>
          u_load_state (m_unit m' v) = u_load_state (m_unit m v) \<and> u_active_state (m_unit m' v) = u_active_state (m_unit m v))"

lemma free_frame_refl [simp]: "free_frame m m"
  by (simp add: free_frame_def)

lemma free_frame_gc:
  "free_frame m m' \<Longrightarrow> \<forall>v \<in> set (m_gc_queue m'). v \<in> set (m_gc_queue m) \<or> \<not> u_in_cleanup_queue (m_unit m' v)"
  unfolding free_frame_def by blast

lemma free_frame_trans: "free_frame a b \<Longrightarrow> free_frame b c \<Longrightarrow> free_frame a c"
  unfolding free_frame_def by metis

lemma free_frame_steps [simp]:
  "free_frame m (unit_add_to_gc_queue u m)" "free_frame m (upd_all_deps u f m)" "free_frame m (upd_deps u d g m)"
  by (simp_all add: free_frame_def unit_add_to_gc_queue_def upd_all_deps_def upd_deps_def upd_unit_def Let_def)

lemma bidi_set_free_ok:
  "(\<forall>v k. u_deps (bidi_set_free u us m) v k = (if v \<in> set us then dep_remove u (u_deps m v k) else u_deps m v k)) \<and>
   free_frame m (bidi_set_free u us m)"
proof (induction us arbitrary: m)
  case (Cons other us)
  let ?m = "unit_add_to_gc_queue other (upd_all_deps other (dep_remove u) m)"
  have "free_frame m ?m" using free_frame_trans free_frame_steps(1,2) by blast
  moreover have "dep_remove u (dep_remove u s) = dep_remove u s" for s by (simp add: dep_remove_def)
  ultimately show ?case using Cons [of ?m] free_frame_trans by auto
qed simp

lemma dep_remove_id: "v \<notin> set s \<Longrightarrow> dep_remove v s = s"
  by (induction s) (auto simp: dep_remove_def)

text \<open>After some sets have been freed, the unit is out of the sets of the units that were in them.\<close>

lemma free_dependencies_ok:
  assumes "\<forall>d. u \<notin> set (u_deps m u d)"
  shows "\<exists>m'. free_dependencies u b ds m = Some m' \<and> free_frame m m' \<and>
     (\<forall>d. u_deps m' u d = (if d \<in> set ds then [] else u_deps m u d)) \<and>
     (\<forall>v k. v \<noteq> u \<longrightarrow> u_deps m' v k =
        (if \<exists>d \<in> set ds. v \<in> set (u_deps m u d) then dep_remove u (u_deps m v k) else u_deps m v k))"
  using assms
proof (induction ds arbitrary: b m)
  case (Cons d ds)
  let ?s = "u_deps m u d"
  let ?m = "upd_deps u d (\<lambda>s. []) (bidi_set_free u ?s m)"
  note bidi = bidi_set_free_ok [of u ?s m]
  have u: "u \<notin> set ?s" using Cons.prems by blast
  have deps: "u_deps ?m v k = (if v = u \<and> k = d then [] else if v \<in> set ?s then dep_remove u (u_deps m v k) else u_deps m v k)" for v k
    using bidi by auto
  have "\<forall>k. u \<notin> set (u_deps ?m u k)" using Cons.prems u unfolding deps by auto
  from Cons.IH [OF this, of "b \<or> ?s \<noteq> []"] obtain m' where m': "free_dependencies u (b \<or> ?s \<noteq> []) ds ?m = Some m'" "free_frame ?m m'"
      "\<And>k. u_deps m' u k = (if k \<in> set ds then [] else u_deps ?m u k)"
      "\<And>v k. v \<noteq> u \<Longrightarrow> u_deps m' v k =
        (if \<exists>d \<in> set ds. v \<in> set (u_deps ?m u d) then dep_remove u (u_deps ?m v k) else u_deps ?m v k)"
    by blast
  have "free_frame m m'" using bidi m'(2) free_frame_trans free_frame_steps(3) by blast
  moreover have "free_dependencies u b (d # ds) m = Some m'" using u m'(1) by (simp add: Let_def)
  moreover have "u_deps m' u k = (if k \<in> set (d # ds) then [] else u_deps m u k)" for k
    using m'(3) [of k, unfolded deps] u by auto
  moreover have "u_deps m' v k = (if \<exists>e \<in> set (d # ds). v \<in> set (u_deps m u e) then dep_remove u (u_deps m v k) else u_deps m v k)"
    if "v \<noteq> u" for v k
  proof -
    have "dep_remove u (dep_remove u s) = dep_remove u s" for s by (simp add: dep_remove_def)
    moreover have "(\<exists>e \<in> set ds. v \<in> set (u_deps ?m u e)) \<or> v \<in> set ?s \<longleftrightarrow> (\<exists>e \<in> set (d # ds). v \<in> set (u_deps m u e))"
      using u unfolding deps by auto
    ultimately show ?thesis using m'(4) [OF that, of k] that unfolding deps by auto
  qed
  ultimately show ?case by blast
qed simp

lemma all_dependencies_UNIV: "set all_dependencies = UNIV"
proof -
  have "d \<in> set all_dependencies" for d by (cases d) (simp_all add: all_dependencies_def)
  then show ?thesis by blast
qed

text \<open>
  The table of names leads only to units that carry the name, and the queues hold only units that
  are flagged as being in them.
\<close>

definition unit_tables :: "manager \<Rightarrow> bool" where
  "unit_tables m \<longleftrightarrow>
     (\<forall>t u. omap_get (m_units m) t = Some u \<longrightarrow> t \<in> set (u_names (m_unit m u))) \<and>
     distinct (m_load_queue m) \<and> (\<forall>u \<in> set (m_load_queue m). u_in_load_queue (m_unit m u)) \<and>
     distinct (m_dbus_unit_queue m) \<and> (\<forall>u \<in> set (m_dbus_unit_queue m). u_in_dbus_queue (m_unit m u))"

text \<open>
  The units \<open>F\<close> are in no table of the manager any more, and nothing else has left one: their names
  are free, and they are in neither the load queue nor the D-Bus queue nor the queue of the collector.
\<close>

definition forgotten :: "uid set \<Rightarrow> manager \<Rightarrow> manager \<Rightarrow> bool" where
  "forgotten F m m' \<longleftrightarrow>
     (\<forall>t. omap_get (m_units m') t =
        (case omap_get (m_units m) t of Some u \<Rightarrow> if u \<in> F then None else Some u | None \<Rightarrow> None)) \<and>
     set (m_load_queue m') = set (m_load_queue m) - F \<and>
     set (m_dbus_unit_queue m') = set (m_dbus_unit_queue m) - F \<and>
     set (m_gc_queue m') \<inter> F = {}"

lemma omap_get_remove_names:
  "omap_get (fold (\<lambda>t us. omap_remove_value t u us) ts us) t =
     (if t \<in> set ts \<and> omap_get us t = Some u then None else omap_get us t)"
  by (induction ts arbitrary: us) auto

lemma set_remove_flagged:
  "distinct xs \<Longrightarrow> (u \<in> set xs \<Longrightarrow> b) \<Longrightarrow> set (if b then remove1 u xs else xs) = set xs - {u}"
  by auto

lemma unit_free_ok:
  assumes i: "dep_inv m" and j: "u_job (m_unit m u) = None" and t: "unit_tables m"
  shows "\<exists>m'. unit_free u m = Some m' \<and> dep_inv m' \<and> (\<forall>v k. u_deps m' v k = (if v = u then [] else dep_remove u (u_deps m v k))) \<and>
     m_cleanup_queue m' = (if u_in_cleanup_queue (m_unit m u) then remove1 u (m_cleanup_queue m) else m_cleanup_queue m) \<and>
     m_job m' = m_job m \<and> (\<forall>v. u_job (m_unit m' v) = u_job (m_unit m v) \<and>
       u_in_cleanup_queue (m_unit m' v) = u_in_cleanup_queue (m_unit m v)) \<and> unit_tables m' \<and>
     (\<forall>n. omap_get (m_units m') n = (if omap_get (m_units m) n = Some u then None else omap_get (m_units m) n)) \<and>
     set (m_load_queue m') = set (m_load_queue m) - {u} \<and> set (m_dbus_unit_queue m') = set (m_dbus_unit_queue m) - {u} \<and>
     (\<forall>v \<in> set (m_gc_queue m'). v \<in> set (m_gc_queue m) \<or> \<not> u_in_cleanup_queue (m_unit m v))"
proof -
  let ?m1 = "m\<lparr>m_units := fold (\<lambda>t us. omap_remove_value t u us) (u_names (m_unit m u)) (m_units m)\<rparr>"
  have "\<forall>d. u \<notin> set (u_deps ?m1 u d)" using i by (simp add: dep_inv_def)
  from free_dependencies_ok [OF this, of False all_dependencies] obtain m3 where
      m3: "free_dependencies u False all_dependencies ?m1 = Some m3" "free_frame ?m1 m3" "\<And>d. u_deps m3 u d = []"
      "\<And>v k. v \<noteq> u \<Longrightarrow> u_deps m3 v k =
        (if \<exists>d. v \<in> set (u_deps m u d) then dep_remove u (u_deps m v k) else u_deps m v k)"
    unfolding all_dependencies_UNIV by auto
  have rem: "u_deps m3 v k = (if v = u then [] else dep_remove u (u_deps m v k))" for v k
  proof (cases "v = u \<or> (\<exists>d. v \<in> set (u_deps m u d))")
    case False
    then have "u \<notin> set (u_deps m v k)" using i unfolding dep_inv_def by blast
    then show ?thesis using m3(4) [of v k] False by (auto simp: dep_remove_id)
  qed (use m3(3,4) in auto)
  obtain m' where m': "unit_free u m = Some m'" "m_unit m' = m_unit m3" "m_job m' = m_job m3" "m_units m' = m_units m3"
      "m_cleanup_queue m' = (if u_in_cleanup_queue (m_unit m3 u) then remove1 u (m_cleanup_queue m3) else m_cleanup_queue m3)"
      "m_load_queue m' = (if u_in_load_queue (m_unit m3 u) then remove1 u (m_load_queue m3) else m_load_queue m3)"
      "m_dbus_unit_queue m' = (if u_in_dbus_queue (m_unit m3 u) then remove1 u (m_dbus_unit_queue m3) else m_dbus_unit_queue m3)"
      "set (m_gc_queue m') \<subseteq> set (m_gc_queue m3)"
    using j m3(1) by (simp add: unit_free_def Let_def set_remove1_subset)
  have fr: "m_cleanup_queue m3 = m_cleanup_queue m" "m_job m3 = m_job m" "m_units m3 = m_units ?m1"
    "m_load_queue m3 = m_load_queue m" "m_dbus_unit_queue m3 = m_dbus_unit_queue m"
    "\<And>v. u_job (m_unit m3 v) = u_job (m_unit m v) \<and> u_in_cleanup_queue (m_unit m3 v) = u_in_cleanup_queue (m_unit m v)"
    "\<And>v. u_names (m_unit m3 v) = u_names (m_unit m v) \<and> u_in_load_queue (m_unit m3 v) = u_in_load_queue (m_unit m v) \<and>
      u_in_dbus_queue (m_unit m3 v) = u_in_dbus_queue (m_unit m v)"
    using m3(2) by (simp_all add: free_frame_def)
  have gc3: "\<forall>v \<in> set (m_gc_queue m3). v \<in> set (m_gc_queue m) \<or> \<not> u_in_cleanup_queue (m_unit m3 v)"
    using free_frame_gc [OF m3(2)] by simp
  have deps: "u_deps m' v k = (if v = u then [] else dep_remove u (u_deps m v k))" for v k using rem m'(2) by simp
  have "dep_inv m'"
    using i unfolding dep_inv_def deps by (auto simp: dep_remove_def)
  moreover have names: "omap_get (m_units m') n = (if omap_get (m_units m) n = Some u then None else omap_get (m_units m) n)" for n
    using t by (auto simp: m'(4) fr(3) omap_get_remove_names unit_tables_def)
  moreover have queues: "set (m_load_queue m') = set (m_load_queue m) - {u}" "set (m_dbus_unit_queue m') = set (m_dbus_unit_queue m) - {u}"
    unfolding m'(6,7) fr(4,5) using t fr(7) by (auto simp: unit_tables_def)
  moreover have "unit_tables m'"
  proof -
    have "distinct (m_load_queue m')" "distinct (m_dbus_unit_queue m')"
      unfolding m'(6,7) fr(4,5) using t by (simp_all add: unit_tables_def)
    then show ?thesis using t unfolding unit_tables_def queues m'(2) by (auto simp: fr(7) names split: if_splits)
  qed
  moreover have "\<forall>v \<in> set (m_gc_queue m'). v \<in> set (m_gc_queue m) \<or> \<not> u_in_cleanup_queue (m_unit m v)"
    using m'(8) gc3 fr(6) by blast
  ultimately show ?thesis using m'(1-3,5) deps fr(1,2,6) by auto
qed

lemma cleanup_queue_ok:
  "dep_inv m \<Longrightarrow> unit_tables m \<Longrightarrow> distinct (m_cleanup_queue m) \<Longrightarrow>
   \<forall>u \<in> set (m_cleanup_queue m). u_in_cleanup_queue (m_unit m u) \<and> u_job (m_unit m u) = None \<Longrightarrow>
   \<forall>u \<in> set (m_gc_queue m). \<not> u_in_cleanup_queue (m_unit m u) \<Longrightarrow>
   \<exists>n' m'. manager_dispatch_cleanup_queue n m = Some (n', m') \<and> m_cleanup_queue m' = [] \<and> dep_inv m' \<and> unit_tables m' \<and>
     m_job m' = m_job m \<and> forgotten (set (m_cleanup_queue m)) m m' \<and>
     (\<forall>v \<in> set (m_gc_queue m'). \<not> u_in_cleanup_queue (m_unit m v)) \<and>
     (\<forall>v k. u_deps m' v k = (if v \<in> set (m_cleanup_queue m) then []
        else filter (\<lambda>x. x \<notin> set (m_cleanup_queue m)) (u_deps m v k)))"
proof (induction "m_cleanup_queue m" arbitrary: m n)
  case Nil
  then show ?case using Nil(1) [symmetric]
    by (subst manager_dispatch_cleanup_queue.simps) (auto simp: forgotten_def split: option.split)
next
  case (Cons u us)
  note q = Cons.hyps(2) [symmetric]
  have u: "u_in_cleanup_queue (m_unit m u)" "u_job (m_unit m u) = None" "u \<notin> set (m_gc_queue m)" using Cons.prems(4,5) q by auto
  obtain m1 where m1: "unit_free u m = Some m1" "dep_inv m1" "\<And>v k. u_deps m1 v k = (if v = u then [] else dep_remove u (u_deps m v k))"
      "m_cleanup_queue m1 = us" "m_job m1 = m_job m"
      "\<And>v. u_job (m_unit m1 v) = u_job (m_unit m v) \<and> u_in_cleanup_queue (m_unit m1 v) = u_in_cleanup_queue (m_unit m v)"
      "unit_tables m1"
      "\<And>n. omap_get (m_units m1) n = (if omap_get (m_units m) n = Some u then None else omap_get (m_units m) n)"
      "set (m_load_queue m1) = set (m_load_queue m) - {u}" "set (m_dbus_unit_queue m1) = set (m_dbus_unit_queue m) - {u}"
      "\<And>v. v \<in> set (m_gc_queue m1) \<Longrightarrow> v \<in> set (m_gc_queue m) \<or> \<not> u_in_cleanup_queue (m_unit m v)"
    using unit_free_ok [OF Cons.prems(1) u(2) Cons.prems(2)] u(1) q by auto
  have p: "distinct (m_cleanup_queue m1)" "\<forall>v \<in> set (m_cleanup_queue m1). u_in_cleanup_queue (m_unit m1 v) \<and> u_job (m_unit m1 v) = None"
    "\<forall>v \<in> set (m_gc_queue m1). \<not> u_in_cleanup_queue (m_unit m1 v)"
    using Cons.prems(3-5) q m1(4,6,11) by auto
  from Cons.hyps(1) [OF m1(4) [symmetric] m1(2,7) p, of "n + 1"] obtain n' m' where
      m': "manager_dispatch_cleanup_queue (n + 1) m1 = Some (n', m')" "m_cleanup_queue m' = []" "dep_inv m'" "m_job m' = m_job m1"
        "\<And>v k. u_deps m' v k = (if v \<in> set us then [] else filter (\<lambda>x. x \<notin> set us) (u_deps m1 v k))"
        "unit_tables m'" "forgotten (set us) m1 m'" "\<forall>v \<in> set (m_gc_queue m'). \<not> u_in_cleanup_queue (m_unit m1 v)"
    unfolding m1(4) by blast
  have "u_deps m' v k = (if v \<in> set (m_cleanup_queue m) then [] else filter (\<lambda>x. x \<notin> set (m_cleanup_queue m)) (u_deps m v k))" for v k
    unfolding m'(5) m1(3) q by (auto simp: dep_remove_def filter_filter intro: filter_cong)
  moreover have "manager_dispatch_cleanup_queue n m = Some (n', m')"
    using m1(1) m'(1) u(1) by (subst manager_dispatch_cleanup_queue.simps) (simp add: q)
  moreover have gc: "\<forall>v \<in> set (m_gc_queue m'). \<not> u_in_cleanup_queue (m_unit m v)" using m'(8) m1(6) by simp
  moreover have "forgotten (set (m_cleanup_queue m)) m m'"
  proof -
    have "set (m_gc_queue m') \<inter> set (m_cleanup_queue m) = {}" using gc Cons.prems(4) by blast
    moreover have "omap_get (m_units m') t = (case omap_get (m_units m) t of
        Some v \<Rightarrow> if v \<in> set (u # us) then None else Some v | None \<Rightarrow> None)" for t
      using m'(7) m1(8) [of t] by (auto simp: forgotten_def split: option.split)
    ultimately show ?thesis using m'(7) m1(9,10) unfolding forgotten_def q by auto
  qed
  ultimately show ?case using m'(2-4,6) m1(5) by auto
qed

text \<open>A run of the collector and the clearing of the cleanup queue after it.\<close>

lemma collect_ok:
  assumes U: "finite U" "\<forall>x \<in> U. set (u_deps m x UNIT_REFERENCED_BY) \<subseteq> U" "card U < f"
    and m: "wf_gc m" "set (m_gc_queue m) \<subseteq> U" "fresh_marks (next_gc_marker (m_gc_marker m)) m"
    and d: "dep_inv m" "\<forall>u. u_in_cleanup_queue (m_unit m u) \<longrightarrow> u_job (m_unit m u) = None" "unit_tables m"
  shows "\<exists>n m1 k m2 F. manager_dispatch_gc_queue f True m = Some (n, m1) \<and>
     manager_dispatch_cleanup_queue 0 m1 = Some (k, m2) \<and> m_gc_queue m1 = [] \<and> m_cleanup_queue m2 = [] \<and>
     (\<forall>u \<in> F. \<not> needed m u) \<and> (\<forall>u \<in> set (m_gc_queue m). u \<in> F \<or> needed m u) \<and> dep_inv m2 \<and> unit_tables m2 \<and>
     forgotten F m m2 \<and>
     (\<forall>v k. u_deps m2 v k = (if v \<in> F then [] else filter (\<lambda>x. x \<notin> F) (u_deps m v k)))"
proof -
  obtain n m1 where m1: "manager_dispatch_gc_queue f True m = Some (n, m1)" "m_gc_queue m1 = []"
     "\<And>u. gc_static (m_unit m1 u) = gc_static (m_unit m u)"
     "\<forall>u \<in> set (m_gc_queue m). u_in_cleanup_queue (m_unit m1 u) \<longleftrightarrow> \<not> needed m u"
     "\<forall>u. u_in_cleanup_queue (m_unit m1 u) \<longrightarrow> \<not> needed m u" "wf_gc m1"
     "m_units m1 = m_units m" "m_load_queue m1 = m_load_queue m" "m_dbus_unit_queue m1 = m_dbus_unit_queue m"
    using gc_run [OF U m] by blast
  let ?F = "set (m_cleanup_queue m1)"
  have F: "u \<in> ?F \<longleftrightarrow> u_in_cleanup_queue (m_unit m1 u)" for u using m1(6) by (simp add: wf_gc_def)
  have deps: "u_deps m1 v = u_deps m v" for v using gc_staticD(1) [OF m1(3)] .
  then have "dep_inv m1" using d(1) by (simp add: dep_inv_def)
  moreover have "unit_tables m1" using d(3) unfolding unit_tables_def m1(7-9) gc_staticD(8-10) [OF m1(3)] .
  moreover have "u_job (m_unit m1 u) = None" if "u \<in> ?F" for u
  proof -
    have "u_in_cleanup_queue (m_unit m u) \<or> \<not> unit_check_gc m u" using that F m1(5) needed.stays by blast
    then have "u_job (m_unit m u) = None" using d(2) by (auto simp: unit_check_gc_def Let_def split: if_splits)
    then show ?thesis using gc_staticD(5) [OF m1(3)] by simp
  qed
  moreover have "distinct (m_cleanup_queue m1)" using m1(6) by (simp add: wf_gc_def)
  ultimately obtain k m2 where m2: "manager_dispatch_cleanup_queue 0 m1 = Some (k, m2)" "m_cleanup_queue m2 = []" "dep_inv m2"
     "unit_tables m2" "forgotten ?F m1 m2"
     "\<forall>v k. u_deps m2 v k = (if v \<in> ?F then [] else filter (\<lambda>x. x \<notin> ?F) (u_deps m1 v k))"
    using cleanup_queue_ok [of m1 0] F m1(2) by auto
  have "forgotten ?F m m2" using m2(5) unfolding forgotten_def m1(7-9) .
  moreover have "\<forall>u \<in> ?F. \<not> needed m u" "\<forall>u \<in> set (m_gc_queue m). u \<in> ?F \<or> needed m u" using m1(4,5) F by blast+
  ultimately show ?thesis using m1(1,2) m2 unfolding deps by (intro exI [of _ n] exI [of _ m1] exI [of _ k] exI [of _ m2] exI [of _ ?F] conjI)
qed


subsection \<open>Merging identifies two units\<close>

text \<open>The renaming of the other unit to the unit it is merged into.\<close>

definition into :: "uid \<Rightarrow> uid \<Rightarrow> uid \<Rightarrow> uid" where
  "into u other x = (if x = other then u else x)"

lemma into_id: "other \<notin> S \<Longrightarrow> into u other ` S = S"
  by (auto simp: into_def image_def)

lemma into_twice: "u \<noteq> other \<Longrightarrow> into u other ` into u other ` S = into u other ` S"
  by (auto simp: into_def image_image)

lemma set_dep_swap: "u \<noteq> other \<Longrightarrow> set (dep_swap other u s) = into u other ` set s"
  by (auto simp: dep_swap_def into_def image_def)

lemma fix_back_ok:
  assumes "u \<noteq> other"
  shows "other \<notin> set bs \<Longrightarrow> \<exists>m'. fix_back u other bs m = Some m' \<and>
     (\<forall>v k. set (u_deps m' v k) = (if v \<in> set bs then into u other ` set (u_deps m v k) else set (u_deps m v k))) \<and>
     (\<forall>k. u_deps m' other k = u_deps m other k)"
proof (induction bs arbitrary: m)
  case (Cons b bs)
  let ?m = "upd_all_deps b (dep_swap other u) m"
  obtain m' where m': "fix_back u other bs ?m = Some m'"
     "\<And>v k. set (u_deps m' v k) = (if v \<in> set bs then into u other ` set (u_deps ?m v k) else set (u_deps ?m v k))"
     "\<And>k. u_deps m' other k = u_deps ?m other k"
    using Cons.IH [of ?m] Cons.prems by auto
  have "set (u_deps m' v k) = (if v \<in> set (b # bs) then into u other ` set (u_deps m v k) else set (u_deps m v k))" for v k
    using m'(2) [of v k] into_twice [OF assms] by (auto simp: set_dep_swap [OF assms])
  then show ?case using m'(1,3) Cons.prems by auto
qed simp

lemma set_complete_move: "set (complete_move s t) = set s \<union> set t"
  by (auto simp: complete_move_def)

lemma merge_dependencies_ok:
  assumes "u \<noteq> other" "other \<notin> set (u_deps m other d)"
  shows "\<exists>m'. merge_dependencies u other d m = Some m' \<and>
     (\<forall>v k. v \<noteq> other \<longrightarrow> set (u_deps m' v k) =
        (if v \<in> set (u_deps m other d) then into u other ` set (u_deps m v k) else set (u_deps m v k)) \<union>
        (if v = u \<and> k = d then set (u_deps m other d) else {})) \<and>
     (\<forall>k. u_deps m' other k = (if k = d then [] else u_deps m other k))"
proof -
  obtain m1 where m1: "fix_back u other (u_deps m other d) m = Some m1"
     "\<And>v k. set (u_deps m1 v k) = (if v \<in> set (u_deps m other d) then into u other ` set (u_deps m v k) else set (u_deps m v k))"
     "\<And>k. u_deps m1 other k = u_deps m other k"
    using fix_back_ok [OF assms] by blast
  let ?m = "upd_deps other d (\<lambda>s. []) (upd_deps u d (\<lambda>s. complete_move s (u_deps m1 other d)) m1)"
  have "merge_dependencies u other d m = Some ?m" using m1(1) by (simp add: merge_dependencies_def)
  moreover have "set (u_deps ?m v k) =
        (if v \<in> set (u_deps m other d) then into u other ` set (u_deps m v k) else set (u_deps m v k)) \<union>
        (if v = u \<and> k = d then set (u_deps m other d) else {})" if "v \<noteq> other" for v k
    using that m1(2) [of v k] m1(3) by (cases "v = u \<and> k = d") (auto simp: set_complete_move)
  moreover have "u_deps ?m other k = (if k = d then [] else u_deps m other k)" for k using assms(1) m1(3) by simp
  ultimately show ?thesis by blast
qed

lemma merge_all_dependencies_ok:
  assumes "u \<noteq> other"
  shows "\<forall>d. other \<notin> set (u_deps m other d) \<Longrightarrow> distinct ds \<Longrightarrow>
    \<exists>m'. merge_all_dependencies u other ds m = Some m' \<and>
     (\<forall>v k. v \<noteq> other \<longrightarrow> set (u_deps m' v k) =
        (if \<exists>d \<in> set ds. v \<in> set (u_deps m other d) then into u other ` set (u_deps m v k) else set (u_deps m v k)) \<union>
        (if v = u \<and> k \<in> set ds then set (u_deps m other k) else {})) \<and>
     (\<forall>k. u_deps m' other k = (if k \<in> set ds then [] else u_deps m other k))"
proof (induction ds arbitrary: m)
  case (Cons d ds)
  obtain m1 where m1: "merge_dependencies u other d m = Some m1"
     "\<And>v k. v \<noteq> other \<Longrightarrow> set (u_deps m1 v k) =
        (if v \<in> set (u_deps m other d) then into u other ` set (u_deps m v k) else set (u_deps m v k)) \<union>
        (if v = u \<and> k = d then set (u_deps m other d) else {})"
     "\<And>k. u_deps m1 other k = (if k = d then [] else u_deps m other k)"
    using merge_dependencies_ok [OF assms, of m d] Cons.prems(1) by blast
  have "\<forall>e. other \<notin> set (u_deps m1 other e)" using Cons.prems(1) by (simp add: m1(3))
  from Cons.IH [OF this] obtain m' where m': "merge_all_dependencies u other ds m1 = Some m'"
     "\<And>v k. v \<noteq> other \<Longrightarrow> set (u_deps m' v k) =
        (if \<exists>d \<in> set ds. v \<in> set (u_deps m1 other d) then into u other ` set (u_deps m1 v k) else set (u_deps m1 v k)) \<union>
        (if v = u \<and> k \<in> set ds then set (u_deps m1 other k) else {})"
     "\<And>k. u_deps m' other k = (if k \<in> set ds then [] else u_deps m1 other k)"
    using Cons.prems(2) by auto
  have later: "(\<exists>e \<in> set ds. v \<in> set (u_deps m1 other e)) \<longleftrightarrow> (\<exists>e \<in> set ds. v \<in> set (u_deps m other e))" for v
    using Cons.prems(2) by (auto simp: m1(3))
  have "set (u_deps m' v k) =
      (if \<exists>e \<in> set (d # ds). v \<in> set (u_deps m other e) then into u other ` set (u_deps m v k) else set (u_deps m v k)) \<union>
      (if v = u \<and> k \<in> set (d # ds) then set (u_deps m other k) else {})" if v: "v \<noteq> other" for v k
  proof -
    have id: "into u other ` set (u_deps m other k) = set (u_deps m other k)" using Cons.prems(1) by (simp add: into_id)
    have split: "k \<in> set ds \<Longrightarrow> k \<noteq> d" using Cons.prems(2) by auto
    show ?thesis
      unfolding m'(2) [OF v, of k] unfolding later unfolding m1(2) [OF v, of k] m1(3)
      by (cases "\<exists>e \<in> set ds. v \<in> set (u_deps m other e)"; cases "v \<in> set (u_deps m other d)"; cases "v = u"; cases "k = d")
        (use id split in \<open>simp_all add: image_Un into_twice [OF assms]\<close>)
  qed
  moreover have "u_deps m' other k = (if k \<in> set (d # ds) then [] else u_deps m other k)" for k
    using m'(3) [of k] m1(3) by simp
  moreover have "merge_all_dependencies u other (d # ds) m = Some m'" using m1(1) m'(1) by simp
  ultimately show ?case by blast
qed (simp add: assms)


lemma replace_units_ok:
  "\<forall>t \<in> set ts. omap_get (m_units m) t \<noteq> None \<Longrightarrow>
   \<exists>m'. replace_units u ts m = Some m' \<and> m_unit m' = m_unit m \<and>
     (\<forall>t. omap_get (m_units m') t = (if t \<in> set ts then Some u else omap_get (m_units m) t))"
proof (induction ts arbitrary: m)
  case (Cons t ts)
  let ?m = "m\<lparr>m_units := omap_replace t u (m_units m)\<rparr>"
  have "\<forall>t' \<in> set ts. omap_get (m_units ?m) t' \<noteq> None" using Cons.prems by simp
  from Cons.IH [OF this] obtain m' where "replace_units u ts ?m = Some m'" "m_unit m' = m_unit ?m"
      "\<And>t'. omap_get (m_units m') t' = (if t' \<in> set ts then Some u else omap_get (m_units ?m) t')"
    by blast
  then show ?case using Cons.prems by auto
qed simp

lemma fix_back_units: "fix_back u other bs m = Some m' \<Longrightarrow> m_units m' = m_units m"
  by (induction bs arbitrary: m) (auto simp: upd_all_deps_def upd_unit_def split: if_splits)

lemma merge_all_units: "merge_all_dependencies u other ds m = Some m' \<Longrightarrow> m_units m' = m_units m"
proof (induction ds arbitrary: m)
  case (Cons d ds)
  then obtain m1 where m1: "merge_dependencies u other d m = Some m1" "merge_all_dependencies u other ds m1 = Some m'"
    by (auto simp: bind_eq_Some_conv)
  have "m_units m1 = m_units m" using m1(1) fix_back_units
    by (auto simp: merge_dependencies_def bind_eq_Some_conv upd_deps_def upd_unit_def)
  then show ?case using Cons.IH [OF m1(2)] by simp
qed simp

definition mergeable :: "manager \<Rightarrow> uid \<Rightarrow> uid \<Rightarrow> bool" where
  "mergeable m u other \<longleftrightarrow> u \<noteq> other \<and> u_type (m_unit m u) \<noteq> None \<and> u_type (m_unit m other) = u_type (m_unit m u) \<and>
     (u_instance (m_unit m u) = None) = (u_instance (m_unit m other) = None) \<and>
     (u_load_state (m_unit m other) = UNIT_STUB \<or> u_load_state (m_unit m other) = UNIT_ERROR) \<and>
     u_job (m_unit m other) = None \<and> UNIT_IS_INACTIVE_OR_FAILED (unit_active_state m other)"

text \<open>Every name of a unit leads to it in the table of units.\<close>

definition names_known :: "manager \<Rightarrow> uid \<Rightarrow> bool" where
  "names_known m u \<longleftrightarrow> (\<forall>t \<in> set (u_names (m_unit m u)). omap_get (m_units m) t = Some u)"

lemma unit_merge_ok:
  assumes i: "dep_inv m" and g: "mergeable m u other" and n: "names_known m u" "names_known m other"
  shows "\<exists>m'. unit_merge u other m = Some (Inr (), m') \<and>
     (\<forall>v k. v \<noteq> other \<longrightarrow> set (u_deps m' v k) =
        into u other ` (set (u_deps m v k) \<union> (if v = u then set (u_deps m other k) else {}))) \<and>
     (\<forall>k. u_deps m' other k = []) \<and>
     (\<forall>t. omap_get (m_units m') t = (if t \<in> set (u_names (m_unit m other)) then Some u else omap_get (m_units m) t)) \<and>
     u_load_state (m_unit m' other) = UNIT_MERGED \<and> u_merged_into (m_unit m' other) = Some u"
proof -
  have ne: "u \<noteq> other" using g by (simp add: mergeable_def)
  let ?names = "complete_move (u_names (m_unit m u)) (u_names (m_unit m other))"
  let ?m1 = "upd_unit other (\<lambda>x. x\<lparr>u_names := [], u_id := []\<rparr>) (upd_unit u (\<lambda>x. x\<lparr>u_names := ?names\<rparr>) m)"
  have units: "m_units ?m1 = m_units m" by (simp add: upd_unit_def)
  have "\<forall>t \<in> set ?names. omap_get (m_units ?m1) t \<noteq> None"
    using n unfolding units by (auto simp: set_complete_move names_known_def)
  from replace_units_ok [OF this, of u] obtain m1 where m1: "merge_names u other m = Some m1" "m_unit m1 = m_unit ?m1"
      "\<And>t. omap_get (m_units m1) t = (if t \<in> set ?names then Some u else omap_get (m_units m) t)"
    unfolding units by (auto simp: merge_names_def Let_def)
  have deps1: "u_deps m1 v = u_deps m v" for v by (simp add: m1(2) upd_unit_def)
  have irr: "\<forall>d. other \<notin> set (u_deps m1 other d)" using i unfolding deps1 by (simp add: dep_inv_def)
  have "distinct all_dependencies" by (simp add: all_dependencies_def)
  from merge_all_dependencies_ok [OF ne irr this] obtain m2 where m2:
      "merge_all_dependencies u other all_dependencies m1 = Some m2"
      "\<And>v k. v \<noteq> other \<Longrightarrow> set (u_deps m2 v k) =
        (if \<exists>d. v \<in> set (u_deps m other d) then into u other ` set (u_deps m v k) else set (u_deps m v k)) \<union>
        (if v = u then set (u_deps m other k) else {})"
      "\<And>k. u_deps m2 other k = []"
    unfolding deps1 all_dependencies_UNIV by auto
  let ?m3 = "upd_unit other (\<lambda>x. x\<lparr>u_load_state := UNIT_MERGED, u_merged_into := Some u\<rparr>) m2"
  let ?m' = "unit_add_to_cleanup_queue other (unit_add_to_dbus_queue u ?m3)"
  have fol: "unit_follow_merge m other = Some other" using g by (subst unit_follow_merge.simps) (auto simp: mergeable_def)
  have run: "unit_merge u other m = Some (Inr (), ?m')"
    using g fol m1(1) m2(1) unfolding mergeable_def unit_merge_def by (auto simp: Let_def)
  have deps: "u_deps ?m' v = u_deps m2 v" for v
    by (simp add: unit_add_to_cleanup_queue_def unit_add_to_dbus_queue_def upd_unit_def)
  have quot: "set (u_deps m2 v k) = into u other ` (set (u_deps m v k) \<union> (if v = u then set (u_deps m other k) else {}))"
    if v: "v \<noteq> other" for v k
  proof -
    have "into u other ` set (u_deps m other k) = set (u_deps m other k)" using i by (intro into_id) (simp add: dep_inv_def)
    moreover have "into u other ` set (u_deps m v k) = set (u_deps m v k)" if "\<nexists>d. v \<in> set (u_deps m other d)"
      using i that unfolding dep_inv_def by (intro into_id) blast
    ultimately show ?thesis using m2(2) [OF v, of k] by (auto simp: image_Un)
  qed
  have "m_units ?m' = m_units m1" using merge_all_units [OF m2(1)]
    by (simp add: unit_add_to_cleanup_queue_def unit_add_to_dbus_queue_def upd_unit_def)
  then have "omap_get (m_units ?m') t = (if t \<in> set (u_names (m_unit m other)) then Some u else omap_get (m_units m) t)" for t
    using m1(3) [of t] n(1) by (auto simp: set_complete_move names_known_def)
  moreover have "u_load_state (m_unit ?m' other) = UNIT_MERGED \<and> u_merged_into (m_unit ?m' other) = Some u"
    by (simp add: unit_add_to_cleanup_queue_def unit_add_to_dbus_queue_def upd_unit_def)
  ultimately show ?thesis using run quot m2(3) deps by (intro exI [of _ ?m']) simp
qed

end
