(* ===== verification/Unit_Properties.thy ===== *)
theory Unit_Properties
  imports Sample_Manager Unit_Graph
begin

section \<open>Properties of the graph of units\<close>

text \<open>
  The main theorems on dependencies, merging and garbage collection of units, with their
  instances on sample managers.
\<close>

subsection \<open>Dependencies\<close>

text \<open>
  C16: Adding a dependency keeps the graph of units consistent: no unit depends on itself, every
  dependency has its inverse on the other side, sets have no duplicates.  Exactly the dependency,
  its inverse and, if asked for, the reference in both directions are added.
\<close>

theorem unit_add_dependency_consistent:
  assumes "dep_inv m" "unit_follow_merge m u0 = Some u" "unit_follow_merge m other0 = Some other"
    "inverse_table d \<noteq> None \<or> add_reference"
  shows "\<exists>m'. unit_add_dependency u0 d other0 add_reference m = Some (Inr (), m') \<and> dep_inv m' \<and>
     (\<forall>x k. set (u_deps m' x k) = set (u_deps m x k) \<union> {y. u \<noteq> other \<and> added u d other add_reference x k y})"
  using unit_add_dependency_inv [OF assms] .

lemma sample_deps:
  "u_deps sample_manager u d = (if u = 0 \<and> (d = UNIT_REQUIRES \<or> d = UNIT_AFTER) then [1]
     else if u \<noteq> 0 \<and> (d = UNIT_REQUIRED_BY \<or> d = UNIT_BEFORE) then [0] else [])"
  by (simp add: sample_defs)

definition sample_two :: manager where
  "sample_two = fresh_manager [(''a.target'', 0), (''b.target'', 1)]
     (\<lambda>u. if u = 0 then sample_unit ''a.target'' (no_deps(UNIT_AFTER := [1]))
          else if u = 1 then (sample_unit ''b.target'' (no_deps(UNIT_BEFORE := [0])))\<lparr>u_load_state := UNIT_STUB\<rparr>
          else sample_unit ''c.target'' no_deps)"

lemma sample_two_deps:
  "u_deps sample_two u d = (if u = 0 \<and> d = UNIT_AFTER then [1] else if u = 1 \<and> d = UNIT_BEFORE then [0] else [])"
  by (simp add: sample_two_def fresh_manager_def sample_unit_def no_deps_def)

lemma sample_two_inv: "dep_inv sample_two"
  unfolding dep_inv_def sample_two_deps by (auto simp: inverse_table_def split: if_splits)

lemma sample_two_follow: "unit_follow_merge sample_two u = Some u"
  by (subst unit_follow_merge.simps) (simp add: sample_two_def fresh_manager_def sample_unit_def)

theorem unit_add_dependency_consistent_witness:
  "\<exists>m'. dep_inv sample_two \<and> unit_add_dependency 1 UNIT_WANTS 0 True sample_two = Some (Inr (), m') \<and> dep_inv m' \<and>
     1 \<in> set (u_deps m' 0 UNIT_WANTED_BY) \<and> 1 \<in> set (u_deps m' 0 UNIT_AFTER)"
proof -
  obtain m' where m': "unit_add_dependency 1 UNIT_WANTS 0 True sample_two = Some (Inr (), m')" "dep_inv m'"
     "\<And>x k. set (u_deps m' x k) = set (u_deps sample_two x k) \<union> {y. (1 :: nat) \<noteq> 0 \<and> added 1 UNIT_WANTS 0 True x k y}"
    using unit_add_dependency_consistent [OF sample_two_inv sample_two_follow [of 1] sample_two_follow [of 0], of UNIT_WANTS True]
    by auto
  have "1 \<in> set (u_deps m' 0 UNIT_WANTED_BY)" "1 \<in> set (u_deps m' 0 UNIT_AFTER)"
    unfolding m'(3) by (auto simp: added_def inverse_table_def sample_two_deps)
  then show ?thesis using sample_two_inv m'(1,2) by blast
qed

subsection \<open>Merging\<close>

text \<open>
  C17: Merging a unit into another one identifies the two in the whole graph: every pointer to the
  merged unit becomes a pointer to the other, which takes over its dependencies and names, and
  nothing points to the merged unit any more.  If one of the two depended on the other, the result
  depends on itself, which \<open>unit_add_dependency\<close> rules out.
\<close>

theorem unit_merge_quotient:
  assumes "dep_inv m" "mergeable m u other" "names_known m u" "names_known m other"
  shows "\<exists>m'. unit_merge u other m = Some (Inr (), m') \<and>
     (\<forall>v k. v \<noteq> other \<longrightarrow> set (u_deps m' v k) =
        into u other ` (set (u_deps m v k) \<union> (if v = u then set (u_deps m other k) else {}))) \<and>
     (\<forall>k. u_deps m' other k = []) \<and>
     (\<forall>t. omap_get (m_units m') t = (if t \<in> set (u_names (m_unit m other)) then Some u else omap_get (m_units m) t)) \<and>
     (\<forall>k. u \<in> set (u_deps m' u k) \<longleftrightarrow> other \<in> set (u_deps m u k) \<or> u \<in> set (u_deps m other k))"
proof -
  have ne: "u \<noteq> other" using assms(2) by (simp add: mergeable_def)
  obtain m' where m': "unit_merge u other m = Some (Inr (), m')"
     "\<And>v k. v \<noteq> other \<Longrightarrow> set (u_deps m' v k) =
        into u other ` (set (u_deps m v k) \<union> (if v = u then set (u_deps m other k) else {}))"
     "\<forall>k. u_deps m' other k = []"
     "\<forall>t. omap_get (m_units m') t = (if t \<in> set (u_names (m_unit m other)) then Some u else omap_get (m_units m) t)"
    using unit_merge_ok [OF assms] by blast
  have "u \<in> set (u_deps m' u k) \<longleftrightarrow> other \<in> set (u_deps m u k) \<or> u \<in> set (u_deps m other k)" for k
    using m'(2) [OF ne, of k] assms(1) ne by (auto simp: into_def image_iff dep_inv_def)
  then show ?thesis using m' by blast
qed

theorem unit_merge_quotient_witness:
  "\<exists>m'. dep_inv sample_two \<and> unit_merge 0 1 sample_two = Some (Inr (), m') \<and> 0 \<in> set (u_deps m' 0 UNIT_AFTER) \<and>
     omap_get (m_units m') ''b.target'' = Some 0"
proof -
  have "mergeable sample_two 0 1" "names_known sample_two 0" "names_known sample_two 1"
    "u_names (m_unit sample_two 1) = [''b.target'']"
    by (auto simp: mergeable_def names_known_def sample_two_def fresh_manager_def sample_unit_def unit_active_state_def
        UNIT_IS_INACTIVE_OR_FAILED_def omap_get_def)
  then obtain m' where "unit_merge 0 1 sample_two = Some (Inr (), m')"
     "\<forall>t. omap_get (m_units m') t = (if t \<in> {''b.target''} then Some 0 else omap_get (m_units sample_two) t)"
     "\<forall>k. 0 \<in> set (u_deps m' 0 k) \<longleftrightarrow> 1 \<in> set (u_deps sample_two 0 k) \<or> 0 \<in> set (u_deps sample_two 1 k)"
    using unit_merge_quotient [OF sample_two_inv, of 0 1] by auto
  then show ?thesis using sample_two_inv by (simp add: sample_two_deps)
qed

subsection \<open>Garbage collection\<close>

text \<open>
  C15: A run of the garbage collector followed by the cleanup ends and is exact: of the units in the
  queue exactly those are freed that no unit that has to stay references, directly or through
  others, whatever cycles the references form, and no needed unit is freed.  Afterwards nothing in the
  manager leads to a freed unit: its names are gone from the table of units, it is in no queue, and
  no unit depends on it; everything else has stayed.  A depth of one more than the number of units
  is enough.  The marks of earlier runs must not coincide with those of this one, the table of
  names must lead to units that have the name, queues and flags must agree, and a unit waiting for its
  cleanup must have no job.
\<close>

theorem unit_gc_exact:
  assumes "finite U" "\<forall>x \<in> U. set (u_deps m x UNIT_REFERENCED_BY) \<subseteq> U" "card U < f"
    "wf_gc m" "set (m_gc_queue m) \<subseteq> U" "fresh_marks (next_gc_marker (m_gc_marker m)) m"
    "dep_inv m" "\<forall>u. u_in_cleanup_queue (m_unit m u) \<longrightarrow> u_job (m_unit m u) = None" "unit_tables m"
  shows "\<exists>n m1 k m2 F. manager_dispatch_gc_queue f True m = Some (n, m1) \<and>
     manager_dispatch_cleanup_queue 0 m1 = Some (k, m2) \<and> m_gc_queue m1 = [] \<and> m_cleanup_queue m2 = [] \<and>
     (\<forall>u \<in> F. \<not> needed m u) \<and> (\<forall>u \<in> set (m_gc_queue m). u \<in> F \<or> needed m u) \<and> dep_inv m2 \<and> unit_tables m2 \<and>
     (\<forall>t. omap_get (m_units m2) t =
        (case omap_get (m_units m) t of Some u \<Rightarrow> if u \<in> F then None else Some u | None \<Rightarrow> None)) \<and>
     set (m_load_queue m2) = set (m_load_queue m) - F \<and>
     set (m_dbus_unit_queue m2) = set (m_dbus_unit_queue m) - F \<and> set (m_gc_queue m2) \<inter> F = {} \<and>
     (\<forall>v k. u_deps m2 v k = (if v \<in> F then [] else filter (\<lambda>x. x \<notin> F) (u_deps m v k)))"
  using collect_ok [OF assms] by (simp only: forgotten_def conj_assoc)

text \<open>Units 0 and 1 reference each other, 2 is active and references 3; 0 and 3 are in the queue.\<close>

definition sample_gc :: manager where
  "sample_gc =
     (fresh_manager [(''a.target'', 0), (''b.target'', 1), (''c.target'', 2), (''d.target'', 3)]
       (\<lambda>u. if u = 0 then (sample_unit ''a.target'' (no_deps(UNIT_REFERENCES := [1], UNIT_REFERENCED_BY := [1])))\<lparr>u_in_gc_queue := True\<rparr>
            else if u = 1 then sample_unit ''b.target'' (no_deps(UNIT_REFERENCES := [0], UNIT_REFERENCED_BY := [0]))
            else if u = 2 then (sample_unit ''c.target'' (no_deps(UNIT_REFERENCES := [3])))\<lparr>u_active_state := UNIT_ACTIVE\<rparr>
            else if u = 3 then (sample_unit ''d.target'' (no_deps(UNIT_REFERENCED_BY := [2])))\<lparr>u_in_gc_queue := True\<rparr>
            else sample_unit ''e.target'' no_deps))\<lparr>m_gc_queue := [0, 3], m_n_in_gc_queue := 2\<rparr>"

lemma sample_gc_deps:
  "u_deps sample_gc u d = (if u = 0 \<and> (d = UNIT_REFERENCES \<or> d = UNIT_REFERENCED_BY) then [1]
     else if u = 1 \<and> (d = UNIT_REFERENCES \<or> d = UNIT_REFERENCED_BY) then [0]
     else if u = 2 \<and> d = UNIT_REFERENCES then [3] else if u = 3 \<and> d = UNIT_REFERENCED_BY then [2] else [])"
  by (simp add: sample_gc_def fresh_manager_def sample_unit_def no_deps_def)

lemma sample_gc_ok:
  "wf_gc sample_gc" "fresh_marks (next_gc_marker (m_gc_marker sample_gc)) sample_gc" "dep_inv sample_gc"
  "set (m_gc_queue sample_gc) = {0, 3}" "\<not> u_in_cleanup_queue (m_unit sample_gc u)" "unit_tables sample_gc"
proof -
  show "unit_tables sample_gc"
    by (auto simp: unit_tables_def sample_gc_def fresh_manager_def sample_unit_def omap_get_def split: if_splits)
  show "wf_gc sample_gc" "set (m_gc_queue sample_gc) = {0, 3}" "\<not> u_in_cleanup_queue (m_unit sample_gc u)"
    by (auto simp: wf_gc_def sample_gc_def fresh_manager_def sample_unit_def)
  show "fresh_marks (next_gc_marker (m_gc_marker sample_gc)) sample_gc"
    by (auto simp: fresh_marks_def next_gc_marker_def sample_gc_def fresh_manager_def sample_unit_def gc_offset_defs)
  have E: "v \<in> set (u_deps sample_gc u d) \<longleftrightarrow>
     (d = UNIT_REFERENCES \<and> (u = 0 \<and> v = 1 \<or> u = 1 \<and> v = 0 \<or> u = 2 \<and> v = 3)) \<or>
     (d = UNIT_REFERENCED_BY \<and> (u = 0 \<and> v = 1 \<or> u = 1 \<and> v = 0 \<or> u = 3 \<and> v = 2))" for u v d
    by (auto simp: sample_gc_deps split: if_splits)
  have "distinct (u_deps sample_gc u d)" for u d by (simp add: sample_gc_deps)
  then show "dep_inv sample_gc" unfolding dep_inv_def E by (auto simp: inverse_table_def)
qed

lemma sample_gc_check: "unit_check_gc sample_gc u \<longleftrightarrow> u = 2"
  by (simp add: unit_check_gc_def unit_active_state_def Let_def sample_gc_def fresh_manager_def sample_unit_def)

lemma sample_gc_needed: "\<not> needed sample_gc 0" "needed sample_gc 3"
proof -
  have "needed sample_gc u \<Longrightarrow> u = 2 \<or> u = 3" for u
    by (induction rule: needed.induct) (auto simp: sample_gc_check sample_gc_deps split: if_splits)
  then show "\<not> needed sample_gc 0" by force
  have "needed sample_gc 2" using needed.stays sample_gc_check sample_gc_ok(5) by blast
  then show "needed sample_gc 3" using needed.referenced [of sample_gc 3 2] sample_gc_ok(5) by (simp add: sample_gc_deps)
qed

theorem unit_gc_exact_witness:
  "\<exists>n m1 k m2. wf_gc sample_gc \<and> dep_inv sample_gc \<and> manager_dispatch_gc_queue 5 True sample_gc = Some (n, m1) \<and>
     manager_dispatch_cleanup_queue 0 m1 = Some (k, m2) \<and> u_deps m2 0 UNIT_REFERENCES = [] \<and>
     omap_get (m_units m2) ''a.target'' = None \<and> omap_get (m_units m2) ''d.target'' = Some 3 \<and>
     u_deps m2 3 UNIT_REFERENCED_BY \<noteq> []"
proof -
  have "\<forall>x \<in> {0, 1, 2, 3}. set (u_deps sample_gc x UNIT_REFERENCED_BY) \<subseteq> {0, 1, 2, 3}" by (simp add: sample_gc_deps)
  then obtain n m1 k m2 F where r: "manager_dispatch_gc_queue 5 True sample_gc = Some (n, m1)"
     "manager_dispatch_cleanup_queue 0 m1 = Some (k, m2)" "\<forall>u \<in> F. \<not> needed sample_gc u"
     "\<forall>u \<in> set (m_gc_queue sample_gc). u \<in> F \<or> needed sample_gc u"
     "\<And>v k. u_deps m2 v k = (if v \<in> F then [] else filter (\<lambda>x. x \<notin> F) (u_deps sample_gc v k))"
     "\<And>t. omap_get (m_units m2) t =
        (case omap_get (m_units sample_gc) t of Some u \<Rightarrow> if u \<in> F then None else Some u | None \<Rightarrow> None)"
    using unit_gc_exact [of "{0, 1, 2, 3}" sample_gc 5] sample_gc_ok by auto
  have F: "0 \<in> F" "3 \<notin> F" "2 \<notin> F"
    using r(3,4) sample_gc_needed sample_gc_ok(4) needed.stays [of sample_gc 2] sample_gc_check sample_gc_ok(5) by auto
  have "omap_get (m_units sample_gc) ''a.target'' = Some 0" "omap_get (m_units sample_gc) ''d.target'' = Some 3"
    by (simp_all add: sample_gc_def fresh_manager_def omap_get_def)
  then show ?thesis using r(1,2) F sample_gc_ok(1,3) by (auto simp: r(5,6) sample_gc_deps)
qed

end
