(* ===== verification/Util_Parse.thy ===== *)
theory Util_Parse
  imports Util_Text
begin

section \<open>Numbers, time spans, signals and string tables (src/src/util.c, util.h)\<close>

text \<open>
  Parsing and printing of numbers.  \<open>strtoll\<close> and \<open>strtoull\<close> are the C library's, with the
  value they return, the rest of the string (\<open>endptr\<close>) and \<open>errno\<close>; without digits they return 0, set
  \<open>endptr\<close> to the start and leave \<open>errno\<close> alone, as glibc does.  \<open>long\<close> has 64 bits.
\<close>

subsection \<open>The C library's conversions\<close>

definition isspace :: "char \<Rightarrow> bool" where
  "isspace c \<longleftrightarrow> c \<in> set ([CHR '' '', CHR 0x09, CHR 0x0A, CHR 0x0B, CHR 0x0C, CHR 0x0D])"

text \<open>The value of a digit or letter; 36 for everything else.\<close>

definition digit_value :: "char \<Rightarrow> nat" where
  "digit_value c =
     (let n = of_char c in
      if 48 \<le> n \<and> n \<le> 57 then n - 48
      else if 97 \<le> n \<and> n \<le> 122 then n - 97 + 10
      else if 65 \<le> n \<and> n \<le> 90 then n - 65 + 10
      else 36)"

fun digits_value :: "nat \<Rightarrow> nat \<Rightarrow> string \<Rightarrow> nat" where
  "digits_value base a [] = a"
| "digits_value base a (d # ds) = digits_value base (a * base + digit_value d) ds"

definition scan_sign :: "string \<Rightarrow> bool \<times> string" where
  "scan_sign s = (if chr_at s 0 = CHR ''-'' then (True, tl s)
                  else if chr_at s 0 = CHR ''+'' then (False, tl s) else (False, s))"

definition scan_base :: "nat \<Rightarrow> string \<Rightarrow> nat \<times> string" where
  "scan_base base s =
     (if (base = 0 \<or> base = 16) \<and> chr_at s 0 = CHR ''0'' \<and> tolower (chr_at s 1) = CHR ''x'' \<and>
         digit_value (chr_at s 2) < 16 then (16, drop 2 s)
      else if base = 0 then (if chr_at s 0 = CHR ''0'' then 8 else 10, s)
      else (base, s))"

text \<open>Sign, magnitude and rest; \<open>None\<close> if there are no digits.\<close>

definition scan_int :: "nat \<Rightarrow> string \<Rightarrow> (bool \<times> nat \<times> string) option" where
  "scan_int base s =
     (let (neg, t) = scan_sign (dropWhile isspace s);
          (b, u) = scan_base base t;
          ds = takeWhile (\<lambda>c. digit_value c < b) u
      in if ds = [] then None else Some (neg, digits_value b 0 ds, drop (length ds) u))"

definition strtoll :: "nat \<Rightarrow> string \<Rightarrow> int \<times> string \<times> errno option" where
  "strtoll base s =
     (case scan_int base s of
        None \<Rightarrow> (0, s, None)
      | Some (neg, v, rest) \<Rightarrow>
          if neg then (if v > 2 ^ 63 then (- (2 ^ 63), rest, Some ERANGE) else (- int v, rest, None))
          else (if v \<ge> 2 ^ 63 then (2 ^ 63 - 1, rest, Some ERANGE) else (int v, rest, None)))"

definition strtoull :: "nat \<Rightarrow> string \<Rightarrow> 64 word \<times> string \<times> errno option" where
  "strtoull base s =
     (case scan_int base s of
        None \<Rightarrow> (0, s, None)
      | Some (neg, v, rest) \<Rightarrow>
          if v \<ge> 2 ^ 64 then (- 1, rest, Some ERANGE)
          else (if neg then - of_nat v else of_nat v, rest, None))"

text \<open>\<open>%llu\<close>\<close>

fun dec_string :: "nat \<Rightarrow> string" where
  "dec_string n = (if n < 10 then [decchar n] else dec_string (n div 10) @ [decchar n])"

declare dec_string.simps [simp del]

subsection \<open>Numbers\<close>

text \<open>\<open>if (!x || *x || errno) return errno ? -errno : -EINVAL;\<close>\<close>

definition ato_check :: "string \<Rightarrow> errno option \<Rightarrow> errno option" where
  "ato_check x err = (case err of Some e \<Rightarrow> Some e | None \<Rightarrow> if x \<noteq> [] then Some EINVAL else None)"

definition safe_atou :: "string \<Rightarrow> 32 word result" where
  "safe_atou s =
     (let (l, x, err) = strtoull 0 s in
      case ato_check x err of
        Some e \<Rightarrow> Inl e
      | None \<Rightarrow> if (ucast (ucast l :: 32 word) :: 64 word) \<noteq> l then Inl ERANGE else Inr (ucast l))"

definition safe_atoi :: "string \<Rightarrow> int result" where
  "safe_atoi s =
     (let (l, x, err) = strtoll 0 s in
      case ato_check x err of
        Some e \<Rightarrow> Inl e
      | None \<Rightarrow> if sint (word_of_int l :: 32 word) \<noteq> l then Inl ERANGE
                else Inr (sint (word_of_int l :: 32 word)))"

definition safe_atollu :: "string \<Rightarrow> 64 word result" where
  "safe_atollu s =
     (let (l, x, err) = strtoull 0 s in case ato_check x err of Some e \<Rightarrow> Inl e | None \<Rightarrow> Inr l)"

definition safe_atolli :: "string \<Rightarrow> int result" where
  "safe_atolli s =
     (let (l, x, err) = strtoll 0 s in case ato_check x err of Some e \<Rightarrow> Inl e | None \<Rightarrow> Inr l)"

definition parse_pid :: "string \<Rightarrow> int result" where
  "parse_pid s =
     (case safe_atollu s of
        Inl e \<Rightarrow> Inl e
      | Inr ul \<Rightarrow>
          let pid = sint (ucast ul :: 32 word) in
          if word_of_int pid \<noteq> ul then Inl ERANGE else if pid \<le> 0 then Inl ERANGE else Inr pid)"

definition parse_uid :: "string \<Rightarrow> 32 word result" where
  "parse_uid s =
     (case safe_atollu s of
        Inl e \<Rightarrow> Inl e
      | Inr ul \<Rightarrow> let uid = ucast ul :: 32 word in if ucast uid \<noteq> ul then Inl ERANGE else Inr uid)"

definition parse_boolean :: "string \<Rightarrow> bool result" where
  "parse_boolean v =
     (if v = ''1'' \<or> chr_at v 0 = CHR ''y'' \<or> chr_at v 0 = CHR ''Y'' \<or> chr_at v 0 = CHR ''t'' \<or>
         chr_at v 0 = CHR ''T'' \<or> map tolower v = ''on'' then Inr True
      else if v = ''0'' \<or> chr_at v 0 = CHR ''n'' \<or> chr_at v 0 = CHR ''N'' \<or> chr_at v 0 = CHR ''f'' \<or>
         chr_at v 0 = CHR ''F'' \<or> map tolower v = ''off'' then Inr False
      else Inl EINVAL)"

text \<open>\<open>None\<close> is a read beyond the terminating NUL.\<close>

definition parse_syslog_priority :: "string \<Rightarrow> int \<Rightarrow> (string \<times> int) option" where
  "parse_syslog_priority p priority =
     (let done = (\<lambda>a b c k. if a < 0 \<or> b < 0 \<or> c < 0 then Some (p, priority)
                            else Some (drop k p, a * 100 + b * 10 + c)) in
      if chr_at p 0 \<noteq> CHR 0x3C then Some (p, priority)
      else if strchr p (CHR 0x3E) = None then Some (p, priority)
      else if chr_at p 2 = CHR 0x3E then done 0 0 (undecchar (chr_at p 1)) 3
      else if length p < 3 then None
      else if chr_at p 3 = CHR 0x3E then done 0 (undecchar (chr_at p 1)) (undecchar (chr_at p 2)) 4
      else if length p < 4 then None
      else if chr_at p 4 = CHR 0x3E
           then done (undecchar (chr_at p 1)) (undecchar (chr_at p 2)) (undecchar (chr_at p 3)) 5
      else Some (p, priority))"

definition vtnr_from_tty :: "string \<Rightarrow> int result" where
  "vtnr_from_tty tty0 =
     (let tty = (if startswith tty0 ''/dev/'' then drop 5 tty0 else tty0) in
      if \<not> startswith tty ''tty'' then Inl EINVAL
      else if schar (chr_at tty 3) < 48 \<or> schar (chr_at tty 3) > 57 then Inl EINVAL
      else case safe_atoi (drop 3 tty) of
        Inl e \<Rightarrow> Inl e
      | Inr i \<Rightarrow> if i < 0 \<or> i > 63 then Inl EINVAL else Inr i)"

definition tty_is_vc :: "string \<Rightarrow> bool" where
  "tty_is_vc tty0 =
     (let tty = (if startswith tty0 ''/dev/'' then drop 5 tty0 else tty0) in
      case vtnr_from_tty tty of Inl e \<Rightarrow> False | Inr i \<Rightarrow> True)"

definition display_is_local :: "string \<Rightarrow> bool" where
  "display_is_local d \<longleftrightarrow> chr_at d 0 = CHR '':'' \<and> schar (chr_at d 1) \<ge> 48 \<and> schar (chr_at d 1) \<le> 57"

definition socket_from_display :: "string \<Rightarrow> string result" where
  "socket_from_display d =
     (if \<not> display_is_local d then Inl EINVAL
      else Inr (''/tmp/.X11-unix/X'' @ take (strspn (tl d) ''0123456789'') (tl d)))"

subsection \<open>Time spans and sizes\<close>

abbreviation USEC_PER_MSEC :: "64 word" where "USEC_PER_MSEC \<equiv> 1000"
abbreviation USEC_PER_SEC :: "64 word" where "USEC_PER_SEC \<equiv> 1000000"
abbreviation USEC_PER_MINUTE :: "64 word" where "USEC_PER_MINUTE \<equiv> 60000000"
abbreviation USEC_PER_HOUR :: "64 word" where "USEC_PER_HOUR \<equiv> 3600000000"
abbreviation USEC_PER_DAY :: "64 word" where "USEC_PER_DAY \<equiv> 86400000000"
abbreviation USEC_PER_WEEK :: "64 word" where "USEC_PER_WEEK \<equiv> 604800000000"

definition parse_usec_table :: "(string \<times> 64 word) list" where
  "parse_usec_table =
     [(''sec'', USEC_PER_SEC), (''s'', USEC_PER_SEC), (''min'', USEC_PER_MINUTE), (''hr'', USEC_PER_HOUR),
      (''h'', USEC_PER_HOUR), (''d'', USEC_PER_DAY), (''w'', USEC_PER_WEEK), (''msec'', USEC_PER_MSEC),
      (''ms'', USEC_PER_MSEC), (''m'', USEC_PER_MINUTE), (''usec'', 1), (''us'', 1), ([], USEC_PER_SEC)]"

definition find_suffix :: "(string \<times> 'a) list \<Rightarrow> string \<Rightarrow> (string \<times> 'a) option" where
  "find_suffix table e = List.find (\<lambda>(suf, _). startswith e suf) table"

lemma scan_int_shrinks: "scan_int base s = Some (neg, v, rest) \<Longrightarrow> length rest < length s"
proof -
  assume *: "scan_int base s = Some (neg, v, rest)"
  define w where "w = dropWhile isspace s"
  obtain g t where t: "scan_sign w = (g, t)" "length t \<le> length w"
    by (cases "scan_sign w") (auto simp: scan_sign_def split: if_splits)
  obtain b u where u: "scan_base base t = (b, u)" "length u \<le> length t"
    by (cases "scan_base base t") (auto simp: scan_base_def split: if_splits)
  have "takeWhile (\<lambda>c. digit_value c < b) u \<noteq> []" "rest = drop (length (takeWhile (\<lambda>c. digit_value c < b) u)) u"
    using * t u by (auto simp: scan_int_def w_def Let_def split: if_splits)
  moreover have "length w \<le> length s" by (simp add: w_def length_dropWhile_le)
  ultimately show ?thesis using t u by (cases u) auto
qed

lemma strtoll_shrinks: "(l, e, err) = strtoll base s \<Longrightarrow> e \<noteq> s \<Longrightarrow> length e < length s"
  by (auto simp: strtoll_def split: option.splits if_splits dest: scan_int_shrinks)

text \<open>The \<open>do \<dots> while (*p)\<close> loop; \<open>e == p\<close> is that no number was found.\<close>

function parse_usec_loop :: "string \<Rightarrow> 64 word \<Rightarrow> 64 word result" where
  "parse_usec_loop p r =
     (case strtoll 10 p of
        (l, e, err) \<Rightarrow>
          (case err of
             Some x \<Rightarrow> Inl x
           | None \<Rightarrow>
               if l < 0 then Inl ERANGE
               else if e = p then Inl EINVAL
               else let e' = drop (strspn e WHITESPACE) e in
                 (case find_suffix parse_usec_table e' of
                    None \<Rightarrow> Inl EINVAL
                  | Some (suf, usec) \<Rightarrow>
                      let r' = r + word_of_int l * usec; p' = drop (length suf) e' in
                      if p' = [] then Inr r' else parse_usec_loop p' r')))"
  by pat_completeness auto
termination
  by (relation "measure (length \<circ> fst)") (auto dest!: strtoll_shrinks intro: le_less_trans [OF diff_le_self])

declare parse_usec_loop.simps [simp del]

definition parse_usec :: "string \<Rightarrow> 64 word result" where
  "parse_usec t = parse_usec_loop t 0"

definition parse_bytes_table :: "(string \<times> int) list" where
  "parse_bytes_table =
     [(''B'', 1), (''K'', 1024), (''M'', 1024 * 1024), (''G'', 1024 * 1024 * 1024),
      (''T'', 1024 * 1024 * 1024 * 1024), ([], 1)]"

text \<open>\<open>off_t\<close> is a signed 64-bit type; \<open>None\<close> is an overflow, which C leaves undefined.\<close>

definition off_t_ok :: "int \<Rightarrow> bool" where
  "off_t_ok x \<longleftrightarrow> - (2 ^ 63) \<le> x \<and> x < 2 ^ 63"

function parse_bytes_loop :: "string \<Rightarrow> int \<Rightarrow> int result option" where
  "parse_bytes_loop p r =
     (case strtoll 10 p of
        (l, e, err) \<Rightarrow>
          (case err of
             Some x \<Rightarrow> Some (Inl x)
           | None \<Rightarrow>
               if l < 0 then Some (Inl ERANGE)
               else if e = p then Some (Inl EINVAL)
               else let e' = drop (strspn e WHITESPACE) e in
                 (case find_suffix parse_bytes_table e' of
                    None \<Rightarrow> Some (Inl EINVAL)
                  | Some (suf, factor) \<Rightarrow>
                      let r' = r + l * factor; p' = drop (length suf) e' in
                      if \<not> off_t_ok (l * factor) \<or> \<not> off_t_ok r' then None
                      else if p' = [] then Some (Inr r') else parse_bytes_loop p' r')))"
  by pat_completeness auto
termination
  by (relation "measure (length \<circ> fst)") (auto dest!: strtoll_shrinks intro: le_less_trans [OF diff_le_self])

declare parse_bytes_loop.simps [simp del]

definition parse_bytes :: "string \<Rightarrow> int result option" where
  "parse_bytes t = parse_bytes_loop t 0"

definition format_timespan_table :: "(string \<times> 64 word) list" where
  "format_timespan_table =
     [(''w'', USEC_PER_WEEK), (''d'', USEC_PER_DAY), (''h'', USEC_PER_HOUR), (''min'', USEC_PER_MINUTE),
      (''s'', USEC_PER_SEC), (''ms'', USEC_PER_MSEC), (''us'', 1)]"

text \<open>
  The loop with \<open>l\<close> bytes of the buffer left: \<open>out\<close> is what stands before \<open>p\<close>.
  \<open>snprintf\<close> stores at most \<open>l - 1\<close> bytes and a NUL and returns the full length \<open>k\<close>; the code
  then advances \<open>p\<close> by \<open>MIN(k, l)\<close>, so after a truncation \<open>p\<close> is behind the buffer (the
  length 0) and the final \<open>*p = 0\<close> writes there: \<open>None\<close>.
\<close>

primrec format_timespan_loop :: "(string \<times> 64 word) list \<Rightarrow> string \<Rightarrow> nat \<Rightarrow> 64 word \<Rightarrow> string option" where
  "format_timespan_loop [] out l t = (if l = 0 then None else Some out)"
| "format_timespan_loop (entry # table) out l t =
     (case entry of (suf, usec) \<Rightarrow>
        if t < usec then format_timespan_loop table out l t
        else if l \<le> 1 then (if l = 0 then None else Some out)
        else let x = (if out \<noteq> [] then '' '' else []) @ dec_string (unat (t div usec)) @ suf;
                 k = length x; n = min k l in
          format_timespan_loop table (out @ take (if k < l then k else l - 1) x) (l - n) (t mod usec))"

text \<open>The outer \<open>None\<close> is a write outside the buffer, the inner one the result \<open>NULL\<close>.\<close>

definition format_timespan :: "nat \<Rightarrow> 64 word \<Rightarrow> string option option" where
  "format_timespan l t =
     (if l = 0 then None
      else if t = - 1 then Some None
      else if t = 0 then Some (Some (take (l - 1) ''0''))
      else map_option Some (format_timespan_loop format_timespan_table [] l t))"

subsection \<open>String tables\<close>

text \<open>
  \<open>DEFINE_STRING_TABLE_LOOKUP\<close>: the names at their indices, \<open>None\<close> for gaps; \<open>from_string\<close>
  also accepts the decimal, octal or hexadecimal index.
\<close>

definition table_to_string :: "string option list \<Rightarrow> int \<Rightarrow> string option" where
  "table_to_string table i = (if i < 0 \<or> i \<ge> int (length table) then None else table ! nat i)"

fun find_index :: "string option list \<Rightarrow> string \<Rightarrow> nat option" where
  "find_index [] s = None"
| "find_index (x # xs) s = (if x = Some s then Some 0 else map_option Suc (find_index xs s))"

definition table_from_string :: "string option list \<Rightarrow> string \<Rightarrow> int" where
  "table_from_string table s =
     (case find_index table s of
        Some i \<Rightarrow> int i
      | None \<Rightarrow>
          (case safe_atou s of
             Inr u \<Rightarrow> if unat u < length table then int (unat u) else - 1
           | Inl e \<Rightarrow> - 1))"

end
