(* ===== verification/Unit_Exec.thy ===== *)
theory Unit_Exec
  imports Manager_State Util_Parse
begin

section \<open>Units that run processes: timers, pids, signals, exit codes, rate limits\<close>

text \<open>
  What the unit types that run processes share (\<open>service.c\<close>, \<open>socket.c\<close>, \<open>mount.c\<close>, \<open>swap.c\<close>):
  \<open>unit_watch_timer\<close>, \<open>unit_watch_pid\<close> and their inverses of \<open>unit.c\<close>, \<open>exec_status_start\<close> and
  \<open>exec_status_exit\<close> of \<open>execute.c\<close>, \<open>is_clean_exit\<close> of \<open>exit-status.c\<close>, \<open>kill_and_sigcont\<close> of
  \<open>util.c\<close> and \<open>ratelimit_test\<close> of \<open>ratelimit.c\<close>.

  The world outside the unit is the record \<open>exec_env\<close>: one function per call whose answer the unit
  cannot know (does a timer get armed, which pid does \<open>fork\<close> return, does \<open>kill\<close> find the process).
  Every call with an effect is appended to the unit's log of actions together with its answer, and
  every answer may depend on the log, so that two calls may be answered differently.  Theorems
  quantify over the environment, and a run gives every event an environment of its own.
\<close>

record exec_command =
  c_argv :: "string list"
  c_ignore :: bool

datatype timer_watch = Timer_Off | Timer_Armed | Timer_Elapsed

datatype exec_action =
    Watch_Timer nat "errno option" | Unwatch_Timer
  | Watch_Pid int "errno option" | Unwatch_Pid int
  | Collect_Fds "errno option" | Prepare_Exec "errno option"
  | Exec_Spawn exec_command "int option" bool "int result"
  | Kill int int "errno option" | Cgroup_Kill int int | Cgroup_Trim
  | Sockets_Dead | Close_Fd int | Connection_Unref nat
  | Unit_Notify unit_active_state unit_active_state bool
  | Add_Start_Job "errno option" | Query_Bus_Pid string | Dbus_Queue
  | Mkdir_P string | Automount_Ready int
  | Open_Fd "int result" | Watch_Fd int "errno option" | Unwatch_Fd int
  | Load_Instance "errno option" | Pass_Fd int "errno option"

record exec_env =
  e_timer :: "exec_action list \<Rightarrow> errno option"
  e_watch_pid :: "exec_action list \<Rightarrow> int \<Rightarrow> errno option"
  e_fds :: "exec_action list \<Rightarrow> errno option"
  e_prepare :: "exec_action list \<Rightarrow> errno option"
  e_spawn :: "exec_action list \<Rightarrow> exec_command \<Rightarrow> int result"
  e_kill :: "exec_action list \<Rightarrow> int \<Rightarrow> int \<Rightarrow> errno option"
  e_pid_set :: "exec_action list \<Rightarrow> errno option"
  e_cgroup_kill :: "exec_action list \<Rightarrow> int \<Rightarrow> int"
  e_cgroup_empty :: "exec_action list \<Rightarrow> int"
  e_main_pid :: "exec_action list \<Rightarrow> int"
  e_pid_file :: "exec_action list \<Rightarrow> string result"
  e_getpid :: int
  e_ppid :: "exec_action list \<Rightarrow> int \<Rightarrow> int result"
  e_now :: "exec_action list \<Rightarrow> 64 word \<times> 64 word"
  e_has_job :: "exec_action list \<Rightarrow> bool"
  e_reloading :: bool
  e_add_job :: "exec_action list \<Rightarrow> errno option"
  e_strdup :: "exec_action list \<Rightarrow> bool"

text \<open>The environments in which \<open>fork\<close> returns the pid of a new process.\<close>

definition env_ok :: "exec_env \<Rightarrow> bool" where
  "env_ok e \<longleftrightarrow> (\<forall>l c pid. e_spawn e l c = Inr pid \<longrightarrow> pid > 1 \<and> pid \<noteq> e_getpid e)"

text \<open>The part of a unit that the calls below work on; the unit types extend it.\<close>

record exec_unit =
  x_timer :: timer_watch
  x_log :: "exec_action list"

definition act :: "exec_action \<Rightarrow> 'a exec_unit_scheme \<Rightarrow> 'a exec_unit_scheme" where
  "act a s = s\<lparr>x_log := x_log s @ [a]\<rparr>"

subsection \<open>Timers and watched processes (unit.c)\<close>

text \<open>
  A timer that could not be armed stays what it was.  \<open>Timer_Elapsed\<close> is a watched timer that has
  fired and was not armed again since.
\<close>

definition unit_watch_timer ::
    "exec_env \<Rightarrow> nat \<Rightarrow> 'a exec_unit_scheme \<Rightarrow> errno option \<times> 'a exec_unit_scheme" where
  "unit_watch_timer e delay s =
     (case e_timer e (x_log s) of
        Some err \<Rightarrow> (Some err, act (Watch_Timer delay (Some err)) s)
      | None \<Rightarrow> (None, act (Watch_Timer delay None) (s\<lparr>x_timer := Timer_Armed\<rparr>)))"

definition unit_unwatch_timer :: "'a exec_unit_scheme \<Rightarrow> 'a exec_unit_scheme" where
  "unit_unwatch_timer s =
     (if x_timer s = Timer_Off then s else act Unwatch_Timer (s\<lparr>x_timer := Timer_Off\<rparr>))"

definition unit_watch_pid ::
    "exec_env \<Rightarrow> int \<Rightarrow> 'a exec_unit_scheme \<Rightarrow> errno option \<times> 'a exec_unit_scheme" where
  "unit_watch_pid e pid s =
     (let r = e_watch_pid e (x_log s) pid in (r, act (Watch_Pid pid r) s))"

definition unit_unwatch_pid :: "int \<Rightarrow> 'a exec_unit_scheme \<Rightarrow> 'a exec_unit_scheme" where
  "unit_unwatch_pid pid s = act (Unwatch_Pid pid) s"

subsection \<open>Signals and exit codes (util.c, exit-status.c)\<close>

definition SIGHUP :: int where "SIGHUP = 1"
definition SIGINT :: int where "SIGINT = 2"
definition SIGKILL :: int where "SIGKILL = 9"
definition SIGPIPE :: int where "SIGPIPE = 13"
definition SIGTERM :: int where "SIGTERM = 15"
definition SIGCONT :: int where "SIGCONT = 18"
definition CLD_EXITED :: int where "CLD_EXITED = 1"
definition CLD_KILLED :: int where "CLD_KILLED = 2"
definition CLD_DUMPED :: int where "CLD_DUMPED = 3"
definition EXIT_NOTINSTALLED :: int where "EXIT_NOTINSTALLED = 5"
definition EXIT_NOTCONFIGURED :: int where "EXIT_NOTCONFIGURED = 6"

definition sys_kill ::
    "exec_env \<Rightarrow> int \<Rightarrow> int \<Rightarrow> 'a exec_unit_scheme \<Rightarrow> errno option \<times> 'a exec_unit_scheme" where
  "sys_kill e pid sig s = (let r = e_kill e (x_log s) pid sig in (r, act (Kill pid sig r) s))"

definition kill_and_sigcont ::
    "exec_env \<Rightarrow> int \<Rightarrow> int \<Rightarrow> 'a exec_unit_scheme \<Rightarrow> errno option \<times> 'a exec_unit_scheme" where
  "kill_and_sigcont e pid sig s =
     (case sys_kill e pid sig s of
        (Some err, s') \<Rightarrow> (Some err, s')
      | (None, s') \<Rightarrow> (None, snd (sys_kill e pid SIGCONT s')))"

definition is_clean_exit :: "int \<Rightarrow> int \<Rightarrow> bool" where
  "is_clean_exit code status =
     (if code = CLD_EXITED then status = 0
      else if code = CLD_KILLED
      then status = SIGHUP \<or> status = SIGINT \<or> status = SIGTERM \<or> status = SIGPIPE
      else False)"

definition is_clean_exit_lsb :: "int \<Rightarrow> int \<Rightarrow> bool" where
  "is_clean_exit_lsb code status =
     (if is_clean_exit code status then True
      else code = CLD_EXITED \<and> (status = EXIT_NOTINSTALLED \<or> status = EXIT_NOTCONFIGURED))"

text \<open>\<open>kill_mode\<close> is what \<open>KillMode=\<close> sets, \<open>kill_who\<close> the argument of \<open>systemctl kill\<close>.\<close>

datatype kill_mode = KILL_CONTROL_GROUP | KILL_PROCESS | KILL_NONE

datatype kill_who = KILL_MAIN | KILL_CONTROL | KILL_ALL

subsection \<open>Exit statuses (execute.c)\<close>

text \<open>
  A dual timestamp is the pair of the realtime and the monotonic clock.  The test
  \<open>!s->start_timestamp.realtime <= 0\<close> compares the negation, which is 0 or 1, with 0: it holds
  when the timestamp is set.  The utmp record and the reset of the terminal are left out.
\<close>

record exec_status =
  xs_start :: "64 word \<times> 64 word"
  xs_exit :: "64 word \<times> 64 word"
  xs_pid :: int
  xs_code :: int
  xs_status :: int

definition exec_status_zero :: exec_status where
  "exec_status_zero = \<lparr>xs_start = (0, 0), xs_exit = (0, 0), xs_pid = 0, xs_code = 0, xs_status = 0\<rparr>"

definition exec_status_start :: "64 word \<times> 64 word \<Rightarrow> int \<Rightarrow> exec_status" where
  "exec_status_start now pid = exec_status_zero\<lparr>xs_pid := pid, xs_start := now\<rparr>"

definition exec_status_exit ::
    "64 word \<times> 64 word \<Rightarrow> int \<Rightarrow> int \<Rightarrow> int \<Rightarrow> exec_status \<Rightarrow> exec_status" where
  "exec_status_exit now pid code status s =
     (let s' = (if (xs_pid s \<noteq> 0 \<and> xs_pid s \<noteq> pid) \<or> fst (xs_start s) \<noteq> 0
                then exec_status_zero else s)
      in s'\<lparr>xs_pid := pid, xs_exit := now, xs_code := code, xs_status := status\<rparr>)"

subsection \<open>Rate limits (ratelimit.c)\<close>

record ratelimit =
  rl_interval :: "64 word"
  rl_begin :: "64 word"
  rl_burst :: "32 word"
  rl_num :: "32 word"

definition ratelimit_init :: "64 word \<Rightarrow> 32 word \<Rightarrow> ratelimit" where
  "ratelimit_init interval burst =
     \<lparr>rl_interval = interval, rl_begin = 0, rl_burst = burst, rl_num = 0\<rparr>"

text \<open>\<open>None\<close> is a failed assertion.\<close>

definition ratelimit_test :: "64 word \<Rightarrow> ratelimit \<Rightarrow> (bool \<times> ratelimit) option" where
  "ratelimit_test ts r =
     (if \<not> (rl_interval r > 0 \<and> rl_burst r > 0) then None
      else if rl_begin r \<le> 0 \<or> rl_begin r + rl_interval r < ts
      then Some (True, r\<lparr>rl_begin := ts, rl_num := 0 + 1\<rparr>)
      else if rl_num r \<le> rl_burst r then Some (True, r\<lparr>rl_num := rl_num r + 1\<rparr>)
      else Some (False, r))"

subsection \<open>A sample environment\<close>

text \<open>
  An environment in which every call succeeds: the first process gets pid 100, the next one 101, and
  so on; \<open>kill\<close> finds its process, and the control group has nobody else in it.
\<close>

definition spawned :: "exec_action list \<Rightarrow> nat" where
  "spawned l = length (filter (\<lambda>a. case a of Exec_Spawn _ _ _ _ \<Rightarrow> True | _ \<Rightarrow> False) l)"

definition good_env :: exec_env where
  "good_env =
     \<lparr>e_timer = (\<lambda>_. None), e_watch_pid = (\<lambda>_ _. None), e_fds = (\<lambda>_. None), e_prepare = (\<lambda>_. None),
      e_spawn = (\<lambda>l _. Inr (100 + int (spawned l))), e_kill = (\<lambda>_ _ _. None),
      e_pid_set = (\<lambda>_. None), e_cgroup_kill = (\<lambda>_ _. 0), e_cgroup_empty = (\<lambda>_. 0),
      e_main_pid = (\<lambda>_. 0), e_pid_file = (\<lambda>_. Inl ENOENT), e_getpid = 1, e_ppid = (\<lambda>_ _. Inr 1),
      e_now = (\<lambda>_. (1000000, 1000000)), e_has_job = (\<lambda>_. False), e_reloading = False,
      e_add_job = (\<lambda>_. None), e_strdup = (\<lambda>_. True)\<rparr>"

definition sample_command :: "string \<Rightarrow> exec_command" where
  "sample_command path = \<lparr>c_argv = [path], c_ignore = False\<rparr>"

lemma good_env_ok: "env_ok good_env"
  by (simp add: env_ok_def good_env_def)

end
