(* ===== verification/Strv.thy ===== *)
theory Strv
  imports Util_Text
begin

section \<open>String vectors and environments (src/src/strv.c, util.c)\<close>

text \<open>
  A \<open>char**\<close> is an optional list of strings, \<open>None\<close> for the null pointer; an array a function
  has just built is a plain list.  Running out of memory is left out.
\<close>

type_synonym strv = "string list option"

text \<open>What \<open>STRV_FOREACH\<close> visits.\<close>

definition strv_items :: "strv \<Rightarrow> string list" where
  "strv_items l = (case l of None \<Rightarrow> [] | Some xs \<Rightarrow> xs)"

definition strv_find :: "strv \<Rightarrow> string \<Rightarrow> string option" where
  "strv_find l name = List.find (\<lambda>i. i = name) (strv_items l)"

definition strv_find_prefix :: "strv \<Rightarrow> string \<Rightarrow> string option" where
  "strv_find_prefix l name = List.find (\<lambda>i. startswith i name) (strv_items l)"

definition strv_length :: "strv \<Rightarrow> nat" where
  "strv_length l = (case l of None \<Rightarrow> 0 | Some xs \<Rightarrow> length xs)"

definition strv_copy :: "strv \<Rightarrow> string list" where
  "strv_copy l = (case l of None \<Rightarrow> [] | Some xs \<Rightarrow> xs)"

text \<open>The variadic \<open>strv_new\<close>: its arguments up to the first \<open>NULL\<close>.\<close>

fun strv_new :: "string option list \<Rightarrow> string list" where
  "strv_new [] = []"
| "strv_new (None # xs) = []"
| "strv_new (Some x # xs) = x # strv_new xs"

definition strv_merge :: "strv \<Rightarrow> strv \<Rightarrow> string list" where
  "strv_merge a b =
     (case a of
        None \<Rightarrow> strv_copy b
      | Some xs \<Rightarrow> (case b of None \<Rightarrow> strv_copy a | Some ys \<Rightarrow> xs @ ys))"

definition strv_merge_concat :: "strv \<Rightarrow> strv \<Rightarrow> string option \<Rightarrow> string list" where
  "strv_merge_concat a b suf =
     (case b of
        None \<Rightarrow> strv_copy a
      | Some ys \<Rightarrow> (case a of None \<Rightarrow> [] | Some xs \<Rightarrow> xs) @ map (\<lambda>y. strappend (Some y) suf) ys)"

definition strv_append :: "strv \<Rightarrow> string option \<Rightarrow> string list" where
  "strv_append l s =
     (case l of
        None \<Rightarrow> strv_new [s, None]
      | Some xs \<Rightarrow> (case s of None \<Rightarrow> strv_copy l | Some x \<Rightarrow> xs @ [x]))"

definition strv_split :: "string \<Rightarrow> string \<Rightarrow> string list" where
  "strv_split s separator = foreach_word separator s"

text \<open>\<open>None\<close> would be a read past the end of the string; it never happens (see below).\<close>

fun unescape_words :: "(string \<times> nat) list \<Rightarrow> string list option" where
  "unescape_words [] = Some []"
| "unescape_words ((w, l) # ws) =
     Option.bind (cunescape_length w l) (\<lambda>x. map_option (Cons x) (unescape_words ws))"

definition strv_split_quoted :: "string \<Rightarrow> string list option" where
  "strv_split_quoted s = unescape_words (foreach_word_quoted s)"

text \<open>The separator is written only if something has been written before.\<close>

fun strv_join_loop :: "string \<Rightarrow> string \<Rightarrow> string list \<Rightarrow> string" where
  "strv_join_loop sep r [] = r"
| "strv_join_loop sep r (s # l) =
     strv_join_loop sep ((if r \<noteq> [] then r @ sep else r) @ s) l"

definition strv_join :: "strv \<Rightarrow> string option \<Rightarrow> string" where
  "strv_join l separator =
     strv_join_loop (case separator of None \<Rightarrow> '' '' | Some s \<Rightarrow> s) [] (strv_items l)"

primrec strv_remove_loop :: "string list \<Rightarrow> string \<Rightarrow> string list" where
  "strv_remove_loop [] s = []"
| "strv_remove_loop (f # l) s = (if f = s then strv_remove_loop l s else f # strv_remove_loop l s)"

definition strv_remove :: "strv \<Rightarrow> string \<Rightarrow> strv" where
  "strv_remove l s = map_option (\<lambda>xs. strv_remove_loop xs s) l"

lemma strv_remove_loop_filter: "strv_remove_loop l s = filter (\<lambda>x. x \<noteq> s) l"
  by (induction l) auto

function strv_uniq_loop :: "string list \<Rightarrow> string list" where
  "strv_uniq_loop [] = []"
| "strv_uniq_loop (i # l) = i # strv_uniq_loop (strv_remove_loop l i)"
  by pat_completeness auto
termination
  by (relation "measure length") (auto simp: strv_remove_loop_filter le_imp_less_Suc)

definition strv_uniq :: "strv \<Rightarrow> strv" where
  "strv_uniq l = map_option strv_uniq_loop l"

definition strv_overlap :: "strv \<Rightarrow> strv \<Rightarrow> bool" where
  "strv_overlap a b \<longleftrightarrow> list_ex (\<lambda>i. list_ex (\<lambda>j. i = j) (strv_items b)) (strv_items a)"

subsection \<open>Environment blocks\<close>

text \<open>The length of the variable name with its \<open>=\<close>.\<close>

definition env_key_length :: "string \<Rightarrow> nat" where
  "env_key_length a = (let n = strcspn a ''='' in if chr_at a n = CHR ''='' then n + 1 else n)"

fun env_put :: "string list \<Rightarrow> string \<Rightarrow> string list" where
  "env_put [] a = [a]"
| "env_put (j # r) a = (if strneq j a (env_key_length a) then a # r else j # env_put r a)"

definition env_append :: "string list \<Rightarrow> strv \<Rightarrow> string list" where
  "env_append r a = foldl env_put r (strv_items a)"

definition strv_env_merge :: "strv list \<Rightarrow> string list" where
  "strv_env_merge ls = foldl env_append [] ls"

definition env_match :: "string \<Rightarrow> string \<Rightarrow> bool" where
  "env_match t pattern =
     (if t = pattern then True
      else if strchr pattern (CHR ''='') = None
      then strneq t pattern (length pattern) \<and> chr_at t (length pattern) = CHR ''=''
      else False)"

definition strv_env_delete :: "strv \<Rightarrow> strv list \<Rightarrow> string list" where
  "strv_env_delete x ls =
     filter (\<lambda>k. \<not> list_ex (\<lambda>l. list_ex (env_match k) (strv_items l)) ls) (strv_items x)"

definition strv_env_unset :: "strv \<Rightarrow> string \<Rightarrow> strv" where
  "strv_env_unset l p = map_option (filter (\<lambda>f. \<not> env_match f p)) l"

definition strv_env_set :: "strv \<Rightarrow> string \<Rightarrow> string list" where
  "strv_env_set x p = env_append (env_append [] x) (Some [p])"

definition strv_env_get_with_length :: "strv \<Rightarrow> string \<Rightarrow> nat \<Rightarrow> string option" where
  "strv_env_get_with_length l name k =
     map_option (drop (k + 1))
       (List.find (\<lambda>i. strneq i name k \<and> chr_at i k = CHR ''='') (strv_items l))"

definition strv_env_get :: "strv \<Rightarrow> string \<Rightarrow> string option" where
  "strv_env_get l name = strv_env_get_with_length l name (length name)"

definition strv_env_clean :: "string list \<Rightarrow> string list" where
  "strv_env_clean l =
     filter (\<lambda>x. case strchr x (CHR ''='') of None \<Rightarrow> True | Some e \<Rightarrow> e + 1 \<noteq> length x) l"

subsection \<open>Nul-separated buffers\<close>

text \<open>The bytes from \<open>p\<close> to \<open>s + l\<close>; \<open>memchr\<close> finds the next NUL.\<close>

function parse_nulstr_loop :: "string \<Rightarrow> string list" where
  "parse_nulstr_loop p =
     (if p = [] then []
      else case strchr p (CHR 0x00) of
        None \<Rightarrow> [p]
      | Some e \<Rightarrow> take e p # parse_nulstr_loop (drop (e + 1) p))"
  by pat_completeness auto
termination
  by (relation "measure length") auto

declare parse_nulstr_loop.simps [simp del]

text \<open>The final \<open>assert(i == c)\<close> compares with the number of strings counted before.\<close>

definition strv_parse_nulstr :: "string \<Rightarrow> string list option" where
  "strv_parse_nulstr s =
     (if s = [] then Some (strv_new [None, None])
      else let c = length (filter (\<lambda>b. b = CHR 0x00) s) + (if last s \<noteq> CHR 0x00 then 1 else 0);
               v = parse_nulstr_loop s in
        if length v = c then Some v else None)"

subsection \<open>Substitution of environment variables (util.c)\<close>

datatype env_state = WORD | CURLY | VARIABLE

text \<open>
  The loop of \<open>replace_env\<close> over the rest of the format: \<open>e\<close> and \<open>word\<close> are positions in the
  format, \<open>r\<close> is the result so far (\<open>None\<close> for \<open>NULL\<close>).
\<close>

fun replace_env_loop ::
    "string \<Rightarrow> strv \<Rightarrow> string \<Rightarrow> nat \<Rightarrow> env_state \<Rightarrow> nat \<Rightarrow> string option \<Rightarrow> string" where
  "replace_env_loop fmt env [] e st word r = strnappend r (Some (drop word fmt)) (e - word)"
| "replace_env_loop fmt env (c # cs) e WORD word r =
     replace_env_loop fmt env cs (e + 1) (if c = CHR ''$'' then CURLY else WORD) word r"
| "replace_env_loop fmt env (c # cs) e CURLY word r =
     (if c = CHR 0x7B then
        replace_env_loop fmt env cs (e + 1) VARIABLE (e - 1)
          (Some (strnappend r (Some (drop word fmt)) (e - word - 1)))
      else if c = CHR ''$'' then
        replace_env_loop fmt env cs (e + 1) WORD (e + 1)
          (Some (strnappend r (Some (drop word fmt)) (e - word)))
      else replace_env_loop fmt env cs (e + 1) WORD word r)"
| "replace_env_loop fmt env (c # cs) e VARIABLE word r =
     (if c = CHR 0x7D then
        let t = (case strv_env_get_with_length env (drop (word + 2) fmt) (e - word - 2) of
                   None \<Rightarrow> [] | Some t \<Rightarrow> t) in
        replace_env_loop fmt env cs (e + 1) WORD (e + 1) (Some (strappend r (Some t)))
      else replace_env_loop fmt env cs (e + 1) VARIABLE word r)"

definition replace_env :: "string \<Rightarrow> strv \<Rightarrow> string" where
  "replace_env fmt env = replace_env_loop fmt env fmt 0 WORD 0 None"

fun replace_env_argv_loop :: "strv \<Rightarrow> string list \<Rightarrow> string list option" where
  "replace_env_argv_loop env [] = Some []"
| "replace_env_argv_loop env (i # argv) =
     (if chr_at i 0 = CHR ''$'' \<and> chr_at i 1 \<noteq> CHR 0x7B then
        Option.bind (case strv_env_get env (tl i) of Some e \<Rightarrow> strv_split_quoted e | None \<Rightarrow> Some [])
          (\<lambda>m. map_option ((@) m) (replace_env_argv_loop env argv))
      else map_option (Cons (replace_env i env)) (replace_env_argv_loop env argv))"

definition replace_env_argv :: "strv \<Rightarrow> strv \<Rightarrow> string list option" where
  "replace_env_argv argv env = replace_env_argv_loop env (strv_items argv)"

end
