(* ===== verification/String_Tables.thy ===== *)
theory String_Tables
  imports Util_Parse
begin

section \<open>Enumerations as strings (DEFINE_STRING_TABLE_LOOKUP)\<close>

text \<open>
  The tables behind \<open>job_type_to_string\<close>, \<open>service_state_from_string\<close> and the like: the name
  of every enumeration value at its index.  The locale states what the lookups need of a table
  (no name occurs twice) and proves once that \<open>from_string\<close> inverts \<open>to_string\<close>; every table of the
  unit and job code is an instance.
\<close>

locale string_table =
  fixes table :: "string option list"
  assumes names_distinct: "distinct (filter (\<lambda>x. x \<noteq> None) table)"
begin

lemma find_index_nth:
  "distinct (filter (\<lambda>x. x \<noteq> None) xs) \<Longrightarrow> i < length xs \<Longrightarrow> xs ! i = Some s \<Longrightarrow> find_index xs s = Some i"
proof (induction xs arbitrary: i)
  case (Cons x xs)
  then show ?case by (cases i) (auto simp: in_set_conv_nth split: if_splits)
qed simp

lemma from_to: "table_to_string table i = Some s \<Longrightarrow> table_from_string table s = i"
  using find_index_nth [OF names_distinct, of "nat i" s]
  by (auto simp: table_to_string_def table_from_string_def split: if_splits)

end

subsection \<open>The tables\<close>

definition automount_state_table :: "string option list" where
  "automount_state_table =
     [Some ''dead'', Some ''waiting'', Some ''running'', Some ''failed'']"

definition condition_type_table :: "string option list" where
  "condition_type_table =
     [Some ''ConditionPathExists'', Some ''ConditionPathExistsGlob'',
      Some ''ConditionPathIsDirectory'', Some ''ConditionPathIsSymbolicLink'',
      Some ''ConditionPathIsMountPoint'', Some ''ConditionDirectoryNotEmpty'', None,
      Some ''ConditionKernelCommandLine'', Some ''ConditionVirtualization'',
      Some ''ConditionSecurity'', None, Some ''ConditionNull'']"

definition device_state_table :: "string option list" where
  "device_state_table =
     [Some ''dead'', Some ''plugged'']"

definition exec_input_table :: "string option list" where
  "exec_input_table =
     [Some ''null'', Some ''tty'', Some ''tty-force'', Some ''tty-fail'', Some ''socket'']"

definition exec_output_table :: "string option list" where
  "exec_output_table =
     [Some ''inherit'', Some ''null'', Some ''tty'', Some ''syslog'', Some ''syslog+console'',
      Some ''kmsg'', Some ''kmsg+console'', Some ''socket'']"

definition kill_mode_table :: "string option list" where
  "kill_mode_table =
     [Some ''control-group'', Some ''process'', Some ''none'']"

definition kill_who_table :: "string option list" where
  "kill_who_table =
     [Some ''main'', Some ''control'', Some ''all'']"

definition unit_file_state_table :: "string option list" where
  "unit_file_state_table =
     [Some ''enabled'', Some ''enabled-runtie'', Some ''linked'', Some ''linked-runtime'',
      Some ''masked'', Some ''masked-runtime'', Some ''static'', Some ''disabled'']"

definition unit_file_change_type_table :: "string option list" where
  "unit_file_change_type_table =
     [Some ''symlink'', Some ''unlink'']"

definition job_state_table :: "string option list" where
  "job_state_table =
     [Some ''waiting'', Some ''running'']"

definition job_type_table :: "string option list" where
  "job_type_table =
     [Some ''start'', Some ''verify-active'', Some ''stop'', Some ''reload'',
      Some ''reload-or-start'', Some ''restart'', Some ''try-restart'']"

definition job_mode_table :: "string option list" where
  "job_mode_table =
     [Some ''fail'', Some ''replace'', Some ''isolate'', Some ''ignore-dependencies'',
      Some ''ignore-requirements'']"

definition job_result_table :: "string option list" where
  "job_result_table =
     [Some ''done'', Some ''canceled'', Some ''timeout'', Some ''failed'', Some ''dependency'',
      Some ''skipped'']"

definition manager_running_as_table :: "string option list" where
  "manager_running_as_table =
     [Some ''system'', Some ''user'']"

definition mount_state_table :: "string option list" where
  "mount_state_table =
     [Some ''dead'', Some ''mounting'', Some ''mounting-done'', Some ''mounted'', Some ''remounting'',
      Some ''unmounting'', Some ''mounting-sigterm'', Some ''mounting-sigkill'',
      Some ''remounting-sigterm'', Some ''remounting-sigkill'', Some ''unmounting-sigterm'',
      Some ''unmounting-sigkill'', Some ''failed'']"

definition mount_exec_command_table :: "string option list" where
  "mount_exec_command_table =
     [Some ''ExecMount'', Some ''ExecUnmount'', Some ''ExecRemount'']"

definition path_state_table :: "string option list" where
  "path_state_table =
     [Some ''dead'', Some ''waiting'', Some ''running'', Some ''failed'']"

definition path_type_table :: "string option list" where
  "path_type_table =
     [Some ''PathExists'', Some ''PathExistsGlob'', Some ''DirectoryNotEmpty'', Some ''PathChanged'']"

definition service_state_table :: "string option list" where
  "service_state_table =
     [Some ''dead'', Some ''start-pre'', Some ''start'', Some ''start-post'', Some ''running'',
      Some ''exited'', Some ''reload'', Some ''stop'', Some ''stop-sigterm'', Some ''stop-sigkill'',
      Some ''stop-post'', Some ''final-sigterm'', Some ''final-sigkill'', Some ''failed'',
      Some ''auto-restart'']"

definition service_restart_table :: "string option list" where
  "service_restart_table =
     [Some ''no'', Some ''on-success'', Some ''on-failure'', Some ''on-abort'', Some ''always'']"

definition service_type_table :: "string option list" where
  "service_type_table =
     [Some ''simple'', Some ''forking'', Some ''oneshot'', Some ''dbus'', Some ''notify'']"

definition service_exec_command_table :: "string option list" where
  "service_exec_command_table =
     [Some ''ExecStartPre'', Some ''ExecStart'', Some ''ExecStartPost'', Some ''ExecReload'',
      Some ''ExecStop'', Some ''ExecStopPost'']"

definition notify_access_table :: "string option list" where
  "notify_access_table =
     [Some ''none'', Some ''all'', Some ''main'']"

definition snapshot_state_table :: "string option list" where
  "snapshot_state_table =
     [Some ''dead'', Some ''active'']"

definition socket_state_table :: "string option list" where
  "socket_state_table =
     [Some ''dead'', Some ''start-pre'', Some ''start-post'', Some ''listening'', Some ''running'',
      Some ''stop-pre'', Some ''stop-pre-sigterm'', Some ''stop-pre-sigkill'', Some ''stop-post'',
      Some ''final-sigterm'', Some ''final-sigkill'', Some ''failed'']"

definition socket_exec_command_table :: "string option list" where
  "socket_exec_command_table =
     [Some ''StartPre'', Some ''StartPost'', Some ''StopPre'', Some ''StopPost'']"

definition swap_state_table :: "string option list" where
  "swap_state_table =
     [Some ''dead'', Some ''activating'', Some ''active'', Some ''deactivating'',
      Some ''activating-sigterm'', Some ''activating-sigkill'', Some ''deactivating-sigterm'',
      Some ''deactivating-sigkill'', Some ''failed'']"

definition swap_exec_command_table :: "string option list" where
  "swap_exec_command_table =
     [Some ''ExecActivate'', Some ''ExecDeactivate'']"

definition target_state_table :: "string option list" where
  "target_state_table =
     [Some ''dead'', Some ''active'']"

definition timer_state_table :: "string option list" where
  "timer_state_table =
     [Some ''dead'', Some ''waiting'', Some ''running'', Some ''elapsed'', Some ''failed'']"

definition timer_base_table :: "string option list" where
  "timer_base_table =
     [Some ''OnActiveSec'', Some ''OnBootSec'', Some ''OnStartupSec'', Some ''OnUnitActiveSec'',
      Some ''OnUnitInactiveSec'']"

definition unit_load_state_table :: "string option list" where
  "unit_load_state_table =
     [Some ''stub'', Some ''loaded'', Some ''error'', Some ''merged'', Some ''masked'']"

definition unit_active_state_table :: "string option list" where
  "unit_active_state_table =
     [Some ''active'', Some ''reloading'', Some ''inactive'', Some ''failed'', Some ''activating'',
      Some ''deactivating'']"

definition unit_dependency_table :: "string option list" where
  "unit_dependency_table =
     [Some ''Requires'', Some ''RequiresOverridable'', Some ''Requisite'',
      Some ''RequisiteOverridable'', Some ''Wants'', Some ''BindTo'', Some ''RequiredBy'',
      Some ''RequiredByOverridable'', Some ''WantedBy'', Some ''BoundBy'', Some ''Conflicts'',
      Some ''ConflictedBy'', Some ''Before'', Some ''After'', Some ''OnFailure'', Some ''References'',
      Some ''ReferencedBy'']"

definition log_level_table :: "string option list" where
  "log_level_table =
     [Some ''emerg'', Some ''alert'', Some ''crit'', Some ''err'', Some ''warning'', Some ''notice'',
      Some ''info'', Some ''debug'']"

text \<open>The signal numbers of Linux on x86.\<close>

definition signal_table :: "string option list" where
  "signal_table =
     [None, Some ''HUP'', Some ''INT'', Some ''QUIT'', Some ''ILL'', Some ''TRAP'', Some ''ABRT'',
      Some ''BUS'', Some ''FPE'', Some ''KILL'', Some ''USR1'', Some ''SEGV'', Some ''USR2'',
      Some ''PIPE'', Some ''ALRM'', Some ''TERM'', Some ''STKFLT'', Some ''CHLD'', Some ''CONT'',
      Some ''STOP'', Some ''TSTP'', Some ''TTIN'', Some ''TTOU'', Some ''URG'', Some ''XCPU'',
      Some ''XFSZ'', Some ''VTALRM'', Some ''PROF'', Some ''WINCH'', Some ''IO'', Some ''PWR'',
      Some ''SYS'']"

subsection \<open>Signals (util.c)\<close>

abbreviation SIGRTMIN :: int where "SIGRTMIN \<equiv> 34"
abbreviation SIGRTMAX :: int where "SIGRTMAX \<equiv> 64"
abbreviation NSIG :: int where "NSIG \<equiv> 65"

definition dec_int :: "int \<Rightarrow> string" where
  "dec_int i = (if i < 0 then ''-'' @ dec_string (nat (- i)) else dec_string (nat i))"

text \<open>\<open>snprintf(buf, sizeof(buf) - 1, \<dots>)\<close> with a buffer of 12 bytes keeps at most 10.\<close>

definition signal_to_string :: "int \<Rightarrow> string" where
  "signal_to_string signo =
     (case table_to_string signal_table signo of
        Some name \<Rightarrow> name
      | None \<Rightarrow>
          take 10 (if signo \<ge> SIGRTMIN \<and> signo \<le> SIGRTMAX then ''RTMIN+'' @ dec_int (signo - SIGRTMIN)
                   else dec_int signo))"

definition signal_from_string :: "string \<Rightarrow> int" where
  "signal_from_string s =
     (let signo = table_from_string signal_table s in
      if signo > 0 then signo
      else let (s', offset) = (if startswith s ''RTMIN+'' then (drop 6 s, SIGRTMIN) else (s, 0)) in
        case safe_atou s' of
          Inr u \<Rightarrow> let n = sint u + offset in if n > 0 \<and> n < NSIG then n else - 1
        | Inl e \<Rightarrow> - 1)"

definition signal_from_string_try_harder :: "string \<Rightarrow> int" where
  "signal_from_string_try_harder s =
     (let signo = signal_from_string s in
      if signo \<le> 0 \<and> startswith s ''SIG'' then signal_from_string (drop 3 s) else signo)"

subsection \<open>All tables at once\<close>

definition string_tables :: "string option list list" where
  "string_tables =
     [automount_state_table, condition_type_table, device_state_table, exec_input_table,
      exec_output_table, kill_mode_table, kill_who_table, unit_file_state_table,
      unit_file_change_type_table, job_state_table, job_type_table, job_mode_table,
      job_result_table, manager_running_as_table, mount_state_table, mount_exec_command_table,
      path_state_table, path_type_table, service_state_table, service_restart_table,
      service_type_table, service_exec_command_table, notify_access_table, snapshot_state_table,
      socket_state_table, socket_exec_command_table, swap_state_table, swap_exec_command_table,
      target_state_table, timer_state_table, timer_base_table, unit_load_state_table,
      unit_active_state_table, unit_dependency_table, log_level_table, signal_table]"

interpretation tab_automount_state: string_table automount_state_table
  by unfold_locales (simp add: automount_state_table_def)

interpretation tab_condition_type: string_table condition_type_table
  by unfold_locales (simp add: condition_type_table_def)

interpretation tab_device_state: string_table device_state_table
  by unfold_locales (simp add: device_state_table_def)

interpretation tab_exec_input: string_table exec_input_table
  by unfold_locales (simp add: exec_input_table_def)

interpretation tab_exec_output: string_table exec_output_table
  by unfold_locales (simp add: exec_output_table_def)

interpretation tab_kill_mode: string_table kill_mode_table
  by unfold_locales (simp add: kill_mode_table_def)

interpretation tab_kill_who: string_table kill_who_table
  by unfold_locales (simp add: kill_who_table_def)

interpretation tab_unit_file_state: string_table unit_file_state_table
  by unfold_locales (simp add: unit_file_state_table_def)

interpretation tab_unit_file_change_type: string_table unit_file_change_type_table
  by unfold_locales (simp add: unit_file_change_type_table_def)

interpretation tab_job_state: string_table job_state_table
  by unfold_locales (simp add: job_state_table_def)

interpretation tab_job_type: string_table job_type_table
  by unfold_locales (simp add: job_type_table_def)

interpretation tab_job_mode: string_table job_mode_table
  by unfold_locales (simp add: job_mode_table_def)

interpretation tab_job_result: string_table job_result_table
  by unfold_locales (simp add: job_result_table_def)

interpretation tab_manager_running_as: string_table manager_running_as_table
  by unfold_locales (simp add: manager_running_as_table_def)

interpretation tab_mount_state: string_table mount_state_table
  by unfold_locales (simp add: mount_state_table_def)

interpretation tab_mount_exec_command: string_table mount_exec_command_table
  by unfold_locales (simp add: mount_exec_command_table_def)

interpretation tab_path_state: string_table path_state_table
  by unfold_locales (simp add: path_state_table_def)

interpretation tab_path_type: string_table path_type_table
  by unfold_locales (simp add: path_type_table_def)

interpretation tab_service_state: string_table service_state_table
  by unfold_locales (simp add: service_state_table_def)

interpretation tab_service_restart: string_table service_restart_table
  by unfold_locales (simp add: service_restart_table_def)

interpretation tab_service_type: string_table service_type_table
  by unfold_locales (simp add: service_type_table_def)

interpretation tab_service_exec_command: string_table service_exec_command_table
  by unfold_locales (simp add: service_exec_command_table_def)

interpretation tab_notify_access: string_table notify_access_table
  by unfold_locales (simp add: notify_access_table_def)

interpretation tab_snapshot_state: string_table snapshot_state_table
  by unfold_locales (simp add: snapshot_state_table_def)

interpretation tab_socket_state: string_table socket_state_table
  by unfold_locales (simp add: socket_state_table_def)

interpretation tab_socket_exec_command: string_table socket_exec_command_table
  by unfold_locales (simp add: socket_exec_command_table_def)

interpretation tab_swap_state: string_table swap_state_table
  by unfold_locales (simp add: swap_state_table_def)

interpretation tab_swap_exec_command: string_table swap_exec_command_table
  by unfold_locales (simp add: swap_exec_command_table_def)

interpretation tab_target_state: string_table target_state_table
  by unfold_locales (simp add: target_state_table_def)

interpretation tab_timer_state: string_table timer_state_table
  by unfold_locales (simp add: timer_state_table_def)

interpretation tab_timer_base: string_table timer_base_table
  by unfold_locales (simp add: timer_base_table_def)

interpretation tab_unit_load_state: string_table unit_load_state_table
  by unfold_locales (simp add: unit_load_state_table_def)

interpretation tab_unit_active_state: string_table unit_active_state_table
  by unfold_locales (simp add: unit_active_state_table_def)

interpretation tab_unit_dependency: string_table unit_dependency_table
  by unfold_locales (simp add: unit_dependency_table_def)

interpretation tab_log_level: string_table log_level_table
  by unfold_locales (simp add: log_level_table_def)

interpretation tab_signal: string_table signal_table
  by unfold_locales (simp add: signal_table_def)

lemma string_tables_distinct: "list_all string_table string_tables"
  by (simp add: string_tables_def
      tab_automount_state.string_table_axioms tab_condition_type.string_table_axioms
      tab_device_state.string_table_axioms tab_exec_input.string_table_axioms
      tab_exec_output.string_table_axioms tab_kill_mode.string_table_axioms
      tab_kill_who.string_table_axioms tab_unit_file_state.string_table_axioms
      tab_unit_file_change_type.string_table_axioms tab_job_state.string_table_axioms
      tab_job_type.string_table_axioms tab_job_mode.string_table_axioms
      tab_job_result.string_table_axioms tab_manager_running_as.string_table_axioms
      tab_mount_state.string_table_axioms tab_mount_exec_command.string_table_axioms
      tab_path_state.string_table_axioms tab_path_type.string_table_axioms
      tab_service_state.string_table_axioms tab_service_restart.string_table_axioms
      tab_service_type.string_table_axioms tab_service_exec_command.string_table_axioms
      tab_notify_access.string_table_axioms tab_snapshot_state.string_table_axioms
      tab_socket_state.string_table_axioms tab_socket_exec_command.string_table_axioms
      tab_swap_state.string_table_axioms tab_swap_exec_command.string_table_axioms
      tab_target_state.string_table_axioms tab_timer_state.string_table_axioms
      tab_timer_base.string_table_axioms tab_unit_load_state.string_table_axioms
      tab_unit_active_state.string_table_axioms tab_unit_dependency.string_table_axioms
      tab_log_level.string_table_axioms tab_signal.string_table_axioms)

end
