(* ===== verification/Service.thy ===== *)
theory Service
  imports Unit_Exec Strv String_Tables
begin

section \<open>The service state machine (service.c)\<close>

text \<open>
  \<open>struct Service\<close> is split in two: \<open>service_config\<close> holds what the unit file sets and no operation
  below writes, \<open>service\<close> the runtime state.  A pointer into one of the linked lists
  \<open>exec_command[id]\<close> is the pair of the list's id and a position, \<open>command_next\<close> is the next position,
  and the \<open>exec_status\<close> that C keeps inside the command is kept per position in
  \<open>sv_command_status\<close>.  \<open>None\<close> as the result of an operation is a failed assertion.

  What is outside the service is answered by the environment of \<open>Unit_Exec\<close>: besides the kernel,
  whether the unit has a job (\<open>e_has_job\<close>) and whether \<open>manager_add_job\<close> accepts the restart job.
  \<open>unit_notify\<close>, the sockets and the D-Bus connection are told by logged actions.
\<close>

datatype service_state =
    SERVICE_DEAD | SERVICE_START_PRE | SERVICE_START | SERVICE_START_POST | SERVICE_RUNNING
  | SERVICE_EXITED | SERVICE_RELOAD | SERVICE_STOP | SERVICE_STOP_SIGTERM | SERVICE_STOP_SIGKILL
  | SERVICE_STOP_POST | SERVICE_FINAL_SIGTERM | SERVICE_FINAL_SIGKILL | SERVICE_FAILED
  | SERVICE_AUTO_RESTART

datatype service_restart =
    SERVICE_RESTART_NO | SERVICE_RESTART_ON_SUCCESS | SERVICE_RESTART_ON_FAILURE
  | SERVICE_RESTART_ON_ABORT | SERVICE_RESTART_ALWAYS

datatype service_type =
    SERVICE_SIMPLE | SERVICE_FORKING | SERVICE_ONESHOT | SERVICE_DBUS | SERVICE_NOTIFY

datatype service_exec_command =
    SERVICE_EXEC_START_PRE | SERVICE_EXEC_START | SERVICE_EXEC_START_POST | SERVICE_EXEC_RELOAD
  | SERVICE_EXEC_STOP | SERVICE_EXEC_STOP_POST

datatype notify_access = NOTIFY_NONE | NOTIFY_ALL | NOTIFY_MAIN

record service_config =
  sc_type :: service_type
  sc_restart :: service_restart
  sc_pid_file :: "string option"
  sc_restart_usec :: nat
  sc_timeout_usec :: nat
  sc_exec_command :: "service_exec_command \<Rightarrow> exec_command list"
  sc_std_socket :: bool
  sc_kill_mode :: kill_mode
  sc_kill_signal :: int
  sc_send_sigkill :: bool
  sc_pam_name :: bool
  sc_remain_after_exit :: bool
  sc_guess_main_pid :: bool
  sc_bus_name :: "string option"
  sc_notify_access :: notify_access
  sc_fragment_path :: bool
  sc_sysv_path :: bool
  sc_load_state :: unit_load_state

type_synonym command_ptr = "service_exec_command \<times> nat"

record service = exec_unit +
  sv_conf :: service_config
  sv_state :: service_state
  sv_deserialized_state :: service_state
  sv_main_exec_status :: exec_status
  sv_command_status :: "command_ptr \<Rightarrow> exec_status"
  sv_control_command :: "command_ptr option"
  sv_main_command :: "command_ptr option"
  sv_control_command_id :: "service_exec_command option"
  sv_main_pid :: int
  sv_control_pid :: int
  sv_socket_fd :: int
  sv_failure :: bool
  sv_reload_failure :: bool
  sv_main_pid_known :: bool
  sv_main_pid_alien :: bool
  sv_bus_name_good :: bool
  sv_forbid_restart :: bool
  sv_got_socket_fd :: bool
  sv_status_text :: "string option"
  sv_ratelimit :: ratelimit
  sv_accept_socket :: "nat option"

abbreviation sv_type :: "service \<Rightarrow> service_type" where
  "sv_type s \<equiv> sc_type (sv_conf s)"

abbreviation sv_timeout :: "service \<Rightarrow> nat" where
  "sv_timeout s \<equiv> sc_timeout_usec (sv_conf s)"

definition commands :: "service \<Rightarrow> service_exec_command \<Rightarrow> exec_command list" where
  "commands s i = sc_exec_command (sv_conf s) i"

text \<open>The pointer \<open>s->exec_command[id]\<close>, and \<open>c->command_next\<close>; \<open>None\<close> is \<open>NULL\<close>.\<close>

definition first_command :: "service \<Rightarrow> service_exec_command \<Rightarrow> command_ptr option" where
  "first_command s i = (if commands s i = [] then None else Some (i, 0))"

definition command_next :: "service \<Rightarrow> command_ptr \<Rightarrow> command_ptr option" where
  "command_next s c =
     (if Suc (snd c) < length (commands s (fst c)) then Some (fst c, Suc (snd c)) else None)"

definition the_command :: "service \<Rightarrow> command_ptr \<Rightarrow> exec_command" where
  "the_command s c = commands s (fst c) ! snd c"

definition service_state_translation_table :: "service_state \<Rightarrow> unit_active_state" where
  "service_state_translation_table s =
     (case s of
        SERVICE_DEAD \<Rightarrow> UNIT_INACTIVE
      | SERVICE_START_PRE \<Rightarrow> UNIT_ACTIVATING
      | SERVICE_START \<Rightarrow> UNIT_ACTIVATING
      | SERVICE_START_POST \<Rightarrow> UNIT_ACTIVATING
      | SERVICE_RUNNING \<Rightarrow> UNIT_ACTIVE
      | SERVICE_EXITED \<Rightarrow> UNIT_ACTIVE
      | SERVICE_RELOAD \<Rightarrow> UNIT_RELOADING
      | SERVICE_STOP \<Rightarrow> UNIT_DEACTIVATING
      | SERVICE_STOP_SIGTERM \<Rightarrow> UNIT_DEACTIVATING
      | SERVICE_STOP_SIGKILL \<Rightarrow> UNIT_DEACTIVATING
      | SERVICE_STOP_POST \<Rightarrow> UNIT_DEACTIVATING
      | SERVICE_FINAL_SIGTERM \<Rightarrow> UNIT_DEACTIVATING
      | SERVICE_FINAL_SIGKILL \<Rightarrow> UNIT_DEACTIVATING
      | SERVICE_FAILED \<Rightarrow> UNIT_FAILED
      | SERVICE_AUTO_RESTART \<Rightarrow> UNIT_ACTIVATING)"

definition service_active_state :: "service \<Rightarrow> unit_active_state" where
  "service_active_state s = service_state_translation_table (sv_state s)"

text \<open>\<open>service_init\<close>, after the unit file has been parsed into the configuration.\<close>

definition service_init :: "service_config \<Rightarrow> service" where
  "service_init c =
     \<lparr>x_timer = Timer_Off, x_log = [], sv_conf = c, sv_state = SERVICE_DEAD,
      sv_deserialized_state = SERVICE_DEAD, sv_main_exec_status = exec_status_zero,
      sv_command_status = (\<lambda>_. exec_status_zero), sv_control_command = None,
      sv_main_command = None, sv_control_command_id = None, sv_main_pid = 0, sv_control_pid = 0,
      sv_socket_fd = -1, sv_failure = False, sv_reload_failure = False, sv_main_pid_known = False,
      sv_main_pid_alien = False, sv_bus_name_good = False, sv_forbid_restart = False,
      sv_got_socket_fd = False, sv_status_text = None,
      sv_ratelimit = ratelimit_init (10 * 1000000) 5, sv_accept_socket = None\<rparr>"

definition service_verify :: "service_config \<Rightarrow> unit result" where
  "service_verify c =
     (if sc_load_state c \<noteq> UNIT_LOADED then Inr ()
      else if sc_exec_command c SERVICE_EXEC_START = [] then Inl EINVAL
      else if sc_type c \<noteq> SERVICE_ONESHOT \<and> length (sc_exec_command c SERVICE_EXEC_START) > 1
      then Inl EINVAL
      else if sc_type c = SERVICE_ONESHOT \<and> sc_exec_command c SERVICE_EXEC_RELOAD \<noteq> []
      then Inl EINVAL
      else if sc_type c = SERVICE_DBUS \<and> sc_bus_name c = None then Inl EINVAL
      else if sc_pam_name c \<and> sc_kill_mode c \<noteq> KILL_CONTROL_GROUP then Inl EINVAL
      else Inr ())"

subsection \<open>Pids\<close>

definition service_unwatch_control_pid :: "service \<Rightarrow> service" where
  "service_unwatch_control_pid s =
     (if sv_control_pid s \<le> 0 then s
      else (unit_unwatch_pid (sv_control_pid s) s)\<lparr>sv_control_pid := 0\<rparr>)"

definition service_unwatch_main_pid :: "service \<Rightarrow> service" where
  "service_unwatch_main_pid s =
     (if sv_main_pid s \<le> 0 then s
      else (unit_unwatch_pid (sv_main_pid s) s)\<lparr>sv_main_pid := 0\<rparr>)"

definition service_set_main_pid :: "exec_env \<Rightarrow> int \<Rightarrow> service \<Rightarrow> errno option \<times> service" where
  "service_set_main_pid e pid s =
     (if pid \<le> 1 then (Some EINVAL, s)
      else if pid = e_getpid e then (Some EINVAL, s)
      else
        (None,
         s\<lparr>sv_main_pid := pid, sv_main_pid_known := True,
           sv_main_pid_alien := (case e_ppid e (x_log s) pid of
                                   Inr ppid \<Rightarrow> ppid \<noteq> e_getpid e
                                 | Inl _ \<Rightarrow> False),
           sv_main_exec_status := exec_status_start (e_now e (x_log s)) pid\<rparr>))"

definition service_load_pid_file :: "exec_env \<Rightarrow> service \<Rightarrow> errno option \<times> service" where
  "service_load_pid_file e s =
     (case sc_pid_file (sv_conf s) of
        None \<Rightarrow> (Some ENOENT, s)
      | Some _ \<Rightarrow>
          case e_pid_file e (x_log s) of
            Inl r \<Rightarrow> (Some r, s)
          | Inr k \<Rightarrow>
              case parse_pid k of
                Inl r \<Rightarrow> (Some r, s)
              | Inr pid \<Rightarrow>
                  case sys_kill e pid 0 s of
                    (r, s1) \<Rightarrow>
                      if r \<noteq> None \<and> r \<noteq> Some EPERM then (Some ESRCH, s1)
                      else if sv_main_pid_known s1 \<and> pid = sv_main_pid s1 then (None, s1)
                      else
                        let s2 = (if sv_main_pid_known s1
                                  then (service_unwatch_main_pid s1)\<lparr>sv_main_pid_known := False\<rparr>
                                  else s1) in
                        case service_set_main_pid e pid s2 of
                          (Some r, s3) \<Rightarrow> (Some r, s3)
                        | (None, s3) \<Rightarrow> unit_watch_pid e pid s3)"

definition service_search_main_pid :: "exec_env \<Rightarrow> service \<Rightarrow> (errno option \<times> service) option" where
  "service_search_main_pid e s =
     (if sv_main_pid_known s then Some (None, s)
      else if \<not> sc_guess_main_pid (sv_conf s) then Some (None, s)
      else if \<not> sv_main_pid s \<le> 0 then None
      else
        let pid = e_main_pid e (x_log s) in
        if pid \<le> 0 then Some (Some ENOENT, s)
        else case service_set_main_pid e pid s of
               (Some r, s') \<Rightarrow> Some (Some r, s')
             | (None, s') \<Rightarrow> Some (unit_watch_pid e pid s'))"

subsection \<open>Changing the state\<close>

definition service_close_socket_fd :: "service \<Rightarrow> service" where
  "service_close_socket_fd s =
     (if sv_socket_fd s < 0 then s else act (Close_Fd (sv_socket_fd s)) (s\<lparr>sv_socket_fd := -1\<rparr>))"

definition service_connection_unref :: "service \<Rightarrow> service" where
  "service_connection_unref s =
     (case sv_accept_socket s of
        None \<Rightarrow> s
      | Some k \<Rightarrow> act (Connection_Unref k) (s\<lparr>sv_accept_socket := None\<rparr>))"

text \<open>
  Which sockets hear of it (the configured ones, or those named like the service) is left to the
  action \<open>Sockets_Dead\<close>.
\<close>

definition service_notify_sockets_dead :: "service \<Rightarrow> service" where
  "service_notify_sockets_dead s = (if sv_socket_fd s \<ge> 0 then s else act Sockets_Dead s)"

definition has_timer :: "service_state \<Rightarrow> bool" where
  "has_timer st =
     (st \<in> {SERVICE_START_PRE, SERVICE_START, SERVICE_START_POST, SERVICE_RELOAD, SERVICE_STOP,
            SERVICE_STOP_SIGTERM, SERVICE_STOP_SIGKILL, SERVICE_STOP_POST, SERVICE_FINAL_SIGTERM,
            SERVICE_FINAL_SIGKILL, SERVICE_AUTO_RESTART})"

definition has_main :: "service_state \<Rightarrow> bool" where
  "has_main st =
     (st \<in> {SERVICE_START, SERVICE_START_POST, SERVICE_RUNNING, SERVICE_RELOAD, SERVICE_STOP,
            SERVICE_STOP_SIGTERM, SERVICE_STOP_SIGKILL})"

definition has_control :: "service_state \<Rightarrow> bool" where
  "has_control st =
     (st \<in> {SERVICE_START_PRE, SERVICE_START, SERVICE_START_POST, SERVICE_RELOAD, SERVICE_STOP,
            SERVICE_STOP_SIGTERM, SERVICE_STOP_SIGKILL, SERVICE_STOP_POST, SERVICE_FINAL_SIGTERM,
            SERVICE_FINAL_SIGKILL})"

definition is_down :: "service_state \<Rightarrow> bool" where
  "is_down st =
     (st \<in> {SERVICE_DEAD, SERVICE_STOP, SERVICE_STOP_SIGTERM, SERVICE_STOP_SIGKILL,
            SERVICE_STOP_POST, SERVICE_FINAL_SIGTERM, SERVICE_FINAL_SIGKILL, SERVICE_FAILED,
            SERVICE_AUTO_RESTART})"

definition keeps_socket :: "service_state \<Rightarrow> bool" where
  "keeps_socket st =
     (st \<in> {SERVICE_START_PRE, SERVICE_START, SERVICE_START_POST, SERVICE_RUNNING, SERVICE_RELOAD,
            SERVICE_STOP, SERVICE_STOP_SIGTERM, SERVICE_STOP_SIGKILL, SERVICE_STOP_POST,
            SERVICE_FINAL_SIGTERM, SERVICE_FINAL_SIGKILL})"

definition service_set_state :: "exec_env \<Rightarrow> service_state \<Rightarrow> service \<Rightarrow> service" where
  "service_set_state e st s =
     (let old_state = sv_state s;
          s1 = s\<lparr>sv_state := st\<rparr>;
          s2 = (if has_timer st then s1 else unit_unwatch_timer s1);
          s3 = (if has_main st then s2 else (service_unwatch_main_pid s2)\<lparr>sv_main_command := None\<rparr>);
          s4 = (if has_control st then s3
                else (service_unwatch_control_pid s3)
                       \<lparr>sv_control_command := None, sv_control_command_id := None\<rparr>);
          s5 = (if is_down st then service_notify_sockets_dead s4 else s4);
          s6 = (if \<not> keeps_socket st \<and> \<not> (st = SERVICE_DEAD \<and> e_has_job e (x_log s5))
                then service_connection_unref (service_close_socket_fd s5) else s5);
          s7 = (if st = SERVICE_EXITED \<and> \<not> e_reloading e then act Cgroup_Trim s6 else s6);
          s8 = act (Unit_Notify (service_state_translation_table old_state) (service_state_translation_table st)
                      (\<not> sv_reload_failure s7)) s7
      in s8\<lparr>sv_reload_failure := False\<rparr>)"

subsection \<open>Running commands\<close>

text \<open>
  \<open>service_spawn\<close>: collecting the socket fds, arming or disarming the timer, building the
  arguments and the environment, \<open>exec_spawn\<close>, and watching the new pid.  The
  logged \<open>Exec_Spawn\<close> carries the \<open>MAINPID\<close> that is passed on and whether \<open>NOTIFY_SOCKET\<close> is.
\<close>

definition service_spawn_prepare ::
    "exec_env \<Rightarrow> bool \<Rightarrow> bool \<Rightarrow> service \<Rightarrow> errno option \<times> service" where
  "service_spawn_prepare e timeout pass_fds s =
     (case (if (pass_fds \<or> sc_std_socket (sv_conf s)) \<and> sv_socket_fd s < 0
            then let r = e_fds e (x_log s) in (r, act (Collect_Fds r) s) else (None, s)) of
        (Some r, s1) \<Rightarrow> (Some r, s1)
      | (None, s1) \<Rightarrow>
          case (if timeout \<and> sv_timeout s1 \<noteq> 0 then unit_watch_timer e (sv_timeout s1) s1
                else (None, unit_unwatch_timer s1)) of
            (Some r, s2) \<Rightarrow> (Some r, s2)
          | (None, s2) \<Rightarrow> let r = e_prepare e (x_log s2) in (r, act (Prepare_Exec r) s2))"

definition service_spawn ::
    "exec_env \<Rightarrow> command_ptr \<Rightarrow> bool \<Rightarrow> bool \<Rightarrow> bool \<Rightarrow> service \<Rightarrow> int result \<times> service" where
  "service_spawn e c timeout pass_fds set_notify_socket s =
     (let fail = (\<lambda>r s. (Inl r, if timeout then unit_unwatch_timer s else s)) in
      case service_spawn_prepare e timeout pass_fds s of
        (Some r, s1) \<Rightarrow> fail r s1
      | (None, s1) \<Rightarrow>
          let p = e_spawn e (x_log s1) (the_command s1 c);
              s2 = act (Exec_Spawn (the_command s1 c)
                          (if sv_main_pid s1 > 0 then Some (sv_main_pid s1) else None)
                          set_notify_socket p) s1 in
          case p of
            Inl r \<Rightarrow> fail r s2
          | Inr pid \<Rightarrow>
              case unit_watch_pid e pid s2 of
                (Some r, s3) \<Rightarrow> fail r s3
              | (None, s3) \<Rightarrow> (Inr pid, s3))"

definition main_pid_good :: "exec_env \<Rightarrow> service \<Rightarrow> int" where
  "main_pid_good e s =
     (if sv_main_pid_known s then
        if sv_main_pid_alien s
        then of_bool (e_kill e (x_log s) (sv_main_pid s) 0 \<noteq> Some ESRCH)
        else of_bool (sv_main_pid s > 0)
      else -1)"

definition control_pid_good :: "service \<Rightarrow> bool" where
  "control_pid_good s = (sv_control_pid s > 0)"

definition cgroup_good :: "exec_env \<Rightarrow> service \<Rightarrow> int" where
  "cgroup_good e s =
     (let r = e_cgroup_empty e (x_log s) in if r < 0 then r else of_bool (r = 0))"

definition service_check_gc :: "exec_env \<Rightarrow> service \<Rightarrow> bool" where
  "service_check_gc e s =
     (if cgroup_good e s > 0 \<or> main_pid_good e s > 0 \<or> control_pid_good s then True
      else sc_sysv_path (sv_conf s))"

definition service_check_snapshot :: "service \<Rightarrow> bool" where
  "service_check_snapshot s = (\<not> sv_got_socket_fd s)"

subsection \<open>Going down\<close>

definition fail_unless :: "bool \<Rightarrow> service \<Rightarrow> service" where
  "fail_unless success s = (if success then s else s\<lparr>sv_failure := True\<rparr>)"

definition service_restarts :: "service \<Rightarrow> bool" where
  "service_restarts s =
     (case sc_restart (sv_conf s) of
        SERVICE_RESTART_ALWAYS \<Rightarrow> True
      | SERVICE_RESTART_ON_SUCCESS \<Rightarrow> \<not> sv_failure s
      | SERVICE_RESTART_ON_FAILURE \<Rightarrow> sv_failure s
      | SERVICE_RESTART_ON_ABORT \<Rightarrow>
          sv_failure s \<and> (xs_code (sv_main_exec_status s) = CLD_KILLED \<or>
                          xs_code (sv_main_exec_status s) = CLD_DUMPED)
      | SERVICE_RESTART_NO \<Rightarrow> False)"

function service_enter_dead :: "exec_env \<Rightarrow> bool \<Rightarrow> bool \<Rightarrow> service \<Rightarrow> service" where
  "service_enter_dead e success allow_restart s =
     (let s1 = fail_unless success s in
      if allow_restart \<and> \<not> sv_forbid_restart s1 \<and> service_restarts s1 then
        case unit_watch_timer e (sc_restart_usec (sv_conf s1)) s1 of
          (Some r, s2) \<Rightarrow> service_enter_dead e False False s2
        | (None, s2) \<Rightarrow> (service_set_state e SERVICE_AUTO_RESTART s2)\<lparr>sv_forbid_restart := False\<rparr>
      else
        (service_set_state e (if sv_failure s1 then SERVICE_FAILED else SERVICE_DEAD) s1)
          \<lparr>sv_forbid_restart := False\<rparr>)"
  by pat_completeness auto
termination
  by (relation "measure (\<lambda>(e, success, allow_restart, s). of_bool allow_restart)") auto

declare service_enter_dead.simps [simp del]

text \<open>
  The signals of \<open>service_enter_signal\<close>: to the main process, to the control process, to the rest
  of the control group.  The result is the error that makes it fail, whether there is something
  to wait for, and the service.
\<close>

definition signal_main :: "exec_env \<Rightarrow> int \<Rightarrow> service \<Rightarrow> bool \<times> service" where
  "signal_main e sig s =
     (if sv_main_pid s > 0 then
        case kill_and_sigcont e (sv_main_pid s) sig s of
          (r, s') \<Rightarrow> if r \<noteq> None \<and> r \<noteq> Some ESRCH then (False, s') else (\<not> sv_main_pid_alien s', s')
      else (False, s))"

definition signal_control :: "exec_env \<Rightarrow> int \<Rightarrow> bool \<Rightarrow> service \<Rightarrow> bool \<times> service" where
  "signal_control e sig wait s =
     (if sv_control_pid s > 0 then
        case kill_and_sigcont e (sv_control_pid s) sig s of
          (r, s') \<Rightarrow> if r \<noteq> None \<and> r \<noteq> Some ESRCH then (wait, s') else (True, s')
      else (wait, s))"

definition signal_processes ::
    "exec_env \<Rightarrow> service_state \<Rightarrow> service \<Rightarrow> errno option \<times> bool \<times> service" where
  "signal_processes e st s =
     (if sc_kill_mode (sv_conf s) = KILL_NONE then (None, False, s)
      else
        let sig = (if st = SERVICE_STOP_SIGTERM \<or> st = SERVICE_FINAL_SIGTERM
                   then sc_kill_signal (sv_conf s) else SIGKILL);
            (wait1, s1) = signal_main e sig s;
            (wait2, s2) = signal_control e sig wait1 s1 in
        if sc_kill_mode (sv_conf s) = KILL_CONTROL_GROUP then
          case e_pid_set e (x_log s2) of
            Some r \<Rightarrow> (Some r, wait2, s2)
          | None \<Rightarrow>
              let r = e_cgroup_kill e (x_log s2) sig in
              (None, wait2 \<or> r > 0, act (Cgroup_Kill sig r) s2)
        else (None, wait2, s2))"

definition is_stop_signal :: "service_state \<Rightarrow> bool" where
  "is_stop_signal st = (st = SERVICE_STOP_SIGTERM \<or> st = SERVICE_STOP_SIGKILL)"

function service_enter_signal :: "exec_env \<Rightarrow> service_state \<Rightarrow> bool \<Rightarrow> service \<Rightarrow> service"
  and service_enter_stop_post :: "exec_env \<Rightarrow> bool \<Rightarrow> service \<Rightarrow> service" where
  "service_enter_signal e st success s =
     (let fail = (\<lambda>s. if is_stop_signal st then service_enter_stop_post e False s
                      else service_enter_dead e False True s) in
      case signal_processes e st (fail_unless success s) of
        (Some r, wait_for_exit, s1) \<Rightarrow> fail s1
      | (None, wait_for_exit, s1) \<Rightarrow>
          if wait_for_exit then
            case (if sv_timeout s1 > 0 then unit_watch_timer e (sv_timeout s1) s1 else (None, s1)) of
              (Some r, s2) \<Rightarrow> fail s2
            | (None, s2) \<Rightarrow> service_set_state e st s2
          else if is_stop_signal st then service_enter_stop_post e True s1
          else service_enter_dead e True True s1)"
| "service_enter_stop_post e success s =
     (let s1 = service_unwatch_control_pid (fail_unless success s);
          s2 = s1\<lparr>sv_control_command := first_command s1 SERVICE_EXEC_STOP_POST\<rparr> in
      case sv_control_command s2 of
        None \<Rightarrow> service_enter_signal e SERVICE_FINAL_SIGTERM True s2
      | Some c \<Rightarrow>
          case service_spawn e c True False False
                 (s2\<lparr>sv_control_command_id := Some SERVICE_EXEC_STOP_POST\<rparr>) of
            (Inl r, s3) \<Rightarrow> service_enter_signal e SERVICE_FINAL_SIGTERM False s3
          | (Inr pid, s3) \<Rightarrow> service_set_state e SERVICE_STOP_POST (s3\<lparr>sv_control_pid := pid\<rparr>))"
  by pat_completeness auto
termination
  by (relation "measure (case_sum (\<lambda>(e, st, success, s). if is_stop_signal st then 2 else 0)
                                  (\<lambda>(e, success, s). 1))")
     (auto simp: is_stop_signal_def)

declare service_enter_signal.simps [simp del] service_enter_stop_post.simps [simp del]

definition service_enter_stop :: "exec_env \<Rightarrow> bool \<Rightarrow> service \<Rightarrow> service" where
  "service_enter_stop e success s =
     (let s1 = service_unwatch_control_pid (fail_unless success s);
          s2 = s1\<lparr>sv_control_command := first_command s1 SERVICE_EXEC_STOP\<rparr> in
      case sv_control_command s2 of
        None \<Rightarrow> service_enter_signal e SERVICE_STOP_SIGTERM True s2
      | Some c \<Rightarrow>
          case service_spawn e c True False False
                 (s2\<lparr>sv_control_command_id := Some SERVICE_EXEC_STOP\<rparr>) of
            (Inl r, s3) \<Rightarrow> service_enter_signal e SERVICE_STOP_SIGTERM False s3
          | (Inr pid, s3) \<Rightarrow> service_set_state e SERVICE_STOP (s3\<lparr>sv_control_pid := pid\<rparr>))"

subsection \<open>Coming up\<close>

definition service_enter_running :: "exec_env \<Rightarrow> bool \<Rightarrow> service \<Rightarrow> service" where
  "service_enter_running e success s =
     (let s1 = fail_unless success s;
          main_pid_ok = main_pid_good e s1;
          cgroup_ok = cgroup_good e s1 in
      if (main_pid_ok > 0 \<or> (main_pid_ok < 0 \<and> cgroup_ok \<noteq> 0)) \<and>
         (sv_bus_name_good s1 \<or> sv_type s1 \<noteq> SERVICE_DBUS)
      then service_set_state e SERVICE_RUNNING s1
      else if sc_remain_after_exit (sv_conf s1) then service_set_state e SERVICE_EXITED s1
      else service_enter_stop e True s1)"

definition service_enter_start_post :: "exec_env \<Rightarrow> service \<Rightarrow> service" where
  "service_enter_start_post e s =
     (let s1 = service_unwatch_control_pid s;
          s2 = s1\<lparr>sv_control_command := first_command s1 SERVICE_EXEC_START_POST\<rparr> in
      case sv_control_command s2 of
        None \<Rightarrow> service_enter_running e True s2
      | Some c \<Rightarrow>
          case service_spawn e c True False False
                 (s2\<lparr>sv_control_command_id := Some SERVICE_EXEC_START_POST\<rparr>) of
            (Inl r, s3) \<Rightarrow> service_enter_stop e False s3
          | (Inr pid, s3) \<Rightarrow> service_set_state e SERVICE_START_POST (s3\<lparr>sv_control_pid := pid\<rparr>))"

definition service_enter_start :: "exec_env \<Rightarrow> service \<Rightarrow> service option" where
  "service_enter_start e s =
     (case first_command s SERVICE_EXEC_START of
        None \<Rightarrow> None
      | Some c \<Rightarrow>
          if command_next s c \<noteq> None \<and> sv_type s \<noteq> SERVICE_ONESHOT then None
          else
            let s1 = (if sv_type s = SERVICE_FORKING then service_unwatch_control_pid s
                      else service_unwatch_main_pid s);
                s2 = (if sv_type s = SERVICE_FORKING
                      then s1\<lparr>sv_control_command_id := Some SERVICE_EXEC_START,
                              sv_control_command := Some c, sv_main_command := None\<rparr>
                      else s1\<lparr>sv_control_command_id := None, sv_control_command := None,
                              sv_main_command := Some c\<rparr>) in
            case service_spawn e c
                   (sv_type s = SERVICE_FORKING \<or> sv_type s = SERVICE_DBUS \<or>
                    sv_type s = SERVICE_NOTIFY)
                   True (sc_notify_access (sv_conf s) \<noteq> NOTIFY_NONE) s2 of
              (Inl r, s3) \<Rightarrow> Some (service_enter_signal e SERVICE_FINAL_SIGTERM False s3)
            | (Inr pid, s3) \<Rightarrow>
                if sv_type s = SERVICE_SIMPLE
                then Some (service_enter_start_post e (snd (service_set_main_pid e pid s3)))
                else if sv_type s = SERVICE_FORKING
                then Some (service_set_state e SERVICE_START (s3\<lparr>sv_control_pid := pid\<rparr>))
                else Some (service_set_state e SERVICE_START (snd (service_set_main_pid e pid s3))))"

definition service_enter_start_pre :: "exec_env \<Rightarrow> service \<Rightarrow> service option" where
  "service_enter_start_pre e s =
     (let s1 = service_unwatch_control_pid s;
          s2 = s1\<lparr>sv_control_command := first_command s1 SERVICE_EXEC_START_PRE\<rparr> in
      case sv_control_command s2 of
        None \<Rightarrow> service_enter_start e s2
      | Some c \<Rightarrow>
          case service_spawn e c True False False
                 (s2\<lparr>sv_control_command_id := Some SERVICE_EXEC_START_PRE\<rparr>) of
            (Inl r, s3) \<Rightarrow> Some (service_enter_dead e False True s3)
          | (Inr pid, s3) \<Rightarrow>
              Some (service_set_state e SERVICE_START_PRE (s3\<lparr>sv_control_pid := pid\<rparr>)))"

text \<open>
  When a job is pending, the timer is armed again, and then the service is taken
  to the dead state nevertheless, which disarms it.
\<close>

definition service_enter_restart :: "exec_env \<Rightarrow> service \<Rightarrow> service" where
  "service_enter_restart e s =
     (case (if e_has_job e (x_log s) then unit_watch_timer e (sc_restart_usec (sv_conf s)) s
            else (None, s)) of
        (Some r, s1) \<Rightarrow> service_enter_dead e False False s1
      | (None, s1) \<Rightarrow>
          let s2 = service_enter_dead e True False s1;
              r = e_add_job e (x_log s2);
              s3 = act (Add_Start_Job r) s2 in
          if r \<noteq> None then service_enter_dead e False False s3 else s3)"

definition service_enter_reload :: "exec_env \<Rightarrow> service \<Rightarrow> service" where
  "service_enter_reload e s =
     (let s1 = service_unwatch_control_pid s;
          s2 = s1\<lparr>sv_control_command := first_command s1 SERVICE_EXEC_RELOAD\<rparr> in
      case sv_control_command s2 of
        None \<Rightarrow> service_enter_running e True s2
      | Some c \<Rightarrow>
          case service_spawn e c True False False
                 (s2\<lparr>sv_control_command_id := Some SERVICE_EXEC_RELOAD\<rparr>) of
            (Inl r, s3) \<Rightarrow> service_enter_running e True (s3\<lparr>sv_reload_failure := True\<rparr>)
          | (Inr pid, s3) \<Rightarrow> service_set_state e SERVICE_RELOAD (s3\<lparr>sv_control_pid := pid\<rparr>))"

definition service_run_next_control :: "exec_env \<Rightarrow> bool \<Rightarrow> service \<Rightarrow> service option" where
  "service_run_next_control e success s =
     (case sv_control_command s of
        None \<Rightarrow> None
      | Some c \<Rightarrow>
          case command_next s c of
            None \<Rightarrow> None
          | Some c' \<Rightarrow>
              if sv_control_command_id s = Some SERVICE_EXEC_START then None
              else
                let s1 = service_unwatch_control_pid
                           ((fail_unless success s)\<lparr>sv_control_command := Some c'\<rparr>) in
                case service_spawn e c' True False False s1 of
                  (Inr pid, s2) \<Rightarrow> Some (s2\<lparr>sv_control_pid := pid\<rparr>)
                | (Inl r, s2) \<Rightarrow>
                    Some (if sv_state s2 = SERVICE_START_PRE
                          then service_enter_signal e SERVICE_FINAL_SIGTERM False s2
                          else if sv_state s2 = SERVICE_STOP
                          then service_enter_signal e SERVICE_STOP_SIGTERM False s2
                          else if sv_state s2 = SERVICE_STOP_POST
                          then service_enter_dead e False True s2
                          else if sv_state s2 = SERVICE_RELOAD
                          then service_enter_running e True (s2\<lparr>sv_reload_failure := True\<rparr>)
                          else service_enter_stop e False s2))"

definition service_run_next_main :: "exec_env \<Rightarrow> bool \<Rightarrow> service \<Rightarrow> service option" where
  "service_run_next_main e success s =
     (case sv_main_command s of
        None \<Rightarrow> None
      | Some c \<Rightarrow>
          case command_next s c of
            None \<Rightarrow> None
          | Some c' \<Rightarrow>
              if sv_type s \<noteq> SERVICE_ONESHOT then None
              else
                let s1 = service_unwatch_main_pid
                           ((fail_unless success s)\<lparr>sv_main_command := Some c'\<rparr>) in
                case service_spawn e c' False True (sc_notify_access (sv_conf s) \<noteq> NOTIFY_NONE) s1 of
                  (Inr pid, s2) \<Rightarrow> Some (snd (service_set_main_pid e pid s2))
                | (Inl r, s2) \<Rightarrow> Some (service_enter_stop e False s2))"

subsection \<open>Requests\<close>

definition service_start :: "exec_env \<Rightarrow> service \<Rightarrow> (errno option \<times> service) option" where
  "service_start e s =
     (if sv_state s \<in> {SERVICE_STOP, SERVICE_STOP_SIGTERM, SERVICE_STOP_SIGKILL, SERVICE_STOP_POST,
                       SERVICE_FINAL_SIGTERM, SERVICE_FINAL_SIGKILL}
      then Some (Some EAGAIN, s)
      else if sv_state s \<in> {SERVICE_START_PRE, SERVICE_START, SERVICE_START_POST}
      then Some (None, s)
      else if sv_state s \<notin> {SERVICE_DEAD, SERVICE_FAILED, SERVICE_AUTO_RESTART} then None
      else do {
        (ok, rl) \<leftarrow> ratelimit_test (snd (e_now e (x_log s))) (sv_ratelimit s);
        if \<not> ok then Some (Some ECANCELED, s\<lparr>sv_ratelimit := rl\<rparr>)
        else do {
          s' \<leftarrow> service_enter_start_pre e
                  (s\<lparr>sv_ratelimit := rl, sv_failure := False, sv_main_pid_known := False,
                     sv_main_pid_alien := False, sv_forbid_restart := False\<rparr>);
          Some (None, s') } })"

definition service_stop :: "exec_env \<Rightarrow> service \<Rightarrow> (errno option \<times> service) option" where
  "service_stop e s =
     (let s1 = s\<lparr>sv_forbid_restart := True\<rparr> in
      if sv_state s1 \<in> {SERVICE_STOP, SERVICE_STOP_SIGTERM, SERVICE_STOP_SIGKILL,
                        SERVICE_STOP_POST, SERVICE_FINAL_SIGTERM, SERVICE_FINAL_SIGKILL}
      then Some (None, s1)
      else if sv_state s1 = SERVICE_AUTO_RESTART
      then Some (None, service_set_state e SERVICE_DEAD s1)
      else if sv_state s1 \<in> {SERVICE_START_PRE, SERVICE_START, SERVICE_START_POST, SERVICE_RELOAD}
      then Some (None, service_enter_signal e SERVICE_STOP_SIGTERM True s1)
      else if sv_state s1 \<notin> {SERVICE_RUNNING, SERVICE_EXITED} then None
      else Some (None, service_enter_stop e True s1))"

definition service_reload :: "exec_env \<Rightarrow> service \<Rightarrow> (errno option \<times> service) option" where
  "service_reload e s =
     (if sv_state s \<notin> {SERVICE_RUNNING, SERVICE_EXITED} then None
      else Some (None, service_enter_reload e s))"

definition service_can_reload :: "service \<Rightarrow> bool" where
  "service_can_reload s = (commands s SERVICE_EXEC_RELOAD \<noteq> [])"

definition service_reset_failed :: "exec_env \<Rightarrow> service \<Rightarrow> service" where
  "service_reset_failed e s =
     (if sv_state s = SERVICE_FAILED then service_set_state e SERVICE_DEAD s else s)
       \<lparr>sv_failure := False\<rparr>"

definition service_set_socket_fd :: "int \<Rightarrow> nat \<Rightarrow> service \<Rightarrow> (errno option \<times> service) option" where
  "service_set_socket_fd fd sock s =
     (if fd < 0 then None
      else if sc_load_state (sv_conf s) \<noteq> UNIT_LOADED then Some (Some EINVAL, s)
      else if sv_socket_fd s \<ge> 0 then Some (Some EBUSY, s)
      else if sv_state s \<noteq> SERVICE_DEAD then Some (Some EAGAIN, s)
      else Some (None, s\<lparr>sv_socket_fd := fd, sv_got_socket_fd := True, sv_accept_socket := Some sock\<rparr>))"

end
