(* ===== verification/Service_Events.thy ===== *)
theory Service_Events
  imports Service
begin

section \<open>The events of a service: exits, timeouts, empty control groups, messages (service.c)\<close>

text \<open>
  The handlers the manager's event loop calls, and \<open>service_dispatch\<close>, which puts them and the
  requests behind the guards of their callers (\<open>unit_start\<close>, \<open>unit_stop\<close>, \<open>unit_reload\<close> of \<open>unit.c\<close>).
\<close>

subsection \<open>A process has exited\<close>

definition main_exited :: "exec_env \<Rightarrow> int \<Rightarrow> int \<Rightarrow> int \<Rightarrow> service \<Rightarrow> service" where
  "main_exited e pid code status s =
     (let st = exec_status_exit (e_now e (x_log s)) pid code status (sv_main_exec_status s);
          s1 = s\<lparr>sv_main_pid := 0, sv_main_exec_status := st\<rparr> in
      case sv_main_command s1 of
        None \<Rightarrow> s1
      | Some c \<Rightarrow> s1\<lparr>sv_command_status := (sv_command_status s1)(c := st)\<rparr>)"

definition command_success :: "service \<Rightarrow> command_ptr option \<Rightarrow> bool \<Rightarrow> bool" where
  "command_success s c success =
     (case c of None \<Rightarrow> success | Some c \<Rightarrow> c_ignore (the_command s c) \<or> success)"

definition has_next :: "service \<Rightarrow> command_ptr option \<Rightarrow> bool" where
  "has_next s c = (case c of None \<Rightarrow> False | Some c \<Rightarrow> command_next s c \<noteq> None)"

text \<open>The \<open>switch\<close> after the last main command.\<close>

definition main_gone :: "exec_env \<Rightarrow> bool \<Rightarrow> service \<Rightarrow> service option" where
  "main_gone e success s =
     (case sv_state s of
        SERVICE_START_POST \<Rightarrow> Some s
      | SERVICE_RELOAD \<Rightarrow> Some s
      | SERVICE_STOP \<Rightarrow> Some s
      | SERVICE_START \<Rightarrow>
          if sv_type s = SERVICE_ONESHOT then
            Some (if success then service_enter_start_post e s
                  else service_enter_signal e SERVICE_FINAL_SIGTERM False s)
          else if sv_type s = SERVICE_DBUS \<or> sv_type s = SERVICE_NOTIFY
          then Some (service_enter_running e success s)
          else None
      | SERVICE_RUNNING \<Rightarrow> Some (service_enter_running e success s)
      | SERVICE_STOP_SIGTERM \<Rightarrow>
          Some (if \<not> control_pid_good s then service_enter_stop_post e success s else s)
      | SERVICE_STOP_SIGKILL \<Rightarrow>
          Some (if \<not> control_pid_good s then service_enter_stop_post e success s else s)
      | _ \<Rightarrow> None)"

definition service_main_exit ::
    "exec_env \<Rightarrow> int \<Rightarrow> int \<Rightarrow> int \<Rightarrow> bool \<Rightarrow> service \<Rightarrow> service option" where
  "service_main_exit e pid code status success s =
     (let s1 = main_exited e pid code status s;
          success = command_success s1 (sv_main_command s1) success;
          s2 = s1\<lparr>sv_failure := sv_failure s1 \<or> \<not> success\<rparr> in
      if has_next s2 (sv_main_command s2) \<and> success then service_run_next_main e success s2
      else main_gone e success (s2\<lparr>sv_main_command := None\<rparr>))"

text \<open>The \<open>switch\<close> after the last control command.\<close>

definition try_main_pid :: "exec_env \<Rightarrow> service \<Rightarrow> service option" where
  "try_main_pid e s =
     map_option snd (service_search_main_pid e (snd (service_load_pid_file e s)))"

definition control_gone :: "exec_env \<Rightarrow> bool \<Rightarrow> service \<Rightarrow> service option" where
  "control_gone e success s =
     (case sv_state s of
        SERVICE_START_PRE \<Rightarrow>
          if success then service_enter_start e s
          else Some (service_enter_signal e SERVICE_FINAL_SIGTERM False s)
      | SERVICE_START \<Rightarrow>
          if sv_type s \<noteq> SERVICE_FORKING then None
          else if success then do {
            s' \<leftarrow> try_main_pid e s;
            Some (service_enter_start_post e s') }
          else Some (service_enter_signal e SERVICE_FINAL_SIGTERM False s)
      | SERVICE_START_POST \<Rightarrow> do {
            s' \<leftarrow> (if success then try_main_pid e s else Some s);
            Some (service_enter_running e True (s'\<lparr>sv_reload_failure := \<not> success\<rparr>)) }
      | SERVICE_RELOAD \<Rightarrow> do {
            s' \<leftarrow> (if success then try_main_pid e s else Some s);
            Some (service_enter_running e True (s'\<lparr>sv_reload_failure := \<not> success\<rparr>)) }
      | SERVICE_STOP \<Rightarrow> Some (service_enter_signal e SERVICE_STOP_SIGTERM success s)
      | SERVICE_STOP_SIGTERM \<Rightarrow>
          Some (if main_pid_good e s \<le> 0 then service_enter_stop_post e success s else s)
      | SERVICE_STOP_SIGKILL \<Rightarrow>
          Some (if main_pid_good e s \<le> 0 then service_enter_stop_post e success s else s)
      | SERVICE_STOP_POST \<Rightarrow> Some (service_enter_dead e success True s)
      | SERVICE_FINAL_SIGTERM \<Rightarrow> Some (service_enter_dead e success True s)
      | SERVICE_FINAL_SIGKILL \<Rightarrow> Some (service_enter_dead e success True s)
      | _ \<Rightarrow> None)"

definition control_exited :: "exec_env \<Rightarrow> int \<Rightarrow> int \<Rightarrow> int \<Rightarrow> service \<Rightarrow> service" where
  "control_exited e pid code status s =
     (let s1 = s\<lparr>sv_control_pid := 0\<rparr> in
      case sv_control_command s1 of
        None \<Rightarrow> s1
      | Some c \<Rightarrow>
          s1\<lparr>sv_command_status := (sv_command_status s1)
               (c := exec_status_exit (e_now e (x_log s1)) pid code status (sv_command_status s1 c))\<rparr>)"

definition service_control_exit ::
    "exec_env \<Rightarrow> int \<Rightarrow> int \<Rightarrow> int \<Rightarrow> bool \<Rightarrow> service \<Rightarrow> service option" where
  "service_control_exit e pid code status success s =
     (let s1 = control_exited e pid code status s;
          success = command_success s1 (sv_control_command s1) success;
          s2 = s1\<lparr>sv_failure := sv_failure s1 \<or> \<not> success\<rparr> in
      if has_next s2 (sv_control_command s2) \<and> success then service_run_next_control e success s2
      else control_gone e success (s2\<lparr>sv_control_command := None, sv_control_command_id := None\<rparr>))"

definition service_sigchld_event ::
    "exec_env \<Rightarrow> int \<Rightarrow> int \<Rightarrow> int \<Rightarrow> service \<Rightarrow> service option" where
  "service_sigchld_event e pid code status s =
     (let success = (if sc_fragment_path (sv_conf s) then is_clean_exit code status
                     else is_clean_exit_lsb code status) in
      if pid < 0 then None
      else if sv_main_pid s = pid then
        case service_load_pid_file e s of
          (None, s1) \<Rightarrow> Some s1
        | (Some _, s1) \<Rightarrow> map_option (act Dbus_Queue) (service_main_exit e pid code status success s1)
      else if sv_control_pid s = pid
      then map_option (act Dbus_Queue) (service_control_exit e pid code status success s)
      else Some (act Dbus_Queue s))"

subsection \<open>Timeouts and empty control groups\<close>

definition service_timer_event :: "exec_env \<Rightarrow> service \<Rightarrow> service option" where
  "service_timer_event e s =
     (case sv_state s of
        SERVICE_START_PRE \<Rightarrow> Some (service_enter_signal e SERVICE_FINAL_SIGTERM False s)
      | SERVICE_START \<Rightarrow> Some (service_enter_signal e SERVICE_FINAL_SIGTERM False s)
      | SERVICE_START_POST \<Rightarrow> Some (service_enter_stop e False s)
      | SERVICE_RELOAD \<Rightarrow> Some (service_enter_running e True (s\<lparr>sv_reload_failure := True\<rparr>))
      | SERVICE_STOP \<Rightarrow> Some (service_enter_signal e SERVICE_STOP_SIGTERM False s)
      | SERVICE_STOP_SIGTERM \<Rightarrow>
          Some (if sc_send_sigkill (sv_conf s) then service_enter_signal e SERVICE_STOP_SIGKILL False s
                else service_enter_stop_post e False s)
      | SERVICE_STOP_SIGKILL \<Rightarrow> Some (service_enter_stop_post e False s)
      | SERVICE_STOP_POST \<Rightarrow> Some (service_enter_signal e SERVICE_FINAL_SIGTERM False s)
      | SERVICE_FINAL_SIGTERM \<Rightarrow>
          Some (if sc_send_sigkill (sv_conf s) then service_enter_signal e SERVICE_FINAL_SIGKILL False s
                else service_enter_dead e False True s)
      | SERVICE_FINAL_SIGKILL \<Rightarrow> Some (service_enter_dead e False True s)
      | SERVICE_AUTO_RESTART \<Rightarrow> Some (service_enter_restart e s)
      | _ \<Rightarrow> None)"

definition service_cgroup_notify_event :: "exec_env \<Rightarrow> service \<Rightarrow> service" where
  "service_cgroup_notify_event e s =
     (case sv_state s of
        SERVICE_RUNNING \<Rightarrow> service_enter_running e True s
      | SERVICE_STOP_SIGTERM \<Rightarrow>
          if main_pid_good e s \<le> 0 \<and> \<not> control_pid_good s then service_enter_stop_post e True s else s
      | SERVICE_STOP_SIGKILL \<Rightarrow>
          if main_pid_good e s \<le> 0 \<and> \<not> control_pid_good s then service_enter_stop_post e True s else s
      | SERVICE_FINAL_SIGTERM \<Rightarrow>
          if main_pid_good e s \<le> 0 \<and> \<not> control_pid_good s then service_enter_dead e True True s else s
      | SERVICE_FINAL_SIGKILL \<Rightarrow>
          if main_pid_good e s \<le> 0 \<and> \<not> control_pid_good s then service_enter_dead e True True s else s
      | _ \<Rightarrow> s)"

subsection \<open>Messages\<close>

definition may_set_main_pid :: "service_state \<Rightarrow> bool" where
  "may_set_main_pid st =
     (st \<in> {SERVICE_START, SERVICE_START_POST, SERVICE_RUNNING, SERVICE_RELOAD})"

definition notify_main_pid :: "exec_env \<Rightarrow> strv \<Rightarrow> service \<Rightarrow> service" where
  "notify_main_pid e tags s =
     (case strv_find_prefix tags ''MAINPID='' of
        None \<Rightarrow> s
      | Some t \<Rightarrow>
          if may_set_main_pid (sv_state s) then
            case parse_pid (drop 8 t) of
              Inl _ \<Rightarrow> s
            | Inr pid \<Rightarrow> snd (service_set_main_pid e pid s)
          else s)"

definition notify_ready :: "exec_env \<Rightarrow> strv \<Rightarrow> service \<Rightarrow> service" where
  "notify_ready e tags s =
     (if sv_type s = SERVICE_NOTIFY \<and> sv_state s = SERVICE_START \<and> strv_find tags ''READY=1'' \<noteq> None
      then service_enter_start_post e s else s)"

definition service_notify_message :: "exec_env \<Rightarrow> int \<Rightarrow> strv \<Rightarrow> service \<Rightarrow> service" where
  "service_notify_message e pid tags s =
     (if sc_notify_access (sv_conf s) = NOTIFY_NONE then s
      else if sc_notify_access (sv_conf s) = NOTIFY_MAIN \<and> pid \<noteq> sv_main_pid s then s
      else
        let s1 = notify_ready e tags (notify_main_pid e tags s) in
        case strv_find_prefix tags ''STATUS='' of
          None \<Rightarrow> act Dbus_Queue s1
        | Some t \<Rightarrow>
            if drop 7 t = [] then act Dbus_Queue (s1\<lparr>sv_status_text := None\<rparr>)
            else if e_strdup e (x_log s1) then act Dbus_Queue (s1\<lparr>sv_status_text := Some (drop 7 t)\<rparr>)
            else s1)"

definition service_bus_name_owner_change ::
    "exec_env \<Rightarrow> string \<Rightarrow> string option \<Rightarrow> string option \<Rightarrow> service \<Rightarrow> service option" where
  "service_bus_name_owner_change e name old_owner new_owner s =
     (if sc_bus_name (sv_conf s) \<noteq> Some name \<or> (old_owner = None \<and> new_owner = None) then None
      else
        let s1 = s\<lparr>sv_bus_name_good := (new_owner \<noteq> None)\<rparr> in
        if sv_type s1 = SERVICE_DBUS then
          Some (if sv_state s1 = SERVICE_RUNNING then service_enter_running e True s1
                else if sv_state s1 = SERVICE_START \<and> new_owner \<noteq> None
                then service_enter_start_post e s1
                else s1)
        else if new_owner \<noteq> None \<and> sv_main_pid s1 \<le> 0 \<and> may_set_main_pid (sv_state s1)
        then Some (act (Query_Bus_Pid name) s1)
        else Some s1)"

definition service_bus_query_pid_done :: "exec_env \<Rightarrow> int \<Rightarrow> service \<Rightarrow> service" where
  "service_bus_query_pid_done e pid s =
     (if sv_main_pid s \<le> 0 \<and> may_set_main_pid (sv_state s)
      then snd (service_set_main_pid e pid s) else s)"

subsection \<open>All events\<close>

datatype service_event =
    Start | Stop | Reload | Reset_Failed | Set_Socket_Fd int nat
  | Sigchld int int int | Timer | Cgroup_Empty
  | Notify_Message int strv | Bus_Owner string "string option" "string option" | Bus_Pid int

text \<open>
  When the callers hand an event to the service: the guards of \<open>unit_start\<close>, \<open>unit_stop\<close> and
  \<open>unit_reload\<close> on its active state, a pid that \<open>waitid\<close> can report, a timer that is armed, a change of
  the watched bus name.
\<close>

definition enabled :: "service_event \<Rightarrow> service \<Rightarrow> bool" where
  "enabled ev s =
     (case ev of
        Start \<Rightarrow> sc_load_state (sv_conf s) = UNIT_LOADED \<and>
                 \<not> UNIT_IS_ACTIVE_OR_RELOADING (service_active_state s)
      | Stop \<Rightarrow> \<not> UNIT_IS_INACTIVE_OR_FAILED (service_active_state s)
      | Reload \<Rightarrow> service_can_reload s \<and> service_active_state s = UNIT_ACTIVE
      | Reset_Failed \<Rightarrow> True
      | Set_Socket_Fd fd sock \<Rightarrow> fd \<ge> 0
      | Sigchld pid code status \<Rightarrow> pid > 0
      | Timer \<Rightarrow> x_timer s = Timer_Armed
      | Cgroup_Empty \<Rightarrow> True
      | Notify_Message pid tags \<Rightarrow> True
      | Bus_Owner name old new \<Rightarrow> sc_bus_name (sv_conf s) = Some name \<and> (old \<noteq> None \<or> new \<noteq> None)
      | Bus_Pid pid \<Rightarrow> sc_bus_name (sv_conf s) \<noteq> None)"

definition service_dispatch :: "exec_env \<Rightarrow> service_event \<Rightarrow> service \<Rightarrow> service option" where
  "service_dispatch e ev s =
     (case ev of
        Start \<Rightarrow> map_option snd (service_start e s)
      | Stop \<Rightarrow> map_option snd (service_stop e s)
      | Reload \<Rightarrow> map_option snd (service_reload e s)
      | Reset_Failed \<Rightarrow> Some (service_reset_failed e s)
      | Set_Socket_Fd fd sock \<Rightarrow> map_option snd (service_set_socket_fd fd sock s)
      | Sigchld pid code status \<Rightarrow> service_sigchld_event e pid code status s
      | Timer \<Rightarrow> service_timer_event e (s\<lparr>x_timer := Timer_Elapsed\<rparr>)
      | Cgroup_Empty \<Rightarrow> Some (service_cgroup_notify_event e s)
      | Notify_Message pid tags \<Rightarrow> Some (service_notify_message e pid tags s)
      | Bus_Owner name old new \<Rightarrow> service_bus_name_owner_change e name old new s
      | Bus_Pid pid \<Rightarrow> Some (service_bus_query_pid_done e pid s))"

text \<open>One step of a service: an event that its callers hand over, answered by some environment.\<close>

inductive service_step :: "service_event \<Rightarrow> service \<Rightarrow> service \<Rightarrow> bool" where
  "env_ok e \<Longrightarrow> enabled ev s \<Longrightarrow> service_dispatch e ev s = Some s' \<Longrightarrow> service_step ev s s'"

inductive service_reachable :: "service_config \<Rightarrow> service \<Rightarrow> bool" for c where
  init: "service_reachable c (service_init c)"
| step: "service_reachable c s \<Longrightarrow> service_step ev s s' \<Longrightarrow> service_reachable c s'"

end
