(* ===== verification/Service_Inv.thy ===== *)
theory Service_Inv
  imports Service_Events
begin

section \<open>The calls a service makes\<close>

text \<open>
  How the calls that a service makes change it: those that touch nothing but the timer and the log
  (\<open>same\<close>), and \<open>service_set_state\<close> field by field.
\<close>

subsection \<open>Calls that change nothing but the timer and the log\<close>

definition same :: "service \<Rightarrow> service \<Rightarrow> bool" where
  "same s s' \<longleftrightarrow>
     s'\<lparr>x_timer := Timer_Off, x_log := []\<rparr> = s\<lparr>x_timer := Timer_Off, x_log := []\<rparr>"

lemma same_refl [simp]: "same s s"
  by (simp add: same_def)

lemma same_trans: "same s s' \<Longrightarrow> same s' s'' \<Longrightarrow> same s s''"
  by (simp add: same_def)

lemma same_fields:
  assumes "same s s'"
  shows "sv_conf s' = sv_conf s" "sv_state s' = sv_state s"
    "sv_deserialized_state s' = sv_deserialized_state s"
    "sv_main_exec_status s' = sv_main_exec_status s"
    "sv_command_status s' = sv_command_status s"
    "sv_control_command s' = sv_control_command s" "sv_main_command s' = sv_main_command s"
    "sv_control_command_id s' = sv_control_command_id s"
    "sv_main_pid s' = sv_main_pid s" "sv_control_pid s' = sv_control_pid s"
    "sv_socket_fd s' = sv_socket_fd s" "sv_failure s' = sv_failure s"
    "sv_reload_failure s' = sv_reload_failure s" "sv_main_pid_known s' = sv_main_pid_known s"
    "sv_main_pid_alien s' = sv_main_pid_alien s" "sv_bus_name_good s' = sv_bus_name_good s"
    "sv_forbid_restart s' = sv_forbid_restart s" "sv_got_socket_fd s' = sv_got_socket_fd s"
    "sv_status_text s' = sv_status_text s" "sv_ratelimit s' = sv_ratelimit s"
    "sv_accept_socket s' = sv_accept_socket s"
  using assms by (cases s; cases s'; simp add: same_def)+

lemma same_act: "same s (act a s)"
  by (simp add: same_def act_def)

lemma same_watch_timer: "same s (snd (unit_watch_timer e d s))"
  by (simp add: unit_watch_timer_def act_def same_def split: option.splits)

lemma same_unwatch_timer: "same s (unit_unwatch_timer s)"
  by (simp add: unit_unwatch_timer_def act_def same_def)

lemma same_watch_pid: "same s (snd (unit_watch_pid e pid s))"
  by (simp add: unit_watch_pid_def same_act Let_def)

lemma same_sys_kill: "same s (snd (sys_kill e pid sig s))"
  by (simp add: sys_kill_def same_act Let_def)

lemma same_kill_and_sigcont: "same s (snd (kill_and_sigcont e pid sig s))"
  using same_sys_kill [of s e pid sig] same_trans same_sys_kill
  by (fastforce simp: kill_and_sigcont_def split: prod.splits option.splits)

lemma same_signal_main: "same s (snd (signal_main e sig s))"
  using same_kill_and_sigcont [of s e "sv_main_pid s" sig]
  by (auto simp: signal_main_def split: prod.splits)

lemma same_signal_control: "same s (snd (signal_control e sig w s))"
  using same_kill_and_sigcont [of s e "sv_control_pid s" sig]
  by (auto simp: signal_control_def split: prod.splits)

lemma same_signal_processes: "same s (snd (snd (signal_processes e st s)))"
proof -
  let ?sig = "if st = SERVICE_STOP_SIGTERM \<or> st = SERVICE_FINAL_SIGTERM
              then sc_kill_signal (sv_conf s) else SIGKILL"
  obtain w1 s1 where 1: "signal_main e ?sig s = (w1, s1)" by fastforce
  obtain w2 s2 where 2: "signal_control e ?sig w1 s1 = (w2, s2)" by fastforce
  have "same s s2"
    using same_trans [OF same_signal_main [of s e ?sig] ] same_signal_control [of s1 e ?sig w1] 1 2
    by simp
  then show ?thesis
    using 1 2 same_trans [OF \<open>same s s2\<close> same_act]
    by (simp add: signal_processes_def Let_def split: option.splits)
qed

lemma same_spawn_prepare: "same s (snd (service_spawn_prepare e t f s))"
proof -
  define s1 where "s1 = (if (f \<or> sc_std_socket (sv_conf s)) \<and> sv_socket_fd s < 0
                         then act (Collect_Fds (e_fds e (x_log s))) s else s)"
  have 1: "same s s1" by (simp add: s1_def same_act)
  define rs2 where "rs2 = (if t \<and> sv_timeout s1 \<noteq> 0 then unit_watch_timer e (sv_timeout s1) s1
                           else (None, unit_unwatch_timer s1))"
  have 2: "same s (snd rs2)"
    using same_trans [OF 1] by (simp add: rs2_def same_watch_timer same_unwatch_timer)
  then show ?thesis
    using 1 same_trans [OF 2 same_act]
    by (auto simp: service_spawn_prepare_def s1_def rs2_def Let_def split: prod.splits option.splits
          if_splits)
qed

lemma same_spawn: "same s (snd (service_spawn e c t f n s))"
proof -
  obtain r s1 where 1: "service_spawn_prepare e t f s = (r, s1)" by fastforce
  have s1: "same s s1" using same_spawn_prepare [of s e t f] 1 by simp
  let ?p = "e_spawn e (x_log s1) (the_command s1 c)"
  define s2 where "s2 = act (Exec_Spawn (the_command s1 c)
      (if sv_main_pid s1 > 0 then Some (sv_main_pid s1) else None) n ?p) s1"
  have s2: "same s s2" using same_trans [OF s1 same_act] by (simp add: s2_def)
  show ?thesis
  proof (cases r)
    case (Some err)
    then show ?thesis
      using s1 same_trans [OF s1 same_unwatch_timer] by (simp add: service_spawn_def 1)
  next
    case None
    show ?thesis
    proof (cases ?p)
      case (Inl err)
      then show ?thesis
        using s2 same_trans [OF s2 same_unwatch_timer] None
        by (simp add: service_spawn_def 1 s2_def Let_def)
    next
      case (Inr pid)
      obtain w s3 where 3: "unit_watch_pid e pid s2 = (w, s3)" by fastforce
      then have s3: "same s s3"
        using same_trans [OF s2 same_watch_pid [of s2 e pid]] by simp
      have "service_spawn e c t f n s =
          (case w of Some r \<Rightarrow> (Inl r, if t then unit_unwatch_timer s3 else s3) | None \<Rightarrow> (Inr pid, s3))"
        using None Inr 3 by (simp add: service_spawn_def 1 s2_def Let_def split: option.splits)
      then show ?thesis
        using s3 same_trans [OF s3 same_unwatch_timer] by (simp split: option.splits)
    qed
  qed
qed

subsection \<open>The timer\<close>

lemma watch_timer_armed: "unit_watch_timer e d s = (None, s') \<Longrightarrow> x_timer s' = Timer_Armed"
  by (auto simp: unit_watch_timer_def act_def split: option.splits)

lemma timer_act [simp]: "x_timer (act a s) = x_timer s"
  by (simp add: act_def)

lemma timer_watch_pid [simp]: "x_timer (snd (unit_watch_pid e pid s)) = x_timer s"
  by (simp add: unit_watch_pid_def Let_def)

lemma timer_sys_kill [simp]: "x_timer (snd (sys_kill e pid sig s)) = x_timer s"
  by (simp add: sys_kill_def Let_def)

lemma spawn_prepare_armed:
  "service_spawn_prepare e True f s = (None, s') \<Longrightarrow> sv_timeout s \<noteq> 0 \<Longrightarrow> x_timer s' = Timer_Armed"
  using watch_timer_armed [of e "sv_timeout s"]
  by (auto simp: service_spawn_prepare_def Let_def same_fields [OF same_act]
        split: prod.splits option.splits if_splits)

lemma spawn_armed:
  assumes "service_spawn e c True f n s = (Inr pid, s')" "sv_timeout s \<noteq> 0"
  shows "x_timer s' = Timer_Armed"
proof -
  obtain r s1 where 1: "service_spawn_prepare e True f s = (r, s1)" by fastforce
  with assms have "r = None" by (auto simp: service_spawn_def split: option.splits)
  with 1 assms have "x_timer s1 = Timer_Armed" using spawn_prepare_armed by blast
  with assms 1 \<open>r = None\<close> show ?thesis
    by (auto simp: service_spawn_def Let_def unit_watch_pid_def split: sum.splits option.splits)
qed

lemma spawn_pid:
  assumes "service_spawn e c t f n s = (Inr pid, s')" "env_ok e"
  shows "pid > 1" "pid \<noteq> e_getpid e"
  using assms
  by (auto simp: service_spawn_def env_ok_def Let_def unit_watch_pid_def
        split: prod.splits option.splits sum.splits if_splits)

lemma spawn_same: "service_spawn e c t f n s = (r, s') \<Longrightarrow> same s s'"
  using same_spawn [of s e c t f n] by simp

subsection \<open>Changing the state\<close>

lemma unwatch_main_kept [simp]:
  "sv_conf (service_unwatch_main_pid s) = sv_conf s"
  "sv_state (service_unwatch_main_pid s) = sv_state s"
  "sv_failure (service_unwatch_main_pid s) = sv_failure s"
  "sv_main_pid_known (service_unwatch_main_pid s) = sv_main_pid_known s"
  "sv_main_pid_alien (service_unwatch_main_pid s) = sv_main_pid_alien s"
  "sv_forbid_restart (service_unwatch_main_pid s) = sv_forbid_restart s"
  "sv_bus_name_good (service_unwatch_main_pid s) = sv_bus_name_good s"
  "sv_ratelimit (service_unwatch_main_pid s) = sv_ratelimit s"
  "sv_main_exec_status (service_unwatch_main_pid s) = sv_main_exec_status s"
  "sv_status_text (service_unwatch_main_pid s) = sv_status_text s"
  "sv_command_status (service_unwatch_main_pid s) = sv_command_status s"
  "sv_got_socket_fd (service_unwatch_main_pid s) = sv_got_socket_fd s"
  "sv_deserialized_state (service_unwatch_main_pid s) = sv_deserialized_state s"
  "x_timer (service_unwatch_main_pid s) = x_timer s"
  "sv_control_pid (service_unwatch_main_pid s) = sv_control_pid s"
  "sv_control_command (service_unwatch_main_pid s) = sv_control_command s"
  "sv_control_command_id (service_unwatch_main_pid s) = sv_control_command_id s"
  "sv_main_command (service_unwatch_main_pid s) = sv_main_command s"
  "sv_reload_failure (service_unwatch_main_pid s) = sv_reload_failure s"
  "sv_socket_fd (service_unwatch_main_pid s) = sv_socket_fd s"
  "sv_accept_socket (service_unwatch_main_pid s) = sv_accept_socket s"
  by (simp_all add: service_unwatch_main_pid_def unit_unwatch_pid_def act_def)

lemma unwatch_control_kept [simp]:
  "sv_conf (service_unwatch_control_pid s) = sv_conf s"
  "sv_state (service_unwatch_control_pid s) = sv_state s"
  "sv_failure (service_unwatch_control_pid s) = sv_failure s"
  "sv_main_pid_known (service_unwatch_control_pid s) = sv_main_pid_known s"
  "sv_main_pid_alien (service_unwatch_control_pid s) = sv_main_pid_alien s"
  "sv_forbid_restart (service_unwatch_control_pid s) = sv_forbid_restart s"
  "sv_bus_name_good (service_unwatch_control_pid s) = sv_bus_name_good s"
  "sv_ratelimit (service_unwatch_control_pid s) = sv_ratelimit s"
  "sv_main_exec_status (service_unwatch_control_pid s) = sv_main_exec_status s"
  "sv_status_text (service_unwatch_control_pid s) = sv_status_text s"
  "sv_command_status (service_unwatch_control_pid s) = sv_command_status s"
  "sv_got_socket_fd (service_unwatch_control_pid s) = sv_got_socket_fd s"
  "sv_deserialized_state (service_unwatch_control_pid s) = sv_deserialized_state s"
  "x_timer (service_unwatch_control_pid s) = x_timer s"
  "sv_main_pid (service_unwatch_control_pid s) = sv_main_pid s"
  "sv_control_command (service_unwatch_control_pid s) = sv_control_command s"
  "sv_control_command_id (service_unwatch_control_pid s) = sv_control_command_id s"
  "sv_main_command (service_unwatch_control_pid s) = sv_main_command s"
  "sv_reload_failure (service_unwatch_control_pid s) = sv_reload_failure s"
  "sv_socket_fd (service_unwatch_control_pid s) = sv_socket_fd s"
  "sv_accept_socket (service_unwatch_control_pid s) = sv_accept_socket s"
  by (simp_all add: service_unwatch_control_pid_def unit_unwatch_pid_def act_def)

lemma unwatch_main_pid [simp]:
  "sv_main_pid (service_unwatch_main_pid s) = (if sv_main_pid s \<le> 0 then sv_main_pid s else 0)"
  by (simp add: service_unwatch_main_pid_def)

lemma unwatch_control_pid [simp]:
  "sv_control_pid (service_unwatch_control_pid s) = (if sv_control_pid s \<le> 0 then sv_control_pid s else 0)"
  by (simp add: service_unwatch_control_pid_def)

definition unref_socket :: "service \<Rightarrow> service" where
  "unref_socket s = service_connection_unref (service_close_socket_fd s)"

lemma unref_socket_kept [simp]:
  "sv_conf (unref_socket s) = sv_conf s"
  "sv_state (unref_socket s) = sv_state s"
  "sv_failure (unref_socket s) = sv_failure s"
  "sv_main_pid_known (unref_socket s) = sv_main_pid_known s"
  "sv_main_pid_alien (unref_socket s) = sv_main_pid_alien s"
  "sv_forbid_restart (unref_socket s) = sv_forbid_restart s"
  "sv_bus_name_good (unref_socket s) = sv_bus_name_good s"
  "sv_ratelimit (unref_socket s) = sv_ratelimit s"
  "sv_main_exec_status (unref_socket s) = sv_main_exec_status s"
  "sv_status_text (unref_socket s) = sv_status_text s"
  "sv_command_status (unref_socket s) = sv_command_status s"
  "sv_got_socket_fd (unref_socket s) = sv_got_socket_fd s"
  "sv_deserialized_state (unref_socket s) = sv_deserialized_state s"
  "sv_main_pid (unref_socket s) = sv_main_pid s"
  "sv_control_pid (unref_socket s) = sv_control_pid s"
  "sv_control_command (unref_socket s) = sv_control_command s"
  "sv_control_command_id (unref_socket s) = sv_control_command_id s"
  "sv_main_command (unref_socket s) = sv_main_command s"
  "x_timer (unref_socket s) = x_timer s"
  "sv_reload_failure (unref_socket s) = sv_reload_failure s"
  by (simp_all add: unref_socket_def service_connection_unref_def service_close_socket_fd_def act_def split: option.split)

lemma sockets_dead_kept [simp]:
  "sv_conf (service_notify_sockets_dead s) = sv_conf s"
  "sv_state (service_notify_sockets_dead s) = sv_state s"
  "sv_failure (service_notify_sockets_dead s) = sv_failure s"
  "sv_main_pid_known (service_notify_sockets_dead s) = sv_main_pid_known s"
  "sv_main_pid_alien (service_notify_sockets_dead s) = sv_main_pid_alien s"
  "sv_forbid_restart (service_notify_sockets_dead s) = sv_forbid_restart s"
  "sv_bus_name_good (service_notify_sockets_dead s) = sv_bus_name_good s"
  "sv_ratelimit (service_notify_sockets_dead s) = sv_ratelimit s"
  "sv_main_exec_status (service_notify_sockets_dead s) = sv_main_exec_status s"
  "sv_status_text (service_notify_sockets_dead s) = sv_status_text s"
  "sv_command_status (service_notify_sockets_dead s) = sv_command_status s"
  "sv_got_socket_fd (service_notify_sockets_dead s) = sv_got_socket_fd s"
  "sv_deserialized_state (service_notify_sockets_dead s) = sv_deserialized_state s"
  "sv_main_pid (service_notify_sockets_dead s) = sv_main_pid s"
  "sv_control_pid (service_notify_sockets_dead s) = sv_control_pid s"
  "sv_control_command (service_notify_sockets_dead s) = sv_control_command s"
  "sv_control_command_id (service_notify_sockets_dead s) = sv_control_command_id s"
  "sv_main_command (service_notify_sockets_dead s) = sv_main_command s"
  "x_timer (service_notify_sockets_dead s) = x_timer s"
  "sv_reload_failure (service_notify_sockets_dead s) = sv_reload_failure s"
  "sv_socket_fd (service_notify_sockets_dead s) = sv_socket_fd s"
  "sv_accept_socket (service_notify_sockets_dead s) = sv_accept_socket s"
  by (simp_all add: service_notify_sockets_dead_def act_def)

lemma act_kept [simp]:
  "sv_conf (act a s) = sv_conf s"
  "sv_state (act a s) = sv_state s"
  "sv_failure (act a s) = sv_failure s"
  "sv_main_pid_known (act a s) = sv_main_pid_known s"
  "sv_main_pid_alien (act a s) = sv_main_pid_alien s"
  "sv_forbid_restart (act a s) = sv_forbid_restart s"
  "sv_bus_name_good (act a s) = sv_bus_name_good s"
  "sv_ratelimit (act a s) = sv_ratelimit s"
  "sv_main_exec_status (act a s) = sv_main_exec_status s"
  "sv_status_text (act a s) = sv_status_text s"
  "sv_command_status (act a s) = sv_command_status s"
  "sv_got_socket_fd (act a s) = sv_got_socket_fd s"
  "sv_deserialized_state (act a s) = sv_deserialized_state s"
  "sv_main_pid (act a s) = sv_main_pid s"
  "sv_control_pid (act a s) = sv_control_pid s"
  "sv_control_command (act a s) = sv_control_command s"
  "sv_control_command_id (act a s) = sv_control_command_id s"
  "sv_main_command (act a s) = sv_main_command s"
  "sv_reload_failure (act a s) = sv_reload_failure s"
  "sv_socket_fd (act a s) = sv_socket_fd s"
  "sv_accept_socket (act a s) = sv_accept_socket s"
  by (simp_all add: act_def)

lemmas unwatch_timer_kept [simp] = same_fields [OF same_unwatch_timer]

lemma unwatch_timer_off [simp]: "x_timer (unit_unwatch_timer s) = Timer_Off"
  by (simp add: unit_unwatch_timer_def)

text \<open>The eight stages of \<open>service_set_state\<close>.\<close>

definition enter_state :: "service_state \<Rightarrow> service \<Rightarrow> service" where
  "enter_state st s = (if has_timer st then s\<lparr>sv_state := st\<rparr> else unit_unwatch_timer (s\<lparr>sv_state := st\<rparr>))"

definition drop_main :: "service_state \<Rightarrow> service \<Rightarrow> service" where
  "drop_main st s = (if has_main st then s else (service_unwatch_main_pid s)\<lparr>sv_main_command := None\<rparr>)"

definition drop_control :: "service_state \<Rightarrow> service \<Rightarrow> service" where
  "drop_control st s =
     (if has_control st then s
      else (service_unwatch_control_pid s)\<lparr>sv_control_command := None, sv_control_command_id := None\<rparr>)"

definition tell_state :: "exec_env \<Rightarrow> service_state \<Rightarrow> service_state \<Rightarrow> service \<Rightarrow> service" where
  "tell_state e old st s =
     (let s5 = (if is_down st then service_notify_sockets_dead s else s);
          s6 = (if \<not> keeps_socket st \<and> \<not> (st = SERVICE_DEAD \<and> e_has_job e (x_log s5))
                then unref_socket s5 else s5);
          s7 = (if st = SERVICE_EXITED \<and> \<not> e_reloading e then act Cgroup_Trim s6 else s6)
      in (act (Unit_Notify (service_state_translation_table old) (service_state_translation_table st)
                 (\<not> sv_reload_failure s7)) s7)\<lparr>sv_reload_failure := False\<rparr>)"

lemma set_state_stages:
  "service_set_state e st s =
     tell_state e (sv_state s) st (drop_control st (drop_main st (enter_state st s)))"
  unfolding service_set_state_def tell_state_def drop_control_def drop_main_def enter_state_def
    unref_socket_def Let_def ..

lemma tell_state_kept [simp]:
  "sv_conf (tell_state e old st s) = sv_conf s"
  "sv_state (tell_state e old st s) = sv_state s"
  "sv_failure (tell_state e old st s) = sv_failure s"
  "sv_main_pid_known (tell_state e old st s) = sv_main_pid_known s"
  "sv_main_pid_alien (tell_state e old st s) = sv_main_pid_alien s"
  "sv_forbid_restart (tell_state e old st s) = sv_forbid_restart s"
  "sv_bus_name_good (tell_state e old st s) = sv_bus_name_good s"
  "sv_ratelimit (tell_state e old st s) = sv_ratelimit s"
  "sv_main_exec_status (tell_state e old st s) = sv_main_exec_status s"
  "sv_status_text (tell_state e old st s) = sv_status_text s"
  "sv_command_status (tell_state e old st s) = sv_command_status s"
  "sv_got_socket_fd (tell_state e old st s) = sv_got_socket_fd s"
  "sv_deserialized_state (tell_state e old st s) = sv_deserialized_state s"
  "sv_main_pid (tell_state e old st s) = sv_main_pid s"
  "sv_control_pid (tell_state e old st s) = sv_control_pid s"
  "sv_control_command (tell_state e old st s) = sv_control_command s"
  "sv_control_command_id (tell_state e old st s) = sv_control_command_id s"
  "sv_main_command (tell_state e old st s) = sv_main_command s"
  "x_timer (tell_state e old st s) = x_timer s"
  by (simp_all add: tell_state_def Let_def)

lemma set_state_kept [simp]:
  "sv_state (service_set_state e st s) = st"
  "sv_conf (service_set_state e st s) = sv_conf s"
  "sv_failure (service_set_state e st s) = sv_failure s"
  "sv_main_pid_known (service_set_state e st s) = sv_main_pid_known s"
  "sv_main_pid_alien (service_set_state e st s) = sv_main_pid_alien s"
  "sv_forbid_restart (service_set_state e st s) = sv_forbid_restart s"
  "sv_bus_name_good (service_set_state e st s) = sv_bus_name_good s"
  "sv_ratelimit (service_set_state e st s) = sv_ratelimit s"
  "sv_main_exec_status (service_set_state e st s) = sv_main_exec_status s"
  "sv_status_text (service_set_state e st s) = sv_status_text s"
  "sv_command_status (service_set_state e st s) = sv_command_status s"
  "sv_got_socket_fd (service_set_state e st s) = sv_got_socket_fd s"
  "sv_deserialized_state (service_set_state e st s) = sv_deserialized_state s"
  by (simp_all add: set_state_stages enter_state_def drop_main_def drop_control_def)

lemma set_state_timer [simp]:
  "x_timer (service_set_state e st s) = (if has_timer st then x_timer s else Timer_Off)"
  by (simp_all add: set_state_stages enter_state_def drop_main_def drop_control_def)

lemma set_state_main [simp]:
  "sv_main_pid (service_set_state e st s) = (if has_main st \<or> sv_main_pid s \<le> 0 then sv_main_pid s else 0)"
  "sv_main_command (service_set_state e st s) = (if has_main st then sv_main_command s else None)"
  by (simp_all add: set_state_stages enter_state_def drop_main_def drop_control_def)

lemma set_state_control [simp]:
  "sv_control_pid (service_set_state e st s) = (if has_control st \<or> sv_control_pid s \<le> 0 then sv_control_pid s else 0)"
  "sv_control_command (service_set_state e st s) = (if has_control st then sv_control_command s else None)"
  "sv_control_command_id (service_set_state e st s) = (if has_control st then sv_control_command_id s else None)"
  by (simp_all add: set_state_stages enter_state_def drop_main_def drop_control_def)

end
