(* ===== verification/Service_Ok.thy ===== *)
theory Service_Ok
  imports Service_Inv
begin

section \<open>The invariant of a service, and going down\<close>

text \<open>
  \<open>service_ok\<close> is the invariant that holds between two events; \<open>core\<close> is the part of it that holds in
  the middle of an operation.  \<open>lands\<close> says where the operations that take a service down get to.
\<close>

subsection \<open>The invariant\<close>

text \<open>
  A configuration that \<open>service_verify\<close> accepts.  A forking service must not let its main pid be set
  by notification messages or over the bus: \<open>service_sigchld_event\<close> asserts that a main process that
  dies during \<open>SERVICE_START\<close> does not belong to one.
\<close>

definition service_config_ok :: "service_config \<Rightarrow> bool" where
  "service_config_ok c \<longleftrightarrow>
     sc_load_state c = UNIT_LOADED \<and> service_verify c = Inr () \<and>
     (sc_type c = SERVICE_FORKING \<longrightarrow> sc_notify_access c = NOTIFY_NONE \<and> sc_bus_name c = None)"

definition main_command_ok :: "service \<Rightarrow> bool" where
  "main_command_ok s \<longleftrightarrow>
     (\<forall>i n. sv_main_command s = Some (i, n) \<longrightarrow>
        i = SERVICE_EXEC_START \<and> n < length (commands s i) \<and> sv_type s \<noteq> SERVICE_FORKING)"

definition control_command_ok :: "service \<Rightarrow> bool" where
  "control_command_ok s \<longleftrightarrow>
     (\<forall>i n. sv_control_command s = Some (i, n) \<longrightarrow>
        n < length (commands s i) \<and> sv_control_command_id s = Some i \<and>
        (i = SERVICE_EXEC_START \<longrightarrow> sv_type s = SERVICE_FORKING))"

text \<open>No main process of a oneshot service whose exit would start the next command.\<close>

definition quiet_main :: "service \<Rightarrow> bool" where
  "quiet_main s \<longleftrightarrow> \<not> (sv_type s = SERVICE_ONESHOT \<and> sv_main_command s \<noteq> None \<and> sv_main_pid s > 0)"

text \<open>What holds in the middle of an operation, whatever the state.\<close>

definition core :: "service \<Rightarrow> bool" where
  "core s \<longleftrightarrow>
     service_config_ok (sv_conf s) \<and> sv_main_pid s \<ge> 0 \<and> sv_control_pid s \<ge> 0 \<and>
     (sv_main_pid s > 0 \<longrightarrow> sv_main_pid_known s) \<and> main_command_ok s \<and> control_command_ok s \<and>
     (quiet_main s \<or> sv_control_pid s = 0) \<and>
     rl_interval (sv_ratelimit s) > 0 \<and> rl_burst (sv_ratelimit s) > 0"

definition chain_of_starts :: "service \<Rightarrow> bool" where
  "chain_of_starts s \<longleftrightarrow>
     sv_type s = SERVICE_ONESHOT \<and> length (commands s SERVICE_EXEC_START) > 1"

text \<open>
  The states in which a timeout is running: all in which a control process may run, except for the
  start of a oneshot service, which may take as long as it likes, and except for stopping a oneshot
  service with several commands (\<open>oneshot_stop_unsupervised\<close>).
\<close>

definition supervised :: "service \<Rightarrow> bool" where
  "supervised s \<longleftrightarrow>
     has_control (sv_state s) \<and> sv_timeout s > 0 \<and>
     \<not> (sv_type s = SERVICE_ONESHOT \<and> sv_state s = SERVICE_START) \<and>
     \<not> (chain_of_starts s \<and> is_stop_signal (sv_state s))"

definition state_fits :: "service \<Rightarrow> bool" where
  "state_fits s \<longleftrightarrow>
     (sv_main_pid s > 0 \<longrightarrow> has_main (sv_state s)) \<and>
     (sv_control_pid s > 0 \<longrightarrow> has_control (sv_state s)) \<and>
     (sv_main_command s \<noteq> None \<longrightarrow> has_main (sv_state s)) \<and>
     (sv_control_command s \<noteq> None \<longrightarrow> has_control (sv_state s)) \<and>
     (sv_state s \<in> {SERVICE_START_PRE, SERVICE_START_POST, SERVICE_RELOAD, SERVICE_STOP,
                    SERVICE_STOP_POST} \<longrightarrow> sv_control_pid s > 0) \<and>
     (sv_state s = SERVICE_START \<longrightarrow>
        sv_type s \<noteq> SERVICE_SIMPLE \<and>
        (if sv_type s = SERVICE_FORKING then sv_control_pid s > 0 \<and> sv_main_pid s = 0
         else sv_control_pid s = 0 \<and> sv_control_command s = None \<and> sv_main_pid s > 0)) \<and>
     (quiet_main s \<or> sv_state s = SERVICE_START \<or> is_stop_signal (sv_state s)) \<and>
     (sv_type s = SERVICE_ONESHOT \<and> sv_main_command s \<noteq> None \<longrightarrow>
        sv_state s = SERVICE_START \<or> sv_state s = SERVICE_STOP \<or> is_stop_signal (sv_state s)) \<and>
     (\<not> has_timer (sv_state s) \<longrightarrow> x_timer s = Timer_Off) \<and>
     (sv_state s = SERVICE_AUTO_RESTART \<longrightarrow> x_timer s = Timer_Armed) \<and>
     (supervised s \<longrightarrow> x_timer s = Timer_Armed)"

definition service_ok :: "service \<Rightarrow> bool" where
  "service_ok s \<longleftrightarrow> core s \<and> state_fits s"

lemmas state_sets = has_timer_def has_main_def has_control_def is_stop_signal_def

lemmas core_parts = core_def main_command_ok_def control_command_ok_def quiet_main_def commands_def

lemmas fits_parts = service_ok_def state_fits_def supervised_def chain_of_starts_def core_parts

lemma core_same:
  assumes "same s s'"
  shows "core s' = core s"
  unfolding core_parts same_fields [OF assms] ..

lemma core_same_rule: "core s \<Longrightarrow> same s s' \<Longrightarrow> core s'"
  by (simp add: core_same)

lemma core_fail_unless [simp]: "core (fail_unless b s) = core s"
  by (simp add: fail_unless_def core_parts)

lemma core_unwatch [simp]:
  "core s \<Longrightarrow> core (service_unwatch_control_pid s)"
  "core s \<Longrightarrow> core (service_unwatch_main_pid s)"
  by (auto simp: core_parts split: option.splits)

lemma core_drop_commands [simp]:
  "core s \<Longrightarrow> core (s\<lparr>sv_control_command := None\<rparr>)"
  "core s \<Longrightarrow> core (s\<lparr>sv_control_command := None, sv_control_command_id := None\<rparr>)"
  "core s \<Longrightarrow> core (s\<lparr>sv_main_command := None\<rparr>)"
  "core s \<Longrightarrow> core (s\<lparr>sv_failure := b\<rparr>)"
  "core s \<Longrightarrow> core (s\<lparr>sv_reload_failure := b\<rparr>)"
  "core s \<Longrightarrow> core (s\<lparr>sv_forbid_restart := b\<rparr>)"
  by (auto simp: core_parts split: option.splits)

lemma core_first_command:
  assumes "core s" "first_command s i = Some c" "i \<noteq> SERVICE_EXEC_START"
  shows "core (s\<lparr>sv_control_command := Some c, sv_control_command_id := Some i\<rparr>)"
  using assms by (auto simp: core_parts first_command_def split: option.splits if_splits)

subsection \<open>Going down\<close>

text \<open>How far a service is from rest.\<close>

fun stage :: "service_state \<Rightarrow> nat" where
  "stage SERVICE_DEAD = 0"
| "stage SERVICE_FAILED = 0"
| "stage SERVICE_AUTO_RESTART = 0"
| "stage SERVICE_FINAL_SIGKILL = 1"
| "stage SERVICE_FINAL_SIGTERM = 2"
| "stage SERVICE_STOP_POST = 3"
| "stage SERVICE_STOP_SIGKILL = 4"
| "stage SERVICE_STOP_SIGTERM = 5"
| "stage SERVICE_STOP = 6"
| "stage _ = 7"

text \<open>
  Where an operation that takes the service down gets to: a good state at most as far
  from rest as \<open>st\<close>, and not a restart when restarts are forbidden.
\<close>

definition lands :: "service \<Rightarrow> service_state \<Rightarrow> service \<Rightarrow> bool" where
  "lands s st s' \<longleftrightarrow>
     service_ok s' \<and> sv_conf s' = sv_conf s \<and> stage (sv_state s') \<le> stage st \<and>
     (sv_forbid_restart s \<longrightarrow> sv_state s' \<noteq> SERVICE_AUTO_RESTART) \<and>
     (sv_forbid_restart s \<and> stage (sv_state s') > 0 \<longrightarrow> sv_forbid_restart s')"

lemma lands_mono: "lands s st s' \<Longrightarrow> stage st \<le> stage st' \<Longrightarrow> lands s st' s'"
  by (auto simp: lands_def)

lemma lands_from:
  "lands s1 st s' \<Longrightarrow> sv_conf s1 = sv_conf s \<Longrightarrow> sv_forbid_restart s1 = sv_forbid_restart s \<Longrightarrow>
   lands s st s'"
  by (auto simp: lands_def)

lemma fail_unless_kept [simp]:
  "sv_conf (fail_unless b s) = sv_conf s" "sv_forbid_restart (fail_unless b s) = sv_forbid_restart s"
  "sv_state (fail_unless b s) = sv_state s" "sv_main_pid (fail_unless b s) = sv_main_pid s"
  "sv_control_pid (fail_unless b s) = sv_control_pid s"
  "sv_main_command (fail_unless b s) = sv_main_command s"
  "sv_control_command (fail_unless b s) = sv_control_command s" "x_timer (fail_unless b s) = x_timer s"
  by (simp_all add: fail_unless_def)

lemma set_state_rest:
  assumes "core s" "st = SERVICE_DEAD \<or> st = SERVICE_FAILED \<or>
     st = SERVICE_AUTO_RESTART \<and> x_timer s = Timer_Armed \<and> \<not> sv_forbid_restart s"
  shows "lands s SERVICE_DEAD ((service_set_state e st s)\<lparr>sv_forbid_restart := b\<rparr>)"
  using assms by (auto simp: lands_def fits_parts state_sets split: option.splits)

lemma enter_dead_False:
  assumes "core s"
  shows "lands s SERVICE_DEAD (service_enter_dead e success False s)"
  unfolding service_enter_dead.simps [of e success False s] Let_def
  using set_state_rest [of "fail_unless success s"] assms
  by (intro lands_from [of "fail_unless success s" _ _ s]) simp_all

lemma enter_dead_ok:
  assumes "core s"
  shows "lands s SERVICE_DEAD (service_enter_dead e success allow s)"
proof -
  let ?s = "fail_unless success s"
  have c: "core ?s" using assms by simp
  obtain r s2 where w: "unit_watch_timer e (sc_restart_usec (sv_conf ?s)) ?s = (r, s2)" by fastforce
  have sm: "same ?s s2" using same_watch_timer [of ?s] w by (metis snd_conv)
  have c2: "core s2" using core_same_rule [OF c sm] .
  have fb: "sv_forbid_restart s2 = sv_forbid_restart ?s" "sv_conf s2 = sv_conf ?s"
    using same_fields [OF sm] by simp_all
  have "lands ?s SERVICE_DEAD (service_enter_dead e success allow s)"
  proof (cases r)
    case None
    with w have "x_timer s2 = Timer_Armed" by (simp add: watch_timer_armed)
    then show ?thesis
      unfolding service_enter_dead.simps [of e success allow s] Let_def w
      using None set_state_rest [OF c2, THEN lands_from] set_state_rest [OF c] fb by simp
  next
    case (Some err)
    then show ?thesis
      unfolding service_enter_dead.simps [of e success allow s] Let_def w
      using enter_dead_False [OF c2, THEN lands_from] set_state_rest [OF c] fb by simp
  qed
  then show ?thesis by (rule lands_from) simp_all
qed

lemma signal_processes_core:
  "core s \<Longrightarrow> signal_processes e st s = (r, w, s') \<Longrightarrow> core s'"
  using core_same_rule [OF _ same_signal_processes] by (metis snd_conv)

lemma spawn_core: "core s \<Longrightarrow> service_spawn e c t f n s = (r, s') \<Longrightarrow> core s'"
  using core_same_rule spawn_same by blast

lemma set_state_signal:
  assumes "core s" "st \<in> {SERVICE_STOP_SIGTERM, SERVICE_STOP_SIGKILL, SERVICE_FINAL_SIGTERM, SERVICE_FINAL_SIGKILL}"
    "sv_timeout s > 0 \<longrightarrow> x_timer s = Timer_Armed"
  shows "lands s st (service_set_state e st s)"
  using assms by (auto simp: lands_def fits_parts state_sets)

lemma set_state_stop_post:
  assumes "core s" "sv_timeout s > 0 \<longrightarrow> x_timer s = Timer_Armed" "pid > 0"
  shows "lands s SERVICE_STOP_POST (service_set_state e SERVICE_STOP_POST (s\<lparr>sv_control_pid := pid\<rparr>))"
  using assms by (auto simp: lands_def fits_parts state_sets)

lemma enter_signal_step:
  assumes "core s" "st \<in> {SERVICE_STOP_SIGTERM, SERVICE_STOP_SIGKILL, SERVICE_FINAL_SIGTERM, SERVICE_FINAL_SIGKILL}"
    and post: "\<And>s' b. is_stop_signal st \<Longrightarrow> core s' \<Longrightarrow> lands s' SERVICE_STOP_POST (service_enter_stop_post e b s')"
  shows "lands s st (service_enter_signal e st success s)"
proof -
  obtain r w s1 where sig: "signal_processes e st (fail_unless success s) = (r, w, s1)"
    by (metis prod_cases3)
  have sm1: "same (fail_unless success s) s1" using same_signal_processes sig by (metis snd_conv)
  have c1: "core s1" using signal_processes_core [OF _ sig] assms(1) by simp
  define rt where "rt = (if sv_timeout s1 > 0 then unit_watch_timer e (sv_timeout s1) s1 else (None, s1))"
  have sm2: "same s1 (snd rt)" by (simp add: rt_def same_watch_timer)
  have c2: "core (snd rt)" using core_same_rule [OF c1 sm2] .
  note kept = same_fields(1,17) [OF sm1] same_fields(1,17) [OF sm2]
  have down: "lands s st (if is_stop_signal st then service_enter_stop_post e b s'
                          else service_enter_dead e b True s')"
    if "core s'" "sv_conf s' = sv_conf s" "sv_forbid_restart s' = sv_forbid_restart s" for b s'
    using lands_from [OF lands_mono [OF post [OF _ that(1)]] that(2,3), of st]
      lands_from [OF lands_mono [OF enter_dead_ok [OF that(1)]] that(2,3), of st] assms(2)
    by (auto simp: is_stop_signal_def)
  have armed: "fst rt = None \<Longrightarrow> sv_timeout (snd rt) > 0 \<longrightarrow> x_timer (snd rt) = Timer_Armed"
    using watch_timer_armed [of e "sv_timeout s1" s1 "snd rt"] same_fields(1) [OF sm2]
    by (metis rt_def prod.collapse)
  have wait: "fst rt = None \<Longrightarrow> lands s st (service_set_state e st (snd rt))"
    using lands_from [OF set_state_signal [OF c2 assms(2) armed]] kept by simp
  obtain q s2 where rt: "rt = (q, s2)" by fastforce
  show ?thesis
    unfolding service_enter_signal.simps Let_def sig prod.case rt_def [symmetric]
    using down [OF c1, of True] down [OF c1, of False] down [OF c2, of False] wait kept
    unfolding rt by (cases r; cases q; cases w) (simp_all split: if_splits)
qed

lemma enter_final_ok:
  assumes "core s" "st = SERVICE_FINAL_SIGTERM \<or> st = SERVICE_FINAL_SIGKILL"
  shows "lands s st (service_enter_signal e st success s)"
  using assms by (intro enter_signal_step) (auto simp: is_stop_signal_def)

lemma core_unwatched_control: "sv_control_pid s \<ge> 0 \<Longrightarrow> sv_control_pid (service_unwatch_control_pid s) = 0"
  by simp

text \<open>
  The common shape of the operations that run the first command of a list: without a
  command, when the command cannot be started, and when it runs.
\<close>

definition run_first ::
    "exec_env \<Rightarrow> service_exec_command \<Rightarrow> (service \<Rightarrow> 'a) \<Rightarrow> (service \<Rightarrow> 'a) \<Rightarrow> (service \<Rightarrow> 'a) \<Rightarrow> service \<Rightarrow> 'a" where
  "run_first e i none fail run s =
     (let s1 = service_unwatch_control_pid s;
          s2 = s1\<lparr>sv_control_command := first_command s1 i\<rparr> in
      case sv_control_command s2 of
        None \<Rightarrow> none s2
      | Some c \<Rightarrow>
          case service_spawn e c True False False (s2\<lparr>sv_control_command_id := Some i\<rparr>) of
            (Inl r, s3) \<Rightarrow> fail s3
          | (Inr pid, s3) \<Rightarrow> run (s3\<lparr>sv_control_pid := pid\<rparr>))"

lemma run_first_rule:
  assumes "core s" "env_ok e" "i \<noteq> SERVICE_EXEC_START"
    and none: "\<And>s'. core s' \<Longrightarrow> sv_control_pid s' = 0 \<Longrightarrow> sv_main_pid s' = sv_main_pid s \<Longrightarrow>
                 sv_main_command s' = sv_main_command s \<Longrightarrow> sv_conf s' = sv_conf s \<Longrightarrow>
                 sv_state s' = sv_state s \<Longrightarrow> sv_forbid_restart s' = sv_forbid_restart s \<Longrightarrow>
                 first_command s i = None \<Longrightarrow> sv_control_command s' = None \<Longrightarrow> Q (none s')"
    and fail: "\<And>s'. core s' \<Longrightarrow> sv_control_pid s' = 0 \<Longrightarrow> sv_main_pid s' = sv_main_pid s \<Longrightarrow>
                 sv_main_command s' = sv_main_command s \<Longrightarrow> sv_conf s' = sv_conf s \<Longrightarrow>
                 sv_state s' = sv_state s \<Longrightarrow> sv_forbid_restart s' = sv_forbid_restart s \<Longrightarrow>
                 sv_control_command s' = Some (i, 0) \<Longrightarrow> Q (fail s')"
    and run: "\<And>s' pid. core s' \<Longrightarrow> sv_control_pid s' = 0 \<Longrightarrow> sv_main_pid s' = sv_main_pid s \<Longrightarrow>
                 sv_main_command s' = sv_main_command s \<Longrightarrow> sv_conf s' = sv_conf s \<Longrightarrow>
                 sv_state s' = sv_state s \<Longrightarrow> sv_forbid_restart s' = sv_forbid_restart s \<Longrightarrow>
                 sv_control_command s' = Some (i, 0) \<Longrightarrow> pid > 0 \<Longrightarrow>
                 (sv_timeout s' > 0 \<longrightarrow> x_timer s' = Timer_Armed) \<Longrightarrow>
                 Q (run (s'\<lparr>sv_control_pid := pid\<rparr>))"
  shows "Q (run_first e i none fail run s)"
proof -
  let ?s1 = "service_unwatch_control_pid s"
  have c1: "core ?s1" and z: "sv_control_pid ?s1 = 0"
    using assms(1) by (simp_all, simp add: core_def)
  have fc: "first_command ?s1 i = first_command s i"
    by (simp add: first_command_def commands_def)
  show ?thesis
  proof (cases "first_command s i")
    case None
    then show ?thesis
      unfolding run_first_def Let_def using none [of "?s1\<lparr>sv_control_command := None\<rparr>"] c1 z
      by (simp add: fc)
  next
    case (Some c)
    let ?s2 = "?s1\<lparr>sv_control_command := Some c, sv_control_command_id := Some i\<rparr>"
    have c2: "core ?s2" using core_first_command [OF c1, of i c] Some assms(3) by (simp add: fc)
    have ci: "c = (i, 0)" using Some by (auto simp: first_command_def split: if_splits)
    obtain r s3 where sp: "service_spawn e c True False False ?s2 = (r, s3)" by fastforce
    have sm: "same ?s2 s3" using spawn_same [OF sp] .
    have c3: "core s3" using core_same_rule [OF c2 sm] .
    note f = same_fields [OF sm]
    have armed: "\<And>pid. r = Inr pid \<Longrightarrow> sv_timeout s3 > 0 \<longrightarrow> x_timer s3 = Timer_Armed"
      using spawn_armed [of e c False False ?s2 _ s3] sp f(1) by auto
    have pid: "\<And>pid. r = Inr pid \<Longrightarrow> pid > 0"
      using spawn_pid(1) [OF _ assms(2)] sp by fastforce
    show ?thesis
      unfolding run_first_def Let_def
      using Some sp fail [of s3] run [of s3] c3 f z ci armed pid
      by (cases r) (simp_all add: fc)
  qed
qed

lemma enter_stop_post_first:
  "service_enter_stop_post e success s =
     run_first e SERVICE_EXEC_STOP_POST (service_enter_signal e SERVICE_FINAL_SIGTERM True)
       (service_enter_signal e SERVICE_FINAL_SIGTERM False) (service_set_state e SERVICE_STOP_POST)
       (fail_unless success s)"
  unfolding service_enter_stop_post.simps run_first_def ..

lemma enter_stop_post_ok:
  assumes "core s" "env_ok e"
  shows "lands s SERVICE_STOP_POST (service_enter_stop_post e success s)"
  unfolding enter_stop_post_first
proof (rule run_first_rule [OF _ assms(2)])
  fix s' assume "core s'" "sv_conf s' = sv_conf (fail_unless success s)"
    "sv_forbid_restart s' = sv_forbid_restart (fail_unless success s)"
  then show "lands s SERVICE_STOP_POST (service_enter_signal e SERVICE_FINAL_SIGTERM b s')" for b
    using lands_from [OF lands_mono [OF enter_final_ok [of s' SERVICE_FINAL_SIGTERM]]] by simp
  then show "lands s SERVICE_STOP_POST (service_enter_signal e SERVICE_FINAL_SIGTERM b s')" for b .
  fix pid :: int assume "pid > 0" "sv_timeout s' > 0 \<longrightarrow> x_timer s' = Timer_Armed"
  then show "lands s SERVICE_STOP_POST (service_set_state e SERVICE_STOP_POST (s'\<lparr>sv_control_pid := pid\<rparr>))"
    using lands_from [OF set_state_stop_post] \<open>core s'\<close> \<open>sv_conf s' = _\<close> \<open>sv_forbid_restart s' = _\<close>
    by simp
qed (use assms in simp_all)

lemma enter_signal_ok:
  assumes "core s" "env_ok e"
    "st \<in> {SERVICE_STOP_SIGTERM, SERVICE_STOP_SIGKILL, SERVICE_FINAL_SIGTERM, SERVICE_FINAL_SIGKILL}"
  shows "lands s st (service_enter_signal e st success s)"
  using assms enter_stop_post_ok by (intro enter_signal_step) auto

lemma enter_stop_first:
  "service_enter_stop e success s =
     run_first e SERVICE_EXEC_STOP (service_enter_signal e SERVICE_STOP_SIGTERM True)
       (service_enter_signal e SERVICE_STOP_SIGTERM False) (service_set_state e SERVICE_STOP)
       (fail_unless success s)"
  unfolding service_enter_stop_def run_first_def ..

lemma set_state_stop:
  assumes "core s" "sv_timeout s > 0 \<longrightarrow> x_timer s = Timer_Armed" "pid > 0" "quiet_main s"
  shows "lands s SERVICE_STOP (service_set_state e SERVICE_STOP (s\<lparr>sv_control_pid := pid\<rparr>))"
  using assms by (auto simp: lands_def fits_parts state_sets)

lemma quiet_main_cong:
  "sv_main_pid s' = sv_main_pid s \<Longrightarrow> sv_main_command s' = sv_main_command s \<Longrightarrow> sv_conf s' = sv_conf s \<Longrightarrow>
   quiet_main s' = quiet_main s"
  by (simp add: quiet_main_def)

lemma enter_stop_ok:
  assumes "core s" "env_ok e" "quiet_main s"
  shows "lands s SERVICE_STOP (service_enter_stop e success s)"
  unfolding enter_stop_first
proof (rule run_first_rule [OF _ assms(2)])
  fix s' assume s': "core s'" "sv_conf s' = sv_conf (fail_unless success s)"
    "sv_forbid_restart s' = sv_forbid_restart (fail_unless success s)"
  then show "lands s SERVICE_STOP (service_enter_signal e SERVICE_STOP_SIGTERM b s')" for b
    using lands_from [OF lands_mono [OF enter_signal_ok [of s' e SERVICE_STOP_SIGTERM]]] assms(2)
    by simp
  then show "lands s SERVICE_STOP (service_enter_signal e SERVICE_STOP_SIGTERM b s')" for b .
  fix pid :: int assume p: "pid > 0" "sv_timeout s' > 0 \<longrightarrow> x_timer s' = Timer_Armed"
    and m: "sv_main_pid s' = sv_main_pid (fail_unless success s)"
      "sv_main_command s' = sv_main_command (fail_unless success s)"
  have "quiet_main s'" using assms(3) quiet_main_cong [of s' s] s'(2) m by simp
  then show "lands s SERVICE_STOP (service_set_state e SERVICE_STOP (s'\<lparr>sv_control_pid := pid\<rparr>))"
    using lands_from [OF set_state_stop [OF s'(1) p(2,1)]] s' by simp
qed (use assms in simp_all)

end
