(* ===== verification/Service_Up.thy ===== *)
theory Service_Up
  imports Service_Ok
begin

section \<open>A service comes up\<close>

text \<open>
  The operations from \<open>service_enter_start_pre\<close> to \<open>service_enter_running\<close> establish the invariant and
  never go back to an earlier phase.
\<close>

subsection \<open>Coming up\<close>

text \<open>
  The phases a service goes through: the states of coming up in their order, the states in which it
  is up, those in which it goes down, and rest.
\<close>

fun phase :: "service_state \<Rightarrow> nat" where
  "phase SERVICE_START_PRE = 0"
| "phase SERVICE_START = 1"
| "phase SERVICE_START_POST = 2"
| "phase SERVICE_RUNNING = 3"
| "phase SERVICE_EXITED = 3"
| "phase SERVICE_RELOAD = 3"
| "phase SERVICE_DEAD = 5"
| "phase SERVICE_FAILED = 5"
| "phase SERVICE_AUTO_RESTART = 5"
| "phase _ = 4"

definition settles :: "service \<Rightarrow> nat \<Rightarrow> service \<Rightarrow> bool" where
  "settles s n s' \<longleftrightarrow> service_ok s' \<and> sv_conf s' = sv_conf s \<and> n \<le> phase (sv_state s')"

lemma stage_phase: "(4 \<le> phase st) = (stage st \<le> 6)" "(5 \<le> phase st) = (stage st = 0)"
  by (cases st; simp)+

lemma lands_settles:
  assumes "lands s st s'" "stage st \<le> 6" "n \<le> 4"
  shows "settles s n s'"
proof -
  have "stage (sv_state s') \<le> 6" using assms by (simp add: lands_def)
  then have "4 \<le> phase (sv_state s')" by (simp add: stage_phase)
  then show ?thesis using assms by (simp add: lands_def settles_def)
qed

lemma settles_mono: "settles s n s' \<Longrightarrow> m \<le> n \<Longrightarrow> settles s m s'"
  by (simp add: settles_def)

lemma settles_from: "settles s1 n s' \<Longrightarrow> sv_conf s1 = sv_conf s \<Longrightarrow> settles s n s'"
  by (simp add: settles_def)

definition idle_main :: "service \<Rightarrow> bool" where
  "idle_main s \<longleftrightarrow> \<not> (sv_type s = SERVICE_ONESHOT \<and> sv_main_command s \<noteq> None)"

lemma idle_main_quiet [simp]: "idle_main s \<Longrightarrow> quiet_main s"
  by (simp add: idle_main_def quiet_main_def)

lemma idle_main_cong:
  "sv_main_command s' = sv_main_command s \<Longrightarrow> sv_conf s' = sv_conf s \<Longrightarrow> idle_main s' = idle_main s"
  by (simp add: idle_main_def)

lemma set_state_up:
  assumes "core s" "idle_main s" "st = SERVICE_RUNNING \<or> st = SERVICE_EXITED"
  shows "settles s 3 (service_set_state e st s)"
  using assms by (auto simp: settles_def fits_parts idle_main_def state_sets)

lemma set_state_busy:
  assumes "core s" "sv_timeout s > 0 \<longrightarrow> x_timer s = Timer_Armed" "pid > 0" "idle_main s"
    "st = SERVICE_START_POST \<or> st = SERVICE_RELOAD"
  shows "settles s (phase st) (service_set_state e st (s\<lparr>sv_control_pid := pid\<rparr>))"
  using assms by (auto simp: settles_def fits_parts idle_main_def state_sets)

lemma enter_running_ok:
  assumes "core s" "env_ok e" "idle_main s"
  shows "settles s 3 (service_enter_running e success s)"
proof -
  let ?s = "fail_unless success s"
  have c: "core ?s" and i: "idle_main ?s" using assms by (simp_all add: idle_main_def)
  have "settles ?s 3 (service_enter_running e success s)"
    unfolding service_enter_running_def Let_def
    using set_state_up [OF c i] lands_settles [OF enter_stop_ok [OF c assms(2)], of 3] i by simp
  then show ?thesis by (rule settles_from) simp
qed

lemma enter_start_post_first:
  "service_enter_start_post e s =
     run_first e SERVICE_EXEC_START_POST (service_enter_running e True) (service_enter_stop e False)
       (service_set_state e SERVICE_START_POST) s"
  unfolding service_enter_start_post_def run_first_def ..

lemma enter_start_post_ok:
  assumes "core s" "env_ok e" "idle_main s"
  shows "settles s 2 (service_enter_start_post e s)"
  unfolding enter_start_post_first
proof (rule run_first_rule [OF assms(1,2)])
  fix s' assume s': "core s'" "sv_conf s' = sv_conf s" "sv_main_command s' = sv_main_command s"
  then have i: "idle_main s'" using assms(3) idle_main_cong [of s' s] by simp
  show "settles s 2 (service_enter_running e True s')"
    using settles_from [OF settles_mono [OF enter_running_ok [OF s'(1) assms(2) i]] s'(2)] by simp
  show "settles s 2 (service_enter_stop e False s')"
    using settles_from [OF lands_settles [OF enter_stop_ok [OF s'(1) assms(2)]] s'(2)] i by simp
  fix pid :: int assume p: "pid > 0" "sv_timeout s' > 0 \<longrightarrow> x_timer s' = Timer_Armed"
  show "settles s 2 (service_set_state e SERVICE_START_POST (s'\<lparr>sv_control_pid := pid\<rparr>))"
    using settles_from [OF set_state_busy [OF s'(1) p(2,1) i, of SERVICE_START_POST] s'(2)] by simp
qed simp

lemma set_main_pid_core:
  assumes "core s" "idle_main s \<or> sv_control_pid s = 0"
  shows "core (snd (service_set_main_pid e pid s))"
  using assms by (auto simp: service_set_main_pid_def core_parts idle_main_def)

lemma set_main_pid_kept [simp]:
  "sv_conf (snd (service_set_main_pid e pid s)) = sv_conf s"
  "sv_state (snd (service_set_main_pid e pid s)) = sv_state s"
  "x_timer (snd (service_set_main_pid e pid s)) = x_timer s"
  "sv_main_command (snd (service_set_main_pid e pid s)) = sv_main_command s"
  "sv_control_command (snd (service_set_main_pid e pid s)) = sv_control_command s"
  "sv_control_pid (snd (service_set_main_pid e pid s)) = sv_control_pid s"
  "sv_forbid_restart (snd (service_set_main_pid e pid s)) = sv_forbid_restart s"
  by (simp_all add: service_set_main_pid_def)

lemma set_main_pid_new:
  "pid > 1 \<Longrightarrow> pid \<noteq> e_getpid e \<Longrightarrow> sv_main_pid (snd (service_set_main_pid e pid s)) = pid"
  by (simp add: service_set_main_pid_def)

lemma single_iff: "length xs = Suc 0 \<longleftrightarrow> xs \<noteq> [] \<and> \<not> Suc 0 < length xs"
  by (cases xs) auto

lemma verify_start:
  assumes "service_config_ok (sv_conf s)"
  shows "commands s SERVICE_EXEC_START \<noteq> []"
    "sv_type s \<noteq> SERVICE_ONESHOT \<Longrightarrow> length (commands s SERVICE_EXEC_START) = 1"
    "sv_type s = SERVICE_ONESHOT \<Longrightarrow> commands s SERVICE_EXEC_RELOAD = []"
  using assms
  by (auto simp: service_config_ok_def service_verify_def commands_def single_iff split: if_splits)

definition start_prepared :: "service \<Rightarrow> service" where
  "start_prepared s =
     (if sv_type s = SERVICE_FORKING
      then (service_unwatch_control_pid s)
             \<lparr>sv_control_command_id := Some SERVICE_EXEC_START,
              sv_control_command := Some (SERVICE_EXEC_START, 0), sv_main_command := None\<rparr>
      else (service_unwatch_main_pid s)
             \<lparr>sv_control_command_id := None, sv_control_command := None,
              sv_main_command := Some (SERVICE_EXEC_START, 0)\<rparr>)"

lemma start_prepared_core:
  assumes "core s" "sv_main_pid s = 0" "sv_control_pid s = 0"
  shows "core (start_prepared s)" "sv_main_pid (start_prepared s) = 0"
    "sv_control_pid (start_prepared s) = 0" "sv_conf (start_prepared s) = sv_conf s"
  using assms verify_start [of s]
  by (auto simp: start_prepared_def core_parts)

lemma set_state_start_forking:
  assumes "core s" "sv_timeout s > 0 \<longrightarrow> x_timer s = Timer_Armed" "pid > 0"
    "sv_main_pid s = 0" "sv_type s = SERVICE_FORKING" "sv_main_command s = None"
  shows "settles s 1 (service_set_state e SERVICE_START (s\<lparr>sv_control_pid := pid\<rparr>))"
  using assms by (auto simp: settles_def fits_parts state_sets)

lemma set_state_start_main:
  assumes "core s" "sv_type s \<noteq> SERVICE_ONESHOT \<Longrightarrow> sv_timeout s > 0 \<Longrightarrow> x_timer s = Timer_Armed"
    "sv_main_pid s > 0" "sv_control_pid s = 0" "sv_control_command s = None"
    "sv_type s \<noteq> SERVICE_FORKING" "sv_type s \<noteq> SERVICE_SIMPLE"
  shows "settles s 1 (service_set_state e SERVICE_START s)"
  using assms by (auto simp: settles_def fits_parts state_sets)

lemma enter_start_ok:
  assumes "core s" "env_ok e" "sv_main_pid s = 0" "sv_control_pid s = 0"
  shows "\<exists>s'. service_enter_start e s = Some s' \<and> settles s 1 s'"
proof -
  let ?s2 = "start_prepared s" and ?t = "sv_type s"
  let ?w = "?t = SERVICE_FORKING \<or> ?t = SERVICE_DBUS \<or> ?t = SERVICE_NOTIFY"
  have conf: "service_config_ok (sv_conf s)" using assms(1) by (simp add: core_def)
  note v = verify_start [OF conf]
  obtain r s3 where sp: "service_spawn e (SERVICE_EXEC_START, 0) ?w True
      (sc_notify_access (sv_conf s) \<noteq> NOTIFY_NONE) ?s2 = (r, s3)" by fastforce
  have eq: "service_enter_start e s =
      (case r of
         Inl _ \<Rightarrow> Some (service_enter_signal e SERVICE_FINAL_SIGTERM False s3)
       | Inr pid \<Rightarrow>
           if ?t = SERVICE_SIMPLE
           then Some (service_enter_start_post e (snd (service_set_main_pid e pid s3)))
           else if ?t = SERVICE_FORKING
           then Some (service_set_state e SERVICE_START (s3\<lparr>sv_control_pid := pid\<rparr>))
           else Some (service_set_state e SERVICE_START (snd (service_set_main_pid e pid s3))))"
    using v sp
    by (cases "?t = SERVICE_FORKING"; cases "?t = SERVICE_ONESHOT")
       (simp_all add: service_enter_start_def first_command_def command_next_def start_prepared_def
          Let_def split: sum.splits)
  have sm: "same ?s2 s3" using spawn_same [OF sp] .
  note f = same_fields [OF sm]
  note p = start_prepared_core [OF assms(1,3,4)]
  have c3: "core s3" using core_same_rule [OF p(1) sm] .
  have conf3: "sv_conf s3 = sv_conf s" "sv_main_pid s3 = 0" "sv_control_pid s3 = 0"
    using f p by simp_all
  show ?thesis
  proof (cases r)
    case (Inl err)
    then show ?thesis
      using eq settles_from [OF lands_settles [OF enter_final_ok [OF c3]] conf3(1)] by simp
  next
    case (Inr pid)
    note pid = spawn_pid [OF sp [unfolded Inr] assms(2)]
    have armed: "x_timer s3 = Timer_Armed" if ?w "sv_timeout s3 > 0"
    proof -
      have "?w = True" using that(1) by simp
      then show ?thesis
        using spawn_armed [OF sp [unfolded Inr \<open>?w = True\<close>]] that(2) conf3(1) p(4) by simp
    qed
    let ?s4 = "snd (service_set_main_pid e pid s3)"
    have c4: "core ?s4" using set_main_pid_core [OF c3] conf3(3) by simp
    have m4: "sv_main_pid ?s4 = pid" using set_main_pid_new pid by simp
    show ?thesis
    proof (cases ?t)
      case SERVICE_SIMPLE
      then have "idle_main ?s4" by (simp add: idle_main_def conf3(1))
      then have "settles s 1 (service_enter_start_post e ?s4)"
        using settles_from [OF settles_mono [OF enter_start_post_ok [OF c4 assms(2)]]] conf3(1) by simp
      then show ?thesis using eq Inr SERVICE_SIMPLE by simp
    next
      case SERVICE_FORKING
      have "sv_main_command s3 = None"
        using SERVICE_FORKING f(7) by (simp add: start_prepared_def)
      then have "settles s 1 (service_set_state e SERVICE_START (s3\<lparr>sv_control_pid := pid\<rparr>))"
        using settles_from [OF set_state_start_forking [OF c3]] armed SERVICE_FORKING conf3 pid by simp
      then show ?thesis using eq Inr SERVICE_FORKING by simp
    next
      case SERVICE_ONESHOT
      have "sv_control_command s3 = None"
        using SERVICE_ONESHOT f(6) by (simp add: start_prepared_def)
      then have "settles s 1 (service_set_state e SERVICE_START ?s4)"
        using settles_from [OF set_state_start_main [OF c4]] SERVICE_ONESHOT conf3 pid m4 by simp
      then show ?thesis using eq Inr SERVICE_ONESHOT by simp
    next
      case SERVICE_DBUS
      have "sv_control_command s3 = None"
        using SERVICE_DBUS f(6) by (simp add: start_prepared_def)
      then have "settles s 1 (service_set_state e SERVICE_START ?s4)"
        using settles_from [OF set_state_start_main [OF c4]] armed SERVICE_DBUS conf3 pid m4 by simp
      then show ?thesis using eq Inr SERVICE_DBUS by simp
    next
      case SERVICE_NOTIFY
      have "sv_control_command s3 = None"
        using SERVICE_NOTIFY f(6) by (simp add: start_prepared_def)
      then have "settles s 1 (service_set_state e SERVICE_START ?s4)"
        using settles_from [OF set_state_start_main [OF c4]] armed SERVICE_NOTIFY conf3 pid m4 by simp
      then show ?thesis using eq Inr SERVICE_NOTIFY by simp
    qed
  qed
qed

lemma enter_start_pre_first:
  "service_enter_start_pre e s =
     run_first e SERVICE_EXEC_START_PRE (service_enter_start e)
       (\<lambda>s. Some (service_enter_dead e False True s)) (\<lambda>s. Some (service_set_state e SERVICE_START_PRE s)) s"
  unfolding service_enter_start_pre_def run_first_def ..

lemma set_state_start_pre:
  assumes "core s" "sv_timeout s > 0 \<longrightarrow> x_timer s = Timer_Armed" "pid > 0"
  shows "settles s 0 (service_set_state e SERVICE_START_PRE (s\<lparr>sv_control_pid := pid\<rparr>))"
  using assms by (auto simp: settles_def fits_parts state_sets)

lemma enter_start_pre_ok:
  assumes "core s" "env_ok e" "sv_main_pid s = 0"
  shows "\<exists>s'. service_enter_start_pre e s = Some s' \<and> settles s 0 s'"
  unfolding enter_start_pre_first
proof (rule run_first_rule [OF assms(1,2)])
  fix s' assume s': "core s'" "sv_conf s' = sv_conf s" "sv_control_pid s' = 0"
    "sv_main_pid s' = sv_main_pid s"
  show "\<exists>t. service_enter_start e s' = Some t \<and> settles s 0 t"
    using enter_start_ok [OF s'(1) assms(2) _ s'(3)] s'(2,4) assms(3)
    by (auto simp: settles_def)
  show "\<exists>t. Some (service_enter_dead e False True s') = Some t \<and> settles s 0 t"
    using settles_from [OF lands_settles [OF enter_dead_ok [OF s'(1)]] s'(2)] by simp
  fix pid :: int assume p: "pid > 0" "sv_timeout s' > 0 \<longrightarrow> x_timer s' = Timer_Armed"
  show "\<exists>t. Some (service_set_state e SERVICE_START_PRE (s'\<lparr>sv_control_pid := pid\<rparr>)) = Some t \<and>
            settles s 0 t"
    using settles_from [OF set_state_start_pre [OF s'(1) p(2,1)] s'(2)] by simp
qed simp

end
