(* ===== verification/Service_Step.thy ===== *)
theory Service_Step
  imports Service_Up
begin

section \<open>The requests to a service keep its invariant\<close>

text \<open>
  Finding the main process, and \<open>service_start\<close>, \<open>service_stop\<close> and \<open>service_reload\<close>.
\<close>

subsection \<open>Finding the main process\<close>

text \<open>A call that changes nothing but what is known about the main process, besides timer and log.\<close>

definition pid_same :: "service \<Rightarrow> service \<Rightarrow> bool" where
  "pid_same s s' \<longleftrightarrow>
     sv_conf s' = sv_conf s \<and> sv_state s' = sv_state s \<and> x_timer s' = x_timer s \<and>
     sv_main_command s' = sv_main_command s \<and> sv_control_command s' = sv_control_command s \<and>
     sv_control_command_id s' = sv_control_command_id s \<and> sv_control_pid s' = sv_control_pid s \<and>
     sv_forbid_restart s' = sv_forbid_restart s \<and> sv_ratelimit s' = sv_ratelimit s \<and>
     sv_main_pid s' \<ge> 0 \<and> (sv_main_pid s' > 0 \<longrightarrow> sv_main_pid_known s')"

lemma pid_same_core:
  assumes "pid_same s s'" "core s" "idle_main s \<or> sv_control_pid s = 0"
  shows "core s'"
  using assms by (auto simp: pid_same_def core_parts idle_main_def)

lemma pid_same_refl: "core s \<Longrightarrow> pid_same s s"
  by (auto simp: pid_same_def core_parts)

lemma pid_same_trans: "pid_same s s' \<Longrightarrow> pid_same s' s'' \<Longrightarrow> pid_same s s''"
  by (simp add: pid_same_def)

lemma pid_same_set_main_pid:
  "pid_same s s \<Longrightarrow> pid_same s (snd (service_set_main_pid e pid s))"
  by (simp add: pid_same_def service_set_main_pid_def)

lemma pid_same_watch_pid: "pid_same s s' \<Longrightarrow> pid_same s (snd (unit_watch_pid e pid s'))"
  by (simp add: pid_same_def unit_watch_pid_def Let_def)

lemma pid_same_sys_kill: "pid_same s s \<Longrightarrow> pid_same s (snd (sys_kill e pid sig s))"
  by (simp add: pid_same_def sys_kill_def Let_def)

lemma pid_same_unwatch:
  "pid_same s s' \<Longrightarrow> pid_same s ((service_unwatch_main_pid s')\<lparr>sv_main_pid_known := False\<rparr>)"
  by (simp add: pid_same_def)

lemma parse_pid_pos: "parse_pid k = Inr pid \<Longrightarrow> pid > 0"
  by (auto simp: parse_pid_def Let_def split: sum.splits if_splits)

lemma load_pid_file_same:
  assumes "core s" "service_load_pid_file e s = (r, s')"
  shows "pid_same s s' \<and> (r = None \<longrightarrow> sv_main_pid s' > 0)"
proof (cases "\<exists>k pid. sc_pid_file (sv_conf s) \<noteq> None \<and> e_pid_file e (x_log s) = Inr k \<and> parse_pid k = Inr pid")
  case False
  then show ?thesis
    using assms pid_same_refl [OF assms(1)]
    by (auto simp: service_load_pid_file_def split: option.splits sum.splits)
next
  case True
  then obtain f k pid where k: "sc_pid_file (sv_conf s) = Some f" "e_pid_file e (x_log s) = Inr k"
      "parse_pid k = Inr pid" by blast
  obtain kr s1 where s1: "sys_kill e pid 0 s = (kr, s1)" by fastforce
  have p1: "pid_same s s1"
    using pid_same_sys_kill [OF pid_same_refl [OF assms(1)], of e pid 0] s1 by simp
  have main1: "sv_main_pid s1 = sv_main_pid s"
    using same_fields(9) [OF same_sys_kill [of s e pid 0]] s1 by simp
  define s2 where "s2 = (if sv_main_pid_known s1
     then (service_unwatch_main_pid s1)\<lparr>sv_main_pid_known := False\<rparr> else s1)"
  have p2: "pid_same s s2" using p1 pid_same_unwatch by (simp add: s2_def)
  obtain mr s3 where s3: "service_set_main_pid e pid s2 = (mr, s3)" by fastforce
  have "pid_same s2 s2" using p2 by (simp add: pid_same_def)
  then have p3: "pid_same s s3"
    using pid_same_trans [OF p2 pid_same_set_main_pid] s3 by (metis snd_conv)
  have main3: "mr = None \<Longrightarrow> sv_main_pid s3 = pid"
    using s3 by (auto simp: service_set_main_pid_def split: if_splits)
  have eq: "service_load_pid_file e s =
      (if kr \<noteq> None \<and> kr \<noteq> Some EPERM then (Some ESRCH, s1)
       else if sv_main_pid_known s1 \<and> pid = sv_main_pid s1 then (None, s1)
       else case mr of Some r \<Rightarrow> (Some r, s3) | None \<Rightarrow> unit_watch_pid e pid s3)"
    unfolding service_load_pid_file_def k option.case sum.case s1 prod.case Let_def
      s2_def [symmetric] s3 ..
  obtain w s4 where s4: "unit_watch_pid e pid s3 = (w, s4)" by fastforce
  have p4: "pid_same s s4" using pid_same_watch_pid [OF p3, of e pid] s4 by simp
  have main4: "sv_main_pid s4 = sv_main_pid s3"
    using s4 by (auto simp: unit_watch_pid_def Let_def)
  show ?thesis
    using assms(2) p1 p3 p4 main3 main4 parse_pid_pos [OF k(3)]
    unfolding eq s4 by (auto split: if_splits option.splits)
qed

lemma try_main_pid_ok:
  assumes "core s" "idle_main s"
  shows "\<exists>s'. try_main_pid e s = Some s' \<and> pid_same s s' \<and> core s'"
proof -
  obtain r s1 where s1: "service_load_pid_file e s = (r, s1)" by fastforce
  have p1: "pid_same s s1" using load_pid_file_same [OF assms(1) s1] by simp
  then have p11: "pid_same s1 s1" by (simp add: pid_same_def)
  have "\<exists>q s2. service_search_main_pid e s1 = Some (q, s2) \<and> pid_same s1 s2"
  proof (cases "sv_main_pid_known s1 \<or> \<not> sc_guess_main_pid (sv_conf s1)")
    case True
    then show ?thesis using p11 by (auto simp: service_search_main_pid_def)
  next
    case False
    then have "sv_main_pid s1 = 0" using p1 by (auto simp: pid_same_def)
    let ?pid = "e_main_pid e (x_log s1)"
    obtain mr s3 where s3: "service_set_main_pid e ?pid s1 = (mr, s3)" by fastforce
    then have p3: "pid_same s1 s3" using pid_same_set_main_pid [OF p11] by (metis snd_conv)
    obtain w s4 where s4: "unit_watch_pid e ?pid s3 = (w, s4)" by fastforce
    then have p4: "pid_same s1 s4" using pid_same_watch_pid [OF p3] by (metis snd_conv)
    have "service_search_main_pid e s1 =
        Some (if ?pid \<le> 0 then (Some ENOENT, s1) else case mr of None \<Rightarrow> (w, s4) | Some r \<Rightarrow> (mr, s3))"
      using False \<open>sv_main_pid s1 = 0\<close>
      unfolding service_search_main_pid_def Let_def s3 by (cases mr) (simp_all add: s4)
    then show ?thesis using p11 p3 p4 by (cases mr; cases "?pid \<le> 0") auto
  qed
  then obtain q s2 where s2: "service_search_main_pid e s1 = Some (q, s2)" "pid_same s1 s2" by blast
  have p: "pid_same s s2" using pid_same_trans [OF p1 s2(2)] .
  show ?thesis
    using s1 s2 p pid_same_core [OF p assms(1)] assms(2) by (simp add: try_main_pid_def)
qed

subsection \<open>Requests\<close>

lemma okD: "service_ok s \<Longrightarrow> core s" "service_ok s \<Longrightarrow> state_fits s"
  by (simp_all add: service_ok_def)

lemma fits_main_pid: "service_ok s \<Longrightarrow> \<not> has_main (sv_state s) \<Longrightarrow> sv_main_pid s = 0"
  by (simp add: service_ok_def state_fits_def core_def)

lemma fits_main: "service_ok s \<Longrightarrow> \<not> has_main (sv_state s) \<Longrightarrow> sv_main_pid s = 0 \<and> sv_main_command s = None"
  using fits_main_pid unfolding service_ok_def state_fits_def by blast

lemma fits_control: "service_ok s \<Longrightarrow> \<not> has_control (sv_state s) \<Longrightarrow> sv_control_pid s = 0"
  by (simp add: service_ok_def state_fits_def core_def)

lemma fits_idle:
  assumes "service_ok s"
    "sv_state s \<noteq> SERVICE_START" "sv_state s \<noteq> SERVICE_STOP" "\<not> is_stop_signal (sv_state s)"
  shows "idle_main s"
  using assms by (simp add: service_ok_def state_fits_def idle_main_def)

lemma fits_start:
  assumes "service_ok s" "sv_state s = SERVICE_START"
  shows "if sv_type s = SERVICE_FORKING then sv_control_pid s > 0 \<and> sv_main_pid s = 0
         else sv_control_pid s = 0 \<and> sv_control_command s = None \<and> sv_main_pid s > 0"
    and "sv_type s \<noteq> SERVICE_SIMPLE"
  using assms unfolding service_ok_def state_fits_def by blast+

lemma fits_quiet:
  assumes "service_ok s" "sv_state s \<noteq> SERVICE_START" "\<not> is_stop_signal (sv_state s)"
  shows "quiet_main s"
  using assms by (simp add: service_ok_def state_fits_def)

lemma ratelimit_test_total:
  assumes "rl_interval r > 0" "rl_burst r > 0"
  obtains ok r' where "ratelimit_test ts r = Some (ok, r')" "rl_interval r' > 0" "rl_burst r' > 0"
proof -
  have "\<exists>ok r'. ratelimit_test ts r = Some (ok, r') \<and> rl_interval r' > 0 \<and> rl_burst r' > 0"
    using assms by (auto simp: ratelimit_test_def)
  then show ?thesis using that by blast
qed

lemma service_start_ok:
  assumes "service_ok s" "env_ok e" "\<not> UNIT_IS_ACTIVE_OR_RELOADING (service_active_state s)"
  shows "\<exists>r s'. service_start e s = Some (r, s') \<and>
     (if stage (sv_state s) = 0 then settles s 0 s' else s' = s)"
proof (cases "stage (sv_state s) = 0")
  case False
  with assms(3) show ?thesis
    by (cases "sv_state s")
       (auto simp: service_start_def service_active_state_def service_state_translation_table_def job_defs)
next
  case True
  then have st: "sv_state s \<in> {SERVICE_DEAD, SERVICE_FAILED, SERVICE_AUTO_RESTART}"
    by (cases "sv_state s") auto
  then have nm: "\<not> has_main (sv_state s)" by (auto simp: has_main_def)
  note m = fits_main [OF assms(1) nm] and c = okD(1) [OF assms(1)]
  obtain ok rl where rl: "ratelimit_test (snd (e_now e (x_log s))) (sv_ratelimit s) = Some (ok, rl)"
      "rl_interval rl > 0" "rl_burst rl > 0"
    using ratelimit_test_total c unfolding core_def by blast
  let ?s = "s\<lparr>sv_ratelimit := rl, sv_failure := False, sv_main_pid_known := False,
              sv_main_pid_alien := False, sv_forbid_restart := False\<rparr>"
  have c': "core ?s" using c m rl by (auto simp: core_parts)
  obtain s' where s': "service_enter_start_pre e ?s = Some s'" "settles ?s 0 s'"
    using enter_start_pre_ok [OF c' assms(2)] m by auto
  have "service_ok (s\<lparr>sv_ratelimit := rl\<rparr>)"
    using assms(1) rl by (auto simp: fits_parts)
  then have refused: "settles s 0 (s\<lparr>sv_ratelimit := rl\<rparr>)" by (simp add: settles_def)
  have "settles s 0 s'" using settles_from [OF s'(2)] by simp
  then show ?thesis
    using True st rl s'(1) refused by (auto simp: service_start_def)
qed

lemma ok_forbid: "service_ok s \<Longrightarrow> service_ok (s\<lparr>sv_forbid_restart := b\<rparr>)"
  by (auto simp: fits_parts)

lemma set_state_dead:
  "core s \<Longrightarrow> service_ok (service_set_state e SERVICE_DEAD s)"
  by (auto simp: fits_parts state_sets)

lemma service_stop_ok:
  assumes "service_ok s" "env_ok e" "\<not> UNIT_IS_INACTIVE_OR_FAILED (service_active_state s)"
  shows "\<exists>s'. service_stop e s = Some (None, s') \<and> settles s 4 s' \<and>
     (stage (sv_state s') > 0 \<longrightarrow> sv_forbid_restart s') \<and> sv_state s' \<noteq> SERVICE_AUTO_RESTART \<and>
     (1 \<le> stage (sv_state s) \<and> stage (sv_state s) \<le> 6 \<longrightarrow> s' = s\<lparr>sv_forbid_restart := True\<rparr>)"
proof -
  let ?s = "s\<lparr>sv_forbid_restart := True\<rparr>"
  have ok: "service_ok ?s" using ok_forbid [OF assms(1)] .
  note c = okD(1) [OF ok]
  consider (down) "1 \<le> stage (sv_state s) \<and> stage (sv_state s) \<le> 6"
    | (auto) "sv_state s = SERVICE_AUTO_RESTART"
    | (busy) "sv_state s \<in> {SERVICE_START_PRE, SERVICE_START, SERVICE_START_POST, SERVICE_RELOAD}"
    | (up) "sv_state s \<in> {SERVICE_RUNNING, SERVICE_EXITED}"
    using assms(3)
    by (cases "sv_state s") (auto simp: service_active_state_def service_state_translation_table_def job_defs)
  then show ?thesis
  proof cases
    case down
    then have "service_stop e s = Some (None, ?s)"
      by (cases "sv_state s") (auto simp: service_stop_def Let_def)
    moreover have "4 \<le> phase (sv_state s)" using down by (simp add: stage_phase)
    ultimately show ?thesis using down ok by (auto simp: settles_def)
  next
    case auto
    then have "service_stop e s = Some (None, service_set_state e SERVICE_DEAD ?s)"
      by (simp add: service_stop_def Let_def)
    then show ?thesis using set_state_dead [OF c] auto by (simp add: settles_def)
  next
    case busy
    then have "service_stop e s = Some (None, service_enter_signal e SERVICE_STOP_SIGTERM True ?s)"
      by (auto simp: service_stop_def Let_def)
    moreover have l: "lands ?s SERVICE_STOP_SIGTERM (service_enter_signal e SERVICE_STOP_SIGTERM True ?s)"
      using enter_signal_ok [OF c assms(2)] by simp
    moreover have "\<not> stage (sv_state s) \<le> 6" using busy by auto
    ultimately show ?thesis
      using settles_from [OF lands_settles [OF l], of 4 s] by (auto simp: lands_def)
  next
    case up
    then have "service_stop e s = Some (None, service_enter_stop e True ?s)"
      by (auto simp: service_stop_def Let_def)
    moreover have "quiet_main ?s" using fits_quiet [OF ok] up by (auto simp: is_stop_signal_def)
    then have l: "lands ?s SERVICE_STOP (service_enter_stop e True ?s)"
      using enter_stop_ok [OF c assms(2)] by simp
    moreover have "\<not> stage (sv_state s) \<le> 6" using up by auto
    ultimately show ?thesis
      using settles_from [OF lands_settles [OF l], of 4 s] by (auto simp: lands_def)
  qed
qed

lemma enter_reload_first:
  "service_enter_reload e s =
     run_first e SERVICE_EXEC_RELOAD (service_enter_running e True)
       (\<lambda>s. service_enter_running e True (s\<lparr>sv_reload_failure := True\<rparr>))
       (service_set_state e SERVICE_RELOAD) s"
  unfolding service_enter_reload_def run_first_def ..

lemma service_reload_ok:
  assumes "service_ok s" "env_ok e" "service_active_state s = UNIT_ACTIVE"
  shows "\<exists>s'. service_reload e s = Some (None, s') \<and> settles s 3 s'"
proof -
  have st: "sv_state s \<in> {SERVICE_RUNNING, SERVICE_EXITED}"
    using assms(3) by (cases "sv_state s") (auto simp: service_active_state_def service_state_translation_table_def)
  then have i: "idle_main s" using fits_idle [OF assms(1)] by (auto simp: is_stop_signal_def)
  have "settles s 3 (service_enter_reload e s)"
    unfolding enter_reload_first
  proof (rule run_first_rule [OF okD(1) [OF assms(1)] assms(2)])
    fix s' assume s': "core s'" "sv_conf s' = sv_conf s" "sv_main_command s' = sv_main_command s"
    then have i': "idle_main s'" using i idle_main_cong [of s' s] by simp
    show "settles s 3 (service_enter_running e True s')"
      using settles_from [OF enter_running_ok [OF s'(1) assms(2) i'] s'(2)] .
    have "idle_main (s'\<lparr>sv_reload_failure := True\<rparr>)" using i' by (simp add: idle_main_def)
    then show "settles s 3 (service_enter_running e True (s'\<lparr>sv_reload_failure := True\<rparr>))"
      using settles_from [OF enter_running_ok [OF _ assms(2)], of "s'\<lparr>sv_reload_failure := True\<rparr>"] s'
      by simp
    fix pid :: int assume p: "pid > 0" "sv_timeout s' > 0 \<longrightarrow> x_timer s' = Timer_Armed"
    show "settles s 3 (service_set_state e SERVICE_RELOAD (s'\<lparr>sv_control_pid := pid\<rparr>))"
      using settles_from [OF set_state_busy [OF s'(1) p(2,1) i', of SERVICE_RELOAD] s'(2)] by simp
  qed simp
  then show ?thesis using st by (auto simp: service_reload_def)
qed

end
