(* ===== verification/Service_Live.thy ===== *)
theory Service_Live
  imports Service_Step
begin

section \<open>The measure of a stopping service; processes that exit\<close>

text \<open>
  \<open>rank\<close> goes down with every timeout of a stopping service.  \<open>handled\<close> is what every event handler
  is proved to do; here for the exit of a main process, and the end of a list of control commands.
\<close>

subsection \<open>A measure of how far a stopping service is from rest\<close>

definition total :: "service \<Rightarrow> nat" where
  "total s =
     length (commands s SERVICE_EXEC_START_PRE) + length (commands s SERVICE_EXEC_START) +
     length (commands s SERVICE_EXEC_START_POST) + length (commands s SERVICE_EXEC_RELOAD) +
     length (commands s SERVICE_EXEC_STOP) + length (commands s SERVICE_EXEC_STOP_POST)"

definition remaining :: "service \<Rightarrow> nat" where
  "remaining s =
     (case sv_control_command s of None \<Rightarrow> 0 | Some c \<Rightarrow> length (commands s (fst c)) - snd c)"

definition rank :: "service \<Rightarrow> nat" where
  "rank s = stage (sv_state s) * Suc (total s) + remaining s"

definition stopping :: "service \<Rightarrow> bool" where
  "stopping s \<longleftrightarrow> 1 \<le> stage (sv_state s) \<and> stage (sv_state s) \<le> 6"

definition descends :: "bool \<Rightarrow> service \<Rightarrow> service \<Rightarrow> bool" where
  "descends strict s s' \<longleftrightarrow>
     stage (sv_state s') \<le> 6 \<and>
     (sv_forbid_restart s \<longrightarrow> sv_state s' \<noteq> SERVICE_AUTO_RESTART) \<and>
     (sv_forbid_restart s \<and> stage (sv_state s') > 0 \<longrightarrow> sv_forbid_restart s') \<and>
     (stage (sv_state s') = 0 \<or> (if strict then rank s' < rank s else rank s' \<le> rank s))"

lemma remaining_le: "remaining s \<le> total s"
proof (cases "sv_control_command s")
  case (Some c)
  have "length (commands s (fst c)) \<le> total s" by (cases "fst c") (simp_all add: total_def)
  then show ?thesis using Some by (simp add: remaining_def)
qed (simp add: remaining_def)

lemma lands_descends:
  assumes "lands s st s'" "stage st < stage (sv_state s)" "stopping s"
  shows "descends strict s s'"
proof -
  have le: "stage (sv_state s') < stage (sv_state s)" using assms by (simp add: lands_def)
  have "total s' = total s" using assms(1) by (simp add: lands_def total_def commands_def)
  then have "rank s' \<le> stage (sv_state s') * Suc (total s) + total s"
    using remaining_le [of s'] by (simp add: rank_def)
  also have "\<dots> < Suc (stage (sv_state s')) * Suc (total s)" by simp
  also have "\<dots> \<le> stage (sv_state s) * Suc (total s)"
    using le by (intro mult_le_mono1) simp
  also have "\<dots> \<le> rank s" by (simp add: rank_def)
  finally show ?thesis using assms le by (auto simp: descends_def lands_def stopping_def)
qed

lemma descends_weaken: "descends True s s' \<Longrightarrow> descends False s s'"
  by (auto simp: descends_def)

text \<open>
  Environments in which commands can be started, and services for which stopping does not start
  further commands.
\<close>

definition spawns :: "exec_env \<Rightarrow> bool" where
  "spawns e \<longleftrightarrow>
     (\<forall>l. e_timer e l = None) \<and> (\<forall>l pid. e_watch_pid e l pid = None) \<and>
     (\<forall>l. e_fds e l = None) \<and> (\<forall>l. e_prepare e l = None) \<and> (\<forall>l c. \<exists>pid. e_spawn e l c = Inr pid)"

definition calm :: "exec_env \<Rightarrow> service \<Rightarrow> bool" where
  "calm e s \<longleftrightarrow> \<not> chain_of_starts s \<and> ((\<forall>i. length (commands s i) \<le> 1) \<or> spawns e)"

lemma spawns_spawn:
  assumes "spawns e"
  shows "\<exists>pid s'. service_spawn e c t f n s = (Inr pid, s')"
proof -
  have "fst (service_spawn_prepare e t f s) = None"
    using assms by (simp add: service_spawn_prepare_def spawns_def unit_watch_timer_def Let_def)
  then obtain s1 where "service_spawn_prepare e t f s = (None, s1)"
    by (metis prod.collapse)
  moreover obtain pid where "e_spawn e (x_log s1) (the_command s1 c) = Inr pid"
    using assms unfolding spawns_def by blast
  ultimately show ?thesis
    using assms by (simp add: service_spawn_def Let_def unit_watch_pid_def spawns_def)
qed

text \<open>What every handler has to show: it keeps the invariant, never goes back, and goes down.\<close>

definition handled :: "exec_env \<Rightarrow> service \<Rightarrow> service \<Rightarrow> bool" where
  "handled e s s' \<longleftrightarrow>
     settles s (phase (sv_state s)) s' \<and> (stopping s \<and> calm e s \<longrightarrow> descends False s s')"

lemma handled_lands:
  assumes "lands s1 st s'" "sv_conf s1 = sv_conf s" "sv_forbid_restart s1 = sv_forbid_restart s"
    "phase (sv_state s) \<le> 4" "stage st \<le> 6" "stopping s \<longrightarrow> stage st < stage (sv_state s)"
  shows "handled e s s'"
  using lands_from [OF assms(1-3)] lands_settles [of s st s'] lands_descends [of s st s'] assms(4-)
  by (auto simp: handled_def)

lemma handled_settles:
  assumes "settles s1 n s'" "sv_conf s1 = sv_conf s" "phase (sv_state s) \<le> n" "\<not> stopping s"
  shows "handled e s s'"
  using settles_mono [OF settles_from [OF assms(1,2)] assms(3)] assms(4) by (simp add: handled_def)

lemma handled_stay:
  assumes "service_ok s'" "sv_conf s' = sv_conf s" "sv_state s' = sv_state s"
    "sv_forbid_restart s \<longrightarrow> sv_forbid_restart s'" "stopping s \<longrightarrow> remaining s' \<le> remaining s"
  shows "handled e s s'"
  using assms
  by (auto simp: handled_def settles_def descends_def stopping_def rank_def total_def commands_def)

subsection \<open>A process has exited\<close>

lemma main_exited_kept [simp]:
  "sv_conf (main_exited e pid code status s) = sv_conf s"
  "sv_state (main_exited e pid code status s) = sv_state s"
  "sv_main_pid (main_exited e pid code status s) = 0"
  "sv_control_pid (main_exited e pid code status s) = sv_control_pid s"
  "sv_main_command (main_exited e pid code status s) = sv_main_command s"
  "sv_control_command (main_exited e pid code status s) = sv_control_command s"
  "sv_control_command_id (main_exited e pid code status s) = sv_control_command_id s"
  "sv_forbid_restart (main_exited e pid code status s) = sv_forbid_restart s"
  "sv_ratelimit (main_exited e pid code status s) = sv_ratelimit s"
  "x_timer (main_exited e pid code status s) = x_timer s"
  by (simp_all add: main_exited_def Let_def split: option.split)

lemma control_exited_kept [simp]:
  "sv_conf (control_exited e pid code status s) = sv_conf s"
  "sv_state (control_exited e pid code status s) = sv_state s"
  "sv_main_pid (control_exited e pid code status s) = sv_main_pid s"
  "sv_main_pid_known (control_exited e pid code status s) = sv_main_pid_known s"
  "sv_control_pid (control_exited e pid code status s) = 0"
  "sv_main_command (control_exited e pid code status s) = sv_main_command s"
  "sv_control_command (control_exited e pid code status s) = sv_control_command s"
  "sv_control_command_id (control_exited e pid code status s) = sv_control_command_id s"
  "sv_forbid_restart (control_exited e pid code status s) = sv_forbid_restart s"
  "sv_ratelimit (control_exited e pid code status s) = sv_ratelimit s"
  "x_timer (control_exited e pid code status s) = x_timer s"
  by (simp_all add: control_exited_def Let_def split: option.split)

text \<open>The service whose main process was just lost, but for its state as it was before.\<close>

definition lost_main :: "service \<Rightarrow> service \<Rightarrow> bool" where
  "lost_main s s' \<longleftrightarrow>
     core s' \<and> sv_conf s' = sv_conf s \<and> sv_state s' = sv_state s \<and> sv_main_pid s' = 0 \<and>
     sv_control_pid s' = sv_control_pid s \<and> sv_control_command s' = sv_control_command s \<and>
     sv_forbid_restart s' = sv_forbid_restart s \<and> x_timer s' = x_timer s"

lemma main_gone_ok:
  assumes "service_ok s" "env_ok e" "sv_main_pid s > 0" "lost_main s s'" "sv_main_command s' = None"
  shows "\<exists>t. main_gone e success s' = Some t \<and> handled e s t"
proof -
  note l = assms(4) [unfolded lost_main_def]
  have c: "core s'" and i: "idle_main s'" using l assms(5) by (simp_all add: idle_main_def)
  have hm: "has_main (sv_state s)" using assms(1,3) by (simp add: service_ok_def state_fits_def)
  have rem: "remaining s' = remaining s" using l by (simp add: remaining_def commands_def split: option.split)
  have stay: "service_ok s'" if "sv_state s \<noteq> SERVICE_START"
    using that assms(1,5) l by (auto simp: service_ok_def state_fits_def supervised_def chain_of_starts_def
        commands_def quiet_main_def)
  consider "sv_state s \<in> {SERVICE_START_POST, SERVICE_RELOAD, SERVICE_STOP}"
    | "sv_state s = SERVICE_START" | "sv_state s = SERVICE_RUNNING" | "is_stop_signal (sv_state s)"
    using hm by (auto simp: has_main_def is_stop_signal_def)
  then show ?thesis
  proof cases
    case 1
    then have "main_gone e success s' = Some s'" using l by (auto simp: main_gone_def)
    then show ?thesis using handled_stay [OF stay, of s e] l rem 1 by auto
  next
    case 2
    have t: "sv_type s \<in> {SERVICE_ONESHOT, SERVICE_DBUS, SERVICE_NOTIFY}"
      using assms(1,3) 2 by (cases "sv_type s") (auto simp: service_ok_def state_fits_def)
    have "settles s' 1 (service_enter_start_post e s')" "settles s' 1 (service_enter_running e success s')"
      using settles_mono [OF enter_start_post_ok [OF c assms(2) i], of 1]
        settles_mono [OF enter_running_ok [OF c assms(2) i], of 1] by simp_all
    moreover have "settles s' 1 (service_enter_signal e SERVICE_FINAL_SIGTERM False s')"
      using lands_settles [OF enter_final_ok [OF c]] by simp
    ultimately show ?thesis
      using t 2 l handled_settles [of s' 1 _ s e] by (auto simp: main_gone_def stopping_def)
  next
    case 3
    then show ?thesis
      using l enter_running_ok [OF c assms(2) i] handled_settles [of s' 3 _ s e]
      by (auto simp: main_gone_def stopping_def)
  next
    case 4
    have "handled e s (if control_pid_good s' then s' else service_enter_stop_post e success s')"
      using handled_stay [OF stay, of s e] l rem 4
        handled_lands [OF enter_stop_post_ok [OF c assms(2)], of s e success]
      by (auto simp: is_stop_signal_def)
    then show ?thesis using 4 l by (auto simp: main_gone_def is_stop_signal_def)
  qed
qed

text \<open>The next command of a chain, in the state the service is in.\<close>

lemma command_next_some:
  "command_next s c = Some c' \<longleftrightarrow>
     Suc (snd c) < length (commands s (fst c)) \<and> c' = (fst c, Suc (snd c))"
  by (auto simp: command_next_def)

lemma core_next_main:
  assumes "core s" "sv_main_command s = Some c" "command_next s c = Some c'" "sv_main_pid s = 0"
  shows "core (s\<lparr>sv_main_command := Some c'\<rparr>)"
proof -
  have "main_command_ok (s\<lparr>sv_main_command := Some c'\<rparr>)"
    using assms by (cases c) (simp add: core_def main_command_ok_def command_next_some commands_def)
  then show ?thesis
    using assms by (simp add: core_def quiet_main_def control_command_ok_def commands_def)
qed

lemma core_next_control:
  assumes "core s" "sv_control_command s = Some c" "command_next s c = Some c'"
  shows "core (s\<lparr>sv_control_command := Some c'\<rparr>)"
proof -
  have "control_command_ok (s\<lparr>sv_control_command := Some c'\<rparr>)"
    using assms by (cases c) (simp add: core_def control_command_ok_def command_next_some commands_def)
  then show ?thesis
    using assms by (simp add: core_def quiet_main_def main_command_ok_def commands_def)
qed

lemma run_next_main_ok:
  assumes "service_ok s" "env_ok e" "sv_main_pid s > 0" "lost_main s s'"
    and "sv_main_command s' = sv_main_command s" "has_next s' (sv_main_command s')"
  shows "\<exists>t. service_run_next_main e success s' = Some t \<and> handled e s t"
proof -
  note l = assms(4) [unfolded lost_main_def]
  obtain c c' where cc: "sv_main_command s' = Some c" "command_next s' c = Some c'"
    using assms(6) by (auto simp: has_next_def split: option.splits)
  have mc: "fst c = SERVICE_EXEC_START" "Suc (snd c) < length (commands s' (fst c))" "c' = (fst c, Suc (snd c))"
    using l cc by (cases c; simp add: core_def main_command_ok_def command_next_some)+
  have conf: "service_config_ok (sv_conf s')" using l unfolding core_def by blast
  have one: "sv_type s' = SERVICE_ONESHOT" using verify_start(2) [OF conf] mc by fastforce
  have nq: "\<not> quiet_main s" using one l cc assms(3,5) by (simp add: quiet_main_def)
  then have st: "sv_state s = SERVICE_START \<or> is_stop_signal (sv_state s)"
    using assms(1) by (simp add: service_ok_def state_fits_def)
  have cp: "sv_control_pid s = 0" using assms(1) nq by (simp add: service_ok_def core_def)
  have chain: "chain_of_starts s"
    using one mc l by (simp add: chain_of_starts_def commands_def)
  then have calm: "\<not> calm e s" by (simp add: calm_def)
  let ?s1 = "service_unwatch_main_pid ((fail_unless success s')\<lparr>sv_main_command := Some c'\<rparr>)"
  have "command_next (fail_unless success s') c = Some c'"
    using cc(2) by (simp add: command_next_def commands_def)
  then have c1: "core ?s1"
    using core_next_main [of "fail_unless success s'" c c'] l cc(1) by simp
  have q1: "quiet_main ?s1" using l by (simp add: quiet_main_def)
  obtain r s2 where sp: "service_spawn e c' False True (sc_notify_access (sv_conf s') \<noteq> NOTIFY_NONE) ?s1 = (r, s2)"
    by fastforce
  have sm: "same ?s1 s2" using spawn_same [OF sp] .
  note f = same_fields [OF sm]
  have c2: "core s2" using core_same_rule [OF c1 sm] .
  show ?thesis
  proof (cases r)
    case (Inl err)
    have "quiet_main s2" using q1 quiet_main_cong [of s2 ?s1] f by simp
    then have "lands s2 SERVICE_STOP (service_enter_stop e False s2)"
      using enter_stop_ok [OF c2 assms(2)] by simp
    then have "settles s2 (phase (sv_state s)) (service_enter_stop e False s2)"
      by (rule lands_settles) (use st in \<open>auto simp: is_stop_signal_def\<close>)
    then have "settles s (phase (sv_state s)) (service_enter_stop e False s2)"
      by (rule settles_from) (simp add: f(1) l)
    then show ?thesis
      using Inl cc one sp calm by (simp add: service_run_next_main_def Let_def handled_def)
  next
    case (Inr pid)
    let ?t = "snd (service_set_main_pid e pid s2)"
    have c3: "core ?t" using set_main_pid_core [OF c2] f l cp by simp
    have m: "sv_main_pid ?t > 0" using spawn_pid [OF sp [unfolded Inr] assms(2)] set_main_pid_new by simp
    have k: "sv_state ?t = sv_state s" "sv_conf ?t = sv_conf s" "sv_control_pid ?t = 0"
      "sv_control_command ?t = sv_control_command s"
      using f l cp by simp_all
    have ty: "sv_type ?t = SERVICE_ONESHOT" and ch: "chain_of_starts ?t"
      using k(2) one l chain by (simp_all add: chain_of_starts_def commands_def)
    have cn: "sv_state s = SERVICE_START \<Longrightarrow> sv_control_command s = None"
      using assms(1) one l by (simp add: service_ok_def state_fits_def)
    have "state_fits ?t"
    proof (cases "sv_state s = SERVICE_START")
      case True
      then show ?thesis
        using k ty m cn by (simp add: state_fits_def supervised_def state_sets)
    next
      case False
      then have "is_stop_signal (sv_state s)" using st by simp
      then show ?thesis
        using k ty m ch False by (auto simp: state_fits_def supervised_def state_sets)
    qed
    then have "service_ok ?t" using c3 by (simp add: service_ok_def)
    then have "settles s (phase (sv_state s)) ?t" using f l by (simp add: settles_def)
    then show ?thesis
      using Inr cc one sp calm by (simp add: service_run_next_main_def Let_def handled_def)
  qed
qed

lemma main_exit_ok:
  assumes "service_ok s" "env_ok e" "sv_main_pid s > 0" "pid_same s s1"
  shows "\<exists>t. service_main_exit e pid code status success s1 = Some t \<and> handled e s t"
proof -
  define s2 where "s2 = main_exited e pid code status s1"
  define ok where "ok = command_success s2 (sv_main_command s2) success"
  define s3 where "s3 = s2\<lparr>sv_failure := sv_failure s2 \<or> \<not> ok\<rparr>"
  have eq: "service_main_exit e pid code status success s1 =
      (if has_next s3 (sv_main_command s3) \<and> ok then service_run_next_main e ok s3
       else main_gone e ok (s3\<lparr>sv_main_command := None\<rparr>))"
    unfolding service_main_exit_def Let_def s3_def ok_def s2_def ..
  have "core s3"
    using okD(1) [OF assms(1)] assms(4) by (auto simp: core_parts pid_same_def s3_def s2_def)
  then have l: "lost_main s s3" "sv_main_command s3 = sv_main_command s"
    using assms(4) by (simp_all add: lost_main_def pid_same_def s3_def s2_def)
  then have l': "lost_main s (s3\<lparr>sv_main_command := None\<rparr>)" by (simp add: lost_main_def)
  show ?thesis
    unfolding eq
    using run_next_main_ok [OF assms(1-3) l] main_gone_ok [OF assms(1-3) l'] by simp
qed

text \<open>The same for a control process.\<close>

definition lost_control :: "service \<Rightarrow> service \<Rightarrow> bool" where
  "lost_control s s' \<longleftrightarrow>
     core s' \<and> sv_conf s' = sv_conf s \<and> sv_state s' = sv_state s \<and> sv_main_pid s' = sv_main_pid s \<and>
     sv_control_pid s' = 0 \<and> sv_main_command s' = sv_main_command s \<and>
     sv_forbid_restart s' = sv_forbid_restart s \<and> x_timer s' = x_timer s"

lemma control_quiet: "service_ok s \<Longrightarrow> sv_control_pid s > 0 \<Longrightarrow> quiet_main s"
  by (auto simp: service_ok_def core_def)

lemma lost_control_quiet:
  "service_ok s \<Longrightarrow> sv_control_pid s > 0 \<Longrightarrow> lost_control s s' \<Longrightarrow> quiet_main s'"
  using control_quiet quiet_main_cong [of s' s] by (simp add: lost_control_def)

lemma lost_control_idle:
  assumes "service_ok s" "lost_control s s'" "sv_state s \<in> {SERVICE_START_POST, SERVICE_RELOAD}"
  shows "idle_main s'"
  using fits_idle [OF assms(1)] idle_main_cong [of s' s] assms(2,3)
  by (auto simp: lost_control_def is_stop_signal_def)

lemma control_running_ok:
  assumes "service_ok s" "env_ok e" "lost_control s s'"
    "sv_state s \<in> {SERVICE_START_POST, SERVICE_RELOAD}"
  shows "\<exists>s1. (if success then try_main_pid e s' else Some s') = Some s1 \<and>
     handled e s (service_enter_running e True (s1\<lparr>sv_reload_failure := b\<rparr>))"
proof -
  have c: "core s'" using assms(3) by (simp add: lost_control_def)
  have i: "idle_main s'" using lost_control_idle [OF assms(1,3,4)] .
  obtain s1 where s1: "(if success then try_main_pid e s' else Some s') = Some s1"
      "pid_same s' s1" "core s1"
    using try_main_pid_ok [OF c i, of e] pid_same_refl [OF c] c by (cases success) auto
  let ?t = "s1\<lparr>sv_reload_failure := b\<rparr>"
  have "core ?t" "idle_main ?t" using s1 i by (simp_all add: idle_main_def pid_same_def)
  then have "settles ?t 3 (service_enter_running e True ?t)" using enter_running_ok assms(2) by blast
  moreover have "sv_conf ?t = sv_conf s" using s1(2) assms(3) by (simp add: pid_same_def lost_control_def)
  ultimately have "handled e s (service_enter_running e True ?t)"
    using handled_settles [of ?t 3 _ s e] assms(4) by (auto simp: stopping_def)
  then show ?thesis using s1(1) by blast
qed

lemma control_gone_ok:
  assumes "service_ok s" "env_ok e" "sv_control_pid s > 0" "lost_control s s'"
    "sv_control_command s' = None"
  shows "\<exists>t. control_gone e success s' = Some t \<and> handled e s t"
proof -
  note l = assms(4) [unfolded lost_control_def]
  have c: "core s'" and st': "sv_state s' = sv_state s" and conf: "sv_conf s' = sv_conf s"
    and fb: "sv_forbid_restart s' = sv_forbid_restart s"
    using l by simp_all
  have hc: "has_control (sv_state s)" using assms(1,3) by (simp add: service_ok_def state_fits_def)
  have signal: "lands s' st (service_enter_signal e st b s')"
    if "st \<in> {SERVICE_STOP_SIGTERM, SERVICE_STOP_SIGKILL, SERVICE_FINAL_SIGTERM, SERVICE_FINAL_SIGKILL}" for st b
    using enter_signal_ok [OF c assms(2) that] .
  have final: "handled e s (service_enter_signal e SERVICE_FINAL_SIGTERM False s')"
    if "sv_state s = SERVICE_START_PRE \<or> sv_state s = SERVICE_START"
    using handled_lands [OF signal conf fb] that by (auto simp: stopping_def)
  have stay: "service_ok s'" if "is_stop_signal (sv_state s)"
  proof -
    have "supervised s' = supervised s"
      by (simp add: supervised_def chain_of_starts_def commands_def conf st')
    then have armed: "supervised s' \<longrightarrow> x_timer s' = Timer_Armed"
      using assms(1) l by (simp add: service_ok_def state_fits_def)
    have "sv_control_pid s' = 0" using l by simp
    then show ?thesis
      using that armed c assms(5) st' lost_control_quiet [OF assms(1,3,4)]
      by (auto simp: service_ok_def state_fits_def state_sets)
  qed
  have dead: "handled e s (service_enter_dead e success True s')"
    if "sv_state s \<in> {SERVICE_STOP_POST, SERVICE_FINAL_SIGTERM, SERVICE_FINAL_SIGKILL}"
    using handled_lands [OF enter_dead_ok [OF c] conf fb] that by (auto simp: stopping_def)
  consider "sv_state s = SERVICE_START_PRE" | "sv_state s = SERVICE_START"
    | "sv_state s \<in> {SERVICE_START_POST, SERVICE_RELOAD}" | "sv_state s = SERVICE_STOP"
    | "is_stop_signal (sv_state s)"
    | "sv_state s \<in> {SERVICE_STOP_POST, SERVICE_FINAL_SIGTERM, SERVICE_FINAL_SIGKILL}"
    using hc by (auto simp: has_control_def is_stop_signal_def)
  then show ?thesis
  proof cases
    case 1
    have "sv_main_pid s' = 0" using fits_main [OF assms(1)] 1 l by (simp add: has_main_def)
    then obtain t where "service_enter_start e s' = Some t" "settles s' 1 t"
      using enter_start_ok [OF c assms(2)] l by blast
    moreover have "handled e s t"
      using handled_settles [OF \<open>settles s' 1 t\<close> conf] 1 by (simp add: stopping_def)
    ultimately show ?thesis using 1 st' final by (simp add: control_gone_def)
  next
    case 2
    have ty: "sv_type s' = SERVICE_FORKING"
      using assms(1,3) 2 conf by (simp add: service_ok_def state_fits_def split: if_splits)
    then have i: "idle_main s'" by (simp add: idle_main_def)
    obtain s1 where s1: "try_main_pid e s' = Some s1" "pid_same s' s1" "core s1"
      using try_main_pid_ok [OF c i] by blast
    have "idle_main s1" "sv_conf s1 = sv_conf s"
      using ty s1(2) conf by (simp_all add: idle_main_def pid_same_def)
    then have "handled e s (service_enter_start_post e s1)"
      using handled_settles [OF enter_start_post_ok [OF s1(3) assms(2)]] 2 by (simp add: stopping_def)
    then show ?thesis using 2 st' ty s1(1) final by (simp add: control_gone_def)
  next
    case 3
    then show ?thesis
      using control_running_ok [OF assms(1,2,4) 3, of success "\<not> success"] st'
      by (auto simp: control_gone_def)
  next
    case 4
    have "handled e s (service_enter_signal e SERVICE_STOP_SIGTERM success s')"
      using handled_lands [OF signal conf fb] 4 by simp
    then show ?thesis using 4 st' by (simp add: control_gone_def)
  next
    case 5
    have r: "remaining s' = 0" using assms(5) by (simp add: remaining_def)
    have "handled e s (if main_pid_good e s' \<le> 0 then service_enter_stop_post e success s' else s')"
      using handled_stay [OF stay [OF 5] conf st'] fb r
        handled_lands [OF enter_stop_post_ok [OF c assms(2)] conf fb] 5
      by (auto simp: is_stop_signal_def)
    then show ?thesis using 5 st' by (auto simp: control_gone_def is_stop_signal_def)
  next
    case 6
    then show ?thesis using dead st' by (auto simp: control_gone_def)
  qed
qed

end
