(* ===== verification/Service_Events_Ok.thy ===== *)
theory Service_Events_Ok
  imports Service_Live
begin

section \<open>Every event keeps the invariant of a service\<close>

text \<open>
  The remaining handlers, and \<open>service_dispatch_ok\<close>, which sums them up.
\<close>

lemma spawned_control_ok:
  assumes "service_ok s" "lost_control s s'" "quiet_main s'" "pid > 0" "has_control (sv_state s)"
    "\<not> (sv_state s = SERVICE_START \<and> sv_type s \<noteq> SERVICE_FORKING)"
    "same s' s2" "sv_timeout s2 > 0 \<longrightarrow> x_timer s2 = Timer_Armed"
  shows "service_ok (s2\<lparr>sv_control_pid := pid\<rparr>)"
proof -
  note l = assms(2) [unfolded lost_control_def] and f = same_fields [OF assms(7)]
  let ?t = "s2\<lparr>sv_control_pid := pid\<rparr>"
  have k: "sv_state ?t = sv_state s" "sv_conf ?t = sv_conf s" "sv_main_pid ?t = sv_main_pid s"
    "sv_main_command ?t = sv_main_command s"
    using f l by simp_all
  have q: "quiet_main ?t" using assms(3) quiet_main_cong [of ?t s'] f by simp
  have c2: "core s2" using core_same_rule [OF _ assms(7)] l by simp
  then have c: "core ?t"
    using q assms(4) by (simp add: core_def main_command_ok_def control_command_ok_def commands_def)
  have main: "sv_main_pid s > 0 \<longrightarrow> has_main (sv_state s)" "sv_main_command s \<noteq> None \<longrightarrow> has_main (sv_state s)"
    "sv_state s = SERVICE_START \<longrightarrow> sv_type s = SERVICE_FORKING \<and> sv_main_pid s = 0"
    "sv_type s = SERVICE_ONESHOT \<and> sv_main_command s \<noteq> None \<longrightarrow>
        sv_state s = SERVICE_START \<or> sv_state s = SERVICE_STOP \<or> is_stop_signal (sv_state s)"
    using assms(1,6) unfolding service_ok_def state_fits_def by auto
  have "has_timer (sv_state s)" "sv_state s \<noteq> SERVICE_AUTO_RESTART"
    using assms(5) by (auto simp: has_control_def has_timer_def)
  then have "state_fits ?t"
    unfolding state_fits_def k using assms(4,5,8) main q f(1) l by (simp add: supervised_def)
  then show ?thesis using c by (simp add: service_ok_def)
qed

lemma run_next_control_ok:
  assumes "service_ok s" "env_ok e" "sv_control_pid s > 0" "lost_control s s'"
    and "sv_control_command s' = sv_control_command s" "has_next s' (sv_control_command s')"
  shows "\<exists>t. service_run_next_control e success s' = Some t \<and> handled e s t"
proof -
  note l = assms(4) [unfolded lost_control_def]
  obtain c c' where cc: "sv_control_command s' = Some c" "command_next s' c = Some c'"
    using assms(6) by (auto simp: has_next_def split: option.splits)
  have mc: "Suc (snd c) < length (commands s' (fst c))" "c' = (fst c, Suc (snd c))"
    using cc by (simp_all add: command_next_some)
  have core': "core s'" and conf: "sv_conf s' = sv_conf s" and fb: "sv_forbid_restart s' = sv_forbid_restart s"
    and st: "sv_state s' = sv_state s" using l by simp_all
  have cfg: "service_config_ok (sv_conf s')" using core' by (simp add: core_def)
  have "fst c = SERVICE_EXEC_START \<longrightarrow> sv_type s' = SERVICE_FORKING"
    and idc: "sv_control_command_id s' = Some (fst c)"
    using core' cc(1) by (cases c; simp add: core_def control_command_ok_def)+
  then have id: "sv_control_command_id s' \<noteq> Some SERVICE_EXEC_START"
    using verify_start(2) [OF cfg] mc(1) by auto
  have hc: "has_control (sv_state s)" using assms(1,3) by (simp add: service_ok_def state_fits_def)
  have q: "quiet_main s'" using lost_control_quiet [OF assms(1,3,4)] .
  let ?s1 = "service_unwatch_control_pid ((fail_unless success s')\<lparr>sv_control_command := Some c'\<rparr>)"
  have "command_next (fail_unless success s') c = Some c'"
    using cc(2) by (simp add: command_next_def commands_def)
  then have c1: "core ?s1"
    using core_next_control [of "fail_unless success s'" c c'] core' cc(1) by simp
  have l1: "lost_control s ?s1" using c1 l by (simp add: lost_control_def)
  have q1: "quiet_main ?s1" using q quiet_main_cong [of ?s1 s'] by simp
  obtain r s2 where sp: "service_spawn e c' True False False ?s1 = (r, s2)" by fastforce
  have sm: "same ?s1 s2" using spawn_same [OF sp] .
  note f = same_fields [OF sm]
  have c2: "core s2" using core_same_rule [OF c1 sm] .
  have q2: "quiet_main s2" using q1 quiet_main_cong [of s2 ?s1] f by simp
  have conf2: "sv_conf s2 = sv_conf s" and fb2: "sv_forbid_restart s2 = sv_forbid_restart s"
    and st2: "sv_state s2 = sv_state s"
    using f conf fb st by simp_all
  show ?thesis
  proof (cases r)
    case (Inr pid)
    have pid: "pid > 0" using spawn_pid(1) [OF sp [unfolded Inr] assms(2)] by simp
    have armed: "sv_timeout s2 > 0 \<longrightarrow> x_timer s2 = Timer_Armed"
      using spawn_armed [OF sp [unfolded Inr]] f(1) by simp
    have ns: "\<not> (sv_state s = SERVICE_START \<and> sv_type s \<noteq> SERVICE_FORKING)"
      using fits_start(1) [OF assms(1)] assms(3) by (auto split: if_splits)
    have ok: "service_ok (s2\<lparr>sv_control_pid := pid\<rparr>)"
      using spawned_control_ok [OF assms(1) l1 q1 pid hc ns sm armed] .
    have "remaining (s2\<lparr>sv_control_pid := pid\<rparr>) \<le> remaining s"
      using cc assms(5) mc f(1,6) conf by (simp add: remaining_def commands_def)
    then have "handled e s (s2\<lparr>sv_control_pid := pid\<rparr>)"
      using handled_stay [OF ok] conf2 fb2 st2 by simp
    then show ?thesis using Inr cc id sp by (simp add: service_run_next_control_def Let_def)
  next
    case (Inl err)
    have "1 < length (commands s (fst c))" using mc(1) conf by (simp add: commands_def)
    then have "\<not> (\<forall>i. length (commands s i) \<le> 1)" by (auto simp: not_le)
    moreover have "\<not> spawns e"
      using spawns_spawn [of e c' True False False ?s1] sp Inl by auto
    ultimately have nc: "\<not> calm e s" by (auto simp: calm_def)
    have sig: "lands s2 st (service_enter_signal e st False s2)"
      if "st \<in> {SERVICE_STOP_SIGTERM, SERVICE_FINAL_SIGTERM}" for st
      using enter_signal_ok [OF c2 assms(2), of st] that by auto
    have ph: "phase (sv_state s) \<le> 4" using hc by (auto simp: has_control_def)
    have down: "handled e s t" if "lands s2 st t" "stage st \<le> 6" for st t
      using settles_from [OF lands_settles [OF that ph] conf2] nc by (simp add: handled_def)
    let ?s3 = "s2\<lparr>sv_reload_failure := True\<rparr>"
    have up: "handled e s (service_enter_running e True ?s3)" if "sv_state s = SERVICE_RELOAD"
    proof -
      have "idle_main ?s1" using lost_control_idle [OF assms(1) l1] that by simp
      then have "idle_main ?s3" using f by (simp add: idle_main_def)
      then show ?thesis
        using handled_settles [OF enter_running_ok [OF _ assms(2)], of ?s3 s e True] c2 conf2 that
        by (simp add: stopping_def)
    qed
    show ?thesis
      using Inl cc id sp st2 up down [OF sig] down [OF enter_dead_ok [OF c2]]
        down [OF enter_stop_ok [OF c2 assms(2) q2]]
      by (simp add: service_run_next_control_def Let_def)
  qed
qed

lemma control_exit_ok:
  assumes "service_ok s" "env_ok e" "sv_control_pid s > 0"
  shows "\<exists>t. service_control_exit e pid code status success s = Some t \<and> handled e s t"
proof -
  define s2 where "s2 = control_exited e pid code status s"
  define ok where "ok = command_success s2 (sv_control_command s2) success"
  define s3 where "s3 = s2\<lparr>sv_failure := sv_failure s2 \<or> \<not> ok\<rparr>"
  have eq: "service_control_exit e pid code status success s =
      (if has_next s3 (sv_control_command s3) \<and> ok then service_run_next_control e ok s3
       else control_gone e ok (s3\<lparr>sv_control_command := None, sv_control_command_id := None\<rparr>))"
    unfolding service_control_exit_def Let_def s3_def ok_def s2_def ..
  have "core s3"
    using okD(1) [OF assms(1)]
    by (simp add: core_def main_command_ok_def control_command_ok_def quiet_main_def commands_def
        s3_def s2_def)
  then have l: "lost_control s s3" "sv_control_command s3 = sv_control_command s"
    by (simp_all add: lost_control_def s3_def s2_def)
  then have l': "lost_control s (s3\<lparr>sv_control_command := None, sv_control_command_id := None\<rparr>)"
    by (simp add: lost_control_def)
  show ?thesis
    unfolding eq
    using run_next_control_ok [OF assms l] control_gone_ok [OF assms l'] by simp
qed

lemma service_ok_act [simp]: "service_ok (act a s) = service_ok s"
  unfolding service_ok_def state_fits_def supervised_def chain_of_starts_def quiet_main_def commands_def
  by (simp add: core_same [OF same_act])

lemma handled_same: "handled e s s' \<Longrightarrow> handled e s (act a s')"
proof -
  assume h: "handled e s s'"
  have "rank (act a s') = rank s'"
    by (simp add: rank_def total_def remaining_def commands_def split: option.split)
  then show ?thesis using h by (simp add: handled_def settles_def descends_def)
qed

lemma pid_same_ok:
  assumes "service_ok s" "pid_same s s'" "sv_main_pid s > 0" "sv_main_pid s' > 0"
  shows "service_ok s'"
proof -
  note p = assms(2) [unfolded pid_same_def]
  have q: "quiet_main s' = quiet_main s" using p assms(3,4) by (simp add: quiet_main_def)
  have "core s'"
    using okD(1) [OF assms(1)] p q
    by (simp add: core_def main_command_ok_def control_command_ok_def commands_def)
  moreover have nf: "sv_state s = SERVICE_START \<longrightarrow> sv_type s \<noteq> SERVICE_FORKING"
    using fits_start(1) [OF assms(1)] assms(3) by (auto split: if_splits)
  have "state_fits s'"
    using okD(2) [OF assms(1)] p q assms(3,4) nf
    by (simp add: state_fits_def supervised_def chain_of_starts_def commands_def)
  then show ?thesis using calculation by (simp add: service_ok_def)
qed

lemma sigchld_ok:
  assumes "service_ok s" "env_ok e" "pid > 0"
  shows "\<exists>t. service_sigchld_event e pid code status s = Some t \<and> handled e s t"
proof -
  consider "sv_main_pid s = pid" | "sv_main_pid s \<noteq> pid" "sv_control_pid s = pid"
    | "sv_main_pid s \<noteq> pid" "sv_control_pid s \<noteq> pid" by blast
  then show ?thesis
  proof cases
    case 1
    then have m: "sv_main_pid s > 0" using assms(3) by simp
    obtain r s1 where s1: "service_load_pid_file e s = (r, s1)" by fastforce
    note p = load_pid_file_same [OF okD(1) [OF assms(1)] s1]
    show ?thesis
    proof (cases r)
      case None
      then have ok: "service_ok s1" using pid_same_ok [OF assms(1) _ m] p by simp
      have "remaining s1 = remaining s"
        using p by (simp add: pid_same_def remaining_def commands_def split: option.split)
      then have "handled e s s1" using handled_stay [OF ok] p by (simp add: pid_same_def)
      then show ?thesis using 1 s1 None assms(3) by (simp add: service_sigchld_event_def Let_def)
    next
      case (Some err)
      have "pid_same s s1" using p by simp
      then show ?thesis
        using main_exit_ok [OF assms(1,2) m, of s1] handled_same 1 s1 Some assms(3)
        by (fastforce simp: service_sigchld_event_def Let_def)
    qed
  next
    case 2
    then show ?thesis
      using control_exit_ok [OF assms(1,2)] handled_same assms(3)
      by (fastforce simp: service_sigchld_event_def Let_def)
  next
    case 3
    have "handled e s s" using handled_stay [OF assms(1)] by simp
    then show ?thesis
      using 3 assms(3) handled_same by (simp add: service_sigchld_event_def Let_def)
  qed
qed

subsection \<open>Timeouts and empty control groups\<close>

lemma core_elapsed [simp]: "core (s\<lparr>x_timer := t\<rparr>) = core s"
  by (simp add: core_def main_command_ok_def control_command_ok_def quiet_main_def commands_def)

lemma enter_restart_ok:
  assumes "core s"
  shows "lands s SERVICE_DEAD (service_enter_restart e s) \<and>
    sv_state (service_enter_restart e s) \<noteq> SERVICE_AUTO_RESTART"
proof -
  have no: "sv_state (service_enter_dead e b False s') \<noteq> SERVICE_AUTO_RESTART" for b s'
    unfolding service_enter_dead.simps [of e b False s'] by (simp add: Let_def)
  define rt where "rt = (if e_has_job e (x_log s)
     then unit_watch_timer e (sc_restart_usec (sv_conf s)) s else (None, s))"
  obtain r s1 where rt: "rt = (r, s1)" by fastforce
  have "same s (snd rt)" by (simp add: rt_def same_watch_timer)
  then have sm: "same s s1" by (simp add: rt)
  have c1: "core s1" using core_same_rule [OF assms sm] .
  note k1 = same_fields(1,17) [OF sm]
  let ?s2 = "service_enter_dead e True False s1"
  let ?s3 = "act (Add_Start_Job (e_add_job e (x_log ?s2))) ?s2"
  have d2: "lands s SERVICE_DEAD ?s2" using lands_from [OF enter_dead_ok [OF c1] k1] .
  have ok3: "service_ok ?s3"
    using d2 by (simp add: lands_def)
  have z: "stage (sv_state ?s2) = 0" using d2 by (simp add: lands_def)
  have d3: "lands s SERVICE_DEAD ?s3" using d2 ok3 by (simp add: lands_def)
  have d4: "lands s SERVICE_DEAD (service_enter_dead e False False ?s3)"
    using enter_dead_ok [OF okD(1) [OF ok3], of e False False] no d2
    by (auto simp: lands_def)
  have d1: "lands s SERVICE_DEAD (service_enter_dead e False False s1)"
    using lands_from [OF enter_dead_ok [OF c1] k1] .
  show ?thesis
    unfolding service_enter_restart_def rt_def [symmetric] rt prod.case Let_def
    using d1 d3 d4 no by (cases r; cases "e_add_job e (x_log ?s2)") simp_all
qed

lemma timer_event_ok:
  assumes "service_ok s" "env_ok e" "x_timer s = Timer_Armed"
  shows "\<exists>t. service_timer_event e (s\<lparr>x_timer := Timer_Elapsed\<rparr>) = Some t \<and>
     handled e s t \<and> (stopping s \<longrightarrow> descends True s t)"
proof -
  let ?s = "s\<lparr>x_timer := Timer_Elapsed\<rparr>"
  have c: "core ?s" using okD(1) [OF assms(1)] by simp
  have conf: "sv_conf ?s = sv_conf s" and fb: "sv_forbid_restart ?s = sv_forbid_restart s" by simp_all
  have ht: "has_timer (sv_state s)" using okD(2) [OF assms(1)] assms(3) by (auto simp: state_fits_def)
  have down: "handled e s t \<and> (stopping s \<longrightarrow> descends True s t)"
    if "lands ?s st t" "stage st < stage (sv_state s)" "stage st \<le> 6" "phase (sv_state s) \<le> 4" for st t
    using handled_lands [OF that(1) conf fb that(4,3)] that(2)
      lands_descends [OF lands_from [OF that(1) conf fb]] by simp
  have sig: "lands ?s st (service_enter_signal e st False ?s)"
    if "st \<in> {SERVICE_STOP_SIGTERM, SERVICE_STOP_SIGKILL, SERVICE_FINAL_SIGTERM, SERVICE_FINAL_SIGKILL}" for st
    using enter_signal_ok [OF c assms(2) that] .
  note post = enter_stop_post_ok [OF c assms(2), of False] and dead = enter_dead_ok [OF c, of e False True]
  show ?thesis
  proof (cases "sv_state s")
    case SERVICE_START_POST
    then have "quiet_main ?s" using fits_quiet [OF assms(1)] by (simp add: quiet_main_def is_stop_signal_def)
    then show ?thesis
      using down [OF enter_stop_ok [OF c assms(2)]] SERVICE_START_POST by (simp add: service_timer_event_def)
  next
    case SERVICE_RELOAD
    let ?t = "?s\<lparr>sv_reload_failure := True\<rparr>"
    have "idle_main s" using fits_idle [OF assms(1)] SERVICE_RELOAD by (simp add: is_stop_signal_def)
    then have "idle_main ?t" "core ?t" using c by (simp_all add: idle_main_def)
    then show ?thesis
      using handled_settles [OF enter_running_ok [OF _ assms(2)], of ?t s e True] SERVICE_RELOAD
      by (simp add: service_timer_event_def stopping_def)
  next
    case SERVICE_AUTO_RESTART
    have "settles s 5 (service_enter_restart e ?s)"
      using enter_restart_ok [OF c, of e] stage_phase(2) by (auto simp: lands_def settles_def)
    then show ?thesis
      using SERVICE_AUTO_RESTART by (simp add: service_timer_event_def handled_def stopping_def)
  qed (use down [OF sig] down [OF post] down [OF dead] ht in
        \<open>simp_all add: service_timer_event_def has_timer_def\<close>)
qed

lemma cgroup_event_ok:
  assumes "service_ok s" "env_ok e"
  shows "handled e s (service_cgroup_notify_event e s)"
proof -
  note c = okD(1) [OF assms(1)]
  have stay: "handled e s s" using handled_stay [OF assms(1)] by simp
  have post: "handled e s (service_enter_stop_post e True s)" if "is_stop_signal (sv_state s)"
    using handled_lands [OF enter_stop_post_ok [OF c assms(2)], of s] that by (auto simp: is_stop_signal_def)
  have dead: "handled e s (service_enter_dead e True True s)"
    if "sv_state s = SERVICE_FINAL_SIGTERM \<or> sv_state s = SERVICE_FINAL_SIGKILL"
    using handled_lands [OF enter_dead_ok [OF c], of s] that by auto
  have run: "handled e s (service_enter_running e True s)" if "sv_state s = SERVICE_RUNNING"
    using handled_settles [OF enter_running_ok [OF c assms(2) fits_idle [OF assms(1)]], of s] that
    by (simp add: is_stop_signal_def stopping_def)
  show ?thesis
    using stay post dead run
    by (cases "sv_state s") (simp_all add: service_cgroup_notify_event_def is_stop_signal_def)
qed

subsection \<open>Messages\<close>

lemma set_main_pid_ok:
  assumes "service_ok s" "may_set_main_pid (sv_state s)" "sv_type s \<noteq> SERVICE_FORKING \<or> sv_state s \<noteq> SERVICE_START"
  shows "service_ok (snd (service_set_main_pid e pid s))"
proof (cases "pid \<le> 1 \<or> pid = e_getpid e")
  case True
  then show ?thesis using assms(1) by (auto simp: service_set_main_pid_def)
next
  case False
  let ?t = "snd (service_set_main_pid e pid s)"
  have m: "sv_main_pid ?t > 0" using False set_main_pid_new by simp
  have i: "idle_main s \<or> sv_state s = SERVICE_START"
    using fits_idle [OF assms(1)] assms(2) by (auto simp: may_set_main_pid_def is_stop_signal_def)
  have cp: "idle_main s \<or> sv_control_pid s = 0"
    using i fits_start(1) [OF assms(1)] assms(3) by (auto split: if_splits)
  have c: "core ?t" using set_main_pid_core [OF okD(1) [OF assms(1)] cp] .
  have q: "quiet_main ?t \<or> sv_state s = SERVICE_START"
    using i by (auto simp: quiet_main_def idle_main_def)
  have hm: "has_main (sv_state s)" using assms(2) by (auto simp: may_set_main_pid_def has_main_def)
  have sup: "supervised ?t = supervised s" by (simp add: supervised_def chain_of_starts_def commands_def)
  have "state_fits ?t"
    using okD(2) [OF assms(1)] m q hm assms(3) sup
    by (cases "sv_state s = SERVICE_START") (simp_all add: state_fits_def split: if_splits)
  then show ?thesis using c by (simp add: service_ok_def)
qed

lemma set_main_pid_handled:
  assumes "service_ok s" "may_set_main_pid (sv_state s)" "sv_type s \<noteq> SERVICE_FORKING \<or> sv_state s \<noteq> SERVICE_START"
  shows "handled e s (snd (service_set_main_pid e pid s))"
  using handled_stay [OF set_main_pid_ok [OF assms]] assms(2)
  by (auto simp: may_set_main_pid_def stopping_def)

lemma start_post_handled:
  assumes "service_ok s" "env_ok e" "sv_state s = SERVICE_START" "sv_type s = SERVICE_NOTIFY \<or> sv_type s = SERVICE_DBUS"
  shows "handled e s (service_enter_start_post e s)"
proof -
  have "idle_main s" using assms(4) by (auto simp: idle_main_def)
  then show ?thesis
    using handled_settles [OF enter_start_post_ok [OF okD(1) [OF assms(1)] assms(2)], of s] assms(3)
    by (simp add: stopping_def)
qed

lemma handled_trans:
  assumes "service_ok s" "handled e s s1" "handled e s1 s2" "stopping s \<longrightarrow> s1 = s"
  shows "handled e s s2"
  using assms by (auto simp: handled_def settles_def)

lemma ok_status: "service_ok (s\<lparr>sv_status_text := x\<rparr>) = service_ok s"
  by (simp add: fits_parts)

lemma handled_status: "handled e s s' \<Longrightarrow> handled e s (s'\<lparr>sv_status_text := x\<rparr>)"
proof -
  assume h: "handled e s s'"
  have "rank (s'\<lparr>sv_status_text := x\<rparr>) = rank s'"
    by (simp add: rank_def total_def remaining_def commands_def split: option.split)
  then show ?thesis using h by (simp add: handled_def settles_def descends_def ok_status)
qed

lemma notify_message_ok:
  assumes "service_ok s" "env_ok e"
  shows "handled e s (service_notify_message e pid tags s)"
proof (cases "sc_notify_access (sv_conf s) = NOTIFY_NONE \<or>
    sc_notify_access (sv_conf s) = NOTIFY_MAIN \<and> pid \<noteq> sv_main_pid s")
  case True
  then show ?thesis
    using handled_stay [OF assms(1)] by (auto simp: service_notify_message_def)
next
  case False
  have stay: "handled e s s" using handled_stay [OF assms(1)] by simp
  have "sv_type s \<noteq> SERVICE_FORKING"
    using okD(1) [OF assms(1)] False by (auto simp: core_def service_config_ok_def)
  then have "handled e s (notify_main_pid e tags s)"
    using stay set_main_pid_handled [OF assms(1)]
    by (auto simp: notify_main_pid_def split: option.splits sum.splits)
  then have h1: "handled e s (notify_main_pid e tags s)" and ok1: "service_ok (notify_main_pid e tags s)"
    by (simp_all add: handled_def settles_def)
  define s1 where "s1 = notify_main_pid e tags s"
  have "handled e s1 (notify_ready e tags s1)"
    using start_post_handled [of s1 e] handled_stay [of s1 s1 e] ok1 assms(2)
    by (auto simp: notify_ready_def s1_def)
  moreover have "stopping s \<longrightarrow> s1 = s"
    by (auto simp: s1_def notify_main_pid_def may_set_main_pid_def stopping_def split: option.splits)
  ultimately have h2: "handled e s (notify_ready e tags s1)"
    using handled_trans [OF assms(1) h1 [folded s1_def]] by blast
  show ?thesis
    using False h2 handled_same [OF h2] handled_same [OF handled_status [OF h2]]
    by (auto simp: service_notify_message_def Let_def s1_def split: option.split)
qed

lemma ok_bus_name: "service_ok (s\<lparr>sv_bus_name_good := b\<rparr>) = service_ok s"
  by (simp add: fits_parts)

lemma bus_owner_ok:
  assumes "service_ok s" "env_ok e" "sc_bus_name (sv_conf s) = Some name" "old \<noteq> None \<or> new \<noteq> None"
  shows "\<exists>t. service_bus_name_owner_change e name old new s = Some t \<and> handled e s t"
proof -
  let ?s = "s\<lparr>sv_bus_name_good := (new \<noteq> None)\<rparr>"
  have ok: "service_ok ?s" using assms(1) by (simp add: ok_bus_name)
  have h: "handled e s ?s"
    using handled_stay [OF ok] by (simp add: remaining_def commands_def split: option.split)
  have run: "handled e ?s (service_enter_running e True ?s)" if "sv_state s = SERVICE_RUNNING"
    using handled_settles [OF enter_running_ok [OF okD(1) [OF ok] assms(2) fits_idle [OF ok]], of ?s] that
    by (simp add: is_stop_signal_def stopping_def)
  have start: "handled e ?s (service_enter_start_post e ?s)"
    if "sv_state s = SERVICE_START" "sv_type s = SERVICE_DBUS"
    using start_post_handled [OF ok assms(2)] that by simp
  have run': "handled e s (service_enter_running e True ?s)" if "sv_state s = SERVICE_RUNNING"
    using handled_trans [OF assms(1) h run [OF that]] that by (simp add: stopping_def)
  have start': "handled e s (service_enter_start_post e ?s)"
    if "sv_state s = SERVICE_START" "sv_type s = SERVICE_DBUS"
    using handled_trans [OF assms(1) h start [OF that]] that by (simp add: stopping_def)
  define t where "t = ?s"
  have k: "sv_state t = sv_state s" "sv_conf t = sv_conf s" by (simp_all add: t_def)
  show ?thesis
    unfolding service_bus_name_owner_change_def Let_def t_def [symmetric] k
    using assms(3,4) h handled_same [OF h] run' start' unfolding t_def [symmetric]
    by (cases new) auto
qed

lemma bus_pid_ok:
  assumes "service_ok s" "sc_bus_name (sv_conf s) \<noteq> None"
  shows "handled e s (service_bus_query_pid_done e pid s)"
proof -
  have "sv_type s \<noteq> SERVICE_FORKING"
    using okD(1) [OF assms(1)] assms(2) by (auto simp: core_def service_config_ok_def)
  then show ?thesis
    using set_main_pid_handled [OF assms(1)] handled_stay [OF assms(1)]
    by (auto simp: service_bus_query_pid_done_def)
qed

lemma reset_failed_ok:
  assumes "service_ok s"
  shows "handled e s (service_reset_failed e s)"
proof -
  have f: "service_ok (t\<lparr>sv_failure := False\<rparr>) = service_ok t" for t
    by (simp add: fits_parts)
  show ?thesis
  proof (cases "sv_state s = SERVICE_FAILED")
    case True
    then show ?thesis
      using set_state_dead [OF okD(1) [OF assms]]
      by (simp add: service_reset_failed_def handled_def settles_def stopping_def f)
  next
    case False
    then show ?thesis
      using handled_stay [of "s\<lparr>sv_failure := False\<rparr>" s e] assms
      by (simp add: service_reset_failed_def f remaining_def commands_def split: option.split)
  qed
qed

lemma set_socket_fd_ok:
  assumes "service_ok s" "fd \<ge> 0"
  shows "\<exists>r t. service_set_socket_fd fd sock s = Some (r, t) \<and> handled e s t"
proof -
  let ?t = "s\<lparr>sv_socket_fd := fd, sv_got_socket_fd := True, sv_accept_socket := Some sock\<rparr>"
  have "service_ok ?t" using assms(1) by (simp add: fits_parts)
  then have "handled e s ?t"
    by (rule handled_stay) (simp_all add: remaining_def commands_def split: option.split)
  then show ?thesis
    using assms handled_stay [OF assms(1), of s e] by (auto simp: service_set_socket_fd_def)
qed

subsection \<open>Every event\<close>

theorem service_dispatch_ok:
  assumes "service_ok s" "env_ok e" "enabled ev s"
  shows "\<exists>t. service_dispatch e ev s = Some t \<and>
     (if ev = Start \<and> stage (sv_state s) = 0 then settles s 0 t else handled e s t) \<and>
     (ev = Timer \<and> stopping s \<longrightarrow> descends True s t)"
proof (cases ev)
  case Start
  have "handled e s s" using handled_stay [OF assms(1)] by simp
  then show ?thesis
    using Start service_start_ok [OF assms(1,2)] assms(3)
    by (auto simp: service_dispatch_def enabled_def split: if_splits)
next
  case Stop
  then have u: "\<not> UNIT_IS_INACTIVE_OR_FAILED (service_active_state s)" using assms(3) by (simp add: enabled_def)
  obtain t where tt: "service_stop e s = Some (None, t) \<and> settles s 4 t \<and>
      (stage (sv_state t) > 0 \<longrightarrow> sv_forbid_restart t) \<and> sv_state t \<noteq> SERVICE_AUTO_RESTART \<and>
      (stopping s \<longrightarrow> t = s\<lparr>sv_forbid_restart := True\<rparr>)"
    using service_stop_ok [OF assms(1,2) u, folded stopping_def] by (rule exE)
  then have t: "service_stop e s = Some (None, t)" "settles s 4 t"
      "stopping s \<longrightarrow> t = s\<lparr>sv_forbid_restart := True\<rparr>"
      "sv_state t \<noteq> SERVICE_AUTO_RESTART" "stage (sv_state t) > 0 \<longrightarrow> sv_forbid_restart t"
    by simp_all
  have "rank (s\<lparr>sv_forbid_restart := True\<rparr>) = rank s"
    by (simp add: rank_def total_def remaining_def commands_def split: option.split)
  then have "stopping s \<longrightarrow> descends False s t"
    using t(3,4,5) by (auto simp: descends_def stopping_def)
  moreover have "phase (sv_state s) \<le> phase (sv_state t)"
  proof (cases "sv_state s = SERVICE_AUTO_RESTART")
    case True
    then have "sv_state t = SERVICE_DEAD" using t(1) by (auto simp: service_stop_def Let_def)
    then show ?thesis using True by simp
  next
    case False
    then have "phase (sv_state s) \<le> 4"
      using assms(3) Stop
      by (cases "sv_state s") (auto simp: enabled_def service_active_state_def
          service_state_translation_table_def job_defs)
    then show ?thesis using t(2) by (simp add: settles_def)
  qed
  ultimately show ?thesis
    using t(1,2) Stop by (simp add: service_dispatch_def handled_def settles_def)
next
  case Reload
  have st: "phase (sv_state s) \<le> 3" "\<not> stopping s"
    using assms(3) Reload
    by (cases "sv_state s"; simp add: enabled_def service_active_state_def service_state_translation_table_def stopping_def)+
  then show ?thesis
    using Reload service_reload_ok [OF assms(1,2)] assms(3) handled_settles [of s 3 _ s e]
    by (auto simp: service_dispatch_def enabled_def)
next
  case (Set_Socket_Fd fd sock)
  then show ?thesis
    using set_socket_fd_ok [OF assms(1), of fd sock e] assms(3) by (auto simp: service_dispatch_def enabled_def)
next
  case (Bus_Owner name old new)
  then show ?thesis
    using bus_owner_ok [OF assms(1,2)] assms(3) by (simp add: service_dispatch_def enabled_def)
next
  case (Bus_Pid pid)
  then show ?thesis
    using bus_pid_ok [OF assms(1)] assms(3) by (simp add: service_dispatch_def enabled_def)
qed (use assms sigchld_ok [OF assms(1,2)] timer_event_ok [OF assms(1,2)] cgroup_event_ok [OF assms(1,2)]
       notify_message_ok [OF assms(1,2)] reset_failed_ok [OF assms(1)] in
     \<open>simp_all add: service_dispatch_def enabled_def\<close>)

end
