(* ===== verification/Service_Properties.thy ===== *)
theory Service_Properties
  imports Service_Events_Ok
begin

section \<open>Services: the properties\<close>

text \<open>
  What holds of every run of a service, with sample services as witnesses.
\<close>

lemma init_ok:
  assumes "service_config_ok c"
  shows "service_ok (service_init c)"
  using assms
  by (simp add: service_init_def fits_parts state_sets ratelimit_init_def)

lemma reachable_ok:
  assumes "service_reachable c s" "service_config_ok c"
  shows "service_ok s \<and> sv_conf s = c"
  using assms
proof (induction rule: service_reachable.induct)
  case init
  then show ?case using init_ok by (simp add: service_init_def)
next
  case (step s ev s')
  then obtain e where "env_ok e" "enabled ev s" "service_dispatch e ev s = Some s'"
    by (auto elim: service_step.cases)
  then show ?case
    using service_dispatch_ok [of s e ev] step by (auto simp: handled_def settles_def split: if_splits)
qed

text \<open>
  A run of a service that is going down: events handed to it as long as it has not come to
  rest, by environments in which commands can be started (or for services with at most one command per
  list).
\<close>

inductive stop_run :: "service \<Rightarrow> service_event list \<Rightarrow> service \<Rightarrow> bool" where
  stay: "stop_run s [] s"
| event: "stopping s \<Longrightarrow> env_ok e \<Longrightarrow> calm e s \<Longrightarrow> enabled ev s \<Longrightarrow> service_dispatch e ev s = Some s' \<Longrightarrow>
    stop_run s' evs t \<Longrightarrow> stop_run s (ev # evs) t"

lemma stop_run_measure:
  assumes "stop_run s evs t" "service_ok s" "stopping s"
  shows "service_ok t \<and> sv_conf t = sv_conf s \<and> stage (sv_state t) \<le> 6 \<and>
    count_list evs Timer \<le> rank s \<and>
    (sv_forbid_restart s \<longrightarrow> sv_state t \<noteq> SERVICE_AUTO_RESTART)"
  using assms
proof (induction rule: stop_run.induct)
  case (stay s)
  then show ?case by (auto simp: stopping_def)
next
  case (event s e ev s' evs t)
  have nr: "\<not> (ev = Start \<and> stage (sv_state s) = 0)" using event.prems by (simp add: stopping_def)
  have h: "settles s (phase (sv_state s)) s'" "descends False s s'" "ev = Timer \<longrightarrow> descends True s s'"
    using service_dispatch_ok [OF event.prems(1) event.hyps(2,4)] event.hyps(3,5) event.prems(2) nr
    by (auto simp: handled_def)
  have ok': "service_ok s'" "sv_conf s' = sv_conf s" using h(1) by (simp_all add: settles_def)
  have pos: "rank s > 0" using event.prems(2) by (simp add: rank_def stopping_def)
  show ?case
  proof (cases "stopping s'")
    case True
    have "count_list (ev # evs) Timer \<le> rank s"
      using event.IH [OF ok'(1) True] h True by (auto simp: descends_def stopping_def)
    moreover have "sv_forbid_restart s \<longrightarrow> sv_forbid_restart s'"
      using h(2) True by (auto simp: descends_def stopping_def)
    ultimately show ?thesis using event.IH [OF ok'(1) True] ok'(2) by auto
  next
    case False
    have st: "stop_run s' evs t" using event.hyps(6) .
    then have "evs = []" "t = s'" using False by (auto elim: stop_run.cases)
    then show ?thesis using h ok' pos by (auto simp: descends_def)
  qed
qed

lemma rank_bound: "stopping s \<Longrightarrow> rank s \<le> 6 * Suc (total s) + total s"
  unfolding rank_def stopping_def using remaining_le [of s]
  by (intro add_mono mult_le_mono1) auto

subsection \<open>Sample services\<close>

definition sample_config ::
    "service_type \<Rightarrow> string list \<Rightarrow> string list \<Rightarrow> notify_access \<Rightarrow> service_config" where
  "sample_config t starts posts access =
     \<lparr>sc_type = t, sc_restart = SERVICE_RESTART_ALWAYS, sc_pid_file = None,
      sc_restart_usec = 100000, sc_timeout_usec = 90000000,
      sc_exec_command = (\<lambda>i. case i of
          SERVICE_EXEC_START \<Rightarrow> map sample_command starts
        | SERVICE_EXEC_STOP \<Rightarrow> [sample_command ''/bin/stop'']
        | SERVICE_EXEC_STOP_POST \<Rightarrow> map sample_command posts
        | _ \<Rightarrow> []),
      sc_std_socket = False, sc_kill_mode = KILL_CONTROL_GROUP, sc_kill_signal = SIGTERM,
      sc_send_sigkill = True, sc_pam_name = False, sc_remain_after_exit = False,
      sc_guess_main_pid = True, sc_bus_name = None, sc_notify_access = access,
      sc_fragment_path = True, sc_sysv_path = False, sc_load_state = UNIT_LOADED\<rparr>"

fun service_run :: "exec_env \<Rightarrow> service_event list \<Rightarrow> service \<Rightarrow> service option" where
  "service_run e [] s = Some s"
| "service_run e (ev # evs) s =
     (if enabled ev s then do { s' \<leftarrow> service_dispatch e ev s; service_run e evs s' } else None)"

lemma good_env_spawns: "spawns good_env"
  by (simp add: spawns_def good_env_def)

lemma service_run_reachable:
  "service_run e evs s = Some s' \<Longrightarrow> env_ok e \<Longrightarrow> service_reachable c s \<Longrightarrow> service_reachable c s'"
proof (induction evs arbitrary: s)
  case (Cons ev evs)
  then obtain x where x: "enabled ev s" "service_dispatch e ev s = Some x" "service_run e evs x = Some s'"
    by (auto split: if_splits bind_splits)
  then have "service_step ev s x" using Cons.prems(2) by (intro service_step.intros)
  then have "service_reachable c x" using Cons.prems(3) by (rule service_reachable.step [rotated])
  then show ?case using Cons.IH [OF x(3) Cons.prems(2)] by blast
qed simp

lemmas service_enter_defs = service_enter_start_pre_def service_enter_start_def
  service_enter_start_post_def service_enter_running_def service_enter_stop_def
  service_run_next_main_def service_run_next_control_def

lemmas service_event_defs = service_dispatch_def service_start_def service_stop_def
  service_sigchld_event_def service_load_pid_file_def service_main_exit_def main_exited_def main_gone_def
  service_control_exit_def control_exited_def control_gone_def service_timer_event_def
  service_notify_message_def notify_main_pid_def notify_ready_def may_set_main_pid_def
  command_success_def has_next_def enabled_def service_active_state_def
  service_state_translation_table_def job_defs

lemmas service_call_defs = service_spawn_def service_spawn_prepare_def service_set_state_def
  unit_watch_timer_def unit_unwatch_timer_def unit_watch_pid_def unit_unwatch_pid_def act_def
  service_unwatch_main_pid_def service_unwatch_control_pid_def first_command_def command_next_def
  commands_def the_command_def service_set_main_pid_def service_notify_sockets_dead_def
  service_close_socket_fd_def service_connection_unref_def signal_processes_def signal_main_def
  signal_control_def kill_and_sigcont_def sys_kill_def fail_unless_def service_init_def
  ratelimit_test_def ratelimit_init_def exec_status_start_def exec_status_exit_def
  exec_status_zero_def control_pid_good_def main_pid_good_def cgroup_good_def

lemmas service_table_defs = has_timer_def has_main_def has_control_def is_down_def keeps_socket_def
  is_stop_signal_def is_clean_exit_def CLD_EXITED_def CLD_KILLED_def SIGTERM_def SIGHUP_def SIGINT_def
  SIGPIPE_def SIGKILL_def SIGCONT_def

lemmas service_sample_defs = good_env_def sample_config_def sample_command_def spawned_def Let_def

lemmas service_eval = service_enter_defs service_event_defs service_call_defs service_table_defs
  service_sample_defs service_enter_signal.simps service_enter_stop_post.simps

lemmas service_cong = if_weak_cong option.case_cong_weak prod.case_cong_weak sum.case_cong_weak

lemma sample_tags:
  "strv_find_prefix (Some [''MAINPID=105'']) ''MAINPID='' = Some ''MAINPID=105''"
  "strv_find_prefix (Some [''MAINPID=105'']) ''STATUS='' = None"
  by code_simp+

lemma sample_pid: "parse_pid ''105'' = Inr 105"
  by (simp add: parse_pid_def safe_atollu_def strtoull_def scan_int_def scan_sign_def scan_base_def
      isspace_def digit_value_def ato_check_def Let_def)

text \<open>An environment in which nothing can be started any more after the third process.\<close>

definition failing_env :: exec_env where
  "failing_env = good_env\<lparr>e_spawn := (\<lambda>l c. if spawned l = 3 then Inl ENOMEM else Inr (100 + int (spawned l)))\<rparr>"

lemmas service_run_simps = service_eval sample_tags sample_pid failing_env_def

definition oneshot_sample :: service_config where
  "oneshot_sample = sample_config SERVICE_ONESHOT [''/bin/one'', ''/bin/two''] [] NOTIFY_NONE"

definition forking_sample :: service_config where
  "forking_sample = sample_config SERVICE_FORKING [''/bin/one''] [] NOTIFY_ALL"

definition posts_sample :: service_config where
  "posts_sample = sample_config SERVICE_SIMPLE [''/bin/one''] [''/bin/p1'', ''/bin/p2''] NOTIFY_NONE"

definition simple_sample :: service_config where
  "simple_sample = sample_config SERVICE_SIMPLE [''/bin/one''] [] NOTIFY_NONE"

lemmas config_samples = oneshot_sample_def forking_sample_def posts_sample_def simple_sample_def

lemma simple_sample_ok: "service_config_ok simple_sample"
  by (simp add: service_config_ok_def service_verify_def config_samples sample_config_def)

definition stopping_sample :: service where
  "stopping_sample = the (service_run good_env [Start, Stop] (service_init simple_sample))"

definition timed_out_sample :: service where
  "timed_out_sample = the (service_dispatch good_env Timer stopping_sample)"

lemma stopping_sample_eval:
  "service_run good_env [Start, Stop] (service_init simple_sample) = Some stopping_sample"
  "sv_state stopping_sample = SERVICE_STOP" "x_timer stopping_sample = Timer_Armed"
  "sv_forbid_restart stopping_sample"
  "service_dispatch good_env Timer stopping_sample = Some timed_out_sample"
  "sv_state timed_out_sample = SERVICE_STOP_SIGTERM"
  unfolding stopping_sample_def timed_out_sample_def config_samples
  by (simp_all add: service_run_simps cong: service_cong split del: if_split)

lemma stopping_sample_reachable: "service_reachable simple_sample stopping_sample"
  using service_run_reachable [OF stopping_sample_eval(1) good_env_ok(1) service_reachable.init] .

lemma timed_out_sample_reachable: "service_reachable simple_sample timed_out_sample"
proof -
  have "service_step Timer stopping_sample timed_out_sample"
    by (rule service_step.intros [OF good_env_ok(1)]) (simp_all add: stopping_sample_eval enabled_def)
  then show ?thesis using service_reachable.step [OF stopping_sample_reachable] by blast
qed

lemma sample_conf:
  "sv_conf stopping_sample = simple_sample" "sv_conf timed_out_sample = simple_sample"
  using reachable_ok [OF stopping_sample_reachable simple_sample_ok]
    reachable_ok [OF timed_out_sample_reachable simple_sample_ok] by simp_all

lemma simple_sample_conf:
  "sc_type simple_sample = SERVICE_SIMPLE" "sc_timeout_usec simple_sample = 90000000"
  by (simp_all add: config_samples sample_config_def)

lemma calm_simple: "sv_conf s = simple_sample \<Longrightarrow> calm e s"
  by (simp add: calm_def chain_of_starts_def commands_def config_samples sample_config_def
      split: service_exec_command.split)

lemma stopping_sample_run: "stop_run stopping_sample [Timer] timed_out_sample"
proof (rule stop_run.event [where e = good_env])
  show "stop_run timed_out_sample [] timed_out_sample" by (rule stop_run.stay)
qed (simp_all add: stopping_sample_eval stopping_def good_env_ok good_env_spawns calm_simple sample_conf enabled_def)

subsection \<open>The claims\<close>

text \<open>
  C18: Whatever event its callers may hand to a service, in whatever order, and whatever
  the outside world answers, no assertion of \<open>service.c\<close> fails, and the service is left in a consistent
  state: a main process or a control process is only recorded in states that wait for one, every
  state that waits for a process has the timeout running (if one is configured; but for the start of
  a oneshot service and the stop of one with several commands), and no timer runs in a state that
  does not expect it.  The configuration is one that \<open>service_verify\<close> accepts, and a forking service
  must not take its main pid from messages.
\<close>

theorem service_never_aborts:
  assumes "service_config_ok c" "service_reachable c s" "env_ok e" "enabled ev s"
  shows "\<exists>s'. service_dispatch e ev s = Some s' \<and>
    (sv_main_pid s' > 0 \<longrightarrow> has_main (sv_state s') \<and> sv_main_pid_known s') \<and>
    (sv_control_pid s' > 0 \<longrightarrow> has_control (sv_state s')) \<and>
    (supervised s' \<longrightarrow> x_timer s' = Timer_Armed) \<and>
    (\<not> has_timer (sv_state s') \<longrightarrow> x_timer s' = Timer_Off)"
proof -
  obtain s' where s': "service_dispatch e ev s = Some s'"
    using service_dispatch_ok [of s e ev] reachable_ok [OF assms(2,1)] assms(3,4) by blast
  then have "service_reachable c s'"
    using assms service_reachable.step service_step.intros by blast
  then have "service_ok s'" using reachable_ok assms(1) by blast
  then show ?thesis using s' unfolding service_ok_def core_def state_fits_def by blast
qed

theorem service_never_aborts_witness:
  "\<exists>s'. service_dispatch good_env Timer stopping_sample = Some s' \<and>
     sv_state s' = SERVICE_STOP_SIGTERM \<and> x_timer s' = Timer_Armed"
  using service_never_aborts [OF simple_sample_ok stopping_sample_reachable good_env_ok(1), of Timer]
  by (simp add: enabled_def stopping_sample_eval supervised_def has_control_def chain_of_starts_def
      is_stop_signal_def sample_conf simple_sample_conf)

text \<open>
  C20: A service only goes forward: from start-pre to start to start-post to being up (running,
  exited, reloading) to going down to rest.  Only a start request at rest makes it begin again.
\<close>

theorem service_phases:
  assumes "service_config_ok c" "service_reachable c s" "service_step ev s s'"
  shows "phase (sv_state s) \<le> phase (sv_state s') \<or>
    ev = Start \<and> sv_state s \<in> {SERVICE_DEAD, SERVICE_FAILED, SERVICE_AUTO_RESTART}"
proof -
  obtain e where e: "env_ok e" "enabled ev s" "service_dispatch e ev s = Some s'"
    using assms(3) by (auto elim: service_step.cases)
  have "stage st = 0 \<Longrightarrow> st \<in> {SERVICE_DEAD, SERVICE_FAILED, SERVICE_AUTO_RESTART}" for st
    by (cases st) simp_all
  then show ?thesis
    using service_dispatch_ok [of s e ev] reachable_ok [OF assms(2,1)] e
    by (auto simp: handled_def settles_def split: if_splits)
qed

theorem service_phases_witness:
  "phase (sv_state stopping_sample) \<le> phase (sv_state timed_out_sample)"
proof -
  have "service_step Timer stopping_sample timed_out_sample"
    by (rule service_step.intros [OF good_env_ok(1)]) (simp_all add: stopping_sample_eval enabled_def)
  then show ?thesis
    using service_phases [OF simple_sample_ok stopping_sample_reachable, of Timer timed_out_sample]
    by simp
qed

text \<open>
  C19: A service with a timeout configured that has begun to go down comes to rest: as long as it has not, a timeout is
  running, and after at most \<open>rank s\<close> timeouts, whatever else happens in between, it is dead,
  failed or waiting for its restart; waiting for a restart only if restarts were not forbidden by a stop
  request.  This is so unless the service is of type oneshot with several commands, and if either no
  command list has more than one command or no command fails to start.
\<close>

theorem service_stop_bounded:
  assumes "service_config_ok c" "service_reachable c s" "stopping s" "sv_timeout s > 0"
    and "\<not> chain_of_starts s" "stop_run s evs t"
  shows "count_list evs Timer \<le> rank s \<and> rank s \<le> 6 * Suc (total s) + total s \<and>
    (if stopping t then x_timer t = Timer_Armed
     else sv_state t = SERVICE_DEAD \<or> sv_state t = SERVICE_FAILED \<or>
          sv_state t = SERVICE_AUTO_RESTART \<and> \<not> sv_forbid_restart s)"
proof -
  have "service_ok s" using reachable_ok [OF assms(2,1)] by blast
  note m = stop_run_measure [OF assms(6) this assms(3)]
  have rest: "stage st = 0 \<Longrightarrow> st = SERVICE_DEAD \<or> st = SERVICE_FAILED \<or> st = SERVICE_AUTO_RESTART" for st
    by (cases st) simp_all
  have busy: "stopping t \<Longrightarrow> has_control (sv_state t) \<and> sv_state t \<noteq> SERVICE_START"
    by (cases "sv_state t") (simp_all add: stopping_def has_control_def)
  have conf: "sv_timeout t > 0" "\<not> chain_of_starts t"
    using m assms(4,5) by (simp_all add: chain_of_starts_def commands_def)
  have armed: "stopping t \<Longrightarrow> x_timer t = Timer_Armed"
    using m busy conf unfolding service_ok_def state_fits_def supervised_def by blast
  have "\<not> stopping t \<Longrightarrow> stage (sv_state t) = 0" using m by (auto simp: stopping_def)
  then show ?thesis using m rank_bound [OF assms(3)] armed rest by auto
qed

theorem service_stop_bounded_witness:
  "count_list [Timer] Timer \<le> rank stopping_sample \<and> x_timer timed_out_sample = Timer_Armed"
  using service_stop_bounded [OF simple_sample_ok stopping_sample_reachable _ _ _ stopping_sample_run]
  by (simp add: stopping_def stopping_sample_eval sample_conf simple_sample_conf chain_of_starts_def)

text \<open>
  The exceptions are real.  A oneshot service with two \<open>ExecStart\<close> commands whose first command
  is stopped and dies of the SIGTERM, which counts as a clean exit, is made to run its second
  command while it is being stopped, with no timeout.  And a service whose first \<open>ExecStopPost\<close>
  command timed out and was sent a SIGTERM starts to run its \<open>ExecStop\<close> commands all over when the second
  one cannot be started.
\<close>

theorem service_stop_exceptions:
  "\<exists>s t t'. service_reachable oneshot_sample s \<and> stopping s \<and> sv_state s = SERVICE_STOP_SIGTERM \<and>
     sv_main_command s = Some (SERVICE_EXEC_START, 1) \<and> sv_main_pid s > 0 \<and> sv_timeout s > 0 \<and>
     x_timer s = Timer_Off \<and>
     service_reachable posts_sample t \<and> sv_state t = SERVICE_FINAL_SIGTERM \<and>
     service_step (Sigchld 102 CLD_KILLED SIGTERM) t t' \<and> sv_state t' = SERVICE_STOP"
proof -
  have 1: "map_option (\<lambda>s. (sv_state s, sv_main_command s, sv_main_pid s, sv_timeout s, x_timer s))
     (service_run good_env [Start, Stop, Sigchld 100 CLD_KILLED SIGTERM] (service_init oneshot_sample)) =
     Some (SERVICE_STOP_SIGTERM, Some (SERVICE_EXEC_START, 1), 101, 90000000, Timer_Off)"
    unfolding config_samples by (simp add: service_run_simps cong: service_cong split del: if_split)
  have 2: "map_option (\<lambda>s. (sv_state s,
       map_option sv_state (service_dispatch failing_env (Sigchld 102 CLD_KILLED SIGTERM) s)))
     (service_run good_env [Start, Stop, Sigchld 101 CLD_EXITED 0, Sigchld 100 CLD_KILLED SIGTERM, Timer]
       (service_init posts_sample)) = Some (SERVICE_FINAL_SIGTERM, Some SERVICE_STOP)"
    unfolding config_samples by (simp add: service_run_simps cong: service_cong split del: if_split)
  have fe: "env_ok failing_env" by (simp add: env_ok_def failing_env_def good_env_def)
  obtain s where s: "service_run good_env [Start, Stop, Sigchld 100 CLD_KILLED SIGTERM]
      (service_init oneshot_sample) = Some s" using 1 by auto
  obtain t where t: "service_run good_env [Start, Stop, Sigchld 101 CLD_EXITED 0,
      Sigchld 100 CLD_KILLED SIGTERM, Timer] (service_init posts_sample) = Some t" using 2 by auto
  obtain t' where t': "service_dispatch failing_env (Sigchld 102 CLD_KILLED SIGTERM) t = Some t'"
      "sv_state t' = SERVICE_STOP" "sv_state t = SERVICE_FINAL_SIGTERM"
    using 2 t by auto
  have "service_step (Sigchld 102 CLD_KILLED SIGTERM) t t'"
    by (rule service_step.intros [OF fe _ t'(1)]) (simp add: enabled_def)
  moreover have "service_reachable oneshot_sample s" "service_reachable posts_sample t"
    using service_run_reachable [OF s good_env_ok(1) service_reachable.init]
      service_run_reachable [OF t good_env_ok(1) service_reachable.init] .
  moreover have "sv_state s = SERVICE_STOP_SIGTERM \<and> sv_main_command s = Some (SERVICE_EXEC_START, 1) \<and>
      sv_main_pid s = 101 \<and> sv_timeout s = 90000000 \<and> x_timer s = Timer_Off"
    using 1 s by simp
  ultimately show ?thesis using t'(2,3) by (intro exI [of _ s] exI [of _ t] exI [of _ t']) (simp add: stopping_def)
qed

text \<open>
  C21: The restriction on forking services is needed: the configuration of a forking service that
  accepts notifications from all its processes passes \<open>service_verify\<close>, and such a service can be
  brought to fail the assertion \<open>s->type == SERVICE_DBUS || s->type == SERVICE_NOTIFY\<close>, by a process that sends
  \<open>MAINPID=\<close> with its own pid during the start and exits.
\<close>

theorem service_forking_abort:
  "service_verify forking_sample = Inr () \<and>
   (\<exists>s. service_reachable forking_sample s \<and> enabled (Sigchld 105 CLD_EXITED 0) s \<and>
      service_dispatch good_env (Sigchld 105 CLD_EXITED 0) s = None)"
proof -
  have 1: "map_option (service_dispatch good_env (Sigchld 105 CLD_EXITED 0))
     (service_run good_env [Start, Notify_Message 105 (Some [''MAINPID=105''])] (service_init forking_sample)) =
     Some None"
    unfolding config_samples by (simp add: service_run_simps cong: service_cong split del: if_split)
  then obtain s where s: "service_run good_env [Start, Notify_Message 105 (Some [''MAINPID=105''])]
      (service_init forking_sample) = Some s" "service_dispatch good_env (Sigchld 105 CLD_EXITED 0) s = None"
    by auto
  have "service_reachable forking_sample s"
    using service_run_reachable [OF s(1) good_env_ok(1) service_reachable.init] .
  moreover have "service_verify forking_sample = Inr ()"
    by (simp add: service_verify_def config_samples sample_config_def)
  moreover have "enabled (Sigchld 105 CLD_EXITED 0) s" by (simp add: enabled_def)
  ultimately show ?thesis using s(2) by blast
qed

end
