(* ===== verification/Supervised.thy ===== *)
theory Supervised
  imports Unit_Exec
begin

section \<open>Units supervised by a timeout\<close>

text \<open>
  Mount units, swap units and sockets run one control process at a time under a timeout.  The record
  \<open>control_unit\<close> holds what their state machines share; the parts of \<open>mount.c\<close>, \<open>swap.c\<close> and
  \<open>socket.c\<close> that are the same text are the functions on it.

  The locale \<open>supervised\<close> is the contract the manager relies on when it waits for a unit: a unit that is
  busy has its timer armed, no event takes it back, and every timeout takes it on.
  Its consequence is a bound on the number of timeouts until the unit is at rest.  The locale
  \<open>notifying\<close> is the contract towards the job engine: every change of the active state is told by
  \<open>unit_notify\<close>, and the notifications are in order.
\<close>

record control_unit = exec_unit +
  cu_control_pid :: int
  cu_timeout_usec :: nat
  cu_kill_mode :: kill_mode
  cu_kill_signal :: int
  cu_send_sigkill :: bool
  cu_failure :: bool

definition unwatch_control_pid :: "'a control_unit_scheme \<Rightarrow> 'a control_unit_scheme" where
  "unwatch_control_pid s =
     (if cu_control_pid s \<le> 0 then s
      else (unit_unwatch_pid (cu_control_pid s) s)\<lparr>cu_control_pid := 0\<rparr>)"

definition note_failure :: "bool \<Rightarrow> 'a control_unit_scheme \<Rightarrow> 'a control_unit_scheme" where
  "note_failure success s = (if success then s else s\<lparr>cu_failure := True\<rparr>)"

text \<open>Arming the timer, \<open>exec_spawn\<close>, and watching the new pid; the timer is off again on failure.\<close>

definition control_spawn ::
    "exec_env \<Rightarrow> exec_command \<Rightarrow> 'a control_unit_scheme \<Rightarrow> int result \<times> 'a control_unit_scheme" where
  "control_spawn e c s =
     (case unit_watch_timer e (cu_timeout_usec s) s of
        (Some r, s1) \<Rightarrow> (Inl r, unit_unwatch_timer s1)
      | (None, s1) \<Rightarrow>
          let p = e_spawn e (x_log s1) c;
              s2 = act (Exec_Spawn c None False p) s1 in
          case p of
            Inl r \<Rightarrow> (Inl r, unit_unwatch_timer s2)
          | Inr pid \<Rightarrow>
              case unit_watch_pid e pid s2 of
                (Some r, s3) \<Rightarrow> (Inl r, unit_unwatch_timer s3)
              | (None, s3) \<Rightarrow> (Inr pid, s3))"

text \<open>
  The signals on the way down: to the control process, and to the rest of the control group.  The
  result is the error that makes it fail, whether there is something to wait for, and the unit.
\<close>

definition signal_control_pid ::
    "exec_env \<Rightarrow> int \<Rightarrow> 'a control_unit_scheme \<Rightarrow> bool \<times> 'a control_unit_scheme" where
  "signal_control_pid e sig s =
     (if cu_control_pid s > 0 then
        case kill_and_sigcont e (cu_control_pid s) sig s of
          (r, s') \<Rightarrow> (\<not> (r \<noteq> None \<and> r \<noteq> Some ESRCH), s')
      else (False, s))"

definition signal_unit ::
    "exec_env \<Rightarrow> int \<Rightarrow> 'a control_unit_scheme \<Rightarrow> errno option \<times> bool \<times> 'a control_unit_scheme" where
  "signal_unit e sig s =
     (if cu_kill_mode s = KILL_NONE then (None, False, s)
      else
        let (wait, s1) = signal_control_pid e sig s in
        if cu_kill_mode s = KILL_CONTROL_GROUP then
          case e_pid_set e (x_log s1) of
            Some r \<Rightarrow> (Some r, wait, s1)
          | None \<Rightarrow>
              let r = e_cgroup_kill e (x_log s1) sig in
              (None, wait \<or> r > 0, act (Cgroup_Kill sig r) s1)
        else (None, wait, s1))"

text \<open>
  A request to kill.  The negative results of \<open>cgroup_bonding_kill_list\<close> other than \<open>EAGAIN\<close>, \<open>ESRCH\<close>
  and \<open>ENOENT\<close> are returned; the result is the number that C returns.
\<close>

definition control_kill ::
    "exec_env \<Rightarrow> kill_who \<Rightarrow> kill_mode \<Rightarrow> int \<Rightarrow> 'a control_unit_scheme \<Rightarrow> int \<times> 'a control_unit_scheme" where
  "control_kill e who mode signo s =
     (if who = KILL_MAIN then (- errno_number ESRCH, s)
      else if cu_control_pid s \<le> 0 \<and> who = KILL_CONTROL then (- errno_number ESRCH, s)
      else
        let (r, s1) = (if cu_control_pid s > 0 then
                         case sys_kill e (cu_control_pid s) signo s of
                           (Some err, s') \<Rightarrow> (- errno_number err, s')
                         | (None, s') \<Rightarrow> (0, s')
                       else (0, s)) in
        if who = KILL_ALL \<and> mode = KILL_CONTROL_GROUP then
          case e_pid_set e (x_log s1) of
            Some err \<Rightarrow> (- errno_number err, s1)
          | None \<Rightarrow>
              let q = e_cgroup_kill e (x_log s1) signo in
              (if q < 0 \<and> q \<noteq> - errno_number EAGAIN \<and> q \<noteq> - errno_number ESRCH \<and> q \<noteq> - errno_number ENOENT
               then q else r, act (Cgroup_Kill signo q) s1)
        else (r, s1))"

text \<open>
  The events the callers hand to such a unit; \<open>Table\<close> is a change in the kernel's list of
  mounts or swaps.
\<close>

datatype 't control_event =
    Ev_Start | Ev_Stop | Ev_Reload | Ev_Reset_Failed | Ev_Kill kill_who kill_mode int
  | Ev_Sigchld int int int | Ev_Timer | Ev_Table 't

subsection \<open>The contract of a supervised unit\<close>

text \<open>A run of a unit for as long as it is busy.\<close>

inductive busy_run :: "('ev \<Rightarrow> 's \<Rightarrow> 's \<Rightarrow> bool) \<Rightarrow> ('s \<Rightarrow> bool) \<Rightarrow> 's \<Rightarrow> 'ev list \<Rightarrow> 's \<Rightarrow> bool"
  for step busy where
  stay: "busy_run step busy s [] s"
| event: "busy s \<Longrightarrow> step ev s s' \<Longrightarrow> busy_run step busy s' evs t \<Longrightarrow> busy_run step busy s (ev # evs) t"

inductive_cases busy_run_nilE [elim!]: "busy_run step busy s [] t"
inductive_cases busy_run_consE: "busy_run step busy s (ev # evs) t"

locale supervised =
  fixes step :: "'ev \<Rightarrow> 's \<Rightarrow> 's \<Rightarrow> bool" and timeout :: 'ev
    and ok :: "'s \<Rightarrow> bool" and busy :: "'s \<Rightarrow> bool" and armed :: "'s \<Rightarrow> bool" and rank :: "'s \<Rightarrow> nat"
  assumes keeps: "ok s \<Longrightarrow> step ev s s' \<Longrightarrow> ok s'"
    and wakes: "ok s \<Longrightarrow> busy s \<Longrightarrow> armed s"
    and stays: "ok s \<Longrightarrow> busy s \<Longrightarrow> step ev s s' \<Longrightarrow> busy s' \<Longrightarrow> rank s' \<le> rank s"
    and falls: "ok s \<Longrightarrow> busy s \<Longrightarrow> step timeout s s' \<Longrightarrow> busy s' \<Longrightarrow> rank s' < rank s"
begin

lemma timeouts_bounded:
  assumes "busy_run step busy s evs t" "ok s"
  shows "ok t \<and> (busy t \<longrightarrow> armed t \<and> count_list evs timeout + rank t \<le> rank s) \<and>
    count_list evs timeout \<le> Suc (rank s)"
  using assms
proof (induction rule: busy_run.induct)
  case (stay s)
  then show ?case using wakes by simp
next
  case (event s ev s' evs t)
  have ok': "ok s'" using keeps event by blast
  note IH = event.IH [OF ok']
  show ?case
  proof (cases "busy s'")
    case True
    have le: "rank s' \<le> rank s" using stays event True by blast
    moreover have "rank s' < rank s" if "ev = timeout" using falls event True that by blast
    ultimately show ?thesis using IH by auto
  next
    case False
    then have "evs = []" "t = s'" using event.hyps(3) by (auto elim: busy_run.cases)
    then show ?thesis using IH False by auto
  qed
qed

end

subsection \<open>The contract of a notifying unit\<close>

definition notice :: "exec_action \<Rightarrow> unit_active_state \<Rightarrow> unit_active_state option" where
  "notice x a = (case x of Unit_Notify old new ok \<Rightarrow> if old = a then Some new else None | _ \<Rightarrow> Some a)"

fun noticed :: "exec_action list \<Rightarrow> unit_active_state \<Rightarrow> unit_active_state option" where
  "noticed [] a = Some a"
| "noticed (x # l) a = Option.bind (notice x a) (noticed l)"

lemma noticed_append [simp]: "noticed (l @ l') a = Option.bind (noticed l a) (noticed l')"
  by (induction l arbitrary: a) (auto split: bind_splits)

text \<open>
  The state a listener ends in that follows the notifications of a unit, \<open>None\<close> if
  one of them does not begin where the one before has ended.
\<close>

locale notifying =
  fixes step :: "'ev \<Rightarrow> 'a exec_unit_scheme \<Rightarrow> 'a exec_unit_scheme \<Rightarrow> bool"
    and ok :: "'a exec_unit_scheme \<Rightarrow> bool" and active :: "'a exec_unit_scheme \<Rightarrow> unit_active_state"
  assumes ok_step: "ok s \<Longrightarrow> step ev s s' \<Longrightarrow> ok s'"
    and tells: "ok s \<Longrightarrow> step ev s s' \<Longrightarrow> \<exists>l. x_log s' = x_log s @ l \<and> noticed l (active s) = Some (active s')"
begin

inductive runs :: "'a exec_unit_scheme \<Rightarrow> 'a exec_unit_scheme \<Rightarrow> bool" where
  runs_refl: "runs s s"
| runs_step: "runs s s' \<Longrightarrow> step ev s' s'' \<Longrightarrow> runs s s''"

lemma runs_noticed:
  assumes "runs s t" "ok s" "noticed (x_log s) a = Some (active s)"
  shows "ok t \<and> noticed (x_log t) a = Some (active t)"
  using assms
proof (induction rule: runs.induct)
  case (runs_step s s' ev s'')
  then have ok: "ok s'" and n: "noticed (x_log s') a = Some (active s')" by blast+
  obtain l where "x_log s'' = x_log s' @ l" "noticed l (active s') = Some (active s'')"
    using tells [OF ok runs_step.hyps(2)] by blast
  then show ?case using n ok_step [OF ok runs_step.hyps(2)] by simp
qed simp

end

subsection \<open>What the shared calls do to the unit\<close>

lemma act_select [simp]:
  "x_timer (act a s) = x_timer s" "x_log (act a s) = x_log s @ [a]" "exec_unit.more (act a s) = exec_unit.more s"
  by (simp_all add: act_def)

lemma act_control [simp]:
  fixes s :: "'a control_unit_scheme"
  shows "cu_control_pid (act a s) = cu_control_pid s" "cu_timeout_usec (act a s) = cu_timeout_usec s"
    "cu_kill_mode (act a s) = cu_kill_mode s" "cu_kill_signal (act a s) = cu_kill_signal s"
    "cu_send_sigkill (act a s) = cu_send_sigkill s" "cu_failure (act a s) = cu_failure s"
    "control_unit.more (act a s) = control_unit.more s"
  by (simp_all add: act_def)

text \<open>Actions that no listener hears of, and units that differ in such actions only.\<close>

definition quiet :: "exec_action list \<Rightarrow> bool" where
  "quiet l \<longleftrightarrow> (\<forall>a. noticed l a = Some a)"

lemma quiet_Nil [simp]: "quiet []"
  by (simp add: quiet_def)

lemma quiet_append [intro]: "quiet l \<Longrightarrow> quiet l' \<Longrightarrow> quiet (l @ l')"
  by (simp add: quiet_def)

lemma quiet_Cons [intro]: "(\<And>a. notice x a = Some a) \<Longrightarrow> quiet l \<Longrightarrow> quiet (x # l)"
  by (simp add: quiet_def)

definition silent :: "'a exec_unit_scheme \<Rightarrow> 'a exec_unit_scheme \<Rightarrow> bool" where
  "silent s s' \<longleftrightarrow> (\<exists>l. quiet l \<and> s' = s\<lparr>x_log := x_log s @ l\<rparr>)"

lemma silent_refl [simp]: "silent s s"
  unfolding silent_def by (rule exI [of _ "[]"]) simp

lemma silent_trans [trans]: "silent s s' \<Longrightarrow> silent s' s'' \<Longrightarrow> silent s s''"
  unfolding silent_def by (metis (no_types, lifting) append_assoc exec_unit.select_convs(2) exec_unit.surjective
    exec_unit.update_convs(2) quiet_append)

lemma silent_act: "(\<And>a. notice x a = Some a) \<Longrightarrow> silent s (act x s)"
  unfolding silent_def act_def by (rule exI [of _ "[x]"]) (auto intro: quiet_Cons)

lemma silent_then_act: "silent s s' \<Longrightarrow> (\<And>a. notice x a = Some a) \<Longrightarrow> silent s (act x s')"
  by (rule silent_trans [OF _ silent_act])

lemma unheard [simp]:
  "notice (Watch_Timer d r) a = Some a" "notice Unwatch_Timer a = Some a"
  "notice (Watch_Pid p r) a = Some a" "notice (Unwatch_Pid p) a = Some a"
  "notice (Prepare_Exec r) a = Some a" "notice (Exec_Spawn c mp b pr) a = Some a"
  "notice (Kill p sig r) a = Some a" "notice (Cgroup_Kill sig k) a = Some a"
  "notice Dbus_Queue a = Some a" "notice (Mkdir_P f) a = Some a" "notice (Automount_Ready k) a = Some a"
  "notice (Open_Fd q) a = Some a" "notice (Watch_Fd fd r) a = Some a" "notice (Unwatch_Fd fd) a = Some a"
  "notice (Close_Fd fd) a = Some a" "notice (Load_Instance r) a = Some a" "notice (Pass_Fd fd r) a = Some a"
  "notice (Add_Start_Job r) a = Some a" "notice (Unit_Notify old new ok) old = Some new"
  by (simp_all add: notice_def)

lemma sys_kill_silent: "silent s (snd (sys_kill e pid sig s))"
  by (simp add: sys_kill_def silent_act Let_def)

lemma kill_and_sigcont_silent: "silent s (snd (kill_and_sigcont e pid sig s))"
  using sys_kill_silent [of s e pid sig] sys_kill_silent [of "snd (sys_kill e pid sig s)" e pid SIGCONT]
  by (auto simp: kill_and_sigcont_def split: prod.split option.split intro: silent_trans)

lemma signal_control_pid_silent: "silent s (snd (signal_control_pid e sig s))"
  using kill_and_sigcont_silent [of s e "cu_control_pid s" sig]
  by (auto simp: signal_control_pid_def split: prod.split)

lemma signal_unit_silent: "signal_unit e sig s = (r, w, s') \<Longrightarrow> silent s s'"
  using signal_control_pid_silent [of s e sig]
  by (auto simp: signal_unit_def Let_def silent_then_act split: prod.splits if_splits option.splits)

lemma control_kill_silent: "silent s (snd (control_kill e who mode signo s))"
proof -
  have "silent s (snd (sys_kill e (cu_control_pid s) signo s))" by (rule sys_kill_silent)
  then show ?thesis
    by (auto simp: control_kill_def Let_def silent_then_act silent_act split: prod.split option.split)
qed

text \<open>Arming and disarming the timer, and starting a process.\<close>

lemma watch_timer_some:
  "unit_watch_timer e d s = (Some r, s') \<Longrightarrow> silent s s'"
  by (auto simp: unit_watch_timer_def silent_act split: option.splits)

lemma watch_timer_none:
  "unit_watch_timer e d s = (None, s') \<Longrightarrow> silent (s\<lparr>x_timer := Timer_Armed\<rparr>) s'"
  by (auto simp: unit_watch_timer_def silent_act split: option.splits)

lemma unwatch_timer_silent: "silent (s\<lparr>x_timer := Timer_Off\<rparr>) (unit_unwatch_timer s)"
proof (cases "x_timer s = Timer_Off")
  case True
  then have "s\<lparr>x_timer := Timer_Off\<rparr> = s" "unit_unwatch_timer s = s"
    by (simp_all add: unit_unwatch_timer_def)
  then show ?thesis using silent_refl [of s] by argo
qed (simp add: unit_unwatch_timer_def silent_act)

lemma silent_timer: "silent s s' \<Longrightarrow> silent (s\<lparr>x_timer := t\<rparr>) (s'\<lparr>x_timer := t\<rparr>)"
  by (auto simp: silent_def)

lemma unwatch_control_pid_silent:
  "silent (s\<lparr>cu_control_pid := min 0 (cu_control_pid s)\<rparr>) (unwatch_control_pid s)"
proof (cases "cu_control_pid s \<le> 0")
  case True
  then have "s\<lparr>cu_control_pid := min 0 (cu_control_pid s)\<rparr> = s" by (simp add: min_def)
  then show ?thesis using True by (simp add: unwatch_control_pid_def)
next
  case False
  have "unwatch_control_pid s = act (Unwatch_Pid (cu_control_pid s)) (s\<lparr>cu_control_pid := 0\<rparr>)"
    using False by (simp add: unwatch_control_pid_def unit_unwatch_pid_def act_def)
  then show ?thesis using False by (simp add: silent_act)
qed

lemma control_spawn_fails:
  assumes "control_spawn e c s = (Inl r, s')"
  shows "silent (s\<lparr>x_timer := Timer_Off\<rparr>) s'"
proof -
  have off: "silent (s\<lparr>x_timer := Timer_Off\<rparr>) (unit_unwatch_timer t)"
    if "silent (s\<lparr>x_timer := k\<rparr>) t" for t k
    using silent_trans [OF silent_timer [OF that, of Timer_Off] unwatch_timer_silent [of t]] by simp
  obtain x s1 where w: "unit_watch_timer e (cu_timeout_usec s) s = (x, s1)" by (rule prod.exhaust)
  show ?thesis
  proof (cases x)
    case (Some y)
    have "silent s s1" using watch_timer_some w Some by blast
    then have "silent (s\<lparr>x_timer := Timer_Off\<rparr>) (unit_unwatch_timer s1)"
      using silent_timer unwatch_timer_silent silent_trans by blast
    then show ?thesis using assms w Some by (auto simp: control_spawn_def)
  next
    case None
    have "silent (s\<lparr>x_timer := Timer_Armed\<rparr>) s1" using watch_timer_none w None by blast
    then have "silent (s\<lparr>x_timer := Timer_Armed\<rparr>) (act (Exec_Spawn c None False p) s1)"
      "silent (s\<lparr>x_timer := Timer_Armed\<rparr>) (act (Watch_Pid pid q) (act (Exec_Spawn c None False p) s1))" for p q pid
      by (simp_all add: silent_then_act)
    note off [OF this(1)] off [OF this(2)]
    then show ?thesis using assms w None
      by (auto simp: control_spawn_def Let_def unit_watch_pid_def split: sum.splits option.splits)
  qed
qed

lemma control_spawn_runs:
  assumes "control_spawn e c s = (Inr pid, s')"
  shows "silent (s\<lparr>x_timer := Timer_Armed\<rparr>) s' \<and> (\<exists>l. e_spawn e l c = Inr pid)"
proof -
  obtain s1 where w: "unit_watch_timer e (cu_timeout_usec s) s = (None, s1)"
    using assms by (auto simp: control_spawn_def split: prod.splits option.splits)
  have "silent (s\<lparr>x_timer := Timer_Armed\<rparr>) s1" using watch_timer_none w by blast
  then show ?thesis using assms w
    by (auto simp: control_spawn_def Let_def unit_watch_pid_def silent_then_act split: sum.splits option.splits)
qed

lemma note_failure_update: "note_failure success s = s\<lparr>cu_failure := cu_failure s \<or> \<not> success\<rparr>"
  by (cases s) (simp add: note_failure_def)

end
