(* ===== verification/Mount.thy ===== *)
theory Mount
  imports Supervised Unit_Graph Util_Text
begin

section \<open>Mount units (mount.c)\<close>

text \<open>
  \<open>struct Mount\<close> with its three sets of parameters, the functions that move it from state to state, the
  handlers, and the bookkeeping of \<open>/proc/self/mountinfo\<close>.  \<open>exec_command[id]\<close> is kept as the argument
  vector and the exit status per id; building an argument vector (\<open>exec_command_set\<close>, \<open>strappend\<close>)
  fails when the environment's \<open>e_prepare\<close> says so.  \<open>None\<close> as the result of an operation is a
  failed assertion.
\<close>

datatype mount_state =
    MOUNT_DEAD | MOUNT_MOUNTING | MOUNT_MOUNTING_DONE | MOUNT_MOUNTED | MOUNT_REMOUNTING
  | MOUNT_UNMOUNTING | MOUNT_MOUNTING_SIGTERM | MOUNT_MOUNTING_SIGKILL | MOUNT_REMOUNTING_SIGTERM
  | MOUNT_REMOUNTING_SIGKILL | MOUNT_UNMOUNTING_SIGTERM | MOUNT_UNMOUNTING_SIGKILL | MOUNT_FAILED

datatype mount_exec_command = MOUNT_EXEC_MOUNT | MOUNT_EXEC_UNMOUNT | MOUNT_EXEC_REMOUNT

record mount_parameters =
  mp_what :: "string option"
  mp_options :: "string option"
  mp_fstype :: "string option"
  mp_passno :: int

record mount = control_unit +
  m_id :: string
  m_where :: string
  m_parameters_etc_fstab :: mount_parameters
  m_parameters_proc_self_mountinfo :: mount_parameters
  m_parameters_fragment :: mount_parameters
  m_from_etc_fstab :: bool
  m_from_proc_self_mountinfo :: bool
  m_from_fragment :: bool
  m_is_mounted :: bool
  m_just_mounted :: bool
  m_just_changed :: bool
  m_reload_failure :: bool
  m_argv :: "mount_exec_command \<Rightarrow> string list"
  m_exec_status :: "mount_exec_command \<Rightarrow> exec_status"
  m_state :: mount_state
  m_deserialized_state :: mount_state
  m_control_command :: "mount_exec_command option"
  m_control_command_id :: "mount_exec_command option"
  m_pam_name :: bool
  m_load_state :: unit_load_state

definition mount_state_translation_table :: "mount_state \<Rightarrow> unit_active_state" where
  "mount_state_translation_table st =
     (case st of
        MOUNT_DEAD \<Rightarrow> UNIT_INACTIVE
      | MOUNT_MOUNTING \<Rightarrow> UNIT_ACTIVATING
      | MOUNT_MOUNTING_DONE \<Rightarrow> UNIT_ACTIVE
      | MOUNT_MOUNTED \<Rightarrow> UNIT_ACTIVE
      | MOUNT_REMOUNTING \<Rightarrow> UNIT_RELOADING
      | MOUNT_UNMOUNTING \<Rightarrow> UNIT_DEACTIVATING
      | MOUNT_MOUNTING_SIGTERM \<Rightarrow> UNIT_DEACTIVATING
      | MOUNT_MOUNTING_SIGKILL \<Rightarrow> UNIT_DEACTIVATING
      | MOUNT_REMOUNTING_SIGTERM \<Rightarrow> UNIT_RELOADING
      | MOUNT_REMOUNTING_SIGKILL \<Rightarrow> UNIT_RELOADING
      | MOUNT_UNMOUNTING_SIGTERM \<Rightarrow> UNIT_DEACTIVATING
      | MOUNT_UNMOUNTING_SIGKILL \<Rightarrow> UNIT_DEACTIVATING
      | MOUNT_FAILED \<Rightarrow> UNIT_FAILED)"

definition mount_active_state :: "mount \<Rightarrow> unit_active_state" where
  "mount_active_state m = mount_state_translation_table (m_state m)"

definition no_parameters :: mount_parameters where
  "no_parameters = \<lparr>mp_what = None, mp_options = None, mp_fstype = None, mp_passno = 0\<rparr>"

definition DEFAULT_TIMEOUT_USEC :: nat where "DEFAULT_TIMEOUT_USEC = 90000000"

text \<open>\<open>mount_init\<close>, with the defaults of \<open>exec_context_init\<close> that matter here, for a unit with the given name.\<close>

definition mount_init :: "string \<Rightarrow> mount" where
  "mount_init name =
     \<lparr>x_timer = Timer_Off, x_log = [], cu_control_pid = 0, cu_timeout_usec = DEFAULT_TIMEOUT_USEC,
      cu_kill_mode = KILL_CONTROL_GROUP, cu_kill_signal = SIGTERM, cu_send_sigkill = True,
      cu_failure = False, m_id = name, m_where = [], m_parameters_etc_fstab = no_parameters,
      m_parameters_proc_self_mountinfo = no_parameters, m_parameters_fragment = no_parameters,
      m_from_etc_fstab = False, m_from_proc_self_mountinfo = False, m_from_fragment = False,
      m_is_mounted = False, m_just_mounted = False, m_just_changed = False,
      m_reload_failure = False, m_argv = (\<lambda>_. []), m_exec_status = (\<lambda>_. exec_status_zero),
      m_state = MOUNT_DEAD, m_deserialized_state = MOUNT_DEAD, m_control_command = None,
      m_control_command_id = None, m_pam_name = False, m_load_state = UNIT_STUB\<rparr>"

subsection \<open>Parameters and options\<close>

definition get_mount_parameters_configured :: "mount \<Rightarrow> mount_parameters option" where
  "get_mount_parameters_configured m =
     (if m_from_fragment m then Some (m_parameters_fragment m)
      else if m_from_etc_fstab m then Some (m_parameters_etc_fstab m)
      else None)"

definition get_mount_parameters :: "mount \<Rightarrow> mount_parameters option" where
  "get_mount_parameters m =
     (if m_from_proc_self_mountinfo m then Some (m_parameters_proc_self_mountinfo m)
      else get_mount_parameters_configured m)"

text \<open>
  glibc's \<open>hasmntopt\<close>: the rest of the option string from the first option on that is the needle, or
  the needle followed by an equals sign.
\<close>

definition option_matches :: "string \<Rightarrow> string \<Rightarrow> bool" where
  "option_matches needle s \<longleftrightarrow>
     startswith s needle \<and>
     (case drop (length needle) s of [] \<Rightarrow> True | c # _ \<Rightarrow> c = CHR ''='' \<or> c = CHR '','')"

function hasmntopt :: "string \<Rightarrow> string \<Rightarrow> string option" where
  "hasmntopt s needle =
     (if option_matches needle s then Some s
      else case dropWhile (\<lambda>c. c \<noteq> CHR '','') s of
             [] \<Rightarrow> None
           | _ # rest \<Rightarrow> hasmntopt rest needle)"
  by pat_completeness auto
termination
proof (relation "measure (length \<circ> fst)")
  fix s needle :: string and c rest
  assume "dropWhile (\<lambda>c. c \<noteq> CHR '','') s = c # rest"
  then show "((rest, needle), (s, needle)) \<in> measure (length \<circ> fst)"
    using length_dropWhile_le [of "\<lambda>c. c \<noteq> CHR '',''" s] by simp
qed simp

declare hasmntopt.simps [simp del]

definition mount_test_option :: "string option \<Rightarrow> string \<Rightarrow> string option" where
  "mount_test_option haystack needle =
     (case haystack of None \<Rightarrow> None | Some h \<Rightarrow> hasmntopt h needle)"

definition has_option :: "mount_parameters \<Rightarrow> string \<Rightarrow> bool" where
  "has_option p needle \<longleftrightarrow> mount_test_option (mp_options p) needle \<noteq> None"

definition mount_is_network :: "mount_parameters \<Rightarrow> bool" where
  "mount_is_network p \<longleftrightarrow>
     has_option p ''_netdev'' \<or> (case mp_fstype p of None \<Rightarrow> False | Some t \<Rightarrow> fstype_is_network t)"

definition mount_is_bind :: "mount_parameters \<Rightarrow> bool" where
  "mount_is_bind p \<longleftrightarrow> has_option p ''bind'' \<or> mp_fstype p = Some ''bind''"

definition needs_quota :: "mount_parameters \<Rightarrow> bool" where
  "needs_quota p =
     (if mount_is_network p then False
      else if mount_is_bind p then False
      else has_option p ''usrquota'' \<or> has_option p ''grpquota'' \<or> has_option p ''quota'' \<or>
           has_option p ''usrjquota'' \<or> has_option p ''grpjquota'')"

definition api_mount_points :: "string list" where
  "api_mount_points = [''/proc'', ''/sys'', ''/dev'', ''/dev/shm'', ''/dev/pts'', ''/run'', ''/sys/fs/cgroup'',
     ''/sys/fs/cgroup/systemd'']"

definition mount_point_is_api :: "string \<Rightarrow> bool" where
  "mount_point_is_api p \<longleftrightarrow>
     list_ex (path_equal p) api_mount_points \<or> path_startswith p ''/sys/fs/cgroup/''"

definition mount_point_ignore :: "string \<Rightarrow> bool" where
  "mount_point_ignore p \<longleftrightarrow> list_ex (path_equal p) [''/sys/fs/selinux'', ''/selinux'', ''/proc/bus/usb'']"

definition mount_verify :: "bool \<Rightarrow> mount \<Rightarrow> unit result" where
  "mount_verify fragment_path m =
     (if m_load_state m \<noteq> UNIT_LOADED then Inr ()
      else if \<not> m_from_etc_fstab m \<and> \<not> m_from_fragment m \<and> \<not> m_from_proc_self_mountinfo m then Inl ENOENT
      else if m_id m \<noteq> unit_name_from_path (m_where m) ''.mount'' then Inl EINVAL
      else if mount_point_is_api (m_where m) \<or> mount_point_ignore (m_where m) then Inl EINVAL
      else if fragment_path \<and> mp_what (m_parameters_fragment m) = None then Inl EBADMSG
      else if m_pam_name m \<and> cu_kill_mode m \<noteq> KILL_CONTROL_GROUP then Inl EINVAL
      else Inr ())"

subsection \<open>Changing the state\<close>

definition mount_busy :: "mount_state \<Rightarrow> bool" where
  "mount_busy st \<longleftrightarrow>
     st \<in> {MOUNT_MOUNTING, MOUNT_MOUNTING_DONE, MOUNT_REMOUNTING, MOUNT_UNMOUNTING,
           MOUNT_MOUNTING_SIGTERM, MOUNT_MOUNTING_SIGKILL, MOUNT_UNMOUNTING_SIGTERM,
           MOUNT_UNMOUNTING_SIGKILL, MOUNT_REMOUNTING_SIGTERM, MOUNT_REMOUNTING_SIGKILL}"

definition mount_unwatch_control_pid :: "mount \<Rightarrow> mount" where
  "mount_unwatch_control_pid m = unwatch_control_pid m"

text \<open>The reply to the automount point is the action \<open>Automount_Ready\<close>.\<close>

definition mount_notify_automount :: "int \<Rightarrow> mount \<Rightarrow> mount" where
  "mount_notify_automount status m = act (Automount_Ready status) m"

text \<open>
  \<open>mount_set_state\<close> in three parts: what a unit at rest gives up, what the automount point
  is told, and what the manager is told.
\<close>

definition mount_release :: "mount_state \<Rightarrow> mount \<Rightarrow> mount" where
  "mount_release st m =
     (if mount_busy st then m
      else (mount_unwatch_control_pid (unit_unwatch_timer m))
             \<lparr>m_control_command := None, m_control_command_id := None\<rparr>)"

definition mount_tell_automount :: "mount_state \<Rightarrow> mount \<Rightarrow> mount" where
  "mount_tell_automount st m =
     (if st = MOUNT_MOUNTED \<or> st = MOUNT_REMOUNTING then mount_notify_automount 0 m
      else if st \<in> {MOUNT_DEAD, MOUNT_UNMOUNTING, MOUNT_MOUNTING_SIGTERM, MOUNT_MOUNTING_SIGKILL,
                    MOUNT_REMOUNTING_SIGTERM, MOUNT_REMOUNTING_SIGKILL, MOUNT_UNMOUNTING_SIGTERM,
                    MOUNT_UNMOUNTING_SIGKILL, MOUNT_FAILED}
      then mount_notify_automount (- errno_number ENODEV) m
      else m)"

definition mount_set_state :: "mount_state \<Rightarrow> mount \<Rightarrow> mount" where
  "mount_set_state st m =
     (let old_state = m_state m;
          m1 = mount_tell_automount st (mount_release st (m\<lparr>m_state := st\<rparr>))
      in (act (Unit_Notify (mount_state_translation_table old_state) (mount_state_translation_table st)
                 (\<not> m_reload_failure m1)) m1)\<lparr>m_reload_failure := False\<rparr>)"

definition mount_enter_dead :: "bool \<Rightarrow> mount \<Rightarrow> mount" where
  "mount_enter_dead success m =
     (let m1 = note_failure success m in
      mount_set_state (if cu_failure m1 then MOUNT_FAILED else MOUNT_DEAD) m1)"

definition mount_enter_mounted :: "bool \<Rightarrow> mount \<Rightarrow> mount" where
  "mount_enter_mounted success m = mount_set_state MOUNT_MOUNTED (note_failure success m)"

definition mount_spawn :: "exec_env \<Rightarrow> exec_command \<Rightarrow> mount \<Rightarrow> int result \<times> mount" where
  "mount_spawn e c m = control_spawn e c m"

definition remount_signal :: "mount_state \<Rightarrow> bool" where
  "remount_signal st \<longleftrightarrow> st = MOUNT_REMOUNTING_SIGTERM \<or> st = MOUNT_REMOUNTING_SIGKILL"

definition mount_enter_signal :: "exec_env \<Rightarrow> mount_state \<Rightarrow> bool \<Rightarrow> mount \<Rightarrow> mount" where
  "mount_enter_signal e st success m =
     (let sig = (if st = MOUNT_MOUNTING_SIGTERM \<or> st = MOUNT_UNMOUNTING_SIGTERM \<or> st = MOUNT_REMOUNTING_SIGTERM
                 then cu_kill_signal m else SIGKILL);
          give_up = (\<lambda>success m. if remount_signal st then mount_enter_mounted success m
                                 else mount_enter_dead success m) in
      case signal_unit e sig (note_failure success m) of
        (Some r, wait_for_exit, m1) \<Rightarrow> give_up False m1
      | (None, wait_for_exit, m1) \<Rightarrow>
          if wait_for_exit then
            case unit_watch_timer e (cu_timeout_usec m1) m1 of
              (Some r, m2) \<Rightarrow> give_up False m2
            | (None, m2) \<Rightarrow> mount_set_state st m2
          else give_up True m1)"

text \<open>
  The arguments of \<open>exec_command_set\<close> end at the first \<open>NULL\<close>.  \<open>mount_run\<close> is the part that the three
  commands share: the command is recorded, its arguments are set, and it is started.
\<close>

definition va_strings :: "string option list \<Rightarrow> string list" where
  "va_strings xs = map the (takeWhile (\<lambda>x. x \<noteq> None) xs)"

definition exec_command_set ::
    "exec_env \<Rightarrow> mount_exec_command \<Rightarrow> string option list \<Rightarrow> mount \<Rightarrow> errno option \<times> mount" where
  "exec_command_set e i args m =
     (let r = e_prepare e (x_log m);
          m1 = act (Prepare_Exec r) m in
      (r, if r = None then m1\<lparr>m_argv := (m_argv m1)(i := va_strings args)\<rparr> else m1))"

definition control_command_is :: "mount_exec_command \<Rightarrow> mount \<Rightarrow> mount" where
  "control_command_is i m = m\<lparr>m_control_command_id := Some i, m_control_command := Some i\<rparr>"

definition mount_run ::
    "exec_env \<Rightarrow> mount_exec_command \<Rightarrow> string option list result \<Rightarrow> mount_state \<Rightarrow> (mount \<Rightarrow> mount) \<Rightarrow>
     mount \<Rightarrow> mount" where
  "mount_run e i args st fail m =
     (case args of
        Inl r \<Rightarrow> fail m
      | Inr args \<Rightarrow>
          case exec_command_set e i args m of
            (Some r, m1) \<Rightarrow> fail m1
          | (None, m1) \<Rightarrow>
              case mount_spawn e \<lparr>c_argv = m_argv m1 i, c_ignore = False\<rparr> (mount_unwatch_control_pid m1) of
                (Inl r, m2) \<Rightarrow> fail m2
              | (Inr pid, m2) \<Rightarrow> mount_set_state st (m2\<lparr>cu_control_pid := pid\<rparr>))"

definition mount_enter_unmounting :: "exec_env \<Rightarrow> bool \<Rightarrow> mount \<Rightarrow> mount" where
  "mount_enter_unmounting e success m =
     mount_run e MOUNT_EXEC_UNMOUNT (Inr [Some ''/bin/umount'', Some (m_where m)]) MOUNT_UNMOUNTING
       (mount_enter_mounted False)
       (control_command_is MOUNT_EXEC_UNMOUNT (note_failure success m))"

text \<open>Making the source directory of a bind mount whose source is \<open>NULL\<close> fails an assertion of \<open>mkdir_p\<close>.\<close>

definition fstype_or_auto :: "mount_parameters \<Rightarrow> string option" where
  "fstype_or_auto p = (case mp_fstype p of None \<Rightarrow> Some ''auto'' | Some t \<Rightarrow> Some t)"

definition mount_arguments :: "mount \<Rightarrow> string option list result" where
  "mount_arguments m =
     (if m_from_fragment m then
        let p = m_parameters_fragment m in
        Inr [Some ''/bin/mount'', mp_what p, Some (m_where m), Some ''-t'', fstype_or_auto p,
             if mp_options p \<noteq> None then Some ''-o'' else None, mp_options p]
      else if m_from_etc_fstab m then Inr [Some ''/bin/mount'', Some (m_where m)]
      else Inl ENOENT)"

definition mount_enter_mounting :: "exec_env \<Rightarrow> mount \<Rightarrow> mount option" where
  "mount_enter_mounting e m =
     (let m1 = act (Mkdir_P (m_where m)) (control_command_is MOUNT_EXEC_MOUNT m) in do {
        m2 \<leftarrow> (case get_mount_parameters_configured m1 of
                None \<Rightarrow> Some m1
              | Some p \<Rightarrow>
                  if mount_is_bind p
                  then map_option (\<lambda>w. act (Mkdir_P w) m1) (mp_what p) else Some m1);
        Some (mount_run e MOUNT_EXEC_MOUNT (mount_arguments m2) MOUNT_MOUNTING (mount_enter_dead False) m2) })"

definition mount_enter_mounting_done :: "mount \<Rightarrow> mount" where
  "mount_enter_mounting_done m = mount_set_state MOUNT_MOUNTING_DONE m"

definition remount_arguments :: "mount \<Rightarrow> string option list result" where
  "remount_arguments m =
     (if m_from_fragment m then
        let p = m_parameters_fragment m in
        Inr [Some ''/bin/mount'', mp_what p, Some (m_where m), Some ''-t'', fstype_or_auto p, Some ''-o'',
             case mp_options p of Some o' \<Rightarrow> Some (''remount,'' @ o') | None \<Rightarrow> Some ''remount'']
      else if m_from_etc_fstab m
      then Inr [Some ''/bin/mount'', Some (m_where m), Some ''-o'', Some ''remount'']
      else Inl ENOENT)"

definition mount_enter_remounting :: "exec_env \<Rightarrow> bool \<Rightarrow> mount \<Rightarrow> mount" where
  "mount_enter_remounting e success m =
     mount_run e MOUNT_EXEC_REMOUNT (remount_arguments m) MOUNT_REMOUNTING
       (\<lambda>m. mount_enter_mounted True (m\<lparr>m_reload_failure := True\<rparr>))
       (control_command_is MOUNT_EXEC_REMOUNT (note_failure success m))"

subsection \<open>Requests\<close>

definition mount_start :: "exec_env \<Rightarrow> mount \<Rightarrow> (errno option \<times> mount) option" where
  "mount_start e m =
     (if m_state m \<in> {MOUNT_UNMOUNTING, MOUNT_UNMOUNTING_SIGTERM, MOUNT_UNMOUNTING_SIGKILL,
                      MOUNT_MOUNTING_SIGTERM, MOUNT_MOUNTING_SIGKILL}
      then Some (Some EAGAIN, m)
      else if m_state m = MOUNT_MOUNTING then Some (None, m)
      else if m_state m \<noteq> MOUNT_DEAD \<and> m_state m \<noteq> MOUNT_FAILED then None
      else map_option (Pair None) (mount_enter_mounting e (m\<lparr>cu_failure := False\<rparr>)))"

definition mount_stop :: "exec_env \<Rightarrow> mount \<Rightarrow> (errno option \<times> mount) option" where
  "mount_stop e m =
     (if m_state m \<in> {MOUNT_UNMOUNTING, MOUNT_UNMOUNTING_SIGKILL, MOUNT_UNMOUNTING_SIGTERM,
                      MOUNT_MOUNTING_SIGTERM, MOUNT_MOUNTING_SIGKILL}
      then Some (None, m)
      else if m_state m \<notin> {MOUNT_MOUNTING, MOUNT_MOUNTING_DONE, MOUNT_MOUNTED, MOUNT_REMOUNTING,
                           MOUNT_REMOUNTING_SIGTERM, MOUNT_REMOUNTING_SIGKILL} then None
      else Some (None, mount_enter_unmounting e True m))"

definition mount_reload :: "exec_env \<Rightarrow> mount \<Rightarrow> (errno option \<times> mount) option" where
  "mount_reload e m =
     (if m_state m = MOUNT_MOUNTING_DONE then Some (Some EAGAIN, m)
      else if m_state m \<noteq> MOUNT_MOUNTED then None
      else Some (None, mount_enter_remounting e True m))"

definition mount_reset_failed :: "mount \<Rightarrow> mount" where
  "mount_reset_failed m =
     (if m_state m = MOUNT_FAILED then mount_set_state MOUNT_DEAD m else m)\<lparr>cu_failure := False\<rparr>"

definition mount_kill :: "exec_env \<Rightarrow> kill_who \<Rightarrow> kill_mode \<Rightarrow> int \<Rightarrow> mount \<Rightarrow> int \<times> mount" where
  "mount_kill e who mode signo m = control_kill e who mode signo m"

definition mount_check_gc :: "mount \<Rightarrow> bool" where
  "mount_check_gc m \<longleftrightarrow> m_from_etc_fstab m \<or> m_from_proc_self_mountinfo m"

subsection \<open>Events\<close>

definition mounted_or_dead :: "bool \<Rightarrow> mount \<Rightarrow> mount" where
  "mounted_or_dead success m =
     (if m_from_proc_self_mountinfo m then mount_enter_mounted success m else mount_enter_dead success m)"

definition mount_sigchld_event :: "exec_env \<Rightarrow> int \<Rightarrow> int \<Rightarrow> int \<Rightarrow> mount \<Rightarrow> mount option" where
  "mount_sigchld_event e pid code status m =
     (if pid \<noteq> cu_control_pid m then Some m
      else
        let success = is_clean_exit code status;
            m1 = m\<lparr>cu_control_pid := 0, cu_failure := cu_failure m \<or> \<not> success\<rparr>;
            m2 = (case m_control_command m1 of
                    None \<Rightarrow> m1
                  | Some i \<Rightarrow>
                      m1\<lparr>m_exec_status := (m_exec_status m1)
                           (i := exec_status_exit (e_now e (x_log m1)) pid code status (m_exec_status m1 i)),
                         m_control_command := None, m_control_command_id := None\<rparr>) in
        map_option (act Dbus_Queue)
          (if m_state m2 \<in> {MOUNT_MOUNTING, MOUNT_MOUNTING_DONE, MOUNT_MOUNTING_SIGKILL, MOUNT_MOUNTING_SIGTERM}
           then Some (if success then mount_enter_mounted True m2 else mounted_or_dead False m2)
           else if m_state m2 \<in> {MOUNT_REMOUNTING, MOUNT_REMOUNTING_SIGKILL, MOUNT_REMOUNTING_SIGTERM}
           then Some (mounted_or_dead True (m2\<lparr>m_reload_failure := \<not> success\<rparr>))
           else if m_state m2 \<in> {MOUNT_UNMOUNTING, MOUNT_UNMOUNTING_SIGKILL, MOUNT_UNMOUNTING_SIGTERM}
           then Some (if success then mount_enter_dead True m2 else mounted_or_dead False m2)
           else None))"

definition mount_timer_event :: "exec_env \<Rightarrow> mount \<Rightarrow> mount option" where
  "mount_timer_event e m =
     (case m_state m of
        MOUNT_MOUNTING \<Rightarrow> Some (mount_enter_signal e MOUNT_MOUNTING_SIGTERM False m)
      | MOUNT_MOUNTING_DONE \<Rightarrow> Some (mount_enter_signal e MOUNT_MOUNTING_SIGTERM False m)
      | MOUNT_REMOUNTING \<Rightarrow> Some (mount_enter_mounted True (m\<lparr>m_reload_failure := True\<rparr>))
      | MOUNT_UNMOUNTING \<Rightarrow> Some (mount_enter_signal e MOUNT_UNMOUNTING_SIGTERM False m)
      | MOUNT_MOUNTING_SIGTERM \<Rightarrow>
          Some (if cu_send_sigkill m then mount_enter_signal e MOUNT_MOUNTING_SIGKILL False m
                else mounted_or_dead False m)
      | MOUNT_REMOUNTING_SIGTERM \<Rightarrow>
          Some (if cu_send_sigkill m then mount_enter_signal e MOUNT_REMOUNTING_SIGKILL False m
                else mounted_or_dead False m)
      | MOUNT_UNMOUNTING_SIGTERM \<Rightarrow>
          Some (if cu_send_sigkill m then mount_enter_signal e MOUNT_UNMOUNTING_SIGKILL False m
                else mounted_or_dead False m)
      | MOUNT_MOUNTING_SIGKILL \<Rightarrow> Some (mounted_or_dead False m)
      | MOUNT_REMOUNTING_SIGKILL \<Rightarrow> Some (mounted_or_dead False m)
      | MOUNT_UNMOUNTING_SIGKILL \<Rightarrow> Some (mounted_or_dead False m)
      | MOUNT_DEAD \<Rightarrow> None
      | MOUNT_MOUNTED \<Rightarrow> None
      | MOUNT_FAILED \<Rightarrow> None)"

subsection \<open>The mount table\<close>

text \<open>
  A line of the table is source, mount point, options, file system type and fsck pass.
  \<open>mount_set_entry\<close> is what \<open>mount_add_one\<close> does to the unit of the mount point.
\<close>

type_synonym mount_entry = "string \<times> string \<times> string \<times> string \<times> int"

definition mount_set_entry :: "bool \<Rightarrow> bool \<Rightarrow> mount_entry \<Rightarrow> mount \<Rightarrow> mount" where
  "mount_set_entry from_proc_self_mountinfo set_flags x m =
     (case x of (what, where', options, fstype, passno) \<Rightarrow>
        let q = \<lparr>mp_what = Some what, mp_options = Some options, mp_fstype = Some fstype, mp_passno = passno\<rparr> in
        act Dbus_Queue
          (if from_proc_self_mountinfo then
             (if set_flags
              then m\<lparr>m_is_mounted := True, m_just_mounted := \<not> m_from_proc_self_mountinfo m,
                     m_just_changed := mp_options (m_parameters_proc_self_mountinfo m) \<noteq> Some options\<rparr>
              else m)\<lparr>m_from_proc_self_mountinfo := True, m_parameters_proc_self_mountinfo := q\<rparr>
           else m\<lparr>m_from_etc_fstab := True, m_parameters_etc_fstab := q\<rparr>))"

text \<open>
  The mount units of the manager, the latest first as in \<open>units_by_type\<close>, and the number of unit names.
\<close>

record mount_manager =
  mm_mounts :: "mount list"
  mm_names :: nat

definition ignored_entry :: "mount_entry \<Rightarrow> bool" where
  "ignored_entry x \<longleftrightarrow>
     (case x of (what, where', options, fstype, passno) \<Rightarrow>
        mount_point_is_api where' \<or> mount_point_ignore where' \<or> fstype = ''autofs'' \<or> \<not> is_path where')"

definition entry_unit :: "mount_entry \<Rightarrow> string" where
  "entry_unit x = unit_name_from_path (fst (snd x)) ''.mount''"

text \<open>The errors of \<open>unit_add_name\<close> for a new mount unit.\<close>

definition new_name_error :: "mount_manager \<Rightarrow> string \<Rightarrow> errno option" where
  "new_name_error mm n =
     (if \<not> unit_name_is_valid n False \<or> unit_name_to_instance n \<noteq> Some None then Some EINVAL
      else if mm_names mm \<ge> MANAGER_MAX_NAMES then Some E2BIG
      else None)"

definition mount_add_one ::
    "mount_entry \<Rightarrow> bool \<Rightarrow> bool \<Rightarrow> mount_manager \<Rightarrow> errno option \<times> mount_manager" where
  "mount_add_one x from_proc_self_mountinfo set_flags mm =
     (if ignored_entry x then (None, mm)
      else
        let n = entry_unit x;
            set = (\<lambda>m. if m_id m = n then mount_set_entry from_proc_self_mountinfo set_flags x m else m) in
        if n \<in> m_id ` List.set (mm_mounts mm) then (None, mm\<lparr>mm_mounts := map set (mm_mounts mm)\<rparr>)
        else case new_name_error mm n of
               Some r \<Rightarrow> (Some r, mm)
             | None \<Rightarrow>
                 (None, mm\<lparr>mm_mounts := set ((mount_init n)\<lparr>m_where := fst (snd x)\<rparr>) # mm_mounts mm,
                           mm_names := Suc (mm_names mm)\<rparr>))"

text \<open>
  A line of \<open>/proc/self/mountinfo\<close> with the five fields that \<open>fscanf\<close> picks (mount point, options, type, source,
  more options; mount point and source with the kernel's octal escapes undone by \<open>cunescape\<close>), or one that it
  cannot read.
\<close>

datatype mountinfo_line = Bad_Line | Fields string string string string string

definition mountinfo_entry :: "mountinfo_line \<Rightarrow> mount_entry option" where
  "mountinfo_entry l =
     (case l of
        Bad_Line \<Rightarrow> None
      | Fields path' options fstype device options2 \<Rightarrow>
          Some (device, path', options @ '','' @ options2, fstype, 0))"

fun mount_load_proc_self_mountinfo ::
    "bool \<Rightarrow> mountinfo_line list \<Rightarrow> mount_manager \<Rightarrow> errno option \<times> mount_manager" where
  "mount_load_proc_self_mountinfo set_flags [] mm = (None, mm)"
| "mount_load_proc_self_mountinfo set_flags (l # ls) mm =
     (case mountinfo_entry l of
        None \<Rightarrow> mount_load_proc_self_mountinfo set_flags ls mm
      | Some x \<Rightarrow>
          case mount_add_one x True set_flags mm of
            (k, mm1) \<Rightarrow>
              case mount_load_proc_self_mountinfo set_flags ls mm1 of
                (r, mm2) \<Rightarrow> (if r = None then k else r, mm2))"

definition reset_flags :: "mount \<Rightarrow> mount" where
  "reset_flags m = m\<lparr>m_is_mounted := False, m_just_mounted := False, m_just_changed := False\<rparr>"

text \<open>The body of the loop of \<open>mount_fd_event\<close>.\<close>

definition mount_update :: "mount \<Rightarrow> mount" where
  "mount_update m =
     reset_flags
       (if \<not> m_is_mounted m then
          let m1 = m\<lparr>m_from_proc_self_mountinfo := False\<rparr> in
          if m_state m1 = MOUNT_MOUNTED then mount_enter_dead True m1
          else mount_set_state (m_state m1) m1
        else if m_just_mounted m \<or> m_just_changed m then
          if m_state m = MOUNT_DEAD \<or> m_state m = MOUNT_FAILED then mount_enter_mounted True m
          else if m_state m = MOUNT_MOUNTING then mount_enter_mounting_done m
          else mount_set_state (m_state m) m
        else m)"

text \<open>
  Units that the table brought up are loaded before they are updated; what loading finds (a unit
  file, drop-ins) is the argument \<open>load\<close>.
\<close>

definition dispatch_load :: "(mount \<Rightarrow> mount) \<Rightarrow> mount \<Rightarrow> mount" where
  "dispatch_load load m = (if m_load_state m = UNIT_STUB then load m else m)"

definition mount_fd_event :: "(mount \<Rightarrow> mount) \<Rightarrow> mountinfo_line list \<Rightarrow> mount_manager \<Rightarrow> mount_manager" where
  "mount_fd_event load ls mm =
     (case mount_load_proc_self_mountinfo True ls mm of
        (Some r, mm1) \<Rightarrow> mm1\<lparr>mm_mounts := map reset_flags (mm_mounts mm1)\<rparr>
      | (None, mm1) \<Rightarrow> mm1\<lparr>mm_mounts := map (mount_update \<circ> dispatch_load load) (mm_mounts mm1)\<rparr>)"

subsection \<open>Steps\<close>

text \<open>
  One mount unit among the events of its callers: the guards of \<open>unit_start\<close>, \<open>unit_stop\<close> and
  \<open>unit_reload\<close>, a pid that \<open>waitid\<close> can report, a timer that is armed; and a reading of the mount table, with
  the entries for its mount point, and whether some line of the table, of this unit or another, has failed.
\<close>

type_synonym mount_event = "(bool \<times> mount_entry list) control_event"

definition mount_table_event :: "bool \<times> mount_entry list \<Rightarrow> mount \<Rightarrow> mount" where
  "mount_table_event t m =
     (case t of (failed, xs) \<Rightarrow>
        let m1 = fold (mount_set_entry True True) xs m in if failed then reset_flags m1 else mount_update m1)"

definition mount_enabled :: "mount_event \<Rightarrow> mount \<Rightarrow> bool" where
  "mount_enabled ev m =
     (case ev of
        Ev_Start \<Rightarrow> m_load_state m = UNIT_LOADED \<and> \<not> UNIT_IS_ACTIVE_OR_RELOADING (mount_active_state m)
      | Ev_Stop \<Rightarrow> \<not> UNIT_IS_INACTIVE_OR_FAILED (mount_active_state m)
      | Ev_Reload \<Rightarrow> mount_active_state m = UNIT_ACTIVE
      | Ev_Sigchld pid code status \<Rightarrow> pid > 0
      | Ev_Timer \<Rightarrow> x_timer m = Timer_Armed
      | _ \<Rightarrow> True)"

definition mount_dispatch :: "exec_env \<Rightarrow> mount_event \<Rightarrow> mount \<Rightarrow> mount option" where
  "mount_dispatch e ev m =
     (case ev of
        Ev_Start \<Rightarrow> map_option snd (mount_start e m)
      | Ev_Stop \<Rightarrow> map_option snd (mount_stop e m)
      | Ev_Reload \<Rightarrow> map_option snd (mount_reload e m)
      | Ev_Reset_Failed \<Rightarrow> Some (mount_reset_failed m)
      | Ev_Kill who mode signo \<Rightarrow> Some (snd (mount_kill e who mode signo m))
      | Ev_Sigchld pid code status \<Rightarrow> mount_sigchld_event e pid code status m
      | Ev_Timer \<Rightarrow> mount_timer_event e (m\<lparr>x_timer := Timer_Elapsed\<rparr>)
      | Ev_Table t \<Rightarrow> Some (mount_table_event t m))"

inductive mount_step :: "mount_event \<Rightarrow> mount \<Rightarrow> mount \<Rightarrow> bool" where
  "env_ok e \<Longrightarrow> mount_enabled ev m \<Longrightarrow> mount_dispatch e ev m = Some m' \<Longrightarrow> mount_step ev m m'"

end
