(* ===== verification/Control_Machine.thy ===== *)
theory Control_Machine
  imports Supervised
begin

section \<open>State machines with one control process\<close>

text \<open>
  What \<open>mount.c\<close>, \<open>swap.c\<close> and \<open>socket.c\<close> have in common, as a locale over the function that changes
  the state: a busy unit has its timer armed, a unit at rest has neither a timer nor a control process,
  and every change is told.  The lemmas of the locale are about the two pieces of code that the three
  share: sending signals on the way down, and starting a command.
\<close>

locale control_machine =
  fixes state :: "'a control_unit_scheme \<Rightarrow> 'st"
    and busy :: "'st \<Rightarrow> bool"
    and active :: "'st \<Rightarrow> unit_active_state"
    and config :: "'a control_unit_scheme \<Rightarrow> bool"
    and settled :: "'a control_unit_scheme \<Rightarrow> bool"
    and task :: "'a control_unit_scheme \<Rightarrow> 'x"
    and set_state :: "'st \<Rightarrow> 'a control_unit_scheme \<Rightarrow> 'a control_unit_scheme"
  assumes frame: "control_unit.more s' = control_unit.more s \<Longrightarrow>
      state s' = state s \<and> config s' = config s \<and> settled s' = settled s \<and> task s' = task s"
    and set_state: "state (set_state st s) = st" "config s \<Longrightarrow> config (set_state st s)"
      "config s \<Longrightarrow> settled (set_state st s)"
    and set_busy: "busy st \<Longrightarrow> x_timer (set_state st s) = x_timer s \<and>
      cu_control_pid (set_state st s) = cu_control_pid s \<and> task (set_state st s) = task s"
    and set_rest: "\<not> busy st \<Longrightarrow> x_timer (set_state st s) = Timer_Off \<and>
      cu_control_pid (set_state st s) = min 0 (cu_control_pid s)"
    and tells: "\<exists>l. x_log (set_state st s) = x_log s @ l \<and> noticed l (active (state s)) = Some (active st)"
begin

definition core :: "'a control_unit_scheme \<Rightarrow> bool" where
  "core s \<longleftrightarrow> cu_control_pid s \<ge> 0 \<and> config s"

definition ok :: "'a control_unit_scheme \<Rightarrow> bool" where
  "ok s \<longleftrightarrow> (if busy (state s) then x_timer s = Timer_Armed else x_timer s = Timer_Off \<and> cu_control_pid s = 0) \<and>
     core s \<and> settled s"

definition heard :: "'a control_unit_scheme \<Rightarrow> 'a control_unit_scheme \<Rightarrow> bool" where
  "heard s s' \<longleftrightarrow> (\<exists>l. x_log s' = x_log s @ l \<and> noticed l (active (state s)) = Some (active (state s')))"

definition lands :: "'st \<Rightarrow> 'a control_unit_scheme \<Rightarrow> 'a control_unit_scheme \<Rightarrow> bool" where
  "lands st s s' \<longleftrightarrow> state s' = st \<and> ok s' \<and> heard s s'"

lemma ok_parts:
  "ok s \<Longrightarrow> core s" "ok s \<Longrightarrow> busy (state s) \<Longrightarrow> x_timer s = Timer_Armed" "ok s \<Longrightarrow> cu_control_pid s > 0 \<Longrightarrow> busy (state s)"
  "ok s \<Longrightarrow> x_timer s = Timer_Armed \<Longrightarrow> busy (state s)"
  by (auto simp: ok_def split: if_splits)

lemma heard_trans: "heard s s' \<Longrightarrow> heard s' s'' \<Longrightarrow> heard s s''"
  by (auto simp: heard_def)

lemma heard_same: "x_log s' = x_log s \<Longrightarrow> state s' = state s \<Longrightarrow> heard s s'"
  by (simp add: heard_def)

lemma from_lands: "heard s s1 \<Longrightarrow> lands st s1 s' \<Longrightarrow> lands st s s'"
  by (auto simp: lands_def intro: heard_trans)

text \<open>A unit that went on without changing its state.\<close>

definition goes :: "'a control_unit_scheme \<Rightarrow> 'a control_unit_scheme \<Rightarrow> bool" where
  "goes s s' \<longleftrightarrow> heard s s' \<and> state s' = state s \<and> (config s \<longrightarrow> config s') \<and> task s' = task s"

lemma goes_trans: "goes s s' \<Longrightarrow> goes s' s'' \<Longrightarrow> goes s s''"
  unfolding goes_def using heard_trans by metis

lemma goes_lands: "goes s s1 \<Longrightarrow> lands st s1 s' \<Longrightarrow> lands st s s'"
  using from_lands by (auto simp: goes_def)

lemma goes_core: "goes s s' \<Longrightarrow> core s \<Longrightarrow> cu_control_pid s' \<ge> 0 \<Longrightarrow> core s'"
  by (simp add: goes_def core_def)

lemma goes_frame: "control_unit.more s' = control_unit.more s \<Longrightarrow> x_log s' = x_log s \<Longrightarrow> goes s s'"
  using frame [of s' s] by (simp add: goes_def heard_same)

lemma goes_update:
  "goes s (s\<lparr>x_timer := t\<rparr>)" "goes s (s\<lparr>cu_control_pid := p\<rparr>)" "goes s (s\<lparr>cu_failure := b\<rparr>)"
  by (rule goes_frame; simp)+

lemma goes_silent:
  assumes "silent s s'"
  shows "goes s s'" "x_timer s' = x_timer s" "cu_control_pid s' = cu_control_pid s"
proof -
  obtain l where l: "quiet l" "s' = s\<lparr>x_log := x_log s @ l\<rparr>" using assms by (auto simp: silent_def)
  then have "state s' = state s \<and> config s' = config s \<and> settled s' = settled s \<and> task s' = task s"
    by (intro frame) simp
  then show "goes s s'" using l by (auto simp: goes_def heard_def quiet_def)
  show "x_timer s' = x_timer s" "cu_control_pid s' = cu_control_pid s" using l(2) by simp_all
qed

lemma settled_silent: "silent s s' \<Longrightarrow> settled s' = settled s"
  by (rule frame [THEN conjunct2, THEN conjunct2, THEN conjunct1]) (auto simp: silent_def)

lemma core_failure [simp]: "core (s\<lparr>cu_failure := b\<rparr>) = core s"
  using frame [of "s\<lparr>cu_failure := b\<rparr>" s] by (simp add: core_def)

lemma goes_failure: "goes s (note_failure b s)" "core (note_failure b s) = core s"
  by (simp_all add: note_failure_update goes_update)

lemma rest_lands:
  assumes "core s" "\<not> busy st"
  shows "lands st s (set_state st s)"
  using assms tells [of st s] set_state [where st = st and s = s] set_rest [of st s]
  by (simp add: lands_def ok_def core_def heard_def min_def)

lemma busy_lands:
  assumes "core s" "busy st" "x_timer s = Timer_Armed"
  shows "lands st s (set_state st s)"
  using assms tells [of st s] set_state [where st = st and s = s] set_busy [of st s]
  by (simp add: lands_def ok_def core_def heard_def)

text \<open>
  The code behind \<open>enter_signal\<close>: with \<open>wait_for_exit\<close>, the timer is armed for the next state;
  without, or on failure, the unit gives up.
\<close>

definition signalling :: "exec_env \<Rightarrow> int \<Rightarrow> 'st \<Rightarrow> (bool \<Rightarrow> 'a control_unit_scheme \<Rightarrow> 'a control_unit_scheme) \<Rightarrow>
    'a control_unit_scheme \<Rightarrow> 'a control_unit_scheme" where
  "signalling e sig st give_up s =
     (case signal_unit e sig s of
        (Some r, wait_for_exit, s1) \<Rightarrow> give_up False s1
      | (None, wait_for_exit, s1) \<Rightarrow>
          if wait_for_exit then
            case unit_watch_timer e (cu_timeout_usec s1) s1 of
              (Some r, s2) \<Rightarrow> give_up False s2
            | (None, s2) \<Rightarrow> set_state st s2
          else give_up True s1)"

lemma signalling_cases:
  assumes "core s" "busy st"
  obtains s1 where "signalling e sig st give_up s = set_state st s1" "goes s s1" "core s1" "x_timer s1 = Timer_Armed"
  | s1 b where "signalling e sig st give_up s = give_up b s1" "goes s s1" "core s1"
proof -
  obtain r w s1 where s: "signal_unit e sig s = (r, w, s1)" by (rule prod_cases3)
  note g1 = goes_silent [OF signal_unit_silent [OF s]]
  have c1: "core s1" using goes_core [OF g1(1) assms(1)] g1(3) assms(1) by (simp add: core_def)
  obtain x s2 where w: "unit_watch_timer e (cu_timeout_usec s1) s1 = (x, s2)" by (rule prod.exhaust)
  consider "r \<noteq> None \<or> \<not> w" | y where "r = None" "w" "x = Some y" | "r = None" "w" "x = None" by (cases x) auto
  then show thesis
  proof cases
    case 1
    then have "signalling e sig st give_up s = give_up (r = None) s1"
      by (cases r) (simp_all add: signalling_def s)
    then show thesis using that(2) g1(1) c1 by blast
  next
    case 2
    note g = goes_silent [OF watch_timer_some [OF w [unfolded 2]]]
    have "signalling e sig st give_up s = give_up False s2" using 2 w by (simp add: signalling_def s)
    moreover have "core s2" using goes_core [OF g(1) c1] g(3) c1 by (simp add: core_def)
    ultimately show thesis using that(2) goes_trans [OF g1(1) g(1)] by blast
  next
    case 3
    note g = goes_silent [OF watch_timer_none [OF w [unfolded 3]]]
    have g2: "goes s1 s2" using goes_trans [OF goes_update(1) g(1)] .
    have "signalling e sig st give_up s = set_state st s2" using 3 w by (simp add: signalling_def s)
    moreover have "core s2" using goes_core [OF g2 c1] g(3) c1 by (simp add: core_def)
    ultimately show thesis using that(1) goes_trans [OF g1(1) g2] g(2) by simp
  qed
qed

lemma signalling_lands:
  assumes "core s" "busy st" "\<And>b s'. goes s s' \<Longrightarrow> core s' \<Longrightarrow> \<exists>st'. P st' \<and> lands st' s' (give_up b s')"
  shows "\<exists>st'. (st' = st \<and> task (signalling e sig st give_up s) = task s \<or> P st') \<and>
    lands st' s (signalling e sig st give_up s)"
proof (rule signalling_cases [OF assms(1,2), of e sig give_up])
  fix s1 assume "signalling e sig st give_up s = set_state st s1" "goes s s1" "core s1" "x_timer s1 = Timer_Armed"
  then show ?thesis using busy_lands [OF _ assms(2)] goes_lands set_busy [OF assms(2)] by (metis goes_def)
next
  fix s1 b assume "signalling e sig st give_up s = give_up b s1" "goes s s1" "core s1"
  then show ?thesis using assms(3) [of s1 b] goes_lands by metis
qed

text \<open>The code around \<open>spawn\<close>.\<close>

lemma spawn_cases:
  assumes "core s" "env_ok e" "control_spawn e c s = (r, s')"
  obtains x where "r = Inl x" "goes s s'" "core s'"
  | pid where "r = Inr pid" "goes s s'" "pid > 0" "x_timer s' = Timer_Armed" "core (s'\<lparr>cu_control_pid := pid\<rparr>)"
proof (cases r)
  case (Inl x)
  note g = goes_silent [OF control_spawn_fails [OF assms(3) [unfolded Inl]]]
  have g': "goes s s'" using goes_trans [OF goes_update(1) g(1)] .
  have "core s'" using goes_core [OF g' assms(1)] g(3) assms(1) by (simp add: core_def)
  then show thesis using that(1) Inl g' by blast
next
  case (Inr pid)
  note s = control_spawn_runs [OF assms(3) [unfolded Inr]]
  note g = goes_silent [OF s [THEN conjunct1]]
  have g': "goes s s'" using goes_trans [OF goes_update(1) g(1)] .
  have p: "pid > 0" using s assms(2) unfolding env_ok_def by (metis less_trans zero_less_one)
  have "core (s'\<lparr>cu_control_pid := pid\<rparr>)"
    using goes_core [OF goes_trans [OF g' goes_update(2)] assms(1), of pid] p by simp
  then show thesis using that(2) Inr g' p g(2) by simp
qed

lemma unwatch_goes:
  assumes "core s"
  shows "goes s (unwatch_control_pid s)" "core (unwatch_control_pid s)" "cu_control_pid (unwatch_control_pid s) = 0"
    "x_timer (unwatch_control_pid s) = x_timer s"
proof -
  note g = goes_silent [OF unwatch_control_pid_silent [of s]]
  show 1: "goes s (unwatch_control_pid s)" using goes_trans [OF goes_update(2) g(1)] .
  show 2: "cu_control_pid (unwatch_control_pid s) = 0" using g(3) assms by (simp add: core_def)
  show "core (unwatch_control_pid s)" using goes_core [OF 1 assms] 2 by simp
  show "x_timer (unwatch_control_pid s) = x_timer s" using g(2) by simp
qed

definition spawning :: "exec_env \<Rightarrow> exec_command \<Rightarrow> 'st \<Rightarrow> ('a control_unit_scheme \<Rightarrow> 'a control_unit_scheme) \<Rightarrow>
    'a control_unit_scheme \<Rightarrow> 'a control_unit_scheme" where
  "spawning e c st fail s =
     (case control_spawn e c (unwatch_control_pid s) of
        (Inl r, s') \<Rightarrow> fail s'
      | (Inr pid, s') \<Rightarrow> set_state st (s'\<lparr>cu_control_pid := pid\<rparr>))"

lemma spawning_lands:
  assumes "core s" "env_ok e" "busy st" "\<And>s'. goes s s' \<Longrightarrow> core s' \<Longrightarrow> \<exists>st'. P st' \<and> lands st' s' (fail s')"
  shows "\<exists>st'. (st' = st \<or> P st') \<and> lands st' s (spawning e c st fail s)"
proof -
  note u = unwatch_goes [OF assms(1)]
  obtain r s' where sp: "control_spawn e c (unwatch_control_pid s) = (r, s')" by (rule prod.exhaust)
  show ?thesis
  proof (rule spawn_cases [OF u(2) assms(2) sp])
    fix x assume "r = Inl x" and c: "goes (unwatch_control_pid s) s'" "core s'"
    then show ?thesis
      using assms(4) [OF goes_trans [OF u(1) c(1)] c(2)] goes_lands [OF goes_trans [OF u(1) c(1)]] sp
      by (auto simp: spawning_def)
  next
    fix pid assume y: "r = Inr pid" "goes (unwatch_control_pid s) s'" "x_timer s' = Timer_Armed"
      "core (s'\<lparr>cu_control_pid := pid\<rparr>)"
    have "goes s (s'\<lparr>cu_control_pid := pid\<rparr>)"
      using goes_trans [OF goes_trans [OF u(1) y(2)] goes_update(2)] .
    then have "lands st s (set_state st (s'\<lparr>cu_control_pid := pid\<rparr>))"
      using goes_lands busy_lands [OF y(4) assms(3)] y(3) by simp
    then show ?thesis using sp y(1) by (auto simp: spawning_def)
  qed
qed

text \<open>What every handler has to show, for a measure of the states.\<close>

definition handled :: "('a control_unit_scheme \<Rightarrow> nat) \<Rightarrow> bool \<Rightarrow> 'a control_unit_scheme \<Rightarrow> 'a control_unit_scheme \<Rightarrow> bool" where
  "handled rank timeout s s' \<longleftrightarrow>
     ok s' \<and> heard s s' \<and>
     (busy (state s) \<and> busy (state s') \<longrightarrow> (if timeout then rank s' < rank s else rank s' \<le> rank s))"

lemma rest_handled: "lands st s s' \<Longrightarrow> \<not> busy st \<Longrightarrow> handled rank t s s'"
  by (auto simp: lands_def handled_def)

lemma lands_handled:
  "lands st s s' \<Longrightarrow> (if t then rank s' < rank s else rank s' \<le> rank s) \<Longrightarrow> handled rank t s s'"
  by (simp add: lands_def handled_def)

lemma wake_handled: "lands st s s' \<Longrightarrow> \<not> busy (state s) \<Longrightarrow> handled rank t s s'"
  by (simp add: lands_def handled_def)

lemma same_handled: "ok s \<Longrightarrow> handled rank False s s"
  by (simp add: handled_def heard_same)

lemma goes_handled:
  assumes "ok s" "goes s s'" "x_timer s' = x_timer s" "cu_control_pid s' = cu_control_pid s" "settled s'"
    "rank s' \<le> rank s"
  shows "handled rank False s s'"
  using assms by (simp add: handled_def goes_def ok_def core_def)

lemma handled_goes:
  assumes "handled rank t s s'" "goes s' s''" "x_timer s'' = x_timer s'" "cu_control_pid s'' = cu_control_pid s'"
    "settled s''" "rank s'' = rank s'"
  shows "handled rank t s s''"
  using assms heard_trans [of s s' s''] by (simp add: handled_def goes_def ok_def core_def)

lemma handled_from:
  "handled rank t s1 s' \<Longrightarrow> heard s s1 \<Longrightarrow> state s1 = state s \<Longrightarrow> rank s1 = rank s \<Longrightarrow> handled rank t s s'"
  by (auto simp: handled_def intro: heard_trans)

lemma again_lands:
  assumes "ok s"
  shows "lands (state s) s (set_state (state s) s)"
  using rest_lands [OF ok_parts(1) [OF assms], of "state s"] busy_lands [OF ok_parts(1) [OF assms], of "state s"] assms
  by (auto simp: ok_def)

end

end
