(* ===== verification/Mount_Ok.thy ===== *)
theory Mount_Ok
  imports Mount Control_Machine
begin

section \<open>The invariant of a mount unit\<close>

text \<open>
  A mount unit that is busy has an armed timer, one at rest has neither timer nor control
  process.  Every handler keeps this, tells every change of the active state, and brings a
  busy unit closer to rest with every timeout.
\<close>

definition mount_config_ok :: "mount \<Rightarrow> bool" where
  "mount_config_ok m \<longleftrightarrow> (\<forall>p. get_mount_parameters_configured m = Some p \<longrightarrow> mp_what p \<noteq> None)"

definition mount_rank :: "mount \<Rightarrow> nat" where
  "mount_rank m =
     (case m_state m of
        MOUNT_MOUNTING_SIGTERM \<Rightarrow> 1 | MOUNT_UNMOUNTING_SIGTERM \<Rightarrow> 1
      | MOUNT_MOUNTING_SIGKILL \<Rightarrow> 0 | MOUNT_UNMOUNTING_SIGKILL \<Rightarrow> 0
      | _ \<Rightarrow> 2)"

lemma mount_config_cong:
  "m_from_fragment m' = m_from_fragment m \<Longrightarrow> m_from_etc_fstab m' = m_from_etc_fstab m \<Longrightarrow>
   m_parameters_fragment m' = m_parameters_fragment m \<Longrightarrow>
   m_parameters_etc_fstab m' = m_parameters_etc_fstab m \<Longrightarrow> mount_config_ok m' = mount_config_ok m"
  by (simp add: mount_config_ok_def get_mount_parameters_configured_def)

lemma mount_frame:
  fixes m m' :: mount
  shows "control_unit.more m' = control_unit.more m \<Longrightarrow> m_state m' = m_state m \<and> mount_config_ok m' = mount_config_ok m \<and> True = True \<and> () = ()"
  by (cases m, cases m') (simp add: mount_config_ok_def get_mount_parameters_configured_def)

lemma mount_config_update [simp]:
  "mount_config_ok (m\<lparr>m_argv := f\<rparr>) = mount_config_ok m"
  "mount_config_ok (m\<lparr>m_reload_failure := b\<rparr>) = mount_config_ok m"
  "mount_config_ok (m\<lparr>m_exec_status := g\<rparr>) = mount_config_ok m"
  "mount_config_ok (m\<lparr>m_control_command := c\<rparr>) = mount_config_ok m"
  "mount_config_ok (m\<lparr>m_control_command_id := c\<rparr>) = mount_config_ok m"
  "mount_config_ok (m\<lparr>m_from_proc_self_mountinfo := b\<rparr>) = mount_config_ok m"
  by (rule mount_config_cong; simp)+

subsection \<open>Changing the state\<close>

lemma mount_tell_automount_silent: "silent m (mount_tell_automount st m)"
  by (simp add: mount_tell_automount_def mount_notify_automount_def silent_act)

lemma mount_release_silent:
  "silent (if mount_busy st then m
           else m\<lparr>x_timer := Timer_Off, cu_control_pid := min 0 (cu_control_pid m),
                  m_control_command := None, m_control_command_id := None\<rparr>) (mount_release st m)"
proof (cases "mount_busy st")
  case False
  obtain l where l: "quiet l" "unit_unwatch_timer m = m\<lparr>x_timer := Timer_Off, x_log := x_log m @ l\<rparr>"
    using unwatch_timer_silent [of m] by (auto simp: silent_def)
  obtain l' where l': "quiet l'" "unwatch_control_pid (unit_unwatch_timer m) =
      (unit_unwatch_timer m)\<lparr>cu_control_pid := min 0 (cu_control_pid (unit_unwatch_timer m)),
         x_log := x_log (unit_unwatch_timer m) @ l'\<rparr>"
    using unwatch_control_pid_silent [of "unit_unwatch_timer m"] by (auto simp: silent_def)
  have "quiet (l @ l')" using l(1) l'(1) by (rule quiet_append)
  then show ?thesis
    using False unfolding mount_release_def mount_unwatch_control_pid_def silent_def l'(2)
    unfolding l(2) by (intro exI [of _ "l @ l'"]) simp
qed (simp add: mount_release_def)

lemma mount_set_state_form:
  "\<exists>l. quiet l \<and> mount_set_state st m =
     (if mount_busy st then m
      else m\<lparr>x_timer := Timer_Off, cu_control_pid := min 0 (cu_control_pid m),
             m_control_command := None, m_control_command_id := None\<rparr>)
       \<lparr>m_state := st, m_reload_failure := False,
        x_log := x_log m @ l @ [Unit_Notify (mount_state_translation_table (m_state m))
          (mount_state_translation_table st) (\<not> m_reload_failure m)]\<rparr>"
proof -
  define b where "b = mount_busy st"
  obtain l where "quiet l" "mount_tell_automount st (mount_release st (m\<lparr>m_state := st\<rparr>)) =
      (if b then m\<lparr>m_state := st\<rparr>
       else (m\<lparr>m_state := st\<rparr>)\<lparr>x_timer := Timer_Off, cu_control_pid := min 0 (cu_control_pid m),
              m_control_command := None, m_control_command_id := None\<rparr>)\<lparr>x_log := x_log m @ l\<rparr>"
    using silent_trans [OF mount_release_silent mount_tell_automount_silent, of st "m\<lparr>m_state := st\<rparr>" st]
    unfolding silent_def b_def by (cases "mount_busy st") auto
  then show ?thesis
    unfolding mount_set_state_def Let_def b_def [symmetric]
    by (intro exI [of _ l], cases b) (simp_all add: act_def)
qed

lemma mount_set_state_select [simp]:
  "m_state (mount_set_state st m) = st"
  "x_timer (mount_set_state st m) = (if mount_busy st then x_timer m else Timer_Off)"
  "cu_control_pid (mount_set_state st m) = (if mount_busy st then cu_control_pid m else min 0 (cu_control_pid m))"
  "m_control_command_id (mount_set_state st m) = (if mount_busy st then m_control_command_id m else None)"
  "m_reload_failure (mount_set_state st m) = False"
  "cu_failure (mount_set_state st m) = cu_failure m"
  "m_from_proc_self_mountinfo (mount_set_state st m) = m_from_proc_self_mountinfo m"
  "m_from_fragment (mount_set_state st m) = m_from_fragment m"
  "m_from_etc_fstab (mount_set_state st m) = m_from_etc_fstab m"
  "m_parameters_fragment (mount_set_state st m) = m_parameters_fragment m"
  "m_parameters_etc_fstab (mount_set_state st m) = m_parameters_etc_fstab m"
  "m_id (mount_set_state st m) = m_id m" "m_where (mount_set_state st m) = m_where m"
  "m_load_state (mount_set_state st m) = m_load_state m"
  by (rule exE [OF mount_set_state_form [of st m]], cases "mount_busy st", simp, simp)+

lemma mount_set_state_log:
  "\<exists>l. x_log (mount_set_state st m) = x_log m @ l \<and>
     noticed l (mount_state_translation_table (m_state m)) = Some (mount_state_translation_table st)"
  by (rule exE [OF mount_set_state_form [of st m]], cases "mount_busy st") (simp_all add: quiet_def)

interpretation mnt: control_machine m_state mount_busy mount_state_translation_table mount_config_ok
  "\<lambda>_. True" "\<lambda>_. ()" mount_set_state
proof (unfold_locales, goal_cases)
  case 1
  then show ?case by (rule mount_frame)
next
  case (3 m st)
  then show ?case by (simp add: mount_config_ok_def get_mount_parameters_configured_def)
next
  case (7 st m)
  show ?case by (rule mount_set_state_log)
qed simp_all

lemma mount_busy_states [simp]:
  "mount_busy MOUNT_MOUNTING" "mount_busy MOUNT_MOUNTING_DONE" "mount_busy MOUNT_REMOUNTING" "mount_busy MOUNT_UNMOUNTING"
  "mount_busy MOUNT_MOUNTING_SIGTERM" "mount_busy MOUNT_MOUNTING_SIGKILL" "mount_busy MOUNT_UNMOUNTING_SIGTERM"
  "mount_busy MOUNT_UNMOUNTING_SIGKILL" "\<not> mount_busy MOUNT_DEAD" "\<not> mount_busy MOUNT_FAILED" "\<not> mount_busy MOUNT_MOUNTED"
  by (simp_all add: mount_busy_def)

definition mount_down :: "mount_state \<Rightarrow> bool" where
  "mount_down st \<longleftrightarrow> st = MOUNT_DEAD \<or> st = MOUNT_FAILED"

lemma mount_down_rest: "mount_down st \<Longrightarrow> \<not> mount_busy st"
  by (auto simp: mount_down_def)

lemma mount_enter_mounted_lands:
  "mnt.core m \<Longrightarrow> mnt.lands MOUNT_MOUNTED m (mount_enter_mounted success m)"
  using mnt.goes_lands [OF mnt.goes_failure(1) mnt.rest_lands] by (simp add: mount_enter_mounted_def mnt.goes_failure)

lemma mount_enter_dead_lands:
  assumes "mnt.core m"
  shows "\<exists>st. mount_down st \<and> mnt.lands st m (mount_enter_dead success m)"
proof -
  define st where "st = (if cu_failure (note_failure success m) then MOUNT_FAILED else MOUNT_DEAD)"
  have "mnt.lands st m (mount_set_state st (note_failure success m))"
    using mnt.goes_lands [OF mnt.goes_failure(1) mnt.rest_lands, of success m st] assms
    by (simp add: mnt.goes_failure st_def)
  moreover have "mount_down st" by (simp add: st_def mount_down_def)
  ultimately show ?thesis unfolding mount_enter_dead_def Let_def st_def by blast
qed

lemma mounted_or_dead_lands:
  assumes "mnt.core m"
  shows "\<exists>st. (st = MOUNT_MOUNTED \<or> mount_down st) \<and> mnt.lands st m (mounted_or_dead success m)"
  using mount_enter_dead_lands [OF assms, of success] mount_enter_mounted_lands [OF assms, of success]
  by (auto simp: mounted_or_dead_def)

lemma mount_enter_signal_lands:
  assumes "mnt.core m" "mount_busy st" "\<not> remount_signal st"
  shows "\<exists>st'. (st' = st \<or> mount_down st') \<and> mnt.lands st' m (mount_enter_signal e st success m)"
proof -
  have "\<exists>st'. (st' = st \<or> mount_down st') \<and> mnt.lands st' (note_failure success m) (mnt.signalling e sig st
      (\<lambda>b m. if remount_signal st then mount_enter_mounted b m else mount_enter_dead b m) (note_failure success m))" for sig
    using assms mount_enter_dead_lands
    by (intro mnt.signalling_lands [where P = mount_down, simplified]) (simp_all add: mnt.goes_failure)
  then have "\<exists>st'. (st' = st \<or> mount_down st') \<and> mnt.lands st' (note_failure success m) (mount_enter_signal e st success m)"
    unfolding mount_enter_signal_def mnt.signalling_def Let_def by blast
  then show ?thesis using mnt.goes_lands [OF mnt.goes_failure(1)] by blast
qed

subsection \<open>Running commands\<close>

lemma mount_run_lands:
  assumes "mnt.core m" "env_ok e" "mount_busy st"
    and fail: "\<And>m'. mnt.core m' \<Longrightarrow> \<exists>st'. P st' \<and> mnt.lands st' m' (fail m')"
  shows "\<exists>st'. (st' = st \<or> P st') \<and> mnt.lands st' m (mount_run e i args st fail m)"
proof (cases args)
  case (Inl r)
  then show ?thesis using fail [OF assms(1)] by (auto simp: mount_run_def)
next
  case (Inr xs)
  obtain x m1 where c: "exec_command_set e i xs m = (x, m1)" by (rule prod.exhaust)
  then have "m_state m1 = m_state m" "cu_control_pid m1 = cu_control_pid m" "x_log m1 = x_log m @ [Prepare_Exec x]"
    "mount_config_ok m1 = mount_config_ok m"
    by (auto simp: exec_command_set_def Let_def act_def mount_config_ok_def get_mount_parameters_configured_def
        split: if_splits)
  then have g: "mnt.goes m m1" "mnt.core m1" using assms(1) by (auto simp: mnt.goes_def mnt.heard_def mnt.core_def)
  have run: "mount_run e i args st fail m =
      (if x = None then mnt.spawning e \<lparr>c_argv = m_argv m1 i, c_ignore = False\<rparr> st fail m1 else fail m1)"
    using Inr c by (cases x) (simp_all add: mount_run_def mnt.spawning_def mount_spawn_def mount_unwatch_control_pid_def)
  have "\<exists>st'. (st' = st \<or> P st') \<and> mnt.lands st' m1 (mount_run e i args st fail m)"
    using fail [OF g(2)] mnt.spawning_lands [OF g(2) assms(2,3) fail] run by (cases x) auto
  then show ?thesis using mnt.goes_lands [OF g(1)] by blast
qed

lemma control_command_is_goes: "mnt.goes m (control_command_is i m)" "mnt.core (control_command_is i m) = mnt.core m"
  by (simp_all add: control_command_is_def mnt.goes_def mnt.core_def mnt.heard_same)

lemma mount_prepared:
  "mnt.goes m (control_command_is i (note_failure b m))" "mnt.core (control_command_is i (note_failure b m)) = mnt.core m"
  using mnt.goes_trans [OF mnt.goes_failure(1) control_command_is_goes(1)]
  by (simp_all add: control_command_is_goes mnt.goes_failure)

lemma mount_enter_unmounting_lands:
  assumes "mnt.core m" "env_ok e"
  shows "\<exists>st. (st = MOUNT_UNMOUNTING \<or> st = MOUNT_MOUNTED) \<and> mnt.lands st m (mount_enter_unmounting e success m)"
proof -
  have "\<exists>st. (st = MOUNT_UNMOUNTING \<or> st = MOUNT_MOUNTED) \<and>
      mnt.lands st (control_command_is MOUNT_EXEC_UNMOUNT (note_failure success m)) (mount_enter_unmounting e success m)"
    unfolding mount_enter_unmounting_def using assms mount_enter_mounted_lands
    by (intro mount_run_lands) (simp_all add: mount_prepared)
  then show ?thesis using mnt.goes_lands [OF mount_prepared(1)] by blast
qed

lemma mount_remount_failed:
  assumes "mnt.core m"
  shows "mnt.lands MOUNT_MOUNTED m (mount_enter_mounted True (m\<lparr>m_reload_failure := True\<rparr>))"
proof (rule mnt.goes_lands)
  show "mnt.goes m (m\<lparr>m_reload_failure := True\<rparr>)" by (simp add: mnt.goes_def mnt.heard_same)
  show "mnt.lands MOUNT_MOUNTED (m\<lparr>m_reload_failure := True\<rparr>) (mount_enter_mounted True (m\<lparr>m_reload_failure := True\<rparr>))"
    using assms by (intro mount_enter_mounted_lands) (simp add: mnt.core_def)
qed

lemma mount_enter_remounting_lands:
  assumes "mnt.core m" "env_ok e"
  shows "\<exists>st. (st = MOUNT_REMOUNTING \<or> st = MOUNT_MOUNTED) \<and> mnt.lands st m (mount_enter_remounting e success m)"
proof -
  have "\<exists>st. (st = MOUNT_REMOUNTING \<or> st = MOUNT_MOUNTED) \<and>
      mnt.lands st (control_command_is MOUNT_EXEC_REMOUNT (note_failure success m)) (mount_enter_remounting e success m)"
    unfolding mount_enter_remounting_def using assms mount_remount_failed
    by (intro mount_run_lands) (simp_all add: mount_prepared)
  then show ?thesis using mnt.goes_lands [OF mount_prepared(1)] by blast
qed

lemma mount_enter_mounting_lands:
  assumes "mnt.core m" "env_ok e"
  shows "\<exists>m' st. mount_enter_mounting e m = Some m' \<and> (st = MOUNT_MOUNTING \<or> mount_down st) \<and> mnt.lands st m m'"
proof -
  define m1 where "m1 = act (Mkdir_P (m_where m)) (control_command_is MOUNT_EXEC_MOUNT m)"
  have step: "mnt.goes m (act (Mkdir_P w) m')" "mnt.core (act (Mkdir_P w) m')" if "mnt.goes m m'" "mnt.core m'" for w m'
    using mnt.goes_trans [OF that(1)] mnt.goes_silent [OF silent_act [of "Mkdir_P w" m']] that(2)
      mnt.goes_core [of m' "act (Mkdir_P w) m'"] by (simp_all add: mnt.core_def)
  have m1: "mnt.goes m m1" "mnt.core m1"
    unfolding m1_def using assms(1) by (simp_all add: step control_command_is_goes)
  have "\<exists>m2. (case get_mount_parameters_configured m1 of None \<Rightarrow> Some m1
      | Some p \<Rightarrow> if mount_is_bind p then map_option (\<lambda>w. act (Mkdir_P w) m1) (mp_what p) else Some m1) = Some m2 \<and>
    mnt.goes m m2 \<and> mnt.core m2"
  proof (cases "\<exists>p. get_mount_parameters_configured m1 = Some p \<and> mount_is_bind p")
    case True
    then obtain p where p: "get_mount_parameters_configured m1 = Some p" "mount_is_bind p" by blast
    then obtain w where "mp_what p = Some w" using m1(2) by (auto simp: mnt.core_def mount_config_ok_def)
    then show ?thesis using p step [OF m1] by simp
  next
    case False
    then show ?thesis using m1 by (auto split: option.split)
  qed
  then obtain m2 where m2: "(case get_mount_parameters_configured m1 of None \<Rightarrow> Some m1
      | Some p \<Rightarrow> if mount_is_bind p then map_option (\<lambda>w. act (Mkdir_P w) m1) (mp_what p) else Some m1) = Some m2"
    "mnt.goes m m2" "mnt.core m2" by blast
  define m' where "m' = mount_run e MOUNT_EXEC_MOUNT (mount_arguments m2) MOUNT_MOUNTING (mount_enter_dead False) m2"
  have "\<exists>st. (st = MOUNT_MOUNTING \<or> mount_down st) \<and> mnt.lands st m2 m'"
    unfolding m'_def using m2 assms(2) mount_enter_dead_lands by (intro mount_run_lands) simp_all
  moreover have "mount_enter_mounting e m = Some m'"
    unfolding mount_enter_mounting_def Let_def m1_def [symmetric] m2(1) by (simp add: m'_def)
  ultimately show ?thesis using mnt.goes_lands [OF m2(2)] by blast
qed

subsection \<open>Requests\<close>

definition mount_handled :: "bool \<Rightarrow> mount \<Rightarrow> mount \<Rightarrow> bool" where
  "mount_handled t m m' \<longleftrightarrow> mnt.handled mount_rank t m m' \<and> \<not> remount_signal (m_state m')"

definition mount_ok :: "mount \<Rightarrow> bool" where
  "mount_ok m \<longleftrightarrow> mnt.ok m \<and> \<not> remount_signal (m_state m)"

lemma mount_ok_core: "mount_ok m \<Longrightarrow> mnt.core m"
  using mnt.ok_parts(1) by (simp add: mount_ok_def)

lemma remount_signal_states [simp]:
  "\<not> remount_signal MOUNT_MOUNTED" "\<not> remount_signal MOUNT_DEAD" "\<not> remount_signal MOUNT_FAILED"
  "\<not> remount_signal MOUNT_MOUNTING" "\<not> remount_signal MOUNT_MOUNTING_DONE" "\<not> remount_signal MOUNT_REMOUNTING"
  "\<not> remount_signal MOUNT_UNMOUNTING" "\<not> remount_signal MOUNT_MOUNTING_SIGTERM" "\<not> remount_signal MOUNT_MOUNTING_SIGKILL"
  "\<not> remount_signal MOUNT_UNMOUNTING_SIGTERM" "\<not> remount_signal MOUNT_UNMOUNTING_SIGKILL"
  by (simp_all add: remount_signal_def)

lemma mount_same_handled: "mount_ok m \<Longrightarrow> mount_handled False m m"
  by (simp add: mount_ok_def mount_handled_def mnt.same_handled)

lemma mount_rest_handled: "mnt.lands st m m' \<Longrightarrow> st = MOUNT_MOUNTED \<or> mount_down st \<Longrightarrow> mount_handled t m m'"
  using mnt.rest_handled [of st m m'] by (auto simp: mount_handled_def mnt.lands_def mount_down_def)

lemma mount_wake_handled:
  "mnt.lands st m m' \<Longrightarrow> \<not> mount_busy (m_state m) \<Longrightarrow> \<not> remount_signal st \<Longrightarrow> mount_handled t m m'"
  using mnt.wake_handled [of st m m'] by (auto simp: mount_handled_def mnt.lands_def)

lemma mount_rank_le: "mount_rank m \<le> 2"
  by (simp add: mount_rank_def split: mount_state.split)

lemma mount_goes_handled:
  assumes "mount_ok m" "mnt.goes m m'" "x_timer m' = x_timer m" "cu_control_pid m' = cu_control_pid m"
  shows "mount_handled False m m'"
  using mnt.goes_handled [OF _ assms(2-4), of mount_rank] assms(1,2)
  by (simp add: mount_ok_def mount_handled_def mnt.goes_def mount_rank_def)

lemma mount_silent_handled:
  assumes "mount_ok m" "silent m m'"
  shows "mount_handled False m m'"
  using mount_goes_handled [OF assms(1) mnt.goes_silent [OF assms(2)]] .

lemma mount_start_handled:
  assumes "mount_ok m" "env_ok e" "mount_enabled Ev_Start m"
  shows "\<exists>r m'. mount_start e m = Some (r, m') \<and> mount_handled False m m'"
proof -
  have st: "m_state m \<in> {MOUNT_UNMOUNTING, MOUNT_UNMOUNTING_SIGTERM, MOUNT_UNMOUNTING_SIGKILL,
      MOUNT_MOUNTING_SIGTERM, MOUNT_MOUNTING_SIGKILL, MOUNT_MOUNTING, MOUNT_DEAD, MOUNT_FAILED}"
    using assms(3) by (cases "m_state m") (simp_all add: mount_enabled_def mount_active_state_def
        mount_state_translation_table_def job_defs)
  obtain m' st where m': "mount_enter_mounting e (m\<lparr>cu_failure := False\<rparr>) = Some m'"
      "st = MOUNT_MOUNTING \<or> mount_down st" "mnt.lands st (m\<lparr>cu_failure := False\<rparr>) m'"
    using mount_enter_mounting_lands [of "m\<lparr>cu_failure := False\<rparr>" e] mount_ok_core [OF assms(1)] assms(2) by auto
  have "mount_handled False m m'" if "\<not> mount_busy (m_state m)"
    using mount_wake_handled [OF mnt.goes_lands [OF mnt.goes_update(3) m'(3)] that] m'(2) by (auto simp: mount_down_def)
  then show ?thesis
    using st mount_same_handled [OF assms(1)] m'(1) unfolding mount_start_def by (cases "m_state m") simp_all
qed

lemma mount_stop_handled:
  assumes "mount_ok m" "env_ok e" "mount_enabled Ev_Stop m"
  shows "\<exists>r m'. mount_stop e m = Some (r, m') \<and> mount_handled False m m'"
proof -
  have st: "m_state m \<in> {MOUNT_UNMOUNTING, MOUNT_UNMOUNTING_SIGTERM, MOUNT_UNMOUNTING_SIGKILL,
      MOUNT_MOUNTING_SIGTERM, MOUNT_MOUNTING_SIGKILL, MOUNT_MOUNTING, MOUNT_MOUNTING_DONE, MOUNT_MOUNTED, MOUNT_REMOUNTING}"
    using assms(1,3) by (cases "m_state m") (simp_all add: mount_enabled_def mount_active_state_def
        mount_state_translation_table_def mount_ok_def remount_signal_def job_defs)
  define m' where "m' = mount_enter_unmounting e True m"
  obtain st' where l: "st' = MOUNT_UNMOUNTING \<or> st' = MOUNT_MOUNTED" "mnt.lands st' m m'"
    using mount_enter_unmounting_lands [OF mount_ok_core [OF assms(1)] assms(2), of True] by (auto simp: m'_def)
  have "mount_handled False m m'" if "mount_rank m = 2"
    using mnt.lands_handled [OF l(2), of False mount_rank] l that mount_rank_le [of m']
    by (auto simp: mount_handled_def mnt.lands_def)
  then show ?thesis
    using st mount_same_handled [OF assms(1)] unfolding mount_stop_def m'_def
    by (cases "m_state m") (simp_all add: mount_rank_def)
qed

lemma mount_reload_handled:
  assumes "mount_ok m" "env_ok e" "mount_enabled Ev_Reload m"
  shows "\<exists>r m'. mount_reload e m = Some (r, m') \<and> mount_handled False m m'"
proof -
  have st: "m_state m = MOUNT_MOUNTING_DONE \<or> m_state m = MOUNT_MOUNTED"
    using assms(3) by (cases "m_state m") (simp_all add: mount_enabled_def mount_active_state_def
        mount_state_translation_table_def)
  obtain st' where "st' = MOUNT_REMOUNTING \<or> st' = MOUNT_MOUNTED" "mnt.lands st' m (mount_enter_remounting e True m)"
    using mount_enter_remounting_lands [OF mount_ok_core [OF assms(1)] assms(2), of True] by blast
  then have "mount_handled False m (mount_enter_remounting e True m)" if "m_state m = MOUNT_MOUNTED"
    using mount_wake_handled [of st' m] that by auto
  then show ?thesis using st mount_same_handled [OF assms(1)] by (auto simp: mount_reload_def)
qed

subsection \<open>Events\<close>

lemma mount_sigchld_handled:
  assumes "mount_ok m" "pid > 0"
  shows "\<exists>m'. mount_sigchld_event e pid code status m = Some m' \<and> mount_handled False m m'"
proof (cases "pid = cu_control_pid m")
  case False
  then show ?thesis using mount_same_handled [OF assms(1)] by (simp add: mount_sigchld_event_def)
next
  case True
  define success where "success = is_clean_exit code status"
  define m1 where "m1 = m\<lparr>cu_control_pid := 0, cu_failure := cu_failure m \<or> \<not> success\<rparr>"
  define m2 where "m2 = (case m_control_command m1 of None \<Rightarrow> m1
    | Some i \<Rightarrow> m1\<lparr>m_exec_status := (m_exec_status m1)
        (i := exec_status_exit (e_now e (x_log m1)) pid code status (m_exec_status m1 i)),
        m_control_command := None, m_control_command_id := None\<rparr>)"
  define m3 where "m3 = m2\<lparr>m_reload_failure := \<not> success\<rparr>"
  have busy: "mount_busy (m_state m)" "\<not> remount_signal (m_state m)"
    using mnt.ok_parts(3) [of m] assms True by (simp_all add: mount_ok_def)
  have "mount_config_ok m1 = mount_config_ok m" unfolding m1_def by (rule mount_config_cong) simp_all
  then have c: "mnt.core m2" "mnt.core m3" "mnt.heard m m2" "mnt.heard m m3" "m_state m2 = m_state m"
    using mount_ok_core [OF assms(1)]
    by (auto simp: m3_def m2_def mnt.core_def intro!: mnt.heard_same split: option.splits) (simp_all add: m1_def)
  have rest: "\<exists>st. (st = MOUNT_MOUNTED \<or> mount_down st) \<and> mnt.lands st m m'"
    if "m' = mount_enter_mounted True m2 \<or> m' = mount_enter_dead True m2 \<or> m' = mounted_or_dead False m2 \<or>
        m' = mounted_or_dead True m3" for m'
  proof -
    have "\<exists>st. (st = MOUNT_MOUNTED \<or> mount_down st) \<and> (mnt.lands st m2 m' \<or> mnt.lands st m3 m')"
      using that mount_enter_mounted_lands [OF c(1), of True] mount_enter_dead_lands [OF c(1), of True]
        mounted_or_dead_lands [OF c(1), of False] mounted_or_dead_lands [OF c(2), of True]
      by (elim disjE) blast+
    then show ?thesis using mnt.from_lands [OF c(3)] mnt.from_lands [OF c(4)] by blast
  qed
  have "\<exists>m'. mount_sigchld_event e pid code status m = Some (act Dbus_Queue m') \<and>
    (m' = mount_enter_mounted True m2 \<or> m' = mount_enter_dead True m2 \<or> m' = mounted_or_dead False m2 \<or>
     m' = mounted_or_dead True m3)"
    using busy True c(5) unfolding mount_sigchld_event_def Let_def success_def [symmetric] m1_def [symmetric]
      m2_def [symmetric] m3_def [symmetric] mount_busy_def remount_signal_def
    by (cases "m_state m") (auto split: if_splits)
  then obtain m' st where m': "mount_sigchld_event e pid code status m = Some (act Dbus_Queue m')"
      "st = MOUNT_MOUNTED \<or> mount_down st" "mnt.lands st m m'"
    using rest by blast
  have "mnt.handled mount_rank False m' (act Dbus_Queue m')"
    using m'(3) mnt.goes_handled [OF _ mnt.goes_silent [OF silent_act [of Dbus_Queue m']]]
    by (simp add: mnt.lands_def mount_rank_def act_def)
  then have "mnt.lands st m (act Dbus_Queue m')"
    using m'(3) mnt.heard_trans by (auto simp: mnt.lands_def mnt.handled_def act_def)
  then show ?thesis using m'(1) mount_rest_handled [OF _ m'(2)] by blast
qed

lemma mount_timer_handled:
  assumes "mount_ok m" "x_timer m = Timer_Armed"
  shows "\<exists>m'. mount_timer_event e (m\<lparr>x_timer := Timer_Elapsed\<rparr>) = Some m' \<and> mount_handled True m m'"
proof -
  define m1 where "m1 = m\<lparr>x_timer := Timer_Elapsed\<rparr>"
  have busy: "mount_busy (m_state m)" "\<not> remount_signal (m_state m)"
    using assms mnt.ok_parts(4) by (simp_all add: mount_ok_def)
  have g: "mnt.goes m m1" unfolding m1_def by (rule mnt.goes_update)
  have c: "mnt.core m1" "m_state m1 = m_state m"
    using mnt.goes_core [OF g mount_ok_core [OF assms(1)]] mount_ok_core [OF assms(1)]
    by (simp_all add: m1_def mnt.core_def)
  have signal: "mount_handled True m (mount_enter_signal e st False m1)"
    if "st \<in> {MOUNT_MOUNTING_SIGTERM, MOUNT_UNMOUNTING_SIGTERM} \<and> mount_rank m = 2 \<or>
      st \<in> {MOUNT_MOUNTING_SIGKILL, MOUNT_UNMOUNTING_SIGKILL} \<and> mount_rank m = 1" for st
  proof -
    define m' where "m' = mount_enter_signal e st False m1"
    have st: "mount_busy st" "\<not> remount_signal st" using that by auto
    then obtain st' where l: "st' = st \<or> mount_down st'" "mnt.lands st' m m'"
      using mount_enter_signal_lands [OF c(1), of st e False] mnt.goes_lands [OF g] unfolding m'_def by blast
    have "mount_handled True m m'" if "st' = st"
    proof -
      have "m_state m' = st" using l(2) that by (simp add: mnt.lands_def)
      then show ?thesis
        using mnt.lands_handled [OF l(2), of True mount_rank] \<open>st \<in> _ \<and> _ \<or> _\<close> st(2)
        by (auto simp: mount_handled_def mount_rank_def)
    qed
    then show ?thesis using l mount_rest_handled [OF l(2)] unfolding m'_def by blast
  qed
  have rest: "mount_handled True m (mounted_or_dead False m1)"
    using mounted_or_dead_lands [OF c(1)] mnt.goes_lands [OF g] mount_rest_handled by blast
  have rem: "mount_handled True m (mount_enter_mounted True (m1\<lparr>m_reload_failure := True\<rparr>))"
    using mount_rest_handled [OF mnt.goes_lands [OF g mount_remount_failed [OF c(1)]]] by simp
  show ?thesis
    using busy c(2) signal rest rem unfolding mount_timer_event_def m1_def [symmetric]
    by (cases "m_state m") (simp_all add: remount_signal_def mount_rank_def)
qed

lemma reset_flags_goes:
  "mnt.goes m (reset_flags m)" "x_timer (reset_flags m) = x_timer m" "cu_control_pid (reset_flags m) = cu_control_pid m"
  "m_state (reset_flags m) = m_state m"
proof -
  have "mount_config_ok (reset_flags m) = mount_config_ok m"
    by (rule mount_config_cong) (simp_all add: reset_flags_def)
  then show "mnt.goes m (reset_flags m)" unfolding mnt.goes_def
    by (intro conjI mnt.heard_same) (simp_all add: reset_flags_def)
qed (simp_all add: reset_flags_def)

lemma set_entry_goes:
  "mnt.goes m (mount_set_entry True b x m)" "x_timer (mount_set_entry True b x m) = x_timer m"
  "cu_control_pid (mount_set_entry True b x m) = cu_control_pid m" "m_state (mount_set_entry True b x m) = m_state m"
proof -
  obtain m1 where m1: "mount_set_entry True b x m = act Dbus_Queue m1" "x_log m1 = x_log m" "m_state m1 = m_state m"
    "x_timer m1 = x_timer m" "cu_control_pid m1 = cu_control_pid m" "mount_config_ok m1 = mount_config_ok m"
    by (cases x, cases b) (auto simp: mount_set_entry_def Let_def mount_config_ok_def get_mount_parameters_configured_def)
  note g = mnt.goes_silent [OF silent_act [of Dbus_Queue m1]]
  have "mnt.goes m m1" using m1 by (simp add: mnt.goes_def mnt.heard_same)
  then have g': "mnt.goes m (act Dbus_Queue m1)" using g(1) mnt.goes_trans by simp
  then show "mnt.goes m (mount_set_entry True b x m)" "m_state (mount_set_entry True b x m) = m_state m"
    using m1(1) by (simp_all add: mnt.goes_def)
  show "x_timer (mount_set_entry True b x m) = x_timer m" "cu_control_pid (mount_set_entry True b x m) = cu_control_pid m"
    using m1 by simp_all
qed

lemma fold_entries_goes:
  "mnt.goes m (fold (mount_set_entry True b) xs m)" "x_timer (fold (mount_set_entry True b) xs m) = x_timer m"
  "cu_control_pid (fold (mount_set_entry True b) xs m) = cu_control_pid m"
  "m_state (fold (mount_set_entry True b) xs m) = m_state m"
proof (induction xs arbitrary: m)
  case (Cons x xs)
  { case 1 show ?case using mnt.goes_trans [OF set_entry_goes(1) Cons.IH(1)] by simp }
  { case 2 show ?case using Cons.IH(2) set_entry_goes(2) by simp }
  { case 3 show ?case using Cons.IH(3) set_entry_goes(3) by simp }
  { case 4 show ?case using Cons.IH(4) set_entry_goes(4) by simp }
qed (simp_all add: mnt.goes_def mnt.heard_same)

lemma mount_goes_ok:
  "mount_ok m \<Longrightarrow> mnt.goes m m' \<Longrightarrow> x_timer m' = x_timer m \<Longrightarrow> cu_control_pid m' = cu_control_pid m \<Longrightarrow> mount_ok m'"
  by (simp add: mount_ok_def mnt.ok_def mnt.core_def mnt.goes_def)

lemma mount_update_handled:
  assumes "mount_ok m"
  shows "mount_handled False m (mount_update m)"
proof -
  define m1 where "m1 = m\<lparr>m_from_proc_self_mountinfo := False\<rparr>"
  have g: "mnt.goes m m1" by (simp add: mnt.goes_def mnt.heard_same m1_def)
  have m1: "mount_ok m1" "m_state m1 = m_state m" using mount_goes_ok [OF assms g] by (simp_all add: m1_def)
  have again: "mount_handled False m (mount_set_state (m_state m') m')" if "mnt.goes m m'" "mount_ok m'" for m'
    using mnt.lands_handled [OF mnt.goes_lands [OF that(1) mnt.again_lands], of False mount_rank] that
    by (simp add: mount_ok_def mount_handled_def mount_rank_def mnt.goes_def)
  have dead: "mount_handled False m (mount_enter_dead True m1)"
    using mount_enter_dead_lands [OF mount_ok_core [OF m1(1)]] mnt.goes_lands [OF g] mount_rest_handled by blast
  have mounted: "mount_handled False m (mount_enter_mounted True m)"
    using mount_rest_handled [OF mount_enter_mounted_lands [OF mount_ok_core [OF assms]]] by simp
  have md: "mount_handled False m (mount_enter_mounting_done m)" if "m_state m = MOUNT_MOUNTING"
  proof -
    have "x_timer m = Timer_Armed" using assms that by (simp add: mount_ok_def mnt.ok_def)
    then have "mnt.lands MOUNT_MOUNTING_DONE m (mount_enter_mounting_done m)"
      unfolding mount_enter_mounting_done_def by (intro mnt.busy_lands mount_ok_core assms) simp_all
    then show ?thesis
      using mnt.lands_handled [of MOUNT_MOUNTING_DONE m _ False mount_rank] that
      by (simp add: mount_handled_def mnt.lands_def mount_rank_def)
  qed
  have reset: "mount_handled False m (reset_flags m')" if "mount_handled False m m'" for m'
    using that mnt.handled_goes [OF _ reset_flags_goes(1-3), of mount_rank False m m']
    by (simp add: mount_handled_def reset_flags_goes mount_rank_def)
  have refl: "mnt.goes m m" by (simp add: mnt.goes_def mnt.heard_same)
  show ?thesis
    unfolding mount_update_def Let_def m1_def [symmetric]
    using dead mounted md mount_same_handled [OF assms] again [OF refl assms] again [OF g m1(1)]
    by (intro reset) (simp only: split: if_split, blast)
qed

lemma mount_table_handled:
  assumes "mount_ok m"
  shows "mount_handled False m (mount_table_event t m)"
proof -
  obtain failed xs where t: "t = (failed, xs)" by (cases t)
  define m1 where "m1 = fold (mount_set_entry True True) xs m"
  define m' where "m' = (if failed then reset_flags m1 else mount_update m1)"
  note g = fold_entries_goes [where b = True and xs = xs and m = m, folded m1_def]
  have m1: "mnt.goes m m1" "m_state m1 = m_state m" "mount_ok m1"
    using g mount_goes_ok [OF assms g(1-3)] by blast+
  have h: "mount_handled False m1 m'"
    using mount_update_handled [OF m1(3)] mount_goes_handled [OF m1(3) reset_flags_goes(1-3)] by (simp add: m'_def)
  have "mnt.handled mount_rank False m m'"
  proof (rule mnt.handled_from)
    show "mnt.handled mount_rank False m1 m'" using h by (simp add: mount_handled_def)
  qed (use m1 in \<open>simp_all add: mnt.goes_def mount_rank_def\<close>)
  then show ?thesis
    using h unfolding mount_table_event_def t prod.case Let_def m1_def [symmetric] m'_def [symmetric] mount_handled_def
    by blast
qed

lemma mount_reset_failed_handled:
  assumes "mount_ok m"
  shows "mount_handled False m (mount_reset_failed m)"
proof -
  have f: "mount_handled False m (m'\<lparr>cu_failure := False\<rparr>)" if "mount_handled False m m'" for m'
    using that mnt.handled_goes [OF _ mnt.goes_update(3), of mount_rank False m m' False]
    by (simp add: mount_handled_def mount_rank_def)
  have "mount_handled False m (mount_set_state MOUNT_DEAD m)"
    by (rule mount_rest_handled [OF mnt.rest_lands [OF mount_ok_core [OF assms]]]) (simp_all add: mount_down_def)
  then show ?thesis using f mount_same_handled [OF assms] by (simp add: mount_reset_failed_def)
qed

lemma mount_dispatch_handled:
  assumes "mount_ok m" "env_ok e" "mount_enabled ev m"
  shows "\<exists>m'. mount_dispatch e ev m = Some m' \<and> mount_handled (ev = Ev_Timer) m m'"
proof (cases ev)
  case Ev_Start
  then show ?thesis using mount_start_handled [OF assms(1,2)] assms(3) by (auto simp: mount_dispatch_def)
next
  case Ev_Stop
  then show ?thesis using mount_stop_handled [OF assms(1,2)] assms(3) by (auto simp: mount_dispatch_def)
next
  case Ev_Reload
  then show ?thesis using mount_reload_handled [OF assms(1,2)] assms(3) by (auto simp: mount_dispatch_def)
next
  case Ev_Reset_Failed
  then show ?thesis using mount_reset_failed_handled [OF assms(1)] by (simp add: mount_dispatch_def)
next
  case (Ev_Kill who mode signo)
  then show ?thesis using mount_silent_handled [OF assms(1) control_kill_silent]
    by (simp add: mount_dispatch_def mount_kill_def)
next
  case (Ev_Sigchld pid code status)
  then show ?thesis using mount_sigchld_handled [OF assms(1)] assms(3)
    by (simp add: mount_dispatch_def mount_enabled_def)
next
  case Ev_Timer
  then show ?thesis using mount_timer_handled [OF assms(1)] assms(3)
    by (simp add: mount_dispatch_def mount_enabled_def)
next
  case (Ev_Table t)
  then show ?thesis using mount_table_handled [OF assms(1)] by (simp add: mount_dispatch_def)
qed

end
