(* ===== verification/Mount_Properties.thy ===== *)
theory Mount_Properties
  imports Mount_Ok
begin

section \<open>Mount units: the properties\<close>

text \<open>
  Mount units keep the contracts \<open>supervised\<close> and \<open>notifying\<close>, and reading the mount table acts on every
  unit as the step \<open>Ev_Table\<close> of that unit.
\<close>

lemma mount_step_handled: "mount_ok m \<Longrightarrow> mount_step ev m m' \<Longrightarrow> mount_handled (ev = Ev_Timer) m m'"
  using mount_dispatch_handled by (fastforce elim: mount_step.cases)

lemma mount_handledD:
  assumes "mount_handled t m m'"
  shows "mount_ok m'" "mnt.heard m m'"
    "mount_busy (m_state m) \<Longrightarrow> mount_busy (m_state m') \<Longrightarrow> if t then mount_rank m' < mount_rank m else mount_rank m' \<le> mount_rank m"
  using assms unfolding mount_handled_def mount_ok_def mnt.handled_def by blast+

interpretation mount_sup: supervised mount_step Ev_Timer mount_ok "\<lambda>m. mount_busy (m_state m)"
  "\<lambda>m. x_timer m = Timer_Armed" mount_rank
proof (unfold_locales, goal_cases)
  case (1 m ev m')
  then show ?case using mount_handledD(1) [OF mount_step_handled] by blast
next
  case (2 m)
  then show ?case by (simp add: mount_ok_def mnt.ok_def)
next
  case (3 m ev m')
  then show ?case using mount_handledD(3) [OF mount_step_handled [OF 3(1,3)]] by (simp split: if_splits)
next
  case (4 m m')
  then show ?case using mount_handledD(3) [OF mount_step_handled [OF 4(1,3)]] by simp
qed

interpretation mount_not: notifying mount_step mount_ok mount_active_state
proof (unfold_locales, goal_cases)
  case (1 m ev m')
  then show ?case by (rule mount_sup.keeps)
next
  case (2 m ev m')
  show ?case
    using mount_handledD(2) [OF mount_step_handled [OF 2]] unfolding mnt.heard_def mount_active_state_def .
qed

text \<open>A unit that has just been loaded.\<close>

definition mount_fresh :: "mount \<Rightarrow> bool" where
  "mount_fresh m \<longleftrightarrow> m_state m = MOUNT_DEAD \<and> x_timer m = Timer_Off \<and> x_log m = [] \<and> cu_control_pid m = 0 \<and>
     mount_config_ok m"

lemma fresh_mount_ok: "mount_fresh m \<Longrightarrow> mount_ok m"
  by (simp add: mount_fresh_def mount_ok_def mnt.ok_def mnt.core_def)

lemma mount_runs_ok:
  assumes "mount_fresh m0" "mount_not.runs m0 m"
  shows "mount_ok m \<and> noticed (x_log m) UNIT_INACTIVE = Some (mount_active_state m)"
proof (rule mount_not.runs_noticed [OF assms(2) fresh_mount_ok [OF assms(1)]])
  show "noticed (x_log m0) UNIT_INACTIVE = Some (mount_active_state m0)"
    using assms(1) by (simp add: mount_fresh_def mount_active_state_def mount_state_translation_table_def)
qed

subsection \<open>The mount table\<close>

definition table_entries :: "mountinfo_line list \<Rightarrow> mount_entry list" where
  "table_entries ls = filter (\<lambda>x. \<not> ignored_entry x) (List.map_filter mountinfo_entry ls)"

definition entries_of :: "string \<Rightarrow> mount_entry list \<Rightarrow> mount_entry list" where
  "entries_of n xs = filter (\<lambda>x. entry_unit x = n) xs"

definition entry_options :: "mount_entry \<Rightarrow> string" where
  "entry_options x = fst (snd (snd x))"

text \<open>Whether the last entry for a mount point says something that was not known before it.\<close>

definition mount_news :: "mount \<Rightarrow> mount_entry list \<Rightarrow> bool" where
  "mount_news m xs =
     (case rev xs of
        [] \<Rightarrow> False
      | [x] \<Rightarrow> \<not> m_from_proc_self_mountinfo m \<or> mp_options (m_parameters_proc_self_mountinfo m) \<noteq> Some (entry_options x)
      | x # y # _ \<Rightarrow> entry_options y \<noteq> entry_options x)"

definition flags_clear :: "mount \<Rightarrow> bool" where
  "flags_clear m \<longleftrightarrow> \<not> m_is_mounted m \<and> \<not> m_just_mounted m \<and> \<not> m_just_changed m"

lemma set_entry_select [simp]:
  "m_id (mount_set_entry f b x m) = m_id m" "m_load_state (mount_set_entry f b x m) = m_load_state m"
  "cu_failure (mount_set_entry f b x m) = cu_failure m" "m_state (mount_set_entry f b x m) = m_state m"
  "m_is_mounted (mount_set_entry True True x m)" "m_from_proc_self_mountinfo (mount_set_entry True True x m)"
  "m_just_mounted (mount_set_entry True True x m) = (\<not> m_from_proc_self_mountinfo m)"
  "m_just_changed (mount_set_entry True True x m) =
     (mp_options (m_parameters_proc_self_mountinfo m) \<noteq> Some (entry_options x))"
  "mp_options (m_parameters_proc_self_mountinfo (mount_set_entry True True x m)) = Some (entry_options x)"
  by (cases x, simp add: mount_set_entry_def Let_def act_def entry_options_def)+

lemma fold_entry_select [simp]:
  "m_id (fold (mount_set_entry f b) xs m) = m_id m" "m_load_state (fold (mount_set_entry f b) xs m) = m_load_state m"
  "cu_failure (fold (mount_set_entry f b) xs m) = cu_failure m"
  by (induction xs arbitrary: m) simp_all

lemma fold_entry_flags:
  assumes "flags_clear m"
  shows "m_is_mounted (fold (mount_set_entry True True) xs m) = (xs \<noteq> []) \<and>
    m_from_proc_self_mountinfo (fold (mount_set_entry True True) xs m) = (m_from_proc_self_mountinfo m \<or> xs \<noteq> []) \<and>
    (m_just_mounted (fold (mount_set_entry True True) xs m) \<or> m_just_changed (fold (mount_set_entry True True) xs m)) =
      mount_news m xs"
proof (cases xs rule: rev_cases)
  case Nil
  then show ?thesis using assms by (simp add: flags_clear_def mount_news_def)
next
  case (snoc ys x)
  show ?thesis
  proof (cases ys rule: rev_cases)
    case Nil
    then show ?thesis using snoc by (simp add: mount_news_def)
  next
    case (snoc zs y)
    then show ?thesis using \<open>xs = ys @ [x]\<close> by (simp add: mount_news_def)
  qed
qed

definition mount_after_table :: "mount \<Rightarrow> mount_entry list \<Rightarrow> mount_state" where
  "mount_after_table m xs =
     (if xs = [] then
        if m_state m = MOUNT_MOUNTED then if cu_failure m then MOUNT_FAILED else MOUNT_DEAD else m_state m
      else if mount_news m xs then
        if m_state m = MOUNT_DEAD \<or> m_state m = MOUNT_FAILED then MOUNT_MOUNTED
        else if m_state m = MOUNT_MOUNTING then MOUNT_MOUNTING_DONE else m_state m
      else m_state m)"

lemma reset_flags_select [simp]:
  "m_state (reset_flags m) = m_state m" "m_id (reset_flags m) = m_id m" "flags_clear (reset_flags m)"
  "m_from_proc_self_mountinfo (reset_flags m) = m_from_proc_self_mountinfo m" "m_load_state (reset_flags m) = m_load_state m"
  by (simp_all add: reset_flags_def flags_clear_def)

lemma mount_update_exact:
  shows "m_id (mount_update m) = m_id m" "flags_clear (mount_update m)"
    "m_from_proc_self_mountinfo (mount_update m) = (m_from_proc_self_mountinfo m \<and> m_is_mounted m)"
    "m_state (mount_update m) =
       (if \<not> m_is_mounted m then
          if m_state m = MOUNT_MOUNTED then if cu_failure m then MOUNT_FAILED else MOUNT_DEAD else m_state m
        else if m_just_mounted m \<or> m_just_changed m then
          if m_state m = MOUNT_DEAD \<or> m_state m = MOUNT_FAILED then MOUNT_MOUNTED
          else if m_state m = MOUNT_MOUNTING then MOUNT_MOUNTING_DONE else m_state m
        else m_state m)"
  by (simp_all add: mount_update_def Let_def mount_enter_dead_def mount_enter_mounted_def
      mount_enter_mounting_done_def note_failure_def)

lemma mount_table_exact_unit:
  assumes "flags_clear m"
  shows "m_state (mount_table_event (False, xs) m) = mount_after_table m xs"
    "m_from_proc_self_mountinfo (mount_table_event (False, xs) m) = (xs \<noteq> [])"
    "m_id (mount_table_event t m) = m_id m" "flags_clear (mount_table_event t m)"
  using fold_entry_flags [OF assms, of xs] fold_entries_goes(4) [of True xs m]
  by (auto simp: mount_table_event_def Let_def mount_update_exact mount_after_table_def split: prod.split)

text \<open>What a reading of the whole table does to the units that were there before, and to those it needs.\<close>

lemma mount_add_one_units:
  assumes "distinct (map m_id (mm_mounts mm))" "mount_add_one x True True mm = (r, mm1)"
  shows "distinct (map m_id (mm_mounts mm1))" "m_id ` set (mm_mounts mm) \<subseteq> m_id ` set (mm_mounts mm1)"
    "m \<in> set (mm_mounts mm) \<Longrightarrow>
       (if \<not> ignored_entry x \<and> entry_unit x = m_id m then mount_set_entry True True x m else m) \<in> set (mm_mounts mm1)"
    "r = None \<Longrightarrow> \<not> ignored_entry x \<Longrightarrow> entry_unit x \<in> m_id ` set (mm_mounts mm1)"
proof -
  have ids: "map (m_id \<circ> (\<lambda>m. if m_id m = n then mount_set_entry True True x m else m)) ms = map m_id ms" for n ms
    by (induction ms) auto
  have idset: "m_id ` (\<lambda>m. if m_id m = n then mount_set_entry True True x m else m) ` M = m_id ` M" for n M
    unfolding image_image by (rule image_cong) simp_all
  have init: "m_id (mount_init n) = n" for n by (simp add: mount_init_def)
  show "distinct (map m_id (mm_mounts mm1))"
    using assms by (auto simp: mount_add_one_def Let_def ids init split: if_splits option.splits)
  show "m_id ` set (mm_mounts mm) \<subseteq> m_id ` set (mm_mounts mm1)"
    using assms(2) idset [of "entry_unit x" "set (mm_mounts mm)"]
    by (auto simp: mount_add_one_def Let_def init split: if_splits option.splits)
  show "entry_unit x \<in> m_id ` set (mm_mounts mm1)" if "r = None" "\<not> ignored_entry x"
    using assms(2) that idset [of "entry_unit x" "set (mm_mounts mm)"]
    by (auto simp: mount_add_one_def Let_def init split: if_splits option.splits)
  show "(if \<not> ignored_entry x \<and> entry_unit x = m_id m then mount_set_entry True True x m else m) \<in> set (mm_mounts mm1)"
    if "m \<in> set (mm_mounts mm)"
    using assms(2) that by (auto simp: mount_add_one_def Let_def image_iff split: if_splits option.splits)
qed

lemma table_entries_Cons:
  "table_entries (l # ls) = (case mountinfo_entry l of
     None \<Rightarrow> table_entries ls | Some x \<Rightarrow> if ignored_entry x then table_entries ls else x # table_entries ls)"
  by (simp add: table_entries_def List.map_filter_def split: option.split)

lemma mount_load_units:
  assumes "distinct (map m_id (mm_mounts mm))" "mount_load_proc_self_mountinfo True ls mm = (r, mm1)"
  shows "(\<forall>m \<in> set (mm_mounts mm).
      fold (mount_set_entry True True) (entries_of (m_id m) (table_entries ls)) m \<in> set (mm_mounts mm1)) \<and>
    m_id ` set (mm_mounts mm) \<subseteq> m_id ` set (mm_mounts mm1) \<and>
    (r = None \<longrightarrow> entry_unit ` set (table_entries ls) \<subseteq> m_id ` set (mm_mounts mm1))"
  using assms
proof (induction ls arbitrary: mm r)
  case Nil
  then show ?case by (simp add: entries_of_def table_entries_def List.map_filter_def)
next
  case (Cons l ls)
  show ?case
  proof (cases "mountinfo_entry l")
    case None
    then show ?thesis using Cons by (simp add: table_entries_Cons)
  next
    case (Some x)
    obtain k mm2 where a: "mount_add_one x True True mm = (k, mm2)" by (rule prod.exhaust)
    obtain r2 mm3 where b: "mount_load_proc_self_mountinfo True ls mm2 = (r2, mm3)" by (rule prod.exhaust)
    have r: "mm3 = mm1" "r = (if r2 = None then k else r2)" using Cons.prems(2) Some a b by simp_all
    note u = mount_add_one_units [OF Cons.prems(1) a]
    note IH = Cons.IH [OF u(1) b [unfolded r(1)]]
    have "fold (mount_set_entry True True) (entries_of (m_id m) (table_entries (l # ls))) m \<in> set (mm_mounts mm1)"
      if "m \<in> set (mm_mounts mm)" for m
    proof (cases "\<not> ignored_entry x \<and> entry_unit x = m_id m")
      case True
      then have m: "mount_set_entry True True x m \<in> set (mm_mounts mm2)" using u(3) [OF that] by simp
      have "fold (mount_set_entry True True) (entries_of (m_id m) (table_entries ls)) (mount_set_entry True True x m)
          \<in> set (mm_mounts mm1)" using IH [THEN conjunct1, THEN bspec, OF m] by simp
      then show ?thesis using True by (simp add: table_entries_Cons Some entries_of_def)
    next
      case False
      then have "m \<in> set (mm_mounts mm2)" using u(3) [OF that] by (simp only: if_False)
      then have "fold (mount_set_entry True True) (entries_of (m_id m) (table_entries ls)) m \<in> set (mm_mounts mm1)"
        using IH [THEN conjunct1, THEN bspec] by blast
      then show ?thesis using False by (auto simp: table_entries_Cons Some entries_of_def)
    qed
    moreover have "m_id ` set (mm_mounts mm) \<subseteq> m_id ` set (mm_mounts mm1)"
      using u(2) IH [THEN conjunct2, THEN conjunct1] by (rule subset_trans)
    moreover have "entry_unit ` set (table_entries (l # ls)) \<subseteq> m_id ` set (mm_mounts mm1)" if "r = None"
    proof -
      have n: "k = None" "r2 = None" using that r(2) by (simp_all split: if_splits)
      have "entry_unit x \<in> m_id ` set (mm_mounts mm1)" if "\<not> ignored_entry x"
        using u(4) [OF n(1) that] IH [THEN conjunct2, THEN conjunct1] by (rule subsetD [rotated])
      moreover have "entry_unit ` set (table_entries ls) \<subseteq> m_id ` set (mm_mounts mm1)"
        using IH n(2) by (elim conjE mp)
      ultimately show ?thesis by (simp add: table_entries_Cons Some)
    qed
    ultimately show ?thesis by blast
  qed
qed

lemma mount_fd_event_units:
  assumes "distinct (map m_id (mm_mounts mm))" "m \<in> set (mm_mounts mm)" "m_load_state m \<noteq> UNIT_STUB"
  shows "mount_table_event (fst (mount_load_proc_self_mountinfo True ls mm) \<noteq> None,
      entries_of (m_id m) (table_entries ls)) m \<in> set (mm_mounts (mount_fd_event load ls mm))"
proof -
  obtain r mm1 where l: "mount_load_proc_self_mountinfo True ls mm = (r, mm1)" by (rule prod.exhaust)
  define m1 where "m1 = fold (mount_set_entry True True) (entries_of (m_id m) (table_entries ls)) m"
  have m1: "m1 \<in> set (mm_mounts mm1)" using mount_load_units [OF assms(1) l] assms(2) by (simp add: m1_def)
  have d: "dispatch_load load m1 = m1" using assms(3) by (simp add: dispatch_load_def m1_def)
  have "(mount_update \<circ> dispatch_load load) m1 \<in> (mount_update \<circ> dispatch_load load) ` set (mm_mounts mm1)"
    using m1 by (rule imageI)
  then show ?thesis
    using m1 unfolding mount_fd_event_def mount_table_event_def Let_def l m1_def [symmetric] prod.case fst_conv
    by (cases r) (simp_all add: d)
qed

subsection \<open>A sample mount unit\<close>

definition sample_mount :: mount where
  "sample_mount = (mount_init ''home.mount'')
     \<lparr>m_where := ''/home'', m_from_fragment := True, m_load_state := UNIT_LOADED,
      m_parameters_fragment := \<lparr>mp_what = Some ''/dev/sda1'', mp_options = None, mp_fstype = Some ''ext4'', mp_passno = 0\<rparr>\<rparr>"

definition mounting_sample :: mount where
  "mounting_sample = the (mount_dispatch good_env Ev_Start sample_mount)"

definition mount_timed_out :: mount where
  "mount_timed_out = the (mount_dispatch good_env Ev_Timer mounting_sample)"

lemmas mount_eval = mount_dispatch_def mount_start_def mount_enter_mounting_def mount_run_def exec_command_set_def
  control_command_is_def mount_arguments_def mount_spawn_def control_spawn_def mount_unwatch_control_pid_def
  unwatch_control_pid_def unit_watch_timer_def unit_watch_pid_def unit_unwatch_pid_def unit_unwatch_timer_def act_def
  mount_timer_event_def mount_enter_signal_def signal_unit_def signal_control_pid_def kill_and_sigcont_def sys_kill_def
  note_failure_def get_mount_parameters_configured_def mount_is_bind_def has_option_def mount_test_option_def
  mount_set_state_def mount_release_def mount_tell_automount_def mount_notify_automount_def
  mount_state_translation_table_def mount_active_state_def mount_enabled_def job_defs Let_def va_strings_def
  fstype_or_auto_def mount_init_def no_parameters_def good_env_def spawned_def sample_mount_def

lemma mounting_sample_eval:
  "mount_fresh sample_mount" "mount_enabled Ev_Start sample_mount"
  "mount_dispatch good_env Ev_Start sample_mount = Some mounting_sample"
  "m_state mounting_sample = MOUNT_MOUNTING" "x_timer mounting_sample = Timer_Armed"
  "mount_dispatch good_env Ev_Timer mounting_sample = Some mount_timed_out"
  "m_state mount_timed_out = MOUNT_MOUNTING_SIGTERM"
  unfolding mount_fresh_def mount_config_ok_def mounting_sample_def mount_timed_out_def
  by (simp_all add: mount_eval cong: if_weak_cong option.case_cong_weak split del: if_split)

lemma mount_sample_steps:
  "mount_step Ev_Start sample_mount mounting_sample" "mount_step Ev_Timer mounting_sample mount_timed_out"
  using mount_step.intros [OF good_env_ok mounting_sample_eval(2,3)]
    mount_step.intros [OF good_env_ok _ mounting_sample_eval(6)] mounting_sample_eval(5)
  by (simp_all add: mount_enabled_def)

lemma mounting_sample_runs: "mount_not.runs sample_mount mounting_sample"
  using mount_not.runs.intros mount_sample_steps(1) by metis

definition sample_line :: mountinfo_line where
  "sample_line = Fields ''/home'' ''rw'' ''ext4'' ''/dev/sda1'' ''data''"

definition sample_mounts :: mount_manager where
  "sample_mounts = \<lparr>mm_mounts = [sample_mount], mm_names = 1\<rparr>"

lemma sample_entry:
  "mountinfo_entry sample_line = Some (''/dev/sda1'', ''/home'', ''rw,data'', ''ext4'', 0)"
  "ignored_entry (''/dev/sda1'', ''/home'', ''rw,data'', ''ext4'', 0) = False"
  "entry_unit (''/dev/sda1'', ''/home'', ''rw,data'', ''ext4'', 0) = ''home.mount''"
  by code_simp+

lemma sample_table:
  "table_entries [sample_line] = [(''/dev/sda1'', ''/home'', ''rw,data'', ''ext4'', 0)]"
  "fst (mount_load_proc_self_mountinfo True [sample_line] sample_mounts) = None"
  by (simp_all add: table_entries_def List.map_filter_def sample_entry mount_add_one_def sample_mounts_def
      sample_mount_def mount_init_def Let_def)

subsection \<open>The claims\<close>

text \<open>
  C22: Whatever happens to a mount unit after it was loaded, no assertion of \<open>mount.c\<close> fails; the timeout
  is running exactly as long as the unit waits for a command, a control process is recorded only then,
  the remount signal states are never entered, and a listener that followed the notifications knows
  the unit's active state.
\<close>

theorem mount_consistent:
  assumes "mount_fresh m0" "mount_not.runs m0 m" "env_ok e" "mount_enabled ev m"
  shows "\<exists>m'. mount_dispatch e ev m = Some m' \<and>
    (x_timer m' = Timer_Armed \<longleftrightarrow> mount_busy (m_state m')) \<and>
    (cu_control_pid m' > 0 \<longrightarrow> mount_busy (m_state m')) \<and>
    \<not> remount_signal (m_state m') \<and>
    noticed (x_log m') UNIT_INACTIVE = Some (mount_active_state m')"
proof -
  have "mount_ok m" using mount_runs_ok [OF assms(1,2)] by blast
  then obtain m' where m': "mount_dispatch e ev m = Some m'"
    using mount_dispatch_handled assms(3,4) by blast
  then have "mount_step ev m m'" using mount_step.intros assms(3,4) by blast
  then have "mount_not.runs m0 m'" using mount_not.runs.runs_step assms(2) by blast
  note r = mount_runs_ok [OF assms(1) this]
  then have "(x_timer m' = Timer_Armed \<longleftrightarrow> mount_busy (m_state m')) \<and> (cu_control_pid m' > 0 \<longrightarrow> mount_busy (m_state m')) \<and>
      \<not> remount_signal (m_state m')"
    by (simp add: mount_ok_def mnt.ok_def split: if_splits)
  then show ?thesis using m' r by blast
qed

theorem mount_consistent_witness:
  "\<exists>m'. mount_dispatch good_env Ev_Timer mounting_sample = Some m' \<and> m_state m' = MOUNT_MOUNTING_SIGTERM \<and>
     x_timer m' = Timer_Armed \<and> noticed (x_log m') UNIT_INACTIVE = Some UNIT_DEACTIVATING"
  using mount_consistent [OF mounting_sample_eval(1) mounting_sample_runs good_env_ok, of Ev_Timer]
  by (simp add: mount_enabled_def mounting_sample_eval mount_active_state_def mount_state_translation_table_def)

text \<open>
  C23: A mount unit does not wait forever: as long as it is busy the timeout is running, and
  after at most three timeouts, whatever else happens in between, it is mounted, dead or failed.
\<close>

theorem mount_timeouts:
  assumes "mount_fresh m0" "mount_not.runs m0 m"
    and "busy_run mount_step (\<lambda>m. mount_busy (m_state m)) m evs t"
  shows "count_list evs Ev_Timer \<le> 3 \<and>
    (if mount_busy (m_state t) then x_timer t = Timer_Armed
     else m_state t = MOUNT_MOUNTED \<or> m_state t = MOUNT_DEAD \<or> m_state t = MOUNT_FAILED)"
proof -
  have "mount_ok m" using mount_runs_ok [OF assms(1,2)] by blast
  note b = mount_sup.timeouts_bounded [OF assms(3) this]
  have "\<not> mount_busy st \<Longrightarrow> \<not> remount_signal st \<Longrightarrow> st = MOUNT_MOUNTED \<or> st = MOUNT_DEAD \<or> st = MOUNT_FAILED" for st
    by (cases st) (simp_all add: remount_signal_def)
  then show ?thesis using b mount_rank_le [of m] by (simp add: mount_ok_def)
qed

theorem mount_timeouts_witness:
  "count_list [Ev_Timer :: mount_event] Ev_Timer \<le> 3 \<and> x_timer mount_timed_out = Timer_Armed"
proof -
  have "busy_run mount_step (\<lambda>m. mount_busy (m_state m)) mounting_sample [Ev_Timer] mount_timed_out"
    using mount_sample_steps(2) busy_run.stay by (rule busy_run.event [rotated]) (simp add: mounting_sample_eval)
  then show ?thesis
    using mount_timeouts [OF mounting_sample_eval(1) mounting_sample_runs] by (simp add: mounting_sample_eval)
qed

text \<open>
  C24: After a reading of the mount table in which no line failed, what the manager knows about
  a loaded unit agrees with the table: the unit is marked as listed if and only if its mount
  point is in the table; it is no longer mounted if it is not, and a dead unit is mounted, a unit
  waiting for its mount command goes on, if the last entry for it is news.  Every mount point of the
  table has a unit.  The unit's transition is its own table step.
\<close>

theorem mount_table_exact:
  assumes "distinct (map m_id (mm_mounts mm))" "m \<in> set (mm_mounts mm)" "m_load_state m \<noteq> UNIT_STUB"
    and "flags_clear m" "mount_load_proc_self_mountinfo True ls mm = (None, mm1)"
    and "xs = entries_of (m_id m) (table_entries ls)"
  shows "(\<exists>m' \<in> set (mm_mounts (mount_fd_event load ls mm)).
      m' = mount_table_event (False, xs) m \<and> m_id m' = m_id m \<and> flags_clear m' \<and>
      m_from_proc_self_mountinfo m' = (m_id m \<in> entry_unit ` set (table_entries ls)) \<and>
      m_state m' = mount_after_table m xs) \<and>
    entry_unit ` set (table_entries ls) \<subseteq> m_id ` set (mm_mounts mm1)"
proof -
  have ne: "(xs \<noteq> []) = (m_id m \<in> entry_unit ` set (table_entries ls))"
    unfolding assms(6) entries_of_def filter_empty_conv image_iff by metis
  have m': "mount_table_event (False, xs) m \<in> set (mm_mounts (mount_fd_event load ls mm))"
    using mount_fd_event_units [OF assms(1-3), of ls load] assms(5) by (simp add: assms(6))
  then have "\<exists>m' \<in> set (mm_mounts (mount_fd_event load ls mm)).
      m' = mount_table_event (False, xs) m \<and> m_id m' = m_id m \<and> flags_clear m' \<and>
      m_from_proc_self_mountinfo m' = (m_id m \<in> entry_unit ` set (table_entries ls)) \<and>
      m_state m' = mount_after_table m xs"
    by (rule bexI [rotated]) (simp add: mount_table_exact_unit [OF assms(4)] ne)
  moreover have "entry_unit ` set (table_entries ls) \<subseteq> m_id ` set (mm_mounts mm1)"
    using mount_load_units [OF assms(1,5)] by (elim conjE) blast
  ultimately show ?thesis by (rule conjI)
qed

theorem mount_table_exact_witness:
  "\<exists>m' \<in> set (mm_mounts (mount_fd_event id [sample_line] sample_mounts)).
     m_id m' = ''home.mount'' \<and> m_from_proc_self_mountinfo m' \<and> m_state m' = MOUNT_MOUNTED"
proof -
  define xs where "xs = entries_of (m_id sample_mount) (table_entries [sample_line])"
  have s: "m_id sample_mount = ''home.mount''" "m_load_state sample_mount = UNIT_LOADED" "flags_clear sample_mount"
    "m_state sample_mount = MOUNT_DEAD" "\<not> m_from_proc_self_mountinfo sample_mount"
    by (simp_all add: sample_mount_def mount_init_def flags_clear_def)
  have xs: "xs = [(''/dev/sda1'', ''/home'', ''rw,data'', ''ext4'', 0)]"
    unfolding xs_def s(1) sample_table(1) entries_of_def by (simp add: sample_entry(3))
  have st: "mount_after_table sample_mount xs = MOUNT_MOUNTED"
    by (simp add: mount_after_table_def mount_news_def xs s)
  obtain mm1 where "mount_load_proc_self_mountinfo True [sample_line] sample_mounts = (None, mm1)"
    using sample_table(2) by (metis prod.collapse)
  note t = mount_table_exact [THEN conjunct1, OF _ _ _ s(3) this xs_def, of id]
  have "\<exists>m' \<in> set (mm_mounts (mount_fd_event id [sample_line] sample_mounts)).
      m' = mount_table_event (False, xs) sample_mount \<and> m_id m' = m_id sample_mount \<and> flags_clear m' \<and>
      m_from_proc_self_mountinfo m' = (m_id sample_mount \<in> entry_unit ` set (table_entries [sample_line])) \<and>
      m_state m' = mount_after_table sample_mount xs"
    by (rule t) (simp_all add: sample_mounts_def s)
  then show ?thesis unfolding st s(1) sample_table(1) by (auto simp: sample_entry(3))
qed

text \<open>
  C25: A reading of the mount table in which one line fails, of whatever mount point, loses
  the mounts that appeared in it: a dead unit whose mount point is listed from then on is still dead
  after any number of later readings that do not change its options.  And a mount point that is
  listed twice with the same options is not taken for mounted in the first place.
\<close>

theorem mount_lost:
  assumes "flags_clear m" "m_state m = MOUNT_DEAD"
  shows "m_state (fold (\<lambda>_. mount_table_event (False, [x])) (replicate k ()) (mount_table_event (True, [x]) m)) = MOUNT_DEAD \<and>
    m_state (mount_table_event (False, [x, x]) m) = MOUNT_DEAD"
proof -
  have "m_state (fold (\<lambda>_. mount_table_event (False, [x])) (replicate k ()) m1) = MOUNT_DEAD"
    if "flags_clear m1" "m_state m1 = MOUNT_DEAD" "m_from_proc_self_mountinfo m1"
      "mp_options (m_parameters_proc_self_mountinfo m1) = Some (entry_options x)" for m1
    using that
  proof (induction k arbitrary: m1)
    case (Suc k)
    have "mount_table_event (False, [x]) m1 = reset_flags (mount_set_entry True True x m1)"
      using Suc.prems by (simp add: mount_table_event_def mount_update_def)
    then show ?case using Suc by (simp add: Suc.IH reset_flags_def flags_clear_def)
  qed simp
  moreover have "mount_table_event (True, [x]) m = reset_flags (mount_set_entry True True x m)"
    by (simp add: mount_table_event_def)
  ultimately have "m_state (fold (\<lambda>_. mount_table_event (False, [x])) (replicate k ()) (mount_table_event (True, [x]) m)) = MOUNT_DEAD"
    using assms by (simp add: reset_flags_def flags_clear_def)
  moreover have "m_state (mount_table_event (False, [x, x]) m) = MOUNT_DEAD"
    using mount_table_exact_unit(1) [OF assms(1)] assms(2) by (simp add: mount_after_table_def mount_news_def)
  ultimately show ?thesis by (rule conjI)
qed

theorem mount_lost_witness:
  "m_state (mount_table_event (False, [(''/dev/sda1'', ''/home'', ''rw'', ''ext4'', 0), (''/dev/sda1'', ''/home'', ''rw'', ''ext4'', 0)])
     sample_mount) = MOUNT_DEAD"
  using mount_lost [of sample_mount] by (simp add: sample_mount_def mount_init_def flags_clear_def)

end
