(* ===== verification/Swap.thy ===== *)
theory Swap
  imports Supervised Unit_Graph
begin

section \<open>Swap units (swap.c)\<close>

text \<open>
  \<open>struct Swap\<close>, its state machine, and the bookkeeping of \<open>/proc/swaps\<close> with the chains of units
  that stand for the same swap device.  The manager's flag \<open>request_reload\<close>, which a swap unit sets when its
  control process exits, is kept with the unit.
\<close>

datatype swap_state =
    SWAP_DEAD | SWAP_ACTIVATING | SWAP_ACTIVE | SWAP_DEACTIVATING | SWAP_ACTIVATING_SIGTERM
  | SWAP_ACTIVATING_SIGKILL | SWAP_DEACTIVATING_SIGTERM | SWAP_DEACTIVATING_SIGKILL | SWAP_FAILED

datatype swap_exec_command = SWAP_EXEC_ACTIVATE | SWAP_EXEC_DEACTIVATE

record swap_parameters =
  sp_what :: "string option"
  sp_priority :: int
  sp_noauto :: bool
  sp_nofail :: bool
  sp_handle :: bool

record swap = control_unit +
  sw_id :: string
  sw_what :: string
  sw_parameters_etc_fstab :: swap_parameters
  sw_parameters_proc_swaps :: swap_parameters
  sw_parameters_fragment :: swap_parameters
  sw_from_etc_fstab :: bool
  sw_from_proc_swaps :: bool
  sw_from_fragment :: bool
  sw_is_active :: bool
  sw_just_activated :: bool
  sw_argv :: "swap_exec_command \<Rightarrow> string list"
  sw_exec_status :: "swap_exec_command \<Rightarrow> exec_status"
  sw_state :: swap_state
  sw_deserialized_state :: swap_state
  sw_control_command :: "swap_exec_command option"
  sw_control_command_id :: "swap_exec_command option"
  sw_pam_name :: bool
  sw_load_state :: unit_load_state
  sw_request_reload :: bool

definition swap_state_translation_table :: "swap_state \<Rightarrow> unit_active_state" where
  "swap_state_translation_table st =
     (case st of
        SWAP_DEAD \<Rightarrow> UNIT_INACTIVE
      | SWAP_ACTIVATING \<Rightarrow> UNIT_ACTIVATING
      | SWAP_ACTIVE \<Rightarrow> UNIT_ACTIVE
      | SWAP_DEACTIVATING \<Rightarrow> UNIT_DEACTIVATING
      | SWAP_ACTIVATING_SIGTERM \<Rightarrow> UNIT_DEACTIVATING
      | SWAP_ACTIVATING_SIGKILL \<Rightarrow> UNIT_DEACTIVATING
      | SWAP_DEACTIVATING_SIGTERM \<Rightarrow> UNIT_DEACTIVATING
      | SWAP_DEACTIVATING_SIGKILL \<Rightarrow> UNIT_DEACTIVATING
      | SWAP_FAILED \<Rightarrow> UNIT_FAILED)"

definition swap_active_state :: "swap \<Rightarrow> unit_active_state" where
  "swap_active_state s = swap_state_translation_table (sw_state s)"

definition no_swap_parameters :: swap_parameters where
  "no_swap_parameters =
     \<lparr>sp_what = None, sp_priority = -1, sp_noauto = False, sp_nofail = False, sp_handle = False\<rparr>"

definition swap_init :: "string \<Rightarrow> swap" where
  "swap_init name =
     \<lparr>x_timer = Timer_Off, x_log = [], cu_control_pid = 0, cu_timeout_usec = 90000000,
      cu_kill_mode = KILL_CONTROL_GROUP, cu_kill_signal = SIGTERM, cu_send_sigkill = True,
      cu_failure = False, sw_id = name, sw_what = [], sw_parameters_etc_fstab = no_swap_parameters,
      sw_parameters_proc_swaps = no_swap_parameters, sw_parameters_fragment = no_swap_parameters,
      sw_from_etc_fstab = False, sw_from_proc_swaps = False, sw_from_fragment = False,
      sw_is_active = False, sw_just_activated = False, sw_argv = (\<lambda>_. []),
      sw_exec_status = (\<lambda>_. exec_status_zero), sw_state = SWAP_DEAD, sw_deserialized_state = SWAP_DEAD,
      sw_control_command = None, sw_control_command_id = None, sw_pam_name = False,
      sw_load_state = UNIT_STUB, sw_request_reload = False\<rparr>"

definition swap_verify :: "swap \<Rightarrow> unit result" where
  "swap_verify s =
     (if sw_load_state s \<noteq> UNIT_LOADED then Inr ()
      else if sw_id s \<noteq> unit_name_from_path (sw_what s) ''.swap'' then Inl EINVAL
      else if sw_pam_name s \<and> cu_kill_mode s \<noteq> KILL_CONTROL_GROUP then Inl EINVAL
      else Inr ())"

subsection \<open>Changing the state\<close>

definition swap_busy :: "swap_state \<Rightarrow> bool" where
  "swap_busy st \<longleftrightarrow>
     st \<in> {SWAP_ACTIVATING, SWAP_ACTIVATING_SIGTERM, SWAP_ACTIVATING_SIGKILL, SWAP_DEACTIVATING,
           SWAP_DEACTIVATING_SIGTERM, SWAP_DEACTIVATING_SIGKILL}"

definition swap_unwatch_control_pid :: "swap \<Rightarrow> swap" where
  "swap_unwatch_control_pid s = unwatch_control_pid s"

definition swap_release :: "swap_state \<Rightarrow> swap \<Rightarrow> swap" where
  "swap_release st s =
     (if swap_busy st then s
      else (swap_unwatch_control_pid (unit_unwatch_timer s))
             \<lparr>sw_control_command := None, sw_control_command_id := None\<rparr>)"

definition swap_set_state :: "swap_state \<Rightarrow> swap \<Rightarrow> swap" where
  "swap_set_state st s =
     (let old_state = sw_state s;
          s1 = swap_release st (s\<lparr>sw_state := st\<rparr>)
      in act (Unit_Notify (swap_state_translation_table old_state) (swap_state_translation_table st) True) s1)"

definition swap_spawn :: "exec_env \<Rightarrow> exec_command \<Rightarrow> swap \<Rightarrow> int result \<times> swap" where
  "swap_spawn e c s = control_spawn e c s"

definition swap_enter_dead :: "bool \<Rightarrow> swap \<Rightarrow> swap" where
  "swap_enter_dead success s =
     (let s1 = note_failure success s in
      swap_set_state (if cu_failure s1 then SWAP_FAILED else SWAP_DEAD) s1)"

definition swap_enter_active :: "bool \<Rightarrow> swap \<Rightarrow> swap" where
  "swap_enter_active success s = swap_set_state SWAP_ACTIVE (note_failure success s)"

definition swap_enter_signal :: "exec_env \<Rightarrow> swap_state \<Rightarrow> bool \<Rightarrow> swap \<Rightarrow> swap" where
  "swap_enter_signal e st success s =
     (let sig = (if st = SWAP_ACTIVATING_SIGTERM \<or> st = SWAP_DEACTIVATING_SIGTERM
                 then cu_kill_signal s else SIGKILL) in
      case signal_unit e sig (note_failure success s) of
        (Some r, wait_for_exit, s1) \<Rightarrow> swap_enter_dead False s1
      | (None, wait_for_exit, s1) \<Rightarrow>
          if wait_for_exit then
            case unit_watch_timer e (cu_timeout_usec s1) s1 of
              (Some r, s2) \<Rightarrow> swap_enter_dead False s2
            | (None, s2) \<Rightarrow> swap_set_state st s2
          else swap_enter_dead True s1)"

text \<open>
  As for mounts: the arguments are set, which may fail for lack of memory, and the command is started.
\<close>

definition swap_command_set ::
    "exec_env \<Rightarrow> swap_exec_command \<Rightarrow> string list \<Rightarrow> swap \<Rightarrow> errno option \<times> swap" where
  "swap_command_set e i args s =
     (let r = e_prepare e (x_log s);
          s1 = act (Prepare_Exec r) s in
      (r, if r = None then s1\<lparr>sw_argv := (sw_argv s1)(i := args)\<rparr> else s1))"

definition swap_run ::
    "exec_env \<Rightarrow> swap_exec_command \<Rightarrow> string list \<Rightarrow> swap_state \<Rightarrow> (swap \<Rightarrow> swap) \<Rightarrow> swap \<Rightarrow> swap" where
  "swap_run e i args st fail s =
     (case swap_command_set e i args (s\<lparr>sw_control_command_id := Some i, sw_control_command := Some i\<rparr>) of
        (Some r, s1) \<Rightarrow> fail s1
      | (None, s1) \<Rightarrow>
          case swap_spawn e \<lparr>c_argv = sw_argv s1 i, c_ignore = False\<rparr> (swap_unwatch_control_pid s1) of
            (Inl r, s2) \<Rightarrow> fail s2
          | (Inr pid, s2) \<Rightarrow> swap_set_state st (s2\<lparr>cu_control_pid := pid\<rparr>))"

definition swap_priority :: "swap \<Rightarrow> int" where
  "swap_priority s =
     (if sw_from_fragment s then sp_priority (sw_parameters_fragment s)
      else if sw_from_etc_fstab s then sp_priority (sw_parameters_etc_fstab s)
      else -1)"

definition swap_enter_activating :: "exec_env \<Rightarrow> swap \<Rightarrow> swap" where
  "swap_enter_activating e s =
     swap_run e SWAP_EXEC_ACTIVATE
       (if swap_priority s \<ge> 0
        then [''/sbin/swapon'', ''-p'', dec_string (nat (swap_priority s)), sw_what s]
        else [''/sbin/swapon'', sw_what s])
       SWAP_ACTIVATING (swap_enter_dead False) s"

definition swap_enter_deactivating :: "exec_env \<Rightarrow> bool \<Rightarrow> swap \<Rightarrow> swap" where
  "swap_enter_deactivating e success s =
     swap_run e SWAP_EXEC_DEACTIVATE [''/sbin/swapoff'', sw_what s] SWAP_DEACTIVATING
       (swap_enter_active False) (note_failure success s)"

subsection \<open>Requests\<close>

definition swap_start :: "exec_env \<Rightarrow> swap \<Rightarrow> (errno option \<times> swap) option" where
  "swap_start e s =
     (if sw_state s \<in> {SWAP_DEACTIVATING, SWAP_DEACTIVATING_SIGTERM, SWAP_DEACTIVATING_SIGKILL,
                       SWAP_ACTIVATING_SIGTERM, SWAP_ACTIVATING_SIGKILL}
      then Some (Some EAGAIN, s)
      else if sw_state s = SWAP_ACTIVATING then Some (None, s)
      else if sw_state s \<noteq> SWAP_DEAD \<and> sw_state s \<noteq> SWAP_FAILED then None
      else Some (None, swap_enter_activating e (s\<lparr>cu_failure := False\<rparr>)))"

definition swap_stop :: "exec_env \<Rightarrow> swap \<Rightarrow> (errno option \<times> swap) option" where
  "swap_stop e s =
     (if sw_state s \<in> {SWAP_DEACTIVATING, SWAP_DEACTIVATING_SIGTERM, SWAP_DEACTIVATING_SIGKILL,
                       SWAP_ACTIVATING_SIGTERM, SWAP_ACTIVATING_SIGKILL}
      then Some (None, s)
      else if sw_state s \<noteq> SWAP_ACTIVATING \<and> sw_state s \<noteq> SWAP_ACTIVE then None
      else Some (None, swap_enter_deactivating e True s))"

definition swap_reset_failed :: "swap \<Rightarrow> swap" where
  "swap_reset_failed s =
     (if sw_state s = SWAP_FAILED then swap_set_state SWAP_DEAD s else s)\<lparr>cu_failure := False\<rparr>"

definition swap_kill :: "exec_env \<Rightarrow> kill_who \<Rightarrow> kill_mode \<Rightarrow> int \<Rightarrow> swap \<Rightarrow> int \<times> swap" where
  "swap_kill e who mode signo s = control_kill e who mode signo s"

definition swap_check_gc :: "swap \<Rightarrow> bool" where
  "swap_check_gc s \<longleftrightarrow> sw_from_etc_fstab s \<or> sw_from_proc_swaps s"

subsection \<open>Events\<close>

definition swap_sigchld_event :: "exec_env \<Rightarrow> int \<Rightarrow> int \<Rightarrow> int \<Rightarrow> swap \<Rightarrow> swap option" where
  "swap_sigchld_event e pid code status s =
     (if pid \<noteq> cu_control_pid s then Some s
      else
        let success = is_clean_exit code status;
            s1 = s\<lparr>cu_control_pid := 0, cu_failure := cu_failure s \<or> \<not> success\<rparr>;
            s2 = (case sw_control_command s1 of
                    None \<Rightarrow> s1
                  | Some i \<Rightarrow>
                      s1\<lparr>sw_exec_status := (sw_exec_status s1)
                           (i := exec_status_exit (e_now e (x_log s1)) pid code status (sw_exec_status s1 i)),
                         sw_control_command := None, sw_control_command_id := None\<rparr>) in
        map_option (\<lambda>s. (act Dbus_Queue s)\<lparr>sw_request_reload := True\<rparr>)
          (if sw_state s2 \<in> {SWAP_ACTIVATING, SWAP_ACTIVATING_SIGTERM, SWAP_ACTIVATING_SIGKILL}
           then Some (if success then swap_enter_active True s2 else swap_enter_dead False s2)
           else if sw_state s2 \<in> {SWAP_DEACTIVATING, SWAP_DEACTIVATING_SIGKILL, SWAP_DEACTIVATING_SIGTERM}
           then Some (if success then swap_enter_dead True s2 else swap_enter_dead False s2)
           else None))"

definition swap_timer_event :: "exec_env \<Rightarrow> swap \<Rightarrow> swap option" where
  "swap_timer_event e s =
     (case sw_state s of
        SWAP_ACTIVATING \<Rightarrow> Some (swap_enter_signal e SWAP_ACTIVATING_SIGTERM False s)
      | SWAP_DEACTIVATING \<Rightarrow> Some (swap_enter_signal e SWAP_DEACTIVATING_SIGTERM False s)
      | SWAP_ACTIVATING_SIGTERM \<Rightarrow>
          Some (if cu_send_sigkill s then swap_enter_signal e SWAP_ACTIVATING_SIGKILL False s
                else swap_enter_dead False s)
      | SWAP_DEACTIVATING_SIGTERM \<Rightarrow>
          Some (if cu_send_sigkill s then swap_enter_signal e SWAP_DEACTIVATING_SIGKILL False s
                else swap_enter_dead False s)
      | SWAP_ACTIVATING_SIGKILL \<Rightarrow> Some (swap_enter_dead False s)
      | SWAP_DEACTIVATING_SIGKILL \<Rightarrow> Some (swap_enter_dead False s)
      | SWAP_DEAD \<Rightarrow> None
      | SWAP_ACTIVE \<Rightarrow> None
      | SWAP_FAILED \<Rightarrow> None)"

subsection \<open>The list of swaps\<close>

text \<open>
  The swap units, the latest first, the number of unit names, and for every kernel device the
  chain of the units for it: \<open>swaps_by_proc_swaps\<close> holds the head of the list that runs through
  \<open>same_proc_swaps\<close>.
\<close>

record swap_manager =
  swm_swaps :: "swap list"
  swm_names :: nat
  swm_chains :: "string \<Rightarrow> string list"

definition swap_new_name_error :: "swap_manager \<Rightarrow> string \<Rightarrow> errno option" where
  "swap_new_name_error sm n =
     (if \<not> unit_name_is_valid n False \<or> unit_name_to_instance n \<noteq> Some None then Some EINVAL
      else if swm_names sm \<ge> MANAGER_MAX_NAMES then Some E2BIG
      else None)"

text \<open>The unit, and the chain it has to enter if any.\<close>

definition swap_set_entry ::
    "string \<Rightarrow> string option \<Rightarrow> int \<Rightarrow> bool \<Rightarrow> bool \<Rightarrow> bool \<Rightarrow> bool \<Rightarrow> swap \<Rightarrow> swap" where
  "swap_set_entry what what_proc_swaps priority noauto nofail handle set_flags s =
     act Dbus_Queue
       (case what_proc_swaps of
          Some wp \<Rightarrow>
            (if set_flags then s\<lparr>sw_is_active := True, sw_just_activated := \<not> sw_from_proc_swaps s\<rparr> else s)
              \<lparr>sw_from_proc_swaps := True,
               sw_parameters_proc_swaps :=
                 \<lparr>sp_what = (case sp_what (sw_parameters_proc_swaps s) of None \<Rightarrow> Some wp | Some w \<Rightarrow> Some w),
                  sp_priority = priority, sp_noauto = noauto, sp_nofail = nofail, sp_handle = handle\<rparr>\<rparr>
        | None \<Rightarrow>
            s\<lparr>sw_from_etc_fstab := True,
              sw_parameters_etc_fstab :=
                \<lparr>sp_what = Some what, sp_priority = priority, sp_noauto = noauto, sp_nofail = nofail,
                 sp_handle = handle\<rparr>\<rparr>)"

definition swap_add_one ::
    "string \<Rightarrow> string option \<Rightarrow> int \<Rightarrow> bool \<Rightarrow> bool \<Rightarrow> bool \<Rightarrow> bool \<Rightarrow> swap_manager \<Rightarrow>
     errno option \<times> swap_manager" where
  "swap_add_one what what_proc_swaps priority noauto nofail handle set_flags sm =
     (let n = unit_name_from_path what ''.swap'';
          set = swap_set_entry what what_proc_swaps priority noauto nofail handle set_flags;
          chain = (\<lambda>s cs. case what_proc_swaps of
                     Some wp \<Rightarrow> if sp_what (sw_parameters_proc_swaps s) = None then cs(wp := n # cs wp) else cs
                   | None \<Rightarrow> cs) in
      case List.find (\<lambda>s. sw_id s = n) (swm_swaps sm) of
        Some s \<Rightarrow>
          if (case what_proc_swaps of
                Some wp \<Rightarrow> sw_from_proc_swaps s \<and>
                  (case sp_what (sw_parameters_proc_swaps s) of Some w \<Rightarrow> \<not> path_equal w wp | None \<Rightarrow> True)
              | None \<Rightarrow> False)
          then (Some EEXIST, sm)
          else (None, sm\<lparr>swm_swaps := map (\<lambda>s. if sw_id s = n then set s else s) (swm_swaps sm),
                         swm_chains := chain s (swm_chains sm)\<rparr>)
      | None \<Rightarrow>
          case swap_new_name_error sm n of
            Some r \<Rightarrow> (Some r, sm)
          | None \<Rightarrow>
              let s = (swap_init n)\<lparr>sw_what := what\<rparr> in
              (None, sm\<lparr>swm_swaps := set s # swm_swaps sm, swm_names := Suc (swm_names sm),
                        swm_chains := chain s (swm_chains sm)\<rparr>))"

text \<open>
  A line of \<open>/proc/swaps\<close> is a device and a priority.  What \<open>stat\<close> and udev say about the device is
  the argument \<open>udev\<close>: \<open>None\<close> if it is no block device, else its device node and its links (without
  those that are stale, and those under \<open>/dev/block\<close>).
\<close>

type_synonym udev_names = "string \<Rightarrow> (string option \<times> string list) option"

definition swap_process_names :: "udev_names \<Rightarrow> string \<Rightarrow> string list" where
  "swap_process_names udev device =
     (case udev device of
        None \<Rightarrow> []
      | Some (dn, links) \<Rightarrow> (case dn of None \<Rightarrow> [] | Some n \<Rightarrow> [n]) @ links) @ [device]"

fun swap_process_new_swap ::
    "string list \<Rightarrow> string \<Rightarrow> int \<Rightarrow> bool \<Rightarrow> swap_manager \<Rightarrow> errno option \<times> swap_manager" where
  "swap_process_new_swap [] device prio set_flags sm = (None, sm)"
| "swap_process_new_swap (n # ns) device prio set_flags sm =
     (case swap_add_one n (Some device) prio False False False set_flags sm of
        (k, sm1) \<Rightarrow>
          case swap_process_new_swap ns device prio set_flags sm1 of
            (r, sm2) \<Rightarrow> (if r = None then k else r, sm2))"

fun swap_load_proc_swaps ::
    "udev_names \<Rightarrow> bool \<Rightarrow> (string \<times> int) list \<Rightarrow> swap_manager \<Rightarrow> errno option \<times> swap_manager" where
  "swap_load_proc_swaps udev set_flags [] sm = (None, sm)"
| "swap_load_proc_swaps udev set_flags ((device, prio) # ls) sm =
     (case swap_process_new_swap (swap_process_names udev device) device prio set_flags sm of
        (k, sm1) \<Rightarrow>
          case swap_load_proc_swaps udev set_flags ls sm1 of
            (r, sm2) \<Rightarrow> (if r = None then k else r, sm2))"

definition swap_unset_proc_swaps :: "swap \<Rightarrow> (string \<Rightarrow> string list) \<Rightarrow> swap \<times> (string \<Rightarrow> string list)" where
  "swap_unset_proc_swaps s cs =
     (case sp_what (sw_parameters_proc_swaps s) of
        None \<Rightarrow> (s, cs)
      | Some w \<Rightarrow>
          (s\<lparr>sw_parameters_proc_swaps := (sw_parameters_proc_swaps s)\<lparr>sp_what := None\<rparr>\<rparr>,
           cs(w := remove1 (sw_id s) (cs w))))"

definition reset_swap_flags :: "swap \<Rightarrow> swap" where
  "reset_swap_flags s = s\<lparr>sw_is_active := False, sw_just_activated := False\<rparr>"

definition swap_update :: "swap \<Rightarrow> (string \<Rightarrow> string list) \<Rightarrow> swap \<times> (string \<Rightarrow> string list)" where
  "swap_update s cs =
     map_prod reset_swap_flags id
       (if \<not> sw_is_active s then
          let (s1, cs1) = swap_unset_proc_swaps (s\<lparr>sw_from_proc_swaps := False\<rparr>) cs in
          (if sw_state s1 = SWAP_ACTIVE then swap_enter_dead True s1 else swap_set_state (sw_state s1) s1, cs1)
        else if sw_just_activated s then
          (if sw_state s = SWAP_DEAD \<or> sw_state s = SWAP_FAILED then swap_enter_active True s
           else swap_set_state (sw_state s) s, cs)
        else (s, cs))"

fun swap_update_all :: "swap list \<Rightarrow> (string \<Rightarrow> string list) \<Rightarrow> swap list \<times> (string \<Rightarrow> string list)" where
  "swap_update_all [] cs = ([], cs)"
| "swap_update_all (s # ss) cs =
     (let (s', cs1) = swap_update s cs; (ss', cs2) = swap_update_all ss cs1 in (s' # ss', cs2))"

definition swap_fd_event ::
    "(swap \<Rightarrow> swap) \<Rightarrow> udev_names \<Rightarrow> (string \<times> int) list \<Rightarrow> swap_manager \<Rightarrow> swap_manager" where
  "swap_fd_event load udev ls sm =
     (case swap_load_proc_swaps udev True ls sm of
        (Some r, sm1) \<Rightarrow> sm1\<lparr>swm_swaps := map reset_swap_flags (swm_swaps sm1)\<rparr>
      | (None, sm1) \<Rightarrow>
          let ss = map (\<lambda>s. if sw_load_state s = UNIT_STUB then load s else s) (swm_swaps sm1);
              (ss', cs) = swap_update_all ss (swm_chains sm1) in
          sm1\<lparr>swm_swaps := ss', swm_chains := cs\<rparr>)"

text \<open>
  The unit that speaks for the units of one device.  \<open>named\<close> is the test that a unit is called
  like the kernel's device; the search runs to the end of the chain and then back to its head.
\<close>

definition swap_unit :: "swap_manager \<Rightarrow> string \<Rightarrow> swap option" where
  "swap_unit sm n = List.find (\<lambda>s. sw_id s = n) (swm_swaps sm)"

definition named_like_device :: "swap_manager \<Rightarrow> string \<Rightarrow> bool" where
  "named_like_device sm n =
     (case swap_unit sm n of
        None \<Rightarrow> False
      | Some s \<Rightarrow> sp_what (sw_parameters_proc_swaps s) = Some (sw_what s))"

definition swap_chain :: "swap_manager \<Rightarrow> string \<Rightarrow> string list" where
  "swap_chain sm n =
     (case swap_unit sm n of
        None \<Rightarrow> []
      | Some s \<Rightarrow> (case sp_what (sw_parameters_proc_swaps s) of None \<Rightarrow> [n] | Some w \<Rightarrow> swm_chains sm w))"

definition swap_following :: "swap_manager \<Rightarrow> string \<Rightarrow> string option" where
  "swap_following sm n =
     (if named_like_device sm n then None
      else
        let chain = swap_chain sm n;
            before = takeWhile (\<lambda>x. x \<noteq> n) chain;
            after = drop (Suc (length before)) chain in
        case List.find (named_like_device sm) (after @ rev before) of
          Some x \<Rightarrow> Some x
        | None \<Rightarrow> if before = [] then None else Some (hd before))"

subsection \<open>Steps\<close>

text \<open>
  A reading of the list of swaps, with the device and the priority for every time that the unit was met in it,
  and whether some line of it, for this unit or another, has failed.  Swap units cannot be reloaded.
\<close>

type_synonym swap_event = "(bool \<times> (string \<times> int) list) control_event"

definition swap_meet :: "string \<times> int \<Rightarrow> swap \<Rightarrow> swap" where
  "swap_meet x s = swap_set_entry (sw_what s) (Some (fst x)) (snd x) False False False True s"

definition swap_table_event :: "bool \<times> (string \<times> int) list \<Rightarrow> swap \<Rightarrow> swap" where
  "swap_table_event t s =
     (case t of (failed, xs) \<Rightarrow>
        let s1 = fold swap_meet xs s in
        if failed then reset_swap_flags s1 else fst (swap_update s1 (\<lambda>_. [])))"

definition swap_enabled :: "swap_event \<Rightarrow> swap \<Rightarrow> bool" where
  "swap_enabled ev s =
     (case ev of
        Ev_Start \<Rightarrow> sw_load_state s = UNIT_LOADED \<and> \<not> UNIT_IS_ACTIVE_OR_RELOADING (swap_active_state s)
      | Ev_Stop \<Rightarrow> \<not> UNIT_IS_INACTIVE_OR_FAILED (swap_active_state s)
      | Ev_Reload \<Rightarrow> False
      | Ev_Sigchld pid code status \<Rightarrow> pid > 0
      | Ev_Timer \<Rightarrow> x_timer s = Timer_Armed
      | _ \<Rightarrow> True)"

definition swap_dispatch :: "exec_env \<Rightarrow> swap_event \<Rightarrow> swap \<Rightarrow> swap option" where
  "swap_dispatch e ev s =
     (case ev of
        Ev_Start \<Rightarrow> map_option snd (swap_start e s)
      | Ev_Stop \<Rightarrow> map_option snd (swap_stop e s)
      | Ev_Reload \<Rightarrow> None
      | Ev_Reset_Failed \<Rightarrow> Some (swap_reset_failed s)
      | Ev_Kill who mode signo \<Rightarrow> Some (snd (swap_kill e who mode signo s))
      | Ev_Sigchld pid code status \<Rightarrow> swap_sigchld_event e pid code status s
      | Ev_Timer \<Rightarrow> swap_timer_event e (s\<lparr>x_timer := Timer_Elapsed\<rparr>)
      | Ev_Table t \<Rightarrow> Some (swap_table_event t s))"

inductive swap_step :: "swap_event \<Rightarrow> swap \<Rightarrow> swap \<Rightarrow> bool" where
  "env_ok e \<Longrightarrow> swap_enabled ev s \<Longrightarrow> swap_dispatch e ev s = Some s' \<Longrightarrow> swap_step ev s s'"

end
