(* ===== verification/Swap_Ok.thy ===== *)
theory Swap_Ok
  imports Swap Control_Machine
begin

section \<open>The invariant of a swap unit\<close>

text \<open>The same contract as for mount units, by the same locale.\<close>

definition swap_rank :: "swap \<Rightarrow> nat" where
  "swap_rank s =
     (case sw_state s of
        SWAP_ACTIVATING_SIGTERM \<Rightarrow> 1 | SWAP_DEACTIVATING_SIGTERM \<Rightarrow> 1
      | SWAP_ACTIVATING_SIGKILL \<Rightarrow> 0 | SWAP_DEACTIVATING_SIGKILL \<Rightarrow> 0
      | _ \<Rightarrow> 2)"

lemma swap_frame:
  fixes s s' :: swap
  shows "control_unit.more s' = control_unit.more s \<Longrightarrow> sw_state s' = sw_state s \<and> True = True \<and> True = True \<and> () = ()"
  by (cases s, cases s') simp

lemma swap_release_silent:
  "silent (if swap_busy st then s
           else s\<lparr>x_timer := Timer_Off, cu_control_pid := min 0 (cu_control_pid s),
                  sw_control_command := None, sw_control_command_id := None\<rparr>) (swap_release st s)"
proof (cases "swap_busy st")
  case False
  obtain l where l: "quiet l" "unit_unwatch_timer s = s\<lparr>x_timer := Timer_Off, x_log := x_log s @ l\<rparr>"
    using unwatch_timer_silent [of s] by (auto simp: silent_def)
  obtain l' where l': "quiet l'" "unwatch_control_pid (unit_unwatch_timer s) =
      (unit_unwatch_timer s)\<lparr>cu_control_pid := min 0 (cu_control_pid (unit_unwatch_timer s)),
         x_log := x_log (unit_unwatch_timer s) @ l'\<rparr>"
    using unwatch_control_pid_silent [of "unit_unwatch_timer s"] by (auto simp: silent_def)
  have "quiet (l @ l')" using l(1) l'(1) by (rule quiet_append)
  then show ?thesis
    using False unfolding swap_release_def swap_unwatch_control_pid_def silent_def l'(2)
    unfolding l(2) by (intro exI [of _ "l @ l'"]) simp
qed (simp add: swap_release_def)

lemma swap_set_state_form:
  "\<exists>l. quiet l \<and> swap_set_state st s =
     (if swap_busy st then s
      else s\<lparr>x_timer := Timer_Off, cu_control_pid := min 0 (cu_control_pid s),
             sw_control_command := None, sw_control_command_id := None\<rparr>)
       \<lparr>sw_state := st,
        x_log := x_log s @ l @ [Unit_Notify (swap_state_translation_table (sw_state s))
          (swap_state_translation_table st) True]\<rparr>"
proof -
  define b where "b = swap_busy st"
  obtain l where "quiet l" "swap_release st (s\<lparr>sw_state := st\<rparr>) =
      (if b then s\<lparr>sw_state := st\<rparr>
       else (s\<lparr>sw_state := st\<rparr>)\<lparr>x_timer := Timer_Off, cu_control_pid := min 0 (cu_control_pid s),
              sw_control_command := None, sw_control_command_id := None\<rparr>)\<lparr>x_log := x_log s @ l\<rparr>"
    using swap_release_silent [of st "s\<lparr>sw_state := st\<rparr>"]
    unfolding silent_def b_def by (cases "swap_busy st") auto
  then show ?thesis
    unfolding swap_set_state_def Let_def b_def [symmetric]
    by (intro exI [of _ l], cases b) (simp_all add: act_def)
qed

lemma swap_set_state_select [simp]:
  "sw_state (swap_set_state st s) = st"
  "x_timer (swap_set_state st s) = (if swap_busy st then x_timer s else Timer_Off)"
  "cu_control_pid (swap_set_state st s) = (if swap_busy st then cu_control_pid s else min 0 (cu_control_pid s))"
  "cu_failure (swap_set_state st s) = cu_failure s"
  "sw_from_proc_swaps (swap_set_state st s) = sw_from_proc_swaps s"
  "sw_id (swap_set_state st s) = sw_id s" "sw_what (swap_set_state st s) = sw_what s"
  "sw_parameters_proc_swaps (swap_set_state st s) = sw_parameters_proc_swaps s"
  by (rule exE [OF swap_set_state_form [of st s]], cases "swap_busy st", simp, simp)+

lemma swap_set_state_log:
  "\<exists>l. x_log (swap_set_state st s) = x_log s @ l \<and>
     noticed l (swap_state_translation_table (sw_state s)) = Some (swap_state_translation_table st)"
  by (rule exE [OF swap_set_state_form [of st s]], cases "swap_busy st") (simp_all add: quiet_def)

interpretation swp: control_machine sw_state swap_busy swap_state_translation_table "\<lambda>_. True" "\<lambda>_. True" "\<lambda>_. ()" swap_set_state
proof unfold_locales
  show "sw_state s' = sw_state s \<and> True = True \<and> True = True \<and> () = ()" if "control_unit.more s' = control_unit.more s" for s s' :: swap
    using that by (rule swap_frame)
  show "\<exists>l. x_log (swap_set_state st s) = x_log s @ l \<and>
      noticed l (swap_state_translation_table (sw_state s)) = Some (swap_state_translation_table st)" for st s
    by (rule swap_set_state_log)
qed simp_all

lemma swap_busy_states [simp]:
  "swap_busy SWAP_ACTIVATING" "swap_busy SWAP_ACTIVATING_SIGTERM" "swap_busy SWAP_ACTIVATING_SIGKILL"
  "swap_busy SWAP_DEACTIVATING" "swap_busy SWAP_DEACTIVATING_SIGTERM" "swap_busy SWAP_DEACTIVATING_SIGKILL"
  "\<not> swap_busy SWAP_DEAD" "\<not> swap_busy SWAP_FAILED" "\<not> swap_busy SWAP_ACTIVE"
  by (simp_all add: swap_busy_def)

lemma swap_enter_active_lands: "swp.core s \<Longrightarrow> swp.lands SWAP_ACTIVE s (swap_enter_active success s)"
  using swp.goes_lands [OF swp.goes_failure(1) swp.rest_lands] by (simp add: swap_enter_active_def swp.goes_failure)

lemma swap_enter_dead_lands:
  assumes "swp.core s"
  shows "\<exists>st. \<not> swap_busy st \<and> swp.lands st s (swap_enter_dead success s)"
proof -
  define st where "st = (if cu_failure (note_failure success s) then SWAP_FAILED else SWAP_DEAD)"
  have "swp.lands st s (swap_set_state st (note_failure success s))"
    using swp.goes_lands [OF swp.goes_failure(1) swp.rest_lands, of success s st] assms
    by (simp add: swp.goes_failure st_def)
  moreover have "\<not> swap_busy st" by (simp add: st_def)
  ultimately show ?thesis unfolding swap_enter_dead_def Let_def st_def by blast
qed

lemma swap_enter_signal_lands:
  assumes "swp.core s" "swap_busy st"
  shows "\<exists>st'. (st' = st \<or> \<not> swap_busy st') \<and> swp.lands st' s (swap_enter_signal e st success s)"
proof -
  have "\<exists>st'. (st' = st \<or> \<not> swap_busy st') \<and> swp.lands st' (note_failure success s)
      (swp.signalling e sig st swap_enter_dead (note_failure success s))" for sig
    using assms swap_enter_dead_lands
    by (intro swp.signalling_lands [where P = "\<lambda>st. \<not> swap_busy st", simplified]) (simp_all add: swp.goes_failure)
  then have "\<exists>st'. (st' = st \<or> \<not> swap_busy st') \<and> swp.lands st' (note_failure success s) (swap_enter_signal e st success s)"
    unfolding swap_enter_signal_def swp.signalling_def Let_def by blast
  then show ?thesis using swp.goes_lands [OF swp.goes_failure(1)] by blast
qed

lemma swap_run_lands:
  assumes "swp.core s" "env_ok e" "swap_busy st"
    and fail: "\<And>s'. swp.core s' \<Longrightarrow> \<exists>st'. \<not> swap_busy st' \<and> swp.lands st' s' (fail s')"
  shows "\<exists>st'. (st' = st \<or> \<not> swap_busy st') \<and> swp.lands st' s (swap_run e i args st fail s)"
proof -
  define s0 where "s0 = s\<lparr>sw_control_command_id := Some i, sw_control_command := Some i\<rparr>"
  obtain x s1 where c: "swap_command_set e i args s0 = (x, s1)" by (rule prod.exhaust)
  then have "sw_state s1 = sw_state s" "cu_control_pid s1 = cu_control_pid s" "x_log s1 = x_log s @ [Prepare_Exec x]"
    by (auto simp: s0_def swap_command_set_def Let_def act_def split: if_splits)
  then have g: "swp.goes s s1" "swp.core s1" using assms(1) by (auto simp: swp.goes_def swp.heard_def swp.core_def)
  have run: "swap_run e i args st fail s =
      (if x = None then swp.spawning e \<lparr>c_argv = sw_argv s1 i, c_ignore = False\<rparr> st fail s1 else fail s1)"
    using c by (cases x) (simp_all add: swap_run_def s0_def swp.spawning_def swap_spawn_def swap_unwatch_control_pid_def)
  have "\<exists>st'. (st' = st \<or> \<not> swap_busy st') \<and> swp.lands st' s1 (swap_run e i args st fail s)"
    using fail [OF g(2)] swp.spawning_lands [OF g(2) assms(2,3) fail] run by (cases x) auto
  then show ?thesis using swp.goes_lands [OF g(1)] by blast
qed

subsection \<open>Requests\<close>

lemma swap_rank_le: "swap_rank s \<le> 2"
  by (simp add: swap_rank_def split: swap_state.split)

lemma swap_start_handled:
  assumes "swp.ok s" "env_ok e" "swap_enabled Ev_Start s"
  shows "\<exists>r s'. swap_start e s = Some (r, s') \<and> swp.handled swap_rank False s s'"
proof -
  have st: "sw_state s \<noteq> SWAP_ACTIVE"
    using assms(3) by (auto simp: swap_enabled_def swap_active_state_def swap_state_translation_table_def job_defs)
  define s' where "s' = swap_enter_activating e (s\<lparr>cu_failure := False\<rparr>)"
  have "\<exists>st'. (st' = SWAP_ACTIVATING \<or> \<not> swap_busy st') \<and> swp.lands st' (s\<lparr>cu_failure := False\<rparr>) s'"
    unfolding s'_def swap_enter_activating_def using swp.ok_parts(1) [OF assms(1)] assms(2) swap_enter_dead_lands
    by (intro swap_run_lands) simp_all
  then obtain st' where "swp.lands st' s s'" using swp.goes_lands [OF swp.goes_update(3)] by blast
  then have "swp.handled swap_rank False s s'" if "\<not> swap_busy (sw_state s)" using swp.wake_handled that by blast
  then show ?thesis
    using st swp.same_handled [OF assms(1)] unfolding swap_start_def s'_def by (cases "sw_state s") simp_all
qed

lemma swap_stop_handled:
  assumes "swp.ok s" "env_ok e" "swap_enabled Ev_Stop s"
  shows "\<exists>r s'. swap_stop e s = Some (r, s') \<and> swp.handled swap_rank False s s'"
proof -
  have st: "sw_state s \<noteq> SWAP_DEAD" "sw_state s \<noteq> SWAP_FAILED"
    using assms(3) by (auto simp: swap_enabled_def swap_active_state_def swap_state_translation_table_def job_defs)
  define s' where "s' = swap_enter_deactivating e True s"
  have active: "\<exists>st'. \<not> swap_busy st' \<and> swp.lands st' s1 (swap_enter_active False s1)" if "swp.core s1" for s1
    using swap_enter_active_lands [OF that, of False] swap_busy_states(9) by blast
  have "\<exists>st'. (st' = SWAP_DEACTIVATING \<or> \<not> swap_busy st') \<and> swp.lands st' (note_failure True s) s'"
    unfolding s'_def swap_enter_deactivating_def using swp.ok_parts(1) [OF assms(1)] assms(2) active
    by (intro swap_run_lands) (simp_all add: swp.goes_failure)
  then obtain st' where "swp.lands st' s s'" using swp.goes_lands [OF swp.goes_failure(1)] by blast
  then have "swp.handled swap_rank False s s'" if "swap_rank s = 2"
    using swp.lands_handled [of st' s s' False swap_rank] swap_rank_le [of s'] that by simp
  then show ?thesis
    using st swp.same_handled [OF assms(1)] unfolding swap_stop_def s'_def
    by (cases "sw_state s") (simp_all add: swap_rank_def)
qed

subsection \<open>Events\<close>

lemma swap_sigchld_handled:
  assumes "swp.ok s" "pid > 0"
  shows "\<exists>s'. swap_sigchld_event e pid code status s = Some s' \<and> swp.handled swap_rank False s s'"
proof (cases "pid = cu_control_pid s")
  case False
  then show ?thesis using swp.same_handled [OF assms(1)] by (simp add: swap_sigchld_event_def)
next
  case True
  define success where "success = is_clean_exit code status"
  define s1 where "s1 = s\<lparr>cu_control_pid := 0, cu_failure := cu_failure s \<or> \<not> success\<rparr>"
  define s2 where "s2 = (case sw_control_command s1 of None \<Rightarrow> s1
    | Some i \<Rightarrow> s1\<lparr>sw_exec_status := (sw_exec_status s1)
        (i := exec_status_exit (e_now e (x_log s1)) pid code status (sw_exec_status s1 i)),
        sw_control_command := None, sw_control_command_id := None\<rparr>)"
  have busy: "swap_busy (sw_state s)" using swp.ok_parts(3) [OF assms(1)] assms(2) True by simp
  have c: "swp.core s2" "swp.goes s s2" "sw_state s2 = sw_state s"
    by (auto simp: s2_def s1_def swp.core_def swp.goes_def intro!: swp.heard_same split: option.splits)
  have "\<exists>s'. swap_sigchld_event e pid code status s = Some ((act Dbus_Queue s')\<lparr>sw_request_reload := True\<rparr>) \<and>
    (s' = swap_enter_active True s2 \<or> s' = swap_enter_dead True s2 \<or> s' = swap_enter_dead False s2)"
    using busy True c(3) unfolding swap_sigchld_event_def Let_def success_def [symmetric] s1_def [symmetric]
      s2_def [symmetric] by (cases "sw_state s") auto
  then obtain s' where s': "swap_sigchld_event e pid code status s = Some ((act Dbus_Queue s')\<lparr>sw_request_reload := True\<rparr>)"
    "s' = swap_enter_active True s2 \<or> s' = swap_enter_dead True s2 \<or> s' = swap_enter_dead False s2" by blast
  then obtain st where l: "\<not> swap_busy st" "swp.lands st s s'"
    using swap_enter_active_lands [OF c(1), of True] swap_enter_dead_lands [OF c(1)] swp.goes_lands [OF c(2)]
      swap_busy_states(9) by blast
  have "swp.handled swap_rank False s s'" using swp.rest_handled [OF l(2,1)] .
  then have "swp.handled swap_rank False s ((act Dbus_Queue s')\<lparr>sw_request_reload := True\<rparr>)"
    by (rule swp.handled_goes) (auto simp: swp.goes_def swp.heard_def swap_rank_def act_def)
  then show ?thesis using s'(1) by blast
qed

lemma swap_timer_handled:
  assumes "swp.ok s" "x_timer s = Timer_Armed"
  shows "\<exists>s'. swap_timer_event e (s\<lparr>x_timer := Timer_Elapsed\<rparr>) = Some s' \<and> swp.handled swap_rank True s s'"
proof -
  define s1 where "s1 = s\<lparr>x_timer := Timer_Elapsed\<rparr>"
  have busy: "swap_busy (sw_state s)" using swp.ok_parts(4) assms by blast
  have g: "swp.goes s s1" unfolding s1_def by (rule swp.goes_update)
  have c: "swp.core s1" "sw_state s1 = sw_state s"
    using swp.ok_parts(1) [OF assms(1)] by (simp_all add: s1_def swp.core_def)
  have signal: "swp.handled swap_rank True s (swap_enter_signal e st False s1)"
    if "st \<in> {SWAP_ACTIVATING_SIGTERM, SWAP_DEACTIVATING_SIGTERM} \<and> swap_rank s = 2 \<or>
      st \<in> {SWAP_ACTIVATING_SIGKILL, SWAP_DEACTIVATING_SIGKILL} \<and> swap_rank s = 1" for st
  proof -
    define s' where "s' = swap_enter_signal e st False s1"
    have "swap_busy st" using that by auto
    then obtain st' where l: "st' = st \<or> \<not> swap_busy st'" "swp.lands st' s s'"
      using swap_enter_signal_lands [OF c(1), of st e False] swp.goes_lands [OF g] unfolding s'_def by blast
    have "swp.handled swap_rank True s s'" if "st' = st"
    proof -
      have "sw_state s' = st" using l(2) that by (simp add: swp.lands_def)
      then show ?thesis
        using swp.lands_handled [OF l(2), of True swap_rank] \<open>st \<in> _ \<and> _ \<or> _\<close> by (auto simp: swap_rank_def)
    qed
    then show ?thesis using l swp.rest_handled [OF l(2)] unfolding s'_def by blast
  qed
  have rest: "swp.handled swap_rank True s (swap_enter_dead False s1)"
    using swap_enter_dead_lands [OF c(1), of False] swp.goes_lands [OF g] swp.rest_handled by blast
  show ?thesis
    using busy c(2) signal rest unfolding swap_timer_event_def s1_def [symmetric]
    by (cases "sw_state s") (simp_all add: swap_rank_def)
qed

lemma reset_swap_flags_goes:
  "swp.goes s (reset_swap_flags s)" "x_timer (reset_swap_flags s) = x_timer s"
  "cu_control_pid (reset_swap_flags s) = cu_control_pid s" "swap_rank (reset_swap_flags s) = swap_rank s"
  by (simp_all add: reset_swap_flags_def swp.goes_def swp.heard_same swap_rank_def)

lemma fold_meet_goes:
  "swp.goes s (fold swap_meet xs s) \<and> x_timer (fold swap_meet xs s) = x_timer s \<and>
   cu_control_pid (fold swap_meet xs s) = cu_control_pid s"
proof (induction xs arbitrary: s)
  case (Cons x xs)
  have "swp.goes s (swap_meet x s)" "x_timer (swap_meet x s) = x_timer s" "cu_control_pid (swap_meet x s) = cu_control_pid s"
    by (auto simp: swap_meet_def swap_set_entry_def swp.goes_def swp.heard_def act_def)
  then show ?case using Cons.IH [of "swap_meet x s"] swp.goes_trans by auto
qed (simp add: swp.goes_def swp.heard_same)

lemma swap_goes_ok:
  "swp.ok s \<Longrightarrow> swp.goes s s' \<Longrightarrow> x_timer s' = x_timer s \<Longrightarrow> cu_control_pid s' = cu_control_pid s \<Longrightarrow> swp.ok s'"
  by (simp add: swp.ok_def swp.core_def swp.goes_def)

lemma swap_update_handled:
  assumes "swp.ok s"
  shows "swp.handled swap_rank False s (fst (swap_update s cs))"
proof -
  define s1 where "s1 = fst (swap_unset_proc_swaps (s\<lparr>sw_from_proc_swaps := False\<rparr>) cs)"
  have g: "swp.goes s s1" "x_timer s1 = x_timer s" "cu_control_pid s1 = cu_control_pid s"
    by (auto simp: s1_def swap_unset_proc_swaps_def swp.goes_def swp.heard_same split: option.split)
  have ok1: "swp.ok s1" using swap_goes_ok [OF assms g] .
  have again: "swp.handled swap_rank False s (swap_set_state (sw_state s') s')" if "swp.goes s s'" "swp.ok s'" for s'
    using swp.lands_handled [OF swp.goes_lands [OF that(1) swp.again_lands [OF that(2)]], of False swap_rank] that(1)
    by (simp add: swap_rank_def swp.goes_def)
  have dead: "swp.handled swap_rank False s (swap_enter_dead True s1)"
    using swap_enter_dead_lands [OF swp.ok_parts(1) [OF ok1], of True] swp.goes_lands [OF g(1)] swp.rest_handled by blast
  have act: "swp.handled swap_rank False s (swap_enter_active True s)"
    using swp.rest_handled [OF swap_enter_active_lands [OF swp.ok_parts(1) [OF assms]]] by simp
  have refl: "swp.goes s s" by (simp add: swp.goes_def swp.heard_same)
  have reset: "swp.handled swap_rank False s (reset_swap_flags s')" if "swp.handled swap_rank False s s'" for s'
    using swp.handled_goes [OF that reset_swap_flags_goes(1-3) TrueI reset_swap_flags_goes(4)] .
  have "fst (swap_update s cs) = reset_swap_flags
      (if \<not> sw_is_active s then if sw_state s1 = SWAP_ACTIVE then swap_enter_dead True s1 else swap_set_state (sw_state s1) s1
       else if sw_just_activated s then if sw_state s = SWAP_DEAD \<or> sw_state s = SWAP_FAILED then swap_enter_active True s
         else swap_set_state (sw_state s) s
       else s)"
    unfolding swap_update_def s1_def by (simp add: map_prod_def case_prod_beta Let_def)
  then show ?thesis
    using dead act swp.same_handled [OF assms] again [OF refl assms] again [OF g(1) ok1]
    by (simp only: reset split: if_split) blast
qed

lemma swap_dispatch_handled:
  assumes "swp.ok s" "env_ok e" "swap_enabled ev s"
  shows "\<exists>s'. swap_dispatch e ev s = Some s' \<and> swp.handled swap_rank (ev = Ev_Timer) s s'"
proof (cases ev)
  case Ev_Start
  then show ?thesis using swap_start_handled [OF assms(1,2)] assms(3) by (auto simp: swap_dispatch_def)
next
  case Ev_Stop
  then show ?thesis using swap_stop_handled [OF assms(1,2)] assms(3) by (auto simp: swap_dispatch_def)
next
  case Ev_Reload
  then show ?thesis using assms(3) by (simp add: swap_enabled_def)
next
  case Ev_Reset_Failed
  have "swp.handled swap_rank False s (swap_set_state SWAP_DEAD s)"
    by (rule swp.rest_handled [OF swp.rest_lands [OF swp.ok_parts(1) [OF assms(1)]]]) simp_all
  then have "swp.handled swap_rank False s (swap_reset_failed s)"
    unfolding swap_reset_failed_def using swp.same_handled [OF assms(1)]
    by (intro swp.handled_goes [OF _ swp.goes_update(3)]) (simp_all add: swap_rank_def)
  then show ?thesis using Ev_Reset_Failed by (simp add: swap_dispatch_def)
next
  case (Ev_Kill who mode signo)
  note g = swp.goes_silent [OF control_kill_silent [of s e who mode signo]]
  have "swap_rank (snd (control_kill e who mode signo s)) = swap_rank s"
    using g(1) by (simp add: swp.goes_def swap_rank_def)
  then show ?thesis using swp.goes_handled [OF assms(1) g TrueI, of swap_rank] Ev_Kill
    by (simp add: swap_dispatch_def swap_kill_def)
next
  case (Ev_Sigchld pid code status)
  then show ?thesis using swap_sigchld_handled [OF assms(1)] assms(3)
    by (simp add: swap_dispatch_def swap_enabled_def)
next
  case Ev_Timer
  then show ?thesis using swap_timer_handled [OF assms(1)] assms(3)
    by (simp add: swap_dispatch_def swap_enabled_def)
next
  case (Ev_Table t)
  obtain failed xs where t: "t = (failed, xs)" by (cases t)
  define s1 where "s1 = fold swap_meet xs s"
  have g: "swp.goes s s1" "x_timer s1 = x_timer s" "cu_control_pid s1 = cu_control_pid s"
    unfolding s1_def using fold_meet_goes by blast+
  have ok1: "swp.ok s1" by (rule swap_goes_ok [OF assms(1) g])
  have "swp.handled swap_rank False s1 (if failed then reset_swap_flags s1 else fst (swap_update s1 (\<lambda>_. [])))"
    using swap_update_handled [OF ok1] swp.goes_handled [OF ok1 reset_swap_flags_goes(1-3) TrueI]
      reset_swap_flags_goes(4) by simp
  then have "swp.handled swap_rank False s (swap_table_event t s)"
    unfolding swap_table_event_def t s1_def [symmetric] prod.case Let_def
    by (rule swp.handled_from) (use g(1) in \<open>simp_all add: swp.goes_def swap_rank_def\<close>)
  then show ?thesis using Ev_Table by (simp add: swap_dispatch_def)
qed

end
