(* ===== verification/Swap_Properties.thy ===== *)
theory Swap_Properties
  imports Swap_Ok
begin

section \<open>Swap units: the properties\<close>






subsection \<open>The chains\<close>

definition swap_key :: "swap \<Rightarrow> string \<times> string option" where
  "swap_key s = (sw_id s, sp_what (sw_parameters_proc_swaps s))"

definition in_chains :: "(string \<times> string option) list \<Rightarrow> (string \<Rightarrow> string list) \<Rightarrow> bool" where
  "in_chains ps cs \<longleftrightarrow> distinct (map fst ps) \<and>
     (\<forall>w. distinct (cs w) \<and> (\<forall>n. n \<in> set (cs w) \<longleftrightarrow> (n, Some w) \<in> set ps))"

definition chains_ok :: "swap_manager \<Rightarrow> bool" where
  "chains_ok sm \<longleftrightarrow> in_chains (map swap_key (swm_swaps sm)) (swm_chains sm)"

lemma in_chains_drop:
  assumes "in_chains (ps @ (n, Some w) # qs) cs"
  shows "in_chains (ps @ (n, None) # qs) (cs(w := remove1 n (cs w)))"
proof -
  have n: "(n, x) \<notin> set ps" "(n, x) \<notin> set qs" for x using assms by (auto simp: in_chains_def image_iff)
  have "v \<in> set (if w' = w then remove1 n (cs w) else cs w') \<longleftrightarrow> (v, Some w') \<in> set (ps @ (n, None) # qs)" for v w'
    using assms n by (cases "w' = w"; cases "v = n") (auto simp: in_chains_def)
  then show ?thesis using assms by (simp add: in_chains_def)
qed

lemma in_chains_enter:
  assumes "in_chains (ps @ (n, None) # qs) cs"
  shows "in_chains (ps @ (n, Some w) # qs) (cs(w := n # cs w))"
proof -
  have n: "(n, x) \<notin> set ps" "(n, x) \<notin> set qs" for x using assms by (auto simp: in_chains_def image_iff)
  then have "n \<notin> set (cs w)" using assms by (simp add: in_chains_def)
  moreover have "v \<in> set (if w' = w then n # cs w else cs w') \<longleftrightarrow> (v, Some w') \<in> set (ps @ (n, Some w) # qs)" for v w'
    using assms n by (cases "w' = w"; cases "v = n") (auto simp: in_chains_def)
  ultimately show ?thesis using assms by (simp add: in_chains_def)
qed

lemma swap_enter_keys [simp]:
  "swap_key (swap_enter_dead b s) = swap_key s" "swap_key (swap_enter_active b s) = swap_key s"
  "swap_key (swap_set_state st s) = swap_key s" "swap_key (reset_swap_flags s) = swap_key s"
  by (simp_all add: swap_enter_dead_def swap_enter_active_def swap_key_def Let_def note_failure_def reset_swap_flags_def)

lemma swap_update_key:
  assumes "in_chains (ps @ swap_key s # qs) cs" "swap_update s cs = (s', cs')"
  shows "in_chains (ps @ swap_key s' # qs) cs'"
proof (cases "sw_is_active s")
  case True
  then have "cs' = cs" "swap_key s' = swap_key s" using assms(2) by (auto simp: swap_update_def split: if_splits)
  then show ?thesis using assms(1) by simp
next
  case False
  obtain s1 cs1 where u: "swap_unset_proc_swaps (s\<lparr>sw_from_proc_swaps := False\<rparr>) cs = (s1, cs1)" by (rule prod.exhaust)
  then have "cs' = cs1" "swap_key s' = swap_key s1" using assms(2) False by (auto simp: swap_update_def)
  moreover have "in_chains (ps @ swap_key s1 # qs) cs1"
    using u assms(1) in_chains_drop [of ps "sw_id s" _ qs cs]
    by (auto simp: swap_unset_proc_swaps_def swap_key_def split: option.splits)
  ultimately show ?thesis by simp
qed

lemma swap_update_all_chains:
  assumes "in_chains (ps @ map swap_key ss) cs" "swap_update_all ss cs = (ss', cs')"
  shows "in_chains (ps @ map swap_key ss') cs'"
  using assms
proof (induction ss arbitrary: ps cs ss' cs')
  case (Cons s ss)
  obtain s1 cs1 where a: "swap_update s cs = (s1, cs1)" by (rule prod.exhaust)
  obtain ss2 cs2 where b: "swap_update_all ss cs1 = (ss2, cs2)" by (rule prod.exhaust)
  have r: "ss' = s1 # ss2" "cs' = cs2" using Cons.prems(2) a b by simp_all
  have "in_chains ((ps @ [swap_key s1]) @ map swap_key ss) cs1"
    using swap_update_key [of ps s "map swap_key ss" cs s1 cs1] Cons.prems(1) a by simp
  from Cons.IH [OF this b] show ?case by (simp add: r)
qed simp

definition swap_enters :: "string option \<Rightarrow> swap \<Rightarrow> (string \<Rightarrow> string list) \<Rightarrow> string \<Rightarrow> string list" where
  "swap_enters wp s cs =
     (case wp of
        Some w \<Rightarrow> if sp_what (sw_parameters_proc_swaps s) = None then cs(w := sw_id s # cs w) else cs
      | None \<Rightarrow> cs)"

lemma swap_set_entry_chains:
  assumes "in_chains (ps @ swap_key s # qs) cs"
  shows "in_chains (ps @ swap_key (swap_set_entry what wp prio noauto nofail handle set_flags s) # qs) (swap_enters wp s cs)"
  using assms in_chains_enter [of ps "sw_id s" qs cs]
  by (auto simp: swap_enters_def swap_set_entry_def swap_key_def act_def split: option.splits)

lemma swap_add_one_chains:
  assumes "chains_ok sm"
  shows "chains_ok (snd (swap_add_one what wp prio noauto nofail handle set_flags sm))"
proof -
  define n where "n = unit_name_from_path what ''.swap''"
  define set' where "set' = swap_set_entry what wp prio noauto nofail handle set_flags"
  show ?thesis
  proof (cases "List.find (\<lambda>s. sw_id s = n) (swm_swaps sm)")
    case None
    define s where "s = (swap_init n)\<lparr>sw_what := what\<rparr>"
    have id: "sw_id s = n" by (simp add: s_def swap_init_def)
    have "n \<notin> fst ` set (map swap_key (swm_swaps sm))" using None by (auto simp: find_None_iff swap_key_def)
    then have "in_chains ([] @ swap_key s # map swap_key (swm_swaps sm)) (swm_chains sm)"
      using assms id by (auto simp: chains_ok_def in_chains_def swap_key_def s_def swap_init_def no_swap_parameters_def image_iff)
    from swap_set_entry_chains [OF this, of what wp prio noauto nofail handle set_flags]
    have "in_chains (swap_key (set' s) # map swap_key (swm_swaps sm)) (swap_enters wp s (swm_chains sm))"
      by (simp add: set'_def)
    then show ?thesis
      using assms None id unfolding swap_add_one_def Let_def n_def [symmetric] set'_def [symmetric] s_def [symmetric]
      by (auto simp: chains_ok_def swap_enters_def split: option.splits if_splits)
  next
    case (Some s)
    then obtain ps qs where l: "swm_swaps sm = ps @ s # qs" "sw_id s = n"
      by (metis (mono_tags, lifting) find_Some_iff id_take_nth_drop)
    have d: "distinct (map sw_id (swm_swaps sm))"
      using assms by (simp add: chains_ok_def in_chains_def swap_key_def comp_def)
    have m: "map (\<lambda>s. if sw_id s = n then set' s else s) (swm_swaps sm) = ps @ set' s # qs"
    proof -
      have "sw_id t \<noteq> n" if "t \<in> set ps \<union> set qs" for t using d l that by (auto simp: image_iff)
      then have "map (\<lambda>s. if sw_id s = n then set' s else s) ps = ps" "map (\<lambda>s. if sw_id s = n then set' s else s) qs = qs"
        by (simp_all add: map_idI)
      then show ?thesis using l by simp
    qed
    have "in_chains (map swap_key (ps @ set' s # qs)) (swap_enters wp s (swm_chains sm))"
      using assms swap_set_entry_chains [of "map swap_key ps" s "map swap_key qs"] by (simp add: chains_ok_def l(1) set'_def)
    then have "chains_ok (sm\<lparr>swm_swaps := map (\<lambda>s. if sw_id s = n then set' s else s) (swm_swaps sm),
        swm_chains := swap_enters wp s (swm_chains sm)\<rparr>)"
      by (simp add: chains_ok_def m)
    then show ?thesis
      using assms Some l(2) unfolding swap_add_one_def Let_def n_def [symmetric] set'_def [symmetric]
      by (cases wp; cases "sp_what (sw_parameters_proc_swaps s)") (simp_all add: swap_enters_def)
  qed
qed

lemma swap_process_chains:
  "chains_ok sm \<Longrightarrow> chains_ok (snd (swap_process_new_swap ns device prio set_flags sm))"
proof (induction ns arbitrary: sm)
  case (Cons n ns)
  show ?case using Cons.IH [OF swap_add_one_chains [OF Cons.prems]] by (simp add: split_def)
qed simp

lemma swap_load_chains: "chains_ok sm \<Longrightarrow> chains_ok (snd (swap_load_proc_swaps udev set_flags ls sm))"
proof (induction ls arbitrary: sm)
  case (Cons l ls)
  obtain device prio where l: "l = (device, prio)" by (rule prod.exhaust)
  show ?case
    using Cons.IH [OF swap_process_chains [OF Cons.prems, of "swap_process_names udev device" device prio set_flags]]
    by (simp add: split_def l)
qed simp

subsection \<open>The leader of a chain\<close>

lemma swap_unit_of:
  assumes "chains_ok sm" "n \<in> set (swm_chains sm w)"
  obtains s where "swap_unit sm n = Some s" "s \<in> set (swm_swaps sm)" "sw_id s = n"
    "sp_what (sw_parameters_proc_swaps s) = Some w"
proof -
  obtain s where s: "s \<in> set (swm_swaps sm)" "swap_key s = (n, Some w)"
    using assms by (auto simp: chains_ok_def in_chains_def)
  have d: "distinct (map sw_id (swm_swaps sm))"
    using assms by (simp add: chains_ok_def in_chains_def swap_key_def comp_def)
  obtain s' where s': "swap_unit sm n = Some s'"
    using s by (cases "swap_unit sm n") (auto simp: swap_unit_def find_None_iff swap_key_def)
  then have "s' \<in> set (swm_swaps sm)" "sw_id s' = n" by (auto simp: swap_unit_def find_Some_iff)
  then have "s' = s" using s d by (auto simp: swap_key_def distinct_map inj_on_def)
  then show thesis using that s' s by (simp add: swap_key_def)
qed

lemma named_unique:
  assumes "chains_ok sm" "\<forall>s \<in> set (swm_swaps sm). sw_id s = unit_name_from_path (sw_what s) ''.swap''"
    and "n \<in> set (swm_chains sm w)" "x \<in> set (swm_chains sm w)" "named_like_device sm n" "named_like_device sm x"
  shows "n = x"
proof -
  obtain s where s: "swap_unit sm n = Some s" "s \<in> set (swm_swaps sm)" "sw_id s = n" "sp_what (sw_parameters_proc_swaps s) = Some w"
    by (rule swap_unit_of [OF assms(1,3)])
  obtain t where t: "swap_unit sm x = Some t" "t \<in> set (swm_swaps sm)" "sw_id t = x" "sp_what (sw_parameters_proc_swaps t) = Some w"
    by (rule swap_unit_of [OF assms(1,4)])
  have "sw_what s = w" "sw_what t = w" using assms(5,6) s(1,4) t(1,4) by (simp_all add: named_like_device_def)
  then have "sw_id s = sw_id t" using bspec [OF assms(2) s(2)] bspec [OF assms(2) t(2)] by simp
  then show ?thesis using s(3) t(3) by simp
qed

text \<open>The search of \<open>swap_following\<close> from one member of a chain.\<close>

definition swap_leader :: "(string \<Rightarrow> bool) \<Rightarrow> string list \<Rightarrow> string" where
  "swap_leader named chain = (case List.find named chain of Some x \<Rightarrow> x | None \<Rightarrow> hd chain)"

lemma follow_search:
  assumes "distinct chain" "n \<in> set chain" "\<And>x y. x \<in> set chain \<Longrightarrow> y \<in> set chain \<Longrightarrow> named x \<Longrightarrow> named y \<Longrightarrow> x = y"
    and "before = takeWhile (\<lambda>x. x \<noteq> n) chain" "after = drop (Suc (length before)) chain"
  shows "(if named n then None
      else case List.find named (after @ rev before) of Some x \<Rightarrow> Some x
        | None \<Rightarrow> if before = [] then None else Some (hd before)) =
    (if n = swap_leader named chain then None else Some (swap_leader named chain))"
proof -
  have dw: "dropWhile (\<lambda>x. x \<noteq> n) chain = n # after"
  proof -
    have "dropWhile (\<lambda>x. x \<noteq> n) chain \<noteq> []" using assms(2) by (simp add: dropWhile_eq_Nil_conv)
    then obtain y ys where y: "dropWhile (\<lambda>x. x \<noteq> n) chain = y # ys" by (cases "dropWhile (\<lambda>x. x \<noteq> n) chain") auto
    moreover have "y = n" using hd_dropWhile [of "\<lambda>x. x \<noteq> n" chain] y by simp
    moreover have "after = ys" unfolding assms(5) using y by (metis assms(4) drop_Suc dropWhile_eq_drop list.sel(3) tl_drop)
    ultimately show ?thesis by simp
  qed
  have chain: "chain = before @ n # after" using takeWhile_dropWhile_id [of "\<lambda>x. x \<noteq> n" chain] dw assms(4) by simp
  have in': "set (after @ rev before) = set chain - {n}" using assms(1) chain by auto
  show ?thesis
  proof (cases "\<exists>x \<in> set chain. named x")
    case True
    then obtain x where x: "x \<in> set chain" "named x" by blast
    have uniq: "y = x" if "y \<in> set chain" "named y" for y using assms(3) that x by blast
    have found: "List.find named ys = Some x" if "x \<in> set ys" "set ys \<subseteq> set chain" for ys
    proof (cases "List.find named ys")
      case None
      then show ?thesis using x that by (simp only: find_None_iff) blast
    next
      case (Some y)
      then have "y \<in> set ys" "named y" by (metis find_Some_iff nth_mem)+
      then show ?thesis using Some uniq that(2) by blast
    qed
    have lead: "swap_leader named chain = x" using found [OF x(1)] by (simp add: swap_leader_def)
    have "List.find named (after @ rev before) = Some x" if "x \<noteq> n" using found in' x(1) that by blast
    moreover have "\<not> named n" if "x \<noteq> n" using uniq [OF assms(2)] that by blast
    ultimately show ?thesis unfolding lead using x(2) by (cases "x = n") simp_all
  next
    case False
    then have "List.find named chain = None" "List.find named (after @ rev before) = None" "\<not> named n"
      using in' assms(2) unfolding find_None_iff by blast+
    moreover have "hd chain = (if before = [] then n else hd before)" using chain by simp
    moreover have "before \<noteq> [] \<longrightarrow> n \<noteq> hd before" using chain assms(1) by (cases before) auto
    ultimately show ?thesis by (simp add: swap_leader_def)
  qed
qed

subsection \<open>A sample swap unit\<close>

definition sample_swap :: swap where
  "sample_swap = (swap_init ''dev-sda2.swap'')\<lparr>sw_what := ''/dev/sda2'', sw_load_state := UNIT_LOADED\<rparr>"







definition listed_swap :: "string \<Rightarrow> string \<Rightarrow> swap" where
  "listed_swap n what = (swap_init n)\<lparr>sw_what := what, sw_from_proc_swaps := True,
     sw_parameters_proc_swaps := no_swap_parameters\<lparr>sp_what := Some ''/dev/sda2''\<rparr>\<rparr>"

definition sample_swaps :: swap_manager where
  "sample_swaps =
     \<lparr>swm_swaps = [listed_swap ''dev-sda2.swap'' ''/dev/sda2'', listed_swap ''dev-old.swap'' ''/dev/old''], swm_names = 2,
      swm_chains = (\<lambda>w. if w = ''/dev/sda2'' then [''dev-old.swap'', ''dev-sda2.swap''] else [])\<rparr>"

lemma sample_swaps_names:
  "unit_name_from_path ''/dev/sda2'' ''.swap'' = ''dev-sda2.swap''" "unit_name_from_path ''/dev/old'' ''.swap'' = ''dev-old.swap''"
  by code_simp+

lemma sample_swaps_ok: "chains_ok sample_swaps"
  by (auto simp: chains_ok_def in_chains_def sample_swaps_def listed_swap_def swap_key_def swap_init_def)

subsection \<open>The claims\<close>



text \<open>
  C27: The table \<open>swaps_by_proc_swaps\<close> stays right: after every reading of \<open>/proc/swaps\<close>, with units created,
  removed from the kernel's list, or failing, the chain of every kernel device has exactly the units
  that were matched to it, each of them once.  Loading a unit must not touch its name and what the
  kernel calls it.
\<close>

theorem swap_chains_kept:
  assumes "chains_ok sm" "\<And>s. swap_key (load s) = swap_key s"
  shows "chains_ok (swap_fd_event load udev ls sm)"
proof -
  obtain r sm1 where l: "swap_load_proc_swaps udev True ls sm = (r, sm1)" by (rule prod.exhaust)
  have ok: "chains_ok sm1" using swap_load_chains [OF assms(1), of udev True ls] by (simp add: l)
  define ss where "ss = map (\<lambda>s. if sw_load_state s = UNIT_STUB then load s else s) (swm_swaps sm1)"
  have keys: "map swap_key ss = map swap_key (swm_swaps sm1)" using assms(2) by (simp add: ss_def)
  obtain ss' cs where u: "swap_update_all ss (swm_chains sm1) = (ss', cs)" by (rule prod.exhaust)
  have "in_chains (map swap_key ss') cs"
    using swap_update_all_chains [of "[]" ss "swm_chains sm1" ss' cs] ok u keys by (simp add: chains_ok_def)
  moreover have "swap_key \<circ> reset_swap_flags = swap_key" by (rule ext) simp
  ultimately show ?thesis
    using ok u by (cases r) (simp_all add: swap_fd_event_def l chains_ok_def Let_def ss_def)
qed

theorem swap_chains_kept_witness:
  "chains_ok (swap_fd_event id (\<lambda>d. if d = ''/dev/sda2'' then Some (Some d, [''/dev/disk/by-label/swap'']) else None)
     [(''/dev/sda2'', 0), (''/swapfile'', 1)] \<lparr>swm_swaps = [sample_swap], swm_names = 1, swm_chains = (\<lambda>_. [])\<rparr>)"
  by (rule swap_chains_kept)
     (simp_all add: chains_ok_def in_chains_def swap_key_def sample_swap_def swap_init_def no_swap_parameters_def)

text \<open>
  C28: Of the units for one kernel device, exactly one speaks for all: there is a unit in the
  chain that follows no unit and that every other unit of the chain follows, the one named like the device
  if there is such a unit.  The units have the names \<open>swap_verify\<close> insists on.
\<close>

theorem swap_following_leader:
  assumes "chains_ok sm" "swm_chains sm w \<noteq> []"
    and "\<forall>s \<in> set (swm_swaps sm). sw_id s = unit_name_from_path (sw_what s) ''.swap''"
  shows "\<exists>leader \<in> set (swm_chains sm w).
    (\<forall>n \<in> set (swm_chains sm w).
       swap_following sm n = (if n = leader then None else Some leader) \<and>
       (named_like_device sm n \<longrightarrow> n = leader))"
proof
  define chain where "chain = swm_chains sm w"
  define leader where "leader = swap_leader (named_like_device sm) chain"
  note unique = named_unique [OF assms(1,3), of _ w, folded chain_def]
  have d: "distinct chain" using assms(1) by (simp add: chains_ok_def in_chains_def chain_def)
  show "leader \<in> set (swm_chains sm w)"
    using assms(2) find_Some_iff [of "named_like_device sm" chain]
    by (auto simp: leader_def swap_leader_def chain_def [symmetric] split: option.split)
  show "\<forall>n \<in> set (swm_chains sm w). swap_following sm n = (if n = leader then None else Some leader) \<and>
      (named_like_device sm n \<longrightarrow> n = leader)"
  proof (intro ballI conjI impI)
    fix n assume n: "n \<in> set (swm_chains sm w)"
    obtain s where "swap_unit sm n = Some s" "sp_what (sw_parameters_proc_swaps s) = Some w"
      by (rule swap_unit_of [OF assms(1) n])
    then have c: "swap_chain sm n = chain" by (simp add: swap_chain_def chain_def)
    have f: "swap_following sm n = (if n = leader then None else Some leader)"
      unfolding swap_following_def c Let_def leader_def
      by (rule follow_search [OF d]) (use n unique in \<open>simp_all add: chain_def\<close>)
    then show "swap_following sm n = (if n = leader then None else Some leader)" .
    assume "named_like_device sm n"
    then have "swap_following sm n = None" by (simp add: swap_following_def)
    then show "n = leader" using f by (simp split: if_splits)
  qed
qed

theorem swap_following_leader_witness:
  "swap_following sample_swaps ''dev-old.swap'' = Some ''dev-sda2.swap'' \<and>
   swap_following sample_swaps ''dev-sda2.swap'' = None"
proof -
  have n: "named_like_device sample_swaps ''dev-sda2.swap''"
    by (simp add: named_like_device_def swap_unit_def sample_swaps_def listed_swap_def swap_init_def)
  have c: "swm_chains sample_swaps ''/dev/sda2'' = [''dev-old.swap'', ''dev-sda2.swap'']" by (simp add: sample_swaps_def)
  have v: "\<forall>s \<in> set (swm_swaps sample_swaps). sw_id s = unit_name_from_path (sw_what s) ''.swap''"
    by (simp add: sample_swaps_def listed_swap_def swap_init_def sample_swaps_names)
  show ?thesis
    using swap_following_leader [OF sample_swaps_ok _ v, of "''/dev/sda2''"] n unfolding c by (auto split: if_splits)
qed

end
