(* ===== verification/Socket.thy ===== *)
theory Socket
  imports Supervised Strv
begin

section \<open>Socket units (socket.c)\<close>

text \<open>
  \<open>struct Socket\<close> with its ports, the state machine, and the connections it hands to services.
  A pointer into a list of commands is its id and a position, as for services.
  What the socket asks of the rest of the system beyond the calls in \<open>exec_env\<close> is a second record of
  answers: opening a port, watching a file descriptor, the state of the service's jobs, loading
  the next instance of a template, and the steps that name it and pass it the connection.
\<close>

datatype socket_state =
    SOCKET_DEAD | SOCKET_START_PRE | SOCKET_START_POST | SOCKET_LISTENING | SOCKET_RUNNING
  | SOCKET_STOP_PRE | SOCKET_STOP_PRE_SIGTERM | SOCKET_STOP_PRE_SIGKILL | SOCKET_STOP_POST
  | SOCKET_FINAL_SIGTERM | SOCKET_FINAL_SIGKILL | SOCKET_FAILED

datatype socket_exec_command =
    SOCKET_EXEC_START_PRE | SOCKET_EXEC_START_POST | SOCKET_EXEC_STOP_PRE | SOCKET_EXEC_STOP_POST

datatype socket_type = SOCKET_SOCKET | SOCKET_FIFO | SOCKET_SPECIAL | SOCKET_MQUEUE

record socket_port =
  po_type :: socket_type
  po_can_accept :: bool
  po_fd :: int
  po_watched :: bool
  po_socket_accept :: bool

text \<open>The service behind a socket: whether it is loaded, at rest, and from a SysV script.\<close>

record socket_service =
  ss_load_state :: unit_load_state
  ss_idle :: bool
  ss_sysv :: bool

type_synonym socket_command = "socket_exec_command \<times> nat"

record socket = control_unit +
  so_ports :: "socket_port list"
  so_commands :: "socket_exec_command \<Rightarrow> exec_command list"
  so_accept :: bool
  so_max_connections :: "32 word"
  so_pam_name :: bool
  so_load_state :: unit_load_state
  so_service :: "socket_service option"
  so_n_accepted :: "32 word"
  so_n_connections :: "32 word"
  so_state :: socket_state
  so_deserialized_state :: socket_state
  so_control_command :: "socket_command option"
  so_control_command_id :: "socket_exec_command option"
  so_command_status :: "socket_command \<Rightarrow> exec_status"

record socket_env =
  n_open :: "exec_action list \<Rightarrow> socket_port \<Rightarrow> int result"
  n_label :: "exec_action list \<Rightarrow> errno option"
  n_watch_fd :: "exec_action list \<Rightarrow> int \<Rightarrow> errno option"
  n_load :: "exec_action list \<Rightarrow> socket_service result"
  n_pending_inactive :: bool
  n_service_pending :: bool
  n_instance :: "exec_action list \<Rightarrow> errno option"
  n_set_socket_fd :: "exec_action list \<Rightarrow> errno option"

definition socket_state_translation_table :: "socket_state \<Rightarrow> unit_active_state" where
  "socket_state_translation_table st =
     (case st of
        SOCKET_DEAD \<Rightarrow> UNIT_INACTIVE
      | SOCKET_START_PRE \<Rightarrow> UNIT_ACTIVATING
      | SOCKET_START_POST \<Rightarrow> UNIT_ACTIVATING
      | SOCKET_LISTENING \<Rightarrow> UNIT_ACTIVE
      | SOCKET_RUNNING \<Rightarrow> UNIT_ACTIVE
      | SOCKET_STOP_PRE \<Rightarrow> UNIT_DEACTIVATING
      | SOCKET_STOP_PRE_SIGTERM \<Rightarrow> UNIT_DEACTIVATING
      | SOCKET_STOP_PRE_SIGKILL \<Rightarrow> UNIT_DEACTIVATING
      | SOCKET_STOP_POST \<Rightarrow> UNIT_DEACTIVATING
      | SOCKET_FINAL_SIGTERM \<Rightarrow> UNIT_DEACTIVATING
      | SOCKET_FINAL_SIGKILL \<Rightarrow> UNIT_DEACTIVATING
      | SOCKET_FAILED \<Rightarrow> UNIT_FAILED)"

definition socket_active_state :: "socket \<Rightarrow> unit_active_state" where
  "socket_active_state s = socket_state_translation_table (so_state s)"

text \<open>\<open>socket_init\<close>, with what the unit file sets as arguments.\<close>

definition socket_init ::
    "socket_port list \<Rightarrow> (socket_exec_command \<Rightarrow> exec_command list) \<Rightarrow> bool \<Rightarrow> socket" where
  "socket_init ports cmds accept =
     \<lparr>x_timer = Timer_Off, x_log = [], cu_control_pid = 0, cu_timeout_usec = 90000000,
      cu_kill_mode = KILL_CONTROL_GROUP, cu_kill_signal = SIGTERM, cu_send_sigkill = True,
      cu_failure = False,
      so_ports = map (\<lambda>p. p\<lparr>po_fd := -1, po_watched := False, po_socket_accept := False\<rparr>) ports,
      so_commands = cmds, so_accept = accept, so_max_connections = 64, so_pam_name = False,
      so_load_state = UNIT_LOADED,
      so_service = (if accept then None else Some \<lparr>ss_load_state = UNIT_LOADED, ss_idle = True, ss_sysv = False\<rparr>),
      so_n_accepted = 0, so_n_connections = 0, so_state = SOCKET_DEAD,
      so_deserialized_state = SOCKET_DEAD, so_control_command = None, so_control_command_id = None,
      so_command_status = (\<lambda>_. exec_status_zero)\<rparr>"

definition have_non_accept_socket :: "socket \<Rightarrow> bool" where
  "have_non_accept_socket s =
     (if \<not> so_accept s then True
      else list_ex (\<lambda>p. po_type p \<noteq> SOCKET_SOCKET \<or> \<not> po_can_accept p) (so_ports s))"

definition socket_verify :: "socket \<Rightarrow> unit result" where
  "socket_verify s =
     (if so_load_state s \<noteq> UNIT_LOADED then Inr ()
      else if so_ports s = [] then Inl EINVAL
      else if so_accept s \<and> have_non_accept_socket s then Inl EINVAL
      else if so_accept s \<and> so_max_connections s \<le> 0 then Inl EINVAL
      else if so_accept s \<and> so_service s \<noteq> None then Inl EINVAL
      else if so_pam_name s \<and> cu_kill_mode s \<noteq> KILL_CONTROL_GROUP then Inl EINVAL
      else Inr ())"

subsection \<open>File descriptors\<close>

definition unit_unwatch_fd :: "socket_port \<Rightarrow> exec_action list" where
  "unit_unwatch_fd p = (if po_watched p then [Unwatch_Fd (po_fd p)] else [])"

fun close_ports :: "socket_port list \<Rightarrow> exec_action list \<times> socket_port list" where
  "close_ports [] = ([], [])"
| "close_ports (p # ps) =
     (let (l, qs) = close_ports ps in
      if po_fd p < 0 then (l, p # qs)
      else (unit_unwatch_fd p @ Close_Fd (po_fd p) # l, p\<lparr>po_fd := -1, po_watched := False\<rparr> # qs))"

definition socket_close_fds :: "socket \<Rightarrow> socket" where
  "socket_close_fds s =
     (let (l, ps) = close_ports (so_ports s) in s\<lparr>so_ports := ps, x_log := x_log s @ l\<rparr>)"

fun unwatch_ports :: "socket_port list \<Rightarrow> exec_action list \<times> socket_port list" where
  "unwatch_ports [] = ([], [])"
| "unwatch_ports (p # ps) =
     (let (l, qs) = unwatch_ports ps in
      if po_fd p < 0 then (l, p # qs) else (unit_unwatch_fd p @ l, p\<lparr>po_watched := False\<rparr> # qs))"

definition socket_unwatch_fds :: "socket \<Rightarrow> socket" where
  "socket_unwatch_fds s =
     (let (l, ps) = unwatch_ports (so_ports s) in s\<lparr>so_ports := ps, x_log := x_log s @ l\<rparr>)"

text \<open>
  The loops over the ports that may fail in the middle: the ports already treated, in
  front of those to come, and the log.
\<close>

fun watch_ports ::
    "socket_env \<Rightarrow> bool \<Rightarrow> exec_action list \<Rightarrow> socket_port list \<Rightarrow> errno option \<times> exec_action list \<times> socket_port list" where
  "watch_ports n accept l [] = (None, l, [])"
| "watch_ports n accept l (p # ps) =
     (if po_fd p < 0 then
        case watch_ports n accept l ps of (r, l', qs) \<Rightarrow> (r, l', p # qs)
      else
        let p' = p\<lparr>po_socket_accept := accept \<and> po_type p = SOCKET_SOCKET \<and> po_can_accept p\<rparr>;
            r = n_watch_fd n l (po_fd p);
            l1 = l @ [Watch_Fd (po_fd p) r] in
        if r \<noteq> None then (r, l1, p' # ps)
        else case watch_ports n accept l1 ps of (r', l', qs) \<Rightarrow> (r', l', p'\<lparr>po_watched := True\<rparr> # qs))"

definition socket_watch_fds :: "socket_env \<Rightarrow> socket \<Rightarrow> errno option \<times> socket" where
  "socket_watch_fds n s =
     (case watch_ports n (so_accept s) (x_log s) (so_ports s) of
        (r, l, ps) \<Rightarrow>
          let s1 = s\<lparr>so_ports := ps, x_log := l\<rparr> in
          (r, if r = None then s1 else socket_unwatch_fds s1))"

text \<open>
  \<open>None\<close> is the failed assertion that only accepting sockets load services.
\<close>

definition socket_instantiate_service :: "socket_env \<Rightarrow> socket \<Rightarrow> (errno option \<times> socket) option" where
  "socket_instantiate_service n s =
     (if so_service s \<noteq> None then Some (None, s)
      else if \<not> so_accept s then None
      else case n_load n (x_log s) of
             Inl r \<Rightarrow> Some (Some r, act (Load_Instance (Some r)) s)
           | Inr sv \<Rightarrow>
               if ss_sysv sv then Some (Some ENOENT, act (Load_Instance None) s)
               else Some (None, act (Load_Instance None) (s\<lparr>so_service := Some sv\<rparr>)))"

fun open_ports ::
    "socket_env \<Rightarrow> exec_action list \<Rightarrow> socket_port list \<Rightarrow> errno option \<times> exec_action list \<times> socket_port list" where
  "open_ports n l [] = (None, l, [])"
| "open_ports n l (p # ps) =
     (if po_fd p \<ge> 0 then
        case open_ports n l ps of (r, l', qs) \<Rightarrow> (r, l', p # qs)
      else
        let f = n_open n l p;
            l1 = l @ [Open_Fd f] in
        case f of
          Inl r \<Rightarrow> (Some r, l1, p # ps)
        | Inr fd \<Rightarrow> (case open_ports n l1 ps of (r, l', qs) \<Rightarrow> (r, l', p\<lparr>po_fd := fd\<rparr> # qs)))"

text \<open>
  The service is looked up for its label when the first port of type socket is met; all ports
  before it are open by then.  A failure there returns without closing them.
\<close>

definition before_label :: "socket_port list \<Rightarrow> socket_port list" where
  "before_label ps = takeWhile (\<lambda>p. po_fd p \<ge> 0 \<or> po_type p \<noteq> SOCKET_SOCKET) ps"

definition socket_open_fds :: "socket_env \<Rightarrow> socket \<Rightarrow> (errno option \<times> socket) option" where
  "socket_open_fds n s =
     (let early = before_label (so_ports s);
          late = drop (length early) (so_ports s) in
      case open_ports n (x_log s) early of
        (Some r, l, ps) \<Rightarrow> Some (Some r, socket_close_fds (s\<lparr>so_ports := ps @ late, x_log := l\<rparr>))
      | (None, l, ps) \<Rightarrow>
          let s1 = s\<lparr>so_ports := ps @ late, x_log := l\<rparr> in
          if late = [] then Some (None, s1)
          else do {
            (r, s2) \<leftarrow> socket_instantiate_service n s1;
            if r \<noteq> None then Some (r, s2)
            else case n_label n (x_log s2) of
                   Some err \<Rightarrow> if err \<noteq> EPERM then Some (Some err, s2) else
                     (case open_ports n (x_log s2) late of (r', l', qs) \<Rightarrow>
                        let s3 = s2\<lparr>so_ports := ps @ qs, x_log := l'\<rparr> in
                        Some (r', if r' = None then s3 else socket_close_fds s3))
                 | None \<Rightarrow>
                     (case open_ports n (x_log s2) late of (r', l', qs) \<Rightarrow>
                        let s3 = s2\<lparr>so_ports := ps @ qs, x_log := l'\<rparr> in
                        Some (r', if r' = None then s3 else socket_close_fds s3)) })"

definition socket_collect_fds :: "socket \<Rightarrow> int list" where
  "socket_collect_fds s = filter (\<lambda>fd. fd \<ge> 0) (map po_fd (so_ports s))"

subsection \<open>Changing the state\<close>

definition socket_busy :: "socket_state \<Rightarrow> bool" where
  "socket_busy st \<longleftrightarrow>
     st \<in> {SOCKET_START_PRE, SOCKET_START_POST, SOCKET_STOP_PRE, SOCKET_STOP_PRE_SIGTERM,
           SOCKET_STOP_PRE_SIGKILL, SOCKET_STOP_POST, SOCKET_FINAL_SIGTERM, SOCKET_FINAL_SIGKILL}"

definition keeps_fds :: "socket_state \<Rightarrow> bool" where
  "keeps_fds st \<longleftrightarrow>
     st \<in> {SOCKET_START_POST, SOCKET_LISTENING, SOCKET_RUNNING, SOCKET_STOP_PRE,
           SOCKET_STOP_PRE_SIGTERM, SOCKET_STOP_PRE_SIGKILL}"

definition socket_unwatch_control_pid :: "socket \<Rightarrow> socket" where
  "socket_unwatch_control_pid s = unwatch_control_pid s"

definition socket_release :: "socket_state \<Rightarrow> socket \<Rightarrow> socket" where
  "socket_release st s =
     (if socket_busy st then s
      else (socket_unwatch_control_pid (unit_unwatch_timer s))
             \<lparr>so_control_command := None, so_control_command_id := None\<rparr>)"

definition socket_release_fds :: "socket_state \<Rightarrow> socket \<Rightarrow> socket" where
  "socket_release_fds st s =
     (let s1 = (if st \<noteq> SOCKET_LISTENING then socket_unwatch_fds s else s)
      in if keeps_fds st then s1 else socket_close_fds s1)"

definition socket_set_state :: "socket_state \<Rightarrow> socket \<Rightarrow> socket" where
  "socket_set_state st s =
     (let old_state = so_state s;
          s1 = socket_release_fds st (socket_release st (s\<lparr>so_state := st\<rparr>))
      in act (Unit_Notify (socket_state_translation_table old_state) (socket_state_translation_table st) True) s1)"

definition commands_of :: "socket \<Rightarrow> socket_exec_command \<Rightarrow> exec_command list" where
  "commands_of s i = so_commands s i"

definition socket_first :: "socket \<Rightarrow> socket_exec_command \<Rightarrow> socket_command option" where
  "socket_first s i = (if commands_of s i = [] then None else Some (i, 0))"

definition socket_next :: "socket \<Rightarrow> socket_command \<Rightarrow> socket_command option" where
  "socket_next s c =
     (if Suc (snd c) < length (commands_of s (fst c)) then Some (fst c, Suc (snd c)) else None)"

definition socket_command :: "socket \<Rightarrow> socket_command \<Rightarrow> exec_command" where
  "socket_command s c = commands_of s (fst c) ! snd c"

text \<open>
  The specifiers in the arguments are not expanded in the model; running out of memory there is one
  of the failures of \<open>exec_spawn\<close>.
\<close>

definition socket_spawn :: "exec_env \<Rightarrow> socket_command \<Rightarrow> socket \<Rightarrow> int result \<times> socket" where
  "socket_spawn e c s = control_spawn e (socket_command s c) s"

definition socket_enter_dead :: "bool \<Rightarrow> socket \<Rightarrow> socket" where
  "socket_enter_dead success s =
     (let s1 = note_failure success s in
      socket_set_state (if cu_failure s1 then SOCKET_FAILED else SOCKET_DEAD) s1)"

definition is_stop_pre_signal :: "socket_state \<Rightarrow> bool" where
  "is_stop_pre_signal st \<longleftrightarrow> st = SOCKET_STOP_PRE_SIGTERM \<or> st = SOCKET_STOP_PRE_SIGKILL"

text \<open>
  Every function that runs a list of commands drops the last control process, sets the command
  id and the first command, and spawns it.
\<close>

definition socket_prepare :: "socket_exec_command \<Rightarrow> socket \<Rightarrow> socket" where
  "socket_prepare i s =
     (let s1 = socket_unwatch_control_pid s in
      s1\<lparr>so_control_command_id := Some i, so_control_command := socket_first s1 i\<rparr>)"

definition socket_run :: "exec_env \<Rightarrow> socket_command \<Rightarrow> socket_state \<Rightarrow> (socket \<Rightarrow> 'r) \<Rightarrow> (socket \<Rightarrow> 'r) \<Rightarrow> socket \<Rightarrow> 'r" where
  "socket_run e c st ret fail s =
     (case socket_spawn e c s of
        (Inl r, s1) \<Rightarrow> fail s1
      | (Inr pid, s1) \<Rightarrow> ret (socket_set_state st (s1\<lparr>cu_control_pid := pid\<rparr>)))"

function socket_enter_signal :: "exec_env \<Rightarrow> socket_state \<Rightarrow> bool \<Rightarrow> socket \<Rightarrow> socket"
  and socket_enter_stop_post :: "exec_env \<Rightarrow> bool \<Rightarrow> socket \<Rightarrow> socket" where
  "socket_enter_signal e st success s =
     (let sig = (if st = SOCKET_STOP_PRE_SIGTERM \<or> st = SOCKET_FINAL_SIGTERM then cu_kill_signal s else SIGKILL);
          give_up = (\<lambda>success s. if is_stop_pre_signal st then socket_enter_stop_post e success s
                                 else socket_enter_dead success s) in
      case signal_unit e sig (note_failure success s) of
        (Some r, wait_for_exit, s1) \<Rightarrow> give_up False s1
      | (None, wait_for_exit, s1) \<Rightarrow>
          if wait_for_exit then
            case unit_watch_timer e (cu_timeout_usec s1) s1 of
              (Some r, s2) \<Rightarrow> give_up False s2
            | (None, s2) \<Rightarrow> socket_set_state st s2
          else give_up True s1)"
| "socket_enter_stop_post e success s =
     (let s1 = socket_prepare SOCKET_EXEC_STOP_POST (note_failure success s) in
      case so_control_command s1 of
        None \<Rightarrow> socket_enter_signal e SOCKET_FINAL_SIGTERM True s1
      | Some c \<Rightarrow>
          socket_run e c SOCKET_STOP_POST (\<lambda>s. s) (socket_enter_signal e SOCKET_FINAL_SIGTERM False) s1)"
  by pat_completeness auto
termination
  by (relation "measure (case_sum (\<lambda>(e, st, success, s). if is_stop_pre_signal st then 2 else 0)
                                  (\<lambda>(e, success, s). 1))")
     (auto simp: is_stop_pre_signal_def)

declare socket_enter_signal.simps [simp del] socket_enter_stop_post.simps [simp del]

definition socket_enter_stop_pre :: "exec_env \<Rightarrow> bool \<Rightarrow> socket \<Rightarrow> socket" where
  "socket_enter_stop_pre e success s =
     (let s1 = socket_prepare SOCKET_EXEC_STOP_PRE (note_failure success s) in
      case so_control_command s1 of
        None \<Rightarrow> socket_enter_stop_post e True s1
      | Some c \<Rightarrow> socket_run e c SOCKET_STOP_PRE (\<lambda>s. s) (socket_enter_stop_post e False) s1)"

definition socket_enter_listening :: "exec_env \<Rightarrow> socket_env \<Rightarrow> socket \<Rightarrow> socket" where
  "socket_enter_listening e n s =
     (case socket_watch_fds n s of
        (Some r, s1) \<Rightarrow> socket_enter_stop_pre e False s1
      | (None, s1) \<Rightarrow> socket_set_state SOCKET_LISTENING s1)"

definition socket_enter_start_post :: "exec_env \<Rightarrow> socket_env \<Rightarrow> socket \<Rightarrow> socket option" where
  "socket_enter_start_post e n s = do {
     (r, s1) \<leftarrow> socket_open_fds n s;
     if r \<noteq> None then Some (socket_enter_stop_pre e False s1)
     else
       let s2 = socket_prepare SOCKET_EXEC_START_POST s1 in
       case so_control_command s2 of
         None \<Rightarrow> Some (socket_enter_listening e n s2)
       | Some c \<Rightarrow> Some (socket_run e c SOCKET_START_POST (\<lambda>s. s) (socket_enter_stop_pre e False) s2) }"

definition socket_enter_start_pre :: "exec_env \<Rightarrow> socket_env \<Rightarrow> socket \<Rightarrow> socket option" where
  "socket_enter_start_pre e n s =
     (let s1 = socket_prepare SOCKET_EXEC_START_PRE s in
      case so_control_command s1 of
        None \<Rightarrow> socket_enter_start_post e n s1
      | Some c \<Rightarrow> socket_run e c SOCKET_START_PRE Some (\<lambda>s. Some (socket_enter_dead False s)) s1)"

text \<open>
  Traffic on a listening socket: with a connection \<open>cfd\<close> for an accepting socket, without for the
  others.  \<open>None\<close> is a failed assertion, or the start of a service that is not there.
\<close>

definition socket_enter_running ::
    "exec_env \<Rightarrow> socket_env \<Rightarrow> int \<Rightarrow> socket \<Rightarrow> socket option" where
  "socket_enter_running e n cfd s =
     (let close = (\<lambda>s. if cfd \<ge> 0 then act (Close_Fd cfd) s else s) in
      if n_pending_inactive n then
        if cfd \<ge> 0 then Some (act (Close_Fd cfd) s)
        else case socket_watch_fds n (socket_close_fds s) of
               (Some r, s1) \<Rightarrow> Some (socket_enter_stop_pre e False s1)
             | (None, s1) \<Rightarrow> Some s1
      else if cfd < 0 then
        if n_service_pending n then Some (socket_set_state SOCKET_RUNNING s)
        else if so_service s = None then None
        else
          let r = e_add_job e (x_log s);
              s1 = act (Add_Start_Job r) s in
          Some (if r \<noteq> None then socket_enter_stop_pre e False s1 else socket_set_state SOCKET_RUNNING s1)
      else if so_n_connections s \<ge> so_max_connections s then Some (act (Close_Fd cfd) s)
      else do {
        (r, s1) \<leftarrow> socket_instantiate_service n s;
        if r \<noteq> None then Some (close (socket_enter_stop_pre e False s1))
        else case n_instance n (x_log s1) of
               Some r \<Rightarrow> Some (close (socket_enter_stop_pre e False s1))
             | None \<Rightarrow>
                 let s2 = s1\<lparr>so_service := None, so_n_accepted := so_n_accepted s1 + 1\<rparr>;
                     r = n_set_socket_fd n (x_log s2);
                     s3 = act (Pass_Fd cfd r) s2 in
                 if r \<noteq> None then Some (close (socket_enter_stop_pre e False s3))
                 else
                   let s4 = s3\<lparr>so_n_connections := so_n_connections s3 + 1\<rparr>;
                       r' = e_add_job e (x_log s4);
                       s5 = act (Add_Start_Job r') s4 in
                   Some (if r' \<noteq> None then socket_enter_stop_pre e False s5 else act Dbus_Queue s5) })"

definition socket_run_next :: "exec_env \<Rightarrow> bool \<Rightarrow> socket \<Rightarrow> socket option" where
  "socket_run_next e success s = do {
     c \<leftarrow> so_control_command s;
     c' \<leftarrow> socket_next s c;
     let s1 = (socket_unwatch_control_pid (note_failure success s))\<lparr>so_control_command := Some c'\<rparr> in
     case socket_spawn e c' s1 of
       (Inr pid, s2) \<Rightarrow> Some (s2\<lparr>cu_control_pid := pid\<rparr>)
     | (Inl r, s2) \<Rightarrow>
         Some (if so_state s2 = SOCKET_START_POST then socket_enter_stop_pre e False s2
               else if so_state s2 = SOCKET_STOP_POST then socket_enter_dead False s2
               else socket_enter_signal e SOCKET_FINAL_SIGTERM False s2) }"

subsection \<open>Requests\<close>

definition socket_start :: "exec_env \<Rightarrow> socket_env \<Rightarrow> socket \<Rightarrow> (errno option \<times> socket) option" where
  "socket_start e n s =
     (if so_state s \<in> {SOCKET_STOP_PRE, SOCKET_STOP_PRE_SIGKILL, SOCKET_STOP_PRE_SIGTERM,
                       SOCKET_STOP_POST, SOCKET_FINAL_SIGTERM, SOCKET_FINAL_SIGKILL}
      then Some (Some EAGAIN, s)
      else if so_state s = SOCKET_START_PRE \<or> so_state s = SOCKET_START_POST then Some (None, s)
      else
        case (case so_service s of
                None \<Rightarrow> None
              | Some sv \<Rightarrow>
                  if ss_load_state sv \<noteq> UNIT_LOADED then Some ENOENT
                  else if \<not> ss_idle sv then Some EBUSY
                  else if ss_sysv sv then Some ENOENT
                  else None) of
          Some r \<Rightarrow> Some (Some r, s)
        | None \<Rightarrow>
            if so_state s \<noteq> SOCKET_DEAD \<and> so_state s \<noteq> SOCKET_FAILED then None
            else map_option (Pair None) (socket_enter_start_pre e n (s\<lparr>cu_failure := False\<rparr>)))"

definition socket_stop :: "exec_env \<Rightarrow> socket \<Rightarrow> (errno option \<times> socket) option" where
  "socket_stop e s =
     (if so_state s \<in> {SOCKET_STOP_PRE, SOCKET_STOP_PRE_SIGTERM, SOCKET_STOP_PRE_SIGKILL,
                       SOCKET_STOP_POST, SOCKET_FINAL_SIGTERM, SOCKET_FINAL_SIGKILL}
      then Some (None, s)
      else if so_state s = SOCKET_START_PRE \<or> so_state s = SOCKET_START_POST
      then Some (Some EAGAIN, socket_enter_signal e SOCKET_STOP_PRE_SIGTERM True s)
      else if so_state s \<noteq> SOCKET_LISTENING \<and> so_state s \<noteq> SOCKET_RUNNING then None
      else Some (None, socket_enter_stop_pre e True s))"

definition socket_reset_failed :: "socket \<Rightarrow> socket" where
  "socket_reset_failed s =
     (if so_state s = SOCKET_FAILED then socket_set_state SOCKET_DEAD s else s)\<lparr>cu_failure := False\<rparr>"

definition socket_kill :: "exec_env \<Rightarrow> kill_who \<Rightarrow> kill_mode \<Rightarrow> int \<Rightarrow> socket \<Rightarrow> int \<times> socket" where
  "socket_kill e who mode signo s = control_kill e who mode signo s"

definition socket_check_gc :: "socket \<Rightarrow> bool" where
  "socket_check_gc s \<longleftrightarrow> so_n_connections s > 0"

definition socket_notify_service_dead :: "exec_env \<Rightarrow> socket_env \<Rightarrow> socket \<Rightarrow> socket" where
  "socket_notify_service_dead e n s =
     (if so_state s = SOCKET_RUNNING then socket_enter_listening e n s else s)"

definition socket_connection_unref :: "socket \<Rightarrow> socket option" where
  "socket_connection_unref s =
     (if so_n_connections s > 0 then Some (s\<lparr>so_n_connections := so_n_connections s - 1\<rparr>) else None)"

subsection \<open>Events\<close>

text \<open>
  An event on a file descriptor: its number, whether it is plain input, and for a port with
  \<open>socket_accept\<close> what \<open>accept4\<close> returns.
\<close>

definition socket_fd_event ::
    "exec_env \<Rightarrow> socket_env \<Rightarrow> bool \<Rightarrow> bool \<Rightarrow> int result \<Rightarrow> socket \<Rightarrow> socket option" where
  "socket_fd_event e n epollin accepts conn s =
     (if so_state s \<noteq> SOCKET_LISTENING then Some s
      else if \<not> epollin then Some (socket_enter_stop_pre e False s)
      else if accepts then
        case conn of
          Inl r \<Rightarrow> Some (socket_enter_stop_pre e False s)
        | Inr cfd \<Rightarrow> socket_enter_running e n cfd s
      else socket_enter_running e n (-1) s)"

definition socket_final_sigchld :: "exec_env \<Rightarrow> socket_env \<Rightarrow> bool \<Rightarrow> socket \<Rightarrow> socket option" where
  "socket_final_sigchld e n success s =
     (case so_state s of
        SOCKET_START_PRE \<Rightarrow>
          if success then socket_enter_start_post e n s
          else Some (socket_enter_signal e SOCKET_FINAL_SIGTERM False s)
      | SOCKET_START_POST \<Rightarrow>
          Some (if success then socket_enter_listening e n s else socket_enter_stop_pre e False s)
      | SOCKET_STOP_PRE \<Rightarrow> Some (socket_enter_stop_post e success s)
      | SOCKET_STOP_PRE_SIGTERM \<Rightarrow> Some (socket_enter_stop_post e success s)
      | SOCKET_STOP_PRE_SIGKILL \<Rightarrow> Some (socket_enter_stop_post e success s)
      | SOCKET_STOP_POST \<Rightarrow> Some (socket_enter_dead success s)
      | SOCKET_FINAL_SIGTERM \<Rightarrow> Some (socket_enter_dead success s)
      | SOCKET_FINAL_SIGKILL \<Rightarrow> Some (socket_enter_dead success s)
      | SOCKET_DEAD \<Rightarrow> None
      | SOCKET_LISTENING \<Rightarrow> None
      | SOCKET_RUNNING \<Rightarrow> None
      | SOCKET_FAILED \<Rightarrow> None)"

definition socket_sigchld_event ::
    "exec_env \<Rightarrow> socket_env \<Rightarrow> int \<Rightarrow> int \<Rightarrow> int \<Rightarrow> socket \<Rightarrow> socket option" where
  "socket_sigchld_event e n pid code status s =
     (if pid \<noteq> cu_control_pid s then Some s
      else
        let s1 = s\<lparr>cu_control_pid := 0\<rparr>;
            (success, s2) =
              (case so_control_command s1 of
                 None \<Rightarrow> (is_clean_exit code status, s1)
               | Some c \<Rightarrow>
                   (is_clean_exit code status \<or> c_ignore (socket_command s1 c),
                    s1\<lparr>so_command_status := (so_command_status s1)
                         (c := exec_status_exit (e_now e (x_log s1)) pid code status (so_command_status s1 c))\<rparr>));
            s3 = s2\<lparr>cu_failure := cu_failure s2 \<or> \<not> success\<rparr> in
        map_option (act Dbus_Queue)
          (if success \<and> (case so_control_command s3 of None \<Rightarrow> False | Some c \<Rightarrow> socket_next s3 c \<noteq> None)
           then socket_run_next e success s3
           else socket_final_sigchld e n success
                  (s3\<lparr>so_control_command := None, so_control_command_id := None\<rparr>)))"

definition socket_timer_event :: "exec_env \<Rightarrow> socket \<Rightarrow> socket option" where
  "socket_timer_event e s =
     (case so_state s of
        SOCKET_START_PRE \<Rightarrow> Some (socket_enter_signal e SOCKET_FINAL_SIGTERM False s)
      | SOCKET_START_POST \<Rightarrow> Some (socket_enter_stop_pre e False s)
      | SOCKET_STOP_PRE \<Rightarrow> Some (socket_enter_signal e SOCKET_STOP_PRE_SIGTERM False s)
      | SOCKET_STOP_PRE_SIGTERM \<Rightarrow>
          Some (if cu_send_sigkill s then socket_enter_signal e SOCKET_STOP_PRE_SIGKILL False s
                else socket_enter_stop_post e False s)
      | SOCKET_STOP_PRE_SIGKILL \<Rightarrow> Some (socket_enter_stop_post e False s)
      | SOCKET_STOP_POST \<Rightarrow> Some (socket_enter_signal e SOCKET_FINAL_SIGTERM False s)
      | SOCKET_FINAL_SIGTERM \<Rightarrow>
          Some (if cu_send_sigkill s then socket_enter_signal e SOCKET_FINAL_SIGKILL False s
                else socket_enter_dead False s)
      | SOCKET_FINAL_SIGKILL \<Rightarrow> Some (socket_enter_dead False s)
      | SOCKET_DEAD \<Rightarrow> None
      | SOCKET_LISTENING \<Rightarrow> None
      | SOCKET_RUNNING \<Rightarrow> None
      | SOCKET_FAILED \<Rightarrow> None)"

subsection \<open>Steps\<close>

text \<open>
  Besides traffic, the socket hears from its service when it is dead and when a connection is closed.
  The service is a unit of its own and may change between any two events (\<open>Service_Changes\<close>).
\<close>

datatype socket_input =
    Traffic bool bool "int result" | Service_Dead | Connection_Closed | Service_Changes socket_service

type_synonym socket_event = "socket_input control_event"

definition socket_enabled :: "socket_event \<Rightarrow> socket \<Rightarrow> bool" where
  "socket_enabled ev s =
     (case ev of
        Ev_Start \<Rightarrow> so_load_state s = UNIT_LOADED \<and> \<not> UNIT_IS_ACTIVE_OR_RELOADING (socket_active_state s)
      | Ev_Stop \<Rightarrow> \<not> UNIT_IS_INACTIVE_OR_FAILED (socket_active_state s)
      | Ev_Reload \<Rightarrow> False
      | Ev_Sigchld pid code status \<Rightarrow> pid > 0
      | Ev_Timer \<Rightarrow> x_timer s = Timer_Armed
      | Ev_Table (Traffic epollin accepts conn) \<Rightarrow>
          (\<exists>p \<in> set (so_ports s). po_watched p \<and> po_socket_accept p = accepts) \<and>
          (case conn of Inl _ \<Rightarrow> True | Inr cfd \<Rightarrow> cfd \<ge> 0)
      | Ev_Table Connection_Closed \<Rightarrow> so_n_connections s > 0
      | _ \<Rightarrow> True)"

definition socket_dispatch :: "exec_env \<Rightarrow> socket_env \<Rightarrow> socket_event \<Rightarrow> socket \<Rightarrow> socket option" where
  "socket_dispatch e n ev s =
     (case ev of
        Ev_Start \<Rightarrow> map_option snd (socket_start e n s)
      | Ev_Stop \<Rightarrow> map_option snd (socket_stop e s)
      | Ev_Reload \<Rightarrow> None
      | Ev_Reset_Failed \<Rightarrow> Some (socket_reset_failed s)
      | Ev_Kill who mode signo \<Rightarrow> Some (snd (socket_kill e who mode signo s))
      | Ev_Sigchld pid code status \<Rightarrow> socket_sigchld_event e n pid code status s
      | Ev_Timer \<Rightarrow> socket_timer_event e (s\<lparr>x_timer := Timer_Elapsed\<rparr>)
      | Ev_Table (Traffic epollin accepts conn) \<Rightarrow> socket_fd_event e n epollin accepts conn s
      | Ev_Table Service_Dead \<Rightarrow> Some (socket_notify_service_dead e n s)
      | Ev_Table Connection_Closed \<Rightarrow> socket_connection_unref s
      | Ev_Table (Service_Changes sv) \<Rightarrow> Some (s\<lparr>so_service := map_option (\<lambda>_. sv) (so_service s)\<rparr>))"

definition socket_env_ok :: "socket_env \<Rightarrow> bool" where
  "socket_env_ok n \<longleftrightarrow> (\<forall>l p fd. n_open n l p = Inr fd \<longrightarrow> fd \<ge> 0)"

inductive socket_step :: "socket_event \<Rightarrow> socket \<Rightarrow> socket \<Rightarrow> bool" where
  "env_ok e \<Longrightarrow> socket_env_ok n \<Longrightarrow> socket_enabled ev s \<Longrightarrow> socket_dispatch e n ev s = Some s' \<Longrightarrow>
   socket_step ev s s'"

end
