(* ===== verification/Socket_Ok.thy ===== *)
theory Socket_Ok
  imports Socket Control_Machine
begin

section \<open>The invariant of a socket unit\<close>

text \<open>
  A socket has the contract of mounts and swaps, by the same locale, and two things more: its ports are
  watched only while it is listening and open only as long as the state needs them; and it runs lists
  of commands, so the measure that falls with every timeout counts the commands that are left.
\<close>

subsection \<open>Ports\<close>

definition port_fits :: "bool \<Rightarrow> socket_port \<Rightarrow> bool" where
  "port_fits accept p \<longleftrightarrow>
     (po_watched p \<longrightarrow> po_fd p \<ge> 0 \<and> po_socket_accept p = accept) \<and>
     (accept \<longrightarrow> po_type p = SOCKET_SOCKET \<and> po_can_accept p)"

definition unwatched :: "socket_port \<Rightarrow> socket_port" where
  "unwatched p = (if po_fd p < 0 then p else p\<lparr>po_watched := False\<rparr>)"

definition closed :: "socket_port \<Rightarrow> socket_port" where
  "closed p = (if po_fd p < 0 then p else p\<lparr>po_fd := -1, po_watched := False\<rparr>)"

lemma unwatch_ports_form: "\<exists>l. quiet l \<and> unwatch_ports ps = (l, map unwatched ps)"
proof (induction ps)
  case (Cons p ps)
  then obtain l where l: "quiet l" "unwatch_ports ps = (l, map unwatched ps)" by blast
  then have "quiet (unit_unwatch_fd p @ l)" by (auto simp: unit_unwatch_fd_def intro!: quiet_Cons)
  then show ?case using l by (auto simp: unwatched_def)
qed simp

lemma close_ports_form: "\<exists>l. quiet l \<and> close_ports ps = (l, map closed ps)"
proof (induction ps)
  case (Cons p ps)
  then obtain l where l: "quiet l" "close_ports ps = (l, map closed ps)" by blast
  then have "quiet (unit_unwatch_fd p @ Close_Fd (po_fd p) # l)" by (auto simp: unit_unwatch_fd_def intro!: quiet_Cons)
  then show ?case using l by (auto simp: closed_def)
qed simp

lemma watch_ports_form:
  assumes "list_all (port_fits accept) ps" "watch_ports n accept l ps = (r, l', qs)"
  shows "list_all (port_fits accept) qs \<and> (\<exists>k. quiet k \<and> l' = l @ k)"
  using assms
proof (induction ps arbitrary: l r l' qs)
  case (Cons p ps)
  define p' where "p' = p\<lparr>po_socket_accept := accept \<and> po_type p = SOCKET_SOCKET \<and> po_can_accept p\<rparr>"
  have fit: "port_fits accept p" "port_fits accept p'" "po_fd p \<ge> 0 \<Longrightarrow> port_fits accept (p'\<lparr>po_watched := True\<rparr>)"
    using Cons.prems(1) by (auto simp: port_fits_def p'_def)
  show ?case
  proof (cases "po_fd p < 0")
    case True
    obtain r1 l1 qs1 where a: "watch_ports n accept l ps = (r1, l1, qs1)" by (rule prod_cases3)
    then show ?thesis using Cons True fit(1) by auto
  next
    case False
    define l1 where "l1 = l @ [Watch_Fd (po_fd p) (n_watch_fd n l (po_fd p))]"
    obtain r2 l2 qs2 where a: "watch_ports n accept l1 ps = (r2, l2, qs2)" by (rule prod_cases3)
    have w: "watch_ports n accept l (p # ps) =
        (if n_watch_fd n l (po_fd p) \<noteq> None then (n_watch_fd n l (po_fd p), l1, p' # ps) else (r2, l2, p'\<lparr>po_watched := True\<rparr> # qs2))"
      using False a unfolding watch_ports.simps Let_def p'_def [symmetric] l1_def [symmetric] by simp
    obtain k where k: "list_all (port_fits accept) qs2" "quiet k" "l2 = l1 @ k"
      using Cons.IH [OF _ a] Cons.prems(1) by auto
    have q: "quiet [Watch_Fd (po_fd p) (n_watch_fd n l (po_fd p))]" by (rule quiet_Cons) simp_all
    show ?thesis
    proof (cases "n_watch_fd n l (po_fd p) \<noteq> None")
      case True
      then have "l' = l1" "qs = p' # ps" using w Cons.prems(2) by simp_all
      then show ?thesis using fit(2) Cons.prems(1) q by (auto simp: l1_def)
    next
      case F: False
      then have "l' = l2" "qs = p'\<lparr>po_watched := True\<rparr> # qs2" using w Cons.prems(2) by simp_all
      then show ?thesis using fit(3) False k quiet_append [OF q k(2)] by (auto simp: l1_def)
    qed
  qed
qed simp

lemma open_ports_form:
  assumes "list_all (port_fits accept) ps" "socket_env_ok n" "open_ports n l ps = (r, l', qs)"
  shows "list_all (port_fits accept) qs \<and> (\<exists>k. quiet k \<and> l' = l @ k)"
  using assms
proof (induction ps arbitrary: l r l' qs)
  case (Cons p ps)
  show ?case
  proof (cases "po_fd p \<ge> 0")
    case True
    obtain r1 l1 qs1 where a: "open_ports n l ps = (r1, l1, qs1)" by (rule prod_cases3)
    then show ?thesis using Cons True by auto
  next
    case False
    define l1 where "l1 = l @ [Open_Fd (n_open n l p)]"
    have q: "quiet [Open_Fd (n_open n l p)]" by (rule quiet_Cons) simp_all
    show ?thesis
    proof (cases "n_open n l p")
      case (Inl x)
      then have "l' = l1" "qs = p # ps" using False Cons.prems(3) by (simp_all add: Let_def l1_def)
      then show ?thesis using Cons.prems(1) q by (auto simp: l1_def)
    next
      case (Inr fd)
      obtain r2 l2 qs2 where a: "open_ports n l1 ps = (r2, l2, qs2)" by (rule prod_cases3)
      have o: "l' = l2" "qs = p\<lparr>po_fd := fd\<rparr> # qs2" using Inr False Cons.prems(3) a by (simp_all add: Let_def l1_def)
      obtain k where k: "list_all (port_fits accept) qs2" "quiet k" "l2 = l1 @ k"
        using Cons.IH [OF _ assms(2) a] Cons.prems(1) by auto
      have "fd \<ge> 0" using Inr assms(2) by (auto simp: socket_env_ok_def)
      then have "port_fits accept (p\<lparr>po_fd := fd\<rparr>)" using Cons.prems(1) by (simp add: port_fits_def)
      then show ?thesis using o k quiet_append [OF q k(2)] by (auto simp: l1_def)
    qed
  qed
qed simp

subsection \<open>The state machine\<close>

definition socket_config :: "(socket_exec_command \<Rightarrow> exec_command list) \<Rightarrow> socket \<Rightarrow> bool" where
  "socket_config cmds s \<longleftrightarrow> so_commands s = cmds \<and> list_all (port_fits (so_accept s)) (so_ports s) \<and>
     (so_accept s \<or> so_service s \<noteq> None) \<and> so_n_connections s \<le> so_max_connections s"

definition socket_settled :: "socket \<Rightarrow> bool" where
  "socket_settled s \<longleftrightarrow>
     (so_state s \<noteq> SOCKET_LISTENING \<longrightarrow> list_all (\<lambda>p. \<not> po_watched p) (so_ports s)) \<and>
     (\<not> keeps_fds (so_state s) \<longrightarrow> list_all (\<lambda>p. po_fd p < 0) (so_ports s))"

definition released :: "socket_state \<Rightarrow> socket_port list \<Rightarrow> socket_port list" where
  "released st ps =
     (let qs = (if st \<noteq> SOCKET_LISTENING then map unwatched ps else ps) in
      if keeps_fds st then qs else map closed qs)"

lemma unwatch_fds_form: "\<exists>l. quiet l \<and> socket_unwatch_fds s = s\<lparr>so_ports := map unwatched (so_ports s), x_log := x_log s @ l\<rparr>"
  using unwatch_ports_form [of "so_ports s"] by (auto simp: socket_unwatch_fds_def)

lemma close_fds_form: "\<exists>l. quiet l \<and> socket_close_fds s = s\<lparr>so_ports := map closed (so_ports s), x_log := x_log s @ l\<rparr>"
  using close_ports_form [of "so_ports s"] by (auto simp: socket_close_fds_def)

lemma release_fds_form:
  "\<exists>l. quiet l \<and> socket_release_fds st s = s\<lparr>so_ports := released st (so_ports s), x_log := x_log s @ l\<rparr>"
proof -
  define s1 where "s1 = (if st \<noteq> SOCKET_LISTENING then socket_unwatch_fds s else s)"
  obtain l where l: "quiet l" "s1 = s\<lparr>so_ports := (if st \<noteq> SOCKET_LISTENING then map unwatched (so_ports s) else so_ports s),
      x_log := x_log s @ l\<rparr>"
  proof (cases "st \<noteq> SOCKET_LISTENING")
    case True
    then show thesis using unwatch_fds_form [of s] that by (auto simp: s1_def)
  next
    case False
    then show thesis using that [of "[]"] by (simp add: s1_def)
  qed
  obtain k where k: "quiet k" "socket_close_fds s1 = s1\<lparr>so_ports := map closed (so_ports s1), x_log := x_log s1 @ k\<rparr>"
    using close_fds_form [of s1] by blast
  show ?thesis
  proof (cases "keeps_fds st")
    case True
    then have "socket_release_fds st s = s1" by (simp add: socket_release_fds_def s1_def)
    then show ?thesis using l True by (auto simp: released_def)
  next
    case False
    then have "socket_release_fds st s = socket_close_fds s1" by (simp add: socket_release_fds_def s1_def)
    then show ?thesis using l k False by (intro exI [of _ "l @ k"]) (auto simp: released_def Let_def)
  qed
qed

lemma socket_release_silent:
  "silent (if socket_busy st then s
           else s\<lparr>x_timer := Timer_Off, cu_control_pid := min 0 (cu_control_pid s),
                  so_control_command := None, so_control_command_id := None\<rparr>) (socket_release st s)"
proof (cases "socket_busy st")
  case False
  obtain l where l: "quiet l" "unit_unwatch_timer s = s\<lparr>x_timer := Timer_Off, x_log := x_log s @ l\<rparr>"
    using unwatch_timer_silent [of s] by (auto simp: silent_def)
  obtain l' where l': "quiet l'" "unwatch_control_pid (unit_unwatch_timer s) =
      (unit_unwatch_timer s)\<lparr>cu_control_pid := min 0 (cu_control_pid (unit_unwatch_timer s)),
         x_log := x_log (unit_unwatch_timer s) @ l'\<rparr>"
    using unwatch_control_pid_silent [of "unit_unwatch_timer s"] by (auto simp: silent_def)
  have "quiet (l @ l')" using l(1) l'(1) by (rule quiet_append)
  then show ?thesis
    using False unfolding socket_release_def socket_unwatch_control_pid_def silent_def l'(2)
    unfolding l(2) by (intro exI [of _ "l @ l'"]) simp
qed (simp add: socket_release_def)

lemma socket_set_state_form:
  "\<exists>l. quiet l \<and> socket_set_state st s =
     (if socket_busy st then s
      else s\<lparr>x_timer := Timer_Off, cu_control_pid := min 0 (cu_control_pid s),
             so_control_command := None, so_control_command_id := None\<rparr>)
       \<lparr>so_state := st, so_ports := released st (so_ports s),
        x_log := x_log s @ l @ [Unit_Notify (socket_state_translation_table (so_state s))
          (socket_state_translation_table st) True]\<rparr>"
proof -
  define b where "b = socket_busy st"
  define s1 where "s1 = socket_release st (s\<lparr>so_state := st\<rparr>)"
  obtain l where l: "quiet l" "s1 =
      (if b then s\<lparr>so_state := st\<rparr>
       else (s\<lparr>so_state := st\<rparr>)\<lparr>x_timer := Timer_Off, cu_control_pid := min 0 (cu_control_pid s),
              so_control_command := None, so_control_command_id := None\<rparr>)\<lparr>x_log := x_log s @ l\<rparr>"
    using socket_release_silent [of st "s\<lparr>so_state := st\<rparr>"]
    unfolding silent_def b_def s1_def by (cases "socket_busy st") auto
  obtain k where k: "quiet k" "socket_release_fds st s1 = s1\<lparr>so_ports := released st (so_ports s1), x_log := x_log s1 @ k\<rparr>"
    using release_fds_form [of st s1] by blast
  show ?thesis
    unfolding socket_set_state_def Let_def b_def [symmetric] s1_def [symmetric] k(2)
    using l k(1) by (intro exI [of _ "l @ k"], cases b) (simp_all add: act_def quiet_append)
qed

lemma released_fits: "list_all (port_fits a) ps \<Longrightarrow> list_all (port_fits a) (released st ps)"
  by (auto simp: released_def list_all_iff port_fits_def unwatched_def closed_def Let_def)

lemma released_settled:
  "list_all (port_fits a) ps \<Longrightarrow> st \<noteq> SOCKET_LISTENING \<Longrightarrow> list_all (\<lambda>p. \<not> po_watched p) (released st ps)"
  "\<not> keeps_fds st \<Longrightarrow> list_all (\<lambda>p. po_fd p < 0) (released st ps)"
  by (auto simp: released_def list_all_iff port_fits_def unwatched_def closed_def Let_def)

lemma socket_set_state_select [simp]:
  "so_state (socket_set_state st s) = st"
  "x_timer (socket_set_state st s) = (if socket_busy st then x_timer s else Timer_Off)"
  "cu_control_pid (socket_set_state st s) = (if socket_busy st then cu_control_pid s else min 0 (cu_control_pid s))"
  "cu_failure (socket_set_state st s) = cu_failure s"
  "so_control_command (socket_set_state st s) = (if socket_busy st then so_control_command s else None)"
  "so_ports (socket_set_state st s) = released st (so_ports s)"
  "so_commands (socket_set_state st s) = so_commands s" "so_accept (socket_set_state st s) = so_accept s"
  "so_service (socket_set_state st s) = so_service s" "so_n_connections (socket_set_state st s) = so_n_connections s"
  "so_max_connections (socket_set_state st s) = so_max_connections s"
  by (rule exE [OF socket_set_state_form [of st s]], cases "socket_busy st", simp, simp)+

lemma socket_set_state_log:
  "\<exists>l. x_log (socket_set_state st s) = x_log s @ l \<and>
     noticed l (socket_state_translation_table (so_state s)) = Some (socket_state_translation_table st)"
  by (rule exE [OF socket_set_state_form [of st s]], cases "socket_busy st") (simp_all add: quiet_def)

lemma socket_frame:
  fixes s s' :: socket
  shows "control_unit.more s' = control_unit.more s \<Longrightarrow> so_state s' = so_state s \<and>
    socket_config cmds s' = socket_config cmds s \<and> socket_settled s' = socket_settled s \<and>
    so_control_command s' = so_control_command s"
  by (cases s, cases s') (simp add: socket_config_def socket_settled_def)

interpretation sck: control_machine so_state socket_busy socket_state_translation_table "socket_config cmds"
  socket_settled so_control_command socket_set_state for cmds
proof (unfold_locales, goal_cases)
  case (1 s' s)
  then show ?case by (rule socket_frame)
next
  case (3 s st)
  then show ?case by (simp add: socket_config_def released_fits)
next
  case (4 s st)
  then show ?case using released_settled(1) [of "so_accept s" "so_ports s" st] released_settled(2) [of st "so_ports s"]
    by (simp add: socket_config_def socket_settled_def)
next
  case (7 st s)
  show ?case by (rule socket_set_state_log)
qed simp_all

subsection \<open>Going down\<close>

lemma socket_busy_states [simp]:
  "socket_busy SOCKET_START_PRE" "socket_busy SOCKET_START_POST" "socket_busy SOCKET_STOP_PRE"
  "socket_busy SOCKET_STOP_PRE_SIGTERM" "socket_busy SOCKET_STOP_PRE_SIGKILL" "socket_busy SOCKET_STOP_POST"
  "socket_busy SOCKET_FINAL_SIGTERM" "socket_busy SOCKET_FINAL_SIGKILL"
  "\<not> socket_busy SOCKET_DEAD" "\<not> socket_busy SOCKET_FAILED" "\<not> socket_busy SOCKET_LISTENING" "\<not> socket_busy SOCKET_RUNNING"
  by (simp_all add: socket_busy_def)

definition socket_phase :: "socket_state \<Rightarrow> nat" where
  "socket_phase st =
     (case st of
        SOCKET_START_PRE \<Rightarrow> 3 | SOCKET_START_POST \<Rightarrow> 2 | SOCKET_STOP_PRE \<Rightarrow> 1 | SOCKET_STOP_PRE_SIGTERM \<Rightarrow> 1
      | SOCKET_STOP_PRE_SIGKILL \<Rightarrow> 1 | _ \<Rightarrow> 0)"

definition socket_sub :: "socket_state \<Rightarrow> nat" where
  "socket_sub st =
     (case st of
        SOCKET_STOP_PRE \<Rightarrow> 2 | SOCKET_STOP_POST \<Rightarrow> 2 | SOCKET_STOP_PRE_SIGTERM \<Rightarrow> 1 | SOCKET_FINAL_SIGTERM \<Rightarrow> 1 | _ \<Rightarrow> 0)"

definition socket_total :: "(socket_exec_command \<Rightarrow> exec_command list) \<Rightarrow> nat" where
  "socket_total cmds =
     length (cmds SOCKET_EXEC_START_PRE) + length (cmds SOCKET_EXEC_START_POST) +
     length (cmds SOCKET_EXEC_STOP_PRE) + length (cmds SOCKET_EXEC_STOP_POST)"

definition socket_left :: "(socket_exec_command \<Rightarrow> exec_command list) \<Rightarrow> socket_command option \<Rightarrow> nat" where
  "socket_left cmds c = (case c of None \<Rightarrow> 0 | Some (i, k) \<Rightarrow> length (cmds i) - Suc k)"

definition socket_rank :: "(socket_exec_command \<Rightarrow> exec_command list) \<Rightarrow> socket \<Rightarrow> nat" where
  "socket_rank cmds s =
     socket_phase (so_state s) * (3 * Suc (socket_total cmds)) + 3 * socket_left cmds (so_control_command s) +
     socket_sub (so_state s)"

lemma socket_left_le: "socket_left cmds c \<le> socket_total cmds"
proof (cases c)
  case (Some ik)
  then show ?thesis by (cases ik; cases "fst ik") (simp_all add: socket_left_def socket_total_def)
qed (simp add: socket_left_def)

lemma socket_phase_le: "socket_phase st \<le> 3" and socket_sub_le: "socket_sub st \<le> 2"
  by (simp_all add: socket_phase_def socket_sub_def split: socket_state.split)

lemma socket_rank_le: "socket_rank cmds s \<le> 12 * Suc (socket_total cmds)"
proof -
  have "socket_phase (so_state s) * (3 * Suc (socket_total cmds)) \<le> 3 * (3 * Suc (socket_total cmds))"
    by (rule mult_le_mono1 [OF socket_phase_le])
  then show ?thesis
    using socket_left_le [of cmds "so_control_command s"] socket_sub_le [of "so_state s"] by (simp add: socket_rank_def)
qed

lemma socket_rank_phase:
  assumes "socket_phase (so_state s') < socket_phase (so_state s)"
  shows "socket_rank cmds s' < socket_rank cmds s"
proof -
  define K where "K = 3 * Suc (socket_total cmds)"
  have "socket_rank cmds s' < Suc (socket_phase (so_state s')) * K"
    using socket_left_le [of cmds "so_control_command s'"] socket_sub_le [of "so_state s'"]
    by (simp add: socket_rank_def K_def)
  also have "\<dots> \<le> socket_phase (so_state s) * K" using assms by (intro mult_le_mono1) simp
  also have "\<dots> \<le> socket_rank cmds s" by (simp add: socket_rank_def K_def)
  finally show ?thesis .
qed

lemma socket_rank_same:
  "so_state s' = so_state s \<Longrightarrow> so_control_command s' = so_control_command s \<Longrightarrow> socket_rank cmds s' = socket_rank cmds s"
  by (simp add: socket_rank_def)

lemma rest_phase: "\<not> socket_busy st \<Longrightarrow> socket_phase st = 0"
  by (cases st) (simp_all add: socket_phase_def)

lemma socket_enter_dead_lands:
  assumes "sck.core cmds s"
  shows "\<exists>st. \<not> socket_busy st \<and> sck.lands cmds st s (socket_enter_dead success s)"
proof -
  define st where "st = (if cu_failure (note_failure success s) then SOCKET_FAILED else SOCKET_DEAD)"
  have "sck.lands cmds st s (socket_set_state st (note_failure success s))"
    by (rule sck.goes_lands [OF sck.goes_failure(1) sck.rest_lands]) (use assms in \<open>simp_all add: sck.goes_failure st_def\<close>)
  moreover have "\<not> socket_busy st" by (simp add: st_def)
  ultimately show ?thesis unfolding socket_enter_dead_def Let_def st_def by blast
qed

lemma socket_signal_form:
  "socket_enter_signal e st success s =
     sck.signalling e (if st = SOCKET_STOP_PRE_SIGTERM \<or> st = SOCKET_FINAL_SIGTERM then cu_kill_signal s else SIGKILL) st
       (\<lambda>success s. if is_stop_pre_signal st then socket_enter_stop_post e success s else socket_enter_dead success s)
       (note_failure success s)"
  by (subst socket_enter_signal.simps) (simp add: sck.signalling_def Let_def)

lemma socket_signal_lands:
  assumes "sck.core cmds s" "socket_busy st"
    and fail: "\<And>b s'. sck.core cmds s' \<Longrightarrow> \<exists>st'. P st' \<and> sck.lands cmds st' s'
      (if is_stop_pre_signal st then socket_enter_stop_post e b s' else socket_enter_dead b s')"
  shows "\<exists>st'. (st' = st \<and> so_control_command (socket_enter_signal e st success s) = so_control_command s \<or> P st') \<and>
    sck.lands cmds st' s (socket_enter_signal e st success s)"
proof -
  define sig where "sig = (if st = SOCKET_STOP_PRE_SIGTERM \<or> st = SOCKET_FINAL_SIGTERM then cu_kill_signal s else SIGKILL)"
  have c: "sck.core cmds (note_failure success s)" "so_control_command (note_failure success s) = so_control_command s"
    using assms(1) sck.goes_failure [where cmds = cmds and s = s and b = success] by (simp_all add: sck.goes_def)
  have "\<exists>st'. (st' = st \<and> so_control_command (socket_enter_signal e st success s) = so_control_command s \<or> P st') \<and>
    sck.lands cmds st' (note_failure success s) (socket_enter_signal e st success s)"
    unfolding socket_signal_form sig_def [symmetric] c(2) [symmetric]
    by (rule sck.signalling_lands [OF c(1) assms(2)]) (rule fail)
  then show ?thesis using sck.goes_lands [OF sck.goes_failure(1)] by blast
qed

lemma socket_final_lands:
  assumes "sck.core cmds s" "st = SOCKET_FINAL_SIGTERM \<or> st = SOCKET_FINAL_SIGKILL"
  shows "\<exists>st'. (st' = st \<and> so_control_command (socket_enter_signal e st success s) = so_control_command s \<or> \<not> socket_busy st') \<and>
    sck.lands cmds st' s (socket_enter_signal e st success s)"
proof (rule socket_signal_lands [OF assms(1)])
  show "socket_busy st" using assms(2) by auto
  have "\<not> is_stop_pre_signal st" using assms(2) by (auto simp: is_stop_pre_signal_def)
  then show "\<exists>st'. \<not> socket_busy st' \<and> sck.lands cmds st' s'
      (if is_stop_pre_signal st then socket_enter_stop_post e b s' else socket_enter_dead b s')"
    if "sck.core cmds s'" for b s'
    using socket_enter_dead_lands [OF that, of b] by simp
qed

lemma socket_prepared:
  assumes "sck.core cmds s"
  shows "sck.heard s (socket_prepare i (note_failure b s))" "sck.core cmds (socket_prepare i (note_failure b s))"
    "so_state (socket_prepare i (note_failure b s)) = so_state s"
proof -
  define s1 where "s1 = socket_unwatch_control_pid (note_failure b s)"
  have c: "sck.core cmds (note_failure b s)" using assms sck.goes_failure by simp
  have g: "sck.goes cmds s s1" "sck.core cmds s1"
    using sck.unwatch_goes [OF c] sck.goes_trans [OF sck.goes_failure(1)] by (simp_all add: s1_def socket_unwatch_control_pid_def)
  have p: "socket_prepare i (note_failure b s) = s1\<lparr>so_control_command_id := Some i, so_control_command := socket_first s1 i\<rparr>"
    by (simp add: socket_prepare_def s1_def Let_def)
  have h: "sck.heard s s1" "so_state s1 = so_state s" using g(1) by (simp_all add: sck.goes_def)
  then show "so_state (socket_prepare i (note_failure b s)) = so_state s" by (simp add: p)
  show "sck.heard s (socket_prepare i (note_failure b s))" using h unfolding p sck.heard_def by simp
  show "sck.core cmds (socket_prepare i (note_failure b s))" using g(2) unfolding p sck.core_def socket_config_def by simp
qed

lemma socket_run_lands:
  assumes "sck.core cmds s" "env_ok e" "socket_busy st"
    and fail: "\<And>s'. sck.core cmds s' \<Longrightarrow> \<exists>st'. P st' \<and> sck.lands cmds st' s' (fail s')"
  shows "\<exists>st'. (st' = st \<or> P st') \<and> sck.lands cmds st' s (socket_run e c st (\<lambda>s. s) fail s)"
proof -
  obtain r s' where sp: "control_spawn e (socket_command s c) s = (r, s')" by (rule prod.exhaust)
  show ?thesis
  proof (rule sck.spawn_cases [OF assms(1,2) sp])
    fix x assume "r = Inl x" "sck.goes cmds s s'" "sck.core cmds s'"
    then show ?thesis using fail [of s'] sck.goes_lands sp by (fastforce simp: socket_run_def socket_spawn_def)
  next
    fix pid assume y: "r = Inr pid" "sck.goes cmds s s'" "x_timer s' = Timer_Armed" "sck.core cmds (s'\<lparr>cu_control_pid := pid\<rparr>)"
    have "sck.lands cmds st s (socket_set_state st (s'\<lparr>cu_control_pid := pid\<rparr>))"
      using sck.goes_lands [OF sck.goes_trans [OF y(2) sck.goes_update(2)] sck.busy_lands [OF y(4) assms(3)]] y(3) by simp
    then show ?thesis using sp y(1) by (auto simp: socket_run_def socket_spawn_def)
  qed
qed

lemma socket_stop_post_lands:
  assumes "sck.core cmds s" "env_ok e"
  shows "\<exists>st. socket_phase st = 0 \<and> sck.lands cmds st s (socket_enter_stop_post e success s)"
proof -
  define s1 where "s1 = socket_prepare SOCKET_EXEC_STOP_POST (note_failure success s)"
  note p = socket_prepared [OF assms(1), of SOCKET_EXEC_STOP_POST success, folded s1_def]
  have final: "\<exists>st. socket_phase st = 0 \<and> sck.lands cmds st s' (socket_enter_signal e SOCKET_FINAL_SIGTERM b s')"
    if "sck.core cmds s'" for s' b
  proof -
    have "socket_phase SOCKET_FINAL_SIGTERM = 0" by (simp add: socket_phase_def)
    then show ?thesis using socket_final_lands [OF that, of SOCKET_FINAL_SIGTERM e b] rest_phase by auto
  qed
  have "\<exists>st. socket_phase st = 0 \<and> sck.lands cmds st s1 (socket_enter_stop_post e success s)"
  proof (cases "so_control_command s1")
    case None
    then show ?thesis using final [OF p(2), of True] by (subst socket_enter_stop_post.simps) (simp add: s1_def Let_def)
  next
    case (Some c)
    define s' where "s' = socket_run e c SOCKET_STOP_POST (\<lambda>s. s) (socket_enter_signal e SOCKET_FINAL_SIGTERM False) s1"
    have "\<exists>st. (st = SOCKET_STOP_POST \<or> socket_phase st = 0) \<and> sck.lands cmds st s1 s'"
      unfolding s'_def by (rule socket_run_lands [OF p(2) assms(2)]) (simp, rule final)
    moreover have "socket_enter_stop_post e success s = s'"
      using Some by (subst socket_enter_stop_post.simps) (simp add: s1_def Let_def s'_def)
    moreover have "socket_phase SOCKET_STOP_POST = 0" by (simp add: socket_phase_def)
    ultimately show ?thesis by auto
  qed
  then show ?thesis using sck.from_lands [OF p(1)] by blast
qed

lemma socket_stop_pre_signal_lands:
  assumes "sck.core cmds s" "env_ok e" "is_stop_pre_signal st"
  shows "\<exists>st'. (st' = st \<and> so_control_command (socket_enter_signal e st success s) = so_control_command s \<or> socket_phase st' = 0) \<and>
    sck.lands cmds st' s (socket_enter_signal e st success s)"
proof (rule socket_signal_lands [OF assms(1)])
  show "socket_busy st" using assms(3) by (auto simp: is_stop_pre_signal_def)
  show "\<exists>st'. socket_phase st' = 0 \<and> sck.lands cmds st' s'
      (if is_stop_pre_signal st then socket_enter_stop_post e b s' else socket_enter_dead b s')"
    if "sck.core cmds s'" for b s'
    using socket_stop_post_lands [OF that assms(2), of b] assms(3) by simp
qed

lemma socket_stop_pre_lands:
  assumes "sck.core cmds s" "env_ok e"
  shows "\<exists>st. socket_phase st \<le> 1 \<and> sck.lands cmds st s (socket_enter_stop_pre e success s)"
proof -
  define s1 where "s1 = socket_prepare SOCKET_EXEC_STOP_PRE (note_failure success s)"
  note p = socket_prepared [OF assms(1), of SOCKET_EXEC_STOP_PRE success, folded s1_def]
  have post: "\<exists>st. socket_phase st \<le> 1 \<and> sck.lands cmds st s' (socket_enter_stop_post e b s')" if "sck.core cmds s'" for s' b
    using socket_stop_post_lands [OF that assms(2), of b] by (metis zero_le)
  have "\<exists>st. socket_phase st \<le> 1 \<and> sck.lands cmds st s1 (socket_enter_stop_pre e success s)"
  proof (cases "so_control_command s1")
    case None
    then show ?thesis using post [OF p(2), of True] by (simp add: socket_enter_stop_pre_def s1_def Let_def)
  next
    case (Some c)
    define s' where "s' = socket_run e c SOCKET_STOP_PRE (\<lambda>s. s) (socket_enter_stop_post e False) s1"
    have "\<exists>st. (st = SOCKET_STOP_PRE \<or> socket_phase st \<le> 1) \<and> sck.lands cmds st s1 s'"
      unfolding s'_def by (rule socket_run_lands [OF p(2) assms(2)]) (simp, rule post)
    moreover have "socket_enter_stop_pre e success s = s'" using Some by (simp add: socket_enter_stop_pre_def s1_def Let_def s'_def)
    moreover have "socket_phase SOCKET_STOP_PRE \<le> 1" by (simp add: socket_phase_def)
    ultimately show ?thesis by auto
  qed
  then show ?thesis using sck.from_lands [OF p(1)] by blast
qed

subsection \<open>Steps that only touch the ports and the service\<close>

definition steady :: "(socket_exec_command \<Rightarrow> exec_command list) \<Rightarrow> socket \<Rightarrow> socket \<Rightarrow> bool" where
  "steady cmds s s' \<longleftrightarrow> sck.goes cmds s s' \<and> x_timer s' = x_timer s \<and> cu_control_pid s' = cu_control_pid s \<and>
     so_accept s' = so_accept s"

lemma steadyD:
  assumes "steady cmds s s'"
  shows "sck.goes cmds s s'" "so_state s' = so_state s" "sck.core cmds s \<Longrightarrow> sck.core cmds s'"
    "so_accept s' = so_accept s" "x_timer s' = x_timer s" "cu_control_pid s' = cu_control_pid s"
    "so_control_command s' = so_control_command s"
  using assms by (simp_all add: steady_def sck.goes_def sck.core_def)

lemma steady_trans: "steady cmds s s' \<Longrightarrow> steady cmds s' s'' \<Longrightarrow> steady cmds s s''"
  unfolding steady_def using sck.goes_trans by metis

lemma steady_refl: "steady cmds s s"
  by (simp add: steady_def sck.goes_def sck.heard_same)

lemma steady_lands: "steady cmds s s1 \<Longrightarrow> sck.lands cmds st s1 s' \<Longrightarrow> sck.lands cmds st s s'"
  using sck.goes_lands steadyD(1) by blast

lemma steady_log:
  assumes "quiet l" "socket_config cmds s \<Longrightarrow> list_all (port_fits (so_accept s)) ps"
  shows "steady cmds s (s\<lparr>so_ports := ps, x_log := x_log s @ l\<rparr>)"
  using assms by (simp add: steady_def sck.goes_def sck.heard_def quiet_def socket_config_def)

lemma steady_act: "(\<And>a. notice x a = Some a) \<Longrightarrow> steady cmds s (act x s)"
  by (simp add: steady_def sck.goes_def sck.heard_def act_def socket_config_def)

lemma close_fds_steady: "steady cmds s (socket_close_fds s)"
proof -
  obtain l where l: "quiet l" "socket_close_fds s = s\<lparr>so_ports := map closed (so_ports s), x_log := x_log s @ l\<rparr>"
    using close_fds_form by blast
  show ?thesis unfolding l(2)
    by (rule steady_log [OF l(1)]) (auto simp: socket_config_def list_all_iff port_fits_def closed_def)
qed

lemma unwatch_fds_steady: "steady cmds s (socket_unwatch_fds s)"
proof -
  obtain l where l: "quiet l" "socket_unwatch_fds s = s\<lparr>so_ports := map unwatched (so_ports s), x_log := x_log s @ l\<rparr>"
    using unwatch_fds_form by blast
  show ?thesis unfolding l(2)
    by (rule steady_log [OF l(1)]) (auto simp: socket_config_def list_all_iff port_fits_def unwatched_def)
qed

lemma watch_fds_steady:
  assumes "sck.core cmds s" "socket_watch_fds n s = (r, s')"
  shows "steady cmds s s'"
proof -
  obtain r1 l ps where w: "watch_ports n (so_accept s) (x_log s) (so_ports s) = (r1, l, ps)" by (rule prod_cases3)
  have fit: "list_all (port_fits (so_accept s)) (so_ports s)" using assms(1) by (simp add: sck.core_def socket_config_def)
  obtain k where k: "list_all (port_fits (so_accept s)) ps" "quiet k" "l = x_log s @ k"
    using watch_ports_form [OF fit w] by blast
  have st: "steady cmds s (s\<lparr>so_ports := ps, x_log := l\<rparr>)" unfolding k(3) by (rule steady_log [OF k(2,1)])
  have "s' = (if r1 = None then s\<lparr>so_ports := ps, x_log := l\<rparr> else socket_unwatch_fds (s\<lparr>so_ports := ps, x_log := l\<rparr>))"
    using assms(2) w by (auto simp: socket_watch_fds_def Let_def)
  then show ?thesis using st steady_trans [OF st unwatch_fds_steady] by simp
qed

lemma instantiate_steady:
  assumes "sck.core cmds s"
  shows "\<exists>r s'. socket_instantiate_service n s = Some (r, s') \<and> steady cmds s s' \<and> so_ports s' = so_ports s \<and>
    so_n_connections s' = so_n_connections s \<and> so_max_connections s' = so_max_connections s"
proof -
  have c: "so_service s \<noteq> None \<or> so_accept s" using assms by (auto simp: sck.core_def socket_config_def)
  have a: "steady cmds s (act (Load_Instance r) s)" "so_ports (act (Load_Instance r) s) = so_ports s"
    "so_n_connections (act (Load_Instance r) s) = so_n_connections s" "so_max_connections (act (Load_Instance r) s) = so_max_connections s" for r
    by (rule steady_act) (simp_all add: act_def)
  have b: "steady cmds s (act (Load_Instance r) (s\<lparr>so_service := Some sv\<rparr>))"
    "so_ports (act (Load_Instance r) (s\<lparr>so_service := Some sv\<rparr>)) = so_ports s"
    "so_n_connections (act (Load_Instance r) (s\<lparr>so_service := Some sv\<rparr>)) = so_n_connections s"
    "so_max_connections (act (Load_Instance r) (s\<lparr>so_service := Some sv\<rparr>)) = so_max_connections s" for r sv
    by (simp_all add: steady_def sck.goes_def sck.heard_def act_def socket_config_def)
  show ?thesis
  proof (cases "so_service s = None")
    case True
    then show ?thesis using c a b by (cases "n_load n (x_log s)") (simp_all add: socket_instantiate_service_def)
  next
    case False
    then show ?thesis using steady_refl by (auto simp: socket_instantiate_service_def)
  qed
qed

lemma open_ports_steady:
  assumes "list_all (port_fits (so_accept s)) (ps @ late)" "socket_env_ok n" "open_ports n (x_log s) late = (r, l, qs)"
  shows "steady cmds s (s\<lparr>so_ports := ps @ qs, x_log := l\<rparr>)"
proof -
  obtain k where "list_all (port_fits (so_accept s)) qs" "quiet k" "l = x_log s @ k"
    using open_ports_form [OF _ assms(2,3), of "so_accept s"] assms(1) by auto
  then show ?thesis using assms(1) steady_log [of k cmds s "ps @ qs"] by simp
qed

lemma open_fds_steady:
  assumes "sck.core cmds s" "socket_env_ok n"
  shows "\<exists>r s'. socket_open_fds n s = Some (r, s') \<and> steady cmds s s'"
proof -
  define early where "early = before_label (so_ports s)"
  define late where "late = drop (length early) (so_ports s)"
  have el: "so_ports s = early @ late"
    unfolding late_def early_def before_label_def by (simp add: dropWhile_eq_drop [symmetric])
  have fit: "list_all (port_fits (so_accept s)) early" "list_all (port_fits (so_accept s)) late"
    using assms(1) el by (simp_all add: sck.core_def socket_config_def)
  obtain r l ps where o: "open_ports n (x_log s) early = (r, l, ps)" by (rule prod_cases3)
  obtain k where k: "list_all (port_fits (so_accept s)) ps" "quiet k" "l = x_log s @ k"
    using open_ports_form [OF fit(1) assms(2) o] by blast
  define s1 where "s1 = s\<lparr>so_ports := ps @ late, x_log := l\<rparr>"
  have st1: "steady cmds s s1" unfolding s1_def k(3) by (rule steady_log [OF k(2)]) (simp add: k(1) fit(2))
  obtain r2 s2 where i: "socket_instantiate_service n s1 = Some (r2, s2)" "steady cmds s1 s2" "so_ports s2 = so_ports s1"
    using instantiate_steady [OF steadyD(3) [OF st1 assms(1)]] by blast
  have st2: "steady cmds s s2" using steady_trans [OF st1 i(2)] .
  obtain r3 l3 qs where o3: "open_ports n (x_log s2) late = (r3, l3, qs)" by (rule prod_cases3)
  have "steady cmds s2 (s2\<lparr>so_ports := ps @ qs, x_log := l3\<rparr>)"
    by (rule open_ports_steady [OF _ assms(2) o3]) (simp add: steadyD(4) [OF st2] k(1) fit(2))
  then have st3: "steady cmds s (s2\<lparr>so_ports := ps @ qs, x_log := l3\<rparr>)" using steady_trans [OF st2] by blast
  note st = st1 st2 st3 steady_trans [OF st1 close_fds_steady] steady_trans [OF st3 close_fds_steady]
  have "socket_open_fds n s \<in> Some ` {(r', s'). steady cmds s s'}"
    unfolding socket_open_fds_def Let_def early_def [symmetric] late_def [symmetric] o prod.case s1_def [symmetric]
    using st i o3 by (cases r; cases "late = []"; cases r2; cases "n_label n (x_log s2)") auto
  then show ?thesis by blast
qed

subsection \<open>Going up\<close>

lemma socket_listening_lands:
  assumes "sck.core cmds s" "env_ok e"
  shows "\<exists>st. socket_phase st \<le> 1 \<and> sck.lands cmds st s (socket_enter_listening e n s)"
proof -
  obtain r s1 where w: "socket_watch_fds n s = (r, s1)" by (rule prod.exhaust)
  have st: "steady cmds s s1" using watch_fds_steady [OF assms(1) w] .
  note c = steadyD(3) [OF st assms(1)]
  have "sck.lands cmds SOCKET_LISTENING s1 (socket_set_state SOCKET_LISTENING s1)" by (rule sck.rest_lands [OF c]) simp
  moreover have "socket_phase SOCKET_LISTENING \<le> 1" by (simp add: socket_phase_def)
  ultimately have "\<exists>st. socket_phase st \<le> 1 \<and> sck.lands cmds st s1 (socket_enter_listening e n s)"
    using socket_stop_pre_lands [OF c assms(2), of False] w by (cases r) (auto simp: socket_enter_listening_def)
  then show ?thesis using steady_lands [OF st] by blast
qed

lemma note_success [simp]: "note_failure True s = s"
  by (cases s) (simp add: note_failure_update)

lemma socket_start_post_lands:
  assumes "sck.core cmds s" "env_ok e" "socket_env_ok n"
  shows "\<exists>s' st. socket_enter_start_post e n s = Some s' \<and> socket_phase st \<le> 2 \<and> sck.lands cmds st s s'"
proof -
  obtain r s1 where o: "socket_open_fds n s = Some (r, s1)" "steady cmds s s1" using open_fds_steady [OF assms(1,3)] by blast
  note c1 = steadyD(3) [OF o(2) assms(1)]
  define s2 where "s2 = socket_prepare SOCKET_EXEC_START_POST s1"
  note p = socket_prepared [OF c1, of SOCKET_EXEC_START_POST True, unfolded note_success, folded s2_def]
  have le: "\<exists>st. socket_phase st \<le> 1 \<and> sck.lands cmds st x y \<Longrightarrow> \<exists>st. socket_phase st \<le> 2 \<and> sck.lands cmds st x y" for x y
    by (meson le_trans one_le_numeral)
  have stop: "\<exists>st. socket_phase st \<le> 2 \<and> sck.lands cmds st x (socket_enter_stop_pre e b x)" if "sck.core cmds x" for x b
    using socket_stop_pre_lands [OF that assms(2)] by (rule le)
  define s' where "s' = (if r \<noteq> None then socket_enter_stop_pre e False s1 else
      case so_control_command s2 of None \<Rightarrow> socket_enter_listening e n s2
      | Some c \<Rightarrow> socket_run e c SOCKET_START_POST (\<lambda>s. s) (socket_enter_stop_pre e False) s2)"
  have s': "socket_enter_start_post e n s = Some s'"
    using o(1) by (simp add: socket_enter_start_post_def s'_def Let_def s2_def split: option.split)
  have "\<exists>st. socket_phase st \<le> 2 \<and> sck.lands cmds st s1 s'"
  proof (cases "r = None")
    case False
    then show ?thesis using stop [OF c1, of False] by (simp add: s'_def)
  next
    case r: True
    have "\<exists>st. socket_phase st \<le> 2 \<and> sck.lands cmds st s2 s'"
    proof (cases "so_control_command s2")
      case None
      then show ?thesis using le [OF socket_listening_lands [OF p(2) assms(2)]] r by (simp add: s'_def)
    next
      case (Some c)
      have "\<exists>st. (st = SOCKET_START_POST \<or> socket_phase st \<le> 2) \<and> sck.lands cmds st s2 s'"
        unfolding s'_def using r Some by (simp add: socket_run_lands [OF p(2) assms(2)] stop)
      moreover have "socket_phase SOCKET_START_POST \<le> 2" by (simp add: socket_phase_def)
      ultimately show ?thesis by auto
    qed
    then show ?thesis using sck.from_lands [OF p(1)] by blast
  qed
  then show ?thesis using s' steady_lands [OF o(2)] by blast
qed

lemma socket_start_pre_lands:
  assumes "sck.core cmds s" "env_ok e" "socket_env_ok n"
  shows "\<exists>s' st. socket_enter_start_pre e n s = Some s' \<and> sck.lands cmds st s s'"
proof -
  define s1 where "s1 = socket_prepare SOCKET_EXEC_START_PRE s"
  note p = socket_prepared [OF assms(1), of SOCKET_EXEC_START_PRE True, unfolded note_success, folded s1_def]
  have "\<exists>s' st. socket_enter_start_pre e n s = Some s' \<and> sck.lands cmds st s1 s'"
  proof (cases "so_control_command s1")
    case None
    then show ?thesis using socket_start_post_lands [OF p(2) assms(2,3)] by (auto simp: socket_enter_start_pre_def s1_def Let_def)
  next
    case (Some c)
    define s' where "s' = socket_run e c SOCKET_START_PRE (\<lambda>s. s) (socket_enter_dead False) s1"
    have "\<exists>st. (st = SOCKET_START_PRE \<or> \<not> socket_busy st) \<and> sck.lands cmds st s1 s'"
      unfolding s'_def by (rule socket_run_lands [OF p(2) assms(2)]) (simp, rule socket_enter_dead_lands)
    moreover have "socket_enter_start_pre e n s = Some s'"
      using Some unfolding socket_enter_start_pre_def s1_def [symmetric] Let_def s'_def
      by (simp add: socket_run_def split: prod.split sum.split)
    ultimately show ?thesis by blast
  qed
  then show ?thesis using sck.from_lands [OF p(1)] by blast
qed

subsection \<open>The handlers\<close>

lemma lower_handled:
  assumes "sck.lands cmds st s s'" "socket_phase st < socket_phase (so_state s)"
  shows "sck.handled cmds (socket_rank cmds) t s s'"
proof -
  have "so_state s' = st" using assms(1) by (simp add: sck.lands_def)
  then have "socket_rank cmds s' < socket_rank cmds s" using socket_rank_phase assms(2) by simp
  then show ?thesis using sck.lands_handled [OF assms(1), of t "socket_rank cmds"] by simp
qed

lemma act_handled:
  assumes "sck.handled cmds (socket_rank cmds) t s s'" "\<And>a. notice x a = Some a"
  shows "sck.handled cmds (socket_rank cmds) t s (act x s')"
proof (rule sck.handled_goes [OF assms(1)])
  have st: "silent s' (act x s')" using assms(2) by (rule silent_act)
  show "sck.goes cmds s' (act x s')" using steadyD(1) [OF steady_act [OF assms(2)]] .
  have "socket_settled (act x s') = socket_settled s'" using sck.settled_silent [OF st] .
  then show "socket_settled (act x s')" using assms(1) by (simp add: sck.handled_def sck.ok_def)
qed (simp_all add: socket_rank_def act_def)

lemma socket_start_handled:
  assumes "sck.ok cmds s" "env_ok e" "socket_env_ok n" "\<not> UNIT_IS_ACTIVE_OR_RELOADING (socket_active_state s)"
  shows "\<exists>r s'. socket_start e n s = Some (r, s') \<and> sck.handled cmds (socket_rank cmds) False s s'"
proof -
  define chk where "chk = (case so_service s of
                None \<Rightarrow> None
              | Some sv \<Rightarrow>
                  if ss_load_state sv \<noteq> UNIT_LOADED then Some ENOENT
                  else if \<not> ss_idle sv then Some EBUSY
                  else if ss_sysv sv then Some ENOENT
                  else None)"
  obtain s' st where s': "socket_enter_start_pre e n (s\<lparr>cu_failure := False\<rparr>) = Some s'" "sck.lands cmds st (s\<lparr>cu_failure := False\<rparr>) s'"
    using socket_start_pre_lands [of cmds "s\<lparr>cu_failure := False\<rparr>" e n] sck.ok_parts(1) [OF assms(1)] assms(2,3) by auto
  have "sck.lands cmds st s s'" using sck.goes_lands [OF sck.goes_update(3) s'(2)] .
  then have wake: "sck.handled cmds (socket_rank cmds) False s s'" if "\<not> socket_busy (so_state s)"
    using sck.wake_handled that by blast
  show ?thesis
    using assms(4) sck.same_handled [OF assms(1)] wake s'(1) unfolding socket_start_def chk_def [symmetric]
    by (cases "so_state s"; cases chk)
      (simp_all add: socket_active_state_def socket_state_translation_table_def UNIT_IS_ACTIVE_OR_RELOADING_def)
qed

lemma socket_stop_handled:
  assumes "sck.ok cmds s" "env_ok e" "\<not> UNIT_IS_INACTIVE_OR_FAILED (socket_active_state s)"
  shows "\<exists>r s'. socket_stop e s = Some (r, s') \<and> sck.handled cmds (socket_rank cmds) False s s'"
proof -
  note c = sck.ok_parts(1) [OF assms(1)]
  have up: "sck.handled cmds (socket_rank cmds) False s (socket_enter_stop_pre e True s)" if "\<not> socket_busy (so_state s)"
    using socket_stop_pre_lands [OF c assms(2), of True] sck.wake_handled that by blast
  have "socket_phase SOCKET_STOP_PRE_SIGTERM = 1" by (simp add: socket_phase_def)
  then have down: "sck.handled cmds (socket_rank cmds) False s (socket_enter_signal e SOCKET_STOP_PRE_SIGTERM True s)"
    if "1 < socket_phase (so_state s)"
    using socket_stop_pre_signal_lands [OF c assms(2), of SOCKET_STOP_PRE_SIGTERM True] lower_handled that
    by (fastforce simp: is_stop_pre_signal_def)
  show ?thesis
    using assms(3) sck.same_handled [OF assms(1)] up down unfolding socket_stop_def
    by (cases "so_state s")
      (simp_all add: socket_active_state_def socket_state_translation_table_def UNIT_IS_INACTIVE_OR_FAILED_def socket_phase_def)
qed

text \<open>Traffic on a listening socket.\<close>

lemma listening_handled:
  assumes ok: "sck.ok cmds s" and st: "so_state s = SOCKET_LISTENING" and x: "steady cmds s x" and e: "env_ok e"
  shows "sck.handled cmds (socket_rank cmds) False s x"
    "sck.handled cmds (socket_rank cmds) False s (socket_enter_stop_pre e b x)"
    "sck.handled cmds (socket_rank cmds) False s (socket_set_state SOCKET_RUNNING x)"
proof -
  note c = steadyD(3) [OF x sck.ok_parts(1) [OF ok]]
  have "socket_settled x" using steadyD(2) [OF x] st by (simp add: socket_settled_def keeps_fds_def)
  then show "sck.handled cmds (socket_rank cmds) False s x"
    using sck.goes_handled [OF ok steadyD(1,5,6) [OF x]] socket_rank_same [OF steadyD(2,7) [OF x]] by simp
  have rest: "\<not> socket_busy (so_state s)" by (simp add: st)
  show "sck.handled cmds (socket_rank cmds) False s (socket_enter_stop_pre e b x)"
    using socket_stop_pre_lands [OF c e, of b] steady_lands [OF x] sck.wake_handled rest by blast
  have "sck.lands cmds SOCKET_RUNNING x (socket_set_state SOCKET_RUNNING x)" by (rule sck.rest_lands [OF c]) simp
  then show "sck.handled cmds (socket_rank cmds) False s (socket_set_state SOCKET_RUNNING x)"
    using steady_lands [OF x] sck.wake_handled rest by blast
qed

lemma socket_running_handled:
  assumes ok: "sck.ok cmds s" and st: "so_state s = SOCKET_LISTENING" and e: "env_ok e"
    and cfd: "cfd \<ge> 0 \<longleftrightarrow> so_accept s"
  shows "\<exists>s'. socket_enter_running e n cfd s = Some s' \<and> sck.handled cmds (socket_rank cmds) False s s'"
proof -
  note H = listening_handled [OF ok st _ e]
  note c = sck.ok_parts(1) [OF ok]
  have act: "sck.handled cmds (socket_rank cmds) False s (act (Close_Fd fd) x)"
    if "sck.handled cmds (socket_rank cmds) False s x" for x fd using that by (rule act_handled) simp
  consider (off) "n_pending_inactive n" "cfd \<ge> 0" | (flush) "n_pending_inactive n" "cfd < 0"
    | (start) "\<not> n_pending_inactive n" "cfd < 0" | (full) "\<not> n_pending_inactive n" "cfd \<ge> 0" "so_n_connections s \<ge> so_max_connections s"
    | (conn) "\<not> n_pending_inactive n" "cfd \<ge> 0" "\<not> so_n_connections s \<ge> so_max_connections s" by linarith
  then show ?thesis
  proof cases
    case off
    then show ?thesis using act [OF H(1) [OF steady_refl]] by (simp add: socket_enter_running_def)
  next
    case flush
    obtain r s1 where w: "socket_watch_fds n (socket_close_fds s) = (r, s1)" by (rule prod.exhaust)
    have s1: "steady cmds s s1"
      using steady_trans [OF close_fds_steady watch_fds_steady [OF steadyD(3) [OF close_fds_steady c] w]] .
    show ?thesis using flush w H(1) [OF s1] H(2) [OF s1, of False] by (cases r) (simp_all add: socket_enter_running_def)
  next
    case start
    define r where "r = e_add_job e (x_log s)"
    have s1: "steady cmds s (act (Add_Start_Job r) s)" by (rule steady_act) simp
    have "so_service s \<noteq> None" using c start(2) cfd by (auto simp: sck.core_def socket_config_def)
    then show ?thesis
      using start H(3) [OF steady_refl] H(2) [OF s1, of False] H(3) [OF s1]
      unfolding socket_enter_running_def Let_def r_def [symmetric]
      by (cases "so_service s"; cases r; cases "n_service_pending n") simp_all
  next
    case full
    then show ?thesis using act [OF H(1) [OF steady_refl]] by (simp add: socket_enter_running_def)
  next
    case conn
    obtain r s1 where i: "socket_instantiate_service n s = Some (r, s1)" "steady cmds s s1"
        "so_n_connections s1 = so_n_connections s" "so_max_connections s1 = so_max_connections s"
      using instantiate_steady [OF c] by blast
    define s2 where "s2 = s1\<lparr>so_service := None, so_n_accepted := so_n_accepted s1 + 1\<rparr>"
    define r2 where "r2 = n_set_socket_fd n (x_log s2)"
    define s3 where "s3 = act (Pass_Fd cfd r2) s2"
    define s4 where "s4 = s3\<lparr>so_n_connections := so_n_connections s3 + 1\<rparr>"
    define r4 where "r4 = e_add_job e (x_log s4)"
    define s5 where "s5 = act (Add_Start_Job r4) s4"
    have "so_accept s1" using steadyD(4) [OF i(2)] cfd conn(2) by simp
    then have "steady cmds s1 s2" by (simp add: s2_def steady_def sck.goes_def sck.heard_same socket_config_def)
    then have a2: "steady cmds s s2" using steady_trans [OF i(2)] by blast
    have a3: "steady cmds s s3" unfolding s3_def by (rule steady_trans [OF a2 steady_act]) simp
    have "so_n_connections s3 < so_max_connections s3" using conn(3) i(3,4) by (simp add: s3_def s2_def act_def not_le)
    then have "so_n_connections s3 + 1 \<le> so_max_connections s3" by (rule inc_le)
    then have "steady cmds s3 s4" by (simp add: s4_def steady_def sck.goes_def sck.heard_same socket_config_def)
    then have a4: "steady cmds s s4" using steady_trans [OF a3] by blast
    have a5: "steady cmds s s5" unfolding s5_def by (rule steady_trans [OF a4 steady_act]) simp
    have a6: "sck.handled cmds (socket_rank cmds) False s (act Dbus_Queue s5)" by (rule act_handled [OF H(1) [OF a5]]) simp
    note h = act [OF H(2) [OF i(2), of False], of cfd] act [OF H(2) [OF a3, of False], of cfd] H(2) [OF a5, of False] a6
    have "socket_enter_running e n cfd s =
        (if r \<noteq> None \<or> n_instance n (x_log s1) \<noteq> None then Some (act (Close_Fd cfd) (socket_enter_stop_pre e False s1))
         else if r2 \<noteq> None then Some (act (Close_Fd cfd) (socket_enter_stop_pre e False s3))
         else Some (if r4 \<noteq> None then socket_enter_stop_pre e False s5 else act Dbus_Queue s5))"
      using conn i(1) unfolding socket_enter_running_def s2_def r2_def s3_def s4_def r4_def s5_def Let_def
      by (cases r; cases "n_instance n (x_log s1)") simp_all
    then show ?thesis using h by simp
  qed
qed

lemma socket_fd_handled:
  assumes ok: "sck.ok cmds s" and e: "env_ok e" and en: "socket_enabled (Ev_Table (Traffic epollin accepts conn)) s"
  shows "\<exists>s'. socket_fd_event e n epollin accepts conn s = Some s' \<and> sck.handled cmds (socket_rank cmds) False s s'"
proof (cases "so_state s = SOCKET_LISTENING")
  case True
  obtain p where p: "p \<in> set (so_ports s)" "po_watched p" "po_socket_accept p = accepts"
    using en by (auto simp: socket_enabled_def)
  have "port_fits (so_accept s) p"
    using p(1) sck.ok_parts(1) [OF ok] by (auto simp: sck.core_def socket_config_def list_all_iff)
  then have a: "so_accept s = accepts" using p by (simp add: port_fits_def)
  have "cfd \<ge> 0" if "conn = Inr cfd" for cfd using en that by (simp add: socket_enabled_def)
  then show ?thesis
    using True a listening_handled(2) [OF ok True steady_refl e, of False]
      socket_running_handled [OF ok True e, of _ n] unfolding socket_fd_event_def
    by (cases epollin; cases accepts; cases conn) simp_all
next
  case False
  then show ?thesis using sck.same_handled [OF ok] by (simp add: socket_fd_event_def)
qed

text \<open>Requests that change neither the state nor the ports.\<close>

lemma settled_same:
  "so_state s' = so_state s \<Longrightarrow> so_ports s' = so_ports s \<Longrightarrow> socket_settled s' = socket_settled s"
  by (simp add: socket_settled_def)

lemma steady_handled:
  assumes "sck.ok cmds s" "steady cmds s s'" "so_ports s' = so_ports s"
  shows "sck.handled cmds (socket_rank cmds) False s s'"
proof -
  have "socket_settled s'" using settled_same [OF steadyD(2) [OF assms(2)] assms(3)] assms(1) by (simp add: sck.ok_def)
  then show ?thesis
    using sck.goes_handled [OF assms(1) steadyD(1,5,6) [OF assms(2)]] socket_rank_same [OF steadyD(2,7) [OF assms(2)]] by simp
qed

lemma socket_connection_handled:
  assumes "sck.ok cmds s" "so_n_connections s > 0"
  shows "\<exists>s'. socket_connection_unref s = Some s' \<and> sck.handled cmds (socket_rank cmds) False s s'"
proof -
  have "so_n_connections s - 1 \<le> so_n_connections s" using assms(2) by (simp add: word_le_nat_alt unat_minus_one)
  then have "steady cmds s (s\<lparr>so_n_connections := so_n_connections s - 1\<rparr>)"
    by (auto simp: steady_def sck.goes_def sck.heard_same socket_config_def)
  from steady_handled [OF assms(1) this] show ?thesis using assms(2) by (simp add: socket_connection_unref_def)
qed

lemma socket_kill_handled:
  assumes "sck.ok cmds s"
  shows "sck.handled cmds (socket_rank cmds) False s (snd (socket_kill e who mode signo s))"
proof -
  have sl: "silent s (snd (socket_kill e who mode signo s))" unfolding socket_kill_def by (rule control_kill_silent)
  note g = sck.goes_silent [OF sl]
  have "socket_settled (snd (socket_kill e who mode signo s))"
    using sck.settled_silent [OF sl] assms by (simp add: sck.ok_def)
  moreover have "socket_rank cmds (snd (socket_kill e who mode signo s)) = socket_rank cmds s"
    using g(1) [of cmds] by (intro socket_rank_same) (simp_all add: sck.goes_def)
  ultimately show ?thesis using sck.goes_handled [OF assms g, of "socket_rank cmds"] by simp
qed

lemma socket_reset_handled:
  assumes "sck.ok cmds s"
  shows "sck.handled cmds (socket_rank cmds) False s (socket_reset_failed s)"
proof -
  define s1 where "s1 = (if so_state s = SOCKET_FAILED then socket_set_state SOCKET_DEAD s else s)"
  have "sck.handled cmds (socket_rank cmds) False s (socket_set_state SOCKET_DEAD s)"
    by (rule sck.rest_handled [OF sck.rest_lands [OF sck.ok_parts(1) [OF assms]]]) simp_all
  then have h: "sck.handled cmds (socket_rank cmds) False s s1" using sck.same_handled [OF assms] by (simp add: s1_def)
  have "sck.handled cmds (socket_rank cmds) False s (s1\<lparr>cu_failure := False\<rparr>)"
  proof (rule sck.handled_goes [OF h sck.goes_update(3)])
    have "socket_settled s1" using h by (simp add: sck.handled_def sck.ok_def)
    then show "socket_settled (s1\<lparr>cu_failure := False\<rparr>)" by (simp add: settled_same [of "s1\<lparr>cu_failure := False\<rparr>" s1])
  qed (simp_all add: socket_rank_def)
  then show ?thesis by (simp add: socket_reset_failed_def s1_def)
qed

lemma socket_service_dead_handled:
  assumes "sck.ok cmds s" "env_ok e"
  shows "sck.handled cmds (socket_rank cmds) False s (socket_notify_service_dead e n s)"
proof (cases "so_state s = SOCKET_RUNNING")
  case True
  then have "\<not> socket_busy (so_state s)" by simp
  then show ?thesis
    using socket_listening_lands [OF sck.ok_parts(1) [OF assms(1)] assms(2), of n] sck.wake_handled True
    by (auto simp: socket_notify_service_dead_def)
next
  case False
  then show ?thesis using sck.same_handled [OF assms(1)] by (simp add: socket_notify_service_dead_def)
qed

subsection \<open>Exits and timeouts\<close>

lemma socket_left_next:
  assumes "so_commands s = cmds" "socket_next s c = Some c'"
  shows "socket_left cmds (Some c') < socket_left cmds (Some c)"
  using assms by (cases c) (auto simp: socket_next_def socket_left_def commands_of_def split: if_splits)

lemma fewer_left_rank:
  assumes "so_state s' = st" "socket_phase st \<le> socket_phase (so_state s)" "socket_sub st \<le> 1 \<or> st = so_state s"
    "socket_left cmds (so_control_command s') < socket_left cmds (so_control_command s)"
  shows "socket_rank cmds s' < socket_rank cmds s"
proof -
  define K where "K = 3 * Suc (socket_total cmds)"
  have "socket_phase st * K \<le> socket_phase (so_state s) * K" using assms(2) by (rule mult_le_mono1)
  moreover have "3 * socket_left cmds (so_control_command s') + 3 \<le> 3 * socket_left cmds (so_control_command s)" using assms(4) by simp
  moreover have "socket_sub st < 3 + socket_sub (so_state s)" using socket_sub_le [of st] by simp
  ultimately show ?thesis unfolding socket_rank_def K_def [symmetric] assms(1) by linarith
qed

lemma socket_run_next_handled:
  assumes core: "sck.core cmds s" and set: "socket_settled s" and e: "env_ok e" and busy: "socket_busy (so_state s)"
    and c: "so_control_command s = Some c" "socket_next s c = Some c'"
  shows "\<exists>s'. socket_run_next e success s = Some s' \<and> sck.handled cmds (socket_rank cmds) False s s'"
proof -
  define s0 where "s0 = socket_unwatch_control_pid (note_failure success s)"
  define s1 where "s1 = s0\<lparr>so_control_command := Some c'\<rparr>"
  have cf: "sck.core cmds (note_failure success s)" using core sck.goes_failure(2) by simp
  note u = sck.unwatch_goes [OF cf, folded socket_unwatch_control_pid_def, folded s0_def]
  have g0: "sck.goes cmds s s0" using sck.goes_trans [OF sck.goes_failure(1) u(1)] .
  have "socket_settled s0"
    using set sck.settled_silent [OF unwatch_control_pid_silent [of "note_failure success s"]]
    by (simp add: s0_def socket_unwatch_control_pid_def note_failure_update socket_settled_def)
  then have set1: "socket_settled s1" by (simp add: s1_def socket_settled_def)
  have h1: "sck.heard s s1" "so_state s1 = so_state s" using g0 by (auto simp: sck.goes_def sck.heard_def s1_def)
  have c1: "sck.core cmds s1" using u(2) by (simp add: s1_def sck.core_def socket_config_def)
  have left: "socket_left cmds (Some c') < socket_left cmds (so_control_command s)"
    using socket_left_next [of s cmds c c'] core c by (simp add: sck.core_def socket_config_def)
  obtain r s2 where sp: "control_spawn e (socket_command s1 c') s1 = (r, s2)" by (rule prod.exhaust)
  have run: "socket_run_next e success s = Some (case r of Inr pid \<Rightarrow> s2\<lparr>cu_control_pid := pid\<rparr>
      | Inl x \<Rightarrow> if so_state s2 = SOCKET_START_POST then socket_enter_stop_pre e False s2
               else if so_state s2 = SOCKET_STOP_POST then socket_enter_dead False s2
               else socket_enter_signal e SOCKET_FINAL_SIGTERM False s2)"
    unfolding socket_run_next_def c(1) bind.bind_lunit c(2) Let_def s0_def [symmetric] s1_def [symmetric] socket_spawn_def sp
    by (cases r) simp_all
  show ?thesis
  proof (rule sck.spawn_cases [OF c1 e sp])
    fix x assume x: "r = Inl x" "sck.goes cmds s1 s2" "sck.core cmds s2"
    have h2: "sck.heard s s2" "so_state s2 = so_state s" "so_control_command s2 = Some c'"
      using x(2) h1 sck.heard_trans by (simp_all add: sck.goes_def s1_def)
    have "sck.handled cmds (socket_rank cmds) False s (socket_enter_stop_pre e False s2)" if "so_state s = SOCKET_START_POST"
    proof -
      obtain st where "socket_phase st \<le> 1" "sck.lands cmds st s (socket_enter_stop_pre e False s2)"
        using socket_stop_pre_lands [OF x(3) e, of False] sck.from_lands [OF h2(1)] by blast
      then show ?thesis using lower_handled that by (fastforce simp: socket_phase_def)
    qed
    moreover have "sck.handled cmds (socket_rank cmds) False s (socket_enter_dead False s2)"
      using socket_enter_dead_lands [OF x(3), of False] sck.from_lands [OF h2(1)] sck.rest_handled by blast
    moreover have "sck.handled cmds (socket_rank cmds) False s (socket_enter_signal e SOCKET_FINAL_SIGTERM False s2)"
    proof -
      define s' where "s' = socket_enter_signal e SOCKET_FINAL_SIGTERM False s2"
      obtain st where l: "st = SOCKET_FINAL_SIGTERM \<and> so_control_command s' = Some c' \<or> \<not> socket_busy st" "sck.lands cmds st s s'"
        using socket_final_lands [OF x(3), of SOCKET_FINAL_SIGTERM e False] sck.from_lands [OF h2(1)] h2(3)
        unfolding s'_def by (metis (full_types))
      have "socket_rank cmds s' < socket_rank cmds s" if f: "st = SOCKET_FINAL_SIGTERM" "so_control_command s' = Some c'"
        using l(2) f left
        by (intro fewer_left_rank [where st = SOCKET_FINAL_SIGTERM]) (simp_all add: sck.lands_def socket_phase_def socket_sub_def)
      then show ?thesis
        using l sck.rest_handled [OF l(2)] sck.lands_handled [OF l(2), of False "socket_rank cmds"] unfolding s'_def by fastforce
    qed
    ultimately show ?thesis using run x(1) h2(2) by simp
  next
    fix pid assume p: "r = Inr pid" "sck.goes cmds s1 s2" "x_timer s2 = Timer_Armed" "sck.core cmds (s2\<lparr>cu_control_pid := pid\<rparr>)"
    define s' where "s' = s2\<lparr>cu_control_pid := pid\<rparr>"
    have h2: "sck.heard s s2" "so_state s2 = so_state s" "so_control_command s2 = Some c'"
      using p(2) h1 sck.heard_trans by (simp_all add: sck.goes_def s1_def)
    have "silent (s1\<lparr>x_timer := Timer_Armed\<rparr>) s2" using control_spawn_runs [OF sp [unfolded p(1)]] by blast
    then have "socket_settled s2" using sck.settled_silent set1 by (fastforce simp: socket_settled_def)
    then have "sck.ok cmds s'" using p(3,4) busy h2(2) by (simp add: sck.ok_def s'_def socket_settled_def)
    moreover have "sck.heard s s'" using h2(1) by (simp add: sck.heard_def s'_def)
    moreover have "socket_rank cmds s' < socket_rank cmds s"
      using left h2 by (intro fewer_left_rank [where st = "so_state s"]) (simp_all add: s'_def)
    ultimately have "sck.handled cmds (socket_rank cmds) False s s'" by (simp add: sck.handled_def)
    then show ?thesis using run p(1) by (simp add: s'_def)
  qed
qed

lemma socket_final_handled:
  assumes core: "sck.core cmds s1" and h: "sck.heard s s1" "so_state s1 = so_state s" and e: "env_ok e" "socket_env_ok n"
    and busy: "socket_busy (so_state s)"
  shows "\<exists>s'. socket_final_sigchld e n success s1 = Some s' \<and> sck.handled cmds (socket_rank cmds) False s s'"
proof -
  have lower: "sck.handled cmds (socket_rank cmds) False s s'"
    if "\<exists>st. socket_phase st \<le> k \<and> sck.lands cmds st s1 s'" "k < socket_phase (so_state s)" for k s'
    using that sck.from_lands [OF h(1)] lower_handled le_less_trans by blast
  have final: "\<exists>st. socket_phase st \<le> 0 \<and> sck.lands cmds st s1 (socket_enter_signal e SOCKET_FINAL_SIGTERM False s1)"
  proof -
    have "socket_phase SOCKET_FINAL_SIGTERM = 0" by (simp add: socket_phase_def)
    then show ?thesis using socket_final_lands [OF core, of SOCKET_FINAL_SIGTERM e False] rest_phase by auto
  qed
  obtain s2 st2 where s2: "socket_enter_start_post e n s1 = Some s2" "\<exists>st. socket_phase st \<le> 2 \<and> sck.lands cmds st s1 s2"
    using socket_start_post_lands [OF core e] by blast
  have post: "\<exists>st. socket_phase st \<le> 0 \<and> sck.lands cmds st s1 (socket_enter_stop_post e success s1)"
    using socket_stop_post_lands [OF core e(1)] by auto
  have dead: "sck.handled cmds (socket_rank cmds) False s (socket_enter_dead success s1)"
    using socket_enter_dead_lands [OF core] sck.from_lands [OF h(1)] sck.rest_handled by blast
  note l = lower [OF s2(2)] lower [OF final] lower [OF socket_listening_lands [OF core e(1), of n]]
    lower [OF socket_stop_pre_lands [OF core e(1), of False]] lower [OF post] dead
  show ?thesis
    using busy l s2(1) h(2) unfolding socket_final_sigchld_def
    by (cases "so_state s"; cases success) (simp_all add: socket_phase_def)
qed

lemma socket_sigchld_handled:
  assumes ok: "sck.ok cmds s" and e: "env_ok e" "socket_env_ok n" and pid: "pid > 0"
  shows "\<exists>s'. socket_sigchld_event e n pid code status s = Some s' \<and> sck.handled cmds (socket_rank cmds) False s s'"
proof (cases "pid = cu_control_pid s")
  case False
  then show ?thesis using sck.same_handled [OF ok] by (simp add: socket_sigchld_event_def)
next
  case True
  have busy: "socket_busy (so_state s)" using sck.ok_parts(3) [OF ok] pid True by simp
  define success where "success \<longleftrightarrow> is_clean_exit code status \<or>
    (case so_control_command s of None \<Rightarrow> False | Some c \<Rightarrow> c_ignore (socket_command s c))"
  define s3 where "s3 = (case so_control_command s of
      None \<Rightarrow> s\<lparr>cu_control_pid := 0\<rparr>
    | Some c \<Rightarrow> s\<lparr>cu_control_pid := 0, so_command_status := (so_command_status s)
        (c := exec_status_exit (e_now e (x_log s)) pid code status (so_command_status s c))\<rparr>)
    \<lparr>cu_failure := cu_failure s \<or> \<not> success\<rparr>"
  define s4 where "s4 = s3\<lparr>so_control_command := None, so_control_command_id := None\<rparr>"
  have unf: "socket_sigchld_event e n pid code status s = map_option (act Dbus_Queue)
      (if success \<and> (case so_control_command s of None \<Rightarrow> False | Some c \<Rightarrow> socket_next s3 c \<noteq> None)
       then socket_run_next e success s3 else socket_final_sigchld e n success s4)"
    using True by (cases "so_control_command s")
      (simp_all add: socket_sigchld_event_def success_def s3_def s4_def Let_def socket_command_def commands_of_def)
  have c3: "sck.core cmds s3" "sck.heard s s3" "so_state s3 = so_state s" "so_control_command s3 = so_control_command s" "socket_settled s3"
    using sck.ok_parts(1) [OF ok] ok
    by (cases "so_control_command s";
        simp add: s3_def sck.core_def socket_config_def sck.heard_same sck.ok_def socket_settled_def)+
  have c4: "sck.core cmds s4" "sck.heard s s4" "so_state s4 = so_state s"
    using c3 by (simp_all add: s4_def sck.core_def socket_config_def sck.heard_def)
  have "\<exists>s'. (if success \<and> (case so_control_command s of None \<Rightarrow> False | Some c \<Rightarrow> socket_next s3 c \<noteq> None)
       then socket_run_next e success s3 else socket_final_sigchld e n success s4) = Some s' \<and>
      sck.handled cmds (socket_rank cmds) False s s'"
  proof (cases "success \<and> (case so_control_command s of None \<Rightarrow> False | Some c \<Rightarrow> socket_next s3 c \<noteq> None)")
    case next': True
    then obtain c c' where c: "so_control_command s3 = Some c" "socket_next s3 c = Some c'"
      using c3(4) by (auto split: option.splits)
    obtain s' where s': "socket_run_next e success s3 = Some s'" "sck.handled cmds (socket_rank cmds) False s3 s'"
      using socket_run_next_handled [OF c3(1,5) e(1) _ c] busy c3(3) by auto
    have "sck.handled cmds (socket_rank cmds) False s s'"
      using sck.handled_from [OF s'(2) c3(2,3) socket_rank_same [OF c3(3,4)]] .
    then show ?thesis using next' s'(1) by simp
  next
    case last: False
    show ?thesis using socket_final_handled [OF c4 e busy, of success] by (simp only: if_not_P [OF last])
  qed
  then obtain s' where s': "socket_sigchld_event e n pid code status s = Some (act Dbus_Queue s')"
    "sck.handled cmds (socket_rank cmds) False s s'" unfolding unf by auto
  have "sck.handled cmds (socket_rank cmds) False s (act Dbus_Queue s')" by (rule act_handled [OF s'(2)]) simp
  then show ?thesis using s'(1) by blast
qed

lemma signal_handled:
  assumes "sck.lands cmds st' s s'" "st' = st \<and> so_control_command s' = so_control_command s \<or> socket_phase st' < socket_phase (so_state s) \<or> \<not> socket_busy st'"
    "socket_phase st = socket_phase (so_state s)" "socket_sub st < socket_sub (so_state s)"
  shows "sck.handled cmds (socket_rank cmds) True s s'"
proof -
  have "so_state s' = st'" using assms(1) by (simp add: sck.lands_def)
  then have "socket_rank cmds s' < socket_rank cmds s" if "st' = st" "so_control_command s' = so_control_command s"
    using that assms(3,4) by (simp add: socket_rank_def)
  then show ?thesis
    using assms(2) sck.lands_handled [OF assms(1), of True "socket_rank cmds"] lower_handled [OF assms(1)]
      sck.rest_handled [OF assms(1)] by auto
qed

lemma socket_timer_handled:
  assumes ok: "sck.ok cmds s" and e: "env_ok e" and armed: "x_timer s = Timer_Armed"
  shows "\<exists>s'. socket_timer_event e (s\<lparr>x_timer := Timer_Elapsed\<rparr>) = Some s' \<and> sck.handled cmds (socket_rank cmds) True s s'"
proof -
  define s1 where "s1 = s\<lparr>x_timer := Timer_Elapsed\<rparr>"
  have busy: "socket_busy (so_state s)" using sck.ok_parts(4) [OF ok armed] .
  have h: "sck.heard s s1" by (simp add: s1_def sck.heard_same)
  have c: "sck.core cmds s1" "so_state s1 = so_state s" "so_control_command s1 = so_control_command s" "cu_send_sigkill s1 = cu_send_sigkill s"
    using sck.ok_parts(1) [OF ok] by (simp_all add: s1_def sck.core_def socket_config_def)
  have lower: "sck.handled cmds (socket_rank cmds) True s s'"
    if "\<exists>st. socket_phase st \<le> k \<and> sck.lands cmds st s1 s'" "k < socket_phase (so_state s)" for k s'
    using that sck.from_lands [OF h] lower_handled le_less_trans by blast
  have dead: "sck.handled cmds (socket_rank cmds) True s (socket_enter_dead False s1)"
    using socket_enter_dead_lands [OF c(1)] sck.from_lands [OF h] sck.rest_handled by blast
  have final: "sck.handled cmds (socket_rank cmds) True s (socket_enter_signal e st False s1)"
    if fs: "st = SOCKET_FINAL_SIGTERM \<or> st = SOCKET_FINAL_SIGKILL"
      "0 < socket_phase (so_state s) \<or> socket_sub st < socket_sub (so_state s)" for st
  proof -
    have z: "socket_phase st = 0" using fs(1) by (auto simp: socket_phase_def)
    obtain st' where l: "st' = st \<and> so_control_command (socket_enter_signal e st False s1) = so_control_command s1 \<or> \<not> socket_busy st'"
        "sck.lands cmds st' s (socket_enter_signal e st False s1)"
      using socket_final_lands [OF c(1) fs(1), of e False] sck.from_lands [OF h] by blast
    show ?thesis
    proof (cases "0 < socket_phase (so_state s)")
      case True
      have "socket_phase st' = 0" using l(1) z rest_phase by auto
      then show ?thesis using lower_handled [OF l(2)] True by simp
    next
      case False
      then show ?thesis using signal_handled [OF l(2), of st] l(1) z fs(2) c(3) by auto
    qed
  qed
  have pre: "sck.handled cmds (socket_rank cmds) True s (socket_enter_signal e st False s1)"
    if ps: "is_stop_pre_signal st" "socket_phase (so_state s) = 1" "socket_sub st < socket_sub (so_state s)" for st
  proof -
    have z: "socket_phase st = 1" using ps(1) by (auto simp: socket_phase_def is_stop_pre_signal_def)
    obtain st' where l: "st' = st \<and> so_control_command (socket_enter_signal e st False s1) = so_control_command s1 \<or> socket_phase st' = 0"
        "sck.lands cmds st' s (socket_enter_signal e st False s1)"
      using socket_stop_pre_signal_lands [OF c(1) e ps(1), of False] sck.from_lands [OF h] by blast
    then show ?thesis using signal_handled [OF l(2), of st] z ps(2,3) c(3) by auto
  qed
  note l = lower [OF socket_stop_pre_lands [OF c(1) e, of False]]
    lower [where k = 0 and s' = "socket_enter_stop_post e False s1"] dead final pre
  have post: "\<exists>st. socket_phase st \<le> 0 \<and> sck.lands cmds st s1 (socket_enter_stop_post e False s1)"
    using socket_stop_post_lands [OF c(1) e] by auto
  show ?thesis
    using busy l post c(2,4) unfolding socket_timer_event_def s1_def [symmetric]
    by (cases "so_state s"; cases "cu_send_sigkill s")
      (simp_all add: socket_phase_def socket_sub_def is_stop_pre_signal_def)
qed

lemma socket_dispatch_handled:
  assumes "sck.ok cmds s" "env_ok e" "socket_env_ok n" "socket_enabled ev s"
  shows "\<exists>s'. socket_dispatch e n ev s = Some s' \<and> sck.handled cmds (socket_rank cmds) (ev = Ev_Timer) s s'"
proof (cases ev)
  case Ev_Start
  then show ?thesis using socket_start_handled [OF assms(1-3)] assms(4) by (auto simp: socket_dispatch_def socket_enabled_def)
next
  case Ev_Stop
  then show ?thesis using socket_stop_handled [OF assms(1,2)] assms(4) by (auto simp: socket_dispatch_def socket_enabled_def)
next
  case Ev_Reload
  then show ?thesis using assms(4) by (simp add: socket_enabled_def)
next
  case Ev_Reset_Failed
  then show ?thesis using socket_reset_handled [OF assms(1)] by (simp add: socket_dispatch_def)
next
  case (Ev_Kill who mode signo)
  then show ?thesis using socket_kill_handled [OF assms(1)] by (simp add: socket_dispatch_def)
next
  case (Ev_Sigchld pid code status)
  then show ?thesis using socket_sigchld_handled [OF assms(1-3)] assms(4) by (simp add: socket_dispatch_def socket_enabled_def)
next
  case Ev_Timer
  then show ?thesis using socket_timer_handled [OF assms(1,2)] assms(4) by (simp add: socket_dispatch_def socket_enabled_def)
next
  case (Ev_Table x)
  show ?thesis
  proof (cases x)
    case (Traffic epollin accepts conn)
    then show ?thesis using socket_fd_handled [OF assms(1,2)] assms(4) Ev_Table by (simp add: socket_dispatch_def)
  next
    case Service_Dead
    then show ?thesis using socket_service_dead_handled [OF assms(1,2)] Ev_Table by (simp add: socket_dispatch_def)
  next
    case Connection_Closed
    then show ?thesis using socket_connection_handled [OF assms(1)] assms(4) Ev_Table by (simp add: socket_dispatch_def socket_enabled_def)
  next
    case (Service_Changes sv)
    have "steady cmds s (s\<lparr>so_service := map_option (\<lambda>_. sv) (so_service s)\<rparr>)"
      by (simp add: steady_def sck.goes_def sck.heard_same socket_config_def)
    then show ?thesis using steady_handled [OF assms(1)] Ev_Table Service_Changes by (simp add: socket_dispatch_def)
  qed
qed

end
