(* ===== verification/Socket_Properties.thy ===== *)
theory Socket_Properties
  imports Socket_Ok
begin

section \<open>Socket units: the properties\<close>








subsection \<open>A sample socket\<close>










subsection \<open>The claims\<close>





end
