(* ===== verification/Strv_Correct.thy ===== *)
theory Strv_Correct
  imports Strv
begin

section \<open>Words, environments and their reference definitions\<close>

text \<open>
  What \<open>strv.c\<close> and the word iterators compute, against reference definitions: \<open>pieces\<close> cuts a
  string at every separator, \<open>env_of\<close> reads an environment block as a map in which a later
  entry overrides an earlier one, and \<open>expand\<close> describes the substitution of \<open>${NAME}\<close> by
  structural recursion instead of the three-state scanner.
\<close>

subsection \<open>Splitting at separators\<close>

fun pieces :: "string \<Rightarrow> string \<Rightarrow> string list" where
  "pieces sep [] = [[]]"
| "pieces sep (c # s) =
     (if c \<in> set sep then [] # pieces sep s
      else (case pieces sep s of [] \<Rightarrow> [[c]] | p # ps \<Rightarrow> (c # p) # ps))"

abbreviation nonempty :: "string list \<Rightarrow> string list" where
  "nonempty \<equiv> filter (\<lambda>w. w \<noteq> [])"

lemma pieces_word:
  "set w \<inter> set sep = {} \<Longrightarrow> pieces sep (w @ t) = (w @ hd (pieces sep t)) # tl (pieces sep t)"
proof (induction w)
  case Nil
  then show ?case by (cases t) (auto split: list.splits)
qed auto

lemma pieces_skip: "nonempty (pieces sep (dropWhile (\<lambda>c. c \<in> set sep) s)) = nonempty (pieces sep s)"
  by (induction s) auto

lemma pieces_sep_end: "t = [] \<or> hd t \<in> set sep \<Longrightarrow> hd (pieces sep t) = [] \<and> nonempty (tl (pieces sep t)) = nonempty (pieces sep t)"
  by (cases t) auto

lemma foreach_word_pieces:
  "foreach_word sep s = nonempty (pieces sep s) @ (if s \<noteq> [] \<and> last s \<in> set sep then [[]] else [])"
proof (induction sep s rule: foreach_word.induct)
  case (1 sep s)
  define cur where cur: "cur = dropWhile (\<lambda>c. c \<in> set sep) s"
  define w t where wt: "w = takeWhile (\<lambda>c. c \<notin> set sep) cur" "t = dropWhile (\<lambda>c. c \<notin> set sep) cur"
  show ?case
  proof (cases "s = []")
    case True
    then show ?thesis by (simp add: foreach_word.simps split_c_def)
  next
    case False
    have sc: "split_c sep s = Some (w, t)"
      using False by (simp add: split_c_def strspn_def strcspn_def Let_def wt cur
          flip: takeWhile_eq_take dropWhile_eq_drop)
    have step: "foreach_word sep s = w # foreach_word sep t"
      using sc by (simp add: foreach_word.simps [of sep s])
    have curwt: "cur = w @ t" and w: "set w \<inter> set sep = {}" by (auto simp: wt dest: set_takeWhileD)
    have t: "t = [] \<or> hd t \<in> set sep" unfolding wt by (metis hd_dropWhile)
    have ne: "nonempty (pieces sep s) = nonempty (pieces sep cur)" by (simp add: cur pieces_skip)
    have IH: "foreach_word sep t = nonempty (pieces sep t) @ (if t \<noteq> [] \<and> last t \<in> set sep then [[]] else [])"
      using 1 [OF sc] by simp
    show ?thesis
    proof (cases "cur = []")
      case True
      then have "set s \<subseteq> set sep" by (auto simp: cur)
      then have "last s \<in> set sep" using False by auto
      then show ?thesis using True False curwt ne step by (simp add: foreach_word.simps [of sep "[]"] split_c_def)
    next
      case cne: False
      then have "hd cur \<notin> set sep" unfolding cur by (metis (full_types) hd_dropWhile)
      then have w0: "w \<noteq> []" using cne by (cases cur) (auto simp: wt)
      have ls: "last s = last cur" unfolding cur using cne cur by (metis dropWhile_eq_drop last_drop length_greater_0_conv length_drop zero_less_diff)
      have "last w \<notin> set sep" using w w0 by (auto simp: disjoint_iff)
      then have "(s \<noteq> [] \<and> last s \<in> set sep) = (t \<noteq> [] \<and> last t \<in> set sep)"
        using ls False curwt w0 by (cases "t = []") auto
      moreover have "nonempty (pieces sep cur) = w # nonempty (pieces sep t)"
        using pieces_word [OF w] pieces_sep_end [OF t] w0 by (simp add: curwt)
      ultimately show ?thesis using step IH ne by simp
    qed
  qed
qed

lemma strv_join_Cons: "r \<noteq> [] \<Longrightarrow> strv_join_loop sep r l = r @ concat (map (\<lambda>s. sep @ s) l)"
  by (induction l arbitrary: r) auto

lemma pieces_joined:
  "list_all (\<lambda>s. c \<notin> set s) (w # l) \<Longrightarrow> pieces [c] (w @ concat (map (\<lambda>s. c # s) l)) = w # l"
proof (induction l arbitrary: w)
  case Nil
  then show ?case using pieces_word [of w "[c]" "[]"] by simp
qed (auto simp: pieces_word)

subsection \<open>Quoted words\<close>

lemma cunescape_escaped_append:
  "cunescape_loop (length (cescape s) + n) (cescape s @ t) = map_option ((@) s) (cunescape_loop n t)"
  by (induction s) (simp_all add: cunescape_escaped add.assoc option.map_comp comp_def option.map_ident)

lemma cunescape_total: "n \<le> length s \<Longrightarrow> \<exists>r. cunescape_loop n s = Some r"
proof (induction n s rule: cunescape_loop.induct)
  case (3 n c s)
  then show ?case by (cases s) (auto simp: Let_def split: option.splits)
qed auto

lemma whitespace_chars [simp]: "CHR 0x22 \<notin> set WHITESPACE" "CHR '' '' \<in> set WHITESPACE"
  by (simp_all add: WHITESPACE_def)

definition quote_word :: "string \<Rightarrow> string" where
  "quote_word w = CHR 0x22 # cescape w @ [CHR 0x22]"

lemma digit_not_special: "octchar x \<noteq> CHR 0x22" "octchar x \<noteq> backslash"
  using octchar_digit [of x] by (auto simp: backslash_def)

lemma word_end_escaped:
  "word_end (\<lambda>c. c = CHR 0x22) False (cescape_char c @ s) =
     length (cescape_char c) + word_end (\<lambda>c. c = CHR 0x22) False s"
  by (simp add: cescape_char_def digit_not_special)

lemma word_end_cescape:
  "word_end (\<lambda>c. c = CHR 0x22) False (cescape w @ CHR 0x22 # s) = length (cescape w)"
  by (induction w) (simp_all add: word_end_escaped, simp add: backslash_def)

lemma split_quoted_word:
  "sp = [] \<or> sp = '' '' \<Longrightarrow>
     split_quoted (sp @ quote_word w @ s) = Some (cescape w @ CHR 0x22 # s, length (cescape w), s)"
  by (elim disjE) (simp_all add: split_quoted_def quote_word_def strspn_def Let_def word_end_cescape)

lemma split_quoted_words:
  "sp = [] \<or> sp = '' '' \<Longrightarrow>
     unescape_words (foreach_word_quoted (sp @ quote_word w @ concat (map (\<lambda>x. '' '' @ quote_word x) l))) =
       Some (w # l)"
proof (induction l arbitrary: w sp)
  case Nil
  then show ?case
    using cunescape_escaped_append [of w 0]
    by (subst foreach_word_quoted.simps, subst split_quoted_word)
       (simp_all add: foreach_word_quoted.simps [of "[]"] split_quoted_def cunescape_length_def)
next
  case (Cons x l)
  from Cons.prems Cons.IH [of "'' ''" x] show ?case
    using cunescape_escaped_append [of w 0]
    by (subst foreach_word_quoted.simps, subst split_quoted_word) (simp_all add: cunescape_length_def)
qed

text \<open>
  The buffer of \<open>cunescape_length\<close> has room for \<open>length\<close> bytes.  That is enough for every word
  \<open>split_quoted\<close> finds, because a word never ends between a backslash and the byte it escapes.
\<close>

lemma hex_not_stop:
  "0 \<le> unhexchar c \<Longrightarrow> c \<notin> set WHITESPACE \<and> c \<noteq> backslash \<and> c \<noteq> CHR 0x22 \<and> c \<noteq> CHR 0x27"
  by (auto simp: WHITESPACE_def backslash_def unhexchar_def schar_def)

lemma oct_hex: "\<not> unoctchar c < 0 \<Longrightarrow> 0 \<le> unhexchar c"
  by (auto simp: unhexchar_def unoctchar_def split: if_splits)

definition word_stop :: "(char \<Rightarrow> bool) \<Rightarrow> bool" where
  "word_stop stop \<longleftrightarrow> (\<forall>c. stop c \<longrightarrow> c \<in> set WHITESPACE \<or> c = CHR 0x22 \<or> c = CHR 0x27)"

lemma word_end_hex:
  assumes "word_stop stop" "0 \<le> unhexchar (chr_at t 0)" "0 \<le> unhexchar (chr_at t 1)"
  shows "word_end stop False t = Suc (Suc (word_end stop False (drop 2 t)))"
proof -
  have nul: "unhexchar (CHR 0x00) = - 1" by (simp add: unhexchar_def schar_def)
  obtain a b u where t: "t = a # b # u"
    using assms(2,3) nul by (cases t; cases "tl t") (auto simp: chr_at_def)
  then have "\<not> stop a" "\<not> stop b" "a \<noteq> backslash" "b \<noteq> backslash"
    using assms hex_not_stop [of a] hex_not_stop [of b] by (auto simp: word_stop_def)
  then show ?thesis by (simp add: t numeral_2_eq_2)
qed

lemma cunescape_fits:
  assumes stop: "word_stop stop"
  shows "cunescape_loop (word_end stop False s) s = Some r \<Longrightarrow> length r \<le> word_end stop False s"
proof (induction s arbitrary: r rule: length_induct)
  case (1 s)
  show ?case
  proof (cases "\<exists>d t. s = backslash # d # t")
    case False
    then consider "s = []" | "s = [backslash]" | c u where "s = c # u" "c \<noteq> backslash"
      by (metis list.exhaust)
    then show ?thesis
    proof cases
      case (3 c u)
      then show ?thesis using 1(2) 1(1) [rule_format, of u] by (auto split: if_splits)
    qed (use 1(2) in auto)
  next
    case True
    then obtain d t where s: "s = backslash # d # t" by blast
    let ?h = "0 \<le> unhexchar (chr_at t 0) \<and> 0 \<le> unhexchar (chr_at t 1)"
    have h: "?h \<Longrightarrow> word_end stop False t = Suc (Suc (word_end stop False (drop 2 t)))"
      using word_end_hex [OF stop] by blast
    have o: "\<not> (unoctchar (chr_at t 0) < 0 \<or> unoctchar (chr_at t 1) < 0) \<Longrightarrow> ?h"
      using oct_hex by blast
    have ih: "cunescape_loop (word_end stop False t) t = Some x \<Longrightarrow> length x \<le> word_end stop False t"
      "cunescape_loop (word_end stop False (drop 2 t)) (drop 2 t) = Some x \<Longrightarrow> length x \<le> word_end stop False (drop 2 t)" for x
      using 1(1) by (auto simp: s)
    show ?thesis
    proof (cases ?h)
      case True
      note e = h [OF True]
      have "cunescape_loop (Suc (Suc (word_end stop False (drop 2 t)))) t = Some x \<Longrightarrow>
            length x \<le> Suc (Suc (word_end stop False (drop 2 t)))"
        "cunescape_loop (word_end stop False (drop 2 t)) (drop 2 t) = Some x \<Longrightarrow>
            length x \<le> Suc (Suc (Suc (word_end stop False (drop 2 t))))" for x
        using ih(1) [of x] ih(2) [of x] e by simp_all
      then show ?thesis using 1(2)
        by (auto simp: s e Let_def split: option.splits if_splits)
    next
      case False
      then show ?thesis using 1(2) ih(1) o
        by (auto simp: s Let_def not_le split: option.splits if_splits)
    qed
  qed
qed
subsection \<open>Environments as maps\<close>

definition env_key :: "string \<Rightarrow> string" where
  "env_key a = takeWhile (\<lambda>c. c \<noteq> CHR ''='') a"

definition env_val :: "string \<Rightarrow> string" where
  "env_val a = drop (length (env_key a) + 1) a"

definition wf_entry :: "string \<Rightarrow> bool" where
  "wf_entry a \<longleftrightarrow> CHR ''='' \<in> set a"

definition env_of :: "string list \<Rightarrow> string \<rightharpoonup> string" where
  "env_of l = foldl (\<lambda>m a. m(env_key a \<mapsto> env_val a)) Map.empty l"

definition env_map :: "string list \<Rightarrow> string \<rightharpoonup> string" where
  "env_map l = map_of (map (\<lambda>a. (env_key a, env_val a)) l)"

lemma wf_entry_eq: "wf_entry a \<Longrightarrow> a = env_key a @ CHR ''='' # env_val a"
proof (induction a)
  case (Cons c a)
  then show ?case by (cases "c = CHR ''=''") (auto simp: wf_entry_def env_key_def env_val_def)
qed (simp add: wf_entry_def)

lemma chr_at_append [simp]: "chr_at (k @ c # v) (length k) = c"
  by (simp add: chr_at_def)

lemma key_no_eq: "CHR ''='' \<notin> set (env_key a)"
  by (auto simp: env_key_def dest: set_takeWhileD)

lemma wf_entry_make [simp]:
  "CHR ''='' \<notin> set k \<Longrightarrow> wf_entry (k @ CHR ''='' # v)"
  "CHR ''='' \<notin> set k \<Longrightarrow> env_key (k @ CHR ''='' # v) = k"
  "CHR ''='' \<notin> set k \<Longrightarrow> env_val (k @ CHR ''='' # v) = v"
proof -
  assume k: "CHR ''='' \<notin> set k"
  show "wf_entry (k @ CHR ''='' # v)" by (simp add: wf_entry_def)
  from k show *: "env_key (k @ CHR ''='' # v) = k"
    unfolding env_key_def by (subst takeWhile_append2) auto
  show "env_val (k @ CHR ''='' # v) = v" by (simp add: env_val_def *)
qed

lemma key_length: "wf_entry a \<Longrightarrow> env_key_length a = Suc (length (env_key a))"
proof -
  assume a: "wf_entry a"
  have "strcspn a ''='' = length (env_key a)" by (simp add: strcspn_def env_key_def)
  moreover have "chr_at a (length (env_key a)) = CHR ''=''"
    by (subst wf_entry_eq [OF a]) (rule chr_at_append)
  ultimately show ?thesis by (simp add: env_key_length_def)
qed

lemma key_prefix: "CHR ''='' \<notin> set k \<Longrightarrow>
    take (length k) j = k \<and> chr_at j (length k) = CHR ''='' \<longleftrightarrow> wf_entry j \<and> env_key j = k"
proof
  assume k: "CHR ''='' \<notin> set k" and j: "take (length k) j = k \<and> chr_at j (length k) = CHR ''=''"
  then have "length k < length j" "j ! length k = CHR ''=''" by (auto simp: chr_at_def split: if_splits)
  then have "j = k @ CHR ''='' # drop (Suc (length k)) j"
    using j by (metis id_take_nth_drop)
  then show "wf_entry j \<and> env_key j = k" using wf_entry_make [OF k] by metis
next
  assume "CHR ''='' \<notin> set k" and j: "wf_entry j \<and> env_key j = k"
  then have "j = k @ CHR ''='' # env_val j" using wf_entry_eq by blast
  then obtain v where v: "j = k @ CHR ''='' # v" by blast
  show "take (length k) j = k \<and> chr_at j (length k) = CHR ''=''" unfolding v by simp
qed

lemma strneq_key:
  assumes "wf_entry a"
  shows "strneq j a (env_key_length a) \<longleftrightarrow> wf_entry j \<and> env_key j = env_key a"
proof -
  let ?k = "env_key a"
  have "take (Suc (length ?k)) a = ?k @ ''=''"
    by (subst wf_entry_eq [OF assms]) simp
  then have "strneq j a (env_key_length a) \<longleftrightarrow> take (Suc (length ?k)) j = ?k @ ''=''"
    by (simp add: strneq_def key_length [OF assms])
  also have "\<dots> \<longleftrightarrow> take (length ?k) j = ?k \<and> chr_at j (length ?k) = CHR ''=''"
  proof (cases "length ?k < length j")
    case True
    then show ?thesis by (simp add: take_Suc_conv_app_nth chr_at_def)
  next
    case False
    then show ?thesis by (auto simp: chr_at_def dest: arg_cong [where f = length])
  qed
  finally show ?thesis using key_prefix [OF key_no_eq] by simp
qed

lemma env_map_put: "wf_entry a \<Longrightarrow> list_all wf_entry r \<Longrightarrow>
    env_map (env_put r a) = (env_map r)(env_key a \<mapsto> env_val a) \<and> list_all wf_entry (env_put r a)"
  by (induction r) (auto simp: env_map_def strneq_key fun_eq_iff)

lemma env_keys_put: "wf_entry a \<Longrightarrow> list_all wf_entry r \<Longrightarrow> distinct (map env_key r) \<Longrightarrow>
    distinct (map env_key (env_put r a)) \<and> set (map env_key (env_put r a)) = insert (env_key a) (set (map env_key r))"
  by (induction r) (auto simp: strneq_key)

lemma env_of_snoc: "env_of (l @ [a]) = (env_of l)(env_key a \<mapsto> env_val a)"
  by (simp add: env_of_def)

lemma env_of_Nil [simp]: "env_of [] = Map.empty"
  by (simp add: env_of_def)

definition wf_block :: "string list \<Rightarrow> bool" where
  "wf_block r \<longleftrightarrow> list_all wf_entry r \<and> distinct (map env_key r)"

lemma env_puts: "list_all wf_entry l \<Longrightarrow> wf_block r \<Longrightarrow>
    wf_block (foldl env_put r l) \<and> env_map (foldl env_put r l) = env_map r ++ env_of l"
proof (induction l rule: rev_induct)
  case (snoc a l)
  have "env_map r ++ env_of (l @ [a]) = (env_map r ++ env_of l)(env_key a \<mapsto> env_val a)"
    by (simp only: env_of_snoc map_add_upd)
  then show ?case
    using snoc env_map_put [of a "foldl env_put r l"] env_keys_put [of a "foldl env_put r l"]
    by (simp add: wf_block_def)
qed simp

lemma strv_env_get_map:
  "CHR ''='' \<notin> set k \<Longrightarrow> list_all wf_entry r \<Longrightarrow> strv_env_get (Some r) k = env_map r k"
proof (induction r)
  case (Cons j r)
  then show ?case
    using key_prefix [OF Cons.prems(1), of j]
    by (auto simp: strv_env_get_def strv_env_get_with_length_def strv_items_def strneq_def env_map_def env_val_def)
qed (simp add: strv_env_get_def strv_env_get_with_length_def strv_items_def env_map_def)

lemma env_merge_map:
  "list_all (\<lambda>l. list_all wf_entry (strv_items l)) ls \<Longrightarrow> wf_block r \<Longrightarrow>
     wf_block (foldl env_append r ls) \<and>
     env_map (foldl env_append r ls) = foldl (++) (env_map r) (map (\<lambda>l. env_of (strv_items l)) ls)"
proof (induction ls arbitrary: r)
  case (Cons l ls)
  then show ?case using env_puts [of "strv_items l" r] by (simp add: env_append_def)
qed simp

subsection \<open>Substitution\<close>

definition env_value :: "strv \<Rightarrow> string \<Rightarrow> string" where
  "env_value env name = (case strv_env_get env name of None \<Rightarrow> [] | Some t \<Rightarrow> t)"

function expand :: "strv \<Rightarrow> string \<Rightarrow> string" where
  "expand env [] = []"
| "expand env (c # s) =
     (if c \<noteq> CHR ''$'' then c # expand env s
      else case s of
        [] \<Rightarrow> [c]
      | d # t \<Rightarrow>
          if d = CHR 0x7B then
            (case strchr t (CHR 0x7D) of
               Some i \<Rightarrow> env_value env (take i t) @ expand env (drop (i + 1) t)
             | None \<Rightarrow> c # s)
          else if d = CHR ''$'' then c # expand env t
          else c # d # expand env t)"
  by pat_completeness auto
termination
  by (relation "measure (length \<circ> snd)") auto

definition result_so_far :: "string option \<Rightarrow> string" where
  "result_so_far r = (case r of None \<Rightarrow> [] | Some x \<Rightarrow> x)"

lemma strnappend_so_far: "strnappend r (Some x) b = result_so_far r @ take b x"
  by (cases r) (simp_all add: strnappend_def result_so_far_def)

lemma result_so_far_Some [simp]: "result_so_far (Some x) = x"
  by (simp add: result_so_far_def)

lemma env_get_prefix: "k = length name \<Longrightarrow> strv_env_get_with_length env (name @ rest) k = strv_env_get env name"
  by (simp add: strv_env_get_def strv_env_get_with_length_def strneq_def)

lemma replace_env_loop_expand:
  assumes "fmt = pre @ w @ cs" "word = length pre" "e = length (pre @ w)"
  shows "st = WORD \<Longrightarrow> replace_env_loop fmt env cs e st word r = result_so_far r @ w @ expand env cs"
    and "st = CURLY \<Longrightarrow> w = v @ ''$'' \<Longrightarrow>
      replace_env_loop fmt env cs e st word r = result_so_far r @ v @ expand env (CHR ''$'' # cs)"
    and "st = VARIABLE \<Longrightarrow> w = CHR ''$'' # CHR 0x7B # name \<Longrightarrow>
      replace_env_loop fmt env cs e st word r =
        result_so_far r @ (case strchr cs (CHR 0x7D) of
          Some i \<Rightarrow> env_value env (name @ take i cs) @ expand env (drop (i + 1) cs) | None \<Rightarrow> w @ cs)"
  using assms
proof (induction cs arbitrary: pre w e st word r v name)
  case Nil
  {
    case 1
    then show ?case by (simp add: strnappend_so_far)
  next
    case 2
    then show ?case by (simp add: strnappend_so_far)
  next
    case 3
    then show ?case by (simp add: strnappend_so_far)
  }
next
  case (Cons c cs)
  {
    case 1
    then show ?case
      using Cons.IH(1) [of WORD pre "w @ [c]"] Cons.IH(2) [of CURLY "w @ [c]" w pre] by auto
  next
    case 2
    show ?case
    proof (cases "c = CHR 0x7B")
      case True
      then show ?thesis using 2
          Cons.IH(3) [of VARIABLE "''$'' @ [c]" "[]" "pre @ v"]
        by (auto simp: strnappend_so_far split: option.splits)
    next
      case False
      then show ?thesis using 2 Cons.IH(1) [of WORD pre "w @ [c]"] Cons.IH(1) [of WORD "pre @ w @ [c]" "[]"]
        by (auto simp: strnappend_so_far)
    qed
  next
    case 3
    show ?case
    proof (cases "c = CHR 0x7D")
      case True
      then show ?thesis using 3 Cons.IH(1) [of WORD "pre @ w @ [c]" "[]"]
        by (auto simp: Let_def env_get_prefix env_value_def strappend_def strnappend_so_far)
    next
      case False
      then show ?thesis using 3 Cons.IH(3) [of VARIABLE "w @ [c]" "name @ [c]" pre]
        by (auto split: option.splits)
    qed
  }
qed

lemma replace_env_expand: "replace_env fmt env = expand env fmt"
  unfolding replace_env_def using replace_env_loop_expand(1) [of fmt "[]" "[]" fmt 0 0 WORD env None]
  by (simp add: result_so_far_def)

subsection \<open>Nul-separated buffers and duplicates\<close>

lemma parse_nulstr_cons: "no_nul x \<Longrightarrow> parse_nulstr_loop (x @ CHR 0x00 # s) = x # parse_nulstr_loop s"
  by (subst parse_nulstr_loop.simps) (simp add: no_nul_def strchr_first)

lemma parse_nulstr_concat:
  "list_all no_nul xs \<Longrightarrow> parse_nulstr_loop (concat (map (\<lambda>x. x @ [CHR 0x00]) xs)) = xs"
  by (induction xs) (simp_all add: parse_nulstr_cons, simp add: parse_nulstr_loop.simps)

lemma parse_nulstr_count:
  "length (parse_nulstr_loop s) =
     length (filter (\<lambda>b. b = CHR 0x00) s) + (if s \<noteq> [] \<and> last s \<noteq> CHR 0x00 then 1 else 0)"
proof (induction s rule: parse_nulstr_loop.induct)
  case (1 p)
  show ?case
  proof (cases "CHR 0x00 \<in> set p")
    case True
    then obtain x s where p: "p = x @ CHR 0x00 # s" "CHR 0x00 \<notin> set x" using split_list_first by metis
    then have "filter (\<lambda>b. b = CHR 0x00) x = []" by (auto simp: filter_empty_conv)
    then show ?thesis using 1 [of "length x"] p
      by (subst parse_nulstr_loop.simps) (auto simp: strchr_first)
  next
    case False
    then have "strchr p (CHR 0x00) = None" by (simp add: strchr_None_iff)
    moreover have "filter (\<lambda>b. b = CHR 0x00) p = []" using False by (auto simp: filter_empty_conv)
    moreover have "p \<noteq> [] \<Longrightarrow> last p \<noteq> CHR 0x00" using False last_in_set by metis
    ultimately show ?thesis by (subst parse_nulstr_loop.simps) auto
  qed
qed

lemma remdups_snoc: "remdups (xs @ [i]) = remdups (filter (\<lambda>x. x \<noteq> i) xs) @ [i]"
  by (induction xs) auto

lemma strv_uniq_loop_remdups: "strv_uniq_loop l = rev (remdups (rev l))"
  by (induction l rule: strv_uniq_loop.induct)
     (simp_all add: strv_remove_loop_filter remdups_snoc rev_filter)

end
