(* ===== verification/Parse_Correct.thy ===== *)
theory Parse_Correct
  imports Util_Parse
begin

section \<open>Printing and parsing agree\<close>

text \<open>
  Decimal printing followed by \<open>strtoll\<close>, and \<open>format_timespan\<close> followed by
  \<open>parse_usec\<close>.  \<open>span_text\<close> is the text of a time span without a buffer; every unit of
  \<open>format_timespan\<close> is one that \<open>parse_usec\<close> reads back (\<open>unit_ok\<close>), and the text of any 64-bit
  number of microseconds is shorter than the \<open>FORMAT_TIMESPAN_MAX\<close> bytes the callers provide.
\<close>

subsection \<open>Decimal numbers\<close>

lemma decchar_cases: "decchar n \<in> set ''0123456789''"
proof -
  have "n mod 10 < 10" by simp
  then have "n mod 10 = 0 \<or> n mod 10 = 1 \<or> n mod 10 = 2 \<or> n mod 10 = 3 \<or> n mod 10 = 4 \<or> n mod 10 = 5 \<or>
      n mod 10 = 6 \<or> n mod 10 = 7 \<or> n mod 10 = 8 \<or> n mod 10 = 9" by arith
  then show ?thesis unfolding decchar_def by (elim disjE) (simp_all add: char_of_def bit_0)
qed

lemma digit_value_decchar [simp]: "digit_value (decchar n) = n mod 10"
proof -
  have "n mod 10 < 10" by simp
  then have "n mod 10 \<le> 9" by arith
  then show ?thesis by (simp add: decchar_def digit_value_def Let_def)
qed

lemma digits_value_append: "digits_value b a (xs @ ys) = digits_value b (digits_value b a xs) ys"
  by (induction xs arbitrary: a) auto

lemma dec_string_value [simp]: "digits_value 10 0 (dec_string n) = n"
proof (induction n rule: dec_string.induct)
  case (1 n)
  then show ?case by (subst dec_string.simps) (auto simp: digits_value_append)
qed

lemma dec_string_digits: "set (dec_string n) \<subseteq> set ''0123456789''"
proof (induction n rule: dec_string.induct)
  case (1 n)
  then show ?case using decchar_cases [of n] by (subst dec_string.simps) auto
qed

lemma dec_string_nonempty [simp]: "dec_string n \<noteq> []"
  by (subst dec_string.simps) auto

lemma dec_string_length: "n < 10 ^ k \<Longrightarrow> 0 < k \<Longrightarrow> length (dec_string n) \<le> k"
proof (induction n arbitrary: k rule: dec_string.induct)
  case (1 n)
  show ?case
  proof (cases "n < 10")
    case True
    then show ?thesis using 1 by (subst dec_string.simps) simp
  next
    case False
    then obtain j where k: "k = Suc j" "0 < j" using 1(2,3) by (cases k; cases "k - 1") auto
    then have "n div 10 < 10 ^ j" using 1(2) by (simp add: less_mult_imp_div_less mult.commute)
    then show ?thesis using 1(1) [of j] k False by (subst dec_string.simps) simp
  qed
qed

lemma digit_facts:
  "c \<in> set ''0123456789'' \<Longrightarrow> digit_value c < 10 \<and> \<not> isspace c \<and> c \<noteq> CHR ''-'' \<and> c \<noteq> CHR ''+''"
  by (auto simp: digit_value_def isspace_def)

lemma takeWhile_digits: "set xs \<subseteq> {c. P c} \<Longrightarrow> rest = [] \<or> \<not> P (hd rest) \<Longrightarrow> takeWhile P (xs @ rest) = xs"
  by (induction xs) (auto simp: takeWhile_eq_Nil_iff)

lemma scan_int_dec:
  assumes "sp = [] \<or> sp = '' ''" "rest = [] \<or> 10 \<le> digit_value (hd rest)"
  shows "scan_int 10 (sp @ dec_string n @ rest) = Some (False, n, rest)"
proof -
  obtain d ds where d: "dec_string n = d # ds" by (cases "dec_string n") auto
  have dig: "digit_value c < 10 \<and> \<not> isspace c \<and> c \<noteq> CHR ''-'' \<and> c \<noteq> CHR ''+''" if "c \<in> set (dec_string n)" for c
    by (rule digit_facts [OF subsetD [OF dec_string_digits that]])
  have "dropWhile isspace (sp @ dec_string n @ rest) = dec_string n @ rest"
    using assms(1) dig [of d] d by (auto simp: isspace_def)
  moreover have "scan_sign (dec_string n @ rest) = (False, dec_string n @ rest)"
    using dig [of d] d by (auto simp: scan_sign_def)
  moreover have "takeWhile (\<lambda>c. digit_value c < 10) (dec_string n @ rest) = dec_string n"
    using dig assms(2) by (intro takeWhile_digits) (auto simp: not_less)
  ultimately show ?thesis by (simp add: scan_int_def scan_base_def Let_def)
qed

lemma strtoll_dec:
  "sp = [] \<or> sp = '' '' \<Longrightarrow> rest = [] \<or> 10 \<le> digit_value (hd rest) \<Longrightarrow> n < 2 ^ 63 \<Longrightarrow>
     strtoll 10 (sp @ dec_string n @ rest) = (int n, rest, None)"
  by (simp add: strtoll_def scan_int_dec)

subsection \<open>Time spans\<close>

primrec span_text :: "(string \<times> nat) list \<Rightarrow> bool \<Rightarrow> nat \<Rightarrow> string" where
  "span_text [] b n = []"
| "span_text (entry # table) b n =
     (case entry of (suf, u) \<Rightarrow>
        if n < u then span_text table b n
        else (if b then '' '' else []) @ dec_string (n div u) @ suf @ span_text table True (n mod u))"

lemma format_timespan_loop_text:
  "length (span_text (map (\<lambda>(s, u). (s, unat u)) table) (out \<noteq> []) (unat t)) < l \<Longrightarrow>
     format_timespan_loop table out l t =
       Some (out @ span_text (map (\<lambda>(s, u). (s, unat u)) table) (out \<noteq> []) (unat t))"
proof (induction table arbitrary: out l t)
  case (Cons entry table)
  obtain suf u where e: "entry = (suf, u)" by (cases entry)
  show ?case
  proof (cases "t < u")
    case True
    then show ?thesis using Cons by (simp add: e word_less_nat_alt)
  next
    case False
    define x where "x = (if out \<noteq> [] then '' '' else []) @ dec_string (unat (t div u)) @ suf"
    have x: "x \<noteq> []" by (simp add: x_def)
    have tx: "span_text (map (\<lambda>(s, u). (s, unat u)) (entry # table)) (out \<noteq> []) (unat t) =
        x @ span_text (map (\<lambda>(s, u). (s, unat u)) table) (out @ x \<noteq> []) (unat (t mod u))"
      using False x by (simp add: e x_def word_less_nat_alt unat_div unat_mod)
    then have len: "length x < l" and rest: "length (span_text (map (\<lambda>(s, u). (s, unat u)) table) (out @ x \<noteq> []) (unat (t mod u))) < l - length x"
      using Cons.prems by auto
    then show ?thesis
      using Cons.IH [OF rest] len tx False x by (simp add: e Let_def flip: x_def) (cases x; simp)
  qed
qed simp


definition span_units :: "(string \<times> nat) list" where
  "span_units = [(''w'', 604800000000), (''d'', 86400000000), (''h'', 3600000000), (''min'', 60000000),
     (''s'', 1000000), (''ms'', 1000), (''us'', 1)]"

lemma span_units_table: "map (\<lambda>(s, u). (s, unat u)) format_timespan_table = span_units"
  by (simp add: format_timespan_table_def span_units_def)

text \<open>A unit whose suffix \<open>parse_usec\<close> reads as the same unit.\<close>

definition unit_ok :: "string \<times> nat \<Rightarrow> bool" where
  "unit_ok e \<longleftrightarrow> 0 < snd e \<and> fst e \<noteq> [] \<and> 10 \<le> digit_value (hd (fst e)) \<and> hd (fst e) \<notin> set WHITESPACE \<and>
     (\<forall>rest. rest = [] \<or> hd rest = CHR '' '' \<longrightarrow>
        find_suffix parse_usec_table (fst e @ rest) = Some (fst e, of_nat (snd e)))"

lemma startswith_prefix: "startswith s p \<longleftrightarrow> prefix p s"
  by (auto simp: startswith_def Let_def prefix_def) (metis append_take_drop_id)

lemma find_suffix_Cons: "find_suffix ((s, u) # t) e = (if prefix s e then Some (s, u) else find_suffix t e)"
  by (simp add: find_suffix_def startswith_prefix)

lemma unit_suffix_ok:
  assumes "rest = [] \<or> hd rest = CHR '' ''"
  shows "find_suffix parse_usec_table (''w'' @ rest) = Some (''w'', 604800000000)"
    "find_suffix parse_usec_table (''d'' @ rest) = Some (''d'', 86400000000)"
    "find_suffix parse_usec_table (''h'' @ rest) = Some (''h'', 3600000000)"
    "find_suffix parse_usec_table (''min'' @ rest) = Some (''min'', 60000000)"
    "find_suffix parse_usec_table (''s'' @ rest) = Some (''s'', 1000000)"
    "find_suffix parse_usec_table (''ms'' @ rest) = Some (''ms'', 1000)"
    "find_suffix parse_usec_table (''us'' @ rest) = Some (''us'', 1)"
  using assms by (cases rest; simp add: parse_usec_table_def find_suffix_Cons)+

lemma span_units_ok: "list_all unit_ok span_units"
  by (simp add: span_units_def unit_ok_def unit_suffix_ok [simplified] digit_value_def WHITESPACE_def Let_def)

lemma span_text_head: "span_text table True n = [] \<or> hd (span_text table True n) = CHR '' ''"
proof (induction table)
  case (Cons entry table)
  then show ?case by (cases entry) simp
qed simp

lemma span_text_Nil:
  "table \<noteq> [] \<Longrightarrow> snd (last table) = 1 \<Longrightarrow> span_text table b n = [] \<Longrightarrow> n = 0"
proof (induction table)
  case (Cons entry table)
  then show ?case by (cases entry; cases "table = []") (simp_all split: if_splits)
qed simp

lemma span_text_zero: "list_all unit_ok table \<Longrightarrow> span_text table b 0 = []"
proof (induction table)
  case (Cons entry table)
  then show ?case by (cases entry) (simp add: unit_ok_def)
qed simp

lemma parse_one_unit:
  assumes "unit_ok (suf, u)" "q < 2 ^ 63" "rest = [] \<or> hd rest = CHR '' ''" "sp = [] \<or> sp = '' ''"
  shows "parse_usec_loop (sp @ dec_string q @ suf @ rest) r =
     (if rest = [] then Inr (r + of_nat q * of_nat u) else parse_usec_loop rest (r + of_nat q * of_nat u))"
proof -
  obtain c cs where suf: "suf = c # cs" "10 \<le> digit_value c" "c \<notin> set WHITESPACE"
    using assms(1) by (cases suf) (auto simp: unit_ok_def)
  have "strtoll 10 (sp @ dec_string q @ (suf @ rest)) = (int q, suf @ rest, None)"
    using assms(2,4) suf by (intro strtoll_dec) auto
  moreover have "strspn (suf @ rest) WHITESPACE = 0" using suf by (simp add: strspn_def)
  moreover have "find_suffix parse_usec_table (suf @ rest) = Some (suf, of_nat u)"
    using assms(1,3) by (auto simp: unit_ok_def)
  moreover have "suf @ rest \<noteq> sp @ dec_string q @ suf @ rest"
    by (metis append_Nil append_same_eq append_assoc append_is_Nil_conv dec_string_nonempty)
  ultimately show ?thesis
    by (subst parse_usec_loop.simps) (simp add: Let_def of_int_of_nat_eq)
qed

lemma parse_span_text:
  assumes "list_all unit_ok table" "table \<noteq> []" "snd (last table) = 1" "0 < n"
    and "n < snd (hd table) * 2 ^ 63" "list_all (\<lambda>e. snd e \<le> 2 ^ 63) table"
  shows "parse_usec_loop (span_text table b n) r = Inr (r + of_nat n)"
  using assms
proof (induction table arbitrary: b n r)
  case (Cons entry table)
  obtain suf u where e: "entry = (suf, u)" by (cases entry)
  have u: "0 < u" "u \<le> 2 ^ 63" "unit_ok (suf, u)" using Cons.prems e by (auto simp: unit_ok_def)
  have next_fits: "m < snd (hd table) * 2 ^ 63" if "m < u" "table \<noteq> []" for m
  proof -
    have "0 < snd (hd table)" using that Cons.prems(1) by (cases table) (auto simp: unit_ok_def)
    then show ?thesis using that(1) u(2) by (cases "snd (hd table)") auto
  qed
  show ?case
  proof (cases "n < u")
    case True
    then have "table \<noteq> []" using Cons.prems e by auto
    then show ?thesis using Cons True e next_fits by auto
  next
    case False
    define rest where "rest = span_text table True (n mod u)"
    have n: "of_nat n = of_nat (n div u) * of_nat u + (of_nat (n mod u) :: 64 word)"
      by (simp flip: of_nat_mult of_nat_add)
    have "n div u < 2 ^ 63" using Cons.prems(5) e by (simp add: less_mult_imp_div_less mult.commute)
    then have step: "parse_usec_loop (span_text (entry # table) b n) r =
        (if rest = [] then Inr (r + of_nat (n div u) * of_nat u)
         else parse_usec_loop rest (r + of_nat (n div u) * of_nat u))"
      using parse_one_unit [of suf u "n div u" rest "if b then '' '' else []" r] u False
        span_text_head [of table "n mod u"] by (simp add: e rest_def)
    show ?thesis
    proof (cases "rest = []")
      case True
      have "n mod u = 0"
      proof (cases "table = []")
        case True
        then show ?thesis using Cons.prems e by simp
      next
        case False
        then show ?thesis using span_text_Nil [of table True "n mod u"] True Cons.prems by (simp add: rest_def)
      qed
      then show ?thesis using step True n by simp
    next
      case rne: False
      then have "table \<noteq> []" by (auto simp: rest_def)
      moreover have "0 < n mod u"
        using rne span_text_zero [of table True] Cons.prems(1) by (cases "n mod u = 0") (auto simp: rest_def)
      ultimately have "parse_usec_loop rest (r + of_nat (n div u) * of_nat u) =
          Inr (r + of_nat (n div u) * of_nat u + of_nat (n mod u))"
        unfolding rest_def using Cons.IH [of "n mod u"] Cons.prems next_fits [of "n mod u"] u(1) by auto
      then show ?thesis using step rne n by (simp add: add.assoc)
    qed
  qed
qed simp

lemma span_text_step:
  assumes "\<And>b m. m < u \<Longrightarrow> length (span_text table b m) \<le> k" "n < u * 10 ^ d" "0 < d" "0 < u"
  shows "length (span_text ((suf, u) # table) b n) \<le> 1 + d + length suf + k"
proof (cases "n < u")
  case False
  have "n div u < 10 ^ d" using assms(2) by (simp add: less_mult_imp_div_less mult.commute)
  then show ?thesis
    using dec_string_length [of "n div u" d] assms(1) [of "n mod u" True] assms(3,4) False by simp
qed (use assms(1) [of n b] in simp)

lemma span_text_fits: "n < 2 ^ 64 \<Longrightarrow> length (span_text span_units b n) < 64"
proof -
  have 1: "length (span_text [(''us'', 1)] b m) \<le> 6" if "m < 1000" for b m
    using span_text_step [of 1 "[]" 0 m 3 "''us''" b] that by simp
  have 2: "length (span_text [(''ms'', 1000), (''us'', 1)] b m) \<le> 12" if "m < 1000000" for b m
    using span_text_step [of 1000 "[(''us'', 1)]" 6 m 3 "''ms''" b] that 1 by simp
  have 3: "length (span_text [(''s'', 1000000), (''ms'', 1000), (''us'', 1)] b m) \<le> 16" if "m < 60000000" for b m
    using span_text_step [of 1000000 _ 12 m 2 "''s''" b, OF 2] that by simp
  have 4: "length (span_text [(''min'', 60000000), (''s'', 1000000), (''ms'', 1000), (''us'', 1)] b m) \<le> 22"
    if "m < 3600000000" for b m
    using span_text_step [of 60000000 _ 16 m 2 "''min''" b, OF 3] that by simp
  have 5: "length (span_text [(''h'', 3600000000), (''min'', 60000000), (''s'', 1000000), (''ms'', 1000), (''us'', 1)] b m) \<le> 26"
    if "m < 86400000000" for b m
    using span_text_step [of 3600000000 _ 22 m 2 "''h''" b, OF 4] that by simp
  have 6: "length (span_text [(''d'', 86400000000), (''h'', 3600000000), (''min'', 60000000), (''s'', 1000000), (''ms'', 1000), (''us'', 1)] b m) \<le> 29"
    if "m < 604800000000" for b m
    using span_text_step [of 86400000000 _ 26 m 1 "''d''" b, OF 5] that by simp
  assume "n < 2 ^ 64"
  then show ?thesis
    unfolding span_units_def using span_text_step [of 604800000000 _ 29 n 8 "''w''" b, OF 6] by simp
qed

lemma parse_usec_zero: "parse_usec ''0'' = Inr 0"
  by (simp add: parse_usec_def parse_usec_loop.simps strtoll_def scan_int_def scan_sign_def scan_base_def isspace_def
       digit_value_def strspn_def find_suffix_def parse_usec_table_def startswith_def Let_def)

lemma format_parse_span:
  assumes "t \<noteq> - 1" "64 \<le> l"
  shows "\<exists>s. format_timespan l t = Some (Some s) \<and> parse_usec s = Inr t"
proof (cases "t = 0")
  case True
  then show ?thesis using assms parse_usec_zero by (cases l) (auto simp: format_timespan_def)
next
  case False
  let ?s = "span_text span_units False (unat t)"
  have "length ?s < 64" using span_text_fits unsigned_less [of t, where 'a = nat] by simp
  then have "format_timespan_loop format_timespan_table [] l t = Some ?s"
    using assms(2) format_timespan_loop_text [of format_timespan_table "[]" t l] by (simp add: span_units_table)
  moreover have "span_units \<noteq> []" "snd (last span_units) = 1" "unat t < snd (hd span_units) * 2 ^ 63"
    "list_all (\<lambda>e. snd e \<le> 2 ^ 63) span_units" "0 < unat t"
    using unsigned_less [of t, where 'a = nat] False by (simp_all add: span_units_def unat_gt_0)
  then have "parse_usec ?s = Inr t"
    using parse_span_text [OF span_units_ok, of "unat t" False 0] by (simp add: parse_usec_def)
  ultimately show ?thesis using assms False by (simp add: format_timespan_def)
qed

end
