(* ===== verification/Text_Properties.thy ===== *)
theory Text_Properties
  imports Strv_Correct Unit_Name Parse_Correct String_Tables
begin

section \<open>Properties of the text layer\<close>

text \<open>
  The properties of escaping, words, environments, paths, unit names, time spans and string tables,
  each with a concrete instance where it has hypotheses.
\<close>

subsection \<open>Escaping\<close>

text \<open>
  C-style escaping is reversible: \<open>cunescape\<close> gives back the argument of \<open>cescape\<close>, and,
  as the comment on \<open>xescape\<close> promises, of \<open>xescape\<close> with any set of extra characters; both
  results fit the buffers of four bytes per character that the code allocates.
\<close>

theorem cescape_roundtrip:
  "cunescape (cescape s) = Some s \<and> cunescape (xescape s bad) = Some s \<and>
   length (cescape s) \<le> length s * 4 \<and> length (xescape s bad) \<le> length s * 4"
  using cunescape_cescape_loop cunescape_xescape_loop cescape_length [of s] xescape_length [of s bad]
  by (simp add: cunescape_def cunescape_length_def mult.commute)

text \<open>
  D-Bus object path escaping is reversible, uses only letters, digits and the underscore, and
  fits the buffer of three bytes per character.
\<close>

theorem bus_path_escape_roundtrip:
  "bus_path_unescape (bus_path_escape s) = s \<and>
   list_all (\<lambda>c. bus_path_char c \<or> c = CHR ''_'') (bus_path_escape s) \<and>
   length (bus_path_escape s) \<le> length s * 3"
proof -
  have hex: "bus_path_char (hexchar x)" for x
  proof -
    have "nat (x AND 15) < length ''0123456789abcdef''" by (simp add: and_15)
    then have "hexchar x \<in> set ''0123456789abcdef''" unfolding hexchar_def by (rule nth_mem)
    then show ?thesis by (auto simp: bus_path_char_def schar_def)
  qed
  have "list_all (\<lambda>c. bus_path_char c \<or> c = CHR ''_'') (bus_path_escape s)"
    by (induction s) (auto simp: hex_hi_def hex_lo_def hex)
  then show ?thesis using bus_path_roundtrip bus_path_escape_length [of s] by (simp add: mult.commute)
qed

subsection \<open>Words\<close>

text \<open>
  \<open>strv_split\<close> returns the non-empty pieces between separators, and, if the string ends in a
  separator, one more empty word after them.
\<close>

theorem strv_split_pieces:
  "strv_split s sep = nonempty (pieces sep s) @ (if s \<noteq> [] \<and> last s \<in> set sep then [[]] else [])"
  by (simp add: strv_split_def foreach_word_pieces)

text \<open>
  Quoting is understood: a line of words, each escaped with \<open>cescape\<close> and put in double quotes,
  is split by \<open>strv_split_quoted\<close> into exactly these words, whatever bytes they contain.
\<close>

theorem strv_split_quoted_roundtrip:
  "strv_split_quoted (strv_join (Some (map quote_word l)) None) = Some l"
proof (cases l)
  case Nil
  then show ?thesis
    by (simp add: strv_split_quoted_def strv_join_def strv_items_def foreach_word_quoted.simps split_quoted_def)
next
  case (Cons w ws)
  have "strv_join_loop '' '' [] (map quote_word l) = quote_word w @ concat (map (\<lambda>x. '' '' @ quote_word x) ws)"
    by (simp add: Cons strv_join_Cons quote_word_def comp_def)
  then show ?thesis
    using split_quoted_words [of "[]" w ws]
    by (simp add: strv_split_quoted_def strv_join_def strv_items_def Cons)
qed

text \<open>
  C38: No word is unescaped past its buffer: for every word \<open>split_quoted\<close> finds,
  \<open>cunescape_length\<close> stays inside the string and writes at most the \<open>length\<close> bytes it
  allocated (besides the final NUL).
\<close>

theorem cunescape_word_fits:
  assumes "split_quoted s = Some (w, l, t)"
  shows "l \<le> length w \<and> (\<exists>r. cunescape_length w l = Some r \<and> length r \<le> l)"
proof -
  let ?q = "chr_at (drop (strspn s WHITESPACE) s) 0"
  define stop where "stop = (if ?q = CHR 0x27 \<or> ?q = CHR 0x22 then (\<lambda>c. c = ?q) else (\<lambda>c. c \<in> set WHITESPACE))"
  have stop: "word_stop stop" "l = word_end stop False w"
    using assms by (auto simp: stop_def split_quoted_def word_stop_def Let_def split: if_splits)
  then have "l \<le> length w" using word_end_le by simp
  moreover then obtain r where "cunescape_loop l w = Some r" using cunescape_total by blast
  ultimately show ?thesis using cunescape_fits [OF stop(1), of w] stop(2) by (auto simp: cunescape_length_def)
qed

theorem cunescape_word_fits_witness:
  "\<exists>w l t. split_quoted (''a'' @ [backslash] @ ''x20b c'') = Some (w, l, t) \<and> (\<exists>r. cunescape_length w l = Some r \<and> length r \<le> l)"
proof -
  have "\<exists>w l t. split_quoted (''a'' @ [backslash] @ ''x20b c'') = Some (w, l, t)" by (auto simp: split_quoted_def Let_def)
  then show ?thesis using cunescape_word_fits by fast
qed

subsection \<open>Environments\<close>

text \<open>
  C35: \<open>strv_env_merge\<close> of environment blocks with an \<open>=\<close> in every entry is the union of the maps
  they stand for, a later entry overriding an earlier one; the result names no variable twice, and
  \<open>strv_env_get\<close> reads it.
\<close>

theorem strv_env_merge_refinement:
  assumes "list_all (\<lambda>l. list_all wf_entry (strv_items l)) ls" "CHR ''='' \<notin> set name"
  shows "strv_env_get (Some (strv_env_merge ls)) name =
      foldl (++) Map.empty (map (\<lambda>l. env_of (strv_items l)) ls) name \<and>
    distinct (map env_key (strv_env_merge ls))"
proof -
  have "wf_block []" "env_map [] = Map.empty" by (simp_all add: wf_block_def env_map_def)
  then show ?thesis
    using env_merge_map [OF assms(1), of "[]"] strv_env_get_map [OF assms(2), of "strv_env_merge ls"]
    by (simp add: strv_env_merge_def wf_block_def)
qed

theorem strv_env_merge_refinement_witness:
  "strv_env_get (Some (strv_env_merge [Some [''A=1'', ''B=2''], None, Some [''A=3'']])) ''A'' = Some ''3''"
proof -
  have "list_all (\<lambda>l. list_all wf_entry (strv_items l)) [Some [''A=1'', ''B=2''], None, Some [''A=3'']]"
    by (simp add: strv_items_def wf_entry_def)
  from strv_env_merge_refinement [OF this, of "''A''"] show ?thesis
    by (simp add: strv_items_def env_of_def env_key_def env_val_def)
qed

text \<open>
  C40: The three-state scanner of \<open>replace_env\<close> computes the substitution \<open>expand\<close>: \<open>${NAME}\<close>
  becomes the value of the variable or nothing, \<open>$$\<close> becomes \<open>$\<close>, an unterminated \<open>${\<close> and
  everything else stays as it is.
\<close>

theorem replace_env_equivalence: "replace_env fmt env = expand env fmt"
  by (rule replace_env_expand)

subsection \<open>Paths\<close>

text \<open>
  The lexical path functions agree with the list of path components: two paths are equal
  (one starts with the other) iff both or neither are absolute and the components are equal (a
  prefix), and \<open>path_kill_slashes\<close> rebuilds the path from its components.
\<close>

theorem path_functions_components:
  "(path_equal a b \<longleftrightarrow> path_is_absolute a = path_is_absolute b \<and> components a = components b) \<and>
   (path_startswith a b \<longleftrightarrow> path_is_absolute a = path_is_absolute b \<and> prefix (components b) (components a)) \<and>
   path_kill_slashes a = (if path_is_absolute a then ''/'' else []) @ join_path (components a)"
  by (simp add: path_equal_def path_startswith_def path_is_absolute_def path_equal_loop_components
      path_startswith_loop_components path_kill_slashes_components)

subsection \<open>Unit names\<close>

text \<open>
  C36: \<open>unit_name_unescape\<close> undoes \<open>unit_name_escape\<close> for every string, and a name built by
  \<open>unit_name_build_escape\<close> from any non-empty prefix and instance is a valid unit name whose
  parts are the escaped arguments, unless it is too long.
\<close>

theorem unit_name_build_escape_valid:
  assumes "pre \<noteq> []" "inst \<noteq> Some []" "is_suffix suf"
    and "length (unit_name_build_escape pre inst suf) < UNIT_NAME_MAX"
  shows "unit_name_is_valid_no_type (unit_name_build_escape pre inst suf) False \<and>
    map_option unit_name_unescape (unit_name_to_prefix (unit_name_build_escape pre inst suf)) = Some pre \<and>
    map_option (map_option unit_name_unescape) (unit_name_to_instance (unit_name_build_escape pre inst suf)) =
      Some inst"
proof (cases inst)
  case None
  have "do_escape pre \<noteq> []" using assms(1) by simp
  then show ?thesis
    using assms(3,4) valid_name_plain [OF do_escape_valid [of pre] _ assms(3), of False]
      name_parts_plain [OF do_escape_valid [of pre] assms(3)]
    by (simp add: None unit_name_build_escape_def unescape_do_escape)
next
  case (Some i)
  have "do_escape pre \<noteq> []" "do_escape i \<noteq> []" using assms(1,2) Some by simp_all
  moreover have "list_all (\<lambda>c. c = at_sign \<or> c \<in> set VALID_CHARS) (do_escape i)"
    using do_escape_valid [of i] by (auto simp: list_all_iff)
  ultimately show ?thesis
    using assms(3,4) valid_name_instance [OF do_escape_valid [of pre] _ assms(3), of "do_escape i" False]
      name_parts_instance [OF do_escape_valid [of pre] assms(3), of "do_escape i"]
    by (simp add: Some unit_name_build_escape_def unescape_do_escape)
qed

theorem unit_name_build_escape_valid_witness:
  "unit_name_is_valid_no_type (unit_name_build_escape ''foo'' (Some ''a-b'') ''.service'') False"
proof -
  have s: "is_suffix ''.service''" by (simp add: is_suffix_def)
  have "length (unit_name_build_escape ''foo'' (Some ''a-b'') ''.service'') < UNIT_NAME_MAX"
    by (simp add: unit_name_build_escape_def UNIT_NAME_MAX_def)
  then show ?thesis using unit_name_build_escape_valid [OF _ _ s, of "''foo''" "Some ''a-b''"] by simp
qed

text \<open>
  C37: A path survives the way through a unit name: \<open>unit_name_to_path\<close> of
  \<open>unit_name_from_path\<close> is the normalised absolute path.
\<close>

theorem unit_name_path_roundtrip:
  assumes "is_suffix suf"
  shows "unit_name_to_path (unit_name_from_path path suf) = Some (slash # join_path (components path))"
proof (cases "components path = []")
  case True
  have "set ''-'' \<subseteq> set VALID_CHARS" using escape_chars_valid by simp
  from name_parts_plain [OF this assms] show ?thesis
    using True by (simp add: unit_name_from_path_def unit_name_to_path_def strip_root_components
        strappend_def strnappend_def root_path_def)
next
  case False
  then show ?thesis
    using name_parts_plain [OF do_escape_valid assms] strip_root_components [of path]
    by (simp add: unit_name_from_path_def unit_name_to_path_def unit_name_build_escape_def
        unescape_do_escape root_path_def strappend_def strnappend_def)
qed

theorem unit_name_path_roundtrip_witness:
  "unit_name_to_path (unit_name_from_path ''//dev//my-disk/'' ''.mount'') = Some ''/dev/my-disk''"
proof -
  have "is_suffix ''.mount''" by (simp add: is_suffix_def)
  from unit_name_path_roundtrip [OF this, of "''//dev//my-disk/''"] show ?thesis
    by (simp add: components.simps)
qed

text \<open>
  The path in the instance part of a name is read back the same way, except for the root
  directory: \<open>unit_name_from_path_instance\<close> escapes the dash that stands for it, so it comes
  back as \<open>/-\<close>.
\<close>

theorem unit_name_path_instance:
  assumes "is_suffix suf"
  shows "map_option (map_option unit_name_path_unescape)
      (unit_name_to_instance (unit_name_from_path_instance pre path suf)) =
    Some (Some (if components path = [] then ''/-'' else slash # join_path (components path)))"
proof -
  define q where "q = (if components path = [] then ''-'' else join_path (components path))"
  have "unit_name_from_path_instance pre path suf = do_escape pre @ at_sign # do_escape q @ suf"
    using strip_root_components(1,2) [of path]
    by (simp add: unit_name_from_path_instance_def unit_name_build_escape_def q_def del: do_escape.simps)
  moreover have "unit_name_path_unescape (do_escape q) = slash # q"
    using strip_root_components(3) [of path]
    by (auto simp: unit_name_path_unescape_def unescape_do_escape root_path_def strappend_def strnappend_def q_def)
  ultimately show ?thesis
    using name_parts_instance(2) [OF do_escape_valid [of pre] assms, of "do_escape q"] by (simp add: q_def)
qed

theorem unit_name_path_instance_witness:
  "map_option (map_option unit_name_path_unescape)
      (unit_name_to_instance (unit_name_from_path_instance ''fsck'' ''/'' ''.service'')) = Some (Some ''/-'')"
proof -
  have "is_suffix ''.service''" by (simp add: is_suffix_def)
  from unit_name_path_instance [OF this, of "''fsck''" "''/''"] show ?thesis by simp
qed

subsection \<open>Time spans and tables\<close>

text \<open>
  C39: The result of \<open>format_timespan\<close> can be parsed with \<open>parse_usec\<close>, as its comment says: for
  every time span but \<open>(usec_t) -1\<close> and a buffer of at least \<open>FORMAT_TIMESPAN_MAX\<close> bytes nothing
  is written outside the buffer, and parsing the text gives the same number of microseconds.
\<close>

theorem format_timespan_roundtrip:
  assumes "t \<noteq> - 1" "64 \<le> l"
  shows "\<exists>s. format_timespan l t = Some (Some s) \<and> parse_usec s = Inr t"
  using assms by (rule format_parse_span)

theorem format_timespan_roundtrip_witness:
  "\<exists>s. format_timespan 64 90061000001 = Some (Some s) \<and> parse_usec s = Inr 90061000001"
  by (rule format_timespan_roundtrip) simp_all

text \<open>
  In every string table of the unit and job code \<open>from_string\<close> inverts \<open>to_string\<close>.
\<close>

theorem string_tables_roundtrip:
  assumes "table \<in> set string_tables" "table_to_string table i = Some s"
  shows "table_from_string table s = i"
proof -
  have "string_table table" using assms(1) string_tables_distinct by (simp add: list_all_iff)
  then show ?thesis using assms(2) by (rule string_table.from_to)
qed

theorem string_tables_roundtrip_witness: "table_from_string service_restart_table ''on-failure'' = 2"
proof -
  have "service_restart_table \<in> set string_tables" by (simp add: string_tables_def)
  moreover have "table_to_string service_restart_table 2 = Some ''on-failure''"
    by (simp add: table_to_string_def service_restart_table_def)
  ultimately show ?thesis by (rule string_tables_roundtrip)
qed

end
