(* ===== verification/Spec2Isabelle.thy ===== *)
theory Spec2Isabelle
  imports Hashmap_Properties Transaction_Properties Job_Properties Unit_Properties Service_Properties
    Mount_Properties Swap_Properties Socket_Properties Text_Properties
begin

text \<open>
  \<^bold>\<open>Verification of the core of systemd\<close>

  systemd is the first process of a Linux system.  Its manager (\<open>src/src/manager.c\<close>) keeps a graph of
  units (\<open>unit.c\<close>), turns a request to start or stop a unit into a transaction of jobs (\<open>manager.c\<close>),
  installs the jobs, and runs them in the order the units ask for (\<open>job.c\<close>).  A job that runs calls the
  unit type's method; services, mounts, swaps and sockets (\<open>service.c\<close>, \<open>mount.c\<close>, \<open>swap.c\<close>, \<open>socket.c\<close>)
  then run processes under timeouts, and every change of a unit's state goes back to the job engine through
  \<open>unit_notify\<close>.  Units, jobs and strings are
  kept in hash tables (\<open>hashmap.c\<close>, \<open>set.c\<close>) and string vectors (\<open>strv.c\<close>); names, paths, numbers
  and times are read and written by \<open>unit-name.c\<close> and \<open>util.c\<close>.  The theories model these parts and prove
  what the rest of the program relies on.

  \<^bold>\<open>How the code is modelled.\<close>  A C struct is a record, an enum a datatype, an unsigned counter a word of
  its width where it can wrap around.  Objects that the code allocates and frees (jobs, job
  dependencies) live in stores inside the manager record and are addressed by references, so a
  dangling pointer is a reference that is not in its store; units are addressed in the same way.
  Intrusive lists are lists of references.  An operation on the manager is a function
  \<open>manager \<Rightarrow> manager option\<close> or \<open>manager \<Rightarrow> ((errno + 'a) \<times> manager) option\<close>: the sum is
  the return value with its negative error codes, and \<open>None\<close> is an execution without a result
  (an access to freed memory, a failed assertion, an endless loop).  A theorem that gives \<open>Some\<close> is therefore a proof
  of memory safety, of the assertions, and of termination.  The unit types that run processes are
  modelled one unit at a time: what they ask of the kernel, the control groups, the manager and
  other units is answered by a record of functions (\<open>exec_env\<close>, for sockets also \<open>socket_env\<close>), every call with an
  effect is appended to the unit's log (\<open>x_log\<close>), an answer may depend on the log, and theorems quantify over
  all answers and all sequences of events.  Log lines, D-Bus messages,
  audit records, timestamps and failing allocations are left out unless a theory says otherwise.

  \<^bold>\<open>The theories.\<close>
  \<^item> \<open>Prelude\<close>: error codes, the collections of rewrite rules, lemmas on lists and options.
  \<^item> \<open>Ordered_Map\<close>, \<open>Hashmap\<close>, \<open>Hashmap_Properties\<close>: the insertion-ordered map that every client of
    a hash table sees, as a locale; the table of \<open>hashmap.c\<close> with its buckets, its iteration
    list and its iterators; and the proof that the table implements the map (put, get, remove,
    replace, move, iteration), by an invariant and an abstraction function.
  \<^item> \<open>Job_Type\<close>: the enums of \<open>job.h\<close> and \<open>unit.h\<close> and the tables of \<open>job.c\<close>; merging
    job types is a least upper bound.
  \<^item> \<open>Manager_State\<close>, \<open>Transaction\<close>, \<open>Transaction_Build\<close>: the manager, and every \<open>transaction_\<close> function of
    \<open>manager.c\<close> up to \<open>manager_add_job\<close>.
  \<^item> \<open>Transaction_Inv\<close>, \<open>Transaction_Delete\<close>, \<open>Transaction_Prune\<close>, \<open>Transaction_Order\<close>,
    \<open>Transaction_Merge\<close>, \<open>Transaction_Pruned\<close>, \<open>Transaction_Apply\<close>, \<open>Transaction_Add\<close>, \<open>Transaction_Activate\<close>: the invariant of
    a manager with a transaction, and for every phase what it keeps and achieves;
    \<open>Transaction_Properties\<close> collects the theorems and \<open>Sample_Manager\<close> the managers
    on which they are instantiated.  The main theorem says that a request always ends, that on success
    the unit has an installed job that covers it, and that on failure nothing has changed but the marks and
    the \<open>override\<close> and \<open>ignore_order\<close> flags of installed jobs.  \<open>Transaction_Pruned\<close> says which jobs the
    pruning steps drop in terms of the units and the links, without the tests of the code.
  \<^item> \<open>Job_Engine\<close>, \<open>Job_Finish\<close>, \<open>Job_Properties\<close>: which job may run, running and finishing a job, the
    jobs that fail with it, the run queue, and \<open>unit_notify\<close>, with targets (\<open>target.c\<close>) as the
    unit type.  Jobs make progress as long as the order is acyclic, ordered jobs exclude each other, and finishing
    a job removes exactly the jobs it has to, as long as no \<open>OnFailure=\<close> unit is triggered.
  \<^item> \<open>Unit_Graph\<close>, \<open>Unit_GC\<close>, \<open>Unit_Properties\<close>: names, dependencies, merging and freeing of units and
    their garbage collection.  Dependencies stay consistent, merging is a quotient of the graph, and the collector
    frees exactly the units that nobody needs and leaves no way to a freed unit.
  \<^item> \<open>Unit_Exec\<close>: timers, watched pids, exit codes, signals and rate limits (\<open>unit.c\<close>, \<open>execute.c\<close>,
    \<open>exit-status.c\<close>, \<open>ratelimit.c\<close>), and the environment \<open>exec_env\<close>.
  \<^item> \<open>Service\<close>, \<open>Service_Events\<close>: the states, operations and event handlers of \<open>service.c\<close>;
    \<open>Service_Inv\<close>, \<open>Service_Up\<close>, \<open>Service_Ok\<close>, \<open>Service_Events_Ok\<close>, \<open>Service_Step\<close>, \<open>Service_Live\<close>: the
    invariant between state, processes and timer, the step relation on services, and the measure
    that every timeout of a stopping service lowers; \<open>Service_Properties\<close> has the theorems.
  \<^item> \<open>Supervised\<close>, \<open>Control_Machine\<close>: what mounts, swaps and sockets share.  The locale \<open>supervised\<close> is
    the promise that a busy unit has its timer armed and that timeouts bring it to rest, \<open>notifying\<close> the promise that
    every change of the active state is told in order, and \<open>control_machine\<close> the law of the function that
    changes the state, from which the code that the three unit types share is proved once.
  \<^item> \<open>Mount\<close>, \<open>Mount_Ok\<close>, \<open>Mount_Properties\<close>: \<open>mount.c\<close> with the table of mounts; the three locales
    are interpreted on its functions, and reading the table is shown to act on every unit as its own step.
  \<^item> \<open>Swap\<close>, \<open>Swap_Ok\<close>, \<open>Swap_Properties\<close>: \<open>swap.c\<close> with the chains of units for one device.
  \<^item> \<open>Socket\<close>, \<open>Socket_Ok\<close>, \<open>Socket_Properties\<close>: \<open>socket.c\<close> with its ports, connections and the service it
    starts; the same contracts, ports that are watched and open only in the states that need them, and
    the limit on connections.
  \<^item> \<open>C_String\<close>, \<open>Util_Escape\<close>, \<open>Util_Text\<close>, \<open>Util_Path\<close>, \<open>Unit_Name\<close>, \<open>Strv\<close>, \<open>Util_Parse\<close>,
    \<open>String_Tables\<close>: strings as lists of bytes without the final NUL, escaping, splitting, paths, unit names,
    string vectors and environments, numbers, time spans, sizes and the string tables of the enums;
    \<open>Strv_Correct\<close>, \<open>Parse_Correct\<close> and \<open>Text_Properties\<close> prove round trips, bounds and
    equivalences with reference definitions.

  \<^bold>\<open>Bounds.\<close>  Recursions that the code ends by its own marks are \<open>partial_function\<close>s or take a depth:
  \<open>job_finish_and_invalidate\<close> and \<open>unit_gc_sweep\<close> get a depth that the theorems bound by
  one more than the number of jobs or units; \<open>manager_add_job\<close> needs none.  Mounts and swaps are at rest after
  three timeouts, services and sockets after a number that grows with the commands configured.  Job ids are 32 bit words and
  wrap around; the theorem on requests assumes that they have not done so yet and that enough are left for
  one request (\<open>ids_left\<close>).  Generations of jobs, the manager's other counters and the number of entries of a
  hash table are natural numbers where the code has unsigned ones.

  \<^bold>\<open>Not modelled.\<close>  For services, mounts, swaps and sockets: loading with the dependencies added then, coldplug
  and serialization, dumping, and the process that \<open>exec_spawn\<close> forks.  The state machines of automounts, devices,
  timers, paths and snapshots; reading unit files and \<open>/etc/fstab\<close>; installation of unit files; the event loop,
  D-Bus, control groups and the file system; the login manager and the command line tools.  These are
  mostly system calls and library calls; the remaining state machines and the parser are the next
  candidates.
\<close>

end
